(* ===== verification/Prelude.thy ===== *)
theory Prelude
  imports Main "HOL-Library.Word" "HOL-Library.Char_ord" "HOL-Library.List_Lexorder"
    "HOL-Library.Product_Lexorder"
begin

text \<open>
  What every theory of the development shares: the names of the machine integers, the two
  outcome types the translated code returns, checked indexing, loops that may abort, and
  the lemma collections the component theories extend.

  Rust's fallible operations come in three forms, and each keeps its own type here. A panic
  (an index out of range, a failed assertion, an \<open>unwrap\<close> on \<open>None\<close>) is the value
  \<open>None\<close> of an \<open>option\<close>. A function that returns \<open>Result\<close> returns an outcome:
  \<open>Ok\<close>, \<open>Err\<close>, or \<open>Overrun\<close> where the recursion outgrows the fuel that stands for the
  call stack.
\<close>

section \<open>Machine integers\<close>

type_synonym u8 = "8 word"
type_synonym u16 = "16 word"
type_synonym u32 = "32 word"
type_synonym u64 = "64 word"
type_synonym i64 = "64 word"

unbundle bit_operations_syntax

section \<open>Lemma collections\<close>

named_theorems run_simps \<open>unfolding rules of the outcome types and of aborting loops\<close>
named_theorems wf_intros \<open>introduction rules for the well-formedness invariants\<close>

section \<open>Checked indexing\<close>

definition nth_opt :: "'a list \<Rightarrow> nat \<Rightarrow> 'a option" where
  "nth_opt xs i = (if i < length xs then Some (xs ! i) else None)"

lemma nth_opt_Some [simp]: "i < length xs \<Longrightarrow> nth_opt xs i = Some (xs ! i)"
  by (simp add: nth_opt_def)

lemma nth_opt_None [simp]: "length xs \<le> i \<Longrightarrow> nth_opt xs i = None"
  by (simp add: nth_opt_def)

lemma nth_opt_eq_Some: "nth_opt xs i = Some x \<longleftrightarrow> i < length xs \<and> xs ! i = x"
  by (simp add: nth_opt_def)

lemma nth_opt_in_set: "nth_opt xs i = Some x \<Longrightarrow> x \<in> set xs"
  by (auto simp: nth_opt_eq_Some)

lemma nth_opt_map: "nth_opt (map f xs) i = map_option f (nth_opt xs i)"
  by (simp add: nth_opt_def)

section \<open>Loops that may abort\<close>

text \<open>A \<open>for\<close> loop over a list whose body may panic.\<close>

fun ofold :: "('x \<Rightarrow> 's \<Rightarrow> 's option) \<Rightarrow> 'x list \<Rightarrow> 's \<Rightarrow> 's option" where
  "ofold f [] s = Some s"
| "ofold f (x # xs) s = (case f x s of None \<Rightarrow> None | Some s' \<Rightarrow> ofold f xs s')"

lemma ofold_append: "ofold f (xs @ ys) s = Option.bind (ofold f xs s) (ofold f ys)"
  by (induction xs arbitrary: s) (auto split: option.splits)

lemma ofold_invariant:
  assumes "\<And>x s. x \<in> set xs \<Longrightarrow> P s \<Longrightarrow> \<exists>s'. f x s = Some s' \<and> P s'" and "P s"
  shows "\<exists>s'. ofold f xs s = Some s' \<and> P s'"
  using assms
proof (induction xs arbitrary: s)
  case Nil
  then show ?case by simp
next
  case (Cons x xs)
  from Cons.prems obtain s1 where s1: "f x s = Some s1" "P s1"
    by (metis list.set_intros(1))
  have "\<exists>s'. ofold f xs s1 = Some s' \<and> P s'"
    by (rule Cons.IH) (use Cons.prems s1 in auto)
  with s1 show ?case by simp
qed

section \<open>Outcomes\<close>

datatype ('e, 'a) outcome = Overrun | Err 'e | Ok 'a

fun obind :: "('e, 'a) outcome \<Rightarrow> ('a \<Rightarrow> ('e, 'b) outcome) \<Rightarrow> ('e, 'b) outcome" where
  "obind Overrun f = Overrun"
| "obind (Err e) f = Err e"
| "obind (Ok a) f = f a"

lemma obind_cong [fundef_cong]:
  "m = m' \<Longrightarrow> (\<And>a. m' = Ok a \<Longrightarrow> f a = g a) \<Longrightarrow> obind m f = obind m' g"
  by (cases m') auto

lemma obind_eq_Ok [run_simps]: "obind m f = Ok b \<longleftrightarrow> (\<exists>a. m = Ok a \<and> f a = Ok b)"
  by (cases m) auto

lemma obind_eq_Overrun [run_simps]:
  "obind m f = Overrun \<longleftrightarrow> m = Overrun \<or> (\<exists>a. m = Ok a \<and> f a = Overrun)"
  by (cases m) auto

lemma obind_eq_Err [run_simps]:
  "obind m f = Err e \<longleftrightarrow> m = Err e \<or> (\<exists>a. m = Ok a \<and> f a = Err e)"
  by (cases m) auto

text \<open>A \<open>for\<close> loop whose body uses the \<open>?\<close> operator.\<close>

fun rfold :: "('x \<Rightarrow> 's \<Rightarrow> ('e, 's) outcome) \<Rightarrow> 'x list \<Rightarrow> 's \<Rightarrow> ('e, 's) outcome" where
  "rfold f [] s = Ok s"
| "rfold f (x # xs) s = obind (f x s) (rfold f xs)"

lemma rfold_cong [fundef_cong]:
  assumes "xs = ys" and "s = t" and "\<And>x u. x \<in> set ys \<Longrightarrow> f x u = g x u"
  shows "rfold f xs s = rfold g ys t"
  using assms(3) unfolding assms(1,2)
proof (induction ys arbitrary: t)
  case Nil
  then show ?case by simp
next
  case (Cons y ys)
  then show ?case by (cases "g y t") auto
qed

lemma rfold_invariant:
  assumes "rfold f xs s = Ok t" and "P s"
    and "\<And>x u v. x \<in> set xs \<Longrightarrow> P u \<Longrightarrow> f x u = Ok v \<Longrightarrow> P v"
  shows "P t"
  using assms
proof (induction xs arbitrary: s)
  case Nil
  then show ?case by simp
next
  case (Cons x xs)
  from Cons.prems(1) obtain u where u: "f x s = Ok u" "rfold f xs u = Ok t"
    by (auto simp: run_simps)
  have "P u" using Cons.prems u by (meson list.set_intros(1))
  then show ?case using Cons.IH [OF u(2)] Cons.prems(3) by (meson list.set_intros(2))
qed

lemma rfold_no_overrun:
  assumes "\<And>x u. x \<in> set xs \<Longrightarrow> f x u \<noteq> Overrun"
  shows "rfold f xs s \<noteq> Overrun"
  using assms by (induction xs arbitrary: s) (auto simp: run_simps)

text \<open>A \<open>for\<close> loop that maps every element, in order, and stops at the first error.\<close>

fun rmap :: "('x \<Rightarrow> ('e, 'y) outcome) \<Rightarrow> 'x list \<Rightarrow> ('e, 'y list) outcome" where
  "rmap f [] = Ok []"
| "rmap f (x # xs) = obind (f x) (\<lambda>y. obind (rmap f xs) (\<lambda>ys. Ok (y # ys)))"

lemma rmap_cong [fundef_cong]:
  assumes "xs = ys" and "\<And>x. x \<in> set ys \<Longrightarrow> f x = g x"
  shows "rmap f xs = rmap g ys"
  using assms(2) unfolding assms(1) by (induction ys) auto

lemma rmap_eq_Ok: "rmap f xs = Ok ys \<longleftrightarrow> list_all2 (\<lambda>x y. f x = Ok y) xs ys"
  by (induction xs arbitrary: ys) (auto simp: run_simps list_all2_Cons1)

lemma rmap_no_overrun: "(\<And>x. x \<in> set xs \<Longrightarrow> f x \<noteq> Overrun) \<Longrightarrow> rmap f xs \<noteq> Overrun"
  by (induction xs) (auto simp: run_simps)

section \<open>Lists\<close>

lemma filter_upt_sorted: "sorted (filter P [m..<n])"
  by (simp add: sorted_wrt_filter)

lemma find_eq_Some_in_set: "List.find P xs = Some x \<Longrightarrow> x \<in> set xs \<and> P x"
  by (auto simp: find_Some_iff)

lemma find_eq_None: "List.find P xs = None \<longleftrightarrow> (\<forall>x \<in> set xs. \<not> P x)"
  by (auto simp: find_None_iff)

end
