(* ===== verification/Bit_Words.thy ===== *)
theory Bit_Words
  imports Prelude
begin

text \<open>
  Bit vectors stored as lists of 64-bit words, the representation that the solver's
  candidate sets and the initialisation trackers of partial values share. The set of
  indices a vector stands for is \<open>vbits\<close>; the lemmas say what each word-level idiom of
  the code (shift and or, and-not, masks, population count) does to that set.
  The interface \<open>index_set\<close> is the contract both bit sets offer to the code that fills
  them in a loop.
\<close>

section \<open>One word\<close>

definition shl1 :: "nat \<Rightarrow> u64" where
  "shl1 b = push_bit b 1"

definition count_ones :: "u64 \<Rightarrow> nat" where
  "count_ones w = length (filter (bit w) [0..<64])"

definition trailing_zeros :: "u64 \<Rightarrow> nat" where
  "trailing_zeros w = length (takeWhile (\<lambda>b. \<not> bit w b) [0..<64])"

lemma bit_shl1 [simp]: "bit (shl1 b) i \<longleftrightarrow> i = b \<and> b < 64"
  by (auto simp: shl1_def bit_simps)

lemma word_eq_zero_iff_bit: "(w :: u64) = 0 \<longleftrightarrow> (\<forall>b < 64. \<not> bit w b)"
  by (auto simp: bit_eq_iff dest: bit_imp_le_length)

lemma word_eq_ones_iff_bit: "(w :: u64) = -1 \<longleftrightarrow> (\<forall>b < 64. bit w b)"
  by (auto simp: bit_eq_iff bit_simps)

lemma test_shl1: "b < 64 \<Longrightarrow> w AND shl1 b \<noteq> 0 \<longleftrightarrow> bit w b"
  by (auto simp: word_eq_zero_iff_bit bit_and_iff)

lemma test_shl1_zero: "b < 64 \<Longrightarrow> w AND shl1 b = 0 \<longleftrightarrow> \<not> bit w b"
  using test_shl1 by blast

lemma low_mask: "n < 64 \<Longrightarrow> shl1 n - 1 = mask n"
  by (simp add: shl1_def mask_eq_exp_minus_1 push_bit_eq_mult)

lemma mask_test: "n < 64 \<Longrightarrow> w AND mask n = mask n \<longleftrightarrow> (\<forall>b < n. bit (w :: u64) b)"
  by (auto simp: bit_eq_iff bit_simps) (meson order.strict_trans)

lemma takeWhile_first:
  assumes "\<exists>b \<in> set xs. P b"
  shows "length (takeWhile (\<lambda>b. \<not> P b) xs) < length xs
    \<and> P (xs ! length (takeWhile (\<lambda>b. \<not> P b) xs))"
  using assms by (induction xs) auto

lemma trailing_zeros_bit:
  assumes "w \<noteq> 0"
  shows "trailing_zeros w < 64" and "bit w (trailing_zeros w)"
    and "b < trailing_zeros w \<Longrightarrow> \<not> bit w b"
proof -
  have "\<exists>b \<in> set [0..<64]. bit w b"
    using assms word_eq_zero_iff_bit by auto
  from takeWhile_first [OF this] show lt: "trailing_zeros w < 64"
    and "bit w (trailing_zeros w)"
    by (auto simp: trailing_zeros_def)
  show "\<not> bit w b" if "b < trailing_zeros w"
  proof -
    have "b < length (takeWhile (\<lambda>b. \<not> bit w b) [0..<64])"
      using that by (simp add: trailing_zeros_def)
    from nth_mem [OF this] takeWhile_nth [OF this] show ?thesis
      using that lt set_takeWhileD by fastforce
  qed
qed

section \<open>Vectors of words\<close>

definition vbits :: "u64 list \<Rightarrow> nat set" where
  "vbits ws = {i. i < 64 * length ws \<and> bit (ws ! (i div 64)) (i mod 64)}"

definition vlist :: "u64 list \<Rightarrow> nat list" where
  "vlist ws = filter (\<lambda>i. bit (ws ! (i div 64)) (i mod 64)) [0..<64 * length ws]"

lemma set_vlist [simp]: "set (vlist ws) = vbits ws"
  by (auto simp: vlist_def vbits_def)

lemma sorted_vlist: "sorted (vlist ws)" and distinct_vlist: "distinct (vlist ws)"
  by (simp_all add: vlist_def filter_upt_sorted)

lemma finite_vbits [simp]: "finite (vbits ws)"
  by (rule finite_subset [of _ "{..<64 * length ws}"]) (auto simp: vbits_def)

lemma length_vlist: "length (vlist ws) = card (vbits ws)"
  by (metis distinct_card distinct_vlist set_vlist)

lemma vbits_bound: "i \<in> vbits ws \<Longrightarrow> i < 64 * length ws"
  by (simp add: vbits_def)

lemma vbits_zeros [simp]: "vbits (replicate n 0) = {}"
  by (auto simp: vbits_def)

lemma index_split: "b < 64 \<Longrightarrow> (64 * k + b) div 64 = (k :: nat) \<and> (64 * k + b) mod 64 = b"
  by simp

lemma index_eq: "b < 64 \<Longrightarrow> i = 64 * k + b \<longleftrightarrow> i div 64 = (k :: nat) \<and> i mod 64 = b"
  by auto

lemma vbits_index: "b < 64 \<Longrightarrow> 64 * k + b \<in> vbits ws \<longleftrightarrow> k < length ws \<and> bit (ws ! k) b"
  by (auto simp: vbits_def)

lemma vbits_snoc:
  "vbits (ws @ [w]) = vbits ws \<union> (\<lambda>b. 64 * length ws + b) ` {b. b < 64 \<and> bit w b}"
proof (rule set_eqI)
  fix i :: nat
  have i: "i = 64 * (i div 64) + i mod 64" by simp
  show "i \<in> vbits (ws @ [w])
    \<longleftrightarrow> i \<in> vbits ws \<union> (\<lambda>b. 64 * length ws + b) ` {b. b < 64 \<and> bit w b}"
  proof (cases "i div 64 < length ws")
    case True
    then have "i < 64 * length ws" by auto
    then show ?thesis using True by (auto simp: vbits_def nth_append)
  next
    case False
    then have ge: "64 * length ws \<le> i" by auto
    show ?thesis
    proof (cases "i div 64 = length ws")
      case True
      then show ?thesis using i ge
        by (auto simp: vbits_def nth_append image_iff intro!: exI [of _ "i mod 64"])
    next
      case neq: False
      then have "64 * length ws + 64 \<le> i" using False by auto
      then show ?thesis by (auto simp: vbits_def)
    qed
  qed
qed

lemma vlist_snoc:
  "vlist (ws @ [w]) = vlist ws @ map (\<lambda>b. 64 * length ws + b) (filter (bit w) [0..<64])"
proof -
  let ?n = "64 * length ws"
  have split: "[0..<64 * length (ws @ [w])] = [0..<?n] @ map (\<lambda>b. ?n + b) [0..<64]"
    using upt_add_eq_append [of 0 ?n 64] map_add_upt [of ?n 64] by (simp add: add.commute)
  have left: "filter (\<lambda>i. bit ((ws @ [w]) ! (i div 64)) (i mod 64)) [0..<?n] = vlist ws"
    unfolding vlist_def by (rule filter_cong) (auto simp: nth_append)
  have right: "filter (\<lambda>i. bit ((ws @ [w]) ! (i div 64)) (i mod 64)) (map (\<lambda>b. ?n + b) [0..<64])
      = map (\<lambda>b. ?n + b) (filter (bit w) [0..<64])"
    unfolding filter_map by (rule arg_cong [of _ _ "map _"]) (rule filter_cong, auto)
  show ?thesis
    using split left right by (simp add: vlist_def)
qed

lemma vbits_set_bit:
  assumes "k < length ws" and "b < 64"
  shows "vbits (ws[k := ws ! k OR shl1 b]) = insert (64 * k + b) (vbits ws)"
proof (rule set_eqI)
  fix i :: nat
  have i: "i = 64 * k + b \<longleftrightarrow> i div 64 = k \<and> i mod 64 = b"
    using assms(2) by (rule index_eq)
  show "i \<in> vbits (ws[k := ws ! k OR shl1 b]) \<longleftrightarrow> i \<in> insert (64 * k + b) (vbits ws)"
    using assms i by (cases "i div 64 = k")
      (auto simp: vbits_def nth_list_update bit_or_iff)
qed

lemma vbits_clear_bit:
  assumes "k < length ws" and "b < 64"
  shows "vbits (ws[k := ws ! k AND NOT (shl1 b)]) = vbits ws - {64 * k + b}"
proof (rule set_eqI)
  fix i :: nat
  have i: "i = 64 * k + b \<longleftrightarrow> i div 64 = k \<and> i mod 64 = b" and m: "i mod 64 < 64"
    using assms(2) index_eq by simp_all
  show "i \<in> vbits (ws[k := ws ! k AND NOT (shl1 b)]) \<longleftrightarrow> i \<in> vbits ws - {64 * k + b}"
    using assms i m by (cases "i div 64 = k")
      (auto simp: vbits_def nth_list_update bit_and_iff bit_not_iff)
qed

lemma vbits_map2_and:
  assumes "length ws = length vs"
  shows "vbits (map2 (AND) ws vs) = vbits ws \<inter> vbits vs"
  using assms by (auto simp: vbits_def bit_and_iff less_mult_imp_div_less mult.commute)

section \<open>The contract of an index set\<close>

locale index_set =
  fixes new :: "nat \<Rightarrow> 's"
    and ins :: "'s \<Rightarrow> nat \<Rightarrow> 's option"
    and elems :: "'s \<Rightarrow> nat set"
    and inv :: "nat \<Rightarrow> 's \<Rightarrow> bool"
  assumes inv_new: "inv n (new n)"
    and elems_new: "elems (new n) = {}"
    and ins_ok: "inv n s \<Longrightarrow> i < n \<Longrightarrow>
      \<exists>s'. ins s i = Some s' \<and> inv n s' \<and> elems s' = insert i (elems s)"
begin

text \<open>A loop that inserts every index of a list that satisfies a test never aborts, and
  adds exactly those indices.\<close>

lemma collect_if:
  assumes "inv n s" and "\<And>i. i \<in> set xs \<Longrightarrow> P i \<Longrightarrow> i < n"
  shows "\<exists>s'. ofold (\<lambda>i s. if P i then ins s i else Some s) xs s = Some s' \<and> inv n s'
    \<and> elems s' = elems s \<union> {i \<in> set xs. P i}"
  using assms
proof (induction xs arbitrary: s)
  case Nil
  then show ?case by simp
next
  case (Cons x xs)
  show ?case
  proof (cases "P x")
    case True
    then obtain s1 where s1: "ins s x = Some s1" "inv n s1" "elems s1 = insert x (elems s)"
      using ins_ok Cons.prems by (meson list.set_intros(1))
    have "\<exists>s'. ofold (\<lambda>i s. if P i then ins s i else Some s) xs s1 = Some s' \<and> inv n s'
        \<and> elems s' = elems s1 \<union> {i \<in> set xs. P i}"
      by (rule Cons.IH) (use s1 Cons.prems in auto)
    with True s1 show ?thesis by auto
  next
    case False
    have "\<exists>s'. ofold (\<lambda>i s. if P i then ins s i else Some s) xs s = Some s' \<and> inv n s'
        \<and> elems s' = elems s \<union> {i \<in> set xs. P i}"
      by (rule Cons.IH) (use Cons.prems in auto)
    with False show ?thesis by auto
  qed
qed

lemma collect_all:
  assumes "set xs \<subseteq> {..<n}"
  shows "\<exists>s'. ofold (\<lambda>i s. ins s i) xs (new n) = Some s' \<and> inv n s' \<and> elems s' = set xs"
  using collect_if [OF inv_new, of xs "\<lambda>_. True"] assms by (auto simp: elems_new)

end

end
