(* ===== verification/Resolution_Set.thy ===== *)
theory Resolution_Set
  imports Bit_Words
begin

text \<open>
  The solver's \<open>ResolutionSet\<close> (facet-solver/src/lib.rs): a set of resolution indices kept
  as a bit mask with a cached population count. Writing outside the mask panics, so
  \<open>rs_insert\<close> is partial; everything else is total. The lemmas say that the structure
  refines finite sets of indices below the number of resolutions, that the cached count is
  the cardinality, and that iteration is in increasing order.
\<close>

record rset =
  rs_bits :: "u64 list"
  rs_count :: nat

definition div_ceil :: "nat \<Rightarrow> nat \<Rightarrow> nat" where
  "div_ceil a b = (a + b - 1) div b"

definition rs_empty :: "nat \<Rightarrow> rset" where
  "rs_empty num_resolutions =
     (let num_words = div_ceil num_resolutions 64
      in \<lparr>rs_bits = replicate num_words 0, rs_count = 0\<rparr>)"

definition rs_full :: "nat \<Rightarrow> rset" where
  "rs_full num_resolutions =
     (let num_words = div_ceil num_resolutions 64;
          bits = replicate num_words (NOT 0)
      in \<lparr>rs_bits =
            (if num_resolutions mod 64 \<noteq> 0
             then bits[num_words - 1 := shl1 (num_resolutions mod 64) - 1] else bits),
          rs_count = num_resolutions\<rparr>)"

definition rs_insert :: "rset \<Rightarrow> nat \<Rightarrow> rset option" where
  "rs_insert s idx =
     (let word = idx div 64; bit = idx mod 64
      in case nth_opt (rs_bits s) word of
           None \<Rightarrow> None
         | Some w \<Rightarrow>
             if w AND shl1 bit = 0
             then Some (s\<lparr>rs_bits := (rs_bits s)[word := w OR shl1 bit],
                          rs_count := rs_count s + 1\<rparr>)
             else Some s)"

definition rs_intersect_with :: "rset \<Rightarrow> rset \<Rightarrow> rset" where
  "rs_intersect_with s other =
     (let zipped = map2 (AND) (rs_bits s) (rs_bits other)
      in \<lparr>rs_bits = zipped @ drop (length zipped) (rs_bits s),
          rs_count = sum_list (map count_ones zipped)\<rparr>)"

definition rs_intersects :: "rset \<Rightarrow> rset \<Rightarrow> bool" where
  "rs_intersects s other \<longleftrightarrow>
     list_ex (\<lambda>(a, b). a AND b \<noteq> 0) (zip (rs_bits s) (rs_bits other))"

definition rs_len :: "rset \<Rightarrow> nat" where
  "rs_len s = rs_count s"

definition rs_is_empty :: "rset \<Rightarrow> bool" where
  "rs_is_empty s \<longleftrightarrow> rs_count s = 0"

fun first_from :: "nat \<Rightarrow> u64 list \<Rightarrow> nat option" where
  "first_from word_idx [] = None"
| "first_from word_idx (word # ws) =
     (if word \<noteq> 0 then Some (word_idx * 64 + trailing_zeros word)
      else first_from (Suc word_idx) ws)"

definition rs_first :: "rset \<Rightarrow> nat option" where
  "rs_first s = first_from 0 (rs_bits s)"

definition rs_iter :: "rset \<Rightarrow> nat list" where
  "rs_iter s =
     concat (map (\<lambda>(word_idx, word).
       List.map_filter (\<lambda>bit. if word AND shl1 bit \<noteq> 0 then Some (word_idx * 64 + bit) else None)
         [0..<64])
       (enumerate 0 (rs_bits s)))"

section \<open>Invariant and abstraction\<close>

definition rs_elems :: "rset \<Rightarrow> nat set" where
  "rs_elems s = vbits (rs_bits s)"

definition rs_inv :: "nat \<Rightarrow> rset \<Rightarrow> bool" where
  "rs_inv n s \<longleftrightarrow> length (rs_bits s) = div_ceil n 64 \<and> rs_elems s \<subseteq> {..<n}
     \<and> rs_count s = card (rs_elems s)"

lemma div_ceil_mult: "n \<le> 64 * div_ceil n 64" and div_ceil_le: "64 * div_ceil n 64 < n + 64"
  by (simp_all add: div_ceil_def)

lemma split_mod_64:
  obtains q r where "n = 64 * q + r" and "r < (64 :: nat)"
proof (rule that)
  show "n = 64 * (n div 64) + n mod 64" by simp
  show "n mod 64 < 64" by simp
qed

lemma div_ceil_split: "r < 64 \<Longrightarrow> div_ceil (64 * q + r) 64 = (if r = 0 then q else Suc q)"
proof -
  assume r: "r < 64"
  show ?thesis
  proof (cases "r = 0")
    case True
    then show ?thesis by (simp add: div_ceil_def)
  next
    case False
    then have "1 \<le> r" by simp
    then have lo: "64 * Suc q \<le> 64 * q + r + 63" by simp
    have hi: "64 * q + r + 63 < 64 * Suc (Suc q)" using r by simp
    from lo hi have "(64 * q + r + 63) div 64 = Suc q" by (rule div_nat_eqI)
    then show ?thesis using False by (simp add: div_ceil_def)
  qed
qed

lemma div_less_div_ceil: "i < n \<Longrightarrow> i div 64 < div_ceil n 64"
  by (simp add: div_ceil_def)

lemma rs_inv_finite [simp]: "finite (rs_elems s)"
  by (simp add: rs_elems_def)

lemma rs_inv_count: "rs_inv n s \<Longrightarrow> rs_len s = card (rs_elems s)"
  by (simp add: rs_inv_def rs_len_def)

lemma rs_inv_bound: "rs_inv n s \<Longrightarrow> i \<in> rs_elems s \<Longrightarrow> i < n"
  by (auto simp: rs_inv_def)

lemma rs_is_empty_iff: "rs_inv n s \<Longrightarrow> rs_is_empty s \<longleftrightarrow> rs_elems s = {}"
  by (simp add: rs_inv_def rs_is_empty_def)

lemma rs_elems_empty [simp]: "rs_elems (rs_empty n) = {}"
  by (simp add: rs_elems_def rs_empty_def Let_def)

lemma rs_inv_empty [wf_intros]: "rs_inv n (rs_empty n)"
  by (simp add: rs_inv_def) (simp add: rs_empty_def Let_def)

lemma length_rs_full [simp]: "length (rs_bits (rs_full n)) = div_ceil n 64"
  by (simp add: rs_full_def Let_def)

lemma rs_full_nth:
  "k < div_ceil n 64 \<Longrightarrow> rs_bits (rs_full n) ! k
     = (if n mod 64 \<noteq> 0 \<and> k = div_ceil n 64 - 1 then mask (n mod 64) else NOT 0)"
  by (auto simp: rs_full_def Let_def nth_list_update low_mask simp del: bit.compl_zero)

lemma full_bit:
  assumes b: "b < 64" and k: "k < div_ceil n 64"
  shows "bit (rs_bits (rs_full n) ! k) b \<longleftrightarrow> 64 * k + b < n"
proof -
  obtain q r where n: "n = 64 * q + r" and r: "r < 64" by (rule split_mod_64)
  have md: "n mod 64 = r" using r unfolding n by simp
  have w: "div_ceil n 64 = (if r = 0 then q else Suc q)"
    unfolding n using r by (rule div_ceil_split)
  show ?thesis
  proof (cases "r \<noteq> 0 \<and> k = q")
    case True
    then have "bit (rs_bits (rs_full n) ! k) b \<longleftrightarrow> b < r"
      using b k w r by (simp add: rs_full_nth md bit_mask_iff del: bit.compl_zero)
    with True show ?thesis unfolding n by simp
  next
    case False
    then have "k < q" using k w by (auto split: if_splits)
    then have "64 * k + b < n" unfolding n using b by linarith
    moreover have "bit (rs_bits (rs_full n) ! k) b"
      using False b k w by (auto simp: rs_full_nth md bit_not_iff simp del: bit.compl_zero)
    ultimately show ?thesis by simp
  qed
qed

lemma rs_elems_full [simp]: "rs_elems (rs_full n) = {..<n}"
proof (rule set_eqI)
  fix i :: nat
  obtain k b where i: "i = 64 * k + b" and b: "b < 64"
    by (rule split_mod_64 [of i])
  have "i \<in> rs_elems (rs_full n) \<longleftrightarrow> k < div_ceil n 64 \<and> 64 * k + b < n"
    using vbits_index [OF b] full_bit [OF b] unfolding i rs_elems_def by auto
  also have "\<dots> \<longleftrightarrow> i < n"
    using div_less_div_ceil [of i n] i b by auto
  finally show "i \<in> rs_elems (rs_full n) \<longleftrightarrow> i \<in> {..<n}" by simp
qed

lemma rs_inv_full [wf_intros]: "rs_inv n (rs_full n)"
proof -
  have "length (rs_bits (rs_full n)) = div_ceil n 64"
    by (simp add: rs_full_def Let_def)
  moreover have "rs_count (rs_full n) = n"
    by (simp add: rs_full_def Let_def)
  ultimately show ?thesis by (simp add: rs_inv_def)
qed

lemma rs_insert_elems:
  assumes inv: "rs_inv n s" and lt: "idx < n"
  shows "\<exists>s'. rs_insert s idx = Some s' \<and> rs_inv n s' \<and> rs_elems s' = insert idx (rs_elems s)"
proof -
  let ?k = "idx div 64" and ?b = "idx mod 64"
  have b: "?b < 64" by simp
  have k: "?k < length (rs_bits s)"
    using inv lt by (simp add: rs_inv_def div_less_div_ceil)
  have idx: "64 * ?k + ?b = idx" by simp
  have mem: "bit (rs_bits s ! ?k) ?b \<longleftrightarrow> idx \<in> rs_elems s"
    using vbits_index [OF b, of ?k "rs_bits s"] k idx by (simp add: rs_elems_def)
  show ?thesis
  proof (cases "idx \<in> rs_elems s")
    case True
    then have "rs_insert s idx = Some s"
      using k b mem by (simp add: rs_insert_def Let_def test_shl1_zero)
    with True inv show ?thesis by (simp add: insert_absorb)
  next
    case False
    let ?s = "s\<lparr>rs_bits := (rs_bits s)[?k := rs_bits s ! ?k OR shl1 ?b],
                rs_count := rs_count s + 1\<rparr>"
    have "rs_insert s idx = Some ?s"
      using k b mem False by (simp add: rs_insert_def Let_def test_shl1_zero)
    moreover have el: "rs_elems ?s = insert idx (rs_elems s)"
      using vbits_set_bit [OF k b] idx by (simp add: rs_elems_def)
    moreover have "rs_inv n ?s"
      using inv lt False el by (simp add: rs_inv_def)
    ultimately show ?thesis by blast
  qed
qed

lemma count_ones_card: "count_ones w = card {b. b < 64 \<and> bit w b}"
proof -
  have "distinct (filter (bit w) [0..<64])" by simp
  from distinct_card [OF this] show ?thesis
    by (simp add: count_ones_def)
qed

lemma sum_count_ones: "sum_list (map count_ones ws) = card (vbits ws)"
proof (induction ws rule: rev_induct)
  case Nil
  then show ?case by (simp add: vbits_def)
next
  case (snoc w ws)
  have "length (vlist (ws @ [w])) = length (vlist ws) + count_ones w"
    by (simp add: vlist_snoc count_ones_def)
  with snoc show ?case by (simp add: length_vlist)
qed

lemma rs_intersect_elems:
  assumes "rs_inv n s" and "rs_inv n t"
  shows "rs_elems (rs_intersect_with s t) = rs_elems s \<inter> rs_elems t"
    and "rs_inv n (rs_intersect_with s t)"
proof -
  have len: "length (rs_bits s) = length (rs_bits t)"
    using assms by (simp add: rs_inv_def)
  then show el: "rs_elems (rs_intersect_with s t) = rs_elems s \<inter> rs_elems t"
    by (simp add: rs_elems_def rs_intersect_with_def Let_def vbits_map2_and)
  show "rs_inv n (rs_intersect_with s t)"
    unfolding rs_inv_def el using assms len
    by (auto simp: rs_inv_def rs_intersect_with_def Let_def sum_count_ones
        vbits_map2_and rs_elems_def)
qed

lemma rs_intersects_iff:
  assumes "rs_inv n s" and "rs_inv n t"
  shows "rs_intersects s t \<longleftrightarrow> rs_elems s \<inter> rs_elems t \<noteq> {}"
proof -
  let ?ss = "rs_bits s" and ?ts = "rs_bits t"
  have len: "length ?ss = length ?ts"
    using assms by (simp add: rs_inv_def)
  have "rs_intersects s t \<longleftrightarrow> (\<exists>k < length ?ss. ?ss ! k AND ?ts ! k \<noteq> 0)"
    using len by (auto simp: rs_intersects_def list_ex_length)
  also have "\<dots> \<longleftrightarrow> (\<exists>k < length ?ss. \<exists>b < 64. bit (?ss ! k) b \<and> bit (?ts ! k) b)"
    by (auto simp: word_eq_zero_iff_bit bit_and_iff)
  also have "\<dots> \<longleftrightarrow> (\<exists>i. i \<in> vbits ?ss \<and> i \<in> vbits ?ts)"
  proof
    assume "\<exists>k < length ?ss. \<exists>b < 64. bit (?ss ! k) b \<and> bit (?ts ! k) b"
    then show "\<exists>i. i \<in> vbits ?ss \<and> i \<in> vbits ?ts"
      using len by (metis vbits_index)
  next
    assume "\<exists>i. i \<in> vbits ?ss \<and> i \<in> vbits ?ts"
    then show "\<exists>k < length ?ss. \<exists>b < 64. bit (?ss ! k) b \<and> bit (?ts ! k) b"
      using len by (auto simp: vbits_def less_mult_imp_div_less mult.commute)
        (metis less_mult_imp_div_less mod_less_divisor mult.commute zero_less_numeral)
  qed
  finally show ?thesis by (auto simp: rs_elems_def)
qed

section \<open>Iteration and the first element\<close>

lemma rs_iter_vlist: "rs_iter s = vlist (rs_bits s)"
proof -
  have "concat (map (\<lambda>(word_idx, word).
       List.map_filter (\<lambda>bit. if word AND shl1 bit \<noteq> 0 then Some (word_idx * 64 + bit) else None)
         [0..<64]) (enumerate 0 ws)) = vlist ws" for ws
  proof (induction ws rule: rev_induct)
    case Nil
    then show ?case by (simp add: vlist_def)
  next
    case (snoc w ws)
    have "filter (\<lambda>b. w AND shl1 b \<noteq> 0) [0..<64] = filter (bit w) [0..<64]"
      by (rule filter_cong) (simp_all add: test_shl1)
    then show ?case
      using snoc.IH
      by (simp add: enumerate_append_eq vlist_snoc mult.commute add.commute
          flip: map_filter_map_filter)
  qed
  then show ?thesis by (simp add: rs_iter_def)
qed

lemma set_rs_iter [simp]: "set (rs_iter s) = rs_elems s"
  by (simp add: rs_iter_vlist rs_elems_def)

lemma sorted_rs_iter: "sorted (rs_iter s)" and distinct_rs_iter: "distinct (rs_iter s)"
  by (simp_all add: rs_iter_vlist sorted_vlist distinct_vlist)

lemma rs_iter_eq: "rs_iter s = sorted_list_of_set (rs_elems s)"
  by (metis distinct_rs_iter set_rs_iter sorted_list_of_set.idem_if_sorted_distinct sorted_rs_iter)

lemma first_from_Some:
  "first_from k ws = Some i \<Longrightarrow> \<exists>j < length ws. ws ! j \<noteq> 0 \<and> i = (k + j) * 64 + trailing_zeros (ws ! j)
     \<and> (\<forall>j' < j. ws ! j' = 0)"
proof (induction k ws rule: first_from.induct)
  case (1 k)
  then show ?case by simp
next
  case (2 k w ws)
  show ?case
  proof (cases "w = 0")
    case True
    then obtain j where "j < length ws" "ws ! j \<noteq> 0"
        "i = (Suc k + j) * 64 + trailing_zeros (ws ! j)" "\<forall>j' < j. ws ! j' = 0"
      using 2 by auto
    then show ?thesis using True
      by (intro exI [of _ "Suc j"]) (auto simp: less_Suc_eq_0_disj)
  next
    case False
    then show ?thesis using "2.prems" by (intro exI [of _ 0]) simp
  qed
qed

lemma first_from_None: "first_from k ws = None \<longleftrightarrow> (\<forall>w \<in> set ws. w = 0)"
  by (induction k ws rule: first_from.induct) auto

lemma rs_first_Some:
  assumes "rs_first s = Some i"
  shows "i \<in> rs_elems s" and "\<And>j. j \<in> rs_elems s \<Longrightarrow> i \<le> j"
proof -
  let ?ws = "rs_bits s"
  obtain k where k: "k < length ?ws" "?ws ! k \<noteq> 0" "i = 64 * k + trailing_zeros (?ws ! k)"
      "\<forall>j < k. ?ws ! j = 0"
    using first_from_Some [of 0 ?ws i] assms by (auto simp: rs_first_def mult.commute)
  note tz = trailing_zeros_bit [OF k(2)]
  show "i \<in> rs_elems s"
    unfolding k(3) rs_elems_def using k(1) tz(1,2) by (simp add: vbits_index)
  show "i \<le> j" if j: "j \<in> rs_elems s" for j
  proof -
    obtain q r where q: "j = 64 * q + r" and r: "r < 64" by (rule split_mod_64)
    have b: "bit (?ws ! q) r"
      using j vbits_index [OF r, of q ?ws] unfolding q rs_elems_def by simp
    then have "k \<le> q" using k(4) by (metis bit_0_eq bot_apply bot_bool_def not_le)
    moreover have "trailing_zeros (?ws ! k) \<le> r" if "k = q"
      using tz(3) b that not_le by blast
    ultimately show ?thesis
      using k(3) q tz(1) by (cases "k = q") simp_all
  qed
qed

lemma rs_first_None: "rs_first s = None \<longleftrightarrow> rs_elems s = {}"
proof
  assume "rs_first s = None"
  then have "\<forall>k < length (rs_bits s). rs_bits s ! k = 0"
    by (simp add: rs_first_def first_from_None)
  then show "rs_elems s = {}"
    by (auto simp: rs_elems_def vbits_def less_mult_imp_div_less mult.commute)
next
  assume "rs_elems s = {}"
  then show "rs_first s = None" using rs_first_Some(1) by (cases "rs_first s") auto
qed

lemma rs_first_Min: "rs_elems s \<noteq> {} \<Longrightarrow> rs_first s = Some (Min (rs_elems s))"
  using rs_first_None [of s] rs_first_Some [of s]
  by (cases "rs_first s") (auto intro: Min_eqI [symmetric])

lemma rs_first_singleton: "rs_inv n s \<Longrightarrow> rs_len s = 1 \<Longrightarrow> \<exists>i. rs_first s = Some i \<and> rs_elems s = {i}"
  by (metis card_1_singletonE rs_first_None rs_first_Some(1) rs_inv_count insert_not_empty
      not_None_eq singletonD)

interpretation rs: index_set rs_empty rs_insert rs_elems rs_inv
  by unfold_locales (simp_all add: rs_inv_empty rs_insert_elems)

end
