(* ===== verification/Init_Set.thy ===== *)
theory Init_Set
  imports Resolution_Set
begin

text \<open>
  \<open>ISet\<close> (facet-reflect/src/partial/iset.rs), which records the initialised fields of a
  value under construction: one word for up to 64 fields, a vector of words beyond. The
  \<open>debug_assert!\<close>s on the index and the vector's bounds checks abort, so \<open>set\<close>, \<open>unset\<close>
  and \<open>get\<close> are partial. The lemmas show that within the number of fields it was made for
  the structure is a set of field indices, and that \<open>all_set\<close> decides completeness.
\<close>

datatype iset = Small u64 | Large "u64 list"

definition iset_default :: iset where
  "iset_default = Small 0"

definition iset_new :: "nat \<Rightarrow> iset" where
  "iset_new count =
     (if count \<le> 64 then Small 0
      else (let num_words = div_ceil count 64 in Large (replicate num_words 0)))"

fun iset_set :: "iset \<Rightarrow> nat \<Rightarrow> iset option" where
  "iset_set (Small flags) index =
     (if index < 64 then Some (Small (flags OR shl1 index)) else None)"
| "iset_set (Large words) index =
     (let word_idx = index div 64; bit_idx = index mod 64
      in if word_idx < length words
         then Some (Large (words[word_idx := words ! word_idx OR shl1 bit_idx])) else None)"

fun iset_unset :: "iset \<Rightarrow> nat \<Rightarrow> iset option" where
  "iset_unset (Small flags) index =
     (if index < 64 then Some (Small (flags AND NOT (shl1 index))) else None)"
| "iset_unset (Large words) index =
     (let word_idx = index div 64; bit_idx = index mod 64
      in if word_idx < length words
         then Some (Large (words[word_idx := words ! word_idx AND NOT (shl1 bit_idx)])) else None)"

fun iset_get :: "iset \<Rightarrow> nat \<Rightarrow> bool option" where
  "iset_get (Small flags) index =
     (if index < 64 then Some (flags AND shl1 index \<noteq> 0) else None)"
| "iset_get (Large words) index =
     (let word_idx = index div 64; bit_idx = index mod 64
      in if word_idx < length words
         then Some (words ! word_idx AND shl1 bit_idx \<noteq> 0) else None)"

fun iset_all_set :: "iset \<Rightarrow> nat \<Rightarrow> bool" where
  "iset_all_set (Small flags) count =
     (if count = 0 then True
      else if 64 \<le> count then flags = NOT 0
      else (let mask = shl1 count - 1 in flags AND mask = mask))"
| "iset_all_set (Large words) count =
     (if count = 0 then True
      else (let full_words = count div 64; remaining_bits = count mod 64
        in if list_ex (\<lambda>word. word \<noteq> NOT 0) (take full_words words) then False
           else if 0 < remaining_bits \<and> full_words < length words
                \<and> words ! full_words AND (shl1 remaining_bits - 1) \<noteq> shl1 remaining_bits - 1
           then False
           else True))"

fun iset_set_all :: "iset \<Rightarrow> nat \<Rightarrow> iset" where
  "iset_set_all (Small flags) count =
     (if 64 \<le> count then Small (NOT 0) else Small (flags OR (shl1 count - 1)))"
| "iset_set_all (Large words) count =
     (let full_words = count div 64; remaining_bits = count mod 64;
          words1 = map (\<lambda>_. NOT 0) (take full_words words) @ drop full_words words
      in Large (if 0 < remaining_bits \<and> full_words < length words1
                then words1[full_words := words1 ! full_words OR (shl1 remaining_bits - 1)]
                else words1))"

section \<open>Abstraction and invariant\<close>

fun iset_words :: "iset \<Rightarrow> u64 list" where
  "iset_words (Small w) = [w]"
| "iset_words (Large ws) = ws"

definition iset_elems :: "iset \<Rightarrow> nat set" where
  "iset_elems s = vbits (iset_words s)"

fun iset_inv :: "nat \<Rightarrow> iset \<Rightarrow> bool" where
  "iset_inv n (Small w) \<longleftrightarrow> n \<le> 64"
| "iset_inv n (Large ws) \<longleftrightarrow> 64 < n \<and> length ws = div_ceil n 64"

lemma iset_new_inv [wf_intros]: "iset_inv n (iset_new n)"
  by (simp add: iset_new_def Let_def)

lemma iset_new_elems [simp]: "iset_elems (iset_new n) = {}"
  using vbits_zeros [of 1] by (simp add: iset_new_def iset_elems_def Let_def)

lemma vbits_single: "i \<in> vbits [w] \<longleftrightarrow> i < 64 \<and> bit w i"
  by (auto simp: vbits_def)

lemma iset_set_spec:
  assumes "iset_inv n s" and "i < n"
  shows "\<exists>s'. iset_set s i = Some s' \<and> iset_inv n s' \<and> iset_elems s' = insert i (iset_elems s)"
proof (cases s)
  case (Small w)
  with assms show ?thesis
    by (auto simp: iset_elems_def vbits_single bit_or_iff)
next
  case (Large ws)
  have k: "i div 64 < length ws" using assms Large by (simp add: div_less_div_ceil)
  have "vbits (ws[i div 64 := ws ! (i div 64) OR shl1 (i mod 64)]) = insert i (vbits ws)"
    using vbits_set_bit [OF k, of "i mod 64"] by simp
  then show ?thesis using k assms Large by (simp add: iset_elems_def Let_def)
qed

lemma iset_unset_spec:
  assumes "iset_inv n s" and "i < n"
  shows "\<exists>s'. iset_unset s i = Some s' \<and> iset_inv n s' \<and> iset_elems s' = iset_elems s - {i}"
proof (cases s)
  case (Small w)
  with assms show ?thesis
    by (auto simp: iset_elems_def vbits_single bit_and_iff bit_not_iff)
next
  case (Large ws)
  have k: "i div 64 < length ws" using assms Large by (simp add: div_less_div_ceil)
  have "vbits (ws[i div 64 := ws ! (i div 64) AND NOT (shl1 (i mod 64))]) = vbits ws - {i}"
    using vbits_clear_bit [OF k, of "i mod 64"] by simp
  then show ?thesis using k assms Large by (simp add: iset_elems_def Let_def)
qed

lemma iset_get_spec:
  assumes "iset_inv n s" and "i < n"
  shows "iset_get s i = Some (i \<in> iset_elems s)"
proof (cases s)
  case (Small w)
  with assms show ?thesis by (simp add: iset_elems_def vbits_single test_shl1)
next
  case (Large ws)
  have k: "i div 64 < length ws" using assms Large by (simp add: div_less_div_ceil)
  then show ?thesis
    using Large vbits_index [of "i mod 64" "i div 64" ws]
    by (simp add: iset_elems_def Let_def test_shl1)
qed

lemma below_split:
  "r < 64 \<Longrightarrow> {..<64 * q + r} \<subseteq> vbits ws \<longleftrightarrow>
     (\<forall>k < q. k < length ws \<and> (\<forall>b < 64. bit (ws ! k) b))
     \<and> (0 < r \<longrightarrow> q < length ws \<and> (\<forall>b < r. bit (ws ! q) b))"
proof
  assume r: "r < 64" and sub: "{..<64 * q + r} \<subseteq> vbits ws"
  have mem: "k < length ws \<and> bit (ws ! k) b" if "b < 64" and "64 * k + b < 64 * q + r" for k b
  proof -
    have "64 * k + b \<in> vbits ws" using sub that(2) by blast
    then show ?thesis using vbits_index [OF that(1)] by simp
  qed
  have "k < length ws \<and> (\<forall>b < 64. bit (ws ! k) b)" if "k < q" for k
    using mem [of 0 k] mem [of _ k] that by simp
  moreover have "q < length ws \<and> (\<forall>b < r. bit (ws ! q) b)" if "0 < r"
    using mem [of 0 q] mem [of _ q] that r by simp
  ultimately show "(\<forall>k < q. k < length ws \<and> (\<forall>b < 64. bit (ws ! k) b))
     \<and> (0 < r \<longrightarrow> q < length ws \<and> (\<forall>b < r. bit (ws ! q) b))"
    by blast
next
  assume r: "r < 64"
    and full: "(\<forall>k < q. k < length ws \<and> (\<forall>b < 64. bit (ws ! k) b))
     \<and> (0 < r \<longrightarrow> q < length ws \<and> (\<forall>b < r. bit (ws ! q) b))"
  show "{..<64 * q + r} \<subseteq> vbits ws"
  proof
    fix i assume "i \<in> {..<64 * q + r}"
    moreover obtain k b where i: "i = 64 * k + b" and b: "b < 64" by (rule split_mod_64)
    ultimately have "k < q \<or> k = q \<and> b < r" using r by auto
    then have "k < length ws \<and> bit (ws ! k) b" using full b by auto
    then show "i \<in> vbits ws" unfolding i using vbits_index [OF b] by simp
  qed
qed

lemma iset_all_set_spec:
  assumes inv: "iset_inv n s" and le: "c \<le> n"
  shows "iset_all_set s c \<longleftrightarrow> {..<c} \<subseteq> iset_elems s"
proof (cases s)
  case (Small w)
  show ?thesis
  proof (cases "c < 64")
    case True
    then show ?thesis
      using Small by (auto simp: iset_elems_def vbits_single low_mask mask_test subset_eq)
  next
    case False
    then have "c = 64" using inv le Small by simp
    then show ?thesis
      using Small by (auto simp: iset_elems_def vbits_single word_eq_ones_iff_bit subset_eq)
  qed
next
  case (Large ws)
  obtain q r where c: "c = 64 * q + r" and r: "r < 64" by (rule split_mod_64)
  have dm: "c div 64 = q" "c mod 64 = r" using r unfolding c by simp_all
  have q: "q \<le> length ws"
    using div_less_div_ceil [of "c - 1" n] inv le Large dm c r div_ceil_mult [of n]
    by simp
  have ql: "0 < r \<longrightarrow> q < length ws"
    using inv le Large div_ceil_mult [of n] c by auto
  have all: "\<not> list_ex (\<lambda>word. word \<noteq> NOT 0) (take q ws) \<longleftrightarrow> (\<forall>k < q. \<forall>b < 64. bit (ws ! k) b)"
    using q by (auto simp: list_ex_length word_eq_ones_iff_bit)
  have msk: "ws ! q AND (shl1 r - 1) = shl1 r - 1 \<longleftrightarrow> (\<forall>b < r. bit (ws ! q) b)"
    using r by (simp add: low_mask mask_test)
  have "iset_all_set s c \<longleftrightarrow> (\<forall>k < q. \<forall>b < 64. bit (ws ! k) b)
      \<and> (0 < r \<longrightarrow> (\<forall>b < r. bit (ws ! q) b))"
  proof (cases "c = 0")
    case True
    then show ?thesis using c Large by simp
  next
    case False
    then show ?thesis using Large all msk ql by (simp add: Let_def dm) blast
  qed
  then show ?thesis
    using below_split [OF r, of q ws] q ql Large c by (auto simp: iset_elems_def)
qed

lemma iset_set_all_spec:
  assumes inv: "iset_inv n s"
  shows "iset_inv n (iset_set_all s n)" and "{..<n} \<subseteq> iset_elems (iset_set_all s n)"
proof -
  have both: "iset_inv n (iset_set_all s n) \<and> {..<n} \<subseteq> iset_elems (iset_set_all s n)"
  proof (cases s)
    case (Small w)
    then show ?thesis
      using inv by (auto simp: iset_elems_def vbits_single low_mask bit_or_iff bit_mask_iff)
  next
    case (Large ws)
    obtain q r where n: "n = 64 * q + r" and r: "r < 64" by (rule split_mod_64)
    have dm: "n div 64 = q" "n mod 64 = r" using r unfolding n by simp_all
    have len: "length ws = div_ceil n 64" using inv Large by simp
    have q: "q \<le> length ws"
      using div_less_div_ceil [of "n - 1" n] inv Large dm n r div_ceil_mult [of n] by simp
    have ql: "0 < r \<longrightarrow> q < length ws" using inv Large div_ceil_mult [of n] n by auto
    let ?ws1 = "map (\<lambda>_. NOT 0) (take q ws) @ drop q ws"
    let ?ws2 = "if 0 < r then ?ws1[q := ?ws1 ! q OR mask r] else ?ws1"
    have s': "iset_set_all s n = Large ?ws2"
      using Large q ql r by (auto simp: Let_def dm low_mask)
    have below: "?ws2 ! k = - 1" if "k < q" for k using that q by (auto simp: nth_append)
    have at: "bit (?ws2 ! q) b" if "0 < r" "b < r" for b
      using that q ql r by (auto simp: nth_append bit_or_iff bit_mask_iff)
    have "\<forall>k < q. k < length ?ws2 \<and> (\<forall>b < 64. bit (?ws2 ! k) b)"
    proof (intro allI impI conjI)
      fix k b :: nat
      assume k: "k < q"
      show "k < length ?ws2" using k q by auto
      assume "b < 64"
      then show "bit (?ws2 ! k) b" unfolding below [OF k] by simp
    qed
    moreover have "0 < r \<longrightarrow> q < length ?ws2 \<and> (\<forall>b < r. bit (?ws2 ! q) b)" using at ql q by auto
    ultimately have "{..<n} \<subseteq> vbits ?ws2" unfolding n below_split [OF r] by blast
    moreover have "length ?ws2 = length ws" using q by auto
    ultimately show ?thesis using inv Large len unfolding s' by (simp add: iset_elems_def)
  qed
  from both show "iset_inv n (iset_set_all s n)" "{..<n} \<subseteq> iset_elems (iset_set_all s n)" by blast+
qed

interpretation iset: index_set iset_new iset_set iset_elems iset_inv
  by unfold_locales (simp_all add: iset_new_inv iset_set_spec)

end
