(* ===== verification/Shape.thy ===== *)
theory Shape
  imports Prelude
begin

text \<open>
  The data model of facet-core: shapes, types, definitions, fields and variants, and the
  queries on them. A \<open>&'static Shape\<close> is an address (\<open>sref\<close>), and the static memory that
  holds the shapes is a map from addresses to their contents (\<open>shapes\<close>), so recursive and
  cyclic types are representable and \<open>ptr::eq\<close> is equality of addresses. Function pointers
  (vtables, lazy shape references apart) are opaque numbers; a \<open>ShapeRef\<close>, a function that
  returns a constant address, is that address. A static field is identified by its address
  \<open>f_addr\<close>.
\<close>

section \<open>Addresses, flags, attributes\<close>

type_synonym sref = nat
type_synonym fn_ptr = nat

definition flag_contains :: "u16 \<Rightarrow> u16 \<Rightarrow> bool" where
  "flag_contains self other \<longleftrightarrow> self AND other = other"

definition flag_is_empty :: "u16 \<Rightarrow> bool" where
  "flag_is_empty self \<longleftrightarrow> self = 0"

definition flag_union :: "u16 \<Rightarrow> u16 \<Rightarrow> u16" where
  "flag_union self other = self OR other"

definition flag_intersection :: "u16 \<Rightarrow> u16 \<Rightarrow> u16" where
  "flag_intersection self other = self AND other"

definition flag_insert :: "u16 \<Rightarrow> u16 \<Rightarrow> u16" where
  "flag_insert self other = self OR other"

definition flag_remove :: "u16 \<Rightarrow> u16 \<Rightarrow> u16" where
  "flag_remove self other = self AND NOT other"

definition FF_SENSITIVE :: u16 where "FF_SENSITIVE = push_bit 0 1"
definition FF_FLATTEN :: u16 where "FF_FLATTEN = push_bit 1 1"
definition FF_SKIP :: u16 where "FF_SKIP = push_bit 2 1"
definition FF_SKIP_SERIALIZING :: u16 where "FF_SKIP_SERIALIZING = push_bit 3 1"
definition FF_SKIP_DESERIALIZING :: u16 where "FF_SKIP_DESERIALIZING = push_bit 4 1"
definition FF_CHILD :: u16 where "FF_CHILD = push_bit 5 1"
definition FF_RECURSIVE_TYPE :: u16 where "FF_RECURSIVE_TYPE = push_bit 6 1"

definition SF_UNTAGGED :: u16 where "SF_UNTAGGED = push_bit 0 1"
definition SF_NUMERIC :: u16 where "SF_NUMERIC = push_bit 1 1"
definition SF_POD :: u16 where "SF_POD = push_bit 2 1"
definition SF_METADATA_CONTAINER :: u16 where "SF_METADATA_CONTAINER = push_bit 3 1"

text \<open>The data of an attribute, by the type it is read as.\<close>

datatype attr_data =
  Data_Unit | Data_I64 i64 | Data_Usize nat | Data_Str string | Data_Fn fn_ptr | Data_Other nat

record attr =
  attr_ns :: "string option"
  attr_key :: string
  attr_data :: attr_data

section \<open>Fields, structs, variants, enums\<close>

datatype default_source = FromTrait | Custom fn_ptr

record field =
  f_addr :: nat
  f_name :: string
  f_rename :: "string option"
  f_alias :: "string option"
  f_shape :: sref
  f_offset :: nat
  f_flags :: u16
  f_attributes :: "attr list"
  f_default :: "default_source option"
  f_skip_serializing_if :: "fn_ptr option"
  f_proxy :: "sref option"
  f_format_proxies :: "(string \<times> sref) list"
  f_metadata :: "string option"

datatype base_repr = Repr_C | Repr_Rust | Repr_Transparent

record repr =
  repr_base :: base_repr
  repr_packed :: bool

datatype struct_kind = Kind_Unit | Kind_TupleStruct | Kind_Struct | Kind_Tuple

record struct_type =
  st_repr :: repr
  st_kind :: struct_kind
  st_fields :: "field list"

record variant =
  v_name :: string
  v_rename :: "string option"
  v_discriminant :: "int option"
  v_attributes :: "attr list"
  v_data :: struct_type

datatype enum_repr_kind =
  ER_Rust | ER_RustNPO | ER_U8 | ER_U16 | ER_U32 | ER_U64 | ER_USize
| ER_I8 | ER_I16 | ER_I32 | ER_I64 | ER_ISize

record enum_type =
  et_enum_repr :: enum_repr_kind
  et_repr :: repr
  et_variants :: "variant list"
  et_is_cow :: bool

section \<open>Types and definitions\<close>

datatype textual_type = Text_Char | Text_Str
datatype numeric_type = Num_Integer bool | Num_Float
datatype primitive_type =
  Prim_Boolean | Prim_Numeric numeric_type | Prim_Textual textual_type | Prim_Never

datatype sequence_type = Seq_Array sref nat | Seq_Slice sref

datatype pointer_type =
  Ptr_Reference bool bool sref | Ptr_Raw bool bool sref | Ptr_Function fn_ptr

datatype user_type =
  User_Struct struct_type | User_Enum enum_type | User_Union "field list" | User_Opaque

datatype facet_type =
  Ty_Undefined
| Ty_Primitive primitive_type
| Ty_Sequence sequence_type
| Ty_User user_type
| Ty_Pointer pointer_type

datatype facet_def =
  Def_Undefined
| Def_Scalar
| Def_Map sref sref
| Def_Set sref
| Def_List sref
| Def_Array sref nat
| Def_NdArray sref
| Def_Slice sref
| Def_Option sref
| Def_Result sref sref
| Def_Pointer "sref option"
| Def_DynamicValue

datatype scalar_type =
  ST_Unit | ST_Bool | ST_Char | ST_Str | ST_String | ST_CowStr | ST_F32 | ST_F64
| ST_U8 | ST_U16 | ST_U32 | ST_U64 | ST_U128 | ST_USize
| ST_I8 | ST_I16 | ST_I32 | ST_I64 | ST_I128 | ST_ISize
| ST_SocketAddr | ST_IpAddr | ST_Ipv4Addr | ST_Ipv6Addr | ST_ConstTypeId

text \<open>A compiler's type identifier: the identifiers the code compares with by name (one per
  scalar type, with \<open>str\<close> and \<open>&str\<close> two types, and \<open>Vec<u8>\<close>), and all others.\<close>

datatype type_id = Tid_Scalar scalar_type | Tid_StrRef | Tid_VecU8 | Tid_Other nat

section \<open>Variance descriptions\<close>

datatype variance = Bivariant | Covariant | Contravariant | Invariant

datatype variance_position = Pos_Covariant | Pos_Contravariant | Pos_Invariant

record variance_dep =
  dep_position :: variance_position
  dep_shape :: sref

record variance_desc =
  vd_base :: variance
  vd_deps :: "variance_dep list"

section \<open>Shapes\<close>

record shape =
  sh_id :: type_id
  sh_ty :: facet_type
  sh_def :: facet_def
  sh_type_identifier :: string
  sh_attributes :: "attr list"
  sh_inner :: "sref option"
  sh_builder_shape :: "sref option"
  sh_proxy :: "sref option"
  sh_format_proxies :: "(string \<times> sref) list"
  sh_variance :: variance_desc
  sh_flags :: u16
  sh_tag :: "string option"
  sh_content :: "string option"
  sh_rename :: "string option"
  sh_default_in_place :: "fn_ptr option"
  sh_try_from :: "fn_ptr option"
  sh_parse :: "fn_ptr option"

type_synonym shapes = "sref \<Rightarrow> shape"

section \<open>Queries on fields\<close>

definition is_flattened :: "field \<Rightarrow> bool" where
  "is_flattened f \<longleftrightarrow> flag_contains (f_flags f) FF_FLATTEN"

definition is_sensitive :: "field \<Rightarrow> bool" where
  "is_sensitive f \<longleftrightarrow> flag_contains (f_flags f) FF_SENSITIVE"

definition has_default :: "field \<Rightarrow> bool" where
  "has_default f \<longleftrightarrow> f_default f \<noteq> None"

definition is_child :: "field \<Rightarrow> bool" where
  "is_child f \<longleftrightarrow> flag_contains (f_flags f) FF_CHILD"

definition is_recursive_type :: "field \<Rightarrow> bool" where
  "is_recursive_type f \<longleftrightarrow> flag_contains (f_flags f) FF_RECURSIVE_TYPE"

definition attrs_have :: "attr list \<Rightarrow> string option \<Rightarrow> string \<Rightarrow> bool" where
  "attrs_have attrs ns key \<longleftrightarrow> list_ex (\<lambda>a. attr_ns a = ns \<and> attr_key a = key) attrs"

definition has_attr :: "field \<Rightarrow> string option \<Rightarrow> string \<Rightarrow> bool" where
  "has_attr f ns key \<longleftrightarrow> attrs_have (f_attributes f) ns key"

definition has_builtin_attr :: "field \<Rightarrow> string \<Rightarrow> bool" where
  "has_builtin_attr f key \<longleftrightarrow> has_attr f None key"

definition is_text :: "field \<Rightarrow> bool" where
  "is_text f \<longleftrightarrow> has_builtin_attr f ''text'' \<or> has_attr f (Some ''xml'') ''text''
     \<or> has_attr f (Some ''html'') ''text''"

definition is_elements :: "field \<Rightarrow> bool" where
  "is_elements f \<longleftrightarrow> has_builtin_attr f ''elements'' \<or> has_attr f (Some ''xml'') ''elements''
     \<or> has_attr f (Some ''html'') ''elements''"

definition is_element :: "field \<Rightarrow> bool" where
  "is_element f \<longleftrightarrow> has_builtin_attr f ''element'' \<or> has_attr f (Some ''xml'') ''element''
     \<or> has_attr f (Some ''html'') ''element''"

definition is_attribute :: "field \<Rightarrow> bool" where
  "is_attribute f \<longleftrightarrow> has_builtin_attr f ''attribute'' \<or> has_attr f (Some ''xml'') ''attribute''
     \<or> has_attr f (Some ''html'') ''attribute''"

definition is_tag :: "field \<Rightarrow> bool" where
  "is_tag f \<longleftrightarrow> has_builtin_attr f ''tag'' \<or> has_attr f (Some ''xml'') ''tag''
     \<or> has_attr f (Some ''html'') ''tag''"

definition should_skip_deserializing :: "field \<Rightarrow> bool" where
  "should_skip_deserializing f \<longleftrightarrow>
     \<not> flag_is_empty (flag_intersection (f_flags f) (flag_union FF_SKIP FF_SKIP_DESERIALIZING))"

definition should_skip_serializing_unconditional :: "field \<Rightarrow> bool" where
  "should_skip_serializing_unconditional f \<longleftrightarrow>
     flag_contains (f_flags f) FF_SKIP \<or> flag_contains (f_flags f) FF_SKIP_SERIALIZING"

definition should_skip_serializing :: "(fn_ptr \<Rightarrow> 'p \<Rightarrow> bool) \<Rightarrow> field \<Rightarrow> 'p \<Rightarrow> bool" where
  "should_skip_serializing call f field_ptr \<longleftrightarrow>
     (if should_skip_serializing_unconditional f then True
      else (case f_skip_serializing_if f of
              Some predicate \<Rightarrow> call predicate field_ptr
            | None \<Rightarrow> False))"

definition effective_name :: "field \<Rightarrow> string" where
  "effective_name f = (case f_rename f of Some name \<Rightarrow> name | None \<Rightarrow> f_name f)"

definition find_format_proxy :: "(string \<times> sref) list \<Rightarrow> string \<Rightarrow> sref option" where
  "find_format_proxy proxies format = map_option snd (List.find (\<lambda>fp. fst fp = format) proxies)"

definition field_effective_proxy :: "field \<Rightarrow> string option \<Rightarrow> sref option" where
  "field_effective_proxy f format =
     (case format of
        Some fmt \<Rightarrow> (case find_format_proxy (f_format_proxies f) fmt of
                      Some proxy \<Rightarrow> Some proxy | None \<Rightarrow> f_proxy f)
      | None \<Rightarrow> f_proxy f)"

definition variant_effective_name :: "variant \<Rightarrow> string" where
  "variant_effective_name v = (case v_rename v of Some n \<Rightarrow> n | None \<Rightarrow> v_name v)"

definition variant_is_other :: "variant \<Rightarrow> bool" where
  "variant_is_other v \<longleftrightarrow> attrs_have (v_attributes v) None ''other''"

section \<open>Queries on shapes\<close>

definition shape_has_builtin_attr :: "shape \<Rightarrow> string \<Rightarrow> bool" where
  "shape_has_builtin_attr s key \<longleftrightarrow>
     list_ex (\<lambda>a. attr_ns a = None \<and> attr_key a = key) (sh_attributes s)"

definition is_untagged :: "shape \<Rightarrow> bool" where
  "is_untagged s \<longleftrightarrow> flag_contains (sh_flags s) SF_UNTAGGED"

definition is_numeric :: "shape \<Rightarrow> bool" where
  "is_numeric s \<longleftrightarrow> flag_contains (sh_flags s) SF_NUMERIC"

definition is_pod :: "shape \<Rightarrow> bool" where
  "is_pod s \<longleftrightarrow> (case sh_ty s of Ty_Primitive _ \<Rightarrow> True | _ \<Rightarrow> False) \<or> flag_contains (sh_flags s) SF_POD"

definition is_metadata_container :: "shape \<Rightarrow> bool" where
  "is_metadata_container s \<longleftrightarrow> flag_contains (sh_flags s) SF_METADATA_CONTAINER"

definition is_transparent :: "shape \<Rightarrow> bool" where
  "is_transparent s \<longleftrightarrow>
     (if shape_has_builtin_attr s ''transparent'' then True
      else (case sh_ty s of
              Ty_User (User_Struct st) \<Rightarrow> repr_base (st_repr st) = Repr_Transparent
            | _ \<Rightarrow> False))"

definition is_cow :: "shape \<Rightarrow> bool" where
  "is_cow s \<longleftrightarrow> (case sh_ty s of Ty_User (User_Enum e) \<Rightarrow> et_is_cow e | _ \<Rightarrow> False)"

definition shape_effective_name :: "shape \<Rightarrow> string" where
  "shape_effective_name s =
     (case sh_rename s of Some name \<Rightarrow> name | None \<Rightarrow> sh_type_identifier s)"

definition effective_proxy :: "shape \<Rightarrow> string option \<Rightarrow> sref option" where
  "effective_proxy s format =
     (case format of
        Some fmt \<Rightarrow> (case find_format_proxy (sh_format_proxies s) fmt of
                      Some proxy \<Rightarrow> Some proxy | None \<Rightarrow> sh_proxy s)
      | None \<Rightarrow> sh_proxy s)"

definition shape_is_default :: "shape \<Rightarrow> bool" where
  "shape_is_default s \<longleftrightarrow> sh_default_in_place s \<noteq> None"

definition has_deny_unknown_fields_attr :: "shape \<Rightarrow> bool" where
  "has_deny_unknown_fields_attr s \<longleftrightarrow> shape_has_builtin_attr s ''deny_unknown_fields''"

fun shape_scalar_type :: "type_id \<Rightarrow> scalar_type option" where
  "shape_scalar_type (Tid_Scalar st) = Some st"
| "shape_scalar_type Tid_StrRef = Some ST_Str"
| "shape_scalar_type Tid_VecU8 = None"
| "shape_scalar_type (Tid_Other n) = None"

fun kind_str :: "facet_type \<Rightarrow> string" where
  "kind_str Ty_Undefined = ''undefined''"
| "kind_str (Ty_Primitive p) = ''primitive''"
| "kind_str (Ty_Sequence (Seq_Array t n)) = ''array''"
| "kind_str (Ty_Sequence (Seq_Slice t)) = ''slice''"
| "kind_str (Ty_User (User_Struct s)) = ''struct''"
| "kind_str (Ty_User (User_Enum e)) = ''enum''"
| "kind_str (Ty_User (User_Union fs)) = ''union''"
| "kind_str (Ty_User User_Opaque) = ''opaque''"
| "kind_str (Ty_Pointer (Ptr_Reference m w t)) = ''ref''"
| "kind_str (Ty_Pointer (Ptr_Raw m w t)) = ''ptr''"
| "kind_str (Ty_Pointer (Ptr_Function f)) = ''fn''"

section \<open>Layout\<close>

text \<open>A struct or an enum contains its fields by value, so the types of finite size have a rank
  that decreases from a type to the types of its fields.\<close>

definition lays_out :: "shapes \<Rightarrow> (sref \<Rightarrow> nat) \<Rightarrow> bool" where
  "lays_out S lay \<longleftrightarrow>
     (\<forall>r st f. sh_ty (S r) = Ty_User (User_Struct st) \<longrightarrow> f \<in> set (st_fields st)
        \<longrightarrow> lay (f_shape f) < lay r)
     \<and> (\<forall>r e v f. sh_ty (S r) = Ty_User (User_Enum e) \<longrightarrow> v \<in> set (et_variants e)
        \<longrightarrow> f \<in> set (st_fields (v_data v)) \<longrightarrow> lay (f_shape f) < lay r)"

section \<open>Flag algebra\<close>

named_theorems flag_defs \<open>the flag sets and their operations, unfolded\<close>

declare flag_contains_def [flag_defs] flag_is_empty_def [flag_defs] flag_union_def [flag_defs]
  flag_intersection_def [flag_defs] flag_insert_def [flag_defs] flag_remove_def [flag_defs]

lemma flag_contains_bits: "flag_contains a b \<longleftrightarrow> (\<forall>i. bit b i \<longrightarrow> bit a i)"
  using bit_imp_le_length [of b] by (auto simp: flag_defs bit_eq_iff bit_and_iff)

lemma flag_contains_refl [simp]: "flag_contains a a"
  and flag_contains_trans: "flag_contains a b \<Longrightarrow> flag_contains b c \<Longrightarrow> flag_contains a c"
  and flag_contains_insert [simp]: "flag_contains (flag_insert a b) b"
  and flag_contains_union: "flag_contains a (flag_union b c) \<longleftrightarrow> flag_contains a b \<and> flag_contains a c"
  by (auto simp: flag_contains_bits flag_insert_def flag_union_def bit_or_iff)

lemma flag_contains_single:
  "i < 16 \<Longrightarrow> flag_contains a (push_bit i 1) \<longleftrightarrow> bit a i"
  by (auto simp: flag_contains_bits bit_simps)

text \<open>A type identifier stands for one shape.\<close>

definition ids_faithful :: "shapes \<Rightarrow> bool" where
  "ids_faithful S \<longleftrightarrow> (\<forall>s t. sh_id (S s) = sh_id (S t) \<longrightarrow> S s = S t)"

end
