(* ===== verification/Variance.thy ===== *)
theory Variance
  imports Shape
begin

text \<open>
  Variance of lifetimes (facet-core/src/types/variance.rs) and its computation over the shape
  graph (\<open>Shape::computed_variance\<close> in facet-core/src/types/shape.rs), with the stack of
  types under computation that cuts cycles and limits the depth to 32.
  The first section shows that \<open>combine\<close> is the meet of the documented lattice; the second
  relates the computation to a specification: the meet of the contributions of the shapes it
  reaches.
\<close>

section \<open>The variance algebra\<close>

fun combine :: "variance \<Rightarrow> variance \<Rightarrow> variance" where
  "combine Bivariant x = x"
| "combine x Bivariant = x"
| "combine Covariant Covariant = Covariant"
| "combine Contravariant Contravariant = Contravariant"
| "combine Invariant x = Invariant"
| "combine x Invariant = Invariant"
| "combine Covariant Contravariant = Invariant"
| "combine Contravariant Covariant = Invariant"

fun flip :: "variance \<Rightarrow> variance" where
  "flip Bivariant = Bivariant"
| "flip Covariant = Contravariant"
| "flip Contravariant = Covariant"
| "flip Invariant = Invariant"

definition can_shrink :: "variance \<Rightarrow> bool" where
  "can_shrink v \<longleftrightarrow> v = Covariant \<or> v = Bivariant"

definition can_grow :: "variance \<Rightarrow> bool" where
  "can_grow v \<longleftrightarrow> v = Contravariant \<or> v = Bivariant"

text \<open>The documented order: \<open>Bivariant\<close> on top, \<open>Invariant\<close> at the bottom.\<close>

instantiation variance :: "{semilattice_inf, order_top, order_bot}"
begin

definition inf_variance :: "variance \<Rightarrow> variance \<Rightarrow> variance" where
  "inf_variance x y = combine x y"

definition less_eq_variance :: "variance \<Rightarrow> variance \<Rightarrow> bool" where
  "less_eq_variance x y \<longleftrightarrow> x = Invariant \<or> y = Bivariant \<or> x = y"

definition less_variance :: "variance \<Rightarrow> variance \<Rightarrow> bool" where
  "less_variance x y \<longleftrightarrow> x \<le> y \<and> \<not> y \<le> (x :: variance)"

definition top_variance :: variance where
  "top_variance = Bivariant"

definition bot_variance :: variance where
  "bot_variance = Invariant"

instance
proof
  fix x y z :: variance
  show "x < y \<longleftrightarrow> x \<le> y \<and> \<not> y \<le> x" by (simp add: less_variance_def)
  show "x \<le> x" by (simp add: less_eq_variance_def)
  show "x \<le> y \<Longrightarrow> y \<le> z \<Longrightarrow> x \<le> z" by (auto simp: less_eq_variance_def)
  show "x \<le> y \<Longrightarrow> y \<le> x \<Longrightarrow> x = y" by (auto simp: less_eq_variance_def)
  show "inf x y \<le> x" and "inf x y \<le> y"
    by (cases x; cases y; simp add: less_eq_variance_def inf_variance_def)+
  show "x \<le> y \<Longrightarrow> x \<le> z \<Longrightarrow> x \<le> inf y z"
    by (cases x; cases y; cases z; simp add: less_eq_variance_def inf_variance_def)
  show "x \<le> top" by (simp add: less_eq_variance_def top_variance_def)
  show "bot \<le> x" by (simp add: less_eq_variance_def bot_variance_def)
qed

end

lemma combine_inf: "combine x y = inf x y"
  by (simp add: inf_variance_def)

lemma combine_Bivariant [simp]: "combine x Bivariant = x"
  and combine_Invariant [simp]: "combine Invariant x = Invariant" "combine x Invariant = Invariant"
  by (cases x; simp)+

lemma flip_inf: "flip (inf x y) = inf (flip x) (flip y)"
  by (cases x; cases y; simp add: inf_variance_def)

lemma flip_flip [simp]: "flip (flip x) = x"
  by (cases x) simp_all

lemma flip_mono: "x \<le> y \<Longrightarrow> flip x \<le> flip y"
  by (cases x; cases y; simp add: less_eq_variance_def)

lemma can_shrink_iff: "can_shrink v \<longleftrightarrow> Covariant \<le> v"
  by (cases v) (simp_all add: can_shrink_def less_eq_variance_def)

lemma can_grow_iff: "can_grow v \<longleftrightarrow> Contravariant \<le> v"
  by (cases v) (simp_all add: can_grow_def less_eq_variance_def)

section \<open>The computation\<close>

definition MAX_VARIANCE_DEPTH :: nat where
  "MAX_VARIANCE_DEPTH = 32"

text \<open>The stack of types under computation. \<open>pop\<close> undoes the \<open>push\<close> of the same call, so
  the recursion passes the stack down and drops it.\<close>

type_synonym visited = "type_id list"

definition visited_contains :: "visited \<Rightarrow> type_id \<Rightarrow> bool" where
  "visited_contains v i \<longleftrightarrow> i \<in> set v"

definition visited_push :: "visited \<Rightarrow> type_id \<Rightarrow> visited option" where
  "visited_push v i = (if MAX_VARIANCE_DEPTH \<le> length v then None else Some (v @ [i]))"

fun xform :: "variance_position \<Rightarrow> variance \<Rightarrow> variance" where
  "xform Pos_Covariant v = v"
| "xform Pos_Contravariant v = flip v"
| "xform Pos_Invariant v = (case v of Bivariant \<Rightarrow> Bivariant | _ \<Rightarrow> Invariant)"

text \<open>The loops over the dependencies and over the fields, with the recursive call as a
  parameter; both stop as soon as the running total is \<open>Invariant\<close>.\<close>

fun deps_loop :: "(sref \<Rightarrow> variance) \<Rightarrow> variance_dep list \<Rightarrow> variance \<Rightarrow> variance" where
  "deps_loop rec [] variance = variance"
| "deps_loop rec (dep # deps) variance =
     (let transformed = xform (dep_position dep) (rec (dep_shape dep));
          variance' = combine variance transformed
      in if variance' = Invariant then Invariant else deps_loop rec deps variance')"

fun fields_loop :: "(sref \<Rightarrow> variance) \<Rightarrow> field list \<Rightarrow> variance \<Rightarrow> variance" where
  "fields_loop rec [] v = v"
| "fields_loop rec (f # fs) v =
     (let v' = combine v (rec (f_shape f))
      in if v' = Invariant then Invariant else fields_loop rec fs v')"

definition inner_variance :: "(sref \<Rightarrow> variance) \<Rightarrow> shape \<Rightarrow> variance" where
  "inner_variance rec s =
     (let desc = sh_variance s
      in if vd_base desc = Invariant \<and> vd_deps desc = [] then Invariant
         else if vd_deps desc \<noteq> [] then deps_loop rec (vd_deps desc) (vd_base desc)
         else (case sh_ty s of
                 Ty_User (User_Struct st) \<Rightarrow> fields_loop rec (st_fields st) (vd_base desc)
               | Ty_User (User_Enum e) \<Rightarrow>
                   fields_loop rec (concat (map (\<lambda>v. st_fields (v_data v)) (et_variants e)))
                     (vd_base desc)
               | _ \<Rightarrow> vd_base desc))"

function variance_impl :: "shapes \<Rightarrow> visited \<Rightarrow> sref \<Rightarrow> variance" where
  "variance_impl S visited r =
     (if visited_contains visited (sh_id (S r)) then Bivariant
      else (case visited_push visited (sh_id (S r)) of
              None \<Rightarrow> Invariant
            | Some visited' \<Rightarrow> inner_variance (\<lambda>r'. variance_impl S visited' r') (S r)))"
  by pat_completeness auto
termination
  by (relation "measure (\<lambda>(S, visited, r). MAX_VARIANCE_DEPTH - length visited)")
    (auto simp: visited_push_def split: if_splits)

definition computed_variance :: "shapes \<Rightarrow> sref \<Rightarrow> variance" where
  "computed_variance S r = variance_impl S [] r"

declare variance_impl.simps [simp del]

section \<open>Specification: the meet of all contributions\<close>

text \<open>The dependencies a shape is computed from: the declared ones, or else the fields of a
  struct or of all variants of an enum, in covariant position.\<close>

definition covariant_fields :: "field list \<Rightarrow> variance_dep list" where
  "covariant_fields fs = map (\<lambda>f. \<lparr>dep_position = Pos_Covariant, dep_shape = f_shape f\<rparr>) fs"

definition effective_deps :: "shape \<Rightarrow> variance_dep list" where
  "effective_deps s =
     (if vd_deps (sh_variance s) \<noteq> [] then vd_deps (sh_variance s)
      else (case sh_ty s of
              Ty_User (User_Struct st) \<Rightarrow> covariant_fields (st_fields st)
            | Ty_User (User_Enum e) \<Rightarrow>
                covariant_fields (concat (map (\<lambda>v. st_fields (v_data v)) (et_variants e)))
            | _ \<Rightarrow> []))"

definition meet_from :: "variance \<Rightarrow> variance list \<Rightarrow> variance" where
  "meet_from v vs = foldl inf v vs"

lemma meet_from_simps [simp]: "meet_from v [] = v" "meet_from v (x # xs) = meet_from (inf v x) xs"
  by (simp_all add: meet_from_def)

lemma le_meet_from: "w \<le> meet_from v vs \<longleftrightarrow> w \<le> v \<and> (\<forall>x \<in> set vs. w \<le> x)"
  by (induction vs arbitrary: v) auto

lemma meet_from_Invariant [simp]: "meet_from Invariant vs = Invariant"
  by (induction vs) (simp_all add: inf_variance_def)

lemma deps_loop_meet:
  "deps_loop rec deps v = meet_from v (map (\<lambda>d. xform (dep_position d) (rec (dep_shape d))) deps)"
  by (induction deps arbitrary: v) (auto simp: Let_def inf_variance_def)

lemma fields_loop_deps: "fields_loop rec fs v = deps_loop rec (covariant_fields fs) v"
  by (induction fs arbitrary: v) (auto simp: Let_def covariant_fields_def)

lemma inner_variance_meet:
  "inner_variance rec s = meet_from (vd_base (sh_variance s))
     (map (\<lambda>d. xform (dep_position d) (rec (dep_shape d))) (effective_deps s))"
  by (auto simp: inner_variance_def effective_deps_def Let_def fields_loop_deps deps_loop_meet
      split: facet_type.splits user_type.splits)

lemma xform_inf: "xform p (inf x y) = inf (xform p x) (xform p y)"
  by (cases p; cases x; cases y; simp add: inf_variance_def)

lemma xform_mono: "x \<le> y \<Longrightarrow> xform p x \<le> xform p y"
  by (metis inf.absorb_iff2 inf.commute xform_inf)

lemma xform_Bivariant [simp]: "xform p Bivariant = Bivariant"
  by (cases p) simp_all

text \<open>A contribution: the base variance of a shape reached over a path that repeats no type,
  transformed by the positions along the path; a path longer than the limit contributes
  \<open>Invariant\<close>.\<close>

inductive contributes :: "shapes \<Rightarrow> visited \<Rightarrow> sref \<Rightarrow> variance \<Rightarrow> bool" for S where
  base: "sh_id (S r) \<notin> set vis \<Longrightarrow> length vis < MAX_VARIANCE_DEPTH \<Longrightarrow>
    contributes S vis r (vd_base (sh_variance (S r)))"
| limit: "sh_id (S r) \<notin> set vis \<Longrightarrow> MAX_VARIANCE_DEPTH \<le> length vis \<Longrightarrow>
    contributes S vis r Invariant"
| step: "sh_id (S r) \<notin> set vis \<Longrightarrow> length vis < MAX_VARIANCE_DEPTH \<Longrightarrow>
    d \<in> set (effective_deps (S r)) \<Longrightarrow> contributes S (vis @ [sh_id (S r)]) (dep_shape d) v \<Longrightarrow>
    contributes S vis r (xform (dep_position d) v)"

inductive_cases contributes_cases: "contributes S vis r v"

lemma variance_impl_unfold:
  "variance_impl S vis r =
     (if sh_id (S r) \<in> set vis then Bivariant
      else if MAX_VARIANCE_DEPTH \<le> length vis then Invariant
      else meet_from (vd_base (sh_variance (S r)))
        (map (\<lambda>d. xform (dep_position d) (variance_impl S (vis @ [sh_id (S r)]) (dep_shape d)))
          (effective_deps (S r))))"
  by (subst variance_impl.simps)
    (simp add: visited_contains_def visited_push_def inner_variance_meet)

lemma variance_impl_lower: "contributes S vis r v \<Longrightarrow> variance_impl S vis r \<le> v"
proof (induction rule: contributes.induct)
  case (base r vis)
  then show ?case
    using le_meet_from [of "variance_impl S vis r"] variance_impl_unfold [of S vis r] by auto
next
  case (limit r vis)
  then show ?case by (simp add: variance_impl_unfold)
next
  case (step r vis d v)
  let ?ds = "map (\<lambda>d. xform (dep_position d) (variance_impl S (vis @ [sh_id (S r)]) (dep_shape d)))
    (effective_deps (S r))"
  have "variance_impl S vis r \<le> xform (dep_position d)
      (variance_impl S (vis @ [sh_id (S r)]) (dep_shape d))"
    using step.hyps le_meet_from [of "variance_impl S vis r" _ ?ds]
      variance_impl_unfold [of S vis r] by auto
  also have "\<dots> \<le> xform (dep_position d) v"
    using step.IH by (rule xform_mono)
  finally show ?case .
qed

text \<open>Every lower bound of the images is a lower bound of the image: the transforms keep
  greatest lower bounds because each is one of finitely many meet-preserving maps.\<close>

lemma xform_glb:
  assumes "\<And>v. P v \<Longrightarrow> w \<le> xform p v"
    and glb: "\<And>u. (\<And>v. P v \<Longrightarrow> u \<le> v) \<Longrightarrow> u \<le> m"
  shows "w \<le> xform p m"
proof (cases p)
  case Pos_Covariant
  then show ?thesis using assms by simp
next
  case Pos_Contravariant
  have "flip w \<le> m"
  proof (rule glb)
    fix v assume "P v"
    then have "w \<le> flip v" using assms(1) Pos_Contravariant by simp
    then show "flip w \<le> v" using flip_mono by fastforce
  qed
  then show ?thesis using flip_mono Pos_Contravariant by fastforce
next
  case Pos_Invariant
  show ?thesis
  proof (cases "m = Bivariant \<or> w = Invariant")
    case True
    then show ?thesis by (auto simp: less_eq_variance_def)
  next
    case False
    have "v = Bivariant" if "P v" for v
      using assms(1) [OF that] Pos_Invariant False
      by (cases v) (simp_all add: less_eq_variance_def)
    then have "Bivariant \<le> m" by (intro glb) (auto simp: less_eq_variance_def)
    then show ?thesis using False by (simp add: less_eq_variance_def)
  qed
qed

lemma variance_impl_greatest:
  "(\<And>v. contributes S vis r v \<Longrightarrow> w \<le> v) \<Longrightarrow> w \<le> variance_impl S vis r"
proof (induction S vis r arbitrary: w rule: variance_impl.induct)
  case (1 S vis r)
  let ?vis = "vis @ [sh_id (S r)]"
  consider (cycle) "sh_id (S r) \<in> set vis"
    | (limit) "sh_id (S r) \<notin> set vis" "MAX_VARIANCE_DEPTH \<le> length vis"
    | (step) "sh_id (S r) \<notin> set vis" "length vis < MAX_VARIANCE_DEPTH" by linarith
  then show ?case
  proof cases
    case cycle
    then show ?thesis by (simp add: variance_impl_unfold less_eq_variance_def)
  next
    case limit
    then show ?thesis using "1.prems" by (simp add: variance_impl_unfold contributes.limit)
  next
    case step
    have "w \<le> xform (dep_position d) (variance_impl S ?vis (dep_shape d))"
      if d: "d \<in> set (effective_deps (S r))" for d
    proof (rule xform_glb [where P = "contributes S ?vis (dep_shape d)"])
      show "w \<le> xform (dep_position d) v" if "contributes S ?vis (dep_shape d) v" for v
        by (rule "1.prems") (use step d that in \<open>auto intro: contributes.step\<close>)
      show "u \<le> variance_impl S ?vis (dep_shape d)"
        if "\<And>v. contributes S ?vis (dep_shape d) v \<Longrightarrow> u \<le> v" for u
        by (rule "1.IH" [OF _ _ that])
          (use step in \<open>auto simp: visited_contains_def visited_push_def\<close>)
    qed
    moreover have "w \<le> vd_base (sh_variance (S r))"
      by (rule "1.prems") (use step in \<open>auto intro: contributes.base\<close>)
    ultimately show ?thesis
      using step by (subst variance_impl_unfold) (simp add: le_meet_from)
  qed
qed

section \<open>Well-founded types: the declared recursion\<close>

text \<open>On types without recursion and of nesting depth below the limit the stack is never
  consulted with effect, and the result obeys the recursive description of the
  documentation. \<open>rank\<close> witnesses both.\<close>

definition ranked :: "shapes \<Rightarrow> (type_id \<Rightarrow> nat) \<Rightarrow> bool" where
  "ranked S rank \<longleftrightarrow> (\<forall>r. \<forall>d \<in> set (effective_deps (S r)).
     rank (sh_id (S (dep_shape d))) < rank (sh_id (S r)))"

lemma variance_impl_visited:
  assumes "ranked S rank"
    and "\<forall>i \<in> set vis1. rank (sh_id (S r)) < rank i" and "\<forall>i \<in> set vis2. rank (sh_id (S r)) < rank i"
    and "length vis1 + rank (sh_id (S r)) < MAX_VARIANCE_DEPTH"
    and "length vis2 + rank (sh_id (S r)) < MAX_VARIANCE_DEPTH"
  shows "variance_impl S vis1 r = variance_impl S vis2 r"
  using assms(2-5)
proof (induction "rank (sh_id (S r))" arbitrary: r vis1 vis2 rule: less_induct)
  case less
  have eq: "variance_impl S (vis1 @ [sh_id (S r)]) (dep_shape d)
      = variance_impl S (vis2 @ [sh_id (S r)]) (dep_shape d)"
    if d: "d \<in> set (effective_deps (S r))" for d
  proof (rule less.hyps)
    show lt: "rank (sh_id (S (dep_shape d))) < rank (sh_id (S r))"
      using assms(1) d by (simp add: ranked_def)
    show "\<forall>i \<in> set (vis1 @ [sh_id (S r)]). rank (sh_id (S (dep_shape d))) < rank i"
      and "\<forall>i \<in> set (vis2 @ [sh_id (S r)]). rank (sh_id (S (dep_shape d))) < rank i"
      using less.prems lt by (auto dest: order.strict_trans)
    show "length (vis1 @ [sh_id (S r)]) + rank (sh_id (S (dep_shape d))) < MAX_VARIANCE_DEPTH"
      and "length (vis2 @ [sh_id (S r)]) + rank (sh_id (S (dep_shape d))) < MAX_VARIANCE_DEPTH"
      using less.prems lt by simp_all
  qed
  have "sh_id (S r) \<notin> set vis1" "sh_id (S r) \<notin> set vis2"
    using less.prems by blast+
  then show ?case
    using less.prems eq
    by (subst (1 2) variance_impl_unfold) (simp cong: map_cong)
qed

lemma computed_variance_unfold:
  assumes "ranked S rank" and "rank (sh_id (S r)) < MAX_VARIANCE_DEPTH"
  shows "computed_variance S r = inner_variance (computed_variance S) (S r)"
proof -
  have "variance_impl S [sh_id (S r)] (dep_shape d) = computed_variance S (dep_shape d)"
    if d: "d \<in> set (effective_deps (S r))" for d
  proof -
    have lt: "rank (sh_id (S (dep_shape d))) < rank (sh_id (S r))"
      using assms(1) d by (simp add: ranked_def)
    show ?thesis
      unfolding computed_variance_def
      by (rule variance_impl_visited [OF assms(1)]) (use lt assms(2) in auto)
  qed
  then show ?thesis
    unfolding inner_variance_meet computed_variance_def
    by (subst variance_impl_unfold) (simp add: MAX_VARIANCE_DEPTH_def cong: map_cong)
qed

end
