(* ===== verification/BTree_Model.thy ===== *)
theory BTree_Model
  imports Prelude
begin

text \<open>
  The standard library's \<open>BTreeMap\<close> and \<open>BTreeSet\<close>, as the code uses them: a map is
  the association list of its entries in key order, a set the list of its elements in
  order. Iteration order is part of what callers observe (\<open>field_by_name\<close> returns the
  first match, error messages list names in order), so both keep it.
  The interface \<open>ordered_map\<close> is what the client theories rely on; the last section
  interprets it on the model.
\<close>

section \<open>Ordered maps\<close>

type_synonym ('k, 'v) btmap = "('k \<times> 'v) list"

definition btm_wf :: "('k::linorder, 'v) btmap \<Rightarrow> bool" where
  "btm_wf m \<longleftrightarrow> sorted_wrt (<) (map fst m)"

fun btm_get :: "('k, 'v) btmap \<Rightarrow> 'k \<Rightarrow> 'v option" where
  "btm_get [] k = None"
| "btm_get ((a, b) # m) k = (if a = k then Some b else btm_get m k)"

fun btm_insert :: "'k::linorder \<Rightarrow> 'v \<Rightarrow> ('k, 'v) btmap \<Rightarrow> ('k, 'v) btmap" where
  "btm_insert k v [] = [(k, v)]"
| "btm_insert k v ((a, b) # m) =
     (if k < a then (k, v) # (a, b) # m
      else if k = a then (k, v) # m
      else (a, b) # btm_insert k v m)"

definition btm_values :: "('k, 'v) btmap \<Rightarrow> 'v list" where
  "btm_values m = map snd m"

definition btm_map_values :: "('v \<Rightarrow> 'v) \<Rightarrow> ('k, 'v) btmap \<Rightarrow> ('k, 'v) btmap" where
  "btm_map_values f m = map (\<lambda>(k, v). (k, f v)) m"

lemma btm_get_eq_map_of: "btm_get m k = map_of m k"
  by (induction m) auto

lemma btm_wf_Nil [simp, wf_intros]: "btm_wf []"
  by (simp add: btm_wf_def)

lemma btm_wf_Cons [simp]: "btm_wf ((k, v) # m) \<longleftrightarrow> (\<forall>a \<in> fst ` set m. k < a) \<and> btm_wf m"
  by (simp add: btm_wf_def)

lemma map_fst_btm_insert [simp]: "set (map fst (btm_insert k v m)) = insert k (set (map fst m))"
  by (induction m rule: btm_insert.induct) (simp_all add: insert_commute)

lemma fst_set_btm_insert [simp]: "fst ` set (btm_insert k v m) = insert k (fst ` set m)"
  using map_fst_btm_insert by (simp del: map_fst_btm_insert)

lemma btm_wf_insert [simp, wf_intros]: "btm_wf m \<Longrightarrow> btm_wf (btm_insert k v m)"
proof (induction k v m rule: btm_insert.induct)
  case (1 k v)
  show ?case by simp
next
  case (2 k v a b m)
  have wf: "btm_wf m" and lt: "\<forall>x \<in> fst ` set m. a < x"
    using "2.prems" by simp_all
  consider "k < a" | "k = a" | "a < k" by force
  then show ?case
  proof cases
    case 1
    then show ?thesis using wf lt by (auto intro: order.strict_trans)
  next
    case 2
    then show ?thesis using wf lt by simp
  next
    case 3
    then have "btm_wf (btm_insert k v m)" using "2.IH" wf by auto
    moreover have "\<forall>x \<in> fst ` set (btm_insert k v m). a < x"
      using 3 lt by (simp only: fst_set_btm_insert) simp
    moreover have "btm_insert k v ((a, b) # m) = (a, b) # btm_insert k v m"
      using 3 by auto
    ultimately show ?thesis by (simp only: btm_wf_Cons)
  qed
qed

lemma btm_get_insert [simp]: "btm_get (btm_insert k v m) a = (if a = k then Some v else btm_get m a)"
  by (induction m) auto

lemma btm_wf_distinct: "btm_wf m \<Longrightarrow> distinct (map fst m)"
  by (simp add: btm_wf_def strict_sorted_iff)

lemma btm_get_in_set: "btm_get m k = Some v \<Longrightarrow> (k, v) \<in> set m"
  by (simp add: btm_get_eq_map_of map_of_SomeD)

lemma btm_in_set_get: "btm_wf m \<Longrightarrow> (k, v) \<in> set m \<longleftrightarrow> btm_get m k = Some v"
  by (metis btm_get_eq_map_of btm_wf_distinct map_of_eq_Some_iff)

lemma btm_get_None: "btm_get m k = None \<longleftrightarrow> k \<notin> fst ` set m"
  by (simp add: btm_get_eq_map_of map_of_eq_None_iff)

lemma set_btm_insert:
  "btm_wf m \<Longrightarrow> set (btm_insert k v m) = insert (k, v) {e \<in> set m. fst e \<noteq> k}"
  by (auto simp: btm_in_set_get split: if_splits)

lemma set_btm_insert_subset: "set (btm_insert k v m) \<subseteq> insert (k, v) (set m)"
  by (induction k v m rule: btm_insert.induct) (simp_all, blast)

lemma set_btm_values: "set (btm_values m) = snd ` set m"
  by (simp add: btm_values_def)

lemma btm_values_mem_get:
  "btm_wf m \<Longrightarrow> v \<in> set (btm_values m) \<longleftrightarrow> (\<exists>k. btm_get m k = Some v)"
  by (force simp: set_btm_values btm_in_set_get [symmetric])

lemma fst_btm_map_values [simp]: "map fst (btm_map_values f m) = map fst m"
  by (induction m) (auto simp: btm_map_values_def)

lemma btm_wf_map_values [simp, wf_intros]: "btm_wf (btm_map_values f m) = btm_wf m"
  by (simp add: btm_wf_def)

lemma btm_get_map_values [simp]: "btm_get (btm_map_values f m) k = map_option f (btm_get m k)"
  by (induction m) (auto simp: btm_map_values_def)

lemma btm_values_map_values [simp]: "btm_values (btm_map_values f m) = map f (btm_values m)"
  by (induction m) (auto simp: btm_map_values_def btm_values_def)

lemma btm_find_least:
  "btm_wf m \<Longrightarrow> (k, v) \<in> set m \<Longrightarrow> P k \<Longrightarrow> (\<And>a. a \<in> fst ` set m \<Longrightarrow> P a \<Longrightarrow> k \<le> a)
     \<Longrightarrow> List.find (\<lambda>e. P (fst e)) m = Some (k, v)"
proof (induction m)
  case Nil
  then show ?case by simp
next
  case (Cons e m)
  obtain a b where e: "e = (a, b)" by (cases e)
  show ?case
  proof (cases "P a")
    case True
    then have "k \<le> a" using Cons.prems(4) e by simp
    moreover have "a < k" if "(k, v) \<in> set m" using Cons.prems(1) e that by force
    ultimately have "(k, v) = (a, b)" using Cons.prems(2) e by auto
    with True e show ?thesis by simp
  next
    case False
    then have "(k, v) \<in> set m" using Cons.prems(2,3) e by auto
    with Cons False e show ?thesis by simp
  qed
qed

text \<open>The entry interface: \<open>entry(k).or_insert_with(d)\<close>, then an update in place.\<close>

definition btm_upsert ::
    "'k::linorder \<Rightarrow> 'v \<Rightarrow> ('v \<Rightarrow> 'v option) \<Rightarrow> ('k, 'v) btmap \<Rightarrow> ('k, 'v) btmap option" where
  "btm_upsert k d f m =
     (case f (case btm_get m k of Some v \<Rightarrow> v | None \<Rightarrow> d) of
        None \<Rightarrow> None
      | Some v \<Rightarrow> Some (btm_insert k v m))"

section \<open>Ordered sets\<close>

type_synonym 'a btset = "'a list"

definition bts_wf :: "'a::linorder btset \<Rightarrow> bool" where
  "bts_wf s \<longleftrightarrow> sorted_wrt (<) s"

fun bts_insert :: "'a::linorder \<Rightarrow> 'a btset \<Rightarrow> 'a btset" where
  "bts_insert x [] = [x]"
| "bts_insert x (y # ys) =
     (if x < y then x # y # ys else if x = y then y # ys else y # bts_insert x ys)"

definition bts_extend :: "'a::linorder btset \<Rightarrow> 'a list \<Rightarrow> 'a btset" where
  "bts_extend s xs = fold bts_insert xs s"

definition bts_collect :: "'a::linorder list \<Rightarrow> 'a btset" where
  "bts_collect xs = bts_extend [] xs"

lemma bts_wf_Nil [simp, wf_intros]: "bts_wf []"
  by (simp add: bts_wf_def)

lemma bts_wf_Cons [simp]: "bts_wf (x # s) \<longleftrightarrow> (\<forall>y \<in> set s. x < y) \<and> bts_wf s"
  by (simp add: bts_wf_def)

lemma set_bts_insert [simp]: "set (bts_insert x s) = insert x (set s)"
  by (induction s) auto

lemma bts_wf_insert [simp, wf_intros]: "bts_wf s \<Longrightarrow> bts_wf (bts_insert x s)"
  by (induction s) auto

lemma set_bts_extend [simp]: "set (bts_extend s xs) = set s \<union> set xs"
  by (induction xs arbitrary: s) (auto simp: bts_extend_def)

lemma bts_wf_extend [simp, wf_intros]: "bts_wf s \<Longrightarrow> bts_wf (bts_extend s xs)"
  by (induction xs arbitrary: s) (auto simp: bts_extend_def)

lemma set_bts_collect [simp]: "set (bts_collect xs) = set xs"
  by (simp add: bts_collect_def)

lemma bts_wf_collect [simp, wf_intros]: "bts_wf (bts_collect xs)"
  by (simp add: bts_collect_def)

lemma bts_wf_unique: "bts_wf s \<Longrightarrow> bts_wf t \<Longrightarrow> set s = set t \<Longrightarrow> s = t"
  by (simp add: bts_wf_def strict_sorted_equal)

lemma bts_insert_absorb: "bts_wf s \<Longrightarrow> x \<in> set s \<Longrightarrow> bts_insert x s = s"
  by (rule bts_wf_unique) auto

section \<open>The interface the clients use\<close>

locale ordered_map =
  fixes lookup :: "'m \<Rightarrow> 'k \<Rightarrow> 'v option"
    and update :: "'k \<Rightarrow> 'v \<Rightarrow> 'm \<Rightarrow> 'm"
    and entries :: "'m \<Rightarrow> ('k \<times> 'v) set"
    and ok :: "'m \<Rightarrow> bool"
  assumes lookup_update: "lookup (update k v m) a = (if a = k then Some v else lookup m a)"
    and ok_update: "ok m \<Longrightarrow> ok (update k v m)"
    and entries_lookup: "ok m \<Longrightarrow> (k, v) \<in> entries m \<longleftrightarrow> lookup m k = Some v"
begin

definition updates :: "('k \<times> 'v) list \<Rightarrow> 'm \<Rightarrow> 'm" where
  "updates es m = fold (\<lambda>(k, v). update k v) es m"

lemma ok_updates: "ok m \<Longrightarrow> ok (updates es m)"
  by (induction es arbitrary: m) (auto simp: updates_def ok_update)

lemma lookup_updates:
  "lookup (updates es m) k = (case map_of (rev es) k of Some v \<Rightarrow> Some v | None \<Rightarrow> lookup m k)"
proof (induction es arbitrary: m)
  case Nil
  then show ?case by (simp add: updates_def)
next
  case (Cons e es)
  obtain a v where e: "e = (a, v)" by (cases e)
  have step: "updates ((a, v) # es) m = updates es (update a v m)"
    by (simp add: updates_def)
  show ?case
    unfolding e step Cons.IH
    by (auto simp: lookup_update map_add_def split: option.splits)
qed

lemma entries_update:
  "ok m \<Longrightarrow> entries (update k v m) = insert (k, v) {e \<in> entries m. fst e \<noteq> k}"
  by (auto simp: entries_lookup ok_update lookup_update split: if_splits)

end

interpretation bt: ordered_map btm_get btm_insert set btm_wf
  by unfold_locales (simp_all add: btm_in_set_get)

end
