(* ===== verification/Resolution.thy ===== *)
theory Resolution
  imports BTree_Model Shape
begin

text \<open>
  Resolutions (facet-reflect/src/resolution.rs): one choice of variants for every enum that
  is flattened into a type, with all the fields, required names and key paths that choice
  makes known. The invariant \<open>res_wf\<close> ties the redundant parts together; every operation
  that changes a resolution keeps it.
\<close>

section \<open>Keys\<close>

datatype field_category =
  Cat_Flat | Cat_Attribute | Cat_Element | Cat_Text | Cat_Tag | Cat_Elements

datatype field_key = Key_Flat string | Key_Dom field_category string

datatype path_segment = Seg_Field string | Seg_Variant string string

text \<open>The derived orders: by declaration order of the constructors, then by the fields.\<close>

fun category_rank :: "field_category \<Rightarrow> nat" where
  "category_rank Cat_Flat = 0"
| "category_rank Cat_Attribute = 1"
| "category_rank Cat_Element = 2"
| "category_rank Cat_Text = 3"
| "category_rank Cat_Tag = 4"
| "category_rank Cat_Elements = 5"

fun key_rank :: "field_key \<Rightarrow> nat \<times> nat \<times> string" where
  "key_rank (Key_Flat n) = (0, 0, n)"
| "key_rank (Key_Dom c n) = (1, category_rank c, n)"

fun segment_rank :: "path_segment \<Rightarrow> nat \<times> string \<times> string" where
  "segment_rank (Seg_Field n) = (0, n, [])"
| "segment_rank (Seg_Variant f v) = (1, f, v)"

lemma category_rank_inj: "category_rank a = category_rank b \<longleftrightarrow> a = b"
  by (cases a; cases b; simp)

lemma key_rank_inj: "key_rank a = key_rank b \<longleftrightarrow> a = b"
  by (cases a; cases b; simp add: category_rank_inj)

lemma segment_rank_inj: "segment_rank a = segment_rank b \<longleftrightarrow> a = b"
  by (cases a; cases b; simp)

instantiation field_category :: linorder
begin

definition less_eq_field_category :: "field_category \<Rightarrow> field_category \<Rightarrow> bool" where
  "less_eq_field_category a b \<longleftrightarrow> category_rank a \<le> category_rank b"

definition less_field_category :: "field_category \<Rightarrow> field_category \<Rightarrow> bool" where
  "less_field_category a b \<longleftrightarrow> category_rank a < category_rank b"

instance
  by standard (auto simp: less_eq_field_category_def less_field_category_def
      category_rank_inj [symmetric])

end

instantiation field_key :: linorder
begin

definition less_eq_field_key :: "field_key \<Rightarrow> field_key \<Rightarrow> bool" where
  "less_eq_field_key a b \<longleftrightarrow> key_rank a \<le> key_rank b"

definition less_field_key :: "field_key \<Rightarrow> field_key \<Rightarrow> bool" where
  "less_field_key a b \<longleftrightarrow> key_rank a < key_rank b"

instance
  by standard (auto simp del: key_rank.simps
      simp: less_eq_field_key_def less_field_key_def key_rank_inj [symmetric])

end

instantiation path_segment :: linorder
begin

definition less_eq_path_segment :: "path_segment \<Rightarrow> path_segment \<Rightarrow> bool" where
  "less_eq_path_segment a b \<longleftrightarrow> segment_rank a \<le> segment_rank b"

definition less_path_segment :: "path_segment \<Rightarrow> path_segment \<Rightarrow> bool" where
  "less_path_segment a b \<longleftrightarrow> segment_rank a < segment_rank b"

instance
  by standard (auto simp: less_eq_path_segment_def less_path_segment_def
      segment_rank_inj [symmetric])

end

definition from_field_dom :: "field \<Rightarrow> field_category option" where
  "from_field_dom f =
     (if is_flattened f then None
      else if is_attribute f then Some Cat_Attribute
      else if is_text f then Some Cat_Text
      else if is_tag f then Some Cat_Tag
      else if is_elements f then Some Cat_Elements
      else Some Cat_Element)"

definition key_attribute :: "string \<Rightarrow> field_key" where
  "key_attribute name = Key_Dom Cat_Attribute name"

definition key_element :: "string \<Rightarrow> field_key" where
  "key_element name = Key_Dom Cat_Element name"

definition key_text :: field_key where
  "key_text = Key_Dom Cat_Text []"

definition key_tag :: field_key where
  "key_tag = Key_Dom Cat_Tag []"

definition key_elements :: field_key where
  "key_elements = Key_Dom Cat_Elements []"

fun key_name :: "field_key \<Rightarrow> string" where
  "key_name (Key_Flat name) = name"
| "key_name (Key_Dom c name) = name"

fun key_category :: "field_key \<Rightarrow> field_category option" where
  "key_category (Key_Flat name) = None"
| "key_category (Key_Dom c name) = Some c"

fun category_debug :: "field_category \<Rightarrow> string" where
  "category_debug Cat_Flat = ''Flat''"
| "category_debug Cat_Attribute = ''Attribute''"
| "category_debug Cat_Element = ''Element''"
| "category_debug Cat_Text = ''Text''"
| "category_debug Cat_Tag = ''Tag''"
| "category_debug Cat_Elements = ''Elements''"

fun key_display :: "field_key \<Rightarrow> string" where
  "key_display (Key_Flat name) = name"
| "key_display (Key_Dom c name) = category_debug c @ '':'' @ name"

section \<open>Paths\<close>

type_synonym key_path = "string list"
type_synonym dom_key_path = "field_key list"
type_synonym field_path = "path_segment list"

definition path_empty :: field_path where
  "path_empty = []"

definition path_depth :: "field_path \<Rightarrow> nat" where
  "path_depth p = length p"

definition push_field :: "field_path \<Rightarrow> string \<Rightarrow> field_path" where
  "push_field p name = p @ [Seg_Field name]"

definition push_variant :: "field_path \<Rightarrow> string \<Rightarrow> string \<Rightarrow> field_path" where
  "push_variant p field_name variant_name = p @ [Seg_Variant field_name variant_name]"

definition path_parent :: "field_path \<Rightarrow> field_path" where
  "path_parent p = butlast p"

definition path_last :: "field_path \<Rightarrow> path_segment option" where
  "path_last p = (if p = [] then None else Some (last p))"

fun path_display_loop :: "bool \<Rightarrow> field_path \<Rightarrow> string" where
  "path_display_loop first [] = []"
| "path_display_loop first (Seg_Field name # p) =
     (if \<not> first then ''.'' else []) @ name @ path_display_loop False p"
| "path_display_loop first (Seg_Variant f v # p) = path_display_loop first p"

definition path_display :: "field_path \<Rightarrow> string" where
  "path_display p = path_display_loop True p"

section \<open>Fields and resolutions\<close>

record variant_selection =
  vs_path :: field_path
  vs_enum_name :: string
  vs_variant_name :: string

record field_info =
  fi_name :: string
  fi_path :: field_path
  fi_required :: bool
  fi_value_shape :: sref
  fi_field :: field
  fi_category :: field_category

fun category_key :: "field_category \<Rightarrow> string \<Rightarrow> field_key" where
  "category_key Cat_Flat name = Key_Flat name"
| "category_key c name = Key_Dom c name"

definition info_key :: "field_info \<Rightarrow> field_key" where
  "info_key i = category_key (fi_category i) (fi_name i)"

definition info_eq :: "field_info \<Rightarrow> field_info \<Rightarrow> bool" where
  "info_eq a b \<longleftrightarrow> fi_name a = fi_name b \<and> fi_path a = fi_path b \<and> fi_required a = fi_required b
     \<and> fi_value_shape a = fi_value_shape b \<and> f_addr (fi_field a) = f_addr (fi_field b)
     \<and> fi_category a = fi_category b"

record duplicate_field_error =
  de_field_name :: string
  de_first_path :: field_path
  de_second_path :: field_path

record resolution =
  rn_variant_selections :: "variant_selection list"
  rn_fields :: "(field_key, field_info) btmap"
  rn_required_field_names :: "string btset"
  rn_known_paths :: "key_path btset"
  rn_dom_known_paths :: "dom_key_path btset"
  rn_catch_all_maps :: "(field_category, field_info) btmap"

definition resolution_new :: resolution where
  "resolution_new = \<lparr>rn_variant_selections = [], rn_fields = [], rn_required_field_names = [],
     rn_known_paths = [], rn_dom_known_paths = [], rn_catch_all_maps = []\<rparr>"

definition set_catch_all_map :: "resolution \<Rightarrow> field_category \<Rightarrow> field_info \<Rightarrow> resolution" where
  "set_catch_all_map r category info =
     r\<lparr>rn_catch_all_maps := btm_insert category info (rn_catch_all_maps r)\<rparr>"

definition catch_all_map :: "resolution \<Rightarrow> field_category \<Rightarrow> field_info option" where
  "catch_all_map r category = btm_get (rn_catch_all_maps r) category"

definition add_key_path :: "resolution \<Rightarrow> key_path \<Rightarrow> resolution" where
  "add_key_path r path = r\<lparr>rn_known_paths := bts_insert path (rn_known_paths r)\<rparr>"

definition add_dom_key_path :: "resolution \<Rightarrow> dom_key_path \<Rightarrow> resolution" where
  "add_dom_key_path r path = r\<lparr>rn_dom_known_paths := bts_insert path (rn_dom_known_paths r)\<rparr>"

definition insert_field :: "field_key \<Rightarrow> field_info \<Rightarrow> resolution \<Rightarrow> resolution" where
  "insert_field key info r = r\<lparr>
     rn_required_field_names :=
       (if fi_required info then bts_insert (fi_name info) (rn_required_field_names r)
        else rn_required_field_names r),
     rn_fields := btm_insert key info (rn_fields r)\<rparr>"

definition path_conflict :: "field_key \<Rightarrow> field_info \<Rightarrow> resolution \<Rightarrow> duplicate_field_error option"
  where
  "path_conflict key info r =
     (case btm_get (rn_fields r) key of
        Some existing \<Rightarrow>
          if fi_path existing \<noteq> fi_path info
          then Some \<lparr>de_field_name = fi_name info, de_first_path = fi_path existing,
                     de_second_path = fi_path info\<rparr>
          else None
      | None \<Rightarrow> None)"

definition add_field :: "resolution \<Rightarrow> field_info \<Rightarrow> (duplicate_field_error, resolution) outcome"
  where
  "add_field r info =
     (let key = info_key info
      in case path_conflict key info r of
           Some e \<Rightarrow> Err e
         | None \<Rightarrow> Ok (insert_field key info r))"

definition add_variant_selection ::
    "resolution \<Rightarrow> field_path \<Rightarrow> string \<Rightarrow> string \<Rightarrow> resolution" where
  "add_variant_selection r path enum_name variant_name =
     r\<lparr>rn_variant_selections := rn_variant_selections r @
        [\<lparr>vs_path = path, vs_enum_name = enum_name, vs_variant_name = variant_name\<rparr>]\<rparr>"

definition merge :: "resolution \<Rightarrow> resolution \<Rightarrow> (duplicate_field_error, resolution) outcome" where
  "merge self other =
     obind (rfold (\<lambda>(key, info) r.
              case path_conflict key info r of
                Some e \<Rightarrow> Err e
              | None \<Rightarrow> Ok (insert_field key info r)) (rn_fields other) self)
       (\<lambda>r. Ok (r\<lparr>
          rn_variant_selections := rn_variant_selections r @ rn_variant_selections other,
          rn_known_paths := bts_extend (rn_known_paths r) (rn_known_paths other),
          rn_dom_known_paths := bts_extend (rn_dom_known_paths r) (rn_dom_known_paths other),
          rn_catch_all_maps :=
            fold (\<lambda>(cat, info). btm_insert cat info) (rn_catch_all_maps other) (rn_catch_all_maps r)\<rparr>))"

definition mark_all_optional :: "resolution \<Rightarrow> resolution" where
  "mark_all_optional r = r\<lparr>rn_required_field_names := [],
     rn_fields := btm_map_values (\<lambda>info. info\<lparr>fi_required := False\<rparr>) (rn_fields r)\<rparr>"

section \<open>Queries\<close>

datatype match_result =
  Match_Exact
| Match_WithOptionalMissing "string list"
| Match_NoMatch "string list" "string list"

definition res_matches :: "resolution \<Rightarrow> string btset \<Rightarrow> match_result" where
  "res_matches r input_fields =
     (let infos = btm_values (rn_fields r);
          missing = filter (\<lambda>i. \<not> list_ex (\<lambda>k. k = fi_name i) input_fields) infos;
          missing_required = map fi_name (filter fi_required missing);
          missing_optional = map fi_name (filter (\<lambda>i. \<not> fi_required i) missing);
          unknown = filter (\<lambda>f. \<not> list_ex (\<lambda>i. fi_name i = f) infos) input_fields
      in if missing_required \<noteq> [] \<or> unknown \<noteq> [] then Match_NoMatch missing_required unknown
         else if missing_optional = [] then Match_Exact
         else Match_WithOptionalMissing missing_optional)"

fun join_with :: "string \<Rightarrow> string list \<Rightarrow> string" where
  "join_with sep [] = []"
| "join_with sep [x] = x"
| "join_with sep (x # y # ys) = x @ sep @ join_with sep (y # ys)"

definition describe :: "resolution \<Rightarrow> string" where
  "describe r =
     (if rn_variant_selections r = [] then ''(no variants)''
      else join_with '' + ''
        (map (\<lambda>vs. vs_enum_name vs @ ''::'' @ vs_variant_name vs) (rn_variant_selections r)))"

definition deserialization_order :: "resolution \<Rightarrow> field_info list" where
  "deserialization_order r =
     sort_key (\<lambda>i. (- int (path_depth (fi_path i)), fi_path i)) (btm_values (rn_fields r))"

fun key_matches :: "field_key \<Rightarrow> field_key \<Rightarrow> bool" where
  "key_matches (Key_Flat a) (Key_Flat b) \<longleftrightarrow> a = b"
| "key_matches (Key_Dom cat_a a) (Key_Dom cat_b b) \<longleftrightarrow> cat_a = cat_b \<and> a = b"
| "key_matches _ _ \<longleftrightarrow> False"

definition field_by_key :: "resolution \<Rightarrow> field_key \<Rightarrow> field_info option" where
  "field_by_key r key = map_option snd (List.find (\<lambda>(k, v). key_matches k key) (rn_fields r))"

definition field_by_name :: "resolution \<Rightarrow> string \<Rightarrow> field_info option" where
  "field_by_name r name = List.find (\<lambda>f. fi_name f = name) (btm_values (rn_fields r))"

definition missing_optional_fields :: "resolution \<Rightarrow> string btset \<Rightarrow> field_info list" where
  "missing_optional_fields r seen_keys =
     filter (\<lambda>info. \<not> fi_required info \<and> \<not> list_ex (\<lambda>k. k = fi_name info) seen_keys)
       (btm_values (rn_fields r))"

definition child_fields :: "resolution \<Rightarrow> field_info list" where
  "child_fields r = filter (\<lambda>f. is_child (fi_field f)) (btm_values (rn_fields r))"

definition property_fields :: "resolution \<Rightarrow> field_info list" where
  "property_fields r = filter (\<lambda>f. \<not> is_child (fi_field f)) (btm_values (rn_fields r))"

definition has_key_path :: "resolution \<Rightarrow> string list \<Rightarrow> bool" where
  "has_key_path r path \<longleftrightarrow>
     list_ex (\<lambda>known. length known = length path \<and> list_all (\<lambda>(a, b). a = b) (zip known path))
       (rn_known_paths r)"

definition has_dom_key_path :: "resolution \<Rightarrow> field_key list \<Rightarrow> bool" where
  "has_dom_key_path r path \<longleftrightarrow>
     list_ex (\<lambda>known. length known = length path
        \<and> list_all (\<lambda>(a, b). key_matches a b) (zip known path))
       (rn_dom_known_paths r)"

section \<open>The invariant of a resolution\<close>

lemma key_name_category_key [simp]: "key_name (category_key c n) = n"
  by (cases c) simp_all

lemma key_name_info_key [simp]: "key_name (info_key i) = fi_name i"
  by (simp add: info_key_def)

definition field_infos :: "resolution \<Rightarrow> field_info set" where
  "field_infos r = snd ` set (rn_fields r)"

definition res_keys :: "resolution \<Rightarrow> field_key set" where
  "res_keys r = fst ` set (rn_fields r)"

definition res_wf :: "resolution \<Rightarrow> bool" where
  "res_wf r \<longleftrightarrow>
     btm_wf (rn_fields r) \<and> list_all (\<lambda>(k, i). k = info_key i) (rn_fields r)
     \<and> bts_wf (rn_required_field_names r) \<and> bts_wf (rn_known_paths r)
     \<and> bts_wf (rn_dom_known_paths r) \<and> btm_wf (rn_catch_all_maps r)
     \<and> fi_name ` {i \<in> field_infos r. fi_required i} \<subseteq> set (rn_required_field_names r)
     \<and> set (rn_required_field_names r) \<subseteq> fi_name ` field_infos r"

lemma res_wf_keyed: "res_wf r \<Longrightarrow> (k, i) \<in> set (rn_fields r) \<Longrightarrow> k = info_key i"
  by (auto simp: res_wf_def list_all_iff)

lemma res_wf_get: "res_wf r \<Longrightarrow> btm_get (rn_fields r) k = Some i \<Longrightarrow> k = info_key i"
  by (blast intro: res_wf_keyed btm_get_in_set)

lemma res_wf_fields: "res_wf r \<Longrightarrow> btm_wf (rn_fields r)"
  by (simp add: res_wf_def)

lemma field_infos_values: "field_infos r = set (btm_values (rn_fields r))"
  by (simp add: field_infos_def set_btm_values)

lemma field_infos_get: "res_wf r \<Longrightarrow> i \<in> field_infos r \<longleftrightarrow> btm_get (rn_fields r) (info_key i) = Some i"
  by (metis btm_values_mem_get field_infos_values res_wf_fields res_wf_get)

lemma res_keys_infos: "res_wf r \<Longrightarrow> res_keys r = info_key ` field_infos r"
  by (force simp: res_keys_def field_infos_def dest: res_wf_keyed)

lemma res_keys_get: "k \<in> res_keys r \<longleftrightarrow> btm_get (rn_fields r) k \<noteq> None"
  by (simp add: res_keys_def btm_get_None)

lemma res_wf_new [simp, wf_intros]: "res_wf resolution_new"
  by (simp add: res_wf_def resolution_new_def field_infos_def)

lemma res_wf_update [simp, wf_intros]:
  assumes "res_wf r"
  shows "res_wf (set_catch_all_map r c i)" and "res_wf (add_key_path r p)"
    and "res_wf (add_dom_key_path r d)" and "res_wf (add_variant_selection r fp e v)"
  using assms
  by (simp_all add: res_wf_def set_catch_all_map_def add_key_path_def add_dom_key_path_def
      add_variant_selection_def field_infos_def)

lemma fields_update [simp]:
  "rn_fields (set_catch_all_map r c i) = rn_fields r"
  "rn_fields (add_key_path r p) = rn_fields r"
  "rn_fields (add_dom_key_path r d) = rn_fields r"
  "rn_fields (add_variant_selection r fp e v) = rn_fields r"
  by (simp_all add: set_catch_all_map_def add_key_path_def add_dom_key_path_def
      add_variant_selection_def)

lemma fields_insert_field [simp]: "rn_fields (insert_field k i r) = btm_insert k i (rn_fields r)"
  by (simp add: insert_field_def)

lemma field_infos_insert_field:
  assumes "res_wf r" and "k = info_key i"
  shows "field_infos (insert_field k i r) = insert i {j \<in> field_infos r. info_key j \<noteq> k}"
  using assms res_wf_keyed [OF assms(1)]
  by (force simp: field_infos_def set_btm_insert res_wf_fields)

lemma res_wf_insert_field [simp, wf_intros]:
  assumes wf: "res_wf r" and k: "k = info_key i"
  shows "res_wf (insert_field k i r)"
proof -
  let ?r = "insert_field k i r"
  have infos: "field_infos ?r = insert i {j \<in> field_infos r. info_key j \<noteq> k}"
    by (rule field_infos_insert_field [OF wf k])
  have same: "fi_name j = fi_name i" if "info_key j = k" for j
    using that k by (metis key_name_info_key)
  have keyed: "list_all (\<lambda>(a, b). a = info_key b) (rn_fields ?r)"
    using wf k set_btm_insert [of "rn_fields r" k i]
    by (auto simp: list_all_iff res_wf_def)
  have req: "set (rn_required_field_names ?r)
      = set (rn_required_field_names r) \<union> (if fi_required i then {fi_name i} else {})"
    by (simp add: insert_field_def)
  have names: "fi_name ` field_infos r \<subseteq> fi_name ` field_infos ?r"
    unfolding infos using same by fastforce
  have 1: "fi_name ` {j \<in> field_infos ?r. fi_required j} \<subseteq> set (rn_required_field_names ?r)"
    using wf unfolding infos req res_wf_def by auto
  have 2: "set (rn_required_field_names ?r) \<subseteq> fi_name ` field_infos ?r"
  proof -
    have "set (rn_required_field_names r) \<subseteq> fi_name ` field_infos ?r"
      using wf names unfolding res_wf_def by blast
    moreover have "fi_name i \<in> fi_name ` field_infos ?r" unfolding infos by simp
    ultimately show ?thesis unfolding req by simp
  qed
  have 3: "bts_wf (rn_required_field_names ?r)" "bts_wf (rn_known_paths ?r)"
    "bts_wf (rn_dom_known_paths ?r)" "btm_wf (rn_catch_all_maps ?r)" "btm_wf (rn_fields ?r)"
    using wf by (simp_all add: res_wf_def insert_field_def)
  show ?thesis unfolding res_wf_def using keyed 1 2 3 by blast
qed

lemma add_field_eq_Ok:
  "add_field r i = Ok r' \<longleftrightarrow>
     path_conflict (info_key i) i r = None \<and> r' = insert_field (info_key i) i r"
  by (auto simp: add_field_def Let_def split: option.splits)

lemma add_field_no_overrun [simp]: "add_field r i \<noteq> Overrun"
  by (auto simp: add_field_def Let_def split: option.splits)

lemma res_wf_add_field [wf_intros]: "res_wf r \<Longrightarrow> add_field r i = Ok r' \<Longrightarrow> res_wf r'"
  by (simp add: add_field_eq_Ok)

lemma path_conflict_eq_None:
  "path_conflict k i r = None \<longleftrightarrow>
     (\<forall>j. btm_get (rn_fields r) k = Some j \<longrightarrow> fi_path j = fi_path i)"
  by (auto simp: path_conflict_def split: option.splits)

lemma path_conflict_eq_Some:
  "path_conflict k i r = Some e \<longleftrightarrow>
     (\<exists>j. btm_get (rn_fields r) k = Some j \<and> fi_path j \<noteq> fi_path i
        \<and> e = \<lparr>de_field_name = fi_name i, de_first_path = fi_path j, de_second_path = fi_path i\<rparr>)"
  by (auto simp: path_conflict_def split: option.splits)

section \<open>Merging\<close>

definition merge_step :: "field_key \<times> field_info \<Rightarrow> resolution
    \<Rightarrow> (duplicate_field_error, resolution) outcome" where
  "merge_step e r = (case path_conflict (fst e) (snd e) r of
     Some err \<Rightarrow> Err err | None \<Rightarrow> Ok (insert_field (fst e) (snd e) r))"

definition merge_rest :: "resolution \<Rightarrow> resolution \<Rightarrow> resolution" where
  "merge_rest other r = r\<lparr>
     rn_variant_selections := rn_variant_selections r @ rn_variant_selections other,
     rn_known_paths := bts_extend (rn_known_paths r) (rn_known_paths other),
     rn_dom_known_paths := bts_extend (rn_dom_known_paths r) (rn_dom_known_paths other),
     rn_catch_all_maps :=
       fold (\<lambda>(cat, info). btm_insert cat info) (rn_catch_all_maps other) (rn_catch_all_maps r)\<rparr>"

lemma merge_unfold:
  "merge self other =
     obind (rfold merge_step (rn_fields other) self) (\<lambda>r. Ok (merge_rest other r))"
proof -
  have "merge_step = (\<lambda>(key, info) r. case path_conflict key info r of
      Some e \<Rightarrow> Err e | None \<Rightarrow> Ok (insert_field key info r))"
    by (simp add: fun_eq_iff merge_step_def split: option.splits)
  then show ?thesis by (simp only: merge_def merge_rest_def)
qed

lemma merge_step_eq_Ok [run_simps]:
  "merge_step e r = Ok r' \<longleftrightarrow>
     path_conflict (fst e) (snd e) r = None \<and> r' = insert_field (fst e) (snd e) r"
  by (auto simp: merge_step_def split: option.splits)

lemma merge_step_no_overrun [simp]: "merge_step e r \<noteq> Overrun"
  by (auto simp: merge_step_def split: option.splits)

lemma merge_no_overrun [simp]: "merge a b \<noteq> Overrun"
  by (auto simp: merge_unfold run_simps rfold_no_overrun)

lemma fields_merge_rest [simp]: "rn_fields (merge_rest other r) = rn_fields r"
  by (simp add: merge_rest_def)

lemma res_wf_merge_rest:
  assumes "res_wf r" and "res_wf other"
  shows "res_wf (merge_rest other r)"
  using assms bt.ok_updates [of "rn_catch_all_maps r" "rn_catch_all_maps other"]
  by (simp add: res_wf_def merge_rest_def field_infos_def bt.updates_def)

lemma res_wf_merge [wf_intros]:
  assumes wf: "res_wf a" "res_wf b" and m: "merge a b = Ok c"
  shows "res_wf c"
proof -
  from m obtain r where r: "rfold merge_step (rn_fields b) a = Ok r" "c = merge_rest b r"
    by (auto simp: merge_unfold run_simps)
  have "res_wf r"
    by (rule rfold_invariant [OF r(1)])
      (use wf res_wf_keyed [OF wf(2)] in \<open>auto simp: run_simps\<close>)
  then show ?thesis using wf r(2) by (simp add: res_wf_merge_rest)
qed

text \<open>The fields of the result: the right-hand map over the left-hand one.\<close>

lemma merge_fields_fold:
  "rfold merge_step es a = Ok r \<Longrightarrow> rn_fields r = bt.updates es (rn_fields a)"
  by (induction es arbitrary: a) (auto simp: run_simps bt.updates_def)

lemma merge_conflict_free:
  assumes "distinct (map fst es)"
  shows "(\<exists>r. rfold merge_step es a = Ok r) \<longleftrightarrow>
    (\<forall>(k, i) \<in> set es. \<forall>j. btm_get (rn_fields a) k = Some j \<longrightarrow> fi_path j = fi_path i)"
  using assms
proof (induction es arbitrary: a)
  case Nil
  then show ?case by simp
next
  case (Cons e es)
  obtain k i where e: "e = (k, i)" by (cases e)
  let ?a = "insert_field k i a"
  have IH: "(\<exists>r. rfold merge_step es ?a = Ok r) \<longleftrightarrow>
      (\<forall>(k', i') \<in> set es. \<forall>j. btm_get (rn_fields ?a) k' = Some j \<longrightarrow> fi_path j = fi_path i')"
    by (rule Cons.IH) (use Cons.prems in simp)
  have other: "btm_get (rn_fields ?a) k' = btm_get (rn_fields a) k'" if "(k', i') \<in> set es" for k' i'
    using that Cons.prems e by (auto simp: rev_image_eqI)
  have "(\<exists>r. rfold merge_step (e # es) a = Ok r) \<longleftrightarrow>
      path_conflict k i a = None \<and> (\<exists>r. rfold merge_step es ?a = Ok r)"
    by (auto simp: run_simps e)
  also have "\<dots> \<longleftrightarrow> (\<forall>(k, i) \<in> set (e # es). \<forall>j. btm_get (rn_fields a) k = Some j \<longrightarrow> fi_path j = fi_path i)"
    unfolding IH path_conflict_eq_None e using other by fastforce
  finally show ?case .
qed

lemma merge_get:
  assumes "merge a b = Ok c" and "res_wf b"
  shows "btm_get (rn_fields c) k =
    (case btm_get (rn_fields b) k of Some i \<Rightarrow> Some i | None \<Rightarrow> btm_get (rn_fields a) k)"
proof -
  have "distinct (map fst (rn_fields b))" using assms(2) by (simp add: res_wf_fields btm_wf_distinct)
  then have "map_of (rev (rn_fields b)) = map_of (rn_fields b)"
    by (simp add: map_of_inject_set rev_map [symmetric])
  then show ?thesis
    using assms(1) bt.lookup_updates [of "rn_fields b" "rn_fields a" k]
    by (auto simp: merge_unfold run_simps merge_fields_fold btm_get_eq_map_of)
qed

lemma merge_Ok_iff:
  assumes "res_wf b"
  shows "(\<exists>c. merge a b = Ok c) \<longleftrightarrow>
    (\<forall>k i j. btm_get (rn_fields b) k = Some i \<longrightarrow> btm_get (rn_fields a) k = Some j
       \<longrightarrow> fi_path j = fi_path i)"
proof -
  have "distinct (map fst (rn_fields b))"
    using assms by (simp add: res_wf_fields btm_wf_distinct)
  from merge_conflict_free [OF this, of a]
  have "(\<exists>c. merge a b = Ok c) \<longleftrightarrow>
      (\<forall>k i. (k, i) \<in> set (rn_fields b) \<longrightarrow>
         (\<forall>j. btm_get (rn_fields a) k = Some j \<longrightarrow> fi_path j = fi_path i))"
    by (auto simp: merge_unfold run_simps)
  then show ?thesis by (auto simp: btm_in_set_get [OF res_wf_fields [OF assms]])
qed

lemma res_keys_merge:
  assumes "merge a b = Ok c" and "res_wf b"
  shows "res_keys c = res_keys a \<union> res_keys b"
  using merge_get [OF assms] by (auto simp: set_eq_iff res_keys_get split: option.splits)

section \<open>Making a branch optional\<close>

lemma field_infos_mark:
  "field_infos (mark_all_optional r) = (\<lambda>i. i\<lparr>fi_required := False\<rparr>) ` field_infos r"
  by (simp add: field_infos_values mark_all_optional_def)

lemma info_key_required [simp]: "info_key (i\<lparr>fi_required := b\<rparr>) = info_key i"
  by (simp add: info_key_def)

lemma res_wf_mark_all_optional [simp, wf_intros]:
  assumes "res_wf r"
  shows "res_wf (mark_all_optional r)"
proof -
  have "list_all (\<lambda>(k, i). k = info_key i) (rn_fields (mark_all_optional r))"
    using assms by (auto simp: res_wf_def list_all_iff mark_all_optional_def btm_map_values_def)
  then show ?thesis
    using assms unfolding res_wf_def field_infos_mark
    by (auto simp: mark_all_optional_def)
qed

lemma res_keys_mark [simp]: "res_keys (mark_all_optional r) = res_keys r"
  by (simp add: res_keys_get set_eq_iff mark_all_optional_def)

section \<open>Queries\<close>

lemma key_matches_eq [simp]: "key_matches a b \<longleftrightarrow> a = b"
  by (cases a; cases b) auto

lemma find_key_get: "map_option snd (List.find (\<lambda>(a, v). a = k) m) = btm_get m k"
  by (induction m) auto

lemma field_by_key_get: "field_by_key r k = btm_get (rn_fields r) k"
  by (simp add: field_by_key_def find_key_get)

lemma zip_eq_iff:
  "length xs = length ys \<Longrightarrow> list_all (\<lambda>(a, b). a = b) (zip xs ys) \<longleftrightarrow> xs = ys"
  by (induction xs ys rule: list_induct2) auto

lemma has_key_path_iff: "has_key_path r p \<longleftrightarrow> p \<in> set (rn_known_paths r)"
  unfolding has_key_path_def list_ex_iff using zip_eq_iff by blast

lemma has_dom_key_path_iff: "has_dom_key_path r p \<longleftrightarrow> p \<in> set (rn_dom_known_paths r)"
  unfolding has_dom_key_path_def list_ex_iff key_matches_eq using zip_eq_iff by blast

lemma field_by_name_Some:
  "field_by_name r n = Some i \<Longrightarrow> i \<in> field_infos r \<and> fi_name i = n"
  by (auto simp: field_by_name_def field_infos_values dest: find_eq_Some_in_set)

lemma field_by_name_None:
  "field_by_name r n = None \<longleftrightarrow> n \<notin> fi_name ` field_infos r"
  by (auto simp: field_by_name_def field_infos_values find_eq_None)

lemma set_deserialization_order [simp]: "set (deserialization_order r) = field_infos r"
  by (simp add: deserialization_order_def field_infos_values)

end
