(* ===== verification/Schema_Builder.thy ===== *)
theory Schema_Builder
  imports Resolution Resolution_Set
begin

text \<open>
  The schema builder of facet-solver (src/lib.rs, from \<open>EnumRepr\<close> to \<open>into_schema\<close>):
  from a shape, all the resolutions of the type, and the inverted indexes over them.

  The code recurses through static shapes, which may be cyclic, so each function that goes
  from a shape to another takes fuel for the depth of the call stack and answers \<open>Overrun\<close>
  when it is spent; the theory Schema_Facts gives the fuel that is enough for the types whose
  expansion is finite. The functions of one recursive group pass their callee at the smaller
  fuel as an argument (\<open>visit\<close>, \<open>flat\<close>), so each is its own definition, in the order of
  the code.
\<close>

section \<open>Options, wrappers and proxies\<close>

definition is_option_type :: "shape \<Rightarrow> bool" where
  "is_option_type s = (case sh_def s of Def_Option _ \<Rightarrow> True | _ \<Rightarrow> False)"

definition unwrap_option_type :: "shape \<Rightarrow> sref option" where
  "unwrap_option_type s = (case sh_def s of Def_Option t \<Rightarrow> Some t | _ \<Rightarrow> None)"

fun unwrap_transparent :: "shapes \<Rightarrow> nat \<Rightarrow> sref \<Rightarrow> ('e, sref) outcome" where
  "unwrap_transparent S 0 r = Overrun"
| "unwrap_transparent S (Suc n) r =
     (case sh_inner (S r) of Some inner \<Rightarrow> unwrap_transparent S n inner | None \<Rightarrow> Ok r)"

fun unwrap_to_effective_shape :: "shapes \<Rightarrow> nat \<Rightarrow> sref \<Rightarrow> ('e, sref) outcome" where
  "unwrap_to_effective_shape S 0 r = Overrun"
| "unwrap_to_effective_shape S (Suc n) r =
     obind (unwrap_transparent S (Suc n) r) (\<lambda>r.
       case sh_proxy (S r) of
         Some proxy_shape \<Rightarrow> unwrap_to_effective_shape S n proxy_shape
       | None \<Rightarrow> Ok r)"

fun unwrap_transparent_with_path ::
    "shapes \<Rightarrow> nat \<Rightarrow> sref \<Rightarrow> field_path \<Rightarrow> ('e, sref \<times> field_path) outcome" where
  "unwrap_transparent_with_path S 0 r path = Overrun"
| "unwrap_transparent_with_path S (Suc n) r path =
     (case sh_inner (S r) of
        Some inner \<Rightarrow> unwrap_transparent_with_path S n inner (push_field path ''0'')
      | None \<Rightarrow> Ok (r, path))"

section \<open>Enum representations\<close>

datatype enum_repr =
  Repr_Flattened
| Repr_ExternallyTagged
| Repr_InternallyTagged string
| Repr_AdjacentlyTagged string string

definition enum_repr_from_shape :: "shape \<Rightarrow> enum_repr" where
  "enum_repr_from_shape s =
     (if is_untagged s then Repr_Flattened
      else (case (sh_tag s, sh_content s) of
              (Some t, Some c) \<Rightarrow> Repr_AdjacentlyTagged t c
            | (Some t, None) \<Rightarrow> Repr_InternallyTagged t
            | (None, None) \<Rightarrow> Repr_ExternallyTagged
            | (None, Some c) \<Rightarrow> Repr_ExternallyTagged))"

datatype format = Format_Flat | Format_Dom

record schema_builder =
  sb_shape :: sref
  sb_enum_repr :: enum_repr
  sb_auto_detect_enum_repr :: bool
  sb_format :: format

definition builder_new :: "sref \<Rightarrow> enum_repr \<Rightarrow> schema_builder" where
  "builder_new r repr = \<lparr>sb_shape = r, sb_enum_repr = repr, sb_auto_detect_enum_repr = False,
     sb_format = Format_Flat\<rparr>"

definition with_auto_detect :: "schema_builder \<Rightarrow> schema_builder" where
  "with_auto_detect b = b\<lparr>sb_auto_detect_enum_repr := True\<rparr>"

definition with_format :: "schema_builder \<Rightarrow> format \<Rightarrow> schema_builder" where
  "with_format b format = b\<lparr>sb_format := format\<rparr>"

type_synonym 'a built = "(duplicate_field_error, 'a) outcome"

text \<open>A nested loop that pushes every inner result, in order, onto one vector.\<close>

definition rconcat_map :: "('x \<Rightarrow> ('e, 'y list) outcome) \<Rightarrow> 'x list \<Rightarrow> ('e, 'y list) outcome" where
  "rconcat_map f xs = obind (rmap f xs) (\<lambda>yss. Ok (concat yss))"

section \<open>Key paths of nested content\<close>

definition is_newtype :: "variant \<Rightarrow> bool" where
  "is_newtype v \<longleftrightarrow>
     length (st_fields (v_data v)) = 1 \<and> f_name (st_fields (v_data v) ! 0) = ''0''"

definition newtype_field :: "variant \<Rightarrow> field" where
  "newtype_field v = st_fields (v_data v) ! 0"

type_synonym 'r visitor = "sref \<Rightarrow> key_path \<Rightarrow> 'r \<Rightarrow> 'r built"

definition collect_struct_key_paths_only ::
    "resolution visitor \<Rightarrow> struct_type \<Rightarrow> key_path \<Rightarrow> resolution \<Rightarrow> resolution built" where
  "collect_struct_key_paths_only visit st key_prefix config =
     rfold (\<lambda>field config.
       if is_flattened field then visit (f_shape field) key_prefix config
       else (let field_key_path = key_prefix @ [effective_name field]
             in visit (f_shape field) field_key_path (add_key_path config field_key_path)))
     (st_fields st) config"

definition collect_variant_fields_key_paths_only ::
    "resolution visitor \<Rightarrow> variant \<Rightarrow> key_path \<Rightarrow> resolution \<Rightarrow> resolution built" where
  "collect_variant_fields_key_paths_only visit variant key_prefix config =
     (if is_newtype variant then visit (f_shape (newtype_field variant)) key_prefix config
      else rfold (\<lambda>field config.
        let field_key_path = key_prefix @ [effective_name field]
        in visit (f_shape field) field_key_path (add_key_path config field_key_path))
      (st_fields (v_data variant)) config)"

fun collect_shape_key_paths_only :: "shapes \<Rightarrow> nat \<Rightarrow> resolution visitor" where
  "collect_shape_key_paths_only S 0 r key_prefix config = Overrun"
| "collect_shape_key_paths_only S (Suc n) r key_prefix config =
     (case sh_ty (S r) of
        Ty_User (User_Struct inner_struct) \<Rightarrow>
          collect_struct_key_paths_only (collect_shape_key_paths_only S n) inner_struct
            key_prefix config
      | Ty_User (User_Enum enum_type) \<Rightarrow>
          rfold (\<lambda>variant. collect_variant_fields_key_paths_only
              (collect_shape_key_paths_only S n) variant key_prefix)
            (et_variants enum_type) config
      | _ \<Rightarrow> Ok config)"

definition collect_variant_key_paths_only ::
    "shapes \<Rightarrow> nat \<Rightarrow> variant \<Rightarrow> key_path \<Rightarrow> resolution \<Rightarrow> resolution built" where
  "collect_variant_key_paths_only S n variant key_prefix config =
     collect_variant_fields_key_paths_only (collect_shape_key_paths_only S n) variant
       key_prefix config"

section \<open>Nested key paths that follow the selected variants\<close>

type_synonym nested_visitor = "key_path \<Rightarrow> resolution list \<Rightarrow> resolution list built"

definition collect_nested_key_paths_for_struct ::
    "(sref \<Rightarrow> nested_visitor) \<Rightarrow> (field \<Rightarrow> nested_visitor) \<Rightarrow> struct_type \<Rightarrow> nested_visitor" where
  "collect_nested_key_paths_for_struct visit flat st key_prefix configs =
     rfold (\<lambda>field configs.
       if is_flattened field then flat field key_prefix configs
       else (let field_key_path = key_prefix @ [effective_name field]
             in visit (f_shape field) field_key_path
                  (map (\<lambda>config. add_key_path config field_key_path) configs)))
     (st_fields st) configs"

text \<open>\<open>configs.into_iter().next().unwrap_or_else(Resolution::new)\<close>\<close>

definition first_config :: "resolution list \<Rightarrow> resolution" where
  "first_config configs = (case configs of [] \<Rightarrow> resolution_new | config # _ \<Rightarrow> config)"

definition collect_variant_key_paths ::
    "shapes \<Rightarrow> (sref \<Rightarrow> nested_visitor) \<Rightarrow> (field \<Rightarrow> nested_visitor) \<Rightarrow> variant \<Rightarrow> key_path
      \<Rightarrow> resolution \<Rightarrow> resolution built" where
  "collect_variant_key_paths S visit flat variant key_prefix config =
     (let named_fields = rfold (\<lambda>field config.
            if is_flattened field
            then obind (flat field key_prefix [config]) (\<lambda>configs. Ok (first_config configs))
            else (let field_key_path = key_prefix @ [effective_name field]
                  in obind (visit (f_shape field) field_key_path
                              [add_key_path config field_key_path])
                       (\<lambda>configs. Ok (first_config configs))))
          (st_fields (v_data variant)) config
      in if is_newtype variant then
           (case sh_ty (S (f_shape (newtype_field variant))) of
              Ty_User (User_Struct inner_struct) \<Rightarrow>
                obind (collect_nested_key_paths_for_struct visit flat inner_struct key_prefix [config])
                  (\<lambda>configs. Ok (first_config configs))
            | _ \<Rightarrow> named_fields)
         else named_fields)"

definition selected_variant :: "field \<Rightarrow> resolution \<Rightarrow> string option" where
  "selected_variant field config =
     map_option vs_variant_name
       (List.find (\<lambda>vs. path_last (vs_path vs) = Some (Seg_Field (f_name field)))
          (rn_variant_selections config))"

fun collect_nested_key_paths_for_shape :: "shapes \<Rightarrow> nat \<Rightarrow> sref \<Rightarrow> nested_visitor"
and collect_nested_key_paths_for_flattened :: "shapes \<Rightarrow> nat \<Rightarrow> field \<Rightarrow> nested_visitor" where
  "collect_nested_key_paths_for_shape S 0 r key_prefix configs = Overrun"
| "collect_nested_key_paths_for_shape S (Suc n) r key_prefix configs =
     (case sh_ty (S r) of
        Ty_User (User_Struct struct_type) \<Rightarrow>
          collect_nested_key_paths_for_struct (collect_nested_key_paths_for_shape S n)
            (collect_nested_key_paths_for_flattened S n) struct_type key_prefix configs
      | _ \<Rightarrow> Ok configs)"
| "collect_nested_key_paths_for_flattened S 0 field key_prefix configs = Overrun"
| "collect_nested_key_paths_for_flattened S (Suc n) field key_prefix configs =
     (case sh_ty (S (f_shape field)) of
        Ty_User (User_Struct struct_type) \<Rightarrow>
          collect_nested_key_paths_for_struct (collect_nested_key_paths_for_shape S n)
            (collect_nested_key_paths_for_flattened S n) struct_type key_prefix configs
      | Ty_User (User_Enum enum_type) \<Rightarrow>
          rmap (\<lambda>config.
            case selected_variant field config of
              Some variant_name \<Rightarrow>
                (case List.find (\<lambda>v. v_name v = variant_name) (et_variants enum_type) of
                   Some variant \<Rightarrow>
                     collect_variant_key_paths S (collect_nested_key_paths_for_shape S n)
                       (collect_nested_key_paths_for_flattened S n) variant key_prefix config
                 | None \<Rightarrow> Ok config)
            | None \<Rightarrow> Ok config) configs
      | _ \<Rightarrow> Ok configs)"

section \<open>Fields, flattened fields and variants\<close>

definition field_dom_category :: "schema_builder \<Rightarrow> field \<Rightarrow> field_category" where
  "field_dom_category b field =
     (if sb_format b = Format_Dom
      then (case from_field_dom field of Some c \<Rightarrow> c | None \<Rightarrow> Cat_Element)
      else Cat_Flat)"

definition catch_all_category :: "schema_builder \<Rightarrow> field \<Rightarrow> field_category" where
  "catch_all_category b field =
     (if sb_format b = Format_Dom
      then (if is_attribute field then Cat_Attribute else Cat_Element)
      else Cat_Flat)"

text \<open>The loop that adds one field and its key path to every configuration.\<close>

definition add_field_to_all ::
    "field_info \<Rightarrow> key_path \<Rightarrow> resolution list \<Rightarrow> resolution list built" where
  "add_field_to_all info field_key_path configs =
     rmap (\<lambda>config. obind (add_field config info) (\<lambda>config.
       Ok (add_key_path config field_key_path))) configs"

type_synonym analyzer =
  "field \<Rightarrow> field_path \<Rightarrow> key_path \<Rightarrow> resolution list \<Rightarrow> resolution list built"

definition analyze_field_into_configs ::
    "schema_builder \<Rightarrow> shapes \<Rightarrow> nat \<Rightarrow> analyzer \<Rightarrow> analyzer" where
  "analyze_field_into_configs b S n flat field parent_path key_prefix configs =
     (if is_flattened field then flat field parent_path key_prefix configs
      else (let field_path = push_field parent_path (f_name field);
                required = \<not> has_default field \<and> \<not> is_option_type (S (f_shape field));
                field_key_path = key_prefix @ [effective_name field];
                info = \<lparr>fi_name = effective_name field, fi_path = field_path,
                  fi_required = required, fi_value_shape = f_shape field, fi_field = field,
                  fi_category = field_dom_category b field\<rparr>
            in obind (add_field_to_all info field_key_path configs) (\<lambda>configs.
                 collect_nested_key_paths_for_shape S n (f_shape field) field_key_path configs)))"

definition analyze_struct ::
    "schema_builder \<Rightarrow> shapes \<Rightarrow> nat \<Rightarrow> analyzer \<Rightarrow> struct_type \<Rightarrow> field_path \<Rightarrow> key_path
      \<Rightarrow> resolution list built" where
  "analyze_struct b S n flat st current_path key_prefix =
     rfold (\<lambda>field. analyze_field_into_configs b S n flat field current_path key_prefix)
       (st_fields st) [resolution_new]"

definition analyze_variant_content ::
    "schema_builder \<Rightarrow> shapes \<Rightarrow> nat \<Rightarrow> analyzer \<Rightarrow> variant \<Rightarrow> field_path \<Rightarrow> key_path
      \<Rightarrow> resolution list built" where
  "analyze_variant_content b S n flat variant variant_path key_prefix =
     (let named_fields = rfold (\<lambda>field.
            analyze_field_into_configs b S n flat field variant_path key_prefix)
          (st_fields (v_data variant)) [resolution_new]
      in if is_newtype variant then
           obind (unwrap_to_effective_shape S n (f_shape (newtype_field variant)))
             (\<lambda>effective_shape.
               case sh_ty (S effective_shape) of
                 Ty_User (User_Struct inner_struct) \<Rightarrow>
                   analyze_struct b S n flat inner_struct (push_field variant_path ''0'') key_prefix
               | _ \<Rightarrow> named_fields)
         else named_fields)"

text \<open>The name of a variant or of a tag, entered as the field that selects the variant.\<close>

definition selector_info :: "field \<Rightarrow> sref \<Rightarrow> string \<Rightarrow> field_path \<Rightarrow> bool \<Rightarrow> field_info" where
  "selector_info field enum_shape name variant_path is_optional_flatten =
     \<lparr>fi_name = name, fi_path = variant_path, fi_required = \<not> is_optional_flatten,
      fi_value_shape = enum_shape, fi_field = field, fi_category = Cat_Element\<rparr>"

text \<open>The last lines of a fork: the variant's configurations, merged into the forked base.\<close>

definition merge_variant_configs ::
    "bool \<Rightarrow> resolution \<Rightarrow> resolution list \<Rightarrow> resolution list built" where
  "merge_variant_configs is_optional_flatten forked variant_configs =
     rmap (merge forked)
       (if is_optional_flatten then map mark_all_optional variant_configs else variant_configs)"

definition fork_variant ::
    "schema_builder \<Rightarrow> shapes \<Rightarrow> nat \<Rightarrow> analyzer \<Rightarrow> enum_repr \<Rightarrow> field \<Rightarrow> sref \<Rightarrow> field_path
      \<Rightarrow> key_path \<Rightarrow> bool \<Rightarrow> resolution \<Rightarrow> variant \<Rightarrow> resolution list built" where
  "fork_variant b S n flat repr field enum_shape field_path key_prefix is_optional_flatten
       base_config variant =
     (let forked = add_variant_selection base_config field_path
            (sh_type_identifier (S enum_shape)) (v_name variant);
          variant_path = push_variant field_path (f_name field) (v_name variant)
      in case repr of
           Repr_ExternallyTagged \<Rightarrow>
             (let variant_key_prefix = key_prefix @ [v_name variant];
                  forked = add_key_path forked variant_key_prefix
              in obind (add_field forked (selector_info field enum_shape (v_name variant)
                          variant_path is_optional_flatten)) (\<lambda>forked.
                 obind (collect_variant_key_paths_only S n variant variant_key_prefix forked)
                   (\<lambda>forked. Ok [forked])))
         | Repr_Flattened \<Rightarrow>
             obind (analyze_variant_content b S n flat variant variant_path key_prefix)
               (merge_variant_configs is_optional_flatten forked)
         | Repr_InternallyTagged tag \<Rightarrow>
             (let forked = add_key_path forked (key_prefix @ [tag])
              in obind (add_field forked (selector_info field enum_shape tag
                          variant_path is_optional_flatten)) (\<lambda>forked.
                 obind (analyze_variant_content b S n flat variant variant_path key_prefix)
                   (merge_variant_configs is_optional_flatten forked)))
         | Repr_AdjacentlyTagged tag content \<Rightarrow>
             (let forked = add_key_path forked (key_prefix @ [tag])
              in obind (add_field forked (selector_info field enum_shape tag
                          variant_path is_optional_flatten)) (\<lambda>forked.
                 let content_key_prefix = key_prefix @ [content];
                     forked = add_key_path forked content_key_prefix
                 in obind (collect_variant_key_paths_only S n variant content_key_prefix forked)
                      (\<lambda>forked. Ok [forked]))))"

text \<open>The match on the unwrapped shape: a struct is merged in, an enum forks, a map or a
  dynamic value becomes a catch-all, and anything else is an ordinary field.\<close>

definition flatten_shape ::
    "schema_builder \<Rightarrow> shapes \<Rightarrow> nat \<Rightarrow> analyzer \<Rightarrow> field \<Rightarrow> bool \<Rightarrow> sref \<Rightarrow> field_path
      \<Rightarrow> key_path \<Rightarrow> resolution list \<Rightarrow> resolution list built" where
  "flatten_shape b S n flat field is_optional_flatten shape field_path key_prefix configs =
     (case sh_ty (S shape) of
        Ty_User (User_Struct struct_type) \<Rightarrow>
          obind (analyze_struct b S n flat struct_type field_path key_prefix) (\<lambda>struct_configs.
            let struct_configs = (if is_optional_flatten
                  then map mark_all_optional struct_configs else struct_configs)
            in rconcat_map (\<lambda>base_config. rmap (merge base_config) struct_configs) configs)
      | Ty_User (User_Enum enum_type) \<Rightarrow>
          (let repr = (if sb_auto_detect_enum_repr b then enum_repr_from_shape (S shape)
                       else sb_enum_repr b)
           in rconcat_map (\<lambda>base_config.
                rconcat_map (fork_variant b S n flat repr field shape field_path
                    key_prefix is_optional_flatten base_config)
                  (et_variants enum_type)) configs)
      | _ \<Rightarrow>
          if (case sh_def (S shape) of Def_Map _ _ \<Rightarrow> True | Def_DynamicValue \<Rightarrow> True | _ \<Rightarrow> False)
          then (let info = \<lparr>fi_name = effective_name field, fi_path = field_path,
                  fi_required = False, fi_value_shape = shape, fi_field = field,
                  fi_category = catch_all_category b field\<rparr>
                in Ok (map (\<lambda>config. set_catch_all_map config (fi_category info) info) configs))
          else (let info = \<lparr>fi_name = effective_name field, fi_path = field_path,
                  fi_required = \<not> has_default field \<and> \<not> is_option_type (S shape)
                    \<and> \<not> is_optional_flatten,
                  fi_value_shape = shape, fi_field = field,
                  fi_category = field_dom_category b field\<rparr>
                in add_field_to_all info (key_prefix @ [effective_name field]) configs))"

fun analyze_flattened_field_into_configs :: "schema_builder \<Rightarrow> shapes \<Rightarrow> nat \<Rightarrow> analyzer" where
  "analyze_flattened_field_into_configs b S 0 field parent_path key_prefix configs = Overrun"
| "analyze_flattened_field_into_configs b S (Suc n) field parent_path key_prefix configs =
     (let original_shape = f_shape field;
          (unwrapped, is_optional_flatten) =
            (case unwrap_option_type (S original_shape) of
               Some inner \<Rightarrow> (inner, True) | None \<Rightarrow> (original_shape, False))
      in obind (unwrap_transparent_with_path S (Suc n) unwrapped
                  (push_field parent_path (f_name field)))
         (\<lambda>(shape, field_path).
           flatten_shape b S n (analyze_flattened_field_into_configs b S n) field
             is_optional_flatten shape field_path key_prefix configs))"

section \<open>The resolutions of a shape\<close>

definition analyze_enum ::
    "schema_builder \<Rightarrow> shapes \<Rightarrow> nat \<Rightarrow> sref \<Rightarrow> enum_type \<Rightarrow> field_path \<Rightarrow> key_path
      \<Rightarrow> resolution list built" where
  "analyze_enum b S n r enum_type current_path key_prefix =
     rconcat_map (\<lambda>variant.
       let config = add_variant_selection resolution_new current_path
             (sh_type_identifier (S r)) (v_name variant);
           variant_path = push_variant current_path [] (v_name variant)
       in obind (analyze_variant_content b S n (analyze_flattened_field_into_configs b S n)
                   variant variant_path key_prefix) (\<lambda>variant_configs.
            rmap (merge config) variant_configs))
     (et_variants enum_type)"

definition analyze_shape ::
    "schema_builder \<Rightarrow> shapes \<Rightarrow> nat \<Rightarrow> sref \<Rightarrow> field_path \<Rightarrow> key_path \<Rightarrow> resolution list built"
  where
  "analyze_shape b S n r current_path key_prefix =
     (case sh_ty (S r) of
        Ty_User (User_Struct struct_type) \<Rightarrow>
          analyze_struct b S n (analyze_flattened_field_into_configs b S n) struct_type
            current_path key_prefix
      | Ty_User (User_Enum enum_type) \<Rightarrow>
          analyze_enum b S n r enum_type current_path key_prefix
      | _ \<Rightarrow> Ok [resolution_new])"

definition analyze :: "schema_builder \<Rightarrow> shapes \<Rightarrow> nat \<Rightarrow> resolution list built" where
  "analyze b S n = analyze_shape b S n (sb_shape b) path_empty []"

section \<open>The schema and its inverted indexes\<close>

record schema =
  sc_shape :: sref
  sc_format :: format
  sc_resolutions :: "resolution list"
  sc_field_to_resolutions :: "(string, rset) btmap"
  sc_dom_field_to_resolutions :: "(field_category \<times> string, rset) btmap"

text \<open>The loop over the fields of every resolution, with the key under which each is entered.\<close>

definition index_resolutions ::
    "(field_info \<Rightarrow> 'k::linorder) \<Rightarrow> resolution list \<Rightarrow> ('k, rset) btmap option" where
  "index_resolutions key resolutions =
     (let num_resolutions = length resolutions
      in ofold (\<lambda>(idx, config). ofold (\<lambda>info.
             btm_upsert (key info) (rs_empty num_resolutions) (\<lambda>set. rs_insert set idx))
           (btm_values (rn_fields config)))
         (enumerate 0 resolutions) [])"

definition into_schema :: "schema_builder \<Rightarrow> shapes \<Rightarrow> nat \<Rightarrow> schema option built" where
  "into_schema b S n =
     obind (analyze b S n) (\<lambda>resolutions.
       Ok (case index_resolutions fi_name resolutions of
             None \<Rightarrow> None
           | Some flat_index \<Rightarrow>
               (case (if sb_format b = Format_Dom
                      then index_resolutions (\<lambda>i. (fi_category i, fi_name i)) resolutions
                      else Some []) of
                  None \<Rightarrow> None
                | Some dom_index \<Rightarrow>
                    Some \<lparr>sc_shape = sb_shape b, sc_format = sb_format b,
                      sc_resolutions = resolutions, sc_field_to_resolutions = flat_index,
                      sc_dom_field_to_resolutions = dom_index\<rparr>)))"

definition schema_build_with_repr ::
    "shapes \<Rightarrow> nat \<Rightarrow> sref \<Rightarrow> enum_repr \<Rightarrow> schema option built" where
  "schema_build_with_repr S n r repr = into_schema (builder_new r repr) S n"

definition schema_build :: "shapes \<Rightarrow> nat \<Rightarrow> sref \<Rightarrow> schema option built" where
  "schema_build S n r = schema_build_with_repr S n r Repr_Flattened"

definition schema_build_auto :: "shapes \<Rightarrow> nat \<Rightarrow> sref \<Rightarrow> schema option built" where
  "schema_build_auto S n r = into_schema (with_auto_detect (builder_new r Repr_Flattened)) S n"

definition schema_build_externally_tagged :: "shapes \<Rightarrow> nat \<Rightarrow> sref \<Rightarrow> schema option built" where
  "schema_build_externally_tagged S n r = schema_build_with_repr S n r Repr_ExternallyTagged"

definition schema_build_with_format ::
    "shapes \<Rightarrow> nat \<Rightarrow> sref \<Rightarrow> format \<Rightarrow> schema option built" where
  "schema_build_with_format S n r format =
     into_schema (with_format (with_auto_detect (builder_new r Repr_Flattened)) format) S n"

definition schema_build_dom :: "shapes \<Rightarrow> nat \<Rightarrow> sref \<Rightarrow> schema option built" where
  "schema_build_dom S n r = schema_build_with_format S n r Format_Dom"

end
