(* ===== verification/Schema_Facts.thy ===== *)
theory Schema_Facts
  imports Schema_Builder
begin

text \<open>
  What the schema builder guarantees. The locale \<open>resolution_invariant\<close> states what a
  property of resolutions must satisfy to hold of every resolution the builder returns: its
  laws are one per operation on resolutions, and its lemmas follow the builder function by
  function. It is interpreted on well-formedness, on the closure of the key paths and on the
  categories of the fields. The last sections give the meaning of the inverted indexes and
  the fuel that is enough.
\<close>

section \<open>The match on a type\<close>

lemma ty_cases [case_names struct enum other]:
  obtains (struct) st where "t = Ty_User (User_Struct st)"
  | (enum) e where "t = Ty_User (User_Enum e)"
  | (other) "\<And>st. t \<noteq> Ty_User (User_Struct st)" "\<And>e. t \<noteq> Ty_User (User_Enum e)"
  by blast

lemma match_other:
  assumes "\<And>st. t \<noteq> Ty_User (User_Struct st)" and "\<And>e. t \<noteq> Ty_User (User_Enum e)"
  shows "(case t of Ty_User (User_Struct st) \<Rightarrow> a st | Ty_User (User_Enum e) \<Rightarrow> b e | _ \<Rightarrow> c) = c"
  using assms by (auto split: facet_type.splits user_type.splits)

lemma match_not_struct:
  assumes "\<And>st. t \<noteq> Ty_User (User_Struct st)"
  shows "(case t of Ty_User (User_Struct st) \<Rightarrow> a st | _ \<Rightarrow> c) = c"
  using assms by (auto split: facet_type.splits user_type.splits)

section \<open>Growing key paths\<close>

definition same_but_paths :: "resolution \<Rightarrow> resolution \<Rightarrow> bool" where
  "same_but_paths c c' \<longleftrightarrow> (\<exists>ps. c' = c\<lparr>rn_known_paths := ps\<rparr>)"

lemma same_but_paths_refl [simp]: "same_but_paths c c"
  unfolding same_but_paths_def by (rule exI [of _ "rn_known_paths c"]) simp

lemma same_but_paths_trans: "same_but_paths a b \<Longrightarrow> same_but_paths b c \<Longrightarrow> same_but_paths a c"
  by (auto simp: same_but_paths_def)

lemma same_but_paths_add [simp]: "same_but_paths c (add_key_path c p)"
  by (auto simp: same_but_paths_def add_key_path_def)

lemma same_but_paths_fields: "same_but_paths c c' \<Longrightarrow> rn_fields c' = rn_fields c"
  by (auto simp: same_but_paths_def)

locale resolution_invariant =
  fixes J :: "resolution \<Rightarrow> bool"
    and at :: "key_path \<Rightarrow> resolution \<Rightarrow> bool"
    and ok_info :: "field_info \<Rightarrow> bool"
  assumes J_new: "J resolution_new"
    and at_root: "at [] r"
    and at_added: "at p (add_key_path r p)"
    and at_mono: "at q r \<Longrightarrow> at q (add_key_path r p)"
    and J_key_path: "J r \<Longrightarrow> at p r \<Longrightarrow> J (add_key_path r (p @ [k]))"
    and J_field_then_path: "J r \<Longrightarrow> ok_info i \<Longrightarrow> add_field r i = Ok r' \<Longrightarrow> J (add_key_path r' [fi_name i])"
    and J_field: "J r \<Longrightarrow> ok_info i \<Longrightarrow> at [fi_name i] r \<Longrightarrow> add_field r i = Ok r' \<Longrightarrow> J r'"
    and J_catch_all: "J r \<Longrightarrow> J (set_catch_all_map r cat i)"
    and J_select: "J r \<Longrightarrow> J (add_variant_selection r fp e v)"
    and at_select: "at q (add_variant_selection r fp e v) = at q r"
    and at_field: "at q r \<Longrightarrow> add_field r i = Ok r' \<Longrightarrow> at q r'"
    and J_mark: "J r \<Longrightarrow> J (mark_all_optional r)"
    and J_merge: "J a \<Longrightarrow> J b \<Longrightarrow> merge a b = Ok m \<Longrightarrow> J m"
begin

definition step :: "resolution \<Rightarrow> resolution \<Rightarrow> bool" where
  "step c c' \<longleftrightarrow> J c' \<and> same_but_paths c c' \<and> (\<forall>q. at q c \<longrightarrow> at q c')"

lemma step_refl: "J c \<Longrightarrow> step c c"
  by (simp add: step_def)

lemma step_trans: "step a b \<Longrightarrow> step b c \<Longrightarrow> step a c"
  by (auto simp: step_def intro: same_but_paths_trans)

lemma step_at: "step a b \<Longrightarrow> at q a \<Longrightarrow> at q b"
  by (simp add: step_def)

lemma step_J: "step a b \<Longrightarrow> J b"
  by (simp add: step_def)

lemma step_add: "J c \<Longrightarrow> at p c \<Longrightarrow> step c (add_key_path c (p @ [k]))"
  by (simp add: step_def J_key_path at_mono)

text \<open>The collectors that add key paths only.\<close>

definition visitor_ok :: "resolution visitor \<Rightarrow> bool" where
  "visitor_ok visit \<longleftrightarrow>
     (\<forall>r p c c'. J c \<longrightarrow> at p c \<longrightarrow> visit r p c = Ok c' \<longrightarrow> step c c')"

lemma visitor_okD: "visitor_ok visit \<Longrightarrow> J c \<Longrightarrow> at p c \<Longrightarrow> visit r p c = Ok c' \<Longrightarrow> step c c'"
  by (auto simp: visitor_ok_def)

lemma visit_added:
  assumes "visitor_ok visit" and "J c" and "at p c"
    and "visit r (p @ [k]) (add_key_path c (p @ [k])) = Ok c'"
  shows "step c c'"
  using visitor_okD [OF assms(1) _ at_added assms(4)] step_add [OF assms(2,3), of k] step_J
  by (blast intro: step_trans)

lemma rfold_steps:
  assumes "rfold f xs c = Ok c'" and "J c" and "at p c"
    and "\<And>x u v. J u \<Longrightarrow> at p u \<Longrightarrow> f x u = Ok v \<Longrightarrow> step u v"
  shows "step c c'"
proof (rule rfold_invariant [OF assms(1), where P = "step c"])
  show "step c c" by (rule step_refl [OF assms(2)])
next
  fix x u v
  assume u: "step c u" and v: "f x u = Ok v"
  have "step u v" by (rule assms(4) [OF step_J [OF u] step_at [OF u assms(3)] v])
  with u show "step c v" by (rule step_trans)
qed

lemma struct_only:
  assumes "visitor_ok visit" and "J c" and "at p c"
    and "collect_struct_key_paths_only visit st p c = Ok c'"
  shows "step c c'"
  using assms(4) unfolding collect_struct_key_paths_only_def
  by (rule rfold_steps [OF _ assms(2,3)])
    (use assms(1) in \<open>auto simp: Let_def split: if_splits intro: visit_added visitor_okD\<close>)

lemma variant_fields_only:
  assumes "visitor_ok visit" and "J c" and "at p c"
    and "collect_variant_fields_key_paths_only visit v p c = Ok c'"
  shows "step c c'"
proof (cases "is_newtype v")
  case True
  with assms show ?thesis
    by (auto simp: collect_variant_fields_key_paths_only_def intro: visitor_okD)
next
  case False
  then have "rfold (\<lambda>field config.
        let field_key_path = p @ [effective_name field]
        in visit (f_shape field) field_key_path (add_key_path config field_key_path))
      (st_fields (v_data v)) c = Ok c'"
    using assms(4) by (simp add: collect_variant_fields_key_paths_only_def)
  then show ?thesis
    by (rule rfold_steps [OF _ assms(2,3)]) (use assms(1) in \<open>auto simp: Let_def intro: visit_added\<close>)
qed

lemma shape_only: "visitor_ok (collect_shape_key_paths_only S n)"
proof (induction n)
  case 0
  then show ?case by (simp add: visitor_ok_def)
next
  case (Suc n)
  show ?case unfolding visitor_ok_def
  proof (intro allI impI)
    fix r p c c'
    assume J: "J c" and p: "at p c" and run: "collect_shape_key_paths_only S (Suc n) r p c = Ok c'"
    show "step c c'"
    proof (cases "\<exists>e. sh_ty (S r) = Ty_User (User_Enum e)")
      case True
      then obtain e where "sh_ty (S r) = Ty_User (User_Enum e)" by blast
      with run have "rfold (\<lambda>variant. collect_variant_fields_key_paths_only
          (collect_shape_key_paths_only S n) variant p) (et_variants e) c = Ok c'"
        by simp
      then show ?thesis
        by (rule rfold_steps [OF _ J p]) (blast intro: variant_fields_only [OF Suc.IH])
    next
      case False
      with run show ?thesis using step_refl [OF J]
        by (auto split: facet_type.splits user_type.splits intro: struct_only [OF Suc.IH J p])
    qed
  qed
qed

lemma variant_only:
  "J c \<Longrightarrow> at p c \<Longrightarrow> collect_variant_key_paths_only S n v p c = Ok c' \<Longrightarrow> step c c'"
  unfolding collect_variant_key_paths_only_def by (rule variant_fields_only [OF shape_only])

text \<open>The collectors over lists of configurations, which follow the selected variants.\<close>

definition list_step :: "resolution list \<Rightarrow> resolution list \<Rightarrow> bool" where
  "list_step cs cs' \<longleftrightarrow> list_all2 step cs cs'"

definition nested_ok :: "nested_visitor \<Rightarrow> bool" where
  "nested_ok visit \<longleftrightarrow> (\<forall>p cs cs'. list_all J cs \<longrightarrow> list_all (at p) cs \<longrightarrow> visit p cs = Ok cs'
     \<longrightarrow> list_step cs cs')"

lemma nested_okD:
  "nested_ok visit \<Longrightarrow> list_all J cs \<Longrightarrow> list_all (at p) cs \<Longrightarrow> visit p cs = Ok cs' \<Longrightarrow> list_step cs cs'"
  by (auto simp: nested_ok_def)

lemma list_step_refl: "list_all J cs \<Longrightarrow> list_step cs cs"
  by (simp add: list_step_def list.rel_refl_strong list_all_iff step_refl)

lemma list_step_trans: "list_step a b \<Longrightarrow> list_step b c \<Longrightarrow> list_step a c"
  unfolding list_step_def by (rule list_all2_trans [OF step_trans])

lemma list_step_J: "list_step a b \<Longrightarrow> list_all J b"
  unfolding list_step_def by (induction rule: list_all2_induct) (auto intro: step_J)

lemma list_step_at: "list_step a b \<Longrightarrow> list_all (at p) a \<Longrightarrow> list_all (at p) b"
  unfolding list_step_def by (induction rule: list_all2_induct) (auto intro: step_at)

lemma list_step_add:
  "list_all J cs \<Longrightarrow> list_all (at p) cs \<Longrightarrow>
     list_step cs (map (\<lambda>c. add_key_path c (p @ [k])) cs)"
  unfolding list_step_def by (induction cs) (auto intro: step_add)

lemma list_at_added: "list_all (at p) (map (\<lambda>c. add_key_path c p) cs)"
  by (simp add: list_all_iff at_added)

lemma nested_added:
  assumes "nested_ok visit" and "list_all J cs" and "list_all (at p) cs"
    and "visit (p @ [k]) (map (\<lambda>c. add_key_path c (p @ [k])) cs) = Ok cs'"
  shows "list_step cs cs'"
  using nested_okD [OF assms(1) list_step_J list_at_added assms(4)] list_step_add [OF assms(2,3)]
  by (blast intro: list_step_trans)

lemma nested_struct:
  assumes "\<And>r. nested_ok (visit r)" and "\<And>f. nested_ok (flat f)"
  shows "nested_ok (collect_nested_key_paths_for_struct visit flat st)"
  unfolding nested_ok_def
proof (intro allI impI)
  fix p cs cs'
  assume J: "list_all J cs" and p: "list_all (at p) cs"
    and run: "collect_nested_key_paths_for_struct visit flat st p cs = Ok cs'"
  show "list_step cs cs'"
  proof (rule rfold_invariant [OF run [unfolded collect_nested_key_paths_for_struct_def],
        where P = "list_step cs"])
    show "list_step cs cs" by (rule list_step_refl [OF J])
  next
    fix x u w
    assume u: "list_step cs u" and w: "(if is_flattened x then flat x p u
        else let field_key_path = p @ [effective_name x]
             in visit (f_shape x) field_key_path (map (\<lambda>config. add_key_path config field_key_path) u))
       = Ok w"
    note Ju = list_step_J [OF u] and pu = list_step_at [OF u p]
    have "list_step u w"
      using w nested_okD [OF assms(2) Ju pu] nested_added [OF assms(1) Ju pu]
      by (auto simp: Let_def split: if_splits)
    with u show "list_step cs w" by (rule list_step_trans)
  qed
qed

lemma first_config_step: "list_step [c] cs \<Longrightarrow> step c (first_config cs)"
  by (auto simp: list_step_def list_all2_Cons1 first_config_def)

lemma variant_nested:
  assumes v: "\<And>r. nested_ok (visit r)" and f: "\<And>f. nested_ok (flat f)"
    and J: "J c" and p: "at p c" and run: "collect_variant_key_paths S visit flat var p c = Ok c'"
  shows "step c c'"
proof -
  let ?body = "\<lambda>field config. if is_flattened field
      then obind (flat field p [config]) (\<lambda>configs. Ok (first_config configs))
      else let field_key_path = p @ [effective_name field]
           in obind (visit (f_shape field) field_key_path [add_key_path config field_key_path])
                (\<lambda>configs. Ok (first_config configs))"
  have body: "step u w" if u: "J u" "at p u" "?body x u = Ok w" for x u w
  proof -
    have "\<exists>cs. list_step [u] cs \<and> w = first_config cs"
    proof (cases "is_flattened x")
      case True
      then show ?thesis using u nested_okD [OF f, of "[u]" p] by (auto simp: run_simps)
    next
      case False
      then show ?thesis using u nested_added [OF v, of "[u]" p] by (auto simp: run_simps Let_def)
    qed
    then show ?thesis by (auto intro: first_config_step)
  qed
  have named: "step c c'" if "rfold ?body (st_fields (v_data var)) c = Ok c'"
    using that by (rule rfold_steps [OF _ J p body])
  show ?thesis
  proof (cases "is_newtype var \<and> (\<exists>st. sh_ty (S (f_shape (newtype_field var))) = Ty_User (User_Struct st))")
    case True
    then show ?thesis using run J p
      by (auto simp: collect_variant_key_paths_def run_simps
          intro!: first_config_step nested_okD [OF nested_struct [OF v f]])
  next
    case False
    then have "rfold ?body (st_fields (v_data var)) c = Ok c'"
      using run unfolding collect_variant_key_paths_def Let_def
      by (auto split: if_splits facet_type.splits user_type.splits)
    then show ?thesis by (rule named)
  qed
qed

lemma rmap_list_step:
  assumes "rmap f cs = Ok cs'" and "\<And>c c'. c \<in> set cs \<Longrightarrow> f c = Ok c' \<Longrightarrow> step c c'"
  shows "list_step cs cs'"
  unfolding list_step_def
  using assms by (auto simp: rmap_eq_Ok intro: list.rel_mono_strong)

lemma nested_shape_flattened:
  "nested_ok (collect_nested_key_paths_for_shape S n r) \<and>
   nested_ok (collect_nested_key_paths_for_flattened S n f)"
proof (induction n arbitrary: r f)
  case 0
  then show ?case by (simp add: nested_ok_def)
next
  case (Suc n)
  let ?v = "collect_nested_key_paths_for_shape S n"
  let ?f = "collect_nested_key_paths_for_flattened S n"
  have v: "\<And>r. nested_ok (?v r)" and f: "\<And>f. nested_ok (?f f)" using Suc by auto
  note struct = nested_okD [OF nested_struct [of ?v ?f, OF v f]]
  have 1: "nested_ok (collect_nested_key_paths_for_shape S (Suc n) r)"
    unfolding nested_ok_def
    by (auto split: facet_type.splits user_type.splits intro: list_step_refl struct)
  have enum: "list_step cs cs'"
    if J: "list_all J cs" and p: "list_all (at p) cs"
      and run: "rmap (\<lambda>config.
            case selected_variant f config of
              Some variant_name \<Rightarrow>
                (case List.find (\<lambda>v. v_name v = variant_name) (et_variants e) of
                   Some variant \<Rightarrow> collect_variant_key_paths S ?v ?f variant p config
                 | None \<Rightarrow> Ok config)
            | None \<Rightarrow> Ok config) cs = Ok cs'" for cs cs' p e
    using run
    by (rule rmap_list_step)
      (use J p in \<open>auto simp: list_all_iff split: option.splits intro: step_refl variant_nested [OF v f]\<close>)
  have 2: "nested_ok (collect_nested_key_paths_for_flattened S (Suc n) f)"
    unfolding nested_ok_def
    by (auto split: facet_type.splits user_type.splits intro: list_step_refl struct enum)
  show ?case using 1 2 by blast
qed

end

section \<open>The builder keeps every such invariant\<close>

lemma rconcat_map_eq_Ok:
  "rconcat_map f xs = Ok ys \<longleftrightarrow> (\<exists>yss. rmap f xs = Ok yss \<and> ys = concat yss)"
  by (auto simp: rconcat_map_def run_simps)

lemma rmap_all:
  assumes "rmap f xs = Ok ys" and "\<And>x y. x \<in> set xs \<Longrightarrow> f x = Ok y \<Longrightarrow> P y"
  shows "list_all P ys"
proof -
  have "\<forall>y \<in> set ys. \<exists>x \<in> set xs. f x = Ok y"
    using assms(1) by (induction xs arbitrary: ys) (fastforce simp: run_simps)+
  with assms(2) show ?thesis by (auto simp: list_all_iff)
qed

lemma rconcat_map_all:
  assumes "rconcat_map f xs = Ok ys"
    and "\<And>x zs. x \<in> set xs \<Longrightarrow> f x = Ok zs \<Longrightarrow> list_all P zs"
  shows "list_all P ys"
proof -
  obtain yss where yss: "rmap f xs = Ok yss" "ys = concat yss"
    using assms(1) by (auto simp: rconcat_map_eq_Ok)
  have "list_all (list_all P) yss" by (rule rmap_all [OF yss(1)]) (rule assms(2))
  then show ?thesis unfolding yss(2) by (induction yss) auto
qed

context resolution_invariant
begin

definition builder_ok :: "schema_builder \<Rightarrow> bool" where
  "builder_ok b \<longleftrightarrow> (\<forall>i. fi_category i = Cat_Element \<or> (\<exists>f. fi_category i = field_dom_category b f)
     \<longrightarrow> ok_info i)"

lemma builder_okD: "builder_ok b \<Longrightarrow> fi_category i = field_dom_category b f \<Longrightarrow> ok_info i"
  by (auto simp: builder_ok_def)

definition analyzer_ok :: "analyzer \<Rightarrow> bool" where
  "analyzer_ok flat \<longleftrightarrow>
     (\<forall>f pp cs cs'. list_all J cs \<longrightarrow> flat f pp [] cs = Ok cs' \<longrightarrow> list_all J cs')"

lemma analyzer_okD: "analyzer_ok flat \<Longrightarrow> list_all J cs \<Longrightarrow> flat f pp [] cs = Ok cs' \<Longrightarrow> list_all J cs'"
  by (auto simp: analyzer_ok_def)

lemma add_to_all:
  assumes "add_field_to_all i [fi_name i] cs = Ok cs'" and "list_all J cs" and "ok_info i"
  shows "list_all J cs'" and "list_all (at [fi_name i]) cs'"
proof -
  show "list_all J cs'"
    by (rule rmap_all [OF assms(1) [unfolded add_field_to_all_def]])
      (use assms(2,3) in \<open>auto simp: run_simps list_all_iff intro: J_field_then_path\<close>)
  show "list_all (at [fi_name i]) cs'"
    by (rule rmap_all [OF assms(1) [unfolded add_field_to_all_def]]) (auto simp: run_simps at_added)
qed

lemma field_ok:
  assumes b: "builder_ok b" and flat: "analyzer_ok flat"
  shows "analyzer_ok (analyze_field_into_configs b S n flat)"
  unfolding analyzer_ok_def
proof (intro allI impI)
  fix f pp cs cs'
  assume J: "list_all J cs" and run: "analyze_field_into_configs b S n flat f pp [] cs = Ok cs'"
  show "list_all J cs'"
  proof (cases "is_flattened f")
    case True
    with run J flat show ?thesis by (auto simp: analyze_field_into_configs_def analyzer_ok_def)
  next
    case False
    let ?i = "\<lparr>fi_name = effective_name f, fi_path = push_field pp (f_name f),
      fi_required = \<not> has_default f \<and> \<not> is_option_type (S (f_shape f)),
      fi_value_shape = f_shape f, fi_field = f, fi_category = field_dom_category b f\<rparr>"
    from run False obtain ds where ds: "add_field_to_all ?i [fi_name ?i] cs = Ok ds"
      "collect_nested_key_paths_for_shape S n (f_shape f) [fi_name ?i] ds = Ok cs'"
      by (auto simp: analyze_field_into_configs_def run_simps Let_def)
    have "ok_info ?i" by (rule builder_okD [OF b]) simp
    from add_to_all [OF ds(1) J this] ds(2) show ?thesis
      using nested_shape_flattened [of S n "f_shape f"] by (blast intro: list_step_J nested_okD)
  qed
qed

lemma fields_loop_ok:
  assumes "builder_ok b" and "analyzer_ok flat" and "list_all J cs"
    and "rfold (\<lambda>field. analyze_field_into_configs b S n flat field p []) fs cs = Ok cs'"
  shows "list_all J cs'"
  by (rule rfold_invariant [OF assms(4)])
    (use assms(3) analyzer_okD [OF field_ok [OF assms(1,2)]] in auto)

lemma struct_ok:
  assumes "builder_ok b" and "analyzer_ok flat" and "analyze_struct b S n flat st p [] = Ok cs'"
  shows "list_all J cs'"
  using fields_loop_ok [OF assms(1,2) _ assms(3) [unfolded analyze_struct_def]] by (simp add: J_new)

lemma variant_content_ok:
  assumes b: "builder_ok b" and flat: "analyzer_ok flat"
    and run: "analyze_variant_content b S n flat v p [] = Ok cs'"
  shows "list_all J cs'"
proof -
  have "(\<exists>st q. analyze_struct b S n flat st q [] = Ok cs')
      \<or> rfold (\<lambda>field. analyze_field_into_configs b S n flat field p []) (st_fields (v_data v))
          [resolution_new] = Ok cs'"
  proof (cases "is_newtype v")
    case True
    with run obtain e where e: "(case sh_ty (S e) of
        Ty_User (User_Struct st) \<Rightarrow> analyze_struct b S n flat st (push_field p ''0'') []
      | _ \<Rightarrow> rfold (\<lambda>field. analyze_field_into_configs b S n flat field p []) (st_fields (v_data v))
          [resolution_new]) = Ok cs'"
      by (auto simp: analyze_variant_content_def run_simps Let_def)
    show ?thesis
    proof (cases "\<exists>st. sh_ty (S e) = Ty_User (User_Struct st)")
      case True
      then obtain st where "sh_ty (S e) = Ty_User (User_Struct st)" by blast
      with e show ?thesis by (simp only: facet_type.case user_type.case) blast
    next
      case False
      then have "\<And>st. sh_ty (S e) \<noteq> Ty_User (User_Struct st)" by blast
      from e [unfolded match_not_struct [OF this]] show ?thesis by blast
    qed
  next
    case False
    with run show ?thesis by (simp add: analyze_variant_content_def)
  qed
  then show ?thesis
    using struct_ok [OF b flat] fields_loop_ok [OF b flat, of "[resolution_new]"] by (auto simp: J_new)
qed

lemma merge_variant_configs_ok:
  assumes "J forked" and "list_all J vcs" and "merge_variant_configs opt forked vcs = Ok cs'"
  shows "list_all J cs'"
  by (rule rmap_all [OF assms(3) [unfolded merge_variant_configs_def]])
    (use assms(1,2) in \<open>auto simp: list_all_iff split: if_splits intro: J_mark J_merge\<close>)

lemma selector_ok: "builder_ok b \<Longrightarrow> ok_info (selector_info f r name p opt)"
  by (simp add: builder_ok_def selector_info_def)

lemma fork_variant_ok:
  assumes b: "builder_ok b" and flat: "analyzer_ok flat" and J: "J base"
    and run: "fork_variant b S n flat repr f r fp [] opt base v = Ok cs'"
  shows "list_all J cs'"
proof -
  let ?forked = "add_variant_selection base fp (sh_type_identifier (S r)) (v_name v)"
  let ?vp = "push_variant fp (f_name f) (v_name v)"
  let ?sel = "\<lambda>name. selector_info f r name ?vp opt"
  have Jf: "J ?forked" by (rule J_select [OF J])
  have sel: "J c \<and> at [] c" if "add_field (add_key_path ?forked [name]) (?sel name) = Ok c" for name c
    using that J_field [OF _ selector_ok [OF b], of "add_key_path ?forked [name]"]
      J_key_path [OF Jf at_root, of name] at_added [of "[name]" ?forked]
    by (auto simp: selector_info_def at_root)
  have sel_at: "at [name] c"
    if "add_field (add_key_path ?forked [name]) (?sel name) = Ok c" for name c
    using that at_field at_added by blast
  have content: "list_all J cs" if "analyze_variant_content b S n flat v ?vp [] = Ok vcs"
      and "J g" and "merge_variant_configs opt g vcs = Ok cs" for g vcs cs
    using merge_variant_configs_ok [OF that(2) variant_content_ok [OF b flat that(1)] that(3)] .
  show ?thesis
  proof (cases repr)
    case Repr_Flattened
    with run Jf content show ?thesis by (auto simp: fork_variant_def Let_def run_simps)
  next
    case Repr_ExternallyTagged
    with run obtain c c' where
      c: "add_field (add_key_path ?forked [v_name v]) (?sel (v_name v)) = Ok c"
      and r: "collect_variant_key_paths_only S n v [v_name v] c = Ok c'" and cs': "cs' = [c']"
      by (auto simp: fork_variant_def Let_def run_simps)
    have "step c c'" by (rule variant_only [OF _ sel_at [OF c] r]) (use sel [OF c] in simp)
    then show ?thesis by (simp add: cs' step_J)
  next
    case (Repr_InternallyTagged tag)
    with run obtain c vcs where c: "add_field (add_key_path ?forked [tag]) (?sel tag) = Ok c"
      and vcs: "analyze_variant_content b S n flat v ?vp [] = Ok vcs"
        "merge_variant_configs opt c vcs = Ok cs'"
      by (auto simp: fork_variant_def Let_def run_simps)
    show ?thesis by (rule content [OF vcs(1) _ vcs(2)]) (use sel [OF c] in simp)
  next
    case (Repr_AdjacentlyTagged tag cont)
    have nest: "J c'" if c: "add_field (add_key_path ?forked [tag]) (?sel tag) = Ok c"
      and r: "collect_variant_key_paths_only S n v [cont] (add_key_path c [cont]) = Ok c'" for c c'
    proof -
      have "J (add_key_path c [cont])" using J_key_path [OF _ at_root, of c cont] sel [OF c] by simp
      from variant_only [OF this at_added r] show ?thesis by (rule step_J)
    qed
    from Repr_AdjacentlyTagged run show ?thesis
      by (auto simp: fork_variant_def Let_def run_simps intro: nest)
  qed
qed

lemma flatten_shape_ok:
  assumes b: "builder_ok b" and flat: "analyzer_ok flat" and J: "list_all J cs"
    and run: "flatten_shape b S n flat f opt sh fp [] cs = Ok cs'"
  shows "list_all J cs'"
proof -
  have J': "\<And>c. c \<in> set cs \<Longrightarrow> J c" using J by (simp add: list_all_iff)
  consider (struct) st where "sh_ty (S sh) = Ty_User (User_Struct st)"
    | (enum) e where "sh_ty (S sh) = Ty_User (User_Enum e)"
    | (other) "\<And>st. sh_ty (S sh) \<noteq> Ty_User (User_Struct st)" "\<And>e. sh_ty (S sh) \<noteq> Ty_User (User_Enum e)"
    by blast
  then show ?thesis
  proof cases
    case struct
    with run obtain ds where ds: "analyze_struct b S n flat st fp [] = Ok ds"
      and merged: "rconcat_map
          (\<lambda>base. rmap (merge base) (if opt then map mark_all_optional ds else ds)) cs = Ok cs'"
      by (auto simp: flatten_shape_def run_simps Let_def)
    have Jds: "\<And>d. d \<in> set (if opt then map mark_all_optional ds else ds) \<Longrightarrow> J d"
      using struct_ok [OF b flat ds] by (auto simp: list_all_iff J_mark split: if_splits)
    show ?thesis
    proof (rule rconcat_map_all [OF merged])
      fix base zs
      assume base: "base \<in> set cs"
        and zs: "rmap (merge base) (if opt then map mark_all_optional ds else ds) = Ok zs"
      show "list_all J zs" by (rule rmap_all [OF zs]) (rule J_merge [OF J' [OF base] Jds])
    qed
  next
    case enum
    with run obtain repr where forks: "rconcat_map (\<lambda>base. rconcat_map
        (fork_variant b S n flat repr f sh fp [] opt base) (et_variants e)) cs = Ok cs'"
      by (auto simp: flatten_shape_def Let_def)
    show ?thesis
    proof (rule rconcat_map_all [OF forks])
      fix base zs
      assume base: "base \<in> set cs"
        and zs: "rconcat_map (fork_variant b S n flat repr f sh fp [] opt base) (et_variants e) = Ok zs"
      show "list_all J zs"
        by (rule rconcat_map_all [OF zs]) (rule fork_variant_ok [OF b flat J' [OF base]])
    qed
  next
    case other
    let ?info = "\<lambda>req cat. \<lparr>fi_name = effective_name f, fi_path = fp, fi_required = req,
      fi_value_shape = sh, fi_field = f, fi_category = cat\<rparr>"
    from other run consider "cs' = map (\<lambda>c. set_catch_all_map c (catch_all_category b f)
          (?info False (catch_all_category b f))) cs"
      | req where "add_field_to_all (?info req (field_dom_category b f)) [effective_name f] cs = Ok cs'"
      unfolding flatten_shape_def Let_def
      by (auto split: facet_type.splits user_type.splits if_splits)
    then show ?thesis
    proof cases
      case 1
      with J show ?thesis by (auto simp: list_all_iff intro: J_catch_all)
    next
      case 2
      have "ok_info (?info req (field_dom_category b f))" by (rule builder_okD [OF b]) simp
      with add_to_all(1) [of "?info req (field_dom_category b f)" cs cs'] 2 J show ?thesis by simp
    qed
  qed
qed

lemma flattened_ok: "builder_ok b \<Longrightarrow> analyzer_ok (analyze_flattened_field_into_configs b S n)"
proof (induction n)
  case 0
  then show ?case by (simp add: analyzer_ok_def)
next
  case (Suc n)
  have "list_all J cs'" if "list_all J cs"
    and "analyze_flattened_field_into_configs b S (Suc n) f pp [] cs = Ok cs'" for f pp cs cs'
    using that(2) flatten_shape_ok [OF Suc.prems Suc.IH [OF Suc.prems] that(1)]
    by (auto simp: run_simps Let_def simp del: unwrap_transparent_with_path.simps split: prod.splits)
  then show ?case by (auto simp only: analyzer_ok_def)
qed

lemma enum_ok:
  assumes b: "builder_ok b" and run: "analyze_enum b S n r e p [] = Ok cs"
  shows "list_all J cs"
proof (rule rconcat_map_all [OF run [unfolded analyze_enum_def]])
  fix v :: variant and zs
  let ?config = "add_variant_selection resolution_new p (sh_type_identifier (S r)) (v_name v)"
  assume "(let config = ?config; variant_path = push_variant p [] (v_name v)
     in obind (analyze_variant_content b S n (analyze_flattened_field_into_configs b S n)
                 v variant_path []) (\<lambda>variant_configs. rmap (merge config) variant_configs)) = Ok zs"
  then obtain vcs where vcs: "analyze_variant_content b S n (analyze_flattened_field_into_configs b S n)
      v (push_variant p [] (v_name v)) [] = Ok vcs" and zs: "rmap (merge ?config) vcs = Ok zs"
    by (auto simp: Let_def run_simps)
  have "\<And>d. d \<in> set vcs \<Longrightarrow> J d"
    using variant_content_ok [OF b flattened_ok [OF b] vcs] by (simp add: list_all_iff)
  then show "list_all J zs" by (intro rmap_all [OF zs]) (rule J_merge [OF J_select [OF J_new]])
qed

lemma analyze_shape_ok:
  assumes b: "builder_ok b" and run: "analyze_shape b S n r p [] = Ok cs"
  shows "list_all J cs"
proof (cases "sh_ty (S r)" rule: ty_cases)
  case (struct st)
  with run show ?thesis by (auto simp: analyze_shape_def intro: struct_ok [OF b flattened_ok [OF b]])
next
  case (enum e)
  with run show ?thesis by (auto simp: analyze_shape_def intro: enum_ok [OF b])
next
  case other
  from run have "cs = [resolution_new]"
    unfolding analyze_shape_def match_other [OF other] by simp
  then show ?thesis by (auto simp: J_new)
qed

lemma analyze_ok: "builder_ok b \<Longrightarrow> analyze b S n = Ok cs \<Longrightarrow> list_all J cs"
  unfolding analyze_def by (rule analyze_shape_ok)

end

section \<open>Three invariants of every resolution of a schema\<close>

interpretation wf: resolution_invariant res_wf "\<lambda>p r. True" "\<lambda>i. True"
  by unfold_locales (auto intro: wf_intros)

text \<open>The key paths are closed under prefixes, and every field is a key at the top.\<close>

definition path_at :: "key_path \<Rightarrow> resolution \<Rightarrow> bool" where
  "path_at p r \<longleftrightarrow> p = [] \<or> p \<in> set (rn_known_paths r)"

definition paths_closed :: "resolution \<Rightarrow> bool" where
  "paths_closed r \<longleftrightarrow> (\<forall>p \<in> set (rn_known_paths r). p \<noteq> [] \<and> path_at (butlast p) r)
     \<and> (\<forall>i \<in> field_infos r. path_at [fi_name i] r)"

lemma known_paths_simps [simp]:
  "set (rn_known_paths (add_key_path r p)) = insert p (set (rn_known_paths r))"
  "rn_known_paths (set_catch_all_map r c i) = rn_known_paths r"
  "rn_known_paths (add_variant_selection r fp e v) = rn_known_paths r"
  "rn_known_paths (insert_field k i r) = rn_known_paths r"
  "rn_known_paths (mark_all_optional r) = rn_known_paths r"
  "rn_known_paths resolution_new = []"
  by (simp_all add: add_key_path_def set_catch_all_map_def add_variant_selection_def
      insert_field_def mark_all_optional_def resolution_new_def)

lemma field_infos_simps [simp]:
  "field_infos (add_key_path r p) = field_infos r"
  "field_infos (set_catch_all_map r c i) = field_infos r"
  "field_infos (add_variant_selection r fp e v) = field_infos r"
  "field_infos resolution_new = {}"
  by (simp_all add: field_infos_def) (simp add: resolution_new_def)

lemma field_infos_insert_subset: "field_infos (insert_field k i r) \<subseteq> insert i (field_infos r)"
  using set_btm_insert_subset [of k i "rn_fields r"] by (fastforce simp: field_infos_def)

lemma field_infos_merge:
  assumes "res_wf a" and "res_wf b" and "merge a b = Ok c"
  shows "field_infos c \<subseteq> field_infos a \<union> field_infos b"
proof
  fix i
  assume "i \<in> field_infos c"
  then have "btm_get (rn_fields c) (info_key i) = Some i"
    using res_wf_merge [OF assms] by (simp add: field_infos_get)
  then show "i \<in> field_infos a \<union> field_infos b"
    using merge_get [OF assms(3,2)] assms(1,2)
    by (auto simp: field_infos_get split: option.splits)
qed

lemma known_paths_merge:
  "merge a b = Ok c \<Longrightarrow> set (rn_known_paths c) = set (rn_known_paths a) \<union> set (rn_known_paths b)"
proof -
  assume "merge a b = Ok c"
  then obtain r where r: "rfold merge_step (rn_fields b) a = Ok r" "c = merge_rest b r"
    by (auto simp: merge_unfold run_simps)
  have "rn_known_paths r = rn_known_paths a"
    by (rule rfold_invariant [OF r(1)]) (auto simp: run_simps)
  with r(2) show ?thesis by (simp add: merge_rest_def)
qed

interpretation closed: resolution_invariant "\<lambda>r. res_wf r \<and> paths_closed r" path_at "\<lambda>i. True"
proof unfold_locales
  fix a b m
  assume a: "res_wf a \<and> paths_closed a" and b: "res_wf b \<and> paths_closed b" and m: "merge a b = Ok m"
  have "field_infos m \<subseteq> field_infos a \<union> field_infos b" using field_infos_merge a b m by blast
  with a b known_paths_merge [OF m] have "paths_closed m"
    by (auto simp: paths_closed_def path_at_def)
  with a b m show "res_wf m \<and> paths_closed m" by (blast intro: wf_intros)
next
  fix r i r'
  assume "res_wf r \<and> paths_closed r" and "add_field r i = Ok r'"
  then show "res_wf (add_key_path r' [fi_name i]) \<and> paths_closed (add_key_path r' [fi_name i])"
    using field_infos_insert_subset [of "info_key i" i r]
    by (auto simp: add_field_eq_Ok paths_closed_def path_at_def)
next
  fix r i r'
  assume "res_wf r \<and> paths_closed r" and "path_at [fi_name i] r" and "add_field r i = Ok r'"
  then show "res_wf r' \<and> paths_closed r'"
    using field_infos_insert_subset [of "info_key i" i r]
    by (auto simp: add_field_eq_Ok paths_closed_def path_at_def)
qed (auto simp: paths_closed_def path_at_def field_infos_mark add_field_eq_Ok)

text \<open>A flat schema has flat fields and variant selectors, a DOM schema no flat field.\<close>

definition category_fits :: "format \<Rightarrow> field_category \<Rightarrow> bool" where
  "category_fits fmt c \<longleftrightarrow> (if fmt = Format_Dom then c \<noteq> Cat_Flat else c = Cat_Flat \<or> c = Cat_Element)"

definition categories_fit :: "format \<Rightarrow> resolution \<Rightarrow> bool" where
  "categories_fit fmt r \<longleftrightarrow> (\<forall>i \<in> field_infos r. category_fits fmt (fi_category i))"

interpretation cat: resolution_invariant "\<lambda>r. res_wf r \<and> categories_fit fmt r" "\<lambda>p r. True"
  "\<lambda>i. category_fits fmt (fi_category i)" for fmt
proof unfold_locales
  fix a b m
  assume a: "res_wf a \<and> categories_fit fmt a" and b: "res_wf b \<and> categories_fit fmt b"
    and m: "merge a b = Ok m"
  have "field_infos m \<subseteq> field_infos a \<union> field_infos b" using field_infos_merge a b m by blast
  with a b m show "res_wf m \<and> categories_fit fmt m"
    by (auto simp: categories_fit_def intro: wf_intros)
next
  fix r i r'
  assume "res_wf r \<and> categories_fit fmt r" and "category_fits fmt (fi_category i)"
    and "add_field r i = Ok r'"
  then show "res_wf r' \<and> categories_fit fmt r'"
    and "res_wf (add_key_path r' [fi_name i]) \<and> categories_fit fmt (add_key_path r' [fi_name i])"
    using field_infos_insert_subset [of "info_key i" i r]
    by (auto simp: add_field_eq_Ok categories_fit_def)
qed (auto simp: categories_fit_def field_infos_mark)

lemma from_field_dom_not_flat: "from_field_dom f \<noteq> Some Cat_Flat"
  by (simp add: from_field_dom_def)

lemma field_dom_category_fits: "category_fits (sb_format b) (field_dom_category b f)"
  using from_field_dom_not_flat [of f]
  by (simp add: category_fits_def field_dom_category_def split: option.splits) blast

lemma builder_fits: "cat.builder_ok (sb_format b) b"
proof -
  have "category_fits (sb_format b) c"
    if "c = Cat_Element \<or> (\<exists>f. c = field_dom_category b f)" for c
    using that
  proof
    assume "c = Cat_Element"
    then show ?thesis by (simp add: category_fits_def)
  next
    assume "\<exists>f. c = field_dom_category b f"
    then show ?thesis using field_dom_category_fits by blast
  qed
  then show ?thesis unfolding cat.builder_ok_def by blast
qed

lemma analyze_all:
  assumes "analyze b S n = Ok cs" and "r \<in> set cs"
  shows "res_wf r" and "paths_closed r" and "categories_fit (sb_format b) r"
  using closed.analyze_ok [OF _ assms(1)] cat.analyze_ok [OF builder_fits assms(1)] assms(2)
  by (auto simp: closed.builder_ok_def list_all_iff)

section \<open>The inverted indexes\<close>

text \<open>The set of resolutions that have a field under a key.\<close>

definition having :: "(field_info \<Rightarrow> 'k) \<Rightarrow> resolution list \<Rightarrow> 'k \<Rightarrow> nat set" where
  "having key rs k = {idx. idx < length rs \<and> (\<exists>i \<in> field_infos (rs ! idx). key i = k)}"

definition index_inv :: "nat \<Rightarrow> ('k::linorder \<Rightarrow> nat set) \<Rightarrow> ('k, rset) btmap \<Rightarrow> bool" where
  "index_inv n sem m \<longleftrightarrow> btm_wf m \<and>
     (\<forall>k. case btm_get m k of
            None \<Rightarrow> sem k = {}
          | Some s \<Rightarrow> rs_inv n s \<and> rs_elems s = sem k \<and> sem k \<noteq> {})"

lemma index_inv_upsert:
  assumes inv: "index_inv n sem m" and idx: "idx < n"
  shows "\<exists>m'. btm_upsert k (rs_empty n) (\<lambda>set. rs_insert set idx) m = Some m'
    \<and> index_inv n (sem(k := insert idx (sem k))) m'"
proof -
  let ?s = "case btm_get m k of Some v \<Rightarrow> v | None \<Rightarrow> rs_empty n"
  have s: "rs_inv n ?s \<and> rs_elems ?s = sem k"
    using inv by (auto simp: index_inv_def rs_inv_empty split: option.splits dest: spec [of _ k])
  then obtain s' where s': "rs_insert ?s idx = Some s'" "rs_inv n s'" "rs_elems s' = insert idx (sem k)"
    using rs_insert_elems [of n ?s idx] idx by auto
  then have "btm_upsert k (rs_empty n) (\<lambda>set. rs_insert set idx) m = Some (btm_insert k s' m)"
    by (simp add: btm_upsert_def)
  moreover have "index_inv n (sem(k := insert idx (sem k))) (btm_insert k s' m)"
    unfolding index_inv_def
  proof (intro conjI allI)
    show "btm_wf (btm_insert k s' m)" using inv by (simp add: index_inv_def)
  next
    fix a
    show "case btm_get (btm_insert k s' m) a of
        None \<Rightarrow> (sem(k := insert idx (sem k))) a = {}
      | Some s \<Rightarrow> rs_inv n s \<and> rs_elems s = (sem(k := insert idx (sem k))) a
          \<and> (sem(k := insert idx (sem k))) a \<noteq> {}"
    proof (cases "a = k")
      case True
      with s' show ?thesis by simp
    next
      case False
      have "case btm_get m a of None \<Rightarrow> sem a = {}
          | Some s \<Rightarrow> rs_inv n s \<and> rs_elems s = sem a \<and> sem a \<noteq> {}"
        using inv by (simp add: index_inv_def)
      with False show ?thesis by (cases "btm_get m a") simp_all
    qed
  qed
  ultimately show ?thesis by blast
qed

lemma index_fields_loop:
  assumes "index_inv n sem m" and "idx < n"
  shows "\<exists>m'. ofold (\<lambda>info. btm_upsert (key info) (rs_empty n) (\<lambda>set. rs_insert set idx)) infos m = Some m'
    \<and> index_inv n (\<lambda>k. sem k \<union> (if k \<in> key ` set infos then {idx} else {})) m'"
  using assms
proof (induction infos arbitrary: sem m)
  case Nil
  then show ?case by simp
next
  case (Cons i infos)
  let ?sem = "sem(key i := insert idx (sem (key i)))"
  from index_inv_upsert [OF Cons.prems, of "key i"]
  obtain m1 where m1: "btm_upsert (key i) (rs_empty n) (\<lambda>set. rs_insert set idx) m = Some m1"
    "index_inv n ?sem m1" by blast
  have "(\<lambda>k. ?sem k \<union> (if k \<in> key ` set infos then {idx} else {}))
      = (\<lambda>k. sem k \<union> (if k \<in> key ` set (i # infos) then {idx} else {}))"
    by (auto simp: fun_eq_iff)
  with Cons.IH [OF m1(2) Cons.prems(2)] m1(1) show ?case by simp
qed

lemma index_resolutions_loop:
  assumes "index_inv n sem m" and "start + length rs \<le> n"
  shows "\<exists>m'. ofold (\<lambda>(idx, config). ofold (\<lambda>info.
        btm_upsert (key info) (rs_empty n) (\<lambda>set. rs_insert set idx)) (btm_values (rn_fields config)))
      (enumerate start rs) m = Some m'
    \<and> index_inv n (\<lambda>k. sem k \<union> (\<lambda>j. start + j) ` having key rs k) m'"
  using assms
proof (induction rs arbitrary: start sem m)
  case Nil
  then show ?case by (simp add: having_def)
next
  case (Cons r rs)
  have lt: "start < n" using Cons.prems(2) by simp
  let ?sem = "\<lambda>k. sem k \<union> (if k \<in> key ` set (btm_values (rn_fields r)) then {start} else {})"
  from index_fields_loop [OF Cons.prems(1) lt]
  obtain m1 where m1: "ofold (\<lambda>info. btm_upsert (key info) (rs_empty n) (\<lambda>set. rs_insert set start))
      (btm_values (rn_fields r)) m = Some m1" "index_inv n ?sem m1" by blast
  have split: "having key (r # rs) k = (if k \<in> key ` field_infos r then {0} else {})
      \<union> Suc ` having key rs k" for k
  proof (rule set_eqI)
    fix x
    show "x \<in> having key (r # rs) k \<longleftrightarrow> x \<in> (if k \<in> key ` field_infos r then {0} else {})
        \<union> Suc ` having key rs k"
      by (cases x) (auto simp: having_def)
  qed
  have "(\<lambda>k. ?sem k \<union> (\<lambda>j. Suc start + j) ` having key rs k)
      = (\<lambda>k. sem k \<union> (\<lambda>j. start + j) ` having key (r # rs) k)"
    unfolding split by (auto simp: fun_eq_iff field_infos_values image_Un image_image)
  with Cons.IH [OF m1(2), of "Suc start"] Cons.prems(2) m1(1) show ?case
    by (simp add: enumerate_simps)
qed

lemma index_resolutions_ok:
  "\<exists>m. index_resolutions key rs = Some m \<and> index_inv (length rs) (having key rs) m"
proof -
  have "index_inv (length rs) (\<lambda>k. {}) []" by (simp add: index_inv_def)
  from index_resolutions_loop [OF this, of 0 rs key] show ?thesis
    by (simp add: index_resolutions_def)
qed

definition schema_wf :: "schema \<Rightarrow> bool" where
  "schema_wf sc \<longleftrightarrow>
     (\<forall>r \<in> set (sc_resolutions sc). res_wf r \<and> paths_closed r \<and> categories_fit (sc_format sc) r)
     \<and> index_inv (length (sc_resolutions sc)) (having fi_name (sc_resolutions sc))
         (sc_field_to_resolutions sc)
     \<and> (if sc_format sc = Format_Dom
        then index_inv (length (sc_resolutions sc))
               (having (\<lambda>i. (fi_category i, fi_name i)) (sc_resolutions sc))
               (sc_dom_field_to_resolutions sc)
        else sc_dom_field_to_resolutions sc = [])"

lemma into_schema_eq:
  "into_schema b S n = obind (analyze b S n) (\<lambda>rs. Ok (Some \<lparr>sc_shape = sb_shape b,
     sc_format = sb_format b, sc_resolutions = rs,
     sc_field_to_resolutions = the (index_resolutions fi_name rs),
     sc_dom_field_to_resolutions = (if sb_format b = Format_Dom
       then the (index_resolutions (\<lambda>i. (fi_category i, fi_name i)) rs) else [])\<rparr>))"
proof (cases "analyze b S n")
  case (Ok rs)
  obtain m where "index_resolutions fi_name rs = Some m" using index_resolutions_ok by blast
  moreover obtain d where "index_resolutions (\<lambda>i. (fi_category i, fi_name i)) rs = Some d"
    using index_resolutions_ok by blast
  ultimately show ?thesis by (simp add: into_schema_def Ok)
qed (simp_all add: into_schema_def)

lemma into_schema_wf:
  assumes "into_schema b S n = Ok out"
  shows "\<exists>sc. out = Some sc \<and> schema_wf sc \<and> analyze b S n = Ok (sc_resolutions sc)
    \<and> sc_format sc = sb_format b"
proof -
  obtain rs where rs: "analyze b S n = Ok rs" using assms by (auto simp: into_schema_def run_simps)
  obtain m where m: "index_resolutions fi_name rs = Some m"
    "index_inv (length rs) (having fi_name rs) m" using index_resolutions_ok by blast
  obtain d where d: "index_resolutions (\<lambda>i. (fi_category i, fi_name i)) rs = Some d"
    "index_inv (length rs) (having (\<lambda>i. (fi_category i, fi_name i)) rs) d"
    using index_resolutions_ok by blast
  show ?thesis
    using assms rs m d analyze_all [OF rs] by (auto simp: into_schema_eq schema_wf_def)
qed

end
