(* ===== verification/Schema_Fuel.thy ===== *)
theory Schema_Fuel
  imports Schema_Facts
begin

text \<open>
  Termination of the schema builder. The recursion of the code follows three kinds of edges
  between shapes: from a struct or an enum to its fields' shapes (a type contains its fields by
  value, so these are well-founded for every type of finite size), from a wrapper to what it
  wraps, and from a shape to the shapes flattened into it. A rank for each kind gives a
  fuel with which no function of the builder answers \<open>Overrun\<close>.
\<close>

definition wraps :: "shapes \<Rightarrow> (sref \<Rightarrow> nat) \<Rightarrow> bool" where
  "wraps S wr \<longleftrightarrow>
     (\<forall>r t. sh_inner (S r) = Some t \<longrightarrow> wr t < wr r)
     \<and> (\<forall>r t. sh_proxy (S r) = Some t \<longrightarrow> wr t < wr r)"

text \<open>Where a flattened field leads, and the flattened fields that a shape brings in.\<close>

definition flatten_target :: "shapes \<Rightarrow> field \<Rightarrow> sref \<Rightarrow> bool" where
  "flatten_target S f t \<longleftrightarrow>
     (\<exists>n p q. unwrap_transparent_with_path S n
        (case unwrap_option_type (S (f_shape f)) of Some r \<Rightarrow> r | None \<Rightarrow> f_shape f) p
        = (Ok (t, q) :: (sref \<times> field_path) built))"

inductive brings_in :: "shapes \<Rightarrow> sref \<Rightarrow> field \<Rightarrow> bool" for S where
  of_struct: "\<lbrakk>sh_ty (S r) = Ty_User (User_Struct st); f \<in> set (st_fields st)\<rbrakk> \<Longrightarrow> brings_in S r f"
| of_variant: "\<lbrakk>sh_ty (S r) = Ty_User (User_Enum e); v \<in> set (et_variants e);
     f \<in> set (st_fields (v_data v))\<rbrakk> \<Longrightarrow> brings_in S r f"
| of_newtype: "\<lbrakk>sh_ty (S r) = Ty_User (User_Enum e); v \<in> set (et_variants e); is_newtype v;
     unwrap_to_effective_shape S n (f_shape (newtype_field v)) = (Ok t :: sref built);
     sh_ty (S t) = Ty_User (User_Struct st); f \<in> set (st_fields st)\<rbrakk> \<Longrightarrow> brings_in S r f"

definition flattens :: "shapes \<Rightarrow> (sref \<Rightarrow> nat) \<Rightarrow> bool" where
  "flattens S fl \<longleftrightarrow>
     (\<forall>r f t. brings_in S r f \<longrightarrow> is_flattened f \<longrightarrow> flatten_target S f t \<longrightarrow> fl t < fl r)"

definition finite_expansion ::
    "shapes \<Rightarrow> nat \<Rightarrow> (sref \<Rightarrow> nat) \<Rightarrow> (sref \<Rightarrow> nat) \<Rightarrow> (sref \<Rightarrow> nat) \<Rightarrow> bool" where
  "finite_expansion S L lay wr fl \<longleftrightarrow> lays_out S lay \<and> wraps S wr \<and> flattens S fl
     \<and> (\<forall>r. lay r < L \<and> wr r < L)"

section \<open>Wrappers\<close>

lemma unwrap_with_path_fuel:
  "wraps S wr \<Longrightarrow> wr r < n \<Longrightarrow> unwrap_transparent_with_path S n r p \<noteq> Overrun"
proof (induction n arbitrary: r p)
  case (Suc n)
  show ?case
  proof (cases "sh_inner (S r)")
    case (Some t)
    then have "wr t < wr r" using Suc.prems by (auto simp: wraps_def)
    with Some Suc show ?thesis by simp
  qed simp
qed simp

lemma unwrap_transparent_fuel:
  "wraps S wr \<Longrightarrow> wr r < n \<Longrightarrow>
     \<exists>t. unwrap_transparent S n r = Ok t \<and> wr t \<le> wr r"
proof (induction n arbitrary: r)
  case (Suc n)
  show ?case
  proof (cases "sh_inner (S r)")
    case (Some t)
    then have t: "wr t < wr r" using Suc.prems by (auto simp: wraps_def)
    with Suc.prems have "wr t < n" by simp
    from Suc.IH [OF Suc.prems(1) this] show ?thesis using Some t by auto
  qed simp
qed simp

lemma unwrap_effective_fuel:
  "wraps S wr \<Longrightarrow> wr r < n \<Longrightarrow> unwrap_to_effective_shape S n r \<noteq> (Overrun :: ('e, sref) outcome)"
proof (induction n arbitrary: r)
  case (Suc n)
  obtain t where t: "unwrap_transparent S (Suc n) r = (Ok t :: ('e, sref) outcome)" "wr t \<le> wr r"
    using unwrap_transparent_fuel [OF Suc.prems] by blast
  show ?case
  proof (cases "sh_proxy (S t)")
    case (Some p)
    then have "wr p < wr t" using Suc.prems(1) by (auto simp: wraps_def)
    with t Suc.prems have "wr p < n" by simp
    with Some t(1) Suc show ?thesis by (simp del: unwrap_transparent.simps)
  qed (use t in \<open>simp del: unwrap_transparent.simps\<close>)
qed simp

section \<open>Key path collectors\<close>

lemma struct_only_fuel:
  "(\<And>f p c. f \<in> set (st_fields st) \<Longrightarrow> visit (f_shape f) p c \<noteq> Overrun)
     \<Longrightarrow> collect_struct_key_paths_only visit st p c \<noteq> Overrun"
  unfolding collect_struct_key_paths_only_def by (rule rfold_no_overrun) (auto simp: Let_def)

lemma newtype_field_in: "is_newtype v \<Longrightarrow> newtype_field v \<in> set (st_fields (v_data v))"
  by (simp add: is_newtype_def newtype_field_def)

lemma variant_only_fuel:
  assumes "\<And>f p c. f \<in> set (st_fields (v_data v)) \<Longrightarrow> visit (f_shape f) p c \<noteq> Overrun"
  shows "collect_variant_fields_key_paths_only visit v p c \<noteq> Overrun"
proof (cases "is_newtype v")
  case True
  with assms newtype_field_in [OF True] show ?thesis
    by (simp add: collect_variant_fields_key_paths_only_def)
next
  case False
  have "rfold (\<lambda>field config.
        let field_key_path = p @ [effective_name field]
        in visit (f_shape field) field_key_path (add_key_path config field_key_path))
      (st_fields (v_data v)) c \<noteq> Overrun"
    by (rule rfold_no_overrun) (simp add: assms Let_def)
  with False show ?thesis by (simp add: collect_variant_fields_key_paths_only_def)
qed

lemma shape_only_fuel:
  "lays_out S lay \<Longrightarrow> lay r < n \<Longrightarrow> collect_shape_key_paths_only S n r p c \<noteq> Overrun"
proof (induction n arbitrary: r p c)
  case (Suc n)
  show ?case
  proof (cases "sh_ty (S r)" rule: ty_cases)
    case (struct st)
    have "\<And>f. f \<in> set (st_fields st) \<Longrightarrow> lay (f_shape f) < n"
      using struct Suc.prems by (force simp: lays_out_def)
    with Suc.IH [OF Suc.prems(1)] struct show ?thesis by (simp add: struct_only_fuel)
  next
    case (enum e)
    have "\<And>v f. v \<in> set (et_variants e) \<Longrightarrow> f \<in> set (st_fields (v_data v)) \<Longrightarrow> lay (f_shape f) < n"
      using enum Suc.prems by (force simp: lays_out_def)
    then have "rfold (\<lambda>v. collect_variant_fields_key_paths_only (collect_shape_key_paths_only S n) v p)
        (et_variants e) c \<noteq> Overrun"
      by (intro rfold_no_overrun variant_only_fuel Suc.IH [OF Suc.prems(1)])
    with enum show ?thesis by simp
  next
    case other
    show ?thesis unfolding collect_shape_key_paths_only.simps match_other [OF other] by simp
  qed
qed simp

lemma nested_struct_fuel:
  assumes "\<And>f p cs. f \<in> set (st_fields st) \<Longrightarrow> visit (f_shape f) p cs \<noteq> Overrun"
    and "\<And>f p cs. f \<in> set (st_fields st) \<Longrightarrow> flat f p cs \<noteq> Overrun"
  shows "collect_nested_key_paths_for_struct visit flat st p cs \<noteq> Overrun"
  unfolding collect_nested_key_paths_for_struct_def
  by (rule rfold_no_overrun) (auto simp: Let_def assms)

lemma nested_variant_fuel:
  assumes fields: "\<And>f p cs. f \<in> set (st_fields (v_data v)) \<Longrightarrow>
      visit (f_shape f) p cs \<noteq> Overrun \<and> flat f p cs \<noteq> Overrun"
    and inner: "\<And>st f p cs. is_newtype v \<Longrightarrow> sh_ty (S (f_shape (newtype_field v))) = Ty_User (User_Struct st)
      \<Longrightarrow> f \<in> set (st_fields st) \<Longrightarrow> visit (f_shape f) p cs \<noteq> Overrun \<and> flat f p cs \<noteq> Overrun"
  shows "collect_variant_key_paths S visit flat v p c \<noteq> Overrun"
proof -
  let ?body = "\<lambda>field config. if is_flattened field
      then obind (flat field p [config]) (\<lambda>configs. Ok (first_config configs))
      else let field_key_path = p @ [effective_name field]
           in obind (visit (f_shape field) field_key_path [add_key_path config field_key_path])
                (\<lambda>configs. Ok (first_config configs))"
  have named: "rfold ?body (st_fields (v_data v)) c \<noteq> Overrun"
    by (rule rfold_no_overrun) (use fields in \<open>auto simp: Let_def run_simps\<close>)
  show ?thesis
  proof (cases "is_newtype v \<and> (\<exists>st. sh_ty (S (f_shape (newtype_field v))) = Ty_User (User_Struct st))")
    case True
    then obtain st where nt: "is_newtype v"
      and st: "sh_ty (S (f_shape (newtype_field v))) = Ty_User (User_Struct st)" by blast
    have "collect_nested_key_paths_for_struct visit flat st p [c] \<noteq> Overrun"
      by (rule nested_struct_fuel) (use inner [OF nt st] in auto)
    with nt st show ?thesis by (simp add: collect_variant_key_paths_def run_simps)
  next
    case False
    show ?thesis
    proof (cases "is_newtype v")
      case True
      with False have other: "\<And>st. sh_ty (S (f_shape (newtype_field v))) \<noteq> Ty_User (User_Struct st)"
        by blast
      from True named show ?thesis
        unfolding collect_variant_key_paths_def Let_def match_not_struct [OF other] by simp
    qed (use named in \<open>simp add: collect_variant_key_paths_def\<close>)
  qed
qed

lemma nested_fuel:
  assumes lays: "lays_out S lay"
  shows "(lay r < n \<longrightarrow> collect_nested_key_paths_for_shape S n r p cs \<noteq> Overrun) \<and>
    (lay (f_shape f) < n \<longrightarrow> collect_nested_key_paths_for_flattened S n f p cs \<noteq> Overrun)"
proof (induction n arbitrary: r f p cs)
  case (Suc n)
  let ?v = "collect_nested_key_paths_for_shape S n"
  let ?f = "collect_nested_key_paths_for_flattened S n"
  have rec: "?v (f_shape f) p cs \<noteq> Overrun" "?f f p cs \<noteq> Overrun" if "lay (f_shape f) < n" for f p cs
    using Suc that by blast+
  have nested: "collect_nested_key_paths_for_struct ?v ?f st p cs \<noteq> Overrun"
    if "sh_ty (S r) = Ty_User (User_Struct st)" and "lay r < Suc n" for r st p cs
  proof -
    have "\<And>f. f \<in> set (st_fields st) \<Longrightarrow> lay (f_shape f) < n"
      using that lays by (force simp: lays_out_def)
    then show ?thesis by (intro nested_struct_fuel rec)
  qed
  have variant: "collect_variant_key_paths S ?v ?f v p c \<noteq> Overrun"
    if e: "sh_ty (S r) = Ty_User (User_Enum e)" and v: "v \<in> set (et_variants e)"
      and "lay r < Suc n" for r e v p c
  proof -
    have fields: "\<And>f. f \<in> set (st_fields (v_data v)) \<Longrightarrow> lay (f_shape f) < n"
      using that lays by (force simp: lays_out_def)
    have inner: "lay (f_shape f) < n" if "is_newtype v"
      "sh_ty (S (f_shape (newtype_field v))) = Ty_User (User_Struct st)" "f \<in> set (st_fields st)" for st f
      using lays that(2,3) fields [OF newtype_field_in [OF that(1)]]
      by (fastforce simp: lays_out_def)
    show ?thesis by (rule nested_variant_fuel) (use rec fields inner in blast)+
  qed
  have 1: "collect_nested_key_paths_for_shape S (Suc n) r p cs \<noteq> Overrun" if lt: "lay r < Suc n" for r p cs
  proof (cases "\<exists>st. sh_ty (S r) = Ty_User (User_Struct st)")
    case True
    then obtain st where "sh_ty (S r) = Ty_User (User_Struct st)" by blast
    with nested [OF this lt] show ?thesis by simp
  next
    case False
    then have other: "\<And>st. sh_ty (S r) \<noteq> Ty_User (User_Struct st)" by blast
    show ?thesis unfolding collect_nested_key_paths_for_shape.simps match_not_struct [OF other] by simp
  qed
  have 2: "collect_nested_key_paths_for_flattened S (Suc n) f p cs \<noteq> Overrun"
    if lt: "lay (f_shape f) < Suc n" for f p cs
  proof (cases "sh_ty (S (f_shape f))" rule: ty_cases)
    case (struct st)
    with nested [OF struct lt] show ?thesis by simp
  next
    case (enum e)
    have "rmap (\<lambda>config. case selected_variant f config of
              Some variant_name \<Rightarrow>
                (case List.find (\<lambda>v. v_name v = variant_name) (et_variants e) of
                   Some variant \<Rightarrow> collect_variant_key_paths S ?v ?f variant p config
                 | None \<Rightarrow> Ok config)
            | None \<Rightarrow> Ok config) cs \<noteq> Overrun"
      by (rule rmap_no_overrun)
        (auto split: option.splits dest: find_eq_Some_in_set intro: variant [OF enum _ lt, THEN notE])
    with enum show ?thesis by simp
  next
    case other
    show ?thesis unfolding collect_nested_key_paths_for_flattened.simps match_other [OF other] by simp
  qed
  show ?case using 1 2 by blast
qed simp

section \<open>The analysis\<close>

lemma rconcat_map_no_overrun:
  "(\<And>x. x \<in> set xs \<Longrightarrow> f x \<noteq> Overrun) \<Longrightarrow> rconcat_map f xs \<noteq> Overrun"
  using rmap_no_overrun [of xs f] by (auto simp: rconcat_map_def run_simps)

lemma add_to_all_fuel [simp]: "add_field_to_all i p cs \<noteq> Overrun"
  unfolding add_field_to_all_def by (rule rmap_no_overrun) (simp add: run_simps)

lemma merge_all_fuel [simp]: "rmap (merge a) cs \<noteq> Overrun"
  by (rule rmap_no_overrun) simp

lemma merge_variant_fuel [simp]: "merge_variant_configs opt a cs \<noteq> Overrun"
  by (simp add: merge_variant_configs_def)

lemma field_fuel:
  assumes "lays_out S lay" and "\<And>r. lay r < n" and "is_flattened f \<Longrightarrow> flat f p kp cs \<noteq> Overrun"
  shows "analyze_field_into_configs b S n flat f p kp cs \<noteq> Overrun"
  using assms nested_fuel [OF assms(1), of _ n]
  by (auto simp: analyze_field_into_configs_def run_simps Let_def)

lemma fields_fuel:
  assumes "lays_out S lay" and "\<And>r. lay r < n"
    and "\<And>f p kp cs. f \<in> set fs \<Longrightarrow> is_flattened f \<Longrightarrow> flat f p kp cs \<noteq> Overrun"
  shows "rfold (\<lambda>field. analyze_field_into_configs b S n flat field p kp) fs cs \<noteq> Overrun"
  by (rule rfold_no_overrun) (rule field_fuel [OF assms(1,2)], rule assms(3))

lemma struct_fuel:
  assumes "lays_out S lay" and "\<And>r. lay r < n"
    and "\<And>f p kp cs. f \<in> set (st_fields st) \<Longrightarrow> is_flattened f \<Longrightarrow> flat f p kp cs \<noteq> Overrun"
  shows "analyze_struct b S n flat st p kp \<noteq> Overrun"
  unfolding analyze_struct_def by (rule fields_fuel [OF assms])

lemma variant_content_fuel:
  assumes lays: "lays_out S lay" "\<And>r. lay r < n" and wr: "wraps S wr" "\<And>r. wr r < n"
    and e: "sh_ty (S r) = Ty_User (User_Enum e)" "v \<in> set (et_variants e)"
    and flat: "\<And>f p kp cs. brings_in S r f \<Longrightarrow> is_flattened f \<Longrightarrow> flat f p kp cs \<noteq> Overrun"
  shows "analyze_variant_content b S n flat v p kp \<noteq> Overrun"
proof -
  have named: "rfold (\<lambda>field. analyze_field_into_configs b S n flat field p kp)
      (st_fields (v_data v)) [resolution_new] \<noteq> Overrun"
    by (rule fields_fuel [OF lays]) (rule flat [OF of_variant [where S = S and r = r, OF e]])
  show ?thesis
  proof (cases "is_newtype v")
    case True
    have "unwrap_to_effective_shape S n (f_shape (newtype_field v)) \<noteq> (Overrun :: sref built)"
      by (rule unwrap_effective_fuel [OF wr])
    moreover have "(case sh_ty (S t) of
        Ty_User (User_Struct st) \<Rightarrow> analyze_struct b S n flat st (push_field p ''0'') kp
      | _ \<Rightarrow> rfold (\<lambda>field. analyze_field_into_configs b S n flat field p kp) (st_fields (v_data v))
          [resolution_new]) \<noteq> Overrun"
      if t: "unwrap_to_effective_shape S n (f_shape (newtype_field v)) = (Ok t :: sref built)" for t
    proof (cases "\<exists>st. sh_ty (S t) = Ty_User (User_Struct st)")
      case True
      then obtain st where st: "sh_ty (S t) = Ty_User (User_Struct st)" by blast
      have "analyze_struct b S n flat st (push_field p ''0'') kp \<noteq> Overrun"
        by (rule struct_fuel [OF lays]) (rule flat [OF of_newtype [where S = S and r = r, OF e \<open>is_newtype v\<close> t st]])
      with st show ?thesis by simp
    next
      case False
      then have other: "\<And>st. sh_ty (S t) \<noteq> Ty_User (User_Struct st)" by blast
      show ?thesis unfolding match_not_struct [OF other] by (rule named)
    qed
    ultimately show ?thesis using True by (auto simp: analyze_variant_content_def run_simps Let_def)
  next
    case False
    with named show ?thesis by (simp add: analyze_variant_content_def)
  qed
qed

lemma fork_variant_fuel:
  assumes lays: "lays_out S lay" "\<And>r. lay r < n" and wr: "wraps S wr" "\<And>r. wr r < n"
    and e: "sh_ty (S r) = Ty_User (User_Enum e)" "v \<in> set (et_variants e)"
    and flat: "\<And>f p kp cs. brings_in S r f \<Longrightarrow> is_flattened f \<Longrightarrow> flat f p kp cs \<noteq> Overrun"
  shows "fork_variant b S n flat repr f sh fp kp opt base v \<noteq> Overrun"
proof -
  have content: "\<And>p kp. analyze_variant_content b S n flat v p kp \<noteq> Overrun"
    by (rule variant_content_fuel [OF lays wr e flat])
  have only: "\<And>p c. collect_variant_key_paths_only S n v p c \<noteq> Overrun"
    unfolding collect_variant_key_paths_only_def
    by (rule variant_only_fuel) (rule shape_only_fuel [OF lays])
  show ?thesis using content only
    by (cases repr) (simp_all add: fork_variant_def Let_def run_simps)
qed

lemma flatten_shape_fuel:
  assumes lays: "lays_out S lay" "\<And>r. lay r < n" and wr: "wraps S wr" "\<And>r. wr r < n"
    and flat: "\<And>f p kp cs. brings_in S sh f \<Longrightarrow> is_flattened f \<Longrightarrow> flat f p kp cs \<noteq> Overrun"
  shows "flatten_shape b S n flat f opt sh fp kp cs \<noteq> Overrun"
proof (cases "sh_ty (S sh)" rule: ty_cases)
  case (struct st)
  have "analyze_struct b S n flat st fp kp \<noteq> Overrun"
    by (rule struct_fuel [OF lays]) (rule flat [OF of_struct [where S = S and r = sh, OF struct]])
  with struct show ?thesis
    by (auto simp: flatten_shape_def run_simps Let_def intro!: rconcat_map_no_overrun)
next
  case (enum e)
  have "rconcat_map (\<lambda>base. rconcat_map (fork_variant b S n flat repr f sh fp kp opt base)
      (et_variants e)) cs \<noteq> Overrun" for repr
    by (intro rconcat_map_no_overrun fork_variant_fuel [OF lays wr enum _ flat])
  with enum show ?thesis by (simp add: flatten_shape_def Let_def)
next
  case other
  show ?thesis unfolding flatten_shape_def match_other [OF other] by (simp add: Let_def)
qed

lemma flattened_fuel:
  assumes fin: "finite_expansion S L lay wr fl"
  shows "L < n \<Longrightarrow> (\<And>t. flatten_target S f t \<Longrightarrow> fl t + L + 1 < n)
    \<Longrightarrow> analyze_flattened_field_into_configs b S n f p kp cs \<noteq> Overrun"
proof (induction n arbitrary: f p kp cs)
  case (Suc n)
  have lays: "lays_out S lay" "\<And>r. lay r < L" and wr: "wraps S wr" "\<And>r. wr r < L"
    and fl: "flattens S fl" using fin by (simp_all add: finite_expansion_def)
  define un where "un = (case unwrap_option_type (S (f_shape f)) of Some r \<Rightarrow> r | None \<Rightarrow> f_shape f)"
  have pair: "(case unwrap_option_type (S (f_shape f)) of
      Some inner \<Rightarrow> (inner, True) | None \<Rightarrow> (f_shape f, False))
      = (un, unwrap_option_type (S (f_shape f)) \<noteq> None)"
    by (simp add: un_def split: option.splits)
  let ?u = "unwrap_transparent_with_path S (Suc n) un (push_field p (f_name f)) :: (sref \<times> field_path) built"
  have u: "?u \<noteq> Overrun" by (rule unwrap_with_path_fuel [OF wr(1)]) (use wr(2) Suc.prems(1) less_trans in blast)
  have body: "flatten_shape b S n (analyze_flattened_field_into_configs b S n) f opt sh fp kp cs \<noteq> Overrun"
    if "?u = Ok (sh, fp)" for sh fp opt
  proof -
    have target: "flatten_target S f sh" using that unfolding flatten_target_def un_def by blast
    have sh: "fl sh + L + 1 < Suc n" by (rule Suc.prems(2) [OF target])
    have Ln: "L < n" using sh by simp
    show ?thesis
    proof (rule flatten_shape_fuel [OF lays(1) less_trans [OF lays(2) Ln] wr(1) less_trans [OF wr(2) Ln]])
      fix g p kp cs
      assume g: "brings_in S sh g" "is_flattened g"
      show "analyze_flattened_field_into_configs b S n g p kp cs \<noteq> Overrun"
      proof (rule Suc.IH [OF Ln])
        fix t
        assume "flatten_target S g t"
        then have "fl t < fl sh" using fl g by (auto simp: flattens_def)
        with sh show "fl t + L + 1 < n" by simp
      qed
    qed
  qed
  show ?case
    using u body
    by (auto simp: Let_def pair run_simps simp del: unwrap_transparent_with_path.simps)
qed simp

lemma analyze_fuel:
  assumes fin: "finite_expansion S L lay wr fl" and n: "fl (sb_shape b) + L + 1 < n"
  shows "analyze b S n \<noteq> Overrun"
proof -
  have Ln: "L < n" using n by simp
  have lays: "lays_out S lay" "\<And>r. lay r < n" and wr: "wraps S wr" "\<And>r. wr r < n"
    and fl: "flattens S fl"
    using fin less_trans [OF _ Ln] by (simp_all add: finite_expansion_def)
  let ?r = "sb_shape b" and ?flat = "analyze_flattened_field_into_configs b S n"
  have flat: "?flat f p kp cs \<noteq> Overrun" if "brings_in S ?r f" "is_flattened f" for f p kp cs
  proof (rule flattened_fuel [OF fin Ln])
    fix t
    assume "flatten_target S f t"
    then have "fl t < fl ?r" using fl that by (auto simp: flattens_def)
    with n show "fl t + L + 1 < n" by simp
  qed
  show ?thesis
  proof (cases "sh_ty (S ?r)" rule: ty_cases)
    case (struct st)
    have "analyze_struct b S n ?flat st path_empty [] \<noteq> Overrun"
      by (rule struct_fuel [OF lays]) (rule flat [OF of_struct [where S = S and r = ?r, OF struct]])
    with struct show ?thesis by (simp add: analyze_def analyze_shape_def)
  next
    case (enum e)
    have "analyze_variant_content b S n ?flat v p kp \<noteq> Overrun" if "v \<in> set (et_variants e)" for v p kp
      by (rule variant_content_fuel [OF lays wr enum that flat])
    then have "analyze_enum b S n ?r e path_empty [] \<noteq> Overrun"
      unfolding analyze_enum_def
      by (intro rconcat_map_no_overrun) (simp add: Let_def run_simps)
    with enum show ?thesis by (simp add: analyze_def analyze_shape_def)
  next
    case other
    show ?thesis unfolding analyze_def analyze_shape_def match_other [OF other] by simp
  qed
qed

end
