(* ===== verification/Solver.thy ===== *)
theory Solver
  imports Schema_Builder
begin

text \<open>
  The solver of facet-solver (src/lib.rs): a state machine over the set of resolutions that
  are still possible, driven by the keys, values and hints a deserializer reports, and the
  depth-aware \<open>ProbingSolver\<close>. A step that indexes the resolutions or unwraps an option may
  panic, so the steps return an \<open>option\<close>; the theory Solver_Facts shows that none does.
  The similarity measure of the suggestions is third-party code over floats and is the
  parameter \<open>metric\<close>.
\<close>

section \<open>Handles and states\<close>

record handle =
  h_index :: nat
  h_resolution :: resolution

definition handle_from_schema :: "schema \<Rightarrow> nat \<Rightarrow> handle option" where
  "handle_from_schema sc index =
     map_option (\<lambda>r. \<lparr>h_index = index, h_resolution = r\<rparr>) (nth_opt (sc_resolutions sc) index)"

definition handle_eq :: "handle \<Rightarrow> handle \<Rightarrow> bool" where
  "handle_eq a b \<longleftrightarrow> h_index a = h_index b"

record solver =
  sv_schema :: schema
  sv_candidates :: rset
  sv_seen_keys :: "field_key btset"

definition num_resolutions :: "solver \<Rightarrow> nat" where
  "num_resolutions sv = length (sc_resolutions (sv_schema sv))"

definition solver_new :: "schema \<Rightarrow> solver" where
  "solver_new sc = \<lparr>sv_schema = sc, sv_candidates = rs_full (length (sc_resolutions sc)),
     sv_seen_keys = []\<rparr>"

definition specificity_score :: "shape \<Rightarrow> u64" where
  "specificity_score s =
     (let t = sh_type_identifier s
      in if t = ''u8'' \<or> t = ''i8'' then 8
         else if t = ''u16'' \<or> t = ''i16'' then 16
         else if t = ''u32'' \<or> t = ''i32'' \<or> t = ''f32'' then 32
         else if t = ''u64'' \<or> t = ''i64'' \<or> t = ''f64'' then 64
         else if t = ''u128'' \<or> t = ''i128'' then 128
         else if t = ''usize'' \<or> t = ''isize'' then 64
         else 1000)"

datatype key_result =
  Key_Unambiguous sref
| Key_Ambiguous "(field_info \<times> u64) list"
| Key_Solved handle
| Key_Unknown

datatype satisfy_result = Sat_Continue | Sat_Solved handle | Sat_NoMatch

section \<open>Loops over the candidates\<close>

text \<open>\<open>for idx in self.candidates.iter()\<close>, with the resolution of the index.\<close>

definition for_candidates ::
    "schema \<Rightarrow> (nat \<Rightarrow> resolution \<Rightarrow> 's \<Rightarrow> 's option) \<Rightarrow> rset \<Rightarrow> 's \<Rightarrow> 's option" where
  "for_candidates sc body candidates s =
     ofold (\<lambda>idx s. case nth_opt (sc_resolutions sc) idx of
        None \<Rightarrow> None
      | Some config \<Rightarrow> body idx config s) (rs_iter candidates) s"

text \<open>The loops that build a new candidate set from the old one.\<close>

definition retain_candidates :: "schema \<Rightarrow> (resolution \<Rightarrow> bool) \<Rightarrow> rset \<Rightarrow> rset option" where
  "retain_candidates sc test candidates =
     for_candidates sc (\<lambda>idx config new. if test config then rs_insert new idx else Some new)
       candidates (rs_empty (length (sc_resolutions sc)))"

definition solved_handle :: "schema \<Rightarrow> rset \<Rightarrow> handle option" where
  "solved_handle sc candidates =
     (case rs_first candidates of None \<Rightarrow> None | Some idx \<Rightarrow> handle_from_schema sc idx)"

section \<open>Reporting keys\<close>

definition resolutions_with_key :: "schema \<Rightarrow> field_key \<Rightarrow> rset option" where
  "resolutions_with_key sc key =
     (case (key, sc_format sc) of
        (Key_Flat name, Format_Flat) \<Rightarrow> btm_get (sc_field_to_resolutions sc) name
      | (Key_Flat name, Format_Dom) \<Rightarrow>
          btm_get (sc_dom_field_to_resolutions sc) (Cat_Element, name)
      | (Key_Dom cat name, Format_Dom) \<Rightarrow>
          if (cat = Cat_Text \<or> cat = Cat_Tag \<or> cat = Cat_Elements) \<and> name = []
          then map_option snd
                 (List.find (\<lambda>((c, _), _). c = cat) (sc_dom_field_to_resolutions sc))
          else btm_get (sc_dom_field_to_resolutions sc) (cat, name)
      | (Key_Dom cat name, Format_Flat) \<Rightarrow> btm_get (sc_field_to_resolutions sc) name)"

definition collect_unique_fields :: "schema \<Rightarrow> field_key \<Rightarrow> rset \<Rightarrow> field_info list option" where
  "collect_unique_fields sc key candidates =
     for_candidates sc (\<lambda>idx config unique_fields.
       Some (case field_by_key config key of
               Some info \<Rightarrow>
                 if list_ex (\<lambda>f. fi_value_shape f = fi_value_shape info) unique_fields
                 then unique_fields else unique_fields @ [info]
             | None \<Rightarrow> unique_fields)) candidates []"

definition classify_unique_fields :: "shapes \<Rightarrow> field_info list \<Rightarrow> key_result" where
  "classify_unique_fields S unique_fields =
     (case unique_fields of
        [f] \<Rightarrow> Key_Unambiguous (fi_value_shape f)
      | [] \<Rightarrow> Key_Unknown
      | _ \<Rightarrow> Key_Ambiguous
               (map (\<lambda>f. (f, specificity_score (S (fi_value_shape f)))) unique_fields))"

definition see_key_internal ::
    "shapes \<Rightarrow> solver \<Rightarrow> field_key \<Rightarrow> (solver \<times> key_result) option" where
  "see_key_internal S sv key =
     (let sv = sv\<lparr>sv_seen_keys := bts_insert key (sv_seen_keys sv)\<rparr>;
          sc = sv_schema sv
      in case resolutions_with_key sc key of
           None \<Rightarrow> Some (sv, Key_Unknown)
         | Some with_key \<Rightarrow>
             if \<not> rs_intersects (sv_candidates sv) with_key then Some (sv, Key_Unknown)
             else
               (let candidates = rs_intersect_with (sv_candidates sv) with_key;
                    sv = sv\<lparr>sv_candidates := candidates\<rparr>
                in if rs_len candidates = 1 then
                     (case solved_handle sc candidates of
                        None \<Rightarrow> None
                      | Some h \<Rightarrow> Some (sv, Key_Solved h))
                   else
                     (case collect_unique_fields sc key candidates of
                        None \<Rightarrow> None
                      | Some unique_fields \<Rightarrow> Some (sv, classify_unique_fields S unique_fields))))"

definition see_key :: "shapes \<Rightarrow> solver \<Rightarrow> field_key \<Rightarrow> (solver \<times> key_result) option" where
  "see_key S sv key = see_key_internal S sv key"

definition see_attribute :: "shapes \<Rightarrow> solver \<Rightarrow> string \<Rightarrow> (solver \<times> key_result) option" where
  "see_attribute S sv name = see_key_internal S sv (key_attribute name)"

definition see_element :: "shapes \<Rightarrow> solver \<Rightarrow> string \<Rightarrow> (solver \<times> key_result) option" where
  "see_element S sv name = see_key_internal S sv (key_element name)"

definition see_text :: "shapes \<Rightarrow> solver \<Rightarrow> (solver \<times> key_result) option" where
  "see_text S sv = see_key_internal S sv key_text"

section \<open>Reporting what a value satisfies\<close>

definition satisfy_result_of :: "schema \<Rightarrow> rset \<Rightarrow> satisfy_result option" where
  "satisfy_result_of sc candidates =
     (if rs_len candidates = 0 then Some Sat_NoMatch
      else if rs_len candidates = 1 then map_option Sat_Solved (solved_handle sc candidates)
      else Some Sat_Continue)"

definition satisfy_with ::
    "(resolution \<Rightarrow> bool) \<Rightarrow> solver \<Rightarrow> sref list \<Rightarrow> (solver \<times> satisfy_result) option" where
  "satisfy_with test sv satisfied_shapes =
     (if satisfied_shapes = []
      then Some (sv\<lparr>sv_candidates := rs_empty (num_resolutions sv)\<rparr>, Sat_NoMatch)
      else case retain_candidates (sv_schema sv) test (sv_candidates sv) of
             None \<Rightarrow> None
           | Some new_candidates \<Rightarrow>
               map_option (\<lambda>res. (sv\<lparr>sv_candidates := new_candidates\<rparr>, res))
                 (satisfy_result_of (sv_schema sv) new_candidates))"

definition satisfy_shapes :: "solver \<Rightarrow> sref list \<Rightarrow> (solver \<times> satisfy_result) option" where
  "satisfy_shapes sv satisfied_shapes =
     satisfy_with (\<lambda>config. list_ex (\<lambda>field. list_ex (\<lambda>s. s = fi_value_shape field) satisfied_shapes)
         (btm_values (rn_fields config))) sv satisfied_shapes"

definition satisfy :: "solver \<Rightarrow> field_info list \<Rightarrow> (solver \<times> satisfy_result) option" where
  "satisfy sv satisfied_fields = satisfy_shapes sv (map fi_value_shape satisfied_fields)"

definition get_field_shape :: "shapes \<Rightarrow> sref \<Rightarrow> string \<Rightarrow> sref option" where
  "get_field_shape S r field_name =
     (case sh_ty (S r) of
        Ty_User (User_Struct st) \<Rightarrow>
          map_option f_shape (List.find (\<lambda>f. effective_name f = field_name) (st_fields st))
      | _ \<Rightarrow> None)"

definition get_shape_at_path :: "shapes \<Rightarrow> resolution \<Rightarrow> string list \<Rightarrow> sref option" where
  "get_shape_at_path S config path =
     (case path of
        [] \<Rightarrow> None
      | top_name # rest \<Rightarrow>
          (case field_by_name config top_name of
             None \<Rightarrow> None
           | Some top_field \<Rightarrow>
               ofold (\<lambda>key current_shape. get_field_shape S current_shape key) rest
                 (fi_value_shape top_field)))"

definition get_shapes_at_path :: "shapes \<Rightarrow> solver \<Rightarrow> string list \<Rightarrow> sref list option" where
  "get_shapes_at_path S sv path =
     for_candidates (sv_schema sv) (\<lambda>idx config shapes.
       Some (case get_shape_at_path S config path of
               Some shape \<Rightarrow>
                 if \<not> list_ex (\<lambda>s. s = shape) shapes then shapes @ [shape] else shapes
             | None \<Rightarrow> shapes)) (sv_candidates sv) []"

definition satisfy_at_path ::
    "shapes \<Rightarrow> solver \<Rightarrow> string list \<Rightarrow> sref list \<Rightarrow> (solver \<times> satisfy_result) option" where
  "satisfy_at_path S sv path satisfied_shapes =
     satisfy_with (\<lambda>config. case get_shape_at_path S config path of
         Some shape \<Rightarrow> list_ex (\<lambda>s. s = shape) satisfied_shapes
       | None \<Rightarrow> False) sv satisfied_shapes"

section \<open>Queries and hints\<close>

definition solver_candidates :: "solver \<Rightarrow> handle list option" where
  "solver_candidates sv =
     ofold (\<lambda>idx hs. map_option (\<lambda>h. hs @ [h]) (handle_from_schema (sv_schema sv) idx))
       (rs_iter (sv_candidates sv)) []"

definition was_field_seen :: "solver \<Rightarrow> string \<Rightarrow> bool" where
  "was_field_seen sv field_name \<longleftrightarrow> list_ex (\<lambda>k. key_name k = field_name) (sv_seen_keys sv)"

definition hint_variant :: "solver \<Rightarrow> string \<Rightarrow> (solver \<times> bool) option" where
  "hint_variant sv variant_name =
     (case retain_candidates (sv_schema sv)
             (\<lambda>config. list_ex (\<lambda>vs. vs_variant_name vs = variant_name) (rn_variant_selections config))
             (sv_candidates sv) of
        None \<Rightarrow> None
      | Some matching \<Rightarrow>
          if rs_is_empty matching then Some (sv, False)
          else Some (sv\<lparr>sv_candidates := matching\<rparr>, True))"

definition is_tag_field :: "shapes \<Rightarrow> string \<Rightarrow> field_info \<Rightarrow> bool" where
  "is_tag_field S tag_field_name field \<longleftrightarrow>
     fi_name field = tag_field_name
     \<and> sh_tag (S (fi_value_shape field)) = Some tag_field_name
     \<and> sh_content (S (fi_value_shape field)) = None"

definition hint_variant_for_tag :: "shapes \<Rightarrow> solver \<Rightarrow> string \<Rightarrow> string \<Rightarrow> (solver \<times> bool) option" where
  "hint_variant_for_tag S sv tag_field_name variant_name =
     (case for_candidates (sv_schema sv) (\<lambda>idx config found.
             Some (found \<or> list_ex (is_tag_field S tag_field_name) (btm_values (rn_fields config))))
             (sv_candidates sv) False of
        None \<Rightarrow> None
      | Some tag_found \<Rightarrow> if \<not> tag_found then Some (sv, False) else hint_variant sv variant_name)"

definition mark_seen :: "solver \<Rightarrow> field_key \<Rightarrow> solver" where
  "mark_seen sv key = sv\<lparr>sv_seen_keys := bts_insert key (sv_seen_keys sv)\<rparr>"

section \<open>Probing nested keys\<close>

definition collect_unique_shapes ::
    "shapes \<Rightarrow> schema \<Rightarrow> string list \<Rightarrow> rset \<Rightarrow> (sref \<times> nat) list option" where
  "collect_unique_shapes S sc full_path candidates =
     for_candidates sc (\<lambda>idx config unique_shapes.
       Some (case get_shape_at_path S config full_path of
               Some shape \<Rightarrow>
                 if \<not> list_ex (\<lambda>(s, _). s = shape) unique_shapes
                 then unique_shapes @ [(shape, idx)] else unique_shapes
             | None \<Rightarrow> unique_shapes)) candidates []"

definition probe_fields ::
    "shapes \<Rightarrow> schema \<Rightarrow> string list \<Rightarrow> string \<Rightarrow> (sref \<times> nat) list
      \<Rightarrow> (field_info \<times> u64) list option" where
  "probe_fields S sc path key unique_shapes =
     ofold (\<lambda>(shape, idx) fields. case nth_opt (sc_resolutions sc) idx of
        None \<Rightarrow> None
      | Some config \<Rightarrow>
          Some (case (case path of [] \<Rightarrow> field_by_name config key
                       | top_name # _ \<Rightarrow> field_by_name config top_name) of
                  Some field \<Rightarrow> fields @ [(field, specificity_score (S shape))]
                | None \<Rightarrow> fields)) unique_shapes []"

definition probe_key ::
    "shapes \<Rightarrow> solver \<Rightarrow> string list \<Rightarrow> string \<Rightarrow> (solver \<times> key_result) option" where
  "probe_key S sv path key =
     (let full_path = path @ [key]; sc = sv_schema sv
      in case retain_candidates sc (\<lambda>config. has_key_path config full_path) (sv_candidates sv) of
           None \<Rightarrow> None
         | Some candidates \<Rightarrow>
             (let sv = sv\<lparr>sv_candidates := candidates\<rparr>
              in if rs_is_empty candidates then Some (sv, Key_Unknown)
                 else if rs_len candidates = 1 then
                   (case solved_handle sc candidates of
                      None \<Rightarrow> None
                    | Some h \<Rightarrow> Some (sv, Key_Solved h))
                 else
                   (case collect_unique_shapes S sc full_path candidates of
                      None \<Rightarrow> None
                    | Some unique_shapes \<Rightarrow>
                        (case unique_shapes of
                           [] \<Rightarrow> Some (sv, Key_Unknown)
                         | [(shape, _)] \<Rightarrow> Some (sv, Key_Unambiguous shape)
                         | _ \<Rightarrow> map_option (\<lambda>fields. (sv, Key_Ambiguous fields))
                                  (probe_fields S sc path key unique_shapes)))))"

section \<open>Suggestions and failures\<close>

record 'f metric =
  me_similarity :: "string \<Rightarrow> string \<Rightarrow> 'f"
  me_threshold :: 'f
  me_zero :: 'f
  me_percent :: "'f \<Rightarrow> nat"

record missing_field_info =
  mf_name :: string
  mf_path :: string
  mf_defined_in :: string

record candidate_failure =
  cf_variant_name :: string
  cf_missing_fields :: "missing_field_info list"
  cf_unknown_fields :: "string list"
  cf_suggestion_matches :: nat

record 'f field_suggestion =
  fs_unknown :: string
  fs_suggestion :: string
  fs_similarity :: 'f

datatype 'f solver_error =
  No_Match (ne_input_fields: "string list") (ne_missing_required: "string list")
    (ne_missing_required_detailed: "missing_field_info list") (ne_unknown_fields: "string list")
    (ne_closest_resolution: "string option") (ne_candidate_failures: "candidate_failure list")
    (ne_suggestions: "'f field_suggestion list")
| Ambiguous_Match "string list" "string list"

definition missing_from_field_info :: "shapes \<Rightarrow> field_info \<Rightarrow> missing_field_info" where
  "missing_from_field_info S info = \<lparr>mf_name = fi_name info, mf_path = path_display (fi_path info),
     mf_defined_in = sh_type_identifier (S (fi_value_shape info))\<rparr>"

definition find_disambiguating_fields :: "resolution list \<Rightarrow> string list" where
  "find_disambiguating_fields configs =
     (if length configs < 2 then []
      else (let all_fields = fold (\<lambda>config s. fold (\<lambda>info. bts_insert (fi_name info))
                  (btm_values (rn_fields config)) s) configs []
            in filter (\<lambda>field.
                 let count = length (filter (\<lambda>c. field_by_name c field \<noteq> None) configs)
                 in count > 0 \<and> count < length configs) all_fields))"

definition best_match :: "('f::linorder) metric \<Rightarrow> string \<Rightarrow> string list \<Rightarrow> (string \<times> 'f) option" where
  "best_match m unknown names =
     fold (\<lambda>name best. let similarity = me_similarity m unknown name
        in if me_threshold m \<le> similarity
             \<and> (case best of None \<Rightarrow> True | Some (_, best_sim) \<Rightarrow> best_sim < similarity)
           then Some (name, similarity) else best) names None"

text \<open>The loop of the closeness score starts from a similarity of zero, not from nothing.\<close>

definition closest_field ::
    "('f::linorder) metric \<Rightarrow> string \<Rightarrow> string list \<Rightarrow> string option \<times> 'f" where
  "closest_field m unknown names =
     fold (\<lambda>name (best, best_sim). let similarity = me_similarity m unknown name
        in if me_threshold m \<le> similarity \<and> best_sim < similarity
           then (Some name, similarity) else (best, best_sim)) names (None, me_zero m)"

definition compute_closeness_score ::
    "('f::linorder) metric \<Rightarrow> string list \<Rightarrow> missing_field_info list \<Rightarrow> resolution \<Rightarrow> nat" where
  "compute_closeness_score m unknown_fields missing_fields config =
     (let names = map fi_name (btm_values (rn_fields config));
          (typo_score, fields_that_would_match) =
            fold (\<lambda>unknown (typo, matched).
              case closest_field m unknown names of
                (Some _, best_similarity) \<Rightarrow> (typo + me_percent m best_similarity, matched + 1)
              | (None, _) \<Rightarrow> (typo, matched)) unknown_fields (0, 0);
          required_count = length (rn_required_field_names config);
          currently_missing = length missing_fields;
          would_be_missing = currently_missing - fields_that_would_match;
          coverage_score = (if required_count = 0 then 100
            else (required_count - would_be_missing) * 100 div required_count);
          truly_unknown = length unknown_fields - fields_that_would_match;
          unknown_penalty = truly_unknown * 10
      in typo_score + (coverage_score - unknown_penalty))"

definition seen_name :: "field_key btset \<Rightarrow> string \<Rightarrow> bool" where
  "seen_name seen_keys f \<longleftrightarrow> list_ex (\<lambda>k. key_name k = f) seen_keys"

definition build_candidate_failure ::
    "('f::linorder) metric \<Rightarrow> shapes \<Rightarrow> resolution \<Rightarrow> field_key btset \<Rightarrow> candidate_failure" where
  "build_candidate_failure m S config seen_keys =
     (let missing_fields = map (missing_from_field_info S)
            (List.map_filter (field_by_name config)
              (filter (\<lambda>f. \<not> seen_name seen_keys f) (rn_required_field_names config)));
          unknown_fields = map key_name
            (filter (\<lambda>k. field_by_key config k = None) seen_keys)
      in \<lparr>cf_variant_name = describe config, cf_missing_fields = missing_fields,
          cf_unknown_fields = unknown_fields,
          cf_suggestion_matches = compute_closeness_score m unknown_fields missing_fields config\<rparr>)"

definition sort_candidates_by_closeness :: "candidate_failure list \<Rightarrow> candidate_failure list" where
  "sort_candidates_by_closeness failures = sort_key (\<lambda>f. - int (cf_suggestion_matches f)) failures"

definition compute_suggestions ::
    "('f::linorder) metric \<Rightarrow> string list \<Rightarrow> string btset \<Rightarrow> 'f field_suggestion list" where
  "compute_suggestions m unknown_fields all_known_fields =
     List.map_filter (\<lambda>unknown. map_option (\<lambda>(suggestion, similarity).
         \<lparr>fs_unknown = unknown, fs_suggestion = suggestion, fs_similarity = similarity\<rparr>)
       (best_match m unknown all_known_fields)) unknown_fields"

section \<open>Finishing\<close>

definition all_known_fields :: "schema \<Rightarrow> string btset" where
  "all_known_fields sc =
     bts_collect (concat (map (\<lambda>r. map fi_name (btm_values (rn_fields r))) (sc_resolutions sc)))"

definition is_viable :: "field_key btset \<Rightarrow> resolution \<Rightarrow> bool" where
  "is_viable seen_keys config \<longleftrightarrow> list_all (seen_name seen_keys) (rn_required_field_names config)"

definition candidate_configs :: "schema \<Rightarrow> rset \<Rightarrow> (nat \<times> resolution) list option" where
  "candidate_configs sc candidates =
     for_candidates sc (\<lambda>idx config cs. Some (cs @ [(idx, config)])) candidates []"

text \<open>The error when candidates remain but none has all its required fields.\<close>

definition no_viable_error ::
    "('f::linorder) metric \<Rightarrow> shapes \<Rightarrow> schema \<Rightarrow> field_key btset \<Rightarrow> string list
      \<Rightarrow> 'f field_suggestion list \<Rightarrow> (nat \<times> resolution) list \<Rightarrow> 'f solver_error" where
  "no_viable_error m S sc seen_keys unknown_fields suggestions configs =
     (let failures = sort_candidates_by_closeness
            (map (\<lambda>(idx, config). build_candidate_failure m S config seen_keys) configs);
          closest_config = (case failures of [] \<Rightarrow> None
            | f # _ \<Rightarrow> List.find (\<lambda>r. describe r = cf_variant_name f) (sc_resolutions sc));
          (missing, missing_detailed, closest) =
            (case closest_config of
               Some config \<Rightarrow>
                 (let missing = filter (\<lambda>f. \<not> seen_name seen_keys f) (rn_required_field_names config)
                  in (missing,
                      map (missing_from_field_info S)
                        (List.map_filter (field_by_name config) missing),
                      Some (describe config)))
             | None \<Rightarrow> ([], [], None))
      in No_Match (map key_display seen_keys) missing missing_detailed unknown_fields closest
           failures suggestions)"

definition finish ::
    "('f::linorder) metric \<Rightarrow> shapes \<Rightarrow> solver \<Rightarrow> ('f solver_error, handle) outcome option" where
  "finish m S sv =
     (let sc = sv_schema sv; seen_keys = sv_seen_keys sv;
          known = all_known_fields sc;
          unknown_fields = map key_name (filter (\<lambda>k. key_name k \<notin> set known) seen_keys);
          suggestions = compute_suggestions m unknown_fields known
      in if rs_is_empty (sv_candidates sv) then
           Some (Err (No_Match (map key_name seen_keys) [] [] unknown_fields None
             (sort_candidates_by_closeness
                (map (\<lambda>config. build_candidate_failure m S config seen_keys) (sc_resolutions sc)))
             suggestions))
         else
           (case candidate_configs sc (sv_candidates sv) of
              None \<Rightarrow> None
            | Some configs \<Rightarrow>
                (case filter (\<lambda>(idx, config). is_viable seen_keys config) configs of
                   [] \<Rightarrow> Some (Err (no_viable_error m S sc seen_keys unknown_fields suggestions configs))
                 | [(idx, _)] \<Rightarrow> map_option Ok (handle_from_schema sc idx)
                 | viable \<Rightarrow> Some (Err (Ambiguous_Match (map (\<lambda>(_, c). describe c) viable)
                          (find_disambiguating_fields (map snd viable)))))))"

section \<open>The probing solver\<close>

datatype probe_result = Probe_KeepGoing | Probe_Solved resolution | Probe_NoMatch

record probing_solver =
  ps_candidates :: "resolution list"

definition probing_new :: "schema \<Rightarrow> probing_solver" where
  "probing_new sc = \<lparr>ps_candidates = sc_resolutions sc\<rparr>"

definition probing_from_resolutions :: "resolution list \<Rightarrow> probing_solver" where
  "probing_from_resolutions configs = \<lparr>ps_candidates = configs\<rparr>"

definition probing_finish :: "probing_solver \<Rightarrow> probe_result" where
  "probing_finish ps =
     (case ps_candidates ps of
        [] \<Rightarrow> Probe_NoMatch
      | [c] \<Rightarrow> Probe_Solved c
      | _ \<Rightarrow> Probe_KeepGoing)"

definition probing_probe_key ::
    "probing_solver \<Rightarrow> string list \<Rightarrow> string \<Rightarrow> probing_solver \<times> probe_result" where
  "probing_probe_key ps path key =
     (let ps = ps\<lparr>ps_candidates := filter (\<lambda>c. has_key_path c (path @ [key])) (ps_candidates ps)\<rparr>
      in (ps, case ps_candidates ps of
                [] \<Rightarrow> Probe_NoMatch
              | [c] \<Rightarrow> Probe_Solved c
              | _ \<Rightarrow> Probe_KeepGoing))"

end
