(* ===== verification/Solver_Facts.thy ===== *)
theory Solver_Facts
  imports Solver Schema_Facts
begin

text \<open>
  What the solver guarantees. Every step keeps \<open>solver_wf\<close> and none panics; a step's effect
  on the candidates is stated on the abstract state, the set of the indices that are still
  possible. The locale \<open>filtering\<close> is the contract of the probing steps, which keep the
  candidates that pass a test; it is interpreted on both solvers.
\<close>

section \<open>The invariant\<close>

definition solver_wf :: "solver \<Rightarrow> bool" where
  "solver_wf sv \<longleftrightarrow> schema_wf (sv_schema sv) \<and> rs_inv (num_resolutions sv) (sv_candidates sv)
     \<and> bts_wf (sv_seen_keys sv)"

definition cand_set :: "solver \<Rightarrow> nat set" where
  "cand_set sv = rs_elems (sv_candidates sv)"

definition config_at :: "solver \<Rightarrow> nat \<Rightarrow> resolution" where
  "config_at sv i = sc_resolutions (sv_schema sv) ! i"

lemma cand_lt: "solver_wf sv \<Longrightarrow> i \<in> cand_set sv \<Longrightarrow> i < num_resolutions sv"
  by (auto simp: solver_wf_def cand_set_def dest: rs_inv_bound)

lemma solver_wf_new: "schema_wf sc \<Longrightarrow> solver_wf (solver_new sc)"
  by (simp add: solver_wf_def solver_new_def num_resolutions_def rs_inv_full)

lemma cand_set_new: "cand_set (solver_new sc) = {..<length (sc_resolutions sc)}"
  by (simp add: cand_set_def solver_new_def)

lemma solver_new_simps [simp]:
  "sv_schema (solver_new sc) = sc" "sv_seen_keys (solver_new sc) = []"
  "config_at (solver_new sc) i = sc_resolutions sc ! i"
  "num_resolutions (solver_new sc) = length (sc_resolutions sc)"
  by (simp_all add: solver_new_def config_at_def num_resolutions_def)

lemma solver_wf_mark_seen: "solver_wf sv \<Longrightarrow> solver_wf (mark_seen sv k)"
  by (simp add: solver_wf_def mark_seen_def num_resolutions_def)

section \<open>Loops over the candidates\<close>

lemma ofold_cong_set:
  "(\<And>x s. x \<in> set xs \<Longrightarrow> f x s = g x s) \<Longrightarrow> ofold f xs s = ofold g xs s"
  by (induction xs arbitrary: s) (auto split: option.splits)

lemma ofold_total: "ofold (\<lambda>x s. Some (g x s)) xs s = Some (fold g xs s)"
  by (induction xs arbitrary: s) auto

lemma for_candidates_eq:
  assumes "rs_inv (length (sc_resolutions sc)) c"
  shows "for_candidates sc body c s
    = ofold (\<lambda>idx. body idx (sc_resolutions sc ! idx)) (rs_iter c) s"
  unfolding for_candidates_def
  by (rule ofold_cong_set) (use rs_inv_bound [OF assms] in simp)

lemma for_candidates_total:
  assumes "rs_inv (length (sc_resolutions sc)) c"
  shows "for_candidates sc (\<lambda>idx config s. Some (g idx config s)) c s
    = Some (fold (\<lambda>idx. g idx (sc_resolutions sc ! idx)) (rs_iter c) s)"
  using for_candidates_eq [OF assms, of "\<lambda>idx config s. Some (g idx config s)" s] by (simp add: ofold_total)

lemma retain_candidates_ok:
  assumes "rs_inv (length (sc_resolutions sc)) c"
  shows "\<exists>c'. retain_candidates sc test c = Some c' \<and> rs_inv (length (sc_resolutions sc)) c'
    \<and> rs_elems c' = {i \<in> rs_elems c. test (sc_resolutions sc ! i)}"
  using rs.collect_if [OF rs_inv_empty, of "rs_iter c" "\<lambda>i. test (sc_resolutions sc ! i)"]
    rs_inv_bound [OF assms]
  by (simp add: retain_candidates_def for_candidates_eq [OF assms])

lemma solved_handle_ok:
  assumes "rs_inv (length (sc_resolutions sc)) c" and "rs_elems c = {i}"
  shows "solved_handle sc c = Some \<lparr>h_index = i, h_resolution = sc_resolutions sc ! i\<rparr>"
proof -
  have "rs_first c = Some i" using assms(2) rs_first_Min [of c] by simp
  moreover have "i < length (sc_resolutions sc)" using rs_inv_bound [OF assms(1)] assms(2) by simp
  ultimately show ?thesis by (simp add: solved_handle_def handle_from_schema_def)
qed

lemma rs_len_1: "rs_inv n c \<Longrightarrow> rs_len c = 1 \<longleftrightarrow> (\<exists>i. rs_elems c = {i})"
  by (auto simp: rs_inv_count card_1_singleton_iff)

lemma rs_len_0: "rs_inv n c \<Longrightarrow> rs_len c = 0 \<longleftrightarrow> rs_elems c = {}"
  by (simp add: rs_inv_count)

text \<open>Collecting values without repeating a key.\<close>

definition push_new :: "('a \<Rightarrow> 'k) \<Rightarrow> 'a option \<Rightarrow> 'a list \<Rightarrow> 'a list" where
  "push_new key v acc = (case v of
     Some x \<Rightarrow> if list_ex (\<lambda>y. key y = key x) acc then acc else acc @ [x] | None \<Rightarrow> acc)"

lemma push_new_fold:
  "distinct (map key acc) \<Longrightarrow>
     distinct (map key (fold (\<lambda>i. push_new key (g i)) js acc))
     \<and> key ` set (fold (\<lambda>i. push_new key (g i)) js acc)
         = key ` set acc \<union> {key x | i x. i \<in> set js \<and> g i = Some x}
     \<and> set (fold (\<lambda>i. push_new key (g i)) js acc)
         \<subseteq> set acc \<union> {x. \<exists>i \<in> set js. g i = Some x}"
proof (induction js arbitrary: acc)
  case Nil
  then show ?case by simp
next
  case (Cons i js)
  let ?acc = "push_new key (g i) acc"
  have d: "distinct (map key ?acc)"
    using Cons.prems by (auto simp: push_new_def list_ex_iff split: option.splits)
  have k: "key ` set ?acc = key ` set acc \<union> {key x | x. g i = Some x}"
    by (auto simp: push_new_def list_ex_iff intro: rev_image_eqI split: option.splits)
  have s: "set ?acc \<subseteq> set acc \<union> {x. g i = Some x}"
    by (auto simp: push_new_def split: option.splits)
  from Cons.IH [OF d] k s show ?case by auto
qed

section \<open>Reporting a key\<close>

definition key_holders :: "schema \<Rightarrow> field_key \<Rightarrow> nat set" where
  "key_holders sc k = (case resolutions_with_key sc k of None \<Rightarrow> {} | Some s \<Rightarrow> rs_elems s)"

definition narrow :: "nat set \<Rightarrow> nat set \<Rightarrow> nat set" where
  "narrow A H = (if A \<inter> H = {} then A else A \<inter> H)"

lemma index_inv_get:
  "index_inv n sem m \<Longrightarrow> (case btm_get m k of None \<Rightarrow> {} | Some s \<Rightarrow> rs_elems s) = sem k"
  by (auto simp: index_inv_def dest!: spec [of _ k] split: option.splits)

lemma index_inv_rs: "index_inv n sem m \<Longrightarrow> btm_get m k = Some s \<Longrightarrow> rs_inv n s"
  by (auto simp: index_inv_def dest!: spec [of _ k])

lemma index_inv_keys: "index_inv n sem m \<Longrightarrow> k \<in> fst ` set m \<longleftrightarrow> sem k \<noteq> {}"
proof -
  assume inv: "index_inv n sem m"
  then have "case btm_get m k of None \<Rightarrow> sem k = {}
      | Some s \<Rightarrow> rs_inv n s \<and> rs_elems s = sem k \<and> sem k \<noteq> {}"
    by (simp add: index_inv_def)
  moreover have "k \<in> fst ` set m \<longleftrightarrow> btm_get m k \<noteq> None" by (simp add: btm_get_None)
  ultimately show ?thesis by (auto split: option.splits)
qed

lemma key_holders_flat:
  "schema_wf sc \<Longrightarrow> sc_format sc = Format_Flat \<Longrightarrow>
     key_holders sc k = having fi_name (sc_resolutions sc) (key_name k)"
  by (cases k) (auto simp: key_holders_def resolutions_with_key_def schema_wf_def index_inv_get)

lemma key_holders_dom:
  assumes "schema_wf sc" and "sc_format sc = Format_Dom"
    and "k = Key_Flat name \<and> c = Cat_Element \<or> k = Key_Dom c name \<and> (name \<noteq> [] \<or> c \<notin> {Cat_Text, Cat_Tag, Cat_Elements})"
  shows "key_holders sc k
    = having (\<lambda>i. (fi_category i, fi_name i)) (sc_resolutions sc) (c, name)"
  using assms index_inv_get [of _ _ "sc_dom_field_to_resolutions sc" "(c, name)"]
  by (auto simp: key_holders_def resolutions_with_key_def schema_wf_def)

lemma resolutions_with_key_inv:
  assumes wf: "schema_wf sc" and some: "resolutions_with_key sc k = Some s"
  shows "rs_inv (length (sc_resolutions sc)) s"
proof (cases "sc_format sc")
  case Format_Flat
  with some have "\<exists>name. btm_get (sc_field_to_resolutions sc) name = Some s"
    by (cases k) (auto simp: resolutions_with_key_def)
  then show ?thesis using wf by (auto simp: schema_wf_def intro: index_inv_rs)
next
  case Format_Dom
  let ?m = "sc_dom_field_to_resolutions sc"
  from Format_Dom wf have idx: "index_inv (length (sc_resolutions sc))
      (having (\<lambda>i. (fi_category i, fi_name i)) (sc_resolutions sc)) ?m"
    by (simp add: schema_wf_def)
  from some Format_Dom have "(\<exists>key. btm_get ?m key = Some s) \<or>
      (\<exists>c e. List.find (\<lambda>((a, _), _). a = c) ?m = Some e \<and> s = snd e)"
    by (cases k) (auto simp: resolutions_with_key_def split: if_splits)
  then obtain key where "btm_get ?m key = Some s"
  proof
    assume "\<exists>c e. List.find (\<lambda>((a, _), _). a = c) ?m = Some e \<and> s = snd e"
    then obtain key where "(key, s) \<in> set ?m"
      by (metis find_eq_Some_in_set surjective_pairing)
    then have "btm_get ?m key = Some s" using idx by (simp add: index_inv_def btm_in_set_get)
    then show ?thesis by (rule that)
  qed (blast intro: that)
  then show ?thesis using index_inv_rs [OF idx] by blast
qed

text \<open>The values the candidates expect under a key.\<close>

definition key_shapes :: "solver \<Rightarrow> nat set \<Rightarrow> field_key \<Rightarrow> sref set" where
  "key_shapes sv A k =
     {fi_value_shape i | j i. j \<in> A \<and> btm_get (rn_fields (config_at sv j)) k = Some i}"

lemma collect_unique_fields_ok:
  assumes "rs_inv (length (sc_resolutions (sv_schema sv))) c"
  shows "\<exists>fs. collect_unique_fields (sv_schema sv) k c = Some fs
    \<and> distinct (map fi_value_shape fs) \<and> fi_value_shape ` set fs = key_shapes sv (rs_elems c) k
    \<and> (\<forall>f \<in> set fs. \<exists>j \<in> rs_elems c. btm_get (rn_fields (config_at sv j)) k = Some f)"
proof -
  let ?g = "\<lambda>j. btm_get (rn_fields (config_at sv j)) k"
  let ?fs = "fold (\<lambda>j. push_new fi_value_shape (?g j)) (rs_iter c) []"
  have "collect_unique_fields (sv_schema sv) k c = Some ?fs"
    unfolding collect_unique_fields_def for_candidates_total [OF assms]
    by (simp add: push_new_def [abs_def] field_by_key_get config_at_def)
  with push_new_fold [of fi_value_shape "[]" ?g "rs_iter c"] show ?thesis
    by (auto simp: key_shapes_def)
qed

definition key_answer :: "shapes \<Rightarrow> solver \<Rightarrow> nat set \<Rightarrow> field_key \<Rightarrow> key_result \<Rightarrow> bool" where
  "key_answer S sv A k res \<longleftrightarrow>
     (if A = {} then res = Key_Unknown
      else if \<exists>i. A = {i}
      then \<exists>i. A = {i} \<and> res = Key_Solved \<lparr>h_index = i, h_resolution = config_at sv i\<rparr>
      else (case res of
          Key_Unknown \<Rightarrow> key_shapes sv A k = {}
        | Key_Unambiguous s \<Rightarrow> key_shapes sv A k = {s}
        | Key_Ambiguous fs \<Rightarrow> 2 \<le> length fs \<and> distinct (map (fi_value_shape \<circ> fst) fs)
            \<and> (fi_value_shape \<circ> fst) ` set fs = key_shapes sv A k
            \<and> (\<forall>(f, score) \<in> set fs. score = specificity_score (S (fi_value_shape f)))
        | Key_Solved h \<Rightarrow> False))"

lemma classify_answer:
  assumes "distinct (map fi_value_shape fs)" and "fi_value_shape ` set fs = key_shapes sv A k"
    and "A \<noteq> {}" and "\<nexists>i. A = {i}"
  shows "key_answer S sv A k (classify_unique_fields S fs)"
proof -
  consider "fs = []" | f where "fs = [f]" | f g gs where "fs = f # g # gs"
    by (metis list.exhaust)
  then show ?thesis
  proof cases
    case 3
    have "classify_unique_fields S fs
        = Key_Ambiguous (map (\<lambda>f. (f, specificity_score (S (fi_value_shape f)))) fs)"
      by (simp add: 3 classify_unique_fields_def)
    moreover have "map (fi_value_shape \<circ> fst) (map (\<lambda>f. (f, specificity_score (S (fi_value_shape f)))) fs)
        = map fi_value_shape fs" by simp
    moreover have "2 \<le> length fs" by (simp add: 3)
    ultimately show ?thesis using assms
      by (simp add: key_answer_def image_image o_def)
  qed (use assms in \<open>simp_all add: key_answer_def classify_unique_fields_def\<close>)
qed

lemma see_key_run:
  assumes wf: "solver_wf sv"
  shows "\<exists>sv' res. see_key S sv k = Some (sv', res) \<and> solver_wf sv'
    \<and> sv_schema sv' = sv_schema sv \<and> sv_seen_keys sv' = bts_insert k (sv_seen_keys sv)
    \<and> cand_set sv' = narrow (cand_set sv) (key_holders (sv_schema sv) k)
    \<and> key_answer S sv (cand_set sv \<inter> key_holders (sv_schema sv) k) k res"
proof -
  let ?sc = "sv_schema sv"
  let ?sv = "sv\<lparr>sv_seen_keys := bts_insert k (sv_seen_keys sv)\<rparr>"
  let ?n = "length (sc_resolutions ?sc)"
  have sc: "schema_wf ?sc" and c: "rs_inv ?n (sv_candidates sv)" and seen: "bts_wf (sv_seen_keys sv)"
    using wf by (simp_all add: solver_wf_def num_resolutions_def)
  have wf1: "solver_wf (?sv\<lparr>sv_candidates := c\<rparr>)" if "rs_inv ?n c" for c
    using that sc seen by (simp add: solver_wf_def num_resolutions_def)
  show ?thesis
  proof (cases "resolutions_with_key ?sc k")
    case None
    then have "see_key S sv k = Some (?sv, Key_Unknown)" by (simp add: see_key_def see_key_internal_def)
    with wf1 [OF c] None show ?thesis by (simp add: key_holders_def narrow_def cand_set_def key_answer_def)
  next
    case (Some s)
    have s: "rs_inv ?n s" by (rule resolutions_with_key_inv [OF sc Some])
    have H: "key_holders ?sc k = rs_elems s" by (simp add: key_holders_def Some)
    show ?thesis
    proof (cases "rs_intersects (sv_candidates sv) s")
      case False
      then have "see_key S sv k = Some (?sv, Key_Unknown)"
        by (simp add: see_key_def see_key_internal_def Some)
      with wf1 [OF c] False show ?thesis
        by (simp add: H narrow_def cand_set_def key_answer_def rs_intersects_iff [OF c s])
    next
      case True
      let ?c = "rs_intersect_with (sv_candidates sv) s"
      let ?A = "cand_set sv \<inter> key_holders ?sc k"
      have ne: "?A \<noteq> {}" using True by (simp add: H cand_set_def rs_intersects_iff [OF c s])
      have ci: "rs_inv ?n ?c" and ce: "rs_elems ?c = ?A"
        using rs_intersect_elems [OF c s] by (simp_all add: H cand_set_def)
      have state: "solver_wf (?sv\<lparr>sv_candidates := ?c\<rparr>)"
        "cand_set (?sv\<lparr>sv_candidates := ?c\<rparr>) = narrow (cand_set sv) (key_holders ?sc k)"
        using wf1 [OF ci] ne ce by (simp_all add: cand_set_def narrow_def)
      show ?thesis
      proof (cases "rs_len ?c = 1")
        case len: True
        then obtain i where i: "rs_elems ?c = {i}" using rs_len_1 [OF ci] by blast
        have "see_key S sv k = Some (?sv\<lparr>sv_candidates := ?c\<rparr>,
            Key_Solved \<lparr>h_index = i, h_resolution = sc_resolutions ?sc ! i\<rparr>)"
          using True len solved_handle_ok [OF ci i]
          by (simp add: see_key_def see_key_internal_def Some Let_def)
        moreover have "?A = {i}" using i ce by simp
        ultimately show ?thesis using state by (simp add: key_answer_def config_at_def)
      next
        case len: False
        then have not1: "\<nexists>i. ?A = {i}" using rs_len_1 [OF ci] ce by simp
        obtain fs where fs: "collect_unique_fields ?sc k ?c = Some fs"
          "distinct (map fi_value_shape fs)" "fi_value_shape ` set fs = key_shapes sv (rs_elems ?c) k"
          using collect_unique_fields_ok [OF ci] by blast
        have "see_key S sv k = Some (?sv\<lparr>sv_candidates := ?c\<rparr>, classify_unique_fields S fs)"
          using True len fs(1) by (simp add: see_key_def see_key_internal_def Some Let_def)
        with state classify_answer [OF fs(2) fs(3) [unfolded ce] ne not1] show ?thesis by simp
      qed
    qed
  qed
qed

section \<open>Runs of keys\<close>

definition see_keys :: "shapes \<Rightarrow> field_key list \<Rightarrow> solver \<Rightarrow> solver option" where
  "see_keys S ks sv = ofold (\<lambda>k sv. map_option fst (see_key S sv k)) ks sv"

lemma see_keys_run:
  assumes "solver_wf sv"
  shows "\<exists>sv'. see_keys S ks sv = Some sv' \<and> solver_wf sv' \<and> sv_schema sv' = sv_schema sv
    \<and> set (sv_seen_keys sv') = set (sv_seen_keys sv) \<union> set ks
    \<and> cand_set sv' = fold (\<lambda>k A. narrow A (key_holders (sv_schema sv) k)) ks (cand_set sv)"
  using assms
proof (induction ks arbitrary: sv)
  case Nil
  then show ?case by (simp add: see_keys_def)
next
  case (Cons k ks)
  obtain sv1 res where 1: "see_key S sv k = Some (sv1, res)" "solver_wf sv1"
    "sv_schema sv1 = sv_schema sv" "sv_seen_keys sv1 = bts_insert k (sv_seen_keys sv)"
    "cand_set sv1 = narrow (cand_set sv) (key_holders (sv_schema sv) k)"
    using see_key_run [OF Cons.prems, of S k] by blast
  from Cons.IH [OF 1(2)] 1 show ?case by (auto simp: see_keys_def)
qed

text \<open>The indices that hold every reported key that any resolution knows.\<close>

definition all_holders :: "schema \<Rightarrow> field_key set \<Rightarrow> nat set" where
  "all_holders sc K = {i. \<forall>k \<in> K. key_holders sc k \<noteq> {} \<longrightarrow> i \<in> key_holders sc k}"

lemma narrow_nonempty: "A \<noteq> {} \<Longrightarrow> narrow A H \<noteq> {}" and narrow_subset: "narrow A H \<subseteq> A"
  by (auto simp: narrow_def)

lemma fold_narrow_nonempty: "A \<noteq> {} \<Longrightarrow> fold (\<lambda>k A. narrow A (f k)) ks A \<noteq> {}"
  by (induction ks arbitrary: A) (auto simp: narrow_nonempty)

lemma fold_narrow_subset: "fold (\<lambda>k A. narrow A (f k)) ks A \<subseteq> A"
  by (induction ks arbitrary: A) (simp, metis fold_simps(2) narrow_subset order_trans)

lemma fold_narrow_all:
  assumes "A \<inter> all_holders sc (set ks) \<noteq> {}"
  shows "fold (\<lambda>k A. narrow A (key_holders sc k)) ks A = A \<inter> all_holders sc (set ks)"
  using assms
proof (induction ks arbitrary: A)
  case Nil
  then show ?case by (simp add: all_holders_def)
next
  case (Cons k ks)
  let ?H = "key_holders sc k"
  have split: "A \<inter> all_holders sc (set (k # ks)) = narrow A ?H \<inter> all_holders sc (set ks)"
  proof (cases "?H = {}")
    case True
    then show ?thesis by (simp add: narrow_def all_holders_def)
  next
    case False
    have "all_holders sc (set (k # ks)) = ?H \<inter> all_holders sc (set ks)"
      using False by (auto simp: all_holders_def)
    moreover have "A \<inter> ?H \<noteq> {}" using Cons.prems calculation by blast
    ultimately show ?thesis by (simp add: narrow_def Int_assoc)
  qed
  from Cons.IH [of "narrow A ?H"] Cons.prems show ?case unfolding split by simp
qed

section \<open>Values\<close>

definition satisfy_answer :: "solver \<Rightarrow> nat set \<Rightarrow> satisfy_result \<Rightarrow> bool" where
  "satisfy_answer sv A res \<longleftrightarrow>
     (if A = {} then res = Sat_NoMatch
      else if \<exists>i. A = {i}
      then \<exists>i. A = {i} \<and> res = Sat_Solved \<lparr>h_index = i, h_resolution = config_at sv i\<rparr>
      else res = Sat_Continue)"

lemma satisfy_with_run:
  assumes wf: "solver_wf sv" and none: "ss = [] \<Longrightarrow> (\<And>r. \<not> test r)"
  shows "\<exists>sv' res. satisfy_with test sv ss = Some (sv', res) \<and> solver_wf sv'
    \<and> sv_schema sv' = sv_schema sv \<and> sv_seen_keys sv' = sv_seen_keys sv
    \<and> cand_set sv' = {i \<in> cand_set sv. test (config_at sv i)}
    \<and> satisfy_answer sv (cand_set sv') res"
proof (cases "ss = []")
  case True
  with none wf show ?thesis
    by (auto simp: satisfy_with_def solver_wf_def num_resolutions_def cand_set_def satisfy_answer_def
        rs_inv_empty)
next
  case False
  let ?sc = "sv_schema sv"
  have c: "rs_inv (length (sc_resolutions ?sc)) (sv_candidates sv)"
    using wf by (simp add: solver_wf_def num_resolutions_def)
  obtain c' where c': "retain_candidates ?sc test (sv_candidates sv) = Some c'"
    "rs_inv (length (sc_resolutions ?sc)) c'"
    "rs_elems c' = {i \<in> cand_set sv. test (config_at sv i)}"
    using retain_candidates_ok [OF c, of test] by (auto simp: cand_set_def config_at_def)
  have "\<exists>res. satisfy_result_of ?sc c' = Some res \<and> satisfy_answer sv (rs_elems c') res"
    using rs_len_0 [OF c'(2)] rs_len_1 [OF c'(2)] solved_handle_ok [OF c'(2)]
    by (auto simp: satisfy_result_of_def satisfy_answer_def config_at_def)
  with False c' wf show ?thesis
    by (auto simp: satisfy_with_def solver_wf_def num_resolutions_def cand_set_def)
qed

lemma satisfy_shapes_run:
  assumes "solver_wf sv"
  shows "\<exists>sv' res. satisfy_shapes sv ss = Some (sv', res) \<and> solver_wf sv'
    \<and> sv_schema sv' = sv_schema sv \<and> sv_seen_keys sv' = sv_seen_keys sv
    \<and> cand_set sv' = {i \<in> cand_set sv. \<exists>f \<in> field_infos (config_at sv i). fi_value_shape f \<in> set ss}
    \<and> satisfy_answer sv (cand_set sv') res"
  using satisfy_with_run [OF assms, of ss "\<lambda>config. list_ex (\<lambda>field. list_ex (\<lambda>s. s = fi_value_shape field) ss)
      (btm_values (rn_fields config))"]
  by (auto simp: satisfy_shapes_def list_ex_iff field_infos_values)

lemma satisfy_at_path_run:
  assumes "solver_wf sv"
  shows "\<exists>sv' res. satisfy_at_path S sv p ss = Some (sv', res) \<and> solver_wf sv'
    \<and> sv_schema sv' = sv_schema sv \<and> sv_seen_keys sv' = sv_seen_keys sv
    \<and> cand_set sv' = {i \<in> cand_set sv. \<exists>s \<in> set ss. get_shape_at_path S (config_at sv i) p = Some s}
    \<and> satisfy_answer sv (cand_set sv') res"
proof -
  let ?t = "\<lambda>config. case get_shape_at_path S config p of
      Some shape \<Rightarrow> list_ex (\<lambda>s. s = shape) ss | None \<Rightarrow> False"
  have "?t r \<longleftrightarrow> (\<exists>s \<in> set ss. get_shape_at_path S r p = Some s)" for r
    by (auto simp: list_ex_iff split: option.splits)
  with satisfy_with_run [OF assms, of ss ?t] show ?thesis by (simp add: satisfy_at_path_def)
qed

section \<open>Hints\<close>

definition selects :: "string \<Rightarrow> resolution \<Rightarrow> bool" where
  "selects variant r \<longleftrightarrow> variant \<in> vs_variant_name ` set (rn_variant_selections r)"

lemma hint_variant_run:
  assumes wf: "solver_wf sv"
  shows "\<exists>sv' b. hint_variant sv v = Some (sv', b) \<and> solver_wf sv'
    \<and> sv_schema sv' = sv_schema sv \<and> sv_seen_keys sv' = sv_seen_keys sv
    \<and> (b \<longleftrightarrow> (\<exists>i \<in> cand_set sv. selects v (config_at sv i)))
    \<and> cand_set sv' = (if b then {i \<in> cand_set sv. selects v (config_at sv i)} else cand_set sv)"
proof -
  let ?sc = "sv_schema sv"
  have c: "rs_inv (length (sc_resolutions ?sc)) (sv_candidates sv)"
    using wf by (simp add: solver_wf_def num_resolutions_def)
  let ?t = "\<lambda>config. list_ex (\<lambda>vs. vs_variant_name vs = v) (rn_variant_selections config)"
  have t: "?t r \<longleftrightarrow> selects v r" for r by (auto simp: selects_def list_ex_iff)
  obtain c' where c': "retain_candidates ?sc ?t (sv_candidates sv) = Some c'"
    "rs_inv (length (sc_resolutions ?sc)) c'"
    "rs_elems c' = {i \<in> cand_set sv. selects v (config_at sv i)}"
    using retain_candidates_ok [OF c, of ?t] by (auto simp: cand_set_def config_at_def t)
  show ?thesis
  proof (cases "rs_is_empty c'")
    case True
    then have "\<not> (\<exists>i \<in> cand_set sv. selects v (config_at sv i))"
      using c' by (simp add: rs_is_empty_iff [OF c'(2)])
    with True c'(1) wf show ?thesis
      by (intro exI [of _ sv] exI [of _ False]) (simp add: hint_variant_def)
  next
    case False
    then have "\<exists>i \<in> cand_set sv. selects v (config_at sv i)"
      using c' by (auto simp: rs_is_empty_iff [OF c'(2)])
    with False c' wf show ?thesis
      by (intro exI [of _ "sv\<lparr>sv_candidates := c'\<rparr>"] exI [of _ True])
        (simp add: hint_variant_def solver_wf_def num_resolutions_def cand_set_def)
  qed
qed

lemma fold_or: "fold (\<lambda>x b. b \<or> P x) xs b \<longleftrightarrow> b \<or> (\<exists>x \<in> set xs. P x)"
  by (induction xs arbitrary: b) auto

lemma hint_for_tag_run:
  assumes wf: "solver_wf sv"
  shows "\<exists>sv' b. hint_variant_for_tag S sv t v = Some (sv', b) \<and> solver_wf sv'
    \<and> sv_schema sv' = sv_schema sv \<and> sv_seen_keys sv' = sv_seen_keys sv
    \<and> (b \<longleftrightarrow> (\<exists>i \<in> cand_set sv. \<exists>f \<in> field_infos (config_at sv i). is_tag_field S t f)
           \<and> (\<exists>i \<in> cand_set sv. selects v (config_at sv i)))
    \<and> cand_set sv' = (if b then {i \<in> cand_set sv. selects v (config_at sv i)} else cand_set sv)"
proof -
  let ?sc = "sv_schema sv"
  have c: "rs_inv (length (sc_resolutions ?sc)) (sv_candidates sv)"
    using wf by (simp add: solver_wf_def num_resolutions_def)
  let ?tag = "\<exists>i \<in> cand_set sv. \<exists>f \<in> field_infos (config_at sv i). is_tag_field S t f"
  have "for_candidates ?sc (\<lambda>idx config found.
      Some (found \<or> list_ex (is_tag_field S t) (btm_values (rn_fields config)))) (sv_candidates sv) False
    = Some ?tag"
    unfolding for_candidates_total [OF c] fold_or
    by (auto simp: cand_set_def config_at_def list_ex_iff field_infos_values)
  with hint_variant_run [OF wf, of v] wf show ?thesis
    by (auto simp: hint_variant_for_tag_def)
qed

section \<open>Probing\<close>

text \<open>The contract of the probing steps: a step keeps exactly the candidates that pass its
  test, so a run keeps those that pass all its tests, whatever the order of the steps.\<close>

locale filtering =
  fixes step :: "'k \<Rightarrow> 's \<Rightarrow> 's"
    and valid :: "'s \<Rightarrow> bool"
    and cands :: "'s \<Rightarrow> 'c set"
    and passes :: "'k \<Rightarrow> 'c \<Rightarrow> bool"
  assumes valid_step: "valid s \<Longrightarrow> valid (step k s)"
    and cands_step: "valid s \<Longrightarrow> cands (step k s) = {c \<in> cands s. passes k c}"
begin

lemma run: "valid s \<Longrightarrow> valid (fold step ks s)
    \<and> cands (fold step ks s) = {c \<in> cands s. \<forall>k \<in> set ks. passes k c}"
  by (induction ks arbitrary: s) (auto simp: valid_step cands_step)

lemma run_order: "valid s \<Longrightarrow> set ks = set ls \<Longrightarrow> cands (fold step ks s) = cands (fold step ls s)"
  by (simp add: run)

lemma run_mono: "valid s \<Longrightarrow> set ks \<subseteq> set ls \<Longrightarrow> cands (fold step ls s) \<subseteq> cands (fold step ks s)"
  by (auto simp: run)

lemma run_repeat: "valid s \<Longrightarrow> cands (fold step (ks @ ks) s) = cands (fold step ks s)"
  by (rule run_order) simp_all

end

definition probe_step :: "string list \<times> string \<Rightarrow> probing_solver \<Rightarrow> probing_solver" where
  "probe_step pk ps = fst (probing_probe_key ps (fst pk) (snd pk))"

definition on_path :: "string list \<times> string \<Rightarrow> resolution \<Rightarrow> bool" where
  "on_path pk r \<longleftrightarrow> fst pk @ [snd pk] \<in> set (rn_known_paths r)"

lemma probe_step_candidates: "ps_candidates (probe_step pk ps) = filter (on_path pk) (ps_candidates ps)"
proof -
  have "(\<lambda>c. has_key_path c (fst pk @ [snd pk])) = on_path pk"
    by (simp add: fun_eq_iff on_path_def has_key_path_iff)
  then show ?thesis by (simp add: probe_step_def probing_probe_key_def)
qed

interpretation probing: filtering probe_step "\<lambda>ps. True" "\<lambda>ps. set (ps_candidates ps)" on_path
  by unfold_locales (simp_all add: probe_step_candidates)

lemma probing_run: "ps_candidates (fold probe_step pks ps)
    = filter (\<lambda>r. \<forall>pk \<in> set pks. on_path pk r) (ps_candidates ps)"
  by (induction pks arbitrary: ps) (auto simp: probe_step_candidates intro: filter_cong)

lemma collect_unique_shapes_ok:
  assumes "rs_inv (length (sc_resolutions (sv_schema sv))) c"
  shows "\<exists>us. collect_unique_shapes S (sv_schema sv) p c = Some us
    \<and> distinct (map fst us)
    \<and> fst ` set us = {s. \<exists>j \<in> rs_elems c. get_shape_at_path S (config_at sv j) p = Some s}
    \<and> (\<forall>(s, j) \<in> set us. j \<in> rs_elems c)"
proof -
  let ?g = "\<lambda>j. map_option (\<lambda>s. (s, j)) (get_shape_at_path S (config_at sv j) p)"
  let ?us = "fold (\<lambda>j. push_new fst (?g j)) (rs_iter c) []"
  have body: "(case get_shape_at_path S r p of
        Some shape \<Rightarrow> if \<not> list_ex (\<lambda>(s, _). s = shape) us then us @ [(shape, j)] else us
      | None \<Rightarrow> us) = push_new fst (map_option (\<lambda>s. (s, j)) (get_shape_at_path S r p)) us" for r us j
    by (auto simp: push_new_def list_ex_iff split: option.splits)
  have "collect_unique_shapes S (sv_schema sv) p c = Some ?us"
    unfolding collect_unique_shapes_def for_candidates_total [OF assms] body
    by (simp add: config_at_def)
  with push_new_fold [of fst "[]" ?g "rs_iter c"] show ?thesis by fastforce
qed

lemma probe_fields_total:
  assumes "\<And>s j. (s, j) \<in> set us \<Longrightarrow> j < length (sc_resolutions sc)"
  shows "probe_fields S sc path key us \<noteq> None"
proof -
  have "\<exists>fs. probe_fields S sc path key us = Some fs \<and> True"
    unfolding probe_fields_def
    by (rule ofold_invariant) (use assms in \<open>auto split: option.splits\<close>)
  then show ?thesis by auto
qed

definition probe_answer :: "shapes \<Rightarrow> solver \<Rightarrow> nat set \<Rightarrow> string list \<Rightarrow> key_result \<Rightarrow> bool" where
  "probe_answer S sv A p res \<longleftrightarrow>
     (let shapes = {s. \<exists>j \<in> A. get_shape_at_path S (config_at sv j) p = Some s}
      in if A = {} then res = Key_Unknown
         else if \<exists>i. A = {i}
         then \<exists>i. A = {i} \<and> res = Key_Solved \<lparr>h_index = i, h_resolution = config_at sv i\<rparr>
         else (case res of
             Key_Unknown \<Rightarrow> shapes = {}
           | Key_Unambiguous s \<Rightarrow> shapes = {s}
           | Key_Ambiguous fs \<Rightarrow> \<nexists>s. shapes \<subseteq> {s}
           | Key_Solved h \<Rightarrow> False))"

lemma probe_key_run:
  assumes wf: "solver_wf sv"
  shows "\<exists>sv' res. probe_key S sv path key = Some (sv', res) \<and> solver_wf sv'
    \<and> sv_schema sv' = sv_schema sv \<and> sv_seen_keys sv' = sv_seen_keys sv
    \<and> cand_set sv' = {i \<in> cand_set sv. on_path (path, key) (config_at sv i)}
    \<and> probe_answer S sv (cand_set sv') (path @ [key]) res"
proof -
  let ?sc = "sv_schema sv" and ?p = "path @ [key]"
  have c: "rs_inv (length (sc_resolutions ?sc)) (sv_candidates sv)"
    using wf by (simp add: solver_wf_def num_resolutions_def)
  obtain c' where c': "retain_candidates ?sc (\<lambda>config. has_key_path config ?p) (sv_candidates sv) = Some c'"
    "rs_inv (length (sc_resolutions ?sc)) c'"
    and elems: "rs_elems c' = {i \<in> cand_set sv. on_path (path, key) (config_at sv i)}"
    using retain_candidates_ok [OF c, of "\<lambda>config. has_key_path config ?p"]
    by (auto simp: cand_set_def config_at_def on_path_def has_key_path_iff)
  let ?sv = "sv\<lparr>sv_candidates := c'\<rparr>"
  have state: "solver_wf ?sv" "sv_schema ?sv = ?sc" "sv_seen_keys ?sv = sv_seen_keys sv"
    "cand_set ?sv = {i \<in> cand_set sv. on_path (path, key) (config_at sv i)}"
    using wf c'(2) elems by (simp_all add: solver_wf_def num_resolutions_def cand_set_def)
  have A: "cand_set ?sv = rs_elems c'" by (simp add: cand_set_def)
  obtain us where us: "collect_unique_shapes S ?sc ?p c' = Some us" "distinct (map fst us)"
    "fst ` set us = {s. \<exists>j \<in> rs_elems c'. get_shape_at_path S (config_at sv j) ?p = Some s}"
    "\<forall>(s, j) \<in> set us. j \<in> rs_elems c'"
    using collect_unique_shapes_ok [OF c'(2), of S ?p] by blast
  have "\<exists>res. probe_key S sv path key = Some (?sv, res) \<and> probe_answer S sv (rs_elems c') ?p res"
  proof (cases "rs_is_empty c' \<or> rs_len c' = 1")
    case True
    then show ?thesis
      using rs_is_empty_iff [OF c'(2)] rs_len_1 [OF c'(2)] solved_handle_ok [OF c'(2)]
      by (auto simp: probe_key_def c'(1) Let_def probe_answer_def config_at_def)
  next
    case False
    then have not1: "rs_elems c' \<noteq> {}" "\<nexists>i. rs_elems c' = {i}"
      using rs_is_empty_iff [OF c'(2)] rs_len_1 [OF c'(2)] by auto
    consider "us = []" | s j where "us = [(s, j)]" | x y zs where "us = x # y # zs"
      by (metis list.exhaust surj_pair)
    then show ?thesis
    proof cases
      case 3
      have "probe_fields S ?sc path key us \<noteq> None"
        by (rule probe_fields_total) (use us(4) rs_inv_bound [OF c'(2)] in auto)
      then obtain fs where fs: "probe_fields S ?sc path key us = Some fs" by auto
      have "fst x \<noteq> fst y" "{fst x, fst y} \<subseteq> fst ` set us" using us(2) 3 by auto
      then have "\<nexists>s. fst ` set us \<subseteq> {s}" by auto
      with fs not1 False us(1,3) show ?thesis
        by (simp add: probe_key_def c'(1) Let_def probe_answer_def 3)
    qed (use False not1 us(1,3) in \<open>simp_all add: probe_key_def c'(1) Let_def probe_answer_def\<close>)
  qed
  with state A show ?thesis by auto
qed

definition solver_probe_step :: "shapes \<Rightarrow> string list \<times> string \<Rightarrow> solver \<Rightarrow> solver" where
  "solver_probe_step S pk sv = fst (the (probe_key S sv (fst pk) (snd pk)))"

interpretation solver_probing: filtering "solver_probe_step S"
  "\<lambda>sv. solver_wf sv \<and> sv_schema sv = sc" cand_set
  "\<lambda>pk i. on_path pk (sc_resolutions sc ! i)" for S sc
proof unfold_locales
  fix sv pk
  assume sv: "solver_wf sv \<and> sv_schema sv = sc"
  then obtain sv' res where "probe_key S sv (fst pk) (snd pk) = Some (sv', res)" "solver_wf sv'"
    "sv_schema sv' = sv_schema sv"
    "cand_set sv' = {i \<in> cand_set sv. on_path (fst pk, snd pk) (config_at sv i)}"
    using probe_key_run [of sv S "fst pk" "snd pk"] by blast
  with sv show "solver_wf (solver_probe_step S pk sv) \<and> sv_schema (solver_probe_step S pk sv) = sc"
    and "cand_set (solver_probe_step S pk sv) = {i \<in> cand_set sv. on_path pk (sc_resolutions sc ! i)}"
    by (simp_all add: solver_probe_step_def config_at_def)
qed

section \<open>Finishing\<close>

lemma candidate_configs_ok:
  assumes "rs_inv (length (sc_resolutions sc)) c"
  shows "candidate_configs sc c = Some (map (\<lambda>i. (i, sc_resolutions sc ! i)) (rs_iter c))"
proof -
  have "fold (\<lambda>i cs. cs @ [(i, sc_resolutions sc ! i)]) xs acc
      = acc @ map (\<lambda>i. (i, sc_resolutions sc ! i)) xs" for xs acc
    by (induction xs arbitrary: acc) auto
  then show ?thesis unfolding candidate_configs_def for_candidates_total [OF assms] by simp
qed

lemma seen_name_iff: "seen_name ks n \<longleftrightarrow> n \<in> key_name ` set ks"
  by (auto simp: seen_name_def list_ex_iff)

lemma is_viable_iff: "is_viable ks r \<longleftrightarrow> set (rn_required_field_names r) \<subseteq> key_name ` set ks"
  by (auto simp: is_viable_def list_all_iff seen_name_iff)

definition viable_set :: "solver \<Rightarrow> nat set" where
  "viable_set sv = {i \<in> cand_set sv. is_viable (sv_seen_keys sv) (config_at sv i)}"

lemma set_all_known_fields:
  "set (all_known_fields sc) = (\<Union>r \<in> set (sc_resolutions sc). fi_name ` field_infos r)"
  by (auto simp: all_known_fields_def field_infos_values)

definition finish_answer ::
    "solver \<Rightarrow> ('f solver_error, handle) outcome \<Rightarrow> bool" where
  "finish_answer sv out \<longleftrightarrow>
     (case out of
        Ok h \<Rightarrow> viable_set sv = {h_index h} \<and> h_resolution h = config_at sv (h_index h)
      | Err (Ambiguous_Match cs ds) \<Rightarrow> 2 \<le> card (viable_set sv)
          \<and> cs = map (\<lambda>i. describe (config_at sv i)) (sorted_list_of_set (viable_set sv))
          \<and> ds = find_disambiguating_fields (map (config_at sv) (sorted_list_of_set (viable_set sv)))
      | Err (No_Match inp mr mrd unk cl fs sg) \<Rightarrow> viable_set sv = {}
          \<and> set unk = {key_name k | k. k \<in> set (sv_seen_keys sv)
               \<and> key_name k \<notin> set (all_known_fields (sv_schema sv))}
          \<and> length fs = (if cand_set sv = {} then num_resolutions sv else card (cand_set sv))
      | Overrun \<Rightarrow> False)"

lemma no_viable_error_shape:
  "\<exists>inp mr mrd cl fs. no_viable_error m S sc seen unk sg cfgs = No_Match inp mr mrd unk cl fs sg
     \<and> length fs = length cfgs"
  by (simp add: no_viable_error_def Let_def sort_candidates_by_closeness_def split: prod.splits)

lemma finish_run:
  assumes wf: "solver_wf sv"
  shows "\<exists>out. finish m S sv = Some out \<and> finish_answer sv out"
proof -
  let ?sc = "sv_schema sv" and ?seen = "sv_seen_keys sv"
  have c: "rs_inv (length (sc_resolutions ?sc)) (sv_candidates sv)"
    using wf by (simp add: solver_wf_def num_resolutions_def)
  have unk: "set (map key_name (filter (\<lambda>k. key_name k \<notin> set (all_known_fields ?sc)) ?seen))
    = {key_name k | k. k \<in> set ?seen \<and> key_name k \<notin> set (all_known_fields ?sc)}" by auto
  show ?thesis
  proof (cases "rs_is_empty (sv_candidates sv)")
    case True
    then have "cand_set sv = {}" by (simp add: cand_set_def rs_is_empty_iff [OF c])
    with True unk show ?thesis
      by (simp add: finish_def Let_def finish_answer_def viable_set_def num_resolutions_def
          sort_candidates_by_closeness_def)
  next
    case False
    let ?cfgs = "map (\<lambda>i. (i, sc_resolutions ?sc ! i)) (rs_iter (sv_candidates sv))"
    let ?is = "filter (\<lambda>i. is_viable ?seen (config_at sv i)) (rs_iter (sv_candidates sv))"
    have "set ?is = viable_set sv" by (auto simp: viable_set_def cand_set_def)
    moreover have "sorted ?is" "distinct ?is"
      using sorted_rs_iter distinct_rs_iter by (simp_all add: sorted_wrt_filter)
    ultimately have is_eq: "?is = sorted_list_of_set (viable_set sv)"
      by (metis sorted_list_of_set.idem_if_sorted_distinct)
    have "filter (\<lambda>(i, config). is_viable ?seen config) ?cfgs = map (\<lambda>i. (i, config_at sv i)) ?is"
      by (simp add: filter_map o_def config_at_def)
    note viable = this [unfolded is_eq]
    have fin: "finite (viable_set sv)" by (simp add: viable_set_def cand_set_def)
    have cands: "card (cand_set sv) = length (rs_iter (sv_candidates sv))"
      by (metis cand_set_def distinct_card distinct_rs_iter set_rs_iter)
    have ne: "cand_set sv \<noteq> {}" using False by (simp add: cand_set_def rs_is_empty_iff [OF c])
    note run = finish_def [of m S sv, unfolded Let_def candidate_configs_ok [OF c] option.case viable]
    consider "viable_set sv = {}" | i where "viable_set sv = {i}"
      | "2 \<le> card (viable_set sv)"
      by (metis One_nat_def Suc_1 card_0_eq card_1_singletonE fin less_2_cases_iff not_le)
    then show ?thesis
    proof cases
      case 1
      let ?unk = "map key_name (filter (\<lambda>k. key_name k \<notin> set (all_known_fields ?sc)) ?seen)"
      have "\<exists>sg. finish m S sv = Some (Err (no_viable_error m S ?sc ?seen ?unk sg ?cfgs))"
        unfolding run using 1 False by simp blast
      then obtain sg where
        sg: "finish m S sv = Some (Err (no_viable_error m S ?sc ?seen ?unk sg ?cfgs))" by blast
      obtain inp mr mrd cl fs where
        "no_viable_error m S ?sc ?seen ?unk sg ?cfgs = No_Match inp mr mrd ?unk cl fs sg"
        "length fs = length ?cfgs"
        using no_viable_error_shape [of m S ?sc ?seen ?unk sg ?cfgs] by blast
      with sg have "finish m S sv = Some (Err (No_Match inp mr mrd ?unk cl fs sg))"
        "length fs = length ?cfgs" by simp_all
      with 1 unk ne cands show ?thesis by (simp add: finish_answer_def)
    next
      case 2
      then have "i \<in> cand_set sv" by (auto simp: viable_set_def)
      from cand_lt [OF wf this] have i: "i < length (sc_resolutions ?sc)" by (simp add: num_resolutions_def)
      have "finish m S sv = Some (Ok \<lparr>h_index = i, h_resolution = config_at sv i\<rparr>)"
        unfolding run using False 2 i by (simp add: handle_from_schema_def config_at_def)
      with 2 show ?thesis by (simp add: finish_answer_def)
    next
      case 3
      then have "2 \<le> length (sorted_list_of_set (viable_set sv))" by simp
      moreover have "\<exists>a b cs. xs = a # b # cs" if "2 \<le> length xs" for xs :: "nat list"
        using that by (auto simp: numeral_2_eq_2 Suc_le_length_iff)
      ultimately obtain a b cs where l: "sorted_list_of_set (viable_set sv) = a # b # cs" by blast
      have "finish m S sv = Some (Err (Ambiguous_Match
          (map (\<lambda>i. describe (config_at sv i)) (a # b # cs))
          (find_disambiguating_fields (map (config_at sv) (a # b # cs)))))"
        unfolding run l using False by (simp add: o_def)
      with 3 l show ?thesis by (simp add: finish_answer_def)
    qed
  qed
qed

section \<open>Both solvers keep the same candidates\<close>

lemma sorted_list_of_set_filter:
  "finite A \<Longrightarrow> sorted_list_of_set {i \<in> A. P i} = filter P (sorted_list_of_set A)"
  by (metis (no_types, lifting) distinct_filter set_filter set_sorted_list_of_set sorted_list_of_set.idem_if_sorted_distinct
      sorted_list_of_set.distinct_sorted_key_list_of_set sorted_list_of_set.sorted_sorted_key_list_of_set
      sorted_wrt_filter list.map_ident Collect_cong)

lemma probing_refines:
  assumes "schema_wf sc"
  shows "ps_candidates (fold probe_step pks (probing_new sc))
    = map ((!) (sc_resolutions sc))
        (sorted_list_of_set (cand_set (fold (solver_probe_step S) pks (solver_new sc))))"
proof -
  let ?rs = "sc_resolutions sc"
  let ?P = "\<lambda>r. \<forall>pk \<in> set pks. on_path pk r"
  have "cand_set (fold (solver_probe_step S) pks (solver_new sc))
      = {i \<in> {..<length ?rs}. ?P (?rs ! i)}"
    using solver_probing.run [of "solver_new sc" sc S pks] assms
    by (simp add: solver_wf_new cand_set_new)
  then have "sorted_list_of_set (cand_set (fold (solver_probe_step S) pks (solver_new sc)))
      = filter (\<lambda>i. ?P (?rs ! i)) [0..<length ?rs]"
    using sorted_list_of_set_filter [of "{..<length ?rs}" "\<lambda>i. ?P (?rs ! i)"]
    by (simp add: lessThan_atLeast0)
  moreover have "map ((!) ?rs) (filter (\<lambda>i. ?P (?rs ! i)) [0..<length ?rs]) = filter ?P ?rs"
  proof -
    have "filter ?P ?rs = filter ?P (map ((!) ?rs) [0..<length ?rs])" by (simp only: map_nth)
    also have "\<dots> = map ((!) ?rs) (filter (\<lambda>i. ?P (?rs ! i)) [0..<length ?rs])"
      by (simp only: filter_map o_def)
    finally show ?thesis by (rule sym)
  qed
  ultimately show ?thesis by (simp add: probing_run probing_new_def)
qed

section \<open>Reports\<close>

lemma fold_insert_names:
  "set (fold (\<lambda>info. bts_insert (fi_name info)) js s) = fi_name ` set js \<union> set s"
  by (induction js arbitrary: s) auto

lemma set_all_field_names:
  "set (fold (\<lambda>config s. fold (\<lambda>info. bts_insert (fi_name info)) (btm_values (rn_fields config)) s) cs s)
    = (\<Union>c \<in> set cs. fi_name ` field_infos c) \<union> set s"
  by (induction cs arbitrary: s) (auto simp: fold_insert_names field_infos_values)

lemma disambiguating_iff:
  "n \<in> set (find_disambiguating_fields cs) \<longleftrightarrow>
     (\<exists>c \<in> set cs. n \<in> fi_name ` field_infos c) \<and> (\<exists>c \<in> set cs. n \<notin> fi_name ` field_infos c)"
proof -
  have P: "field_by_name c n \<noteq> None \<longleftrightarrow> n \<in> fi_name ` field_infos c" for c
    using field_by_name_None [of c n] by simp
  show ?thesis
  proof (cases "length cs < 2")
    case True
    then consider "cs = []" | c where "cs = [c]" by (cases cs; cases "tl cs") auto
    then show ?thesis by cases (auto simp: find_disambiguating_fields_def)
  next
    case False
    let ?F = "filter (\<lambda>c. n \<in> fi_name ` field_infos c) cs"
    have 1: "0 < length ?F \<longleftrightarrow> (\<exists>c \<in> set cs. n \<in> fi_name ` field_infos c)"
      by (auto simp: filter_empty_conv)
    have 2: "length ?F < length cs \<longleftrightarrow> (\<exists>c \<in> set cs. n \<notin> fi_name ` field_infos c)"
      using length_filter_less [of _ cs "\<lambda>c. n \<in> fi_name ` field_infos c"]
      by (metis (mono_tags, lifting) filter_True less_irrefl)
    have "n \<in> set (find_disambiguating_fields cs) \<longleftrightarrow>
        n \<in> (\<Union>c \<in> set cs. fi_name ` field_infos c) \<and> 0 < length ?F \<and> length ?F < length cs"
      using False by (simp add: find_disambiguating_fields_def Let_def set_all_field_names P del: not_None_eq)
    then show ?thesis unfolding 1 2 by auto
  qed
qed

definition best_of :: "('f::linorder) metric \<Rightarrow> string \<Rightarrow> string set \<Rightarrow> (string \<times> 'f) option \<Rightarrow> bool" where
  "best_of m u names best \<longleftrightarrow> (case best of
     None \<Rightarrow> \<forall>k \<in> names. me_similarity m u k < me_threshold m
   | Some (n, s) \<Rightarrow> n \<in> names \<and> s = me_similarity m u n \<and> me_threshold m \<le> s
       \<and> (\<forall>k \<in> names. me_similarity m u k \<le> s))"

lemma best_match_best: "best_of m u (set names) (best_match m u names)"
proof -
  let ?step = "\<lambda>name best. let similarity = me_similarity m u name
      in if me_threshold m \<le> similarity
           \<and> (case best of None \<Rightarrow> True | Some (_, best_sim) \<Rightarrow> best_sim < similarity)
         then Some (name, similarity) else best"
  have "best_of m u K best \<Longrightarrow> best_of m u (K \<union> set names) (fold ?step names best)" for K best
  proof (induction names arbitrary: K best)
    case Nil
    then show ?case by simp
  next
    case (Cons k names)
    have "best_of m u (insert k K) (?step k best)"
      using Cons.prems by (fastforce simp: best_of_def Let_def split: option.splits)
    from Cons.IH [OF this] show ?case by simp
  qed
  from this [of "{}" None] show ?thesis by (simp add: best_match_def best_of_def)
qed

lemma suggestion_iff:
  "sg \<in> set (compute_suggestions m unknown known) \<longleftrightarrow>
     (\<exists>u \<in> set unknown. fs_unknown sg = u
        \<and> best_match m u known = Some (fs_suggestion sg, fs_similarity sg))"
  by (cases sg) (auto simp: compute_suggestions_def List.map_filter_def image_iff split: option.splits)

section \<open>A whole run\<close>

text \<open>Keys that some resolution holds together lead \<open>finish\<close> to the only resolution among
  the holders that has all its required fields.\<close>

lemma run_finishes:
  assumes sc: "schema_wf sc" and some: "{..<length (sc_resolutions sc)} \<inter> all_holders sc (set ks) \<noteq> {}"
    and only: "{j \<in> {..<length (sc_resolutions sc)} \<inter> all_holders sc (set ks).
        set (rn_required_field_names (sc_resolutions sc ! j)) \<subseteq> key_name ` set ks} = {i}"
  shows "\<exists>sv. see_keys S ks (solver_new sc) = Some sv
    \<and> finish m S sv = Some (Ok \<lparr>h_index = i, h_resolution = sc_resolutions sc ! i\<rparr>)"
proof -
  obtain sv where sv: "see_keys S ks (solver_new sc) = Some sv" "solver_wf sv" "sv_schema sv = sc"
    "set (sv_seen_keys sv) = set ks"
    "cand_set sv = fold (\<lambda>k A. narrow A (key_holders sc k)) ks {..<length (sc_resolutions sc)}"
    using see_keys_run [OF solver_wf_new [OF sc], of S ks] unfolding cand_set_new
    by simp blast
  have "viable_set sv = {i}"
    unfolding viable_set_def sv(5) fold_narrow_all [OF some] is_viable_iff sv(4) config_at_def sv(3)
    by (rule only)
  moreover obtain out where out: "finish m S sv = Some out" "finish_answer sv out"
    using finish_run [OF sv(2)] by blast
  ultimately obtain h where "out = Ok h" "h_index h = i" "h_resolution h = config_at sv i"
    by (auto simp: finish_answer_def split: outcome.splits solver_error.splits)
  with out(1) sv show ?thesis
    by (intro exI [of _ sv]) (cases h; simp add: config_at_def)
qed

section \<open>Two corners of the key lookup\<close>

text \<open>In a flat schema a variant selector is kept under its element key, which a flat key does
  not find once more than one candidate remains.\<close>

lemma selector_key_unknown:
  assumes wf: "solver_wf sv" and some: "A \<noteq> {}" "\<nexists>i. A = {i}"
    and A: "A = cand_set sv \<inter> key_holders (sv_schema sv) (Key_Flat t)"
    and sel: "\<And>i f. i \<in> A \<Longrightarrow> f \<in> field_infos (config_at sv i) \<Longrightarrow> fi_name f = t \<Longrightarrow> fi_category f \<noteq> Cat_Flat"
  shows "\<exists>sv'. see_key S sv (Key_Flat t) = Some (sv', Key_Unknown) \<and> cand_set sv' = A"
proof -
  obtain sv' res where run: "see_key S sv (Key_Flat t) = Some (sv', res)"
    "cand_set sv' = narrow (cand_set sv) (key_holders (sv_schema sv) (Key_Flat t))"
    "key_answer S sv A (Key_Flat t) res"
    using see_key_run [OF wf] A by blast
  have "btm_get (rn_fields (config_at sv i)) (Key_Flat t) \<noteq> Some f" if i: "i \<in> A" for i f
  proof
    assume get: "btm_get (rn_fields (config_at sv i)) (Key_Flat t) = Some f"
    have "i < num_resolutions sv" using i A cand_lt [OF wf] by blast
    then have r: "res_wf (config_at sv i)"
      using wf by (simp add: solver_wf_def schema_wf_def num_resolutions_def config_at_def)
    then have key: "info_key f = Key_Flat t" using res_wf_get [OF r get] by simp
    have "f \<in> field_infos (config_at sv i)" using get r key by (simp add: field_infos_get)
    moreover have "fi_name f = t" using key by (metis key_name.simps(1) key_name_info_key)
    moreover have "fi_category f = Cat_Flat" using key by (cases "fi_category f") (simp_all add: info_key_def)
    ultimately show False using sel i by blast
  qed
  then have "key_shapes sv A (Key_Flat t) = {}" by (auto simp: key_shapes_def)
  with run(3) some have "res = Key_Unknown"
    by (auto simp: key_answer_def split: key_result.splits)
  moreover have "cand_set sv' = A" using run(2) some(1) by (auto simp: narrow_def A)
  ultimately show ?thesis using run(1) by blast
qed

text \<open>An unnamed text, tag or elements key is looked up under the first name of its
  category only.\<close>

lemma unnamed_key_holders:
  assumes sc: "schema_wf sc" "sc_format sc = Format_Dom"
    and c: "c \<in> {Cat_Text, Cat_Tag, Cat_Elements}"
    and least: "having (\<lambda>i. (fi_category i, fi_name i)) (sc_resolutions sc) (c, n) \<noteq> {}"
      "\<And>a. having (\<lambda>i. (fi_category i, fi_name i)) (sc_resolutions sc) (c, a) \<noteq> {} \<Longrightarrow> n \<le> a"
  shows "key_holders sc (Key_Dom c [])
    = having (\<lambda>i. (fi_category i, fi_name i)) (sc_resolutions sc) (c, n)"
proof -
  let ?m = "sc_dom_field_to_resolutions sc"
  let ?H = "having (\<lambda>i. (fi_category i, fi_name i)) (sc_resolutions sc)"
  from sc have idx: "index_inv (length (sc_resolutions sc)) ?H ?m" by (simp add: schema_wf_def)
  have keys: "k \<in> fst ` set ?m \<longleftrightarrow> ?H k \<noteq> {}" for k
    by (rule index_inv_keys [OF idx])
  obtain s where s: "btm_get ?m (c, n) = Some s"
    using least(1) keys [of "(c, n)"] btm_get_None [of ?m "(c, n)"] by (cases "btm_get ?m (c, n)") auto
  have "List.find (\<lambda>e. fst (fst e) = c) ?m = Some ((c, n), s)"
  proof (rule btm_find_least)
    show "btm_wf ?m" using idx by (simp add: index_inv_def)
    show "((c, n), s) \<in> set ?m" using s by (rule btm_get_in_set)
    show "fst (c, n) = c" by simp
    fix a assume "a \<in> fst ` set ?m" "fst a = c"
    then show "(c, n) \<le> a" using keys least(2) by (cases a) auto
  qed
  then have "key_holders sc (Key_Dom c []) = rs_elems s"
    using sc(2) c by (auto simp: key_holders_def resolutions_with_key_def case_prod_beta')
  also have "\<dots> = ?H (c, n)" using index_inv_get [OF idx, of "(c, n)"] s by simp
  finally show ?thesis .
qed

end
