(* ===== verification/Variant_Format.thy ===== *)
theory Variant_Format
  imports Shape "HOL-Library.Multiset"
begin

text \<open>
  Classification of enum variants by the kind of value they are written as (facet-solver
  src/lib.rs: \<open>VariantFormat\<close>, the shape predicates, \<open>VariantsByFormat\<close>; facet-reflect
  src/spanned.rs: the value of a metadata container). \<open>deref_pointer\<close> recurses through
  pointers and takes fuel; the other functions use its result.
\<close>

section \<open>Looking through pointers\<close>

fun deref_pointer :: "shapes \<Rightarrow> nat \<Rightarrow> sref \<Rightarrow> ('e, sref) outcome" where
  "deref_pointer S 0 r = Overrun"
| "deref_pointer S (Suc n) r =
     (case sh_def (S r) of
        Def_Pointer pointee \<Rightarrow>
          (case pointee of Some p \<Rightarrow> deref_pointer S n p | None \<Rightarrow> Ok r)
      | _ \<Rightarrow> Ok r)"

definition is_metadata :: "field \<Rightarrow> bool" where
  "is_metadata f \<longleftrightarrow> f_metadata f \<noteq> None"

definition get_metadata_container_value_shape :: "shapes \<Rightarrow> sref \<Rightarrow> sref option" where
  "get_metadata_container_value_shape S r =
     (if \<not> is_metadata_container (S r) then None
      else (case sh_ty (S r) of
              Ty_User (User_Struct st) \<Rightarrow>
                map_option f_shape (List.find (\<lambda>f. \<not> is_metadata f) (st_fields st))
            | _ \<Rightarrow> None))"

definition is_scalar_shape :: "shapes \<Rightarrow> nat \<Rightarrow> sref \<Rightarrow> ('e, bool) outcome" where
  "is_scalar_shape S n r = obind (deref_pointer S n r) (\<lambda>r.
     Ok (shape_scalar_type (sh_id (S r)) \<noteq> None))"

definition tuple_struct_arity :: "shapes \<Rightarrow> nat \<Rightarrow> sref \<Rightarrow> ('e, nat option) outcome" where
  "tuple_struct_arity S n r = obind (deref_pointer S n r) (\<lambda>r.
     Ok (case sh_ty (S r) of
           Ty_User (User_Struct st) \<Rightarrow>
             (case st_kind st of
                Kind_Tuple \<Rightarrow> Some (length (st_fields st))
              | Kind_TupleStruct \<Rightarrow> Some (length (st_fields st))
              | _ \<Rightarrow> None)
         | _ \<Rightarrow> None))"

definition is_named_struct_shape :: "shapes \<Rightarrow> nat \<Rightarrow> sref \<Rightarrow> ('e, bool) outcome" where
  "is_named_struct_shape S n r = obind (deref_pointer S n r) (\<lambda>r.
     Ok (case sh_ty (S r) of Ty_User (User_Struct st) \<Rightarrow> st_kind st = Kind_Struct | _ \<Rightarrow> False))"

definition is_sequence_shape :: "shapes \<Rightarrow> nat \<Rightarrow> sref \<Rightarrow> ('e, bool) outcome" where
  "is_sequence_shape S n r = obind (deref_pointer S n r) (\<lambda>r.
     Ok (case sh_def (S r) of
           Def_List _ \<Rightarrow> True | Def_Array _ _ \<Rightarrow> True | Def_Slice _ \<Rightarrow> True | Def_Set _ \<Rightarrow> True
         | _ \<Rightarrow> False))"

definition is_map_shape :: "shapes \<Rightarrow> nat \<Rightarrow> sref \<Rightarrow> ('e, bool) outcome" where
  "is_map_shape S n r = obind (deref_pointer S n r) (\<lambda>r.
     Ok (case sh_def (S r) of Def_Map _ _ \<Rightarrow> True | _ \<Rightarrow> False))"

definition is_unit_enum_shape :: "shapes \<Rightarrow> nat \<Rightarrow> sref \<Rightarrow> ('e, bool) outcome" where
  "is_unit_enum_shape S n r = obind (deref_pointer S n r) (\<lambda>r.
     Ok (case sh_ty (S r) of
           Ty_User (User_Enum e) \<Rightarrow> list_all (\<lambda>v. st_fields (v_data v) = []) (et_variants e)
         | _ \<Rightarrow> False))"

section \<open>The format of a variant\<close>

datatype variant_format =
  VF_Unit
| VF_NewtypeScalar sref
| VF_NewtypeStruct sref
| VF_NewtypeTuple sref nat
| VF_NewtypeSequence sref
| VF_NewtypeOther sref
| VF_Tuple nat
| VF_Struct

definition classify_newtype :: "shapes \<Rightarrow> nat \<Rightarrow> sref \<Rightarrow> ('e, variant_format) outcome" where
  "classify_newtype S n field_shape =
     obind (deref_pointer S n field_shape) (\<lambda>inner_shape.
       let classification_shape =
             (case get_metadata_container_value_shape S field_shape of
                Some inner \<Rightarrow> inner | None \<Rightarrow> field_shape)
       in obind (is_scalar_shape S n classification_shape) (\<lambda>scalar.
          obind (is_unit_enum_shape S n classification_shape) (\<lambda>unit_enum.
          if scalar \<or> unit_enum then Ok (VF_NewtypeScalar classification_shape)
          else obind (tuple_struct_arity S n classification_shape) (\<lambda>arity.
            case arity of
              Some arity \<Rightarrow> Ok (VF_NewtypeTuple inner_shape arity)
            | None \<Rightarrow>
                obind (is_named_struct_shape S n classification_shape) (\<lambda>named.
                obind (is_map_shape S n classification_shape) (\<lambda>is_map.
                if named \<or> is_map then Ok (VF_NewtypeStruct inner_shape)
                else obind (is_sequence_shape S n classification_shape) (\<lambda>sequence.
                  Ok (if sequence then VF_NewtypeSequence inner_shape
                      else VF_NewtypeOther inner_shape))))))))"

definition from_variant :: "shapes \<Rightarrow> nat \<Rightarrow> variant \<Rightarrow> ('e, variant_format) outcome" where
  "from_variant S n v =
     (let fields = st_fields (v_data v);
          tuple_like = (case fields of
             [f] \<Rightarrow> classify_newtype S n (f_shape f)
           | _ \<Rightarrow> Ok (VF_Tuple (length fields)))
      in case st_kind (v_data v) of
           Kind_Unit \<Rightarrow> Ok VF_Unit
         | Kind_TupleStruct \<Rightarrow> tuple_like
         | Kind_Tuple \<Rightarrow> tuple_like
         | Kind_Struct \<Rightarrow> Ok VF_Struct)"

fun expects_scalar :: "variant_format \<Rightarrow> bool" where
  "expects_scalar (VF_NewtypeScalar r) \<longleftrightarrow> True"
| "expects_scalar _ \<longleftrightarrow> False"

fun expects_sequence :: "variant_format \<Rightarrow> bool" where
  "expects_sequence (VF_Tuple a) \<longleftrightarrow> True"
| "expects_sequence (VF_NewtypeTuple r a) \<longleftrightarrow> True"
| "expects_sequence (VF_NewtypeSequence r) \<longleftrightarrow> True"
| "expects_sequence _ \<longleftrightarrow> False"

fun expects_mapping :: "variant_format \<Rightarrow> bool" where
  "expects_mapping VF_Struct \<longleftrightarrow> True"
| "expects_mapping (VF_NewtypeStruct r) \<longleftrightarrow> True"
| "expects_mapping _ \<longleftrightarrow> False"

fun vf_is_unit :: "variant_format \<Rightarrow> bool" where
  "vf_is_unit VF_Unit \<longleftrightarrow> True"
| "vf_is_unit _ \<longleftrightarrow> False"

section \<open>The variants of an enum by format\<close>

record variants_by_format =
  vb_scalar_variants :: "(variant \<times> sref) list"
  vb_bool_variants :: "(variant \<times> sref) list"
  vb_int_variants :: "(variant \<times> sref) list"
  vb_float_variants :: "(variant \<times> sref) list"
  vb_string_variants :: "(variant \<times> sref) list"
  vb_tuple_variants :: "(variant \<times> nat) list"
  vb_struct_variants :: "variant list"
  vb_unit_variants :: "variant list"
  vb_other_variants :: "variant list"

definition vb_default :: variants_by_format where
  "vb_default = \<lparr>vb_scalar_variants = [], vb_bool_variants = [], vb_int_variants = [],
     vb_float_variants = [], vb_string_variants = [], vb_tuple_variants = [],
     vb_struct_variants = [], vb_unit_variants = [], vb_other_variants = []\<rparr>"

datatype scalar_class = Class_Bool | Class_Int | Class_Float | Class_String | Class_Other

definition classify_scalar :: "scalar_type option \<Rightarrow> scalar_class" where
  "classify_scalar st =
     (case st of
        Some ST_Bool \<Rightarrow> Class_Bool
      | Some ST_U8 \<Rightarrow> Class_Int | Some ST_U16 \<Rightarrow> Class_Int | Some ST_U32 \<Rightarrow> Class_Int
      | Some ST_U64 \<Rightarrow> Class_Int | Some ST_U128 \<Rightarrow> Class_Int | Some ST_USize \<Rightarrow> Class_Int
      | Some ST_I8 \<Rightarrow> Class_Int | Some ST_I16 \<Rightarrow> Class_Int | Some ST_I32 \<Rightarrow> Class_Int
      | Some ST_I64 \<Rightarrow> Class_Int | Some ST_I128 \<Rightarrow> Class_Int | Some ST_ISize \<Rightarrow> Class_Int
      | Some ST_F32 \<Rightarrow> Class_Float | Some ST_F64 \<Rightarrow> Class_Float
      | Some ST_String \<Rightarrow> Class_String | Some ST_CowStr \<Rightarrow> Class_String
      | Some ST_Str \<Rightarrow> Class_String | Some ST_Char \<Rightarrow> Class_String
      | _ \<Rightarrow> Class_Other)"

definition push_scalar ::
    "scalar_class \<Rightarrow> variant \<times> sref \<Rightarrow> variants_by_format \<Rightarrow> variants_by_format" where
  "push_scalar c e b =
     (case c of
        Class_Bool \<Rightarrow> b\<lparr>vb_bool_variants := vb_bool_variants b @ [e]\<rparr>
      | Class_Int \<Rightarrow> b\<lparr>vb_int_variants := vb_int_variants b @ [e]\<rparr>
      | Class_Float \<Rightarrow> b\<lparr>vb_float_variants := vb_float_variants b @ [e]\<rparr>
      | Class_String \<Rightarrow> b\<lparr>vb_string_variants := vb_string_variants b @ [e]\<rparr>
      | Class_Other \<Rightarrow> b)"

definition push_variant_format ::
    "shapes \<Rightarrow> nat \<Rightarrow> variant \<Rightarrow> variant_format \<Rightarrow> variants_by_format
      \<Rightarrow> ('e, variants_by_format) outcome" where
  "push_variant_format S n v format b =
     (case format of
        VF_Unit \<Rightarrow> Ok (b\<lparr>vb_unit_variants := vb_unit_variants b @ [v]\<rparr>)
      | VF_NewtypeScalar inner \<Rightarrow>
          (let b = b\<lparr>vb_scalar_variants := vb_scalar_variants b @ [(v, inner)]\<rparr>
           in obind (deref_pointer S n inner) (\<lambda>scalar_shape.
                Ok (push_scalar (classify_scalar (shape_scalar_type (sh_id (S scalar_shape))))
                      (v, inner) b)))
      | VF_NewtypeStruct _ \<Rightarrow> Ok (b\<lparr>vb_struct_variants := vb_struct_variants b @ [v]\<rparr>)
      | VF_NewtypeTuple _ arity \<Rightarrow> Ok (b\<lparr>vb_tuple_variants := vb_tuple_variants b @ [(v, arity)]\<rparr>)
      | VF_NewtypeSequence _ \<Rightarrow> Ok (b\<lparr>vb_tuple_variants := vb_tuple_variants b @ [(v, 0)]\<rparr>)
      | VF_NewtypeOther _ \<Rightarrow> Ok (b\<lparr>vb_other_variants := vb_other_variants b @ [v]\<rparr>)
      | VF_Tuple arity \<Rightarrow> Ok (b\<lparr>vb_tuple_variants := vb_tuple_variants b @ [(v, arity)]\<rparr>)
      | VF_Struct \<Rightarrow> Ok (b\<lparr>vb_struct_variants := vb_struct_variants b @ [v]\<rparr>))"

definition variants_from_shape ::
    "shapes \<Rightarrow> nat \<Rightarrow> sref \<Rightarrow> ('e, variants_by_format option) outcome" where
  "variants_from_shape S n r =
     (case sh_ty (S r) of
        Ty_User (User_Enum e) \<Rightarrow>
          obind (rfold (\<lambda>v b. obind (from_variant S n v) (\<lambda>format.
              push_variant_format S n v format b)) (et_variants e) vb_default)
            (\<lambda>b. Ok (Some b))
      | _ \<Rightarrow> Ok None)"

definition tuple_variants_with_arity :: "variants_by_format \<Rightarrow> nat \<Rightarrow> variant list" where
  "tuple_variants_with_arity b arity =
     map fst (filter (\<lambda>(v, a). a = arity) (vb_tuple_variants b))"

definition has_scalar_variants :: "variants_by_format \<Rightarrow> bool" where
  "has_scalar_variants b \<longleftrightarrow> vb_scalar_variants b \<noteq> []"

definition has_tuple_variants :: "variants_by_format \<Rightarrow> bool" where
  "has_tuple_variants b \<longleftrightarrow> vb_tuple_variants b \<noteq> []"

definition has_struct_variants :: "variants_by_format \<Rightarrow> bool" where
  "has_struct_variants b \<longleftrightarrow> vb_struct_variants b \<noteq> []"

section \<open>Every variant goes to exactly one bucket\<close>

definition points :: "shapes \<Rightarrow> (sref \<Rightarrow> nat) \<Rightarrow> bool" where
  "points S pr \<longleftrightarrow> (\<forall>r p. sh_def (S r) = Def_Pointer (Some p) \<longrightarrow> pr p < pr r)"

lemma deref_pointer_fuel:
  "points S pr \<Longrightarrow> pr r < n \<Longrightarrow> \<exists>t. deref_pointer S n r = Ok t"
proof (induction n arbitrary: r)
  case 0
  then show ?case by simp
next
  case (Suc n)
  show ?case
  proof (cases "\<exists>p. sh_def (S r) = Def_Pointer (Some p)")
    case True
    then obtain p where p: "sh_def (S r) = Def_Pointer (Some p)" by blast
    with Suc.prems have "pr p < n" by (force simp: points_def)
    from Suc.IH [OF Suc.prems(1) this] p show ?thesis by simp
  next
    case False
    then show ?thesis by (auto split: facet_def.splits option.splits)
  qed
qed

lemma deref_pointer_target:
  "deref_pointer S n r = Ok t \<Longrightarrow> \<nexists>p. sh_def (S t) = Def_Pointer (Some p)"
  by (induction n arbitrary: r) (auto split: facet_def.splits option.splits)

lemma deref_pointer_mono: "deref_pointer S n r = Ok t \<Longrightarrow> n \<le> m \<Longrightarrow> deref_pointer S m r = Ok t"
proof (induction n arbitrary: r m)
  case 0
  then show ?case by simp
next
  case (Suc n)
  then obtain m' where m: "m = Suc m'" "n \<le> m'" by (cases m) auto
  show ?case
    using Suc.prems(1) Suc.IH [OF _ m(2)] by (auto simp: m(1) split: facet_def.splits option.splits)
qed

definition bucket_names :: "variants_by_format \<Rightarrow> variant list" where
  "bucket_names b = map fst (vb_scalar_variants b) @ map fst (vb_tuple_variants b)
     @ vb_struct_variants b @ vb_unit_variants b @ vb_other_variants b"

definition typed_scalars :: "variants_by_format \<Rightarrow> (variant \<times> sref) list" where
  "typed_scalars b = vb_bool_variants b @ vb_int_variants b @ vb_float_variants b
     @ vb_string_variants b"

lemma push_scalar_buckets [simp]:
  "bucket_names (push_scalar c e b) = bucket_names b"
  "vb_scalar_variants (push_scalar c e b) = vb_scalar_variants b"
  by (cases c; simp add: push_scalar_def bucket_names_def)+

lemma push_scalar_typed: "set (typed_scalars (push_scalar c e b)) \<subseteq> insert e (set (typed_scalars b))"
  by (cases c) (auto simp: push_scalar_def typed_scalars_def)

lemma push_variant_buckets:
  assumes "push_variant_format S n v f b = Ok b'"
  shows "mset (bucket_names b') = add_mset v (mset (bucket_names b))"
proof (cases f)
  case (VF_NewtypeScalar r)
  let ?b = "b\<lparr>vb_scalar_variants := vb_scalar_variants b @ [(v, r)]\<rparr>"
  from assms VF_NewtypeScalar obtain c where "b' = push_scalar c (v, r) ?b"
    by (auto simp: push_variant_format_def run_simps Let_def)
  then have "bucket_names b' = bucket_names ?b" by simp
  then show ?thesis by (simp add: bucket_names_def)
qed (use assms in \<open>auto simp: push_variant_format_def bucket_names_def\<close>)

lemma push_variant_typed:
  assumes "push_variant_format S n v f b = Ok b'"
    and "set (typed_scalars b) \<subseteq> set (vb_scalar_variants b)"
  shows "set (typed_scalars b') \<subseteq> set (vb_scalar_variants b')"
proof (cases f)
  case (VF_NewtypeScalar r)
  let ?b = "b\<lparr>vb_scalar_variants := vb_scalar_variants b @ [(v, r)]\<rparr>"
  from assms(1) VF_NewtypeScalar obtain c where b': "b' = push_scalar c (v, r) ?b"
    by (auto simp: push_variant_format_def run_simps Let_def)
  have "set (typed_scalars b') \<subseteq> insert (v, r) (set (typed_scalars ?b))"
    unfolding b' by (rule push_scalar_typed)
  also have "typed_scalars ?b = typed_scalars b" by (simp add: typed_scalars_def)
  finally show ?thesis using assms(2) by (auto simp: b')
qed (use assms in \<open>auto simp: push_variant_format_def typed_scalars_def\<close>)

text \<open>Each bucket holds the variants of its format in their order.\<close>

definition of_format :: "shapes \<Rightarrow> nat \<Rightarrow> (variant_format \<Rightarrow> bool) \<Rightarrow> variant list \<Rightarrow> variant list" where
  "of_format S n P vs = filter (\<lambda>v. case (from_variant S n v :: (unit, variant_format) outcome) of
     Ok f \<Rightarrow> P f | _ \<Rightarrow> False) vs"

definition bucketed :: "(variant_format \<Rightarrow> bool) \<Rightarrow> variant_format \<Rightarrow> 'b \<Rightarrow> 'b list \<Rightarrow> 'b list" where
  "bucketed P f v b = (if P f then b @ [v] else b)"

lemma push_scalar_keeps [simp]:
  "vb_unit_variants (push_scalar c e b) = vb_unit_variants b"
  "vb_struct_variants (push_scalar c e b) = vb_struct_variants b"
  "vb_tuple_variants (push_scalar c e b) = vb_tuple_variants b"
  "vb_other_variants (push_scalar c e b) = vb_other_variants b"
  by (cases c; simp add: push_scalar_def)+

definition other_format :: "variant_format \<Rightarrow> bool" where
  "other_format f \<longleftrightarrow> \<not> (expects_scalar f \<or> expects_sequence f \<or> expects_mapping f \<or> vf_is_unit f)"

definition buckets :: "variants_by_format \<Rightarrow> variant list \<times> variant list \<times> variant list \<times> variant list \<times> variant list" where
  "buckets b = (vb_unit_variants b, map fst (vb_scalar_variants b), map fst (vb_tuple_variants b),
     vb_struct_variants b, vb_other_variants b)"

lemma push_variant_exact:
  assumes "push_variant_format S n v f b = Ok b'"
  shows "buckets b' = (bucketed vf_is_unit f v (vb_unit_variants b),
    bucketed expects_scalar f v (map fst (vb_scalar_variants b)),
    bucketed expects_sequence f v (map fst (vb_tuple_variants b)),
    bucketed expects_mapping f v (vb_struct_variants b), bucketed other_format f v (vb_other_variants b))"
proof (cases f)
  case (VF_NewtypeScalar r)
  let ?b = "b\<lparr>vb_scalar_variants := vb_scalar_variants b @ [(v, r)]\<rparr>"
  from assms VF_NewtypeScalar obtain c where "b' = push_scalar c (v, r) ?b"
    by (auto simp: push_variant_format_def run_simps Let_def)
  then show ?thesis by (simp add: VF_NewtypeScalar bucketed_def buckets_def other_format_def)
qed (use assms in \<open>auto simp: push_variant_format_def bucketed_def buckets_def other_format_def\<close>)

lemma push_all_exact:
  assumes "rfold (\<lambda>v b. obind (from_variant S n v) (\<lambda>format. push_variant_format S n v format b)) vs b
    = (Ok b' :: (unit, variants_by_format) outcome)"
  shows "buckets b' = (vb_unit_variants b @ of_format S n vf_is_unit vs,
    map fst (vb_scalar_variants b) @ of_format S n expects_scalar vs,
    map fst (vb_tuple_variants b) @ of_format S n expects_sequence vs,
    vb_struct_variants b @ of_format S n expects_mapping vs,
    vb_other_variants b @ of_format S n other_format vs)"
  using assms
proof (induction vs arbitrary: b)
  case Nil
  then show ?case by (simp add: of_format_def buckets_def)
next
  case (Cons v vs)
  from Cons.prems obtain f b1 where f: "from_variant S n v = (Ok f :: (unit, variant_format) outcome)"
    and 1: "push_variant_format S n v f b = (Ok b1 :: (unit, variants_by_format) outcome)"
    and 2: "rfold (\<lambda>v b. obind (from_variant S n v) (\<lambda>format. push_variant_format S n v format b)) vs b1
      = (Ok b' :: (unit, variants_by_format) outcome)"
    by (auto simp: run_simps)
  have step: "of_format S n P (v # vs) = (if P f then [v] else []) @ of_format S n P vs" for P
    by (simp add: of_format_def f)
  from push_variant_exact [OF 1] have b1: "vb_unit_variants b1 = bucketed vf_is_unit f v (vb_unit_variants b)"
    "map fst (vb_scalar_variants b1) = bucketed expects_scalar f v (map fst (vb_scalar_variants b))"
    "map fst (vb_tuple_variants b1) = bucketed expects_sequence f v (map fst (vb_tuple_variants b))"
    "vb_struct_variants b1 = bucketed expects_mapping f v (vb_struct_variants b)"
    "vb_other_variants b1 = bucketed other_format f v (vb_other_variants b)"
    unfolding buckets_def by blast+
  show ?case unfolding Cons.IH [OF 2] b1 step by (simp add: bucketed_def)
qed

lemma variants_from_shape_exact:
  assumes "sh_ty (S r) = Ty_User (User_Enum e)"
    and "variants_from_shape S n r = (Ok (Some b) :: (unit, variants_by_format option) outcome)"
  shows "buckets b = (of_format S n vf_is_unit (et_variants e), of_format S n expects_scalar (et_variants e),
    of_format S n expects_sequence (et_variants e), of_format S n expects_mapping (et_variants e),
    of_format S n other_format (et_variants e))"
proof -
  have "rfold (\<lambda>v b. obind (from_variant S n v) (\<lambda>format. push_variant_format S n v format b))
      (et_variants e) vb_default = (Ok b :: (unit, variants_by_format) outcome)"
    using assms by (auto simp: variants_from_shape_def run_simps)
  from push_all_exact [OF this] show ?thesis by (simp add: vb_default_def)
qed

lemma variants_from_shape_buckets:
  assumes "sh_ty (S r) = Ty_User (User_Enum e)" and "variants_from_shape S n r = (Ok (Some b) :: ('e, variants_by_format option) outcome)"
  shows "mset (bucket_names b) = mset (et_variants e)"
    and "set (typed_scalars b) \<subseteq> set (vb_scalar_variants b)"
proof -
  let ?body = "\<lambda>v b. obind (from_variant S n v) (\<lambda>format. push_variant_format S n v format b)"
  have run: "\<exists>e. rfold ?body (et_variants e) vb_default = (Ok b :: ('e, variants_by_format) outcome)
      \<and> sh_ty (S r) = Ty_User (User_Enum e)"
    using assms by (auto simp: variants_from_shape_def run_simps)
  have "rfold ?body vs c = (Ok b :: ('e, variants_by_format) outcome) \<Longrightarrow> mset (bucket_names b) = mset vs + mset (bucket_names c)" for vs c
    by (induction vs arbitrary: c) (auto simp: run_simps dest!: push_variant_buckets)
  with run assms(1) show "mset (bucket_names b) = mset (et_variants e)"
    by (fastforce simp: vb_default_def bucket_names_def)
  have "rfold ?body vs c = (Ok b :: ('e, variants_by_format) outcome) \<Longrightarrow> set (typed_scalars c) \<subseteq> set (vb_scalar_variants c)
      \<Longrightarrow> set (typed_scalars b) \<subseteq> set (vb_scalar_variants b)" for vs c
    by (erule rfold_invariant) (auto simp: run_simps dest!: push_variant_typed)
  with run show "set (typed_scalars b) \<subseteq> set (vb_scalar_variants b)"
    by (fastforce simp: vb_default_def typed_scalars_def)
qed

section \<open>Enough fuel\<close>

lemma classify_newtype_fuel:
  assumes "points S pr" and "\<And>r. pr r < n"
  shows "\<exists>f. classify_newtype S n r = (Ok f :: ('e, variant_format) outcome)"
proof -
  have d: "\<exists>t. deref_pointer S n r = (Ok t :: ('e, sref) outcome)" for r by (rule deref_pointer_fuel [OF assms])
  obtain t where t: "deref_pointer S n r = (Ok t :: ('e, sref) outcome)" using d by blast
  let ?c = "case get_metadata_container_value_shape S r of Some inner \<Rightarrow> inner | None \<Rightarrow> r"
  obtain u where u: "deref_pointer S n ?c = (Ok u :: ('e, sref) outcome)" using d by blast
  show ?thesis
    by (simp add: classify_newtype_def t u Let_def is_scalar_shape_def is_unit_enum_shape_def
        tuple_struct_arity_def is_named_struct_shape_def is_map_shape_def is_sequence_shape_def
        split: option.splits)
qed

lemma from_variant_fuel:
  assumes "points S pr" and "\<And>r. pr r < n"
  shows "\<exists>f. from_variant S n v = (Ok f :: ('e, variant_format) outcome)"
  using classify_newtype_fuel [OF assms, where 'e = 'e]
  by (auto simp: from_variant_def Let_def split: struct_kind.splits list.splits)

lemma variants_from_shape_fuel:
  assumes "points S pr" and "\<And>r. pr r < n"
  shows "variants_from_shape S n r \<noteq> (Overrun :: ('e, variants_by_format option) outcome)"
proof -
  have step: "obind (from_variant S n v) (\<lambda>format. push_variant_format S n v format b)
      \<noteq> (Overrun :: ('e, variants_by_format) outcome)" for v b
  proof -
    obtain f where "from_variant S n v = (Ok f :: ('e, variant_format) outcome)" using from_variant_fuel [OF assms] by blast
    moreover have "deref_pointer S n r \<noteq> (Overrun :: ('e, sref) outcome)" for r
    proof -
      obtain t where "deref_pointer S n r = (Ok t :: ('e, sref) outcome)"
        using deref_pointer_fuel [OF assms] by blast
      then show ?thesis by simp
    qed
    ultimately show ?thesis
      by (auto simp: push_variant_format_def run_simps Let_def split: variant_format.splits)
  qed
  have "rfold (\<lambda>v b. obind (from_variant S n v) (\<lambda>format. push_variant_format S n v format b)) vs b
      \<noteq> (Overrun :: ('e, variants_by_format) outcome)" for vs b by (rule rfold_no_overrun) (rule step)
  then show ?thesis
    by (auto simp: variants_from_shape_def run_simps split: facet_type.splits user_type.splits)
qed

text \<open>A variant's format decides which kinds of value it expects: at most one.\<close>

lemma deref_pointer_no_error: "deref_pointer S n r \<noteq> Err e"
  by (induction n arbitrary: r) (auto split: facet_def.splits option.splits)

lemma variants_from_shape_no_error: "variants_from_shape S n r \<noteq> Err e"
proof -
  have nt: "classify_newtype S n q \<noteq> Err e" for q and e :: 'a
    by (auto simp: classify_newtype_def Let_def run_simps deref_pointer_no_error is_scalar_shape_def
        is_unit_enum_shape_def tuple_struct_arity_def is_named_struct_shape_def is_map_shape_def
        is_sequence_shape_def split: option.splits if_splits)
  have step: "obind (from_variant S n v) (\<lambda>format. push_variant_format S n v format b) \<noteq> Err e"
    for v b and e :: 'a
    by (auto simp: from_variant_def push_variant_format_def run_simps nt deref_pointer_no_error Let_def
        split: struct_kind.splits list.splits variant_format.splits)
  have "rfold (\<lambda>v b. obind (from_variant S n v) (\<lambda>format. push_variant_format S n v format b)) vs b \<noteq> Err e"
    for vs b and e :: 'a
    by (induction vs arbitrary: b) (use step in \<open>auto simp: run_simps\<close>)
  then show ?thesis
    by (auto simp: variants_from_shape_def run_simps split: facet_type.splits user_type.splits)
qed

lemma variants_from_shape_Some:
  "variants_from_shape S n r = Ok b \<Longrightarrow> (b \<noteq> None) = (\<exists>e. sh_ty (S r) = Ty_User (User_Enum e))"
  by (auto simp: variants_from_shape_def run_simps split: facet_type.splits user_type.splits)

lemma expects_disjoint:
  "length (filter id [expects_scalar f, expects_sequence f, expects_mapping f, vf_is_unit f]) \<le> 1"
  by (cases f) simp_all

end
