(* ===== verification/Path_Steps.thy ===== *)
theory Path_Steps
  imports Shape
begin

text \<open>
  facet-path (src/lib.rs): paths through a type as lists of steps, their display, and the
  resolution of the field a path ends at. A step holds an index of 32 bits.
\<close>

section \<open>Paths\<close>

datatype path_step =
  Step_Field u32
| Step_Index u32
| Step_Variant u32
| Step_MapKey u32
| Step_MapValue u32
| Step_OptionSome
| Step_Deref
| Step_Inner
| Step_Proxy

record path =
  p_shape :: sref
  p_steps :: "path_step list"

definition path_new :: "sref \<Rightarrow> path" where
  "path_new r = \<lparr>p_shape = r, p_steps = []\<rparr>"

definition path_push :: "path \<Rightarrow> path_step \<Rightarrow> path" where
  "path_push p step = p\<lparr>p_steps := p_steps p @ [step]\<rparr>"

definition path_pop :: "path \<Rightarrow> path \<times> path_step option" where
  "path_pop p = (if p_steps p = [] then (p, None)
     else (p\<lparr>p_steps := butlast (p_steps p)\<rparr>, Some (last (p_steps p))))"

definition path_len :: "path \<Rightarrow> nat" where
  "path_len p = length (p_steps p)"

definition path_is_empty :: "path \<Rightarrow> bool" where
  "path_is_empty p \<longleftrightarrow> p_steps p = []"

definition path_eq :: "path \<Rightarrow> path \<Rightarrow> bool" where
  "path_eq a b \<longleftrightarrow> p_shape a = p_shape b \<and> p_steps a = p_steps b"

section \<open>Where a step leads\<close>

definition get_field_with_variant :: "shape \<Rightarrow> nat \<Rightarrow> nat option \<Rightarrow> field option" where
  "get_field_with_variant s idx variant_idx =
     (case sh_ty s of
        Ty_User (User_Struct sd) \<Rightarrow> nth_opt (st_fields sd) idx
      | Ty_User (User_Enum ed) \<Rightarrow>
          (case variant_idx of
             None \<Rightarrow> None
           | Some variant_idx \<Rightarrow>
               (case nth_opt (et_variants ed) variant_idx of
                  None \<Rightarrow> None
                | Some v \<Rightarrow> nth_opt (st_fields (v_data v)) idx))
      | _ \<Rightarrow> None)"

definition get_field_shape_with_variant :: "shape \<Rightarrow> nat \<Rightarrow> nat option \<Rightarrow> sref option" where
  "get_field_shape_with_variant s idx variant_idx =
     map_option f_shape (get_field_with_variant s idx variant_idx)"

definition get_field_name_with_variant :: "shape \<Rightarrow> nat \<Rightarrow> nat option \<Rightarrow> string option" where
  "get_field_name_with_variant s idx variant_idx =
     map_option f_name (get_field_with_variant s idx variant_idx)"

definition get_element_shape :: "shape \<Rightarrow> sref option" where
  "get_element_shape s =
     (case sh_def s of
        Def_List t \<Rightarrow> Some t | Def_Array t n \<Rightarrow> Some t | Def_Slice t \<Rightarrow> Some t | _ \<Rightarrow> None)"

definition get_variant_name :: "shape \<Rightarrow> nat \<Rightarrow> string option" where
  "get_variant_name s idx =
     (case sh_ty s of
        Ty_User (User_Enum ed) \<Rightarrow> map_option v_name (nth_opt (et_variants ed) idx)
      | _ \<Rightarrow> None)"

definition get_map_key_shape :: "shape \<Rightarrow> sref option" where
  "get_map_key_shape s = (case sh_def s of Def_Map k v \<Rightarrow> Some k | _ \<Rightarrow> None)"

definition get_map_value_shape :: "shape \<Rightarrow> sref option" where
  "get_map_value_shape s = (case sh_def s of Def_Map k v \<Rightarrow> Some v | _ \<Rightarrow> None)"

definition get_option_inner_shape :: "shape \<Rightarrow> sref option" where
  "get_option_inner_shape s = (case sh_def s of Def_Option t \<Rightarrow> Some t | _ \<Rightarrow> None)"

definition get_pointer_inner_shape :: "shape \<Rightarrow> sref option" where
  "get_pointer_inner_shape s = (case sh_def s of Def_Pointer pointee \<Rightarrow> pointee | _ \<Rightarrow> None)"

definition get_inner_shape :: "shape \<Rightarrow> sref option" where
  "get_inner_shape s = sh_inner s"

section \<open>Display\<close>

fun dec_digits :: "nat \<Rightarrow> string" where
  "dec_digits n =
     (if n < 10 then [char_of (48 + n)] else dec_digits (n div 10) @ [char_of (48 + n mod 10)])"

declare dec_digits.simps [simp del]

type_synonym format_state = "string \<times> sref \<times> nat option"

definition advance :: "sref \<Rightarrow> sref option \<Rightarrow> sref" where
  "advance current next = (case next of Some r \<Rightarrow> r | None \<Rightarrow> current)"

fun format_step :: "shapes \<Rightarrow> path_step \<Rightarrow> format_state \<Rightarrow> format_state" where
  "format_step S (Step_Field idx) (result, current, variant_idx) =
     (let idx = unat idx
      in ((case get_field_name_with_variant (S current) idx variant_idx of
             Some field_name \<Rightarrow>
               (if result \<noteq> [] then result @ ''.'' else result) @ field_name
           | None \<Rightarrow> result),
          advance current (get_field_shape_with_variant (S current) idx variant_idx), None))"
| "format_step S (Step_Index idx) (result, current, variant_idx) =
     (result @ ''['' @ dec_digits (unat idx) @ '']'',
      advance current (get_element_shape (S current)), None)"
| "format_step S (Step_Variant idx) (result, current, variant_idx) =
     (let idx = unat idx
      in ((case get_variant_name (S current) idx of
             Some variant_name \<Rightarrow> result @ ''::'' @ variant_name | None \<Rightarrow> result),
          current, Some idx))"
| "format_step S (Step_MapKey idx) (result, current, variant_idx) =
     (result @ ''[key#'' @ dec_digits (unat idx) @ '']'',
      advance current (get_map_key_shape (S current)), None)"
| "format_step S (Step_MapValue idx) (result, current, variant_idx) =
     (result @ ''[value#'' @ dec_digits (unat idx) @ '']'',
      advance current (get_map_value_shape (S current)), None)"
| "format_step S Step_OptionSome (result, current, variant_idx) =
     (result @ ''::Some'', advance current (get_option_inner_shape (S current)), None)"
| "format_step S Step_Deref (result, current, variant_idx) =
     (result, advance current (get_pointer_inner_shape (S current)), None)"
| "format_step S Step_Inner (result, current, variant_idx) =
     (result, advance current (get_inner_shape (S current)), None)"
| "format_step S Step_Proxy (result, current, variant_idx) =
     (result, advance current (effective_proxy (S current) None), None)"

definition format_with_shape :: "shapes \<Rightarrow> path \<Rightarrow> sref \<Rightarrow> string" where
  "format_with_shape S p r =
     (case fold (format_step S) (p_steps p) ([], r, None) of
        (result, _, _) \<Rightarrow> if result = [] then ''<root>'' else result)"

definition path_format :: "shapes \<Rightarrow> path \<Rightarrow> string" where
  "path_format S p = format_with_shape S p (p_shape p)"

section \<open>Resolution\<close>

fun resolve_step :: "shapes \<Rightarrow> path_step \<Rightarrow> sref \<times> nat option \<Rightarrow> (sref \<times> nat option) option" where
  "resolve_step S (Step_Field idx) (current, variant_idx) =
     map_option (\<lambda>r. (r, None)) (get_field_shape_with_variant (S current) (unat idx) variant_idx)"
| "resolve_step S (Step_Index idx) (current, variant_idx) =
     map_option (\<lambda>r. (r, None)) (get_element_shape (S current))"
| "resolve_step S (Step_Variant idx) (current, variant_idx) = Some (current, Some (unat idx))"
| "resolve_step S (Step_MapKey idx) (current, variant_idx) =
     map_option (\<lambda>r. (r, None)) (get_map_key_shape (S current))"
| "resolve_step S (Step_MapValue idx) (current, variant_idx) =
     map_option (\<lambda>r. (r, None)) (get_map_value_shape (S current))"
| "resolve_step S Step_OptionSome (current, variant_idx) =
     map_option (\<lambda>r. (r, None)) (get_option_inner_shape (S current))"
| "resolve_step S Step_Deref (current, variant_idx) =
     map_option (\<lambda>r. (r, None)) (get_pointer_inner_shape (S current))"
| "resolve_step S Step_Inner (current, variant_idx) =
     map_option (\<lambda>r. (r, None)) (get_inner_shape (S current))"
| "resolve_step S Step_Proxy (current, variant_idx) =
     map_option (\<lambda>r. (r, None)) (effective_proxy (S current) None)"

definition resolve_steps ::
    "shapes \<Rightarrow> path_step list \<Rightarrow> sref \<times> nat option \<Rightarrow> (sref \<times> nat option) option" where
  "resolve_steps S steps st = ofold (resolve_step S) steps st"

definition resolve_leaf_field :: "shapes \<Rightarrow> path \<Rightarrow> sref \<Rightarrow> field option" where
  "resolve_leaf_field S p r =
     (if p_steps p = [] then None
      else (case resolve_steps S (butlast (p_steps p)) (r, None) of
              None \<Rightarrow> None
            | Some (current, variant_idx) \<Rightarrow>
                (case last (p_steps p) of
                   Step_Field idx \<Rightarrow> get_field_with_variant (S current) (unat idx) variant_idx
                 | _ \<Rightarrow> None)))"

section \<open>Display and resolution follow the same shapes\<close>

lemma path_pop_push [simp]: "path_pop (path_push p s) = (p, Some s)"
  by (simp add: path_pop_def path_push_def)

lemma path_eq_iff: "path_eq a b \<longleftrightarrow> a = b"
  by (cases a; cases b) (simp add: path_eq_def)

lemma resolve_steps_Nil [simp]: "resolve_steps S [] st = Some st"
  by (simp add: resolve_steps_def)

lemma resolve_steps_append:
  "resolve_steps S (a @ b) st = Option.bind (resolve_steps S a st) (resolve_steps S b)"
  by (simp add: resolve_steps_def [abs_def] ofold_append)

lemma resolve_steps_Cons:
  "resolve_steps S (a # b) st = Option.bind (resolve_step S a st) (resolve_steps S b)"
  by (simp add: resolve_steps_def split: option.splits bind_split)

lemma format_step_resolve:
  assumes "resolve_step S step (r, v) = Some (r', v')"
  shows "\<exists>res'. format_step S step (res, r, v) = (res', r', v')"
  using assms by (cases step) (auto simp: advance_def Let_def)

lemma format_follows_resolve:
  "resolve_steps S steps (r, v) = Some (r', v')
     \<Longrightarrow> \<exists>res'. fold (format_step S) steps (res, r, v) = (res', r', v')"
proof (induction steps arbitrary: r v res)
  case Nil
  then show ?case by simp
next
  case (Cons a steps)
  then obtain r1 v1 where 1: "resolve_step S a (r, v) = Some (r1, v1)"
    "resolve_steps S steps (r1, v1) = Some (r', v')"
    by (auto simp: resolve_steps_Cons bind_eq_Some_conv)
  obtain res1 where "format_step S a (res, r, v) = (res1, r1, v1)"
    using format_step_resolve [OF 1(1)] by blast
  with Cons.IH [OF 1(2)] show ?case by simp
qed

lemma format_nonempty: "format_with_shape S p r \<noteq> []"
  by (simp add: format_with_shape_def split: prod.splits)

lemma resolve_leaf_field_push:
  "resolve_leaf_field S (path_push p (Step_Field i)) r =
     (case resolve_steps S (p_steps p) (r, None) of
        None \<Rightarrow> None
      | Some (c, v) \<Rightarrow> get_field_with_variant (S c) (unat i) v)"
  by (simp add: resolve_leaf_field_def path_push_def split: option.split)

text \<open>A path that ends at a field leads to that field's shape, and shows its name last.\<close>

lemma leaf_field_shape:
  assumes "resolve_leaf_field S p r = Some f"
  shows "resolve_steps S (p_steps p) (r, None) = Some (f_shape f, None)"
proof -
  have ne: "p_steps p \<noteq> []" using assms by (auto simp: resolve_leaf_field_def)
  from assms ne obtain c v i where cv: "resolve_steps S (butlast (p_steps p)) (r, None) = Some (c, v)"
    "last (p_steps p) = Step_Field i" "get_field_with_variant (S c) (unat i) v = Some f"
    by (auto simp: resolve_leaf_field_def split: option.splits path_step.splits)
  have "p_steps p = butlast (p_steps p) @ [Step_Field i]" using ne cv(2) by (metis append_butlast_last_id)
  then have "resolve_steps S (p_steps p) (r, None)
      = Option.bind (resolve_steps S (butlast (p_steps p)) (r, None)) (resolve_steps S [Step_Field i])"
    by (metis resolve_steps_append)
  with cv show ?thesis by (simp add: resolve_steps_Cons get_field_shape_with_variant_def)
qed

lemma leaf_field_format:
  assumes "resolve_leaf_field S p r = Some f"
  shows "\<exists>prefix. format_with_shape S p r = prefix @ f_name f \<or> f_name f = []"
proof -
  have ne: "p_steps p \<noteq> []" using assms by (auto simp: resolve_leaf_field_def)
  from assms ne obtain c v i where cv: "resolve_steps S (butlast (p_steps p)) (r, None) = Some (c, v)"
    "last (p_steps p) = Step_Field i" "get_field_with_variant (S c) (unat i) v = Some f"
    by (auto simp: resolve_leaf_field_def split: option.splits path_step.splits)
  obtain res where res: "fold (format_step S) (butlast (p_steps p)) ([], r, None) = (res, c, v)"
    using format_follows_resolve [OF cv(1)] by blast
  have "p_steps p = butlast (p_steps p) @ [Step_Field i]" using ne cv(2) by (metis append_butlast_last_id)
  then have "fold (format_step S) (p_steps p) ([], r, None)
      = format_step S (Step_Field i) (fold (format_step S) (butlast (p_steps p)) ([], r, None))"
    by (metis comp_apply fold_append fold_simps)
  with res cv(3) show ?thesis
    by (auto simp: format_with_shape_def get_field_name_with_variant_def Let_def)
qed

end
