(* ===== verification/Walk.thy ===== *)
theory Walk
  imports Path_Steps
begin

text \<open>
  The shape visitor of facet-path (src/walk.rs): a depth-first walk of a type that calls
  \<open>enter\<close> and \<open>leave\<close> at each node, may be stopped by the visitor, and does not recurse into
  a type that is already on the current path. The visitor is a state with two functions on
  it; the walk returns whether it was stopped, with the state of the visitor, the path and
  the ancestors.
\<close>

section \<open>The walk\<close>

datatype visit_decision = Visit_Recurse | Visit_SkipChildren | Visit_Stop

datatype walk_status = Walk_Completed | Walk_Stopped

record 'v visitor =
  vi_enter :: "'v \<Rightarrow> path_step list \<Rightarrow> sref \<Rightarrow> 'v \<times> visit_decision"
  vi_leave :: "'v \<Rightarrow> path_step list \<Rightarrow> sref \<Rightarrow> 'v"

record 'v walk_state =
  ws_visitor :: 'v
  ws_path :: "path_step list"
  ws_ancestors :: "type_id list"

text \<open>The children of a shape in the order of the walk, with the steps pushed before each.
  \<open>Def::Option\<close> takes priority, then the fields and variants of the type, then the
  container, then the transparent inner type.\<close>

definition struct_children :: "field list \<Rightarrow> (path_step list \<times> sref) list" where
  "struct_children fs =
     map (\<lambda>(i, f). ([Step_Field (of_nat i)], f_shape f)) (enumerate 0 fs)"

definition enum_children :: "variant list \<Rightarrow> (path_step list \<times> sref) list" where
  "enum_children variants =
     concat (map (\<lambda>(vi, v). map (\<lambda>(fi, f).
         ([Step_Variant (of_nat vi), Step_Field (of_nat fi)], f_shape f))
       (enumerate 0 (st_fields (v_data v)))) (enumerate 0 variants))"

definition inner_children :: "shape \<Rightarrow> (path_step list \<times> sref) list" where
  "inner_children s = (case sh_inner s of Some inner \<Rightarrow> [([Step_Inner], inner)] | None \<Rightarrow> [])"

definition def_children :: "shape \<Rightarrow> (path_step list \<times> sref) list" where
  "def_children s =
     (case sh_def s of
        Def_List t \<Rightarrow> [([Step_Index 0], t)]
      | Def_Array t n \<Rightarrow> [([Step_Index 0], t)]
      | Def_Slice t \<Rightarrow> [([Step_Index 0], t)]
      | Def_NdArray t \<Rightarrow> [([Step_Index 0], t)]
      | Def_Set t \<Rightarrow> [([Step_Index 0], t)]
      | Def_Map k v \<Rightarrow> [([Step_MapKey 0], k), ([Step_MapValue 0], v)]
      | Def_Option t \<Rightarrow> [([Step_OptionSome], t)]
      | Def_Result t e \<Rightarrow>
          [([Step_Variant 0, Step_Field 0], t), ([Step_Variant 1, Step_Field 0], e)]
      | Def_Pointer (Some pointee) \<Rightarrow> [([Step_Deref], pointee)]
      | _ \<Rightarrow> inner_children s)"

definition children :: "shape \<Rightarrow> (path_step list \<times> sref) list" where
  "children s =
     (case sh_def s of
        Def_Option t \<Rightarrow> [([Step_OptionSome], t)]
      | _ \<Rightarrow>
          (case sh_ty s of
             Ty_User (User_Struct st) \<Rightarrow> struct_children (st_fields st)
           | Ty_User (User_Enum et) \<Rightarrow> enum_children (et_variants et)
           | _ \<Rightarrow> def_children s))"

text \<open>The loop over the children: push the steps, walk, return at once if stopped, pop.\<close>

type_synonym 'v walker =
  "sref \<Rightarrow> 'v walk_state \<Rightarrow> (unit, bool \<times> 'v walk_state) outcome"

fun walk_children ::
    "'v walker \<Rightarrow> (path_step list \<times> sref) list \<Rightarrow> 'v walk_state
      \<Rightarrow> (unit, bool \<times> 'v walk_state) outcome" where
  "walk_children walk [] ws = Ok (False, ws)"
| "walk_children walk ((steps, r) # cs) ws =
     obind (walk r (ws\<lparr>ws_path := ws_path ws @ steps\<rparr>)) (\<lambda>(stopped, ws).
       if stopped then Ok (True, ws)
       else walk_children walk cs
              (ws\<lparr>ws_path := take (length (ws_path ws) - length steps) (ws_path ws)\<rparr>))"

definition call_leave :: "'v visitor \<Rightarrow> sref \<Rightarrow> 'v walk_state \<Rightarrow> 'v walk_state" where
  "call_leave vi r ws = ws\<lparr>ws_visitor := vi_leave vi (ws_visitor ws) (ws_path ws) r\<rparr>"

fun walk_recursive :: "shapes \<Rightarrow> 'v visitor \<Rightarrow> nat \<Rightarrow> 'v walker" where
  "walk_recursive S vi 0 r ws = Overrun"
| "walk_recursive S vi (Suc n) r ws =
     (let is_cycle = sh_id (S r) \<in> set (ws_ancestors ws);
          (v, decision) = vi_enter vi (ws_visitor ws) (ws_path ws) r;
          ws = ws\<lparr>ws_visitor := v\<rparr>
      in case decision of
           Visit_Stop \<Rightarrow> Ok (True, ws)
         | Visit_SkipChildren \<Rightarrow> Ok (False, call_leave vi r ws)
         | Visit_Recurse \<Rightarrow>
             if is_cycle then Ok (False, call_leave vi r ws)
             else obind (walk_children (walk_recursive S vi n) (children (S r))
                      (ws\<lparr>ws_ancestors := ws_ancestors ws @ [sh_id (S r)]\<rparr>))
                    (\<lambda>(stopped, ws).
                      let ws = ws\<lparr>ws_ancestors := butlast (ws_ancestors ws)\<rparr>
                      in Ok (stopped, if \<not> stopped then call_leave vi r ws else ws)))"

definition walk_shape :: "shapes \<Rightarrow> 'v visitor \<Rightarrow> nat \<Rightarrow> sref \<Rightarrow> 'v \<Rightarrow> (unit, 'v \<times> walk_status) outcome"
  where
  "walk_shape S vi n r v =
     obind (walk_recursive S vi n r \<lparr>ws_visitor = v, ws_path = [], ws_ancestors = []\<rparr>)
       (\<lambda>(stopped, ws). Ok (ws_visitor ws, if stopped then Walk_Stopped else Walk_Completed))"

lemma walk_shape_run:
  assumes "walk_shape S vi n r v = Ok (v', status)"
  obtains st ws where "walk_recursive S vi n r \<lparr>ws_visitor = v, ws_path = [], ws_ancestors = []\<rparr> = Ok (st, ws)"
    and "v' = ws_visitor ws" and "status = (if st then Walk_Stopped else Walk_Completed)"
  using assms unfolding walk_shape_def by (auto simp only: run_simps split: prod.splits)

section \<open>The path and the ancestors are restored\<close>

definition restores :: "'v walker \<Rightarrow> bool" where
  "restores walk \<longleftrightarrow> (\<forall>r ws stopped ws'. walk r ws = Ok (stopped, ws') \<longrightarrow>
     ws_ancestors ws' = ws_ancestors ws \<and> (\<not> stopped \<longrightarrow> ws_path ws' = ws_path ws))"

lemma restoresD:
  "restores walk \<Longrightarrow> walk r ws = Ok (stopped, ws') \<Longrightarrow> ws_ancestors ws' = ws_ancestors ws"
  "restores walk \<Longrightarrow> walk r ws = Ok (False, ws') \<Longrightarrow> ws_path ws' = ws_path ws"
  by (auto simp: restores_def)

lemma walk_children_restores:
  assumes "restores walk" and "walk_children walk cs ws = Ok (stopped, ws')"
  shows "ws_ancestors ws' = ws_ancestors ws \<and> (\<not> stopped \<longrightarrow> ws_path ws' = ws_path ws)"
  using assms(2)
proof (induction cs arbitrary: ws)
  case Nil
  then show ?case by simp
next
  case (Cons c cs)
  obtain steps r where c: "c = (steps, r)" by (cases c)
  from Cons.prems obtain st ws1 where 1: "walk r (ws\<lparr>ws_path := ws_path ws @ steps\<rparr>) = Ok (st, ws1)"
    by (auto simp: c run_simps)
  show ?case
  proof (cases st)
    case True
    with Cons.prems 1 restoresD(1) [OF assms(1) 1] show ?thesis by (auto simp: c)
  next
    case False
    have "ws_path ws1 = ws_path ws @ steps" using restoresD(2) [OF assms(1)] 1 False by fastforce
    moreover have "ws_ancestors ws1 = ws_ancestors ws" using restoresD(1) [OF assms(1) 1] by simp
    moreover from Cons.prems 1 False have "walk_children walk cs
        (ws1\<lparr>ws_path := take (length (ws_path ws1) - length steps) (ws_path ws1)\<rparr>) = Ok (stopped, ws')"
      by (simp add: c)
    ultimately show ?thesis using Cons.IH by fastforce
  qed
qed

lemma call_leave_simps [simp]:
  "ws_path (call_leave vi r ws) = ws_path ws" "ws_ancestors (call_leave vi r ws) = ws_ancestors ws"
  "ws_visitor (call_leave vi r ws) = vi_leave vi (ws_visitor ws) (ws_path ws) r"
  by (simp_all add: call_leave_def)

lemma walk_restores: "restores (walk_recursive S vi n)"
proof (induction n)
  case 0
  then show ?case by (simp add: restores_def)
next
  case (Suc n)
  show ?case unfolding restores_def
    by (auto simp: run_simps Let_def split: prod.splits visit_decision.splits if_splits
        dest!: walk_children_restores [OF Suc.IH])
qed

section \<open>What the visitor sees\<close>

text \<open>An invariant of the visitor that holds at every callback whose path leads to its shape
  holds throughout the walk. The steps lead from the root when \<open>resolve_steps\<close> follows
  them.\<close>

definition leads :: "shapes \<Rightarrow> sref \<Rightarrow> path_step list \<Rightarrow> sref \<Rightarrow> bool" where
  "leads S root steps r \<longleftrightarrow> resolve_steps S steps (root, None) = Some (r, None)"

definition followable :: "shapes \<Rightarrow> bool" where
  "followable S \<longleftrightarrow> (\<forall>r steps t. (steps, t) \<in> set (children (S r)) \<longrightarrow>
     resolve_steps S steps (r, None) = Some (t, None))"

lemma leads_child:
  assumes "followable S" and "leads S root p r" and "(steps, t) \<in> set (children (S r))"
  shows "leads S root (p @ steps) t"
  using assms by (auto simp: leads_def followable_def resolve_steps_append)

locale visitor_invariant =
  fixes S :: shapes and root :: sref and vi :: "'v visitor" and I :: "'v \<Rightarrow> bool"
  assumes enter_I: "I v \<Longrightarrow> leads S root p r \<Longrightarrow> I (fst (vi_enter vi v p r))"
    and leave_I: "I v \<Longrightarrow> leads S root p r \<Longrightarrow> I (vi_leave vi v p r)"
begin

definition keeps :: "'v walker \<Rightarrow> bool" where
  "keeps walk \<longleftrightarrow> (\<forall>r ws stopped ws'. I (ws_visitor ws) \<longrightarrow> leads S root (ws_path ws) r \<longrightarrow>
     walk r ws = Ok (stopped, ws') \<longrightarrow> I (ws_visitor ws'))"

lemma keepsD: "keeps walk \<Longrightarrow> I (ws_visitor ws) \<Longrightarrow> leads S root (ws_path ws) r \<Longrightarrow>
    walk r ws = Ok (stopped, ws') \<Longrightarrow> I (ws_visitor ws')"
  by (auto simp: keeps_def)

lemma children_keep:
  assumes walk: "keeps walk" "restores walk"
    and run: "walk_children walk cs ws = Ok (stopped, ws')" and I: "I (ws_visitor ws)"
    and cs: "\<And>steps t. (steps, t) \<in> set cs \<Longrightarrow> leads S root (ws_path ws @ steps) t"
  shows "I (ws_visitor ws')"
  using run I cs
proof (induction cs arbitrary: ws)
  case Nil
  then show ?case by simp
next
  case (Cons c cs)
  obtain steps r where c: "c = (steps, r)" by (cases c)
  from Cons.prems obtain st ws1 where 1: "walk r (ws\<lparr>ws_path := ws_path ws @ steps\<rparr>) = Ok (st, ws1)"
    by (auto simp: c run_simps)
  have I1: "I (ws_visitor ws1)"
    by (rule keepsD [OF walk(1) _ _ 1]) (use Cons.prems c in simp_all)
  show ?case
  proof (cases st)
    case True
    with Cons.prems 1 I1 show ?thesis by (simp add: c)
  next
    case False
    have p: "ws_path ws1 = ws_path ws @ steps" using restoresD(2) [OF walk(2)] 1 False by fastforce
    from Cons.prems 1 False have "walk_children walk cs
        (ws1\<lparr>ws_path := take (length (ws_path ws1) - length steps) (ws_path ws1)\<rparr>) = Ok (stopped, ws')"
      by (simp add: c)
    from Cons.IH [OF this] I1 Cons.prems(3) show ?thesis by (simp add: p)
  qed
qed

lemma walk_keeps:
  assumes follow: "followable S"
  shows "keeps (walk_recursive S vi n)"
proof (induction n)
  case 0
  then show ?case by (simp add: keeps_def)
next
  case (Suc n)
  show ?case unfolding keeps_def
  proof (intro allI impI)
    fix r ws stopped ws'
    assume I: "I (ws_visitor ws)" and p: "leads S root (ws_path ws) r"
      and run: "walk_recursive S vi (Suc n) r ws = Ok (stopped, ws')"
    obtain v d where e: "vi_enter vi (ws_visitor ws) (ws_path ws) r = (v, d)" by fastforce
    have v: "I v" using enter_I [OF I p] e by simp
    let ?ws = "ws\<lparr>ws_visitor := v, ws_ancestors := ws_ancestors ws @ [sh_id (S r)]\<rparr>"
    have leave: "I (vi_leave vi v (ws_path ws) r)" by (rule leave_I [OF v p])
    show "I (ws_visitor ws')"
    proof (cases "d = Visit_Recurse \<and> sh_id (S r) \<notin> set (ws_ancestors ws)")
      case True
      with run e obtain ws1 where 1: "walk_children (walk_recursive S vi n) (children (S r)) ?ws
          = Ok (stopped, ws1)"
        and ws': "ws' = (let ws = ws1\<lparr>ws_ancestors := butlast (ws_ancestors ws1)\<rparr>
            in if \<not> stopped then call_leave vi r ws else ws)"
        by (auto simp: run_simps Let_def)
      have I1: "I (ws_visitor ws1)"
        by (rule children_keep [OF Suc.IH walk_restores 1])
          (use v leads_child [OF follow p] in simp_all)
      have "\<not> stopped \<Longrightarrow> ws_path ws1 = ws_path ws"
        using walk_children_restores [OF walk_restores 1] by simp
      with I1 p show ?thesis by (auto simp: ws' Let_def intro: leave_I)
    next
      case False
      with run e v leave show ?thesis
        by (auto simp: Let_def split: visit_decision.splits if_splits)
    qed
  qed
qed

lemma walk_shape_keeps:
  assumes "followable S" and "I v" and "walk_shape S vi n root v = Ok (v', status)"
  shows "I v'"
proof -
  obtain st ws where ws: "walk_recursive S vi n root \<lparr>ws_visitor = v, ws_path = [], ws_ancestors = []\<rparr>
      = Ok (st, ws)" "v' = ws_visitor ws"
    by (rule walk_shape_run [OF assms(3)])
  have "I (ws_visitor ws)"
    by (rule keepsD [OF walk_keeps [OF assms(1)] _ _ ws(1)]) (use assms(2) in \<open>simp_all add: leads_def\<close>)
  then show ?thesis by (simp add: ws(2))
qed

end

text \<open>Resolution follows every step but the element steps of sets and multi-dimensional arrays
  and the variant steps of \<open>Result\<close>, on types that have no fields or variants of their own;
  and no type has more fields or variants than a step can index.\<close>

definition structural :: "shape \<Rightarrow> bool" where
  "structural s = (case sh_ty s of Ty_User (User_Struct _) \<Rightarrow> True | Ty_User (User_Enum _) \<Rightarrow> True
     | _ \<Rightarrow> False)"

lemma structural_cases: "structural s \<Longrightarrow>
    (\<exists>st. sh_ty s = Ty_User (User_Struct st)) \<or> (\<exists>e. sh_ty s = Ty_User (User_Enum e))"
  by (simp add: structural_def split: facet_type.splits user_type.splits)

lemma match_not_structural: "\<not> structural s \<Longrightarrow>
    (case sh_ty s of Ty_User (User_Struct st) \<Rightarrow> a st | Ty_User (User_Enum e) \<Rightarrow> b e | _ \<Rightarrow> c) = c"
  by (simp add: structural_def split: facet_type.splits user_type.splits)

definition resolvable :: "shape \<Rightarrow> bool" where
  "resolvable s \<longleftrightarrow>
     (structural s \<or> (case sh_def s of
        Def_Set _ \<Rightarrow> False | Def_NdArray _ \<Rightarrow> False | Def_Result _ _ \<Rightarrow> False | _ \<Rightarrow> True))
     \<and> (\<forall>st. sh_ty s = Ty_User (User_Struct st) \<longrightarrow> length (st_fields st) < 2 ^ 32)
     \<and> (\<forall>e. sh_ty s = Ty_User (User_Enum e) \<longrightarrow> length (et_variants e) < 2 ^ 32
          \<and> (\<forall>v \<in> set (et_variants e). length (st_fields (v_data v)) < 2 ^ 32))"

lemma unat_index: "i < n \<Longrightarrow> n < 2 ^ 32 \<Longrightarrow> unat (of_nat i :: u32) = i"
  by (simp add: unat_of_nat take_bit_nat_eq_self)

lemma struct_children_mem: "(steps, t) \<in> set (struct_children fs) \<Longrightarrow>
    \<exists>i < length fs. steps = [Step_Field (of_nat i)] \<and> t = f_shape (fs ! i)"
  by (auto simp: struct_children_def in_set_enumerate_eq)

lemma enum_children_mem: "(steps, t) \<in> set (enum_children vs) \<Longrightarrow>
    \<exists>j i. j < length vs \<and> i < length (st_fields (v_data (vs ! j)))
      \<and> steps = [Step_Variant (of_nat j), Step_Field (of_nat i)]
      \<and> t = f_shape (st_fields (v_data (vs ! j)) ! i)"
  by (auto simp: enum_children_def in_set_enumerate_eq) blast

lemma def_children_resolve:
  assumes "(steps, t) \<in> set (def_children (S r))" and "case sh_def (S r) of
      Def_Set _ \<Rightarrow> False | Def_NdArray _ \<Rightarrow> False | Def_Result _ _ \<Rightarrow> False | _ \<Rightarrow> True"
  shows "resolve_steps S steps (r, None) = Some (t, None)"
  using assms
  by (cases "sh_def (S r)"; cases "sh_inner (S r)")
    (auto simp: def_children_def inner_children_def resolve_steps_Cons get_element_shape_def
      get_map_key_shape_def get_map_value_shape_def get_option_inner_shape_def
      get_pointer_inner_shape_def get_inner_shape_def split: option.splits)

lemma children_resolve:
  assumes ok: "resolvable (S r)" and child: "(steps, t) \<in> set (children (S r))"
  shows "resolve_steps S steps (r, None) = Some (t, None)"
proof (cases "\<exists>u. sh_def (S r) = Def_Option u")
  case True
  with child show ?thesis
    by (auto simp: children_def resolve_steps_Cons get_option_inner_shape_def)
next
  case False
  then have c: "children (S r) = (case sh_ty (S r) of
      Ty_User (User_Struct st) \<Rightarrow> struct_children (st_fields st)
    | Ty_User (User_Enum et) \<Rightarrow> enum_children (et_variants et)
    | _ \<Rightarrow> def_children (S r))"
    by (auto simp: children_def split: facet_def.splits)
  consider (struct) st where "sh_ty (S r) = Ty_User (User_Struct st)"
    | (enum) e where "sh_ty (S r) = Ty_User (User_Enum e)"
    | (other) "\<not> structural (S r)"
    using structural_cases by blast
  then show ?thesis
  proof cases
    case struct
    with child c obtain i where "i < length (st_fields st)" "steps = [Step_Field (of_nat i)]"
      "t = f_shape (st_fields st ! i)" by (auto dest: struct_children_mem)
    with struct ok show ?thesis
      by (simp add: resolve_steps_Cons get_field_shape_with_variant_def get_field_with_variant_def
          resolvable_def unat_index)
  next
    case enum
    with child c obtain j i where ji: "j < length (et_variants e)"
      "i < length (st_fields (v_data (et_variants e ! j)))"
      "steps = [Step_Variant (of_nat j), Step_Field (of_nat i)]"
      "t = f_shape (st_fields (v_data (et_variants e ! j)) ! i)" by (auto dest: enum_children_mem)
    moreover have "length (et_variants e) < 2 ^ 32"
      "length (st_fields (v_data (et_variants e ! j))) < 2 ^ 32"
      using ok enum ji(1) by (simp_all add: resolvable_def)
    ultimately show ?thesis using enum
      by (simp add: resolve_steps_Cons get_field_shape_with_variant_def get_field_with_variant_def
          unat_index)
  next
    case other
    then have "children (S r) = def_children (S r)"
      unfolding c by (rule match_not_structural)
    with child ok other show ?thesis by (auto simp: resolvable_def intro: def_children_resolve)
  qed
qed

lemma followable_resolvable: "(\<And>r. resolvable (S r)) \<Longrightarrow> followable S"
  by (auto simp: followable_def intro: children_resolve)

text \<open>The steps that do not resolve.\<close>

lemma unresolved_child:
  assumes "\<not> structural (S r)"
    and "sh_def (S r) = Def_Set t \<or> sh_def (S r) = Def_NdArray t \<or> sh_def (S r) = Def_Result t u"
  shows "\<exists>p. (p, t) \<in> set (children (S r)) \<and> resolve_steps S p (r, None) = None"
proof -
  have "children (S r) = def_children (S r)"
    using assms(2) match_not_structural [OF assms(1)] by (auto simp: children_def)
  moreover have "get_field_with_variant (S r) i v = None" for i v
    using assms(1) by (auto simp: get_field_with_variant_def structural_def
        split: facet_type.splits user_type.splits)
  ultimately show ?thesis
    using assms(2) by (auto simp: def_children_def resolve_steps_Cons get_element_shape_def
        get_field_shape_with_variant_def)
qed

section \<open>Cycle detection ends the walk\<close>

text \<open>However the shapes refer to each other, a walk is no deeper than the number of the
  types: fuel for one more than the types that are reachable is enough.\<close>

definition reachable_ids :: "shapes \<Rightarrow> type_id set \<Rightarrow> sref set \<Rightarrow> bool" where
  "reachable_ids S ids R \<longleftrightarrow> finite ids \<and> (\<forall>r \<in> R. sh_id (S r) \<in> ids
     \<and> (\<forall>(steps, t) \<in> set (children (S r)). t \<in> R))"

lemma walk_children_fuel:
  assumes "\<And>steps t ws. (steps, t) \<in> set cs \<Longrightarrow> ws_ancestors ws = a \<Longrightarrow> walk t ws \<noteq> Overrun"
    and "restores walk" and "ws_ancestors ws = a"
  shows "walk_children walk cs ws \<noteq> Overrun"
  using assms(1,3)
proof (induction cs arbitrary: ws)
  case Nil
  then show ?case by simp
next
  case (Cons c cs)
  obtain steps r where c: "c = (steps, r)" by (cases c)
  let ?ws = "ws\<lparr>ws_path := ws_path ws @ steps\<rparr>"
  have "walk r ?ws \<noteq> Overrun" by (rule Cons.prems(1)) (use c Cons.prems(2) in auto)
  moreover have "walk_children walk cs
      (ws1\<lparr>ws_path := take (length (ws_path ws1) - length steps) (ws_path ws1)\<rparr>) \<noteq> Overrun"
    if "walk r ?ws = Ok (st, ws1)" for st ws1
    by (rule Cons.IH) (use Cons.prems restoresD(1) [OF assms(2) that] in auto)
  ultimately show ?case by (auto simp: c run_simps)
qed

lemma walk_fuel:
  assumes reach: "reachable_ids S ids R"
  shows "r \<in> R \<Longrightarrow> set (ws_ancestors ws) \<subseteq> ids \<Longrightarrow> card (ids - set (ws_ancestors ws)) < n
    \<Longrightarrow> walk_recursive S vi n r ws \<noteq> Overrun"
proof (induction n arbitrary: r ws)
  case 0
  then show ?case by simp
next
  case (Suc n)
  obtain v d where e: "vi_enter vi (ws_visitor ws) (ws_path ws) r = (v, d)" by fastforce
  have id: "sh_id (S r) \<in> ids" and fin: "finite ids" using reach Suc.prems(1) by (auto simp: reachable_ids_def)
  let ?ws = "ws\<lparr>ws_visitor := v, ws_ancestors := ws_ancestors ws @ [sh_id (S r)]\<rparr>"
  have "walk_children (walk_recursive S vi n) (children (S r)) ?ws \<noteq> Overrun"
    if fresh: "sh_id (S r) \<notin> set (ws_ancestors ws)"
  proof (rule walk_children_fuel [where a = "ws_ancestors ?ws", OF _ walk_restores])
    fix steps t and ws' :: "'a walk_state"
    assume t: "(steps, t) \<in> set (children (S r))" and a: "ws_ancestors ws' = ws_ancestors ?ws"
    show "walk_recursive S vi n t ws' \<noteq> Overrun"
    proof (rule Suc.IH)
      show "t \<in> R" using reach Suc.prems(1) t by (auto simp: reachable_ids_def)
      show "set (ws_ancestors ws') \<subseteq> ids" using a id Suc.prems(2) by simp
      have "ids - set (ws_ancestors ws') \<subset> ids - set (ws_ancestors ws)"
        using a id fresh by auto
      then have "card (ids - set (ws_ancestors ws')) < card (ids - set (ws_ancestors ws))"
        using fin by (simp add: psubset_card_mono)
      with Suc.prems(3) show "card (ids - set (ws_ancestors ws')) < n" by simp
    qed
  qed simp
  with e show ?case by (auto simp: Let_def run_simps split: visit_decision.splits)
qed

lemma walk_children_no_error:
  "(\<And>r ws e. walk r ws \<noteq> Err e) \<Longrightarrow> walk_children walk cs ws \<noteq> Err e"
  by (induction cs arbitrary: ws) (auto simp: run_simps split: if_splits)

lemma walk_no_error: "walk_recursive S vi n r ws \<noteq> Err e"
proof (induction n arbitrary: r ws e)
  case (Suc n)
  have "walk_children (walk_recursive S vi n) cs ws \<noteq> Err e" for cs ws e
    using walk_children_no_error Suc.IH by blast
  then show ?case by (auto simp: run_simps Let_def split: prod.splits visit_decision.splits)
qed simp

lemma walk_shape_fuel:
  assumes "reachable_ids S ids R" and "r \<in> R" and "card ids < n"
  shows "\<exists>v' status. walk_shape S vi n r v = (Ok (v', status) :: (unit, 'v \<times> walk_status) outcome)"
proof -
  let ?ws = "\<lparr>ws_visitor = v, ws_path = [], ws_ancestors = []\<rparr>"
  have "walk_recursive S vi n r ?ws \<noteq> (Overrun :: (unit, bool \<times> 'v walk_state) outcome)"
    by (rule walk_fuel [OF assms(1,2)]) (use assms(3) in simp_all)
  moreover have "walk_recursive S vi n r ?ws \<noteq> (Err e :: (unit, bool \<times> 'v walk_state) outcome)" for e
    using walk_no_error by blast
  ultimately show ?thesis
    by (cases "walk_recursive S vi n r ?ws :: (unit, bool \<times> 'v walk_state) outcome")
      (auto simp: walk_shape_def split: prod.splits)
qed

section \<open>The trace of a walk\<close>

text \<open>A visitor that decides by the path and the shape, and records its callbacks.\<close>

datatype event = Enter "path_step list" sref | Leave "path_step list" sref

definition recorder :: "(path_step list \<Rightarrow> sref \<Rightarrow> visit_decision) \<Rightarrow> event list visitor" where
  "recorder decide = \<lparr>vi_enter = (\<lambda>es p r. (es @ [Enter p r], decide p r)),
     vi_leave = (\<lambda>es p r. es @ [Leave p r])\<rparr>"

lemma recorder_simps [simp]:
  "vi_enter (recorder d) es p r = (es @ [Enter p r], d p r)"
  "vi_leave (recorder d) es p r = es @ [Leave p r]"
  by (simp_all add: recorder_def)

fun event_leads :: "shapes \<Rightarrow> sref \<Rightarrow> event \<Rightarrow> bool" where
  "event_leads S root (Enter p r) \<longleftrightarrow> leads S root p r"
| "event_leads S root (Leave p r) \<longleftrightarrow> leads S root p r"

interpretation recording: visitor_invariant S root "recorder decide" "list_all (event_leads S root)"
  for S root decide
  by unfold_locales simp_all

text \<open>Enters and leaves nest: replayed as a stack, each leave closes the last open enter.\<close>

fun replay :: "event list \<Rightarrow> (path_step list \<times> sref) list \<Rightarrow> (path_step list \<times> sref) list option" where
  "replay [] st = Some st"
| "replay (Enter p r # es) st = replay es ((p, r) # st)"
| "replay (Leave p r # es) st =
     (case st of [] \<Rightarrow> None | e # st \<Rightarrow> if e = (p, r) then replay es st else None)"

lemma replay_append: "replay (a @ b) st = Option.bind (replay a st) (replay b)"
  by (induction a st rule: replay.induct) (auto split: list.splits)

definition nests :: "event list walker \<Rightarrow> bool" where
  "nests walk \<longleftrightarrow> (\<forall>r ws ws'. walk r ws = Ok (False, ws') \<longrightarrow>
     (\<exists>es. ws_visitor ws' = ws_visitor ws @ es \<and> (\<forall>st. replay es st = Some st)))"

lemma nestsD: "nests walk \<Longrightarrow> walk r ws = Ok (False, ws') \<Longrightarrow>
    \<exists>es. ws_visitor ws' = ws_visitor ws @ es \<and> (\<forall>st. replay es st = Some st)"
  by (auto simp: nests_def)

lemma children_nest:
  assumes "nests walk" and "walk_children walk cs ws = Ok (False, ws')"
  shows "\<exists>es. ws_visitor ws' = ws_visitor ws @ es \<and> (\<forall>st. replay es st = Some st)"
  using assms(2)
proof (induction cs arbitrary: ws)
  case Nil
  then show ?case by simp
next
  case (Cons c cs)
  obtain steps r where c: "c = (steps, r)" by (cases c)
  from Cons.prems obtain ws1 where 1: "walk r (ws\<lparr>ws_path := ws_path ws @ steps\<rparr>) = Ok (False, ws1)"
    and 2: "walk_children walk cs
        (ws1\<lparr>ws_path := take (length (ws_path ws1) - length steps) (ws_path ws1)\<rparr>) = Ok (False, ws')"
    by (auto simp: c run_simps split: if_splits)
  from nestsD [OF assms(1) 1] Cons.IH [OF 2] show ?case
    by (fastforce simp: replay_append)
qed

lemma walk_nests: "nests (walk_recursive S (recorder decide) n)"
proof (induction n)
  case 0
  then show ?case by (simp add: nests_def)
next
  case (Suc n)
  show ?case unfolding nests_def
  proof (intro allI impI)
    fix r ws ws'
    assume run: "walk_recursive S (recorder decide) (Suc n) r ws = Ok (False, ws')"
    let ?p = "ws_path ws"
    let ?ws = "ws\<lparr>ws_visitor := ws_visitor ws @ [Enter ?p r], ws_ancestors := ws_ancestors ws @ [sh_id (S r)]\<rparr>"
    have "\<exists>es. ws_visitor ws' = ws_visitor ws @ [Enter ?p r] @ es @ [Leave ?p r]
        \<and> (\<forall>st. replay es st = Some st)"
    proof (cases "decide ?p r = Visit_Recurse \<and> sh_id (S r) \<notin> set (ws_ancestors ws)")
      case True
      with run obtain ws1 where 1: "walk_children (walk_recursive S (recorder decide) n)
          (children (S r)) ?ws = Ok (False, ws1)"
        and ws': "ws' = call_leave (recorder decide) r (ws1\<lparr>ws_ancestors := butlast (ws_ancestors ws1)\<rparr>)"
        by (auto simp: run_simps Let_def)
      have "ws_path ws1 = ?p" using walk_children_restores [OF walk_restores 1] by simp
      with children_nest [OF Suc.IH 1] show ?thesis by (auto simp: ws')
    next
      case False
      with run have "ws_visitor ws' = ws_visitor ws @ [Enter ?p r] @ [] @ [Leave ?p r]"
        by (auto simp: Let_def split: visit_decision.splits if_splits)
      then show ?thesis by (metis replay.simps(1))
    qed
    then obtain es where es: "ws_visitor ws' = ws_visitor ws @ [Enter ?p r] @ es @ [Leave ?p r]"
      "\<forall>st. replay es st = Some st" by blast
    have "\<forall>st. replay ([Enter ?p r] @ es @ [Leave ?p r]) st = Some st"
      using es(2) by (simp add: replay_append)
    with es(1) show "\<exists>es. ws_visitor ws' = ws_visitor ws @ es \<and> (\<forall>st. replay es st = Some st)" by blast
  qed
qed

lemma walk_shape_trace:
  assumes "walk_shape S (recorder decide) n r [] = Ok (es, status)"
  shows "status = Walk_Completed \<Longrightarrow> replay es [] = Some []"
    and "followable S \<Longrightarrow> list_all (event_leads S r) es"
proof -
  obtain st ws where ws: "walk_recursive S (recorder decide) n r
      \<lparr>ws_visitor = [], ws_path = [], ws_ancestors = []\<rparr> = Ok (st, ws)" "es = ws_visitor ws"
    "status = (if st then Walk_Stopped else Walk_Completed)"
    by (rule walk_shape_run [OF assms])
  show "replay es [] = Some []" if "status = Walk_Completed"
    using nestsD [OF walk_nests, of S decide n r "\<lparr>ws_visitor = [], ws_path = [], ws_ancestors = []\<rparr>" ws]
      ws that by (fastforce split: if_splits)
  show "list_all (event_leads S r) es" if "followable S"
    using recording.walk_shape_keeps [OF that _ assms] by simp
qed

section \<open>The places a walk visits\<close>

text \<open>A node is visited when every node above it was entered with the decision to recurse and
  no type repeats above it.\<close>

inductive visits :: "shapes \<Rightarrow> (path_step list \<Rightarrow> sref \<Rightarrow> visit_decision) \<Rightarrow>
    path_step list \<Rightarrow> sref \<Rightarrow> type_id list \<Rightarrow> path_step list \<Rightarrow> sref \<Rightarrow> bool" for S decide where
  here: "visits S decide p r anc p r"
| below: "decide p r = Visit_Recurse \<Longrightarrow> sh_id (S r) \<notin> set anc \<Longrightarrow> (steps, t) \<in> set (children (S r)) \<Longrightarrow>
    visits S decide (p @ steps) t (anc @ [sh_id (S r)]) q u \<Longrightarrow> visits S decide p r anc q u"

inductive_simps visits_iff: "visits S decide p r anc q u"

definition entered :: "event list \<Rightarrow> (path_step list \<times> sref) set" where
  "entered es = {(p, r). Enter p r \<in> set es}"

lemma entered_simps [simp]:
  "entered [] = {}" "entered (Enter p r # es) = insert (p, r) (entered es)"
  "entered (Leave p r # es) = entered es" "entered (a @ b) = entered a \<union> entered b"
  by (auto simp: entered_def)

definition covers :: "shapes \<Rightarrow> (path_step list \<Rightarrow> sref \<Rightarrow> visit_decision) \<Rightarrow> event list walker \<Rightarrow> bool" where
  "covers S decide walk \<longleftrightarrow> (\<forall>r ws ws'. walk r ws = Ok (False, ws') \<longrightarrow>
     (\<exists>es. ws_visitor ws' = ws_visitor ws @ es
        \<and> entered es = {(q, u). visits S decide (ws_path ws) r (ws_ancestors ws) q u}))"

lemma coversD: "covers S decide walk \<Longrightarrow> walk r ws = Ok (False, ws') \<Longrightarrow>
    \<exists>es. ws_visitor ws' = ws_visitor ws @ es
      \<and> entered es = {(q, u). visits S decide (ws_path ws) r (ws_ancestors ws) q u}"
  unfolding covers_def by blast

lemma children_covered:
  assumes "covers S decide walk" and "restores walk" and "walk_children walk cs ws = Ok (False, ws')"
  shows "\<exists>es. ws_visitor ws' = ws_visitor ws @ es
    \<and> entered es = {(q, u). \<exists>(steps, t) \<in> set cs.
        visits S decide (ws_path ws @ steps) t (ws_ancestors ws) q u}"
  using assms(3)
proof (induction cs arbitrary: ws)
  case Nil
  then show ?case by simp
next
  case (Cons c cs)
  obtain steps r where c: "c = (steps, r)" by (cases c)
  from Cons.prems obtain ws1 where 1: "walk r (ws\<lparr>ws_path := ws_path ws @ steps\<rparr>) = Ok (False, ws1)"
    and 2: "walk_children walk cs
        (ws1\<lparr>ws_path := take (length (ws_path ws1) - length steps) (ws_path ws1)\<rparr>) = Ok (False, ws')"
    by (auto simp: c run_simps split: if_splits)
  have same: "ws_path ws1 = ws_path ws @ steps" "ws_ancestors ws1 = ws_ancestors ws"
    using restoresD(2) [OF assms(2) 1] restoresD(1) [OF assms(2) 1] by simp_all
  obtain es1 where 3: "ws_visitor ws1 = ws_visitor ws @ es1"
    "entered es1 = {(q, u). visits S decide (ws_path ws @ steps) r (ws_ancestors ws) q u}"
    using coversD [OF assms(1) 1] by auto
  obtain es2 where 4: "ws_visitor ws' = ws_visitor ws1 @ es2"
    "entered es2 = {(q, u). \<exists>(steps, t) \<in> set cs.
        visits S decide (ws_path ws @ steps) t (ws_ancestors ws) q u}"
    using Cons.IH [OF 2] by (auto simp: same)
  have "entered (es1 @ es2) = {(q, u). \<exists>(steps, t) \<in> set (c # cs).
      visits S decide (ws_path ws @ steps) t (ws_ancestors ws) q u}"
    unfolding entered_simps 3(2) 4(2) c by auto
  with 3(1) 4(1) show ?case by (metis append.assoc)
qed

lemma walk_covers: "covers S decide (walk_recursive S (recorder decide) n)"
proof (induction n)
  case 0
  then show ?case by (simp add: covers_def)
next
  case (Suc n)
  show ?case unfolding covers_def
  proof (intro allI impI)
    fix r ws ws'
    assume run: "walk_recursive S (recorder decide) (Suc n) r ws = Ok (False, ws')"
    let ?p = "ws_path ws" and ?a = "ws_ancestors ws @ [sh_id (S r)]"
    let ?ws = "ws\<lparr>ws_visitor := ws_visitor ws @ [Enter ?p r], ws_ancestors := ?a\<rparr>"
    let ?go = "decide ?p r = Visit_Recurse \<and> sh_id (S r) \<notin> set (ws_ancestors ws)"
    let ?below = "{(q, u). \<exists>(steps, t) \<in> set (children (S r)). visits S decide (?p @ steps) t ?a q u}"
    have "\<exists>es. ws_visitor ws' = ws_visitor ws @ [Enter ?p r] @ es @ [Leave ?p r]
        \<and> entered es = (if ?go then ?below else {})"
    proof (cases ?go)
      case True
      with run obtain ws1 where 1: "walk_children (walk_recursive S (recorder decide) n)
          (children (S r)) ?ws = Ok (False, ws1)"
        and ws': "ws' = call_leave (recorder decide) r (ws1\<lparr>ws_ancestors := butlast (ws_ancestors ws1)\<rparr>)"
        by (auto simp: run_simps Let_def)
      have "ws_path ws1 = ?p" using walk_children_restores [OF walk_restores 1] by simp
      with children_covered [OF Suc.IH walk_restores 1] True show ?thesis by (auto simp: ws')
    next
      case False
      with run have "ws_visitor ws' = ws_visitor ws @ [Enter ?p r] @ [] @ [Leave ?p r]"
        by (auto simp: Let_def split: visit_decision.splits if_splits)
      then show ?thesis unfolding if_not_P [OF False] by (metis entered_simps(1))
    qed
    then obtain es where es: "ws_visitor ws' = ws_visitor ws @ [Enter ?p r] @ es @ [Leave ?p r]"
      "entered es = (if ?go then ?below else {})" by blast
    have "{(q, u). visits S decide ?p r (ws_ancestors ws) q u}
        = insert (?p, r) (if ?go then ?below else {})"
      by (subst visits_iff) auto
    with es show "\<exists>es. ws_visitor ws' = ws_visitor ws @ es
        \<and> entered es = {(q, u). visits S decide ?p r (ws_ancestors ws) q u}"
      by (intro exI [of _ "[Enter ?p r] @ es @ [Leave ?p r]"]) simp
  qed
qed

lemma walk_shape_visits:
  assumes "walk_shape S (recorder decide) n r [] = Ok (es, Walk_Completed)"
  shows "entered es = {(q, u). visits S decide [] r [] q u}"
proof -
  obtain st ws where ws: "walk_recursive S (recorder decide) n r
      \<lparr>ws_visitor = [], ws_path = [], ws_ancestors = []\<rparr> = Ok (st, ws)" "es = ws_visitor ws"
    "Walk_Completed = (if st then Walk_Stopped else Walk_Completed)"
    by (rule walk_shape_run [OF assms])
  from ws(3) have st: "\<not> st" by (cases st) simp_all
  from ws(1) st have "walk_recursive S (recorder decide) n r
      \<lparr>ws_visitor = [], ws_path = [], ws_ancestors = []\<rparr> = Ok (False, ws)" by simp
  from coversD [OF walk_covers this] ws(2) show ?thesis by simp
qed

end
