(* ===== verification/Samples.thy ===== *)
theory Samples
  imports Schema_Fuel Walk Variant_Format Variance Solver_Facts
begin

text \<open>
  A small program for the concrete instances of the properties: two scalars, an enum of two
  struct variants, a struct that flattens it (the example of the solver's documentation), and
  shapes with pointers, options, sets and cycles. Addresses that are not in use hold an
  opaque shape.
\<close>

section \<open>The parts\<close>

definition opaque_shape :: shape where
  "opaque_shape = \<lparr>sh_id = Tid_Other 0, sh_ty = Ty_Undefined, sh_def = Def_Undefined,
     sh_type_identifier = ''opaque'', sh_attributes = [], sh_inner = None, sh_builder_shape = None,
     sh_proxy = None, sh_format_proxies = [], sh_variance = \<lparr>vd_base = Bivariant, vd_deps = []\<rparr>,
     sh_flags = 0, sh_tag = None, sh_content = None, sh_rename = None,
     sh_default_in_place = None, sh_try_from = None, sh_parse = None\<rparr>"

definition scalar_shape :: "scalar_type \<Rightarrow> string \<Rightarrow> shape" where
  "scalar_shape st name = opaque_shape\<lparr>sh_id := Tid_Scalar st, sh_def := Def_Scalar,
     sh_ty := Ty_Primitive Prim_Boolean, sh_type_identifier := name\<rparr>"

definition plain_field :: "nat \<Rightarrow> string \<Rightarrow> sref \<Rightarrow> field" where
  "plain_field addr name r = \<lparr>f_addr = addr, f_name = name, f_rename = None, f_alias = None,
     f_shape = r, f_offset = 0, f_flags = 0, f_attributes = [], f_default = None,
     f_skip_serializing_if = None, f_proxy = None, f_format_proxies = [], f_metadata = None\<rparr>"

definition flat_field :: "nat \<Rightarrow> string \<Rightarrow> sref \<Rightarrow> field" where
  "flat_field addr name r = (plain_field addr name r)\<lparr>f_flags := FF_FLATTEN\<rparr>"

definition rust_struct :: "field list \<Rightarrow> struct_type" where
  "rust_struct fs = \<lparr>st_repr = \<lparr>repr_base = Repr_Rust, repr_packed = False\<rparr>,
     st_kind = Kind_Struct, st_fields = fs\<rparr>"

definition struct_variant :: "string \<Rightarrow> field list \<Rightarrow> variant" where
  "struct_variant name fs = \<lparr>v_name = name, v_rename = None, v_discriminant = None,
     v_attributes = [], v_data = rust_struct fs\<rparr>"

definition rust_enum :: "variant list \<Rightarrow> enum_type" where
  "rust_enum vs = \<lparr>et_enum_repr = ER_Rust, et_repr = \<lparr>repr_base = Repr_Rust, repr_packed = False\<rparr>, et_variants = vs,
     et_is_cow = False\<rparr>"

definition struct_shape :: "nat \<Rightarrow> string \<Rightarrow> field list \<Rightarrow> shape" where
  "struct_shape i name fs = opaque_shape\<lparr>sh_id := Tid_Other i, sh_type_identifier := name,
     sh_ty := Ty_User (User_Struct (rust_struct fs))\<rparr>"

definition enum_shape :: "nat \<Rightarrow> string \<Rightarrow> variant list \<Rightarrow> shape" where
  "enum_shape i name vs = opaque_shape\<lparr>sh_id := Tid_Other i, sh_type_identifier := name,
     sh_ty := Ty_User (User_Enum (rust_enum vs))\<rparr>"

section \<open>A struct with a flattened enum\<close>

definition sample_S :: shapes where
  "sample_S r =
     (if r = 0 then scalar_shape ST_U8 ''u8''
      else if r = 1 then scalar_shape ST_U16 ''u16''
      else if r = 2 then enum_shape 2 ''Value''
        [struct_variant ''Small'' [plain_field 10 ''size'' 0],
         struct_variant ''Large'' [plain_field 11 ''size'' 1, plain_field 12 ''extra'' 0]]
      else if r = 3 then struct_shape 3 ''Container''
        [plain_field 13 ''name'' 0, flat_field 14 ''value'' 2]
      else opaque_shape)"

definition sample_schema :: schema where
  "sample_schema = (case schema_build sample_S 4 3 of Ok (Some sc) \<Rightarrow> sc | _ \<Rightarrow> undefined)"

lemma sample_build: "schema_build sample_S 4 3 = Ok (Some sample_schema)"
  by code_simp

lemma sample_wf: "schema_wf sample_schema"
  using sample_build into_schema_wf [of "builder_new 3 Repr_Flattened" sample_S 4 "Some sample_schema"]
  by (auto simp: schema_build_def schema_build_with_repr_def)

lemma sample_len: "length (sc_resolutions sample_schema) = 2"
  by code_simp

lemma sample_format: "sc_format sample_schema = Format_Flat"
  by code_simp

definition sample_names :: "nat \<Rightarrow> string list" where
  "sample_names i = (if i = 0 then [''name'', ''size''] else [''extra'', ''name'', ''size''])"

lemma sample_fields: "map (\<lambda>r. map fi_name (btm_values (rn_fields r))) (sc_resolutions sample_schema)
    = [sample_names 0, sample_names 1]"
  and sample_required: "map rn_required_field_names (sc_resolutions sample_schema)
    = [sample_names 0, sample_names 1]"
  by code_simp+

lemma sample_at:
  assumes "i < 2"
  shows "fi_name ` field_infos (sc_resolutions sample_schema ! i) = set (sample_names i)"
    and "rn_required_field_names (sc_resolutions sample_schema ! i) = sample_names i"
proof -
  have i: "i = 0 \<or> i = 1" using assms by auto
  let ?rs = "sc_resolutions sample_schema"
  have "map fi_name (btm_values (rn_fields (?rs ! i))) = sample_names i"
    using arg_cong [OF sample_fields, of "\<lambda>l. l ! i"] i sample_len by (auto simp: nth_map)
  then show "fi_name ` field_infos (?rs ! i) = set (sample_names i)"
    by (metis field_infos_values set_map)
  show "rn_required_field_names (?rs ! i) = sample_names i"
    using arg_cong [OF sample_required, of "\<lambda>l. l ! i"] i sample_len by (auto simp: nth_map)
qed

lemma sample_holders:
  "key_holders sample_schema k = {i. i < 2 \<and> key_name k \<in> set (sample_names i)}"
proof -
  have "key_holders sample_schema k = {i. i < 2
      \<and> key_name k \<in> fi_name ` field_infos (sc_resolutions sample_schema ! i)}"
    by (auto simp: key_holders_flat [OF sample_wf sample_format] having_def sample_len intro: rev_image_eqI)
  then show ?thesis using sample_at(1) by auto
qed

text \<open>The ranks of the sample's shapes.\<close>

definition sample_layout :: "sref \<Rightarrow> nat" where
  "sample_layout r = (if r = 3 then 2 else if r = 2 then 1 else 0)"

lemma sample_inner: "sh_inner (sample_S r) = None" and sample_proxy: "sh_proxy (sample_S r) = None"
  and sample_no_option: "unwrap_option_type (sample_S r) = None"
  by (simp_all add: sample_S_def scalar_shape_def enum_shape_def struct_shape_def opaque_shape_def
      unwrap_option_type_def)

lemma sample_struct: "sh_ty (sample_S r) = Ty_User (User_Struct st) \<Longrightarrow> r = 3
    \<and> st_fields st = [plain_field 13 ''name'' 0, flat_field 14 ''value'' 2]"
  by (auto simp: sample_S_def scalar_shape_def enum_shape_def struct_shape_def opaque_shape_def
      rust_struct_def split: if_splits)

lemma sample_enum: "sh_ty (sample_S r) = Ty_User (User_Enum e) \<Longrightarrow> r = 2 \<and> et_variants e =
    [struct_variant ''Small'' [plain_field 10 ''size'' 0],
     struct_variant ''Large'' [plain_field 11 ''size'' 1, plain_field 12 ''extra'' 0]]"
  by (auto simp: sample_S_def scalar_shape_def enum_shape_def struct_shape_def opaque_shape_def
      rust_enum_def split: if_splits)

lemma plain_not_flat: "\<not> is_flattened (plain_field a n r)"
  by (simp add: plain_field_def is_flattened_def flag_contains_def FF_FLATTEN_def)

lemma shape_of_plain [simp]: "f_shape (plain_field a n r) = r" "f_shape (flat_field a n r) = r"
  by (simp_all add: plain_field_def flat_field_def)

lemma fields_of_variant [simp]: "st_fields (v_data (struct_variant n fs)) = fs"
  by (simp add: struct_variant_def rust_struct_def)

lemma sample_target: "flatten_target sample_S f t \<Longrightarrow> t = f_shape f"
proof -
  assume "flatten_target sample_S f t"
  then obtain n p q where
    "unwrap_transparent_with_path sample_S n (f_shape f) p = (Ok (t, q) :: (sref \<times> field_path) built)"
    by (auto simp: flatten_target_def sample_no_option)
  then show ?thesis by (cases n) (auto simp: sample_inner)
qed

lemma sample_expansion: "finite_expansion sample_S 3 sample_layout (\<lambda>r. 0) sample_layout"
proof -
  have "lays_out sample_S sample_layout"
    by (auto simp: lays_out_def sample_layout_def dest!: sample_struct sample_enum)
  moreover have "wraps sample_S (\<lambda>r. 0)"
    by (simp add: wraps_def sample_inner sample_proxy)
  moreover have "sample_layout t < sample_layout r"
    if "brings_in sample_S r f" "is_flattened f" "flatten_target sample_S f t" for r f t
    using that
  proof (cases rule: brings_in.cases)
    case (of_newtype e v n t' st)
    from of_newtype(1,2,3) show ?thesis
      by (auto simp: is_newtype_def plain_field_def dest!: sample_enum)
  qed (auto simp: sample_layout_def plain_not_flat dest!: sample_struct sample_enum sample_target)
  ultimately show ?thesis
    by (auto simp: finite_expansion_def flattens_def sample_layout_def)
qed

section \<open>An internally tagged enum\<close>

definition tagged_S :: shapes where
  "tagged_S r =
     (if r = 0 then scalar_shape ST_U8 ''u8''
      else if r = 2 then (enum_shape 2 ''Kind''
        [struct_variant ''A'' [plain_field 10 ''a'' 0],
         struct_variant ''B'' [plain_field 11 ''b'' 0]])\<lparr>sh_tag := Some ''type''\<rparr>
      else if r = 3 then struct_shape 3 ''Tagged'' [flat_field 14 ''kind'' 2]
      else opaque_shape)"

definition tagged_schema :: schema where
  "tagged_schema = (case schema_build_auto tagged_S 4 3 of Ok (Some sc) \<Rightarrow> sc | _ \<Rightarrow> undefined)"

lemma tagged_build: "schema_build_auto tagged_S 4 3 = Ok (Some tagged_schema)"
  by code_simp

lemma tagged_wf: "schema_wf tagged_schema"
  using tagged_build
    into_schema_wf [of "with_auto_detect (builder_new 3 Repr_Flattened)" tagged_S 4 "Some tagged_schema"]
  by (auto simp: schema_build_auto_def)

lemma tagged_len: "length (sc_resolutions tagged_schema) = 2"
  and tagged_format: "sc_format tagged_schema = Format_Flat"
  and tagged_infos: "map (\<lambda>r. map (\<lambda>i. (fi_name i, fi_category i)) (btm_values (rn_fields r)))
      (sc_resolutions tagged_schema)
    = [[(''a'', Cat_Flat), (''type'', Cat_Element)], [(''b'', Cat_Flat), (''type'', Cat_Element)]]"
  by code_simp+

lemma nth_of_map: "map f xs = ys \<Longrightarrow> i < length xs \<Longrightarrow> f (xs ! i) = ys ! i"
  by auto

lemma tagged_at:
  assumes "i < 2"
  shows "(\<lambda>f. (fi_name f, fi_category f)) ` field_infos (sc_resolutions tagged_schema ! i)
    = {(if i = 0 then ''a'' else ''b'', Cat_Flat), (''type'', Cat_Element)}"
proof -
  have i: "i = 0 \<or> i = 1" using assms by auto
  have "map (\<lambda>f. (fi_name f, fi_category f)) (btm_values (rn_fields (sc_resolutions tagged_schema ! i)))
      = [(if i = 0 then ''a'' else ''b'', Cat_Flat), (''type'', Cat_Element)]"
    using nth_of_map [OF tagged_infos, of i] i by (elim disjE) (simp_all add: tagged_len)
  from arg_cong [OF this, of set] show ?thesis
    unfolding set_map field_infos_values by simp
qed

lemma tagged_selectors:
  assumes "i < 2" and "f \<in> field_infos (sc_resolutions tagged_schema ! i)" and "fi_name f = ''type''"
  shows "fi_category f = Cat_Element"
proof -
  have "(fi_name f, fi_category f) \<in> {(if i = 0 then ''a'' else ''b'', Cat_Flat), (''type'', Cat_Element)}"
    using tagged_at [OF assms(1)] assms(2) by blast
  with assms(3) show ?thesis by (auto split: if_splits)
qed

lemma tagged_holders: "key_holders tagged_schema (Key_Flat ''type'') = {0, 1}"
proof -
  have "\<exists>f \<in> field_infos (sc_resolutions tagged_schema ! i). fi_name f = ''type''" if "i < 2" for i
  proof -
    have "(''type'', Cat_Element) \<in> (\<lambda>f. (fi_name f, fi_category f)) ` field_infos (sc_resolutions tagged_schema ! i)"
      unfolding tagged_at [OF that] by simp
    then show ?thesis by auto
  qed
  then show ?thesis
    by (auto simp: key_holders_flat [OF tagged_wf tagged_format] having_def tagged_len)
qed

section \<open>A DOM enum whose variants name their text differently\<close>

definition text_field :: "nat \<Rightarrow> string \<Rightarrow> sref \<Rightarrow> field" where
  "text_field addr name r = (plain_field addr name r)\<lparr>f_attributes :=
     [\<lparr>attr_ns = None, attr_key = ''text'', attr_data = Data_Unit\<rparr>]\<rparr>"

definition dom_S :: shapes where
  "dom_S r =
     (if r = 0 then scalar_shape ST_String ''String''
      else if r = 2 then (enum_shape 2 ''Node''
        [struct_variant ''P'' [text_field 10 ''body'' 0],
         struct_variant ''Q'' [text_field 11 ''content'' 0]])\<lparr>sh_flags := SF_UNTAGGED\<rparr>
      else if r = 3 then struct_shape 3 ''Doc'' [flat_field 14 ''node'' 2]
      else opaque_shape)"

definition dom_schema :: schema where
  "dom_schema = (case schema_build_dom dom_S 4 3 of Ok (Some sc) \<Rightarrow> sc | _ \<Rightarrow> undefined)"

lemma dom_build: "schema_build_dom dom_S 4 3 = Ok (Some dom_schema)"
  by code_simp

lemma dom_wf: "schema_wf dom_schema"
  using dom_build into_schema_wf [of "with_format (with_auto_detect (builder_new 3 Repr_Flattened)) Format_Dom"
      dom_S 4 "Some dom_schema"]
  by (auto simp: schema_build_dom_def schema_build_with_format_def)

lemma dom_len: "length (sc_resolutions dom_schema) = 2"
  and dom_format: "sc_format dom_schema = Format_Dom"
  and dom_fields: "map (\<lambda>r. map (\<lambda>i. (fi_category i, fi_name i)) (btm_values (rn_fields r)))
      (sc_resolutions dom_schema) = [[(Cat_Text, ''body'')], [(Cat_Text, ''content'')]]"
  by code_simp+

lemma dom_infos:
  assumes "i < 2"
  shows "(\<exists>f \<in> field_infos (sc_resolutions dom_schema ! i). fi_category f = c \<and> fi_name f = n)
    \<longleftrightarrow> c = Cat_Text \<and> n = (if i = 0 then ''body'' else ''content'')"
proof -
  have i: "i = 0 \<or> i = 1" using assms by auto
  have "map (\<lambda>f. (fi_category f, fi_name f)) (btm_values (rn_fields (sc_resolutions dom_schema ! i)))
      = [(Cat_Text, if i = 0 then ''body'' else ''content'')]"
    using nth_of_map [OF dom_fields, of i] i by (elim disjE) (simp_all add: dom_len)
  from arg_cong [OF this, of set]
  have "(\<lambda>f. (fi_category f, fi_name f)) ` field_infos (sc_resolutions dom_schema ! i)
      = {(Cat_Text, if i = 0 then ''body'' else ''content'')}"
    unfolding set_map field_infos_values by simp
  then have "(c, n) \<in> (\<lambda>f. (fi_category f, fi_name f)) ` field_infos (sc_resolutions dom_schema ! i)
      \<longleftrightarrow> (c, n) = (Cat_Text, if i = 0 then ''body'' else ''content'')" by simp
  moreover have "(c, n) \<in> (\<lambda>f. (fi_category f, fi_name f)) ` field_infos (sc_resolutions dom_schema ! i)
      \<longleftrightarrow> (\<exists>f \<in> field_infos (sc_resolutions dom_schema ! i). fi_category f = c \<and> fi_name f = n)" by blast
  ultimately show ?thesis by simp
qed

lemma dom_all:
  "(\<forall>r \<in> set (sc_resolutions dom_schema). P r)
    \<longleftrightarrow> P (sc_resolutions dom_schema ! 0) \<and> P (sc_resolutions dom_schema ! 1)"
  by (simp add: all_set_conv_all_nth dom_len numeral_2_eq_2 less_Suc_eq)
     blast

lemma dom_least:
  "\<forall>r \<in> set (sc_resolutions dom_schema). \<forall>f \<in> field_infos r. fi_category f = Cat_Text \<longrightarrow> ''body'' \<le> fi_name f"
proof -
  have "''body'' \<le> fi_name f" if "i < 2" "f \<in> field_infos (sc_resolutions dom_schema ! i)" "fi_category f = Cat_Text" for i f
  proof -
    have "fi_name f = (if i = 0 then ''body'' else ''content'')"
      using dom_infos [OF that(1), of Cat_Text "fi_name f"] that(2,3) by blast
    then show ?thesis by auto
  qed
  from this [of 0] this [of 1] show ?thesis unfolding dom_all by simp
qed

section \<open>A recursive struct\<close>

definition list_S :: shapes where
  "list_S r =
     (if r = 0 then struct_shape 10 ''Node'' [plain_field 1 ''next'' 1]
      else if r = 1 then opaque_shape\<lparr>sh_id := Tid_Other 11, sh_def := Def_Option 2\<rparr>
      else if r = 2 then opaque_shape\<lparr>sh_id := Tid_Other 12, sh_def := Def_Pointer (Some 0)\<rparr>
      else opaque_shape)"

lemma list_reachable: "reachable_ids list_S {Tid_Other 10, Tid_Other 11, Tid_Other 12} {0, 1, 2}"
  by (auto simp: reachable_ids_def children_def struct_children_def def_children_def list_S_def
      struct_shape_def rust_struct_def opaque_shape_def plain_field_def)

lemma list_resolvable: "resolvable (list_S r)"
  by (auto simp: resolvable_def structural_def list_S_def struct_shape_def rust_struct_def
      opaque_shape_def)

section \<open>A struct in a set\<close>

definition set_S :: shapes where
  "set_S r =
     (if r = 0 then opaque_shape\<lparr>sh_id := Tid_Other 20, sh_def := Def_Set 1\<rparr>
      else if r = 1 then struct_shape 21 ''Item'' [plain_field 1 ''name'' 2]
      else scalar_shape ST_String ''String'')"

section \<open>Pointers\<close>

definition boxed_S :: shapes where
  "boxed_S r =
     (if r = 0 then scalar_shape ST_U8 ''u8''
      else if r = 1 then opaque_shape\<lparr>sh_id := Tid_Other 31, sh_def := Def_Pointer (Some 0)\<rparr>
      else if r = 2 then enum_shape 32 ''Boxed''
        [\<lparr>v_name = ''N'', v_rename = None, v_discriminant = None, v_attributes = [],
          v_data = \<lparr>st_repr = \<lparr>repr_base = Repr_Rust, repr_packed = False\<rparr>,
            st_kind = Kind_TupleStruct, st_fields = [plain_field 1 ''0'' 1]\<rparr>\<rparr>,
         struct_variant ''M'' [plain_field 2 ''m'' 0]]
      else opaque_shape)"

lemma boxed_points: "points boxed_S (\<lambda>r. if r = 1 then 1 else 0)"
  by (auto simp: points_def boxed_S_def scalar_shape_def enum_shape_def opaque_shape_def split: if_splits)

lemma boxed_ranked: "ranked boxed_S (\<lambda>i. if i = Tid_Other 32 then 1 else 0)"
  by (auto simp: ranked_def effective_deps_def covariant_fields_def boxed_S_def scalar_shape_def
      enum_shape_def rust_enum_def rust_struct_def opaque_shape_def struct_variant_def plain_field_def
      split: if_splits)

lemma boxed_variants: "case (variants_from_shape boxed_S 3 2 :: (unit, variants_by_format option) outcome) of
    Ok (Some b) \<Rightarrow> map v_name (vb_struct_variants b) = [''M''] | _ \<Rightarrow> False"
  by code_simp

lemma boxed_enum: "\<exists>e. sh_ty (boxed_S 2) = Ty_User (User_Enum e) \<and> length (et_variants e) = 2"
  by (simp add: boxed_S_def enum_shape_def rust_enum_def)

lemma completed:
  assumes "case w of Ok (es, Walk_Completed) \<Rightarrow> True | _ \<Rightarrow> False"
  shows "\<exists>es. w = Ok (es, Walk_Completed)"
proof (cases w)
  case (Ok p)
  with assms show ?thesis by (cases p; cases "snd p") auto
qed (use assms in simp_all)

lemma list_walk: "\<exists>es. walk_shape list_S (recorder (\<lambda>p r. Visit_Recurse)) 4 0 [] = Ok (es, Walk_Completed)"
  by (rule completed) code_simp

lemma set_walk: "\<exists>es. walk_shape set_S (recorder (\<lambda>p r. Visit_Recurse)) 4 0 [] = Ok (es, Walk_Completed)"
  by (rule completed) code_simp

end
