(* ===== verification/Arena.thy ===== *)
theory Arena
  imports Prelude
begin

text \<open>
  The arenas of facet-reflect (src/partial/arena.rs): growing vectors that are addressed by
  typed 32-bit indices and ranges. An arena is its vector; an index is its raw word. Reading
  outside the arena is the failed debug assertion, \<open>None\<close> (in a release build it is undefined
  behaviour); conversions to \<open>u32\<close> truncate as \<open>as\<close> does.
\<close>

type_synonym idx = u32

definition idx_invalid :: idx where
  "idx_invalid = - 1"

definition idx_is_valid :: "idx \<Rightarrow> bool" where
  "idx_is_valid i \<longleftrightarrow> i \<noteq> - 1"

record slice_range =
  sr_start :: u32
  sr_len :: u32

definition range_new :: "u32 \<Rightarrow> u32 \<Rightarrow> slice_range" where
  "range_new start len = \<lparr>sr_start = start, sr_len = len\<rparr>"

definition range_empty :: slice_range where
  "range_empty = range_new 0 0"

definition range_is_empty :: "slice_range \<Rightarrow> bool" where
  "range_is_empty r \<longleftrightarrow> sr_len r = 0"

definition range_get :: "slice_range \<Rightarrow> nat \<Rightarrow> idx option" where
  "range_get r n = (if n < unat (sr_len r) then Some (sr_start r + of_nat n) else None)"

type_synonym 'a arena = "'a list"

definition arena_alloc :: "'a arena \<Rightarrow> 'a \<Rightarrow> ('a arena \<times> idx) option" where
  "arena_alloc data value =
     (let idx = length data
      in if idx < unat (- 1 :: u32) then Some (data @ [value], of_nat idx) else None)"

definition alloc_extend :: "'a arena \<Rightarrow> 'a list \<Rightarrow> 'a arena \<times> slice_range" where
  "alloc_extend data values =
     (let start = of_nat (length data); data = data @ values; end_idx = of_nat (length data)
      in (data, range_new start (end_idx - start)))"

definition arena_get :: "'a arena \<Rightarrow> idx \<Rightarrow> 'a option" where
  "arena_get data i = nth_opt data (unat i)"

definition get_slice :: "'a arena \<Rightarrow> slice_range \<Rightarrow> 'a list option" where
  "get_slice data r =
     (let start = unat (sr_start r); end_idx = start + unat (sr_len r)
      in if end_idx \<le> length data then Some (take (end_idx - start) (drop start data)) else None)"

section \<open>Facts\<close>

lemma unat_max: "unat (- 1 :: u32) = 2 ^ 32 - 1"
  by (simp add: unat_eq_nat_uint uint_word_of_int_eq unsigned_minus_1_eq_mask mask_eq_exp_minus_1)

lemma unat_of_nat_u32: "n < 2 ^ 32 \<Longrightarrow> unat (of_nat n :: u32) = n"
  by (simp add: unat_of_nat take_bit_nat_eq_self)

lemma arena_alloc_Some:
  assumes "arena_alloc data v = Some (data', i)"
  shows "data' = data @ [v]" and "unat i = length data" and "idx_is_valid i"
proof -
  have l: "length data < 2 ^ 32 - 1" and d: "data' = data @ [v]" "i = of_nat (length data)"
    using assms unfolding arena_alloc_def Let_def unat_max by (auto split: if_splits)
  show "data' = data @ [v]" by (rule d)
  show u: "unat i = length data" using l by (simp add: d unat_of_nat_u32)
  have "unat i \<noteq> unat (- 1 :: u32)" using u l unat_max by linarith
  then show "idx_is_valid i" unfolding idx_is_valid_def by blast
qed

lemma arena_get_alloc:
  "arena_alloc data v = Some (data', i) \<Longrightarrow> arena_get data' i = Some v"
  using arena_alloc_Some [of data v data' i] by (simp add: arena_get_def nth_opt_def)

lemma arena_get_append: "arena_get data i = Some v \<Longrightarrow> arena_get (data @ extra) i = Some v"
  by (auto simp: arena_get_def nth_opt_def nth_append split: if_splits)

lemma get_slice_append: "get_slice data r = Some vs \<Longrightarrow> get_slice (data @ extra) r = Some vs"
  by (auto simp: get_slice_def Let_def split: if_splits)

lemma get_slice_extend:
  assumes "alloc_extend data vs = (data', r)" and "length data + length vs < 2 ^ 32"
  shows "data' = data @ vs" and "get_slice data' r = Some vs"
proof -
  have r: "data' = data @ vs"
    "r = range_new (of_nat (length data)) (of_nat (length data + length vs) - of_nat (length data))"
    using assms(1) by (auto simp: alloc_extend_def Let_def)
  have "(of_nat (length data + length vs) - of_nat (length data) :: u32) = of_nat (length vs)" by simp
  with r assms(2) have "unat (sr_start r) = length data" "unat (sr_len r) = length vs"
    by (simp_all add: range_new_def unat_of_nat_u32 del: of_nat_add)
  then show "get_slice data' r = Some vs" by (simp add: get_slice_def r(1))
  show "data' = data @ vs" by (rule r(1))
qed

text \<open>An arena filled past the range of \<open>u32\<close> gives a range that has forgotten the values.\<close>

lemma alloc_extend_wraps:
  assumes "length vs = 2 ^ 32"
  shows "alloc_extend [] vs = (vs, range_empty)"
proof -
  have "(of_nat (length vs) :: u32) = 2 ^ 32" unfolding assms by (simp only: of_nat_power of_nat_numeral)
  also have "(2 ^ 32 :: u32) = 0" using word_exp_length_eq_0 [where 'a = 32] by simp
  finally show ?thesis by (simp add: alloc_extend_def range_empty_def)
qed

text \<open>Addition of \<open>u32\<close> values; a sum that does not fit is the overflow panic.\<close>

definition add_u32 :: "u32 \<Rightarrow> u32 \<Rightarrow> u32 option" where
  "add_u32 a b = (if unat a + unat b < 2 ^ 32 then Some (a + b) else None)"

lemma add_u32_of_nat:
  "m + n < 2 ^ 32 \<Longrightarrow> add_u32 (of_nat m) (of_nat n) = Some (of_nat (m + n))"
  by (simp add: add_u32_def unat_of_nat_u32)

text \<open>Evaluation compares with these bounds as binary integers.\<close>

lemma arena_alloc_code [code]:
  "arena_alloc data v = (if int (length data) < 4294967295 then Some (data @ [v], of_nat (length data)) else None)"
  unfolding arena_alloc_def Let_def unat_max by auto

lemma add_u32_code [code]:
  "add_u32 a b = (if int (unat a + unat b) < 4294967296 then Some (a + b) else None)"
proof -
  have "int n < 4294967296 \<longleftrightarrow> n < 2 ^ 32" for n by simp
  then show ?thesis by (simp only: add_u32_def)
qed

section \<open>Binary search\<close>

text \<open>\<open>slice::binary_search_by_key\<close>: the index found, or nothing.\<close>

function bsearch_loop :: "'k::linorder list \<Rightarrow> 'k \<Rightarrow> nat \<Rightarrow> nat \<Rightarrow> nat option" where
  "bsearch_loop ks k base sz =
     (if 1 < sz then
        (let half = sz div 2; mid = base + half
         in bsearch_loop ks k (if k < ks ! mid then base else mid) (sz - half))
      else if ks ! base = k then Some base else None)"
  by pat_completeness auto
termination by (relation "measure (\<lambda>(ks, k, base, sz). sz)") auto

declare bsearch_loop.simps [simp del]

definition binary_search :: "'k::linorder list \<Rightarrow> 'k \<Rightarrow> nat option" where
  "binary_search ks k = (if ks = [] then None else bsearch_loop ks k 0 (length ks))"

lemma bsearch_loop_spec:
  assumes "sorted ks" and "0 < sz" and "base + sz \<le> length ks"
    and "base = 0 \<or> ks ! base \<le> k" and "\<forall>j. base + sz \<le> j \<longrightarrow> j < length ks \<longrightarrow> k < ks ! j"
  shows "case bsearch_loop ks k base sz of None \<Rightarrow> k \<notin> set ks | Some i \<Rightarrow> i < length ks \<and> ks ! i = k"
  using assms
proof (induction ks k base sz rule: bsearch_loop.induct)
  case (1 ks k base sz)
  let ?half = "sz div 2" and ?mid = "base + sz div 2"
  show ?case
  proof (cases "1 < sz")
    case True
    have mid: "?mid < length ks" "0 < ?half" "?half < sz" using True "1.prems"(3) by auto
    have above: "k < ks ! j" if "k < ks ! ?mid" "?mid \<le> j" "j < length ks" for j
      using that sorted_nth_mono [OF "1.prems"(1), of ?mid j] by (auto intro: order.strict_trans2)
    have "sz - ?half \<le> ?half + 1" by linarith
    have "case bsearch_loop ks k (if k < ks ! ?mid then base else ?mid) (sz - ?half) of
        None \<Rightarrow> k \<notin> set ks | Some i \<Rightarrow> i < length ks \<and> ks ! i = k"
    proof (rule "1.IH" [OF True refl refl "1.prems"(1)])
      show "0 < sz - ?half" using mid by simp
      show "(if k < ks ! ?mid then base else ?mid) + (sz - ?half) \<le> length ks"
        using "1.prems"(3) mid by auto
      show "(if k < ks ! ?mid then base else ?mid) = 0 \<or> ks ! (if k < ks ! ?mid then base else ?mid) \<le> k"
        using "1.prems"(4) by auto
      show "\<forall>j. (if k < ks ! ?mid then base else ?mid) + (sz - ?half) \<le> j \<longrightarrow> j < length ks \<longrightarrow> k < ks ! j"
        using "1.prems"(5) above mid by (auto simp: not_less)
    qed
    with True show ?thesis by (subst bsearch_loop.simps) (simp add: Let_def)
  next
    case False
    then have sz: "sz = 1" using "1.prems"(2) by simp
    have "k \<notin> set ks" if ne: "ks ! base \<noteq> k"
    proof
      assume "k \<in> set ks"
      then obtain j where j: "j < length ks" "ks ! j = k" by (auto simp: in_set_conv_nth)
      have "\<not> base + 1 \<le> j" using "1.prems"(5) j sz by auto
      moreover have "j \<noteq> base" using j ne by auto
      ultimately have "j < base" by simp
      then have "ks ! j \<le> ks ! base" "ks ! base \<le> k"
        using sorted_nth_mono [OF "1.prems"(1), of j base] "1.prems"(3,4) sz by auto
      with j(2) ne show False by simp
    qed
    with False sz "1.prems"(3) show ?thesis by (subst bsearch_loop.simps) simp
  qed
qed

lemma binary_search_spec:
  assumes "sorted ks"
  shows "case binary_search ks k of None \<Rightarrow> k \<notin> set ks | Some i \<Rightarrow> i < length ks \<and> ks ! i = k"
  using bsearch_loop_spec [OF assms, of "length ks" 0 k] by (simp add: binary_search_def)

lemma binary_search_distinct:
  assumes "sorted ks" and "distinct ks" and "i < length ks"
  shows "binary_search ks (ks ! i) = Some i"
  using binary_search_spec [OF assms(1), of "ks ! i"] assms(2,3)
  by (auto simp: nth_eq_iff_index_eq split: option.splits)

end
