(* ===== verification/Plan_Data.thy ===== *)
theory Plan_Data
  imports Arena BTree_Model Shape
begin

text \<open>
  The data of a type plan (facet-reflect, src/partial/typeplan.rs): the nodes with their kind
  and strategy, the plans of structs, enums, variants and fields, the proxies of a field and of
  a node, the lookup tables, and the core that owns the arenas all of them point into. Node
  identifiers and ranges are the 32-bit words of \<open>Arena\<close>; a shape is held by its address.
\<close>

section \<open>An order on type identifiers\<close>

text \<open>\<open>ConstTypeId\<close> is totally ordered, in an order the code does not rely on; here the
  identifiers are ranked.\<close>

fun scalar_rank :: "scalar_type \<Rightarrow> nat" where
  "scalar_rank ST_Unit = 0" | "scalar_rank ST_Bool = 1" | "scalar_rank ST_Char = 2"
| "scalar_rank ST_Str = 3" | "scalar_rank ST_String = 4" | "scalar_rank ST_CowStr = 5"
| "scalar_rank ST_F32 = 6" | "scalar_rank ST_F64 = 7"
| "scalar_rank ST_U8 = 8" | "scalar_rank ST_U16 = 9" | "scalar_rank ST_U32 = 10"
| "scalar_rank ST_U64 = 11" | "scalar_rank ST_U128 = 12" | "scalar_rank ST_USize = 13"
| "scalar_rank ST_I8 = 14" | "scalar_rank ST_I16 = 15" | "scalar_rank ST_I32 = 16"
| "scalar_rank ST_I64 = 17" | "scalar_rank ST_I128 = 18" | "scalar_rank ST_ISize = 19"
| "scalar_rank ST_SocketAddr = 20" | "scalar_rank ST_IpAddr = 21"
| "scalar_rank ST_Ipv4Addr = 22" | "scalar_rank ST_Ipv6Addr = 23"
| "scalar_rank ST_ConstTypeId = 24"

fun tid_rank :: "type_id \<Rightarrow> nat" where
  "tid_rank (Tid_Scalar st) = scalar_rank st"
| "tid_rank Tid_StrRef = 25"
| "tid_rank Tid_VecU8 = 26"
| "tid_rank (Tid_Other n) = 27 + n"

lemma scalar_rank_lt: "scalar_rank st < 25"
  by (cases st) simp_all

lemma scalar_rank_inj: "scalar_rank a = scalar_rank b \<Longrightarrow> a = b"
  by (cases a; cases b) simp_all

lemma scalar_rank_ne: "25 \<le> n \<Longrightarrow> scalar_rank st \<noteq> n" "25 \<le> n \<Longrightarrow> n \<noteq> scalar_rank st"
  using scalar_rank_lt [of st] by simp_all

lemma tid_rank_inj: "tid_rank a = tid_rank b \<Longrightarrow> a = b"
  by (cases a; cases b) (auto simp: scalar_rank_ne intro: scalar_rank_inj)

instantiation type_id :: linorder
begin

definition less_eq_type_id :: "type_id \<Rightarrow> type_id \<Rightarrow> bool" where
  "less_eq_type_id a b \<longleftrightarrow> tid_rank a \<le> tid_rank b"

definition less_type_id :: "type_id \<Rightarrow> type_id \<Rightarrow> bool" where
  "less_type_id a b \<longleftrightarrow> tid_rank a < tid_rank b"

instance
  by standard (auto simp: less_eq_type_id_def less_type_id_def intro: tid_rank_inj)

end

section \<open>Fields\<close>

type_synonym node_id = idx

datatype field_default = Default_Custom fn_ptr | Default_FromTrait sref

datatype fill_rule = Fill_Defaultable field_default | Fill_Required

record field_plan =
  fp_field :: field
  fp_name :: string
  fp_effective_name :: string
  fp_alias :: "string option"
  fp_is_flattened :: bool
  fp_type_node :: node_id
  fp_index :: nat
  fp_offset :: nat
  fp_field_shape :: sref
  fp_fill_rule :: fill_rule
  fp_validators :: slice_range

definition fp_has_default :: "field_plan \<Rightarrow> bool" where
  "fp_has_default p \<longleftrightarrow> (case fp_fill_rule p of Fill_Defaultable _ \<Rightarrow> True | _ \<Rightarrow> False)"

definition fp_is_required :: "field_plan \<Rightarrow> bool" where
  "fp_is_required p \<longleftrightarrow> (case fp_fill_rule p of Fill_Required \<Rightarrow> True | _ \<Rightarrow> False)"

section \<open>Lookup tables, structs and enums\<close>

record field_lookup_entry =
  fe_name :: string
  fe_index :: nat
  fe_is_alias :: bool

type_synonym bucket = "u64 \<times> u32 \<times> u32"

datatype field_lookup =
  Lookup_Small "field_lookup_entry list"
| Lookup_Prefix nat slice_range slice_range

datatype variant_lookup =
  Variants_Small "(string \<times> nat) list"
| Variants_Sorted "(string \<times> nat) list"

record struct_plan =
  sp_struct_def :: struct_type
  sp_fields :: slice_range
  sp_field_lookup :: field_lookup
  sp_has_flatten :: bool
  sp_deny_unknown_fields :: bool

record variant_meta =
  vm_variant :: variant
  vm_name :: string
  vm_fields :: slice_range
  vm_field_lookup :: field_lookup
  vm_has_flatten :: bool

record enum_plan =
  ep_enum_def :: enum_type
  ep_variants :: slice_range
  ep_variant_lookup :: variant_lookup
  ep_num_variants :: nat
  ep_other_variant_idx :: "nat option"

section \<open>Proxies\<close>

record proxy_nodes =
  pn_generic :: "node_id option"
  pn_format_specific :: "(string \<times> node_id) list"

definition proxy_nodes_default :: proxy_nodes where
  "proxy_nodes_default = \<lparr>pn_generic = None, pn_format_specific = []\<rparr>"

definition node_for :: "proxy_nodes \<Rightarrow> string option \<Rightarrow> node_id option" where
  "node_for p format =
     (case format of
        Some fmt \<Rightarrow>
          (case List.find (\<lambda>e. fst e = fmt) (pn_format_specific p) of
             Some e \<Rightarrow> Some (snd e)
           | None \<Rightarrow> pn_generic p)
      | None \<Rightarrow> pn_generic p)"

definition pn_has_any :: "proxy_nodes \<Rightarrow> bool" where
  "pn_has_any p \<longleftrightarrow> pn_generic p \<noteq> None \<or> pn_format_specific p \<noteq> []"

definition pn_is_empty :: "proxy_nodes \<Rightarrow> bool" where
  "pn_is_empty p \<longleftrightarrow> pn_generic p = None \<and> pn_format_specific p = []"

record field_proxies =
  fpx_generic :: "sref option"
  fpx_format_specific :: "(string \<times> sref) list"

definition from_field :: "field \<Rightarrow> field_proxies option" where
  "from_field f =
     (let generic = f_proxy f; format_specific = f_format_proxies f
      in if generic = None \<and> format_specific = [] then None
         else Some \<lparr>fpx_generic = generic, fpx_format_specific = format_specific\<rparr>)"

section \<open>Nodes\<close>

datatype node_kind =
  Nk_Scalar
| Nk_Struct struct_plan
| Nk_Enum enum_plan
| Nk_Option
| Nk_Result
| Nk_List
| Nk_Slice
| Nk_Map
| Nk_Set
| Nk_Array nat
| Nk_Pointer
| Nk_OpaquePointer
| Nk_Opaque
| Nk_DynamicValue
| Nk_Transparent
| Nk_BackRef type_id

datatype deser_strategy =
  Ds_ContainerProxy
| Ds_FieldProxy
| Ds_Pointer node_id
| Ds_OpaquePointer
| Ds_Opaque
| Ds_TransparentConvert node_id
| Ds_Scalar "scalar_type option" bool
| Ds_Struct
| Ds_Tuple nat bool
| Ds_Enum
| Ds_Option node_id
| Ds_Result node_id node_id
| Ds_List node_id bool
| Ds_Map node_id node_id
| Ds_Set node_id
| Ds_Array nat node_id
| Ds_DynamicValue
| Ds_MetadataContainer
| Ds_BackRef type_id

record plan_node =
  nd_shape :: sref
  nd_kind :: node_kind
  nd_strategy :: deser_strategy
  nd_has_default :: bool
  nd_proxies :: proxy_nodes

section \<open>Validators\<close>

datatype validator_kind =
  Vk_Custom fn_ptr
| Vk_Min i64 scalar_type
| Vk_Max i64 scalar_type
| Vk_MinLength nat scalar_type
| Vk_MaxLength nat scalar_type
| Vk_Email scalar_type
| Vk_Url scalar_type
| Vk_Regex string scalar_type
| Vk_Contains string scalar_type

text \<open>Reading the data of an attribute as a type (\<open>Attr::get_as\<close>).\<close>

fun data_i64 :: "attr_data \<Rightarrow> i64 option" where
  "data_i64 (Data_I64 n) = Some n" | "data_i64 _ = None"

fun data_usize :: "attr_data \<Rightarrow> nat option" where
  "data_usize (Data_Usize n) = Some n" | "data_usize _ = None"

fun data_str :: "attr_data \<Rightarrow> string option" where
  "data_str (Data_Str s) = Some s" | "data_str _ = None"

fun data_fn :: "attr_data \<Rightarrow> fn_ptr option" where
  "data_fn (Data_Fn f) = Some f" | "data_fn _ = None"

section \<open>The finished plan\<close>

record plan_core =
  pc_nodes :: "plan_node arena"
  pc_fields :: "field_plan arena"
  pc_variants :: "variant_meta arena"
  pc_validators :: "validator_kind arena"
  pc_field_entries :: "field_lookup_entry arena"
  pc_buckets :: "bucket arena"
  pc_node_lookup :: "(type_id, node_id) btmap"
  pc_root :: node_id

definition plan_empty :: plan_core where
  "plan_empty =
     \<lparr>pc_nodes = [], pc_fields = [], pc_variants = [], pc_validators = [], pc_field_entries = [],
      pc_buckets = [], pc_node_lookup = [], pc_root = 0\<rparr>"

section \<open>Facts about proxies\<close>

lemma pn_is_empty_iff: "pn_is_empty p \<longleftrightarrow> \<not> pn_has_any p"
  by (auto simp: pn_is_empty_def pn_has_any_def)

lemma node_for_None_iff:
  "node_for p format = None \<longleftrightarrow>
     pn_generic p = None \<and> (\<forall>fmt. format = Some fmt \<longrightarrow> fmt \<notin> fst ` set (pn_format_specific p))"
  by (auto simp: node_for_def find_None_iff split: option.splits dest: find_eq_Some_in_set)

lemma node_for_generic: "node_for p None = pn_generic p"
  by (simp add: node_for_def)

lemma node_for_in:
  "node_for p format = Some n \<Longrightarrow>
     pn_generic p = Some n \<or> n \<in> snd ` set (pn_format_specific p)"
  by (force simp: node_for_def dest: find_eq_Some_in_set split: option.splits)

end
