(* ===== verification/Field_Lookup.thy ===== *)
theory Field_Lookup
  imports Plan_Data
begin

text \<open>
  Name lookup in a type plan (facet-reflect, src/partial/typeplan.rs): the table from field
  names to field indices, a list for small structs and buckets by the first bytes of the name
  for large ones, and the table from variant names to variant indices. A lookup that would read
  outside an arena, or index outside a slice, is \<open>None\<close>; a lookup that finds no entry is
  \<open>Some None\<close>. A string is the sequence of its UTF-8 bytes.
\<close>

section \<open>Field lookup\<close>

definition LOOKUP_THRESHOLD :: nat where
  "LOOKUP_THRESHOLD = 8"

definition compute_prefix :: "string \<Rightarrow> nat \<Rightarrow> u64" where
  "compute_prefix name prefix_len =
     (let actual_len = min (length name) prefix_len
      in fold (\<lambda>(i, byte) prefix. prefix OR push_bit (i * 8) (of_nat (of_char byte)))
           (enumerate 0 (take actual_len name)) 0)"

definition find_entry :: "string \<Rightarrow> field_lookup_entry list \<Rightarrow> nat option" where
  "find_entry name entries = map_option fe_index (List.find (\<lambda>e. fe_name e = name) entries)"

definition lookup_find ::
    "field_lookup \<Rightarrow> string \<Rightarrow> field_lookup_entry arena \<Rightarrow> bucket arena \<Rightarrow> nat option option" where
  "lookup_find lookup name field_entries buckets =
     (case lookup of
        Lookup_Small entries \<Rightarrow> Some (find_entry name entries)
      | Lookup_Prefix prefix_len entries bucket_range \<Rightarrow>
          (let prefix = compute_prefix name prefix_len
           in case get_slice buckets bucket_range of
                None \<Rightarrow> None
              | Some bucket_slice \<Rightarrow>
                  (case binary_search (map fst bucket_slice) prefix of
                     None \<Rightarrow> Some None
                   | Some bucket_idx \<Rightarrow>
                       (case bucket_slice ! bucket_idx of (_, start, count) \<Rightarrow>
                          (case get_slice field_entries entries of
                             None \<Rightarrow> None
                           | Some all_entries \<Rightarrow>
                               (case add_u32 start count of
                                  None \<Rightarrow> None
                                | Some stop \<Rightarrow>
                                    if unat start \<le> unat stop \<and> unat stop \<le> length all_entries
                                    then Some (find_entry name
                                           (take (unat stop - unat start) (drop (unat start) all_entries)))
                                    else None))))))"

definition find_small :: "field_lookup \<Rightarrow> string \<Rightarrow> nat option option" where
  "find_small lookup name =
     (case lookup of
        Lookup_Small entries \<Rightarrow> Some (find_entry name entries)
      | Lookup_Prefix _ _ _ \<Rightarrow> None)"

definition lookup_is_empty :: "field_lookup \<Rightarrow> bool" where
  "lookup_is_empty lookup =
     (case lookup of
        Lookup_Small entries \<Rightarrow> entries = []
      | Lookup_Prefix _ entries _ \<Rightarrow> range_is_empty entries)"

section \<open>Building the field lookup\<close>

text \<open>The hash map from prefixes to entries is sorted by its distinct keys right after it is
  filled, so it is kept sorted here.\<close>

definition group_by_prefix ::
    "nat \<Rightarrow> field_lookup_entry list \<Rightarrow> (u64, field_lookup_entry list) btmap" where
  "group_by_prefix prefix_len entries =
     fold (\<lambda>e m. let prefix = compute_prefix (fe_name e) prefix_len
                 in btm_insert prefix
                      ((case btm_get m prefix of Some es \<Rightarrow> es | None \<Rightarrow> []) @ [e]) m)
       entries []"

definition flatten_buckets ::
    "(u64 \<times> field_lookup_entry list) list \<Rightarrow> field_lookup_entry list \<times> bucket list" where
  "flatten_buckets bucket_list =
     fold (\<lambda>(prefix, bucket_entries) (all_entries, bucket_data).
             let start = of_nat (length all_entries); count = of_nat (length bucket_entries)
             in (all_entries @ bucket_entries, bucket_data @ [(prefix, start, count)]))
       bucket_list ([], [])"

definition build_field_lookup_from_entries ::
    "field_lookup_entry list \<Rightarrow> field_lookup_entry arena \<Rightarrow> bucket arena
       \<Rightarrow> field_lookup \<times> field_lookup_entry arena \<times> bucket arena" where
  "build_field_lookup_from_entries entries field_entries buckets =
     (let total_entries = length entries
      in if total_entries \<le> LOOKUP_THRESHOLD then (Lookup_Small entries, field_entries, buckets)
         else
           let long_key_count = length (filter (\<lambda>e. 8 \<le> length (fe_name e)) entries);
               prefix_len = (if total_entries div 2 < long_key_count then 8 else 4);
               (all_entries, bucket_data) = flatten_buckets (group_by_prefix prefix_len entries);
               (field_entries, entries_range) = alloc_extend field_entries all_entries;
               (buckets, buckets_range) = alloc_extend buckets bucket_data
           in (Lookup_Prefix prefix_len entries_range buckets_range, field_entries, buckets))"

definition plan_entries :: "field_plan list \<Rightarrow> field_lookup_entry list" where
  "plan_entries field_plans =
     concat (map (\<lambda>(index, p).
         \<lparr>fe_name = fp_effective_name p, fe_index = index, fe_is_alias = False\<rparr>
         # (case fp_alias p of
              Some alias \<Rightarrow> [\<lparr>fe_name = alias, fe_index = index, fe_is_alias = True\<rparr>]
            | None \<Rightarrow> []))
       (enumerate 0 field_plans))"

definition build_field_lookup ::
    "field_plan list \<Rightarrow> field_lookup_entry arena \<Rightarrow> bucket arena
       \<Rightarrow> field_lookup \<times> field_lookup_entry arena \<times> bucket arena" where
  "build_field_lookup field_plans = build_field_lookup_from_entries (plan_entries field_plans)"

section \<open>Variant lookup\<close>

definition vlookup_find :: "variant_lookup \<Rightarrow> string \<Rightarrow> nat option" where
  "vlookup_find lookup name =
     (case lookup of
        Variants_Small entries \<Rightarrow> map_option snd (List.find (\<lambda>e. fst e = name) entries)
      | Variants_Sorted entries \<Rightarrow>
          map_option (\<lambda>i. snd (entries ! i)) (binary_search (map fst entries) name))"

definition variant_aliases :: "variant \<Rightarrow> string list" where
  "variant_aliases v =
     List.map_filter (\<lambda>a. data_str (attr_data a))
       (filter (\<lambda>a. attr_ns a = None \<and> attr_key a = ''alias'') (v_attributes v))"

definition known_variants :: "variant_meta list \<Rightarrow> (nat \<times> variant_meta) list" where
  "known_variants variants =
     filter (\<lambda>(_, v). \<not> variant_is_other (vm_variant v)) (enumerate 0 variants)"

definition push_alias :: "nat \<Rightarrow> string \<Rightarrow> (string \<times> nat) list \<Rightarrow> (string \<times> nat) list" where
  "push_alias index alias entries =
     (if list_ex (\<lambda>e. fst e = alias) entries then entries else entries @ [(alias, index)])"

definition variant_entries :: "variant_meta list \<Rightarrow> (string \<times> nat) list" where
  "variant_entries variants =
     fold (\<lambda>(index, v). fold (push_alias index) (variant_aliases (vm_variant v)))
       (known_variants variants) (map (\<lambda>(i, v). (vm_name v, i)) (known_variants variants))"

definition build_variant_lookup :: "variant_meta list \<Rightarrow> variant_lookup" where
  "build_variant_lookup variants =
     (let entries = variant_entries variants
      in if length entries \<le> LOOKUP_THRESHOLD then Variants_Small entries
         else Variants_Sorted (sort_key fst entries))"

section \<open>Facts about field lookup\<close>

lemma find_filter: "(\<And>x. P x \<Longrightarrow> Q x) \<Longrightarrow> List.find P (filter Q xs) = List.find P xs"
  by (induction xs) auto

lemma find_entry_filter:
  "(\<And>e. fe_name e = name \<Longrightarrow> Q e) \<Longrightarrow> find_entry name (filter Q es) = find_entry name es"
  by (simp add: find_entry_def find_filter)

lemma find_entry_None: "(\<And>e. e \<in> set es \<Longrightarrow> fe_name e \<noteq> name) \<Longrightarrow> find_entry name es = None"
  by (auto simp: find_entry_def find_None_iff)

text \<open>The grouping holds, under each prefix that occurs, the entries with it, in order.\<close>

definition has_prefix :: "nat \<Rightarrow> u64 \<Rightarrow> field_lookup_entry \<Rightarrow> bool" where
  "has_prefix n p e \<longleftrightarrow> compute_prefix (fe_name e) n = p"

lemma group_by_prefix_snoc:
  "group_by_prefix n (es @ [e]) =
     btm_insert (compute_prefix (fe_name e) n)
       ((case btm_get (group_by_prefix n es) (compute_prefix (fe_name e) n) of
           Some g \<Rightarrow> g | None \<Rightarrow> []) @ [e]) (group_by_prefix n es)"
  by (simp add: group_by_prefix_def Let_def)

lemma group_by_prefix_wf: "btm_wf (group_by_prefix n es)"
  by (induction es rule: rev_induct) (simp_all add: group_by_prefix_snoc, simp add: group_by_prefix_def)

lemma group_by_prefix_get:
  "btm_get (group_by_prefix n es) p =
     (let g = filter (has_prefix n p) es in if g = [] then None else Some g)"
proof (induction es rule: rev_induct)
  case Nil
  show ?case by (simp add: group_by_prefix_def)
next
  case (snoc e es)
  then show ?case
    by (cases "has_prefix n p e") (auto simp: group_by_prefix_snoc has_prefix_def Let_def)
qed

lemma length_group: "length (concat (map snd (group_by_prefix n es))) = length es"
proof (induction es rule: rev_induct)
  case Nil
  show ?case by (simp add: group_by_prefix_def)
next
  case (snoc e es)
  have "length (concat (map snd (btm_insert k ((case btm_get m k of Some g \<Rightarrow> g | None \<Rightarrow> []) @ [e]) m)))
      = Suc (length (concat (map snd m)))" if "btm_wf m" for k and m :: "(u64, field_lookup_entry list) btmap"
    using that
  proof (induction m)
    case Nil
    then show ?case by simp
  next
    case (Cons x m)
    obtain a b where x: "x = (a, b)" by (cases x)
    consider "k < a" | "k = a" | "a < k" by force
    then show ?case
    proof cases
      case 1
      then have "btm_get m k = None"
        using Cons.prems x by (auto simp: btm_get_None dest: order.strict_trans)
      then show ?thesis using 1 x by auto
    next
      case 2
      then show ?thesis using x by simp
    next
      case 3
      then show ?thesis using Cons x by auto
    qed
  qed
  from this [OF group_by_prefix_wf] snoc show ?case by (simp only: group_by_prefix_snoc) simp
qed

lemma length_groups: "length (group_by_prefix n es) \<le> length es"
proof -
  have ne: "g \<noteq> []" if "(p, g) \<in> set (group_by_prefix n es)" for p g
    using that unfolding btm_in_set_get [OF group_by_prefix_wf] group_by_prefix_get
    by (auto simp: Let_def split: if_splits)
  have "length m \<le> length (concat (map snd m))" if "\<forall>(p, g) \<in> set m. g \<noteq> []"
    for m :: "(u64, field_lookup_entry list) btmap"
    using that
  proof (induction m)
    case (Cons x m)
    then have "0 < length (snd x)" "length m \<le> length (concat (map snd m))" by auto
    then have "Suc (length m) \<le> length (snd x) + length (concat (map snd m))" by linarith
    then show ?case by simp
  qed simp
  from this [of "group_by_prefix n es"] ne length_group [of n es] show ?thesis by auto
qed

text \<open>Flattening writes each group where its bucket says it starts.\<close>

definition bucket_starts :: "(u64 \<times> field_lookup_entry list) list \<Rightarrow> nat \<Rightarrow> bucket list" where
  "bucket_starts m base =
     map (\<lambda>i. (fst (m ! i), of_nat (base + length (concat (map snd (take i m)))), of_nat (length (snd (m ! i)))))
       [0..<length m]"

lemma flatten_buckets_eq:
  "flatten_buckets m = (concat (map snd m), bucket_starts m 0)"
proof (induction m rule: rev_induct)
  case Nil
  show ?case by (simp add: flatten_buckets_def bucket_starts_def)
next
  case (snoc x m)
  obtain p g where x: "x = (p, g)" by (cases x)
  have "flatten_buckets (m @ [x]) =
      (let (all_entries, bucket_data) = flatten_buckets m
       in (all_entries @ g, bucket_data @ [(p, of_nat (length all_entries), of_nat (length g))]))"
    by (simp add: flatten_buckets_def x split_beta Let_def)
  also have "\<dots> = (concat (map snd (m @ [x])), bucket_starts (m @ [x]) 0)"
    using snoc by (simp add: x bucket_starts_def nth_append)
  finally show ?case .
qed

lemma map_fst_bucket_starts: "map fst (bucket_starts m base) = map fst m"
  by (rule nth_equalityI) (auto simp: bucket_starts_def)

lemma length_bucket_starts: "length (bucket_starts m base) = length m"
  by (simp add: bucket_starts_def)

lemma concat_group_slice:
  "i < length m \<Longrightarrow>
     take (length (snd (m ! i))) (drop (length (concat (map snd (take i m)))) (concat (map snd m))) = snd (m ! i)
     \<and> length (concat (map snd (take i m))) + length (snd (m ! i)) \<le> length (concat (map snd m))"
proof -
  assume i: "i < length m"
  have "concat (map snd m) = concat (map snd (take i m)) @ snd (m ! i) @ concat (map snd (drop (Suc i) m))"
    using arg_cong [OF id_take_nth_drop [OF i], of "\<lambda>m. concat (map snd m)"] by simp
  then show ?thesis by simp
qed

lemma lookup_entries_correct:
  assumes build: "build_field_lookup_from_entries es fes bks = (l, fes', bks')"
    and fit: "length fes' < 2 ^ 32" "length bks' < 2 ^ 32"
  shows "lookup_find l name (fes' @ x) (bks' @ y) = Some (find_entry name es)"
proof (cases "length es \<le> LOOKUP_THRESHOLD")
  case True
  with build show ?thesis by (auto simp: build_field_lookup_from_entries_def Let_def lookup_find_def)
next
  case False
  define n :: nat where "n = (if length es div 2 < length (filter (\<lambda>e. 8 \<le> length (fe_name e)) es) then 8 else 4)"
  let ?m = "group_by_prefix n es" and ?p = "compute_prefix name n"
  let ?all = "concat (map snd ?m)" and ?bd = "bucket_starts ?m 0"
  obtain er br where
    ext: "alloc_extend fes ?all = (fes', er)" "alloc_extend bks ?bd = (bks', br)" and l: "l = Lookup_Prefix n er br"
    using build False
    by (auto simp: build_field_lookup_from_entries_def Let_def flatten_buckets_eq n_def [symmetric]
        split: prod.splits)
  have "fes' = fes @ ?all" "bks' = bks @ ?bd"
    using ext by (auto simp: alloc_extend_def Let_def)
  then have small: "length fes + length ?all < 2 ^ 32" "length bks + length ?bd < 2 ^ 32"
    using fit by simp_all
  have sl: "get_slice (fes' @ x) er = Some ?all" "get_slice (bks' @ y) br = Some ?bd"
    using get_slice_extend(2) [OF ext(1) small(1)] get_slice_extend(2) [OF ext(2) small(2)]
    by (simp_all add: get_slice_append)
  have keys: "map fst ?bd = map fst ?m" by (rule map_fst_bucket_starts)
  have wf: "sorted (map fst ?m)" "distinct (map fst ?m)"
    using group_by_prefix_wf [of n es] by (simp_all add: btm_wf_def strict_sorted_iff)
  note bs = binary_search_spec [OF wf(1), of ?p]
  show ?thesis
  proof (cases "binary_search (map fst ?m) ?p")
    case None
    then have "btm_get ?m ?p = None" using bs by (simp add: btm_get_None)
    then have "filter (has_prefix n ?p) es = []"
      by (auto simp: group_by_prefix_get Let_def split: if_splits)
    then have "fe_name e \<noteq> name" if "e \<in> set es" for e
      using that by (auto simp: filter_empty_conv has_prefix_def)
    then show ?thesis
      by (simp add: l lookup_find_def Let_def sl keys None find_entry_None)
  next
    case (Some i)
    then have i: "i < length ?m" "fst (?m ! i) = ?p" using bs by auto
    define g where "g = snd (?m ! i)"
    define st where "st = length (concat (map snd (take i ?m)))"
    have "(?p, g) \<in> set ?m" using i nth_mem [OF i(1)] by (simp add: g_def prod_eq_iff [symmetric] flip: i(2))
    then have "btm_get ?m ?p = Some g" by (simp add: btm_in_set_get [OF group_by_prefix_wf])
    then have g: "g = filter (has_prefix n ?p) es" by (auto simp: group_by_prefix_get Let_def split: if_splits)
    have slice: "take (length g) (drop st ?all) = g" "st + length g \<le> length ?all"
      using concat_group_slice [OF i(1)] by (simp_all add: g_def st_def)
    have nums: "unat (of_nat st :: u32) = st" "unat (of_nat (st + length g) :: u32) = st + length g"
      "add_u32 (of_nat st) (of_nat (length g)) = Some (of_nat (st + length g))"
      using slice(2) small(1) by (simp_all add: unat_of_nat_u32 add_u32_of_nat del: of_nat_add)
    have bi: "?bd ! i = (?p, of_nat st, of_nat (length g))"
      using i by (simp add: bucket_starts_def g_def st_def)
    have "lookup_find l name (fes' @ x) (bks' @ y) = Some (find_entry name g)"
      using slice small(1)
      by (simp add: l lookup_find_def Let_def sl keys Some bi nums del: of_nat_add)
    also have "find_entry name g = find_entry name es"
      unfolding g by (rule find_entry_filter) (simp add: has_prefix_def)
    finally show ?thesis .
  qed
qed

lemma build_lookup_extends:
  assumes "build_field_lookup_from_entries es fes bks = (l, fes', bks')"
  shows "\<exists>u v. fes' = fes @ u \<and> bks' = bks @ v"
  using assms
  by (auto simp: build_field_lookup_from_entries_def Let_def alloc_extend_def flatten_buckets_eq
      split: if_splits)

lemma lookup_sizes:
  assumes "build_field_lookup_from_entries es fes bks = (l, fes', bks')"
  shows "length fes' \<le> length fes + length es" and "length bks' \<le> length bks + length es"
  using assms length_group [of _ es] length_groups [of _ es] length_bucket_starts
  by (auto simp: build_field_lookup_from_entries_def Let_def alloc_extend_def flatten_buckets_eq
      split: if_splits)

text \<open>The entry of a name, over the plans: the first field that has it as its name or alias.\<close>

definition answers_to :: "string \<Rightarrow> field_plan \<Rightarrow> bool" where
  "answers_to name p \<longleftrightarrow> fp_effective_name p = name \<or> fp_alias p = Some name"

lemma find_entry_Cons:
  "find_entry name (e # es) = (if fe_name e = name then Some (fe_index e) else find_entry name es)"
  by (simp add: find_entry_def)

lemma find_plan_entries:
  "find_entry name (concat (map (\<lambda>(index, p).
         \<lparr>fe_name = fp_effective_name p, fe_index = index, fe_is_alias = False\<rparr>
         # (case fp_alias p of
              Some alias \<Rightarrow> [\<lparr>fe_name = alias, fe_index = index, fe_is_alias = True\<rparr>]
            | None \<Rightarrow> [])) es)) = map_option fst (List.find (\<lambda>(i, p). answers_to name p) es)"
proof (induction es)
  case Nil
  then show ?case by (simp add: find_entry_def)
next
  case (Cons e es)
  then show ?case
    by (cases e; cases "fp_alias (snd e)") (auto simp: find_entry_Cons answers_to_def)
qed

lemma find_entry_plans:
  "find_entry name (plan_entries ps) = map_option fst (List.find (\<lambda>(i, p). answers_to name p) (enumerate 0 ps))"
  by (simp add: plan_entries_def find_plan_entries)

section \<open>Facts about variant lookup\<close>

text \<open>Pushing an alias keeps the names distinct and changes the meaning of no other name.\<close>

lemma push_alias_map_of:
  "map_of (push_alias i a es) name =
     (case map_of es name of Some j \<Rightarrow> Some j | None \<Rightarrow> if a = name then Some i else None)"
proof (cases "list_ex (\<lambda>e. fst e = a) es")
  case True
  then have "a \<in> fst ` set es" by (force simp: list_ex_iff)
  then have "map_of es a \<noteq> None" by (simp add: map_of_eq_None_iff)
  with True show ?thesis by (auto simp: push_alias_def split: option.splits)
next
  case False
  then show ?thesis by (auto simp: push_alias_def map_add_def split: option.splits)
qed

lemma push_alias_distinct: "distinct (map fst es) \<Longrightarrow> distinct (map fst (push_alias i a es))"
  by (auto simp: push_alias_def list_ex_iff)

lemma push_aliases_map_of:
  "map_of (fold (push_alias i) as es) name =
     (case map_of es name of Some j \<Rightarrow> Some j | None \<Rightarrow> if name \<in> set as then Some i else None)"
  by (induction as arbitrary: es) (auto simp: push_alias_map_of split: option.splits)

lemma push_aliases_distinct:
  "distinct (map fst es) \<Longrightarrow> distinct (map fst (fold (push_alias i) as es))"
  by (induction as arbitrary: es) (auto simp: push_alias_distinct)

lemma all_aliases_map_of:
  "map_of (fold (\<lambda>(index, v). fold (push_alias index) (variant_aliases (vm_variant v))) ks es) name =
     (case map_of es name of Some j \<Rightarrow> Some j
      | None \<Rightarrow> map_option fst (List.find (\<lambda>(i, v). name \<in> set (variant_aliases (vm_variant v))) ks))"
  by (induction ks arbitrary: es) (auto simp: push_aliases_map_of split: option.splits)

lemma all_aliases_distinct:
  "distinct (map fst es) \<Longrightarrow>
     distinct (map fst (fold (\<lambda>(index, v). fold (push_alias index) (variant_aliases (vm_variant v))) ks es))"
  by (induction ks arbitrary: es) (auto simp: push_aliases_distinct)

lemma map_of_canonical:
  "map_of (map (\<lambda>(i, v). (vm_name v, i)) ks) name = map_option fst (List.find (\<lambda>(i, v). vm_name v = name) ks)"
  by (induction ks) auto

lemma find_eq_map_of: "map_option snd (List.find (\<lambda>e. fst e = k) es) = map_of es k"
  by (induction es) auto

lemma sorted_lookup_map_of:
  assumes "distinct (map fst es)"
  shows "vlookup_find (Variants_Sorted (sort_key fst es)) name = map_of es name"
proof -
  let ?s = "sort_key fst es"
  have sorted: "sorted (map fst ?s)" by simp
  have set: "set ?s = set es" by simp
  have dist: "distinct (map fst ?s)"
    using assms distinct_map [of fst ?s] distinct_map [of fst es] by (simp add: distinct_map)
  have same: "map_of ?s name = map_of es name"
    using dist assms set by (metis map_of_inject_set)
  show ?thesis
  proof (cases "binary_search (map fst ?s) name")
    case None
    then have "map_of ?s name = None"
      using binary_search_spec [OF sorted, of name] by (simp add: map_of_eq_None_iff)
    with None same show ?thesis by (simp add: vlookup_find_def)
  next
    case (Some i)
    then have "i < length ?s" "fst (?s ! i) = name"
      using binary_search_spec [OF sorted, of name] by auto
    then have "(name, snd (?s ! i)) \<in> set ?s" by (metis nth_mem prod.collapse)
    then have "map_of ?s name = Some (snd (?s ! i))" using dist by simp
    with Some same show ?thesis by (simp add: vlookup_find_def)
  qed
qed

lemma variant_lookup_map_of:
  assumes "distinct (map (vm_name \<circ> snd) (known_variants vs))"
  shows "vlookup_find (build_variant_lookup vs) name = map_of (variant_entries vs) name"
proof -
  have "map fst (map (\<lambda>(i, v). (vm_name v, i)) (known_variants vs)) = map (vm_name \<circ> snd) (known_variants vs)"
    by (auto simp: split_beta)
  then have "distinct (map fst (map (\<lambda>(i, v). (vm_name v, i)) (known_variants vs)))"
    using assms by (simp only:)
  then have "distinct (map fst (variant_entries vs))"
    unfolding variant_entries_def by (rule all_aliases_distinct)
  then show ?thesis
    using sorted_lookup_map_of [of "variant_entries vs" name]
    by (simp add: build_variant_lookup_def Let_def) (simp add: vlookup_find_def find_eq_map_of)
qed

lemma variant_entries_map_of:
  "map_of (variant_entries vs) name =
     (case List.find (\<lambda>(i, v). vm_name v = name) (known_variants vs) of
        Some (i, v) \<Rightarrow> Some i
      | None \<Rightarrow> map_option fst
          (List.find (\<lambda>(i, v). name \<in> set (variant_aliases (vm_variant v))) (known_variants vs)))"
  by (simp add: variant_entries_def all_aliases_map_of map_of_canonical split: option.splits)

end
