(* ===== verification/Validators.thy ===== *)
theory Validators
  imports Plan_Data
begin

text \<open>
  The validators of a type plan (facet-reflect, src/partial/typeplan.rs): what each kind of
  validator accepts when it is run on the value of a field, and the extraction of a field's
  validators from its attributes. A field's memory holds a value of one type; reading it as
  another type is undefined behaviour, \<open>None\<close>. Signed integers are their words, read by
  \<open>sint\<close>. A custom validator is a call through a function pointer; the regex engine, a
  third-party crate behind a feature, is the parameter \<open>regex\<close> (\<open>None\<close> when the feature is off),
  which compiles a pattern, or fails to, and gives its matcher.
\<close>

section \<open>Values and messages\<close>

datatype field_value =
  Val_I8 "8 word" | Val_I16 "16 word" | Val_I32 "32 word" | Val_I64 "64 word"
| Val_U8 u8 | Val_U16 u16 | Val_U32 u32 | Val_U64 u64
| Val_String string | Val_CowStr string
| Val_Other nat

datatype reflect_error = ValidationFailed sref string string

type_synonym check = "string + unit"

fun show_nat :: "nat \<Rightarrow> string" where
  "show_nat n =
     (if n < 10 then [char_of (48 + n)] else show_nat (n div 10) @ [char_of (48 + n mod 10)])"

declare show_nat.simps [simp del]

definition show_int :: "int \<Rightarrow> string" where
  "show_int i = (if i < 0 then ''-'' @ show_nat (nat (- i)) else show_nat (nat i))"

definition at_least :: "string \<Rightarrow> string \<Rightarrow> string" where
  "at_least limit v = ''must be >= '' @ limit @ '', got '' @ v"

definition at_most :: "string \<Rightarrow> string \<Rightarrow> string" where
  "at_most limit v = ''must be <= '' @ limit @ '', got '' @ v"

section \<open>Numeric bounds\<close>

definition I64_MAX :: i64 where
  "I64_MAX = 0x7FFFFFFFFFFFFFFF"

definition check_min :: "i64 \<Rightarrow> i64 \<Rightarrow> check" where
  "check_min limit v =
     (if v <s limit then Inl (at_least (show_int (sint limit)) (show_int (sint v))) else Inr ())"

definition check_max :: "i64 \<Rightarrow> i64 \<Rightarrow> check" where
  "check_max limit v =
     (if limit <s v then Inl (at_most (show_int (sint limit)) (show_int (sint v))) else Inr ())"

fun validate_min :: "field_value \<Rightarrow> i64 \<Rightarrow> scalar_type \<Rightarrow> check option" where
  "validate_min v limit ST_I8 = (case v of Val_I8 w \<Rightarrow> Some (check_min limit (scast w)) | _ \<Rightarrow> None)"
| "validate_min v limit ST_I16 = (case v of Val_I16 w \<Rightarrow> Some (check_min limit (scast w)) | _ \<Rightarrow> None)"
| "validate_min v limit ST_I32 = (case v of Val_I32 w \<Rightarrow> Some (check_min limit (scast w)) | _ \<Rightarrow> None)"
| "validate_min v limit ST_I64 = (case v of Val_I64 w \<Rightarrow> Some (check_min limit w) | _ \<Rightarrow> None)"
| "validate_min v limit ST_U8 = (case v of Val_U8 w \<Rightarrow> Some (check_min limit (ucast w)) | _ \<Rightarrow> None)"
| "validate_min v limit ST_U16 = (case v of Val_U16 w \<Rightarrow> Some (check_min limit (ucast w)) | _ \<Rightarrow> None)"
| "validate_min v limit ST_U32 = (case v of Val_U32 w \<Rightarrow> Some (check_min limit (ucast w)) | _ \<Rightarrow> None)"
| "validate_min v limit ST_U64 =
     (case v of
        Val_U64 w \<Rightarrow>
          Some (if I64_MAX < w then Inr ()
                else if w <s limit then Inl (at_least (show_int (sint limit)) (show_int (uint w)))
                else Inr ())
      | _ \<Rightarrow> None)"
| "validate_min v limit _ = Some (Inr ())"

fun validate_max :: "field_value \<Rightarrow> i64 \<Rightarrow> scalar_type \<Rightarrow> check option" where
  "validate_max v limit ST_I8 = (case v of Val_I8 w \<Rightarrow> Some (check_max limit (scast w)) | _ \<Rightarrow> None)"
| "validate_max v limit ST_I16 = (case v of Val_I16 w \<Rightarrow> Some (check_max limit (scast w)) | _ \<Rightarrow> None)"
| "validate_max v limit ST_I32 = (case v of Val_I32 w \<Rightarrow> Some (check_max limit (scast w)) | _ \<Rightarrow> None)"
| "validate_max v limit ST_I64 = (case v of Val_I64 w \<Rightarrow> Some (check_max limit w) | _ \<Rightarrow> None)"
| "validate_max v limit ST_U8 = (case v of Val_U8 w \<Rightarrow> Some (check_max limit (ucast w)) | _ \<Rightarrow> None)"
| "validate_max v limit ST_U16 = (case v of Val_U16 w \<Rightarrow> Some (check_max limit (ucast w)) | _ \<Rightarrow> None)"
| "validate_max v limit ST_U32 = (case v of Val_U32 w \<Rightarrow> Some (check_max limit (ucast w)) | _ \<Rightarrow> None)"
| "validate_max v limit ST_U64 =
     (case v of
        Val_U64 w \<Rightarrow>
          Some (if I64_MAX < w \<or> limit <s w
                then Inl (at_most (show_int (sint limit)) (show_int (uint w)))
                else Inr ())
      | _ \<Rightarrow> None)"
| "validate_max v limit _ = Some (Inr ())"

section \<open>Strings\<close>

fun get_string_length :: "field_value \<Rightarrow> scalar_type \<Rightarrow> nat option" where
  "get_string_length v ST_String = (case v of Val_String s \<Rightarrow> Some (length s) | _ \<Rightarrow> None)"
| "get_string_length v ST_CowStr = (case v of Val_CowStr s \<Rightarrow> Some (length s) | _ \<Rightarrow> None)"
| "get_string_length v _ = Some 0"

fun get_string :: "field_value \<Rightarrow> scalar_type \<Rightarrow> string option" where
  "get_string v ST_String = (case v of Val_String s \<Rightarrow> Some s | _ \<Rightarrow> None)"
| "get_string v ST_CowStr = (case v of Val_CowStr s \<Rightarrow> Some s | _ \<Rightarrow> None)"
| "get_string v _ = Some ''''"

fun split_on :: "char \<Rightarrow> string \<Rightarrow> string list" where
  "split_on c [] = [[]]"
| "split_on c (x # xs) =
     (if x = c then [] # split_on c xs else (x # hd (split_on c xs)) # tl (split_on c xs))"

definition starts_with :: "string \<Rightarrow> string \<Rightarrow> bool" where
  "starts_with s p \<longleftrightarrow> take (length p) s = p"

fun str_contains :: "string \<Rightarrow> string \<Rightarrow> bool" where
  "str_contains [] needle \<longleftrightarrow> needle = []"
| "str_contains (x # xs) needle \<longleftrightarrow> starts_with (x # xs) needle \<or> str_contains xs needle"

definition is_valid_email :: "string \<Rightarrow> bool" where
  "is_valid_email s \<longleftrightarrow>
     (let parts = split_on (CHR ''@'') s
      in length parts = 2 \<and> parts ! 0 \<noteq> [] \<and> parts ! 1 \<noteq> [] \<and> CHR ''.'' \<in> set (parts ! 1))"

definition is_valid_url :: "string \<Rightarrow> bool" where
  "is_valid_url s \<longleftrightarrow> starts_with s ''http://'' \<or> starts_with s ''https://''"

type_synonym regex_engine = "(string \<Rightarrow> (string \<Rightarrow> bool) option) option"

definition matches_pattern :: "regex_engine \<Rightarrow> string \<Rightarrow> string \<Rightarrow> string + bool" where
  "matches_pattern regex s pattern =
     (case regex of
        Some compile \<Rightarrow> Inr (case compile pattern of Some is_match \<Rightarrow> is_match s | None \<Rightarrow> False)
      | None \<Rightarrow> Inl ''validate::regex requires the facet-reflect `regex` feature'')"

section \<open>Running a validator\<close>

fun check_kind ::
    "regex_engine \<Rightarrow> (fn_ptr \<Rightarrow> field_value \<Rightarrow> check) \<Rightarrow> validator_kind \<Rightarrow> field_value \<Rightarrow> check option" where
  "check_kind regex call (Vk_Custom f) v = Some (call f v)"
| "check_kind regex call (Vk_Min limit st) v = validate_min v limit st"
| "check_kind regex call (Vk_Max limit st) v = validate_max v limit st"
| "check_kind regex call (Vk_MinLength limit st) v =
     map_option (\<lambda>len. if len < limit
        then Inl (''length must be >= '' @ show_nat limit @ '', got '' @ show_nat len) else Inr ())
       (get_string_length v st)"
| "check_kind regex call (Vk_MaxLength limit st) v =
     map_option (\<lambda>len. if limit < len
        then Inl (''length must be <= '' @ show_nat limit @ '', got '' @ show_nat len) else Inr ())
       (get_string_length v st)"
| "check_kind regex call (Vk_Email st) v =
     map_option (\<lambda>s. if is_valid_email s then Inr ()
        else Inl (CHR 0x27 # s @ CHR 0x27 # '' is not a valid email address'')) (get_string v st)"
| "check_kind regex call (Vk_Url st) v =
     map_option (\<lambda>s. if is_valid_url s then Inr ()
        else Inl (CHR 0x27 # s @ CHR 0x27 # '' is not a valid URL'')) (get_string v st)"
| "check_kind regex call (Vk_Regex pattern st) v =
     map_option (\<lambda>s. case matches_pattern regex s pattern of
          Inr True \<Rightarrow> Inr ()
        | Inr False \<Rightarrow> Inl (CHR 0x27 # s @ CHR 0x27 # '' does not match pattern ''
                             @ CHR 0x27 # pattern @ [CHR 0x27])
        | Inl err \<Rightarrow> Inl err) (get_string v st)"
| "check_kind regex call (Vk_Contains needle st) v =
     map_option (\<lambda>s. if str_contains s needle then Inr ()
        else Inl (CHR 0x27 # s @ CHR 0x27 # '' does not contain ''
                   @ CHR 0x27 # needle @ [CHR 0x27])) (get_string v st)"

definition validator_run ::
    "regex_engine \<Rightarrow> (fn_ptr \<Rightarrow> field_value \<Rightarrow> check) \<Rightarrow> validator_kind \<Rightarrow> field_value \<Rightarrow> string
       \<Rightarrow> sref \<Rightarrow> (reflect_error + unit) option" where
  "validator_run regex call kind v field_name container_shape =
     map_option (\<lambda>result. case result of
          Inr u \<Rightarrow> Inr u
        | Inl message \<Rightarrow> Inl (ValidationFailed container_shape field_name message))
       (check_kind regex call kind v)"

section \<open>Extracting the validators of a field\<close>

text \<open>One turn of the loop over the attributes: \<open>None\<close> is a panic (an \<open>expect\<close> that fails, or
  the data of a custom validator that is no function), \<open>Some None\<close> an attribute to skip.\<close>

definition expect_both :: "'a option \<Rightarrow> 'b option \<Rightarrow> ('a \<Rightarrow> 'b \<Rightarrow> 'c) \<Rightarrow> 'c option option" where
  "expect_both a b f = (case (a, b) of (Some x, Some y) \<Rightarrow> Some (Some (f x y)) | _ \<Rightarrow> None)"

definition validator_of_attr :: "scalar_type option \<Rightarrow> attr \<Rightarrow> validator_kind option option" where
  "validator_of_attr st a =
     (let key = attr_key a; data = attr_data a
      in if attr_ns a \<noteq> Some ''validate'' then Some None
         else if key = ''custom'' then map_option (\<lambda>f. Some (Vk_Custom f)) (data_fn data)
         else if key = ''min'' then expect_both (data_i64 data) st Vk_Min
         else if key = ''max'' then expect_both (data_i64 data) st Vk_Max
         else if key = ''min_length'' then expect_both (data_usize data) st Vk_MinLength
         else if key = ''max_length'' then expect_both (data_usize data) st Vk_MaxLength
         else if key = ''email'' then map_option (\<lambda>t. Some (Vk_Email t)) st
         else if key = ''url'' then map_option (\<lambda>t. Some (Vk_Url t)) st
         else if key = ''regex'' then expect_both (data_str data) st Vk_Regex
         else if key = ''contains'' then expect_both (data_str data) st Vk_Contains
         else Some None)"

definition collect_validators :: "scalar_type option \<Rightarrow> attr list \<Rightarrow> validator_kind list option" where
  "collect_validators st attrs =
     ofold (\<lambda>a validators.
         case validator_of_attr st a of
           None \<Rightarrow> None
         | Some None \<Rightarrow> Some validators
         | Some (Some kind) \<Rightarrow> Some (validators @ [kind])) attrs []"

definition extract_validators ::
    "shapes \<Rightarrow> field \<Rightarrow> validator_kind arena \<Rightarrow> (validator_kind arena \<times> slice_range) option" where
  "extract_validators S f arena =
     map_option (alloc_extend arena)
       (collect_validators (shape_scalar_type (sh_id (S (f_shape f)))) (f_attributes f))"

section \<open>Facts about numeric bounds\<close>

text \<open>The number a value of one of the eight checked types stands for.\<close>

definition numeric_value :: "scalar_type \<Rightarrow> field_value \<Rightarrow> int option" where
  "numeric_value st v =
     (case v of
        Val_I8 w \<Rightarrow> if st = ST_I8 then Some (sint w) else None
      | Val_I16 w \<Rightarrow> if st = ST_I16 then Some (sint w) else None
      | Val_I32 w \<Rightarrow> if st = ST_I32 then Some (sint w) else None
      | Val_I64 w \<Rightarrow> if st = ST_I64 then Some (sint w) else None
      | Val_U8 w \<Rightarrow> if st = ST_U8 then Some (uint w) else None
      | Val_U16 w \<Rightarrow> if st = ST_U16 then Some (uint w) else None
      | Val_U32 w \<Rightarrow> if st = ST_U32 then Some (uint w) else None
      | Val_U64 w \<Rightarrow> if st = ST_U64 then Some (uint w) else None
      | _ \<Rightarrow> None)"

lemma numeric_value_cases:
  assumes "numeric_value st v = Some n"
  obtains (Val_I8) w where "st = ST_I8" "v = Val_I8 w" "n = sint w"
    | (Val_I16) w where "st = ST_I16" "v = Val_I16 w" "n = sint w"
    | (Val_I32) w where "st = ST_I32" "v = Val_I32 w" "n = sint w"
    | (Val_I64) w where "st = ST_I64" "v = Val_I64 w" "n = sint w"
    | (Val_U8) w where "st = ST_U8" "v = Val_U8 w" "n = uint w"
    | (Val_U16) w where "st = ST_U16" "v = Val_U16 w" "n = uint w"
    | (Val_U32) w where "st = ST_U32" "v = Val_U32 w" "n = uint w"
    | (Val_U64) w where "st = ST_U64" "v = Val_U64 w" "n = uint w"
  using assms by (cases v) (auto simp: numeric_value_def split: if_splits)

lemma sint_scast_i64:
  "sint (scast (w8 :: 8 word) :: i64) = sint w8"
  "sint (scast (w16 :: 16 word) :: i64) = sint w16"
  "sint (scast (w32 :: 32 word) :: i64) = sint w32"
  by (simp_all add: sint_up_scast is_up)

lemma sint_eq_uint_i64: "uint (w :: i64) < 2 ^ 63 \<Longrightarrow> sint w = uint w"
proof -
  assume w: "uint w < 2 ^ 63"
  have "- (2 ^ 63) \<le> uint w" by (rule order_trans [OF _ uint_ge_0]) simp
  then have "signed_take_bit 63 (uint w) = uint w" using w by (rule signed_take_bit_int_eq_self)
  then show ?thesis by (simp add: sint_uint)
qed

lemma sint_ucast_i64:
  "sint (ucast (v8 :: u8) :: i64) = uint v8"
  "sint (ucast (v16 :: u16) :: i64) = uint v16"
  "sint (ucast (v32 :: u32) :: i64) = uint v32"
  using uint_lt2p [of v8] uint_lt2p [of v16] uint_lt2p [of v32]
  by (simp_all add: sint_eq_uint_i64 uint_up_ucast is_up)

lemma I64_MAX_less: "I64_MAX < w \<longleftrightarrow> 2 ^ 63 \<le> uint w"
  by (auto simp: I64_MAX_def word_less_def)

lemma sint_lt_i64: "sint (limit :: i64) < 2 ^ 63"
  using sint_lt [of limit] by simp

lemma check_min_eq:
  "check_min limit v = (if sint v < sint limit
     then Inl (at_least (show_int (sint limit)) (show_int (sint v))) else Inr ())"
  by (simp add: check_min_def word_sless_alt)

lemma check_max_eq:
  "check_max limit v = (if sint limit < sint v
     then Inl (at_most (show_int (sint limit)) (show_int (sint v))) else Inr ())"
  by (simp add: check_max_def word_sless_alt)

lemma validate_min_exact:
  assumes "numeric_value st v = Some n"
  shows "validate_min v limit st = Some (if n < sint limit
     then Inl (at_least (show_int (sint limit)) (show_int n)) else Inr ())"
  using assms sint_lt_i64 [of limit]
  by (cases rule: numeric_value_cases)
    (auto simp: check_min_eq sint_scast_i64 sint_ucast_i64 I64_MAX_less word_sless_alt not_le sint_eq_uint_i64)

lemma validate_max_exact:
  assumes "numeric_value st v = Some n"
  shows "validate_max v limit st = Some (if sint limit < n
     then Inl (at_most (show_int (sint limit)) (show_int n)) else Inr ())"
  using assms sint_lt_i64 [of limit]
  by (cases rule: numeric_value_cases)
    (auto simp: check_max_eq sint_scast_i64 sint_ucast_i64 I64_MAX_less word_sless_alt not_le sint_eq_uint_i64)

section \<open>Facts about strings\<close>

lemma starts_with_iff: "starts_with s p \<longleftrightarrow> (\<exists>t. s = p @ t)"
  by (metis append_eq_conv_conj append_take_drop_id starts_with_def)

lemma str_contains_iff: "str_contains s needle \<longleftrightarrow> (\<exists>a b. s = a @ needle @ b)"
proof (induction s)
  case (Cons x s)
  have "(\<exists>a b. x # s = a @ needle @ b) \<longleftrightarrow> (\<exists>b. x # s = needle @ b) \<or> (\<exists>a b. s = a @ needle @ b)"
    by (metis append_Cons append_self_conv2 list.inject list.exhaust)
  with Cons show ?case by (simp add: starts_with_iff)
qed simp

lemma split_on_ne: "split_on c s \<noteq> []"
  by (cases s) auto

lemma split_on_none: "c \<notin> set s \<Longrightarrow> split_on c s = [s]"
  by (induction s) auto

lemma split_on_at: "c \<notin> set a \<Longrightarrow> split_on c (a @ c # b) = a # split_on c b"
  by (induction a) auto

lemma length_split_on: "length (split_on c s) = Suc (length (filter ((=) c) s))"
  by (induction s) (auto simp: split_on_ne)

lemma is_valid_email_iff:
  "is_valid_email s \<longleftrightarrow>
     (\<exists>a b. s = a @ CHR ''@'' # b \<and> CHR ''@'' \<notin> set a \<and> CHR ''@'' \<notin> set b
        \<and> a \<noteq> [] \<and> CHR ''.'' \<in> set b)"
proof
  assume e: "is_valid_email s"
  then have two: "length (split_on (CHR ''@'') s) = 2" by (simp add: is_valid_email_def Let_def)
  then have "CHR ''@'' \<in> set s"
    by (metis split_on_none length_Cons list.size(3) numeral_2_eq_2 Suc_inject zero_neq_one One_nat_def)
  then obtain a b where s: "s = a @ CHR ''@'' # b" and a: "CHR ''@'' \<notin> set a"
    by (metis split_list_first)
  have "length (split_on (CHR ''@'') b) = 1" using two by (simp add: s split_on_at [OF a])
  then have b: "CHR ''@'' \<notin> set b" by (auto simp: length_split_on filter_empty_conv)
  show "\<exists>a b. s = a @ CHR ''@'' # b \<and> CHR ''@'' \<notin> set a \<and> CHR ''@'' \<notin> set b
      \<and> a \<noteq> [] \<and> CHR ''.'' \<in> set b"
    using e a b by (auto simp: is_valid_email_def s split_on_at split_on_none)
qed (auto simp: is_valid_email_def split_on_at split_on_none)

section \<open>Facts about extraction\<close>

lemma collect_validators_snoc:
  "collect_validators st (attrs @ [a]) =
     Option.bind (collect_validators st attrs) (\<lambda>ks.
       Option.bind (validator_of_attr st a) (\<lambda>k. Some (ks @ (case k of None \<Rightarrow> [] | Some x \<Rightarrow> [x]))))"
  by (auto simp: collect_validators_def ofold_append split: option.splits bind_splits)

text \<open>The list is the validators of the recognised attributes, in order, and the collection
  panics exactly when some attribute does.\<close>

lemma collect_validators_exact:
  "collect_validators st attrs =
     (if \<exists>a \<in> set attrs. validator_of_attr st a = None then None
      else Some (List.map_filter (\<lambda>a. Option.bind (validator_of_attr st a) (\<lambda>k. k)) attrs))"
proof (induction attrs rule: rev_induct)
  case Nil
  show ?case by (simp add: collect_validators_def map_filter_simps)
next
  case (snoc a attrs)
  show ?case
    unfolding collect_validators_snoc snoc.IH
    by (cases "validator_of_attr st a") (auto simp: map_filter_def split: option.splits)
qed

lemma extract_validators_slice:
  assumes "extract_validators S f arena = Some (arena', r)" and "length arena' < 2 ^ 32"
  shows "\<exists>ks. collect_validators (shape_scalar_type (sh_id (S (f_shape f)))) (f_attributes f) = Some ks
    \<and> arena' = arena @ ks \<and> get_slice arena' r = Some ks"
proof -
  obtain ks where ks: "collect_validators (shape_scalar_type (sh_id (S (f_shape f)))) (f_attributes f) = Some ks"
    "alloc_extend arena ks = (arena', r)"
    using assms(1) by (auto simp: extract_validators_def)
  have "arena' = arena @ ks" using ks(2) by (auto simp: alloc_extend_def Let_def)
  with get_slice_extend(2) [OF ks(2)] ks assms(2) show ?thesis by auto
qed

end
