(* ===== verification/Type_Plan.thy ===== *)
theory Type_Plan
  imports Field_Lookup Validators
begin

text \<open>
  The type plan builder (facet-reflect, src/partial/typeplan.rs): one node per type that is
  reached from the root, a back reference where a type is reached while it is still being built,
  and the arenas the nodes point into. The recursion between shapes is bounded by fuel, which
  stands for the call stack. A build fails with the allocation error of the code, or panics (an
  arena that is full, an \<open>expect\<close>, an index outside a slice).
\<close>

section \<open>The builder\<close>

datatype plan_fail = Plan_Err sref string | Plan_Panic

record plan_builder =
  pb_nodes :: "plan_node arena"
  pb_fields :: "field_plan arena"
  pb_variants :: "variant_meta arena"
  pb_validators :: "validator_kind arena"
  pb_field_entries :: "field_lookup_entry arena"
  pb_buckets :: "bucket arena"
  pb_building :: "type_id list"
  pb_finished :: "(type_id, node_id) btmap"

type_synonym 'a plan_result = "(plan_fail, 'a \<times> plan_builder) outcome"
type_synonym node_builder = "sref \<Rightarrow> field_proxies option \<Rightarrow> plan_builder \<Rightarrow> node_id plan_result"

definition plan_builder_new :: plan_builder where
  "plan_builder_new =
     \<lparr>pb_nodes = [], pb_fields = [], pb_variants = [], pb_validators = [], pb_field_entries = [],
      pb_buckets = [], pb_building = [], pb_finished = []\<rparr>"

definition plan_finish :: "plan_builder \<Rightarrow> node_id \<Rightarrow> plan_core" where
  "plan_finish b root =
     \<lparr>pc_nodes = pb_nodes b, pc_fields = pb_fields b, pc_variants = pb_variants b,
      pc_validators = pb_validators b, pc_field_entries = pb_field_entries b,
      pc_buckets = pb_buckets b, pc_node_lookup = pb_finished b, pc_root = root\<rparr>"

definition or_panic :: "'a option \<Rightarrow> (plan_fail, 'a) outcome" where
  "or_panic x = (case x of Some a \<Rightarrow> Ok a | None \<Rightarrow> Err Plan_Panic)"

definition alloc_node :: "plan_node \<Rightarrow> plan_builder \<Rightarrow> node_id plan_result" where
  "alloc_node nd b =
     obind (or_panic (arena_alloc (pb_nodes b) nd)) (\<lambda>(nodes, i). Ok (i, b\<lparr>pb_nodes := nodes\<rparr>))"

section \<open>Proxies\<close>

definition build_generic_proxy ::
    "node_builder \<Rightarrow> sref option \<Rightarrow> plan_builder \<Rightarrow> node_id option plan_result" where
  "build_generic_proxy rec proxy b =
     (case proxy of
        None \<Rightarrow> Ok (None, b)
      | Some s \<Rightarrow> obind (rec s None b) (\<lambda>(node, b). Ok (Some node, b)))"

definition format_proxy_step ::
    "node_builder \<Rightarrow> string \<times> sref \<Rightarrow> (string \<times> node_id) list \<times> plan_builder
       \<Rightarrow> (string \<times> node_id) list plan_result" where
  "format_proxy_step rec = (\<lambda>(format, s) (nodes, b).
     obind (rec s None b) (\<lambda>(node, b). Ok (nodes @ [(format, node)], b)))"

definition build_format_proxies ::
    "node_builder \<Rightarrow> (string \<times> sref) list \<Rightarrow> plan_builder \<Rightarrow> (string \<times> node_id) list plan_result" where
  "build_format_proxies rec proxies b = rfold (format_proxy_step rec) proxies ([], b)"

definition build_all_proxy_nodes ::
    "node_builder \<Rightarrow> shape \<Rightarrow> field_proxies option \<Rightarrow> plan_builder
       \<Rightarrow> (proxy_nodes \<times> bool \<times> bool) plan_result" where
  "build_all_proxy_nodes rec shape field_proxies b =
     (case field_proxies of
        Some fp \<Rightarrow>
          obind (build_generic_proxy rec (fpx_generic fp) b) (\<lambda>(generic, b).
          obind (build_format_proxies rec (fpx_format_specific fp) b) (\<lambda>(format_specific, b).
            let proxies = \<lparr>pn_generic = generic, pn_format_specific = format_specific\<rparr>
            in Ok ((proxies, False, pn_has_any proxies), b)))
      | None \<Rightarrow>
          obind (build_generic_proxy rec (sh_proxy shape) b) (\<lambda>(generic, b).
          obind (build_format_proxies rec (sh_format_proxies shape) b) (\<lambda>(format_specific, b).
            let proxies = \<lparr>pn_generic = generic, pn_format_specific = format_specific\<rparr>
            in Ok ((proxies, pn_has_any proxies, False), b))))"

section \<open>Strategies\<close>

definition nth_child :: "node_id list \<Rightarrow> nat \<Rightarrow> (plan_fail, node_id) outcome" where
  "nth_child children n = or_panic (nth_opt children n)"

definition tuple_strategy :: "shape \<Rightarrow> struct_type \<Rightarrow> deser_strategy" where
  "tuple_strategy shape st =
     (let field_count = length (st_fields st)
      in Ds_Tuple field_count (field_count = 1 \<and> is_transparent shape))"

definition is_tuple_kind :: "struct_kind \<Rightarrow> bool" where
  "is_tuple_kind k \<longleftrightarrow> k = Kind_Tuple \<or> k = Kind_TupleStruct"

definition kind_strategy :: "sref \<Rightarrow> shape \<Rightarrow> node_kind \<Rightarrow> node_id list \<Rightarrow> (plan_fail, deser_strategy) outcome" where
  "kind_strategy s shape kind children =
     (case kind of
        Nk_Scalar \<Rightarrow>
          (case sh_ty shape of
             Ty_User (User_Struct st) \<Rightarrow>
               if is_tuple_kind (st_kind st) then Ok (tuple_strategy shape st)
               else Ok (Ds_Scalar (shape_scalar_type (sh_id shape)) (sh_parse shape \<noteq> None))
           | _ \<Rightarrow> Ok (Ds_Scalar (shape_scalar_type (sh_id shape)) (sh_parse shape \<noteq> None)))
      | Nk_Struct sp \<Rightarrow>
          Ok (if is_tuple_kind (st_kind (sp_struct_def sp)) then tuple_strategy shape (sp_struct_def sp)
              else Ds_Struct)
      | Nk_Enum _ \<Rightarrow> Ok Ds_Enum
      | Nk_Option \<Rightarrow> obind (nth_child children 0) (\<lambda>c. Ok (Ds_Option c))
      | Nk_Result \<Rightarrow>
          obind (nth_child children 0) (\<lambda>c. obind (nth_child children 1) (\<lambda>d. Ok (Ds_Result c d)))
      | Nk_List \<Rightarrow> obind (nth_child children 0) (\<lambda>c. Ok (Ds_List c (sh_id shape = Tid_VecU8)))
      | Nk_Slice \<Rightarrow> obind (nth_child children 0) (\<lambda>c. Ok (Ds_List c (sh_id shape = Tid_VecU8)))
      | Nk_Map \<Rightarrow>
          obind (nth_child children 0) (\<lambda>c. obind (nth_child children 1) (\<lambda>d. Ok (Ds_Map c d)))
      | Nk_Set \<Rightarrow> obind (nth_child children 0) (\<lambda>c. Ok (Ds_Set c))
      | Nk_Array len \<Rightarrow> obind (nth_child children 0) (\<lambda>c. Ok (Ds_Array len c))
      | Nk_DynamicValue \<Rightarrow> Ok Ds_DynamicValue
      | Nk_Pointer \<Rightarrow> obind (nth_child children 0) (\<lambda>c. Ok (Ds_Pointer c))
      | Nk_OpaquePointer \<Rightarrow> Ok Ds_OpaquePointer
      | Nk_Opaque \<Rightarrow> Ok Ds_Opaque
      | Nk_Transparent \<Rightarrow>
          Err (Plan_Err s ''transparent wrapper requires try_from for deserialization'')
      | Nk_BackRef t \<Rightarrow> Ok (Ds_BackRef t))"

definition is_collection_def :: "facet_def \<Rightarrow> bool" where
  "is_collection_def d \<longleftrightarrow>
     (case d of Def_List _ \<Rightarrow> True | Def_Map _ _ \<Rightarrow> True | Def_Set _ \<Rightarrow> True | Def_Array _ _ \<Rightarrow> True | _ \<Rightarrow> False)"

definition compute_strategy ::
    "sref \<Rightarrow> shape \<Rightarrow> node_kind \<Rightarrow> bool \<Rightarrow> bool \<Rightarrow> node_id list \<Rightarrow> (plan_fail, deser_strategy) outcome" where
  "compute_strategy s shape kind has_container_proxy has_field_proxy children =
     (if has_field_proxy then Ok Ds_FieldProxy
      else if has_container_proxy then Ok Ds_ContainerProxy
      else if kind = Nk_Pointer then obind (nth_child children 0) (\<lambda>c. Ok (Ds_Pointer c))
      else if is_metadata_container shape then Ok Ds_MetadataContainer
      else if sh_inner shape \<noteq> None \<and> sh_try_from shape \<noteq> None \<and> \<not> is_collection_def (sh_def shape)
      then obind (nth_child children 0) (\<lambda>c. Ok (Ds_TransparentConvert c))
      else if kind = Nk_Transparent \<and> sh_try_from shape \<noteq> None
      then obind (nth_child children 0) (\<lambda>c. Ok (Ds_TransparentConvert c))
      else if sh_def shape = Def_Scalar \<and> sh_parse shape \<noteq> None
      then Ok (Ds_Scalar (shape_scalar_type (sh_id shape)) (sh_parse shape \<noteq> None))
      else kind_strategy s shape kind children)"

section \<open>Field plans\<close>

definition determine_fill_rule :: "shapes \<Rightarrow> field \<Rightarrow> bool \<Rightarrow> fill_rule" where
  "determine_fill_rule S f container_has_default =
     (let field_shape = S (f_shape f); from_trait = Fill_Defaultable (Default_FromTrait (f_shape f))
      in case f_default f of
           Some (Custom g) \<Rightarrow> Fill_Defaultable (Default_Custom g)
         | Some FromTrait \<Rightarrow> from_trait
         | None \<Rightarrow>
             if (case sh_def field_shape of Def_Option _ \<Rightarrow> True | _ \<Rightarrow> False) \<and> shape_is_default field_shape
             then from_trait
             else if should_skip_deserializing f \<and> shape_is_default field_shape then from_trait
             else if (case sh_ty field_shape of Ty_User (User_Struct st) \<Rightarrow> st_fields st = [] | _ \<Rightarrow> False)
                     \<and> shape_is_default field_shape
             then from_trait
             else if container_has_default \<and> shape_is_default field_shape then from_trait
             else Fill_Required)"

definition create_field_plan ::
    "nat \<Rightarrow> field \<Rightarrow> node_id \<Rightarrow> fill_rule \<Rightarrow> slice_range \<Rightarrow> field_plan" where
  "create_field_plan index f type_node fill_rule validators =
     \<lparr>fp_field = f, fp_name = f_name f, fp_effective_name = effective_name f, fp_alias = f_alias f,
      fp_is_flattened = is_flattened f, fp_type_node = type_node, fp_index = index,
      fp_offset = f_offset f, fp_field_shape = f_shape f, fp_fill_rule = fill_rule,
      fp_validators = validators\<rparr>"

definition plan_field ::
    "shapes \<Rightarrow> node_builder \<Rightarrow> bool \<Rightarrow> nat \<times> field \<Rightarrow> field_plan list \<times> plan_builder
       \<Rightarrow> field_plan list plan_result" where
  "plan_field S rec container_has_default = (\<lambda>(index, f) (field_plans, b).
     obind (rec (f_shape f) (from_field f) b) (\<lambda>(child_node, b).
     obind (or_panic (extract_validators S f (pb_validators b))) (\<lambda>(arena, validators).
       let fill_rule = determine_fill_rule S f container_has_default
       in Ok (field_plans @ [create_field_plan index f child_node fill_rule validators],
              b\<lparr>pb_validators := arena\<rparr>))))"

definition plan_fields ::
    "shapes \<Rightarrow> node_builder \<Rightarrow> bool \<Rightarrow> field list \<Rightarrow> plan_builder \<Rightarrow> field_plan list plan_result" where
  "plan_fields S rec container_has_default fs b =
     rfold (plan_field S rec container_has_default) (enumerate 0 fs) ([], b)"

definition alloc_field_plans ::
    "field_plan list \<Rightarrow> plan_builder \<Rightarrow> (slice_range \<times> field_lookup) \<times> plan_builder" where
  "alloc_field_plans field_plans b =
     (let (arena, range) = alloc_extend (pb_fields b) field_plans;
          (lookup, es, bs) = build_field_lookup field_plans (pb_field_entries b) (pb_buckets b)
      in ((range, lookup), b\<lparr>pb_fields := arena, pb_field_entries := es, pb_buckets := bs\<rparr>))"

section \<open>Structs and enums\<close>

definition build_struct_plan ::
    "shapes \<Rightarrow> node_builder \<Rightarrow> shape \<Rightarrow> struct_type \<Rightarrow> plan_builder \<Rightarrow> struct_plan plan_result" where
  "build_struct_plan S rec shape st b =
     obind (plan_fields S rec (shape_is_default shape) (st_fields st) b) (\<lambda>(field_plans, b).
       let has_flatten = list_ex fp_is_flattened field_plans;
           ((range, lookup), b) = alloc_field_plans field_plans b
       in Ok (\<lparr>sp_struct_def = st, sp_fields = range, sp_field_lookup = lookup,
               sp_has_flatten = has_flatten,
               sp_deny_unknown_fields = has_deny_unknown_fields_attr shape\<rparr>, b))"

definition plan_variant ::
    "shapes \<Rightarrow> node_builder \<Rightarrow> variant \<Rightarrow> variant_meta list \<times> plan_builder
       \<Rightarrow> variant_meta list plan_result" where
  "plan_variant S rec v = (\<lambda>(variant_metas, b).
     obind (plan_fields S rec False (st_fields (v_data v)) b) (\<lambda>(field_plans, b).
       let has_flatten = list_ex fp_is_flattened field_plans;
           ((range, lookup), b) = alloc_field_plans field_plans b
       in Ok (variant_metas @ [\<lparr>vm_variant = v, vm_name = variant_effective_name v,
                                vm_fields = range, vm_field_lookup = lookup,
                                vm_has_flatten = has_flatten\<rparr>], b)))"

fun position :: "('a \<Rightarrow> bool) \<Rightarrow> 'a list \<Rightarrow> nat option" where
  "position P [] = None"
| "position P (x # xs) = (if P x then Some 0 else map_option Suc (position P xs))"

definition build_enum_plan ::
    "shapes \<Rightarrow> node_builder \<Rightarrow> enum_type \<Rightarrow> plan_builder \<Rightarrow> enum_plan plan_result" where
  "build_enum_plan S rec et b =
     obind (rfold (plan_variant S rec) (et_variants et) ([], b)) (\<lambda>(variant_metas, b).
       let (arena, range) = alloc_extend (pb_variants b) variant_metas
       in Ok (\<lparr>ep_enum_def = et, ep_variants = range,
               ep_variant_lookup = build_variant_lookup variant_metas,
               ep_num_variants = length variant_metas,
               ep_other_variant_idx = position (\<lambda>v. variant_is_other (vm_variant v)) variant_metas\<rparr>,
              b\<lparr>pb_variants := arena\<rparr>))"

section \<open>Kinds\<close>

definition with_child ::
    "node_builder \<Rightarrow> sref \<Rightarrow> node_kind \<Rightarrow> plan_builder \<Rightarrow> (node_kind \<times> node_id list) plan_result" where
  "with_child rec t kind b = obind (rec t None b) (\<lambda>(c, b). Ok ((kind, [c]), b))"

definition with_children ::
    "node_builder \<Rightarrow> sref \<Rightarrow> sref \<Rightarrow> node_kind \<Rightarrow> plan_builder \<Rightarrow> (node_kind \<times> node_id list) plan_result" where
  "with_children rec t u kind b =
     obind (rec t None b) (\<lambda>(c, b). obind (rec u None b) (\<lambda>(d, b). Ok ((kind, [c, d]), b)))"

definition build_kind_from_ty ::
    "shapes \<Rightarrow> node_builder \<Rightarrow> sref \<Rightarrow> shape \<Rightarrow> plan_builder \<Rightarrow> (node_kind \<times> node_id list) plan_result" where
  "build_kind_from_ty S rec s shape b =
     (let opaque =
            (case sh_builder_shape shape of
               Some t \<Rightarrow> if sh_try_from shape \<noteq> None then with_child rec t Nk_Transparent b
                         else Ok ((Nk_Opaque, []), b)
             | None \<Rightarrow> Ok ((Nk_Opaque, []), b));
          wrapper =
            (case sh_inner shape of
               Some inner \<Rightarrow> with_child rec inner Nk_Transparent b
             | None \<Rightarrow> Err (Plan_Err s ''unsupported type for deserialization''))
      in case sh_ty shape of
           Ty_User (User_Struct st) \<Rightarrow>
             obind (build_struct_plan S rec shape st b) (\<lambda>(sp, b). Ok ((Nk_Struct sp, []), b))
         | Ty_User (User_Enum et) \<Rightarrow>
             obind (build_enum_plan S rec et b) (\<lambda>(ep, b). Ok ((Nk_Enum ep, []), b))
         | Ty_Sequence (Seq_Slice t) \<Rightarrow> with_child rec t Nk_Slice b
         | Ty_User User_Opaque \<Rightarrow> opaque
         | Ty_Undefined \<Rightarrow> opaque
         | _ \<Rightarrow> wrapper)"

definition build_kind ::
    "shapes \<Rightarrow> node_builder \<Rightarrow> sref \<Rightarrow> shape \<Rightarrow> plan_builder \<Rightarrow> (node_kind \<times> node_id list) plan_result" where
  "build_kind S rec s shape b =
     (case sh_def shape of
        Def_Scalar \<Rightarrow>
          (case sh_inner shape of
             Some inner \<Rightarrow> with_child rec inner Nk_Scalar b
           | None \<Rightarrow> Ok ((Nk_Scalar, []), b))
      | Def_Option t \<Rightarrow> with_child rec t Nk_Option b
      | Def_Result t e \<Rightarrow> with_children rec t e Nk_Result b
      | Def_List t \<Rightarrow> with_child rec t Nk_List b
      | Def_Map k v \<Rightarrow> with_children rec k v Nk_Map b
      | Def_Set t \<Rightarrow> with_child rec t Nk_Set b
      | Def_Array t n \<Rightarrow> with_child rec t (Nk_Array n) b
      | Def_Pointer (Some pointee) \<Rightarrow> with_child rec pointee Nk_Pointer b
      | Def_Pointer None \<Rightarrow> Ok ((Nk_OpaquePointer, []), b)
      | Def_DynamicValue \<Rightarrow> Ok ((Nk_DynamicValue, []), b)
      | _ \<Rightarrow> build_kind_from_ty S rec s shape b)"

section \<open>Nodes\<close>

definition backref_node :: "sref \<Rightarrow> shape \<Rightarrow> plan_node" where
  "backref_node s shape =
     \<lparr>nd_shape = s, nd_kind = Nk_BackRef (sh_id shape), nd_strategy = Ds_BackRef (sh_id shape),
      nd_has_default = shape_is_default shape, nd_proxies = proxy_nodes_default\<rparr>"

definition build_new_node ::
    "shapes \<Rightarrow> node_builder \<Rightarrow> sref \<Rightarrow> field_proxies option \<Rightarrow> plan_builder \<Rightarrow> node_id plan_result" where
  "build_new_node S rec s field_proxies b =
     (let shape = S s
      in obind (build_all_proxy_nodes rec shape field_proxies b)
           (\<lambda>((proxies, has_container_proxy, has_field_proxy), b).
         obind (build_kind S rec s shape b) (\<lambda>((kind, children), b).
         obind (compute_strategy s shape kind has_container_proxy has_field_proxy children) (\<lambda>strategy.
           alloc_node \<lparr>nd_shape = s, nd_kind = kind, nd_strategy = strategy,
                       nd_has_default = shape_is_default shape, nd_proxies = proxies\<rparr> b))))"

definition build_node_step ::
    "shapes \<Rightarrow> node_builder \<Rightarrow> sref \<Rightarrow> field_proxies option \<Rightarrow> plan_builder \<Rightarrow> node_id plan_result" where
  "build_node_step S rec s field_proxies b =
     (let type_id = sh_id (S s)
      in case field_proxies of
           None \<Rightarrow>
             (case btm_get (pb_finished b) type_id of
                Some i \<Rightarrow> Ok (i, b)
              | None \<Rightarrow>
                  if type_id \<in> set (pb_building b) then alloc_node (backref_node s (S s)) b
                  else
                    obind (build_new_node S rec s None (b\<lparr>pb_building := type_id # pb_building b\<rparr>))
                      (\<lambda>(i, b). Ok (i, b\<lparr>pb_building := removeAll type_id (pb_building b),
                                         pb_finished := btm_insert type_id i (pb_finished b)\<rparr>)))
         | Some fp \<Rightarrow> build_new_node S rec s (Some fp) b)"

primrec build_node_with_proxy :: "shapes \<Rightarrow> nat \<Rightarrow> node_builder" where
  "build_node_with_proxy S 0 = (\<lambda>s field_proxies b. Overrun)"
| "build_node_with_proxy S (Suc n) = build_node_step S (build_node_with_proxy S n)"

definition build_node :: "shapes \<Rightarrow> nat \<Rightarrow> sref \<Rightarrow> plan_builder \<Rightarrow> node_id plan_result" where
  "build_node S n s = build_node_with_proxy S n s None"

definition build_uncached :: "shapes \<Rightarrow> nat \<Rightarrow> sref \<Rightarrow> (plan_fail, plan_core) outcome" where
  "build_uncached S n s =
     obind (build_node S n s plan_builder_new) (\<lambda>(root, b). Ok (plan_finish b root))"

text \<open>The process-wide cache: shapes are compared, and so cached, by their type identifier.\<close>

definition plan_from_shape ::
    "shapes \<Rightarrow> nat \<Rightarrow> sref \<Rightarrow> (type_id, plan_core) btmap
       \<Rightarrow> (plan_fail, plan_core \<times> (type_id, plan_core) btmap) outcome" where
  "plan_from_shape S n s cache =
     (case btm_get cache (sh_id (S s)) of
        Some plan \<Rightarrow> Ok (plan, cache)
      | None \<Rightarrow>
          obind (build_uncached S n s) (\<lambda>plan. Ok (plan, btm_insert (sh_id (S s)) plan cache)))"

end
