(* ===== verification/Plan_Nav.thy ===== *)
theory Plan_Nav
  imports Type_Plan
begin

text \<open>
  Navigation in a finished type plan (facet-reflect, src/partial/typeplan.rs): from a node to
  the nodes of its parts, through back references, by reference and by node identifier. \<open>None\<close>
  is a panic (an identifier or a range outside its arena, an unresolved back reference);
  \<open>Some None\<close> says that the node has no such part. The part a strategy names is given by one
  of the \<open>pick\<close> functions; chasing back references is a \<open>partial_function\<close>, as nothing in the
  code itself bounds it.
\<close>

section \<open>Access\<close>

definition node_at :: "plan_core \<Rightarrow> node_id \<Rightarrow> plan_node option" where
  "node_at c i = arena_get (pc_nodes c) i"

definition plan_root :: "plan_core \<Rightarrow> plan_node option" where
  "plan_root c = node_at c (pc_root c)"

definition plan_fields_of :: "plan_core \<Rightarrow> slice_range \<Rightarrow> field_plan list option" where
  "plan_fields_of c r = get_slice (pc_fields c) r"

definition plan_variants_of :: "plan_core \<Rightarrow> slice_range \<Rightarrow> variant_meta list option" where
  "plan_variants_of c r = get_slice (pc_variants c) r"

definition plan_validators_of :: "plan_core \<Rightarrow> slice_range \<Rightarrow> validator_kind list option" where
  "plan_validators_of c r = get_slice (pc_validators c) r"

definition lookup_node :: "plan_core \<Rightarrow> type_id \<Rightarrow> node_id option" where
  "lookup_node c t =
     map_option (\<lambda>i. snd (pc_node_lookup c ! i)) (binary_search (map fst (pc_node_lookup c)) t)"

definition field_find :: "plan_core \<Rightarrow> field_lookup \<Rightarrow> string \<Rightarrow> nat option option" where
  "field_find c lookup name = lookup_find lookup name (pc_field_entries c) (pc_buckets c)"

section \<open>Back references, structs and enums\<close>

definition resolve_backref :: "plan_core \<Rightarrow> plan_node \<Rightarrow> plan_node option" where
  "resolve_backref c nd =
     (case nd_kind nd of
        Nk_BackRef t \<Rightarrow> Option.bind (lookup_node c t) (node_at c)
      | _ \<Rightarrow> Some nd)"

definition resolve_backref_id :: "plan_core \<Rightarrow> node_id \<Rightarrow> plan_node option" where
  "resolve_backref_id c i = Option.bind (node_at c i) (resolve_backref c)"

definition as_struct_plan :: "plan_core \<Rightarrow> plan_node \<Rightarrow> struct_plan option option" where
  "as_struct_plan c nd =
     Option.bind (resolve_backref c nd) (\<lambda>resolved.
       Some (case nd_kind resolved of Nk_Struct sp \<Rightarrow> Some sp | _ \<Rightarrow> None))"

definition as_enum_plan :: "plan_core \<Rightarrow> plan_node \<Rightarrow> enum_plan option option" where
  "as_enum_plan c nd =
     Option.bind (resolve_backref c nd) (\<lambda>resolved.
       Some (case nd_kind resolved of Nk_Enum ep \<Rightarrow> Some ep | _ \<Rightarrow> None))"

definition struct_plan_by_id :: "plan_core \<Rightarrow> node_id \<Rightarrow> struct_plan option option" where
  "struct_plan_by_id c i = Option.bind (node_at c i) (as_struct_plan c)"

definition enum_plan_by_id :: "plan_core \<Rightarrow> node_id \<Rightarrow> enum_plan option option" where
  "enum_plan_by_id c i = Option.bind (node_at c i) (as_enum_plan c)"

definition struct_field_node_id :: "plan_core \<Rightarrow> node_id \<Rightarrow> nat \<Rightarrow> node_id option option" where
  "struct_field_node_id c parent_id idx =
     Option.bind (node_at c parent_id) (\<lambda>parent.
     Option.bind (resolve_backref c parent) (\<lambda>resolved.
       case nd_kind resolved of
         Nk_Struct sp \<Rightarrow>
           Option.bind (plan_fields_of c (sp_fields sp)) (\<lambda>fs.
             Some (map_option fp_type_node (nth_opt fs idx)))
       | _ \<Rightarrow> Some None))"

definition struct_field_node :: "plan_core \<Rightarrow> plan_node \<Rightarrow> nat \<Rightarrow> plan_node option option" where
  "struct_field_node c parent idx =
     Option.bind (resolve_backref c parent) (\<lambda>resolved.
       case nd_kind resolved of
         Nk_Struct sp \<Rightarrow>
           Option.bind (plan_fields_of c (sp_fields sp)) (\<lambda>fs.
             case nth_opt fs idx of
               None \<Rightarrow> Some None
             | Some p \<Rightarrow> map_option Some (node_at c (fp_type_node p)))
       | _ \<Rightarrow> Some None)"

definition enum_variant_field_node_id ::
    "plan_core \<Rightarrow> node_id \<Rightarrow> nat \<Rightarrow> nat \<Rightarrow> node_id option option" where
  "enum_variant_field_node_id c parent_id variant_idx field_idx =
     Option.bind (node_at c parent_id) (\<lambda>parent.
     Option.bind (resolve_backref c parent) (\<lambda>resolved.
       case nd_kind resolved of
         Nk_Enum ep \<Rightarrow>
           Option.bind (plan_variants_of c (ep_variants ep)) (\<lambda>vs.
             case nth_opt vs variant_idx of
               None \<Rightarrow> Some None
             | Some v \<Rightarrow>
                 Option.bind (plan_fields_of c (vm_fields v)) (\<lambda>fs.
                   Some (map_option fp_type_node (nth_opt fs field_idx))))
       | _ \<Rightarrow> Some None))"

definition enum_variant_field_node ::
    "plan_core \<Rightarrow> plan_node \<Rightarrow> nat \<Rightarrow> nat \<Rightarrow> plan_node option option" where
  "enum_variant_field_node c parent variant_idx field_idx =
     Option.bind (resolve_backref c parent) (\<lambda>resolved.
       case nd_kind resolved of
         Nk_Enum ep \<Rightarrow>
           Option.bind (plan_variants_of c (ep_variants ep)) (\<lambda>vs.
             case nth_opt vs variant_idx of
               None \<Rightarrow> Some None
             | Some v \<Rightarrow>
                 Option.bind (plan_fields_of c (vm_fields v)) (\<lambda>fs.
                   case nth_opt fs field_idx of
                     None \<Rightarrow> Some None
                   | Some p \<Rightarrow> map_option Some (node_at c (fp_type_node p))))
       | _ \<Rightarrow> Some None)"

section \<open>Following a strategy\<close>

partial_function (option) follow ::
    "(deser_strategy \<Rightarrow> 'a option) \<Rightarrow> plan_core \<Rightarrow> plan_node \<Rightarrow> 'a option option" where
  "follow pick c parent =
     (case nd_strategy parent of
        Ds_BackRef t \<Rightarrow>
          (case lookup_node c t of
             None \<Rightarrow> Some None
           | Some target \<Rightarrow> Option.bind (node_at c target) (\<lambda>nd. follow pick c nd))
      | strategy \<Rightarrow> Some (pick strategy))"

declare follow.simps [code]

definition follow_id :: "(deser_strategy \<Rightarrow> 'a option) \<Rightarrow> plan_core \<Rightarrow> node_id \<Rightarrow> 'a option option" where
  "follow_id pick c parent_id = Option.bind (node_at c parent_id) (follow pick c)"

definition follow_node :: "(deser_strategy \<Rightarrow> node_id option) \<Rightarrow> plan_core \<Rightarrow> plan_node \<Rightarrow> plan_node option option" where
  "follow_node pick c parent =
     Option.bind (follow pick c parent) (\<lambda>part. case part of
         None \<Rightarrow> Some None
       | Some i \<Rightarrow> map_option Some (node_at c i))"

fun pick_list_item :: "deser_strategy \<Rightarrow> node_id option" where
  "pick_list_item (Ds_List item b) = Some item"
| "pick_list_item (Ds_Array len item) = Some item"
| "pick_list_item _ = None"

fun pick_set_item :: "deser_strategy \<Rightarrow> node_id option" where
  "pick_set_item (Ds_Set item) = Some item" | "pick_set_item _ = None"

fun pick_map_key :: "deser_strategy \<Rightarrow> node_id option" where
  "pick_map_key (Ds_Map k v) = Some k" | "pick_map_key _ = None"

fun pick_map_value :: "deser_strategy \<Rightarrow> node_id option" where
  "pick_map_value (Ds_Map k v) = Some v" | "pick_map_value _ = None"

fun pick_option_some :: "deser_strategy \<Rightarrow> node_id option" where
  "pick_option_some (Ds_Option s) = Some s" | "pick_option_some _ = None"

fun pick_result :: "deser_strategy \<Rightarrow> (node_id \<times> node_id) option" where
  "pick_result (Ds_Result a b) = Some (a, b)" | "pick_result _ = None"

fun pick_pointer :: "deser_strategy \<Rightarrow> node_id option" where
  "pick_pointer (Ds_Pointer p) = Some p" | "pick_pointer _ = None"

fun pick_inner :: "deser_strategy \<Rightarrow> node_id option" where
  "pick_inner (Ds_TransparentConvert i) = Some i" | "pick_inner _ = None"

definition list_item_node where "list_item_node = follow_node pick_list_item"
definition set_item_node where "set_item_node = follow_node pick_set_item"
definition map_key_node where "map_key_node = follow_node pick_map_key"
definition map_value_node where "map_value_node = follow_node pick_map_value"
definition option_inner_node where "option_inner_node = follow_node pick_option_some"
definition result_ok_node where "result_ok_node = follow_node (\<lambda>s. map_option fst (pick_result s))"
definition result_err_node where "result_err_node = follow_node (\<lambda>s. map_option snd (pick_result s))"
definition pointer_pointee_node where "pointer_pointee_node = follow_node pick_pointer"

definition list_item_node_id where "list_item_node_id = follow_id pick_list_item"
definition set_item_node_id where "set_item_node_id = follow_id pick_set_item"
definition map_key_node_id where "map_key_node_id = follow_id pick_map_key"
definition map_value_node_id where "map_value_node_id = follow_id pick_map_value"
definition option_some_node_id where "option_some_node_id = follow_id pick_option_some"
definition result_nodes_id where "result_nodes_id = follow_id pick_result"
definition pointer_inner_node_id where "pointer_inner_node_id = follow_id pick_pointer"

definition inner_node :: "shapes \<Rightarrow> plan_core \<Rightarrow> plan_node \<Rightarrow> plan_node option option" where
  "inner_node S c parent =
     (if sh_inner (S (nd_shape parent)) \<noteq> None
      then (case pick_inner (nd_strategy parent) of
              Some i \<Rightarrow> map_option Some (node_at c i)
            | None \<Rightarrow> Some None)
      else Some None)"

definition inner_node_id :: "shapes \<Rightarrow> plan_core \<Rightarrow> node_id \<Rightarrow> node_id option option" where
  "inner_node_id S c parent_id =
     Option.bind (node_at c parent_id) (\<lambda>parent.
       Some (if sh_inner (S (nd_shape parent)) \<noteq> None then pick_inner (nd_strategy parent) else None))"

end
