(* ===== verification/Plan_Facts.thy ===== *)
theory Plan_Facts
  imports Plan_Nav "HOL-Library.Sublist"
begin

text \<open>
  What the type plan builder guarantees. The invariant says that every node is linked: its
  kind fits its shape, and every identifier and range it holds leads to the parts of that shape.
  The arenas only grow, so links stay valid; a range is only right while its arena stays below
  \<open>2 ^ 32\<close> values, so the links are stated for builds whose arenas do. The helpers of the
  builder are verified once, for any builder of child nodes that keeps the contract
  \<open>node_source\<close>; the recursive builder is then an instance of it at every fuel.
\<close>

section \<open>Growing arenas\<close>

definition view :: "plan_builder \<Rightarrow> plan_core" where
  "view b = plan_finish b 0"

lemma view_sel [simp]:
  "pc_nodes (view b) = pb_nodes b" "pc_fields (view b) = pb_fields b"
  "pc_variants (view b) = pb_variants b" "pc_validators (view b) = pb_validators b"
  "pc_field_entries (view b) = pb_field_entries b" "pc_buckets (view b) = pb_buckets b"
  by (simp_all add: view_def plan_finish_def)

definition core_extends :: "plan_core \<Rightarrow> plan_core \<Rightarrow> bool" where
  "core_extends c d \<longleftrightarrow>
     prefix (pc_nodes c) (pc_nodes d) \<and> prefix (pc_fields c) (pc_fields d)
     \<and> prefix (pc_variants c) (pc_variants d) \<and> prefix (pc_validators c) (pc_validators d)
     \<and> prefix (pc_field_entries c) (pc_field_entries d) \<and> prefix (pc_buckets c) (pc_buckets d)"

lemma core_extends_refl [simp]: "core_extends c c"
  by (simp add: core_extends_def)

lemma core_extends_trans: "core_extends c d \<Longrightarrow> core_extends d e \<Longrightarrow> core_extends c e"
  unfolding core_extends_def by (blast intro: prefix_order.order_trans)

named_theorems links_mono \<open>links stay valid as the arenas grow\<close>

lemma node_at_mono [links_mono]:
  "core_extends c d \<Longrightarrow> node_at c i = Some nd \<Longrightarrow> node_at d i = Some nd"
  by (auto simp: core_extends_def node_at_def arena_get_append elim!: prefixE)

lemma plan_fields_mono [links_mono]:
  "core_extends c d \<Longrightarrow> plan_fields_of c r = Some ps \<Longrightarrow> plan_fields_of d r = Some ps"
  by (auto simp: core_extends_def plan_fields_of_def get_slice_append elim!: prefixE)

lemma plan_variants_mono [links_mono]:
  "core_extends c d \<Longrightarrow> plan_variants_of c r = Some vs \<Longrightarrow> plan_variants_of d r = Some vs"
  by (auto simp: core_extends_def plan_variants_of_def get_slice_append elim!: prefixE)

lemma plan_validators_mono [links_mono]:
  "core_extends c d \<Longrightarrow> plan_validators_of c r = Some ks \<Longrightarrow> plan_validators_of d r = Some ks"
  by (auto simp: core_extends_def plan_validators_of_def get_slice_append elim!: prefixE)

lemma lookup_find_append:
  assumes "lookup_find l name es bs = Some r"
  shows "lookup_find l name (es @ x) (bs @ y) = Some r"
proof (cases l)
  case (Lookup_Prefix n er br)
  obtain bl where bl: "get_slice bs br = Some bl"
    using assms Lookup_Prefix by (auto simp: lookup_find_def Let_def split: option.splits)
  show ?thesis
  proof (cases "binary_search (map fst bl) (compute_prefix name n)")
    case None
    with assms Lookup_Prefix bl show ?thesis
      by (simp add: lookup_find_def Let_def get_slice_append [OF bl])
  next
    case (Some i)
    then obtain al where al: "get_slice es er = Some al"
      using assms Lookup_Prefix bl
      by (auto simp: lookup_find_def Let_def split: option.splits prod.splits)
    with assms Lookup_Prefix bl Some show ?thesis
      by (simp add: lookup_find_def Let_def get_slice_append [OF bl] get_slice_append [OF al])
  qed
qed (use assms in \<open>simp add: lookup_find_def\<close>)

lemma field_find_mono [links_mono]:
  "core_extends c d \<Longrightarrow> field_find c l name = Some r \<Longrightarrow> field_find d l name = Some r"
  by (auto simp: core_extends_def field_find_def lookup_find_append elim!: prefixE)

section \<open>Links\<close>

definition holds_type :: "shapes \<Rightarrow> plan_core \<Rightarrow> node_id \<Rightarrow> type_id \<Rightarrow> bool" where
  "holds_type S c i t \<longleftrightarrow> (\<exists>nd. node_at c i = Some nd \<and> sh_id (S (nd_shape nd)) = t)"

definition leads_to :: "shapes \<Rightarrow> plan_core \<Rightarrow> node_id \<Rightarrow> sref \<Rightarrow> bool" where
  "leads_to S c i s \<longleftrightarrow> holds_type S c i (sh_id (S s))"

definition field_linked :: "shapes \<Rightarrow> plan_core \<Rightarrow> bool \<Rightarrow> nat \<Rightarrow> field \<Rightarrow> field_plan \<Rightarrow> bool" where
  "field_linked S c container_default i f p \<longleftrightarrow>
     p = create_field_plan i f (fp_type_node p) (determine_fill_rule S f container_default) (fp_validators p)
     \<and> leads_to S c (fp_type_node p) (f_shape f)
     \<and> (\<exists>ks. collect_validators (shape_scalar_type (sh_id (S (f_shape f)))) (f_attributes f) = Some ks
           \<and> plan_validators_of c (fp_validators p) = Some ks)"

definition first_answer :: "string \<Rightarrow> field list \<Rightarrow> nat option" where
  "first_answer name fs =
     map_option fst (List.find (\<lambda>(i, f). effective_name f = name \<or> f_alias f = Some name) (enumerate 0 fs))"

definition fields_linked ::
    "shapes \<Rightarrow> plan_core \<Rightarrow> bool \<Rightarrow> field list \<Rightarrow> slice_range \<Rightarrow> field_lookup \<Rightarrow> bool" where
  "fields_linked S c container_default fs r l \<longleftrightarrow>
     (\<exists>ps. plan_fields_of c r = Some ps \<and> length ps = length fs
        \<and> (\<forall>i < length fs. field_linked S c container_default i (fs ! i) (ps ! i)))
     \<and> (\<forall>name. field_find c l name = Some (first_answer name fs))"

definition variant_linked :: "shapes \<Rightarrow> plan_core \<Rightarrow> variant \<Rightarrow> variant_meta \<Rightarrow> bool" where
  "variant_linked S c v m \<longleftrightarrow>
     vm_variant m = v \<and> vm_name m = variant_effective_name v
     \<and> vm_has_flatten m = list_ex is_flattened (st_fields (v_data v))
     \<and> fields_linked S c False (st_fields (v_data v)) (vm_fields m) (vm_field_lookup m)"

text \<open>The shapes whose nodes are the children of a shape's node, in order.\<close>

definition ty_child_shapes :: "shape \<Rightarrow> sref list" where
  "ty_child_shapes shape =
     (let inner = (case sh_inner shape of Some t \<Rightarrow> [t] | None \<Rightarrow> []);
          built = (case sh_builder_shape shape of
                     Some t \<Rightarrow> if sh_try_from shape \<noteq> None then [t] else [] | None \<Rightarrow> [])
      in case sh_ty shape of
           Ty_User (User_Struct st) \<Rightarrow> [] | Ty_User (User_Enum et) \<Rightarrow> []
         | Ty_Sequence (Seq_Slice t) \<Rightarrow> [t]
         | Ty_User User_Opaque \<Rightarrow> built | Ty_Undefined \<Rightarrow> built
         | _ \<Rightarrow> inner)"

definition child_shapes :: "shape \<Rightarrow> sref list" where
  "child_shapes shape =
     (case sh_def shape of
        Def_Scalar \<Rightarrow> (case sh_inner shape of Some t \<Rightarrow> [t] | None \<Rightarrow> [])
      | Def_Option t \<Rightarrow> [t] | Def_Result t e \<Rightarrow> [t, e] | Def_List t \<Rightarrow> [t] | Def_Map k v \<Rightarrow> [k, v]
      | Def_Set t \<Rightarrow> [t] | Def_Array t n \<Rightarrow> [t] | Def_Pointer (Some t) \<Rightarrow> [t]
      | Def_Pointer None \<Rightarrow> [] | Def_DynamicValue \<Rightarrow> []
      | _ \<Rightarrow> ty_child_shapes shape)"

definition kind_linked :: "shapes \<Rightarrow> plan_core \<Rightarrow> shape \<Rightarrow> node_kind \<Rightarrow> bool" where
  "kind_linked S c shape kind \<longleftrightarrow>
     (case kind of
        Nk_Scalar \<Rightarrow> sh_def shape = Def_Scalar
      | Nk_Struct sp \<Rightarrow>
          sh_ty shape = Ty_User (User_Struct (sp_struct_def sp))
          \<and> sp_has_flatten sp = list_ex is_flattened (st_fields (sp_struct_def sp))
          \<and> sp_deny_unknown_fields sp = has_deny_unknown_fields_attr shape
          \<and> fields_linked S c (shape_is_default shape) (st_fields (sp_struct_def sp)) (sp_fields sp)
              (sp_field_lookup sp)
      | Nk_Enum ep \<Rightarrow>
          sh_ty shape = Ty_User (User_Enum (ep_enum_def ep))
          \<and> (\<exists>ms. plan_variants_of c (ep_variants ep) = Some ms
               \<and> list_all2 (variant_linked S c) (et_variants (ep_enum_def ep)) ms
               \<and> ep_variant_lookup ep = build_variant_lookup ms \<and> ep_num_variants ep = length ms
               \<and> ep_other_variant_idx ep = position (\<lambda>m. variant_is_other (vm_variant m)) ms)
      | Nk_Option \<Rightarrow> \<exists>t. sh_def shape = Def_Option t
      | Nk_Result \<Rightarrow> \<exists>t e. sh_def shape = Def_Result t e
      | Nk_List \<Rightarrow> \<exists>t. sh_def shape = Def_List t
      | Nk_Slice \<Rightarrow> \<exists>t. sh_ty shape = Ty_Sequence (Seq_Slice t) \<and> child_shapes shape = [t]
      | Nk_Map \<Rightarrow> \<exists>k v. sh_def shape = Def_Map k v
      | Nk_Set \<Rightarrow> \<exists>t. sh_def shape = Def_Set t
      | Nk_Array n \<Rightarrow> \<exists>t. sh_def shape = Def_Array t n
      | Nk_Pointer \<Rightarrow> \<exists>t. sh_def shape = Def_Pointer (Some t)
      | Nk_OpaquePointer \<Rightarrow> sh_def shape = Def_Pointer None
      | Nk_Opaque \<Rightarrow> child_shapes shape = []
      | Nk_DynamicValue \<Rightarrow> sh_def shape = Def_DynamicValue
      | Nk_Transparent \<Rightarrow> \<exists>t. child_shapes shape = [t]
      | Nk_BackRef t \<Rightarrow> False)"

definition strategy_linked :: "shapes \<Rightarrow> plan_core \<Rightarrow> shape \<Rightarrow> deser_strategy \<Rightarrow> bool" where
  "strategy_linked S c shape strategy \<longleftrightarrow>
     (case strategy of
        Ds_Pointer i \<Rightarrow> \<exists>t. sh_def shape = Def_Pointer (Some t) \<and> leads_to S c i t
      | Ds_TransparentConvert i \<Rightarrow> \<exists>t ts. child_shapes shape = t # ts \<and> leads_to S c i t
      | Ds_Tuple n single \<Rightarrow>
          \<exists>st. sh_ty shape = Ty_User (User_Struct st) \<and> n = length (st_fields st) \<and> is_tuple_kind (st_kind st)
      | Ds_Struct \<Rightarrow> \<exists>st. sh_ty shape = Ty_User (User_Struct st) \<and> \<not> is_tuple_kind (st_kind st)
      | Ds_Enum \<Rightarrow> \<exists>et. sh_ty shape = Ty_User (User_Enum et)
      | Ds_Option i \<Rightarrow> \<exists>t. sh_def shape = Def_Option t \<and> leads_to S c i t
      | Ds_Result i j \<Rightarrow> \<exists>t e. sh_def shape = Def_Result t e \<and> leads_to S c i t \<and> leads_to S c j e
      | Ds_List i is_byte_vec \<Rightarrow>
          (\<exists>t. (sh_def shape = Def_List t \<or> sh_ty shape = Ty_Sequence (Seq_Slice t)) \<and> leads_to S c i t)
          \<and> is_byte_vec = (sh_id shape = Tid_VecU8)
      | Ds_Map i j \<Rightarrow> \<exists>k v. sh_def shape = Def_Map k v \<and> leads_to S c i k \<and> leads_to S c j v
      | Ds_Set i \<Rightarrow> \<exists>t. sh_def shape = Def_Set t \<and> leads_to S c i t
      | Ds_Array n i \<Rightarrow> \<exists>t. sh_def shape = Def_Array t n \<and> leads_to S c i t
      | Ds_BackRef t \<Rightarrow> False
      | _ \<Rightarrow> True)"

definition proxies_linked ::
    "shapes \<Rightarrow> plan_core \<Rightarrow> sref option \<Rightarrow> (string \<times> sref) list \<Rightarrow> proxy_nodes \<Rightarrow> bool" where
  "proxies_linked S c generic format_specific p \<longleftrightarrow>
     rel_option (leads_to S c) (pn_generic p) generic
     \<and> list_all2 (\<lambda>(f, i) (g, s). f = g \<and> leads_to S c i s) (pn_format_specific p) format_specific"

definition node_proxies_linked ::
    "shapes \<Rightarrow> plan_core \<Rightarrow> shape \<Rightarrow> deser_strategy \<Rightarrow> proxy_nodes \<Rightarrow> bool" where
  "node_proxies_linked S c shape strategy p \<longleftrightarrow>
     (if strategy = Ds_FieldProxy then pn_has_any p \<and> (\<exists>g fs. proxies_linked S c g fs p)
      else proxies_linked S c (sh_proxy shape) (sh_format_proxies shape) p
         \<and> (strategy = Ds_ContainerProxy \<longleftrightarrow> pn_has_any p))"

definition is_backref :: "plan_node \<Rightarrow> bool" where
  "is_backref nd \<longleftrightarrow> (case nd_kind nd of Nk_BackRef t \<Rightarrow> True | _ \<Rightarrow> False)"

definition node_linked :: "shapes \<Rightarrow> plan_core \<Rightarrow> plan_node \<Rightarrow> bool" where
  "node_linked S c nd \<longleftrightarrow>
     (let shape = S (nd_shape nd)
      in nd_has_default nd = shape_is_default shape
       \<and> (if is_backref nd
          then nd_kind nd = Nk_BackRef (sh_id shape) \<and> nd_strategy nd = Ds_BackRef (sh_id shape)
             \<and> nd_proxies nd = proxy_nodes_default
          else kind_linked S c shape (nd_kind nd) \<and> strategy_linked S c shape (nd_strategy nd)
             \<and> node_proxies_linked S c shape (nd_strategy nd) (nd_proxies nd)))"

lemma holds_type_mono [links_mono]: "core_extends c d \<Longrightarrow> holds_type S c i t \<Longrightarrow> holds_type S d i t"
  by (auto simp: holds_type_def intro: node_at_mono)

lemma leads_to_mono [links_mono]: "core_extends c d \<Longrightarrow> leads_to S c i s \<Longrightarrow> leads_to S d i s"
  by (simp add: leads_to_def holds_type_mono)

lemma field_linked_mono [links_mono]:
  "core_extends c d \<Longrightarrow> field_linked S c k i f p \<Longrightarrow> field_linked S d k i f p"
  by (auto simp: field_linked_def intro: leads_to_mono plan_validators_mono)

lemma fields_linked_mono [links_mono]:
  "core_extends c d \<Longrightarrow> fields_linked S c k fs r l \<Longrightarrow> fields_linked S d k fs r l"
  by (auto simp: fields_linked_def intro: field_linked_mono plan_fields_mono field_find_mono)

lemma variant_linked_mono [links_mono]:
  "core_extends c d \<Longrightarrow> variant_linked S c v m \<Longrightarrow> variant_linked S d v m"
  by (simp add: variant_linked_def fields_linked_mono)

lemma kind_linked_mono [links_mono]:
  "core_extends c d \<Longrightarrow> kind_linked S c shape k \<Longrightarrow> kind_linked S d shape k"
  by (cases k)
    (auto simp: kind_linked_def
      intro: fields_linked_mono plan_variants_mono list_all2_mono variant_linked_mono)

lemma strategy_linked_mono [links_mono]:
  "core_extends c d \<Longrightarrow> strategy_linked S c shape k \<Longrightarrow> strategy_linked S d shape k"
  by (cases k) (auto simp: strategy_linked_def intro: leads_to_mono)

lemma proxies_linked_mono [links_mono]:
  "core_extends c d \<Longrightarrow> proxies_linked S c g fs p \<Longrightarrow> proxies_linked S d g fs p"
  by (auto simp: proxies_linked_def intro: leads_to_mono elim: option.rel_mono_strong list.rel_mono_strong)

lemma node_proxies_linked_mono [links_mono]:
  "core_extends c d \<Longrightarrow> node_proxies_linked S c shape k p \<Longrightarrow> node_proxies_linked S d shape k p"
  by (auto simp: node_proxies_linked_def intro: proxies_linked_mono split: if_splits)

lemma node_linked_mono [links_mono]:
  "core_extends c d \<Longrightarrow> node_linked S c nd \<Longrightarrow> node_linked S d nd"
  unfolding node_linked_def Let_def
  using kind_linked_mono strategy_linked_mono node_proxies_linked_mono by metis

section \<open>How the builder grows\<close>

definition building_apart :: "plan_builder \<Rightarrow> bool" where
  "building_apart b \<longleftrightarrow> (\<forall>t \<in> set (pb_building b). btm_get (pb_finished b) t = None)"

definition grows :: "plan_builder \<Rightarrow> plan_builder \<Rightarrow> bool" where
  "grows b d \<longleftrightarrow> core_extends (view b) (view d) \<and> set (pb_building d) = set (pb_building b)
     \<and> (building_apart b \<longrightarrow> building_apart d
         \<and> (\<forall>t i. btm_get (pb_finished b) t = Some i \<longrightarrow> btm_get (pb_finished d) t = Some i))"

lemma grows_refl [simp]: "grows b b"
  by (simp add: grows_def)

lemma grows_trans: "grows b d \<Longrightarrow> grows d e \<Longrightarrow> grows b e"
  by (auto simp: grows_def intro: core_extends_trans)

lemma grows_extends: "grows b d \<Longrightarrow> core_extends (view b) (view d)"
  by (simp add: grows_def)

definition fits :: "plan_builder \<Rightarrow> bool" where
  "fits b \<longleftrightarrow> length (pb_fields b) < 2 ^ 32 \<and> length (pb_variants b) < 2 ^ 32
     \<and> length (pb_validators b) < 2 ^ 32 \<and> length (pb_field_entries b) < 2 ^ 32
     \<and> length (pb_buckets b) < 2 ^ 32"

lemma fits_grows: "fits d \<Longrightarrow> grows b d \<Longrightarrow> fits b"
  by (auto simp: fits_def grows_def core_extends_def dest!: prefix_length_le)

lemma alloc_node_Ok:
  assumes "alloc_node nd b = Ok (i, d)"
  shows "d = b\<lparr>pb_nodes := pb_nodes b @ [nd]\<rparr>" and "unat i = length (pb_nodes b)"
  using assms arena_alloc_Some [of "pb_nodes b" nd]
  by (auto simp: alloc_node_def or_panic_def run_simps split: option.splits prod.splits)

lemma grows_alloc_node: "alloc_node nd b = Ok (i, d) \<Longrightarrow> grows b d"
  by (auto dest!: alloc_node_Ok(1) simp: grows_def core_extends_def building_apart_def)

lemma grows_alloc_fields:
  assumes "alloc_field_plans ps b = (rl, d)"
  shows "grows b d"
proof -
  obtain l es bs where l: "build_field_lookup ps (pb_field_entries b) (pb_buckets b) = (l, es, bs)"
    by (metis prod_cases3)
  then obtain u v where "es = pb_field_entries b @ u" "bs = pb_buckets b @ v"
    unfolding build_field_lookup_def using build_lookup_extends by blast
  with assms l show ?thesis
    by (auto simp: alloc_field_plans_def Let_def alloc_extend_def grows_def core_extends_def building_apart_def)
qed

section \<open>The invariant\<close>

definition is_shared :: "plan_node \<Rightarrow> bool" where
  "is_shared nd \<longleftrightarrow> \<not> is_backref nd \<and> nd_strategy nd \<noteq> Ds_FieldProxy"

definition type_known :: "plan_builder \<Rightarrow> type_id \<Rightarrow> bool" where
  "type_known b t \<longleftrightarrow> t \<in> set (pb_building b) \<or> btm_get (pb_finished b) t \<noteq> None"

definition plan_inv :: "shapes \<Rightarrow> plan_builder \<Rightarrow> bool" where
  "plan_inv S b \<longleftrightarrow> building_apart b \<and> btm_wf (pb_finished b)
     \<and> (\<forall>i nd. node_at (view b) i = Some nd \<longrightarrow>
          node_linked S (view b) nd
          \<and> (is_backref nd \<longrightarrow> type_known b (sh_id (S (nd_shape nd))))
          \<and> (is_shared nd \<longrightarrow> btm_get (pb_finished b) (sh_id (S (nd_shape nd))) = Some i))
     \<and> (\<forall>t i. btm_get (pb_finished b) t = Some i \<longrightarrow>
          (\<exists>nd. node_at (view b) i = Some nd \<and> sh_id (S (nd_shape nd)) = t \<and> is_shared nd))"

lemma type_known_grows: "building_apart b \<Longrightarrow> grows b d \<Longrightarrow> type_known b t \<Longrightarrow> type_known d t"
  by (auto simp: type_known_def grows_def)

text \<open>The invariant depends on nothing but the arenas, the finished map and the set of types
  being built.\<close>

lemma plan_inv_grow_arenas:
  assumes "plan_inv S b" and "grows b d" and "pb_nodes d = pb_nodes b"
    and "pb_finished d = pb_finished b"
  shows "plan_inv S d"
proof -
  have at: "node_at (view d) i = node_at (view b) i" for i
    using assms(3) by (simp add: node_at_def)
  have known: "type_known b t \<Longrightarrow> type_known d t" for t
    using assms(1,2) type_known_grows by (auto simp: plan_inv_def)
  show ?thesis
    using assms(1,2,4) node_linked_mono [OF grows_extends [OF assms(2)]] known
    by (auto simp: plan_inv_def at grows_def)
qed

section \<open>Loops\<close>

lemma rfold_links:
  assumes "rfold f xs s = Ok t" and "F t" and "P 0 s"
    and grow: "\<And>x u v. x \<in> set xs \<Longrightarrow> f x u = Ok v \<Longrightarrow> G u v" and G: "reflp G" "transp G"
    and shrinks: "\<And>u v. G u v \<Longrightarrow> F v \<Longrightarrow> F u"
    and step: "\<And>i u v. i < length xs \<Longrightarrow> f (xs ! i) u = Ok v \<Longrightarrow> F v \<Longrightarrow> P i u \<Longrightarrow> P (Suc i) v"
  shows "P (length xs) t"
  using assms(1-4) step
proof (induction xs arbitrary: s P)
  case Nil
  then show ?case by simp
next
  case (Cons x xs)
  from Cons.prems(1) obtain u where u: "f x s = Ok u" "rfold f xs u = Ok t" by (auto simp: run_simps)
  have "G u t"
  proof (rule rfold_invariant [OF u(2)])
    show "G u u" using G(1) by (simp add: reflpD)
    show "G u w" if "y \<in> set xs" "G u v" "f y v = Ok w" for y v w
      using that Cons.prems(4) [of y v w] transpD [OF G(2)] by auto
  qed
  then have Fu: "F u" using shrinks Cons.prems(2) by blast
  have "P (Suc 0) u" using Cons.prems(5) [of 0 s u] u Fu Cons.prems(3) by simp
  then have "(\<lambda>i. P (Suc i)) (length xs) t"
  proof (rule Cons.IH [OF u(2) Cons.prems(2), where P = "\<lambda>i. P (Suc i)"])
    show "G v w" if "y \<in> set xs" "f y v = Ok w" for y v w
      using that Cons.prems(4) [of y v w] by simp
    show "P (Suc (Suc i)) w" if "i < length xs" "f (xs ! i) v = Ok w" "F w" "P (Suc i) v" for i v w
      using Cons.prems(5) [of "Suc i" v w] that by simp
  qed
  then show ?case by simp
qed

end
