(* ===== verification/Plan_Links.thy ===== *)
theory Plan_Links
  imports Plan_Facts
begin

text \<open>
  The helpers of the type plan builder keep the plan linked. They are verified inside the
  locale \<open>node_source\<close>, the contract of what builds the nodes of child shapes: it only grows the
  builder, it keeps the invariant, and the node it returns holds the type it was asked for.
  The recursive builder meets the contract at every fuel.
\<close>

section \<open>Facts about single steps\<close>

lemma or_panic_Ok [run_simps]: "or_panic x = Ok a \<longleftrightarrow> x = Some a"
  by (auto simp: or_panic_def split: option.splits)

lemma or_panic_no_overrun [simp]: "or_panic x \<noteq> Overrun"
  by (auto simp: or_panic_def split: option.splits)

lemma nth_child_Ok [run_simps]: "nth_child cs n = Ok c \<longleftrightarrow> n < length cs \<and> cs ! n = c"
  by (simp add: nth_child_def run_simps nth_opt_eq_Some)

definition good_proxies :: "field_proxies option \<Rightarrow> bool" where
  "good_proxies fp \<longleftrightarrow> (\<forall>p. fp = Some p \<longrightarrow> fpx_generic p \<noteq> None \<or> fpx_format_specific p \<noteq> [])"

lemma good_from_field [simp]: "good_proxies (from_field f)" and good_None [simp]: "good_proxies None"
  by (auto simp: good_proxies_def from_field_def Let_def split: if_splits)

lemma extract_extends: "extract_validators S f a = Some (a', r) \<Longrightarrow> prefix a a'"
  by (auto simp: extract_validators_def alloc_extend_def Let_def)

lemma grows_validators: "prefix (pb_validators b) a \<Longrightarrow> grows b (b\<lparr>pb_validators := a\<rparr>)"
  by (simp add: grows_def core_extends_def building_apart_def)

lemma grows_variants: "prefix (pb_variants b) a \<Longrightarrow> grows b (b\<lparr>pb_variants := a\<rparr>)"
  by (simp add: grows_def core_extends_def building_apart_def)

lemma reflp_grows: "reflp (\<lambda>u v. grows (snd u) (snd v))" and transp_grows: "transp (\<lambda>u v. grows (snd u) (snd v))"
  by (auto simp: reflp_def transp_def intro: grows_trans)

lemma first_child_links:
  assumes "list_all2 (leads_to S c) children (child_shapes shape)" and "nth_child children 0 = Ok i"
  shows "strategy_linked S c shape (Ds_TransparentConvert i)"
  using assms by (cases "child_shapes shape"; cases children) (auto simp: run_simps strategy_linked_def)

lemma kind_strategy_links:
  assumes "kind_strategy s shape kind children = Ok st"
    and "kind_linked S c shape kind" and "list_all2 (leads_to S c) children (child_shapes shape)"
  shows "strategy_linked S c shape st"
proof (cases kind)
  case Nk_Scalar
  with assms(1) show ?thesis
    by (auto simp: kind_strategy_def strategy_linked_def tuple_strategy_def Let_def
        split: facet_type.splits user_type.splits if_splits)
next
  case (Nk_Struct sp)
  with assms(1,2) show ?thesis
    by (auto simp: kind_strategy_def strategy_linked_def kind_linked_def tuple_strategy_def Let_def)
next
  case (Nk_Enum ep)
  with assms(1,2) show ?thesis
    by (auto simp: kind_strategy_def strategy_linked_def kind_linked_def)
next
  case Nk_List
  with assms obtain t i where "sh_def shape = Def_List t" "leads_to S c i t"
    "st = Ds_List i (sh_id shape = Tid_VecU8)"
    by (auto simp: kind_strategy_def run_simps kind_linked_def child_shapes_def list_all2_Cons2)
  then show ?thesis by (auto simp: strategy_linked_def)
next
  case Nk_Slice
  with assms(2) obtain t where "sh_ty shape = Ty_Sequence (Seq_Slice t)" "child_shapes shape = [t]"
    by (auto simp: kind_linked_def)
  with Nk_Slice assms(1,3) show ?thesis
    by (auto simp: kind_strategy_def run_simps strategy_linked_def list_all2_Cons2)
qed (use assms in \<open>auto simp: kind_strategy_def run_simps strategy_linked_def kind_linked_def
      child_shapes_def list_all2_Cons2\<close>)

lemma kind_strategy_no_proxy:
  "kind_strategy s shape kind children = Ok st \<Longrightarrow> st \<noteq> Ds_FieldProxy \<and> st \<noteq> Ds_ContainerProxy"
  by (cases kind) (auto simp: kind_strategy_def run_simps tuple_strategy_def Let_def
      split: facet_type.splits user_type.splits if_splits)

lemma pointer_strategy_links:
  assumes "list_all2 (leads_to S c) children (child_shapes shape)" and "nth_child children 0 = Ok i"
    and "kind_linked S c shape Nk_Pointer"
  shows "strategy_linked S c shape (Ds_Pointer i)"
  using assms by (auto simp: strategy_linked_def kind_linked_def run_simps child_shapes_def list_all2_Cons2)

lemma free_strategy_links:
  "strategy_linked S c shape Ds_FieldProxy" "strategy_linked S c shape Ds_ContainerProxy"
  "strategy_linked S c shape Ds_MetadataContainer" "strategy_linked S c shape (Ds_Scalar x y)"
  by (simp_all add: strategy_linked_def)

lemma compute_strategy_links:
  assumes ok: "compute_strategy s shape kind hc hf children = Ok st"
    and links: "kind_linked S c shape kind" "list_all2 (leads_to S c) children (child_shapes shape)"
  shows "strategy_linked S c shape st \<and> (st = Ds_FieldProxy \<longleftrightarrow> hf)
    \<and> (\<not> hf \<longrightarrow> (st = Ds_ContainerProxy \<longleftrightarrow> hc))"
proof -
  let ?convert = "sh_inner shape \<noteq> None \<and> sh_try_from shape \<noteq> None \<and> \<not> is_collection_def (sh_def shape)
    \<or> kind = Nk_Transparent \<and> sh_try_from shape \<noteq> None"
  let ?parse = "sh_def shape = Def_Scalar \<and> sh_parse shape \<noteq> None"
  consider (f) "hf" | (c) "\<not> hf" "hc" | (p) "\<not> hf" "\<not> hc" "kind = Nk_Pointer"
    | (m) "\<not> hf" "\<not> hc" "kind \<noteq> Nk_Pointer" "is_metadata_container shape"
    | (t) "\<not> hf" "\<not> hc" "kind \<noteq> Nk_Pointer" "\<not> is_metadata_container shape" "?convert"
    | (s) "\<not> hf" "\<not> hc" "kind \<noteq> Nk_Pointer" "\<not> is_metadata_container shape" "\<not> ?convert" "?parse"
    | (k) "\<not> hf" "\<not> hc" "kind \<noteq> Nk_Pointer" "\<not> is_metadata_container shape" "\<not> ?convert" "\<not> ?parse"
    by blast
  then show ?thesis
  proof cases
    case p
    with ok obtain i where "nth_child children 0 = Ok i" "st = Ds_Pointer i"
      by (auto simp: compute_strategy_def obind_eq_Ok)
    with p links pointer_strategy_links [of S c children shape i] show ?thesis by simp
  next
    case t
    then have "compute_strategy s shape kind hc hf children
        = obind (nth_child children 0) (\<lambda>c. Ok (Ds_TransparentConvert c))"
      unfolding compute_strategy_def by presburger
    with ok obtain i where "nth_child children 0 = Ok i" "st = Ds_TransparentConvert i"
      by (auto simp: obind_eq_Ok)
    with t links first_child_links [of S c children shape i] show ?thesis by simp
  next
    case k
    then have "compute_strategy s shape kind hc hf children = kind_strategy s shape kind children"
      unfolding compute_strategy_def by presburger
    with k ok kind_strategy_links [OF _ links, of s st] kind_strategy_no_proxy [of s shape kind children st]
    show ?thesis by simp
  qed (use ok free_strategy_links in \<open>auto simp: compute_strategy_def\<close>)
qed

section \<open>The contract of a node builder\<close>

locale node_source =
  fixes S :: shapes and rec :: node_builder
  assumes rec_grows: "rec s fp b = Ok (i, d) \<Longrightarrow> grows b d"
    and rec_links: "rec s fp b = Ok (i, d) \<Longrightarrow> good_proxies fp \<Longrightarrow> plan_inv S b \<Longrightarrow> fits d
      \<Longrightarrow> plan_inv S d \<and> leads_to S (view d) i s"
begin

lemma generic_grows: "build_generic_proxy rec p b = Ok (x, d) \<Longrightarrow> grows b d"
  by (cases p) (auto simp: build_generic_proxy_def run_simps dest: rec_grows)

lemma generic_links:
  "build_generic_proxy rec p b = Ok (x, d) \<Longrightarrow> plan_inv S b \<Longrightarrow> fits d
     \<Longrightarrow> plan_inv S d \<and> rel_option (leads_to S (view d)) x p"
  by (cases p) (auto simp: build_generic_proxy_def run_simps dest: rec_links)

lemma format_proxy_step_grows: "format_proxy_step rec x u = Ok v \<Longrightarrow> grows (snd u) (snd v)"
  by (cases x; cases u) (auto simp: format_proxy_step_def run_simps dest: rec_grows)

lemma loop_grows:
  assumes "rfold f xs u = Ok v" and "\<And>x u v. x \<in> set xs \<Longrightarrow> f x u = Ok v \<Longrightarrow> grows (snd u) (snd v)"
  shows "grows (snd u) (snd v)"
  using assms(1) by (rule rfold_invariant [where P = "\<lambda>v. grows (snd u) (snd v)"])
    (use assms(2) in \<open>auto intro: grows_trans\<close>)

lemma formats_grow: "build_format_proxies rec ps b = Ok (x, d) \<Longrightarrow> grows b d"
  unfolding build_format_proxies_def by (drule loop_grows) (auto dest: format_proxy_step_grows)

lemma formats_link:
  assumes "build_format_proxies rec ps b = Ok (x, d)" and "plan_inv S b" and "fits d"
  shows "plan_inv S d \<and> list_all2 (\<lambda>(f, i) (g, s). f = g \<and> leads_to S (view d) i s) x ps"
proof -
  let ?P = "\<lambda>i u. plan_inv S (snd u)
    \<and> list_all2 (\<lambda>(f, i) (g, s). f = g \<and> leads_to S (view (snd u)) i s) (fst u) (take i ps)"
  have "?P (length ps) (x, d)"
  proof (rule rfold_links [OF assms(1) [unfolded build_format_proxies_def],
        where F = "\<lambda>u. fits (snd u)" and G = "\<lambda>u v. grows (snd u) (snd v)"])
    fix i u v
    assume i: "i < length ps" and step: "format_proxy_step rec (ps ! i) u = Ok v"
      and F: "fits (snd v)" and P: "?P i u"
    obtain g s ns e where x: "ps ! i = (g, s)" "u = (ns, e)" by (cases "ps ! i"; cases u)
    with step obtain n e' where v: "rec s None e = Ok (n, e')" "v = (ns @ [(g, n)], e')"
      by (auto simp: format_proxy_step_def run_simps)
    have "list_all2 (\<lambda>(f, i) (g, s). f = g \<and> leads_to S (view e') i s) ns (take i ps)"
      using P x leads_to_mono [OF grows_extends [OF rec_grows [OF v(1)]]]
      by (auto elim!: list.rel_mono_strong)
    with rec_links [OF v(1)] F P x v i show "?P (Suc i) v"
      by (auto simp: take_Suc_conv_app_nth intro!: list_all2_appendI)
  qed (use assms in \<open>auto intro: reflp_grows transp_grows dest: fits_grows format_proxy_step_grows\<close>)
  then show ?thesis by simp
qed

lemma proxies_grow: "build_all_proxy_nodes rec shape fp b = Ok (x, d) \<Longrightarrow> grows b d"
  by (auto simp: build_all_proxy_nodes_def run_simps Let_def split: option.splits
      dest!: generic_grows formats_grow intro: grows_trans)

lemma two_proxies_link:
  assumes "build_generic_proxy rec p b = Ok (g, e)" and "build_format_proxies rec ps e = Ok (fs, d)"
    and "plan_inv S b" and "fits d"
  shows "plan_inv S d \<and> proxies_linked S (view d) p ps \<lparr>pn_generic = g, pn_format_specific = fs\<rparr>"
proof -
  have e: "grows e d" "fits e" using formats_grow [OF assms(2)] fits_grows assms(4) by blast+
  have g: "plan_inv S e" "rel_option (leads_to S (view e)) g p" using generic_links [OF assms(1,3) e(2)] by auto
  then have "rel_option (leads_to S (view d)) g p"
    using leads_to_mono [OF grows_extends [OF e(1)]] by (auto elim: option.rel_mono_strong)
  with formats_link [OF assms(2) g(1) assms(4)] show ?thesis by (simp add: proxies_linked_def)
qed

lemma proxies_link:
  assumes "build_all_proxy_nodes rec shape fp b = Ok ((p, hc, hf), d)" and "good_proxies fp"
    and "plan_inv S b" and "fits d"
  shows "plan_inv S d \<and> (hf \<longleftrightarrow> fp \<noteq> None) \<and> (hf \<longrightarrow> pn_has_any p \<and> (\<exists>g fs. proxies_linked S (view d) g fs p))
    \<and> (\<not> hf \<longrightarrow> (hc \<longleftrightarrow> pn_has_any p) \<and> proxies_linked S (view d) (sh_proxy shape) (sh_format_proxies shape) p)"
proof (cases fp)
  case None
  with assms(1) two_proxies_link [OF _ _ assms(3,4)] show ?thesis
    by (auto simp: build_all_proxy_nodes_def run_simps Let_def)
next
  case (Some f)
  then obtain g e fs where g: "build_generic_proxy rec (fpx_generic f) b = Ok (g, e)"
    "build_format_proxies rec (fpx_format_specific f) e = Ok (fs, d)"
    and x: "p = \<lparr>pn_generic = g, pn_format_specific = fs\<rparr>" "hf = pn_has_any p" "hc = False"
    using assms(1) by (auto simp: build_all_proxy_nodes_def run_simps Let_def)
  have l: "plan_inv S d" "proxies_linked S (view d) (fpx_generic f) (fpx_format_specific f) p"
    using two_proxies_link [OF g assms(3,4)] x by auto
  have "pn_has_any p"
    using l(2) assms(2) Some by (cases g) (auto simp: good_proxies_def pn_has_any_def proxies_linked_def x)
  with l x Some show ?thesis by blast
qed

lemma child_grows: "with_child rec t k b = Ok (x, d) \<Longrightarrow> grows b d"
  and children_grow: "with_children rec t u k b = Ok (x, d) \<Longrightarrow> grows b d"
  by (auto simp: with_child_def with_children_def run_simps dest!: rec_grows intro: grows_trans)

lemma child_links:
  "with_child rec t k b = Ok ((kind, cs), d) \<Longrightarrow> plan_inv S b \<Longrightarrow> fits d
     \<Longrightarrow> plan_inv S d \<and> kind = k \<and> list_all2 (leads_to S (view d)) cs [t]"
  by (auto simp: with_child_def run_simps dest: rec_links)

lemma children_link:
  assumes "with_children rec t u k b = Ok ((kind, cs), d)" and "plan_inv S b" and "fits d"
  shows "plan_inv S d \<and> kind = k \<and> list_all2 (leads_to S (view d)) cs [t, u]"
proof -
  obtain i e j where r: "rec t None b = Ok (i, e)" "rec u None e = Ok (j, d)" "kind = k" "cs = [i, j]"
    using assms(1) by (auto simp: with_children_def run_simps)
  have "fits e" using fits_grows [OF assms(3) rec_grows [OF r(2)]] .
  then have "plan_inv S e" "leads_to S (view e) i t" using rec_links [OF r(1) _ assms(2)] by auto
  with rec_links [OF r(2) _ _ assms(3)] leads_to_mono [OF grows_extends [OF rec_grows [OF r(2)]]] r(3,4)
  show ?thesis by auto
qed

end

section \<open>Fields, structs and enums\<close>

context node_source
begin

lemma plan_field_Ok:
  assumes "plan_field S rec k (i, f) (ps, b) = Ok (qs, d)"
  obtains n e a r where "rec (f_shape f) (from_field f) b = Ok (n, e)"
    and "extract_validators S f (pb_validators e) = Some (a, r)"
    and "qs = ps @ [create_field_plan i f n (determine_fill_rule S f k) r]"
    and "d = e\<lparr>pb_validators := a\<rparr>" and "grows b e" and "grows e d"
proof -
  obtain n e a r where ex: "rec (f_shape f) (from_field f) b = Ok (n, e)"
    "extract_validators S f (pb_validators e) = Some (a, r)"
    "qs = ps @ [create_field_plan i f n (determine_fill_rule S f k) r]" "d = e\<lparr>pb_validators := a\<rparr>"
    using assms by (auto simp: plan_field_def run_simps Let_def)
  show ?thesis
    using that [OF ex rec_grows [OF ex(1)]] grows_validators [OF extract_extends [OF ex(2)]] ex(4) by simp
qed

lemma plan_field_grows: "plan_field S rec k x u = Ok v \<Longrightarrow> grows (snd u) (snd v)"
  by (cases x; cases u; cases v) (auto elim!: plan_field_Ok intro: grows_trans)

lemma plan_fields_grow: "plan_fields S rec k fs b = Ok (ps, d) \<Longrightarrow> grows b d"
  unfolding plan_fields_def by (drule loop_grows) (auto dest: plan_field_grows)

lemma plan_field_links:
  assumes "plan_field S rec k (i, f) (ps, b) = Ok (qs, d)" and "plan_inv S b" and "fits d"
  shows "plan_inv S d \<and> (\<exists>p. qs = ps @ [p] \<and> field_linked S (view d) k i f p)"
  using assms(1)
proof (rule plan_field_Ok)
  fix n e a r
  assume n: "rec (f_shape f) (from_field f) b = Ok (n, e)"
    and ex: "extract_validators S f (pb_validators e) = Some (a, r)"
    and qs: "qs = ps @ [create_field_plan i f n (determine_fill_rule S f k) r]"
    and d: "d = e\<lparr>pb_validators := a\<rparr>" and g: "grows e d"
  have e: "plan_inv S e" "leads_to S (view e) n (f_shape f)"
    using rec_links [OF n _ assms(2)] fits_grows [OF assms(3) g] by auto
  have "plan_inv S d" using plan_inv_grow_arenas [OF e(1) g] by (simp add: d)
  moreover have "leads_to S (view d) n (f_shape f)" using leads_to_mono [OF grows_extends [OF g] e(2)] .
  moreover have "length a < 2 ^ 32" using assms(3) by (simp add: fits_def d)
  from extract_validators_slice [OF ex this]
  have "\<exists>ks. collect_validators (shape_scalar_type (sh_id (S (f_shape f)))) (f_attributes f) = Some ks
      \<and> plan_validators_of (view d) r = Some ks"
    by (auto simp: plan_validators_of_def d)
  ultimately show ?thesis
    unfolding qs field_linked_def by (simp add: create_field_plan_def)
qed

lemma plan_fields_link:
  assumes "plan_fields S rec k fs b = Ok (ps, d)" and "plan_inv S b" and "fits d"
  shows "plan_inv S d \<and> length ps = length fs
    \<and> (\<forall>i < length fs. field_linked S (view d) k i (fs ! i) (ps ! i))"
proof -
  let ?P = "\<lambda>i u. plan_inv S (snd u) \<and> length (fst u) = i
    \<and> (\<forall>j < i. field_linked S (view (snd u)) k j (fs ! j) (fst u ! j))"
  have "?P (length (enumerate 0 fs)) (ps, d)"
  proof (rule rfold_links [OF assms(1) [unfolded plan_fields_def],
        where F = "\<lambda>u. fits (snd u)" and G = "\<lambda>u v. grows (snd u) (snd v)"])
    fix i u v
    assume i: "i < length (enumerate 0 fs)" and step: "plan_field S rec k (enumerate 0 fs ! i) u = Ok v"
      and F: "fits (snd v)" and P: "?P i u"
    obtain qs e qs' e' where uv: "u = (qs, e)" "v = (qs', e')" by (cases u; cases v)
    have x: "enumerate 0 fs ! i = (i, fs ! i)" using i by (simp add: nth_enumerate_eq)
    have g: "grows e e'" using plan_field_grows [OF step] uv by simp
    obtain p where p: "plan_inv S e'" "qs' = qs @ [p]" "field_linked S (view e') k i (fs ! i) p"
      using plan_field_links [OF step [unfolded x uv]] P F uv by auto
    have "field_linked S (view e') k j (fs ! j) (qs ! j)" if "j < i" for j
      using field_linked_mono [OF grows_extends [OF g]] P uv that by simp
    with p P uv show "?P (Suc i) v" by (auto simp: nth_append less_Suc_eq)
  qed (use assms in \<open>auto intro: reflp_grows transp_grows dest: fits_grows plan_field_grows\<close>)
  then show ?thesis by simp
qed

text \<open>The lookup finds the first field that answers, by the fields themselves.\<close>

lemma first_answer_plans:
  assumes "length ps = length fs" and "\<And>i. i < length fs \<Longrightarrow> field_linked S c k i (fs ! i) (ps ! i)"
  shows "find_entry name (plan_entries ps) = first_answer name fs"
    and "list_ex fp_is_flattened ps = list_ex is_flattened fs"
proof -
  have sel: "fp_effective_name (ps ! i) = effective_name (fs ! i)" "fp_alias (ps ! i) = f_alias (fs ! i)"
    "fp_is_flattened (ps ! i) = is_flattened (fs ! i)" if "i < length fs" for i
  proof -
    from assms(2) [OF that] obtain n rl vr where "ps ! i = create_field_plan i (fs ! i) n rl vr"
      by (auto simp: field_linked_def)
    then show "fp_effective_name (ps ! i) = effective_name (fs ! i)" "fp_alias (ps ! i) = f_alias (fs ! i)"
      "fp_is_flattened (ps ! i) = is_flattened (fs ! i)" by (simp_all add: create_field_plan_def)
  qed
  have maps: "map (\<lambda>p. (fp_effective_name p, fp_alias p)) ps = map (\<lambda>f. (effective_name f, f_alias f)) fs"
    "map fp_is_flattened ps = map is_flattened fs"
    using assms(1) sel by (auto intro: nth_equalityI)
  have find: "map_option fst (List.find (\<lambda>(i, x). Q (g x)) (enumerate n xs))
      = map_option fst (List.find (\<lambda>(i, y). Q y) (enumerate n (map g xs)))"
    for Q :: "string \<times> string option \<Rightarrow> bool" and g :: "'x \<Rightarrow> string \<times> string option" and n xs
    by (induction xs arbitrary: n) auto
  show "find_entry name (plan_entries ps) = first_answer name fs"
    using find [of "\<lambda>(e, a). e = name \<or> a = Some name" "\<lambda>p. (fp_effective_name p, fp_alias p)" 0 ps]
      find [of "\<lambda>(e, a). e = name \<or> a = Some name" "\<lambda>f. (effective_name f, f_alias f)" 0 fs]
    by (simp add: find_entry_plans answers_to_def first_answer_def maps(1))
  show "list_ex fp_is_flattened ps = list_ex is_flattened fs"
    using maps(2) by (simp add: list_ex_iff) (metis (no_types) imageE imageI list.set_map)
qed

lemma alloc_fields_link:
  assumes ps: "length ps = length fs" "\<And>i. i < length fs \<Longrightarrow> field_linked S (view b) k i (fs ! i) (ps ! i)"
    and al: "alloc_field_plans ps b = ((r, l), d)" and "plan_inv S b" and "fits d"
  shows "plan_inv S d \<and> fields_linked S (view d) k fs r l"
proof -
  obtain es bs a where l: "build_field_lookup ps (pb_field_entries b) (pb_buckets b) = (l, es, bs)"
    "alloc_extend (pb_fields b) ps = (a, r)" "d = b\<lparr>pb_fields := a, pb_field_entries := es, pb_buckets := bs\<rparr>"
    using al by (auto simp: alloc_field_plans_def Let_def split: prod.splits)
  have g: "grows b d" by (rule grows_alloc_fields [OF al])
  have "plan_inv S d" by (rule plan_inv_grow_arenas [OF assms(4) g]) (simp_all add: l)
  moreover have "plan_fields_of (view d) r = Some ps"
  proof -
    have "a = pb_fields b @ ps" using l(2) by (auto simp: alloc_extend_def Let_def)
    with assms(5) have "length (pb_fields b) + length ps < 2 ^ 32" by (simp add: fits_def l)
    from get_slice_extend(2) [OF l(2) this] show ?thesis by (simp add: plan_fields_of_def l)
  qed
  moreover have "field_linked S (view d) k i (fs ! i) (ps ! i)" if "i < length fs" for i
    using field_linked_mono [OF grows_extends [OF g] ps(2) [OF that]] .
  moreover have "field_find (view d) l name = Some (first_answer name fs)" for name
    using lookup_entries_correct [OF l(1) [unfolded build_field_lookup_def], of name "[]" "[]"] assms(5)
      first_answer_plans(1) [OF ps] by (simp add: field_find_def l fits_def)
  ultimately show ?thesis using ps(1) by (auto simp: fields_linked_def)
qed

lemma struct_Ok:
  assumes "build_struct_plan S rec shape st b = Ok (sp, d)"
  obtains ps e r l where "plan_fields S rec (shape_is_default shape) (st_fields st) b = Ok (ps, e)"
    and "alloc_field_plans ps e = ((r, l), d)"
    and "sp = \<lparr>sp_struct_def = st, sp_fields = r, sp_field_lookup = l,
        sp_has_flatten = list_ex fp_is_flattened ps,
        sp_deny_unknown_fields = has_deny_unknown_fields_attr shape\<rparr>"
proof -
  obtain ps e where ps: "plan_fields S rec (shape_is_default shape) (st_fields st) b = Ok (ps, e)"
    using assms by (auto simp: build_struct_plan_def run_simps)
  obtain r l e' where al: "alloc_field_plans ps e = ((r, l), e')" by (metis prod.exhaust)
  show ?thesis using that [OF ps] assms ps al by (simp add: build_struct_plan_def)
qed

lemma struct_grows: "build_struct_plan S rec shape st b = Ok (sp, d) \<Longrightarrow> grows b d"
  by (auto elim!: struct_Ok dest!: plan_fields_grow grows_alloc_fields intro: grows_trans)

lemma struct_links:
  assumes "build_struct_plan S rec shape st b = Ok (sp, d)" and "sh_ty shape = Ty_User (User_Struct st)"
    and "plan_inv S b" and "fits d"
  shows "plan_inv S d \<and> kind_linked S (view d) shape (Nk_Struct sp)"
  using assms(1)
proof (rule struct_Ok)
  fix ps e r l
  assume ps: "plan_fields S rec (shape_is_default shape) (st_fields st) b = Ok (ps, e)"
    and al: "alloc_field_plans ps e = ((r, l), d)"
    and sp: "sp = \<lparr>sp_struct_def = st, sp_fields = r, sp_field_lookup = l,
        sp_has_flatten = list_ex fp_is_flattened ps,
        sp_deny_unknown_fields = has_deny_unknown_fields_attr shape\<rparr>"
  note e = plan_fields_link [OF ps assms(3) fits_grows [OF assms(4) grows_alloc_fields [OF al]]]
  have len: "length ps = length (st_fields st)"
    and fl: "\<And>i. i < length (st_fields st) \<Longrightarrow>
      field_linked S (view e) (shape_is_default shape) i (st_fields st ! i) (ps ! i)"
    and inv: "plan_inv S e" using e by auto
  from alloc_fields_link [OF len fl al inv assms(4)] first_answer_plans(2) [OF len fl] assms(2)
  show ?thesis by (simp add: kind_linked_def sp)
qed

lemma plan_variant_Ok:
  assumes "plan_variant S rec v (ms, b) = Ok (ns, d)"
  obtains ps e r l where "plan_fields S rec False (st_fields (v_data v)) b = Ok (ps, e)"
    and "alloc_field_plans ps e = ((r, l), d)"
    and "ns = ms @ [\<lparr>vm_variant = v, vm_name = variant_effective_name v, vm_fields = r,
        vm_field_lookup = l, vm_has_flatten = list_ex fp_is_flattened ps\<rparr>]"
proof -
  obtain ps e where ps: "plan_fields S rec False (st_fields (v_data v)) b = Ok (ps, e)"
    using assms by (auto simp: plan_variant_def run_simps)
  obtain r l e' where al: "alloc_field_plans ps e = ((r, l), e')" by (metis prod.exhaust)
  show ?thesis using that [OF ps] assms ps al by (simp add: plan_variant_def)
qed

lemma plan_variant_grows: "plan_variant S rec v u = Ok w \<Longrightarrow> grows (snd u) (snd w)"
  by (cases u; cases w)
    (auto elim!: plan_variant_Ok dest!: plan_fields_grow grows_alloc_fields intro: grows_trans)

lemma plan_variant_links:
  assumes "plan_variant S rec v (ms, b) = Ok (ns, d)" and "plan_inv S b" and "fits d"
  shows "plan_inv S d \<and> (\<exists>m. ns = ms @ [m] \<and> variant_linked S (view d) v m)"
  using assms(1)
proof (rule plan_variant_Ok)
  fix ps e r l
  assume ps: "plan_fields S rec False (st_fields (v_data v)) b = Ok (ps, e)"
    and al: "alloc_field_plans ps e = ((r, l), d)"
    and ns: "ns = ms @ [\<lparr>vm_variant = v, vm_name = variant_effective_name v, vm_fields = r,
        vm_field_lookup = l, vm_has_flatten = list_ex fp_is_flattened ps\<rparr>]"
  note e = plan_fields_link [OF ps assms(2) fits_grows [OF assms(3) grows_alloc_fields [OF al]]]
  have len: "length ps = length (st_fields (v_data v))"
    and fl: "\<And>i. i < length (st_fields (v_data v)) \<Longrightarrow>
      field_linked S (view e) False i (st_fields (v_data v) ! i) (ps ! i)"
    and inv: "plan_inv S e" using e by auto
  from alloc_fields_link [OF len fl al inv assms(3)] first_answer_plans(2) [OF len fl]
  show ?thesis by (simp add: variant_linked_def ns)
qed

lemma variants_link:
  assumes "rfold (plan_variant S rec) vs ([], b) = Ok (ms, d)" and "plan_inv S b" and "fits d"
  shows "plan_inv S d \<and> list_all2 (variant_linked S (view d)) vs ms"
proof -
  let ?P = "\<lambda>i u. plan_inv S (snd u) \<and> list_all2 (variant_linked S (view (snd u))) (take i vs) (fst u)"
  have "?P (length vs) (ms, d)"
  proof (rule rfold_links [OF assms(1), where F = "\<lambda>u. fits (snd u)" and G = "\<lambda>u v. grows (snd u) (snd v)"])
    fix i u w
    assume i: "i < length vs" and step: "plan_variant S rec (vs ! i) u = Ok w"
      and F: "fits (snd w)" and P: "?P i u"
    obtain ns e ns' e' where uw: "u = (ns, e)" "w = (ns', e')" by (cases u; cases w)
    have g: "grows e e'" using plan_variant_grows [OF step] uw by simp
    obtain m where m: "plan_inv S e'" "ns' = ns @ [m]" "variant_linked S (view e') (vs ! i) m"
      using plan_variant_links [OF step [unfolded uw]] P F uw by auto
    have "list_all2 (variant_linked S (view e')) (take i vs) ns"
      using P uw variant_linked_mono [OF grows_extends [OF g]] by (auto elim!: list.rel_mono_strong)
    with m uw i show "?P (Suc i) w" by (auto simp: take_Suc_conv_app_nth intro!: list_all2_appendI)
  qed (use assms in \<open>auto intro: reflp_grows transp_grows dest: fits_grows plan_variant_grows\<close>)
  then show ?thesis by simp
qed

lemma enum_Ok:
  assumes "build_enum_plan S rec et b = Ok (ep, d)"
  obtains ms e a r where "rfold (plan_variant S rec) (et_variants et) ([], b) = Ok (ms, e)"
    and "alloc_extend (pb_variants e) ms = (a, r)" and "d = e\<lparr>pb_variants := a\<rparr>" and "grows b e" and "grows e d"
    and "ep = \<lparr>ep_enum_def = et, ep_variants = r, ep_variant_lookup = build_variant_lookup ms,
        ep_num_variants = length ms,
        ep_other_variant_idx = position (\<lambda>v. variant_is_other (vm_variant v)) ms\<rparr>"
proof -
  obtain ms e where ms: "rfold (plan_variant S rec) (et_variants et) ([], b) = Ok (ms, e)"
    using assms by (auto simp: build_enum_plan_def run_simps)
  obtain a r where ar: "alloc_extend (pb_variants e) ms = (a, r)" by fastforce
  have "grows b e" using loop_grows [OF ms] plan_variant_grows by fastforce
  moreover have "prefix (pb_variants e) a" using ar by (auto simp: alloc_extend_def Let_def)
  ultimately show ?thesis
    using that [OF ms ar] assms ms ar grows_variants by (auto simp: build_enum_plan_def run_simps)
qed

lemma enum_links:
  assumes "build_enum_plan S rec et b = Ok (ep, d)" and "sh_ty shape = Ty_User (User_Enum et)"
    and "plan_inv S b" and "fits d"
  shows "plan_inv S d \<and> kind_linked S (view d) shape (Nk_Enum ep)"
  using assms(1)
proof (rule enum_Ok)
  fix ms e a r
  assume ms: "rfold (plan_variant S rec) (et_variants et) ([], b) = Ok (ms, e)"
    and ar: "alloc_extend (pb_variants e) ms = (a, r)" and d: "d = e\<lparr>pb_variants := a\<rparr>" and g: "grows e d"
    and ep: "ep = \<lparr>ep_enum_def = et, ep_variants = r, ep_variant_lookup = build_variant_lookup ms,
        ep_num_variants = length ms,
        ep_other_variant_idx = position (\<lambda>v. variant_is_other (vm_variant v)) ms\<rparr>"
  have e: "plan_inv S e" "list_all2 (variant_linked S (view e)) (et_variants et) ms"
    using variants_link [OF ms assms(3) fits_grows [OF assms(4) g]] by auto
  have "a = pb_variants e @ ms" using ar by (auto simp: alloc_extend_def Let_def)
  with assms(4) have "length (pb_variants e) + length ms < 2 ^ 32" by (simp add: fits_def d)
  from get_slice_extend(2) [OF ar this] have "plan_variants_of (view d) r = Some ms"
    by (simp add: plan_variants_of_def d)
  moreover have "list_all2 (variant_linked S (view d)) (et_variants et) ms"
    using e(2) variant_linked_mono [OF grows_extends [OF g]] by (auto elim!: list.rel_mono_strong)
  moreover have "plan_inv S d" using plan_inv_grow_arenas [OF e(1) g] by (simp add: d)
  ultimately show ?thesis using assms(2) by (simp add: kind_linked_def ep)
qed

end

section \<open>Kinds and nodes\<close>

text \<open>The cases of a kind built from the type.\<close>

lemma build_kind_from_ty_cases:
  assumes "build_kind_from_ty S rec s shape b = Ok ((kind, cs), d)"
  obtains (struct) st sp where "sh_ty shape = Ty_User (User_Struct st)"
      "build_struct_plan S rec shape st b = Ok (sp, d)" "kind = Nk_Struct sp" "cs = []"
        "ty_child_shapes shape = []"
    | (enum) et ep where "sh_ty shape = Ty_User (User_Enum et)"
      "build_enum_plan S rec et b = Ok (ep, d)" "kind = Nk_Enum ep" "cs = []" "ty_child_shapes shape = []"
    | (child) t k where "with_child rec t k b = Ok ((kind, cs), d)" "ty_child_shapes shape = [t]"
        "k = Nk_Slice \<and> sh_ty shape = Ty_Sequence (Seq_Slice t) \<or> k = Nk_Transparent"
    | (opaque) "kind = Nk_Opaque" "cs = []" "d = b" "ty_child_shapes shape = []"
proof -
  let ?ty = "sh_ty shape"
  consider (s) st where "?ty = Ty_User (User_Struct st)" | (e) et where "?ty = Ty_User (User_Enum et)"
    | (l) t where "?ty = Ty_Sequence (Seq_Slice t)" | (o) "?ty = Ty_User User_Opaque \<or> ?ty = Ty_Undefined"
    | (w) "(\<exists>p. ?ty = Ty_Primitive p) \<or> (\<exists>t n. ?ty = Ty_Sequence (Seq_Array t n)) \<or> (\<exists>p. ?ty = Ty_Pointer p)
        \<or> (\<exists>fs. ?ty = Ty_User (User_Union fs))"
    by (metis facet_type.exhaust user_type.exhaust sequence_type.exhaust)
  then show ?thesis
  proof cases
    case s
    with assms show ?thesis using struct by (auto simp: build_kind_from_ty_def run_simps ty_child_shapes_def)
  next
    case e
    with assms show ?thesis using enum by (auto simp: build_kind_from_ty_def run_simps ty_child_shapes_def)
  next
    case l
    with assms show ?thesis using child by (auto simp: build_kind_from_ty_def ty_child_shapes_def)
  next
    case o
    with assms show ?thesis using child opaque
      by (auto simp: build_kind_from_ty_def ty_child_shapes_def split: option.splits if_splits)
  next
    case w
    then have "build_kind_from_ty S rec s shape b =
        (case sh_inner shape of Some inner \<Rightarrow> with_child rec inner Nk_Transparent b
         | None \<Rightarrow> Err (Plan_Err s ''unsupported type for deserialization''))"
      and "ty_child_shapes shape = (case sh_inner shape of Some t \<Rightarrow> [t] | None \<Rightarrow> [])"
      by (auto simp: build_kind_from_ty_def ty_child_shapes_def)
    with assms show ?thesis using child by (auto split: option.splits)
  qed
qed

context node_source
begin

lemma kind_from_ty_grows: "build_kind_from_ty S rec s shape b = Ok ((kind, cs), d) \<Longrightarrow> grows b d"
  by (erule build_kind_from_ty_cases) (auto dest: struct_grows child_grows elim!: enum_Ok intro: grows_trans)

lemma kind_grows: "build_kind S rec s shape b = Ok ((kind, cs), d) \<Longrightarrow> grows b d"
  by (cases "sh_def shape")
    (auto simp: build_kind_def dest: child_grows children_grow kind_from_ty_grows split: option.splits)

lemma kind_from_ty_links:
  assumes "build_kind_from_ty S rec s shape b = Ok ((kind, cs), d)" and "child_shapes shape = ty_child_shapes shape"
    and "plan_inv S b" and "fits d"
  shows "plan_inv S d \<and> kind_linked S (view d) shape kind \<and> list_all2 (leads_to S (view d)) cs (child_shapes shape)"
  using assms(1)
proof (cases rule: build_kind_from_ty_cases)
  case (struct st sp)
  with struct_links [OF struct(2,1) assms(3,4)] assms(2) show ?thesis by simp
next
  case (enum et ep)
  with enum_links [OF enum(2,1) assms(3,4)] assms(2) show ?thesis by simp
next
  case (child t k)
  with child_links [OF child(1) assms(3,4)] assms(2) show ?thesis by (auto simp: kind_linked_def)
next
  case opaque
  with assms(2,3) show ?thesis by (simp add: kind_linked_def)
qed

lemma kind_links:
  assumes "build_kind S rec s shape b = Ok ((kind, cs), d)" and "plan_inv S b" and "fits d"
  shows "plan_inv S d \<and> kind_linked S (view d) shape kind \<and> list_all2 (leads_to S (view d)) cs (child_shapes shape)"
proof -
  have leaf: ?thesis if "kind = k" "cs = []" "d = b" "child_shapes shape = []" "kind_linked S (view b) shape k" for k
    using that assms(2) by simp
  have one: ?thesis if "with_child rec t k b = Ok ((kind, cs), d)" "child_shapes shape = [t]"
      "\<And>c. kind_linked S c shape k" for t k
    using child_links [OF that(1) assms(2,3)] that(2,3) by simp
  have two: ?thesis if "with_children rec t u k b = Ok ((kind, cs), d)" "child_shapes shape = [t, u]"
      "\<And>c. kind_linked S c shape k" for t u k
    using children_link [OF that(1) assms(2,3)] that(2,3) by simp
  have ty: ?thesis if "build_kind S rec s shape b = build_kind_from_ty S rec s shape b"
      "child_shapes shape = ty_child_shapes shape"
    using kind_from_ty_links [OF _ that(2) assms(2,3)] assms(1) that(1) by simp
  show ?thesis
  proof (cases "sh_def shape")
    case Def_Scalar
    show ?thesis
    proof (cases "sh_inner shape")
      case None
      with Def_Scalar assms(1) show ?thesis
        by (intro leaf [of Nk_Scalar]) (auto simp: build_kind_def child_shapes_def kind_linked_def)
    next
      case (Some t)
      with Def_Scalar assms(1) show ?thesis
        by (intro one [of t Nk_Scalar]) (auto simp: build_kind_def child_shapes_def kind_linked_def)
    qed
  next
    case (Def_Pointer p)
    show ?thesis
    proof (cases p)
      case None
      with Def_Pointer assms(1) show ?thesis
        by (intro leaf [of Nk_OpaquePointer]) (auto simp: build_kind_def child_shapes_def kind_linked_def)
    next
      case (Some t)
      with Def_Pointer assms(1) show ?thesis
        by (intro one [of t Nk_Pointer]) (auto simp: build_kind_def child_shapes_def kind_linked_def)
    qed
  next
    case (Def_Option t)
    with assms(1) show ?thesis
      by (intro one [of t Nk_Option]) (auto simp: build_kind_def child_shapes_def kind_linked_def)
  next
    case (Def_List t)
    with assms(1) show ?thesis
      by (intro one [of t Nk_List]) (auto simp: build_kind_def child_shapes_def kind_linked_def)
  next
    case (Def_Set t)
    with assms(1) show ?thesis
      by (intro one [of t Nk_Set]) (auto simp: build_kind_def child_shapes_def kind_linked_def)
  next
    case (Def_Array t n)
    with assms(1) show ?thesis
      by (intro one [of t "Nk_Array n"]) (auto simp: build_kind_def child_shapes_def kind_linked_def)
  next
    case (Def_Result t e)
    with assms(1) show ?thesis
      by (intro two [of t e Nk_Result]) (auto simp: build_kind_def child_shapes_def kind_linked_def)
  next
    case (Def_Map k v)
    with assms(1) show ?thesis
      by (intro two [of k v Nk_Map]) (auto simp: build_kind_def child_shapes_def kind_linked_def)
  next
    case Def_DynamicValue
    with assms(1) show ?thesis
      by (intro leaf [of Nk_DynamicValue]) (auto simp: build_kind_def child_shapes_def kind_linked_def)
  qed (rule ty; simp add: build_kind_def child_shapes_def)+
qed

lemma new_node_Ok:
  assumes "build_new_node S rec s fp b = Ok (i, d)"
  obtains p hc hf e kind cs e' st where "build_all_proxy_nodes rec (S s) fp b = Ok ((p, hc, hf), e)"
    and "build_kind S rec s (S s) e = Ok ((kind, cs), e')"
    and "compute_strategy s (S s) kind hc hf cs = Ok st"
    and "alloc_node \<lparr>nd_shape = s, nd_kind = kind, nd_strategy = st,
        nd_has_default = shape_is_default (S s), nd_proxies = p\<rparr> e' = Ok (i, d)"
  using assms by (auto simp: build_new_node_def Let_def run_simps)

lemma new_node_grows: "build_new_node S rec s fp b = Ok (i, d) \<Longrightarrow> grows b d"
  by (auto elim!: new_node_Ok dest!: proxies_grow kind_grows grows_alloc_node intro: grows_trans)

lemma new_node_links:
  assumes "build_new_node S rec s fp b = Ok (i, d)" and "good_proxies fp" and "plan_inv S b" and "fits d"
  obtains e nd where "plan_inv S e" and "grows b e" and "d = e\<lparr>pb_nodes := pb_nodes e @ [nd]\<rparr>"
    and "unat i = length (pb_nodes e)" and "nd_shape nd = s" and "node_linked S (view d) nd"
    and "\<not> is_backref nd" and "is_shared nd \<longleftrightarrow> fp = None"
  using assms(1)
proof (rule new_node_Ok)
  fix p hc hf e kind cs e' st
  assume pr: "build_all_proxy_nodes rec (S s) fp b = Ok ((p, hc, hf), e)"
    and ki: "build_kind S rec s (S s) e = Ok ((kind, cs), e')"
    and co: "compute_strategy s (S s) kind hc hf cs = Ok st"
    and al: "alloc_node \<lparr>nd_shape = s, nd_kind = kind, nd_strategy = st,
        nd_has_default = shape_is_default (S s), nd_proxies = p\<rparr> e' = Ok (i, d)"
  let ?nd = "\<lparr>nd_shape = s, nd_kind = kind, nd_strategy = st,
        nd_has_default = shape_is_default (S s), nd_proxies = p\<rparr>"
  have g: "grows e' d" "grows e e'" "grows b e" using grows_alloc_node [OF al] kind_grows [OF ki] proxies_grow [OF pr] .
  have f: "fits e'" "fits e" using fits_grows assms(4) g by blast+
  note P = proxies_link [OF pr assms(2,3) f(2)]
  have "plan_inv S e" using P by blast
  note K = kind_links [OF ki this f(1)]
  then have kl: "kind_linked S (view e') (S s) kind" "list_all2 (leads_to S (view e')) cs (child_shapes (S s))" by auto
  note C = compute_strategy_links [OF co kl]
  have nb: "\<not> is_backref ?nd" using kl(1) by (cases kind) (auto simp: is_backref_def kind_linked_def)
  have ext: "core_extends (view e) (view e')" "core_extends (view e') (view d)" using g grows_extends by auto
  have "node_proxies_linked S (view e') (S s) st p"
  proof (cases hf)
    case True
    then have "pn_has_any p \<and> (\<exists>g fs. proxies_linked S (view e') g fs p)"
      using P proxies_linked_mono [OF ext(1)] by blast
    with True C show ?thesis by (simp add: node_proxies_linked_def)
  next
    case False
    with P C proxies_linked_mono [OF ext(1)] show ?thesis by (auto simp: node_proxies_linked_def)
  qed
  then have "node_linked S (view e') ?nd"
    using nb kl(1) C by (simp add: node_linked_def)
  then have "node_linked S (view d) ?nd" by (rule node_linked_mono [OF ext(2)])
  moreover have "is_shared ?nd \<longleftrightarrow> fp = None" using nb C P by (auto simp: is_shared_def)
  ultimately show thesis
    using that [of e' ?nd] K grows_trans [OF g(3,2)] alloc_node_Ok [OF al] nb by simp
qed

end

section \<open>The recursive builder\<close>

lemma node_at_push:
  assumes "unat i = length ns" and "pc_nodes c = ns" and "pc_nodes d = ns @ [nd]"
  shows "node_at d i = Some nd" and "node_at c i = None"
    and "node_at d j = Some x \<longleftrightarrow> node_at c j = Some x \<or> j = i \<and> x = nd"
proof -
  show "node_at d i = Some nd" "node_at c i = None"
    using assms by (simp_all add: node_at_def arena_get_def)
  have "unat j = length ns \<longleftrightarrow> j = i" using assms(1) word_unat_eq_iff by metis
  then show "node_at d j = Some x \<longleftrightarrow> node_at c j = Some x \<or> j = i \<and> x = nd"
    using assms by (auto simp: node_at_def arena_get_def nth_opt_def nth_append less_Suc_eq)
qed

text \<open>Pushing a linked node that is not shared keeps the invariant.\<close>

lemma plan_inv_push:
  assumes inv: "plan_inv S b" and d: "d = b\<lparr>pb_nodes := pb_nodes b @ [nd]\<rparr>" and i: "unat (i :: node_id) = length (pb_nodes b)"
    and linked: "node_linked S (view d) nd" and "\<not> is_shared nd"
    and "is_backref nd \<Longrightarrow> type_known b (sh_id (S (nd_shape nd)))"
  shows "plan_inv S d"
proof -
  note at = node_at_push [OF i, of "view b" "view d" nd]
  have ext: "core_extends (view b) (view d)" by (simp add: core_extends_def d)
  have same: "pb_finished d = pb_finished b" "building_apart d = building_apart b" "type_known d = type_known b"
    by (simp_all add: d building_apart_def type_known_def fun_eq_iff)
  have nodes: "pc_nodes (view b) = pb_nodes b" "pc_nodes (view d) = pb_nodes b @ [nd]" by (simp_all add: d)
  have nodes_ok: "node_linked S (view d) x \<and> (is_backref x \<longrightarrow> type_known d (sh_id (S (nd_shape x))))
      \<and> (is_shared x \<longrightarrow> btm_get (pb_finished d) (sh_id (S (nd_shape x))) = Some j)"
    if "node_at (view d) j = Some x" for j x
    using that inv linked assms(5,6) node_linked_mono [OF ext]
    unfolding at(3) [OF nodes] same plan_inv_def by blast
  show ?thesis
    using inv nodes_ok node_at_mono [OF ext] unfolding plan_inv_def same by blast
qed

text \<open>So does starting on a type that is not finished.\<close>

lemma plan_inv_start:
  assumes "plan_inv S b" and "btm_get (pb_finished b) t = None"
  shows "plan_inv S (b\<lparr>pb_building := t # pb_building b\<rparr>)"
proof -
  have view: "view (b\<lparr>pb_building := t # pb_building b\<rparr>) = view b" by (simp add: view_def plan_finish_def)
  show ?thesis
    using assms unfolding plan_inv_def view by (auto simp: building_apart_def type_known_def)
qed

text \<open>Pushing a shared node and recording it as finished keeps the invariant.\<close>

lemma plan_inv_finish:
  assumes inv: "plan_inv S b" and i: "unat i = length (pb_nodes b)"
    and t: "t = sh_id (S (nd_shape nd))" "t \<in> set (pb_building b)"
    and d: "d = b\<lparr>pb_nodes := pb_nodes b @ [nd], pb_building := removeAll t (pb_building b),
      pb_finished := btm_insert t i (pb_finished b)\<rparr>"
    and linked: "node_linked S (view d) nd" and shared: "is_shared nd"
  shows "plan_inv S d"
proof -
  note at = node_at_push [OF i, of "view b" "view d" nd]
  have nodes: "pc_nodes (view b) = pb_nodes b" "pc_nodes (view d) = pb_nodes b @ [nd]" by (simp_all add: d)
  have ext: "core_extends (view b) (view d)" by (simp add: core_extends_def d)
  have none: "btm_get (pb_finished b) t = None" using inv t(2) by (auto simp: plan_inv_def building_apart_def)
  have get: "btm_get (pb_finished d) u = (if u = t then Some i else btm_get (pb_finished b) u)" for u
    by (simp add: d)
  have apart: "building_apart d" using inv by (auto simp: plan_inv_def building_apart_def d)
  have wf: "btm_wf (pb_finished d)" using inv by (simp add: plan_inv_def d)
  have known: "type_known b u \<Longrightarrow> type_known d u" for u by (auto simp: type_known_def d)
  have not_t: "sh_id (S (nd_shape x)) \<noteq> t" if "node_at (view b) j = Some x" "is_shared x" for j x
    using that inv none by (auto simp: plan_inv_def)
  have nb: "\<not> is_backref nd" using shared by (simp add: is_shared_def)
  have nodes_ok: "node_linked S (view d) x \<and> (is_backref x \<longrightarrow> type_known d (sh_id (S (nd_shape x))))
      \<and> (is_shared x \<longrightarrow> btm_get (pb_finished d) (sh_id (S (nd_shape x))) = Some j)"
    if "node_at (view d) j = Some x" for j x
  proof -
    from that at(3) [OF nodes, of j x] consider "node_at (view b) j = Some x" | "j = i" "x = nd" by blast
    then show ?thesis
    proof cases
      case 1
      with inv not_t [OF 1] node_linked_mono [OF ext] known show ?thesis by (auto simp: plan_inv_def get)
    next
      case 2
      with linked nb t(1) get show ?thesis by simp
    qed
  qed
  have finished_ok: "\<exists>x. node_at (view d) j = Some x \<and> sh_id (S (nd_shape x)) = u \<and> is_shared x"
    if "btm_get (pb_finished d) u = Some j" for u j
  proof (cases "u = t")
    case True
    with that get have "j = i" by simp
    with at(1) [OF nodes] shared t(1) True show ?thesis by blast
  next
    case False
    with that get inv have "\<exists>x. node_at (view b) j = Some x \<and> sh_id (S (nd_shape x)) = u \<and> is_shared x"
      by (simp add: plan_inv_def)
    then show ?thesis using node_at_mono [OF ext] by blast
  qed
  show ?thesis unfolding plan_inv_def using apart wf nodes_ok finished_ok by blast
qed

context node_source
begin

lemma step_grows:
  assumes "build_node_step S rec s fp b = Ok (i, d)"
  shows "grows b d"
proof (cases fp)
  case (Some p)
  with assms show ?thesis by (simp add: build_node_step_def new_node_grows)
next
  case None
  let ?t = "sh_id (S s)" and ?b = "b\<lparr>pb_building := sh_id (S s) # pb_building b\<rparr>"
  consider j where "btm_get (pb_finished b) ?t = Some j" "d = b"
    | "alloc_node (backref_node s (S s)) b = Ok (i, d)"
    | e where "btm_get (pb_finished b) ?t = None" "?t \<notin> set (pb_building b)"
      "build_new_node S rec s None ?b = Ok (i, e)"
      "d = e\<lparr>pb_building := removeAll ?t (pb_building e), pb_finished := btm_insert ?t i (pb_finished e)\<rparr>"
    using assms None by (auto simp: build_node_step_def Let_def run_simps split: option.splits if_splits)
  then show ?thesis
  proof cases
    case 3
    have g: "grows ?b e" by (rule new_node_grows [OF 3(3)])
    have "core_extends (view b) (view d)"
      using grows_extends [OF g] by (simp add: core_extends_def 3(4))
    moreover have "set (pb_building d) = set (pb_building b)" using g 3(2) by (auto simp: grows_def 3(4))
    moreover have "building_apart d \<and> (\<forall>u j. btm_get (pb_finished b) u = Some j \<longrightarrow> btm_get (pb_finished d) u = Some j)"
      if "building_apart b"
    proof -
      have "building_apart ?b" using that 3(1) by (simp add: building_apart_def)
      with g 3(1) show ?thesis by (auto simp: grows_def building_apart_def 3(4))
    qed
    ultimately show ?thesis by (simp add: grows_def)
  qed (auto dest: grows_alloc_node)
qed

lemma step_links:
  assumes step: "build_node_step S rec s fp b = Ok (i, d)" and "good_proxies fp" and inv: "plan_inv S b" and "fits d"
  shows "plan_inv S d \<and> leads_to S (view d) i s"
proof (cases fp)
  case (Some p)
  with step have "build_new_node S rec s fp b = Ok (i, d)" by (simp add: build_node_step_def)
  from this assms(2) inv assms(4) obtain e nd where e: "plan_inv S e" "d = e\<lparr>pb_nodes := pb_nodes e @ [nd]\<rparr>"
    "unat i = length (pb_nodes e)" "nd_shape nd = s" "node_linked S (view d) nd" "\<not> is_backref nd" "\<not> is_shared nd"
    by (rule new_node_links) (use Some in auto)
  have "plan_inv S d" by (rule plan_inv_push [OF e(1,2,3,5,7)]) (use e(6) in simp)
  moreover have "leads_to S (view d) i s"
    using node_at_push(1) [OF e(3), of "view e" "view d" nd] e(2,4) by (auto simp: leads_to_def holds_type_def)
  ultimately show ?thesis ..
next
  case None
  let ?t = "sh_id (S s)" and ?b = "b\<lparr>pb_building := sh_id (S s) # pb_building b\<rparr>"
  consider "btm_get (pb_finished b) ?t = Some i" "d = b"
    | "?t \<in> set (pb_building b)" "alloc_node (backref_node s (S s)) b = Ok (i, d)"
    | e where "btm_get (pb_finished b) ?t = None" "?t \<notin> set (pb_building b)"
      "build_new_node S rec s None ?b = Ok (i, e)"
      "d = e\<lparr>pb_building := removeAll ?t (pb_building e), pb_finished := btm_insert ?t i (pb_finished e)\<rparr>"
    using step None by (auto simp: build_node_step_def Let_def run_simps split: option.splits if_splits)
  then show ?thesis
  proof cases
    case 1
    from inv 1(1) have "\<exists>nd. node_at (view b) i = Some nd \<and> sh_id (S (nd_shape nd)) = ?t"
      unfolding plan_inv_def by blast
    with inv 1(2) show ?thesis by (simp add: leads_to_def holds_type_def)
  next
    case 2
    note al = alloc_node_Ok [OF 2(2)]
    let ?nd = "backref_node s (S s)"
    have nd: "node_linked S (view d) ?nd" "\<not> is_shared ?nd" "nd_shape ?nd = s"
      by (simp_all add: node_linked_def backref_node_def is_backref_def is_shared_def)
    have "plan_inv S d" by (rule plan_inv_push [OF inv al nd(1,2)]) (use 2(1) nd(3) in \<open>simp add: type_known_def\<close>)
    moreover have "leads_to S (view d) i s"
      using node_at_push(1) [OF al(2), of "view b" "view d" ?nd] al(1) nd(3)
      by (auto simp: leads_to_def holds_type_def)
    ultimately show ?thesis ..
  next
    case 3
    have "plan_inv S ?b"
      by (rule plan_inv_start [OF inv 3(1)])
    moreover have "fits e" using assms(4) by (simp add: fits_def 3(4))
    ultimately obtain e' nd where e: "plan_inv S e'" "grows ?b e'" "e = e'\<lparr>pb_nodes := pb_nodes e' @ [nd]\<rparr>"
      "unat i = length (pb_nodes e')" "nd_shape nd = s" "node_linked S (view e) nd" "is_shared nd"
      by (rule new_node_links [OF 3(3) good_None]) auto
    have "core_extends (view e) (view d)" by (simp add: core_extends_def 3(4))
    then have l: "node_linked S (view d) nd" using node_linked_mono e(6) by blast
    have "?t \<in> set (pb_building e')" using e(2) by (auto simp: grows_def)
    then have "plan_inv S d"
      by (intro plan_inv_finish [OF e(1,4) _ _ _ l e(7), of ?t]) (simp_all add: e(3,5) 3(4))
    moreover have "leads_to S (view d) i s"
      using node_at_push(1) [OF e(4), of "view e'" "view d" nd] e(3,5) 3(4)
      by (auto simp: leads_to_def holds_type_def)
    ultimately show ?thesis ..
  qed
qed

end

lemma build_node_source: "node_source S (build_node_with_proxy S n)"
proof (induction n)
  case 0
  show ?case by unfold_locales simp_all
next
  case (Suc n)
  show ?case
    by unfold_locales (simp_all add: node_source.step_grows [OF Suc.IH] node_source.step_links [OF Suc.IH])
qed

interpretation nodes: node_source S "build_node_with_proxy S n" for S n
  by (rule build_node_source)

section \<open>Fields that have no plan\<close>

lemma rfold_each: "rfold f xs s = Ok t \<Longrightarrow> x \<in> set xs \<Longrightarrow> \<exists>u v. f x u = Ok v"
  by (induction xs arbitrary: s) (auto simp: run_simps)

lemma plan_fields_extract:
  assumes "plan_fields S rec k fs b = Ok (ps, d)" and "f \<in> set fs"
  shows "collect_validators (shape_scalar_type (sh_id (S (f_shape f)))) (f_attributes f) \<noteq> None"
proof -
  obtain i where "i < length fs" "fs ! i = f" using assms(2) by (auto simp: in_set_conv_nth)
  then have "(i, f) \<in> set (enumerate 0 fs)" by (simp add: in_set_enumerate_eq)
  from rfold_each [OF assms(1) [unfolded plan_fields_def] this] show ?thesis
    by (auto simp: plan_field_def run_simps extract_validators_def)
qed

text \<open>A struct with a field whose validators cannot be extracted cannot be built.\<close>

lemma unextractable_field:
  assumes "sh_def (S s) = Def_Undefined" and "sh_ty (S s) = Ty_User (User_Struct st)" and "f \<in> set (st_fields st)"
    and "collect_validators (shape_scalar_type (sh_id (S (f_shape f)))) (f_attributes f) = None"
  shows "build_uncached S n s \<noteq> Ok c"
proof
  assume "build_uncached S n s = Ok c"
  then obtain m x e p d where "build_new_node S (build_node_with_proxy S m) s None e = Ok (x, d)"
    by (cases n) (auto simp: build_uncached_def build_node_def build_node_step_def run_simps Let_def
        plan_builder_new_def split: option.splits if_splits)
  then obtain e r where "build_kind S (build_node_with_proxy S m) s (S s) e = Ok r"
    by (auto simp: build_new_node_def Let_def run_simps)
  then obtain r' where "build_struct_plan S (build_node_with_proxy S m) (S s) st e = Ok r'"
    using assms(1,2) by (auto simp: build_kind_def build_kind_from_ty_def Let_def run_simps)
  then obtain ps e' where "plan_fields S (build_node_with_proxy S m) (shape_is_default (S s)) (st_fields st) e = Ok (ps, e')"
    by (auto simp: build_struct_plan_def run_simps)
  from plan_fields_extract [OF this assms(3)] assms(4) show False by simp
qed

end
