(* ===== verification/Plan_Results.thy ===== *)
theory Plan_Results
  imports Plan_Links
begin

text \<open>
  What a finished type plan offers: every node is linked to the parts of its shape, every back
  reference resolves in one step to the node of its type, navigation neither panics nor loops
  and leads to the parts, and every type has one node. The last section bounds the fuel
  the builder needs.
\<close>

section \<open>Finished plans\<close>

definition core_fits :: "plan_core \<Rightarrow> bool" where
  "core_fits c \<longleftrightarrow> length (pc_fields c) < 2 ^ 32 \<and> length (pc_variants c) < 2 ^ 32
     \<and> length (pc_validators c) < 2 ^ 32 \<and> length (pc_field_entries c) < 2 ^ 32
     \<and> length (pc_buckets c) < 2 ^ 32"

lemma core_fits_code [code]:
  "core_fits c \<longleftrightarrow> list_all (\<lambda>n. int n < 4294967296)
     [length (pc_fields c), length (pc_variants c), length (pc_validators c), length (pc_field_entries c),
      length (pc_buckets c)]"
  unfolding core_fits_def by auto

definition node_tid :: "shapes \<Rightarrow> plan_node \<Rightarrow> type_id" where
  "node_tid S nd = sh_id (S (nd_shape nd))"

definition plan_linked :: "shapes \<Rightarrow> plan_core \<Rightarrow> bool" where
  "plan_linked S c \<longleftrightarrow>
     (\<forall>i nd. node_at c i = Some nd \<longrightarrow>
        node_linked S c nd
        \<and> (is_backref nd \<longrightarrow> (\<exists>j m. lookup_node c (node_tid S nd) = Some j \<and> node_at c j = Some m
             \<and> is_shared m \<and> node_tid S m = node_tid S nd))
        \<and> (is_shared nd \<longrightarrow> lookup_node c (node_tid S nd) = Some i))"

lemma lookup_btm_get:
  assumes "btm_wf m"
  shows "map_option (\<lambda>i. snd (m ! i)) (binary_search (map fst m) t) = btm_get m t"
proof -
  have sorted: "sorted (map fst m)" using assms by (simp add: btm_wf_def strict_sorted_iff)
  show ?thesis
  proof (cases "binary_search (map fst m) t")
    case None
    with binary_search_spec [OF sorted, of t] have "btm_get m t = None" by (simp add: btm_get_None)
    with None show ?thesis by simp
  next
    case (Some i)
    with binary_search_spec [OF sorted, of t] have i: "i < length m" "fst (m ! i) = t" by auto
    then have "(t, snd (m ! i)) \<in> set m" by (metis nth_mem prod.collapse)
    with Some show ?thesis by (simp add: btm_in_set_get [OF assms])
  qed
qed

lemma plan_finish_linked:
  assumes inv: "plan_inv S b" and none: "pb_building b = []"
  shows "plan_linked S (plan_finish b root)"
proof -
  let ?c = "plan_finish b root"
  have at: "node_at ?c = node_at (view b)" by (simp add: node_at_def plan_finish_def fun_eq_iff)
  have ext: "core_extends (view b) ?c" by (simp add: core_extends_def plan_finish_def)
  have look: "lookup_node ?c t = btm_get (pb_finished b) t" for t
    using inv by (simp add: lookup_node_def plan_finish_def lookup_btm_get plan_inv_def)
  have nodes: "node_linked S (view b) nd \<and> (is_backref nd \<longrightarrow> type_known b (node_tid S nd))
      \<and> (is_shared nd \<longrightarrow> btm_get (pb_finished b) (node_tid S nd) = Some i)"
    if "node_at (view b) i = Some nd" for i nd
    using inv that unfolding plan_inv_def node_tid_def by blast
  have finished: "\<exists>m. node_at (view b) j = Some m \<and> node_tid S m = t \<and> is_shared m"
    if "btm_get (pb_finished b) t = Some j" for t j
    using inv that unfolding plan_inv_def node_tid_def by blast
  have known: "type_known b t \<longleftrightarrow> (\<exists>j. btm_get (pb_finished b) t = Some j)" for t
    using none by (simp add: type_known_def)
  show ?thesis
    unfolding plan_linked_def at look
    using nodes finished node_linked_mono [OF ext] unfolding known by blast
qed

lemma build_uncached_Ok:
  assumes "build_uncached S n s = Ok c" and "core_fits c"
  shows "plan_linked S c" and "leads_to S c (pc_root c) s"
proof -
  obtain root b where b: "build_node_with_proxy S n s None plan_builder_new = Ok (root, b)"
    and c: "c = plan_finish b root"
    using assms(1) by (auto simp: build_uncached_def build_node_def run_simps)
  have "fits b" using assms(2) by (simp add: fits_def core_fits_def c plan_finish_def)
  moreover have "plan_inv S plan_builder_new"
    by (simp add: plan_inv_def plan_builder_new_def building_apart_def node_at_def arena_get_def)
  ultimately have inv: "plan_inv S b" "leads_to S (view b) root s" using nodes.rec_links [OF b] by auto
  have "set (pb_building b) = set (pb_building plan_builder_new)" using nodes.rec_grows [OF b] by (simp add: grows_def)
  then have none: "pb_building b = []" by (simp add: plan_builder_new_def)
  show "plan_linked S c" unfolding c by (rule plan_finish_linked [OF inv(1) none])
  have "core_extends (view b) c" by (simp add: core_extends_def c plan_finish_def)
  from leads_to_mono [OF this inv(2)] show "leads_to S c (pc_root c) s" by (simp add: c plan_finish_def)
qed

section \<open>Navigation\<close>

text \<open>The node a node stands for: itself, or what its back reference resolves to.\<close>

lemma resolve_in_plan:
  assumes linked: "plan_linked S c" and nd: "node_at c i = Some nd"
  obtains j m where "resolve_backref c nd = Some m" and "node_at c j = Some m" and "\<not> is_backref m"
    and "node_linked S c m" and "node_tid S m = node_tid S nd"
    and "lookup_node c (node_tid S nd) = Some j \<or> m = nd"
    and "\<And>pick :: deser_strategy \<Rightarrow> 'a option. follow pick c nd = Some (pick (nd_strategy m))"
proof (cases "is_backref nd")
  case True
  obtain j m where m: "lookup_node c (node_tid S nd) = Some j" "node_at c j = Some m" "is_shared m"
    "node_tid S m = node_tid S nd"
    using linked nd True unfolding plan_linked_def by blast
  have l: "node_linked S c nd" "node_linked S c m" using linked nd m(2) unfolding plan_linked_def by blast+
  then have k: "nd_kind nd = Nk_BackRef (node_tid S nd)" "nd_strategy nd = Ds_BackRef (node_tid S nd)"
    using True by (auto simp: node_linked_def Let_def node_tid_def)
  have nb: "\<not> is_backref m" using m(3) by (simp add: is_shared_def)
  then have ns: "strategy_linked S c (S (nd_shape m)) (nd_strategy m)" using l(2) by (simp add: node_linked_def Let_def)
  have "follow pick c m = Some (pick (nd_strategy m))" for pick :: "deser_strategy \<Rightarrow> 'a option"
    using ns by (subst follow.simps) (cases "nd_strategy m"; simp add: strategy_linked_def)
  then have "follow pick c nd = Some (pick (nd_strategy m))" for pick :: "deser_strategy \<Rightarrow> 'a option"
    by (subst follow.simps) (simp add: k m(1,2))
  with that [of m j] m l(2) nb show ?thesis by (simp add: resolve_backref_def k)
next
  case False
  have l: "node_linked S c nd" using linked nd unfolding plan_linked_def by blast
  then have ns: "strategy_linked S c (S (nd_shape nd)) (nd_strategy nd)" using False by (simp add: node_linked_def Let_def)
  have "follow pick c nd = Some (pick (nd_strategy nd))" for pick :: "deser_strategy \<Rightarrow> 'a option"
    using ns by (subst follow.simps) (cases "nd_strategy nd"; simp add: strategy_linked_def)
  moreover have "resolve_backref c nd = Some nd"
    using False by (auto simp: resolve_backref_def is_backref_def split: node_kind.splits)
  ultimately show ?thesis using that [of nd i] nd l False by simp
qed

definition leads_part :: "shapes \<Rightarrow> plan_core \<Rightarrow> node_id option option \<Rightarrow> (sref \<Rightarrow> bool) \<Rightarrow> bool" where
  "leads_part S c r is_part \<longleftrightarrow>
     (case r of None \<Rightarrow> False | Some None \<Rightarrow> True | Some (Some i) \<Rightarrow> \<exists>t. is_part t \<and> leads_to S c i t)"

definition item_of :: "shape \<Rightarrow> sref \<Rightarrow> bool" where
  "item_of shape t \<longleftrightarrow> sh_def shape = Def_List t \<or> (\<exists>n. sh_def shape = Def_Array t n)
     \<or> sh_ty shape = Ty_Sequence (Seq_Slice t)"

lemma navigation_links:
  assumes "plan_linked S c" and "node_at c i = Some nd"
  shows "\<exists>m. resolve_backref c nd = Some m \<and> node_tid S m = node_tid S nd
    \<and> list_item_node_id c i = Some (pick_list_item (nd_strategy m))
    \<and> leads_part S c (list_item_node_id c i) (item_of (S (nd_shape m)))
    \<and> leads_part S c (set_item_node_id c i) (\<lambda>t. sh_def (S (nd_shape m)) = Def_Set t)
    \<and> leads_part S c (map_key_node_id c i) (\<lambda>t. \<exists>v. sh_def (S (nd_shape m)) = Def_Map t v)
    \<and> leads_part S c (map_value_node_id c i) (\<lambda>t. \<exists>k. sh_def (S (nd_shape m)) = Def_Map k t)
    \<and> leads_part S c (option_some_node_id c i) (\<lambda>t. sh_def (S (nd_shape m)) = Def_Option t)
    \<and> leads_part S c (pointer_inner_node_id c i) (\<lambda>t. sh_def (S (nd_shape m)) = Def_Pointer (Some t))
    \<and> leads_part S c (map_option (map_option fst) (result_nodes_id c i)) (\<lambda>t. \<exists>e. sh_def (S (nd_shape m)) = Def_Result t e)
    \<and> leads_part S c (map_option (map_option snd) (result_nodes_id c i)) (\<lambda>e. \<exists>t. sh_def (S (nd_shape m)) = Def_Result t e)"
  using assms
proof (rule resolve_in_plan)
  fix j m
  assume m: "resolve_backref c nd = Some m" "\<not> is_backref m" "node_linked S c m" "node_tid S m = node_tid S nd"
    and f: "\<And>pick :: deser_strategy \<Rightarrow> node_id option. follow pick c nd = Some (pick (nd_strategy m))"
  have "\<exists>j m'. resolve_backref c nd = Some m' \<and> (\<forall>pick :: deser_strategy \<Rightarrow> (node_id \<times> node_id) option.
      follow pick c nd = Some (pick (nd_strategy m')))"
    using assms by (rule resolve_in_plan) blast
  with m(1) have f2: "follow pick c nd = Some (pick (nd_strategy m))"
    for pick :: "deser_strategy \<Rightarrow> (node_id \<times> node_id) option" by auto
  have sl: "strategy_linked S c (S (nd_shape m)) (nd_strategy m)" using m(2,3) by (simp add: node_linked_def Let_def)
  have nav: "list_item_node_id c i = Some (pick_list_item (nd_strategy m))"
    "set_item_node_id c i = Some (pick_set_item (nd_strategy m))"
    "map_key_node_id c i = Some (pick_map_key (nd_strategy m))"
    "map_value_node_id c i = Some (pick_map_value (nd_strategy m))"
    "option_some_node_id c i = Some (pick_option_some (nd_strategy m))"
    "pointer_inner_node_id c i = Some (pick_pointer (nd_strategy m))"
    "result_nodes_id c i = Some (pick_result (nd_strategy m))"
    using assms(2) f f2
    by (simp_all add: list_item_node_id_def set_item_node_id_def map_key_node_id_def map_value_node_id_def
        option_some_node_id_def pointer_inner_node_id_def result_nodes_id_def follow_id_def)
  show ?thesis
    unfolding nav
    by (rule exI [of _ m], intro conjI m(1,4) refl; insert sl; cases "nd_strategy m")
      (auto simp: leads_part_def strategy_linked_def item_of_def)
qed

text \<open>A struct node: its fields by index, and by name.\<close>

lemma first_answer_Some:
  assumes "first_answer name fs = Some k"
  shows "k < length fs" and "effective_name (fs ! k) = name \<or> f_alias (fs ! k) = Some name"
    and "\<forall>j < k. \<not> (effective_name (fs ! j) = name \<or> f_alias (fs ! j) = Some name)"
proof -
  obtain f j where j: "j < length (enumerate 0 fs)" "enumerate 0 fs ! j = (k, f)"
    "effective_name f = name \<or> f_alias f = Some name"
    "\<forall>l < j. \<not> (case enumerate 0 fs ! l of (i, f) \<Rightarrow> effective_name f = name \<or> f_alias f = Some name)"
    using assms unfolding first_answer_def by (auto simp: find_Some_iff)
  then have k: "j = k" "f = fs ! k" "k < length fs" by (auto simp: nth_enumerate_eq)
  show "k < length fs" by (rule k)
  show "effective_name (fs ! k) = name \<or> f_alias (fs ! k) = Some name" using j(3) by (simp only: k)
  show "\<forall>j < k. \<not> (effective_name (fs ! j) = name \<or> f_alias (fs ! j) = Some name)"
  proof (intro allI impI)
    fix l
    assume "l < k"
    with j(4) k have "\<not> (case enumerate 0 fs ! l of (i, f) \<Rightarrow> effective_name f = name \<or> f_alias f = Some name)"
      by simp
    with \<open>l < k\<close> k(3) show "\<not> (effective_name (fs ! l) = name \<or> f_alias (fs ! l) = Some name)"
      by (simp add: nth_enumerate_eq)
  qed
qed

lemma first_answer_None:
  assumes "first_answer name fs = None" and "f \<in> set fs"
  shows "effective_name f \<noteq> name \<and> f_alias f \<noteq> Some name"
proof -
  obtain i where "i < length fs" "fs ! i = f" using assms(2) by (auto simp: in_set_conv_nth)
  then have "(i, f) \<in> set (enumerate 0 fs)" by (simp add: in_set_enumerate_eq)
  with assms(1) show ?thesis by (auto simp: first_answer_def find_None_iff)
qed

lemma struct_navigation:
  assumes "plan_linked S c" and nd: "node_at c i = Some nd"
    and "as_struct_plan c nd = Some (Some sp)"
  defines "fs \<equiv> st_fields (sp_struct_def sp)"
  shows "\<exists>m. resolve_backref c nd = Some m \<and> sh_ty (S (nd_shape m)) = Ty_User (User_Struct (sp_struct_def sp))
      \<and> node_tid S m = node_tid S nd"
    and "k < length fs \<Longrightarrow> \<exists>j. struct_field_node_id c i k = Some (Some j) \<and> leads_to S c j (f_shape (fs ! k))"
    and "length fs \<le> k \<Longrightarrow> struct_field_node_id c i k = Some None"
    and "field_find c (sp_field_lookup sp) name = Some (first_answer name fs)"
proof -
  obtain m where m: "resolve_backref c nd = Some m" "\<not> is_backref m" "node_linked S c m" "node_tid S m = node_tid S nd"
    using assms(1) nd by (rule resolve_in_plan)
  with assms(3) have k: "nd_kind m = Nk_Struct sp" by (auto simp: as_struct_plan_def split: node_kind.splits)
  have l: "kind_linked S c (S (nd_shape m)) (Nk_Struct sp)" using m(2,3) k by (simp add: node_linked_def Let_def)
  then show "\<exists>m. resolve_backref c nd = Some m \<and> sh_ty (S (nd_shape m)) = Ty_User (User_Struct (sp_struct_def sp))
      \<and> node_tid S m = node_tid S nd" using m(1,4) by (auto simp: kind_linked_def)
  have fl: "fields_linked S c (shape_is_default (S (nd_shape m))) fs (sp_fields sp) (sp_field_lookup sp)"
    using l by (simp add: kind_linked_def fs_def)
  then obtain ps where ps: "plan_fields_of c (sp_fields sp) = Some ps" "length ps = length fs"
    "\<forall>i < length fs. leads_to S c (fp_type_node (ps ! i)) (f_shape (fs ! i))"
    by (auto simp: fields_linked_def field_linked_def)
  have id: "struct_field_node_id c i k = Some (map_option fp_type_node (nth_opt ps k))"
    by (simp add: struct_field_node_id_def nd m(1) k ps(1))
  show "\<exists>j. struct_field_node_id c i k = Some (Some j) \<and> leads_to S c j (f_shape (fs ! k))" if "k < length fs"
    using that ps(2,3) id by auto
  show "struct_field_node_id c i k = Some None" if "length fs \<le> k"
    using that ps(2) id by simp
  show "field_find c (sp_field_lookup sp) name = Some (first_answer name fs)"
    using fl by (simp add: fields_linked_def)
qed

lemma shared_unique:
  assumes "plan_linked S c" and "node_at c i = Some x" and "node_at c j = Some y"
    and "is_shared x" and "is_shared y" and "node_tid S x = node_tid S y"
  shows "i = j"
proof -
  have "lookup_node c (node_tid S x) = Some i" "lookup_node c (node_tid S y) = Some j"
    using assms unfolding plan_linked_def by blast+
  with assms(6) show ?thesis by simp
qed

end
