(* ===== verification/Plan_Fuel.thy ===== *)
theory Plan_Fuel
  imports Plan_Results
begin

text \<open>
  Termination of the type plan builder. A shape that is built plainly is marked before its parts
  are built, so along the recursion every type is marked at most once; a field with a proxy of its
  own is not marked, but it lies in its parent by value. With \<open>L\<close> above every layout rank, each of
  the reachable types takes at most \<open>L + 2\<close> levels of the call stack.
\<close>

section \<open>What a build refers to\<close>

definition value_fields :: "shape \<Rightarrow> field list" where
  "value_fields shape =
     (case sh_ty shape of
        Ty_User (User_Struct st) \<Rightarrow> st_fields st
      | Ty_User (User_Enum et) \<Rightarrow> concat (map (\<lambda>v. st_fields (v_data v)) (et_variants et))
      | _ \<Rightarrow> [])"

definition proxy_refs :: "field_proxies option \<Rightarrow> sref set" where
  "proxy_refs fp = (case fp of None \<Rightarrow> {}
     | Some p \<Rightarrow> set_option (fpx_generic p) \<union> snd ` set (fpx_format_specific p))"

definition own_proxies :: "shape \<Rightarrow> sref set" where
  "own_proxies shape = set_option (sh_proxy shape) \<union> snd ` set (sh_format_proxies shape)"

definition plan_refs :: "shape \<Rightarrow> sref set" where
  "plan_refs shape = set (child_shapes shape) \<union> own_proxies shape
     \<union> (\<Union>f \<in> set (value_fields shape). insert (f_shape f) (proxy_refs (from_field f)))"

definition closed_under_refs :: "shapes \<Rightarrow> sref set \<Rightarrow> bool" where
  "closed_under_refs S X \<longleftrightarrow> (\<forall>s \<in> X. plan_refs (S s) \<subseteq> X)"

lemma closed_child: "closed_under_refs S X \<Longrightarrow> s \<in> X \<Longrightarrow> t \<in> set (child_shapes (S s)) \<Longrightarrow> t \<in> X"
  and closed_own: "closed_under_refs S X \<Longrightarrow> s \<in> X \<Longrightarrow> t \<in> own_proxies (S s) \<Longrightarrow> t \<in> X"
  and closed_field: "closed_under_refs S X \<Longrightarrow> s \<in> X \<Longrightarrow> f \<in> set (value_fields (S s)) \<Longrightarrow> f_shape f \<in> X"
  and closed_field_proxies:
    "closed_under_refs S X \<Longrightarrow> s \<in> X \<Longrightarrow> f \<in> set (value_fields (S s)) \<Longrightarrow> proxy_refs (from_field f) \<subseteq> X"
  unfolding closed_under_refs_def plan_refs_def by blast+

lemma lays_out_field: "lays_out S lay \<Longrightarrow> f \<in> set (value_fields (S s)) \<Longrightarrow> lay (f_shape f) < lay s"
proof -
  assume lays: "lays_out S lay" and f: "f \<in> set (value_fields (S s))"
  then obtain u where u: "sh_ty (S s) = Ty_User u" by (cases "sh_ty (S s)") (auto simp: value_fields_def)
  with lays f show ?thesis by (cases u) (auto simp: value_fields_def lays_out_def)
qed

section \<open>Nothing but a child overruns\<close>

lemma rfold_no_overrun_inv:
  assumes "P s" and "\<And>x u. x \<in> set xs \<Longrightarrow> P u \<Longrightarrow> f x u \<noteq> Overrun"
    and "\<And>x u v. x \<in> set xs \<Longrightarrow> P u \<Longrightarrow> f x u = Ok v \<Longrightarrow> P v"
  shows "rfold f xs s \<noteq> Overrun"
  using assms
proof (induction xs arbitrary: s)
  case (Cons x xs)
  have "rfold f xs u \<noteq> Overrun" if "f x s = Ok u" for u
  proof (rule Cons.IH)
    show "P u" using Cons.prems(1) Cons.prems(3) [of x s u] that by simp
    show "f y v \<noteq> Overrun" if "y \<in> set xs" "P v" for y v using that Cons.prems(2) by simp
    show "P w" if "y \<in> set xs" "P v" "f y v = Ok w" for y v w using that Cons.prems(3) [of y v w] by simp
  qed
  with Cons.prems show ?case by (auto simp: run_simps)
qed simp

lemma alloc_node_no_overrun [simp]: "alloc_node nd b \<noteq> Overrun"
  by (auto simp: alloc_node_def run_simps)

lemma kind_strategy_no_overrun [simp]: "kind_strategy s shape kind cs \<noteq> Overrun"
  by (cases kind)
    (auto simp: kind_strategy_def run_simps nth_child_def tuple_strategy_def
      split: facet_type.splits user_type.splits)

lemma compute_strategy_no_overrun [simp]: "compute_strategy s shape kind hc hf cs \<noteq> Overrun"
  unfolding compute_strategy_def nth_child_def by (auto simp: run_simps)

abbreviation marks :: "plan_builder \<Rightarrow> type_id set" where
  "marks b \<equiv> set (pb_building b)"

lemma grows_marks: "grows b d \<Longrightarrow> marks d = marks b"
  by (simp add: grows_def)

context node_source
begin

definition safe :: "type_id set \<Rightarrow> sref \<Rightarrow> bool" where
  "safe B t \<longleftrightarrow> (\<forall>b. marks b = B \<longrightarrow> rec t None b \<noteq> Overrun)"

definition field_safe :: "type_id set \<Rightarrow> field \<Rightarrow> bool" where
  "field_safe B f \<longleftrightarrow> (\<forall>b. marks b = B \<longrightarrow> rec (f_shape f) (from_field f) b \<noteq> Overrun)"

lemma generic_ends: "(\<And>t. p = Some t \<Longrightarrow> safe B t) \<Longrightarrow> marks b = B \<Longrightarrow> build_generic_proxy rec p b \<noteq> Overrun"
  by (cases p) (auto simp: build_generic_proxy_def run_simps safe_def)

lemma formats_end:
  assumes "\<And>t. t \<in> snd ` set ps \<Longrightarrow> safe B t" and "marks b = B"
  shows "build_format_proxies rec ps b \<noteq> Overrun"
  unfolding build_format_proxies_def
proof (rule rfold_no_overrun_inv [where P = "\<lambda>u. marks (snd u) = B"])
  show "format_proxy_step rec x u \<noteq> Overrun" if "x \<in> set ps" "marks (snd u) = B" for x u
  proof -
    have "safe B (snd x)" using assms(1) that(1) by blast
    then show ?thesis using that(2) by (cases x; cases u) (auto simp: format_proxy_step_def run_simps safe_def)
  qed
qed (use assms(2) in \<open>auto dest!: format_proxy_step_grows grows_marks\<close>)

lemma proxies_end:
  assumes "\<And>t. t \<in> proxy_refs fp \<Longrightarrow> safe B t" and "fp = None \<Longrightarrow> \<forall>t \<in> own_proxies shape. safe B t"
    and "marks b = B"
  shows "build_all_proxy_nodes rec shape fp b \<noteq> Overrun"
proof -
  have two: "build_generic_proxy rec g b \<noteq> Overrun"
    "\<And>x d. build_generic_proxy rec g b = Ok (x, d) \<Longrightarrow> build_format_proxies rec fs d \<noteq> Overrun"
    if "\<forall>t \<in> set_option g \<union> snd ` set fs. safe B t" for g fs
  proof -
    show "build_generic_proxy rec g b \<noteq> Overrun" using that assms(3) generic_ends [of g B b] by simp
    show "build_format_proxies rec fs d \<noteq> Overrun" if "build_generic_proxy rec g b = Ok (x, d)" for x d
      using \<open>\<forall>t \<in> _. safe B t\<close> formats_end [of fs B d] grows_marks [OF generic_grows [OF that]] assms(3) by simp
  qed
  show ?thesis
  proof (cases fp)
    case None
    with two [of "sh_proxy shape" "sh_format_proxies shape"] assms(2)
    show ?thesis by (auto simp: build_all_proxy_nodes_def run_simps own_proxies_def Let_def)
  next
    case (Some p)
    with two [of "fpx_generic p" "fpx_format_specific p"] assms(1)
    show ?thesis by (auto simp: build_all_proxy_nodes_def run_simps proxy_refs_def Let_def)
  qed
qed

lemma fields_end:
  assumes "\<And>f. f \<in> set fs \<Longrightarrow> field_safe B f" and "marks b = B"
  shows "plan_fields S rec k fs b \<noteq> Overrun"
  unfolding plan_fields_def
proof (rule rfold_no_overrun_inv [where P = "\<lambda>u. marks (snd u) = B"])
  show "plan_field S rec k x u \<noteq> Overrun" if "x \<in> set (enumerate 0 fs)" "marks (snd u) = B" for x u
  proof -
    have "snd x \<in> set fs" 
      using that(1) set_zip_rightD [of "fst x" "snd x" "[0..<length fs]" fs] by (simp add: enumerate_eq_zip)
    then have "field_safe B (snd x)" by (rule assms(1))
    then show ?thesis using that(2)
      by (cases x; cases u) (auto simp: plan_field_def run_simps field_safe_def)
  qed
qed (use assms(2) in \<open>auto dest!: plan_field_grows grows_marks\<close>)

lemma struct_ends:
  assumes "\<And>f. f \<in> set (st_fields st) \<Longrightarrow> field_safe B f" and "marks b = B"
  shows "build_struct_plan S rec shape st b \<noteq> Overrun"
  using fields_end [OF assms] by (auto simp: build_struct_plan_def run_simps Let_def split: prod.splits)

lemma enum_ends:
  assumes "\<And>v f. v \<in> set (et_variants et) \<Longrightarrow> f \<in> set (st_fields (v_data v)) \<Longrightarrow> field_safe B f"
    and "marks b = B"
  shows "build_enum_plan S rec et b \<noteq> Overrun"
proof -
  have "rfold (plan_variant S rec) (et_variants et) ([], b) \<noteq> Overrun"
  proof (rule rfold_no_overrun_inv [where P = "\<lambda>u. marks (snd u) = B"])
    show "plan_variant S rec v u \<noteq> Overrun" if "v \<in> set (et_variants et)" "marks (snd u) = B" for v u
      using fields_end [of "st_fields (v_data v)" B "snd u" False] assms(1) that
      by (cases u) (auto simp: plan_variant_def run_simps Let_def split: prod.splits)
  qed (use assms(2) in \<open>auto dest!: plan_variant_grows grows_marks\<close>)
  then show ?thesis by (auto simp: build_enum_plan_def run_simps Let_def split: prod.splits)
qed

lemma child_ends: "safe B t \<Longrightarrow> marks b = B \<Longrightarrow> with_child rec t k b \<noteq> Overrun"
  by (auto simp: with_child_def run_simps safe_def)

lemma children_end: "safe B t \<Longrightarrow> safe B u \<Longrightarrow> marks b = B \<Longrightarrow> with_children rec t u k b \<noteq> Overrun"
  by (auto simp: with_children_def run_simps safe_def dest!: rec_grows grows_marks)

lemma kind_ends:
  assumes "\<And>t. t \<in> set (child_shapes shape) \<Longrightarrow> safe B t"
    and "\<And>f. f \<in> set (value_fields shape) \<Longrightarrow> field_safe B f" and "marks b = B"
  shows "build_kind S rec s shape b \<noteq> Overrun"
proof -
  have st: "build_struct_plan S rec shape st b \<noteq> Overrun" if "sh_ty shape = Ty_User (User_Struct st)" for st
    using struct_ends [of st B b shape] assms(2,3) that by (simp add: value_fields_def)
  have en: "build_enum_plan S rec et b \<noteq> Overrun" if "sh_ty shape = Ty_User (User_Enum et)" for et
  proof (rule enum_ends)
    show "field_safe B f" if "v \<in> set (et_variants et)" "f \<in> set (st_fields (v_data v))" for v f
      using assms(2) that \<open>sh_ty shape = _\<close> by (auto simp: value_fields_def)
  qed (rule assms(3))
  have one: "with_child rec t k b \<noteq> Overrun" if "t \<in> set (child_shapes shape)" for t k
    using child_ends [OF assms(1) [OF that] assms(3)] .
  have two: "with_children rec t u k b \<noteq> Overrun" if "t \<in> set (child_shapes shape)" "u \<in> set (child_shapes shape)"
    for t u k
    using children_end [OF assms(1) [OF that(1)] assms(1) [OF that(2)] assms(3)] .
  have ty: "build_kind_from_ty S rec s shape b \<noteq> Overrun" if "child_shapes shape = ty_child_shapes shape"
    using st en one unfolding that
    by (auto simp: build_kind_from_ty_def Let_def run_simps ty_child_shapes_def
        split: facet_type.splits user_type.splits sequence_type.splits option.splits)
  show ?thesis
  proof (cases "child_shapes shape = ty_child_shapes shape \<and> build_kind S rec s shape b = build_kind_from_ty S rec s shape b")
    case True
    with ty show ?thesis by simp
  next
    case False
    with one two show ?thesis
      by (cases "sh_def shape") (auto simp: build_kind_def child_shapes_def split: option.splits)
  qed
qed

lemma new_node_ends:
  assumes "\<And>t. t \<in> set (child_shapes (S s)) \<Longrightarrow> safe (marks b) t"
    and "\<And>f. f \<in> set (value_fields (S s)) \<Longrightarrow> field_safe (marks b) f"
    and "\<And>t. t \<in> proxy_refs fp \<Longrightarrow> safe (marks b) t"
    and "fp = None \<Longrightarrow> \<forall>t \<in> own_proxies (S s). safe (marks b) t"
  shows "build_new_node S rec s fp b \<noteq> Overrun"
proof -
  have "build_kind S rec s (S s) d \<noteq> Overrun" if "build_all_proxy_nodes rec (S s) fp b = Ok (x, d)" for x d
    using kind_ends [OF assms(1,2)] grows_marks [OF proxies_grow [OF that]] by simp
  with proxies_end [OF assms(3,4) refl] show ?thesis
    by (auto simp: build_new_node_def Let_def run_simps)
qed

end

section \<open>The bound\<close>

definition unmarked :: "shapes \<Rightarrow> sref set \<Rightarrow> plan_builder \<Rightarrow> nat" where
  "unmarked S X b = card ((\<lambda>s. sh_id (S s)) ` X - marks b)"

lemma unmarked_mark:
  assumes "finite X" and "s \<in> X" and "sh_id (S s) \<notin> marks b"
  shows "Suc (unmarked S X (b\<lparr>pb_building := sh_id (S s) # pb_building b\<rparr>)) = unmarked S X b"
proof -
  let ?A = "(\<lambda>s. sh_id (S s)) ` X - marks b"
  have "(\<lambda>s. sh_id (S s)) ` X - marks (b\<lparr>pb_building := sh_id (S s) # pb_building b\<rparr>) = ?A - {sh_id (S s)}" by auto
  moreover have "sh_id (S s) \<in> ?A" "finite ?A" using assms by auto
  ultimately show ?thesis by (simp only: unmarked_def card_Suc_Diff1)
qed

lemma build_node_ends:
  assumes "finite X" and closed: "closed_under_refs S X" and lays: "lays_out S lay" and L: "\<And>s. s \<in> X \<Longrightarrow> lay s \<le> L"
  shows "s \<in> X \<Longrightarrow> unmarked S X b * (L + 2) < n \<Longrightarrow> build_node_with_proxy S n s None b \<noteq> Overrun"
    and "s \<in> X \<Longrightarrow> proxy_refs (Some p) \<subseteq> X \<Longrightarrow> unmarked S X b * (L + 2) + 1 + lay s < n
      \<Longrightarrow> build_node_with_proxy S n s (Some p) b \<noteq> Overrun"
proof (induction n arbitrary: s p b)
  case (Suc n)
  let ?rec = "build_node_with_proxy S n"
  have safe: "node_source.safe ?rec (marks b) t" if "t \<in> X" "unmarked S X b * (L + 2) < n" for t b
    using that Suc.IH(1) by (auto simp: nodes.safe_def unmarked_def)
  have fields: "node_source.field_safe ?rec (marks b) f"
    if "s \<in> X" "f \<in> set (value_fields (S s))" "unmarked S X b * (L + 2) + 1 + lay (f_shape f) < n" for s f b
  proof (cases "from_field f")
    case None
    with that closed_field [OF closed that(1,2)] Suc.IH(1) show ?thesis by (auto simp: nodes.field_safe_def unmarked_def)
  next
    case (Some q)
    have "f_shape f \<in> X" "proxy_refs (Some q) \<subseteq> X"
      using closed_field [OF closed that(1,2)] closed_field_proxies [OF closed that(1,2)] Some by auto
    with Suc.IH(2) [of "f_shape f" q] that(3) Some show ?thesis by (auto simp: nodes.field_safe_def unmarked_def)
  qed
  {
    case 1
    let ?b = "b\<lparr>pb_building := sh_id (S s) # pb_building b\<rparr>"
    show ?case
    proof (cases "btm_get (pb_finished b) (sh_id (S s)) = None \<and> sh_id (S s) \<notin> marks b")
      case False
      then show ?thesis by (auto simp: build_node_step_def Let_def split: option.splits)
    next
      case True
      have less: "unmarked S X ?b * (L + 2) + L + 1 < n"
      proof -
        have "unmarked S X b = Suc (unmarked S X ?b)"
          using unmarked_mark [OF assms(1) 1(1), of S b] True by simp
        then have "unmarked S X b * (L + 2) = unmarked S X ?b * (L + 2) + (L + 2)"
          by (simp only: mult_Suc add.commute)
        with 1(2) show ?thesis by linarith
      qed
      have "build_new_node S ?rec s None ?b \<noteq> Overrun"
      proof (rule nodes.new_node_ends)
        fix f
        assume f: "f \<in> set (value_fields (S s))"
        have "lay (f_shape f) \<le> L" using L closed_field [OF closed 1(1) f] by blast
        with less show "node_source.field_safe ?rec (marks ?b) f" by (intro fields [OF 1(1) f]) simp
      next
        have now: "node_source.safe ?rec (marks ?b) t" if "t \<in> X" for t
          by (rule safe [OF that]) (use less in linarith)
        show "node_source.safe ?rec (marks ?b) t" if "t \<in> set (child_shapes (S s))" for t
          by (rule now [OF closed_child [OF closed 1(1) that]])
        show "\<forall>t \<in> own_proxies (S s). node_source.safe ?rec (marks ?b) t"
          using now closed_own [OF closed 1(1)] by blast
        show "node_source.safe ?rec (marks ?b) t" if "t \<in> proxy_refs None" for t
          using that by (simp add: proxy_refs_def)
      qed
      with True show ?thesis by (auto simp: build_node_step_def Let_def run_simps)
    qed
  next
    case 2
    have "build_new_node S ?rec s (Some p) b \<noteq> Overrun"
    proof (rule nodes.new_node_ends)
      fix f
      assume f: "f \<in> set (value_fields (S s))"
      from lays_out_field [OF lays f] 2(3) show "node_source.field_safe ?rec (marks b) f"
        by (intro fields [OF 2(1) f]) simp
    qed (use 2 closed_child [OF closed 2(1)] in \<open>auto intro!: safe\<close>)
    then show ?case by (simp add: build_node_step_def)
  }
qed simp_all

lemma build_uncached_ends:
  assumes "finite X" and "closed_under_refs S X" and "lays_out S lay" and "\<And>s. s \<in> X \<Longrightarrow> lay s \<le> L"
    and "s \<in> X" and "card ((\<lambda>s. sh_id (S s)) ` X) * (L + 2) < n"
  shows "build_uncached S n s \<noteq> Overrun"
  using build_node_ends(1) [OF assms(1-5), of plan_builder_new n] assms(6)
  by (auto simp: build_uncached_def build_node_def run_simps unmarked_def plan_builder_new_def)

end
