(* ===== verification/Plan_Samples.thy ===== *)
theory Plan_Samples
  imports Samples Plan_Fuel
begin

text \<open>
  Concrete type plans: the plan of a recursive struct, a table of ten field names that share
  prefixes, an enum with more names than the linear table holds, and a struct with a validated
  collection.
\<close>

section \<open>The plan of a recursive struct\<close>

definition list_plan :: plan_core where
  "list_plan = (case build_uncached list_S 10 0 of Ok c \<Rightarrow> c | _ \<Rightarrow> plan_empty)"

lemma list_plan_build: "build_uncached list_S 10 0 = Ok list_plan"
  by code_simp

lemma list_plan_fits: "core_fits list_plan"
  by code_simp

lemma list_plan_nodes: "map nd_shape (pc_nodes list_plan) = [0, 2, 1, 0]"
  and list_plan_kinds: "map is_backref (pc_nodes list_plan) = [True, False, False, False]"
  by code_simp+

lemma list_plan_at: "\<exists>nd. node_at list_plan 0 = Some nd \<and> is_backref nd \<and> nd_shape nd = 0"
  and list_plan_option: "\<exists>nd. node_at list_plan 2 = Some nd \<and> nd_shape nd = 1"
  and list_plan_root: "\<exists>nd. node_at list_plan 3 = Some nd \<and> is_shared nd \<and> nd_shape nd = 0"
proof -
  have "node_at list_plan i = Some (pc_nodes list_plan ! unat i)" if "unat i < 4" for i
  proof -
    have "length (pc_nodes list_plan) = 4" using arg_cong [OF list_plan_nodes, of length] by simp
    with that show ?thesis by (simp add: node_at_def arena_get_def)
  qed
  note at = this
  have len: "length (pc_nodes list_plan) = 4" using arg_cong [OF list_plan_nodes, of length] by simp
  have shared: "is_shared (pc_nodes list_plan ! 3)" by code_simp
  show "\<exists>nd. node_at list_plan 0 = Some nd \<and> is_backref nd \<and> nd_shape nd = 0"
    using at [of 0] nth_of_map [OF list_plan_nodes, of 0] nth_of_map [OF list_plan_kinds, of 0] len by simp
  show "\<exists>nd. node_at list_plan 2 = Some nd \<and> nd_shape nd = 1"
    using at [of 2] nth_of_map [OF list_plan_nodes, of 2] len by simp
  show "\<exists>nd. node_at list_plan 3 = Some nd \<and> is_shared nd \<and> nd_shape nd = 0"
    using at [of 3] nth_of_map [OF list_plan_nodes, of 3] len shared by simp
qed

lemma list_lays_out: "lays_out list_S (\<lambda>r. if r = 0 then 1 else 0)"
  by (auto simp: lays_out_def list_S_def struct_shape_def rust_struct_def opaque_shape_def split: if_splits)

lemma list_closed: "closed_under_refs list_S {0, 1, 2}"
  by (simp add: closed_under_refs_def plan_refs_def child_shapes_def ty_child_shapes_def own_proxies_def
      value_fields_def proxy_refs_def from_field_def list_S_def struct_shape_def rust_struct_def
      opaque_shape_def plain_field_def)

section \<open>Many names\<close>

definition many_entries :: "field_lookup_entry list" where
  "many_entries = map (\<lambda>(i, n). \<lparr>fe_name = n, fe_index = i, fe_is_alias = False\<rparr>)
     (enumerate 0 [''id'', ''name'', ''names'', ''name_of'', ''kind'', ''kinds'', ''a'', ''b'', ''c'', ''name''])"

lemma many_entries_len: "length many_entries = 10"
  by code_simp

definition many_variants :: "variant_meta list" where
  "many_variants =
     map (\<lambda>n. \<lparr>vm_variant = \<lparr>v_name = n, v_rename = None, v_discriminant = None,
            v_attributes = [\<lparr>attr_ns = None, attr_key = ''alias'', attr_data = Data_Str ''first''\<rparr>,
                            \<lparr>attr_ns = None, attr_key = ''alias'', attr_data = Data_Str (n @ ''s'')\<rparr>],
            v_data = rust_struct []\<rparr>,
          vm_name = n, vm_fields = range_empty, vm_field_lookup = Lookup_Small [], vm_has_flatten = False\<rparr>)
       [''a'', ''b'', ''c'', ''as'', ''e'']"

section \<open>A collection with a length validator\<close>

definition tags_S :: shapes where
  "tags_S r =
     (if r = 0 then scalar_shape ST_String ''String''
      else if r = 1 then opaque_shape\<lparr>sh_id := Tid_Other 41, sh_def := Def_List 0\<rparr>
      else struct_shape 42 ''Post'' [(plain_field 1 ''tags'' 1)\<lparr>f_attributes :=
        [\<lparr>attr_ns = Some ''validate'', attr_key = ''min_length'', attr_data = Data_Usize 1\<rparr>]\<rparr>])"

end
