(* ===== verification/Rename.thy ===== *)
theory Rename
  imports Prelude
begin

text \<open>
  The rename rules of the derive macros (facet-macro-types, src/renamerule.rs). A name is the list
  of its characters, as code points. The case and white-space tables of the standard library
  are the argument \<open>T\<close>: the theorems need no more of them than that they are the usual
  ones on ASCII, and \<open>ascii_tables\<close> is such a table. \<open>None\<close> is the failed \<open>unwrap\<close> on a
  character without a lower-case form.
\<close>

section \<open>Characters\<close>

type_synonym rchar = nat
type_synonym rname = "rchar list"

definition codes :: "string \<Rightarrow> rname" where
  "codes s = map of_char s"

record char_tables =
  ct_is_upper :: "rchar \<Rightarrow> bool"
  ct_is_lower :: "rchar \<Rightarrow> bool"
  ct_is_space :: "rchar \<Rightarrow> bool"
  ct_to_upper :: "rchar \<Rightarrow> rname"
  ct_to_lower :: "rchar \<Rightarrow> rname"
  ct_str_upper :: "rname \<Rightarrow> rname"
  ct_str_lower :: "rname \<Rightarrow> rname"

definition upper_letter :: "rchar \<Rightarrow> bool" where "upper_letter c \<longleftrightarrow> 65 \<le> c \<and> c \<le> 90"
definition lower_letter :: "rchar \<Rightarrow> bool" where "lower_letter c \<longleftrightarrow> 97 \<le> c \<and> c \<le> 122"
definition ascii_digit :: "rchar \<Rightarrow> bool" where "ascii_digit c \<longleftrightarrow> 48 \<le> c \<and> c \<le> 57"
definition raise_letter :: "rchar \<Rightarrow> rchar" where "raise_letter c = (if lower_letter c then c - 32 else c)"
definition sink_letter :: "rchar \<Rightarrow> rchar" where "sink_letter c = (if upper_letter c then c + 32 else c)"

definition ascii_tables :: char_tables where
  "ascii_tables =
     \<lparr>ct_is_upper = upper_letter, ct_is_lower = lower_letter,
      ct_is_space = (\<lambda>c. c = 32 \<or> 9 \<le> c \<and> c \<le> 13),
      ct_to_upper = (\<lambda>c. [raise_letter c]), ct_to_lower = (\<lambda>c. [sink_letter c]),
      ct_str_upper = map raise_letter, ct_str_lower = map sink_letter\<rparr>"

text \<open>What the documentation of the standard library says of ASCII characters.\<close>

definition usual_on_ascii :: "char_tables \<Rightarrow> bool" where
  "usual_on_ascii T \<longleftrightarrow>
     (\<forall>c < 128. (ct_is_upper T c \<longleftrightarrow> upper_letter c) \<and> (ct_is_lower T c \<longleftrightarrow> lower_letter c)
        \<and> (ct_is_space T c \<longleftrightarrow> c = 32 \<or> 9 \<le> c \<and> c \<le> 13)
        \<and> ct_to_upper T c = [raise_letter c] \<and> ct_to_lower T c = [sink_letter c])
     \<and> (\<forall>s. (\<forall>c \<in> set s. c < 128) \<longrightarrow>
          ct_str_upper T s = map raise_letter s \<and> ct_str_lower T s = map sink_letter s)"

lemma ascii_tables_usual: "usual_on_ascii ascii_tables"
  by (simp add: usual_on_ascii_def ascii_tables_def)

section \<open>Words\<close>

definition separator :: "char_tables \<Rightarrow> rchar \<Rightarrow> bool" where
  "separator T c \<longleftrightarrow> c = of_char (CHR ''_'') \<or> c = of_char (CHR ''-'') \<or> ct_is_space T c"

definition flush :: "rname \<Rightarrow> rname list \<Rightarrow> rname list" where
  "flush current_word words = (if current_word = [] then words else words @ [current_word])"

definition new_word :: "char_tables \<Rightarrow> rname \<Rightarrow> rchar option \<Rightarrow> bool" where
  "new_word T current_word following \<longleftrightarrow> current_word \<noteq> [] \<and>
     (let prev = last current_word
      in ct_is_lower T prev \<or> ascii_digit prev
         \<or> ct_is_upper T prev \<and> (case following of Some n \<Rightarrow> ct_is_lower T n | None \<Rightarrow> False))"

fun split_loop :: "char_tables \<Rightarrow> rname \<Rightarrow> rname \<Rightarrow> rname list \<Rightarrow> rname list" where
  "split_loop T [] current_word words = flush current_word words"
| "split_loop T (c # cs) current_word words =
     (if separator T c then split_loop T cs [] (flush current_word words)
      else if ct_is_upper T c
      then (if new_word T current_word (case cs of [] \<Rightarrow> None | n # _ \<Rightarrow> Some n)
            then split_loop T cs [c] (words @ [current_word])
            else split_loop T cs (current_word @ [c]) words)
      else split_loop T cs (current_word @ [c]) words)"

definition split_into_words :: "char_tables \<Rightarrow> rname \<Rightarrow> rname list" where
  "split_into_words T input =
     (if input = [] then [] else filter (\<lambda>w. w \<noteq> []) (split_loop T input [] []))"

section \<open>Rules\<close>

datatype rename_rule =
  PascalCase | CamelCase | SnakeCase | ScreamingSnakeCase | KebabCase | ScreamingKebabCase
| Lowercase | Uppercase

definition rule_parse :: "string \<Rightarrow> rename_rule option" where
  "rule_parse rule =
     (if rule = ''PascalCase'' then Some PascalCase
      else if rule = ''camelCase'' then Some CamelCase
      else if rule = ''snake_case'' then Some SnakeCase
      else if rule = ''SCREAMING_SNAKE_CASE'' then Some ScreamingSnakeCase
      else if rule = ''kebab-case'' then Some KebabCase
      else if rule = ''SCREAMING-KEBAB-CASE'' then Some ScreamingKebabCase
      else if rule = ''lowercase'' then Some Lowercase
      else if rule = ''UPPERCASE'' then Some Uppercase
      else None)"

fun join :: "rname \<Rightarrow> rname list \<Rightarrow> rname" where
  "join sep [] = []"
| "join sep [w] = w"
| "join sep (w # v # ws) = w @ sep @ join sep (v # ws)"

definition capitalise :: "char_tables \<Rightarrow> rname \<Rightarrow> rname" where
  "capitalise T word = (case word of [] \<Rightarrow> [] | c # chars \<Rightarrow> ct_to_upper T c @ ct_str_lower T chars)"

definition to_pascal_case :: "char_tables \<Rightarrow> rname \<Rightarrow> rname" where
  "to_pascal_case T input = concat (map (capitalise T) (split_into_words T input))"

definition to_camel_case :: "char_tables \<Rightarrow> rname \<Rightarrow> rname option" where
  "to_camel_case T input =
     (case to_pascal_case T input of
        [] \<Rightarrow> Some []
      | first_char # chars \<Rightarrow>
          (case ct_to_lower T first_char of [] \<Rightarrow> None | l # _ \<Rightarrow> Some (l # chars)))"

definition to_snake_case :: "char_tables \<Rightarrow> rname \<Rightarrow> rname" where
  "to_snake_case T input = join (codes ''_'') (map (ct_str_lower T) (split_into_words T input))"

definition to_screaming_snake_case :: "char_tables \<Rightarrow> rname \<Rightarrow> rname" where
  "to_screaming_snake_case T input = join (codes ''_'') (map (ct_str_upper T) (split_into_words T input))"

definition to_kebab_case :: "char_tables \<Rightarrow> rname \<Rightarrow> rname" where
  "to_kebab_case T input = join (codes ''-'') (map (ct_str_lower T) (split_into_words T input))"

definition to_screaming_kebab_case :: "char_tables \<Rightarrow> rname \<Rightarrow> rname" where
  "to_screaming_kebab_case T input = join (codes ''-'') (map (ct_str_upper T) (split_into_words T input))"

definition to_lowercase :: "char_tables \<Rightarrow> rname \<Rightarrow> rname" where
  "to_lowercase T input = join [] (map (ct_str_lower T) (split_into_words T input))"

definition to_uppercase :: "char_tables \<Rightarrow> rname \<Rightarrow> rname" where
  "to_uppercase T input = join [] (map (ct_str_upper T) (split_into_words T input))"

fun apply_rule :: "char_tables \<Rightarrow> rename_rule \<Rightarrow> rname \<Rightarrow> rname option" where
  "apply_rule T PascalCase input = Some (to_pascal_case T input)"
| "apply_rule T CamelCase input = to_camel_case T input"
| "apply_rule T SnakeCase input = Some (to_snake_case T input)"
| "apply_rule T ScreamingSnakeCase input = Some (to_screaming_snake_case T input)"
| "apply_rule T KebabCase input = Some (to_kebab_case T input)"
| "apply_rule T ScreamingKebabCase input = Some (to_screaming_kebab_case T input)"
| "apply_rule T Lowercase input = Some (to_lowercase T input)"
| "apply_rule T Uppercase input = Some (to_uppercase T input)"

section \<open>The words of a name\<close>

lemma flush_words:
  "concat (flush w ws) = concat ws @ w" "[] \<notin> set ws \<Longrightarrow> [] \<notin> set (flush w ws)"
  by (auto simp: flush_def)

lemma split_loop_words:
  assumes "[] \<notin> set ws" and "\<forall>c \<in> set (concat ws @ w). \<not> separator T c"
  shows "[] \<notin> set (split_loop T cs w ws)
    \<and> concat (split_loop T cs w ws) = concat ws @ w @ filter (\<lambda>c. \<not> separator T c) cs"
  using assms
proof (induction T cs w ws rule: split_loop.induct)
  case (1 T w ws)
  then show ?case by (simp add: flush_words)
next
  case (2 T c cs w ws)
  consider "separator T c"
    | "\<not> separator T c" "ct_is_upper T c" "new_word T w (case cs of [] \<Rightarrow> None | n # _ \<Rightarrow> Some n)"
    | "\<not> separator T c" "\<not> (ct_is_upper T c \<and> new_word T w (case cs of [] \<Rightarrow> None | n # _ \<Rightarrow> Some n))"
    by blast
  then show ?case
  proof cases
    case 1
    with "2.IH"(1) "2.prems" show ?thesis by (simp add: flush_words)
  next
    case 2
    then have "w \<noteq> []" by (simp add: new_word_def)
    with 2 "2.IH"(2) "2.prems" show ?thesis by auto
  next
    case 3
    with "2.IH"(3,4) "2.prems" show ?thesis by auto
  qed
qed

text \<open>The words of a name are not empty, hold no separator, and hold every other character, in order.\<close>

lemma split_into_words_partition:
  "[] \<notin> set (split_into_words T input)
   \<and> concat (split_into_words T input) = filter (\<lambda>c. \<not> separator T c) input"
proof (cases "input = []")
  case False
  note words = split_loop_words [of "[]" "[]" T input]
  have "filter (\<lambda>w. w \<noteq> []) (split_loop T input [] []) = split_loop T input [] []"
    using words by (auto simp: filter_id_conv)
  with False words show ?thesis by (simp add: split_into_words_def)
qed (simp add: split_into_words_def)

section \<open>Round trips\<close>

text \<open>A word of a snake-case name: a lower-case letter, then lower-case letters and digits, at
  least one (two words of a single letter run together in Pascal case).\<close>

definition snake_word :: "rname \<Rightarrow> bool" where
  "snake_word w \<longleftrightarrow> (\<exists>l rest. w = l # rest \<and> lower_letter l \<and> rest \<noteq> []
     \<and> (\<forall>c \<in> set rest. lower_letter c \<or> ascii_digit c))"

definition plain_char :: "rchar \<Rightarrow> bool" where
  "plain_char c \<longleftrightarrow> lower_letter c \<or> ascii_digit c"

lemma ascii_classes:
  "lower_letter c \<Longrightarrow> c < 128 \<and> \<not> upper_letter c \<and> \<not> ascii_digit c \<and> sink_letter c = c
     \<and> upper_letter (raise_letter c) \<and> raise_letter c < 128 \<and> sink_letter (raise_letter c) = c
     \<and> \<not> lower_letter (raise_letter c) \<and> raise_letter c \<noteq> 95 \<and> raise_letter c \<noteq> 45 \<and> raise_letter c \<noteq> 32 \<and> 13 < raise_letter c"
  "ascii_digit c \<Longrightarrow> c < 128 \<and> \<not> upper_letter c \<and> sink_letter c = c"
  "plain_char c \<Longrightarrow> c < 128 \<and> \<not> upper_letter c \<and> sink_letter c = c \<and> c \<noteq> 95 \<and> c \<noteq> 45 \<and> c \<noteq> 32 \<and> 13 < c"
  by (auto simp: plain_char_def lower_letter_def upper_letter_def ascii_digit_def sink_letter_def raise_letter_def)

lemma codes_separators: "of_char (CHR ''_'') = (95 :: nat)" "of_char (CHR ''-'') = (45 :: nat)"
  by simp_all

lemma tables_plain:
  assumes "usual_on_ascii T" and "plain_char c"
  shows "\<not> separator T c" and "\<not> ct_is_upper T c" and "ct_is_lower T c \<or> ascii_digit c"
proof -
  note c = ascii_classes(3) [OF assms(2)]
  then have "(ct_is_upper T c \<longleftrightarrow> upper_letter c) \<and> (ct_is_lower T c \<longleftrightarrow> lower_letter c)
      \<and> (ct_is_space T c \<longleftrightarrow> c = 32 \<or> 9 \<le> c \<and> c \<le> 13)"
    using assms(1) unfolding usual_on_ascii_def by blast
  with c assms(2) show "\<not> separator T c" "\<not> ct_is_upper T c" "ct_is_lower T c \<or> ascii_digit c"
    by (auto simp: separator_def codes_separators plain_char_def)
qed

lemma tables_raised:
  assumes "usual_on_ascii T" and "lower_letter l"
  shows "\<not> separator T (raise_letter l)" and "ct_is_upper T (raise_letter l)"
    and "ct_to_upper T l = [raise_letter l]" and "ct_to_lower T (raise_letter l) = [l]"
proof -
  note c = ascii_classes(1) [OF assms(2)]
  have "\<forall>c < 128. (ct_is_upper T c \<longleftrightarrow> upper_letter c) \<and> (ct_is_space T c \<longleftrightarrow> c = 32 \<or> 9 \<le> c \<and> c \<le> 13)
      \<and> ct_to_upper T c = [raise_letter c] \<and> ct_to_lower T c = [sink_letter c]"
    using assms(1) unfolding usual_on_ascii_def by blast
  with c show "\<not> separator T (raise_letter l)" "ct_is_upper T (raise_letter l)"
    "ct_to_upper T l = [raise_letter l]" "ct_to_lower T (raise_letter l) = [l]"
    by (auto simp: separator_def codes_separators)
qed

lemma tables_lower:
  assumes "usual_on_ascii T" and "\<forall>c \<in> set w. plain_char c"
  shows "ct_str_lower T w = w"
proof -
  have "map sink_letter w = w" using assms(2) ascii_classes(3) by (intro map_idI) blast
  moreover have "\<forall>c \<in> set w. c < 128" using assms(2) ascii_classes(3) by blast
  ultimately show ?thesis using assms(1) by (simp add: usual_on_ascii_def)
qed

lemma split_plain:
  assumes "usual_on_ascii T" and "\<forall>c \<in> set w. plain_char c"
  shows "split_loop T (w @ cs) cur ws = split_loop T cs (cur @ w) ws"
  using assms(2)
proof (induction w arbitrary: cur)
  case (Cons c w)
  with tables_plain [OF assms(1), of c] show ?case by simp
qed simp

lemma snake_word_plain: "snake_word w \<Longrightarrow> \<forall>c \<in> set w. plain_char c"
  by (auto simp: snake_word_def plain_char_def)

lemma snake_word_ne: "snake_word w \<Longrightarrow> w \<noteq> []"
  by (auto simp: snake_word_def)

text \<open>Words joined with a separator are found again.\<close>

lemma split_joined:
  assumes "usual_on_ascii T" and "separator T c" and "\<forall>w \<in> set vs. snake_word w"
  shows "split_loop T (join [c] vs) [] ws = ws @ vs"
  using assms(3)
proof (induction "[c]" vs arbitrary: ws rule: join.induct)
  case (2 w)
  then have w: "\<forall>c \<in> set w. plain_char c" "w \<noteq> []" using snake_word_plain snake_word_ne by auto
  with split_plain [OF assms(1) w(1), of "[]"] show ?case by (simp add: flush_def)
next
  case (3 w v vs)
  then have w: "\<forall>c \<in> set w. plain_char c" "w \<noteq> []" using snake_word_plain snake_word_ne by auto
  have "split_loop T (join [c] (w # v # vs)) [] ws = split_loop T (c # join [c] (v # vs)) w ws"
    using split_plain [OF assms(1) w(1), of "c # join [c] (v # vs)"] by (simp del: split_loop.simps)
  also have "\<dots> = split_loop T (join [c] (v # vs)) [] (ws @ [w])" using assms(2) w(2) by (simp add: flush_def)
  also have "\<dots> = ws @ [w] @ v # vs" using 3 by simp
  finally show ?case by simp
qed (simp add: flush_def)

text \<open>Capitalised words are found again, after a word that ends in a lower-case letter or digit.\<close>

definition raise_word :: "rname \<Rightarrow> rname" where
  "raise_word w = raise_letter (hd w) # tl w"

lemma split_raised:
  assumes T: "usual_on_ascii T" and "\<forall>w \<in> set vs. snake_word w"
    and "cur = [] \<or> ct_is_lower T (last cur) \<or> ascii_digit (last cur)"
  shows "split_loop T (concat (map raise_word vs)) cur ws = flush cur ws @ map raise_word vs"
  using assms(2,3)
proof (induction vs arbitrary: cur ws)
  case (Cons w vs)
  obtain l rest where w: "w = l # rest" "lower_letter l" "rest \<noteq> []" "\<forall>c \<in> set rest. plain_char c"
    using Cons.prems(1) by (auto simp: snake_word_def plain_char_def)
  note l = tables_raised [OF T w(2)]
  let ?cs = "concat (map raise_word vs)"
  have start: "split_loop T (raise_letter l # rest @ ?cs) cur ws = split_loop T (rest @ ?cs) [raise_letter l] (flush cur ws)"
    using l Cons.prems(2) by (auto simp: flush_def new_word_def Let_def)
  have "last (raise_letter l # rest) \<in> set rest" using w(3) by simp
  then have "ct_is_lower T (last (raise_letter l # rest)) \<or> ascii_digit (last (raise_letter l # rest))"
    using tables_plain(3) [OF T] w(4) by blast
  then have "split_loop T ?cs (raise_letter l # rest) (flush cur ws)
      = flush (raise_letter l # rest) (flush cur ws) @ map raise_word vs"
    using Cons.IH [of "raise_letter l # rest" "flush cur ws"] Cons.prems(1) by simp
  moreover have whole: "concat (map raise_word (w # vs)) = raise_letter l # rest @ ?cs" and r: "raise_word w = raise_letter l # rest"
    by (simp_all add: raise_word_def w(1))
  ultimately show ?case
    unfolding whole start using split_plain [OF T w(4), of ?cs "[raise_letter l]" "flush cur ws"]
    by (simp add: r flush_def del: split_loop.simps)
qed simp

lemma capitalise_snake:
  assumes T: "usual_on_ascii T" and "snake_word w"
  shows "capitalise T w = raise_word w" and "ct_str_lower T (raise_word w) = w"
proof -
  obtain l rest where w: "w = l # rest" "lower_letter l" "\<forall>c \<in> set rest. plain_char c"
    using assms(2) by (auto simp: snake_word_def plain_char_def)
  show "capitalise T w = raise_word w"
    using tables_raised(3) [OF T w(2)] tables_lower [OF T w(3)] by (simp add: capitalise_def raise_word_def w(1))
  have "\<forall>c \<in> set (raise_letter l # rest). c < 128" using ascii_classes(1) [OF w(2)] ascii_classes(3) w(3) by auto
  moreover have "map sink_letter rest = rest" using w(3) ascii_classes(3) by (intro map_idI) blast
  ultimately show "ct_str_lower T (raise_word w) = w"
    using T ascii_classes(1) [OF w(2)] by (simp add: usual_on_ascii_def raise_word_def w(1))
qed

definition snake_name :: "rname list \<Rightarrow> rname" where
  "snake_name ws = join (codes ''_'') ws"

lemma join_Nil_iff: "\<forall>w \<in> set ws. w \<noteq> [] \<Longrightarrow> join sep ws = [] \<longleftrightarrow> ws = []"
  by (cases "(sep, ws)" rule: join.cases) auto

lemma words_of_joined:
  assumes "usual_on_ascii T" and "\<forall>w \<in> set ws. snake_word w" and "separator T c"
  shows "split_into_words T (join [c] ws) = ws"
proof -
  have ne: "\<forall>w \<in> set ws. w \<noteq> []" using assms(2) snake_word_ne by blast
  then have "filter (\<lambda>w. w \<noteq> []) ws = ws" by (simp add: filter_id_conv)
  with split_joined [OF assms(1,3,2), of "[]"] join_Nil_iff [OF ne] show ?thesis
    by (auto simp: split_into_words_def)
qed

lemma words_of_raised:
  assumes "usual_on_ascii T" and "\<forall>w \<in> set vs. snake_word w" and "\<forall>c \<in> set cur. plain_char c"
  shows "split_into_words T (cur @ concat (map raise_word vs)) = flush cur [] @ map raise_word vs"
proof -
  have "cur = [] \<or> ct_is_lower T (last cur) \<or> ascii_digit (last cur)"
    using tables_plain(3) [OF assms(1), of "last cur"] assms(3) by auto
  then have "split_loop T (cur @ concat (map raise_word vs)) [] [] = flush cur [] @ map raise_word vs"
    using split_plain [OF assms(1,3), of _ "[]"] split_raised [OF assms(1,2), of cur] by auto
  moreover have "filter (\<lambda>w. w \<noteq> []) (flush cur [] @ map raise_word vs) = flush cur [] @ map raise_word vs"
    by (auto simp: filter_id_conv flush_def raise_word_def)
  moreover have "cur @ concat (map raise_word vs) = [] \<Longrightarrow> cur = [] \<and> vs = []"
    by (cases vs) (auto simp: raise_word_def)
  ultimately show ?thesis by (auto simp: split_into_words_def flush_def)
qed

text \<open>Words in capitals are found again as well, when they hold no digit.\<close>

definition letter_word :: "rname \<Rightarrow> bool" where
  "letter_word w \<longleftrightarrow> (\<forall>c \<in> set w. lower_letter c)"

lemma split_capitals:
  assumes T: "usual_on_ascii T" and "\<forall>l \<in> set w. lower_letter l" and "\<forall>l \<in> set cur. lower_letter l"
    and "rest = [] \<or> (\<exists>c cs. rest = c # cs \<and> c < 128 \<and> \<not> lower_letter c)"
  shows "split_loop T (map raise_letter w @ rest) (map raise_letter cur) ws
    = split_loop T rest (map raise_letter (cur @ w)) ws"
  using assms(2,3)
proof (induction w arbitrary: cur)
  case (Cons l w)
  then have l: "lower_letter l" by simp
  let ?next = "case map raise_letter w @ rest of [] \<Rightarrow> None | n # _ \<Rightarrow> Some n"
  have tables: "\<forall>c < 128. ct_is_lower T c \<longleftrightarrow> lower_letter c" using T unfolding usual_on_ascii_def by blast
  have "\<not> new_word T (map raise_letter cur) ?next"
  proof
    assume new: "new_word T (map raise_letter cur) ?next"
    then have "cur \<noteq> []" by (auto simp: new_word_def)
    then have k: "lower_letter (last cur)" "last (map raise_letter cur) = raise_letter (last cur)"
      using Cons.prems(2) by (auto simp: last_map)
    have "\<not> ct_is_lower T (raise_letter (last cur))" "\<not> ascii_digit (raise_letter (last cur))"
      using tables ascii_classes(1) [OF k(1)] by (auto simp: ascii_digit_def upper_letter_def)
    with new k(2) obtain n where n: "?next = Some n" "ct_is_lower T n"
      by (auto simp: new_word_def Let_def split: option.splits)
    from n(1) have "n \<in> raise_letter ` set w \<or> n < 128 \<and> \<not> lower_letter n"
      using assms(4) by (cases w) auto
    then have "n < 128 \<and> \<not> lower_letter n" using Cons.prems(1) ascii_classes(1) by auto
    with n(2) tables show False by blast
  qed
  with Cons.IH [of "cur @ [l]"] Cons.prems tables_raised(1,2) [OF T l] show ?case by simp
qed simp

lemma split_joined_capitals:
  assumes T: "usual_on_ascii T" and c: "separator T c" "c < 128"
    and "\<forall>w \<in> set vs. w \<noteq> [] \<and> letter_word w"
  shows "split_loop T (join [c] (map (map raise_letter) vs)) [] ws = ws @ map (map raise_letter) vs"
  using assms(4)
proof (induction vs arbitrary: ws)
  case (Cons w vs)
  then have w: "\<forall>l \<in> set w. lower_letter l" "w \<noteq> []" by (auto simp: letter_word_def)
  have "\<not> lower_letter c" using T c tables_plain(1) plain_char_def by blast
  then have step: "split_loop T (map raise_letter w @ c # cs) [] ws = split_loop T (c # cs) (map raise_letter w) ws" for cs
    using split_capitals [OF T w(1), of "[]" "c # cs" ws] c(2) by (simp del: split_loop.simps)
  show ?case
  proof (cases vs)
    case Nil
    then show ?thesis using split_capitals [OF T w(1), of "[]" "[]" ws] w(2) by (simp add: flush_def)
  next
    case (Cons v us)
    then have "split_loop T (join [c] (map (map raise_letter) (w # vs))) [] ws
        = split_loop T (map raise_letter w @ c # join [c] (map (map raise_letter) vs)) [] ws" by simp
    also have "\<dots> = split_loop T (join [c] (map (map raise_letter) vs)) [] (ws @ [map raise_letter w])"
      unfolding step using c(1) w(2) by (simp add: flush_def)
    finally show ?thesis using Cons.IH [of "ws @ [map raise_letter w]"] Cons.prems by simp
  qed
qed (simp add: flush_def)

lemma words_of_capitals:
  assumes "usual_on_ascii T" and "\<forall>w \<in> set ws. w \<noteq> [] \<and> letter_word w" and "separator T c" "c < 128"
  shows "split_into_words T (join [c] (map (map raise_letter) ws)) = map (map raise_letter) ws"
proof -
  have ne: "\<forall>w \<in> set (map (map raise_letter) ws). w \<noteq> []" using assms(2) by auto
  then have "filter (\<lambda>w. w \<noteq> []) (map (map raise_letter) ws) = map (map raise_letter) ws" by (simp add: filter_id_conv)
  with split_joined_capitals [OF assms(1,3,4,2), of "[]"] join_Nil_iff [OF ne] show ?thesis
    by (auto simp: split_into_words_def)
qed

lemma lower_words:
  assumes "usual_on_ascii T" and "\<forall>w \<in> set ws. snake_word w"
  shows "map (ct_str_lower T) ws = ws" and "map (ct_str_lower T) (map raise_word ws) = ws"
  using assms tables_lower [OF assms(1)] capitalise_snake(2) [OF assms(1)] snake_word_plain
  by (auto intro!: map_idI)

lemma raise_words:
  assumes T: "usual_on_ascii T" and "\<forall>w \<in> set ws. letter_word w"
  shows "map (ct_str_upper T) ws = map (map raise_letter) ws" and "map (ct_str_lower T) (map (map raise_letter) ws) = ws"
proof -
  have "ct_str_upper T w = map raise_letter w \<and> ct_str_lower T (map raise_letter w) = w" if "w \<in> set ws" for w
  proof -
    have w: "\<forall>c \<in> set w. lower_letter c" using assms(2) that by (simp add: letter_word_def)
    then have "\<forall>c \<in> set w. c < 128" "\<forall>c \<in> set (map raise_letter w). c < 128"
      "map sink_letter (map raise_letter w) = w" using ascii_classes(1) by (auto intro!: map_idI)
    with T show ?thesis unfolding usual_on_ascii_def by metis
  qed
  then show "map (ct_str_upper T) ws = map (map raise_letter) ws" "map (ct_str_lower T) (map (map raise_letter) ws) = ws"
    by (auto intro!: map_idI)
qed

lemma usual_separators:
  "separator T 95" "separator T 45"
  by (simp_all add: separator_def codes_separators)

lemma codes_join: "codes ''_'' = [95]" "codes ''-'' = [45]"
  by (simp_all add: codes_def)

text \<open>The words of a snake-case name after each rule.\<close>

lemma words_after_rule:
  assumes T: "usual_on_ascii T" and ws: "\<forall>w \<in> set ws. snake_word w"
    and "r \<in> {ScreamingSnakeCase, ScreamingKebabCase} \<Longrightarrow> \<forall>w \<in> set ws. letter_word w"
    and "r \<notin> {Lowercase, Uppercase}"
  shows "\<exists>s. apply_rule T r (snake_name ws) = Some s \<and> map (ct_str_lower T) (split_into_words T s) = ws"
proof -
  have start: "split_into_words T (snake_name ws) = ws"
    using words_of_joined [OF T ws usual_separators(1)] by (simp add: snake_name_def codes_join)
  have pascal: "to_pascal_case T (snake_name ws) = concat (map raise_word ws)"
    using capitalise_snake(1) [OF T] ws by (simp add: to_pascal_case_def start cong: map_cong)
  have ne: "\<forall>w \<in> set ws. w \<noteq> []" using ws snake_word_ne by blast
  consider "r = PascalCase" | "r = CamelCase" | "r = SnakeCase" | "r = KebabCase"
    | "r \<in> {ScreamingSnakeCase, ScreamingKebabCase}" using assms(4) by (cases r) auto
  then show ?thesis
  proof cases
    case 1
    then show ?thesis using words_of_raised [OF T ws, of "[]"] lower_words [OF T ws] pascal
      by (simp add: flush_def)
  next
    case 2
    show ?thesis
    proof (cases ws)
      case Nil
      with 2 pascal show ?thesis by (simp add: to_camel_case_def split_into_words_def)
    next
      case (Cons w vs)
      then obtain l rest where w: "w = l # rest" "lower_letter l" using ws by (auto simp: snake_word_def)
      have "apply_rule T r (snake_name ws) = Some (w @ concat (map raise_word vs))"
        using 2 pascal tables_raised(4) [OF T w(2)] Cons w(1) by (simp add: to_camel_case_def raise_word_def)
      moreover have "split_into_words T (w @ concat (map raise_word vs)) = w # map raise_word vs"
        using words_of_raised [OF T, of vs w] ws snake_word_plain [of w] Cons w(1) by (simp add: flush_def)
      moreover have "ct_str_lower T w = w" "map (ct_str_lower T) (map raise_word vs) = vs"
        using lower_words [OF T ws] lower_words [OF T, of vs] ws Cons by auto
      ultimately show ?thesis using Cons by simp
    qed
  next
    case 3
    then show ?thesis using lower_words [OF T ws] start
      by (simp add: to_snake_case_def snake_name_def)
  next
    case 4
    then show ?thesis using words_of_joined [OF T ws usual_separators(2)] lower_words [OF T ws] start
      by (simp add: to_kebab_case_def codes_join)
  next
    case 5
    then have letters: "\<forall>w \<in> set ws. letter_word w" by (rule assms(3))
    with ne have "\<forall>w \<in> set ws. w \<noteq> [] \<and> letter_word w" by blast
    note back_95 = words_of_capitals [OF T this usual_separators(1)] and back_45 = words_of_capitals [OF T this usual_separators(2)]
    have "to_screaming_snake_case T (snake_name ws) = join [95] (map (map raise_letter) ws)"
      "to_screaming_kebab_case T (snake_name ws) = join [45] (map (map raise_letter) ws)"
      unfolding to_screaming_snake_case_def to_screaming_kebab_case_def start codes_join raise_words(1) [OF T letters] by simp_all
    with 5 show ?thesis using back_95 back_45 raise_words(2) [OF T letters] by auto
  qed
qed

end
