(* ===== verification/Memory.thy ===== *)
theory Memory
  imports Shape Validators Path_Steps
begin

text \<open>
  The memory that the builder of values (facet-reflect, src/partial) works on, as far as the
  builder sees it. A pointer is a block and an offset into it (or the dangling pointer that stands
  for a value of size zero). What the builder does to memory it does through calls: the global
  allocator, the function tables of a shape, copies. Each such call is an \<open>effect\<close>, and the
  \<open>world\<close> holds the next block and the list of the effects so far. What a call answers is read from
  the \<open>host\<close>: for each shape, what its layout and function tables offer (\<open>vtab\<close>), and for the calls
  whose answer depends on the data, a function of the effects so far.
\<close>

section \<open>Pointers and effects\<close>

datatype ptr = Ptr nat nat | Dangling

fun ptr_add :: "ptr \<Rightarrow> nat \<Rightarrow> ptr" where
  "ptr_add (Ptr b off) n = Ptr b (off + n)"
| "ptr_add Dangling n = Dangling"

lemma ptr_add_zero [simp]: "ptr_add p 0 = p"
  by (cases p) simp_all

lemma ptr_add_add [simp]: "ptr_add (ptr_add p m) n = ptr_add p (m + n)"
  by (cases p) simp_all

datatype known_pointer = Kp_Box | Kp_Rc | Kp_Arc | Kp_Cow | Kp_SharedReference | Kp_Other

datatype dyn_scalar = Dyn_Null | Dyn_Bool | Dyn_F64 | Dyn_I64 | Dyn_U64 | Dyn_Str | Dyn_Bytes | Dyn_DateTime

text \<open>The ways a value comes into uninitialised memory: from the \<open>Default\<close> of its type, from a
  field's own default function, moved in from the caller, by a closure of the caller, parsed, as an
  empty collection with a capacity, as a dynamic value.\<close>

datatype write_kind =
  W_Default | W_Default_Fn fn_ptr | W_Move_In | W_User | W_Parse | W_Empty nat | W_Empty_Slice
| W_Dyn dyn_scalar | W_Dyn_Array | W_Dyn_Object

text \<open>The ways a value is made of another one.\<close>

datatype built_kind =
  B_Some | B_Result_Ok | B_Result_Err | B_New_Into | B_Borrow_Promote | B_String known_pointer
| B_Try_From | B_Convert_In | B_Slice_Convert

text \<open>The ways a value is moved into a collection.\<close>

datatype push_kind = P_List | P_Set | P_Slice | P_Dyn_Push | P_Dyn_Insert string

datatype effect =
  Ef_Alloc ptr nat
| Ef_Dealloc ptr nat
| Ef_Drop sref ptr
| Ef_Write write_kind sref ptr
| Ef_Discriminant sref ptr int
| Ef_Build built_kind sref ptr sref ptr
| Ef_Push push_kind sref ptr sref ptr
| Ef_Map_Insert sref ptr "sref \<times> ptr" "sref \<times> ptr"
| Ef_Reserve sref ptr nat
| Ef_Copy sref ptr ptr
| Ef_Slice_New sref ptr
| Ef_Slice_Free ptr
| Ef_Move_Out sref ptr
| Ef_Replace sref ptr "(sref \<times> ptr) option"
| Ef_Pop sref ptr sref ptr
| Ef_Swap sref ptr nat nat
| Ef_Swap_Bytes sref ptr ptr
| Ef_Dyn_End sref ptr

record world =
  w_next :: nat
  w_log :: "effect list"

definition world_start :: world where
  "world_start = \<lparr>w_next = 0, w_log = []\<rparr>"

definition emit :: "effect \<Rightarrow> world \<Rightarrow> world" where
  "emit e w = w\<lparr>w_log := w_log w @ [e]\<rparr>"

definition emits :: "effect list \<Rightarrow> world \<Rightarrow> world" where
  "emits es w = w\<lparr>w_log := w_log w @ es\<rparr>"

section \<open>What the host offers\<close>

text \<open>The layout of a shape (the size, \<open>None\<close> for an unsized type), and which of the optional
  entries its tables have: whether \<open>call_default_in_place\<close> gives a value, the entries of a list,
  those of a pointer.\<close>

record vtab =
  vt_size :: "nat option"
  vt_default_ok :: bool
  vt_has_drop :: bool
  vt_list_push :: bool
  vt_list_reserve :: bool
  vt_list_init :: bool
  vt_known :: "known_pointer option"
  vt_new_into :: bool
  vt_borrow_promote :: bool
  vt_slice_builder :: bool
  vt_set_datetime :: bool
  vt_parse_bytes :: bool

datatype try_from_outcome = Tf_Converted | Tf_Unsupported | Tf_Failed string

record host =
  h_vt :: "sref \<Rightarrow> vtab"
  h_str_shape :: sref
  h_string_shape :: sref
  h_unit_shape :: sref
  h_try_from :: "effect list \<Rightarrow> try_from_outcome"
  h_convert_in :: "effect list \<Rightarrow> string + bool"
  h_parse :: "effect list \<Rightarrow> bool"
  h_list_len :: "effect list \<Rightarrow> ptr \<Rightarrow> nat"
  h_option_value :: "effect list \<Rightarrow> ptr \<Rightarrow> ptr option"
  h_dyn_is_object :: "effect list \<Rightarrow> ptr \<Rightarrow> bool"
  h_object_get_mut :: "effect list \<Rightarrow> ptr \<Rightarrow> string \<Rightarrow> ptr option"
  h_value_at :: "effect list \<Rightarrow> ptr \<Rightarrow> field_value"
  h_invariants :: "effect list \<Rightarrow> sref \<Rightarrow> ptr \<Rightarrow> (sref \<times> string) option"
  h_regex :: regex_engine
  h_call :: "fn_ptr \<Rightarrow> field_value \<Rightarrow> check"

text \<open>Two shapes are the same when their type identifiers are.\<close>

definition same_shape :: "shapes \<Rightarrow> sref \<Rightarrow> sref \<Rightarrow> bool" where
  "same_shape S a b \<longleftrightarrow> sh_id (S a) = sh_id (S b)"

definition call_default_in_place :: "host \<Rightarrow> shapes \<Rightarrow> sref \<Rightarrow> bool" where
  "call_default_in_place H S s \<longleftrightarrow> sh_default_in_place (S s) \<noteq> None \<and> vt_default_ok (h_vt H s)"

section \<open>Allocation\<close>

definition alloc_for_layout :: "nat \<Rightarrow> world \<Rightarrow> ptr \<times> world" where
  "alloc_for_layout n w =
     (if n = 0 then (Dangling, w)
      else (let p = Ptr (w_next w) 0 in (p, emit (Ef_Alloc p n) w\<lparr>w_next := Suc (w_next w)\<rparr>)))"

text \<open>The idiom \<open>if let Ok(layout) = shape.layout.sized_layout() && layout.size() > 0 { dealloc }\<close>.\<close>

definition dealloc_shape :: "host \<Rightarrow> sref \<Rightarrow> ptr \<Rightarrow> world \<Rightarrow> world" where
  "dealloc_shape H s p w =
     (case vt_size (h_vt H s) of
        Some n \<Rightarrow> if 0 < n then emit (Ef_Dealloc p n) w else w
      | None \<Rightarrow> w)"

record allocated_shape =
  al_shape :: sref
  al_size :: nat

definition allocated_new :: "sref \<Rightarrow> nat \<Rightarrow> allocated_shape" where
  "allocated_new s n = \<lparr>al_shape = s, al_size = n\<rparr>"

definition deallocate :: "host \<Rightarrow> allocated_shape \<Rightarrow> ptr \<Rightarrow> world \<Rightarrow> world" where
  "deallocate H a p w =
     (if al_size a = 0 then w
      else if vt_size (h_vt H (al_shape a)) \<noteq> None then emit (Ef_Dealloc p (al_size a)) w
      else w)"

lemma emit_simps [simp]:
  "w_log (emit e w) = w_log w @ [e]" "w_next (emit e w) = w_next w"
  "w_log (emits es w) = w_log w @ es" "w_next (emits es w) = w_next w"
  by (simp_all add: emit_def emits_def)

lemma emits_emit: "emits [] w = w" "emits (e # es) w = emits es (emit e w)"
  by (simp_all add: emit_def emits_def)

end
