(* ===== verification/Rope.thy ===== *)
theory Rope
  imports Memory
begin

text \<open>
  The rope that holds the elements of a list under construction (facet-reflect,
  src/partial/rope.rs): chunks of a fixed number of slots that never move. The lemmas show that
  the slots handed out are disjoint, lie in live chunks and stay where they are when the rope
  grows, that draining visits the initialised slots in order, and that a rope that is drained or
  dropped gives back exactly the chunks it took.
\<close>

section \<open>Operations\<close>

record list_rope =
  rp_chunks :: "ptr list"
  rp_element_size :: nat
  rp_elements_per_chunk :: nat
  rp_len :: nat
  rp_initialized_count :: nat

definition DEFAULT_CHUNK_CAPACITY :: nat where
  "DEFAULT_CHUNK_CAPACITY = 16"

definition rope_new :: "nat \<Rightarrow> list_rope option" where
  "rope_new element_size =
     (if 0 < element_size
      then Some \<lparr>rp_chunks = [], rp_element_size = element_size,
                 rp_elements_per_chunk = DEFAULT_CHUNK_CAPACITY, rp_len = 0, rp_initialized_count = 0\<rparr>
      else None)"

definition chunk_size :: "list_rope \<Rightarrow> nat" where
  "chunk_size r = rp_element_size r * rp_elements_per_chunk r"

definition allocate_chunk :: "list_rope \<Rightarrow> world \<Rightarrow> ptr \<times> world" where
  "allocate_chunk r w = alloc_for_layout (chunk_size r) w"

definition deallocate_chunk :: "list_rope \<Rightarrow> ptr \<Rightarrow> world \<Rightarrow> world" where
  "deallocate_chunk r chunk w = emit (Ef_Dealloc chunk (chunk_size r)) w"

text \<open>The address of a slot; the index of a chunk is checked.\<close>

definition slot_ptr :: "list_rope \<Rightarrow> nat \<Rightarrow> ptr option" where
  "slot_ptr r i =
     (let chunk_idx = i div rp_elements_per_chunk r; idx_in_chunk = i mod rp_elements_per_chunk r
      in map_option (\<lambda>chunk_ptr. ptr_add chunk_ptr (idx_in_chunk * rp_element_size r))
           (nth_opt (rp_chunks r) chunk_idx))"

definition push_uninit :: "list_rope \<Rightarrow> world \<Rightarrow> (ptr \<times> list_rope \<times> world) option" where
  "push_uninit r w =
     (let chunk_idx = rp_len r div rp_elements_per_chunk r;
          (r, w) = (if length (rp_chunks r) \<le> chunk_idx
                    then (let (chunk, w) = allocate_chunk r w
                          in (r\<lparr>rp_chunks := rp_chunks r @ [chunk]\<rparr>, w))
                    else (r, w))
      in map_option (\<lambda>element_ptr. (element_ptr, r\<lparr>rp_len := rp_len r + 1\<rparr>, w))
           (slot_ptr r (rp_len r)))"

definition mark_last_initialized :: "list_rope \<Rightarrow> list_rope option" where
  "mark_last_initialized r =
     (if rp_initialized_count r < rp_len r
      then Some (r\<lparr>rp_initialized_count := rp_initialized_count r + 1\<rparr>) else None)"

definition rope_get_ptr :: "list_rope \<Rightarrow> nat \<Rightarrow> ptr option" where
  "rope_get_ptr r index = (if index < rp_len r then slot_ptr r index else None)"

definition iter_initialized :: "list_rope \<Rightarrow> ptr list option" where
  "iter_initialized r = those (map (slot_ptr r) [0..<rp_initialized_count r])"

definition rope_clear :: "list_rope \<Rightarrow> world \<Rightarrow> list_rope \<times> world" where
  "rope_clear r w =
     (r\<lparr>rp_chunks := [], rp_len := 0, rp_initialized_count := 0\<rparr>,
      fold (deallocate_chunk r) (rp_chunks r) w)"

text \<open>\<open>drain_into\<close> with what the closure does to memory for each slot; \<open>drop_all\<close> is the same
  loop with the element's drop function.\<close>

definition drain_into :: "(ptr \<Rightarrow> effect) \<Rightarrow> list_rope \<Rightarrow> world \<Rightarrow> (list_rope \<times> world) option" where
  "drain_into move_fn r w =
     map_option (\<lambda>slots. rope_clear r (emits (map move_fn slots) w)) (iter_initialized r)"

definition drop_all :: "(ptr \<Rightarrow> effect) option \<Rightarrow> list_rope \<Rightarrow> world \<Rightarrow> (list_rope \<times> world) option" where
  "drop_all drop_fn r w =
     (case drop_fn of
        Some f \<Rightarrow> drain_into f r w
      | None \<Rightarrow> Some (rope_clear r w))"

text \<open>The destructor of a rope frees the chunks and drops nothing.\<close>

definition rope_drop :: "list_rope \<Rightarrow> world \<Rightarrow> world" where
  "rope_drop r w = fold (deallocate_chunk r) (rp_chunks r) w"

section \<open>Invariant\<close>

text \<open>The chunks are distinct blocks below the next one, just enough of them for the slots.\<close>

definition rope_wf :: "list_rope \<Rightarrow> world \<Rightarrow> bool" where
  "rope_wf r w \<longleftrightarrow> 0 < rp_element_size r \<and> 0 < rp_elements_per_chunk r
     \<and> rp_initialized_count r \<le> rp_len r
     \<and> rp_len r \<le> length (rp_chunks r) * rp_elements_per_chunk r
     \<and> length (rp_chunks r) * rp_elements_per_chunk r < rp_len r + rp_elements_per_chunk r
     \<and> distinct (rp_chunks r) \<and> (\<forall>c \<in> set (rp_chunks r). \<exists>b < w_next w. c = Ptr b 0)"

lemma rope_wf_new: "rope_new n = Some r \<Longrightarrow> rope_wf r w"
  by (auto simp: rope_new_def rope_wf_def DEFAULT_CHUNK_CAPACITY_def split: if_splits)

lemma slot_ptr_eq:
  assumes "rope_wf r w" and "i < rp_len r"
  shows "\<exists>b. rp_chunks r ! (i div rp_elements_per_chunk r) = Ptr b 0 \<and> b < w_next w
    \<and> i div rp_elements_per_chunk r < length (rp_chunks r)
    \<and> slot_ptr r i = Some (Ptr b (i mod rp_elements_per_chunk r * rp_element_size r))"
proof -
  have "i < length (rp_chunks r) * rp_elements_per_chunk r" using assms by (simp add: rope_wf_def)
  then have k: "i div rp_elements_per_chunk r < length (rp_chunks r)"
    by (simp add: less_mult_imp_div_less)
  then have "rp_chunks r ! (i div rp_elements_per_chunk r) \<in> set (rp_chunks r)" by simp
  with assms(1) obtain b where "b < w_next w" "rp_chunks r ! (i div rp_elements_per_chunk r) = Ptr b 0"
    by (auto simp: rope_wf_def)
  with k show ?thesis by (auto simp: slot_ptr_def Let_def)
qed

text \<open>A slot of a rope: where it lies.\<close>

definition slot_in :: "list_rope \<Rightarrow> ptr \<Rightarrow> bool" where
  "slot_in r p \<longleftrightarrow> (\<exists>b off. p = Ptr b off \<and> Ptr b 0 \<in> set (rp_chunks r)
     \<and> off + rp_element_size r \<le> chunk_size r)"

definition slots_disjoint :: "nat \<Rightarrow> ptr \<Rightarrow> ptr \<Rightarrow> bool" where
  "slots_disjoint n p q \<longleftrightarrow> (\<forall>b x c y. p = Ptr b x \<longrightarrow> q = Ptr c y \<longrightarrow> b \<noteq> c \<or> x + n \<le> y \<or> y + n \<le> x)"

lemma slot_inside:
  assumes "rope_wf r w" and "i < rp_len r"
  shows "\<exists>p. slot_ptr r i = Some p \<and> slot_in r p"
proof -
  obtain b where b: "rp_chunks r ! (i div rp_elements_per_chunk r) = Ptr b 0"
    "i div rp_elements_per_chunk r < length (rp_chunks r)"
    "slot_ptr r i = Some (Ptr b (i mod rp_elements_per_chunk r * rp_element_size r))"
    using slot_ptr_eq [OF assms] by blast
  have "Suc (i mod rp_elements_per_chunk r) * rp_element_size r \<le> rp_elements_per_chunk r * rp_element_size r"
    using assms(1) by (intro mult_le_mono1) (simp add: rope_wf_def Suc_leI)
  then have "i mod rp_elements_per_chunk r * rp_element_size r + rp_element_size r \<le> chunk_size r"
    by (simp add: chunk_size_def mult.commute)
  moreover have "Ptr b 0 \<in> set (rp_chunks r)" using b(1,2) nth_mem by metis
  ultimately show ?thesis using b(3) by (auto simp: slot_in_def)
qed

lemma slots_apart:
  assumes "rope_wf r w" and "i < rp_len r" and "j < rp_len r" and "i \<noteq> j"
    and "slot_ptr r i = Some p" and "slot_ptr r j = Some q"
  shows "slots_disjoint (rp_element_size r) p q"
proof -
  let ?n = "rp_elements_per_chunk r"
  obtain b where b: "rp_chunks r ! (i div ?n) = Ptr b 0" "i div ?n < length (rp_chunks r)"
    "p = Ptr b (i mod ?n * rp_element_size r)"
    using slot_ptr_eq [OF assms(1,2)] assms(5) by auto
  obtain c where c: "rp_chunks r ! (j div ?n) = Ptr c 0" "j div ?n < length (rp_chunks r)"
    "q = Ptr c (j mod ?n * rp_element_size r)"
    using slot_ptr_eq [OF assms(1,3)] assms(6) by auto
  show ?thesis
  proof (cases "i div ?n = j div ?n")
    case True
    then have "i mod ?n \<noteq> j mod ?n" using assms(4) by (metis div_mult_mod_eq)
    then consider "Suc (i mod ?n) \<le> j mod ?n" | "Suc (j mod ?n) \<le> i mod ?n" by linarith
    then have "i mod ?n * rp_element_size r + rp_element_size r \<le> j mod ?n * rp_element_size r
        \<or> j mod ?n * rp_element_size r + rp_element_size r \<le> i mod ?n * rp_element_size r"
      by cases (use mult_le_mono1 [of "Suc (i mod ?n)" "j mod ?n" "rp_element_size r"]
        mult_le_mono1 [of "Suc (j mod ?n)" "i mod ?n" "rp_element_size r"] in simp_all)
    then show ?thesis using b(3) c(3) by (auto simp: slots_disjoint_def)
  next
    case False
    have "distinct (rp_chunks r)" using assms(1) by (simp add: rope_wf_def)
    with False b c have "Ptr b 0 \<noteq> Ptr c 0" by (metis nth_eq_iff_index_eq)
    then show ?thesis using b(3) c(3) by (auto simp: slots_disjoint_def)
  qed
qed

text \<open>Pushing keeps the slots handed out before where they are.\<close>

lemma push_uninit_spec:
  assumes "rope_wf r w"
  shows "\<exists>p r' w'. push_uninit r w = Some (p, r', w') \<and> rope_wf r' w' \<and> rp_len r' = Suc (rp_len r)
    \<and> rp_initialized_count r' = rp_initialized_count r \<and> rp_element_size r' = rp_element_size r
    \<and> slot_ptr r' (rp_len r) = Some p \<and> (\<forall>i < rp_len r. slot_ptr r' i = slot_ptr r i)"
proof -
  let ?n = "rp_elements_per_chunk r" and ?k = "rp_len r div rp_elements_per_chunk r"
  have n: "0 < ?n" "0 < chunk_size r" using assms by (simp_all add: rope_wf_def chunk_size_def)
  show ?thesis
  proof (cases "length (rp_chunks r) \<le> ?k")
    case True
    then have "length (rp_chunks r) * ?n \<le> ?k * ?n" by (rule mult_le_mono1)
    also have "\<dots> \<le> rp_len r" by simp
    finally have full: "rp_len r = length (rp_chunks r) * ?n" using assms by (simp add: rope_wf_def)
    define r1 where "r1 = r\<lparr>rp_chunks := rp_chunks r @ [Ptr (w_next w) 0], rp_len := Suc (rp_len r)\<rparr>"
    define w1 where "w1 = emit (Ef_Alloc (Ptr (w_next w) 0) (chunk_size r)) w\<lparr>w_next := Suc (w_next w)\<rparr>"
    have "Ptr (w_next w) 0 \<notin> set (rp_chunks r)" using assms by (auto simp: rope_wf_def)
    with assms full have wf: "rope_wf r1 w1" by (auto simp: rope_wf_def r1_def w1_def less_SucI)
    have "push_uninit r w = Some (Ptr (w_next w) 0, r1, w1)"
      using True n full
      by (simp add: push_uninit_def allocate_chunk_def alloc_for_layout_def Let_def slot_ptr_def r1_def w1_def)
    moreover have "slot_ptr r1 (rp_len r) = Some (Ptr (w_next w) 0)"
      using full n by (simp add: slot_ptr_def r1_def Let_def)
    moreover have "slot_ptr r1 i = slot_ptr r i" if "i < rp_len r" for i
    proof -
      have "i div ?n < length (rp_chunks r)" using that full n by (simp add: less_mult_imp_div_less)
      then show ?thesis by (simp add: slot_ptr_def r1_def Let_def nth_append)
    qed
    ultimately show ?thesis using wf by (auto simp: r1_def)
  next
    case False
    then have k: "?k < length (rp_chunks r)" by simp
    define r1 where "r1 = r\<lparr>rp_len := Suc (rp_len r)\<rparr>"
    have "rp_len r mod ?n < ?n" using n by simp
    moreover have "?k * ?n + ?n \<le> length (rp_chunks r) * ?n"
      using k mult_le_mono1 [of "Suc ?k" "length (rp_chunks r)" ?n] by simp
    ultimately have "Suc (rp_len r) \<le> length (rp_chunks r) * ?n"
      using div_mult_mod_eq [of "rp_len r" ?n] by linarith
    with assms have wf: "rope_wf r1 w" by (auto simp: rope_wf_def r1_def)
    obtain p where "slot_ptr r1 (rp_len r) = Some p" using slot_inside [OF wf, of "rp_len r"] by (auto simp: r1_def)
    moreover have "slot_ptr r1 i = slot_ptr r i" for i by (simp add: slot_ptr_def r1_def)
    ultimately show ?thesis using wf k by (auto simp: push_uninit_def Let_def r1_def)
  qed
qed

text \<open>Draining visits the initialised slots in order and gives the chunks back.\<close>

lemma fold_deallocate:
  "fold (deallocate_chunk r) cs w = emits (map (\<lambda>c. Ef_Dealloc c (chunk_size r)) cs) w"
  by (induction cs arbitrary: w) (simp_all add: deallocate_chunk_def emit_def emits_def)

lemma iter_initialized_slots:
  assumes "rope_wf r w"
  shows "iter_initialized r = Some (map (\<lambda>i. the (slot_ptr r i)) [0..<rp_initialized_count r])"
proof -
  have "slot_ptr r i = Some (the (slot_ptr r i))" if "i < rp_initialized_count r" for i
  proof -
    have "i < rp_len r" using that assms by (simp add: rope_wf_def)
    with slot_inside [OF assms] show ?thesis by fastforce
  qed
  then have "map (slot_ptr r) [0..<rp_initialized_count r]
      = map Some (map (\<lambda>i. the (slot_ptr r i)) [0..<rp_initialized_count r])" by simp
  moreover have "those (map Some xs) = Some xs" for xs :: "ptr list" by (induction xs) simp_all
  ultimately show ?thesis by (simp only: iter_initialized_def)
qed

lemma drain_into_spec:
  assumes "rope_wf r w"
  shows "\<exists>r' w'. drain_into f r w = Some (r', w') \<and> rp_chunks r' = [] \<and> rp_len r' = 0
    \<and> w' = emits (map (\<lambda>i. f (the (slot_ptr r i))) [0..<rp_initialized_count r]
        @ map (\<lambda>c. Ef_Dealloc c (chunk_size r)) (rp_chunks r)) w"
  using iter_initialized_slots [OF assms]
  by (simp add: drain_into_def rope_clear_def fold_deallocate emits_def comp_def)

text \<open>Several slots in a row.\<close>

fun pushes :: "nat \<Rightarrow> list_rope \<Rightarrow> world \<Rightarrow> (ptr list \<times> list_rope \<times> world) option" where
  "pushes 0 r w = Some ([], r, w)"
| "pushes (Suc k) r w =
     Option.bind (push_uninit r w) (\<lambda>(p, r, w). map_option (\<lambda>(ps, r, w). (p # ps, r, w)) (pushes k r w))"

lemma pushes_spec:
  assumes "rope_wf r w"
  shows "\<exists>ps r' w'. pushes k r w = Some (ps, r', w') \<and> rope_wf r' w' \<and> rp_len r' = rp_len r + k
    \<and> rp_initialized_count r' = rp_initialized_count r \<and> rp_element_size r' = rp_element_size r
    \<and> length ps = k \<and> (\<forall>i < k. slot_ptr r' (rp_len r + i) = Some (ps ! i))
    \<and> (\<forall>i < rp_len r. slot_ptr r' i = slot_ptr r i)"
  using assms
proof (induction k arbitrary: r w)
  case (Suc k)
  obtain p r1 w1 where one: "push_uninit r w = Some (p, r1, w1)" "rope_wf r1 w1" "rp_len r1 = Suc (rp_len r)"
    "rp_initialized_count r1 = rp_initialized_count r" "rp_element_size r1 = rp_element_size r"
    "slot_ptr r1 (rp_len r) = Some p" "\<forall>i < rp_len r. slot_ptr r1 i = slot_ptr r i"
    using push_uninit_spec [OF Suc.prems] by blast
  obtain ps r' w' where rest: "pushes k r1 w1 = Some (ps, r', w')" "rope_wf r' w'" "rp_len r' = rp_len r1 + k"
    "rp_initialized_count r' = rp_initialized_count r1" "rp_element_size r' = rp_element_size r1" "length ps = k"
    "\<forall>i < k. slot_ptr r' (rp_len r1 + i) = Some (ps ! i)" "\<forall>i < rp_len r1. slot_ptr r' i = slot_ptr r1 i"
    using Suc.IH [OF one(2)] by blast
  have "slot_ptr r' (rp_len r + i) = Some ((p # ps) ! i)" if "i < Suc k" for i
    using that one(3,6) rest(7,8) by (cases i) auto
  then show ?case using one rest by auto
qed simp

end
