(* ===== verification/Path_Order.thy ===== *)
theory Path_Order
  imports Path_Steps
begin

text \<open>
  The order on paths (facet-path, src/lib.rs), by which the frames of a deferred partial value are
  kept: steps are ordered as the derived order of their enumeration does, by the constructor and
  then by the index, and paths by the address of the root shape and then by the steps.
\<close>

section \<open>Steps\<close>

fun step_rank :: "path_step \<Rightarrow> nat \<times> nat" where
  "step_rank (Step_Field i) = (0, unat i)"
| "step_rank (Step_Index i) = (1, unat i)"
| "step_rank (Step_Variant i) = (2, unat i)"
| "step_rank (Step_MapKey i) = (3, unat i)"
| "step_rank (Step_MapValue i) = (4, unat i)"
| "step_rank Step_OptionSome = (5, 0)"
| "step_rank Step_Deref = (6, 0)"
| "step_rank Step_Inner = (7, 0)"
| "step_rank Step_Proxy = (8, 0)"

lemma step_rank_inj: "step_rank a = step_rank b \<Longrightarrow> a = b"
  by (cases a; cases b) (auto simp: word_unat_eq_iff)

instantiation path_step :: linorder
begin

definition less_eq_path_step :: "path_step \<Rightarrow> path_step \<Rightarrow> bool" where
  "less_eq_path_step a b \<longleftrightarrow> step_rank a \<le> step_rank b"

definition less_path_step :: "path_step \<Rightarrow> path_step \<Rightarrow> bool" where
  "less_path_step a b \<longleftrightarrow> step_rank a < step_rank b"

instance
proof
  fix a b c :: path_step
  show "a < b \<longleftrightarrow> a \<le> b \<and> \<not> b \<le> a"
    unfolding less_eq_path_step_def less_path_step_def by (rule less_le_not_le)
  show "a \<le> a" by (simp add: less_eq_path_step_def)
  show "a \<le> b \<Longrightarrow> b \<le> c \<Longrightarrow> a \<le> c" unfolding less_eq_path_step_def by (rule order_trans)
  show "a \<le> b \<Longrightarrow> b \<le> a \<Longrightarrow> a = b"
    unfolding less_eq_path_step_def by (intro step_rank_inj) (rule order_antisym)
  show "a \<le> b \<or> b \<le> a" unfolding less_eq_path_step_def by (rule linear)
qed

end

section \<open>Paths\<close>

instantiation path_ext :: (linorder) linorder
begin

definition less_eq_path_ext :: "'a path_scheme \<Rightarrow> 'a path_scheme \<Rightarrow> bool" where
  "less_eq_path_ext p q \<longleftrightarrow> (p_shape p, p_steps p, path.more p) \<le> (p_shape q, p_steps q, path.more q)"

definition less_path_ext :: "'a path_scheme \<Rightarrow> 'a path_scheme \<Rightarrow> bool" where
  "less_path_ext p q \<longleftrightarrow> (p_shape p, p_steps p, path.more p) < (p_shape q, p_steps q, path.more q)"

instance
proof
  fix p q r :: "'a path_scheme"
  show "p < q \<longleftrightarrow> p \<le> q \<and> \<not> q \<le> p"
    unfolding less_eq_path_ext_def less_path_ext_def by (rule less_le_not_le)
  show "p \<le> p" by (simp add: less_eq_path_ext_def)
  show "p \<le> q \<Longrightarrow> q \<le> r \<Longrightarrow> p \<le> r" unfolding less_eq_path_ext_def by (rule order_trans)
  show "p \<le> q \<Longrightarrow> q \<le> p \<Longrightarrow> p = q"
    unfolding less_eq_path_ext_def by (cases p; cases q) (auto dest: order_antisym)
  show "p \<le> q \<or> q \<le> p" unfolding less_eq_path_ext_def by (rule linear)
qed

end

end
