(* ===== verification/Frame.thy ===== *)
theory Frame
  imports Rope Init_Set Path_Order Plan_Nav
begin

text \<open>
  The frames of a partial value (facet-reflect, src/partial/mod.rs): where the value lies, its
  shape and the size of its allocation, what of it is initialised (the tracker), and who owns its
  memory. The operations of a frame drop what is initialised, fill in defaults and decide whether
  the value is complete; they return the frame, the world with the effects of their calls, and
  \<open>None\<close> where the code panics. A fallible operation also returns its error, next to the frame as
  it was left.
\<close>

section \<open>Errors\<close>

datatype tracker_kind =
  Tk_Scalar | Tk_Array | Tk_Struct | Tk_SmartPointer | Tk_SmartPointerSlice | Tk_Enum | Tk_List
| Tk_Map | Tk_Set | Tk_Option | Tk_Result | Tk_DynamicValue | Tk_Inner

datatype error_kind =
  Ek_Wrong_Shape sref sref
| Ek_Was_Not_A string sref
| Ek_Uninitialized_Field sref string
| Ek_Uninitialized_Value sref
| Ek_Validation_Failed sref string string
| Ek_Invariant_Violation string
| Ek_Operation_Failed sref string
| Ek_Parse_Failed sref string
| Ek_No_Such_Field sref
| Ek_Field_Index sref nat nat
| Ek_Not_Pod sref
| Ek_Try_From sref sref "string option"
| Ek_Default_Attr_No_Impl sref
| Ek_Unsized sref string
| Ek_Invalid_Operation string string
| Ek_Unexpected_Tracker string tracker_kind
| Ek_No_Active_Frame
| Ek_Custom_Deserialization string sref sref
| Ek_User_Invariant string sref

section \<open>Data\<close>

datatype map_insert_state =
  Map_Idle | Map_Pushing_Key ptr | Map_Pushing_Value ptr "ptr option"

datatype frame_ownership =
  Owned | Own_Field nat | TrackedBuffer | BorrowedInPlace | External | RopeSlot

definition needs_dealloc :: "frame_ownership \<Rightarrow> bool" where
  "needs_dealloc ow \<longleftrightarrow> ow = Owned \<or> ow = TrackedBuffer"

datatype dyn_insert_state = Dyn_Idle | Dyn_Building_Value string

datatype dyn_state =
  Dyn_Uninit
| Dyn_Scalar
| Dyn_Array bool "ptr list"
| Dyn_Object dyn_insert_state "(string \<times> ptr) list"

record pending_inner =
  pi_data :: ptr
  pi_allocated :: allocated_shape
  pi_ownership :: frame_ownership

datatype tracker =
  Tr_Scalar
| Tr_Array iset "nat option"
| Tr_Struct iset "nat option"
| Tr_SmartPointer bool "pending_inner option"
| Tr_SmartPointerSlice bool "nat option"
| Tr_Inner bool
| Tr_Enum variant nat iset "nat option"
| Tr_List "nat option" "list_rope option"
| Tr_Map map_insert_state "(ptr \<times> ptr option) list" "nat option" bool
| Tr_Set bool
| Tr_Option bool "ptr option"
| Tr_Result bool bool
| Tr_DynamicValue dyn_state

record frame =
  fr_data :: ptr
  fr_allocated :: allocated_shape
  fr_is_init :: bool
  fr_tracker :: tracker
  fr_ownership :: frame_ownership
  fr_custom :: bool
  fr_shape_level_proxy :: "sref option"
  fr_type_plan :: node_id

abbreviation fr_shape :: "frame \<Rightarrow> sref" where
  "fr_shape fr \<equiv> al_shape (fr_allocated fr)"

type_synonym frame_result = "(error_kind option \<times> frame \<times> world) option"

section \<open>Trackers\<close>

fun tracker_kind_of :: "tracker \<Rightarrow> tracker_kind" where
  "tracker_kind_of Tr_Scalar = Tk_Scalar"
| "tracker_kind_of (Tr_Array s c) = Tk_Array"
| "tracker_kind_of (Tr_Struct s c) = Tk_Struct"
| "tracker_kind_of (Tr_SmartPointer b p) = Tk_SmartPointer"
| "tracker_kind_of (Tr_SmartPointerSlice b c) = Tk_SmartPointerSlice"
| "tracker_kind_of (Tr_Inner b) = Tk_Inner"
| "tracker_kind_of (Tr_Enum v i s c) = Tk_Enum"
| "tracker_kind_of (Tr_List c r) = Tk_List"
| "tracker_kind_of (Tr_Map m es i b) = Tk_Map"
| "tracker_kind_of (Tr_Set b) = Tk_Set"
| "tracker_kind_of (Tr_Option b p) = Tk_Option"
| "tracker_kind_of (Tr_Result k b) = Tk_Result"
| "tracker_kind_of (Tr_DynamicValue d) = Tk_DynamicValue"

fun set_current_child :: "nat \<Rightarrow> tracker \<Rightarrow> tracker" where
  "set_current_child idx (Tr_Struct s c) = Tr_Struct s (Some idx)"
| "set_current_child idx (Tr_Enum v i s c) = Tr_Enum v i s (Some idx)"
| "set_current_child idx (Tr_Array s c) = Tr_Array s (Some idx)"
| "set_current_child idx t = t"

fun clear_current_child :: "tracker \<Rightarrow> tracker" where
  "clear_current_child (Tr_Struct s c) = Tr_Struct s None"
| "clear_current_child (Tr_Enum v i s c) = Tr_Enum v i s None"
| "clear_current_child (Tr_Array s c) = Tr_Array s None"
| "clear_current_child (Tr_List c r) = Tr_List None r"
| "clear_current_child (Tr_Set b) = Tr_Set False"
| "clear_current_child t = t"

text \<open>The bits of the first \<open>n\<close> indices, in order; out of range is a panic.\<close>

definition iset_flags :: "iset \<Rightarrow> nat \<Rightarrow> bool list option" where
  "iset_flags s n = those (map (iset_get s) [0..<n])"

section \<open>New frames\<close>

definition frame_new :: "shapes \<Rightarrow> ptr \<Rightarrow> allocated_shape \<Rightarrow> frame_ownership \<Rightarrow> node_id \<Rightarrow> frame" where
  "frame_new S data allocated ownership type_plan =
     \<lparr>fr_data = data, fr_allocated = allocated,
      fr_is_init = (case sh_ty (S (al_shape allocated)) of
                      Ty_User (User_Struct st) \<Rightarrow> st_fields st = [] | _ \<Rightarrow> False),
      fr_tracker = Tr_Scalar, fr_ownership = ownership, fr_custom = False,
      fr_shape_level_proxy = None, fr_type_plan = type_plan\<rparr>"

definition mark_as_init :: "frame \<Rightarrow> frame" where
  "mark_as_init fr = fr\<lparr>fr_is_init := True\<rparr>"

definition frame_dealloc :: "host \<Rightarrow> frame \<Rightarrow> world \<Rightarrow> world option" where
  "frame_dealloc H fr w =
     (if \<not> needs_dealloc (fr_ownership fr) then Some w
      else if fr_is_init fr then None
      else Some (deallocate H (fr_allocated fr) (fr_data fr) w))"

section \<open>Dropping what is initialised\<close>

definition call_drop_in_place :: "host \<Rightarrow> sref \<Rightarrow> ptr \<Rightarrow> world \<Rightarrow> world" where
  "call_drop_in_place H s p w = (if vt_has_drop (h_vt H s) then emit (Ef_Drop s p) w else w)"

definition from_initialized_frame :: "frame \<Rightarrow> pending_inner" where
  "from_initialized_frame fr =
     \<lparr>pi_data = fr_data fr, pi_allocated = fr_allocated fr, pi_ownership = fr_ownership fr\<rparr>"

definition pending_dealloc_after_move :: "host \<Rightarrow> pending_inner \<Rightarrow> world \<Rightarrow> world" where
  "pending_dealloc_after_move H p w =
     (if needs_dealloc (pi_ownership p) then deallocate H (pi_allocated p) (pi_data p) w else w)"

definition pending_drop_and_dealloc :: "host \<Rightarrow> pending_inner \<Rightarrow> world \<Rightarrow> world" where
  "pending_drop_and_dealloc H p w =
     pending_dealloc_after_move H p
       (if pi_ownership p \<noteq> BorrowedInPlace
        then call_drop_in_place H (al_shape (pi_allocated p)) (pi_data p) w else w)"

definition drop_pending_staging :: "host \<Rightarrow> frame \<Rightarrow> world \<Rightarrow> frame \<times> world" where
  "drop_pending_staging H fr w =
     (case fr_tracker fr of
        Tr_SmartPointer b (Some p) \<Rightarrow>
          (fr\<lparr>fr_tracker := Tr_SmartPointer b None\<rparr>, pending_drop_and_dealloc H p w)
      | _ \<Rightarrow> (fr, w))"

definition drop_whole :: "host \<Rightarrow> frame \<Rightarrow> world \<Rightarrow> world" where
  "drop_whole H fr w = call_drop_in_place H (fr_shape fr) (fr_data fr) w"

definition drop_fields :: "host \<Rightarrow> ptr \<Rightarrow> field list \<Rightarrow> bool list \<Rightarrow> world \<Rightarrow> world" where
  "drop_fields H data fs flags w =
     fold (\<lambda>(is_set, f) w. if is_set
                 then call_drop_in_place H (f_shape f) (ptr_add data (f_offset f)) w else w)
       (zip flags fs) w"

definition drop_elements :: "host \<Rightarrow> ptr \<Rightarrow> sref \<Rightarrow> nat \<Rightarrow> bool list \<Rightarrow> world \<Rightarrow> world" where
  "drop_elements H data t element_size flags w =
     fold (\<lambda>(idx, is_set) w. if is_set
                 then call_drop_in_place H t (ptr_add data (element_size * idx)) w else w)
       (enumerate 0 flags) w"

definition deinit_array :: "host \<Rightarrow> shapes \<Rightarrow> frame \<Rightarrow> iset \<Rightarrow> world \<Rightarrow> world option" where
  "deinit_array H S fr s w =
     (case sh_ty (S (fr_shape fr)) of
        Ty_Sequence (Seq_Array t n) \<Rightarrow>
          (case vt_size (h_vt H t) of
             Some element_size \<Rightarrow>
               map_option (\<lambda>flags. drop_elements H (fr_data fr) t element_size flags w) (iset_flags s n)
           | None \<Rightarrow> Some w)
      | _ \<Rightarrow> Some w)"

definition deinit_struct :: "host \<Rightarrow> shapes \<Rightarrow> frame \<Rightarrow> iset \<Rightarrow> world \<Rightarrow> world option" where
  "deinit_struct H S fr s w =
     (case sh_ty (S (fr_shape fr)) of
        Ty_User (User_Struct st) \<Rightarrow>
          if iset_all_set s (length (st_fields st)) then Some (drop_whole H fr w)
          else map_option (\<lambda>flags. drop_fields H (fr_data fr) (st_fields st) flags w)
                 (iset_flags s (length (st_fields st)))
      | _ \<Rightarrow> Some w)"

definition deinit_enum :: "host \<Rightarrow> frame \<Rightarrow> variant \<Rightarrow> iset \<Rightarrow> world \<Rightarrow> world option" where
  "deinit_enum H fr v s w =
     map_option (\<lambda>flags. drop_fields H (fr_data fr) (st_fields (v_data v)) flags w)
       (iset_flags s (length (st_fields (v_data v))))"

definition deinit_list :: "host \<Rightarrow> shapes \<Rightarrow> frame \<Rightarrow> list_rope option \<Rightarrow> world \<Rightarrow> world option" where
  "deinit_list H S fr rope w =
     map_option (\<lambda>w. if fr_is_init fr then drop_whole H fr w else w)
       (case rope of
          None \<Rightarrow> Some w
        | Some r \<Rightarrow>
            (case sh_def (S (fr_shape fr)) of
               Def_List t \<Rightarrow>
                map_option snd (drop_all (if vt_has_drop (h_vt H t) then Some (Ef_Drop t) else None) r w)
             | _ \<Rightarrow> Some (rope_drop r w)))"

definition drop_and_dealloc :: "host \<Rightarrow> sref \<Rightarrow> ptr \<Rightarrow> world \<Rightarrow> world" where
  "drop_and_dealloc H s p w = dealloc_shape H s p (call_drop_in_place H s p w)"

definition deinit_map ::
    "host \<Rightarrow> shapes \<Rightarrow> frame \<Rightarrow> (ptr \<times> ptr option) list \<Rightarrow> world \<Rightarrow> world" where
  "deinit_map H S fr entries w =
     (let w = (if fr_is_init fr then drop_whole H fr w else w)
      in case sh_def (S (fr_shape fr)) of
           Def_Map k v \<Rightarrow>
             fold (\<lambda>(key_ptr, value_ptr) w.
                 let w = drop_and_dealloc H k key_ptr w
                 in case value_ptr of Some p \<Rightarrow> drop_and_dealloc H v p w | None \<Rightarrow> w) entries w
         | _ \<Rightarrow> w)"

definition deinit_option :: "host \<Rightarrow> shapes \<Rightarrow> frame \<Rightarrow> bool \<Rightarrow> ptr option \<Rightarrow> world \<Rightarrow> world" where
  "deinit_option H S fr building_inner pending w =
     (let w = (case (pending, sh_def (S (fr_shape fr))) of
                 (Some inner_ptr, Def_Option t) \<Rightarrow> drop_and_dealloc H t inner_ptr w
               | _ \<Rightarrow> w)
      in if \<not> building_inner \<and> pending = None then drop_whole H fr w else w)"

definition deinit_dynamic :: "host \<Rightarrow> shapes \<Rightarrow> frame \<Rightarrow> dyn_state \<Rightarrow> world \<Rightarrow> world option" where
  "deinit_dynamic H S fr state w =
     (let s = fr_shape fr;
          w = (case state of
                 Dyn_Object _ entries \<Rightarrow>
                   if sh_def (S s) = Def_DynamicValue
                   then fold (\<lambda>(key, p) w. drop_and_dealloc H s p w) entries w else w
               | Dyn_Array _ elements \<Rightarrow> fold (\<lambda>p w. drop_and_dealloc H s p w) elements w
               | _ \<Rightarrow> w)
      in if \<not> fr_is_init fr then Some w
         else if vt_has_drop (h_vt H s) then Some (drop_whole H fr w)
         else None)"

definition deinit_value :: "host \<Rightarrow> shapes \<Rightarrow> frame \<Rightarrow> world \<Rightarrow> world option" where
  "deinit_value H S fr w =
     (let if_init = (\<lambda>w. if fr_is_init fr then drop_whole H fr w else w)
      in case fr_tracker fr of
           Tr_Scalar \<Rightarrow> Some (if_init w)
         | Tr_Array s _ \<Rightarrow> deinit_array H S fr s w
         | Tr_Struct s _ \<Rightarrow> deinit_struct H S fr s w
         | Tr_Enum v _ s _ \<Rightarrow> deinit_enum H fr v s w
         | Tr_SmartPointer _ (Some p) \<Rightarrow> Some (pending_drop_and_dealloc H p w)
         | Tr_SmartPointer _ None \<Rightarrow> Some (if_init w)
         | Tr_SmartPointerSlice _ _ \<Rightarrow> Some (emit (Ef_Slice_Free (fr_data fr)) w)
         | Tr_List _ rope \<Rightarrow> deinit_list H S fr rope w
         | Tr_Map _ entries _ _ \<Rightarrow> Some (deinit_map H S fr entries w)
         | Tr_Set _ \<Rightarrow> Some (if_init w)
         | Tr_Option b p \<Rightarrow> Some (deinit_option H S fr b p w)
         | Tr_Result _ b \<Rightarrow> Some (if b then w else drop_whole H fr w)
         | Tr_DynamicValue d \<Rightarrow> deinit_dynamic H S fr d w
         | Tr_Inner _ \<Rightarrow> Some (if_init w))"

definition deinit :: "host \<Rightarrow> shapes \<Rightarrow> frame \<Rightarrow> world \<Rightarrow> (frame \<times> world) option" where
  "deinit H S fr w =
     (if fr_ownership fr = BorrowedInPlace
      then (let (fr, w) = drop_pending_staging H fr w
            in Some (fr\<lparr>fr_is_init := False, fr_tracker := Tr_Scalar\<rparr>, w))
      else map_option (\<lambda>w. (fr\<lparr>fr_is_init := False, fr_tracker := Tr_Scalar\<rparr>, w))
             (deinit_value H S fr w))"

definition deinit_for_cancellation :: "host \<Rightarrow> shapes \<Rightarrow> frame \<Rightarrow> world \<Rightarrow> (frame \<times> world) option" where
  "deinit_for_cancellation H S fr w =
     (case fr_tracker fr of
        Tr_Enum v _ s _ \<Rightarrow>
          if iset_all_set s (length (st_fields (v_data v)))
          then deinit H S (fr\<lparr>fr_tracker := Tr_Scalar, fr_is_init := True\<rparr>) w
          else deinit H S fr w
      | _ \<Rightarrow> deinit H S fr w)"

definition deinit_for_replace :: "host \<Rightarrow> shapes \<Rightarrow> frame \<Rightarrow> world \<Rightarrow> (frame \<times> world) option" where
  "deinit_for_replace H S fr w =
     (if fr_ownership fr = BorrowedInPlace \<and> fr_is_init fr
      then (let w = drop_whole H fr w
            in if sh_def (S (fr_shape fr)) = Def_DynamicValue
               then Some (fr\<lparr>fr_tracker := Tr_DynamicValue Dyn_Scalar\<rparr>,
                          emit (Ef_Write (W_Dyn Dyn_Null) (fr_shape fr) (fr_data fr)) w)
               else Some (fr\<lparr>fr_is_init := False, fr_tracker := Tr_Scalar\<rparr>, w))
      else deinit H S fr w)"

end
