(* ===== verification/Frame_Init.thy ===== *)
theory Frame_Init
  imports Frame
begin

text \<open>
  Completing a frame (facet-reflect, src/partial/mod.rs): filling in defaults for the fields that
  were not set, the check that the value is complete, which also moves what is pending (the
  elements in the rope of a list, the entries of a map, the inner value of an option or a smart
  pointer) to its place, and the single pass over the precomputed field plans that stands for both.
\<close>

section \<open>Defaults\<close>

definition default_into :: "sref \<Rightarrow> ptr \<Rightarrow> world \<Rightarrow> world" where
  "default_into s p w = emit (Ef_Write W_Default s p) w"

definition type_defaults :: "shapes \<Rightarrow> field \<Rightarrow> bool \<Rightarrow> bool" where
  "type_defaults S f container_has_default \<longleftrightarrow>
     f_default f = Some FromTrait
     \<or> container_has_default
     \<or> (case sh_def (S (f_shape f)) of Def_Option _ \<Rightarrow> True | _ \<Rightarrow> False)
     \<or> sh_id (S (f_shape f)) = Tid_Scalar ST_Unit
     \<or> (case sh_def (S (f_shape f)) of
          Def_List _ \<Rightarrow> True | Def_Map _ _ \<Rightarrow> True | Def_Set _ \<Rightarrow> True | _ \<Rightarrow> False)"

text \<open>Each of the cases of the code calls \<open>call_default_in_place\<close> and goes on to the next one when
  that gives nothing, which for the same type it then does again.\<close>

definition try_init_field_default ::
    "host \<Rightarrow> shapes \<Rightarrow> field \<Rightarrow> ptr \<Rightarrow> bool \<Rightarrow> world \<Rightarrow> bool \<times> world" where
  "try_init_field_default H S f field_ptr container_has_default w =
     (case f_default f of
        Some (Custom g) \<Rightarrow> (True, emit (Ef_Write (W_Default_Fn g) (f_shape f) field_ptr) w)
      | _ \<Rightarrow>
          if type_defaults S f container_has_default \<and> call_default_in_place H S (f_shape f)
          then (True, default_into (f_shape f) field_ptr w)
          else (False, w))"

fun fill_fields ::
    "host \<Rightarrow> shapes \<Rightarrow> ptr \<Rightarrow> bool \<Rightarrow> (nat \<times> field) list \<Rightarrow> iset \<Rightarrow> world
       \<Rightarrow> (error_kind option \<times> iset \<times> world) option" where
  "fill_fields H S data container_has_default [] s w = Some (None, s, w)"
| "fill_fields H S data container_has_default ((idx, f) # fs) s w =
     (case iset_get s idx of
        None \<Rightarrow> None
      | Some True \<Rightarrow> fill_fields H S data container_has_default fs s w
      | Some False \<Rightarrow>
          (let field_ptr = ptr_add data (f_offset f);
               (filled, w) = try_init_field_default H S f field_ptr container_has_default w
           in if filled
              then (case iset_set s idx of
                      None \<Rightarrow> None
                    | Some s \<Rightarrow> fill_fields H S data container_has_default fs s w)
              else if has_default f then Some (Some (Ek_Default_Attr_No_Impl (f_shape f)), s, w)
              else fill_fields H S data container_has_default fs s w))"

definition has_default_attr :: "shape \<Rightarrow> bool" where
  "has_default_attr s \<longleftrightarrow> shape_has_builtin_attr s ''default''"

definition fill_struct ::
    "host \<Rightarrow> shapes \<Rightarrow> frame \<Rightarrow> iset \<Rightarrow> nat option \<Rightarrow> world \<Rightarrow> frame_result" where
  "fill_struct H S fr s c w =
     (case sh_ty (S (fr_shape fr)) of
        Ty_User (User_Struct st) \<Rightarrow>
          if iset_all_set s (length (st_fields st)) then Some (None, fr, w)
          else (case iset_flags s (length (st_fields st)) of
             None \<Rightarrow> None
           | Some flags \<Rightarrow>
               if list_all Not flags \<and> call_default_in_place H S (fr_shape fr)
               then Some (None, fr\<lparr>fr_tracker := Tr_Scalar, fr_is_init := True\<rparr>,
                          default_into (fr_shape fr) (fr_data fr) w)
               else map_option (\<lambda>(e, s, w). (e, fr\<lparr>fr_tracker := Tr_Struct s c\<rparr>, w))
                      (fill_fields H S (fr_data fr) (has_default_attr (S (fr_shape fr)))
                         (enumerate 0 (st_fields st)) s w))
      | _ \<Rightarrow> Some (None, fr, w))"

definition fill_enum ::
    "host \<Rightarrow> shapes \<Rightarrow> frame \<Rightarrow> variant \<Rightarrow> nat \<Rightarrow> iset \<Rightarrow> nat option \<Rightarrow> world \<Rightarrow> frame_result" where
  "fill_enum H S fr v i s c w =
     (let num_fields = length (st_fields (v_data v))
      in if num_fields = 0 \<or> iset_all_set s num_fields then Some (None, fr, w)
         else map_option (\<lambda>(e, s, w). (e, fr\<lparr>fr_tracker := Tr_Enum v i s c\<rparr>, w))
                (fill_fields H S (fr_data fr) (has_default_attr (S (fr_shape fr)))
                   (enumerate 0 (st_fields (v_data v))) s w))"

definition is_struct_ty :: "facet_type \<Rightarrow> bool" where
  "is_struct_ty t \<longleftrightarrow> (case t of Ty_User (User_Struct _) \<Rightarrow> True | _ \<Rightarrow> False)"

definition is_option_def :: "facet_def \<Rightarrow> bool" where
  "is_option_def d \<longleftrightarrow> (case d of Def_Option _ \<Rightarrow> True | _ \<Rightarrow> False)"

fun struct_fields :: "facet_type \<Rightarrow> field list" where
  "struct_fields (Ty_User (User_Struct st)) = st_fields st"
| "struct_fields t = []"

definition fill_by_tracker :: "host \<Rightarrow> shapes \<Rightarrow> frame \<Rightarrow> world \<Rightarrow> frame_result" where
  "fill_by_tracker H S fr w =
     (case fr_tracker fr of
        Tr_Struct s c \<Rightarrow> fill_struct H S fr s c w
      | Tr_Enum v i s c \<Rightarrow> fill_enum H S fr v i s c w
      | _ \<Rightarrow> Some (None, fr, w))"

definition fill_defaults :: "host \<Rightarrow> shapes \<Rightarrow> frame \<Rightarrow> world \<Rightarrow> frame_result" where
  "fill_defaults H S fr w =
     (let s = fr_shape fr; whole = Some (None, fr\<lparr>fr_is_init := True\<rparr>, default_into s (fr_data fr) w)
      in if \<not> fr_is_init fr \<and> fr_tracker fr = Tr_Scalar \<and> is_struct_ty (sh_ty (S s))
         then (if call_default_in_place H S s then whole
               else fill_by_tracker H S
                      (fr\<lparr>fr_tracker := Tr_Struct (iset_new (length (struct_fields (sh_ty (S s))))) None\<rparr>) w)
         else if \<not> fr_is_init fr \<and> fr_tracker fr = Tr_Scalar \<and> is_option_def (sh_def (S s))
              \<and> call_default_in_place H S s
         then whole
         else fill_by_tracker H S fr w)"

section \<open>Moving what is pending into place\<close>

definition drain_rope_into_vec ::
    "host \<Rightarrow> list_rope \<Rightarrow> sref \<Rightarrow> sref \<Rightarrow> ptr \<Rightarrow> world \<Rightarrow> (error_kind option \<times> world) option" where
  "drain_rope_into_vec H rope list_shape t list_data w =
     (let count = rp_initialized_count rope
      in if count = 0 then Some (None, rope_drop rope w)
         else if \<not> vt_list_push (h_vt H list_shape)
         then Some (Some (Ek_Operation_Failed t ''List missing push function for rope drain''),
                    rope_drop rope w)
         else
           (let w = (if vt_list_reserve (h_vt H list_shape)
                     then emit (Ef_Reserve list_shape list_data count) w else w)
            in map_option (\<lambda>(r, w). (None, w))
                 (drain_into (\<lambda>p. Ef_Push P_List list_shape list_data t p) rope w)))"

fun drain_pending_into_map ::
    "host \<Rightarrow> (ptr \<times> ptr option) list \<Rightarrow> sref \<Rightarrow> sref \<Rightarrow> sref \<Rightarrow> ptr \<Rightarrow> world
       \<Rightarrow> error_kind option \<times> world" where
  "drain_pending_into_map H [] map_shape k v map_data w = (None, w)"
| "drain_pending_into_map H ((key_ptr, None) # es) map_shape k v map_data w =
     (Some (Ek_Invariant_Violation
        ''map pending_entries contains half-entry (key without value) at finalize''), w)"
| "drain_pending_into_map H ((key_ptr, Some value_ptr) # es) map_shape k v map_data w =
     (let w = emit (Ef_Map_Insert map_shape map_data (k, key_ptr) (v, value_ptr)) w;
          w = dealloc_shape H k key_ptr w;
          w = dealloc_shape H v value_ptr w
      in drain_pending_into_map H es map_shape k v map_data w)"

definition complete_pending_option ::
    "host \<Rightarrow> sref \<Rightarrow> sref \<Rightarrow> ptr \<Rightarrow> ptr \<Rightarrow> world \<Rightarrow> world" where
  "complete_pending_option H option_shape t option_data inner_ptr w =
     dealloc_shape H t inner_ptr (emit (Ef_Build B_Some option_shape option_data t inner_ptr) w)"

text \<open>Whether a pointer is made by borrowing the pointee and promoting the borrow: the entries must
  exist, and the pointee be sized and of the staged shape.\<close>

definition can_borrow_and_promote :: "host \<Rightarrow> shapes \<Rightarrow> sref \<Rightarrow> sref option \<Rightarrow> sref \<Rightarrow> bool" where
  "can_borrow_and_promote H S smart_ptr_shape pointee inner_shape \<longleftrightarrow>
     vt_borrow_promote (h_vt H smart_ptr_shape)
     \<and> (case pointee of
          Some p \<Rightarrow> same_shape S p inner_shape \<and> vt_size (h_vt H p) \<noteq> None
        | None \<Rightarrow> False)"

definition complete_pending_smart_pointer ::
    "host \<Rightarrow> shapes \<Rightarrow> sref \<Rightarrow> sref option \<Rightarrow> ptr \<Rightarrow> pending_inner \<Rightarrow> world \<Rightarrow> error_kind option \<times> world" where
  "complete_pending_smart_pointer H S smart_ptr_shape pointee smart_ptr_data pending w =
     (let inner_shape = al_shape (pi_allocated pending); inner_data = pi_data pending;
          vt = h_vt H smart_ptr_shape;
          build = (\<lambda>how. emit (Ef_Build how smart_ptr_shape smart_ptr_data inner_shape inner_data) w)
      in if vt_new_into vt \<and> (case pointee of Some p \<Rightarrow> same_shape S p inner_shape | None \<Rightarrow> False)
         then (None, pending_dealloc_after_move H pending (build B_New_Into))
         else if can_borrow_and_promote H S smart_ptr_shape pointee inner_shape
         then (None, pending_drop_and_dealloc H pending (build B_Borrow_Promote))
         else if (case pointee of Some p \<Rightarrow> same_shape S p (h_str_shape H) | None \<Rightarrow> False)
                 \<and> same_shape S inner_shape (h_string_shape H)
         then (case vt_known vt of
                 None \<Rightarrow>
                   (Some (Ek_Operation_Failed smart_ptr_shape
                      ''SmartPointer<str> missing known pointer type''),
                    pending_drop_and_dealloc H pending w)
               | Some known \<Rightarrow>
                   if known \<in> {Kp_Box, Kp_Arc, Kp_Rc, Kp_Cow}
                   then (None, pending_dealloc_after_move H pending (build (B_String known)))
                   else (Some (Ek_Operation_Failed smart_ptr_shape ''Unsupported SmartPointer<str> type''),
                         pending_drop_and_dealloc H pending w))
         else (Some (Ek_Operation_Failed smart_ptr_shape
                 ''SmartPointer missing an owned construction capability and not a supported unsized type''),
               pending_drop_and_dealloc H pending w))"

section \<open>Is the value complete?\<close>

definition uninit :: "frame \<Rightarrow> error_kind option" where
  "uninit fr = Some (Ek_Uninitialized_Value (fr_shape fr))"

definition first_missing :: "bool list \<Rightarrow> nat option" where
  "first_missing flags = List.find (\<lambda>i. \<not> flags ! i) [0..<length flags]"

definition missing_field :: "frame \<Rightarrow> field list \<Rightarrow> bool list \<Rightarrow> error_kind option" where
  "missing_field fr fs flags =
     (case first_missing flags of
        Some i \<Rightarrow> Some (Ek_Uninitialized_Field (fr_shape fr) (f_name (fs ! i)))
      | None \<Rightarrow> uninit fr)"

definition require_array :: "shapes \<Rightarrow> frame \<Rightarrow> iset \<Rightarrow> error_kind option option" where
  "require_array S fr s =
     (case sh_ty (S (fr_shape fr)) of
        Ty_Sequence (Seq_Array t n) \<Rightarrow>
          map_option (\<lambda>flags. if list_all id flags then None else uninit fr) (iset_flags s n)
      | _ \<Rightarrow> Some (uninit fr))"

definition require_struct :: "shapes \<Rightarrow> frame \<Rightarrow> iset \<Rightarrow> error_kind option option" where
  "require_struct S fr s =
     (case sh_ty (S (fr_shape fr)) of
        Ty_User (User_Struct st) \<Rightarrow>
          if iset_all_set s (length (st_fields st)) then Some None
          else map_option (missing_field fr (st_fields st)) (iset_flags s (length (st_fields st)))
      | _ \<Rightarrow> Some (uninit fr))"

definition require_enum :: "frame \<Rightarrow> variant \<Rightarrow> iset \<Rightarrow> error_kind option option" where
  "require_enum fr v s =
     (if st_fields (v_data v) = [] then Some None
      else map_option (\<lambda>flags. if list_all id flags then None
                 else missing_field fr (st_fields (v_data v)) flags)
             (iset_flags s (length (st_fields (v_data v)))))"

definition require_dynamic :: "host \<Rightarrow> shapes \<Rightarrow> frame \<Rightarrow> dyn_state \<Rightarrow> world \<Rightarrow> frame_result" where
  "require_dynamic H S fr state w =
     (let s = fr_shape fr; is_dyn = sh_def (S s) = Def_DynamicValue
      in case state of
           Dyn_Uninit \<Rightarrow> Some (uninit fr, fr, w)
         | Dyn_Scalar \<Rightarrow> Some (None, fr, w)
         | Dyn_Object st entries \<Rightarrow>
             if st \<noteq> Dyn_Idle then Some (uninit fr, fr, w)
             else if entries \<noteq> [] \<and> is_dyn
             then Some (None, fr\<lparr>fr_tracker := Tr_DynamicValue (Dyn_Object st [])\<rparr>,
                    fold (\<lambda>(key, p) w. dealloc_shape H s p
                        (emit (Ef_Push (P_Dyn_Insert key) s (fr_data fr) s p) w)) entries w)
             else Some (None, fr, w)
         | Dyn_Array building elements \<Rightarrow>
             if building then Some (uninit fr, fr, w)
             else if elements \<noteq> [] \<and> is_dyn
             then Some (None, fr\<lparr>fr_tracker := Tr_DynamicValue (Dyn_Array building [])\<rparr>,
                    fold (\<lambda>p w. dealloc_shape H s p
                        (emit (Ef_Push P_Dyn_Push s (fr_data fr) s p) w)) elements w)
             else Some (None, fr, w))"

definition require_smart_pointer ::
    "host \<Rightarrow> shapes \<Rightarrow> frame \<Rightarrow> bool \<Rightarrow> pending_inner option \<Rightarrow> world \<Rightarrow> frame_result" where
  "require_smart_pointer H S fr building_inner pending w =
     (if building_inner then Some (uninit fr, fr, w)
      else case pending of
        Some p \<Rightarrow>
          (let fr = fr\<lparr>fr_tracker := Tr_SmartPointer building_inner None\<rparr>
           in case sh_def (S (fr_shape fr)) of
                Def_Pointer pointee \<Rightarrow>
                  (let (e, w) = complete_pending_smart_pointer H S (fr_shape fr) pointee (fr_data fr) p w
                   in Some (e, fr\<lparr>fr_is_init := (e = None)\<rparr>, w))
              | _ \<Rightarrow>
                  Some (Some (Ek_Operation_Failed (fr_shape fr)
                          ''SmartPointer frame without SmartPointer definition''),
                        fr\<lparr>fr_is_init := False\<rparr>, pending_drop_and_dealloc H p w))
      | None \<Rightarrow> Some (if fr_is_init fr then None else uninit fr, fr, w))"

definition require_list ::
    "host \<Rightarrow> shapes \<Rightarrow> frame \<Rightarrow> nat option \<Rightarrow> list_rope option \<Rightarrow> world \<Rightarrow> frame_result" where
  "require_list H S fr c rope w =
     (if fr_is_init fr \<and> c = None
      then (case rope of
              None \<Rightarrow> Some (None, fr, w)
            | Some r \<Rightarrow>
                (let fr = fr\<lparr>fr_tracker := Tr_List c None\<rparr>
                 in case sh_def (S (fr_shape fr)) of
                      Def_List t \<Rightarrow>
                        map_option (\<lambda>(e, w). (e, fr, w))
                          (drain_rope_into_vec H r (fr_shape fr) t (fr_data fr) w)
                    | _ \<Rightarrow> Some (None, fr, rope_drop r w)))
      else Some (uninit fr, fr, w))"

definition require_map ::
    "host \<Rightarrow> shapes \<Rightarrow> frame \<Rightarrow> map_insert_state \<Rightarrow> (ptr \<times> ptr option) list \<Rightarrow> nat option \<Rightarrow> bool
       \<Rightarrow> world \<Rightarrow> frame_result" where
  "require_map H S fr st entries idx building_key w =
     (if fr_is_init fr \<and> st = Map_Idle
      then (case sh_def (S (fr_shape fr)) of
              Def_Map k v \<Rightarrow>
                if entries = [] then Some (None, fr, w)
                else (let (e, w) = drain_pending_into_map H entries (fr_shape fr) k v (fr_data fr) w
                      in Some (e, fr\<lparr>fr_tracker := Tr_Map st [] idx building_key\<rparr>, w))
            | _ \<Rightarrow> Some (None, fr, w))
      else Some (uninit fr, fr, w))"

definition require_full_initialization :: "host \<Rightarrow> shapes \<Rightarrow> frame \<Rightarrow> world \<Rightarrow> frame_result" where
  "require_full_initialization H S fr w =
     (let unless = (\<lambda>ok. Some (if ok then None else uninit fr, fr, w));
          checked = map_option (\<lambda>e. (e, fr, w))
      in case fr_tracker fr of
           Tr_Scalar \<Rightarrow> unless (fr_is_init fr)
         | Tr_Array s _ \<Rightarrow> checked (require_array S fr s)
         | Tr_Struct s _ \<Rightarrow> checked (require_struct S fr s)
         | Tr_Enum v _ s _ \<Rightarrow> checked (require_enum fr v s)
         | Tr_SmartPointer b p \<Rightarrow> require_smart_pointer H S fr b p w
         | Tr_SmartPointerSlice b _ \<Rightarrow> unless (\<not> b)
         | Tr_List c rope \<Rightarrow> require_list H S fr c rope w
         | Tr_Map st es i b \<Rightarrow> require_map H S fr st es i b w
         | Tr_Set c \<Rightarrow> unless (fr_is_init fr \<and> \<not> c)
         | Tr_Option b p \<Rightarrow>
             if b then Some (uninit fr, fr, w)
             else (case (p, sh_def (S (fr_shape fr))) of
                     (Some inner_ptr, Def_Option t) \<Rightarrow>
                       Some (None, fr\<lparr>fr_tracker := Tr_Option b None\<rparr>,
                         complete_pending_option H (fr_shape fr) t (fr_data fr) inner_ptr w)
                   | _ \<Rightarrow> Some (None, fr\<lparr>fr_tracker := Tr_Option b None\<rparr>, w))
         | Tr_Result _ b \<Rightarrow> unless (\<not> b)
         | Tr_Inner b \<Rightarrow> unless (\<not> b \<and> fr_is_init fr)
         | Tr_DynamicValue d \<Rightarrow> require_dynamic H S fr d w)"

section \<open>Both in one pass\<close>

definition run_validators ::
    "host \<Rightarrow> sref \<Rightarrow> string \<Rightarrow> ptr \<Rightarrow> validator_kind list \<Rightarrow> world \<Rightarrow> error_kind option option" where
  "run_validators H container name field_ptr vs w =
     ofold (\<lambda>v e. if e \<noteq> None then Some e
         else map_option (\<lambda>result. case result of
                  Inr u \<Rightarrow> None
                | Inl (ValidationFailed s n message) \<Rightarrow> Some (Ek_Validation_Failed s n message))
                (validator_run (h_regex H) (h_call H) v (h_value_at H (w_log w) field_ptr) name container))
       vs None"

definition fill_field_by_rule ::
    "host \<Rightarrow> shapes \<Rightarrow> sref \<Rightarrow> ptr \<Rightarrow> field_plan \<Rightarrow> world \<Rightarrow> error_kind option \<times> world" where
  "fill_field_by_rule H S container data p w =
     (let field_ptr = ptr_add data (fp_offset p);
          missing = (Some (Ek_Uninitialized_Field container (fp_name p)), w)
      in case fp_fill_rule p of
           Fill_Required \<Rightarrow> missing
         | Fill_Defaultable (Default_Custom g) \<Rightarrow>
             (None, emit (Ef_Write (W_Default_Fn g) (fp_field_shape p) field_ptr) w)
         | Fill_Defaultable (Default_FromTrait s) \<Rightarrow>
             if call_default_in_place H S s then (None, default_into s field_ptr w) else missing)"

fun fill_plans ::
    "host \<Rightarrow> shapes \<Rightarrow> plan_core \<Rightarrow> sref \<Rightarrow> ptr \<Rightarrow> bool \<Rightarrow> field_plan list \<Rightarrow> iset \<Rightarrow> world
       \<Rightarrow> (error_kind option \<times> iset \<times> world) option" where
  "fill_plans H S c container data all_fields_set [] s w = Some (None, s, w)"
| "fill_plans H S c container data all_fields_set (p # ps) s w =
     (let validate = (\<lambda>s w.
            if range_is_empty (fp_validators p) then fill_plans H S c container data all_fields_set ps s w
            else case plan_validators_of c (fp_validators p) of
                   None \<Rightarrow> None
                 | Some vs \<Rightarrow>
                     (case run_validators H container (fp_name p) (ptr_add data (fp_offset p)) vs w of
                        None \<Rightarrow> None
                      | Some (Some e) \<Rightarrow> Some (Some e, s, w)
                      | Some None \<Rightarrow> fill_plans H S c container data all_fields_set ps s w))
      in case (if all_fields_set then Some True else iset_get s (fp_index p)) of
           None \<Rightarrow> None
         | Some True \<Rightarrow> validate s w
         | Some False \<Rightarrow>
             (case fill_field_by_rule H S container data p w of
                (Some e, w) \<Rightarrow> Some (Some e, s, w)
              | (None, w) \<Rightarrow>
                  (case iset_set s (fp_index p) of None \<Rightarrow> None | Some s \<Rightarrow> validate s w)))"

definition fill_tracked ::
    "host \<Rightarrow> shapes \<Rightarrow> plan_core \<Rightarrow> field_plan list \<Rightarrow> nat \<Rightarrow> frame \<Rightarrow> iset \<Rightarrow> (iset \<Rightarrow> tracker) \<Rightarrow> world
       \<Rightarrow> frame_result" where
  "fill_tracked H S c plans num_fields fr bits put w =
     map_option (\<lambda>(e, bits, w). (e, fr\<lparr>fr_tracker := put bits\<rparr>, w))
       (fill_plans H S c (fr_shape fr) (fr_data fr) (iset_all_set bits num_fields) plans bits w)"

definition fill_and_require_fields ::
    "host \<Rightarrow> shapes \<Rightarrow> plan_core \<Rightarrow> field_plan list \<Rightarrow> nat \<Rightarrow> frame \<Rightarrow> world \<Rightarrow> frame_result" where
  "fill_and_require_fields H S c plans num_fields fr w =
     (let s = fr_shape fr
      in case fr_tracker fr of
           Tr_Struct bits child \<Rightarrow>
             fill_tracked H S c plans num_fields fr bits (\<lambda>bits. Tr_Struct bits child) w
         | Tr_Enum v i bits child \<Rightarrow>
             fill_tracked H S c plans num_fields fr bits (\<lambda>bits. Tr_Enum v i bits child) w
         | Tr_Scalar \<Rightarrow>
             if \<not> fr_is_init fr \<and> is_struct_ty (sh_ty (S s))
             then (if call_default_in_place H S s
                   then Some (None, fr\<lparr>fr_is_init := True\<rparr>, default_into s (fr_data fr) w)
                   else fill_tracked H S c plans num_fields fr (iset_new num_fields) (\<lambda>bits. Tr_Struct bits None) w)
             else Some (None, fr, w)
         | _ \<Rightarrow> Some (None, fr, w))"

section \<open>The field a frame points at\<close>

definition frame_get_field :: "shapes \<Rightarrow> frame \<Rightarrow> field option" where
  "frame_get_field S fr =
     (case sh_ty (S (fr_shape fr)) of
        Ty_User (User_Struct st) \<Rightarrow>
          (case fr_tracker fr of Tr_Struct s (Some idx) \<Rightarrow> nth_opt (st_fields st) idx | _ \<Rightarrow> None)
      | Ty_User (User_Enum e) \<Rightarrow>
          (case fr_tracker fr of
             Tr_Enum v i s (Some idx) \<Rightarrow> nth_opt (st_fields (v_data v)) idx | _ \<Rightarrow> None)
      | _ \<Rightarrow> None)"

definition get_enum_type :: "shapes \<Rightarrow> frame \<Rightarrow> error_kind + enum_type" where
  "get_enum_type S fr =
     (case sh_ty (S (fr_shape fr)) of
        Ty_User (User_Enum e) \<Rightarrow> Inr e
      | _ \<Rightarrow> Inl (Ek_Was_Not_A ''enum'' (fr_shape fr)))"

end
