(* ===== verification/Partial.thy ===== *)
theory Partial
  imports Frame_Init
begin

text \<open>
  Partial values (facet-reflect, src/partial/mod.rs, src/partial/partial_api/alloc.rs, part of
  misc.rs): the stack of frames, in strict mode and in deferred mode with the frames stored by
  their path, the paths, creation and destruction. A method that takes the partial value and
  returns a \<open>Result\<close> gives an \<open>attempt\<close>: \<open>Panic\<close>, \<open>Failed\<close> with the error, or \<open>Done\<close>. When it
  fails, the partial value it was called on is dropped, and so is in the world that is returned;
  its body, of type \<open>body\<close>, still has the value as the code left it.
\<close>

section \<open>State\<close>

datatype frame_mode =
  Strict "frame list"
| Deferred "frame list" nat "(path, frame) btmap"

datatype partial_state = Active | Built

record partial =
  pt_mode :: frame_mode
  pt_state :: partial_state
  pt_plan :: plan_core

fun mode_stack :: "frame_mode \<Rightarrow> frame list" where
  "mode_stack (Strict stack) = stack"
| "mode_stack (Deferred stack d stored) = stack"

fun mode_set_stack :: "frame_mode \<Rightarrow> frame list \<Rightarrow> frame_mode" where
  "mode_set_stack (Strict stack) stack' = Strict stack'"
| "mode_set_stack (Deferred stack d stored) stack' = Deferred stack' d stored"

fun mode_is_deferred :: "frame_mode \<Rightarrow> bool" where
  "mode_is_deferred (Strict stack) = False"
| "mode_is_deferred (Deferred stack d stored) = True"

fun mode_start_depth :: "frame_mode \<Rightarrow> nat option" where
  "mode_start_depth (Strict stack) = None"
| "mode_start_depth (Deferred stack d stored) = Some d"

definition frames :: "partial \<Rightarrow> frame list" where
  "frames p = mode_stack (pt_mode p)"

definition set_frames :: "frame list \<Rightarrow> partial \<Rightarrow> partial" where
  "set_frames stack p = p\<lparr>pt_mode := mode_set_stack (pt_mode p) stack\<rparr>"

definition set_top :: "frame \<Rightarrow> partial \<Rightarrow> partial" where
  "set_top fr p = set_frames (butlast (frames p) @ [fr]) p"

definition push_frame :: "frame \<Rightarrow> partial \<Rightarrow> partial" where
  "push_frame fr p = set_frames (frames p @ [fr]) p"

definition is_deferred :: "partial \<Rightarrow> bool" where
  "is_deferred p = mode_is_deferred (pt_mode p)"

fun mode_stored :: "frame_mode \<Rightarrow> (path, frame) btmap" where
  "mode_stored (Strict stack) = []"
| "mode_stored (Deferred stack d stored) = stored"

fun mode_set_stored :: "(path, frame) btmap \<Rightarrow> frame_mode \<Rightarrow> frame_mode" where
  "mode_set_stored m (Strict stack) = Strict stack"
| "mode_set_stored m (Deferred stack d stored) = Deferred stack d m"

definition stored_frames :: "partial \<Rightarrow> (path, frame) btmap" where
  "stored_frames p = mode_stored (pt_mode p)"

definition set_stored :: "(path, frame) btmap \<Rightarrow> partial \<Rightarrow> partial" where
  "set_stored m p = p\<lparr>pt_mode := mode_set_stored m (pt_mode p)\<rparr>"

definition btm_remove :: "'k \<Rightarrow> ('k, 'v) btmap \<Rightarrow> ('k, 'v) btmap" where
  "btm_remove k m = filter (\<lambda>e. fst e \<noteq> k) m"

section \<open>Outcomes\<close>

datatype attempt = Panic | Failed error_kind path world | Done partial world

datatype body = B_Panic | B_Fail error_kind path partial world | B_Ok partial world

section \<open>Paths\<close>

text \<open>The step a frame contributes to the path of its child.\<close>

fun tracker_step :: "tracker \<Rightarrow> path_step list" where
  "tracker_step (Tr_Struct s (Some idx)) = [Step_Field (of_nat idx)]"
| "tracker_step (Tr_Enum v i s (Some idx)) = [Step_Field (of_nat idx)]"
| "tracker_step (Tr_List (Some idx) r) = [Step_Index (of_nat idx)]"
| "tracker_step (Tr_Array s (Some idx)) = [Step_Index (of_nat idx)]"
| "tracker_step (Tr_Option True p) = [Step_OptionSome]"
| "tracker_step (Tr_SmartPointer True p) = [Step_Deref]"
| "tracker_step (Tr_SmartPointerSlice b (Some idx)) = [Step_Index (of_nat idx)]"
| "tracker_step (Tr_Inner True) = [Step_Inner]"
| "tracker_step (Tr_Map st es (Some idx) True) = [Step_MapKey (of_nat idx)]"
| "tracker_step (Tr_Map st es (Some idx) False) = [Step_MapValue (of_nat idx)]"
| "tracker_step t = []"

definition proxy_step :: "frame \<Rightarrow> path_step list" where
  "proxy_step following = (if fr_custom following then [Step_Proxy] else [])"

text \<open>The steps of all frames, and, for the path under which the top frame is stored, those of
  all frames but the top one.\<close>

fun derive_steps :: "frame list \<Rightarrow> path_step list" where
  "derive_steps [] = []"
| "derive_steps [f] = tracker_step (fr_tracker f)"
| "derive_steps (f # g # fs) = tracker_step (fr_tracker f) @ proxy_step g @ derive_steps (g # fs)"

fun storage_steps :: "frame list \<Rightarrow> path_step list" where
  "storage_steps [] = []"
| "storage_steps [f] = []"
| "storage_steps (f # g # fs) = tracker_step (fr_tracker f) @ proxy_step g @ storage_steps (g # fs)"

definition root_shape_or_unit :: "host \<Rightarrow> partial \<Rightarrow> sref" where
  "root_shape_or_unit H p = (case frames p of [] \<Rightarrow> h_unit_shape H | f # _ \<Rightarrow> fr_shape f)"

definition derive_path :: "host \<Rightarrow> partial \<Rightarrow> path" where
  "derive_path H p = \<lparr>p_shape = root_shape_or_unit H p, p_steps = derive_steps (frames p)\<rparr>"

definition storage_path :: "host \<Rightarrow> partial \<Rightarrow> path" where
  "storage_path H p = \<lparr>p_shape = root_shape_or_unit H p, p_steps = storage_steps (frames p)\<rparr>"

text \<open>The path of an error: by the type of each frame.\<close>

definition frame_path_steps :: "shapes \<Rightarrow> frame \<Rightarrow> path_step list" where
  "frame_path_steps S fr =
     (case sh_ty (S (fr_shape fr)) of
        Ty_User (User_Struct st) \<Rightarrow>
          (case fr_tracker fr of Tr_Struct s (Some idx) \<Rightarrow> [Step_Field (of_nat idx)] | _ \<Rightarrow> [])
      | Ty_User (User_Enum e) \<Rightarrow>
          (case fr_tracker fr of
             Tr_Enum v i s c \<Rightarrow>
               (if i < length (et_variants e) then [Step_Variant (of_nat i)] else [])
               @ (case c of Some idx \<Rightarrow> [Step_Field (of_nat idx)] | None \<Rightarrow> [])
           | _ \<Rightarrow> [])
      | Ty_User User_Opaque \<Rightarrow>
          (case fr_tracker fr of Tr_List (Some idx) r \<Rightarrow> [Step_Index (of_nat idx)] | _ \<Rightarrow> [])
      | Ty_Sequence (Seq_Array t n) \<Rightarrow>
          (case fr_tracker fr of Tr_Array s (Some idx) \<Rightarrow> [Step_Index (of_nat idx)] | _ \<Rightarrow> [])
      | Ty_Pointer _ \<Rightarrow> [Step_Deref]
      | _ \<Rightarrow> [])"

definition partial_path :: "host \<Rightarrow> shapes \<Rightarrow> partial \<Rightarrow> path" where
  "partial_path H S p =
     \<lparr>p_shape = root_shape_or_unit H p, p_steps = concat (map (frame_path_steps S) (frames p))\<rparr>"

definition fails :: "host \<Rightarrow> shapes \<Rightarrow> partial \<Rightarrow> world \<Rightarrow> error_kind \<Rightarrow> body" where
  "fails H S p w kind = B_Fail kind (partial_path H S p) p w"

section \<open>Destruction\<close>

fun unset_field_in_tracker :: "nat \<Rightarrow> tracker \<Rightarrow> tracker option" where
  "unset_field_in_tracker idx (Tr_Struct s c) = map_option (\<lambda>s. Tr_Struct s c) (iset_unset s idx)"
| "unset_field_in_tracker idx (Tr_Enum v i s c) = map_option (\<lambda>s. Tr_Enum v i s c) (iset_unset s idx)"
| "unset_field_in_tracker idx (Tr_Array s c) = map_option (\<lambda>s. Tr_Array s c) (iset_unset s idx)"
| "unset_field_in_tracker idx t = Some t"

definition unset_in_frame :: "nat \<Rightarrow> frame \<Rightarrow> frame option" where
  "unset_in_frame idx fr =
     map_option (\<lambda>t. fr\<lparr>fr_tracker := t\<rparr>) (unset_field_in_tracker idx (fr_tracker fr))"

text \<open>The destructor leaves the bits of an array alone when it drops a stored frame.\<close>

definition unset_in_parent_on_drop :: "nat \<Rightarrow> frame \<Rightarrow> frame option" where
  "unset_in_parent_on_drop idx fr =
     (case fr_tracker fr of Tr_Array s c \<Rightarrow> Some fr | _ \<Rightarrow> unset_in_frame idx fr)"

definition parent_path :: "path \<Rightarrow> path" where
  "parent_path p = p\<lparr>p_steps := butlast (p_steps p)\<rparr>"

text \<open>The parent of a stored frame: another stored frame, or the frame of the stack at the depth
  of its path.\<close>

definition update_parent ::
    "(frame \<Rightarrow> frame option) \<Rightarrow> path \<Rightarrow> frame list \<times> (path, frame) btmap
       \<Rightarrow> (frame list \<times> (path, frame) btmap) option" where
  "update_parent f pp = (\<lambda>(stack, stored).
     case btm_get stored pp of
       Some fr \<Rightarrow> map_option (\<lambda>fr. (stack, btm_insert pp fr stored)) (f fr)
     | None \<Rightarrow>
         (let idx = length (p_steps pp)
          in if idx < length stack
             then map_option (\<lambda>fr. (stack[idx := fr], stored)) (f (stack ! idx))
             else Some (stack, stored)))"

definition clear_parent_bit ::
    "(nat \<Rightarrow> frame \<Rightarrow> frame option) \<Rightarrow> path \<Rightarrow> frame list \<times> (path, frame) btmap
       \<Rightarrow> (frame list \<times> (path, frame) btmap) option" where
  "clear_parent_bit unset path st =
     (if p_steps path = [] then Some st
      else case last (p_steps path) of
             Step_Field i \<Rightarrow> update_parent (unset (unat i)) (parent_path path) st
           | _ \<Rightarrow> Some st)"

text \<open>Stored frames are dropped with the longest paths first.\<close>

definition deepest_first :: "path list \<Rightarrow> path list" where
  "deepest_first ps = sort_key (\<lambda>p. - int (length (p_steps p))) ps"

fun drop_stored ::
    "(frame \<Rightarrow> world \<Rightarrow> (frame \<times> world) option) \<Rightarrow> (nat \<Rightarrow> frame \<Rightarrow> frame option) \<Rightarrow> host \<Rightarrow> path list
       \<Rightarrow> frame list \<times> (path, frame) btmap \<Rightarrow> world
       \<Rightarrow> ((frame list \<times> (path, frame) btmap) \<times> world) option" where
  "drop_stored clean unset H [] st w = Some (st, w)"
| "drop_stored clean unset H (path # ps) (stack, stored) w =
     (case btm_get stored path of
        None \<Rightarrow> drop_stored clean unset H ps (stack, stored) w
      | Some fr \<Rightarrow>
          Option.bind (clear_parent_bit unset path (stack, btm_remove path stored)) (\<lambda>st.
          Option.bind (clean fr w) (\<lambda>(fr, w).
          Option.bind (frame_dealloc H fr w) (\<lambda>w. drop_stored clean unset H ps st w))))"

text \<open>The frames of the stack, topmost first (the list is the stack upside down).\<close>

definition release_field :: "frame \<Rightarrow> frame list \<Rightarrow> frame list option" where
  "release_field fr below =
     (case (fr_ownership fr, below) of
        (Own_Field idx, parent # rest) \<Rightarrow>
          map_option (\<lambda>parent. parent # rest) (unset_in_frame idx parent)
      | _ \<Rightarrow> Some below)"

fun drop_stack_loop :: "host \<Rightarrow> shapes \<Rightarrow> nat \<Rightarrow> frame list \<Rightarrow> world \<Rightarrow> world option" where
  "drop_stack_loop H S 0 top_first w = Some w"
| "drop_stack_loop H S (Suc n) top_first w =
     (case top_first of
        [] \<Rightarrow> Some w
      | fr # below \<Rightarrow>
          Option.bind (release_field fr below) (\<lambda>below.
          Option.bind (deinit_for_cancellation H S fr w) (\<lambda>(fr, w).
          Option.bind (frame_dealloc H fr w) (\<lambda>w. drop_stack_loop H S n below w))))"

definition drop_stack :: "host \<Rightarrow> shapes \<Rightarrow> frame list \<Rightarrow> world \<Rightarrow> world option" where
  "drop_stack H S stack w = drop_stack_loop H S (length stack) (rev stack) w"

definition partial_drop :: "host \<Rightarrow> shapes \<Rightarrow> partial \<Rightarrow> world \<Rightarrow> world option" where
  "partial_drop H S p w =
     Option.bind (drop_stored (deinit_for_cancellation H S) unset_in_parent_on_drop H
                    (deepest_first (map fst (stored_frames p)))
                    (frames p, stored_frames p) w)
       (\<lambda>((stack, stored), w). drop_stack H S stack w)"

text \<open>A method that fails drops the value it was called on.\<close>

fun attempt_of :: "host \<Rightarrow> shapes \<Rightarrow> body \<Rightarrow> attempt" where
  "attempt_of H S B_Panic = Panic"
| "attempt_of H S (B_Fail e path p w) =
     (case partial_drop H S p w of None \<Rightarrow> Panic | Some w \<Rightarrow> Failed e path w)"
| "attempt_of H S (B_Ok p w) = Done p w"

fun and_then :: "attempt \<Rightarrow> (partial \<Rightarrow> world \<Rightarrow> attempt) \<Rightarrow> attempt" where
  "and_then Panic f = Panic"
| "and_then (Failed e path w) f = Failed e path w"
| "and_then (Done p w) f = f p w"

section \<open>Creation\<close>

text \<open>The value, or the error of an unsized type.\<close>

definition create_partial_internal ::
    "host \<Rightarrow> shapes \<Rightarrow> plan_core \<Rightarrow> node_id \<Rightarrow> world \<Rightarrow> ((partial \<times> world) option) option" where
  "create_partial_internal H S plan type_plan_id w =
     map_option (\<lambda>node.
       let s = nd_shape node
       in map_option (\<lambda>size.
            let (data, w) = alloc_for_layout size w
            in (\<lparr>pt_mode = Strict [frame_new S data (allocated_new s size) Owned type_plan_id],
                 pt_state = Active, pt_plan = plan\<rparr>, w)) (vt_size (h_vt H s)))
       (node_at plan type_plan_id)"

definition alloc_with_plan :: "host \<Rightarrow> shapes \<Rightarrow> plan_core \<Rightarrow> world \<Rightarrow> ((partial \<times> world) option) option" where
  "alloc_with_plan H S plan w = create_partial_internal H S plan (pc_root plan) w"

definition from_raw ::
    "host \<Rightarrow> shapes \<Rightarrow> ptr \<Rightarrow> plan_core \<Rightarrow> node_id \<Rightarrow> (partial option) option" where
  "from_raw H S data plan type_plan_id =
     map_option (\<lambda>node.
       let s = nd_shape node
       in map_option (\<lambda>size.
            \<lparr>pt_mode = Strict [frame_new S data (allocated_new s size) External type_plan_id],
             pt_state = Active, pt_plan = plan\<rparr>) (vt_size (h_vt H s)))
       (node_at plan type_plan_id)"

definition enter_deferred :: "partial \<Rightarrow> partial" where
  "enter_deferred p = p\<lparr>pt_mode := Deferred (frames p) (length (frames p)) []\<rparr>"

definition begin_deferred_body :: "host \<Rightarrow> shapes \<Rightarrow> partial \<Rightarrow> world \<Rightarrow> body" where
  "begin_deferred_body H S p w =
     (if is_deferred p
      then fails H S p w
             (Ek_Invariant_Violation ''begin_deferred() called but already in deferred mode'')
      else B_Ok (p\<lparr>pt_mode := Deferred (frames p) (length (frames p)) []\<rparr>) w)"

definition begin_deferred :: "host \<Rightarrow> shapes \<Rightarrow> partial \<Rightarrow> world \<Rightarrow> attempt" where
  "begin_deferred H S p w = attempt_of H S (begin_deferred_body H S p w)"

section \<open>Queries\<close>

definition partial_is_active :: "partial \<Rightarrow> bool" where
  "partial_is_active p \<longleftrightarrow> pt_state p = Active"

definition frame_count :: "partial \<Rightarrow> nat" where
  "frame_count p = length (frames p)"

definition top_frame :: "partial \<Rightarrow> frame option" where
  "top_frame p = (if frames p = [] then None else Some (last (frames p)))"

definition try_shape :: "partial \<Rightarrow> sref option" where
  "try_shape p = (if pt_state p \<noteq> Active then None else map_option fr_shape (top_frame p))"

definition current_path :: "host \<Rightarrow> partial \<Rightarrow> path option" where
  "current_path H p = (if is_deferred p then Some (derive_path H p) else None)"

definition parent_field :: "shapes \<Rightarrow> partial \<Rightarrow> field option" where
  "parent_field S p =
     (let fs = frames p
      in if 2 \<le> length fs then frame_get_field S (fs ! (length fs - 2)) else None)"

definition current_field :: "shapes \<Rightarrow> partial \<Rightarrow> field option" where
  "current_field S p = Option.bind (top_frame p) (frame_get_field S)"

fun find_map :: "('a \<Rightarrow> 'b option) \<Rightarrow> 'a list \<Rightarrow> 'b option" where
  "find_map f [] = None"
| "find_map f (x # xs) = (case f x of Some y \<Rightarrow> Some y | None \<Rightarrow> find_map f xs)"

definition nearest_field :: "shapes \<Rightarrow> partial \<Rightarrow> field option" where
  "nearest_field S p = find_map (frame_get_field S) (rev (frames p))"

definition plan_node_id :: "partial \<Rightarrow> node_id option" where
  "plan_node_id p = (if pt_state p \<noteq> Active then None else map_option fr_type_plan (top_frame p))"

definition deser_strategy_of :: "partial \<Rightarrow> deser_strategy option option" where
  "deser_strategy_of p =
     (case plan_node_id p of
        None \<Rightarrow> Some None
      | Some i \<Rightarrow>
          Option.bind (node_at (pt_plan p) i) (\<lambda>nd.
            map_option (\<lambda>resolved. Some (nd_strategy resolved)) (resolve_backref (pt_plan p) nd)))"

definition proxy_nodes_of :: "partial \<Rightarrow> proxy_nodes option option" where
  "proxy_nodes_of p =
     (case plan_node_id p of
        None \<Rightarrow> Some None
      | Some i \<Rightarrow>
          Option.bind (node_at (pt_plan p) i) (\<lambda>nd.
            map_option (\<lambda>resolved. Some (nd_proxies resolved)) (resolve_backref (pt_plan p) nd)))"

definition is_building_smart_ptr_slice :: "partial \<Rightarrow> bool" where
  "is_building_smart_ptr_slice p \<longleftrightarrow> pt_state p = Active
     \<and> (case top_frame p of
          Some fr \<Rightarrow> tracker_kind_of (fr_tracker fr) = Tk_SmartPointerSlice
        | None \<Rightarrow> False)"

end
