(* ===== verification/Partial_Fields.thy ===== *)
theory Partial_Fields
  imports Partial
begin

text \<open>
  Entering the fields of structs, enum variants and arrays, selecting variants, and setting whole
  values (facet-reflect, src/partial/partial_api: internal.rs, fields.rs, eenum.rs, set.rs and the
  array part of lists.rs). The discriminant is written as a number, not at its width.
\<close>

section \<open>Child frames\<close>

definition child_frame :: "host \<Rightarrow> shapes \<Rightarrow> ptr \<Rightarrow> sref \<Rightarrow> nat \<Rightarrow> nat \<Rightarrow> node_id \<Rightarrow> bool \<Rightarrow> frame" where
  "child_frame H S data s sz idx child_plan_id was_field_init =
     (let next_frame = frame_new S data (allocated_new s sz) (Own_Field idx) child_plan_id
      in if was_field_init then mark_as_init next_frame else next_frame)"

text \<open>The result of a helper that works on the parent frame: an error or the child, and the parent.\<close>

type_synonym child_result = "((error_kind + frame) \<times> frame) option"

definition begin_nth_struct_field ::
    "host \<Rightarrow> shapes \<Rightarrow> frame \<Rightarrow> struct_type \<Rightarrow> nat \<Rightarrow> node_id \<Rightarrow> child_result" where
  "begin_nth_struct_field H S fr st idx child_plan_id =
     (let fs = st_fields st
      in if length fs \<le> idx
         then Some (Inl (Ek_Operation_Failed (fr_shape fr) ''field index out of bounds''), fr)
         else
           (let f = fs ! idx;
                bits = (case fr_tracker fr of
                          Tr_Struct s c \<Rightarrow> s
                        | Tr_Scalar \<Rightarrow>
                            if fr_is_init fr then iset_set_all (iset_new (length fs)) (length fs)
                            else iset_new (length fs)
                        | _ \<Rightarrow> iset_new (length fs))
            in case (iset_get bits idx, iset_unset bits idx, vt_size (h_vt H (f_shape f))) of
                 (Some was_field_init, Some bits, Some field_size) \<Rightarrow>
                   Some (Inr (child_frame H S (ptr_add (fr_data fr) (f_offset f)) (f_shape f) field_size
                                idx child_plan_id was_field_init),
                         fr\<lparr>fr_tracker := Tr_Struct bits (Some idx)\<rparr>)
               | _ \<Rightarrow> None))"

definition begin_nth_array_element ::
    "host \<Rightarrow> shapes \<Rightarrow> frame \<Rightarrow> sref \<Rightarrow> nat \<Rightarrow> nat \<Rightarrow> node_id \<Rightarrow> child_result" where
  "begin_nth_array_element H S fr t n idx child_plan_id =
     (if n \<le> idx
      then Some (Inl (Ek_Operation_Failed (fr_shape fr) ''array index out of bounds''), fr)
      else if 63 < n
      then Some (Inl (Ek_Operation_Failed (fr_shape fr)
                  ''arrays larger than 63 elements are not yet supported''), fr)
      else case (case fr_tracker fr of
                   Tr_Scalar \<Rightarrow> if fr_is_init fr then None else Some iset_default
                 | Tr_Array s c \<Rightarrow> Some s
                 | _ \<Rightarrow> None) of
             None \<Rightarrow>
               Some (Inl (Ek_Operation_Failed (fr_shape fr)
                       ''unexpected tracker state: expected uninitialized Scalar or Array''), fr)
           | Some bits \<Rightarrow>
               (case (iset_get bits idx, iset_unset bits idx) of
                  (Some was_field_init, Some bits) \<Rightarrow>
                    (let fr = fr\<lparr>fr_tracker := Tr_Array bits (Some idx)\<rparr>
                     in case vt_size (h_vt H t) of
                          None \<Rightarrow>
                            Some (Inl (Ek_Unsized t ''begin_nth_element, calculating array element offset''), fr)
                        | Some element_size \<Rightarrow>
                            Some (Inr (child_frame H S (ptr_add (fr_data fr) (element_size * idx)) t element_size
                                         idx child_plan_id was_field_init), fr))
                | _ \<Rightarrow> None))"

definition begin_nth_enum_field ::
    "host \<Rightarrow> shapes \<Rightarrow> frame \<Rightarrow> variant \<Rightarrow> nat \<Rightarrow> node_id \<Rightarrow> child_result" where
  "begin_nth_enum_field H S fr v idx child_plan_id =
     (if length (st_fields (v_data v)) \<le> idx
      then Some (Inl (Ek_Operation_Failed (fr_shape fr) ''enum field index out of bounds''), fr)
      else
        (let f = st_fields (v_data v) ! idx
         in case fr_tracker fr of
              Tr_Enum v' i bits c \<Rightarrow>
                (case (iset_get bits idx, iset_unset bits idx, vt_size (h_vt H (f_shape f))) of
                   (Some was_field_init, Some bits, Some field_size) \<Rightarrow>
                     Some (Inr (child_frame H S (ptr_add (fr_data fr) (f_offset f)) (f_shape f) field_size
                                  idx child_plan_id was_field_init),
                           fr\<lparr>fr_tracker := Tr_Enum v' i bits (Some idx)\<rparr>)
                 | _ \<Rightarrow> None)
            | _ \<Rightarrow>
                Some (Inl (Ek_Operation_Failed (fr_shape fr)
                        ''selecting a field on an enum requires selecting a variant first''), fr)))"

section \<open>Fields\<close>

definition get_fields :: "shapes \<Rightarrow> frame \<Rightarrow> error_kind + field list" where
  "get_fields S fr =
     (let fail = (\<lambda>m. Inl (Ek_Operation_Failed (fr_shape fr) m))
      in case sh_ty (S (fr_shape fr)) of
           Ty_Undefined \<Rightarrow> fail ''shape type is undefined - shape was not properly configured''
         | Ty_Primitive _ \<Rightarrow> fail ''cannot select a field from a primitive type''
         | Ty_Sequence _ \<Rightarrow> fail ''cannot select a field from a sequence type''
         | Ty_Pointer _ \<Rightarrow> fail ''cannot select a field from a pointer type''
         | Ty_User (User_Struct st) \<Rightarrow> Inr (st_fields st)
         | Ty_User (User_Enum e) \<Rightarrow>
             (case fr_tracker fr of
                Tr_Enum v i s c \<Rightarrow> Inr (st_fields (v_data v))
              | _ \<Rightarrow> fail ''must select variant before selecting enum fields'')
         | Ty_User (User_Union _) \<Rightarrow> fail ''cannot select a field from a union type''
         | Ty_User User_Opaque \<Rightarrow> fail ''opaque types cannot be reflected upon'')"

text \<open>What is done to a stored frame before it goes back on the stack.\<close>

fun reset_option_step :: "tracker \<Rightarrow> tracker" where
  "reset_option_step (Tr_Option b p) = Tr_Option False p"
| "reset_option_step t = t"

definition restore_frame :: "frame \<Rightarrow> frame" where
  "restore_frame fr = fr\<lparr>fr_tracker := reset_option_step (clear_current_child (fr_tracker fr))\<rparr>"

text \<open>The child on top of its parent, or the parent with the error.\<close>

definition enter_child :: "host \<Rightarrow> shapes \<Rightarrow> partial \<Rightarrow> world \<Rightarrow> child_result \<Rightarrow> body" where
  "enter_child H S p w r =
     (case r of
        None \<Rightarrow> B_Panic
      | Some (Inl e, fr) \<Rightarrow> fails H S (set_top fr p) w e
      | Some (Inr child, fr) \<Rightarrow> B_Ok (push_frame child (set_top fr p)) w)"

definition expect_node :: "node_id option option \<Rightarrow> (node_id \<Rightarrow> body) \<Rightarrow> body" where
  "expect_node r f = (case r of Some (Some i) \<Rightarrow> f i | _ \<Rightarrow> B_Panic)"

definition begin_new_field :: "host \<Rightarrow> shapes \<Rightarrow> nat \<Rightarrow> partial \<Rightarrow> frame \<Rightarrow> world \<Rightarrow> body" where
  "begin_new_field H S idx p fr w =
     (let s = fr_shape fr; parent_node = fr_type_plan fr;
          fail = (\<lambda>m. fails H S p w (Ek_Operation_Failed s m))
      in case sh_ty (S s) of
           Ty_User (User_Struct st) \<Rightarrow>
             if length (st_fields st) \<le> idx then fail ''field index out of bounds''
             else expect_node (struct_field_node_id (pt_plan p) parent_node idx) (\<lambda>child_plan_id.
                    enter_child H S p w (begin_nth_struct_field H S fr st idx child_plan_id))
         | Ty_User (User_Enum e) \<Rightarrow>
             (case fr_tracker fr of
                Tr_Enum v variant_idx bits c \<Rightarrow>
                  expect_node (enum_variant_field_node_id (pt_plan p) parent_node variant_idx idx)
                    (\<lambda>child_plan_id.
                      enter_child H S p w (begin_nth_enum_field H S fr v idx child_plan_id))
              | _ \<Rightarrow> fail ''must call select_variant before selecting enum fields'')
         | Ty_User (User_Union _) \<Rightarrow> fail ''cannot select a field from a union''
         | Ty_User User_Opaque \<Rightarrow> fail ''cannot select a field from an opaque type''
         | Ty_Sequence (Seq_Array t n) \<Rightarrow>
             expect_node (list_item_node_id (pt_plan p) parent_node) (\<lambda>child_plan_id.
               enter_child H S p w (begin_nth_array_element H S fr t n idx child_plan_id))
         | Ty_Sequence (Seq_Slice t) \<Rightarrow> fail ''cannot select a field from slices yet''
         | _ \<Rightarrow> fail ''cannot select a field from this type'')"

definition field_check_path :: "host \<Rightarrow> partial \<Rightarrow> nat \<Rightarrow> path" where
  "field_check_path H p idx = path_push (derive_path H p) (Step_Field (of_nat idx))"

definition reenter_field :: "path \<Rightarrow> nat \<Rightarrow> partial \<Rightarrow> frame \<Rightarrow> frame \<Rightarrow> partial" where
  "reenter_field check_path idx p fr stored =
     push_frame (restore_frame stored)
       (set_top (fr\<lparr>fr_tracker := set_current_child idx (fr_tracker fr)\<rparr>)
         (set_stored (btm_remove check_path (stored_frames p)) p))"

definition begin_nth_field_body :: "host \<Rightarrow> shapes \<Rightarrow> nat \<Rightarrow> partial \<Rightarrow> world \<Rightarrow> body" where
  "begin_nth_field_body H S idx p w =
     (case top_frame p of
        None \<Rightarrow> B_Panic
      | Some fr \<Rightarrow>
          (let check_path = field_check_path H p idx
           in case (if is_deferred p then btm_get (stored_frames p) check_path else None) of
                Some stored \<Rightarrow> B_Ok (reenter_field check_path idx p fr stored) w
              | None \<Rightarrow> begin_new_field H S idx p fr w))"

definition begin_nth_field :: "host \<Rightarrow> shapes \<Rightarrow> nat \<Rightarrow> partial \<Rightarrow> world \<Rightarrow> attempt" where
  "begin_nth_field H S idx p w = attempt_of H S (begin_nth_field_body H S idx p w)"

definition begin_field :: "host \<Rightarrow> shapes \<Rightarrow> string \<Rightarrow> partial \<Rightarrow> world \<Rightarrow> attempt" where
  "begin_field H S name p w =
     (case top_frame p of
        None \<Rightarrow> Panic
      | Some fr \<Rightarrow>
          (case get_fields S fr of
             Inl e \<Rightarrow> attempt_of H S (fails H S p w e)
           | Inr fs \<Rightarrow>
               (case position (\<lambda>f. f_name f = name) fs of
                  None \<Rightarrow> attempt_of H S (fails H S p w (Ek_No_Such_Field (fr_shape fr)))
                | Some idx \<Rightarrow> begin_nth_field H S idx p w)))"

definition field_index :: "partial \<Rightarrow> string \<Rightarrow> nat option option" where
  "field_index p name =
     (case top_frame p of
        None \<Rightarrow> Some None
      | Some fr \<Rightarrow>
          Option.bind (struct_plan_by_id (pt_plan p) (fr_type_plan fr)) (\<lambda>sp. case sp of
            Some sp \<Rightarrow> field_find (pt_plan p) (sp_field_lookup sp) name
          | None \<Rightarrow>
              Option.bind (enum_plan_by_id (pt_plan p) (fr_type_plan fr)) (\<lambda>ep.
                case (ep, fr_tracker fr) of
                  (Some ep, Tr_Enum v variant_idx bits c) \<Rightarrow>
                    Option.bind (plan_variants_of (pt_plan p) (ep_variants ep)) (\<lambda>vs.
                      case nth_opt vs variant_idx of
                        None \<Rightarrow> Some None
                      | Some v \<Rightarrow> field_find (pt_plan p) (vm_field_lookup v) name)
                | _ \<Rightarrow> Some None)))"

definition is_set_in_tracker :: "shapes \<Rightarrow> frame \<Rightarrow> nat \<Rightarrow> (error_kind + bool) option" where
  "is_set_in_tracker S fr index =
     (let one_field = (\<lambda>b reason. if index = 0 then Some (Inr (\<not> b))
            else Some (Inl (Ek_Invalid_Operation ''is_field_set'' reason)))
      in case fr_tracker fr of
           Tr_Scalar \<Rightarrow> Some (Inr (fr_is_init fr))
         | Tr_Struct s c \<Rightarrow> map_option Inr (iset_get s index)
         | Tr_Enum v i s c \<Rightarrow>
             map_option (\<lambda>b. Inr (b \<or>
                 (case nth_opt (st_fields (v_data v)) index of
                    Some f \<Rightarrow> is_struct_ty (sh_ty (S (f_shape f))) \<and> struct_fields (sh_ty (S (f_shape f))) = []
                  | None \<Rightarrow> False))) (iset_get s index)
         | Tr_Option b p \<Rightarrow> one_field b ''Option only has one field (index 0)''
         | Tr_Result k b \<Rightarrow> one_field b ''Result only has one field (index 0)''
         | _ \<Rightarrow> Some (Inl (Ek_Invalid_Operation ''is_field_set''
                   ''Current frame is not a struct, enum variant, option, or result'')))"

definition is_field_set :: "host \<Rightarrow> shapes \<Rightarrow> partial \<Rightarrow> nat \<Rightarrow> (error_kind + bool) option" where
  "is_field_set H S p index =
     (case top_frame p of
        None \<Rightarrow> Some (Inl Ek_No_Active_Frame)
      | Some fr \<Rightarrow>
          map_option (\<lambda>r. case r of
              Inl e \<Rightarrow> Inl e
            | Inr b \<Rightarrow> Inr (b \<or> is_deferred p
                         \<and> btm_get (stored_frames p) (field_check_path H p index) \<noteq> None))
            (is_set_in_tracker S fr index))"

section \<open>Variants\<close>

definition unsupported_repr :: "enum_repr_kind \<Rightarrow> string option" where
  "unsupported_repr r =
     (case r of
        ER_Rust \<Rightarrow> Some ''Rust enums with unspecified discriminant layout are not supported for incremental building''
      | ER_RustNPO \<Rightarrow> Some ''RustNPO enums are not supported for incremental building''
      | _ \<Rightarrow> None)"

text \<open>The stored frames below a path, dropped in the order of the map: their values, not their
  memory, and without a word to their parents.\<close>

definition is_below :: "path \<Rightarrow> path \<Rightarrow> bool" where
  "is_below current p \<longleftrightarrow> length (p_steps current) < length (p_steps p)
     \<and> take (length (p_steps current)) (p_steps p) = p_steps current
     \<and> p_shape p = p_shape current"

fun deinit_paths ::
    "host \<Rightarrow> shapes \<Rightarrow> path list \<Rightarrow> (path, frame) btmap \<Rightarrow> world \<Rightarrow> ((path, frame) btmap \<times> world) option" where
  "deinit_paths H S [] stored w = Some (stored, w)"
| "deinit_paths H S (path # ps) stored w =
     (case btm_get stored path of
        None \<Rightarrow> deinit_paths H S ps stored w
      | Some fr \<Rightarrow>
          Option.bind (deinit H S fr w) (\<lambda>(fr, w).
            deinit_paths H S ps (btm_remove path stored) w))"

definition forget_old_variant :: "host \<Rightarrow> shapes \<Rightarrow> partial \<Rightarrow> world \<Rightarrow> (partial \<times> world) option" where
  "forget_old_variant H S p w =
     (if is_deferred p
      then map_option (\<lambda>(stored, w). (set_stored stored p, w))
             (deinit_paths H S (filter (is_below (derive_path H p)) (map fst (stored_frames p)))
                (stored_frames p) w)
      else Some (p, w))"

definition select_variant_body ::
    "host \<Rightarrow> shapes \<Rightarrow> enum_type \<Rightarrow> nat \<Rightarrow> variant \<Rightarrow> partial \<Rightarrow> frame \<Rightarrow> world \<Rightarrow> body" where
  "select_variant_body H S e variant_idx v p fr w =
     (case unsupported_repr (et_enum_repr e) of
        Some m \<Rightarrow> fails H S p w (Ek_Operation_Failed (fr_shape fr) m)
      | None \<Rightarrow>
          (case v_discriminant v of
             None \<Rightarrow> fails H S p w (Ek_Operation_Failed (fr_shape fr)
                       ''trying to select an enum variant without a discriminant'')
           | Some d \<Rightarrow>
               (let fresh = iset_new (length (st_fields (v_data v)));
                    (bits, switching) = (case fr_tracker fr of
                        Tr_Enum v' existing_idx bits c \<Rightarrow>
                          if existing_idx = variant_idx then (bits, False) else (fresh, True)
                      | _ \<Rightarrow> (fresh, False))
                in case (if switching then forget_old_variant H S p w else Some (p, w)) of
                     None \<Rightarrow> B_Panic
                   | Some (p, w) \<Rightarrow>
                       B_Ok (set_top (fr\<lparr>fr_tracker := Tr_Enum v variant_idx bits None\<rparr>) p)
                         (emit (Ef_Discriminant (fr_shape fr) (fr_data fr) d) w))))"

definition select_nth_variant :: "host \<Rightarrow> shapes \<Rightarrow> nat \<Rightarrow> partial \<Rightarrow> world \<Rightarrow> attempt" where
  "select_nth_variant H S index p w =
     (case top_frame p of
        None \<Rightarrow> Panic
      | Some fr \<Rightarrow>
          attempt_of H S
            (case get_enum_type S fr of
               Inl err \<Rightarrow> fails H S p w err
             | Inr e \<Rightarrow>
                 if length (et_variants e) \<le> index
                 then fails H S p w (Ek_Operation_Failed (fr_shape fr) ''variant index out of bounds'')
                 else select_variant_body H S e index (et_variants e ! index) p fr w))"

definition select_variant_named :: "host \<Rightarrow> shapes \<Rightarrow> string \<Rightarrow> partial \<Rightarrow> world \<Rightarrow> attempt" where
  "select_variant_named H S name p w =
     (case top_frame p of
        None \<Rightarrow> Panic
      | Some fr \<Rightarrow>
          attempt_of H S
            (case get_enum_type S fr of
               Inl err \<Rightarrow> fails H S p w err
             | Inr e \<Rightarrow>
                 (case enum_plan_by_id (pt_plan p) (fr_type_plan fr) of
                    Some (Some ep) \<Rightarrow>
                      (case vlookup_find (ep_variant_lookup ep) name of
                         None \<Rightarrow> fails H S p w (Ek_Operation_Failed (fr_shape fr)
                                   ''No variant found with the given name'')
                       | Some index \<Rightarrow>
                           if length (et_variants e) \<le> index then B_Panic
                           else select_variant_body H S e index (et_variants e ! index) p fr w)
                  | _ \<Rightarrow> B_Panic)))"

definition select_variant :: "host \<Rightarrow> shapes \<Rightarrow> int \<Rightarrow> partial \<Rightarrow> world \<Rightarrow> attempt" where
  "select_variant H S discriminant p w =
     (case top_frame p of
        None \<Rightarrow> Panic
      | Some fr \<Rightarrow>
          attempt_of H S
            (case get_enum_type S fr of
               Inl err \<Rightarrow> fails H S p w err
             | Inr e \<Rightarrow>
                 (case position (\<lambda>v. v_discriminant v = Some discriminant) (et_variants e) of
                    None \<Rightarrow> fails H S p w (Ek_Operation_Failed (fr_shape fr)
                              ''No variant found with the given discriminant'')
                  | Some index \<Rightarrow> select_variant_body H S e index (et_variants e ! index) p fr w)))"

definition partial_variant :: "partial \<Rightarrow> variant option" where
  "partial_variant p =
     (case top_frame p of
        Some fr \<Rightarrow> (case fr_tracker fr of Tr_Enum v i bits c \<Rightarrow> Some v | _ \<Rightarrow> None)
      | None \<Rightarrow> None)"

definition find_variant :: "partial \<Rightarrow> string \<Rightarrow> (nat \<times> variant) option option" where
  "find_variant p name =
     (case top_frame p of
        None \<Rightarrow> Some None
      | Some fr \<Rightarrow>
          Option.bind (enum_plan_by_id (pt_plan p) (fr_type_plan fr)) (\<lambda>ep. case ep of
            None \<Rightarrow> Some None
          | Some ep \<Rightarrow>
              (case vlookup_find (ep_variant_lookup ep) name of
                 None \<Rightarrow> Some None
               | Some idx \<Rightarrow>
                   Option.bind (plan_variants_of (pt_plan p) (ep_variants ep)) (\<lambda>vs.
                     map_option (\<lambda>v. Some (idx, vm_variant v)) (nth_opt vs idx)))))"

definition selected_variant_plan :: "partial \<Rightarrow> variant_meta option option" where
  "selected_variant_plan p =
     (case top_frame p of
        None \<Rightarrow> Some None
      | Some fr \<Rightarrow>
          Option.bind (enum_plan_by_id (pt_plan p) (fr_type_plan fr)) (\<lambda>ep.
            case (ep, fr_tracker fr) of
              (Some ep, Tr_Enum v variant_idx bits c) \<Rightarrow>
                map_option (\<lambda>vs. nth_opt vs variant_idx) (plan_variants_of (pt_plan p) (ep_variants ep))
            | _ \<Rightarrow> Some None))"

section \<open>Arrays\<close>

definition init_array :: "host \<Rightarrow> shapes \<Rightarrow> partial \<Rightarrow> world \<Rightarrow> attempt" where
  "init_array H S p w =
     (case top_frame p of
        None \<Rightarrow> Panic
      | Some fr \<Rightarrow>
          attempt_of H S
            (let fail = (\<lambda>m. fails H S p w (Ek_Operation_Failed (fr_shape fr) m))
             in case sh_def (S (fr_shape fr)) of
                  Def_Array t n \<Rightarrow>
                    if 63 < n then fail ''arrays larger than 63 elements are not yet supported''
                    else (case fr_tracker fr of
                            Tr_Scalar \<Rightarrow>
                              if fr_is_init fr then fail ''init_array: unexpected tracker state''
                              else B_Ok (set_top (fr\<lparr>fr_tracker := Tr_Array iset_default None\<rparr>) p) w
                          | Tr_Array s c \<Rightarrow> B_Ok p w
                          | _ \<Rightarrow> fail ''init_array: unexpected tracker state'')
                | _ \<Rightarrow> fail ''init_array can only be called on Array types''))"

section \<open>Whole values\<close>

text \<open>Dropping the old value of the top frame and writing a new one.\<close>

definition replace_value ::
    "host \<Rightarrow> shapes \<Rightarrow> partial \<Rightarrow> frame \<Rightarrow> world \<Rightarrow> (partial \<Rightarrow> frame \<Rightarrow> world \<Rightarrow> body) \<Rightarrow> body" where
  "replace_value H S p fr w put =
     (case deinit_for_replace H S fr w of
        None \<Rightarrow> B_Panic
      | Some (fr, w) \<Rightarrow> put (set_top fr p) fr w)"

definition written :: "write_kind \<Rightarrow> partial \<Rightarrow> frame \<Rightarrow> world \<Rightarrow> body" where
  "written how p fr w =
     B_Ok (set_top (mark_as_init fr) p) (emit (Ef_Write how (fr_shape fr) (fr_data fr)) w)"

text \<open>The scalar a value of another type becomes in a dynamic value, or the error; and whether the
  source is dropped after its content was copied.\<close>

definition dynamic_scalar_of :: "host \<Rightarrow> shapes \<Rightarrow> sref \<Rightarrow> string + (dyn_scalar \<times> bool)" where
  "dynamic_scalar_of H S src =
     (let size_bits = (case vt_size (h_vt H src) of Some n \<Rightarrow> n * 8 | None \<Rightarrow> 0)
      in case sh_ty (S src) of
           Ty_Primitive Prim_Boolean \<Rightarrow> Inr (Dyn_Bool, False)
         | Ty_Primitive (Prim_Numeric Num_Float) \<Rightarrow>
             if size_bits \<in> {32, 64} then Inr (Dyn_F64, False)
             else Inl ''unsupported float size for dynamic value''
         | Ty_Primitive (Prim_Numeric (Num_Integer True)) \<Rightarrow>
             if size_bits \<in> {8, 16, 32, 64} then Inr (Dyn_I64, False)
             else Inl ''unsupported signed integer size for dynamic value''
         | Ty_Primitive (Prim_Numeric (Num_Integer False)) \<Rightarrow>
             if size_bits \<in> {8, 16, 32, 64} then Inr (Dyn_U64, False)
             else Inl ''unsupported unsigned integer size for dynamic value''
         | Ty_Primitive (Prim_Textual _) \<Rightarrow> Inr (Dyn_Str, False)
         | _ \<Rightarrow>
             if sh_id (S src) = Tid_VecU8 then Inr (Dyn_Bytes, True)
             else if sh_id (S src) = Tid_Scalar ST_String then Inr (Dyn_Str, True)
             else Inl ''cannot convert this type to dynamic value'')"

definition set_into_dynamic_value ::
    "host \<Rightarrow> shapes \<Rightarrow> ptr \<Rightarrow> sref \<Rightarrow> partial \<Rightarrow> frame \<Rightarrow> world \<Rightarrow> body" where
  "set_into_dynamic_value H S src_value src p fr w =
     replace_value H S p fr w (\<lambda>p fr w.
       if same_shape S (fr_shape fr) src then written W_Move_In p fr w
       else case dynamic_scalar_of H S src of
              Inl m \<Rightarrow> fails H S p w (Ek_Operation_Failed src m)
            | Inr (d, drop_source) \<Rightarrow>
                (let w = emit (Ef_Write (W_Dyn d) (fr_shape fr) (fr_data fr)) w;
                     w = (if drop_source then call_drop_in_place H src src_value w else w)
                 in B_Ok (set_top (mark_as_init (fr\<lparr>fr_tracker := Tr_DynamicValue Dyn_Scalar\<rparr>)) p) w))"

definition set_shape_body :: "host \<Rightarrow> shapes \<Rightarrow> ptr \<Rightarrow> sref \<Rightarrow> partial \<Rightarrow> world \<Rightarrow> body" where
  "set_shape_body H S src_value src p w =
     (case top_frame p of
        None \<Rightarrow> B_Panic
      | Some fr \<Rightarrow>
          if sh_def (S (fr_shape fr)) = Def_DynamicValue
          then set_into_dynamic_value H S src_value src p fr w
          else if \<not> same_shape S (fr_shape fr) src
          then fails H S p w (Ek_Wrong_Shape (fr_shape fr) src)
          else replace_value H S p fr w (written W_Move_In))"

definition set_shape :: "host \<Rightarrow> shapes \<Rightarrow> ptr \<Rightarrow> sref \<Rightarrow> partial \<Rightarrow> world \<Rightarrow> attempt" where
  "set_shape H S src_value src p w = attempt_of H S (set_shape_body H S src_value src p w)"

text \<open>Setting by a closure, given by what it writes or its error.\<close>

definition set_from_function_body ::
    "host \<Rightarrow> shapes \<Rightarrow> (frame \<Rightarrow> error_kind + write_kind) \<Rightarrow> partial \<Rightarrow> world \<Rightarrow> body" where
  "set_from_function_body H S f p w =
     (case top_frame p of
        None \<Rightarrow> B_Panic
      | Some fr \<Rightarrow>
          replace_value H S p fr w (\<lambda>p fr w.
            case f fr of Inl e \<Rightarrow> fails H S p w e | Inr how \<Rightarrow> written how p fr w))"

definition set_from_function ::
    "host \<Rightarrow> shapes \<Rightarrow> (frame \<Rightarrow> error_kind + write_kind) \<Rightarrow> partial \<Rightarrow> world \<Rightarrow> attempt" where
  "set_from_function H S f p w = attempt_of H S (set_from_function_body H S f p w)"

definition default_of :: "host \<Rightarrow> shapes \<Rightarrow> frame \<Rightarrow> error_kind + write_kind" where
  "default_of H S fr =
     (if call_default_in_place H S (fr_shape fr) then Inr W_Default
      else Inl (Ek_Operation_Failed (fr_shape fr) ''type does not implement Default''))"

definition set_default :: "host \<Rightarrow> shapes \<Rightarrow> partial \<Rightarrow> world \<Rightarrow> attempt" where
  "set_default H S p w = set_from_function H S (default_of H S) p w"

definition parse_from_str :: "host \<Rightarrow> shapes \<Rightarrow> string \<Rightarrow> partial \<Rightarrow> world \<Rightarrow> attempt" where
  "parse_from_str H S input p w =
     (case top_frame p of
        None \<Rightarrow> Panic
      | Some fr \<Rightarrow>
          attempt_of H S (replace_value H S p fr w (\<lambda>p fr w.
            if sh_parse (S (fr_shape fr)) = None
            then fails H S p w (Ek_Operation_Failed (fr_shape fr) ''Type does not support parsing from string'')
            else if h_parse H (w_log w) then written W_Parse p fr w
            else fails H S p w (Ek_Parse_Failed (fr_shape fr) input))))"

definition parse_from_bytes :: "host \<Rightarrow> shapes \<Rightarrow> partial \<Rightarrow> world \<Rightarrow> attempt" where
  "parse_from_bytes H S p w =
     (case top_frame p of
        None \<Rightarrow> Panic
      | Some fr \<Rightarrow>
          attempt_of H S (replace_value H S p fr w (\<lambda>p fr w.
            let fail = (\<lambda>m. fails H S p w (Ek_Operation_Failed (fr_shape fr) m))
            in if \<not> vt_parse_bytes (h_vt H (fr_shape fr))
               then fail ''Type does not support parsing from bytes''
               else if h_parse H (w_log w) then written W_Parse p fr w
               else fail ''Failed to parse bytes value'')))"

text \<open>An empty slice behind a shared reference, whatever the type of its elements.\<close>

definition set_empty_shared_slice :: "host \<Rightarrow> shapes \<Rightarrow> partial \<Rightarrow> world \<Rightarrow> attempt" where
  "set_empty_shared_slice H S p w =
     (case top_frame p of
        None \<Rightarrow> Panic
      | Some fr \<Rightarrow>
          attempt_of H S
            (let s = fr_shape fr; fail = (\<lambda>m. fails H S p w (Ek_Operation_Failed s m))
             in case (sh_def (S s), vt_known (h_vt H s)) of
                  (Def_Pointer pointee, Some Kp_SharedReference) \<Rightarrow>
                    (case pointee of
                       None \<Rightarrow> fail ''shared reference pointer missing pointee shape''
                     | Some t \<Rightarrow>
                         (case sh_def (S t) of
                            Def_Slice u \<Rightarrow> replace_value H S p fr w (written W_Empty_Slice)
                          | _ \<Rightarrow> fail ''set_empty_shared_slice requires a slice pointee''))
                | _ \<Rightarrow> fail ''set_empty_shared_slice requires a shared slice reference''))"

definition set_datetime :: "host \<Rightarrow> shapes \<Rightarrow> partial \<Rightarrow> world \<Rightarrow> attempt" where
  "set_datetime H S p w =
     (case top_frame p of
        None \<Rightarrow> Panic
      | Some fr \<Rightarrow>
          attempt_of H S
            (let s = fr_shape fr
             in if sh_def (S s) \<noteq> Def_DynamicValue
                then fails H S p w (Ek_Operation_Failed s ''set_datetime requires a DynamicValue target'')
                else if \<not> vt_set_datetime (h_vt H s)
                then fails H S p w (Ek_Operation_Failed s ''dynamic value type does not support datetime'')
                else replace_value H S p fr w (\<lambda>p fr w.
                       B_Ok (set_top (mark_as_init (fr\<lparr>fr_tracker := Tr_DynamicValue Dyn_Scalar\<rparr>)) p)
                         (emit (Ef_Write (W_Dyn Dyn_DateTime) s (fr_data fr)) w))))"

section \<open>Building a value again\<close>

definition needs_cleanup :: "frame \<Rightarrow> bool" where
  "needs_cleanup fr \<longleftrightarrow> fr_tracker fr \<noteq> Tr_Scalar \<or> fr_is_init fr"

definition owns_place :: "frame_ownership \<Rightarrow> bool" where
  "owns_place ow \<longleftrightarrow> (case ow of Owned \<Rightarrow> True | Own_Field i \<Rightarrow> True | _ \<Rightarrow> False)"

definition prepare_for_reinitialization ::
    "host \<Rightarrow> shapes \<Rightarrow> partial \<Rightarrow> world \<Rightarrow> (bool \<times> partial \<times> world) option" where
  "prepare_for_reinitialization H S p w =
     (case top_frame p of
        None \<Rightarrow> None
      | Some fr \<Rightarrow>
          if \<not> needs_cleanup fr then Some (False, p, w)
          else if owns_place (fr_ownership fr)
          then map_option (\<lambda>(fr, w). (True, set_top fr p, w)) (deinit H S fr w)
          else (let (fr, w) = drop_pending_staging H fr w in Some (True, set_top fr p, w)))"

definition reinit_then ::
    "host \<Rightarrow> shapes \<Rightarrow> partial \<Rightarrow> world \<Rightarrow> (partial \<Rightarrow> world \<Rightarrow> body) \<Rightarrow> body" where
  "reinit_then H S p w k =
     (case prepare_for_reinitialization H S p w of None \<Rightarrow> B_Panic | Some (b, p, w) \<Rightarrow> k p w)"

end
