(* ===== verification/Partial_End.thy ===== *)
theory Partial_End
  imports Partial_Fields
begin

text \<open>
  What becomes of a finished child frame, when its parent takes the value over (facet-reflect,
  src/partial/partial_api/misc.rs, the functions \<open>complete_\<dots>_frame\<close>), and the end of deferred mode,
  which does that for all stored frames, the deepest first (\<open>finish_deferred\<close>). A conversion that
  fails after it consumed its source has dropped the source: the log then has its drop in place of
  the conversion.
\<close>

section \<open>Handing a value to the parent\<close>

definition dealloc_owned :: "host \<Rightarrow> frame \<Rightarrow> world \<Rightarrow> world" where
  "dealloc_owned H fr w =
     (if fr_ownership fr = Owned then dealloc_shape H (fr_shape fr) (fr_data fr) w else w)"

definition built_from :: "built_kind \<Rightarrow> frame \<Rightarrow> frame \<Rightarrow> world \<Rightarrow> world" where
  "built_from how dst src w = emit (Ef_Build how (fr_shape dst) (fr_data dst) (fr_shape src) (fr_data src)) w"

definition mark_field_initialized_by_index :: "shapes \<Rightarrow> nat \<Rightarrow> frame \<Rightarrow> frame option" where
  "mark_field_initialized_by_index S i fr =
     (let t = (case (fr_tracker fr, sh_ty (S (fr_shape fr))) of
                 (Tr_Scalar, Ty_User (User_Struct st)) \<Rightarrow> Tr_Struct (iset_new (length (st_fields st))) None
               | (t, _) \<Rightarrow> t);
          put = (\<lambda>t. fr\<lparr>fr_tracker := t\<rparr>)
      in case t of
           Tr_Struct s c \<Rightarrow> map_option (\<lambda>s. put (Tr_Struct s c)) (iset_set s i)
         | Tr_Enum v k s c \<Rightarrow> map_option (\<lambda>s. put (Tr_Enum v k s c)) (iset_set s i)
         | Tr_Array s c \<Rightarrow> map_option (\<lambda>s. put (Tr_Array s c)) (iset_set s i)
         | _ \<Rightarrow> Some (put t))"

definition complete_option_frame :: "host \<Rightarrow> shapes \<Rightarrow> frame \<Rightarrow> frame \<Rightarrow> world \<Rightarrow> frame \<times> world" where
  "complete_option_frame H S option_frame inner w =
     (case sh_def (S (fr_shape option_frame)) of
        Def_Option t \<Rightarrow>
          (option_frame\<lparr>fr_tracker := Tr_Option False None, fr_is_init := True\<rparr>,
           dealloc_owned H inner (built_from B_Some option_frame inner w))
      | _ \<Rightarrow> (option_frame, w))"

definition complete_smart_pointer_frame ::
    "host \<Rightarrow> shapes \<Rightarrow> frame \<Rightarrow> frame \<Rightarrow> world \<Rightarrow> frame \<times> world" where
  "complete_smart_pointer_frame H S fr inner w =
     (case sh_def (S (fr_shape fr)) of
        Def_Pointer pointee \<Rightarrow>
          (let complete = fr\<lparr>fr_tracker := Tr_SmartPointer False None, fr_is_init := True\<rparr>;
               vt = h_vt H (fr_shape fr)
           in if vt_new_into vt
              then (complete, dealloc_owned H inner (built_from B_New_Into fr inner w))
              else if can_borrow_and_promote H S (fr_shape fr) pointee (fr_shape inner)
              then (complete, pending_drop_and_dealloc H (from_initialized_frame inner)
                                (built_from B_Borrow_Promote fr inner w))
              else if (case pointee of Some p \<Rightarrow> same_shape S p (h_str_shape H) | None \<Rightarrow> False)
                      \<and> same_shape S (fr_shape inner) (h_string_shape H)
              then (case vt_known vt of
                      None \<Rightarrow> (fr, w)
                    | Some k \<Rightarrow>
                        if k \<in> {Kp_Box, Kp_Arc, Kp_Rc, Kp_Cow}
                        then (complete, dealloc_owned H inner (built_from (B_String k) fr inner w))
                        else (fr, emit (Ef_Drop (fr_shape inner) (fr_data inner)) w))
              else (fr, w))
      | _ \<Rightarrow> (fr, w))"

definition complete_inner_frame :: "host \<Rightarrow> shapes \<Rightarrow> frame \<Rightarrow> frame \<Rightarrow> world \<Rightarrow> frame \<times> world" where
  "complete_inner_frame H S wrapper inner w =
     (if sh_try_from (S (fr_shape wrapper)) = None then (wrapper, w)
      else case h_try_from H (w_log w) of
             Tf_Converted \<Rightarrow>
               (wrapper\<lparr>fr_tracker := Tr_Scalar, fr_is_init := True\<rparr>,
                dealloc_owned H inner (built_from B_Try_From wrapper inner w))
           | Tf_Unsupported \<Rightarrow> (wrapper, w)
           | Tf_Failed m \<Rightarrow> (wrapper, emit (Ef_Drop (fr_shape inner) (fr_data inner)) w))"

definition complete_proxy_frame :: "host \<Rightarrow> frame \<Rightarrow> frame \<Rightarrow> world \<Rightarrow> frame \<times> world" where
  "complete_proxy_frame H target proxy w =
     (if fr_shape_level_proxy proxy = None then (target, w)
      else case h_convert_in H (w_log w) of
             Inr expected \<Rightarrow>
               (let w = built_from B_Convert_In target proxy w
                in if expected then (target\<lparr>fr_is_init := True\<rparr>, dealloc_owned H proxy w)
                   else (target, w))
           | Inl m \<Rightarrow> (target, emit (Ef_Drop (fr_shape proxy) (fr_data proxy)) w))"

definition complete_list_item_frame :: "host \<Rightarrow> shapes \<Rightarrow> frame \<Rightarrow> frame \<Rightarrow> world \<Rightarrow> world" where
  "complete_list_item_frame H S fr el w =
     (case sh_def (S (fr_shape fr)) of
        Def_List t \<Rightarrow>
          if vt_list_push (h_vt H (fr_shape fr))
          then dealloc_owned H el
                 (emit (Ef_Push P_List (fr_shape fr) (fr_data fr) (fr_shape el) (fr_data el)) w)
          else w
      | _ \<Rightarrow> w)"

definition complete_smart_pointer_slice_item_frame :: "host \<Rightarrow> frame \<Rightarrow> frame \<Rightarrow> world \<Rightarrow> world" where
  "complete_smart_pointer_slice_item_frame H fr el w =
     dealloc_owned H el
       (emit (Ef_Push P_Slice (fr_shape fr) (fr_data fr) (fr_shape el) (fr_data el)) w)"

definition complete_map_key_frame :: "nat \<Rightarrow> frame \<Rightarrow> frame \<Rightarrow> frame option" where
  "complete_map_key_frame entry_idx fr key =
     (case fr_tracker fr of
        Tr_Map st entries i b \<Rightarrow>
          if length entries = entry_idx
          then Some (fr\<lparr>fr_tracker := Tr_Map st (entries @ [(fr_data key, None)]) i b\<rparr>) else None
      | _ \<Rightarrow> Some fr)"

definition complete_map_value_frame :: "nat \<Rightarrow> frame \<Rightarrow> frame \<Rightarrow> frame option" where
  "complete_map_value_frame entry_idx fr value_frame =
     (case fr_tracker fr of
        Tr_Map st entries i b \<Rightarrow>
          (case nth_opt entries entry_idx of
             Some (key_ptr, None) \<Rightarrow>
               Some (fr\<lparr>fr_tracker :=
                 Tr_Map st (entries[entry_idx := (key_ptr, Some (fr_data value_frame))]) i b\<rparr>)
           | _ \<Rightarrow> None)
      | _ \<Rightarrow> Some fr)"

section \<open>Slices behind a pointer\<close>

text \<open>The builder becomes the pointer, which the conversion puts into an allocation of its own.\<close>

definition slice_convert :: "host \<Rightarrow> frame \<Rightarrow> world \<Rightarrow> ptr \<times> world" where
  "slice_convert H fr w =
     (let (arc_ptr, w) = alloc_for_layout (case vt_size (h_vt H (fr_shape fr)) of Some n \<Rightarrow> n | None \<Rightarrow> 0) w
      in (arc_ptr, emit (Ef_Build B_Slice_Convert (fr_shape fr) arc_ptr (fr_shape fr) (fr_data fr)) w))"

definition copy_and_free :: "sref \<Rightarrow> nat \<Rightarrow> ptr \<Rightarrow> ptr \<Rightarrow> world \<Rightarrow> world" where
  "copy_and_free s n src dst w = emit (Ef_Dealloc src n) (emit (Ef_Copy s src dst) w)"

definition set_converted :: "ptr \<Rightarrow> frame \<Rightarrow> frame" where
  "set_converted p fr = fr\<lparr>fr_data := p, fr_tracker := Tr_Scalar, fr_is_init := True\<rparr>"

section \<open>The parent of a stored frame\<close>

type_synonym store = "frame list \<times> (path, frame) btmap"

definition lookup_parent :: "path \<Rightarrow> store \<Rightarrow> frame option" where
  "lookup_parent pp st =
     (case btm_get (snd st) pp of
        Some fr \<Rightarrow> Some fr
      | None \<Rightarrow> nth_opt (fst st) (length (p_steps pp)))"

definition put_parent :: "path \<Rightarrow> frame \<Rightarrow> store \<Rightarrow> store" where
  "put_parent pp fr st =
     (case btm_get (snd st) pp of
        Some _ \<Rightarrow> (fst st, btm_insert pp fr (snd st))
      | None \<Rightarrow> ((fst st)[length (p_steps pp) := fr], snd st))"

definition finish_slice ::
    "host \<Rightarrow> shapes \<Rightarrow> path \<Rightarrow> frame \<Rightarrow> store \<Rightarrow> world \<Rightarrow> (frame \<times> world) option" where
  "finish_slice H S path fr st w =
     (if tracker_kind_of (fr_tracker fr) \<noteq> Tk_SmartPointerSlice then Some (fr, w)
      else (let (arc_ptr, w) = slice_convert H fr w; arc_size = vt_size (h_vt H (fr_shape fr))
            in case fr_ownership fr of
                 Own_Field field_idx \<Rightarrow>
                   if p_steps path = [] then None
                   else (case lookup_parent (parent_path path) st of
                      None \<Rightarrow> Some (fr, w)
                    | Some parent \<Rightarrow>
                        (case sh_ty (S (fr_shape parent)) of
                           Ty_User (User_Struct s) \<Rightarrow>
                             if length (st_fields s) \<le> field_idx then None
                             else (case arc_size of
                                None \<Rightarrow> Some (fr, w)
                              | Some n \<Rightarrow>
                                  (let dst = ptr_add (fr_data parent) (f_offset (st_fields s ! field_idx))
                                   in Some (set_converted dst fr, copy_and_free (fr_shape fr) n arc_ptr dst w)))
                         | _ \<Rightarrow> Some (fr, w)))
               | Owned \<Rightarrow>
                   (case arc_size of
                      None \<Rightarrow> Some (fr, w)
                    | Some n \<Rightarrow>
                        (let (dst, w) = alloc_for_layout n w
                         in Some (set_converted dst fr, copy_and_free (fr_shape fr) n arc_ptr dst w)))
               | _ \<Rightarrow> Some (fr, w)))"

text \<open>An element of a list under construction lies in the rope of the list already.\<close>

definition attach_element ::
    "host \<Rightarrow> shapes \<Rightarrow> frame \<Rightarrow> frame \<Rightarrow> world \<Rightarrow> (frame \<times> world) option" where
  "attach_element H S parent fr w =
     (if fr_ownership fr = RopeSlot
      then (case fr_tracker parent of
              Tr_List c (Some r) \<Rightarrow>
                map_option (\<lambda>r. (parent\<lparr>fr_tracker := Tr_List c (Some r)\<rparr>, w)) (mark_last_initialized r)
            | _ \<Rightarrow> Some (parent, w))
      else if tracker_kind_of (fr_tracker parent) = Tk_SmartPointerSlice
      then Some (parent, complete_smart_pointer_slice_item_frame H parent fr w)
      else Some (parent, complete_list_item_frame H S parent fr w))"

definition attach ::
    "host \<Rightarrow> shapes \<Rightarrow> path_step \<Rightarrow> frame \<Rightarrow> frame \<Rightarrow> world \<Rightarrow> (frame \<times> world) option" where
  "attach H S step parent fr w =
     (case step of
        Step_OptionSome \<Rightarrow> Some (complete_option_frame H S parent fr w)
      | Step_Deref \<Rightarrow> Some (complete_smart_pointer_frame H S parent fr w)
      | Step_Inner \<Rightarrow> Some (complete_inner_frame H S parent fr w)
      | Step_Proxy \<Rightarrow> Some (complete_proxy_frame H parent fr w)
      | Step_Index i \<Rightarrow> attach_element H S parent fr w
      | Step_MapKey i \<Rightarrow> map_option (\<lambda>parent. (parent, w)) (complete_map_key_frame (unat i) parent fr)
      | Step_MapValue i \<Rightarrow> map_option (\<lambda>parent. (parent, w)) (complete_map_value_frame (unat i) parent fr)
      | Step_Field i \<Rightarrow>
          Option.bind (mark_field_initialized_by_index S (unat i) parent) (\<lambda>parent.
            map_option (\<lambda>w. (parent, w)) (frame_dealloc H fr w))
      | Step_Variant i \<Rightarrow> map_option (\<lambda>w. (parent, w)) (frame_dealloc H fr w))"

definition attach_stored ::
    "host \<Rightarrow> shapes \<Rightarrow> path \<Rightarrow> frame \<Rightarrow> store \<Rightarrow> world \<Rightarrow> (store \<times> world) option" where
  "attach_stored H S path fr st w =
     (let unattached = map_option (\<lambda>w. (st, w)) (frame_dealloc H fr w)
      in if p_steps path = [] then unattached
         else case lookup_parent (parent_path path) st of
                None \<Rightarrow> unattached
              | Some parent \<Rightarrow>
                  map_option (\<lambda>(parent, w). (put_parent (parent_path path) parent st, w))
                    (attach H S (last (p_steps path)) parent fr w))"

section \<open>Checking the top frame\<close>

definition on_top ::
    "host \<Rightarrow> shapes \<Rightarrow> (frame \<Rightarrow> world \<Rightarrow> frame_result) \<Rightarrow> partial \<Rightarrow> world
       \<Rightarrow> (partial \<Rightarrow> world \<Rightarrow> body) \<Rightarrow> body" where
  "on_top H S f p w k =
     (case top_frame p of
        None \<Rightarrow> B_Panic
      | Some fr \<Rightarrow>
          (case f fr w of
             None \<Rightarrow> B_Panic
           | Some (Some e, fr, w) \<Rightarrow> fails H S (set_top fr p) w e
           | Some (None, fr, w) \<Rightarrow> k (set_top fr p) w))"

definition fill_and_require_top ::
    "host \<Rightarrow> shapes \<Rightarrow> partial \<Rightarrow> world \<Rightarrow> (partial \<Rightarrow> world \<Rightarrow> body) \<Rightarrow> body" where
  "fill_and_require_top H S p w k =
     on_top H S (fill_defaults H S) p w (\<lambda>p w. on_top H S (require_full_initialization H S) p w k)"

text \<open>The field plans of the frame, when it is a struct or an enum with a variant selected.\<close>

definition frame_plans :: "plan_core \<Rightarrow> frame \<Rightarrow> field_plan list option option" where
  "frame_plans c fr =
     Option.bind (node_at c (fr_type_plan fr)) (\<lambda>node.
       case nd_kind node of
         Nk_Struct sp \<Rightarrow> map_option Some (plan_fields_of c (sp_fields sp))
       | Nk_Enum ep \<Rightarrow>
           Option.bind (plan_variants_of c (ep_variants ep)) (\<lambda>vs.
             case fr_tracker fr of
               Tr_Enum v variant_idx s child \<Rightarrow>
                 (case nth_opt vs variant_idx of
                    Some vm \<Rightarrow> map_option Some (plan_fields_of c (vm_fields vm))
                  | None \<Rightarrow> Some None)
             | _ \<Rightarrow> Some None)
       | _ \<Rightarrow> Some None)"

definition check_top ::
    "host \<Rightarrow> shapes \<Rightarrow> partial \<Rightarrow> world \<Rightarrow> (partial \<Rightarrow> world \<Rightarrow> body) \<Rightarrow> body" where
  "check_top H S p w k =
     (case Option.bind (top_frame p) (frame_plans (pt_plan p)) of
        None \<Rightarrow> B_Panic
      | Some (Some plans) \<Rightarrow>
          on_top H S (fill_and_require_fields H S (pt_plan p) plans (length plans)) p w k
      | Some None \<Rightarrow> fill_and_require_top H S p w k)"

text \<open>The address of the value when it is complete; the check may move what is pending into it.\<close>

definition initialized_data_ptr ::
    "host \<Rightarrow> shapes \<Rightarrow> partial \<Rightarrow> world \<Rightarrow> (ptr option \<times> partial \<times> world) option" where
  "initialized_data_ptr H S p w =
     (if pt_state p \<noteq> Active then Some (None, p, w)
      else case top_frame p of
             None \<Rightarrow> Some (None, p, w)
           | Some fr \<Rightarrow>
               map_option (\<lambda>(e, fr, w). (if e = None then Some (fr_data fr) else None, set_top fr p, w))
                 (require_full_initialization H S fr w))"

section \<open>The end of deferred mode\<close>

text \<open>Deeper paths first, at the same depth by the steps.\<close>

definition finish_order :: "path list \<Rightarrow> path list" where
  "finish_order ps = sort_key (\<lambda>p. (- int (length (p_steps p)), p_steps p)) ps"

text \<open>A stored frame that is not complete is destroyed, and so are all that are left.\<close>

definition finish_failed ::
    "host \<Rightarrow> shapes \<Rightarrow> path \<Rightarrow> frame \<Rightarrow> partial \<Rightarrow> (path, frame) btmap \<Rightarrow> world \<Rightarrow> error_kind \<Rightarrow> body" where
  "finish_failed H S path fr p stored w e =
     (case Option.bind (clear_parent_bit unset_in_frame path (frames p, stored)) (\<lambda>(stack, stored).
             Option.bind (deinit H S fr w) (\<lambda>(fr, w).
             Option.bind (frame_dealloc H fr w) (\<lambda>w.
             drop_stored (deinit H S) unset_in_frame H (deepest_first (map fst stored)) (stack, stored) w))) of
        None \<Rightarrow> B_Panic
      | Some ((stack, stored), w) \<Rightarrow> fails H S (set_frames stack p) w e)"

fun finish_loop ::
    "host \<Rightarrow> shapes \<Rightarrow> path list \<Rightarrow> partial \<Rightarrow> (path, frame) btmap \<Rightarrow> world
       \<Rightarrow> (partial \<Rightarrow> world \<Rightarrow> body) \<Rightarrow> body" where
  "finish_loop H S [] p stored w k = k p w"
| "finish_loop H S (path # ps) p stored w k =
     (case btm_get stored path of
        None \<Rightarrow> B_Panic
      | Some fr \<Rightarrow>
          (let stored = btm_remove path stored
           in case finish_slice H S path fr (frames p, stored) w of
                None \<Rightarrow> B_Panic
              | Some (fr, w) \<Rightarrow>
                  (case fill_defaults H S fr w of
                     None \<Rightarrow> B_Panic
                   | Some (Some e, fr, w) \<Rightarrow> finish_failed H S path fr p stored w e
                   | Some (None, fr, w) \<Rightarrow>
                       (case require_full_initialization H S fr w of
                          None \<Rightarrow> B_Panic
                        | Some (Some e, fr, w) \<Rightarrow> finish_failed H S path fr p stored w e
                        | Some (None, fr, w) \<Rightarrow>
                            (case attach_stored H S path fr (frames p, stored) w of
                               None \<Rightarrow> B_Panic
                             | Some ((stack, stored), w) \<Rightarrow>
                                 finish_loop H S ps (set_frames stack p) stored w k)))))"

definition finish_deferred_body :: "host \<Rightarrow> shapes \<Rightarrow> partial \<Rightarrow> world \<Rightarrow> body" where
  "finish_deferred_body H S p w =
     (if \<not> is_deferred p
      then fails H S p w
             (Ek_Invariant_Violation ''finish_deferred() called but deferred mode is not enabled'')
      else finish_loop H S (finish_order (map fst (stored_frames p)))
             (p\<lparr>pt_mode := Strict (frames p)\<rparr>) (stored_frames p) w (\<lambda>p w.
               if frames p = []
               then fails H S p w
                      (Ek_Invariant_Violation ''finish_deferred() left Partial with no frames'')
               else fill_and_require_top H S p w B_Ok))"

definition finish_deferred :: "host \<Rightarrow> shapes \<Rightarrow> partial \<Rightarrow> world \<Rightarrow> attempt" where
  "finish_deferred H S p w = attempt_of H S (finish_deferred_body H S p w)"

end
