(* ===== verification/Partial_Pop.thy ===== *)
theory Partial_Pop
  imports Partial_End
begin

text \<open>
  Leaving a frame: \<open>end\<close> of facet-reflect, src/partial/partial_api/misc.rs. In strict mode the frame
  must be complete, and its value is handed to the parent at once; in deferred mode the frame is
  stored under its path, unless it has none or the parent takes the value now. The frame that is
  popped has no destructor: where the code drops it without a word, the model forgets it.
\<close>

section \<open>The fast path\<close>

definition below_top :: "partial \<Rightarrow> frame option" where
  "below_top p =
     (let fs = frames p in if 2 \<le> length fs then Some (fs ! (length fs - 2)) else None)"

definition pop_frame :: "partial \<Rightarrow> partial" where
  "pop_frame p = set_frames (butlast (frames p)) p"

text \<open>A complete scalar field of a struct: the bits of the parent and the index.\<close>

definition fast_path :: "partial \<Rightarrow> (iset \<times> nat) option" where
  "fast_path p =
     (case (top_frame p, below_top p) of
        (Some fr, Some parent) \<Rightarrow>
          (case (fr_tracker fr, fr_is_init fr, fr_ownership fr, fr_custom fr, fr_tracker parent) of
             (Tr_Scalar, True, Own_Field field_idx, False, Tr_Struct s c) \<Rightarrow>
               if is_deferred p then None else Some (s, field_idx)
           | _ \<Rightarrow> None)
      | _ \<Rightarrow> None)"

definition set_top_tracker :: "tracker \<Rightarrow> partial \<Rightarrow> partial" where
  "set_top_tracker t p =
     (case top_frame p of Some fr \<Rightarrow> set_top (fr\<lparr>fr_tracker := t\<rparr>) p | None \<Rightarrow> p)"

section \<open>Slices behind a pointer\<close>

definition needs_slice_conversion :: "partial \<Rightarrow> bool" where
  "needs_slice_conversion p \<longleftrightarrow>
     (case top_frame p of
        Some fr \<Rightarrow> (case fr_tracker fr of Tr_SmartPointerSlice b c \<Rightarrow> \<not> b | _ \<Rightarrow> False)
      | None \<Rightarrow> False)"

definition end_slice :: "host \<Rightarrow> shapes \<Rightarrow> partial \<Rightarrow> frame \<Rightarrow> world \<Rightarrow> body" where
  "end_slice H S p fr w =
     (let (arc_ptr, w) = slice_convert H fr w
      in case fr_ownership fr of
           Own_Field field_idx \<Rightarrow>
             (case below_top p of
                None \<Rightarrow> B_Panic
              | Some parent \<Rightarrow>
                  (case sh_ty (S (fr_shape parent)) of
                     Ty_User (User_Struct st) \<Rightarrow>
                       if length (st_fields st) \<le> field_idx then B_Panic
                       else (case vt_size (h_vt H (fr_shape fr)) of
                          None \<Rightarrow> fails H S p w
                            (Ek_Unsized (fr_shape fr) ''SmartPointerSlice conversion requires sized Arc'')
                        | Some n \<Rightarrow>
                            (let dst = ptr_add (fr_data parent) (f_offset (st_fields st ! field_idx))
                             in B_Ok (set_top (set_converted dst fr) p)
                                  (copy_and_free (fr_shape fr) n arc_ptr dst w)))
                   | _ \<Rightarrow> fails H S p w
                       (Ek_Invariant_Violation ''SmartPointerSlice field frame parent must be a struct'')))
         | Owned \<Rightarrow> B_Ok (set_top (set_converted arc_ptr fr) p) w
         | _ \<Rightarrow> fails H S p w
             (Ek_Invariant_Violation ''SmartPointerSlice cannot have TrackedBuffer/BorrowedInPlace/External/RopeSlot ownership after conversion''))"

section \<open>Custom deserialization\<close>

definition has_proxy_conversion :: "shapes \<Rightarrow> partial \<Rightarrow> frame \<Rightarrow> bool" where
  "has_proxy_conversion S p popped \<longleftrightarrow>
     fr_shape_level_proxy popped \<noteq> None
     \<or> (case parent_field S p of Some f \<Rightarrow> f_proxy f \<noteq> None | None \<Rightarrow> False)"

definition convert_popped :: "host \<Rightarrow> shapes \<Rightarrow> partial \<Rightarrow> frame \<Rightarrow> frame \<Rightarrow> world \<Rightarrow> body" where
  "convert_popped H S p parent popped w =
     (let res = h_convert_in H (w_log w);
          error = (\<lambda>m. Ek_Custom_Deserialization m (fr_shape popped) (fr_shape parent));
          w = (case res of
                 Inr b \<Rightarrow> built_from B_Convert_In parent popped w
               | Inl m \<Rightarrow> emit (Ef_Drop (fr_shape popped) (fr_data popped)) w)
      in case frame_dealloc H (popped\<lparr>fr_is_init := False\<rparr>) w of
           None \<Rightarrow> B_Panic
         | Some w \<Rightarrow>
             (case res of
                Inr True \<Rightarrow> B_Ok (set_top (mark_as_init parent) p) w
              | Inr False \<Rightarrow>
                  fails H S p w (error ''deserialize_with did not return the expected pointer'')
              | Inl m \<Rightarrow> fails H S p w (error m)))"

section \<open>Storing a frame\<close>

fun next_insert_state :: "map_insert_state \<Rightarrow> map_insert_state" where
  "next_insert_state (Map_Pushing_Key k) = Map_Pushing_Value k None"
| "next_insert_state (Map_Pushing_Value k v) = Map_Idle"
| "next_insert_state Map_Idle = Map_Idle"

definition pushed_and_freed :: "host \<Rightarrow> push_kind \<Rightarrow> frame \<Rightarrow> frame \<Rightarrow> world \<Rightarrow> world option" where
  "pushed_and_freed H how parent popped w =
     frame_dealloc H (popped\<lparr>fr_tracker := Tr_Scalar, fr_is_init := False\<rparr>)
       (emit (Ef_Push how (fr_shape parent) (fr_data parent) (fr_shape popped) (fr_data popped)) w)"

definition set_takes_now :: "shapes \<Rightarrow> frame \<Rightarrow> bool" where
  "set_takes_now S parent \<longleftrightarrow> fr_tracker parent = Tr_Set True \<and> fr_is_init parent
     \<and> (case sh_def (S (fr_shape parent)) of Def_Set t \<Rightarrow> True | _ \<Rightarrow> False)"

text \<open>The child of a dynamic value is completed and waits in its parent. An error of this step
  carries the path under which the frame would have been stored.\<close>

definition flush_popped ::
    "host \<Rightarrow> shapes \<Rightarrow> path \<Rightarrow> partial \<Rightarrow> frame \<Rightarrow> world \<Rightarrow> (world \<Rightarrow> body) \<Rightarrow> body" where
  "flush_popped H S path p popped w k =
     (case require_full_initialization H S popped w of
        None \<Rightarrow> B_Panic
      | Some (Some e, popped, w) \<Rightarrow> B_Fail e path p w
      | Some (None, popped, w) \<Rightarrow> k w)"

definition store_in_parent ::
    "host \<Rightarrow> shapes \<Rightarrow> path \<Rightarrow> partial \<Rightarrow> frame \<Rightarrow> frame \<Rightarrow> world \<Rightarrow> body" where
  "store_in_parent H S path p parent popped w =
     (let put = (\<lambda>t. set_top (parent\<lparr>fr_tracker := t\<rparr>) p);
          store = (\<lambda>t. set_top (parent\<lparr>fr_tracker := clear_current_child t\<rparr>)
                     (set_stored (btm_insert path popped (stored_frames p)) p))
      in case fr_tracker parent of
           Tr_Map st entries i b \<Rightarrow> B_Ok (store (Tr_Map (next_insert_state st) entries i b)) w
         | Tr_Set current_child \<Rightarrow>
             if set_takes_now S parent
             then (case pushed_and_freed H P_Set parent popped w of
                     None \<Rightarrow> B_Panic
                   | Some w \<Rightarrow> B_Ok (put (Tr_Set False)) w)
             else B_Ok (store (Tr_Set current_child)) w
         | Tr_DynamicValue (Dyn_Object (Dyn_Building_Value key) entries) \<Rightarrow>
             flush_popped H S path
               (put (Tr_DynamicValue (Dyn_Object (Dyn_Building_Value []) entries))) popped w (\<lambda>w.
               B_Ok (put (Tr_DynamicValue (Dyn_Object Dyn_Idle (entries @ [(key, fr_data popped)])))) w)
         | Tr_DynamicValue (Dyn_Array True elements) \<Rightarrow>
             flush_popped H S path p popped w (\<lambda>w.
               B_Ok (put (Tr_DynamicValue (Dyn_Array False (elements @ [fr_data popped])))) w)
         | Tr_SmartPointerSlice b c \<Rightarrow> B_Ok (store (Tr_SmartPointerSlice False c)) w
         | t \<Rightarrow> B_Ok (store t) w)"

definition store_popped :: "host \<Rightarrow> shapes \<Rightarrow> path \<Rightarrow> partial \<Rightarrow> frame \<Rightarrow> world \<Rightarrow> body" where
  "store_popped H S path p popped w =
     (case Option.bind (top_frame p) (\<lambda>parent.
             case fr_ownership popped of
               Own_Field i \<Rightarrow> mark_field_initialized_by_index S i parent
             | _ \<Rightarrow> Some parent) of
        None \<Rightarrow> B_Panic
      | Some parent \<Rightarrow>
          if fr_ownership popped = BorrowedInPlace
          then flush_popped H S path (set_top parent p) popped w (B_Ok (set_top parent p))
          else store_in_parent H S path (set_top parent p) parent popped w)"

section \<open>Conversions\<close>

definition needs_conversion :: "shapes \<Rightarrow> frame \<Rightarrow> frame \<Rightarrow> bool" where
  "needs_conversion S parent popped \<longleftrightarrow>
     \<not> fr_is_init parent
     \<and> tracker_kind_of (fr_tracker parent) \<in> {Tk_Scalar, Tk_Inner}
     \<and> ((case sh_builder_shape (S (fr_shape parent)) of Some b \<Rightarrow> same_shape S b (fr_shape popped) | None \<Rightarrow> False)
        \<or> (case sh_inner (S (fr_shape parent)) of Some i \<Rightarrow> same_shape S i (fr_shape popped) | None \<Rightarrow> False))
     \<and> sh_try_from (S (fr_shape parent)) \<noteq> None"

definition drop_and_dealloc_owned :: "host \<Rightarrow> frame \<Rightarrow> world \<Rightarrow> world" where
  "drop_and_dealloc_owned H fr w =
     (if fr_ownership fr = Owned
      then (case vt_size (h_vt H (fr_shape fr)) of
              Some n \<Rightarrow> if 0 < n
                then emit (Ef_Dealloc (fr_data fr) n) (call_drop_in_place H (fr_shape fr) (fr_data fr) w)
                else w
            | None \<Rightarrow> w)
      else w)"

definition try_convert :: "host \<Rightarrow> shapes \<Rightarrow> partial \<Rightarrow> frame \<Rightarrow> frame \<Rightarrow> world \<Rightarrow> body" where
  "try_convert H S p parent popped w =
     (case require_full_initialization H S popped w of
        None \<Rightarrow> B_Panic
      | Some (Some e, popped, w) \<Rightarrow> fails H S p (dealloc_owned H popped w) e
      | Some (None, popped, w) \<Rightarrow>
          (let error = Ek_Try_From (fr_shape popped) (fr_shape parent)
           in case h_try_from H (w_log w) of
                Tf_Converted \<Rightarrow>
                  B_Ok (set_top (parent\<lparr>fr_tracker := Tr_Scalar, fr_is_init := True\<rparr>) p)
                    (dealloc_owned H popped (built_from B_Try_From parent popped w))
              | Tf_Unsupported \<Rightarrow>
                  fails H S p (drop_and_dealloc_owned H popped w) (error None)
              | Tf_Failed m \<Rightarrow>
                  fails H S p
                    (dealloc_owned H popped (emit (Ef_Drop (fr_shape popped) (fr_data popped)) w))
                    (error (Some m))))"

section \<open>Fields\<close>

text \<open>The parent takes responsibility for the field back when it is complete.\<close>

definition reclaim_field :: "nat \<Rightarrow> bool \<Rightarrow> frame \<Rightarrow> frame option" where
  "reclaim_field idx complete parent =
     (let reclaim = (\<lambda>s put. map_option (\<lambda>s. parent\<lparr>fr_tracker := put s\<rparr>)
            (if complete then iset_set s idx else Some s))
      in case fr_tracker parent of
           Tr_Struct s c \<Rightarrow> reclaim s (\<lambda>s. Tr_Struct s None)
         | Tr_Array s c \<Rightarrow> reclaim s (\<lambda>s. Tr_Array s None)
         | Tr_Enum v k s c \<Rightarrow> reclaim s (\<lambda>s. Tr_Enum v k s None)
         | _ \<Rightarrow> Some parent)"

definition end_field :: "host \<Rightarrow> shapes \<Rightarrow> partial \<Rightarrow> nat \<Rightarrow> frame \<Rightarrow> frame \<Rightarrow> world \<Rightarrow> body" where
  "end_field H S p idx parent popped w =
     (case fill_defaults H S popped w of
        None \<Rightarrow> B_Panic
      | Some (Some e, popped, w) \<Rightarrow> fails H S p w e
      | Some (None, popped, w) \<Rightarrow>
          (case require_full_initialization H S popped w of
             None \<Rightarrow> B_Panic
           | Some (e, popped, w) \<Rightarrow>
               (case reclaim_field idx (e = None) parent of
                  None \<Rightarrow> B_Panic
                | Some parent \<Rightarrow> B_Ok (set_top parent p) w)))"

section \<open>The other parents\<close>

definition destroyed_then :: "host \<Rightarrow> shapes \<Rightarrow> partial \<Rightarrow> frame \<Rightarrow> world \<Rightarrow> error_kind \<Rightarrow> body" where
  "destroyed_then H S p popped w e =
     (case Option.bind (deinit H S popped w) (\<lambda>(fr, w). frame_dealloc H fr w) of
        None \<Rightarrow> B_Panic | Some w \<Rightarrow> fails H S p w e)"

definition end_smart_pointer ::
    "host \<Rightarrow> shapes \<Rightarrow> partial \<Rightarrow> bool \<Rightarrow> frame \<Rightarrow> frame \<Rightarrow> world \<Rightarrow> body" where
  "end_smart_pointer H S p building_inner parent popped w =
     (let fail = (\<lambda>m. fails H S p w (Ek_Operation_Failed (fr_shape parent) m));
          complete = (\<lambda>popped w k. case require_full_initialization H S popped w of
              None \<Rightarrow> B_Panic
            | Some (Some e, popped, w) \<Rightarrow> destroyed_then H S p popped w e
            | Some (None, popped, w) \<Rightarrow> k popped w)
      in if \<not> building_inner
         then fail ''SmartPointer end() called with building_inner = false''
         else if (case sh_def (S (fr_shape parent)) of Def_Pointer _ \<Rightarrow> False | _ \<Rightarrow> True)
         then fail ''SmartPointer frame without SmartPointer definition''
         else if is_deferred p
         then (case fill_defaults H S popped w of
                 None \<Rightarrow> B_Panic
               | Some (Some e, popped, w) \<Rightarrow> destroyed_then H S p popped w e
               | Some (None, popped, w) \<Rightarrow> complete popped w (\<lambda>popped w.
                   B_Ok (set_top (parent\<lparr>fr_tracker := Tr_SmartPointer False (Some (from_initialized_frame popped)),
                                         fr_is_init := False\<rparr>) p) w))
         else complete popped w (\<lambda>popped w.
                let (parent, w) = complete_smart_pointer_frame H S parent popped w
                in B_Ok (set_top (parent\<lparr>fr_tracker := Tr_Scalar\<rparr>) p) w))"

definition end_list ::
    "host \<Rightarrow> shapes \<Rightarrow> partial \<Rightarrow> list_rope option \<Rightarrow> frame \<Rightarrow> frame \<Rightarrow> world \<Rightarrow> body" where
  "end_list H S p rope parent popped w =
     (let put = (\<lambda>rope. set_top (parent\<lparr>fr_tracker := Tr_List None rope\<rparr>) p)
      in case sh_def (S (fr_shape parent)) of
           Def_List t \<Rightarrow>
             if fr_ownership popped = RopeSlot
             then (case rope of
                     None \<Rightarrow> B_Ok (put None) w
                   | Some r \<Rightarrow>
                       (case mark_last_initialized r of
                          None \<Rightarrow> B_Panic | Some r \<Rightarrow> B_Ok (put (Some r)) w))
             else if \<not> vt_list_push (h_vt H (fr_shape parent))
             then fails H S p w (Ek_Operation_Failed (fr_shape parent) ''List missing push function'')
             else (case pushed_and_freed H P_List parent popped w of
                     None \<Rightarrow> B_Panic | Some w \<Rightarrow> B_Ok (put rope) w)
         | _ \<Rightarrow> B_Ok p w)"

definition end_map ::
    "host \<Rightarrow> shapes \<Rightarrow> partial \<Rightarrow> map_insert_state \<Rightarrow> (ptr \<times> ptr option) list \<Rightarrow> nat option \<Rightarrow> bool
       \<Rightarrow> frame \<Rightarrow> frame \<Rightarrow> world \<Rightarrow> body" where
  "end_map H S p st entries i b parent popped w =
     (let put = (\<lambda>st entries. set_top (parent\<lparr>fr_tracker := Tr_Map st entries i b\<rparr>) p);
          filled = (\<lambda>k. case fill_defaults H S popped w of
              None \<Rightarrow> B_Panic
            | Some (Some e, popped, w) \<Rightarrow> fails H S p w e
            | Some (None, popped, w) \<Rightarrow> k w)
      in case st of
           Map_Pushing_Key key_ptr \<Rightarrow>
             filled (B_Ok (put (Map_Pushing_Value key_ptr None) (entries @ [(key_ptr, None)])))
         | Map_Pushing_Value key_ptr value_ptr \<Rightarrow>
             filled (\<lambda>w. case value_ptr of
                 None \<Rightarrow> B_Ok p w
               | Some v \<Rightarrow>
                   if entries = [] \<or> snd (last entries) \<noteq> None then B_Panic
                   else B_Ok (put Map_Idle (butlast entries @ [(fst (last entries), Some v)])) w)
         | Map_Idle \<Rightarrow> B_Ok p w)"

definition destroy_spare :: "host \<Rightarrow> shapes \<Rightarrow> partial \<Rightarrow> frame \<Rightarrow> world \<Rightarrow> body" where
  "destroy_spare H S p popped w =
     (case deinit H S popped w of None \<Rightarrow> B_Panic | Some (popped, w) \<Rightarrow> B_Ok p (dealloc_owned H popped w))"

definition end_option ::
    "host \<Rightarrow> shapes \<Rightarrow> partial \<Rightarrow> bool \<Rightarrow> frame \<Rightarrow> frame \<Rightarrow> world \<Rightarrow> body" where
  "end_option H S p building_inner parent popped w =
     (if \<not> building_inner then destroy_spare H S p popped w
      else if \<not> is_option_def (sh_def (S (fr_shape parent)))
      then fails H S p w (Ek_Operation_Failed (fr_shape parent) ''Option frame without Option definition'')
      else B_Ok (set_top (parent\<lparr>fr_tracker := Tr_Option False (Some (fr_data popped)),
                                 fr_is_init := True\<rparr>) p) w)"

definition end_result ::
    "host \<Rightarrow> shapes \<Rightarrow> partial \<Rightarrow> bool \<Rightarrow> bool \<Rightarrow> frame \<Rightarrow> frame \<Rightarrow> world \<Rightarrow> body" where
  "end_result H S p is_ok building_inner parent popped w =
     (if \<not> building_inner then destroy_spare H S p popped w
      else case sh_def (S (fr_shape parent)) of
             Def_Result t e \<Rightarrow>
               B_Ok (set_top (parent\<lparr>fr_tracker := Tr_Result is_ok False, fr_is_init := True\<rparr>) p)
                 (dealloc_owned H popped (built_from (if is_ok then B_Result_Ok else B_Result_Err) parent popped w))
           | _ \<Rightarrow> fails H S p w
               (Ek_Operation_Failed (fr_shape parent) ''Result frame without Result definition''))"

text \<open>A string under a pointer to \<open>str\<close> whose frame does not say that it is building one.\<close>

definition end_string ::
    "host \<Rightarrow> shapes \<Rightarrow> partial \<Rightarrow> frame \<Rightarrow> frame \<Rightarrow> world \<Rightarrow> body" where
  "end_string H S p parent popped w =
     (let broken = (\<lambda>m. fails H S p w (Ek_Invariant_Violation m));
          failed = (\<lambda>p w m. fails H S p w (Ek_Operation_Failed (fr_shape parent) m))
      in case sh_def (S (fr_shape parent)) of
           Def_Pointer None \<Rightarrow> broken ''pointer type doesn't have a pointee''
         | Def_Pointer (Some pointee) \<Rightarrow>
             if \<not> same_shape S pointee (h_str_shape H)
             then broken ''only T=str is supported when building SmartPointer<T> and T is unsized''
             else if \<not> same_shape S (fr_shape popped) (h_string_shape H)
             then broken ''the popped frame should be String when building a SmartPointer<T>''
             else (case require_full_initialization H S popped w of
                     None \<Rightarrow> B_Panic
                   | Some (Some e, popped, w) \<Rightarrow> fails H S p w e
                   | Some (None, popped, w) \<Rightarrow>
                       (case vt_known (h_vt H (fr_shape parent)) of
                          None \<Rightarrow> failed p w ''SmartPointerStr for unknown smart pointer kind''
                        | Some k \<Rightarrow>
                            (case deinit H S parent w of
                               None \<Rightarrow> B_Panic
                             | Some (parent, w) \<Rightarrow>
                                 if k \<in> {Kp_Box, Kp_Arc, Kp_Rc}
                                 then (case frame_dealloc H (popped\<lparr>fr_tracker := Tr_Scalar, fr_is_init := False\<rparr>)
                                              (built_from (B_String k) parent popped w) of
                                         None \<Rightarrow> B_Panic
                                       | Some w \<Rightarrow> B_Ok (set_top (mark_as_init parent) p) w)
                                 else failed (set_top parent p)
                                        (emit (Ef_Drop (fr_shape popped) (fr_data popped)) w)
                                        ''Don't know how to build this pointer type'')))
         | _ \<Rightarrow> failed p w
             ''end() called but parent has Uninit/Init tracker and isn't a SmartPointer'')"

definition end_dynamic ::
    "host \<Rightarrow> shapes \<Rightarrow> partial \<Rightarrow> push_kind \<Rightarrow> dyn_state \<Rightarrow> string \<Rightarrow> frame \<Rightarrow> frame \<Rightarrow> world \<Rightarrow> body" where
  "end_dynamic H S p how next_state never_set parent popped w =
     (let put = set_top (parent\<lparr>fr_tracker := Tr_DynamicValue next_state\<rparr>) p
      in if \<not> fr_is_init popped
         then (case frame_dealloc H popped w of
                 None \<Rightarrow> B_Panic
               | Some w \<Rightarrow> fails H S put w (Ek_Operation_Failed (fr_shape parent) never_set))
         else if sh_def (S (fr_shape parent)) \<noteq> Def_DynamicValue then B_Ok p w
         else (case pushed_and_freed H how parent popped w of None \<Rightarrow> B_Panic | Some w \<Rightarrow> B_Ok put w))"

definition end_into_parent :: "host \<Rightarrow> shapes \<Rightarrow> partial \<Rightarrow> frame \<Rightarrow> frame \<Rightarrow> world \<Rightarrow> body" where
  "end_into_parent H S p parent popped w =
     (let put = (\<lambda>t. set_top (parent\<lparr>fr_tracker := t\<rparr>) p);
          pushed = (\<lambda>how t. case pushed_and_freed H how parent popped w of
             None \<Rightarrow> B_Panic | Some w \<Rightarrow> B_Ok (put t) w)
      in case fr_tracker parent of
           Tr_SmartPointer b pending \<Rightarrow> end_smart_pointer H S p b parent popped w
         | Tr_List c rope \<Rightarrow>
             if fr_is_init parent \<and> c \<noteq> None then end_list H S p rope parent popped w else B_Ok p w
         | Tr_Map st entries i b \<Rightarrow>
             if fr_is_init parent then end_map H S p st entries i b parent popped w else B_Ok p w
         | Tr_Set c \<Rightarrow>
             if set_takes_now S parent then pushed P_Set (Tr_Set False) else B_Ok p w
         | Tr_Option b pending \<Rightarrow> end_option H S p b parent popped w
         | Tr_Result is_ok b \<Rightarrow> end_result H S p is_ok b parent popped w
         | Tr_Scalar \<Rightarrow> end_string H S p parent popped w
         | Tr_SmartPointerSlice b c \<Rightarrow>
             if b then pushed P_Slice (Tr_SmartPointerSlice False c) else B_Ok p w
         | Tr_DynamicValue (Dyn_Array True elements) \<Rightarrow>
             end_dynamic H S p P_Dyn_Push (Dyn_Array False elements)
               ''end() called but array element was never initialized'' parent popped w
         | Tr_DynamicValue (Dyn_Object (Dyn_Building_Value key) entries) \<Rightarrow>
             end_dynamic H S p (P_Dyn_Insert key) (Dyn_Object Dyn_Idle entries)
               ''end() called but object entry value was never initialized'' parent popped w
         | _ \<Rightarrow> B_Ok p w)"

section \<open>end\<close>

definition end_popped :: "host \<Rightarrow> shapes \<Rightarrow> partial \<Rightarrow> frame \<Rightarrow> frame \<Rightarrow> world \<Rightarrow> body" where
  "end_popped H S p parent popped w =
     (if needs_conversion S parent popped then try_convert H S p parent popped w
      else case fr_ownership popped of
             Own_Field idx \<Rightarrow> end_field H S p idx parent popped w
           | BorrowedInPlace \<Rightarrow>
               (case require_full_initialization H S popped w of
                  None \<Rightarrow> B_Panic
                | Some (Some e, popped, w) \<Rightarrow> fails H S p w e
                | Some (None, popped, w) \<Rightarrow> end_into_parent H S p parent popped w)
           | _ \<Rightarrow> end_into_parent H S p parent popped w)"

text \<open>Popping the top frame of a partial value that has at least two.\<close>

definition end_pop :: "host \<Rightarrow> shapes \<Rightarrow> partial \<Rightarrow> world \<Rightarrow> body" where
  "end_pop H S p w =
     (let storage = (if is_deferred p \<and> p_steps (storage_path H p) \<noteq> []
                     then Some (storage_path H p) else None)
      in case (top_frame p, below_top p) of
           (Some popped, Some parent) \<Rightarrow>
             (let p = pop_frame p
              in case storage of
                   Some path \<Rightarrow> store_popped H S path p popped w
                 | None \<Rightarrow>
                     if fr_custom popped \<and> has_proxy_conversion S p popped
                     then convert_popped H S p parent popped w
                     else end_popped H S p parent popped w)
         | _ \<Rightarrow> B_Panic)"

definition end_slow :: "host \<Rightarrow> shapes \<Rightarrow> partial \<Rightarrow> world \<Rightarrow> body" where
  "end_slow H S p w =
     (if needs_slice_conversion p
      then (case top_frame p of
              None \<Rightarrow> B_Panic
            | Some fr \<Rightarrow>
                if is_deferred p
                then (case fr_tracker fr of
                        Tr_SmartPointerSlice b c \<Rightarrow> B_Ok (set_top_tracker (Tr_SmartPointerSlice True c) p) w
                      | _ \<Rightarrow> B_Panic)
                else end_slice H S p fr w)
      else if length (frames p) \<le> 1
      then fails H S p w
             (Ek_Invariant_Violation ''Partial::end() called with only one frame on the stack'')
      else if (case mode_start_depth (pt_mode p) of Some d \<Rightarrow> length (frames p) \<le> d | None \<Rightarrow> False)
      then fails H S p w
             (Ek_Invariant_Violation ''Partial::end() called but would pop below deferred start depth'')
      else if is_deferred p then end_pop H S p w
      else check_top H S p w (end_pop H S))"

definition end_body :: "host \<Rightarrow> shapes \<Rightarrow> partial \<Rightarrow> world \<Rightarrow> body" where
  "end_body H S p w =
     (case fast_path p of
        Some (bits, field_idx) \<Rightarrow>
          (case iset_set bits field_idx of
             None \<Rightarrow> B_Panic
           | Some bits \<Rightarrow> B_Ok (set_top_tracker (Tr_Struct bits None) (pop_frame p)) w)
      | None \<Rightarrow> end_slow H S p w)"

definition partial_end :: "host \<Rightarrow> shapes \<Rightarrow> partial \<Rightarrow> world \<Rightarrow> attempt" where
  "partial_end H S p w = attempt_of H S (end_body H S p w)"

section \<open>Defaults of fields\<close>

definition set_nth_field_to_default :: "host \<Rightarrow> shapes \<Rightarrow> nat \<Rightarrow> partial \<Rightarrow> world \<Rightarrow> attempt" where
  "set_nth_field_to_default H S idx p w =
     (case top_frame p of
        None \<Rightarrow> Panic
      | Some fr \<Rightarrow>
          (case get_fields S fr of
             Inl e \<Rightarrow> attempt_of H S (fails H S p w e)
           | Inr fs \<Rightarrow>
               if length fs \<le> idx
               then attempt_of H S (fails H S p w (Ek_Operation_Failed (fr_shape fr) ''field index out of bounds''))
               else
                 (let f = fs ! idx;
                      enter_and = (\<lambda>put. and_then (and_then (begin_nth_field H S idx p w) put) (partial_end H S))
                  in case f_default f of
                       Some (Custom g) \<Rightarrow>
                         enter_and (set_from_function H S (\<lambda>fr. Inr (W_Default_Fn g)))
                     | Some FromTrait \<Rightarrow> enter_and (set_default H S)
                     | None \<Rightarrow>
                         if sh_default_in_place (S (f_shape f)) \<noteq> None
                         then enter_and (set_default H S)
                         else attempt_of H S (fails H S p w (Ek_Default_Attr_No_Impl (f_shape f))))))"


text \<open>The shorthand for a field, with the value that is moved in.\<close>

definition set_nth_field :: "host \<Rightarrow> shapes \<Rightarrow> nat \<Rightarrow> ptr \<Rightarrow> sref \<Rightarrow> partial \<Rightarrow> world \<Rightarrow> attempt" where
  "set_nth_field H S idx src_value src p w =
     and_then (and_then (begin_nth_field H S idx p w) (set_shape H S src_value src)) (partial_end H S)"

definition set_field :: "host \<Rightarrow> shapes \<Rightarrow> string \<Rightarrow> ptr \<Rightarrow> sref \<Rightarrow> partial \<Rightarrow> world \<Rightarrow> attempt" where
  "set_field H S field_name src_value src p w =
     and_then (and_then (begin_field H S field_name p w) (set_shape H S src_value src)) (partial_end H S)"

end
