(* ===== verification/Partial_Nest.thy ===== *)
theory Partial_Nest
  imports Partial_Pop
begin

text \<open>
  Entering the value inside an option, a result, a wrapper, a pointer or a proxy (facet-reflect,
  src/partial/partial_api: option.rs, result.rs, ptr.rs). The inner value gets memory of its own,
  and moves to its place when the frame ends.
\<close>

section \<open>Inner frames\<close>

text \<open>A frame with fresh memory, or the error of an unsized type.\<close>

definition push_owned ::
    "host \<Rightarrow> shapes \<Rightarrow> partial \<Rightarrow> world \<Rightarrow> sref \<Rightarrow> string \<Rightarrow> node_id option option \<Rightarrow> body" where
  "push_owned H S p w s operation node =
     (case vt_size (h_vt H s) of
        None \<Rightarrow> fails H S p w (Ek_Unsized s operation)
      | Some n \<Rightarrow>
          (let (data, w) = alloc_for_layout n w
           in expect_node node (\<lambda>i. B_Ok (push_frame (frame_new S data (allocated_new s n) Owned i) p) w)))"

text \<open>The frame stored under a path goes back on the stack, without a current child.\<close>

definition restore_stored ::
    "path \<Rightarrow> tracker \<Rightarrow> partial \<Rightarrow> world \<Rightarrow> body \<Rightarrow> body" where
  "restore_stored check_path parent_tracker p w otherwise =
     (case (if is_deferred p then btm_get (stored_frames p) check_path else None) of
        None \<Rightarrow> otherwise
      | Some fr \<Rightarrow>
          B_Ok (push_frame (fr\<lparr>fr_tracker := clear_current_child (fr_tracker fr)\<rparr>)
                  (set_top_tracker parent_tracker
                    (set_stored (btm_remove check_path (stored_frames p)) p))) w)"

section \<open>Options\<close>

definition is_accumulator :: "facet_def \<Rightarrow> bool" where
  "is_accumulator d \<longleftrightarrow> (case d of
     Def_List t \<Rightarrow> True | Def_Map k v \<Rightarrow> True | Def_Set t \<Rightarrow> True | Def_DynamicValue \<Rightarrow> True | _ \<Rightarrow> False)"

definition is_struct_or_enum :: "facet_type \<Rightarrow> bool" where
  "is_struct_or_enum t \<longleftrightarrow> (case t of
     Ty_User (User_Struct st) \<Rightarrow> True | Ty_User (User_Enum e) \<Rightarrow> True | _ \<Rightarrow> False)"

text \<open>An option that is complete is entered again, not built again, when its value can take more.\<close>

definition option_reentry :: "shapes \<Rightarrow> partial \<Rightarrow> frame \<Rightarrow> sref \<Rightarrow> bool" where
  "option_reentry S p fr t \<longleftrightarrow> fr_tracker fr = Tr_Scalar \<and> fr_is_init fr
     \<and> (is_accumulator (sh_def (S t)) \<or> is_deferred p \<and> is_struct_or_enum (sh_ty (S t)))"

definition option_needs_reinit :: "shapes \<Rightarrow> partial \<Rightarrow> frame \<Rightarrow> sref \<Rightarrow> bool" where
  "option_needs_reinit S p fr t \<longleftrightarrow> fr_is_init fr \<and> \<not> option_reentry S p fr t"

definition begin_some_new ::
    "host \<Rightarrow> shapes \<Rightarrow> bool \<Rightarrow> sref \<Rightarrow> partial \<Rightarrow> frame \<Rightarrow> world \<Rightarrow> body" where
  "begin_some_new H S reentry t p fr w =
     (let p = set_top_tracker (Tr_Option True None) p;
          node = option_some_node_id (pt_plan p) (fr_type_plan fr)
      in if \<not> reentry then push_owned H S p w t ''begin_some, getting inner layout'' node
         else case vt_size (h_vt H t) of
                None \<Rightarrow> fails H S p w (Ek_Unsized t ''begin_some, getting inner layout'')
              | Some n \<Rightarrow>
                  (case h_option_value H (w_log w) (fr_data fr) of
                     None \<Rightarrow> B_Panic
                   | Some inner \<Rightarrow> expect_node node (\<lambda>i.
                       B_Ok (push_frame (mark_as_init
                               (frame_new S inner (allocated_new t n) BorrowedInPlace i)) p) w)))"

definition begin_some_body :: "host \<Rightarrow> shapes \<Rightarrow> partial \<Rightarrow> world \<Rightarrow> body" where
  "begin_some_body H S p w =
     (case top_frame p of
        None \<Rightarrow> B_Panic
      | Some fr \<Rightarrow>
          (case sh_def (S (fr_shape fr)) of
             Def_Option t \<Rightarrow>
               (let reentry = option_reentry S p fr t;
                    continue = (\<lambda>p w. restore_stored (path_push (derive_path H p) Step_OptionSome)
                        (Tr_Option True None) p w (begin_some_new H S reentry t p fr w))
                in if option_needs_reinit S p fr t then reinit_then H S p w continue
                   else continue p w)
           | _ \<Rightarrow> fails H S p w (Ek_Was_Not_A ''Option'' (fr_shape fr))))"

definition begin_some :: "host \<Rightarrow> shapes \<Rightarrow> partial \<Rightarrow> world \<Rightarrow> attempt" where
  "begin_some H S p w = attempt_of H S (begin_some_body H S p w)"

section \<open>Wrappers\<close>

definition wrapped_shape :: "shape \<Rightarrow> sref option" where
  "wrapped_shape s = (case sh_builder_shape s of Some b \<Rightarrow> Some b | None \<Rightarrow> sh_inner s)"

definition begin_inner_body :: "host \<Rightarrow> shapes \<Rightarrow> partial \<Rightarrow> world \<Rightarrow> body" where
  "begin_inner_body H S p w =
     (case top_frame p of
        None \<Rightarrow> B_Panic
      | Some fr \<Rightarrow>
          (let s = S (fr_shape fr); parent_type_plan = fr_type_plan fr
           in reinit_then H S p w (\<lambda>p w.
                case wrapped_shape s of
                  None \<Rightarrow>
                    fails H S p w (Ek_Operation_Failed (fr_shape fr) ''type does not have an inner value'')
                | Some inner \<Rightarrow>
                    if sh_try_from s = None then begin_nth_field_body H S 0 p w
                    else if is_option_def (sh_def s) then begin_some_body H S p w
                    else case vt_size (h_vt H inner) of
                           None \<Rightarrow> fails H S p w (Ek_Unsized inner ''begin_inner, getting inner layout'')
                         | Some n \<Rightarrow>
                             push_owned H S (set_top_tracker (Tr_Inner True) p) w inner
                               ''begin_inner, getting inner layout''
                               (map_option (\<lambda>r. Some (case r of Some i \<Rightarrow> i | None \<Rightarrow> parent_type_plan))
                                 (inner_node_id S (pt_plan p) parent_type_plan)))))"

definition begin_inner :: "host \<Rightarrow> shapes \<Rightarrow> partial \<Rightarrow> world \<Rightarrow> attempt" where
  "begin_inner H S p w = attempt_of H S (begin_inner_body H S p w)"

section \<open>Results\<close>

definition begin_result_body :: "host \<Rightarrow> shapes \<Rightarrow> bool \<Rightarrow> partial \<Rightarrow> world \<Rightarrow> body" where
  "begin_result_body H S is_ok p w =
     (case top_frame p of
        None \<Rightarrow> B_Panic
      | Some fr \<Rightarrow>
          (case sh_def (S (fr_shape fr)) of
             Def_Result t e \<Rightarrow>
               (let needs_reinit = fr_is_init fr
                      \<or> (case fr_tracker fr of Tr_Result k b \<Rightarrow> \<not> b | _ \<Rightarrow> False);
                    continue = (\<lambda>p w.
                      push_owned H S (set_top_tracker (Tr_Result is_ok True) p) w (if is_ok then t else e)
                        (if is_ok then ''begin_ok, allocating Result Ok value''
                         else ''begin_err, allocating Result Err value'')
                        (map_option (map_option (if is_ok then fst else snd))
                          (result_nodes_id (pt_plan p) (fr_type_plan fr))))
                in if needs_reinit then reinit_then H S p w continue else continue p w)
           | _ \<Rightarrow> fails H S p w (Ek_Was_Not_A ''Result'' (fr_shape fr))))"

definition begin_ok :: "host \<Rightarrow> shapes \<Rightarrow> partial \<Rightarrow> world \<Rightarrow> attempt" where
  "begin_ok H S p w = attempt_of H S (begin_result_body H S True p w)"

definition begin_err :: "host \<Rightarrow> shapes \<Rightarrow> partial \<Rightarrow> world \<Rightarrow> attempt" where
  "begin_err H S p w = attempt_of H S (begin_result_body H S False p w)"

section \<open>Pointers\<close>

definition constructible_from_pointee :: "vtab \<Rightarrow> bool" where
  "constructible_from_pointee vt \<longleftrightarrow> vt_new_into vt \<or> vt_borrow_promote vt
     \<or> (case vt_known vt of Some k \<Rightarrow> k \<in> {Kp_Box, Kp_Rc, Kp_Arc} | None \<Rightarrow> False)"

definition slice_new :: "sref \<Rightarrow> world \<Rightarrow> ptr \<times> world" where
  "slice_new s w = (let p = Ptr (w_next w) 0 in (p, emit (Ef_Slice_New s p) w\<lparr>w_next := Suc (w_next w)\<rparr>))"

definition begin_pointee ::
    "host \<Rightarrow> shapes \<Rightarrow> sref \<Rightarrow> partial \<Rightarrow> frame \<Rightarrow> world \<Rightarrow> body" where
  "begin_pointee H S pointee p fr w =
     (let s = fr_shape fr; fail = (\<lambda>m. fails H S p w (Ek_Operation_Failed s m));
          building = set_top_tracker (Tr_SmartPointer True None) p;
          node = pointer_inner_node_id (pt_plan p) (fr_type_plan fr)
      in if vt_size (h_vt H pointee) \<noteq> None
         then push_owned H S building w pointee ''begin_smart_ptr, calculating inner value layout'' node
         else if same_shape S pointee (h_str_shape H)
         then (if vt_size (h_vt H (h_string_shape H)) = None then B_Panic
               else push_owned H S building w (h_string_shape H) [] node)
         else case sh_ty (S pointee) of
                Ty_Sequence (Seq_Slice t) \<Rightarrow>
                  if \<not> vt_slice_builder (h_vt H s)
                  then fail ''smart pointer does not support slice building''
                  else (case top_frame p of
                     None \<Rightarrow> B_Panic
                   | Some fr \<Rightarrow>
                       (let (builder, w) = slice_new s w
                        in B_Ok (set_top (fr\<lparr>fr_data := builder,
                                             fr_tracker := Tr_SmartPointerSlice False None\<rparr>) p)
                             (dealloc_owned H fr w)))
              | _ \<Rightarrow> fail ''push_smart_ptr can only be called on pointers to supported pointee types'')"

definition begin_smart_ptr_body :: "host \<Rightarrow> shapes \<Rightarrow> partial \<Rightarrow> world \<Rightarrow> body" where
  "begin_smart_ptr_body H S p w =
     (case top_frame p of
        None \<Rightarrow> B_Panic
      | Some fr \<Rightarrow>
          (let fail = (\<lambda>m. fails H S p w (Ek_Operation_Failed (fr_shape fr) m))
           in case sh_def (S (fr_shape fr)) of
                Def_Pointer pointee \<Rightarrow>
                  if \<not> constructible_from_pointee (h_vt H (fr_shape fr))
                  then fail ''push_smart_ptr can only be called on compatible types''
                  else (case pointee of
                     None \<Rightarrow> fail ''Smart pointer must have a pointee shape''
                   | Some t \<Rightarrow>
                       (let inner_path = (case fr_tracker fr of
                              Tr_SmartPointer True pending \<Rightarrow>
                                if is_deferred p then Some (derive_path H p) else None
                            | _ \<Rightarrow> None)
                        in reinit_then H S p w (\<lambda>p w.
                             case inner_path of
                               Some check_path \<Rightarrow>
                                 restore_stored check_path (Tr_SmartPointer True None) p w
                                   (begin_pointee H S t p fr w)
                             | None \<Rightarrow> begin_pointee H S t p fr w)))
              | _ \<Rightarrow> fail ''push_smart_ptr can only be called on compatible types''))"

definition begin_smart_ptr :: "host \<Rightarrow> shapes \<Rightarrow> partial \<Rightarrow> world \<Rightarrow> attempt" where
  "begin_smart_ptr H S p w = attempt_of H S (begin_smart_ptr_body H S p w)"

section \<open>Proxies\<close>

definition push_proxy ::
    "host \<Rightarrow> shapes \<Rightarrow> partial \<Rightarrow> world \<Rightarrow> sref \<Rightarrow> sref \<Rightarrow> node_id \<Rightarrow> body" where
  "push_proxy H S p w target proxy proxy_node =
     (case vt_size (h_vt H proxy) of
        None \<Rightarrow> fails H S p w (Ek_Unsized target ''Not a Sized type'')
      | Some n \<Rightarrow>
          (let (data, w) = alloc_for_layout n w;
               fr = frame_new S data (allocated_new proxy n) Owned proxy_node
           in B_Ok (push_frame (fr\<lparr>fr_custom := True, fr_shape_level_proxy := Some proxy\<rparr>) p) w))"

text \<open>The proxy of the shape itself; without one the value is left as it is, and the answer is no.\<close>

definition begin_custom_deserialization_from_shape_with_format ::
    "host \<Rightarrow> shapes \<Rightarrow> string option \<Rightarrow> partial \<Rightarrow> world \<Rightarrow> attempt \<times> bool" where
  "begin_custom_deserialization_from_shape_with_format H S format p w =
     (let unchanged = (Done p w, False)
      in case (top_frame p, deser_strategy_of p, proxy_nodes_of p) of
           (Some fr, Some strategy, Some proxies) \<Rightarrow>
             if strategy \<noteq> Some Ds_ContainerProxy then unchanged
             else (case (Option.bind proxies (\<lambda>ps. node_for ps format),
                         effective_proxy (S (fr_shape fr)) format) of
                     (Some proxy_node, Some proxy) \<Rightarrow>
                       (attempt_of H S (push_proxy H S p w (fr_shape fr) proxy proxy_node), True)
                   | _ \<Rightarrow> unchanged)
         | _ \<Rightarrow> (Panic, False))"

definition begin_custom_deserialization_with_format ::
    "host \<Rightarrow> shapes \<Rightarrow> string option \<Rightarrow> partial \<Rightarrow> world \<Rightarrow> attempt" where
  "begin_custom_deserialization_with_format H S format p w =
     (case (top_frame p, deser_strategy_of p, proxy_nodes_of p) of
        (Some fr, Some strategy, Some proxies) \<Rightarrow>
          (let fail = (\<lambda>m. attempt_of H S (fails H S p w (Ek_Operation_Failed (fr_shape fr) m)));
               no_field = fail ''not currently processing a field'';
               no_proxy = fail ''field does not have a proxy'';
               proceed =
                 (case Option.bind proxies (\<lambda>ps. node_for ps format) of
                    None \<Rightarrow> fail ''no proxy node found for format''
                  | Some proxy_node \<Rightarrow>
                      (case parent_field S p of
                         None \<Rightarrow> no_field
                       | Some f \<Rightarrow>
                           (case field_effective_proxy f format of
                              None \<Rightarrow> no_proxy
                            | Some proxy \<Rightarrow>
                                attempt_of H S (push_proxy H S p w (fr_shape fr) proxy proxy_node))))
           in if strategy = Some Ds_FieldProxy then proceed
              else (case parent_field S p of
                      None \<Rightarrow> no_field
                    | Some f \<Rightarrow> if field_effective_proxy f format = None then no_proxy else proceed))
      | _ \<Rightarrow> Panic)"

end
