(* ===== verification/Partial_Coll.thy ===== *)
theory Partial_Coll
  imports Partial_Nest
begin

text \<open>
  Building collections (facet-reflect, src/partial/partial_api: lists.rs, maps.rs, sets.rs): lists,
  slices behind a pointer, the arrays and objects of dynamic values, maps and sets. The elements of
  a list lie in its rope until the list is complete, the keys and values of a map in memory of
  their own.
\<close>

section \<open>Starting a collection\<close>

definition put_tracker :: "tracker \<Rightarrow> partial \<Rightarrow> world \<Rightarrow> body" where
  "put_tracker t p w = B_Ok (set_top_tracker t p) w"

text \<open>The empty collection is written and the frame complete.\<close>

definition write_empty :: "write_kind \<Rightarrow> tracker \<Rightarrow> partial \<Rightarrow> world \<Rightarrow> body" where
  "write_empty how t p w =
     (case top_frame p of
        None \<Rightarrow> B_Panic
      | Some fr \<Rightarrow> B_Ok (set_top (fr\<lparr>fr_tracker := t, fr_is_init := True\<rparr>) p)
                     (emit (Ef_Write how (fr_shape fr) (fr_data fr)) w))"

definition fresh_list :: tracker where "fresh_list = Tr_List None None"
definition fresh_dyn_array :: tracker where "fresh_dyn_array = Tr_DynamicValue (Dyn_Array False [])"
definition fresh_map :: tracker where "fresh_map = Tr_Map Map_Idle [] None False"
definition fresh_object :: tracker where "fresh_object = Tr_DynamicValue (Dyn_Object Dyn_Idle [])"

definition deinit_for_replace_top ::
    "host \<Rightarrow> shapes \<Rightarrow> partial \<Rightarrow> frame \<Rightarrow> world \<Rightarrow> (partial \<Rightarrow> world \<Rightarrow> body) \<Rightarrow> body" where
  "deinit_for_replace_top H S p fr w k = replace_value H S p fr w (\<lambda>p fr w. k p w)"

definition create_list :: "host \<Rightarrow> shapes \<Rightarrow> sref \<Rightarrow> nat \<Rightarrow> partial \<Rightarrow> world \<Rightarrow> body" where
  "create_list H S s capacity p w =
     (case sh_def (S s) of
        Def_List t \<Rightarrow>
          if vt_list_init (h_vt H s) then write_empty (W_Empty capacity) fresh_list p w
          else fails H S p w (Ek_Operation_Failed s
                 ''list type does not support initialization with capacity'')
      | Def_DynamicValue \<Rightarrow> write_empty W_Dyn_Array fresh_dyn_array p w
      | _ \<Rightarrow> fails H S p w (Ek_Operation_Failed s
               ''init_list can only be called on List or DynamicValue types''))"

definition init_list_body :: "host \<Rightarrow> shapes \<Rightarrow> nat \<Rightarrow> partial \<Rightarrow> world \<Rightarrow> body" where
  "init_list_body H S capacity p w =
     (case top_frame p of
        None \<Rightarrow> B_Panic
      | Some fr \<Rightarrow>
          (let s = fr_shape fr; create = create_list H S s capacity
           in case fr_tracker fr of
                Tr_Scalar \<Rightarrow>
                  if \<not> fr_is_init fr then create p w
                  else (case sh_def (S s) of
                          Def_List t \<Rightarrow> put_tracker fresh_list p w
                        | Def_DynamicValue \<Rightarrow> put_tracker fresh_dyn_array p w
                        | _ \<Rightarrow> fails H S p w (Ek_Operation_Failed s
                                 ''init_list can only be called on List types or DynamicValue''))
              | Tr_List c rope \<Rightarrow> if fr_is_init fr then B_Ok p w else create p w
              | Tr_DynamicValue (Dyn_Array b elements) \<Rightarrow> B_Ok p w
              | Tr_DynamicValue d \<Rightarrow> deinit_for_replace_top H S p fr w create
              | Tr_SmartPointerSlice b c \<Rightarrow> B_Ok p w
              | t \<Rightarrow> fails H S p w (Ek_Unexpected_Tracker
                       ''init_list called but tracker isn't something list-like'' (tracker_kind_of t))))"

definition init_list_with_capacity :: "host \<Rightarrow> shapes \<Rightarrow> nat \<Rightarrow> partial \<Rightarrow> world \<Rightarrow> attempt" where
  "init_list_with_capacity H S capacity p w = attempt_of H S (init_list_body H S capacity p w)"

definition init_list :: "host \<Rightarrow> shapes \<Rightarrow> partial \<Rightarrow> world \<Rightarrow> attempt" where
  "init_list H S p w = init_list_with_capacity H S 0 p w"

definition create_map :: "host \<Rightarrow> shapes \<Rightarrow> sref \<Rightarrow> partial \<Rightarrow> world \<Rightarrow> body" where
  "create_map H S s p w =
     (case sh_def (S s) of
        Def_Map k v \<Rightarrow> write_empty (W_Empty 0) fresh_map p w
      | Def_DynamicValue \<Rightarrow> write_empty W_Dyn_Object fresh_object p w
      | _ \<Rightarrow> fails H S p w (Ek_Operation_Failed s
               ''init_map can only be called on Map or DynamicValue types''))"

definition init_map_body :: "host \<Rightarrow> shapes \<Rightarrow> partial \<Rightarrow> world \<Rightarrow> body" where
  "init_map_body H S p w =
     (case top_frame p of
        None \<Rightarrow> B_Panic
      | Some fr \<Rightarrow>
          (let s = fr_shape fr; create = create_map H S s
           in case fr_tracker fr of
                Tr_Scalar \<Rightarrow>
                  if \<not> fr_is_init fr then create p w
                  else (case sh_def (S s) of
                          Def_Map k v \<Rightarrow> put_tracker fresh_map p w
                        | Def_DynamicValue \<Rightarrow>
                            if h_dyn_is_object H (w_log w) (fr_data fr) then put_tracker fresh_object p w
                            else deinit_for_replace_top H S p fr w create
                        | _ \<Rightarrow> fails H S p w (Ek_Operation_Failed s
                                 ''init_map can only be called on Map or DynamicValue types''))
              | Tr_Map st es i b \<Rightarrow> if fr_is_init fr then B_Ok p w else create p w
              | Tr_DynamicValue (Dyn_Object st entries) \<Rightarrow> B_Ok p w
              | Tr_DynamicValue d \<Rightarrow> deinit_for_replace_top H S p fr w create
              | t \<Rightarrow> fails H S p w (Ek_Unexpected_Tracker
                       ''init_map called but tracker isn't Scalar, Map, or DynamicValue'' (tracker_kind_of t))))"

definition init_map :: "host \<Rightarrow> shapes \<Rightarrow> partial \<Rightarrow> world \<Rightarrow> attempt" where
  "init_map H S p w = attempt_of H S (init_map_body H S p w)"

definition init_set_body :: "host \<Rightarrow> shapes \<Rightarrow> partial \<Rightarrow> world \<Rightarrow> body" where
  "init_set_body H S p w =
     (case top_frame p of
        None \<Rightarrow> B_Panic
      | Some fr \<Rightarrow>
          (let s = fr_shape fr;
               create = (case sh_def (S s) of
                  Def_Set t \<Rightarrow> write_empty (W_Empty 0) (Tr_Set False) p w
                | _ \<Rightarrow> fails H S p w (Ek_Operation_Failed s ''init_set can only be called on Set types''))
           in case fr_tracker fr of
                Tr_Scalar \<Rightarrow> if fr_is_init fr then put_tracker (Tr_Set False) p w else create
              | Tr_Set c \<Rightarrow> if fr_is_init fr then B_Ok p w else create
              | t \<Rightarrow> fails H S p w (Ek_Unexpected_Tracker
                       ''init_set called but tracker isn't something set-like'' (tracker_kind_of t))))"

definition init_set :: "host \<Rightarrow> shapes \<Rightarrow> partial \<Rightarrow> world \<Rightarrow> attempt" where
  "init_set H S p w = attempt_of H S (init_set_body H S p w)"

section \<open>Elements\<close>

text \<open>The item of the slice is two nodes down in the type plan.\<close>

definition slice_item_node_id :: "partial \<Rightarrow> node_id \<Rightarrow> node_id option option" where
  "slice_item_node_id p i =
     (case pointer_inner_node_id (pt_plan p) i of
        Some (Some slice_node_id) \<Rightarrow> list_item_node_id (pt_plan p) slice_node_id
      | _ \<Rightarrow> None)"

definition pointed_slice_item :: "shapes \<Rightarrow> sref \<Rightarrow> string + sref" where
  "pointed_slice_item S s =
     (case sh_def (S s) of
        Def_Pointer (Some pointee) \<Rightarrow>
          (case sh_ty (S pointee) of
             Ty_Sequence (Seq_Slice t) \<Rightarrow> Inr t
           | _ \<Rightarrow> Inl ''smart pointer pointee is not a slice'')
      | Def_Pointer None \<Rightarrow> Inl ''smart pointer has no pointee''
      | _ \<Rightarrow> Inl ''expected smart pointer definition'')"

definition begin_slice_item ::
    "host \<Rightarrow> shapes \<Rightarrow> bool \<Rightarrow> nat option \<Rightarrow> partial \<Rightarrow> frame \<Rightarrow> world \<Rightarrow> body" where
  "begin_slice_item H S building_item current_child p fr w =
     (let s = fr_shape fr; fail = (\<lambda>s m. fails H S p w (Ek_Operation_Failed s m));
          next_idx = (case current_child of Some i \<Rightarrow> i + 1 | None \<Rightarrow> 0)
      in if building_item then fail s ''already building an item, call end() first''
         else case pointed_slice_item S s of
                Inl m \<Rightarrow> fail s m
              | Inr t \<Rightarrow>
                  if vt_size (h_vt H t) = None then fail t ''cannot allocate unsized element''
                  else push_owned H S (set_top_tracker (Tr_SmartPointerSlice True (Some next_idx)) p) w t []
                         (slice_item_node_id p (fr_type_plan fr)))"

definition begin_dyn_element ::
    "host \<Rightarrow> shapes \<Rightarrow> bool \<Rightarrow> ptr list \<Rightarrow> partial \<Rightarrow> frame \<Rightarrow> world \<Rightarrow> body" where
  "begin_dyn_element H S building_element elements p fr w =
     (let s = fr_shape fr
      in if building_element
         then fails H S p w (Ek_Operation_Failed s ''already building an element, call end() first'')
         else if vt_size (h_vt H s) = None
         then fails H S p w (Ek_Unsized s ''begin_list_item: calculating element layout'')
         else push_owned H S (set_top_tracker (Tr_DynamicValue (Dyn_Array True elements)) p) w s []
                (Some (Some (fr_type_plan fr))))"

text \<open>A slot in the rope of the list, which is created for the first element; an element of size
  zero needs none.\<close>

definition list_slot ::
    "list_rope option \<Rightarrow> nat \<Rightarrow> world \<Rightarrow> (ptr \<times> frame_ownership \<times> list_rope option \<times> world) option" where
  "list_slot rope n w =
     (if n = 0 then Some (Dangling, Owned, rope, w)
      else Option.bind (case rope of None \<Rightarrow> rope_new n | Some r \<Rightarrow> Some r) (\<lambda>r.
             map_option (\<lambda>(slot, r, w). (slot, RopeSlot, Some r, w)) (push_uninit r w)))"

definition begin_plain_list_item ::
    "host \<Rightarrow> shapes \<Rightarrow> sref \<Rightarrow> nat option \<Rightarrow> list_rope option \<Rightarrow> partial \<Rightarrow> frame \<Rightarrow> world \<Rightarrow> body" where
  "begin_plain_list_item H S t current_child rope p fr w =
     (let s = fr_shape fr;
          current_len = (case rope of Some r \<Rightarrow> rp_len r | None \<Rightarrow> h_list_len H (w_log w) (fr_data fr));
          put = (\<lambda>rope. set_top_tracker (Tr_List (Some current_len) rope) p)
      in if current_child \<noteq> None
         then fails H S p w (Ek_Operation_Failed s ''already pushing an element, call pop() first'')
         else case vt_size (h_vt H t) of
                None \<Rightarrow> fails H S (put rope) w (Ek_Unsized t ''begin_list_item: calculating element layout'')
              | Some n \<Rightarrow>
                  (case list_slot rope n w of
                     None \<Rightarrow> B_Panic
                   | Some (slot, ownership, rope, w) \<Rightarrow>
                       expect_node (list_item_node_id (pt_plan p) (fr_type_plan fr)) (\<lambda>i.
                         B_Ok (push_frame (frame_new S slot (allocated_new t n) ownership i) (put rope)) w)))"

definition begin_list_item_body :: "host \<Rightarrow> shapes \<Rightarrow> partial \<Rightarrow> world \<Rightarrow> body" where
  "begin_list_item_body H S p w =
     (case top_frame p of
        None \<Rightarrow> B_Panic
      | Some fr \<Rightarrow>
          (let s = fr_shape fr;
               plain = (case (sh_def (S s), fr_tracker fr) of
                  (Def_List t, Tr_List c rope) \<Rightarrow>
                    if fr_is_init fr then begin_plain_list_item H S t c rope p fr w
                    else fails H S p w (Ek_Operation_Failed s ''must call init_list() before push()'')
                | (Def_List t, _) \<Rightarrow>
                    fails H S p w (Ek_Operation_Failed s ''must call init_list() before push()'')
                | _ \<Rightarrow> fails H S p w (Ek_Operation_Failed s
                         ''push can only be called on List or DynamicValue types''))
           in case fr_tracker fr of
                Tr_SmartPointerSlice b c \<Rightarrow> begin_slice_item H S b c p fr w
              | Tr_DynamicValue (Dyn_Array b elements) \<Rightarrow> begin_dyn_element H S b elements p fr w
              | _ \<Rightarrow> plain))"

definition begin_list_item :: "host \<Rightarrow> shapes \<Rightarrow> partial \<Rightarrow> world \<Rightarrow> attempt" where
  "begin_list_item H S p w = attempt_of H S (begin_list_item_body H S p w)"

definition begin_set_item_body :: "host \<Rightarrow> shapes \<Rightarrow> partial \<Rightarrow> world \<Rightarrow> body" where
  "begin_set_item_body H S p w =
     (case top_frame p of
        None \<Rightarrow> B_Panic
      | Some fr \<Rightarrow>
          (let s = fr_shape fr; fail = (\<lambda>m. fails H S p w (Ek_Operation_Failed s m))
           in case sh_def (S s) of
                Def_Set t \<Rightarrow>
                  (case fr_tracker fr of
                     Tr_Set current_child \<Rightarrow>
                       if \<not> fr_is_init fr then fail ''must call init_set() before begin_set_item()''
                       else if current_child then fail ''already pushing an element, call end() first''
                       else push_owned H S (set_top_tracker (Tr_Set True) p) w t
                              ''begin_set_item: calculating element layout''
                              (set_item_node_id (pt_plan p) (fr_type_plan fr))
                   | _ \<Rightarrow> fail ''must call init_set() before begin_set_item()'')
              | _ \<Rightarrow> fail ''init_set_item can only be called on Set types''))"

definition begin_set_item :: "host \<Rightarrow> shapes \<Rightarrow> partial \<Rightarrow> world \<Rightarrow> attempt" where
  "begin_set_item H S p w = attempt_of H S (begin_set_item_body H S p w)"

section \<open>Keys and values\<close>

text \<open>The frame of a key or a value: its memory is freed with the frame, and its address known to
  the map.\<close>

definition push_tracked ::
    "host \<Rightarrow> shapes \<Rightarrow> partial \<Rightarrow> world \<Rightarrow> sref \<Rightarrow> string \<Rightarrow> (ptr \<Rightarrow> tracker) \<Rightarrow> node_id option option \<Rightarrow> body" where
  "push_tracked H S p w s operation put node =
     (case vt_size (h_vt H s) of
        None \<Rightarrow> fails H S p w (Ek_Unsized s operation)
      | Some n \<Rightarrow>
          (let (data, w) = alloc_for_layout n w
           in expect_node node (\<lambda>i.
                B_Ok (push_frame (frame_new S data (allocated_new s n) TrackedBuffer i)
                        (set_top_tracker (put data) p)) w)))"

definition begin_key_body :: "host \<Rightarrow> shapes \<Rightarrow> partial \<Rightarrow> world \<Rightarrow> body" where
  "begin_key_body H S p w =
     (case top_frame p of
        None \<Rightarrow> B_Panic
      | Some fr \<Rightarrow>
          (let fail = (\<lambda>m. fails H S p w (Ek_Operation_Failed (fr_shape fr) m));
               no_map = fail ''must call init_map() before begin_key()''
           in case (sh_def (S (fr_shape fr)), fr_tracker fr) of
                (Def_Map k v, Tr_Map st entries i b) \<Rightarrow>
                  (case st of
                     Map_Idle \<Rightarrow>
                       if \<not> fr_is_init fr then no_map
                       else push_tracked H S p w k ''begin_key allocating key''
                              (\<lambda>key_ptr. Tr_Map (Map_Pushing_Key key_ptr) entries
                                 (Some (case i of None \<Rightarrow> length entries | Some idx \<Rightarrow> idx + 1)) True)
                              (map_key_node_id (pt_plan p) (fr_type_plan fr))
                   | Map_Pushing_Key kp \<Rightarrow> fail ''already pushing a key, call end() first''
                   | Map_Pushing_Value kp vp \<Rightarrow> fail ''must complete current operation before begin_key()'')
              | _ \<Rightarrow> no_map))"

definition begin_key :: "host \<Rightarrow> shapes \<Rightarrow> partial \<Rightarrow> world \<Rightarrow> attempt" where
  "begin_key H S p w = attempt_of H S (begin_key_body H S p w)"

definition begin_value_body :: "host \<Rightarrow> shapes \<Rightarrow> partial \<Rightarrow> world \<Rightarrow> body" where
  "begin_value_body H S p w =
     (case top_frame p of
        None \<Rightarrow> B_Panic
      | Some fr \<Rightarrow>
          (let fail = (\<lambda>m. fails H S p w (Ek_Operation_Failed (fr_shape fr) m))
           in case (sh_def (S (fr_shape fr)), fr_tracker fr) of
                (Def_Map k v, Tr_Map (Map_Pushing_Value key_ptr None) entries i b) \<Rightarrow>
                  push_tracked H S p w v ''begin_value allocating value''
                    (\<lambda>value_ptr. Tr_Map (Map_Pushing_Value key_ptr (Some value_ptr)) entries i False)
                    (map_value_node_id (pt_plan p) (fr_type_plan fr))
              | (Def_Map k v, Tr_Map (Map_Pushing_Value key_ptr (Some vp)) entries i b) \<Rightarrow>
                  fail ''already pushing a value, call end() first''
              | _ \<Rightarrow> fail ''must complete key before begin_value()''))"

definition begin_value :: "host \<Rightarrow> shapes \<Rightarrow> partial \<Rightarrow> world \<Rightarrow> attempt" where
  "begin_value H S p w = attempt_of H S (begin_value_body H S p w)"

section \<open>Entries of dynamic objects\<close>

text \<open>An entry that is there is entered in place: one that waits in the frame, or one of the
  object itself.\<close>

definition push_borrowed :: "host \<Rightarrow> shapes \<Rightarrow> ptr \<Rightarrow> partial \<Rightarrow> frame \<Rightarrow> world \<Rightarrow> body" where
  "push_borrowed H S data p fr w =
     (case vt_size (h_vt H (fr_shape fr)) of
        None \<Rightarrow> B_Panic
      | Some n \<Rightarrow>
          B_Ok (push_frame ((frame_new S data (allocated_new (fr_shape fr) n) BorrowedInPlace
                   (fr_type_plan fr))\<lparr>fr_is_init := True, fr_tracker := Tr_Scalar\<rparr>) p) w)"

definition begin_entry ::
    "host \<Rightarrow> shapes \<Rightarrow> string \<Rightarrow> (string \<times> ptr) list \<Rightarrow> partial \<Rightarrow> frame \<Rightarrow> world \<Rightarrow> body" where
  "begin_entry H S key entries p fr w =
     (case List.find (\<lambda>e. fst e = key) entries of
        Some (k, value_ptr) \<Rightarrow> push_borrowed H S value_ptr p fr w
      | None \<Rightarrow>
          (case h_object_get_mut H (w_log w) (fr_data fr) key of
             Some existing_ptr \<Rightarrow> push_borrowed H S existing_ptr p fr w
           | None \<Rightarrow>
               if vt_size (h_vt H (fr_shape fr)) = None
               then fails H S p w (Ek_Unsized (fr_shape fr) ''begin_object_entry: calculating value layout'')
               else push_owned H S
                      (set_top_tracker (Tr_DynamicValue (Dyn_Object (Dyn_Building_Value key) entries)) p) w
                      (fr_shape fr) [] (Some (Some (fr_type_plan fr)))))"

definition begin_object_entry_body :: "host \<Rightarrow> shapes \<Rightarrow> string \<Rightarrow> partial \<Rightarrow> world \<Rightarrow> body" where
  "begin_object_entry_body H S key p w =
     (case top_frame p of
        None \<Rightarrow> B_Panic
      | Some fr \<Rightarrow>
          (let fail = (\<lambda>m. fails H S p w (Ek_Operation_Failed (fr_shape fr) m));
               no_object = fail ''must call init_map() before begin_object_entry()''
           in if sh_def (S (fr_shape fr)) \<noteq> Def_DynamicValue
              then fail ''begin_object_entry can only be called on DynamicValue types''
              else case fr_tracker fr of
                     Tr_DynamicValue (Dyn_Object Dyn_Idle entries) \<Rightarrow>
                       if fr_is_init fr then begin_entry H S key entries p fr w else no_object
                   | Tr_DynamicValue (Dyn_Object (Dyn_Building_Value k) entries) \<Rightarrow>
                       fail ''already building a value, call end() first''
                   | _ \<Rightarrow> no_object))"

definition begin_object_entry :: "host \<Rightarrow> shapes \<Rightarrow> string \<Rightarrow> partial \<Rightarrow> world \<Rightarrow> attempt" where
  "begin_object_entry H S key p w = attempt_of H S (begin_object_entry_body H S key p w)"

section \<open>Shorthands\<close>

definition set_and_end ::
    "host \<Rightarrow> shapes \<Rightarrow> ptr \<Rightarrow> sref \<Rightarrow> attempt \<Rightarrow> attempt" where
  "set_and_end H S src_value src entered =
     and_then (and_then entered (set_shape H S src_value src)) (partial_end H S)"

definition set_key where "set_key H S v src p w = set_and_end H S v src (begin_key H S p w)"
definition set_value where "set_value H S v src p w = set_and_end H S v src (begin_value H S p w)"
definition push_item where "push_item H S v src p w = set_and_end H S v src (begin_list_item H S p w)"
definition insert_item where "insert_item H S v src p w = set_and_end H S v src (begin_set_item H S p w)"

end
