(* ===== verification/Partial_Build.thy ===== *)
theory Partial_Build
  imports Partial_Coll
begin

text \<open>
  The end of a partial value (facet-reflect, src/partial/partial_api/build.rs and
  src/partial/heap_value.rs): the last frame is completed, the invariants of the value are checked
  (what they say is read from the host), and the value is handed over, in a heap value or in the
  memory of the caller. The partial value is destroyed in every case, with what is left in it.
\<close>

section \<open>Heap values\<close>

record guard =
  gd_ptr :: ptr
  gd_size :: nat
  gd_should_dealloc :: bool

record heap_value =
  hv_guard :: "guard option"
  hv_shape :: sref

definition guard_drop :: "guard \<Rightarrow> world \<Rightarrow> world" where
  "guard_drop g w =
     (if gd_should_dealloc g \<and> gd_size g \<noteq> 0 then emit (Ef_Dealloc (gd_ptr g) (gd_size g)) w else w)"

definition heap_value_drop :: "host \<Rightarrow> heap_value \<Rightarrow> world \<Rightarrow> world" where
  "heap_value_drop H hv w =
     (case hv_guard hv of
        None \<Rightarrow> w
      | Some g \<Rightarrow> guard_drop g (call_drop_in_place H (hv_shape hv) (gd_ptr g) w))"

text \<open>Moving the value out at a type; with another type the heap value is dropped.\<close>

definition materialize ::
    "host \<Rightarrow> shapes \<Rightarrow> sref \<Rightarrow> heap_value \<Rightarrow> world \<Rightarrow> (((sref \<times> sref) + ptr) \<times> world) option" where
  "materialize H S t hv w =
     (if \<not> same_shape S (hv_shape hv) t
      then Some (Inl (t, hv_shape hv), heap_value_drop H hv w)
      else map_option (\<lambda>g. (Inr (gd_ptr g), guard_drop g (emit (Ef_Move_Out t (gd_ptr g)) w))) (hv_guard hv))"

section \<open>Building\<close>

datatype build_outcome = Bd_Panic | Bd_Failed error_kind path world | Bd_Done heap_value world

text \<open>Both ways check the one frame that is left, pop it and check the invariants; then they go on
  with the frame and what remains of the partial value.\<close>

definition finish_value ::
    "host \<Rightarrow> shapes \<Rightarrow> string \<Rightarrow> partial \<Rightarrow> world \<Rightarrow> body" where
  "finish_value H S operation p w =
     (if length (frames p) \<noteq> 1 then fails H S p w (Ek_Invariant_Violation operation)
      else check_top H S p w (\<lambda>p w.
             case top_frame p of
               None \<Rightarrow> B_Panic
             | Some fr \<Rightarrow>
                 (case h_invariants H (w_log w) (fr_shape fr) (fr_data fr) of
                    Some (s, m) \<Rightarrow> fails H S p w (Ek_User_Invariant m s)
                  | None \<Rightarrow> B_Ok p w)))"

definition failed_build :: "host \<Rightarrow> shapes \<Rightarrow> error_kind \<Rightarrow> path \<Rightarrow> partial \<Rightarrow> world \<Rightarrow> build_outcome" where
  "failed_build H S e path p w =
     (case partial_drop H S p w of None \<Rightarrow> Bd_Panic | Some w \<Rightarrow> Bd_Failed e path w)"

definition build :: "host \<Rightarrow> shapes \<Rightarrow> partial \<Rightarrow> world \<Rightarrow> build_outcome" where
  "build H S p w =
     (case finish_value H S
             ''Partial::build() expects a single frame - call end() until that's the case'' p w of
        B_Panic \<Rightarrow> Bd_Panic
      | B_Fail e path p w \<Rightarrow> failed_build H S e path p w
      | B_Ok p w \<Rightarrow>
          (case top_frame p of
             None \<Rightarrow> Bd_Panic
           | Some fr \<Rightarrow>
               (let rest = (pop_frame p)\<lparr>pt_state := Built\<rparr>
                in case vt_size (h_vt H (fr_shape fr)) of
                     None \<Rightarrow>
                       failed_build H S (Ek_Unsized (fr_shape fr) ''build (final check for sized layout)'')
                         (partial_path H S rest) (push_frame fr rest) w
                   | Some n \<Rightarrow>
                       (case partial_drop H S rest w of
                          None \<Rightarrow> Bd_Panic
                        | Some w \<Rightarrow>
                            Bd_Done \<lparr>hv_guard = Some \<lparr>gd_ptr = fr_data fr, gd_size = n,
                                       gd_should_dealloc = needs_dealloc (fr_ownership fr)\<rparr>,
                                     hv_shape = fr_shape fr\<rparr> w))))"

definition finish_in_place :: "host \<Rightarrow> shapes \<Rightarrow> partial \<Rightarrow> world \<Rightarrow> ((error_kind \<times> path) option \<times> world) option" where
  "finish_in_place H S p w =
     (case finish_value H S
             ''Partial::finish_in_place() expects a single frame - call end() until that's the case'' p w of
        B_Panic \<Rightarrow> None
      | B_Fail e path p w \<Rightarrow> map_option (\<lambda>w. (Some (e, path), w)) (partial_drop H S p w)
      | B_Ok p w \<Rightarrow>
          map_option (\<lambda>w. (None, w)) (partial_drop H S ((pop_frame p)\<lparr>pt_state := Built\<rparr>) w))"

end
