(* ===== verification/Partial_Laws.thy ===== *)
theory Partial_Laws
  imports Partial_Build
begin

text \<open>
  Facts about the operations of a partial value that hold in all of its states: the fast path of
  \<open>end\<close> is only a fast path, and a field that is left in deferred mode can be entered again.
\<close>

section \<open>The stack\<close>

lemma top_two:
  assumes "top_frame p = Some fr" and "below_top p = Some parent"
  obtains bs where "frames p = bs @ [parent, fr]"
proof -
  from assms have l: "2 \<le> length (frames p)" "frames p \<noteq> []" "last (frames p) = fr"
    "frames p ! (length (frames p) - 2) = parent"
    by (auto simp: top_frame_def below_top_def Let_def split: if_splits)
  then obtain as where as: "frames p = as @ [fr]" by (metis append_butlast_last_id)
  with l(1) have "as \<noteq> []" by auto
  then obtain bs x where bs: "as = bs @ [x]" by (metis rev_exhaust)
  with as l(4) have "x = parent" by (simp add: nth_append)
  with as bs show thesis by (intro that) simp
qed

lemma partial_stack_simps [simp]:
  "frames (set_frames fs p) = fs" "pt_plan (set_frames fs p) = pt_plan p"
  "stored_frames (set_frames fs p) = stored_frames p" "is_deferred (set_frames fs p) = is_deferred p"
  "set_frames fs (set_frames gs p) = set_frames fs p"
  "frames (set_stored m p) = frames p" "is_deferred (set_stored m p) = is_deferred p"
  by (cases "pt_mode p"; simp add: frames_def set_frames_def stored_frames_def is_deferred_def set_stored_def)+

lemma stored_set_stored [simp]: "is_deferred p \<Longrightarrow> stored_frames (set_stored m p) = m"
  by (cases "pt_mode p") (simp_all add: stored_frames_def set_stored_def is_deferred_def)

lemma set_frames_same [simp]: "set_frames (frames p) p = p"
  by (cases "pt_mode p") (simp_all add: frames_def set_frames_def)

section \<open>The fast path of end\<close>

lemma complete_scalar_passes:
  assumes "fr_tracker fr = Tr_Scalar" and "fr_is_init fr"
  shows "fill_defaults H S fr w = Some (None, fr, w)"
    and "require_full_initialization H S fr w = Some (None, fr, w)"
    and "fill_and_require_fields H S c plans n fr w = Some (None, fr, w)"
  using assms by (simp_all add: fill_defaults_def fill_by_tracker_def require_full_initialization_def
      fill_and_require_fields_def Let_def)

lemma check_top_passes:
  assumes top: "top_frame p = Some fr" and "fr_tracker fr = Tr_Scalar" and "fr_is_init fr"
    and "frame_plans (pt_plan p) fr \<noteq> None"
  shows "check_top H S p w k = k p w"
proof -
  note passes = complete_scalar_passes [OF assms(2,3)]
  have same: "set_top fr p = p" using top by (auto simp: top_frame_def set_top_def split: if_splits)
  from assms(4) obtain r where "frame_plans (pt_plan p) fr = Some r" by blast
  then show ?thesis
    by (cases r) (simp_all add: check_top_def top on_top_def fill_and_require_top_def passes same)
qed

lemma fast_path_cases:
  assumes "fast_path p = Some (bits, idx)"
  obtains fr parent c where "top_frame p = Some fr" "below_top p = Some parent" "fr_tracker fr = Tr_Scalar" "fr_is_init fr"
    "fr_ownership fr = Own_Field idx" "\<not> fr_custom fr" "fr_tracker parent = Tr_Struct bits c" "\<not> is_deferred p"
  using assms by (auto simp: fast_path_def split: option.splits tracker.splits bool.splits frame_ownership.splits if_splits)

lemma fast_is_slow:
  assumes fast: "fast_path p = Some (bits, idx)" and "top_frame p = Some fr"
    and plans: "frame_plans (pt_plan p) fr \<noteq> None"
  shows "end_slow H S p w =
    (case iset_set bits idx of
       None \<Rightarrow> B_Panic
     | Some bits \<Rightarrow> B_Ok (set_top_tracker (Tr_Struct bits None) (pop_frame p)) w)"
proof -
  obtain parent c where top: "top_frame p = Some fr" and below: "below_top p = Some parent"
    and fr: "fr_tracker fr = Tr_Scalar" "fr_is_init fr" "fr_ownership fr = Own_Field idx" "\<not> fr_custom fr"
    and parent: "fr_tracker parent = Tr_Struct bits c" and strict: "\<not> is_deferred p"
    using fast_path_cases [OF fast] assms(2) by (metis option.inject)
  obtain bs where fs: "frames p = bs @ [parent, fr]" using top_two [OF top below] .
  have popped: "top_frame (pop_frame p) = Some parent" by (simp add: pop_frame_def top_frame_def fs butlast_append)
  have "mode_start_depth (pt_mode p) = None" using strict by (cases "pt_mode p") (simp_all add: is_deferred_def)
  then have "end_slow H S p w = end_pop H S p w"
    using fr strict by (simp add: end_slow_def needs_slice_conversion_def top fs check_top_passes [OF top _ _ plans])
  also have "\<dots> = end_field H S (pop_frame p) idx parent fr w"
    using fr parent strict
    by (simp add: end_pop_def top below end_popped_def needs_conversion_def)
  also have "\<dots> = (case iset_set bits idx of
       None \<Rightarrow> B_Panic
     | Some bits \<Rightarrow> B_Ok (set_top_tracker (Tr_Struct bits None) (pop_frame p)) w)"
    using parent
    by (simp add: end_field_def complete_scalar_passes [OF fr(1,2)] reclaim_field_def set_top_tracker_def popped
        split: option.splits)
  finally show ?thesis .
qed

section \<open>Entering a stored field again\<close>

lemma storage_is_check_path:
  assumes "tracker_step (fr_tracker parent) = [s]" and "tracker_step (fr_tracker parent') = []"
    and "fr_custom parent' = fr_custom parent" and "\<not> fr_custom popped"
  shows "storage_steps (bs @ [parent, popped]) = derive_steps (bs @ [parent']) @ [s]"
  using assms
proof (induction bs)
  case (Cons b bs)
  then show ?case by (cases bs) (simp_all add: proxy_step_def)
qed (simp add: proxy_step_def)

lemma btm_remove_insert [simp]: "btm_remove k (btm_insert k v m) = btm_remove k m"
  by (induction k v m rule: btm_insert.induct) (auto simp: btm_remove_def)

text \<open>The trackers that count the fields of a struct or of a variant.\<close>

definition field_tracker :: "tracker \<Rightarrow> (iset \<times> nat option \<times> (iset \<Rightarrow> nat option \<Rightarrow> tracker)) option" where
  "field_tracker t =
     (case t of
        Tr_Struct s c \<Rightarrow> Some (s, c, Tr_Struct)
      | Tr_Enum v i s c \<Rightarrow> Some (s, c, Tr_Enum v i)
      | _ \<Rightarrow> None)"

lemma field_tracker_cases:
  assumes "field_tracker t = Some (s, c, mk)"
  obtains "t = Tr_Struct s c" "mk = Tr_Struct" | v i where "t = Tr_Enum v i s c" "mk = Tr_Enum v i"
  using assms by (auto simp: field_tracker_def split: tracker.splits)

lemma field_tracker_marks:
  assumes "field_tracker (fr_tracker parent) = Some (bits, c, mk)" and "iset_set bits idx = Some bits'"
  shows "mark_field_initialized_by_index S idx parent = Some (parent\<lparr>fr_tracker := mk bits' c\<rparr>)"
  using assms(1) by (rule field_tracker_cases) (simp_all add: mark_field_initialized_by_index_def assms(2))

lemma field_stored:
  assumes mode: "pt_mode p = Deferred (bs @ [parent, popped]) d stored"
    and depth: "d < length bs + 2" and own: "fr_ownership popped = Own_Field idx" "\<not> fr_custom popped"
    and not_slice: "tracker_kind_of (fr_tracker popped) \<noteq> Tk_SmartPointerSlice"
    and parent: "field_tracker (fr_tracker parent) = Some (bits, Some idx, mk)"
    and bits: "iset_set bits idx = Some bits'"
  shows "end_body H S p w =
    B_Ok (p\<lparr>pt_mode := Deferred (bs @ [parent\<lparr>fr_tracker := mk bits' None\<rparr>]) d
             (btm_insert (storage_path H p) popped stored)\<rparr>) w"
proof -
  have fs: "frames p = bs @ [parent, popped]" and def: "is_deferred p" and st: "stored_frames p = stored"
    by (simp_all add: mode frames_def is_deferred_def stored_frames_def)
  have tops: "top_frame p = Some popped" "below_top p = Some parent"
    by (simp_all add: top_frame_def below_top_def fs nth_append)
  have "tracker_step (fr_tracker parent) = [Step_Field (of_nat idx)]"
    using parent by (rule field_tracker_cases) simp_all
  then have path: "p_steps (storage_path H p) \<noteq> []"
    using storage_is_check_path [where parent' = "parent\<lparr>fr_tracker := Tr_Scalar\<rparr>" and bs = bs] own(2)
    by (simp add: storage_path_def fs)
  have "fast_path p = None" using def fast_path_cases [of p] by (cases "fast_path p") auto
  moreover have "\<not> needs_slice_conversion p" using not_slice by (auto simp: needs_slice_conversion_def tops split: tracker.splits)
  ultimately have "end_body H S p w = end_pop H S p w"
    using def depth by (simp add: end_body_def end_slow_def fs mode)
  also have "\<dots> = store_popped H S (storage_path H p) (pop_frame p) popped w"
    using def path by (simp add: end_pop_def tops)
  also have "\<dots> = store_in_parent H S (storage_path H p)
      (set_top (parent\<lparr>fr_tracker := mk bits' (Some idx)\<rparr>) (pop_frame p)) (parent\<lparr>fr_tracker := mk bits' (Some idx)\<rparr>) popped w"
    using own by (simp add: store_popped_def pop_frame_def top_frame_def fs butlast_append
        field_tracker_marks [OF parent bits])
  also have "\<dots> = B_Ok (p\<lparr>pt_mode := Deferred (bs @ [parent\<lparr>fr_tracker := mk bits' None\<rparr>]) d
             (btm_insert (storage_path H p) popped stored)\<rparr>) w"
    using parent
    by (rule field_tracker_cases) (simp_all add: store_in_parent_def Let_def set_top_def pop_frame_def fs butlast_append
        set_frames_def frames_def set_stored_def mode stored_frames_def)
  finally show ?thesis .
qed

lemma field_reentered:
  assumes mode: "pt_mode q = Deferred (bs @ [parent]) d stored"
    and parent: "field_tracker (fr_tracker parent) = Some (bits, None, mk)"
    and get: "btm_get stored (field_check_path H q idx) = Some popped"
  shows "begin_nth_field_body H S idx q w =
    B_Ok (q\<lparr>pt_mode := Deferred (bs @ [parent\<lparr>fr_tracker := mk bits (Some idx)\<rparr>, restore_frame popped]) d
             (btm_remove (field_check_path H q idx) stored)\<rparr>) w"
proof -
  have q: "frames q = bs @ [parent]" "is_deferred q" "stored_frames q = stored" "top_frame q = Some parent"
    by (simp_all add: mode frames_def is_deferred_def stored_frames_def top_frame_def)
  have "set_current_child idx (fr_tracker parent) = mk bits (Some idx)"
    using parent by (rule field_tracker_cases) simp_all
  then show ?thesis
    by (simp add: begin_nth_field_body_def q get reenter_field_def push_frame_def set_top_def set_frames_def set_stored_def
        frames_def mode)
qed

lemma field_check_path_stored:
  assumes p: "pt_mode p = Deferred (bs @ [parent, popped]) d stored"
    and q: "pt_mode q = Deferred (bs @ [parent\<lparr>fr_tracker := mk bits' None\<rparr>]) d' stored'"
    and own: "\<not> fr_custom popped" and parent: "field_tracker (fr_tracker parent) = Some (bits, Some idx, mk)"
  shows "field_check_path H q idx = storage_path H p"
proof -
  have s: "tracker_step (fr_tracker parent) = [Step_Field (of_nat idx)]" "tracker_step (mk bits' None) = []"
    using parent by (rule field_tracker_cases; simp)+
  have fs: "frames p = bs @ [parent, popped]" "frames q = bs @ [parent\<lparr>fr_tracker := mk bits' None\<rparr>]"
    by (simp_all add: p q frames_def)
  have root: "root_shape_or_unit H q = root_shape_or_unit H p"
    by (cases bs) (simp_all add: root_shape_or_unit_def fs)
  have "storage_steps (frames p) = derive_steps (frames q) @ [Step_Field (of_nat idx)]"
    unfolding fs by (rule storage_is_check_path) (simp_all add: s own)
  then show ?thesis by (simp add: field_check_path_def derive_path_def storage_path_def path_push_def root)
qed

end
