(* ===== verification/Block_Memory.thy ===== *)
theory Block_Memory
  imports Partial_Build Plan_Results
begin

text \<open>
  What the effects of a run do to memory. The memory has live blocks and, in them, the places that
  hold something to drop. A drop needs its places to be held and releases them, a write needs them
  free and takes them, both inside a live block; a value that is copied or moved into another one
  leaves its own places; a block is freed with the size it was allocated with, and only when
  nothing in it is held. A run of effects that breaks a rule is \<open>None\<close>, and so is one with an effect
  on reserved space or the builder of slices, which have no places of their own.
\<close>

section \<open>Memory\<close>

record mem =
  m_blocks :: "(nat \<times> nat) set"
  m_held :: "(nat \<times> nat) set"

definition mem_empty :: mem where
  "mem_empty = \<lparr>m_blocks = {}, m_held = {}\<rparr>"

text \<open>Which bytes of a shape hold something to drop is a parameter.\<close>

type_synonym footprint = "sref \<Rightarrow> nat set"

definition places :: "footprint \<Rightarrow> sref \<Rightarrow> ptr \<Rightarrow> (nat \<times> nat) set" where
  "places fp s p = (case p of Ptr b off \<Rightarrow> (\<lambda>k. (b, off + k)) ` fp s | Dangling \<Rightarrow> {})"

definition inside :: "host \<Rightarrow> sref \<Rightarrow> ptr \<Rightarrow> mem \<Rightarrow> bool" where
  "inside H s p m =
     (case vt_size (h_vt H s) of
        None \<Rightarrow> False
      | Some n \<Rightarrow>
          (case p of
             Ptr b off \<Rightarrow> (\<exists>(c, k) \<in> m_blocks m. c = b \<and> off + n \<le> k)
           | Dangling \<Rightarrow> n = 0))"

definition mem_alloc :: "ptr \<Rightarrow> nat \<Rightarrow> mem \<Rightarrow> mem option" where
  "mem_alloc p n m =
     (case p of
        Ptr b off \<Rightarrow>
          if off = 0 \<and> 0 < n \<and> b \<notin> fst ` m_blocks m
          then Some (m\<lparr>m_blocks := insert (b, n) (m_blocks m)\<rparr>) else None
      | Dangling \<Rightarrow> None)"

definition mem_dealloc :: "ptr \<Rightarrow> nat \<Rightarrow> mem \<Rightarrow> mem option" where
  "mem_dealloc p n m =
     (case p of
        Ptr b off \<Rightarrow>
          if off = 0 \<and> (b, n) \<in> m_blocks m \<and> b \<notin> fst ` m_held m
          then Some (m\<lparr>m_blocks := m_blocks m - {(b, n)}\<rparr>) else None
      | Dangling \<Rightarrow> None)"

definition mem_release :: "host \<Rightarrow> footprint \<Rightarrow> sref \<Rightarrow> ptr \<Rightarrow> mem \<Rightarrow> mem option" where
  "mem_release H fp s p m =
     (if inside H s p m \<and> places fp s p \<subseteq> m_held m
      then Some (m\<lparr>m_held := m_held m - places fp s p\<rparr>) else None)"

definition mem_take :: "host \<Rightarrow> footprint \<Rightarrow> sref \<Rightarrow> ptr \<Rightarrow> mem \<Rightarrow> mem option" where
  "mem_take H fp s p m =
     (if inside H s p m \<and> places fp s p \<inter> m_held m = {}
      then Some (m\<lparr>m_held := m_held m \<union> places fp s p\<rparr>) else None)"

text \<open>A call on a whole value that moves other values into it: all are held and apart before.\<close>

definition mem_into :: "host \<Rightarrow> footprint \<Rightarrow> sref \<Rightarrow> ptr \<Rightarrow> (sref \<times> ptr) list \<Rightarrow> mem \<Rightarrow> mem option" where
  "mem_into H fp s p given m =
     (case mem_release H fp s p m of
        None \<Rightarrow> None
      | Some m' \<Rightarrow> Option.bind (ofold (\<lambda>(t, q). mem_release H fp t q) given m') (mem_take H fp s p))"

definition run_effect :: "host \<Rightarrow> footprint \<Rightarrow> effect \<Rightarrow> mem \<Rightarrow> mem option" where
  "run_effect H fp e m =
     (case e of
        Ef_Alloc p n \<Rightarrow> mem_alloc p n m
      | Ef_Dealloc p n \<Rightarrow> mem_dealloc p n m
      | Ef_Drop s p \<Rightarrow> mem_release H fp s p m
      | Ef_Move_Out s p \<Rightarrow> mem_release H fp s p m
      | Ef_Write how s p \<Rightarrow> mem_take H fp s p m
      | Ef_Copy s p q \<Rightarrow> Option.bind (mem_release H fp s p m) (mem_take H fp s q)
      | Ef_Build how s p t q \<Rightarrow> Option.bind (mem_release H fp t q m) (mem_take H fp s p)
      | Ef_Push how s p t q \<Rightarrow> mem_into H fp s p [(t, q)] m
      | Ef_Map_Insert s p kq vq \<Rightarrow> mem_into H fp s p [kq, vq] m
      | Ef_Replace s p given \<Rightarrow> mem_into H fp s p (case given of Some tq \<Rightarrow> [tq] | None \<Rightarrow> []) m
      | Ef_Pop s p t q \<Rightarrow> Option.bind (mem_into H fp s p [] m) (mem_take H fp t q)
      | Ef_Swap s p i j \<Rightarrow> mem_into H fp s p [] m
      | Ef_Swap_Bytes t p q \<Rightarrow> Option.bind (mem_into H fp t p [] m) (mem_into H fp t q [])
      | Ef_Dyn_End s p \<Rightarrow> mem_into H fp s p [] m
      | _ \<Rightarrow> None)"

definition run_log :: "host \<Rightarrow> footprint \<Rightarrow> effect list \<Rightarrow> mem \<Rightarrow> mem option" where
  "run_log H fp es m = ofold (run_effect H fp) es m"

lemma run_log_simps [simp]:
  "run_log H fp [] m = Some m"
  "run_log H fp (e # es) m = Option.bind (run_effect H fp e m) (run_log H fp es)"
  by (simp_all add: run_log_def fun_eq_iff split: option.splits)

lemma run_log_append: "run_log H fp (es @ fs) m = Option.bind (run_log H fp es m) (run_log H fp fs)"
  by (induction es arbitrary: m) (simp_all split: Option.bind_splits)

section \<open>Layouts\<close>

text \<open>The parts of a struct or an array, by offset and shape.\<close>

definition size_or_0 :: "host \<Rightarrow> sref \<Rightarrow> nat" where
  "size_or_0 H s = (case vt_size (h_vt H s) of Some n \<Rightarrow> n | None \<Rightarrow> 0)"

definition parts :: "host \<Rightarrow> shapes \<Rightarrow> sref \<Rightarrow> (nat \<times> sref) list" where
  "parts H S s =
     (case sh_ty (S s) of
        Ty_User (User_Struct st) \<Rightarrow> map (\<lambda>f. (f_offset f, f_shape f)) (st_fields st)
      | Ty_Sequence (Seq_Array t n) \<Rightarrow> map (\<lambda>i. (size_or_0 H t * i, t)) [0..<n]
      | _ \<Rightarrow> [])"

definition is_composite :: "facet_type \<Rightarrow> bool" where
  "is_composite t \<longleftrightarrow> is_struct_ty t \<or> (\<exists>u n. t = Ty_Sequence (Seq_Array u n))"

definition part_bytes :: "footprint \<Rightarrow> nat \<times> sref \<Rightarrow> nat set" where
  "part_bytes fp part = (\<lambda>k. fst part + k) ` fp (snd part)"

text \<open>What the code relies on for the layouts it is given: a value lies within its size, a type
  without a drop function has nothing to drop, the parts of a struct or array lie in it, apart from
  each other, and hold all that it holds.\<close>

definition layout_fits :: "host \<Rightarrow> shapes \<Rightarrow> footprint \<Rightarrow> bool" where
  "layout_fits H S fp \<longleftrightarrow>
     (\<forall>s n. vt_size (h_vt H s) = Some n \<longrightarrow> fp s \<subseteq> {..<n})
     \<and> (\<forall>s. \<not> vt_has_drop (h_vt H s) \<longrightarrow> fp s = {})
     \<and> (\<forall>s n. vt_size (h_vt H s) = Some n \<longrightarrow> (\<forall>part \<in> set (parts H S s).
          \<exists>k. vt_size (h_vt H (snd part)) = Some k \<and> fst part + k \<le> n))
     \<and> (\<forall>s. is_composite (sh_ty (S s)) \<longrightarrow> fp s = (\<Union>part \<in> set (parts H S s). part_bytes fp part))
     \<and> (\<forall>s i j. i < length (parts H S s) \<longrightarrow> j < length (parts H S s) \<longrightarrow> i \<noteq> j \<longrightarrow>
          part_bytes fp (parts H S s ! i) \<inter> part_bytes fp (parts H S s ! j) = {})"

text \<open>The place of a part of a value.\<close>

definition part_ptr :: "host \<Rightarrow> shapes \<Rightarrow> sref \<Rightarrow> ptr \<Rightarrow> nat \<Rightarrow> ptr" where
  "part_ptr H S s p i = ptr_add p (fst (parts H S s ! i))"

definition part_shape :: "host \<Rightarrow> shapes \<Rightarrow> sref \<Rightarrow> nat \<Rightarrow> sref" where
  "part_shape H S s i = snd (parts H S s ! i)"

abbreviation part_places :: "host \<Rightarrow> shapes \<Rightarrow> footprint \<Rightarrow> sref \<Rightarrow> ptr \<Rightarrow> nat \<Rightarrow> (nat \<times> nat) set" where
  "part_places H S fp s p i \<equiv> places fp (part_shape H S s i) (part_ptr H S s p i)"

lemma part_places_eq:
  "part_places H S fp s (Ptr b off) i = (\<lambda>k. (b, off + k)) ` part_bytes fp (parts H S s ! i)"
  "part_places H S fp s Dangling i = {}"
  by (auto simp: places_def part_ptr_def part_shape_def part_bytes_def image_image add.assoc)

lemma union_by_index: "(\<Union>x \<in> set xs. g x) = (\<Union>i < length xs. g (xs ! i))"
  by (force simp: set_conv_nth)

lemma whole_is_parts:
  assumes "layout_fits H S fp" and "is_composite (sh_ty (S s))"
  shows "places fp s p = (\<Union>i < length (parts H S s). part_places H S fp s p i)"
proof (cases p)
  case (Ptr b off)
  have "fp s = (\<Union>i < length (parts H S s). part_bytes fp (parts H S s ! i))"
    using assms by (simp add: layout_fits_def union_by_index)
  then have "places fp s p = (\<Union>i < length (parts H S s). (\<lambda>k. (b, off + k)) ` part_bytes fp (parts H S s ! i))"
    unfolding places_def Ptr by (simp add: image_UN)
  then show ?thesis unfolding Ptr part_places_eq(1) .
next
  case Dangling
  then show ?thesis by (simp add: part_places_eq(2)) (simp add: places_def)
qed

lemma parts_apart:
  assumes "layout_fits H S fp" and "i < length (parts H S s)" and "j < length (parts H S s)" and "i \<noteq> j"
  shows "part_places H S fp s p i \<inter> part_places H S fp s p j = {}"
proof (cases p)
  case (Ptr b off)
  have "part_bytes fp (parts H S s ! i) \<inter> part_bytes fp (parts H S s ! j) = {}"
    using assms by (simp add: layout_fits_def)
  then show ?thesis unfolding Ptr part_places_eq by auto
qed (simp add: part_places_eq)

lemma part_in_whole:
  assumes "layout_fits H S fp" and "i < length (parts H S s)"
  shows "part_places H S fp s p i \<subseteq> places fp s p"
proof -
  have "is_composite (sh_ty (S s))"
    using assms(2) by (auto simp: parts_def is_composite_def is_struct_ty_def
        split: facet_type.splits user_type.splits sequence_type.splits)
  with whole_is_parts [OF assms(1)] assms(2) show ?thesis by blast
qed

lemma inside_held [simp]: "inside H s p (m\<lparr>m_held := X\<rparr>) = inside H s p m"
  by (simp add: inside_def split: option.splits ptr.splits)

lemma part_inside:
  assumes "layout_fits H S fp" and "inside H s p m" and "i < length (parts H S s)"
  shows "inside H (part_shape H S s i) (part_ptr H S s p i) m"
proof -
  obtain n where n: "vt_size (h_vt H s) = Some n" using assms(2) by (auto simp: inside_def split: option.splits)
  have "parts H S s ! i \<in> set (parts H S s)" using assms(3) by simp
  with assms(1) n obtain k where k: "vt_size (h_vt H (part_shape H S s i)) = Some k" "fst (parts H S s ! i) + k \<le> n"
    unfolding layout_fits_def part_shape_def by metis
  show ?thesis
  proof (cases p)
    case (Ptr b off)
    from assms(2) n Ptr obtain c where "(b, c) \<in> m_blocks m" "off + n \<le> c" by (auto simp: inside_def)
    with k Ptr show ?thesis by (auto simp: inside_def part_ptr_def intro!: bexI [of _ "(b, c)"])
  next
    case Dangling
    with assms(2) n k show ?thesis by (simp add: inside_def part_ptr_def)
  qed
qed

section \<open>Runs\<close>

text \<open>From one world to a later one without a new block, and what that does to the memory.\<close>

definition runs :: "host \<Rightarrow> footprint \<Rightarrow> world \<Rightarrow> mem \<Rightarrow> world \<Rightarrow> mem \<Rightarrow> bool" where
  "runs H fp w m w' m' \<longleftrightarrow> w_next w' = w_next w
     \<and> (\<exists>es. w_log w' = w_log w @ es \<and> run_log H fp es m = Some m')"

lemma runs_refl [simp]: "runs H fp w m w m"
  by (simp add: runs_def)

lemma runs_trans: "runs H fp w m w' m' \<Longrightarrow> runs H fp w' m' w'' m'' \<Longrightarrow> runs H fp w m w'' m''"
  by (auto simp: runs_def run_log_append)

lemma runs_emit: "run_effect H fp e m = Some m' \<Longrightarrow> runs H fp w m (emit e w) m'"
  by (simp add: runs_def)

lemma runs_log:
  assumes "runs H fp w m w' m'" and "run_log H fp (w_log w) m0 = Some m"
  shows "run_log H fp (w_log w') m0 = Some m'"
  using assms by (auto simp: runs_def run_log_append)

lemma runs_drop:
  assumes lf: "layout_fits H S fp" and "inside H t p m" and "places fp t p \<subseteq> X"
  shows "runs H fp w (m\<lparr>m_held := X\<rparr>) (call_drop_in_place H t p w) (m\<lparr>m_held := X - places fp t p\<rparr>)"
proof (cases "vt_has_drop (h_vt H t)")
  case True
  with assms show ?thesis
    by (auto simp: call_drop_in_place_def run_effect_def mem_release_def intro!: runs_emit)
next
  case False
  then have "fp t = {}" using lf by (simp add: layout_fits_def)
  then have "places fp t p = {}" by (simp add: places_def split: ptr.splits)
  with False show ?thesis by (simp add: call_drop_in_place_def)
qed

lemma runs_write:
  assumes "inside H t p m" and "places fp t p \<inter> X = {}"
  shows "runs H fp w (m\<lparr>m_held := X\<rparr>) (emit (Ef_Write how t p) w) (m\<lparr>m_held := X \<union> places fp t p\<rparr>)"
  using assms by (auto simp: run_effect_def mem_take_def intro!: runs_emit)

lemma runs_drop_parts:
  assumes lf: "layout_fits H S fp" and "inside H s p m"
    and "set ks \<subseteq> {..<length (parts H S s)}" and "distinct ks"
    and "(\<Union>i \<in> {i \<in> set ks. b i}. part_places H S fp s p i) \<subseteq> X"
  shows "runs H fp w (m\<lparr>m_held := X\<rparr>)
     (fold (\<lambda>i w. if b i then call_drop_in_place H (part_shape H S s i) (part_ptr H S s p i) w else w) ks w)
     (m\<lparr>m_held := X - (\<Union>i \<in> {i \<in> set ks. b i}. part_places H S fp s p i)\<rparr>)"
  using assms(3-)
proof (induction ks arbitrary: X w)
  case Nil
  then show ?case by simp
next
  case (Cons i ks)
  show ?case
  proof (cases "b i")
    case False
    then have "{j \<in> set (i # ks). b j} = {j \<in> set ks. b j}" by auto
    with Cons False show ?thesis by simp
  next
    case True
    let ?P = "part_places H S fp s p" and ?w = "call_drop_in_place H (part_shape H S s i) (part_ptr H S s p i) w"
    have i: "i < length (parts H S s)" using Cons.prems by simp
    have "inside H (part_shape H S s i) (part_ptr H S s p i) m" by (rule part_inside [OF lf assms(2) i])
    then have one: "runs H fp w (m\<lparr>m_held := X\<rparr>) ?w (m\<lparr>m_held := X - ?P i\<rparr>)"
      using Cons.prems(3) True by (intro runs_drop [OF lf]) auto
    have apart: "?P j \<inter> ?P i = {}" if "j \<in> set ks" for j
      using Cons.prems that by (intro parts_apart [OF lf] i) auto
    then have "(\<Union>j \<in> {j \<in> set ks. b j}. ?P j) \<subseteq> X - ?P i"
      using Cons.prems(3) by fastforce
    with Cons have "runs H fp ?w (m\<lparr>m_held := X - ?P i\<rparr>)
       (fold (\<lambda>i w. if b i then call_drop_in_place H (part_shape H S s i) (part_ptr H S s p i) w else w) ks ?w)
       (m\<lparr>m_held := (X - ?P i) - (\<Union>j \<in> {j \<in> set ks. b j}. ?P j)\<rparr>)" by simp
    moreover have "{j \<in> set (i # ks). b j} = insert i {j \<in> set ks. b j}" using True by auto
    ultimately show ?thesis using runs_trans [OF one] True by (simp add: Diff_eq Int_assoc)
  qed
qed

end
