(* ===== verification/Frame_Memory.thy ===== *)
theory Frame_Memory
  imports Block_Memory
begin

text \<open>
  The operations on a single frame account for all that the frame holds, and leave the memory
  outside the frame alone. A frame is responsible for the places of the parts whose bits are set,
  or for the whole value; each statement carries the rest of the memory along, so that they compose
  over a stack of frames.
\<close>

section \<open>What a frame holds\<close>

definition held_parts :: "host \<Rightarrow> shapes \<Rightarrow> footprint \<Rightarrow> sref \<Rightarrow> ptr \<Rightarrow> nat set \<Rightarrow> (nat \<times> nat) set" where
  "held_parts H S fp s p I = (\<Union>i \<in> I \<inter> {..<length (parts H S s)}. part_places H S fp s p i)"

definition tracker_held ::
    "host \<Rightarrow> shapes \<Rightarrow> footprint \<Rightarrow> sref \<Rightarrow> ptr \<Rightarrow> bool \<Rightarrow> tracker \<Rightarrow> (nat \<times> nat) set" where
  "tracker_held H S fp s p init t =
     (case t of
        Tr_Struct bits c \<Rightarrow> held_parts H S fp s p (iset_elems bits)
      | Tr_Array bits c \<Rightarrow> held_parts H S fp s p (iset_elems bits)
      | _ \<Rightarrow> if init then places fp s p else {})"

definition held :: "host \<Rightarrow> shapes \<Rightarrow> footprint \<Rightarrow> frame \<Rightarrow> (nat \<times> nat) set" where
  "held H S fp fr = tracker_held H S fp (fr_shape fr) (fr_data fr) (fr_is_init fr) (fr_tracker fr)"

abbreviation region :: "footprint \<Rightarrow> frame \<Rightarrow> (nat \<times> nat) set" where
  "region fp fr \<equiv> places fp (fr_shape fr) (fr_data fr)"

text \<open>The frames of structs and arrays under construction, and of values set as a whole.\<close>

definition tracker_fits :: "host \<Rightarrow> shapes \<Rightarrow> sref \<Rightarrow> tracker \<Rightarrow> bool" where
  "tracker_fits H S s t \<longleftrightarrow>
     (case t of
        Tr_Scalar \<Rightarrow> True
      | Tr_Struct bits c \<Rightarrow>
          is_struct_ty (sh_ty (S s)) \<and> iset_inv (length (parts H S s)) bits
      | Tr_Array bits c \<Rightarrow>
          (\<exists>u n. sh_ty (S s) = Ty_Sequence (Seq_Array u n) \<and> n \<le> 63 \<and> vt_size (h_vt H u) \<noteq> None
             \<and> iset_inv n bits)
      | _ \<Rightarrow> False)"

definition frame_ok :: "host \<Rightarrow> shapes \<Rightarrow> frame \<Rightarrow> bool" where
  "frame_ok H S fr \<longleftrightarrow>
     vt_size (h_vt H (fr_shape fr)) = Some (al_size (fr_allocated fr))
     \<and> tracker_fits H S (fr_shape fr) (fr_tracker fr)
     \<and> sh_def (S (fr_shape fr)) \<noteq> Def_DynamicValue
     \<and> \<not> fr_custom fr
     \<and> (fr_ownership fr = Owned \<or> (\<exists>i. fr_ownership fr = Own_Field i))"

lemma frame_trackers:
  assumes "frame_ok H S fr"
  obtains (scalar) "fr_tracker fr = Tr_Scalar"
  | (struct) bits c st where "fr_tracker fr = Tr_Struct bits c"
      and "sh_ty (S (fr_shape fr)) = Ty_User (User_Struct st)" and "iset_inv (length (st_fields st)) bits"
  | (array) bits c u n where "fr_tracker fr = Tr_Array bits c"
      and "sh_ty (S (fr_shape fr)) = Ty_Sequence (Seq_Array u n)" and "n \<le> 63" and "iset_inv n bits"
  using assms
  by (cases "fr_tracker fr")
    (auto simp: frame_ok_def tracker_fits_def is_struct_ty_def parts_def
      split: facet_type.splits user_type.splits)

lemma length_parts [simp]:
  "sh_ty (S s) = Ty_User (User_Struct st) \<Longrightarrow> length (parts H S s) = length (st_fields st)"
  "sh_ty (S s) = Ty_Sequence (Seq_Array u n) \<Longrightarrow> length (parts H S s) = n"
  by (simp_all add: parts_def)

lemma part_of_struct [simp]:
  assumes "sh_ty (S s) = Ty_User (User_Struct st)" and "i < length (st_fields st)"
  shows "part_shape H S s i = f_shape (st_fields st ! i)" and "part_ptr H S s p i = ptr_add p (f_offset (st_fields st ! i))"
  using assms by (simp_all add: parts_def part_shape_def part_ptr_def)

lemma part_of_array [simp]:
  assumes "sh_ty (S s) = Ty_Sequence (Seq_Array u n)" and "i < n"
  shows "part_shape H S s i = u" and "part_ptr H S s p i = ptr_add p (size_or_0 H u * i)"
  using assms by (simp_all add: parts_def part_shape_def part_ptr_def)

lemma held_parts_simps [simp]:
  "held_parts H S fp s p {} = {}"
  "i < length (parts H S s) \<Longrightarrow>
     held_parts H S fp s p (insert i I) = part_places H S fp s p i \<union> held_parts H S fp s p I"
  by (auto simp: held_parts_def)

lemma held_parts_in: "layout_fits H S fp \<Longrightarrow> held_parts H S fp s p I \<subseteq> places fp s p"
  using part_in_whole by (fastforce simp: held_parts_def)

lemma held_parts_all:
  assumes "layout_fits H S fp" and "is_composite (sh_ty (S s))" and "{..<length (parts H S s)} \<subseteq> I"
  shows "held_parts H S fp s p I = places fp s p"
proof -
  have "I \<inter> {..<length (parts H S s)} = {..<length (parts H S s)}" using assms(3) by blast
  then show ?thesis unfolding held_parts_def using whole_is_parts [OF assms(1,2), of p] by simp
qed

lemma held_parts_remove:
  assumes lf: "layout_fits H S fp" and "i < length (parts H S s)"
  shows "held_parts H S fp s p (I - {i}) = held_parts H S fp s p I - part_places H S fp s p i"
proof -
  have "part_places H S fp s p j \<inter> part_places H S fp s p i = {}" if "j < length (parts H S s)" "j \<noteq> i" for j
    using parts_apart [OF lf that(1) assms(2) that(2)] .
  then show ?thesis unfolding held_parts_def by blast
qed

lemma composite_simps [simp]:
  "is_composite (Ty_User (User_Struct st))" "is_composite (Ty_Sequence (Seq_Array u n))"
  by (simp_all add: is_composite_def is_struct_ty_def)

lemma held_in_region:
  assumes "layout_fits H S fp"
  shows "held H S fp fr \<subseteq> region fp fr"
  using held_parts_in [OF assms] by (auto simp: held_def tracker_held_def split: tracker.splits)

section \<open>Steps of a frame\<close>

text \<open>A step of the frame in its place: what it held becomes what it holds, the rest stays.\<close>

definition same_place :: "frame \<Rightarrow> frame \<Rightarrow> bool" where
  "same_place fr fr' \<longleftrightarrow> fr_data fr' = fr_data fr \<and> fr_allocated fr' = fr_allocated fr
     \<and> fr_ownership fr' = fr_ownership fr \<and> fr_type_plan fr' = fr_type_plan fr
     \<and> fr_custom fr' = fr_custom fr"

definition does :: "host \<Rightarrow> shapes \<Rightarrow> footprint \<Rightarrow> frame \<Rightarrow> world \<Rightarrow> frame \<Rightarrow> world \<Rightarrow> bool" where
  "does H S fp fr w fr' w' \<longleftrightarrow> same_place fr fr' \<and>
     (\<forall>m R. inside H (fr_shape fr) (fr_data fr) m \<longrightarrow> R \<inter> region fp fr = {} \<longrightarrow>
        runs H fp w (m\<lparr>m_held := held H S fp fr \<union> R\<rparr>) w' (m\<lparr>m_held := held H S fp fr' \<union> R\<rparr>))"

lemma does_runs:
  assumes "does H S fp fr w fr' w'" and "inside H (fr_shape fr) (fr_data fr) m" and "R \<inter> region fp fr = {}"
  shows "runs H fp w (m\<lparr>m_held := held H S fp fr \<union> R\<rparr>) w' (m\<lparr>m_held := held H S fp fr' \<union> R\<rparr>)"
  using assms by (simp add: does_def)

lemma does_refl [simp]: "does H S fp fr w fr w"
  by (simp add: does_def same_place_def)

lemma does_trans:
  assumes "does H S fp fr w fr' w'" and "does H S fp fr' w' fr'' w''"
  shows "does H S fp fr w fr'' w''"
proof -
  have p: "same_place fr fr'" "same_place fr' fr''" using assms by (simp_all add: does_def)
  then have "same_place fr fr''" and "fr_shape fr' = fr_shape fr" "fr_data fr' = fr_data fr"
    by (simp_all add: same_place_def)
  with assms show ?thesis unfolding does_def by (metis runs_trans)
qed

section \<open>Dropping what is initialised\<close>

lemma iset_flags_spec:
  assumes "iset_inv n bits"
  shows "iset_flags bits n = Some (map (\<lambda>i. i \<in> iset_elems bits) [0..<n])"
proof -
  have "map (iset_get bits) [0..<n] = map Some (map (\<lambda>i. i \<in> iset_elems bits) [0..<n])"
    using iset_get_spec [OF assms] by simp
  moreover have "those (map Some xs) = Some xs" for xs :: "bool list" by (induction xs) auto
  ultimately show ?thesis unfolding iset_flags_def by metis
qed

definition drop_parts :: "host \<Rightarrow> shapes \<Rightarrow> sref \<Rightarrow> ptr \<Rightarrow> nat set \<Rightarrow> world \<Rightarrow> world" where
  "drop_parts H S s p I w =
     fold (\<lambda>i w. if i \<in> I then call_drop_in_place H (part_shape H S s i) (part_ptr H S s p i) w else w)
       [0..<length (parts H S s)] w"

lemma fold_zip_flags:
  assumes "\<And>i w. i < length xs \<Longrightarrow> g (Q i, xs ! i) w = h i w"
  shows "fold g (zip (map Q [0..<length xs]) xs) w = fold h [0..<length xs] w"
proof -
  have "zip (map Q [0..<length xs]) xs = map (\<lambda>i. (Q i, xs ! i)) [0..<length xs]"
    by (rule nth_equalityI) simp_all
  then have "fold g (zip (map Q [0..<length xs]) xs) w = fold (\<lambda>i. g (Q i, xs ! i)) [0..<length xs] w"
    by (simp add: fold_map o_def)
  also have "\<dots> = fold h [0..<length xs] w" using assms by (intro fold_cong) (auto simp: fun_eq_iff)
  finally show ?thesis .
qed

lemma drop_fields_parts:
  assumes "sh_ty (S s) = Ty_User (User_Struct st)"
  shows "drop_fields H p (st_fields st) (map (\<lambda>i. i \<in> I) [0..<length (st_fields st)]) w = drop_parts H S s p I w"
  unfolding drop_fields_def drop_parts_def length_parts(1) [where S = S and s = s, OF assms]
  by (rule fold_zip_flags) (simp add: part_of_struct [where S = S and s = s, OF assms])

lemma drop_elements_parts:
  assumes "sh_ty (S s) = Ty_Sequence (Seq_Array u n)" and "vt_size (h_vt H u) = Some k"
  shows "drop_elements H p u k (map (\<lambda>i. i \<in> I) [0..<n]) w = drop_parts H S s p I w"
proof -
  have "enumerate 0 (map (\<lambda>i. i \<in> I) [0..<n]) = map (\<lambda>i. (i, i \<in> I)) [0..<n]"
    by (rule nth_equalityI) (simp_all add: nth_enumerate_eq)
  then show ?thesis
    unfolding drop_elements_def drop_parts_def length_parts(2) [where S = S and s = s, OF assms(1)]
    by (simp add: fold_map o_def, intro fold_cong refl)
      (auto simp: fun_eq_iff part_of_array [where S = S and s = s, OF assms(1)] size_or_0_def assms(2))
qed

lemma runs_drop_held_parts:
  assumes lf: "layout_fits H S fp" and "inside H s p m" and "R \<inter> places fp s p = {}"
  shows "runs H fp w (m\<lparr>m_held := held_parts H S fp s p I \<union> R\<rparr>) (drop_parts H S s p I w) (m\<lparr>m_held := R\<rparr>)"
proof -
  let ?n = "length (parts H S s)"
  have eq: "(\<Union>i \<in> {i \<in> set [0..<?n]. i \<in> I}. part_places H S fp s p i) = held_parts H S fp s p I"
    unfolding held_parts_def by (rule arg_cong [of _ _ Union]) auto
  have "runs H fp w (m\<lparr>m_held := held_parts H S fp s p I \<union> R\<rparr>) (drop_parts H S s p I w)
      (m\<lparr>m_held := (held_parts H S fp s p I \<union> R) - (\<Union>i \<in> {i \<in> set [0..<?n]. i \<in> I}. part_places H S fp s p i)\<rparr>)"
    unfolding drop_parts_def by (rule runs_drop_parts [OF lf assms(2)]) (simp_all add: eq [simplified], auto)
  moreover have "(held_parts H S fp s p I \<union> R) - held_parts H S fp s p I = R"
    using held_parts_in [OF lf, of s p I] assms(3) by blast
  ultimately show ?thesis unfolding eq by simp
qed

definition emptied :: "frame \<Rightarrow> frame" where
  "emptied fr = fr\<lparr>fr_is_init := False, fr_tracker := Tr_Scalar\<rparr>"

lemma emptied_simps [simp]:
  "held H S fp (emptied fr) = {}" "same_place fr (emptied fr)" "fr_is_init (emptied fr) = False"
  "fr_tracker (emptied fr) = Tr_Scalar"
  by (simp_all add: emptied_def held_def tracker_held_def same_place_def)

lemma emptied_ok: "frame_ok H S fr \<Longrightarrow> frame_ok H S (emptied fr)"
  by (simp add: frame_ok_def emptied_def tracker_fits_def)

lemma deinit_does:
  assumes lf: "layout_fits H S fp" and ok: "frame_ok H S fr"
  shows "\<exists>w'. deinit H S fr w = Some (emptied fr, w') \<and> does H S fp fr w (emptied fr) w'"
proof -
  let ?s = "fr_shape fr" and ?p = "fr_data fr"
  have notin: "fr_ownership fr \<noteq> BorrowedInPlace" using ok by (auto simp: frame_ok_def)
  have whole: "runs H fp w (m\<lparr>m_held := places fp ?s ?p \<union> R\<rparr>) (drop_whole H fr w) (m\<lparr>m_held := R\<rparr>)"
    if "inside H ?s ?p m" "R \<inter> places fp ?s ?p = {}" for m R
  proof -
    have "places fp ?s ?p \<union> R - places fp ?s ?p = R" using that(2) by blast
    with runs_drop [OF lf that(1), of "places fp ?s ?p \<union> R" w] show ?thesis by (simp add: drop_whole_def)
  qed
  have finish: ?thesis if "deinit_value H S fr w = Some w'"
    and "\<And>m R. inside H ?s ?p m \<Longrightarrow> R \<inter> places fp ?s ?p = {} \<Longrightarrow>
       runs H fp w (m\<lparr>m_held := held H S fp fr \<union> R\<rparr>) w' (m\<lparr>m_held := R\<rparr>)" for w'
    using that notin by (simp add: deinit_def does_def emptied_def [symmetric])
  from ok show ?thesis
  proof (cases rule: frame_trackers)
    case scalar
    then show ?thesis
      by (intro finish [of "if fr_is_init fr then drop_whole H fr w else w"])
        (simp_all add: deinit_value_def held_def tracker_held_def whole)
  next
    case (struct bits c st)
    let ?n = "length (st_fields st)"
    have h: "held H S fp fr = held_parts H S fp ?s ?p (iset_elems bits)"
      by (simp add: held_def tracker_held_def struct)
    show ?thesis
    proof (cases "iset_all_set bits ?n")
      case True
      then have "{..<length (parts H S ?s)} \<subseteq> iset_elems bits"
        using iset_all_set_spec [OF struct(3) order_refl] struct(2) by simp
      then have "held H S fp fr = places fp ?s ?p"
        unfolding h by (intro held_parts_all [OF lf]) (simp_all add: struct(2))
      then show ?thesis
        by (intro finish [of "drop_whole H fr w"])
          (simp_all add: deinit_value_def deinit_struct_def struct True whole)
    next
      case False
      then show ?thesis
        by (intro finish [of "drop_parts H S ?s ?p (iset_elems bits) w"])
          (simp_all add: deinit_value_def deinit_struct_def struct(1,2) iset_flags_spec [OF struct(3)]
            drop_fields_parts [where S = S and s = ?s, OF struct(2)] h runs_drop_held_parts [OF lf] del: upt_Suc)
    qed
  next
    case (array bits c u n)
    have h: "held H S fp fr = held_parts H S fp ?s ?p (iset_elems bits)"
      by (simp add: held_def tracker_held_def array)
    obtain k where k: "vt_size (h_vt H u) = Some k"
      using ok array by (auto simp: frame_ok_def tracker_fits_def)
    show ?thesis
      by (intro finish [of "drop_parts H S ?s ?p (iset_elems bits) w"])
        (simp_all add: deinit_value_def deinit_array_def array(1,2) k iset_flags_spec [OF array(4)]
          drop_elements_parts [where S = S and s = ?s, OF array(2) k] h runs_drop_held_parts [OF lf])
  qed
qed

lemma deinit_others:
  assumes "frame_ok H S fr"
  shows "deinit_for_cancellation H S fr w = deinit H S fr w" and "deinit_for_replace H S fr w = deinit H S fr w"
  using assms
  by (auto simp: deinit_for_cancellation_def deinit_for_replace_def frame_ok_def tracker_fits_def split: tracker.splits)

section \<open>Writing the whole value\<close>

lemma write_does:
  assumes "fr_tracker fr = Tr_Scalar" and "\<not> fr_is_init fr"
  shows "does H S fp fr w (mark_as_init fr) (emit (Ef_Write how (fr_shape fr) (fr_data fr)) w)"
  unfolding does_def
proof (intro conjI allI impI)
  fix m R
  assume "inside H (fr_shape fr) (fr_data fr) m" and R: "R \<inter> region fp fr = {}"
  moreover have "held H S fp fr = {}" "held H S fp (mark_as_init fr) = region fp fr"
    using assms by (simp_all add: held_def tracker_held_def mark_as_init_def)
  ultimately show "runs H fp w (m\<lparr>m_held := held H S fp fr \<union> R\<rparr>)
      (emit (Ef_Write how (fr_shape fr) (fr_data fr)) w) (m\<lparr>m_held := held H S fp (mark_as_init fr) \<union> R\<rparr>)"
    using runs_write [of H "fr_shape fr" "fr_data fr" m fp R w how] by (simp add: Un_commute Int_commute)
qed (simp add: same_place_def mark_as_init_def)

end
