(* ===== verification/Frame_Complete.thy ===== *)
theory Frame_Complete
  imports Frame_Memory
begin

text \<open>
  Completing a frame, in memory: filling in the defaults of fields, along the fields of the type
  or along the field plans, writes exactly the parts whose bits it sets; and a frame that passes the
  check holds its whole value.
\<close>

section \<open>Setting parts\<close>

definition parts_step ::
    "host \<Rightarrow> shapes \<Rightarrow> footprint \<Rightarrow> sref \<Rightarrow> ptr \<Rightarrow> iset \<Rightarrow> world \<Rightarrow> iset \<Rightarrow> world \<Rightarrow> bool" where
  "parts_step H S fp s p bits w bits' w' \<longleftrightarrow>
     iset_inv (length (parts H S s)) bits' \<and> iset_elems bits \<subseteq> iset_elems bits'
     \<and> (\<forall>m R. inside H s p m \<longrightarrow> R \<inter> places fp s p = {} \<longrightarrow>
          runs H fp w (m\<lparr>m_held := held_parts H S fp s p (iset_elems bits) \<union> R\<rparr>)
            w' (m\<lparr>m_held := held_parts H S fp s p (iset_elems bits') \<union> R\<rparr>))"

lemma parts_step_refl: "iset_inv (length (parts H S s)) bits \<Longrightarrow> parts_step H S fp s p bits w bits w"
  by (simp add: parts_step_def)

lemma parts_step_trans:
  "parts_step H S fp s p a w b w' \<Longrightarrow> parts_step H S fp s p b w' c w'' \<Longrightarrow> parts_step H S fp s p a w c w''"
  unfolding parts_step_def by (meson runs_trans order_trans)

lemma parts_write:
  assumes lf: "layout_fits H S fp" and inv: "iset_inv (length (parts H S s)) bits"
    and i: "i < length (parts H S s)" and free: "i \<notin> iset_elems bits"
  obtains bits' where "iset_set bits i = Some bits'" and "iset_elems bits' = insert i (iset_elems bits)"
    and "parts_step H S fp s p bits w bits'
           (emit (Ef_Write how (part_shape H S s i) (part_ptr H S s p i)) w)"
proof -
  obtain bits' where b: "iset_set bits i = Some bits'" "iset_inv (length (parts H S s)) bits'"
    "iset_elems bits' = insert i (iset_elems bits)"
    using iset_set_spec [OF inv i] by blast
  let ?P = "part_places H S fp s p"
  have "runs H fp w (m\<lparr>m_held := held_parts H S fp s p (iset_elems bits) \<union> R\<rparr>)
      (emit (Ef_Write how (part_shape H S s i) (part_ptr H S s p i)) w)
      (m\<lparr>m_held := held_parts H S fp s p (iset_elems bits') \<union> R\<rparr>)"
    if "inside H s p m" and "R \<inter> places fp s p = {}" for m R
  proof -
    have "?P i \<inter> ?P j = {}" if "j \<in> iset_elems bits \<inter> {..<length (parts H S s)}" for j
      using that free by (intro parts_apart [OF lf i]) auto
    then have "?P i \<inter> held_parts H S fp s p (iset_elems bits) = {}" unfolding held_parts_def by blast
    moreover have "?P i \<inter> R = {}" using that(2) part_in_whole [OF lf i, of p] by blast
    ultimately have free: "?P i \<inter> (held_parts H S fp s p (iset_elems bits) \<union> R) = {}" by blast
    have eq: "held_parts H S fp s p (iset_elems bits') \<union> R = (held_parts H S fp s p (iset_elems bits) \<union> R) \<union> ?P i"
      unfolding b(3) using i by auto
    show ?thesis unfolding eq by (rule runs_write [OF part_inside [OF lf that(1) i] free])
  qed
  with b have "parts_step H S fp s p bits w bits' (emit (Ef_Write how (part_shape H S s i) (part_ptr H S s p i)) w)"
    by (auto simp: parts_step_def)
  with b show thesis by (intro that)
qed

section \<open>Defaults by the fields of the type\<close>

lemma try_default_writes:
  assumes "try_init_field_default H S f p d w = (filled, w')"
  shows "if filled then \<exists>how. w' = emit (Ef_Write how (f_shape f) p) w else w' = w"
  using assms
  by (auto simp: try_init_field_default_def default_into_def split: option.splits default_source.splits if_splits)

lemma fill_fields_does:
  assumes lf: "layout_fits H S fp" and ty: "sh_ty (S s) = Ty_User (User_Struct st)"
    and "iset_inv (length (parts H S s)) bits"
    and "\<forall>(i, f) \<in> set fs. i < length (st_fields st) \<and> f = st_fields st ! i"
  shows "\<exists>e bits' w'. fill_fields H S p d fs bits w = Some (e, bits', w')
    \<and> parts_step H S fp s p bits w bits' w'"
  using assms(3-)
proof (induction fs arbitrary: bits w)
  case Nil
  then show ?case by (simp add: parts_step_refl)
next
  case (Cons x fs)
  obtain i f where x: "x = (i, f)" by (cases x)
  have i: "i < length (parts H S s)" and f: "f = st_fields st ! i" and il: "i < length (st_fields st)"
    using Cons.prems(2) x ty by auto
  have g: "iset_get bits i = Some (i \<in> iset_elems bits)" by (rule iset_get_spec [OF Cons.prems(1) i])
  show ?case
  proof (cases "i \<in> iset_elems bits")
    case True
    with Cons g show ?thesis by (simp add: x)
  next
    case False
    obtain filled w1 where t: "try_init_field_default H S f (ptr_add p (f_offset f)) d w = (filled, w1)" by fastforce
    show ?thesis
    proof (cases filled)
      case True
      then obtain how where w1: "w1 = emit (Ef_Write how (part_shape H S s i) (part_ptr H S s p i)) w"
        using try_default_writes [OF t] f il by (auto simp: part_of_struct [where S = S and s = s, OF ty])
      obtain b1 where b1: "iset_set bits i = Some b1" "iset_elems b1 = insert i (iset_elems bits)"
        "parts_step H S fp s p bits w b1 w1"
        using parts_write [OF lf Cons.prems(1) i False] unfolding w1 .
      then have "iset_inv (length (parts H S s)) b1" by (simp add: parts_step_def)
      from Cons.IH [OF this] Cons.prems(2) obtain e b2 w2 where
        "fill_fields H S p d fs b1 w1 = Some (e, b2, w2)" "parts_step H S fp s p b1 w1 b2 w2" by fastforce
      with b1 parts_step_trans [OF b1(3)] show ?thesis
        using False True by (simp add: x g t)
    next
      case nofill: False
      then have w1: "w1 = w" using try_default_writes [OF t] by simp
      from Cons.IH [OF Cons.prems(1), of w] Cons.prems(2) obtain e b2 w2 where
        "fill_fields H S p d fs bits w = Some (e, b2, w2)" "parts_step H S fp s p bits w b2 w2" by fastforce
      then show ?thesis using False nofill parts_step_refl [OF Cons.prems(1)] by (simp add: x g t w1)
    qed
  qed
qed

section \<open>Defaults by the field plans\<close>

text \<open>What a plan says of its field, as far as filling reads it; the validators answer.\<close>

definition plan_fits :: "host \<Rightarrow> shapes \<Rightarrow> plan_core \<Rightarrow> field list \<Rightarrow> field_plan \<Rightarrow> bool" where
  "plan_fits H S c fs p \<longleftrightarrow>
     fp_index p < length fs
     \<and> fp_offset p = f_offset (fs ! fp_index p) \<and> fp_field_shape p = f_shape (fs ! fp_index p)
     \<and> (\<forall>s. fp_fill_rule p = Fill_Defaultable (Default_FromTrait s) \<longrightarrow> s = f_shape (fs ! fp_index p))
     \<and> (\<exists>vs. plan_validators_of c (fp_validators p) = Some vs
          \<and> (\<forall>container data w. run_validators H container (fp_name p) data vs w \<noteq> None))"

lemma fill_rule_writes:
  assumes "plan_fits H S c fs p" and "fill_field_by_rule H S container data p w = (e, w')"
  shows "if e = None
    then \<exists>how. w' = emit (Ef_Write how (f_shape (fs ! fp_index p)) (ptr_add data (f_offset (fs ! fp_index p)))) w
    else w' = w"
  using assms
  by (auto simp: fill_field_by_rule_def plan_fits_def default_into_def Let_def
      split: fill_rule.splits field_default.splits if_splits)

lemma fill_plans_does:
  assumes lf: "layout_fits H S fp" and ty: "sh_ty (S s) = Ty_User (User_Struct st)"
    and "iset_inv (length (parts H S s)) bits" and "\<forall>p \<in> set ps. plan_fits H S c (st_fields st) p"
    and "all_set \<Longrightarrow> {..<length (st_fields st)} \<subseteq> iset_elems bits"
  shows "\<exists>e bits' w'. fill_plans H S c container data all_set ps bits w = Some (e, bits', w')
    \<and> parts_step H S fp s data bits w bits' w' \<and> (e = None \<longrightarrow> fp_index ` set ps \<subseteq> iset_elems bits')"
  using assms(3-)
proof (induction ps arbitrary: bits w)
  case Nil
  then show ?case by (simp add: parts_step_refl)
next
  case (Cons p ps)
  let ?i = "fp_index p"
  have fit: "plan_fits H S c (st_fields st) p" using Cons.prems(2) by simp
  then have i: "?i < length (parts H S s)" and il: "?i < length (st_fields st)" using ty by (simp_all add: plan_fits_def)
  obtain vs where vs: "plan_validators_of c (fp_validators p) = Some vs"
    "\<And>container data w. run_validators H container (fp_name p) data vs w \<noteq> None"
    using fit by (auto simp: plan_fits_def)
  let ?validate = "\<lambda>s w. if range_is_empty (fp_validators p) then fill_plans H S c container data all_set ps s w
     else case plan_validators_of c (fp_validators p) of
            None \<Rightarrow> None
          | Some vs \<Rightarrow>
              (case run_validators H container (fp_name p) (ptr_add data (fp_offset p)) vs w of
                 None \<Rightarrow> None
               | Some (Some e) \<Rightarrow> Some (Some e, s, w)
               | Some None \<Rightarrow> fill_plans H S c container data all_set ps s w)"
  have rest: "\<exists>e b' w'. ?validate b w1 = Some (e, b', w') \<and> parts_step H S fp s data b w1 b' w'
      \<and> (e = None \<longrightarrow> fp_index ` set (p # ps) \<subseteq> iset_elems b')"
    if b: "iset_inv (length (parts H S s)) b" "all_set \<Longrightarrow> {..<length (st_fields st)} \<subseteq> iset_elems b"
      "?i \<in> iset_elems b" for b w1
  proof -
    obtain e b' w' where ih: "fill_plans H S c container data all_set ps b w1 = Some (e, b', w')"
      "parts_step H S fp s data b w1 b' w'" "e = None \<longrightarrow> fp_index ` set ps \<subseteq> iset_elems b'"
      using Cons.IH [OF b(1) _ b(2), of w1] Cons.prems(2) by (meson list.set_intros(2))
    moreover have "?i \<in> iset_elems b'" using ih(2) b(3) by (auto simp: parts_step_def)
    moreover obtain r where "run_validators H container (fp_name p) (ptr_add data (fp_offset p)) vs w1 = Some r"
      using vs(2) by blast
    ultimately show ?thesis
      using vs(1) parts_step_refl [OF b(1)] by (cases r) auto
  qed
  show ?case
  proof (cases "?i \<in> iset_elems bits")
    case True
    then have "(if all_set then Some True else iset_get bits ?i) = Some True"
      using iset_get_spec [OF Cons.prems(1) i] by simp
    with rest [OF Cons.prems(1,3) True, of w] show ?thesis by (simp add: Let_def)
  next
    case False
    then have "\<not> all_set" using Cons.prems(3) il by auto
    then have g: "(if all_set then Some True else iset_get bits ?i) = Some False"
      using iset_get_spec [OF Cons.prems(1) i] False by simp
    obtain e w1 where r: "fill_field_by_rule H S container data p w = (e, w1)" by fastforce
    show ?thesis
    proof (cases e)
      case (Some err)
      then have "w1 = w" using fill_rule_writes [OF fit r] by simp
      then show ?thesis using g r Some parts_step_refl [OF Cons.prems(1)] by (simp add: Let_def)
    next
      case None
      then obtain how where w1: "w1 = emit (Ef_Write how (part_shape H S s ?i) (part_ptr H S s data ?i)) w"
        using fill_rule_writes [OF fit r] il by (auto simp: part_of_struct [where S = S and s = s, OF ty])
      obtain b1 where b1: "iset_set bits ?i = Some b1" "iset_elems b1 = insert ?i (iset_elems bits)"
        "parts_step H S fp s data bits w b1 w1"
        using parts_write [OF lf Cons.prems(1) i False] unfolding w1 .
      then have "iset_inv (length (parts H S s)) b1" by (simp add: parts_step_def)
      from rest [OF this, of w1] b1(2) Cons.prems(3) obtain e' b' w' where
        "?validate b1 w1 = Some (e', b', w')" "parts_step H S fp s data b1 w1 b' w'"
        "e' = None \<longrightarrow> fp_index ` set (p # ps) \<subseteq> iset_elems b'" by blast
      with parts_step_trans [OF b1(3)] g r None b1(1) show ?thesis by (simp add: Let_def)
    qed
  qed
qed

section \<open>Completing the frame\<close>

definition complete :: "host \<Rightarrow> shapes \<Rightarrow> frame \<Rightarrow> bool" where
  "complete H S fr \<longleftrightarrow>
     (case fr_tracker fr of
        Tr_Scalar \<Rightarrow> fr_is_init fr
      | Tr_Struct bits c \<Rightarrow> {..<length (parts H S (fr_shape fr))} \<subseteq> iset_elems bits
      | Tr_Array bits c \<Rightarrow> {..<length (parts H S (fr_shape fr))} \<subseteq> iset_elems bits
      | _ \<Rightarrow> False)"

lemma complete_holds_all:
  assumes lf: "layout_fits H S fp" and ok: "frame_ok H S fr" and c: "complete H S fr"
  shows "held H S fp fr = region fp fr"
  using ok
proof (cases rule: frame_trackers)
  case scalar
  with c show ?thesis by (simp add: complete_def held_def tracker_held_def)
next
  case (struct bits c' st)
  with c show ?thesis
    by (simp add: complete_def held_def tracker_held_def) (rule held_parts_all [OF lf], simp_all)
next
  case (array bits c' u n)
  with c show ?thesis
    by (simp add: complete_def held_def tracker_held_def) (rule held_parts_all [OF lf], simp_all)
qed

lemma first_missing_Some:
  assumes "\<not> list_all id flags"
  shows "\<exists>i. first_missing flags = Some i"
proof -
  obtain i where "i < length flags" "\<not> flags ! i" using assms by (auto simp: list_all_length)
  then have "List.find (\<lambda>i. \<not> flags ! i) [0..<length flags] \<noteq> None" by (auto simp: find_None_iff)
  then show ?thesis by (auto simp: first_missing_def)
qed

lemma missing_field_Some: "missing_field fr fs flags \<noteq> None"
  by (simp add: missing_field_def uninit_def split: option.splits)

lemma require_complete:
  assumes ok: "frame_ok H S fr"
  shows "\<exists>e. require_full_initialization H S fr w = Some (e, fr, w) \<and> (e = None \<longleftrightarrow> complete H S fr)"
  using ok
proof (cases rule: frame_trackers)
  case scalar
  then show ?thesis by (simp add: require_full_initialization_def complete_def uninit_def)
next
  case (struct bits c st)
  show ?thesis
    using iset_all_set_spec [OF struct(3) order_refl] missing_field_Some iset_flags_spec [OF struct(3)] struct(1,2)
    by (auto simp: require_full_initialization_def require_struct_def complete_def)
next
  case (array bits c u n)
  have "list_all id (map (\<lambda>i. i \<in> iset_elems bits) [0..<n]) \<longleftrightarrow> {..<n} \<subseteq> iset_elems bits"
    by (auto simp: list_all_iff)
  with array(1,2) iset_flags_spec [OF array(4)] show ?thesis
    by (auto simp: require_full_initialization_def require_array_def complete_def uninit_def)
qed

lemma complete_stays:
  assumes "frame_ok H S fr" and "complete H S fr"
  shows "fill_defaults H S fr w = Some (None, fr, w)"
  using assms(1)
proof (cases rule: frame_trackers)
  case scalar
  with assms(2) show ?thesis
    by (simp add: fill_defaults_def fill_by_tracker_def complete_def Let_def)
next
  case (struct bits c st)
  with assms(2) iset_all_set_spec [OF struct(3) order_refl] show ?thesis
    by (simp add: fill_defaults_def fill_by_tracker_def fill_struct_def complete_def Let_def)
next
  case (array bits c u n)
  then show ?thesis by (simp add: fill_defaults_def fill_by_tracker_def Let_def)
qed

text \<open>A step on the parts of a struct frame is a step of the frame.\<close>

lemma struct_step_does:
  assumes "fr_tracker fr = Tr_Struct bits c" and "parts_step H S fp (fr_shape fr) (fr_data fr) bits w bits' w'"
  shows "does H S fp fr w (fr\<lparr>fr_tracker := Tr_Struct bits' c'\<rparr>) w'"
  using assms by (simp add: does_def same_place_def held_def tracker_held_def parts_step_def)

lemma fill_and_require_does:
  assumes lf: "layout_fits H S fp" and ok: "frame_ok H S fr" and ty: "sh_ty (S (fr_shape fr)) = Ty_User (User_Struct st)"
    and plans: "\<forall>p \<in> set ps. plan_fits H S c (st_fields st) p" and cover: "fp_index ` set ps = {..<length (st_fields st)}"
    and len: "length ps = length (st_fields st)"
  shows "\<exists>e fr' w'. fill_and_require_fields H S c ps (length ps) fr w = Some (e, fr', w')
    \<and> does H S fp fr w fr' w' \<and> frame_ok H S fr' \<and> (e = None \<longrightarrow> complete H S fr')"
  using ok
proof (cases rule: frame_trackers)
  case (struct bits ch st')
  then have st': "st' = st" using ty by simp
  have inv: "iset_inv (length (parts H S (fr_shape fr))) bits" using struct ty st' by simp
  have "{..<length (st_fields st)} \<subseteq> iset_elems bits" if "iset_all_set bits (length ps)"
    using that iset_all_set_spec [OF struct(3) order_refl] st' len by simp
  from fill_plans_does [OF lf ty inv plans this] obtain e bits' w' where f:
    "fill_plans H S c (fr_shape fr) (fr_data fr) (iset_all_set bits (length ps)) ps bits w = Some (e, bits', w')"
    "parts_step H S fp (fr_shape fr) (fr_data fr) bits w bits' w'"
    "e = None \<longrightarrow> fp_index ` set ps \<subseteq> iset_elems bits'" by blast
  let ?fr = "fr\<lparr>fr_tracker := Tr_Struct bits' ch\<rparr>"
  have "frame_ok H S ?fr" using ok f(2) ty by (simp add: frame_ok_def tracker_fits_def parts_step_def is_struct_ty_def)
  moreover have "e = None \<longrightarrow> complete H S ?fr" using f(3) cover ty by (simp add: complete_def)
  moreover have "does H S fp fr w ?fr w'" by (rule struct_step_does [OF struct(1) f(2)])
  ultimately show ?thesis
    using f(1) struct(1) by (simp add: fill_and_require_fields_def fill_tracked_def Let_def)
next
  case scalar
  consider "fr_is_init fr" | "\<not> fr_is_init fr" "call_default_in_place H S (fr_shape fr)"
    | "\<not> fr_is_init fr" "\<not> call_default_in_place H S (fr_shape fr)" by blast
  then show ?thesis
  proof cases
    case 1
    then show ?thesis using scalar ok by (simp add: fill_and_require_fields_def complete_def)
  next
    case 2
    have "does H S fp fr w (mark_as_init fr) (default_into (fr_shape fr) (fr_data fr) w)"
      unfolding default_into_def by (rule write_does [OF scalar 2(1)])
    moreover have "frame_ok H S (mark_as_init fr)" using ok by (simp add: frame_ok_def mark_as_init_def)
    ultimately show ?thesis
      using scalar 2 ty
      by (simp add: fill_and_require_fields_def complete_def mark_as_init_def is_struct_ty_def Let_def)
  next
    case 3
    let ?new = "iset_new (length ps)"
    let ?fr1 = "fr\<lparr>fr_tracker := Tr_Struct ?new None\<rparr>"
    have inv: "iset_inv (length (parts H S (fr_shape fr))) ?new" using ty len by (simp add: iset_new_inv)
    have "{..<length (st_fields st)} \<subseteq> iset_elems ?new" if "iset_all_set ?new (length ps)"
      using that iset_all_set_spec [OF inv order_refl] len ty by simp
    from fill_plans_does [OF lf ty inv plans this] obtain e bits' w' where f:
      "fill_plans H S c (fr_shape fr) (fr_data fr) (iset_all_set ?new (length ps)) ps ?new w = Some (e, bits', w')"
      "parts_step H S fp (fr_shape fr) (fr_data fr) ?new w bits' w'"
      "e = None \<longrightarrow> fp_index ` set ps \<subseteq> iset_elems bits'" by blast
    let ?fr = "fr\<lparr>fr_tracker := Tr_Struct bits' None\<rparr>"
    have "frame_ok H S ?fr" using ok f(2) ty by (simp add: frame_ok_def tracker_fits_def parts_step_def is_struct_ty_def)
    moreover have "e = None \<longrightarrow> complete H S ?fr" using f(3) cover ty by (simp add: complete_def)
    moreover have "does H S fp fr w ?fr w'"
    proof (rule does_trans)
      show "does H S fp fr w ?fr1 w"
        using scalar 3 by (simp add: does_def same_place_def held_def tracker_held_def)
      have "does H S fp ?fr1 w (?fr1\<lparr>fr_tracker := Tr_Struct bits' None\<rparr>) w'"
        by (rule struct_step_does) (use f(2) in simp_all)
      then show "does H S fp ?fr1 w ?fr w'" by simp
    qed
    ultimately show ?thesis
      using f(1) scalar 3 ty
      by (simp add: fill_and_require_fields_def fill_tracked_def Let_def is_struct_ty_def)
  qed
qed (use ty in simp)

text \<open>A struct frame with no bit set can be written as a whole.\<close>

lemma whole_write_does:
  assumes "held H S fp fr = {}"
  shows "does H S fp fr w (fr\<lparr>fr_tracker := Tr_Scalar, fr_is_init := True\<rparr>)
     (default_into (fr_shape fr) (fr_data fr) w)"
  unfolding does_def
proof (intro conjI allI impI)
  fix m R
  assume "inside H (fr_shape fr) (fr_data fr) m" and "R \<inter> region fp fr = {}"
  then have "runs H fp w (m\<lparr>m_held := R\<rparr>) (default_into (fr_shape fr) (fr_data fr) w)
      (m\<lparr>m_held := R \<union> region fp fr\<rparr>)"
    unfolding default_into_def by (intro runs_write) auto
  then show "runs H fp w (m\<lparr>m_held := held H S fp fr \<union> R\<rparr>) (default_into (fr_shape fr) (fr_data fr) w)
      (m\<lparr>m_held := held H S fp (fr\<lparr>fr_tracker := Tr_Scalar, fr_is_init := True\<rparr>) \<union> R\<rparr>)"
    unfolding assms by (simp add: held_def tracker_held_def Un_commute)
qed (simp add: same_place_def)

lemma fill_struct_does:
  assumes lf: "layout_fits H S fp" and ok: "frame_ok H S fr" and t: "fr_tracker fr = Tr_Struct bits c"
    and ty: "sh_ty (S (fr_shape fr)) = Ty_User (User_Struct st)"
  shows "\<exists>e fr' w'. fill_struct H S fr bits c w = Some (e, fr', w') \<and> does H S fp fr w fr' w' \<and> frame_ok H S fr'"
proof -
  let ?n = "length (st_fields st)"
  have inv: "iset_inv ?n bits" using ok t ty by (simp add: frame_ok_def tracker_fits_def)
  have flags: "iset_flags bits ?n = Some (map (\<lambda>i. i \<in> iset_elems bits) [0..<?n])" by (rule iset_flags_spec [OF inv])
  consider "iset_all_set bits ?n"
    | "\<not> iset_all_set bits ?n" "list_all Not (map (\<lambda>i. i \<in> iset_elems bits) [0..<?n])"
      "call_default_in_place H S (fr_shape fr)"
    | "\<not> iset_all_set bits ?n" "\<not> (list_all Not (map (\<lambda>i. i \<in> iset_elems bits) [0..<?n])
        \<and> call_default_in_place H S (fr_shape fr))" by blast
  then show ?thesis
  proof cases
    case 1
    then show ?thesis using ok ty by (simp add: fill_struct_def)
  next
    case 2
    have "iset_elems bits \<inter> {..<?n} = {}" using 2(2) by (auto simp: list_all_iff)
    then have "held H S fp fr = {}" using t ty by (simp add: held_def tracker_held_def held_parts_def)
    from whole_write_does [OF this] show ?thesis
      using 2 ok ty flags by (simp add: fill_struct_def frame_ok_def tracker_fits_def)
  next
    case 3
    have inv': "iset_inv (length (parts H S (fr_shape fr))) bits" using inv ty by simp
    have "\<forall>(i, f) \<in> set (enumerate 0 (st_fields st)). i < ?n \<and> f = st_fields st ! i"
      by (auto simp: in_set_enumerate_eq)
    from fill_fields_does [OF lf ty inv' this] obtain e bits' w' where f:
      "fill_fields H S (fr_data fr) (has_default_attr (S (fr_shape fr))) (enumerate 0 (st_fields st)) bits w
         = Some (e, bits', w')"
      "parts_step H S fp (fr_shape fr) (fr_data fr) bits w bits' w'" by blast
    let ?fr = "fr\<lparr>fr_tracker := Tr_Struct bits' c\<rparr>"
    have "frame_ok H S ?fr" using ok f(2) ty by (simp add: frame_ok_def tracker_fits_def parts_step_def is_struct_ty_def)
    moreover have "does H S fp fr w ?fr w'" by (rule struct_step_does [OF t f(2)])
    ultimately show ?thesis using 3 f(1) ty flags by (auto simp: fill_struct_def)
  qed
qed

lemma fill_defaults_does:
  assumes lf: "layout_fits H S fp" and ok: "frame_ok H S fr"
  shows "\<exists>e fr' w'. fill_defaults H S fr w = Some (e, fr', w') \<and> does H S fp fr w fr' w' \<and> frame_ok H S fr'"
  using ok
proof (cases rule: frame_trackers)
  case (struct bits c st)
  with fill_struct_does [OF lf ok struct(1,2)] show ?thesis
    by (simp add: fill_defaults_def fill_by_tracker_def Let_def)
next
  case (array bits c u n)
  then show ?thesis using ok by (simp add: fill_defaults_def fill_by_tracker_def Let_def)
next
  case scalar
  let ?s = "fr_shape fr"
  have whole: ?thesis
    if "fill_defaults H S fr w = Some (None, fr\<lparr>fr_is_init := True\<rparr>, default_into ?s (fr_data fr) w)" and "\<not> fr_is_init fr"
  proof -
    have "does H S fp fr w (mark_as_init fr) (default_into ?s (fr_data fr) w)"
      unfolding default_into_def by (rule write_does [OF scalar that(2)])
    with that(1) ok show ?thesis by (simp add: mark_as_init_def frame_ok_def)
  qed
  show ?thesis
  proof (cases "\<not> fr_is_init fr \<and> is_struct_ty (sh_ty (S ?s))")
    case True
    then obtain st where st: "sh_ty (S ?s) = Ty_User (User_Struct st)"
      by (auto simp: is_struct_ty_def split: facet_type.splits user_type.splits)
    show ?thesis
    proof (cases "call_default_in_place H S ?s")
      case def: True
      then show ?thesis using True scalar by (intro whole) (simp_all add: fill_defaults_def Let_def)
    next
      case nodef: False
      let ?new = "iset_new (length (st_fields st))"
      let ?fr1 = "fr\<lparr>fr_tracker := Tr_Struct ?new None\<rparr>"
      have ok1: "frame_ok H S ?fr1"
        using ok st by (simp add: frame_ok_def tracker_fits_def is_struct_ty_def iset_new_inv)
      obtain e fr' w' where f: "fill_struct H S ?fr1 ?new None w = Some (e, fr', w')"
        "does H S fp ?fr1 w fr' w'" "frame_ok H S fr'"
        using fill_struct_does [OF lf ok1, of ?new None st w] st by auto
      have "does H S fp fr w ?fr1 w"
        using scalar True by (simp add: does_def same_place_def held_def tracker_held_def)
      from does_trans [OF this f(2)] have "does H S fp fr w fr' w'" .
      moreover have "fill_defaults H S fr w = Some (e, fr', w')"
        using True scalar nodef st f(1) by (simp add: fill_defaults_def fill_by_tracker_def Let_def)
      ultimately show ?thesis using f(3) by blast
    qed
  next
    case False
    then show ?thesis
      using scalar ok whole by (auto simp: fill_defaults_def fill_by_tracker_def Let_def)
  qed
qed

end
