(* ===== verification/Stack_Memory.thy ===== *)
theory Stack_Memory
  imports Frame_Complete
begin

text \<open>
  The stack of frames of a partial value in strict mode, in memory: every frame but the root builds
  a part of the frame below it, whose bit is clear there, so no place is held twice; what is held is
  what the frames hold, and the root's block is the only one. Dropping such a partial value at any
  time gives everything back.
\<close>

section \<open>The stack\<close>

definition held_all :: "host \<Rightarrow> shapes \<Rightarrow> footprint \<Rightarrow> frame list \<Rightarrow> (nat \<times> nat) set" where
  "held_all H S fp fs = (\<Union>fr \<in> set fs. held H S fp fr)"

lemma held_all_simps [simp]:
  "held_all H S fp [] = {}"
  "held_all H S fp (fr # fs) = held H S fp fr \<union> held_all H S fp fs"
  "held_all H S fp (rev fs) = held_all H S fp fs"
  "held_all H S fp (fs @ gs) = held_all H S fp fs \<union> held_all H S fp gs"
  by (auto simp: held_all_def)

definition tracker_bits :: "tracker \<Rightarrow> iset option" where
  "tracker_bits t = (case t of Tr_Struct bits c \<Rightarrow> Some bits | Tr_Array bits c \<Rightarrow> Some bits | _ \<Rightarrow> None)"

definition child_of :: "host \<Rightarrow> shapes \<Rightarrow> frame \<Rightarrow> frame \<Rightarrow> bool" where
  "child_of H S parent fr \<longleftrightarrow>
     (\<exists>i bits. fr_ownership fr = Own_Field i \<and> i < length (parts H S (fr_shape parent))
        \<and> tracker_bits (fr_tracker parent) = Some bits \<and> i \<notin> iset_elems bits
        \<and> fr_shape fr = part_shape H S (fr_shape parent) i
        \<and> fr_data fr = part_ptr H S (fr_shape parent) (fr_data parent) i)"

text \<open>From the top frame down.\<close>

fun stack_ok :: "host \<Rightarrow> shapes \<Rightarrow> plan_core \<Rightarrow> frame list \<Rightarrow> bool" where
  "stack_ok H S c [] \<longleftrightarrow> False"
| "stack_ok H S c [root] \<longleftrightarrow> frame_ok H S root \<and> leads_to S c (fr_type_plan root) (fr_shape root)
     \<and> fr_ownership root = Owned"
| "stack_ok H S c (fr # parent # below) \<longleftrightarrow>
     frame_ok H S fr \<and> leads_to S c (fr_type_plan fr) (fr_shape fr) \<and> child_of H S parent fr
     \<and> stack_ok H S c (parent # below)"

lemma stack_top:
  "stack_ok H S c (fr # below) \<Longrightarrow> frame_ok H S fr \<and> leads_to S c (fr_type_plan fr) (fr_shape fr)"
  by (cases below) auto

lemma held_with_bits:
  assumes "tracker_bits (fr_tracker fr) = Some bits"
  shows "held H S fp fr = held_parts H S fp (fr_shape fr) (fr_data fr) (iset_elems bits)"
  using assms by (auto simp: tracker_bits_def held_def tracker_held_def split: tracker.splits)

lemma child_apart:
  assumes lf: "layout_fits H S fp" and "child_of H S parent fr"
  shows "region fp fr \<subseteq> region fp parent" and "region fp fr \<inter> held H S fp parent = {}"
proof -
  obtain i bits where c: "i < length (parts H S (fr_shape parent))"
    "tracker_bits (fr_tracker parent) = Some bits" "i \<notin> iset_elems bits"
    "region fp fr = part_places H S fp (fr_shape parent) (fr_data parent) i"
    using assms(2) by (auto simp: child_of_def)
  show "region fp fr \<subseteq> region fp parent" unfolding c(4) by (rule part_in_whole [OF lf c(1)])
  have "part_places H S fp (fr_shape parent) (fr_data parent) i \<inter> part_places H S fp (fr_shape parent) (fr_data parent) j = {}"
    if "j \<in> iset_elems bits \<inter> {..<length (parts H S (fr_shape parent))}" for j
    using that c(3) by (intro parts_apart [OF lf c(1)]) auto
  then show "region fp fr \<inter> held H S fp parent = {}"
    unfolding c(4) held_with_bits [OF c(2)] held_parts_def by blast
qed

lemma top_apart:
  assumes lf: "layout_fits H S fp" and "stack_ok H S c (fr # below)"
  shows "region fp fr \<inter> held_all H S fp below = {}"
  using assms(2)
proof (induction below arbitrary: fr)
  case (Cons parent below)
  then have "child_of H S parent fr" and "region fp parent \<inter> held_all H S fp below = {}" by simp_all
  with child_apart [OF lf this(1)] show ?case by auto
qed simp

lemma inside_all:
  assumes lf: "layout_fits H S fp" and "stack_ok H S c fs"
    and "inside H (fr_shape (last fs)) (fr_data (last fs)) m" and "fr \<in> set fs"
  shows "inside H (fr_shape fr) (fr_data fr) m"
  using assms(2-)
proof (induction fs arbitrary: fr)
  case (Cons top below)
  show ?case
  proof (cases "below = [] \<or> fr \<in> set below")
    case True
    with Cons show ?thesis by (cases below) auto
  next
    case False
    then obtain parent rest where below: "below = parent # rest" by (cases below) auto
    with Cons have p: "inside H (fr_shape parent) (fr_data parent) m" by simp
    obtain i where "i < length (parts H S (fr_shape parent))" "fr_shape top = part_shape H S (fr_shape parent) i"
      "fr_data top = part_ptr H S (fr_shape parent) (fr_data parent) i"
      using Cons.prems(1) below by (auto simp: child_of_def)
    with part_inside [OF lf p] Cons.prems(3) False show ?thesis by simp
  qed
qed simp

section \<open>The whole state\<close>

definition root_block :: "frame \<Rightarrow> (nat \<times> nat) set \<Rightarrow> bool" where
  "root_block root bs \<longleftrightarrow>
     (case fr_data root of
        Ptr b off \<Rightarrow> off = 0 \<and> 0 < al_size (fr_allocated root) \<and> bs = {(b, al_size (fr_allocated root))}
      | Dangling \<Rightarrow> al_size (fr_allocated root) = 0 \<and> bs = {})"

definition stack_in_memory :: "host \<Rightarrow> shapes \<Rightarrow> footprint \<Rightarrow> plan_core \<Rightarrow> frame list \<Rightarrow> mem \<Rightarrow> bool" where
  "stack_in_memory H S fp c fs m \<longleftrightarrow>
     stack_ok H S c fs \<and> m_held m = held_all H S fp fs \<and> root_block (last fs) (m_blocks m)"

definition strict_inv :: "host \<Rightarrow> shapes \<Rightarrow> footprint \<Rightarrow> plan_core \<Rightarrow> partial \<Rightarrow> world \<Rightarrow> bool" where
  "strict_inv H S fp c p w \<longleftrightarrow>
     pt_mode p = Strict (frames p) \<and> pt_state p = Active \<and> pt_plan p = c
     \<and> (\<exists>m. run_log H fp (w_log w) mem_empty = Some m \<and> stack_in_memory H S fp c (rev (frames p)) m)"

lemma stack_ok_root: "stack_ok H S c fs \<Longrightarrow> frame_ok H S (last fs) \<and> fr_ownership (last fs) = Owned"
proof (induction fs)
  case (Cons fr below)
  then show ?case by (cases below) auto
qed simp

lemma root_inside:
  assumes "stack_ok H S c fs" and "root_block (last fs) (m_blocks m)"
  shows "inside H (fr_shape (last fs)) (fr_data (last fs)) m"
  using stack_ok_root [OF assms(1)] assms(2)
  by (auto simp: root_block_def inside_def frame_ok_def split: ptr.splits)

lemma top_inside:
  assumes "layout_fits H S fp" and "stack_in_memory H S fp c (fr # below) m"
  shows "inside H (fr_shape fr) (fr_data fr) m"
  using assms(2) inside_all [OF assms(1) _ root_inside] unfolding stack_in_memory_def by (metis list.set_intros(1))

lemma same_place_stack:
  assumes "same_place fr fr'" and "frame_ok H S fr'" and "stack_ok H S c (fr # below)"
  shows "stack_ok H S c (fr' # below)"
  using assms by (cases below) (auto simp: same_place_def child_of_def)

lemma root_block_place:
  assumes "same_place fr fr'"
  shows "root_block (last (fr' # below)) bs \<longleftrightarrow> root_block (last (fr # below)) bs"
  using assms by (cases below) (auto simp: root_block_def same_place_def split: ptr.splits)

text \<open>A step of the top frame is a step of the whole.\<close>

lemma top_step:
  assumes lf: "layout_fits H S fp" and st: "stack_in_memory H S fp c (fr # below) m"
    and d: "does H S fp fr w fr' w'" and ok: "frame_ok H S fr'"
  obtains m' where "runs H fp w m w' m'" and "stack_in_memory H S fp c (fr' # below) m'"
proof -
  let ?R = "held_all H S fp below"
  have so: "stack_ok H S c (fr # below)" and h: "m_held m = held H S fp fr \<union> ?R"
    and rb: "root_block (last (fr # below)) (m_blocks m)" using st by (simp_all add: stack_in_memory_def)
  have "?R \<inter> region fp fr = {}" using top_apart [OF lf so] by blast
  from does_runs [OF d top_inside [OF lf st] this]
  have "runs H fp w m w' (m\<lparr>m_held := held H S fp fr' \<union> ?R\<rparr>)" using h by (cases m) simp
  moreover have "same_place fr fr'" using d by (simp add: does_def)
  moreover have "root_block (last (fr' # below)) (m_blocks m)"
    using rb root_block_place [OF \<open>same_place fr fr'\<close>] by blast
  ultimately show thesis
    using same_place_stack [OF _ ok so] by (intro that) (auto simp: stack_in_memory_def)
qed

section \<open>Dropping the partial value\<close>

lemma unset_clear_bit:
  assumes ok: "frame_ok H S parent" and c: "child_of H S parent fr" and "fr_ownership fr = Own_Field i"
  obtains parent' where "unset_in_frame i parent = Some parent'" and "same_place parent parent'"
    and "frame_ok H S parent'" and "held H S fp parent' = held H S fp parent"
proof -
  obtain bits where b: "i < length (parts H S (fr_shape parent))" "tracker_bits (fr_tracker parent) = Some bits"
    "i \<notin> iset_elems bits" using c assms(3) by (auto simp: child_of_def)
  have inv: "iset_inv (length (parts H S (fr_shape parent))) bits"
    using ok b(2) by (auto simp: frame_ok_def tracker_fits_def tracker_bits_def split: tracker.splits)
  obtain bits' where u: "iset_unset bits i = Some bits'" "iset_inv (length (parts H S (fr_shape parent))) bits'"
    "iset_elems bits' = iset_elems bits" using iset_unset_spec [OF inv b(1)] b(3) by auto
  show thesis
  proof (cases "fr_tracker parent")
    case (Tr_Struct s k)
    with b(2) u ok show thesis
      by (intro that [of "parent\<lparr>fr_tracker := Tr_Struct bits' k\<rparr>"])
        (simp_all add: unset_in_frame_def tracker_bits_def same_place_def frame_ok_def tracker_fits_def held_def
          tracker_held_def)
  next
    case (Tr_Array s k)
    with b(2) u ok show thesis
      by (intro that [of "parent\<lparr>fr_tracker := Tr_Array bits' k\<rparr>"])
        (auto simp: unset_in_frame_def tracker_bits_def same_place_def frame_ok_def tracker_fits_def held_def
          tracker_held_def)
  qed (use b(2) in \<open>simp_all add: tracker_bits_def\<close>)
qed

lemma runs_dealloc_root:
  assumes "frame_ok H S root" and "root_block root (m_blocks m)" and "m_held m = {}"
  shows "runs H fp w m (deallocate H (fr_allocated root) (fr_data root) w) (m\<lparr>m_blocks := {}\<rparr>)"
proof (cases "fr_data root")
  case (Ptr b off)
  with assms show ?thesis
    by (cases m) (auto simp: deallocate_def root_block_def frame_ok_def run_effect_def mem_dealloc_def intro!: runs_emit)
next
  case Dangling
  with assms show ?thesis by (cases m) (simp add: deallocate_def root_block_def)
qed

lemma drop_stack_releases:
  assumes lf: "layout_fits H S fp" and "stack_in_memory H S fp c fs m"
  shows "\<exists>w'. drop_stack_loop H S (length fs) fs w = Some w' \<and> runs H fp w m w' mem_empty"
  using assms(2)
proof (induction "length fs" arbitrary: fs m w)
  case 0
  then show ?case by (simp add: stack_in_memory_def)
next
  case (Suc n)
  then obtain fr below where fs: "fs = fr # below" by (cases fs) auto
  have so: "stack_ok H S c (fr # below)" using Suc.prems fs by (simp add: stack_in_memory_def)
  have ok: "frame_ok H S fr" using stack_top [OF so] by simp
  obtain w1 where d: "deinit_for_cancellation H S fr w = Some (emptied fr, w1)" "does H S fp fr w (emptied fr) w1"
    using deinit_does [OF lf ok, of w] deinit_others(1) [OF ok] by auto
  from top_step [OF lf Suc.prems [unfolded fs] d(2) emptied_ok [OF ok]]
  obtain m1 where m1: "runs H fp w m w1 m1" "stack_in_memory H S fp c (emptied fr # below) m1" .
  show ?case
  proof (cases below)
    case Nil
    then have own: "fr_ownership fr = Owned" using so by simp
    let ?w = "deallocate H (fr_allocated fr) (fr_data fr) w1"
    have p: "fr_allocated (emptied fr) = fr_allocated fr" "fr_data (emptied fr) = fr_data fr"
      "fr_ownership (emptied fr) = fr_ownership fr" by (simp_all add: emptied_def)
    have "runs H fp w1 m1 ?w (m1\<lparr>m_blocks := {}\<rparr>)"
      using runs_dealloc_root [OF emptied_ok [OF ok], of m1 fp w1] m1(2) Nil p by (simp add: stack_in_memory_def)
    moreover have "m1\<lparr>m_blocks := {}\<rparr> = mem_empty"
      using m1(2) Nil by (cases m1) (simp add: stack_in_memory_def mem_empty_def)
    ultimately have "runs H fp w m ?w mem_empty" using runs_trans [OF m1(1)] by simp
    then show ?thesis
      using Suc.hyps(2) fs Nil own d(1) p by (simp add: release_field_def frame_dealloc_def needs_dealloc_def)
  next
    case (Cons parent rest)
    have child: "child_of H S parent fr" and okp: "frame_ok H S parent" and sop: "stack_ok H S c (parent # rest)"
      using so Cons stack_top by auto
    then obtain i where own: "fr_ownership fr = Own_Field i" by (auto simp: child_of_def)
    obtain parent' where p': "unset_in_frame i parent = Some parent'" "same_place parent parent'"
      "frame_ok H S parent'" "held H S fp parent' = held H S fp parent"
      using unset_clear_bit [OF okp child own] .
    have "stack_in_memory H S fp c (parent' # rest) m1"
      using m1(2) Cons p'(4) same_place_stack [OF p'(2,3) sop] root_block_place [OF p'(2), of rest]
      by (auto simp: stack_in_memory_def)
    with Suc.hyps(1) [of "parent' # rest" m1 w1] Suc.hyps(2) fs Cons obtain w2 where
      w2: "drop_stack_loop H S n (parent' # rest) w1 = Some w2" "runs H fp w1 m1 w2 mem_empty" by auto
    have "frame_dealloc H (emptied fr) w1 = Some w1"
      using own by (simp add: frame_dealloc_def needs_dealloc_def emptied_def)
    then show ?thesis
      using Suc.hyps(2) fs Cons own d(1) p'(1) w2 runs_trans [OF m1(1) w2(2)] by (simp add: release_field_def)
  qed
qed

lemma strict_drop:
  assumes lf: "layout_fits H S fp" and inv: "strict_inv H S fp c p w"
  shows "\<exists>w'. partial_drop H S p w = Some w' \<and> run_log H fp (w_log w') mem_empty = Some mem_empty"
proof -
  obtain m where m: "run_log H fp (w_log w) mem_empty = Some m" "stack_in_memory H S fp c (rev (frames p)) m"
    and s: "pt_mode p = Strict (frames p)" using inv by (auto simp: strict_inv_def)
  obtain w' where w': "drop_stack_loop H S (length (rev (frames p))) (rev (frames p)) w = Some w'"
    "runs H fp w m w' mem_empty" using drop_stack_releases [OF lf m(2)] by blast
  have "stored_frames p = []" unfolding stored_frames_def by (subst s) simp
  then have "partial_drop H S p w = Some w'"
    using w'(1) by (simp add: partial_drop_def deepest_first_def drop_stack_def)
  with runs_log [OF w'(2) m(1)] show ?thesis by blast
qed

end
