(* ===== verification/Strict_Build.thy ===== *)
theory Strict_Build
  imports Stack_Memory
begin

text \<open>
  Building structs and arrays in strict mode: every operation keeps the state of the memory, and
  when it fails, everything has been given back. The setting is what the code relies on: layouts
  that fit, types known by their identifiers, a linked plan that has the parts of its composite
  types, and validators that can read what they are run on.
\<close>

section \<open>The setting\<close>

definition plan_serves :: "shapes \<Rightarrow> plan_core \<Rightarrow> bool" where
  "plan_serves S c \<longleftrightarrow>
     (\<forall>i nd. node_at c i = Some nd \<longrightarrow>
        (case sh_ty (S (nd_shape nd)) of
           Ty_User (User_Struct st) \<Rightarrow>
             \<forall>k < length (st_fields st). \<exists>j. struct_field_node_id c i k = Some (Some j)
         | Ty_Sequence (Seq_Array t n) \<Rightarrow> \<exists>j. list_item_node_id c i = Some (Some j)
         | _ \<Rightarrow> True))"

definition validators_answer :: "host \<Rightarrow> plan_core \<Rightarrow> bool" where
  "validators_answer H c \<longleftrightarrow>
     (\<forall>r vs container name data w. plan_validators_of c r = Some vs \<longrightarrow>
        run_validators H container name data vs w \<noteq> None)"

definition strict_setting :: "host \<Rightarrow> shapes \<Rightarrow> footprint \<Rightarrow> plan_core \<Rightarrow> bool" where
  "strict_setting H S fp c \<longleftrightarrow>
     layout_fits H S fp \<and> ids_faithful S \<and> plan_linked S c \<and> plan_serves S c \<and> validators_answer H c
     \<and> (\<forall>s. sh_def (S s) \<noteq> Def_DynamicValue)
     \<and> (\<forall>s t n. sh_ty (S s) = Ty_Sequence (Seq_Array t n) \<longrightarrow> sh_def (S s) = Def_Array t n)"

lemma setting_layout: "strict_setting H S fp c \<Longrightarrow> layout_fits H S fp"
  by (simp add: strict_setting_def)

lemma leads_node:
  assumes "strict_setting H S fp c" and "leads_to S c i s"
  obtains nd where "node_at c i = Some nd" and "S (nd_shape nd) = S s" and "node_linked S c nd"
  using assms unfolding strict_setting_def leads_to_def holds_type_def ids_faithful_def plan_linked_def by blast

lemma struct_child_node:
  assumes set: "strict_setting H S fp c" and "leads_to S c i s"
    and ty: "sh_ty (S s) = Ty_User (User_Struct st)" and k: "k < length (st_fields st)"
  obtains j where "struct_field_node_id c i k = Some (Some j)" and "leads_to S c j (f_shape (st_fields st ! k))"
proof -
  obtain nd where nd: "node_at c i = Some nd" "S (nd_shape nd) = S s" using leads_node [OF assms(1,2)] .
  have linked: "plan_linked S c" and ids: "ids_faithful S" using set by (simp_all add: strict_setting_def)
  from set nd ty k obtain j where j: "struct_field_node_id c i k = Some (Some j)"
    unfolding strict_setting_def plan_serves_def by fastforce
  obtain r where r: "resolve_backref c nd = Some r" using linked nd(1) by (rule resolve_in_plan)
  with j nd(1) obtain sp where "nd_kind r = Nk_Struct sp"
    by (cases "nd_kind r") (simp_all add: struct_field_node_id_def)
  with r have sp: "as_struct_plan c nd = Some (Some sp)" by (simp add: as_struct_plan_def)
  obtain m where "resolve_backref c nd = Some m" "sh_ty (S (nd_shape m)) = Ty_User (User_Struct (sp_struct_def sp))"
    "node_tid S m = node_tid S nd" using struct_navigation(1) [OF linked nd(1) sp] by blast
  moreover from this(3) have "S (nd_shape m) = S s"
    using ids nd(2) unfolding ids_faithful_def node_tid_def by metis
  ultimately have "sp_struct_def sp = st" using ty by simp
  with struct_navigation(2) [OF linked nd(1) sp, of k] j k show thesis by (auto intro: that)
qed

lemma array_child_node:
  assumes set: "strict_setting H S fp c" and "leads_to S c i s"
    and ty: "sh_ty (S s) = Ty_Sequence (Seq_Array t n)"
  obtains j where "list_item_node_id c i = Some (Some j)" and "leads_to S c j t"
proof -
  obtain nd where nd: "node_at c i = Some nd" "S (nd_shape nd) = S s" using leads_node [OF assms(1,2)] .
  have linked: "plan_linked S c" and ids: "ids_faithful S" using set by (simp_all add: strict_setting_def)
  from set nd ty obtain j where j: "list_item_node_id c i = Some (Some j)"
    unfolding strict_setting_def plan_serves_def by fastforce
  obtain m where m: "node_tid S m = node_tid S nd" "leads_part S c (list_item_node_id c i) (item_of (S (nd_shape m)))"
    using navigation_links [OF linked nd(1)] by blast
  then have sm: "S (nd_shape m) = S s"
    using ids nd(2) unfolding ids_faithful_def node_tid_def by metis
  from m(2) j obtain u where u: "item_of (S s) u" "leads_to S c j u" by (auto simp: leads_part_def sm)
  have "sh_def (S s) = Def_Array t n" using set ty by (simp add: strict_setting_def)
  with u(1) ty have "u = t" by (auto simp: item_of_def)
  with j u(2) show thesis by (auto intro: that)
qed

section \<open>Outcomes\<close>

definition body_ok :: "host \<Rightarrow> shapes \<Rightarrow> footprint \<Rightarrow> plan_core \<Rightarrow> body \<Rightarrow> bool" where
  "body_ok H S fp c b \<longleftrightarrow>
     (case b of B_Panic \<Rightarrow> False | B_Fail e path p w \<Rightarrow> strict_inv H S fp c p w | B_Ok p w \<Rightarrow> strict_inv H S fp c p w)"

definition attempt_ok :: "host \<Rightarrow> shapes \<Rightarrow> footprint \<Rightarrow> plan_core \<Rightarrow> attempt \<Rightarrow> bool" where
  "attempt_ok H S fp c a \<longleftrightarrow>
     (case a of
        Panic \<Rightarrow> False
      | Failed e path w \<Rightarrow> run_log H fp (w_log w) mem_empty = Some mem_empty
      | Done p w \<Rightarrow> strict_inv H S fp c p w)"

lemma body_ok_simps [simp]:
  "body_ok H S fp c (B_Ok p w) = strict_inv H S fp c p w"
  "body_ok H S fp c (fails H S p w e) = strict_inv H S fp c p w"
  "body_ok H S fp c (B_Fail e path p w) = strict_inv H S fp c p w"
  "\<not> body_ok H S fp c B_Panic"
  by (simp_all add: body_ok_def fails_def)

lemma attempt_ok_simps [simp]:
  "attempt_ok H S fp c (Done p w) = strict_inv H S fp c p w"
  "attempt_ok H S fp c (Failed e path w) = (run_log H fp (w_log w) mem_empty = Some mem_empty)"
  "\<not> attempt_ok H S fp c Panic"
  by (simp_all add: attempt_ok_def)

lemma attempt_of_ok:
  assumes "strict_setting H S fp c" and "body_ok H S fp c b"
  shows "attempt_ok H S fp c (attempt_of H S b)"
proof (cases b)
  case (B_Fail e path p w)
  then obtain w' where "partial_drop H S p w = Some w'" "run_log H fp (w_log w') mem_empty = Some mem_empty"
    using strict_drop [OF setting_layout [OF assms(1)], of c p w] assms(2) by auto
  with B_Fail show ?thesis by simp
qed (use assms(2) in simp_all)

lemma and_then_ok:
  assumes "attempt_ok H S fp c a" and "\<And>p w. strict_inv H S fp c p w \<Longrightarrow> attempt_ok H S fp c (f p w)"
  shows "attempt_ok H S fp c (and_then a f)"
  using assms by (cases a) simp_all

text \<open>The top frame and what is below it.\<close>

definition strict_partial :: "plan_core \<Rightarrow> frame list \<Rightarrow> partial" where
  "strict_partial c fs = \<lparr>pt_mode = Strict (rev fs), pt_state = Active, pt_plan = c\<rparr>"

lemma strict_partial_simps [simp]:
  "frames (strict_partial c fs) = rev fs" "pt_mode (strict_partial c fs) = Strict (rev fs)"
  "set_frames gs (strict_partial c fs) = strict_partial c (rev gs)"
  "set_top fr' (strict_partial c (fr # bs)) = strict_partial c (fr' # bs)"
  "push_frame fr' (strict_partial c fs) = strict_partial c (fr' # fs)"
  "pop_frame (strict_partial c (fr # bs)) = strict_partial c bs"
  "top_frame (strict_partial c (fr # bs)) = Some fr"
  "below_top (strict_partial c [fr]) = None"
  "below_top (strict_partial c (fr # gr # bs)) = Some gr"
  "is_deferred (strict_partial c fs) = False"
  "pt_plan (strict_partial c fs) = c" "pt_state (strict_partial c fs) = Active"
  by (simp_all add: strict_partial_def frames_def set_frames_def set_top_def push_frame_def pop_frame_def top_frame_def below_top_def
      is_deferred_def nth_append)

lemma strict_cases:
  assumes "strict_inv H S fp c p w"
  obtains fr bs m where "p = strict_partial c (fr # bs)"
    and "run_log H fp (w_log w) mem_empty = Some m" and "stack_in_memory H S fp c (fr # bs) m"
proof -
  obtain m where m: "pt_mode p = Strict (frames p)" "pt_state p = Active" "pt_plan p = c"
    "run_log H fp (w_log w) mem_empty = Some m" "stack_in_memory H S fp c (rev (frames p)) m"
    using assms by (auto simp: strict_inv_def)
  obtain fr bs where r: "rev (frames p) = fr # bs" using m(5) by (cases "rev (frames p)") (auto simp: stack_in_memory_def)
  then have "frames p = rev (fr # bs)" using rev_rev_ident [of "frames p"] by simp
  with m(1-3) have "p = strict_partial c (fr # bs)" by (simp add: strict_partial_def)
  with m r show thesis by (intro that) simp_all
qed

lemma strict_top: "strict_inv H S fp c p w \<Longrightarrow> \<exists>fr. top_frame p = Some fr"
  by (erule strict_cases) simp

lemma strict_partial_inv:
  assumes "run_log H fp (w_log w) mem_empty = Some m" and "stack_in_memory H S fp c fs m"
  shows "strict_inv H S fp c (strict_partial c fs) w"
  using assms by (auto simp: strict_inv_def)

lemma top_step_inv:
  assumes lf: "layout_fits H S fp" and m: "run_log H fp (w_log w) mem_empty = Some m"
    and st: "stack_in_memory H S fp c (fr # bs) m" and d: "does H S fp fr w fr' w'" and ok: "frame_ok H S fr'"
  shows "strict_inv H S fp c (strict_partial c (fr' # bs)) w'"
proof -
  obtain m' where "runs H fp w m w' m'" "stack_in_memory H S fp c (fr' # bs) m'" using top_step [OF lf st d ok] .
  with runs_log [OF _ m] show ?thesis by (intro strict_partial_inv)
qed

section \<open>Setting the top value\<close>

lemma replace_value_ok:
  assumes set: "strict_setting H S fp c" and inv: "strict_inv H S fp c p w" and "top_frame p = Some fr"
    and put: "\<And>p fr w. strict_inv H S fp c p w \<Longrightarrow> top_frame p = Some fr \<Longrightarrow> fr_tracker fr = Tr_Scalar
        \<Longrightarrow> \<not> fr_is_init fr \<Longrightarrow> body_ok H S fp c (put p fr w)"
  shows "body_ok H S fp c (replace_value H S p fr w put)"
  using inv
proof (rule strict_cases)
  fix fr' bs m
  assume p: "p = strict_partial c (fr' # bs)" and m: "run_log H fp (w_log w) mem_empty = Some m"
    and st: "stack_in_memory H S fp c (fr' # bs) m"
  have fr: "fr' = fr" using assms(3) p by simp
  have ok: "frame_ok H S fr" using st stack_top unfolding fr by (auto simp: stack_in_memory_def)
  obtain w' where d: "deinit H S fr w = Some (emptied fr, w')" "does H S fp fr w (emptied fr) w'"
    using deinit_does [OF setting_layout [OF set] ok] by blast
  have "strict_inv H S fp c (strict_partial c (emptied fr # bs)) w'"
    by (rule top_step_inv [OF setting_layout [OF set] m st [unfolded fr] d(2) emptied_ok [OF ok]])
  then have "body_ok H S fp c (put (strict_partial c (emptied fr # bs)) (emptied fr) w')" by (rule put) simp_all
  then show ?thesis
    using p fr d(1) by (simp add: replace_value_def deinit_others(2) [OF ok])
qed

lemma written_ok:
  assumes set: "strict_setting H S fp c" and inv: "strict_inv H S fp c p w" and "top_frame p = Some fr"
    and "fr_tracker fr = Tr_Scalar" and "\<not> fr_is_init fr"
  shows "body_ok H S fp c (written how p fr w)"
  using inv
proof (rule strict_cases)
  fix fr' bs m
  assume p: "p = strict_partial c (fr' # bs)" and m: "run_log H fp (w_log w) mem_empty = Some m"
    and st: "stack_in_memory H S fp c (fr' # bs) m"
  have fr: "fr' = fr" using assms(3) p by simp
  have "frame_ok H S (mark_as_init fr)"
    using st stack_top unfolding fr by (fastforce simp: stack_in_memory_def frame_ok_def mark_as_init_def)
  from top_step_inv [OF setting_layout [OF set] m st [unfolded fr] write_does [OF assms(4,5)] this]
  show ?thesis using p fr by (simp add: written_def)
qed

lemma set_shape_ok:
  assumes set: "strict_setting H S fp c" and inv: "strict_inv H S fp c p w"
  shows "attempt_ok H S fp c (set_shape H S src_value src p w)"
  unfolding set_shape_def
proof (rule attempt_of_ok [OF set])
  obtain fr where top: "top_frame p = Some fr" using strict_top [OF inv] by blast
  have "sh_def (S (fr_shape fr)) \<noteq> Def_DynamicValue" using set by (simp add: strict_setting_def)
  then show "body_ok H S fp c (set_shape_body H S src_value src p w)"
    using inv top by (auto simp: set_shape_body_def intro!: replace_value_ok [OF set] written_ok [OF set])
qed

lemma set_from_function_ok:
  assumes set: "strict_setting H S fp c" and inv: "strict_inv H S fp c p w"
  shows "attempt_ok H S fp c (set_from_function H S f p w)"
  unfolding set_from_function_def
proof (rule attempt_of_ok [OF set])
  obtain fr where top: "top_frame p = Some fr" using strict_top [OF inv] by blast
  then show "body_ok H S fp c (set_from_function_body H S f p w)"
    using inv
    by (auto simp: set_from_function_body_def split: sum.splits
        intro!: replace_value_ok [OF set] written_ok [OF set])
qed

lemma parse_from_str_ok:
  assumes set: "strict_setting H S fp c" and inv: "strict_inv H S fp c p w"
  shows "attempt_ok H S fp c (parse_from_str H S input p w)"
proof -
  obtain fr where top: "top_frame p = Some fr" using strict_top [OF inv] by blast
  then show ?thesis
    using inv
    by (auto simp: parse_from_str_def intro!: attempt_of_ok [OF set] replace_value_ok [OF set] written_ok [OF set])
qed

section \<open>Entering a part\<close>

lemma child_held:
  assumes lf: "layout_fits H S fp"
  shows "held H S fp (child_frame H S p s sz i j was) = (if was then places fp s p else {})"
proof (cases "\<exists>st. sh_ty (S s) = Ty_User (User_Struct st) \<and> st_fields st = []")
  case True
  then obtain st where st: "sh_ty (S s) = Ty_User (User_Struct st)" "st_fields st = []" by blast
  then have "places fp s p = {}" using whole_is_parts [OF lf, of s p] by simp
  then show ?thesis by (simp add: child_frame_def frame_new_def allocated_new_def held_def tracker_held_def mark_as_init_def)
next
  case False
  then have no: "\<not> (case sh_ty (S s) of Ty_User (User_Struct st) \<Rightarrow> st_fields st = [] | _ \<Rightarrow> False)"
    by (auto split: facet_type.splits user_type.splits)
  show ?thesis
    by (cases was)
      (simp_all only: child_frame_def Let_def held_def tracker_held_def mark_as_init_def frame_new_def
        allocated_new_def frame.simps allocated_shape.simps tracker.case no if_True if_False)
qed

lemma child_place [simp]:
  "fr_shape (child_frame H S p s sz i j was) = s" "fr_data (child_frame H S p s sz i j was) = p"
  "al_size (fr_allocated (child_frame H S p s sz i j was)) = sz"
  "fr_tracker (child_frame H S p s sz i j was) = Tr_Scalar" "fr_custom (child_frame H S p s sz i j was) = False"
  "fr_ownership (child_frame H S p s sz i j was) = Own_Field i" "fr_type_plan (child_frame H S p s sz i j was) = j"
  by (simp_all add: child_frame_def frame_new_def allocated_new_def mark_as_init_def Let_def)

lemma child_in_memory:
  assumes set: "strict_setting H S fp c" and st: "stack_in_memory H S fp c (fr # bs) m"
    and t: "tracker_bits t = Some b1" "iset_elems b1 = iset_elems b - {i}"
    and h: "held H S fp fr = held_parts H S fp (fr_shape fr) (fr_data fr) (iset_elems b)"
    and ok: "frame_ok H S (fr\<lparr>fr_tracker := t\<rparr>)" and i: "i < length (parts H S (fr_shape fr))"
    and part: "leads_to S c j (part_shape H S (fr_shape fr) i)"
      "vt_size (h_vt H (part_shape H S (fr_shape fr) i)) = Some sz"
  shows "stack_in_memory H S fp c
     (child_frame H S (part_ptr H S (fr_shape fr) (fr_data fr) i) (part_shape H S (fr_shape fr) i) sz i j
        (i \<in> iset_elems b) # fr\<lparr>fr_tracker := t\<rparr> # bs) m"
proof -
  let ?fr = "fr\<lparr>fr_tracker := t\<rparr>" and ?s = "fr_shape fr" and ?p = "fr_data fr"
  let ?child = "child_frame H S (part_ptr H S ?s ?p i) (part_shape H S ?s i) sz i j (i \<in> iset_elems b)"
  have lf: "layout_fits H S fp" using set by (rule setting_layout)
  have so: "stack_ok H S c (fr # bs)" using st by (simp add: stack_in_memory_def)
  have "same_place fr ?fr" by (simp add: same_place_def)
  then have so': "stack_ok H S c (?fr # bs)" and rb: "root_block (last (?fr # bs)) (m_blocks m)"
    using same_place_stack [OF _ ok so] root_block_place st by (auto simp: stack_in_memory_def)
  have "frame_ok H S ?child"
    using part(2) set by (simp add: frame_ok_def tracker_fits_def strict_setting_def)
  moreover have "child_of H S ?fr ?child" using i t by (simp add: child_of_def)
  ultimately have "stack_ok H S c (?child # ?fr # bs)" using so' part(1) by simp
  moreover have "held H S fp ?child \<union> held H S fp ?fr = held H S fp fr"
  proof -
    have "held H S fp ?fr = held_parts H S fp ?s ?p (iset_elems b - {i})"
      using held_with_bits [of ?fr b1 H S fp] t by simp
    moreover have "held_parts H S fp ?s ?p (iset_elems b) =
        (if i \<in> iset_elems b then part_places H S fp ?s ?p i else {}) \<union> held_parts H S fp ?s ?p (iset_elems b - {i})"
    proof (cases "i \<in> iset_elems b")
      case True
      show ?thesis using held_parts_simps(2) [OF i, of fp ?p "iset_elems b - {i}", unfolded insert_Diff [OF True]] True by simp
    qed simp
    ultimately show ?thesis unfolding h child_held [OF lf] by simp
  qed
  ultimately show ?thesis using st rb by (auto simp: stack_in_memory_def)
qed

lemma part_sized:
  assumes "layout_fits H S fp" and "frame_ok H S fr" and "i < length (parts H S (fr_shape fr))"
  obtains sz where "vt_size (h_vt H (part_shape H S (fr_shape fr) i)) = Some sz"
proof -
  have *: "\<exists>k. vt_size (h_vt H (snd part)) = Some k" if "vt_size (h_vt H s) = Some n" "part \<in> set (parts H S s)" for s n part
  proof -
    have "\<forall>s n. vt_size (h_vt H s) = Some n \<longrightarrow> (\<forall>part \<in> set (parts H S s).
        \<exists>k. vt_size (h_vt H (snd part)) = Some k \<and> fst part + k \<le> n)"
      using assms(1) unfolding layout_fits_def by (elim conjE)
    with that show ?thesis by blast
  qed
  have "vt_size (h_vt H (fr_shape fr)) = Some (al_size (fr_allocated fr))" using assms(2) by (simp add: frame_ok_def)
  from * [OF this nth_mem [OF assms(3)]] show thesis using that by (auto simp: part_shape_def)
qed

lemma begin_struct_field_ok:
  assumes set: "strict_setting H S fp c" and st: "stack_in_memory H S fp c (fr # bs) m"
    and m: "run_log H fp (w_log w) mem_empty = Some m"
    and ty: "sh_ty (S (fr_shape fr)) = Ty_User (User_Struct s)" and i: "idx < length (st_fields s)"
    and j: "leads_to S c j (f_shape (st_fields s ! idx))"
  shows "body_ok H S fp c (enter_child H S (strict_partial c (fr # bs)) w (begin_nth_struct_field H S fr s idx j))"
proof -
  let ?n = "length (st_fields s)"
  have lf: "layout_fits H S fp" using set by (rule setting_layout)
  have ok: "frame_ok H S fr" using st stack_top by (auto simp: stack_in_memory_def)
  have il: "idx < length (parts H S (fr_shape fr))" using i ty by simp
  define bits where "bits = (case fr_tracker fr of Tr_Struct b ch \<Rightarrow> b
     | Tr_Scalar \<Rightarrow> if fr_is_init fr then iset_set_all (iset_new ?n) ?n else iset_new ?n | _ \<Rightarrow> iset_new ?n)"
  have inv: "iset_inv ?n bits \<and> held H S fp fr = held_parts H S fp (fr_shape fr) (fr_data fr) (iset_elems bits)"
    using ok
  proof (cases rule: frame_trackers)
    case scalar
    have "held_parts H S fp (fr_shape fr) (fr_data fr) (iset_elems (iset_set_all (iset_new ?n) ?n)) = region fp fr"
      using iset_set_all_spec(2) [OF iset_new_inv, of ?n] ty by (intro held_parts_all [OF lf]) simp_all
    then show ?thesis
      using scalar by (simp add: bits_def held_def tracker_held_def iset_new_inv iset_set_all_spec(1))
  next
    case (struct b ch s')
    then show ?thesis using ty by (simp add: bits_def held_def tracker_held_def)
  qed (use ty in simp)
  obtain b1 where b1: "iset_unset bits idx = Some b1" "iset_inv ?n b1" "iset_elems b1 = iset_elems bits - {idx}"
    using iset_unset_spec [OF conjunct1 [OF inv] i] by blast
  have g: "iset_get bits idx = Some (idx \<in> iset_elems bits)" using iset_get_spec [OF conjunct1 [OF inv] i] .
  obtain sz where sz: "vt_size (h_vt H (part_shape H S (fr_shape fr) idx)) = Some sz" using part_sized [OF lf ok il] .
  have part: "part_shape H S (fr_shape fr) idx = f_shape (st_fields s ! idx)"
    "part_ptr H S (fr_shape fr) (fr_data fr) idx = ptr_add (fr_data fr) (f_offset (st_fields s ! idx))"
    using part_of_struct [where S = S and s = "fr_shape fr", OF ty i] by simp_all
  let ?fr = "fr\<lparr>fr_tracker := Tr_Struct b1 (Some idx)\<rparr>"
  have ok': "frame_ok H S ?fr" using ok ty b1(2) by (simp add: frame_ok_def tracker_fits_def is_struct_ty_def)
  have t: "tracker_bits (Tr_Struct b1 (Some idx)) = Some b1" by (simp add: tracker_bits_def)
  have "stack_in_memory H S fp c (child_frame H S (part_ptr H S (fr_shape fr) (fr_data fr) idx)
      (part_shape H S (fr_shape fr) idx) sz idx j (idx \<in> iset_elems bits) # ?fr # bs) m"
    by (rule child_in_memory [OF set st t b1(3) conjunct2 [OF inv] ok' il _ sz]) (simp add: part j)
  from strict_partial_inv [OF m this] show ?thesis
    using i g b1(1) sz by (simp add: begin_nth_struct_field_def enter_child_def Let_def bits_def [symmetric] part)
qed

lemma begin_array_element_ok:
  assumes set: "strict_setting H S fp c" and st: "stack_in_memory H S fp c (fr # bs) m"
    and m: "run_log H fp (w_log w) mem_empty = Some m"
    and ty: "sh_ty (S (fr_shape fr)) = Ty_Sequence (Seq_Array t n)" and j: "leads_to S c j t"
  shows "body_ok H S fp c (enter_child H S (strict_partial c (fr # bs)) w (begin_nth_array_element H S fr t n idx j))"
proof -
  have lf: "layout_fits H S fp" using set by (rule setting_layout)
  have ok: "frame_ok H S fr" using st stack_top by (auto simp: stack_in_memory_def)
  have same: "strict_inv H S fp c (strict_partial c (fr # bs)) w" by (rule strict_partial_inv [OF m st])
  define start where "start = (case fr_tracker fr of Tr_Scalar \<Rightarrow> if fr_is_init fr then None else Some iset_default
     | Tr_Array b ch \<Rightarrow> Some b | _ \<Rightarrow> None)"
  consider "n \<le> idx \<or> 63 < n \<or> start = None" | bits where "idx < n" "n \<le> 63" "start = Some bits" by force
  then show ?thesis
  proof cases
    case 1
    then show ?thesis
      using same by (auto simp: begin_nth_array_element_def enter_child_def start_def [symmetric])
  next
    case (2 bits)
    have inv: "iset_inv n bits \<and> held H S fp fr = held_parts H S fp (fr_shape fr) (fr_data fr) (iset_elems bits)"
      using ok
    proof (cases rule: frame_trackers)
      case scalar
      have "iset_new n = iset_default" "iset_elems iset_default = {}"
        using iset_new_elems [of 0] 2(2) by (simp_all add: iset_new_def iset_default_def)
      then show ?thesis
        using scalar 2 iset_new_inv [of n] by (auto simp: start_def held_def tracker_held_def split: if_splits)
    next
      case (array b ch u k)
      then show ?thesis using ty 2(3) by (simp add: start_def held_def tracker_held_def)
    qed (use ty in simp)
    have il: "idx < length (parts H S (fr_shape fr))" using 2(1) ty by simp
    obtain b1 where b1: "iset_unset bits idx = Some b1" "iset_inv n b1" "iset_elems b1 = iset_elems bits - {idx}"
      using iset_unset_spec [OF conjunct1 [OF inv] 2(1)] by blast
    have g: "iset_get bits idx = Some (idx \<in> iset_elems bits)" using iset_get_spec [OF conjunct1 [OF inv] 2(1)] .
    have part: "part_shape H S (fr_shape fr) idx = t"
      "part_ptr H S (fr_shape fr) (fr_data fr) idx = ptr_add (fr_data fr) (size_or_0 H t * idx)"
      using part_of_array [where S = S and s = "fr_shape fr", OF ty 2(1)] by simp_all
    obtain sz where sz: "vt_size (h_vt H t) = Some sz" using part_sized [OF lf ok il] unfolding part .
    let ?fr = "fr\<lparr>fr_tracker := Tr_Array b1 (Some idx)\<rparr>"
    have ok': "frame_ok H S ?fr" using ok ty b1(2) 2(2) sz by (simp add: frame_ok_def tracker_fits_def)
    have t: "tracker_bits (Tr_Array b1 (Some idx)) = Some b1" by (simp add: tracker_bits_def)
    have "stack_in_memory H S fp c (child_frame H S (part_ptr H S (fr_shape fr) (fr_data fr) idx)
        (part_shape H S (fr_shape fr) idx) sz idx j (idx \<in> iset_elems bits) # ?fr # bs) m"
      by (rule child_in_memory [OF set st t b1(3) conjunct2 [OF inv] ok' il]) (simp_all add: part j sz)
    from strict_partial_inv [OF m this] show ?thesis
      using 2 g b1(1) sz
      by (simp add: begin_nth_array_element_def enter_child_def Let_def start_def [symmetric] part size_or_0_def)
  qed
qed

lemma begin_nth_field_ok:
  assumes set: "strict_setting H S fp c" and inv: "strict_inv H S fp c p w"
  shows "attempt_ok H S fp c (begin_nth_field H S idx p w)"
  unfolding begin_nth_field_def
proof (rule attempt_of_ok [OF set])
  from inv show "body_ok H S fp c (begin_nth_field_body H S idx p w)"
  proof (rule strict_cases)
    fix fr bs m
    assume p: "p = strict_partial c (fr # bs)" and m: "run_log H fp (w_log w) mem_empty = Some m"
      and st: "stack_in_memory H S fp c (fr # bs) m"
    have same: "strict_inv H S fp c (strict_partial c (fr # bs)) w" by (rule strict_partial_inv [OF m st])
    have top: "frame_ok H S fr" "leads_to S c (fr_type_plan fr) (fr_shape fr)"
      using st stack_top by (auto simp: stack_in_memory_def)
    have "body_ok H S fp c (begin_new_field H S idx (strict_partial c (fr # bs)) fr w)"
    proof (cases "\<exists>s. sh_ty (S (fr_shape fr)) = Ty_User (User_Struct s)")
      case True
      then obtain s where ty: "sh_ty (S (fr_shape fr)) = Ty_User (User_Struct s)" by blast
      show ?thesis
      proof (cases "idx < length (st_fields s)")
        case True
        obtain j where "struct_field_node_id c (fr_type_plan fr) idx = Some (Some j)"
          "leads_to S c j (f_shape (st_fields s ! idx))" using struct_child_node [OF set top(2) ty True] .
        with begin_struct_field_ok [OF set st m ty True] ty True show ?thesis
          by (simp add: begin_new_field_def expect_node_def)
      qed (use ty same in \<open>simp add: begin_new_field_def\<close>)
    next
      case nostruct: False
      show ?thesis
      proof (cases "\<exists>t n. sh_ty (S (fr_shape fr)) = Ty_Sequence (Seq_Array t n)")
        case True
        then obtain t n where ty: "sh_ty (S (fr_shape fr)) = Ty_Sequence (Seq_Array t n)" by blast
        obtain j where "list_item_node_id c (fr_type_plan fr) = Some (Some j)" "leads_to S c j t"
          using array_child_node [OF set top(2) ty] .
        with begin_array_element_ok [OF set st m ty] ty show ?thesis
          by (simp add: begin_new_field_def expect_node_def)
      next
        case False
        have "fr_tracker fr = Tr_Scalar" using top(1) False nostruct by (cases rule: frame_trackers) auto
        with False nostruct same show ?thesis
          by (auto simp: begin_new_field_def Let_def split: facet_type.splits user_type.splits sequence_type.splits)
      qed
    qed
    then show ?thesis by (simp add: begin_nth_field_body_def p)
  qed
qed

end
