(* ===== verification/Strict_Runs.thy ===== *)
theory Strict_Runs
  imports Strict_Build
begin

text \<open>
  Leaving a part, handing the value over, and whole runs in strict mode. A frame that is popped is
  complete, so its part is what the bit of its parent says; a built value holds exactly its places.
\<close>

section \<open>Checking the top frame\<close>

lemma on_top_ok:
  assumes set: "strict_setting H S fp c" and m: "run_log H fp (w_log w) mem_empty = Some m"
    and st: "stack_in_memory H S fp c (fr # bs) m"
    and f: "f fr w = Some (e, fr', w')" "does H S fp fr w fr' w'" "frame_ok H S fr'"
    and failed: "\<And>p w e. strict_inv H S fp c p w \<Longrightarrow> Q (fails H S p w e)"
    and k: "\<And>m'. e = None \<Longrightarrow> run_log H fp (w_log w') mem_empty = Some m' \<Longrightarrow> stack_in_memory H S fp c (fr' # bs) m' \<Longrightarrow>
        Q (k (strict_partial c (fr' # bs)) w')"
  shows "Q (on_top H S f (strict_partial c (fr # bs)) w k)"
proof -
  obtain m' where m': "runs H fp w m w' m'" "stack_in_memory H S fp c (fr' # bs) m'"
    using top_step [OF setting_layout [OF set] st f(2,3)] .
  have log: "run_log H fp (w_log w') mem_empty = Some m'" by (rule runs_log [OF m'(1) m])
  show ?thesis
    using f(1) failed [OF strict_partial_inv [OF log m'(2)]] k [OF _ log m'(2)] by (cases e) (simp_all add: on_top_def)
qed

lemma frame_plans_fit:
  assumes set: "strict_setting H S fp c" and ok: "frame_ok H S fr" and node: "leads_to S c (fr_type_plan fr) (fr_shape fr)"
  shows "frame_plans c fr = Some None \<or>
    (\<exists>ps st. frame_plans c fr = Some (Some ps) \<and> sh_ty (S (fr_shape fr)) = Ty_User (User_Struct st)
       \<and> (\<forall>p \<in> set ps. plan_fits H S c (st_fields st) p) \<and> fp_index ` set ps = {..<length (st_fields st)}
       \<and> length ps = length (st_fields st))"
proof -
  obtain nd where nd: "node_at c (fr_type_plan fr) = Some nd" "S (nd_shape nd) = S (fr_shape fr)" "node_linked S c nd"
    using leads_node [OF set node] .
  show ?thesis
  proof (cases "nd_kind nd")
    case (Nk_Struct sp)
    then have "\<not> is_backref nd" by (simp add: is_backref_def)
    with nd(2,3) Nk_Struct have l: "kind_linked S c (S (fr_shape fr)) (Nk_Struct sp)" by (simp add: node_linked_def Let_def)
    let ?fs = "st_fields (sp_struct_def sp)"
    from l obtain d ps where ps: "plan_fields_of c (sp_fields sp) = Some ps" "length ps = length ?fs"
      "\<forall>i < length ?fs. field_linked S c d i (?fs ! i) (ps ! i)"
      by (auto simp: kind_linked_def fields_linked_def)
    have plan: "fp_index (ps ! i) = i \<and> plan_fits H S c ?fs (ps ! i)" if i: "i < length ?fs" for i
    proof -
      from ps(3) i have fl: "field_linked S c d i (?fs ! i) (ps ! i)" by blast
      then have p: "ps ! i = create_field_plan i (?fs ! i) (fp_type_node (ps ! i))
          (determine_fill_rule S (?fs ! i) d) (fp_validators (ps ! i))"
        unfolding field_linked_def by blast
      obtain ks where "plan_validators_of c (fp_validators (ps ! i)) = Some ks"
        using fl unfolding field_linked_def by blast
      moreover from this have "run_validators H container name data ks w \<noteq> None" for container name data w
        using set unfolding strict_setting_def validators_answer_def by blast
      moreover have "fp_index (ps ! i) = i" "fp_offset (ps ! i) = f_offset (?fs ! i)"
        "fp_field_shape (ps ! i) = f_shape (?fs ! i)" "fp_fill_rule (ps ! i) = determine_fill_rule S (?fs ! i) d"
        by (subst p, simp add: create_field_plan_def)+
      ultimately show ?thesis
        using i by (auto simp: plan_fits_def determine_fill_rule_def Let_def split: option.splits default_source.splits if_splits)
    qed
    then have "fp_index ` set ps = {..<length ?fs}"
      using ps(2) by (auto simp: set_conv_nth image_iff) (metis)
    moreover have "\<forall>p \<in> set ps. plan_fits H S c ?fs p" using plan ps(2) by (auto simp: in_set_conv_nth)
    moreover have "frame_plans c fr = Some (Some ps)" by (simp add: frame_plans_def nd(1) Nk_Struct ps(1))
    ultimately show ?thesis using l ps(2) by (auto simp: kind_linked_def)
  next
    case (Nk_Enum ep)
    then have "\<not> is_backref nd" by (simp add: is_backref_def)
    with nd(2,3) Nk_Enum have l: "kind_linked S c (S (fr_shape fr)) (Nk_Enum ep)" by (simp add: node_linked_def Let_def)
    then obtain ms where "plan_variants_of c (ep_variants ep) = Some ms" by (auto simp: kind_linked_def)
    with ok nd(1) Nk_Enum show ?thesis
      by (cases rule: frame_trackers) (simp_all add: frame_plans_def)
  qed (simp_all add: frame_plans_def nd(1))
qed

lemma check_top_ok:
  assumes set: "strict_setting H S fp c" and m: "run_log H fp (w_log w) mem_empty = Some m"
    and st: "stack_in_memory H S fp c (fr # bs) m"
    and failed: "\<And>p w e. strict_inv H S fp c p w \<Longrightarrow> Q (fails H S p w e)"
    and k: "\<And>fr' w' m'. run_log H fp (w_log w') mem_empty = Some m' \<Longrightarrow> stack_in_memory H S fp c (fr' # bs) m' \<Longrightarrow>
        complete H S fr' \<Longrightarrow> Q (k (strict_partial c (fr' # bs)) w')"
  shows "Q (check_top H S (strict_partial c (fr # bs)) w k)"
proof -
  have lf: "layout_fits H S fp" using set by (rule setting_layout)
  have ok: "frame_ok H S fr" and node: "leads_to S c (fr_type_plan fr) (fr_shape fr)"
    using st stack_top by (auto simp: stack_in_memory_def)
  consider "frame_plans c fr = Some None"
    | ps st where "frame_plans c fr = Some (Some ps)" "sh_ty (S (fr_shape fr)) = Ty_User (User_Struct st)"
       "\<forall>p \<in> set ps. plan_fits H S c (st_fields st) p" "fp_index ` set ps = {..<length (st_fields st)}"
       "length ps = length (st_fields st)"
    using frame_plans_fit [OF set ok node] by blast
  then show ?thesis
  proof cases
    case 1
    obtain e fr1 w1 where f: "fill_defaults H S fr w = Some (e, fr1, w1)" "does H S fp fr w fr1 w1" "frame_ok H S fr1"
      using fill_defaults_does [OF lf ok] by blast
    have "Q (fill_and_require_top H S (strict_partial c (fr # bs)) w k)"
      unfolding fill_and_require_top_def
    proof (rule on_top_ok [where f = "fill_defaults H S" and Q = Q, OF set m st f failed])
      fix m1
      assume m1: "run_log H fp (w_log w1) mem_empty = Some m1" "stack_in_memory H S fp c (fr1 # bs) m1"
      obtain e2 where r: "require_full_initialization H S fr1 w1 = Some (e2, fr1, w1)" "e2 = None \<longleftrightarrow> complete H S fr1"
        using require_complete [OF f(3)] by blast
      show "Q (on_top H S (require_full_initialization H S) (strict_partial c (fr1 # bs)) w1 k)"
        by (rule on_top_ok [where f = "require_full_initialization H S" and Q = Q, OF set m1 r(1) does_refl f(3) failed]) (assumption, rule k, assumption, assumption, use r(2) in blast)
    qed
    then show ?thesis by (simp add: check_top_def 1)
  next
    case (2 ps s)
    obtain e fr1 w1 where f: "fill_and_require_fields H S c ps (length ps) fr w = Some (e, fr1, w1)"
      "does H S fp fr w fr1 w1" "frame_ok H S fr1" "e = None \<longrightarrow> complete H S fr1"
      using fill_and_require_does [OF lf ok 2(2-5)] by blast
    have "Q (on_top H S (fill_and_require_fields H S c ps (length ps)) (strict_partial c (fr # bs)) w k)"
      by (rule on_top_ok [where f = "fill_and_require_fields H S c ps (length ps)" and Q = Q, OF set m st f(1-3) failed]) (assumption, rule k, assumption, assumption, use f(4) in blast)
    then show ?thesis by (simp add: check_top_def 2(1))
  qed
qed

section \<open>Leaving a part\<close>

lemma reclaim_in_memory:
  assumes set: "strict_setting H S fp c" and st: "stack_in_memory H S fp c (fr # parent # bs) m"
    and "complete H S fr" and "fr_ownership fr = Own_Field i" and "tracker_bits (fr_tracker parent) = Some bits"
    and t: "iset_set bits i = Some bits'" "tracker_bits t = Some bits'"
      "tracker_fits H S (fr_shape parent) t \<longleftrightarrow> iset_inv (length (parts H S (fr_shape parent))) bits'"
  shows "stack_in_memory H S fp c (parent\<lparr>fr_tracker := t\<rparr> # bs) m"
proof -
  let ?p = "parent\<lparr>fr_tracker := t\<rparr>"
  have lf: "layout_fits H S fp" using set by (rule setting_layout)
  have so: "frame_ok H S fr" "child_of H S parent fr" "stack_ok H S c (parent # bs)" and okp: "frame_ok H S parent"
    using st stack_top by (auto simp: stack_in_memory_def)
  have i: "i < length (parts H S (fr_shape parent))"
    and reg: "region fp fr = part_places H S fp (fr_shape parent) (fr_data parent) i"
    using so(2) assms(4) by (auto simp: child_of_def)
  have "iset_inv (length (parts H S (fr_shape parent))) bits"
    using okp assms(5) by (auto simp: frame_ok_def tracker_fits_def tracker_bits_def split: tracker.splits)
  from iset_set_spec [OF this i] t(1) have b: "iset_inv (length (parts H S (fr_shape parent))) bits'"
    "iset_elems bits' = insert i (iset_elems bits)" by auto
  have ok: "frame_ok H S ?p" using okp t(3) b(1) by (simp add: frame_ok_def)
  have sp: "same_place parent ?p" by (simp add: same_place_def)
  have "held H S fp ?p = held_parts H S fp (fr_shape parent) (fr_data parent) (insert i (iset_elems bits))"
    using held_with_bits [of ?p bits' H S fp] t(2) b(2) by simp
  also have "\<dots> = region fp fr \<union> held H S fp parent"
    using held_parts_simps(2) [OF i] held_with_bits [OF assms(5), of H S fp] unfolding reg by simp
  also have "region fp fr = held H S fp fr" using complete_holds_all [OF lf so(1) assms(3)] by simp
  finally show ?thesis
    using st same_place_stack [OF sp ok so(3)] root_block_place [OF sp, of bs] by (auto simp: stack_in_memory_def)
qed

lemma reclaim_field_in_memory:
  assumes set: "strict_setting H S fp c" and st: "stack_in_memory H S fp c (fr # parent # bs) m"
    and c: "complete H S fr" and own: "fr_ownership fr = Own_Field i"
  obtains parent' where "reclaim_field i True parent = Some parent'" and "stack_in_memory H S fp c (parent' # bs) m"
proof -
  have so: "child_of H S parent fr" and okp: "frame_ok H S parent"
    using st stack_top by (auto simp: stack_in_memory_def)
  obtain bits where b: "i < length (parts H S (fr_shape parent))" "tracker_bits (fr_tracker parent) = Some bits"
    using so own by (auto simp: child_of_def)
  have "iset_inv (length (parts H S (fr_shape parent))) bits"
    using okp b(2) by (auto simp: frame_ok_def tracker_fits_def tracker_bits_def split: tracker.splits)
  from iset_set_spec [OF this b(1)] obtain bits' where b': "iset_set bits i = Some bits'" by blast
  show thesis
  proof (cases "fr_tracker parent")
    case (Tr_Struct s k)
    have "stack_in_memory H S fp c (parent\<lparr>fr_tracker := Tr_Struct bits' None\<rparr> # bs) m"
      by (rule reclaim_in_memory [OF set st c own b(2) b'])
        (use okp Tr_Struct in \<open>simp_all add: tracker_bits_def frame_ok_def tracker_fits_def\<close>)
    with Tr_Struct b(2) b' show thesis by (intro that) (auto simp: reclaim_field_def tracker_bits_def Let_def)
  next
    case (Tr_Array s k)
    have "stack_in_memory H S fp c (parent\<lparr>fr_tracker := Tr_Array bits' None\<rparr> # bs) m"
      by (rule reclaim_in_memory [OF set st c own b(2) b'])
        (use okp Tr_Array in \<open>auto simp: tracker_bits_def frame_ok_def tracker_fits_def\<close>)
    with Tr_Array b(2) b' show thesis by (intro that) (auto simp: reclaim_field_def tracker_bits_def Let_def)
  qed (use b(2) in \<open>simp_all add: tracker_bits_def\<close>)
qed

lemma end_pop_ok:
  assumes set: "strict_setting H S fp c" and m: "run_log H fp (w_log w) mem_empty = Some m"
    and st: "stack_in_memory H S fp c (fr # parent # bs) m" and comp: "complete H S fr"
  shows "body_ok H S fp c (end_pop H S (strict_partial c (fr # parent # bs)) w)"
proof -
  have ok: "frame_ok H S fr" and child: "child_of H S parent fr" using st by (simp_all add: stack_in_memory_def)
  obtain i where own: "fr_ownership fr = Own_Field i" using child by (auto simp: child_of_def)
  have "tracker_bits (fr_tracker parent) \<noteq> None" using child by (auto simp: child_of_def)
  then have noconv: "\<not> needs_conversion S parent fr"
    by (auto simp: needs_conversion_def tracker_bits_def split: tracker.splits)
  obtain parent' where p': "reclaim_field i True parent = Some parent'" "stack_in_memory H S fp c (parent' # bs) m"
    using reclaim_field_in_memory [OF set st comp own] .
  obtain e where r: "require_full_initialization H S fr w = Some (e, fr, w)" "e = None"
    using require_complete [OF ok] comp by blast
  have "end_pop H S (strict_partial c (fr # parent # bs)) w = B_Ok (strict_partial c (parent' # bs)) w"
    using ok noconv own complete_stays [OF ok comp] r p'(1)
    by (simp add: end_pop_def Let_def frame_ok_def end_popped_def end_field_def)
  with strict_partial_inv [OF m p'(2)] show ?thesis by simp
qed

lemma partial_end_ok:
  assumes set: "strict_setting H S fp c" and inv: "strict_inv H S fp c p w"
  shows "attempt_ok H S fp c (partial_end H S p w)"
  unfolding partial_end_def
proof (rule attempt_of_ok [OF set])
  from inv show "body_ok H S fp c (end_body H S p w)"
  proof (rule strict_cases)
    fix fr bs m
    assume p: "p = strict_partial c (fr # bs)" and m: "run_log H fp (w_log w) mem_empty = Some m"
      and st: "stack_in_memory H S fp c (fr # bs) m"
    have ok: "frame_ok H S fr" using st stack_top by (auto simp: stack_in_memory_def)
    show ?thesis
    proof (cases "fast_path p")
      case None
      have "body_ok H S fp c (end_slow H S p w)"
      proof (cases bs)
        case Nil
        have "\<not> needs_slice_conversion p"
          using ok p by (cases rule: frame_trackers) (simp_all add: needs_slice_conversion_def)
        then show ?thesis using strict_partial_inv [OF m st] p Nil by (simp add: end_slow_def)
      next
        case (Cons parent rest)
        have "\<not> needs_slice_conversion p"
          using ok p by (cases rule: frame_trackers) (simp_all add: needs_slice_conversion_def)
        moreover have "body_ok H S fp c (check_top H S (strict_partial c (fr # parent # rest)) w (end_pop H S))"
          by (rule check_top_ok [where Q = "body_ok H S fp c", OF set m]) (use st Cons end_pop_ok [OF set] in auto)
        ultimately show ?thesis using p Cons by (simp add: end_slow_def)
      qed
      with None show ?thesis by (simp add: end_body_def)
    next
      case (Some r)
      obtain bits idx where r: "r = (bits, idx)" by (cases r)
      from Some p r obtain parent rest ch where bs: "bs = parent # rest" and fr: "fr_tracker fr = Tr_Scalar" "fr_is_init fr"
        "fr_ownership fr = Own_Field idx" and par: "fr_tracker parent = Tr_Struct bits ch"
        by (cases bs) (auto simp: fast_path_def split: tracker.splits bool.splits frame_ownership.splits if_splits)
      have comp: "complete H S fr" using fr by (simp add: complete_def)
      obtain parent' where p': "reclaim_field idx True parent = Some parent'" "stack_in_memory H S fp c (parent' # rest) m"
        using reclaim_field_in_memory [OF set st [unfolded bs] comp fr(3)] .
      then obtain bits' where b': "iset_set bits idx = Some bits'" "parent' = parent\<lparr>fr_tracker := Tr_Struct bits' None\<rparr>"
        using par by (auto simp: reclaim_field_def Let_def)
      have "end_body H S p w = B_Ok (strict_partial c (parent' # rest)) w"
        using Some r b' p bs by (simp add: end_body_def set_top_tracker_def)
      with strict_partial_inv [OF m p'(2)] show ?thesis by simp
    qed
  qed
qed

section \<open>Fields by name, and their defaults\<close>

lemma failed_ok:
  assumes "strict_setting H S fp c" and "strict_inv H S fp c p w"
  shows "attempt_ok H S fp c (attempt_of H S (fails H S p w e))"
  using assms by (intro attempt_of_ok) simp_all

lemma begin_field_ok:
  assumes set: "strict_setting H S fp c" and inv: "strict_inv H S fp c p w"
  shows "attempt_ok H S fp c (begin_field H S name p w)"
proof -
  obtain fr where "top_frame p = Some fr" using strict_top [OF inv] by blast
  then show ?thesis
    using failed_ok [OF set inv] begin_nth_field_ok [OF set inv]
    by (simp add: begin_field_def split: sum.splits option.splits)
qed

lemma set_nth_field_to_default_ok:
  assumes set: "strict_setting H S fp c" and inv: "strict_inv H S fp c p w"
  shows "attempt_ok H S fp c (set_nth_field_to_default H S idx p w)"
proof -
  obtain fr where top: "top_frame p = Some fr" using strict_top [OF inv] by blast
  have put: "attempt_ok H S fp c (and_then (and_then (begin_nth_field H S idx p w) (set_from_function H S f)) (partial_end H S))" for f
    by (intro and_then_ok begin_nth_field_ok [OF set inv] set_from_function_ok [OF set] partial_end_ok [OF set])
  have "set_default H S = set_from_function H S (default_of H S)" by (simp add: set_default_def fun_eq_iff)
  with top put failed_ok [OF set inv] show ?thesis
    by (simp add: set_nth_field_to_default_def Let_def split: sum.splits option.splits default_source.splits)
qed

section \<open>Runs\<close>

datatype build_op =
  Op_Nth_Field nat | Op_Field string | Op_Set ptr sref | Op_Set_Default | Op_Parse string
| Op_Field_Default nat | Op_End

fun run_op :: "host \<Rightarrow> shapes \<Rightarrow> build_op \<Rightarrow> partial \<Rightarrow> world \<Rightarrow> attempt" where
  "run_op H S (Op_Nth_Field idx) p w = begin_nth_field H S idx p w"
| "run_op H S (Op_Field name) p w = begin_field H S name p w"
| "run_op H S (Op_Set src_value src) p w = set_shape H S src_value src p w"
| "run_op H S Op_Set_Default p w = set_default H S p w"
| "run_op H S (Op_Parse input) p w = parse_from_str H S input p w"
| "run_op H S (Op_Field_Default idx) p w = set_nth_field_to_default H S idx p w"
| "run_op H S Op_End p w = partial_end H S p w"

fun run_ops :: "host \<Rightarrow> shapes \<Rightarrow> build_op list \<Rightarrow> partial \<Rightarrow> world \<Rightarrow> attempt" where
  "run_ops H S [] p w = Done p w"
| "run_ops H S (op # ops) p w = and_then (run_op H S op p w) (run_ops H S ops)"

lemma run_op_ok:
  assumes set: "strict_setting H S fp c" and inv: "strict_inv H S fp c p w"
  shows "attempt_ok H S fp c (run_op H S op p w)"
proof (cases op)
  case Op_Set_Default
  then show ?thesis using set_from_function_ok [OF set inv] by (simp add: set_default_def)
qed (simp_all add: begin_nth_field_ok [OF set inv] begin_field_ok [OF set inv] set_shape_ok [OF set inv]
    parse_from_str_ok [OF set inv] set_nth_field_to_default_ok [OF set inv] partial_end_ok [OF set inv])

lemma run_ops_ok:
  assumes set: "strict_setting H S fp c" and "strict_inv H S fp c p w"
  shows "attempt_ok H S fp c (run_ops H S ops p w)"
  using assms(2)
proof (induction ops arbitrary: p w)
  case (Cons op ops)
  then show ?case by (simp add: and_then_ok [OF run_op_ok [OF set]])
qed simp

lemma alloc_ok:
  assumes set: "strict_setting H S fp c" and root: "leads_to S c (pc_root c) s"
    and a: "alloc_with_plan H S c world_start = Some (Some (p, w))"
  shows "strict_inv H S fp c p w"
proof -
  obtain nd where nd: "node_at c (pc_root c) = Some nd" "S (nd_shape nd) = S s" using leads_node [OF set root] .
  let ?s = "nd_shape nd"
  obtain n where n: "vt_size (h_vt H ?s) = Some n"
    using a nd(1) by (auto simp: alloc_with_plan_def create_partial_internal_def Let_def)
  obtain data w1 where al: "alloc_for_layout n world_start = (data, w1)" by fastforce
  let ?fr = "frame_new S data (allocated_new ?s n) Owned (pc_root c)"
  have p: "p = strict_partial c [?fr]" "w = w1"
    using a nd(1) n al by (simp_all add: alloc_with_plan_def create_partial_internal_def Let_def strict_partial_def)
  have pl: "fr_shape ?fr = ?s" "fr_data ?fr = data" "al_size (fr_allocated ?fr) = n" "fr_tracker ?fr = Tr_Scalar"
    "fr_type_plan ?fr = pc_root c" "fr_ownership ?fr = Owned" "\<not> fr_custom ?fr"
    by (simp_all add: frame_new_def allocated_new_def)
  have lf: "layout_fits H S fp" using set by (rule setting_layout)
  have ok: "frame_ok H S ?fr"
    using pl n set by (simp add: frame_ok_def tracker_fits_def strict_setting_def)
  have lead: "leads_to S c (fr_type_plan ?fr) (fr_shape ?fr)" using root nd(2) by (simp add: pl leads_to_def)
  have h: "held H S fp ?fr = {}"
  proof (cases "fr_is_init ?fr")
    case True
    then obtain st where "sh_ty (S ?s) = Ty_User (User_Struct st)" "st_fields st = []"
      by (auto simp: frame_new_def allocated_new_def split: facet_type.splits user_type.splits)
    then show ?thesis using whole_is_parts [OF lf, of ?s data] by (simp add: held_def tracker_held_def pl)
  qed (simp add: held_def tracker_held_def pl)
  have "\<exists>m. run_log H fp (w_log w1) mem_empty = Some m \<and> m_held m = {} \<and> root_block ?fr (m_blocks m)"
  proof (cases "n = 0")
    case True
    with al have "data = Dangling" "w1 = world_start" by (simp_all add: alloc_for_layout_def)
    with True show ?thesis by (simp add: world_start_def mem_empty_def root_block_def frame_new_def allocated_new_def)
  next
    case False
    with al have "data = Ptr 0 0" "w_log w1 = [Ef_Alloc (Ptr 0 0) n]"
      by (auto simp: alloc_for_layout_def world_start_def Let_def emit_def)
    with False show ?thesis
      by (simp add: run_effect_def mem_alloc_def mem_empty_def root_block_def frame_new_def allocated_new_def)
  qed
  then obtain m where "run_log H fp (w_log w1) mem_empty = Some m" "stack_in_memory H S fp c [?fr] m"
    using ok lead h by (auto simp: stack_in_memory_def pl)
  then show ?thesis unfolding p by (rule strict_partial_inv)
qed

section \<open>Handing the value over\<close>

text \<open>A built value holds exactly its places, and gives everything back when it is dropped.\<close>

definition built_ok :: "host \<Rightarrow> footprint \<Rightarrow> build_outcome \<Rightarrow> bool" where
  "built_ok H fp r \<longleftrightarrow>
     (case r of
        Bd_Panic \<Rightarrow> False
      | Bd_Failed e path w \<Rightarrow> run_log H fp (w_log w) mem_empty = Some mem_empty
      | Bd_Done hv w \<Rightarrow>
          (\<exists>g. hv_guard hv = Some g \<and>
             map_option m_held (run_log H fp (w_log w) mem_empty) = Some (places fp (hv_shape hv) (gd_ptr g)))
          \<and> run_log H fp (w_log (heap_value_drop H hv w)) mem_empty = Some mem_empty)"

lemma build_ok:
  assumes set: "strict_setting H S fp c" and inv: "strict_inv H S fp c p w"
  shows "built_ok H fp (build H S p w)"
proof -
  have lf: "layout_fits H S fp" using set by (rule setting_layout)
  have failed: "built_ok H fp (failed_build H S e path p w)" if "strict_inv H S fp c p w" for e path p w
    using strict_drop [OF lf that] by (auto simp: failed_build_def built_ok_def)
  let ?msg = "''Partial::build() expects a single frame - call end() until that's the case''"
  from inv show ?thesis
  proof (rule strict_cases)
    fix fr bs m
    assume p: "p = strict_partial c (fr # bs)" and m: "run_log H fp (w_log w) mem_empty = Some m"
      and st: "stack_in_memory H S fp c (fr # bs) m"
    show ?thesis
    proof (cases "bs = []")
      case False
      then show ?thesis using failed [OF inv] p by (simp add: build_def finish_value_def fails_def)
    next
      case True
      define good where "good = (\<lambda>b. case b of B_Panic \<Rightarrow> False | B_Fail e path p w \<Rightarrow> strict_inv H S fp c p w
        | B_Ok p w \<Rightarrow> (\<exists>fr m. p = strict_partial c [fr] \<and> run_log H fp (w_log w) mem_empty = Some m
            \<and> stack_in_memory H S fp c [fr] m \<and> complete H S fr))"
      have "good (finish_value H S ?msg p w)"
        unfolding finish_value_def
      proof (simp add: p True, rule check_top_ok [where Q = good, OF set m])
        show "stack_in_memory H S fp c (fr # []) m" using st True by simp
        show "good (fails H S p w e)" if "strict_inv H S fp c p w" for p w e
          using that by (simp add: good_def fails_def)
        fix fr' and w' :: world and m'
        assume a: "run_log H fp (w_log w') mem_empty = Some m'" "stack_in_memory H S fp c [fr'] m'" "complete H S fr'"
        then have "strict_inv H S fp c (strict_partial c [fr']) w'" by (intro strict_partial_inv)
        with a show "good (case top_frame (strict_partial c [fr']) of None \<Rightarrow> B_Panic
          | Some fr \<Rightarrow> (case h_invariants H (w_log w') (fr_shape fr) (fr_data fr) of
               Some (s, m) \<Rightarrow> fails H S (strict_partial c [fr']) w' (Ek_User_Invariant m s)
             | None \<Rightarrow> B_Ok (strict_partial c [fr']) w'))"
          by (auto simp: good_def fails_def split: option.splits)
      qed
      then show ?thesis
      proof (cases "finish_value H S ?msg p w")
        case (B_Ok p' w')
        then obtain fr' m' where p': "p' = strict_partial c [fr']" and m': "run_log H fp (w_log w') mem_empty = Some m'"
          and st': "stack_in_memory H S fp c [fr'] m'" and comp: "complete H S fr'"
          using \<open>good _\<close> by (auto simp: good_def)
        have ok: "frame_ok H S fr'" and own: "fr_ownership fr' = Owned" and h: "m_held m' = held H S fp fr'"
          and rb: "root_block fr' (m_blocks m')" using st' by (simp_all add: stack_in_memory_def)
        have n: "vt_size (h_vt H (fr_shape fr')) = Some (al_size (fr_allocated fr'))" using ok by (simp add: frame_ok_def)
        have hr: "m_held m' = region fp fr'" using h complete_holds_all [OF lf ok comp] by simp
        let ?hv = "\<lparr>hv_guard = Some \<lparr>gd_ptr = fr_data fr', gd_size = al_size (fr_allocated fr'), gd_should_dealloc = True\<rparr>,
             hv_shape = fr_shape fr'\<rparr>"
        have "partial_drop H S ((pop_frame p')\<lparr>pt_state := Built\<rparr>) w' = Some w'"
          unfolding p' by (simp add: strict_partial_def pop_frame_def set_frames_def partial_drop_def stored_frames_def
              frames_def deepest_first_def drop_stack_def)
        then have b: "build H S p w = Bd_Done ?hv w'"
          unfolding build_def B_Ok p' by (simp add: n own needs_dealloc_def Let_def)
        have "run_log H fp (w_log (heap_value_drop H ?hv w')) mem_empty = Some mem_empty"
        proof -
          let ?w = "call_drop_in_place H (fr_shape fr') (fr_data fr') w'"
          have ins: "inside H (fr_shape fr') (fr_data fr') m'" using top_inside [OF lf st'] .
          have "runs H fp w' (m'\<lparr>m_held := region fp fr'\<rparr>) ?w (m'\<lparr>m_held := region fp fr' - region fp fr'\<rparr>)"
            by (rule runs_drop [OF lf ins]) simp
          then have d: "runs H fp w' m' ?w (m'\<lparr>m_held := {}\<rparr>)" using hr by (cases m') simp
          have "runs H fp ?w (m'\<lparr>m_held := {}\<rparr>) (deallocate H (fr_allocated fr') (fr_data fr') ?w)
              (m'\<lparr>m_held := {}, m_blocks := {}\<rparr>)"
            by (rule runs_dealloc_root [OF ok]) (simp_all add: rb)
          from runs_log [OF runs_trans [OF d this] m'] show ?thesis
            using n by (cases m') (simp add: heap_value_drop_def guard_drop_def deallocate_def mem_empty_def split: if_splits)
        qed
        with m' hr b show ?thesis by (simp add: built_ok_def)
      next
        case (B_Fail e path p' w')
        then show ?thesis using failed \<open>good _\<close> by (simp add: good_def build_def)
      qed (simp_all add: good_def)
    qed
  qed
qed

end
