(* ===== verification/Build_Samples.thy ===== *)
theory Build_Samples
  imports Plan_Samples Strict_Runs
begin

text \<open>
  A struct of a string and an array of two strings, its plan, and what the host offers for it: the
  concrete setting in which the properties of building values are applied.
\<close>

section \<open>Checking a plan\<close>

definition serves_at :: "shapes \<Rightarrow> plan_core \<Rightarrow> nat \<Rightarrow> bool" where
  "serves_at S c n \<longleftrightarrow>
     (case node_at c (of_nat n) of
        None \<Rightarrow> True
      | Some nd \<Rightarrow>
          (case sh_ty (S (nd_shape nd)) of
             Ty_User (User_Struct st) \<Rightarrow>
               list_all (\<lambda>k. case struct_field_node_id c (of_nat n) k of Some (Some j) \<Rightarrow> True | _ \<Rightarrow> False)
                 [0..<length (st_fields st)]
           | Ty_Sequence (Seq_Array t l) \<Rightarrow>
               (case list_item_node_id c (of_nat n) of Some (Some j) \<Rightarrow> True | _ \<Rightarrow> False)
           | _ \<Rightarrow> True))"

lemma serves_by_check:
  assumes "list_all (serves_at S c) [0..<length (pc_nodes c)]"
  shows "plan_serves S c"
  unfolding plan_serves_def
proof (intro allI impI)
  fix i nd
  assume at: "node_at c i = Some nd"
  then have "unat i < length (pc_nodes c)" by (simp add: node_at_def arena_get_def nth_opt_eq_Some)
  then have here: "serves_at S c (unat i)" using assms by (simp add: list_all_iff)
  have i: "of_nat (unat i) = i" by simp
  have here: "case sh_ty (S (nd_shape nd)) of
      Ty_User (User_Struct st) \<Rightarrow>
        list_all (\<lambda>k. case struct_field_node_id c i k of Some (Some j) \<Rightarrow> True | _ \<Rightarrow> False) [0..<length (st_fields st)]
    | Ty_Sequence (Seq_Array t l) \<Rightarrow> (case list_item_node_id c i of Some (Some j) \<Rightarrow> True | _ \<Rightarrow> False)
    | _ \<Rightarrow> True"
    using here unfolding serves_at_def i at option.case .
  show "case sh_ty (S (nd_shape nd)) of
      Ty_User (User_Struct st) \<Rightarrow> \<forall>k < length (st_fields st). \<exists>j. struct_field_node_id c i k = Some (Some j)
    | Ty_Sequence (Seq_Array t n) \<Rightarrow> \<exists>j. list_item_node_id c i = Some (Some j) | _ \<Rightarrow> True"
  proof (cases "sh_ty (S (nd_shape nd))")
    case (Ty_User u)
    show ?thesis
    proof (cases u)
      case (User_Struct st)
      have "\<exists>j. r = Some (Some j)" if "case r of Some (Some j) \<Rightarrow> True | _ \<Rightarrow> False" for r :: "node_id option option"
        using that by (auto split: option.splits)
      with here show ?thesis by (simp add: Ty_User User_Struct list_all_iff)
    qed (simp_all add: Ty_User)
  next
    case (Ty_Sequence q)
    show ?thesis using here by (cases q) (auto simp: Ty_Sequence split: option.splits)
  qed simp_all
qed

section \<open>The types\<close>

definition build_S :: shapes where
  "build_S r =
     (if r = 0 then (scalar_shape ST_String ''String'')\<lparr>sh_default_in_place := Some 1, sh_parse := Some 2\<rparr>
      else if r = 1 then opaque_shape\<lparr>sh_id := Tid_Other 51, sh_ty := Ty_Sequence (Seq_Array 0 2), sh_def := Def_Array 0 2\<rparr>
      else if r = 2 then struct_shape 52 ''Entry''
        [plain_field 1 ''name'' 0, (plain_field 2 ''pair'' 1)\<lparr>f_offset := 24\<rparr>]
      else opaque_shape)"

definition plain_vtab :: vtab where
  "plain_vtab = \<lparr>vt_size = None, vt_default_ok = False, vt_has_drop = False, vt_list_push = False,
     vt_list_reserve = False, vt_list_init = False, vt_known = None, vt_new_into = False,
     vt_borrow_promote = False, vt_slice_builder = False, vt_set_datetime = False, vt_parse_bytes = False\<rparr>"

definition build_H :: host where
  "build_H = \<lparr>
     h_vt = (\<lambda>s. if s = 0 then plain_vtab\<lparr>vt_size := Some 24, vt_default_ok := True, vt_has_drop := True\<rparr>
        else if s = 1 then plain_vtab\<lparr>vt_size := Some 48, vt_has_drop := True\<rparr>
        else if s = 2 then plain_vtab\<lparr>vt_size := Some 72, vt_has_drop := True\<rparr>
        else plain_vtab),
     h_str_shape = 90, h_string_shape = 0, h_unit_shape = 91, h_try_from = (\<lambda>es. Tf_Unsupported),
     h_convert_in = (\<lambda>es. Inl []), h_parse = (\<lambda>es. True), h_list_len = (\<lambda>es p. 0),
     h_option_value = (\<lambda>es p. None), h_dyn_is_object = (\<lambda>es p. False), h_object_get_mut = (\<lambda>es p n. None),
     h_value_at = (\<lambda>es p. Val_Other 0), h_invariants = (\<lambda>es s p. None),
     h_regex = None, h_call = (\<lambda>f v. Inr ())\<rparr>"

definition build_fp :: footprint where
  "build_fp s = (if s = 0 then {8} else if s = 1 then {8, 32} else if s = 2 then {8, 32, 56} else {})"

definition build_plan :: plan_core where
  "build_plan = (case build_uncached build_S 10 2 of Ok c \<Rightarrow> c | _ \<Rightarrow> plan_empty)"

lemma build_plan_built: "build_uncached build_S 10 2 = Ok build_plan"
  by code_simp

lemma build_plan_fits: "core_fits build_plan"
  by code_simp

lemma build_plan_serves: "plan_serves build_S build_plan"
  by (rule serves_by_check) code_simp

lemma build_plan_unvalidated: "pc_validators build_plan = []"
  by code_simp

section \<open>The setting\<close>

lemmas build_shapes = build_S_def scalar_shape_def struct_shape_def rust_struct_def opaque_shape_def plain_field_def

lemma build_vt: "h_vt build_H s =
    (if s = 0 then plain_vtab\<lparr>vt_size := Some 24, vt_default_ok := True, vt_has_drop := True\<rparr>
     else if s = 1 then plain_vtab\<lparr>vt_size := Some 48, vt_has_drop := True\<rparr>
     else if s = 2 then plain_vtab\<lparr>vt_size := Some 72, vt_has_drop := True\<rparr> else plain_vtab)"
  by (simp add: build_H_def)

lemma build_parts:
  "parts build_H build_S s =
     (if s = 1 then [(0, 0), (24, 0)] else if s = 2 then [(0, 0), (24, 1)] else [])"
  by (auto simp: parts_def build_shapes size_or_0_def build_vt plain_vtab_def upt_rec)

lemma build_layout: "layout_fits build_H build_S build_fp"
  unfolding layout_fits_def
proof (intro conjI allI impI)
  fix s n
  assume "vt_size (h_vt build_H s) = Some n"
  then show "build_fp s \<subseteq> {..<n}" by (auto simp: build_fp_def build_vt plain_vtab_def split: if_splits)
next
  fix s
  assume "\<not> vt_has_drop (h_vt build_H s)"
  then show "build_fp s = {}" by (auto simp: build_fp_def build_vt plain_vtab_def split: if_splits)
next
  fix s n
  assume "vt_size (h_vt build_H s) = Some n"
  then show "\<forall>part \<in> set (parts build_H build_S s). \<exists>k. vt_size (h_vt build_H (snd part)) = Some k \<and> fst part + k \<le> n"
    by (auto simp: build_parts build_vt plain_vtab_def split: if_splits)
next
  fix s
  assume "is_composite (sh_ty (build_S s))"
  then show "build_fp s = (\<Union>part \<in> set (parts build_H build_S s). part_bytes build_fp part)"
    by (auto simp: build_parts build_fp_def part_bytes_def is_composite_def is_struct_ty_def build_shapes split: if_splits)
next
  fix s i j
  assume a: "i < length (parts build_H build_S s)" "j < length (parts build_H build_S s)" "i \<noteq> j"
  then have s: "s = 1 \<or> s = 2" by (auto simp: build_parts split: if_splits)
  then have "length (parts build_H build_S s) = 2" by (auto simp: build_parts)
  with a have "i = 0 \<and> j = 1 \<or> i = 1 \<and> j = 0" by linarith
  with s show "part_bytes build_fp (parts build_H build_S s ! i) \<inter> part_bytes build_fp (parts build_H build_S s ! j) = {}"
    by (elim disjE conjE) (simp_all add: build_parts build_fp_def part_bytes_def)
qed

lemma build_ids: "ids_faithful build_S"
proof -
  have id: "sh_id (build_S s) = (if s = 0 then Tid_Scalar ST_String else if s = 1 then Tid_Other 51
      else if s = 2 then Tid_Other 52 else Tid_Other 0)" for s
    by (simp add: build_shapes)
  have same: "\<lbrakk>s \<notin> {0, 1, 2}; t \<notin> {0, 1, 2}\<rbrakk> \<Longrightarrow> build_S s = build_S t" for s t by (simp add: build_S_def)
  show ?thesis
    unfolding ids_faithful_def
  proof (intro allI impI)
    fix s t
    assume "sh_id (build_S s) = sh_id (build_S t)"
    then have "s = t \<or> s \<notin> {0, 1, 2} \<and> t \<notin> {0, 1, 2}" unfolding id by (auto split: if_splits)
    with same show "build_S s = build_S t" by blast
  qed
qed

lemma build_linked: "plan_linked build_S build_plan" and build_root: "leads_to build_S build_plan (pc_root build_plan) 2"
  using build_uncached_Ok [OF build_plan_built build_plan_fits] .

lemma run_no_validators: "run_validators H container name data [] w = Some None"
  by (simp add: run_validators_def)

lemma build_setting: "strict_setting build_H build_S build_fp build_plan"
  unfolding strict_setting_def
proof (intro conjI build_layout build_ids build_linked build_plan_serves allI impI)
  show "validators_answer build_H build_plan"
    by (auto simp: validators_answer_def plan_validators_of_def get_slice_def build_plan_unvalidated Let_def
        run_no_validators split: if_splits option.splits)
  show "sh_def (build_S s) \<noteq> Def_DynamicValue" for s by (simp add: build_shapes)
  show "sh_def (build_S s) = Def_Array t n" if "sh_ty (build_S s) = Ty_Sequence (Seq_Array t n)" for s t n
    using that by (auto simp: build_shapes split: if_splits)
qed

section \<open>A run\<close>

definition build_start :: "partial \<times> world" where
  "build_start = (case alloc_with_plan build_H build_S build_plan world_start of
     Some (Some r) \<Rightarrow> r | _ \<Rightarrow> undefined)"

lemma build_alloc: "alloc_with_plan build_H build_S build_plan world_start = Some (Some (fst build_start, snd build_start))"
  by code_simp

text \<open>The name is set twice, the elements of the array by parsing and by moving in, in any order.\<close>

definition build_ops :: "build_op list" where
  "build_ops = [Op_Field ''name'', Op_Set_Default, Op_Parse ''a'', Op_End, Op_Nth_Field 1, Op_Nth_Field 1, Op_Parse ''b'',
     Op_End, Op_Nth_Field 0, Op_Set (Ptr 7 0) 0, Op_End, Op_End]"

definition build_result :: "partial \<times> world" where
  "build_result = (case run_ops build_H build_S build_ops (fst build_start) (snd build_start) of
     Done p w \<Rightarrow> (p, w) | _ \<Rightarrow> undefined)"

lemma build_run: "run_ops build_H build_S build_ops (fst build_start) (snd build_start)
    = Done (fst build_result) (snd build_result)"
  by code_simp

end
