(* ===== verification/Deferred_Samples.thy ===== *)
theory Deferred_Samples
  imports Partial_Laws Build_Samples
begin

text \<open>
  Runs in deferred mode on the concrete types of \<open>Build_Samples\<close>: a field that is entered again, and
  three runs that go wrong. The code gives a stored array element to its array and drops it itself
  as well; it does not find the stored frame of an array element; and a value that is built while
  frames are stored is dropped with them.
\<close>

section \<open>Runs\<close>

definition in_deferred :: "build_op list \<Rightarrow> attempt" where
  "in_deferred ops =
     and_then (begin_deferred build_H build_S (fst build_start) (snd build_start)) (run_ops build_H build_S ops)"

definition dropped_log :: "attempt \<Rightarrow> effect list option" where
  "dropped_log a = (case a of Done p w \<Rightarrow> map_option w_log (partial_drop build_H build_S p w) | _ \<Rightarrow> None)"

definition built_log :: "attempt \<Rightarrow> effect list option" where
  "built_log a =
     (case a of
        Done p w \<Rightarrow>
          (case build build_H build_S p w of
             Bd_Done hv w \<Rightarrow> Some (w_log (heap_value_drop build_H hv w)) | _ \<Rightarrow> None)
      | _ \<Rightarrow> None)"

definition entered_complete :: "attempt \<Rightarrow> (bool \<times> nat) option" where
  "entered_complete a =
     (case a of
        Done p w \<Rightarrow> map_option (\<lambda>fr. (fr_is_init fr, length (stored_frames p))) (top_frame p)
      | _ \<Rightarrow> None)"

definition name_entered :: "build_op list" where
  "name_entered = [Op_Field ''name'', Op_Set_Default]"

definition element_stored :: "build_op list" where
  "element_stored = [Op_Field ''pair'', Op_Nth_Field 0, Op_Set_Default, Op_End]"

definition all_fields :: "build_op list" where
  "all_fields = [Op_Field ''name'', Op_Set_Default, Op_End, Op_Field ''pair'', Op_Set (Ptr 7 0) 1, Op_End]"

section \<open>Where they lead\<close>

lemma stored_element_dropped_twice:
  "dropped_log (in_deferred element_stored)
     = Some [Ef_Alloc (Ptr 0 0) 72, Ef_Write W_Default 0 (Ptr 0 24),
             Ef_Drop 0 (Ptr 0 24), Ef_Drop 0 (Ptr 0 24), Ef_Dealloc (Ptr 0 0) 72]"
  by code_simp

text \<open>Entering the element again makes a new frame for it and leaves the stored one stored.\<close>

lemma stored_element_not_found:
  "entered_complete (in_deferred (element_stored @ [Op_Nth_Field 0])) = Some (True, 1)"
  by code_simp

lemma built_with_stored_frames_dropped_twice:
  "built_log (in_deferred all_fields)
     = Some [Ef_Alloc (Ptr 0 0) 72, Ef_Write W_Default 0 (Ptr 0 0), Ef_Write W_Move_In 1 (Ptr 0 24),
             Ef_Drop 0 (Ptr 0 0), Ef_Drop 1 (Ptr 0 24), Ef_Drop 2 (Ptr 0 0), Ef_Dealloc (Ptr 0 0) 72]"
  by code_simp

end
