(* ===== verification/Peek.thy ===== *)
theory Peek
  imports Frame
begin

text \<open>
  Reading values (facet-reflect, src/peek): a \<open>Peek\<close> is an address with the shape of what lies
  there. What memory and the function tables answer is read from a \<open>view\<close>, one state of memory; the
  operations read fields by their offsets, ask the tables for the contents of options, results,
  pointers and collections, and find the variant of an enum from its discriminant.
\<close>

section \<open>Memory as a value is read\<close>

datatype ordering = Ord_Less | Ord_Equal | Ord_Greater

text \<open>How a string lies at an address: the bytes themselves, a \<open>String\<close>, a \<open>Cow<str>\<close>, a reference,
  a reference to a reference.\<close>

datatype text_form = Tx_Str | Tx_String | Tx_Cow | Tx_Ref | Tx_Ref_Ref

datatype dyn_kind =
  Dk_Null | Dk_Bool | Dk_Number | Dk_String | Dk_Bytes | Dk_Array | Dk_Object | Dk_DateTime | Dk_QName | Dk_Uuid
| Dk_Other nat

record view =
  vw_size :: "sref \<Rightarrow> nat option"
  vw_read :: "nat \<Rightarrow> ptr \<Rightarrow> nat"
  vw_text :: "text_form \<Rightarrow> ptr \<Rightarrow> string"
  vw_f_bits :: "nat \<Rightarrow> ptr \<Rightarrow> nat"
  vw_partial_eq :: "sref \<Rightarrow> ptr \<Rightarrow> ptr \<Rightarrow> bool option"
  vw_partial_cmp :: "sref \<Rightarrow> ptr \<Rightarrow> ptr \<Rightarrow> ordering option option"
  vw_hash :: "sref \<Rightarrow> ptr \<Rightarrow> nat list option"
  vw_display :: "sref \<Rightarrow> ptr \<Rightarrow> string option"
  vw_call :: "fn_ptr \<Rightarrow> ptr \<Rightarrow> bool"
  vw_has_invariants :: "sref \<Rightarrow> bool"
  vw_invariants :: "sref \<Rightarrow> ptr \<Rightarrow> string option"
  vw_is_some :: "sref \<Rightarrow> ptr \<Rightarrow> bool"
  vw_option_value :: "sref \<Rightarrow> ptr \<Rightarrow> ptr option"
  vw_is_ok :: "sref \<Rightarrow> ptr \<Rightarrow> bool"
  vw_result_ok :: "sref \<Rightarrow> ptr \<Rightarrow> ptr option"
  vw_result_err :: "sref \<Rightarrow> ptr \<Rightarrow> ptr option"
  vw_borrow :: "sref \<Rightarrow> (ptr \<Rightarrow> ptr) option"
  vw_borrow_inner :: "sref \<Rightarrow> (ptr \<Rightarrow> string + ptr) option"
  vw_slice_ref :: "ptr \<Rightarrow> ptr"
  vw_slice_len :: "ptr \<Rightarrow> nat"
  vw_array_ptr :: "sref \<Rightarrow> ptr \<Rightarrow> ptr"
  vw_list_len :: "sref \<Rightarrow> ptr \<Rightarrow> nat"
  vw_list_get :: "sref \<Rightarrow> ptr \<Rightarrow> nat \<Rightarrow> ptr option"
  vw_list_ptr :: "sref \<Rightarrow> (ptr \<Rightarrow> ptr) option"
  vw_list_items :: "sref \<Rightarrow> (ptr \<Rightarrow> ptr list) option"
  vw_set_len :: "sref \<Rightarrow> ptr \<Rightarrow> nat"
  vw_set_contains :: "sref \<Rightarrow> ptr \<Rightarrow> ptr \<Rightarrow> bool"
  vw_set_items :: "sref \<Rightarrow> (ptr \<Rightarrow> ptr list) option"
  vw_map_len :: "sref \<Rightarrow> ptr \<Rightarrow> nat"
  vw_map_get :: "sref \<Rightarrow> ptr \<Rightarrow> ptr \<Rightarrow> ptr option"
  vw_map_items :: "sref \<Rightarrow> (ptr \<Rightarrow> (ptr \<times> ptr) list) option"
  vw_nd_count :: "sref \<Rightarrow> ptr \<Rightarrow> nat"
  vw_nd_n_dim :: "sref \<Rightarrow> ptr \<Rightarrow> nat"
  vw_nd_dim :: "sref \<Rightarrow> ptr \<Rightarrow> nat \<Rightarrow> nat option"
  vw_nd_get :: "sref \<Rightarrow> ptr \<Rightarrow> nat \<Rightarrow> ptr option"
  vw_dyn_kind :: "sref \<Rightarrow> ptr \<Rightarrow> dyn_kind"
  vw_dyn_bool :: "sref \<Rightarrow> ptr \<Rightarrow> bool option"
  vw_dyn_i64 :: "sref \<Rightarrow> ptr \<Rightarrow> i64 option"
  vw_dyn_u64 :: "sref \<Rightarrow> ptr \<Rightarrow> u64 option"
  vw_dyn_f64_bits :: "sref \<Rightarrow> ptr \<Rightarrow> u64 option"
  vw_dyn_str :: "sref \<Rightarrow> ptr \<Rightarrow> string option"
  vw_dyn_bytes :: "sref \<Rightarrow> ptr \<Rightarrow> u8 list option"
  vw_dyn_array_len :: "sref \<Rightarrow> ptr \<Rightarrow> nat option"
  vw_dyn_array_get :: "sref \<Rightarrow> ptr \<Rightarrow> nat \<Rightarrow> ptr option"
  vw_dyn_object_len :: "sref \<Rightarrow> ptr \<Rightarrow> nat option"
  vw_dyn_object_entry :: "sref \<Rightarrow> ptr \<Rightarrow> nat \<Rightarrow> (string \<times> ptr) option"

section \<open>Peeks\<close>

record peek =
  pk_shape :: sref
  pk_data :: ptr

definition peek_at :: "sref \<Rightarrow> ptr \<Rightarrow> peek" where
  "peek_at s p = \<lparr>pk_shape = s, pk_data = p\<rparr>"

lemma peek_at_simps [simp]: "pk_shape (peek_at s p) = s" "pk_data (peek_at s p) = p"
  by (simp_all add: peek_at_def)

abbreviation peek_ty :: "shapes \<Rightarrow> peek \<Rightarrow> facet_type" where
  "peek_ty S p \<equiv> sh_ty (S (pk_shape p))"

abbreviation peek_def :: "shapes \<Rightarrow> peek \<Rightarrow> facet_def" where
  "peek_def S p \<equiv> sh_def (S (pk_shape p))"

text \<open>The identity of a value, by which cycles are found: shapes are compared by their identifiers.\<close>

definition value_id :: "shapes \<Rightarrow> peek \<Rightarrow> type_id \<times> ptr" where
  "value_id S p = (sh_id (S (pk_shape p)), pk_data p)"

definition peek_ptr_eq :: "peek \<Rightarrow> peek \<Rightarrow> bool" where
  "peek_ptr_eq p q \<longleftrightarrow> pk_data p = pk_data q"

definition peek_partial_eq :: "view \<Rightarrow> shapes \<Rightarrow> peek \<Rightarrow> peek \<Rightarrow> error_kind + bool" where
  "peek_partial_eq V S p q =
     (if \<not> same_shape S (pk_shape p) (pk_shape q)
      then Inl (Ek_Wrong_Shape (pk_shape p) (pk_shape q))
      else case vw_partial_eq V (pk_shape p) (pk_data p) (pk_data q) of
             Some result \<Rightarrow> Inr result
           | None \<Rightarrow> Inl (Ek_Operation_Failed (pk_shape p) ''partial_eq''))"

definition peek_partial_cmp :: "view \<Rightarrow> shapes \<Rightarrow> peek \<Rightarrow> peek \<Rightarrow> error_kind + ordering option" where
  "peek_partial_cmp V S p q =
     (if \<not> same_shape S (pk_shape p) (pk_shape q)
      then Inl (Ek_Wrong_Shape (pk_shape p) (pk_shape q))
      else case vw_partial_cmp V (pk_shape p) (pk_data p) (pk_data q) of
             Some result \<Rightarrow> Inr result
           | None \<Rightarrow> Inl (Ek_Operation_Failed (pk_shape p) ''partial_cmp''))"

text \<open>Equality and order of peeks, as \<open>==\<close> and \<open><\<close> see them.\<close>

definition peek_eq :: "view \<Rightarrow> shapes \<Rightarrow> peek \<Rightarrow> peek \<Rightarrow> bool" where
  "peek_eq V S p q \<longleftrightarrow> (case peek_partial_eq V S p q of Inr b \<Rightarrow> b | Inl e \<Rightarrow> False)"

definition peek_ord :: "view \<Rightarrow> shapes \<Rightarrow> peek \<Rightarrow> peek \<Rightarrow> ordering option" where
  "peek_ord V S p q = (case peek_partial_cmp V S p q of Inr r \<Rightarrow> r | Inl e \<Rightarrow> None)"

definition peek_hash :: "view \<Rightarrow> peek \<Rightarrow> error_kind + nat list" where
  "peek_hash V p =
     (case vw_hash V (pk_shape p) (pk_data p) of
        Some bs \<Rightarrow> Inr bs | None \<Rightarrow> Inl (Ek_Operation_Failed (pk_shape p) ''hash''))"

definition peek_scalar_type :: "shapes \<Rightarrow> peek \<Rightarrow> scalar_type option" where
  "peek_scalar_type S p = shape_scalar_type (sh_id (S (pk_shape p)))"

section \<open>What a value is\<close>

definition was_not_a :: "string \<Rightarrow> peek \<Rightarrow> error_kind" where
  "was_not_a expected p = Ek_Was_Not_A expected (pk_shape p)"

definition into_struct :: "shapes \<Rightarrow> peek \<Rightarrow> error_kind + struct_type" where
  "into_struct S p =
     (case peek_ty S p of Ty_User (User_Struct st) \<Rightarrow> Inr st | _ \<Rightarrow> Inl (was_not_a ''struct'' p))"

definition into_enum :: "shapes \<Rightarrow> peek \<Rightarrow> error_kind + enum_type" where
  "into_enum S p =
     (case peek_ty S p of Ty_User (User_Enum et) \<Rightarrow> Inr et | _ \<Rightarrow> Inl (was_not_a ''enum'' p))"

definition into_map :: "shapes \<Rightarrow> peek \<Rightarrow> error_kind + (sref \<times> sref)" where
  "into_map S p = (case peek_def S p of Def_Map k v \<Rightarrow> Inr (k, v) | _ \<Rightarrow> Inl (was_not_a ''map'' p))"

definition into_set :: "shapes \<Rightarrow> peek \<Rightarrow> error_kind + sref" where
  "into_set S p = (case peek_def S p of Def_Set t \<Rightarrow> Inr t | _ \<Rightarrow> Inl (was_not_a ''set'' p))"

definition into_list :: "shapes \<Rightarrow> peek \<Rightarrow> error_kind + sref" where
  "into_list S p = (case peek_def S p of Def_List t \<Rightarrow> Inr t | _ \<Rightarrow> Inl (was_not_a ''list'' p))"

definition into_ndarray :: "shapes \<Rightarrow> peek \<Rightarrow> error_kind + sref" where
  "into_ndarray S p = (case peek_def S p of Def_NdArray t \<Rightarrow> Inr t | _ \<Rightarrow> Inl (was_not_a ''ndarray'' p))"

definition into_pointer :: "shapes \<Rightarrow> peek \<Rightarrow> error_kind + sref option" where
  "into_pointer S p =
     (case peek_def S p of Def_Pointer t \<Rightarrow> Inr t | _ \<Rightarrow> Inl (was_not_a ''smart pointer'' p))"

definition into_option :: "shapes \<Rightarrow> peek \<Rightarrow> error_kind + sref" where
  "into_option S p = (case peek_def S p of Def_Option t \<Rightarrow> Inr t | _ \<Rightarrow> Inl (was_not_a ''option'' p))"

definition into_result :: "shapes \<Rightarrow> peek \<Rightarrow> error_kind + (sref \<times> sref)" where
  "into_result S p =
     (case peek_def S p of Def_Result t e \<Rightarrow> Inr (t, e) | _ \<Rightarrow> Inl (was_not_a ''result'' p))"

definition into_tuple :: "shapes \<Rightarrow> peek \<Rightarrow> error_kind + field list" where
  "into_tuple S p =
     (case peek_ty S p of
        Ty_User (User_Struct st) \<Rightarrow>
          if st_kind st = Kind_Tuple then Inr (st_fields st) else Inl (was_not_a ''tuple'' p)
      | _ \<Rightarrow> Inl (was_not_a ''tuple'' p))"

definition into_dynamic_value :: "shapes \<Rightarrow> peek \<Rightarrow> error_kind + unit" where
  "into_dynamic_value S p =
     (case peek_def S p of Def_DynamicValue \<Rightarrow> Inr () | _ \<Rightarrow> Inl (was_not_a ''dynamic value'' p))"

section \<open>Structs and enums\<close>

definition field_peek :: "peek \<Rightarrow> field \<Rightarrow> peek" where
  "field_peek p f = peek_at (f_shape f) (ptr_add (pk_data p) (f_offset f))"

datatype field_error = Fe_No_Such_Field | Fe_Index_Out_Of_Bounds nat nat

definition struct_field :: "peek \<Rightarrow> struct_type \<Rightarrow> nat \<Rightarrow> field_error + peek" where
  "struct_field p st index =
     (case nth_opt (st_fields st) index of
        Some f \<Rightarrow> Inr (field_peek p f)
      | None \<Rightarrow> Inl (Fe_Index_Out_Of_Bounds index (length (st_fields st))))"

definition struct_field_by_name :: "peek \<Rightarrow> struct_type \<Rightarrow> string \<Rightarrow> field_error + peek" where
  "struct_field_by_name p st name =
     (case position (\<lambda>f. f_name f = name) (st_fields st) of
        Some i \<Rightarrow> struct_field p st i
      | None \<Rightarrow> Inl Fe_No_Such_Field)"

definition tuple_field :: "peek \<Rightarrow> field list \<Rightarrow> nat \<Rightarrow> peek option" where
  "tuple_field p fs index = map_option (field_peek p) (nth_opt fs index)"

text \<open>An integer of some bytes, widened to 64 bits.\<close>

definition read_i64 :: "view \<Rightarrow> bool \<Rightarrow> nat \<Rightarrow> ptr \<Rightarrow> i64" where
  "read_i64 V is_signed n p =
     (let u = take_bit (8 * n) (int (vw_read V n p))
      in word_of_int (if is_signed then signed_take_bit (8 * n - 1) u else u))"

definition discriminant :: "view \<Rightarrow> enum_type \<Rightarrow> peek \<Rightarrow> i64 option" where
  "discriminant V et p =
     (let read = (\<lambda>is_signed n. Some (read_i64 V is_signed n (pk_data p)))
      in case et_enum_repr et of
           ER_Rust \<Rightarrow> None
         | ER_RustNPO \<Rightarrow> Some 0
         | ER_U8 \<Rightarrow> read False 1 | ER_U16 \<Rightarrow> read False 2 | ER_U32 \<Rightarrow> read False 4
         | ER_U64 \<Rightarrow> read False 8 | ER_USize \<Rightarrow> read False 8
         | ER_I8 \<Rightarrow> read True 1 | ER_I16 \<Rightarrow> read True 2 | ER_I32 \<Rightarrow> read True 4
         | ER_I64 \<Rightarrow> read True 8 | ER_ISize \<Rightarrow> read True 8)"

definition max_end :: "view \<Rightarrow> variant \<Rightarrow> nat" where
  "max_end V v =
     fold (\<lambda>f m. max m (f_offset f + (case vw_size V (f_shape f) of Some n \<Rightarrow> n | None \<Rightarrow> 0)))
       (st_fields (v_data v)) 0"

definition all_zero :: "view \<Rightarrow> nat \<Rightarrow> ptr \<Rightarrow> bool" where
  "all_zero V n p \<longleftrightarrow> list_all (\<lambda>i. vw_read V 1 (ptr_add p i) = 0) [0..<n]"

text \<open>The index of the active variant: of an option from its table, of a type without a stored
  discriminant from whether its bytes are all zero, and otherwise from the discriminant.\<close>

definition variant_index :: "view \<Rightarrow> shapes \<Rightarrow> enum_type \<Rightarrow> peek \<Rightarrow> nat option" where
  "variant_index V S et p =
     (case peek_def S p of
        Def_Option t \<Rightarrow>
          position (\<lambda>v. (st_fields (v_data v) \<noteq> []) = vw_is_some V (pk_shape p) (pk_data p)) (et_variants et)
      | _ \<Rightarrow>
          if et_enum_repr et = ER_RustNPO
          then (case vw_size V (pk_shape p) of
                  None \<Rightarrow> None
                | Some n \<Rightarrow>
                    position (\<lambda>v. (max_end V v = 0) = all_zero V n (pk_data p)) (et_variants et))
          else (case discriminant V et p of
                  None \<Rightarrow> None
                | Some d \<Rightarrow> position (\<lambda>v. v_discriminant v = Some (sint d)) (et_variants et)))"

definition active_variant :: "view \<Rightarrow> shapes \<Rightarrow> enum_type \<Rightarrow> peek \<Rightarrow> variant option" where
  "active_variant V S et p = Option.bind (variant_index V S et p) (nth_opt (et_variants et))"

definition enum_field :: "view \<Rightarrow> shapes \<Rightarrow> enum_type \<Rightarrow> peek \<Rightarrow> nat \<Rightarrow> peek option option" where
  "enum_field V S et p index =
     map_option (\<lambda>v. map_option (field_peek p) (nth_opt (st_fields (v_data v)) index))
       (active_variant V S et p)"

definition enum_field_index :: "view \<Rightarrow> shapes \<Rightarrow> enum_type \<Rightarrow> peek \<Rightarrow> string \<Rightarrow> nat option option" where
  "enum_field_index V S et p name =
     map_option (\<lambda>v. position (\<lambda>f. f_name f = name) (st_fields (v_data v))) (active_variant V S et p)"

definition enum_field_by_name :: "view \<Rightarrow> shapes \<Rightarrow> enum_type \<Rightarrow> peek \<Rightarrow> string \<Rightarrow> peek option option" where
  "enum_field_by_name V S et p name =
     Option.bind (enum_field_index V S et p name) (\<lambda>i. case i of
         Some index \<Rightarrow> enum_field V S et p index
       | None \<Rightarrow> Some None)"

text \<open>The fields with their values, in order.\<close>

definition fields_of :: "peek \<Rightarrow> field list \<Rightarrow> (field \<times> peek) list" where
  "fields_of p fs = map (\<lambda>f. (f, field_peek p f)) fs"

definition enum_fields :: "view \<Rightarrow> shapes \<Rightarrow> enum_type \<Rightarrow> peek \<Rightarrow> (field \<times> peek) list option" where
  "enum_fields V S et p = map_option (\<lambda>v. fields_of p (st_fields (v_data v))) (active_variant V S et p)"

section \<open>Options, results, pointers\<close>

definition option_value :: "view \<Rightarrow> sref \<Rightarrow> peek \<Rightarrow> peek option" where
  "option_value V t p = map_option (peek_at t) (vw_option_value V (pk_shape p) (pk_data p))"

definition result_ok :: "view \<Rightarrow> sref \<Rightarrow> peek \<Rightarrow> peek option" where
  "result_ok V t p = map_option (peek_at t) (vw_result_ok V (pk_shape p) (pk_data p))"

definition result_err :: "view \<Rightarrow> sref \<Rightarrow> peek \<Rightarrow> peek option" where
  "result_err V e p = map_option (peek_at e) (vw_result_err V (pk_shape p) (pk_data p))"

definition borrow_inner :: "view \<Rightarrow> sref option \<Rightarrow> peek \<Rightarrow> peek option" where
  "borrow_inner V pointee p =
     Option.bind (vw_borrow V (pk_shape p)) (\<lambda>borrow_fn.
       map_option (\<lambda>t. peek_at t (borrow_fn (pk_data p))) pointee)"

section \<open>Collections\<close>

definition map_get_peek :: "view \<Rightarrow> shapes \<Rightarrow> sref \<times> sref \<Rightarrow> peek \<Rightarrow> peek \<Rightarrow> error_kind + peek option" where
  "map_get_peek V S kv p key =
     (if same_shape S (fst kv) (pk_shape key)
      then Inr (map_option (peek_at (snd kv)) (vw_map_get V (pk_shape p) (pk_data p) (pk_data key)))
      else Inl (Ek_Wrong_Shape (fst kv) (pk_shape key)))"

definition map_iter :: "view \<Rightarrow> sref \<times> sref \<Rightarrow> peek \<Rightarrow> (peek \<times> peek) list option" where
  "map_iter V kv p =
     map_option (\<lambda>items. map (\<lambda>(k, v). (peek_at (fst kv) k, peek_at (snd kv) v)) (items (pk_data p)))
       (vw_map_items V (pk_shape p))"

definition set_contains_peek :: "view \<Rightarrow> shapes \<Rightarrow> sref \<Rightarrow> peek \<Rightarrow> peek \<Rightarrow> error_kind + bool" where
  "set_contains_peek V S t p x =
     (if same_shape S t (pk_shape x) then Inr (vw_set_contains V (pk_shape p) (pk_data p) (pk_data x))
      else Inl (Ek_Wrong_Shape t (pk_shape x)))"

definition set_iter :: "view \<Rightarrow> sref \<Rightarrow> peek \<Rightarrow> peek list option" where
  "set_iter V t p = map_option (\<lambda>items. map (peek_at t) (items (pk_data p))) (vw_set_items V (pk_shape p))"

text \<open>Elements that lie one after the other.\<close>

definition strided :: "sref \<Rightarrow> ptr \<Rightarrow> nat \<Rightarrow> nat \<Rightarrow> peek list" where
  "strided t data stride n = map (\<lambda>i. peek_at t (ptr_add data (stride * i))) [0..<n]"

definition list_iter :: "view \<Rightarrow> sref \<Rightarrow> peek \<Rightarrow> peek list option" where
  "list_iter V t p =
     (case vw_list_ptr V (pk_shape p) of
        Some as_ptr \<Rightarrow>
          map_option (\<lambda>stride. strided t (as_ptr (pk_data p)) stride (vw_list_len V (pk_shape p) (pk_data p)))
            (vw_size V t)
      | None \<Rightarrow> map_option (\<lambda>items. map (peek_at t) (items (pk_data p))) (vw_list_items V (pk_shape p)))"

definition list_get :: "view \<Rightarrow> sref \<Rightarrow> peek \<Rightarrow> nat \<Rightarrow> peek option" where
  "list_get V t p index = map_option (peek_at t) (vw_list_get V (pk_shape p) (pk_data p) index)"

definition nd_get :: "view \<Rightarrow> sref \<Rightarrow> peek \<Rightarrow> nat \<Rightarrow> peek option" where
  "nd_get V t p index = map_option (peek_at t) (vw_nd_get V (pk_shape p) (pk_data p) index)"

datatype list_like_def = Ll_List sref | Ll_Array sref nat | Ll_Slice sref

fun list_like_t :: "list_like_def \<Rightarrow> sref" where
  "list_like_t (Ll_List t) = t"
| "list_like_t (Ll_Array t n) = t"
| "list_like_t (Ll_Slice t) = t"

record list_like =
  ll_value :: peek
  ll_def :: list_like_def
  ll_len :: nat

definition list_like_new :: "view \<Rightarrow> peek \<Rightarrow> list_like_def \<Rightarrow> list_like" where
  "list_like_new V p d =
     \<lparr>ll_value = p, ll_def = d,
      ll_len = (case d of
                  Ll_List t \<Rightarrow> vw_list_len V (pk_shape p) (pk_data p)
                | Ll_Slice t \<Rightarrow> vw_slice_len V (pk_data p)
                | Ll_Array t n \<Rightarrow> n)\<rparr>"

definition into_list_like :: "view \<Rightarrow> shapes \<Rightarrow> peek \<Rightarrow> error_kind + list_like" where
  "into_list_like V S p =
     (let no = Inl (was_not_a ''list, array or slice'' p);
          behind = (\<lambda>target. case sh_def (S target) of
              Def_Slice t \<Rightarrow>
                Inr (list_like_new V (peek_at t (vw_slice_ref V (pk_data p))) (Ll_Slice t))
            | _ \<Rightarrow> no)
      in case peek_def S p of
           Def_List t \<Rightarrow> Inr (list_like_new V p (Ll_List t))
         | Def_Array t n \<Rightarrow> Inr (list_like_new V p (Ll_Array t n))
         | Def_Slice t \<Rightarrow> Inr (list_like_new V p (Ll_Slice t))
         | _ \<Rightarrow>
             (case peek_ty S p of
                Ty_Pointer (Ptr_Reference m w target) \<Rightarrow> behind target
              | Ty_Pointer (Ptr_Raw m w target) \<Rightarrow> behind target
              | _ \<Rightarrow> no))"

definition list_like_base :: "view \<Rightarrow> list_like \<Rightarrow> ptr" where
  "list_like_base V l =
     (case ll_def l of
        Ll_Array t n \<Rightarrow> vw_array_ptr V (pk_shape (ll_value l)) (pk_data (ll_value l))
      | _ \<Rightarrow> pk_data (ll_value l))"

definition list_like_get :: "view \<Rightarrow> list_like \<Rightarrow> nat \<Rightarrow> peek option" where
  "list_like_get V l index =
     (case ll_def l of
        Ll_List t \<Rightarrow> list_get V t (ll_value l) index
      | d \<Rightarrow>
          if ll_len l \<le> index then None
          else map_option (\<lambda>n. peek_at (list_like_t d) (ptr_add (list_like_base V l) (n * index)))
                 (vw_size V (list_like_t d)))"

definition list_like_iter :: "view \<Rightarrow> list_like \<Rightarrow> peek list option" where
  "list_like_iter V l =
     (case ll_def l of
        Ll_List t \<Rightarrow> list_iter V t (ll_value l)
      | d \<Rightarrow>
          map_option (\<lambda>stride. strided (list_like_t d) (list_like_base V l) stride (ll_len l))
            (vw_size V (list_like_t d)))"

section \<open>Dynamic values\<close>

fun dyn_array_from :: "view \<Rightarrow> peek \<Rightarrow> nat \<Rightarrow> nat \<Rightarrow> peek list" where
  "dyn_array_from V p index 0 = []"
| "dyn_array_from V p index (Suc n) =
     (case vw_dyn_array_get V (pk_shape p) (pk_data p) index of
        None \<Rightarrow> []
      | Some q \<Rightarrow> peek_at (pk_shape p) q # dyn_array_from V p (Suc index) n)"

definition dyn_array_iter :: "view \<Rightarrow> peek \<Rightarrow> peek list option" where
  "dyn_array_iter V p = map_option (dyn_array_from V p 0) (vw_dyn_array_len V (pk_shape p) (pk_data p))"

fun dyn_object_from :: "view \<Rightarrow> peek \<Rightarrow> nat \<Rightarrow> nat \<Rightarrow> (string \<times> peek) list" where
  "dyn_object_from V p index 0 = []"
| "dyn_object_from V p index (Suc n) =
     (case vw_dyn_object_entry V (pk_shape p) (pk_data p) index of
        None \<Rightarrow> []
      | Some (key, q) \<Rightarrow> (key, peek_at (pk_shape p) q) # dyn_object_from V p (Suc index) n)"

definition dyn_object_iter :: "view \<Rightarrow> peek \<Rightarrow> (string \<times> peek) list option" where
  "dyn_object_iter V p =
     map_option (dyn_object_from V p 0) (vw_dyn_object_len V (pk_shape p) (pk_data p))"

section \<open>The innermost value\<close>

text \<open>Behind pointers and transparent wrappers. The loop ends only if the pointers do; an
  error of \<open>try_borrow_inner\<close> is a panic.\<close>

definition inner_step :: "view \<Rightarrow> shapes \<Rightarrow> peek \<Rightarrow> peek option option" where
  "inner_step V S p =
     (case (case into_pointer S p of Inr t \<Rightarrow> borrow_inner V t p | Inl e \<Rightarrow> None) of
        Some target \<Rightarrow> Some (Some target)
      | None \<Rightarrow>
          (case sh_inner (S (pk_shape p)) of
             None \<Rightarrow> Some None
           | Some inner_shape \<Rightarrow>
               (case vw_borrow_inner V (pk_shape p) of
                  None \<Rightarrow> Some None
                | Some borrow \<Rightarrow>
                    (case borrow (pk_data p) of
                       Inr inner_data \<Rightarrow> Some (Some (peek_at inner_shape inner_data))
                     | Inl e \<Rightarrow> None))))"

partial_function (option) innermost_peek :: "view \<Rightarrow> shapes \<Rightarrow> peek \<Rightarrow> peek option option" where
  "innermost_peek V S p =
     (case inner_step V S p of
        None \<Rightarrow> Some None
      | Some None \<Rightarrow> Some (Some p)
      | Some (Some q) \<Rightarrow> innermost_peek V S q)"

declare innermost_peek.simps [code]

definition is_reference :: "facet_type \<Rightarrow> sref option" where
  "is_reference t = (case t of Ty_Pointer (Ptr_Reference m w target) \<Rightarrow> Some target | _ \<Rightarrow> None)"

definition is_pointer_ty :: "facet_type \<Rightarrow> bool" where
  "is_pointer_ty t \<longleftrightarrow> (case t of Ty_Pointer _ \<Rightarrow> True | _ \<Rightarrow> False)"

definition str_of_innermost :: "view \<Rightarrow> shapes \<Rightarrow> peek \<Rightarrow> string option" where
  "str_of_innermost V S p =
     (let st = (\<lambda>s. shape_scalar_type (sh_id (S s))); scalar = st (pk_shape p);
          text = (\<lambda>form data. Some (vw_text V form data));
          smart = (case peek_def S p of
              Def_Pointer (Some pointee) \<Rightarrow>
                if st pointee = Some ST_Str
                then map_option (\<lambda>borrow_fn. vw_text V Tx_Str (borrow_fn (pk_data p))) (vw_borrow V (pk_shape p))
                else None
            | _ \<Rightarrow> None)
      in if scalar = Some ST_Str \<and> \<not> is_pointer_ty (peek_ty S p) then text Tx_Str (pk_data p)
         else if scalar = Some ST_String then text Tx_String (pk_data p)
         else if scalar = Some ST_CowStr then text Tx_Cow (pk_data p)
         else case is_reference (peek_ty S p) of
                None \<Rightarrow> smart
              | Some target \<Rightarrow>
                  (case is_reference (sh_ty (S target)) of
                     Some inner_target \<Rightarrow>
                       if st inner_target = Some ST_Str then text Tx_Ref_Ref (pk_data p) else smart
                   | None \<Rightarrow>
                       if st target = Some ST_Str \<and> \<not> is_pointer_ty (sh_ty (S target))
                       then text Tx_Ref (pk_data p) else smart))"

definition peek_as_str :: "view \<Rightarrow> shapes \<Rightarrow> peek \<Rightarrow> string option option option" where
  "peek_as_str V S p = map_option (map_option (str_of_innermost V S)) (innermost_peek V S p)"

section \<open>Facts\<close>

lemma into_cases [simp]:
  "into_struct S p = Inr st \<longleftrightarrow> peek_ty S p = Ty_User (User_Struct st)"
  "into_enum S p = Inr et \<longleftrightarrow> peek_ty S p = Ty_User (User_Enum et)"
  "into_map S p = Inr kv \<longleftrightarrow> peek_def S p = Def_Map (fst kv) (snd kv)"
  "into_option S p = Inr t \<longleftrightarrow> peek_def S p = Def_Option t"
  by (cases kv; auto simp: into_struct_def into_enum_def into_map_def into_option_def
      split: facet_type.splits user_type.splits facet_def.splits)+

lemma strided_simps [simp]:
  "length (strided t data stride n) = n"
  "i < n \<Longrightarrow> strided t data stride n ! i = peek_at t (ptr_add data (stride * i))"
  by (simp_all add: strided_def)

lemma position_nth_opt: "position P xs = Some i \<Longrightarrow> \<exists>x. nth_opt xs i = Some x \<and> P x"
  by (induction xs arbitrary: i) (auto simp: nth_opt_def split: if_splits)

lemma active_variant_index:
  "active_variant V S et p = Some v \<longleftrightarrow> (\<exists>i. variant_index V S et p = Some i \<and> nth_opt (et_variants et) i = Some v)"
  by (simp add: active_variant_def bind_eq_Some_conv)

lemma active_variant_of_index:
  assumes "variant_index V S et p = Some i"
  shows "\<exists>v. active_variant V S et p = Some v \<and> nth_opt (et_variants et) i = Some v"
proof -
  have "\<exists>v. nth_opt (et_variants et) i = Some v"
    using assms position_nth_opt by (fastforce simp: variant_index_def split: facet_def.splits if_splits option.splits)
  then show ?thesis using assms by (auto simp: active_variant_index)
qed

lemma obind_assoc: "obind (obind m f) g = obind m (\<lambda>x. obind (f x) g)"
  by (cases m) simp_all

text \<open>Iterating and indexing agree.\<close>

lemma list_like_get_iter:
  assumes "\<forall>t. ll_def l \<noteq> Ll_List t" and "list_like_iter V l = Some xs"
  shows "list_like_get V l i = nth_opt xs i"
  using assms by (auto simp: list_like_iter_def list_like_get_def nth_opt_def split: list_like_def.splits)

end
