(* ===== verification/Peek_Hash.thy ===== *)
theory Peek_Hash
  imports Peek
begin

text \<open>
  The structural hash of a value (facet-reflect, src/peek/value.rs and dynamic_value.rs): what is
  written to the hasher, in order. Every branch of the code writes something about the node and then,
  for each part, a name or nothing and the hash of the part; \<open>hash_node\<close> gives the two. The
  recursion through the value takes fuel, which stands for the call stack. The lemmas show that the
  writes tell values apart: they form a prefix-free code of the tree of the value.
\<close>

section \<open>What is written\<close>

datatype hash_write =
  H_Id type_id | H_Write nat | H_U8 nat | H_Str string | H_Usize nat | H_Bool bool | H_Bits nat nat
| H_I64 i64 | H_U64 u64 | H_Bytes "u8 list" | H_Kind dyn_kind

fun struct_kind_u8 :: "struct_kind \<Rightarrow> nat" where
  "struct_kind_u8 Kind_Unit = 0"
| "struct_kind_u8 Kind_TupleStruct = 1"
| "struct_kind_u8 Kind_Struct = 2"
| "struct_kind_u8 Kind_Tuple = 3"

text \<open>The writes about a node and, for each of its parts, the writes before it and the part;
  \<open>None\<close> is a panic.\<close>

type_synonym hash_node = "hash_write list \<times> (hash_write list \<times> peek) list"

definition plain :: "peek list \<Rightarrow> (hash_write list \<times> peek) list" where
  "plain ps = map (Pair []) ps"

definition named :: "(field \<times> peek) list \<Rightarrow> (hash_write list \<times> peek) list" where
  "named fs = map (\<lambda>(f, q). ([H_Str (f_name f)], q)) fs"

definition hash_struct :: "peek \<Rightarrow> struct_type \<Rightarrow> hash_node" where
  "hash_struct p st =
     ([H_U8 (struct_kind_u8 (st_kind st))],
      named (fields_of p (filter (\<lambda>f. f_metadata f = None) (st_fields st))))"

definition hash_enum :: "view \<Rightarrow> shapes \<Rightarrow> peek \<Rightarrow> enum_type \<Rightarrow> hash_node option" where
  "hash_enum V S p et =
     map_option (\<lambda>v. let fs = fields_of p (st_fields (v_data v))
                      in ([H_Str (v_name v)],
                          (case st_kind (v_data v) of
                             Kind_Unit \<Rightarrow> []
                           | Kind_Struct \<Rightarrow> named fs
                           | _ \<Rightarrow> plain (map snd fs))))
       (active_variant V S et p)"

definition dyn_text :: "view \<Rightarrow> peek \<Rightarrow> hash_write list" where
  "dyn_text V p = (case vw_dyn_str V (pk_shape p) (pk_data p) of Some s \<Rightarrow> [H_Str s] | None \<Rightarrow> [])"

definition hash_dynamic :: "view \<Rightarrow> peek \<Rightarrow> hash_node" where
  "hash_dynamic V p =
     (let s = pk_shape p; d = pk_data p; kind = vw_dyn_kind V s d;
          just = (\<lambda>ws. (H_Kind kind # ws, []))
      in case kind of
           Dk_Null \<Rightarrow> just []
         | Dk_Bool \<Rightarrow> just (case vw_dyn_bool V s d of Some b \<Rightarrow> [H_Bool b] | None \<Rightarrow> [])
         | Dk_Number \<Rightarrow>
             just (case vw_dyn_i64 V s d of
                     Some n \<Rightarrow> [H_U8 0, H_I64 n]
                   | None \<Rightarrow>
                       (case vw_dyn_u64 V s d of
                          Some n \<Rightarrow> [H_U8 1, H_U64 n]
                        | None \<Rightarrow> (case vw_dyn_f64_bits V s d of Some n \<Rightarrow> [H_U8 2, H_U64 n] | None \<Rightarrow> [])))
         | Dk_Bytes \<Rightarrow> just (case vw_dyn_bytes V s d of Some b \<Rightarrow> [H_Bytes b] | None \<Rightarrow> [])
         | Dk_Array \<Rightarrow>
             (case vw_dyn_array_len V s d of
                None \<Rightarrow> just []
              | Some len \<Rightarrow>
                  ([H_Kind kind, H_Usize len],
                   plain (case dyn_array_iter V p of Some xs \<Rightarrow> xs | None \<Rightarrow> [])))
         | Dk_Object \<Rightarrow>
             (case vw_dyn_object_len V s d of
                None \<Rightarrow> just []
              | Some len \<Rightarrow>
                  ([H_Kind kind, H_Usize len],
                   map (\<lambda>(key, q). ([H_Str key], q)) (case dyn_object_iter V p of Some xs \<Rightarrow> xs | None \<Rightarrow> [])))
         | _ \<Rightarrow> just (dyn_text V p))"

definition hash_ndarray :: "view \<Rightarrow> sref \<Rightarrow> peek \<Rightarrow> hash_node" where
  "hash_ndarray V t p =
     (let s = pk_shape p; d = pk_data p; n_dim = vw_nd_n_dim V s d
      in (H_Usize n_dim # map H_Usize (List.map_filter (vw_nd_dim V s d) [0..<n_dim]),
          plain (List.map_filter (nd_get V t p) [0..<vw_nd_count V s d])))"

text \<open>A float is read only where the shape is the float type itself, which its scalar type says.\<close>

definition hash_by_def :: "view \<Rightarrow> shapes \<Rightarrow> peek \<Rightarrow> hash_node option" where
  "hash_by_def V S p =
     (let s = pk_shape p; d = pk_data p;
          list_like = (case into_list_like V S p of
              Inr l \<Rightarrow> map_option (\<lambda>xs. ([H_Usize (ll_len l)], plain xs)) (list_like_iter V l)
            | Inl e \<Rightarrow> Some ([], []))
      in case peek_def S p of
           Def_List t \<Rightarrow> list_like
         | Def_Array t n \<Rightarrow> list_like
         | Def_Slice t \<Rightarrow> list_like
         | Def_Map k v \<Rightarrow>
             map_option (\<lambda>kvs. ([H_Usize (vw_map_len V s d)], plain (concat (map (\<lambda>(a, b). [a, b]) kvs))))
               (map_iter V (k, v) p)
         | Def_Set t \<Rightarrow> map_option (\<lambda>xs. ([H_Usize (vw_set_len V s d)], plain xs)) (set_iter V t p)
         | Def_Option t \<Rightarrow>
             Some (case option_value V t p of
                     Some inner \<Rightarrow> ([H_Bool True], plain [inner]) | None \<Rightarrow> ([H_Bool False], []))
         | Def_Result t e \<Rightarrow>
             Some (if vw_is_ok V s d
                   then ([H_U8 0], case result_ok V t p of Some q \<Rightarrow> plain [q] | None \<Rightarrow> [])
                   else ([H_U8 1], case result_err V e p of Some q \<Rightarrow> plain [q] | None \<Rightarrow> []))
         | Def_Pointer t \<Rightarrow>
             Some ([], case borrow_inner V t p of Some q \<Rightarrow> plain [q] | None \<Rightarrow> [])
         | Def_DynamicValue \<Rightarrow> Some (hash_dynamic V p)
         | Def_NdArray t \<Rightarrow> Some (hash_ndarray V t p)
         | _ \<Rightarrow>
             (case peek_scalar_type S p of
                Some ST_F32 \<Rightarrow> Some ([H_Bits 4 (vw_f_bits V 4 d)], [])
              | Some ST_F64 \<Rightarrow> Some ([H_Bits 8 (vw_f_bits V 8 d)], [])
              | _ \<Rightarrow> None))"

definition hash_node :: "view \<Rightarrow> shapes \<Rightarrow> peek \<Rightarrow> hash_node option" where
  "hash_node V S p =
     (case peek_ty S p of
        Ty_User (User_Struct st) \<Rightarrow> Some (hash_struct p st)
      | Ty_User (User_Enum et) \<Rightarrow> hash_enum V S p et
      | _ \<Rightarrow> hash_by_def V S p)"

definition hash_parts ::
    "(peek \<Rightarrow> (unit, hash_write list) outcome) \<Rightarrow> (hash_write list \<times> peek) list
       \<Rightarrow> (unit, hash_write list) outcome" where
  "hash_parts rec items = obind (rmap (\<lambda>(ws, q). obind (rec q) (\<lambda>vs. Ok (ws @ vs))) items) (\<lambda>l. Ok (concat l))"

fun structural_hash :: "nat \<Rightarrow> view \<Rightarrow> shapes \<Rightarrow> peek \<Rightarrow> (unit, hash_write list) outcome" where
  "structural_hash 0 V S p = Overrun"
| "structural_hash (Suc n) V S p =
     (let id = H_Id (sh_id (S (pk_shape p)))
      in case vw_hash V (pk_shape p) (pk_data p) of
           Some ws \<Rightarrow> Ok (id # map H_Write ws)
         | None \<Rightarrow>
             (case hash_node V S p of
                None \<Rightarrow> Err ()
              | Some (head, items) \<Rightarrow>
                  obind (hash_parts (structural_hash n V S) items) (\<lambda>ws. Ok (id # head @ ws))))"

section \<open>Values that are alike\<close>

text \<open>Two values, each in its own memory, are alike when they have the same type and either write
  the same through the hash function of the type, or have the same node (kind, variant,
  length, keys, dimensions) with as many parts that are alike, one by one.\<close>

fun alike :: "nat \<Rightarrow> view \<Rightarrow> view \<Rightarrow> shapes \<Rightarrow> peek \<Rightarrow> peek \<Rightarrow> bool" where
  "alike 0 V W S p q = False"
| "alike (Suc n) V W S p q \<longleftrightarrow>
     sh_id (S (pk_shape p)) = sh_id (S (pk_shape q))
     \<and> (case (vw_hash V (pk_shape p) (pk_data p), vw_hash W (pk_shape q) (pk_data q)) of
          (Some ws, Some vs) \<Rightarrow> ws = vs
        | (None, None) \<Rightarrow>
            (case (hash_node V S p, hash_node W S q) of
               (Some (h, xs), Some (k, ys)) \<Rightarrow>
                 h = k \<and> list_all2 (\<lambda>x y. fst x = fst y \<and> alike n V W S (snd x) (snd y)) xs ys
             | _ \<Rightarrow> False)
        | _ \<Rightarrow> False)"

section \<open>The writes of alike values are the same\<close>

lemma hash_parts_simps:
  "hash_parts rec [] = Ok []"
  "hash_parts rec (x # xs) =
     obind (rec (snd x)) (\<lambda>vs. obind (hash_parts rec xs) (\<lambda>ws. Ok (fst x @ vs @ ws)))"
  by (simp_all add: hash_parts_def split_beta obind_assoc)

lemma hash_parts_Cons_Ok:
  assumes "hash_parts f (x # xs) = Ok a"
  obtains v c where "f (snd x) = Ok v" and "hash_parts f xs = Ok c" and "a = fst x @ v @ c"
  using assms by (auto simp: hash_parts_simps obind_eq_Ok)

lemma hash_parts_alike:
  assumes "list_all2 (\<lambda>x y. fst x = fst y \<and> P (snd x) (snd y)) xs ys"
    and same: "\<And>x y a b. P x y \<Longrightarrow> f x = Ok a \<Longrightarrow> g y = Ok b \<Longrightarrow> a = b"
    and "hash_parts f xs = Ok a" and "hash_parts g ys = Ok b"
  shows "a = b"
  using assms(1,3,4)
proof (induction xs ys arbitrary: a b rule: list_all2_induct)
  case Nil
  then show ?case by (simp add: hash_parts_simps)
next
  case (Cons x xs y ys)
  obtain v c where l: "f (snd x) = Ok v" "hash_parts f xs = Ok c" "a = fst x @ v @ c"
    using Cons.prems(1) by (rule hash_parts_Cons_Ok)
  obtain u d where r: "g (snd y) = Ok u" "hash_parts g ys = Ok d" "b = fst y @ u @ d"
    using Cons.prems(2) by (rule hash_parts_Cons_Ok)
  have "v = u" using Cons.hyps(1) same [OF _ l(1) r(1)] by blast
  moreover have "c = d" by (rule Cons.IH [OF l(2) r(2)])
  ultimately show ?case using Cons.hyps(1) l(3) r(3) by simp
qed

text \<open>One step of the hash, by the hash function of the type or by the node.\<close>

lemma structural_hash_Ok:
  assumes "structural_hash (Suc n) V S p = Ok a"
  obtains ws where "vw_hash V (pk_shape p) (pk_data p) = Some ws" "a = H_Id (sh_id (S (pk_shape p))) # map H_Write ws"
  | h xs c where "vw_hash V (pk_shape p) (pk_data p) = None" "hash_node V S p = Some (h, xs)"
      "hash_parts (structural_hash n V S) xs = Ok c" "a = H_Id (sh_id (S (pk_shape p))) # h @ c"
  using assms by (auto simp: Let_def obind_eq_Ok split: option.splits)

lemma alike_same_writes:
  assumes "alike n V W S p q" and "structural_hash n V S p = Ok a" and "structural_hash n W S q = Ok b"
  shows "a = b"
  using assms
proof (induction n arbitrary: p q a b)
  case (Suc n)
  have id: "sh_id (S (pk_shape p)) = sh_id (S (pk_shape q))" using Suc.prems(1) by simp
  show ?case
  proof (rule structural_hash_Ok [OF Suc.prems(2)])
    fix ws assume "vw_hash V (pk_shape p) (pk_data p) = Some ws" "a = H_Id (sh_id (S (pk_shape p))) # map H_Write ws"
    then show ?thesis using Suc.prems(1) id by (auto intro: structural_hash_Ok [OF Suc.prems(3)] split: option.splits)
  next
    fix h xs c
    assume l: "vw_hash V (pk_shape p) (pk_data p) = None" "hash_node V S p = Some (h, xs)"
      "hash_parts (structural_hash n V S) xs = Ok c" "a = H_Id (sh_id (S (pk_shape p))) # h @ c"
    show ?thesis
    proof (rule structural_hash_Ok [OF Suc.prems(3)])
      fix ws assume "vw_hash W (pk_shape q) (pk_data q) = Some ws"
      then show ?thesis using Suc.prems(1) l(1) by simp
    next
      fix k ys d
      assume r: "vw_hash W (pk_shape q) (pk_data q) = None" "hash_node W S q = Some (k, ys)"
        "hash_parts (structural_hash n W S) ys = Ok d" "b = H_Id (sh_id (S (pk_shape q))) # k @ d"
      have all: "h = k" "list_all2 (\<lambda>x y. fst x = fst y \<and> alike n V W S (snd x) (snd y)) xs ys"
        using Suc.prems(1) l(1,2) r(1,2) by simp_all
      have "c = d" using hash_parts_alike [OF all(2) _ l(3) r(3)] Suc.IH by blast
      with all(1) l(4) r(4) id show ?thesis by simp
    qed
  qed
qed simp

section \<open>Different values write differently\<close>

text \<open>What the tables of a type answer: collections yield as many items as they say, a result has the
  payload of its side, an array of several dimensions has as many elements as they multiply to, and a
  dynamic value has what its kind says (\<open>texts\<close> are the other kinds that have a text).\<close>

definition dyn_answers :: "dyn_kind set \<Rightarrow> view \<Rightarrow> sref \<Rightarrow> ptr \<Rightarrow> bool" where
  "dyn_answers texts V s d \<longleftrightarrow>
     (case vw_dyn_kind V s d of
        Dk_Null \<Rightarrow> vw_dyn_str V s d = None
      | Dk_Bool \<Rightarrow> vw_dyn_bool V s d \<noteq> None
      | Dk_Number \<Rightarrow> vw_dyn_i64 V s d \<noteq> None \<or> vw_dyn_u64 V s d \<noteq> None \<or> vw_dyn_f64_bits V s d \<noteq> None
      | Dk_String \<Rightarrow> vw_dyn_str V s d \<noteq> None
      | Dk_Bytes \<Rightarrow> vw_dyn_bytes V s d \<noteq> None
      | Dk_Array \<Rightarrow> (\<exists>n. vw_dyn_array_len V s d = Some n \<and> (\<forall>i < n. vw_dyn_array_get V s d i \<noteq> None))
      | Dk_Object \<Rightarrow> (\<exists>n. vw_dyn_object_len V s d = Some n \<and> (\<forall>i < n. vw_dyn_object_entry V s d i \<noteq> None))
      | kind \<Rightarrow> (vw_dyn_str V s d \<noteq> None) = (kind \<in> texts))"

definition view_answers :: "dyn_kind set \<Rightarrow> view \<Rightarrow> bool" where
  "view_answers texts V \<longleftrightarrow>
     (\<forall>s f d. vw_list_items V s = Some f \<longrightarrow> length (f d) = vw_list_len V s d)
     \<and> (\<forall>s f d. vw_set_items V s = Some f \<longrightarrow> length (f d) = vw_set_len V s d)
     \<and> (\<forall>s f d. vw_map_items V s = Some f \<longrightarrow> length (f d) = vw_map_len V s d)
     \<and> (\<forall>s d. if vw_is_ok V s d then vw_result_ok V s d \<noteq> None else vw_result_err V s d \<noteq> None)
     \<and> (\<forall>s d. \<exists>dims. map (vw_nd_dim V s d) [0..<vw_nd_n_dim V s d] = map Some dims \<and> vw_nd_count V s d = prod_list dims)
     \<and> (\<forall>s d. \<forall>i < vw_nd_count V s d. vw_nd_get V s d i \<noteq> None)
     \<and> (\<forall>s d. dyn_answers texts V s d)"

text \<open>The tables of a type are the same in both memories; its hash function, if any, writes no
  more for one value after all that it writes for another.\<close>

definition same_tables :: "view \<Rightarrow> view \<Rightarrow> shapes \<Rightarrow> bool" where
  "same_tables V W S \<longleftrightarrow>
     (\<forall>s t. sh_id (S s) = sh_id (S t) \<longrightarrow>
        (\<forall>p q. (vw_hash V s p = None) = (vw_hash W t q = None))
        \<and> (vw_borrow V s = None) = (vw_borrow W t = None)
        \<and> (\<forall>p q a b xs ys. vw_hash V s p = Some a \<longrightarrow> vw_hash W t q = Some b \<longrightarrow> a @ xs = b @ ys \<longrightarrow> a = b))"

definition variants_named_apart :: "shapes \<Rightarrow> bool" where
  "variants_named_apart S \<longleftrightarrow>
     (\<forall>s et. sh_ty (S s) = Ty_User (User_Enum et) \<longrightarrow> distinct (map v_name (et_variants et)))"

text \<open>Names written before corresponding parts: each time the same, or both a string.\<close>

definition prefix_fits :: "hash_write list \<Rightarrow> hash_write list \<Rightarrow> bool" where
  "prefix_fits a b \<longleftrightarrow> a = b \<or> (\<exists>s t. a = [H_Str s] \<and> b = [H_Str t])"

definition node_fits :: "hash_node \<Rightarrow> hash_node \<Rightarrow> bool" where
  "node_fits x y \<longleftrightarrow>
     (\<forall>r s. fst x @ r = fst y @ s \<longrightarrow>
        fst x = fst y \<and> list_all2 (\<lambda>a b. prefix_fits (fst a) (fst b)) (snd x) (snd y))"

lemma prefix_fits_refl [simp]: "prefix_fits a a"
  by (simp add: prefix_fits_def)

lemma plain_fits [simp]: "list_all2 (\<lambda>a b. prefix_fits (fst a) (fst b)) (plain xs) (plain ys) \<longleftrightarrow> length xs = length ys"
  by (auto simp: plain_def list_all2_map1 list_all2_map2 list_all2_conv_all_nth)

lemma named_fits [simp]:
  "list_all2 (\<lambda>a b. prefix_fits (fst a) (fst b)) (named (fields_of p fs)) (named (fields_of q fs))"
  by (auto simp: named_def fields_of_def list_all2_map1 list_all2_map2 list_all2_conv_all_nth)

lemma length_fields_of [simp]: "length (fields_of p fs) = length fs"
  by (simp add: fields_of_def)

lemma struct_fits: "node_fits (hash_struct p st) (hash_struct q st)"
  by (simp add: node_fits_def hash_struct_def)

lemma enum_fits:
  assumes "distinct (map v_name (et_variants et))"
    and "hash_enum V S p et = Some x" and "hash_enum W S q et = Some y"
  shows "node_fits x y"
proof -
  obtain u v where uv: "active_variant V S et p = Some u" "active_variant W S et q = Some v"
    using assms(2,3) by (auto simp: hash_enum_def)
  then have "u \<in> set (et_variants et)" "v \<in> set (et_variants et)"
    by (auto simp: active_variant_index nth_opt_in_set)
  then have "v_name u = v_name v \<Longrightarrow> u = v" using assms(1) by (metis distinct_map inj_onD)
  with uv assms(2,3) show ?thesis
    by (auto simp: node_fits_def hash_enum_def Let_def split: struct_kind.splits)
qed

lemma dyn_array_length:
  "\<forall>i < n. vw_dyn_array_get V (pk_shape p) (pk_data p) (index + i) \<noteq> None \<Longrightarrow> length (dyn_array_from V p index n) = n"
proof (induction n arbitrary: index)
  case (Suc n)
  have "\<forall>i < n. vw_dyn_array_get V (pk_shape p) (pk_data p) (Suc index + i) \<noteq> None"
    using Suc.prems by (metis Suc_less_eq add_Suc_right add_Suc)
  moreover have "vw_dyn_array_get V (pk_shape p) (pk_data p) index \<noteq> None" using Suc.prems by (metis add_0_right zero_less_Suc)
  ultimately show ?case using Suc.IH by auto
qed simp

lemma dyn_object_length:
  "\<forall>i < n. vw_dyn_object_entry V (pk_shape p) (pk_data p) (index + i) \<noteq> None \<Longrightarrow> length (dyn_object_from V p index n) = n"
proof (induction n arbitrary: index)
  case (Suc n)
  have "\<forall>i < n. vw_dyn_object_entry V (pk_shape p) (pk_data p) (Suc index + i) \<noteq> None"
    using Suc.prems by (metis Suc_less_eq add_Suc_right add_Suc)
  moreover have "vw_dyn_object_entry V (pk_shape p) (pk_data p) index \<noteq> None"
    using Suc.prems by (metis add_0_right zero_less_Suc)
  ultimately show ?case using Suc.IH by auto
qed simp

lemma keyed_fits:
  "list_all2 (\<lambda>a b. prefix_fits (fst a) (fst b)) (map (\<lambda>(key, q). ([H_Str key], q)) xs) (map (\<lambda>(key, q). ([H_Str key], q)) ys)
     \<longleftrightarrow> length xs = length ys"
  by (auto simp: list_all2_map1 list_all2_map2 list_all2_conv_all_nth prefix_fits_def split_beta)

lemma dynamic_fits:
  assumes "dyn_answers texts V (pk_shape p) (pk_data p)" and "dyn_answers texts W (pk_shape q) (pk_data q)"
  shows "node_fits (hash_dynamic V p) (hash_dynamic W q)"
proof -
  have kind: "\<exists>ws. fst (hash_dynamic V p) = H_Kind (vw_dyn_kind V (pk_shape p) (pk_data p)) # ws" for V p
    by (auto simp: hash_dynamic_def Let_def split: dyn_kind.splits option.splits)
  show ?thesis
    unfolding node_fits_def
  proof (intro allI impI)
    fix r s
    assume eq: "fst (hash_dynamic V p) @ r = fst (hash_dynamic W q) @ s"
    then have same: "vw_dyn_kind V (pk_shape p) (pk_data p) = vw_dyn_kind W (pk_shape q) (pk_data q)"
      using kind [of V p] kind [of W q] by auto
    show "fst (hash_dynamic V p) = fst (hash_dynamic W q)
      \<and> list_all2 (\<lambda>a b. prefix_fits (fst a) (fst b)) (snd (hash_dynamic V p)) (snd (hash_dynamic W q))"
      using assms eq same
      by (cases "vw_dyn_kind W (pk_shape q) (pk_data q)")
        (auto simp: hash_dynamic_def dyn_answers_def dyn_text_def Let_def dyn_array_iter_def dyn_object_iter_def
          dyn_array_length dyn_object_length keyed_fits split: option.splits)
  qed
qed

lemma ndarray_fits:
  assumes V: "view_answers texts V" and W: "view_answers texts W"
  shows "node_fits (hash_ndarray V t p) (hash_ndarray W u q)"
proof -
  have nd: "\<exists>dims. hash_ndarray V t p = (H_Usize (length dims) # map H_Usize dims, snd (hash_ndarray V t p))
      \<and> snd (hash_ndarray V t p) = plain (map snd (snd (hash_ndarray V t p)))
      \<and> length (snd (hash_ndarray V t p)) = prod_list dims" if V: "view_answers texts V" for V t p
  proof -
    let ?s = "pk_shape p" and ?d = "pk_data p"
    obtain dims where dims: "map (vw_nd_dim V ?s ?d) [0..<vw_nd_n_dim V ?s ?d] = map Some dims"
      "vw_nd_count V ?s ?d = prod_list dims" using V unfolding view_answers_def by blast
    then have len: "length dims = vw_nd_n_dim V ?s ?d" by (metis length_map length_upt minus_nat.diff_0)
    have "List.map_filter (vw_nd_dim V ?s ?d) [0..<vw_nd_n_dim V ?s ?d] = List.map_filter id (map Some dims)"
      by (simp add: dims(1) [symmetric] map_filter_def filter_map comp_def)
    also have "\<dots> = dims" by (simp add: map_filter_def filter_map comp_def)
    finally have d: "List.map_filter (vw_nd_dim V ?s ?d) [0..<vw_nd_n_dim V ?s ?d] = dims" .
    have "\<forall>i \<in> set [0..<vw_nd_count V ?s ?d]. nd_get V t p i \<noteq> None"
      using V by (simp add: view_answers_def nd_get_def)
    then have "length (List.map_filter (nd_get V t p) [0..<vw_nd_count V ?s ?d]) = prod_list dims"
      using dims(2) by (simp add: map_filter_def)
    with d len show ?thesis by (intro exI [of _ dims]) (simp add: hash_ndarray_def Let_def plain_def comp_def)
  qed
  obtain ds es where n: "fst (hash_ndarray V t p) = H_Usize (length ds) # map H_Usize ds"
      "snd (hash_ndarray V t p) = plain (map snd (snd (hash_ndarray V t p)))"
      "length (snd (hash_ndarray V t p)) = prod_list ds"
      "fst (hash_ndarray W u q) = H_Usize (length es) # map H_Usize es"
      "snd (hash_ndarray W u q) = plain (map snd (snd (hash_ndarray W u q)))"
      "length (snd (hash_ndarray W u q)) = prod_list es"
    using nd [OF V, of t p] nd [OF W, of u q] by (metis fst_conv)
  show ?thesis
    unfolding node_fits_def
  proof (intro allI impI)
    fix r s
    assume "fst (hash_ndarray V t p) @ r = fst (hash_ndarray W u q) @ s"
    then have "length (map H_Usize ds) = length (map H_Usize es)" "map H_Usize ds @ r = map H_Usize es @ s"
      using n(1,4) by simp_all
    then have "map H_Usize ds = map H_Usize es" by (metis append_eq_append_conv)
    then have "ds = es" using inj_map_eq_map [of H_Usize] by (simp add: inj_def)
    then have "length (map snd (snd (hash_ndarray V t p))) = length (map snd (snd (hash_ndarray W u q)))"
      using n(3,6) by simp
    then have "list_all2 (\<lambda>a b. prefix_fits (fst a) (fst b)) (plain (map snd (snd (hash_ndarray V t p))))
        (plain (map snd (snd (hash_ndarray W u q))))" by simp
    then show "fst (hash_ndarray V t p) = fst (hash_ndarray W u q)
      \<and> list_all2 (\<lambda>a b. prefix_fits (fst a) (fst b)) (snd (hash_ndarray V t p)) (snd (hash_ndarray W u q))"
      using n(1,2,4,5) \<open>ds = es\<close> by simp
  qed
qed

lemma list_like_length:
  assumes V: "view_answers texts V" and l: "into_list_like V S p = Inr l"
    and "peek_def S p = Def_List t \<or> peek_def S p = Def_Array t n \<or> peek_def S p = Def_Slice t"
    and "list_like_iter V l = Some xs"
  shows "length xs = ll_len l"
proof -
  have items: "length (f d) = vw_list_len V s d" if "vw_list_items V s = Some f" for s f d
    using V that by (simp add: view_answers_def)
  show ?thesis
    using assms(2-4) items
    by (elim disjE) (auto simp: into_list_like_def Let_def list_like_new_def list_like_iter_def list_iter_def split: option.splits)
qed

lemma def_fits:
  assumes ids: "ids_faithful S" and tables: "same_tables V W S"
    and V: "view_answers texts V" and W: "view_answers texts W"
    and id: "sh_id (S (pk_shape p)) = sh_id (S (pk_shape q))"
    and x: "hash_by_def V S p = Some x" and y: "hash_by_def W S q = Some y"
  shows "node_fits x y"
proof -
  have same: "S (pk_shape q) = S (pk_shape p)" using ids id by (simp add: ids_faithful_def)
  have list_like: "node_fits x y"
    if d: "peek_def S p = Def_List t \<or> peek_def S p = Def_Array t n \<or> peek_def S p = Def_Slice t" for t n
  proof -
    obtain l k where l: "into_list_like V S p = Inr l" and k: "into_list_like W S q = Inr k"
      using d same by (elim disjE) (simp_all add: into_list_like_def)
    have dq: "peek_def S q = Def_List t \<or> peek_def S q = Def_Array t n \<or> peek_def S q = Def_Slice t"
      using d same by simp
    obtain xs ys where xs: "list_like_iter V l = Some xs" "x = ([H_Usize (ll_len l)], plain xs)"
      and ys: "list_like_iter W k = Some ys" "y = ([H_Usize (ll_len k)], plain ys)"
      using x y d l k same by (elim disjE) (auto simp: hash_by_def_def Let_def)
    show ?thesis
      using xs(2) ys(2) list_like_length [OF V l d xs(1)] list_like_length [OF W k dq ys(1)] by (simp add: node_fits_def)
  qed
  have set_len: "length (f d) = vw_set_len V s d" if "view_answers texts V" "vw_set_items V s = Some f" for V s f d
    using that by (simp add: view_answers_def)
  have map_len: "length (f d) = vw_map_len V s d" if "view_answers texts V" "vw_map_items V s = Some f" for V s f d
    using that by (simp add: view_answers_def)
  have pairs: "length (concat (map ((\<lambda>(a, b). [a, b]) \<circ> f) kvs)) = 2 * length kvs" for f :: "'z \<Rightarrow> peek \<times> peek" and kvs
    by (induction kvs) (simp_all add: split_beta)
  have res: "if vw_is_ok V s d then vw_result_ok V s d \<noteq> None else vw_result_err V s d \<noteq> None"
    if "view_answers texts V" for V s d
    using that unfolding view_answers_def by blast
  have dyn: "dyn_answers texts V s d" if "view_answers texts V" for V s d
    using that unfolding view_answers_def by blast
  show ?thesis
  proof (cases "peek_def S p")
    case (Def_Set t)
    then show ?thesis using x y same set_len [OF V] set_len [OF W]
      by (auto simp: hash_by_def_def Let_def set_iter_def node_fits_def)
  next
    case (Def_Map k v)
    then show ?thesis using x y same map_len [OF V] map_len [OF W]
      by (auto simp: hash_by_def_def Let_def map_iter_def node_fits_def pairs)
  next
    case (Def_Option t)
    then show ?thesis using x y same by (auto simp: hash_by_def_def Let_def node_fits_def split: option.splits)
  next
    case (Def_Result t e)
    then show ?thesis
      using x y same res [OF V, of "pk_shape p" "pk_data p"] res [OF W, of "pk_shape q" "pk_data q"]
      by (auto simp: hash_by_def_def Let_def node_fits_def result_ok_def result_err_def split: option.splits if_splits)
  next
    case (Def_Pointer t)
    have "(vw_borrow V (pk_shape p) = None) = (vw_borrow W (pk_shape q) = None)"
      using tables id unfolding same_tables_def by blast
    then show ?thesis using x y same Def_Pointer
      by (cases t) (auto simp: hash_by_def_def Let_def node_fits_def borrow_inner_def split: option.splits)
  next
    case Def_DynamicValue
    then show ?thesis using x y same dynamic_fits [OF dyn [OF V] dyn [OF W]] by (auto simp: hash_by_def_def Let_def)
  next
    case (Def_NdArray t)
    then show ?thesis using x y same ndarray_fits [OF V W] by (auto simp: hash_by_def_def Let_def)
  next
    case (Def_List t)
    then show ?thesis using list_like [of t 0] by blast
  next
    case (Def_Array t n)
    then show ?thesis using list_like by blast
  next
    case (Def_Slice t)
    then show ?thesis using list_like [of t 0] by blast
  next
    case Def_Undefined
    then show ?thesis using x y same
      by (auto simp: hash_by_def_def Let_def node_fits_def peek_scalar_type_def split: option.splits scalar_type.splits)
  next
    case Def_Scalar
    then show ?thesis using x y same
      by (auto simp: hash_by_def_def Let_def node_fits_def peek_scalar_type_def split: option.splits scalar_type.splits)
  qed
qed

lemma node_fits_same_type:
  assumes "ids_faithful S" and "same_tables V W S" and "view_answers texts V" and "view_answers texts W"
    and apart: "variants_named_apart S" and id: "sh_id (S (pk_shape p)) = sh_id (S (pk_shape q))"
    and x: "hash_node V S p = Some x" and y: "hash_node W S q = Some y"
  shows "node_fits x y"
proof -
  have same: "S (pk_shape q) = S (pk_shape p)" using assms(1) id by (simp add: ids_faithful_def)
  have by_def: "hash_by_def V S p = Some x \<Longrightarrow> hash_by_def W S q = Some y \<Longrightarrow> node_fits x y"
    by (rule def_fits [OF assms(1-4) id])
  show ?thesis
  proof (cases "peek_ty S p")
    case (Ty_User u)
    show ?thesis
    proof (cases u)
      case (User_Struct st)
      then show ?thesis using x y same Ty_User struct_fits by (auto simp: hash_node_def)
    next
      case (User_Enum et)
      then have "distinct (map v_name (et_variants et))" using apart Ty_User unfolding variants_named_apart_def by blast
      then show ?thesis using x y same Ty_User User_Enum enum_fits by (auto simp: hash_node_def)
    qed (use x y same Ty_User by_def in \<open>simp_all add: hash_node_def\<close>)
  qed (use x y same by_def in \<open>simp_all add: hash_node_def\<close>)
qed

text \<open>The parts, one after the other.\<close>

lemma parts_apart_by_writes:
  assumes "list_all2 (\<lambda>a b. prefix_fits (fst a) (fst b)) xs ys"
    and "hash_parts f xs = Ok a" and "hash_parts g ys = Ok b" and "a @ r = b @ s"
    and part: "\<And>x y c d r s. f x = Ok c \<Longrightarrow> g y = Ok d \<Longrightarrow> c @ r = d @ s \<Longrightarrow> P x y \<and> c = d"
  shows "list_all2 (\<lambda>x y. fst x = fst y \<and> P (snd x) (snd y)) xs ys \<and> a = b"
  using assms(1-4)
proof (induction xs ys arbitrary: a b rule: list_all2_induct)
  case Nil
  then show ?case by (simp add: hash_parts_simps)
next
  case (Cons x xs y ys)
  obtain v c where l: "f (snd x) = Ok v" "hash_parts f xs = Ok c" "a = fst x @ v @ c"
    using Cons.prems(1) by (rule hash_parts_Cons_Ok)
  obtain u d where e: "g (snd y) = Ok u" "hash_parts g ys = Ok d" "b = fst y @ u @ d"
    using Cons.prems(2) by (rule hash_parts_Cons_Ok)
  have "fst x = fst y" and eq: "v @ c @ r = u @ d @ s"
    using Cons.hyps(1) Cons.prems(3) l(3) e(3) by (auto simp: prefix_fits_def)
  moreover from part [OF l(1) e(1) eq] have "P (snd x) (snd y)" "v = u" by simp_all
  ultimately show ?case using Cons.IH [OF l(2) e(2)] l(3) e(3) by simp
qed

lemma same_writes_alike:
  assumes ids: "ids_faithful S" and tables: "same_tables V W S"
    and answers: "view_answers texts V" "view_answers texts W" and apart: "variants_named_apart S"
    and "structural_hash n V S p = Ok a" and "structural_hash n W S q = Ok b" and "a @ r = b @ s"
  shows "alike n V W S p q \<and> a = b"
  using assms(6-8)
proof (induction n arbitrary: p q a b r s)
  case (Suc n)
  have tab: "(vw_hash V (pk_shape p) d = None) = (vw_hash W (pk_shape q) e = None)"
      "vw_hash V (pk_shape p) d = Some ws \<Longrightarrow> vw_hash W (pk_shape q) e = Some vs \<Longrightarrow> ws @ xs = vs @ ys \<Longrightarrow> ws = vs"
    if "sh_id (S (pk_shape p)) = sh_id (S (pk_shape q))" for d e ws vs xs ys
    using tables that unfolding same_tables_def by blast+
  show ?case
  proof (rule structural_hash_Ok [OF Suc.prems(1)])
    fix ws
    assume l: "vw_hash V (pk_shape p) (pk_data p) = Some ws" "a = H_Id (sh_id (S (pk_shape p))) # map H_Write ws"
    show ?thesis
    proof (rule structural_hash_Ok [OF Suc.prems(2)])
      fix vs
      assume e: "vw_hash W (pk_shape q) (pk_data q) = Some vs" "b = H_Id (sh_id (S (pk_shape q))) # map H_Write vs"
      then have id: "sh_id (S (pk_shape p)) = sh_id (S (pk_shape q))" and eq: "map H_Write ws @ r = map H_Write vs @ s"
        using l Suc.prems(3) by simp_all
      have inj: "map H_Write xs = map H_Write ys \<Longrightarrow> xs = ys" for xs ys
        using inj_map_eq_map [of H_Write] by (simp add: inj_def)
      from eq obtain us where "map H_Write ws = map H_Write vs @ us \<or> map H_Write ws @ us = map H_Write vs"
        unfolding append_eq_append_conv2 by blast
      then obtain xs ys where "ws @ xs = vs @ ys"
      proof
        assume "map H_Write ws = map H_Write vs @ us"
        then have "map H_Write (take (length vs) ws) = map H_Write vs" by (simp add: take_map [symmetric])
        then have "ws @ [] = vs @ drop (length vs) ws" using inj by (metis append_Nil2 append_take_drop_id)
        then show thesis by (rule that)
      next
        assume "map H_Write ws @ us = map H_Write vs"
        then have "map H_Write (take (length ws) vs) = map H_Write ws" by (metis append_eq_conv_conj length_map take_map)
        then have "ws @ drop (length ws) vs = vs @ []" using inj by (metis append_Nil2 append_take_drop_id)
        then show thesis by (rule that)
      qed
      then have "ws = vs" by (rule tab(2) [OF id l(1) e(1)])
      with id l e show ?thesis by simp
    next
      fix k ys d
      assume "vw_hash W (pk_shape q) (pk_data q) = None" "b = H_Id (sh_id (S (pk_shape q))) # k @ d"
      then show ?thesis using l Suc.prems(3) tab(1) [of "pk_data p" "pk_data q"] by simp
    qed
  next
    fix h xs c
    assume l: "vw_hash V (pk_shape p) (pk_data p) = None" "hash_node V S p = Some (h, xs)"
      "hash_parts (structural_hash n V S) xs = Ok c" "a = H_Id (sh_id (S (pk_shape p))) # h @ c"
    show ?thesis
    proof (rule structural_hash_Ok [OF Suc.prems(2)])
      fix vs
      assume "vw_hash W (pk_shape q) (pk_data q) = Some vs" "b = H_Id (sh_id (S (pk_shape q))) # map H_Write vs"
      then show ?thesis using l Suc.prems(3) tab(1) [of "pk_data p" "pk_data q"] by simp
    next
      fix k ys d
      assume e: "vw_hash W (pk_shape q) (pk_data q) = None" "hash_node W S q = Some (k, ys)"
        "hash_parts (structural_hash n W S) ys = Ok d" "b = H_Id (sh_id (S (pk_shape q))) # k @ d"
      then have id: "sh_id (S (pk_shape p)) = sh_id (S (pk_shape q))" and eq: "h @ c @ r = k @ d @ s"
        using l Suc.prems(3) by simp_all
      have fits: "node_fits (h, xs) (k, ys)"
        by (rule node_fits_same_type [OF ids tables answers apart id l(2) e(2)])
      then have hk: "h = k" and all: "list_all2 (\<lambda>a b. prefix_fits (fst a) (fst b)) xs ys"
        using eq unfolding node_fits_def by (metis fst_conv snd_conv)+
      then have eq': "c @ r = d @ s" using eq by simp
      have "list_all2 (\<lambda>x y. fst x = fst y \<and> alike n V W S (snd x) (snd y)) xs ys \<and> c = d"
        by (rule parts_apart_by_writes [OF all l(3) e(3) eq' Suc.IH])
      with hk id l(1,2,4) e(1,2,4) show ?thesis by simp
    qed
  qed
qed simp

section \<open>Hashing ends where values end\<close>

lemma structural_hash_ends:
  assumes "\<And>p h xs x. hash_node V S p = Some (h, xs) \<Longrightarrow> x \<in> set xs \<Longrightarrow> rank (snd x) < rank p" and "rank p < n"
  shows "structural_hash n V S p \<noteq> Overrun"
  using assms(2)
proof (induction n arbitrary: p)
  case (Suc n)
  have "hash_parts (structural_hash n V S) xs \<noteq> Overrun" if "hash_node V S p = Some (h, xs)" for h xs
    unfolding hash_parts_def
  proof (simp add: obind_eq_Overrun, rule rmap_no_overrun)
    fix x assume "x \<in> set xs"
    then have "rank (snd x) < n" using assms(1) [OF that] Suc.prems by fastforce
    then have "structural_hash n V S (snd x) \<noteq> Overrun" by (rule Suc.IH)
    then show "(case x of (ws, q) \<Rightarrow> obind (structural_hash n V S q) (\<lambda>vs. Ok (ws @ vs))) \<noteq> Overrun"
      by (simp add: obind_eq_Overrun split_beta)
  qed
  then show ?case by (simp add: Let_def obind_eq_Overrun split: option.splits)
qed simp

end
