(* ===== verification/Peek_Fields.thy ===== *)
theory Peek_Fields
  imports Peek
begin

text \<open>
  The fields of a value that are serialized (facet-reflect, src/peek/fields.rs). The iterator keeps
  a stack of what is left to visit: fields, entries of a flattened map, items of a flattened list, the
  inside of a flattened option, a flattened enum. Its steps are those of the code; the lemmas show that
  the items it yields are those of a recursive definition, \<open>serial_fields\<close>, in depth-first order.
\<close>

section \<open>Items\<close>

record field_item =
  it_field :: "field option"
  it_name :: string
  it_rename :: "string option"
  it_flattened :: bool
  it_is_text_variant :: bool

definition field_item_new :: "field \<Rightarrow> field_item" where
  "field_item_new f =
     \<lparr>it_field = Some f, it_name = f_name f, it_rename = f_rename f, it_flattened = False,
      it_is_text_variant = False\<rparr>"

definition variant_is_text :: "variant \<Rightarrow> bool" where
  "variant_is_text v \<longleftrightarrow> attrs_have (v_attributes v) None ''text''
     \<or> attrs_have (v_attributes v) (Some ''html'') ''text'' \<or> attrs_have (v_attributes v) (Some ''xml'') ''text''"

definition flattened_enum :: "field \<Rightarrow> variant \<Rightarrow> field_item" where
  "flattened_enum f v =
     \<lparr>it_field = Some f, it_name = v_name v, it_rename = v_rename v, it_flattened = True,
      it_is_text_variant = variant_is_text v\<rparr>"

definition flattened_map_entry :: "string \<Rightarrow> field_item" where
  "flattened_map_entry key =
     \<lparr>it_field = None, it_name = key, it_rename = None, it_flattened = True, it_is_text_variant = False\<rparr>"

definition item_effective_name :: "field_item \<Rightarrow> string" where
  "item_effective_name it = (case it_rename it of Some r \<Rightarrow> r | None \<Rightarrow> it_name it)"

section \<open>Keys of flattened maps\<close>

text \<open>The value inside a metadata container: its first field that is not metadata.\<close>

definition container_value :: "shapes \<Rightarrow> peek \<Rightarrow> peek option" where
  "container_value S p =
     (if is_metadata_container (S (pk_shape p))
      then (case peek_ty S p of
              Ty_User (User_Struct st) \<Rightarrow>
                map_option (field_peek p) (List.find (\<lambda>f. f_metadata f = None) (st_fields st))
            | _ \<Rightarrow> None)
      else None)"

partial_function (option) extract_string :: "view \<Rightarrow> shapes \<Rightarrow> peek \<Rightarrow> string option option option" where
  "extract_string V S p =
     (case peek_as_str V S p of
        Some (Some None) \<Rightarrow>
          (case container_value S p of None \<Rightarrow> Some (Some None) | Some q \<Rightarrow> extract_string V S q)
      | r \<Rightarrow> r)"

declare extract_string.simps [code]

text \<open>The name of an entry: the key as a string, or as it displays; other keys have none.\<close>

definition entry_name :: "view \<Rightarrow> shapes \<Rightarrow> peek \<Rightarrow> string option option option" where
  "entry_name V S key =
     map_option (map_option (\<lambda>r. case r of
         Some s \<Rightarrow> Some s
       | None \<Rightarrow> vw_display V (pk_shape key) (pk_data key)))
       (extract_string V S key)"

section \<open>The iterator\<close>

datatype ser_state =
  Ser_Fields "(field \<times> peek) list"
| Ser_Enum field_item peek
| Ser_Map "(peek \<times> peek) list"
| Ser_List field "peek list"
| Ser_Option field peek

text \<open>What one turn of the loop does: it finds the stack empty, yields, goes on,
  panics, or hangs in a value that points to itself. The stack has its top first.\<close>

datatype ser_step =
  Ser_Done | Ser_Panic | Ser_Hang | Ser_Yield field_item peek "ser_state list" | Ser_Go "ser_state list"

definition newtype_variant_data :: "variant \<Rightarrow> bool" where
  "newtype_variant_data v \<longleftrightarrow> st_kind (v_data v) \<in> {Kind_TupleStruct, Kind_Tuple} \<and> length (st_fields (v_data v)) = 1"

text \<open>A flattened enum is replaced by its variant: nothing for a unit variant, the payload of a
  newtype variant, the enum itself otherwise.\<close>

definition push_enum :: "view \<Rightarrow> shapes \<Rightarrow> field \<Rightarrow> peek \<Rightarrow> enum_type \<Rightarrow> ser_state list \<Rightarrow> ser_step" where
  "push_enum V S f p et stack =
     (case active_variant V S et p of
        None \<Rightarrow> Ser_Panic
      | Some v \<Rightarrow>
          if st_kind (v_data v) = Kind_Unit then Ser_Go stack
          else if newtype_variant_data v
          then (case enum_field V S et p 0 of
                  Some (Some inner_value) \<Rightarrow> Ser_Go (Ser_Enum (flattened_enum f v) inner_value # stack)
                | _ \<Rightarrow> Ser_Panic)
          else Ser_Go (Ser_Enum (flattened_enum f v) p # stack))"

definition push_map :: "view \<Rightarrow> sref \<times> sref \<Rightarrow> peek \<Rightarrow> ser_state list \<Rightarrow> ser_step" where
  "push_map V kv p stack =
     (case map_iter V kv p of None \<Rightarrow> Ser_Panic | Some entries \<Rightarrow> Ser_Go (Ser_Map entries # stack))"

definition push_struct :: "peek \<Rightarrow> struct_type \<Rightarrow> ser_state list \<Rightarrow> ser_step" where
  "push_struct p st stack = Ser_Go (Ser_Fields (fields_of p (st_fields st)) # stack)"

definition step_map :: "view \<Rightarrow> shapes \<Rightarrow> (peek \<times> peek) list \<Rightarrow> ser_state list \<Rightarrow> ser_step" where
  "step_map V S entries stack =
     (case entries of
        [] \<Rightarrow> Ser_Go stack
      | (key, value) # entries \<Rightarrow>
          (case entry_name V S key of
             None \<Rightarrow> Ser_Hang
           | Some None \<Rightarrow> Ser_Panic
           | Some (Some None) \<Rightarrow> Ser_Go (Ser_Map entries # stack)
           | Some (Some (Some name)) \<Rightarrow>
               Ser_Yield (flattened_map_entry name) value (Ser_Map entries # stack)))"

definition step_list :: "view \<Rightarrow> shapes \<Rightarrow> field \<Rightarrow> peek list \<Rightarrow> ser_state list \<Rightarrow> ser_step" where
  "step_list V S f items stack =
     (case items of
        [] \<Rightarrow> Ser_Go stack
      | p # items \<Rightarrow>
          (let stack = Ser_List f items # stack
           in case into_enum S p of
                Inl e \<Rightarrow> Ser_Go stack
              | Inr et \<Rightarrow>
                  (case active_variant V S et p of
                     None \<Rightarrow> Ser_Panic
                   | Some v \<Rightarrow>
                       if st_kind (v_data v) \<noteq> Kind_Unit \<and> newtype_variant_data v
                       then (case enum_field V S et p 0 of
                               Some (Some inner_value) \<Rightarrow> Ser_Yield (flattened_enum f v) inner_value stack
                             | _ \<Rightarrow> Ser_Panic)
                       else Ser_Yield (flattened_enum f v) p stack)))"

definition step_option :: "view \<Rightarrow> shapes \<Rightarrow> field \<Rightarrow> peek \<Rightarrow> ser_state list \<Rightarrow> ser_step" where
  "step_option V S f inner stack =
     (case into_struct S inner of
        Inr st \<Rightarrow> push_struct inner st stack
      | Inl e \<Rightarrow>
          (case into_enum S inner of
             Inr et \<Rightarrow> push_enum V S f inner et stack
           | Inl e \<Rightarrow>
               (case into_map S inner of Inr kv \<Rightarrow> push_map V kv inner stack | Inl e \<Rightarrow> Ser_Go stack)))"

text \<open>The order of the tests on a flattened field.\<close>

definition step_flattened :: "view \<Rightarrow> shapes \<Rightarrow> field \<Rightarrow> peek \<Rightarrow> ser_state list \<Rightarrow> ser_step" where
  "step_flattened V S f p stack =
     (case into_option S p of
        Inr t \<Rightarrow>
          Ser_Go (case option_value V t p of Some inner \<Rightarrow> Ser_Option f inner # stack | None \<Rightarrow> stack)
      | Inl e \<Rightarrow>
          (case innermost_peek V S p of
             None \<Rightarrow> Ser_Hang
           | Some None \<Rightarrow> Ser_Panic
           | Some (Some q) \<Rightarrow>
               (case into_struct S q of
                  Inr st \<Rightarrow> push_struct q st stack
                | Inl e \<Rightarrow>
                    (case into_enum S p of
                       Inr et \<Rightarrow> push_enum V S f p et stack
                     | Inl e \<Rightarrow>
                         (case into_map S p of
                            Inr kv \<Rightarrow> push_map V kv p stack
                          | Inl e \<Rightarrow>
                              (case into_list S p of
                                 Inr t \<Rightarrow>
                                   (case list_iter V t p of
                                      None \<Rightarrow> Ser_Panic
                                    | Some items \<Rightarrow> Ser_Go (Ser_List f items # stack))
                               | Inl e \<Rightarrow> Ser_Panic))))))"

definition skips :: "view \<Rightarrow> bool \<Rightarrow> field \<Rightarrow> peek \<Rightarrow> bool" where
  "skips V skip_predicates f p \<longleftrightarrow>
     (if skip_predicates then should_skip_serializing (vw_call V) f (pk_data p)
      else should_skip_serializing_unconditional f)"

definition step_fields :: "view \<Rightarrow> shapes \<Rightarrow> bool \<Rightarrow> (field \<times> peek) list \<Rightarrow> ser_state list \<Rightarrow> ser_step" where
  "step_fields V S skip_predicates fs stack =
     (case fs of
        [] \<Rightarrow> Ser_Go stack
      | (f, p) # fs \<Rightarrow>
          (let stack = Ser_Fields fs # stack
           in if skips V skip_predicates f p then Ser_Go stack
              else if is_flattened f then step_flattened V S f p stack
              else Ser_Yield (field_item_new f) p stack))"

fun ser_turn :: "view \<Rightarrow> shapes \<Rightarrow> bool \<Rightarrow> ser_state \<Rightarrow> ser_state list \<Rightarrow> ser_step" where
  "ser_turn V S b (Ser_Enum it p) stack = Ser_Yield it p stack"
| "ser_turn V S b (Ser_Map entries) stack = step_map V S entries stack"
| "ser_turn V S b (Ser_List f items) stack = step_list V S f items stack"
| "ser_turn V S b (Ser_Option f inner) stack = step_option V S f inner stack"
| "ser_turn V S b (Ser_Fields fs) stack = step_fields V S b fs stack"

definition ser_top :: "view \<Rightarrow> shapes \<Rightarrow> bool \<Rightarrow> ser_state list \<Rightarrow> ser_step" where
  "ser_top V S b stack = (case stack of [] \<Rightarrow> Ser_Done | st # stack \<Rightarrow> ser_turn V S b st stack)"

text \<open>\<open>next\<close>: \<open>None\<close> when it does not return, \<open>Some None\<close> for a panic, and otherwise the item, if
  there is one, with the stack that is left.\<close>

partial_function (option) ser_next ::
    "view \<Rightarrow> shapes \<Rightarrow> bool \<Rightarrow> ser_state list \<Rightarrow> ((field_item \<times> peek) option \<times> ser_state list) option option" where
  "ser_next V S b stack =
     (case ser_top V S b stack of
        Ser_Done \<Rightarrow> Some (Some (None, []))
      | Ser_Hang \<Rightarrow> None
      | Ser_Panic \<Rightarrow> Some None
      | Ser_Yield it p rest \<Rightarrow> Some (Some (Some (it, p), rest))
      | Ser_Go rest \<Rightarrow> ser_next V S b rest)"

declare ser_next.simps [code]

text \<open>All items, as a \<open>for\<close> loop sees them.\<close>

partial_function (option) ser_collect ::
    "view \<Rightarrow> shapes \<Rightarrow> bool \<Rightarrow> ser_state list \<Rightarrow> (field_item \<times> peek) list option option" where
  "ser_collect V S b stack =
     Option.bind (ser_next V S b stack) (\<lambda>r. case r of
         None \<Rightarrow> Some None
       | Some (None, stack) \<Rightarrow> Some (Some [])
       | Some (Some item, stack) \<Rightarrow> Option.bind (ser_collect V S b stack) (\<lambda>r. Some (map_option (Cons item) r)))"

declare ser_collect.simps [code]

definition fields_for_serialize :: "view \<Rightarrow> shapes \<Rightarrow> (field \<times> peek) list \<Rightarrow> (field_item \<times> peek) list option option" where
  "fields_for_serialize V S fs = ser_collect V S True [Ser_Fields fs]"

definition fields_for_binary_serialize :: "view \<Rightarrow> shapes \<Rightarrow> (field \<times> peek) list \<Rightarrow> (field_item \<times> peek) list option option" where
  "fields_for_binary_serialize V S fs = ser_collect V S False [Ser_Fields fs]"

section \<open>The items, recursively\<close>

text \<open>What a value contributes, by fuel for its depth: \<open>Err\<close> is a panic, and \<open>Overrun\<close> stands for
  too little fuel or for a value that points to itself.\<close>

definition once :: "'a option option \<Rightarrow> (unit, 'a) outcome" where
  "once r = (case r of None \<Rightarrow> Overrun | Some None \<Rightarrow> Err () | Some (Some x) \<Rightarrow> Ok x)"

definition concat_map :: "('a \<Rightarrow> (unit, 'b list) outcome) \<Rightarrow> 'a list \<Rightarrow> (unit, 'b list) outcome" where
  "concat_map f xs = obind (rmap f xs) (\<lambda>l. Ok (concat l))"

definition unwrap :: "'a option \<Rightarrow> (unit, 'a) outcome" where
  "unwrap r = (case r of None \<Rightarrow> Err () | Some x \<Rightarrow> Ok x)"

definition serial_entry :: "view \<Rightarrow> shapes \<Rightarrow> peek \<times> peek \<Rightarrow> (unit, (field_item \<times> peek) list) outcome" where
  "serial_entry V S e =
     obind (once (entry_name V S (fst e))) (\<lambda>name. Ok (case name of
         Some s \<Rightarrow> [(flattened_map_entry s, snd e)] | None \<Rightarrow> []))"

definition payload :: "view \<Rightarrow> shapes \<Rightarrow> enum_type \<Rightarrow> peek \<Rightarrow> variant \<Rightarrow> (unit, peek) outcome" where
  "payload V S et p v =
     (if st_kind (v_data v) \<noteq> Kind_Unit \<and> newtype_variant_data v
      then (case enum_field V S et p 0 of Some (Some q) \<Rightarrow> Ok q | _ \<Rightarrow> Err ())
      else Ok p)"

definition serial_variant :: "view \<Rightarrow> shapes \<Rightarrow> bool \<Rightarrow> field \<Rightarrow> enum_type \<Rightarrow> peek \<Rightarrow> (unit, (field_item \<times> peek) list) outcome" where
  "serial_variant V S units f et p =
     obind (unwrap (active_variant V S et p)) (\<lambda>v.
       if st_kind (v_data v) = Kind_Unit \<and> \<not> units then Ok []
       else obind (payload V S et p v) (\<lambda>q. Ok [(flattened_enum f v, q)]))"

definition serial_item :: "view \<Rightarrow> shapes \<Rightarrow> field \<Rightarrow> peek \<Rightarrow> (unit, (field_item \<times> peek) list) outcome" where
  "serial_item V S f p =
     (case into_enum S p of Inl e \<Rightarrow> Ok [] | Inr et \<Rightarrow> serial_variant V S True f et p)"

definition serial_some ::
    "(peek \<Rightarrow> struct_type \<Rightarrow> (unit, (field_item \<times> peek) list) outcome) \<Rightarrow> view \<Rightarrow> shapes \<Rightarrow> field \<Rightarrow> peek
       \<Rightarrow> (unit, (field_item \<times> peek) list) outcome" where
  "serial_some inside V S f q =
     (case peek_ty S q of
        Ty_User (User_Struct st) \<Rightarrow> inside q st
      | Ty_User (User_Enum et) \<Rightarrow> serial_variant V S False f et q
      | _ \<Rightarrow>
          (case into_map S q of
             Inr kv \<Rightarrow> obind (unwrap (map_iter V kv q)) (concat_map (serial_entry V S))
           | Inl e \<Rightarrow> Ok []))"

fun serial_fields :: "nat \<Rightarrow> view \<Rightarrow> shapes \<Rightarrow> bool \<Rightarrow> (field \<times> peek) list \<Rightarrow> (unit, (field_item \<times> peek) list) outcome" where
  "serial_fields 0 V S b fs = Overrun"
| "serial_fields (Suc n) V S b fs =
     concat_map (\<lambda>(f, p).
       let inside = (\<lambda>q st. serial_fields n V S b (fields_of q (st_fields st)));
           entries = (\<lambda>kv q. obind (unwrap (map_iter V kv q)) (concat_map (serial_entry V S)))
       in if skips V b f p then Ok []
          else if \<not> is_flattened f then Ok [(field_item_new f, p)]
          else case into_option S p of
                 Inr t \<Rightarrow>
                   (case option_value V t p of
                      None \<Rightarrow> Ok []
                    | Some q \<Rightarrow>
                        serial_some inside V S f q)
               | Inl e \<Rightarrow>
                   obind (once (innermost_peek V S p)) (\<lambda>q.
                     case into_struct S q of
                       Inr st \<Rightarrow> inside q st
                     | Inl e \<Rightarrow>
                         (case into_enum S p of
                            Inr et \<Rightarrow> serial_variant V S False f et p
                          | Inl e \<Rightarrow>
                              (case into_map S p of
                                 Inr kv \<Rightarrow> entries kv p
                               | Inl e \<Rightarrow>
                                   (case into_list S p of
                                      Inr t \<Rightarrow> obind (unwrap (list_iter V t p)) (concat_map (serial_item V S f))
                                    | Inl e \<Rightarrow> Err ()))))) fs"

section \<open>The iterator computes the recursion\<close>

lemma ser_collect_Nil [simp]: "ser_collect V S b [] = Some (Some [])"
  by (simp add: ser_collect.simps ser_next.simps ser_top_def)

text \<open>The items of an outcome, before those that follow.\<close>

fun before :: "(unit, 'a list) outcome \<Rightarrow> 'a list option option \<Rightarrow> 'a list option option" where
  "before Overrun rest = None"
| "before (Err e) rest = Some None"
| "before (Ok xs) rest = (case rest of Some (Some ys) \<Rightarrow> Some (Some (xs @ ys)) | r \<Rightarrow> r)"

lemma before_Nil [simp]: "before (Ok []) rest = rest"
  by (simp split: option.splits)

lemma before_one: "Option.bind rest (\<lambda>r. Some (map_option (Cons x) r)) = before (Ok [x]) rest"
  by (cases rest) (auto split: option.splits)

lemma before_append: "before (Ok (xs @ ys)) rest = before (Ok xs) (before (Ok ys) rest)"
  by (simp split: option.splits)

lemma ser_collect_turn:
  "ser_turn V S b st stack = Ser_Go rest \<Longrightarrow> ser_collect V S b (st # stack) = ser_collect V S b rest"
  "ser_turn V S b st stack = Ser_Panic \<Longrightarrow> ser_collect V S b (st # stack) = Some None"
  "ser_turn V S b st stack = Ser_Yield it p rest \<Longrightarrow>
     ser_collect V S b (st # stack) = before (Ok [(it, p)]) (ser_collect V S b rest)"
  by (subst ser_collect.simps, subst ser_next.simps,
      simp add: ser_top_def ser_collect.simps [of V S b rest] before_one)+

lemma before_Panic [simp]: "before (Ok xs) (Some None) = Some None"
  by simp

declare before.simps(3) [simp del]

lemma concat_map_simps [simp]:
  "concat_map f [] = Ok []"
  "concat_map f (x # xs) = obind (f x) (\<lambda>a. obind (concat_map f xs) (\<lambda>b. Ok (a @ b)))"
  by (simp_all add: concat_map_def obind_assoc)

lemma before_concat_map:
  assumes "concat_map f (x # xs) \<noteq> Overrun"
  shows "before (concat_map f (x # xs)) rest = before (f x) (before (concat_map f xs) rest)"
    and "f x \<noteq> Overrun" and "f x = Ok a \<Longrightarrow> concat_map f xs \<noteq> Overrun"
proof -
  show "f x \<noteq> Overrun" "f x = Ok a \<Longrightarrow> concat_map f xs \<noteq> Overrun" using assms by auto
  show "before (concat_map f (x # xs)) rest = before (f x) (before (concat_map f xs) rest)"
  proof (cases "f x")
    case (Ok a)
    then show ?thesis
      using assms by (cases "concat_map f xs") (simp_all only: concat_map_simps obind.simps before_append [symmetric], simp_all)
  qed (use assms in simp_all)
qed

lemma collect_loop:
  assumes step: "\<And>x xs stack. f x \<noteq> Overrun \<Longrightarrow>
      ser_collect V S b (st (x # xs) # stack) = before (f x) (ser_collect V S b (st xs # stack))"
    and finished: "\<And>stack. ser_collect V S b (st [] # stack) = ser_collect V S b stack"
    and "concat_map f xs \<noteq> Overrun"
  shows "ser_collect V S b (st xs # stack) = before (concat_map f xs) (ser_collect V S b stack)"
  using assms(3)
proof (induction xs)
  case Nil
  then show ?case by (simp add: finished)
next
  case (Cons x xs)
  note ends = before_concat_map [OF Cons.prems]
  show ?case
  proof (cases "f x")
    case (Ok a)
    then show ?thesis using step ends Cons.IH by simp
  qed (use step ends in simp_all)
qed

lemma once_simps [simp]: "once None = Overrun" "once (Some None) = Err ()" "once (Some (Some x)) = Ok x"
  by (simp_all add: once_def)

lemma once_cases: "once r \<noteq> Overrun \<Longrightarrow> r = Some None \<and> once r = Err () \<or> (\<exists>x. r = Some (Some x) \<and> once r = Ok x)"
  by (auto simp: once_def split: option.splits)

lemma collect_map:
  assumes "concat_map (serial_entry V S) entries \<noteq> Overrun"
  shows "ser_collect V S b (Ser_Map entries # stack)
    = before (concat_map (serial_entry V S) entries) (ser_collect V S b stack)"
proof (rule collect_loop [OF _ _ assms])
  fix e entries stack
  assume "serial_entry V S e \<noteq> Overrun"
  then have "once (entry_name V S (fst e)) \<noteq> Overrun" by (auto simp: serial_entry_def)
  from once_cases [OF this]
  show "ser_collect V S b (Ser_Map (e # entries) # stack)
      = before (serial_entry V S e) (ser_collect V S b (Ser_Map entries # stack))"
    by (cases e) (auto simp: serial_entry_def step_map_def ser_collect_turn split: option.splits)
qed (simp add: ser_collect_turn step_map_def)

lemma collect_list:
  assumes "concat_map (serial_item V S f) items \<noteq> Overrun"
  shows "ser_collect V S b (Ser_List f items # stack)
    = before (concat_map (serial_item V S f) items) (ser_collect V S b stack)"
proof (rule collect_loop [OF _ _ assms])
  fix p items stack
  show "ser_collect V S b (Ser_List f (p # items) # stack)
      = before (serial_item V S f p) (ser_collect V S b (Ser_List f items # stack))"
  proof (cases "into_enum S p")
    case (Inl e)
    then show ?thesis by (simp add: serial_item_def step_list_def ser_collect_turn)
  next
    case (Inr et)
    then show ?thesis
      by (cases "active_variant V S et p"; cases "enum_field V S et p 0")
        (auto simp: serial_item_def serial_variant_def payload_def unwrap_def step_list_def Let_def ser_collect_turn
          split: option.splits simp del: into_cases)
  qed
qed (simp add: ser_collect_turn step_list_def)

lemma collect_enum:
  assumes "ser_turn V S b st stack = push_enum V S f p et rest"
  shows "ser_collect V S b (st # stack) = before (serial_variant V S False f et p) (ser_collect V S b rest)"
  using assms
  by (cases "active_variant V S et p"; cases "enum_field V S et p 0")
    (auto simp: serial_variant_def payload_def unwrap_def push_enum_def ser_collect_turn split: option.splits if_splits)

lemma collect_entries:
  assumes "ser_turn V S b st stack = push_map V kv p rest"
    and "obind (unwrap (map_iter V kv p)) (concat_map (serial_entry V S)) \<noteq> Overrun"
  shows "ser_collect V S b (st # stack)
    = before (obind (unwrap (map_iter V kv p)) (concat_map (serial_entry V S))) (ser_collect V S b rest)"
  using assms
  by (cases "map_iter V kv p") (auto simp: unwrap_def push_map_def ser_collect_turn collect_map)

text \<open>The contribution of one field, as in \<open>serial_fields\<close>.\<close>

definition serial_field ::
    "(peek \<Rightarrow> struct_type \<Rightarrow> (unit, (field_item \<times> peek) list) outcome) \<Rightarrow> view \<Rightarrow> shapes \<Rightarrow> bool \<Rightarrow> field \<times> peek
       \<Rightarrow> (unit, (field_item \<times> peek) list) outcome" where
  "serial_field inside V S b fp =
     (case fp of (f, p) \<Rightarrow>
       let entries = (\<lambda>kv q. obind (unwrap (map_iter V kv q)) (concat_map (serial_entry V S)))
       in if skips V b f p then Ok []
          else if \<not> is_flattened f then Ok [(field_item_new f, p)]
          else case into_option S p of
                 Inr t \<Rightarrow>
                   (case option_value V t p of
                      None \<Rightarrow> Ok []
                    | Some q \<Rightarrow>
                        serial_some inside V S f q)
               | Inl e \<Rightarrow>
                   obind (once (innermost_peek V S p)) (\<lambda>q.
                     case into_struct S q of
                       Inr st \<Rightarrow> inside q st
                     | Inl e \<Rightarrow>
                         (case into_enum S p of
                            Inr et \<Rightarrow> serial_variant V S False f et p
                          | Inl e \<Rightarrow>
                              (case into_map S p of
                                 Inr kv \<Rightarrow> entries kv p
                               | Inl e \<Rightarrow>
                                   (case into_list S p of
                                      Inr t \<Rightarrow> obind (unwrap (list_iter V t p)) (concat_map (serial_item V S f))
                                    | Inl e \<Rightarrow> Err ())))))"

lemma serial_fields_Suc:
  "serial_fields (Suc n) V S b fs =
     concat_map (serial_field (\<lambda>q st. serial_fields n V S b (fields_of q (st_fields st))) V S b) fs"
  by (simp add: serial_field_def [abs_def])

lemma collect_option:
  assumes inside: "\<And>q st stack. inside q st \<noteq> Overrun \<Longrightarrow>
      ser_collect V S b (Ser_Fields (fields_of q (st_fields st)) # stack) = before (inside q st) (ser_collect V S b stack)"
    and ends: "serial_some inside V S f q \<noteq> Overrun"
  shows "ser_collect V S b (Ser_Option f q # stack) =
    before (serial_some inside V S f q)
      (ser_collect V S b stack)"
proof -
  have turn: "ser_turn V S b (Ser_Option f q) stack = step_option V S f q stack" by simp
  have struct: "into_struct S q = (case peek_ty S q of Ty_User (User_Struct st) \<Rightarrow> Inr st | _ \<Rightarrow> Inl (was_not_a ''struct'' q))"
    and enum: "into_enum S q = (case peek_ty S q of Ty_User (User_Enum et) \<Rightarrow> Inr et | _ \<Rightarrow> Inl (was_not_a ''enum'' q))"
    by (simp_all add: into_struct_def into_enum_def)
  have other: "ser_collect V S b (Ser_Option f q # stack) =
      before (case into_map S q of
          Inr kv \<Rightarrow> obind (unwrap (map_iter V kv q)) (concat_map (serial_entry V S)) | Inl e \<Rightarrow> Ok [])
        (ser_collect V S b stack)"
    if "into_struct S q = Inl e" "into_enum S q = Inl e'"
      "(case into_map S q of
          Inr kv \<Rightarrow> obind (unwrap (map_iter V kv q)) (concat_map (serial_entry V S)) | Inl e \<Rightarrow> Ok []) \<noteq> Overrun" for e e'
  proof (cases "into_map S q")
    case (Inl e)
    with that show ?thesis by (simp add: ser_collect_turn(1) turn step_option_def)
  next
    case (Inr kv)
    have "ser_turn V S b (Ser_Option f q) stack = push_map V kv q stack"
      using that(1,2) Inr by (simp add: turn step_option_def del: into_cases)
    from collect_entries [OF this] that(3) Inr show ?thesis by (simp del: into_cases)
  qed
  show ?thesis
  proof (cases "peek_ty S q")
    case (Ty_User u)
    show ?thesis
    proof (cases u)
      case (User_Struct st)
      then show ?thesis
        using ends Ty_User User_Struct inside by (simp add: serial_some_def ser_collect_turn(1) turn step_option_def struct push_struct_def)
    next
      case (User_Enum et)
      then have "ser_turn V S b (Ser_Option f q) stack = push_enum V S f q et stack"
        using Ty_User by (simp add: turn step_option_def struct enum)
      from collect_enum [OF this] Ty_User User_Enum show ?thesis by (simp add: serial_some_def)
    qed (use ends Ty_User other in \<open>simp_all add: serial_some_def struct enum\<close>)
  qed (use ends other in \<open>simp_all add: serial_some_def struct enum\<close>)
qed

lemma collect_field:
  assumes inside: "\<And>q st stack. inside q st \<noteq> Overrun \<Longrightarrow>
      ser_collect V S b (Ser_Fields (fields_of q (st_fields st)) # stack) = before (inside q st) (ser_collect V S b stack)"
    and ends: "serial_field inside V S b (f, p) \<noteq> Overrun"
  shows "ser_collect V S b (Ser_Fields ((f, p) # fs) # stack)
    = before (serial_field inside V S b (f, p)) (ser_collect V S b (Ser_Fields fs # stack))"
proof -
  let ?rest = "Ser_Fields fs # stack"
  have turn: "ser_turn V S b (Ser_Fields ((f, p) # fs)) stack =
      (if skips V b f p then Ser_Go ?rest
       else if is_flattened f then step_flattened V S f p ?rest else Ser_Yield (field_item_new f) p ?rest)"
    by (simp add: step_fields_def)
  show ?thesis
  proof (cases "skips V b f p \<or> \<not> is_flattened f")
    case True
    then show ?thesis
      by (cases "skips V b f p") (simp_all add: ser_collect_turn(1,3) step_fields_def serial_field_def)
  next
    case False
    then have turn: "step_fields V S b ((f, p) # fs) stack = step_flattened V S f p ?rest" using turn by simp
    note go = ser_collect_turn(1)
    have field: "serial_field inside V S b (f, p) =
        (case into_option S p of
           Inr t \<Rightarrow>
             (case option_value V t p of
                None \<Rightarrow> Ok []
              | Some q \<Rightarrow>
                  serial_some inside V S f q)
         | Inl e \<Rightarrow>
             obind (once (innermost_peek V S p)) (\<lambda>q.
               case into_struct S q of
                 Inr st \<Rightarrow> inside q st
               | Inl e \<Rightarrow>
                   (case into_enum S p of
                      Inr et \<Rightarrow> serial_variant V S False f et p
                    | Inl e \<Rightarrow>
                        (case into_map S p of
                           Inr kv \<Rightarrow> obind (unwrap (map_iter V kv p)) (concat_map (serial_entry V S))
                         | Inl e \<Rightarrow>
                             (case into_list S p of
                                Inr t \<Rightarrow> obind (unwrap (list_iter V t p)) (concat_map (serial_item V S f))
                              | Inl e \<Rightarrow> Err ())))))"
      using False by (simp add: serial_field_def Let_def)
    show ?thesis
    proof (cases "into_option S p")
      case (Inr t)
      show ?thesis
      proof (cases "option_value V t p")
        case None
        then show ?thesis using Inr go by (simp add: turn field step_flattened_def del: into_cases)
      next
        case (Some q)
        have "ser_collect V S b (Ser_Fields ((f, p) # fs) # stack) = ser_collect V S b (Ser_Option f q # ?rest)"
          using Inr Some go by (simp add: turn step_flattened_def del: into_cases)
        also have "\<dots> = before (serial_field inside V S b (f, p)) (ser_collect V S b ?rest)"
          using collect_option [OF inside, where f = f and q = q and stack = ?rest] ends Inr Some
          by (simp add: field del: into_cases)
        finally show ?thesis .
      qed
    next
      case (Inl e)
      have "once (innermost_peek V S p) \<noteq> Overrun" using ends Inl by (auto simp: field simp del: into_cases)
      from once_cases [OF this]
      show ?thesis
      proof (elim disjE exE conjE)
        assume "innermost_peek V S p = Some None" "once (innermost_peek V S p) = Err ()"
        then show ?thesis using Inl by (simp add: ser_collect_turn(2) turn field step_flattened_def del: into_cases)
      next
        fix q
        assume q: "innermost_peek V S p = Some (Some q)" "once (innermost_peek V S p) = Ok q"
        note here = Inl q turn field step_flattened_def
        show ?thesis
        proof (cases "into_struct S q")
          case (Inr st)
          then show ?thesis
            using go ends inside by (simp add: here push_struct_def del: into_cases)
        next
          case no_struct: (Inl e)
          show ?thesis
          proof (cases "into_enum S p")
            case (Inr et)
            have "ser_turn V S b (Ser_Fields ((f, p) # fs)) stack = push_enum V S f p et ?rest"
              using no_struct Inr by (simp add: here del: into_cases)
            from collect_enum [OF this] no_struct Inr show ?thesis by (simp add: here del: into_cases)
          next
            case no_enum: (Inl e)
            show ?thesis
            proof (cases "into_map S p")
              case (Inr kv)
              have "ser_turn V S b (Ser_Fields ((f, p) # fs)) stack = push_map V kv p ?rest"
                using no_struct no_enum Inr by (simp add: here del: into_cases)
              from collect_entries [OF this] ends no_struct no_enum Inr show ?thesis by (simp add: here del: into_cases)
            next
              case no_map: (Inl e)
              note no = no_struct no_enum no_map
              show ?thesis
              proof (cases "into_list S p")
                case (Inl e)
                then show ?thesis using no by (simp add: ser_collect_turn(2) here del: into_cases)
              next
                case (Inr t)
                then show ?thesis
                  using no ends go by (cases "list_iter V t p")
                    (simp_all add: ser_collect_turn(2) here unwrap_def collect_list del: into_cases)
              qed
            qed
          qed
        qed
      qed
    qed
  qed
qed

lemma collect_fields:
  assumes "serial_fields n V S b fs \<noteq> Overrun"
  shows "ser_collect V S b (Ser_Fields fs # stack) = before (serial_fields n V S b fs) (ser_collect V S b stack)"
  using assms
proof (induction n arbitrary: fs stack)
  case (Suc n)
  let ?inside = "\<lambda>q st. serial_fields n V S b (fields_of q (st_fields st))"
  show ?case
    unfolding serial_fields_Suc
  proof (rule collect_loop)
    fix x xs stack
    assume "serial_field ?inside V S b x \<noteq> Overrun"
    then show "ser_collect V S b (Ser_Fields (x # xs) # stack)
        = before (serial_field ?inside V S b x) (ser_collect V S b (Ser_Fields xs # stack))"
      using collect_field [where inside = ?inside] Suc.IH by (cases x) blast
  next
    show "ser_collect V S b (Ser_Fields [] # stack) = ser_collect V S b stack" for stack
      by (simp add: ser_collect_turn(1) step_fields_def)
    show "concat_map (serial_field ?inside V S b) fs \<noteq> Overrun" using Suc.prems by (simp only: serial_fields_Suc not_False_eq_True)
  qed
qed simp

end
