(* ===== verification/Peek_Path.thy ===== *)
theory Peek_Path
  imports Peek Path_Steps
begin

text \<open>
  Following a path through a value (facet-reflect, src/peek/value.rs, \<open>at_path\<close>, with the errors of
  facet-path, src/access.rs), and how that relates to resolving the path through the type.
\<close>

section \<open>Errors\<close>

datatype path_access_error =
  Pae_Root_Shape_Mismatch sref sref
| Pae_Wrong_Step_Kind path_step nat sref
| Pae_Index_Out_Of_Bounds path_step nat sref nat nat
| Pae_Variant_Mismatch nat sref nat nat
| Pae_Missing_Target path_step nat sref
| Pae_Option_Is_None nat sref

section \<open>Steps\<close>

text \<open>The result of a step; \<open>None\<close> is a panic.\<close>

type_synonym access = "(path_access_error + peek) option"

definition bounded :: "path_step \<Rightarrow> nat \<Rightarrow> peek \<Rightarrow> nat \<Rightarrow> nat \<Rightarrow> peek option \<Rightarrow> access" where
  "bounded step k p index bound r =
     Some (case r of Some q \<Rightarrow> Inr q | None \<Rightarrow> Inl (Pae_Index_Out_Of_Bounds step k (pk_shape p) index bound))"

definition wrong_kind :: "path_step \<Rightarrow> nat \<Rightarrow> peek \<Rightarrow> access" where
  "wrong_kind step k p = Some (Inl (Pae_Wrong_Step_Kind step k (pk_shape p)))"

definition missing_target :: "path_step \<Rightarrow> nat \<Rightarrow> sref \<Rightarrow> access" where
  "missing_target step k s = Some (Inl (Pae_Missing_Target step k s))"

definition entry_step ::
    "view \<Rightarrow> shapes \<Rightarrow> (peek \<times> peek \<Rightarrow> peek) \<Rightarrow> path_step \<Rightarrow> nat \<Rightarrow> peek \<Rightarrow> nat \<Rightarrow> access" where
  "entry_step V S part step k p entry_idx =
     (case into_map S p of
        Inl e \<Rightarrow> wrong_kind step k p
      | Inr kv \<Rightarrow>
          (let len = vw_map_len V (pk_shape p) (pk_data p)
           in if len \<le> entry_idx then bounded step k p entry_idx len None
              else Option.bind (map_iter V kv p) (\<lambda>entries.
                     bounded step k p entry_idx len (map_option part (nth_opt entries entry_idx)))))"

definition apply_step :: "view \<Rightarrow> shapes \<Rightarrow> peek \<Rightarrow> path_step \<Rightarrow> nat \<Rightarrow> access" where
  "apply_step V S p step k =
     (case step of
        Step_Field i \<Rightarrow>
          (let idx = unat i
           in case peek_ty S p of
                Ty_User (User_Struct st) \<Rightarrow>
                  bounded step k p idx (length (st_fields st))
                    (map_option (field_peek p) (nth_opt (st_fields st) idx))
              | Ty_User (User_Enum et) \<Rightarrow>
                  Option.bind (active_variant V S et p) (\<lambda>v.
                    bounded step k p idx (length (st_fields (v_data v)))
                      (map_option (field_peek p) (nth_opt (st_fields (v_data v)) idx)))
              | _ \<Rightarrow> wrong_kind step k p)
      | Step_Variant i \<Rightarrow>
          (let expected_idx = unat i
           in case into_enum S p of
                Inl e \<Rightarrow> wrong_kind step k p
              | Inr et \<Rightarrow>
                  if length (et_variants et) \<le> expected_idx
                  then bounded step k p expected_idx (length (et_variants et)) None
                  else map_option (\<lambda>actual_idx.
                         if actual_idx \<noteq> expected_idx
                         then Inl (Pae_Variant_Mismatch k (pk_shape p) expected_idx actual_idx)
                         else Inr p) (variant_index V S et p))
      | Step_Index i \<Rightarrow>
          (let idx = unat i
           in case peek_def S p of
                Def_List t \<Rightarrow>
                  bounded step k p idx (vw_list_len V (pk_shape p) (pk_data p)) (list_get V t p idx)
              | Def_Array t n \<Rightarrow>
                  bounded step k p idx n (list_like_get V (list_like_new V p (Ll_Array t n)) idx)
              | _ \<Rightarrow> wrong_kind step k p)
      | Step_MapKey i \<Rightarrow> entry_step V S fst step k p (unat i)
      | Step_MapValue i \<Rightarrow> entry_step V S snd step k p (unat i)
      | Step_OptionSome \<Rightarrow>
          (case into_option S p of
             Inl e \<Rightarrow> wrong_kind step k p
           | Inr t \<Rightarrow>
               Some (case option_value V t p of
                       Some q \<Rightarrow> Inr q | None \<Rightarrow> Inl (Pae_Option_Is_None k (pk_shape p))))
      | Step_Deref \<Rightarrow>
          (case into_pointer S p of
             Inl e \<Rightarrow> wrong_kind step k p
           | Inr t \<Rightarrow>
               (case borrow_inner V t p of
                  Some q \<Rightarrow> Some (Inr q) | None \<Rightarrow> missing_target step k (pk_shape p)))
      | Step_Inner \<Rightarrow>
          (case sh_inner (S (pk_shape p)) of
             None \<Rightarrow> missing_target step k (pk_shape p)
           | Some inner_shape \<Rightarrow>
               (case Option.bind (vw_borrow_inner V (pk_shape p)) (\<lambda>f. Some (f (pk_data p))) of
                  Some (Inr inner_data) \<Rightarrow> Some (Inr (peek_at inner_shape inner_data))
                | _ \<Rightarrow> missing_target step k (pk_shape p)))
      | Step_Proxy \<Rightarrow>
          (case effective_proxy (S (pk_shape p)) None of
             None \<Rightarrow> missing_target step k (pk_shape p)
           | Some proxy_shape \<Rightarrow> missing_target step k proxy_shape))"

fun apply_steps :: "view \<Rightarrow> shapes \<Rightarrow> nat \<Rightarrow> path_step list \<Rightarrow> peek \<Rightarrow> access" where
  "apply_steps V S k [] p = Some (Inr p)"
| "apply_steps V S k (step # steps) p =
     (case apply_step V S p step k of
        Some (Inr q) \<Rightarrow> apply_steps V S (Suc k) steps q
      | r \<Rightarrow> r)"

definition at_path :: "view \<Rightarrow> shapes \<Rightarrow> peek \<Rightarrow> path \<Rightarrow> access" where
  "at_path V S p path =
     (if \<not> same_shape S (pk_shape p) (p_shape path)
      then Some (Inl (Pae_Root_Shape_Mismatch (p_shape path) (pk_shape p)))
      else apply_steps V S 0 (p_steps path) p)"

section \<open>Values lie where the type says\<close>

text \<open>The state of the resolution through the type that fits a value: the shape, and after a step to
  a variant the index of the active variant.\<close>

definition state_fits :: "view \<Rightarrow> shapes \<Rightarrow> peek \<Rightarrow> sref \<times> nat option \<Rightarrow> bool" where
  "state_fits V S p st \<longleftrightarrow> fst st = pk_shape p
     \<and> (case snd st of None \<Rightarrow> True
        | Some i \<Rightarrow> (\<exists>et. peek_ty S p = Ty_User (User_Enum et) \<and> variant_index V S et p = Some i))"

text \<open>A path through enums names the variant before the field.\<close>

fun names_variants :: "shapes \<Rightarrow> path_step list \<Rightarrow> sref \<times> nat option \<Rightarrow> bool" where
  "names_variants S [] st = True"
| "names_variants S (step # steps) (s, v) \<longleftrightarrow>
     (case step of
        Step_Field i \<Rightarrow> (case sh_ty (S s) of Ty_User (User_Enum et) \<Rightarrow> v \<noteq> None | _ \<Rightarrow> True)
      | _ \<Rightarrow> True)
     \<and> (case resolve_step S step (s, v) of Some st \<Rightarrow> names_variants S steps st | None \<Rightarrow> True)"

lemma bounded_eq [simp]:
  "bounded step k p index bound r = Some (Inr q) \<longleftrightarrow> r = Some q"
  "bounded step k p index bound None = Some (Inl e) \<longleftrightarrow> e = Pae_Index_Out_Of_Bounds step k (pk_shape p) index bound"
  by (auto simp: bounded_def split: option.splits)

lemma entry_step_shape:
  assumes "entry_step V S part step k p i = Some (Inr q)"
    and "\<And>kv a b. pk_shape (part (peek_at (fst kv) a, peek_at (snd kv) b)) = pick kv"
  shows "\<exists>kv. into_map S p = Inr kv \<and> pk_shape q = pick kv"
proof -
  obtain kv entries e where kv: "into_map S p = Inr kv" "map_iter V kv p = Some entries"
      "nth_opt entries i = Some e" "part e = q"
    using assms(1) by (auto simp: entry_step_def wrong_kind_def Let_def bind_eq_Some_conv simp del: into_cases
        split: sum.splits if_splits)
  then have "e \<in> set entries" by (simp add: nth_opt_in_set)
  then obtain a b where "e = (peek_at (fst kv) a, peek_at (snd kv) b)" using kv(2) by (auto simp: map_iter_def)
  with kv(1,4) assms(2) show ?thesis by blast
qed

lemma step_follows_type:
  assumes "apply_step V S p step k = Some (Inr q)" and fits: "state_fits V S p (s, v)"
    and "names_variants S (step # steps) (s, v)"
  shows "\<exists>st. resolve_step S step (s, v) = Some st \<and> state_fits V S q st"
proof -
  have s: "s = pk_shape p" using fits by (simp add: state_fits_def)
  show ?thesis
  proof (cases step)
    case (Step_Field i)
    show ?thesis
    proof (cases "peek_ty S p")
      case (Ty_User u)
      show ?thesis
      proof (cases u)
        case (User_Struct st)
        then show ?thesis
          using assms(1) Step_Field Ty_User s
          by (auto simp: apply_step_def Let_def state_fits_def field_peek_def get_field_shape_with_variant_def
              get_field_with_variant_def)
      next
        case (User_Enum et)
        then obtain vi where v: "v = Some vi" using assms(3) Step_Field Ty_User s by auto
        then have vi: "variant_index V S et p = Some vi" using fits Ty_User User_Enum by (simp add: state_fits_def)
        obtain w where w: "active_variant V S et p = Some w" "nth_opt (et_variants et) vi = Some w"
          using active_variant_of_index [OF vi] by blast
        then show ?thesis
          using assms(1) Step_Field Ty_User User_Enum s v
          by (auto simp: apply_step_def Let_def state_fits_def field_peek_def get_field_shape_with_variant_def
              get_field_with_variant_def)
      qed (use assms(1) Step_Field Ty_User in \<open>simp_all add: apply_step_def Let_def wrong_kind_def\<close>)
    qed (use assms(1) Step_Field in \<open>simp_all add: apply_step_def Let_def wrong_kind_def\<close>)
  next
    case (Step_Variant i)
    then show ?thesis
      using assms(1) s by (auto simp: apply_step_def Let_def wrong_kind_def state_fits_def split: sum.splits if_splits)
  next
    case (Step_Index i)
    then show ?thesis
      using assms(1) s
      by (auto simp: apply_step_def Let_def wrong_kind_def state_fits_def get_element_shape_def list_get_def
          list_like_get_def list_like_new_def split: facet_def.splits if_splits)
  next
    case (Step_MapKey i)
    then have "entry_step V S fst step k p (unat i) = Some (Inr q)" using assms(1) by (simp add: apply_step_def)
    from entry_step_shape [OF this, of fst] obtain kv where "into_map S p = Inr kv" "pk_shape q = fst kv" by auto
    then show ?thesis using s Step_MapKey by (simp add: state_fits_def get_map_key_shape_def)
  next
    case (Step_MapValue i)
    then have "entry_step V S snd step k p (unat i) = Some (Inr q)" using assms(1) by (simp add: apply_step_def)
    from entry_step_shape [OF this, of snd] obtain kv where "into_map S p = Inr kv" "pk_shape q = snd kv" by auto
    then show ?thesis using s Step_MapValue by (simp add: state_fits_def get_map_value_shape_def)
  next
    case Step_OptionSome
    then show ?thesis
      using assms(1) s by (auto simp: apply_step_def wrong_kind_def state_fits_def option_value_def
          get_option_inner_shape_def split: sum.splits option.splits)
  next
    case Step_Deref
    then obtain t where "into_pointer S p = Inr t" "borrow_inner V t p = Some q"
      using assms(1) by (auto simp: apply_step_def wrong_kind_def missing_target_def split: sum.splits option.splits)
    then show ?thesis using s Step_Deref
      by (auto simp: into_pointer_def borrow_inner_def state_fits_def get_pointer_inner_shape_def bind_eq_Some_conv
          split: facet_def.splits)
  next
    case Step_Inner
    then show ?thesis
      using assms(1) s by (auto simp: apply_step_def missing_target_def state_fits_def get_inner_shape_def
          split: option.splits sum.splits)
  next
    case Step_Proxy
    then show ?thesis using assms(1) by (simp add: apply_step_def missing_target_def split: option.splits)
  qed
qed

lemma steps_follow_type:
  assumes "apply_steps V S k steps p = Some (Inr q)" and "state_fits V S p st" and "names_variants S steps st"
  shows "\<exists>st'. resolve_steps S steps st = Some st' \<and> state_fits V S q st'"
  using assms
proof (induction steps arbitrary: k p st)
  case (Cons step steps)
  obtain s v where st: "st = (s, v)" by fastforce
  obtain p1 where p1: "apply_step V S p step k = Some (Inr p1)" "apply_steps V S (Suc k) steps p1 = Some (Inr q)"
    using Cons.prems(1) by (auto split: option.splits sum.splits)
  obtain st1 where st1: "resolve_step S step st = Some st1" "state_fits V S p1 st1"
    using step_follows_type [OF p1(1)] Cons.prems(2,3) st by blast
  moreover have "names_variants S steps st1" using Cons.prems(3) st st1(1) by simp
  ultimately obtain st' where "resolve_steps S steps st1 = Some st'" "state_fits V S q st'"
    using Cons.IH [OF p1(2)] by blast
  with st1(1) show ?case by (auto simp: resolve_steps_Cons)
qed simp

text \<open>Errors name the step at which they occur.\<close>

fun error_step :: "path_access_error \<Rightarrow> nat option" where
  "error_step (Pae_Root_Shape_Mismatch s t) = None"
| "error_step (Pae_Wrong_Step_Kind step k s) = Some k"
| "error_step (Pae_Index_Out_Of_Bounds step k s i n) = Some k"
| "error_step (Pae_Variant_Mismatch k s i j) = Some k"
| "error_step (Pae_Missing_Target step k s) = Some k"
| "error_step (Pae_Option_Is_None k s) = Some k"

lemma entry_step_error: "entry_step V S part step k p i = Some (Inl e) \<Longrightarrow> error_step e = Some k"
  by (auto simp: entry_step_def wrong_kind_def bounded_def Let_def bind_eq_Some_conv split: sum.splits if_splits option.splits)

lemma apply_step_error:
  assumes "apply_step V S p step k = Some (Inl e)" shows "error_step e = Some k"
  using assms entry_step_error
  by (cases step) (auto simp: apply_step_def wrong_kind_def missing_target_def bounded_def Let_def bind_eq_Some_conv
      split: facet_type.splits user_type.splits facet_def.splits sum.splits option.splits if_splits)

lemma apply_steps_error:
  assumes "apply_steps V S k steps p = Some (Inl e)"
  shows "\<exists>i q. i < length steps \<and> error_step e = Some (k + i) \<and> apply_steps V S k (take i steps) p = Some (Inr q)
    \<and> apply_step V S q (steps ! i) (k + i) = Some (Inl e)"
  using assms
proof (induction steps arbitrary: k p)
  case (Cons step steps)
  show ?case
  proof (cases "apply_step V S p step k")
    case None
    then show ?thesis using Cons.prems by simp
  next
    case (Some r)
    show ?thesis
    proof (cases r)
      case (Inl e')
      then have "apply_step V S p step k = Some (Inl e)" using Some Cons.prems by simp
      then show ?thesis using apply_step_error by (intro exI [of _ 0] exI [of _ p]) auto
    next
      case (Inr p1)
      then have "apply_steps V S (Suc k) steps p1 = Some (Inl e)" using Some Cons.prems by simp
      from Cons.IH [OF this] obtain i q where i: "i < length steps" "error_step e = Some (Suc k + i)"
        "apply_steps V S (Suc k) (take i steps) p1 = Some (Inr q)" "apply_step V S q (steps ! i) (Suc k + i) = Some (Inl e)"
        by blast
      then show ?thesis using Some Inr by (intro exI [of _ "Suc i"] exI [of _ q]) simp
    qed
  qed
qed simp

end
