(* ===== verification/Peek_Invariants.thy ===== *)
theory Peek_Invariants
  imports Peek
begin

text \<open>
  Checking the invariants of a value and of all values in it, which \<open>build\<close> does at the end
  (facet-reflect, src/partial/partial_api/build.rs). Whether a type can contain invariants at all is
  computed on the types and remembered, in a cache of the call and in one of the thread; values
  that were seen are not seen again.
\<close>

section \<open>Types with invariants\<close>

record inv_caches =
  ic_thread :: "type_id \<Rightarrow> bool option"
  ic_call :: "type_id \<Rightarrow> bool option option"

text \<open>The shapes of the parts, in the order in which they are asked.\<close>

definition part_shapes :: "shapes \<Rightarrow> sref \<Rightarrow> sref list" where
  "part_shapes S s =
     (case sh_ty (S s) of
        Ty_User (User_Struct st) \<Rightarrow> map f_shape (st_fields st)
      | Ty_User (User_Enum et) \<Rightarrow> concat (map (\<lambda>v. map f_shape (st_fields (v_data v))) (et_variants et))
      | _ \<Rightarrow>
          (case sh_def (S s) of
             Def_List t \<Rightarrow> [t] | Def_Array t n \<Rightarrow> [t] | Def_Slice t \<Rightarrow> [t] | Def_Map k v \<Rightarrow> [k, v]
           | Def_Set t \<Rightarrow> [t] | Def_Option t \<Rightarrow> [t] | Def_Result t e \<Rightarrow> [t, e]
           | Def_Pointer t \<Rightarrow> (case t of Some p \<Rightarrow> [p] | None \<Rightarrow> [])
           | _ \<Rightarrow> []))"

fun any_of ::
    "(sref \<Rightarrow> inv_caches \<Rightarrow> ('e, bool \<times> inv_caches) outcome) \<Rightarrow> sref list \<Rightarrow> inv_caches
       \<Rightarrow> ('e, bool \<times> inv_caches) outcome" where
  "any_of f [] st = Ok (False, st)"
| "any_of f (s # ss) st = obind (f s st) (\<lambda>(b, st). if b then Ok (True, st) else any_of f ss st)"

fun subtree_has_invariants ::
    "nat \<Rightarrow> view \<Rightarrow> shapes \<Rightarrow> sref \<Rightarrow> inv_caches \<Rightarrow> ('e, bool \<times> inv_caches) outcome" where
  "subtree_has_invariants 0 V S s st = Overrun"
| "subtree_has_invariants (Suc n) V S s st =
     (let id = sh_id (S s)
      in case ic_thread st id of
           Some cached \<Rightarrow> Ok (cached, st)
         | None \<Rightarrow>
             (case ic_call st id of
                Some cached \<Rightarrow> Ok (cached = Some True, st)
              | None \<Rightarrow>
                  (let st = st\<lparr>ic_call := (ic_call st)(id \<mapsto> None)\<rparr>
                   in obind (if vw_has_invariants V s then Ok (True, st)
                             else any_of (subtree_has_invariants n V S) (part_shapes S s) st)
                        (\<lambda>(b, st). Ok (b, st\<lparr>ic_thread := (ic_thread st)(id \<mapsto> b),
                                              ic_call := (ic_call st)(id \<mapsto> Some b)\<rparr>)))))"

section \<open>Values\<close>

record inv_state =
  iv_caches :: inv_caches
  iv_visited :: "(type_id \<times> ptr) list"

text \<open>An error is the shape whose invariant failed with its message, or a panic.\<close>

type_synonym inv_result = "((sref \<times> string) option, inv_state) outcome"

definition ask :: "nat \<Rightarrow> view \<Rightarrow> shapes \<Rightarrow> sref \<Rightarrow> inv_state \<Rightarrow> ((sref \<times> string) option, bool \<times> inv_state) outcome" where
  "ask m V S s st =
     obind (subtree_has_invariants m V S s (iv_caches st)) (\<lambda>(b, c). Ok (b, st\<lparr>iv_caches := c\<rparr>))"

definition panics :: "'a option \<Rightarrow> ('a \<Rightarrow> ('e option, 'b) outcome) \<Rightarrow> ('e option, 'b) outcome" where
  "panics r f = (case r of None \<Rightarrow> Err None | Some x \<Rightarrow> f x)"

definition check_fields ::
    "nat \<Rightarrow> (peek \<Rightarrow> inv_state \<Rightarrow> inv_result) \<Rightarrow> view \<Rightarrow> shapes \<Rightarrow> (field \<times> peek) list \<Rightarrow> inv_state \<Rightarrow> inv_result" where
  "check_fields m rec V S fs =
     rfold (\<lambda>(f, child) st. obind (ask m V S (f_shape f) st) (\<lambda>(b, st). if b then rec child st else Ok st)) fs"

definition check_all ::
    "nat \<Rightarrow> (peek \<Rightarrow> inv_state \<Rightarrow> inv_result) \<Rightarrow> view \<Rightarrow> shapes \<Rightarrow> sref \<Rightarrow> peek list option \<Rightarrow> inv_state \<Rightarrow> inv_result" where
  "check_all m rec V S t items st =
     obind (ask m V S t st) (\<lambda>(b, st). if b then panics items (\<lambda>xs. rfold rec xs st) else Ok st)"

definition check_map ::
    "nat \<Rightarrow> (peek \<Rightarrow> inv_state \<Rightarrow> inv_result) \<Rightarrow> view \<Rightarrow> shapes \<Rightarrow> sref \<times> sref \<Rightarrow> (peek \<times> peek) list option
       \<Rightarrow> inv_state \<Rightarrow> inv_result" where
  "check_map m rec V S kv entries st =
     obind (ask m V S (fst kv) st) (\<lambda>(kb, st). obind (ask m V S (snd kv) st) (\<lambda>(vb, st).
       if kb \<or> vb
       then panics entries (\<lambda>es. rfold (\<lambda>(k, v) st.
              obind (if kb then rec k st else Ok st) (\<lambda>st. if vb then rec v st else Ok st)) es st)
       else Ok st))"

definition check_inside :: "nat \<Rightarrow> (peek \<Rightarrow> inv_state \<Rightarrow> inv_result) \<Rightarrow> view \<Rightarrow> shapes \<Rightarrow> peek option \<Rightarrow> inv_state \<Rightarrow> inv_result" where
  "check_inside m rec V S inner st =
     (case inner of
        None \<Rightarrow> Ok st
      | Some q \<Rightarrow> obind (ask m V S (pk_shape q) st) (\<lambda>(b, st). if b then rec q st else Ok st))"

definition check_list_like ::
    "nat \<Rightarrow> (peek \<Rightarrow> inv_state \<Rightarrow> inv_result) \<Rightarrow> view \<Rightarrow> shapes \<Rightarrow> peek \<Rightarrow> inv_state \<Rightarrow> inv_result" where
  "check_list_like m rec V S p st =
     (case into_list_like V S p of
        Inr l \<Rightarrow> check_all m rec V S (list_like_t (ll_def l)) (list_like_iter V l) st
      | Inl e \<Rightarrow> Ok st)"

definition check_result ::
    "(peek \<Rightarrow> inv_state \<Rightarrow> inv_result) \<Rightarrow> peek option \<Rightarrow> peek option \<Rightarrow> inv_state \<Rightarrow> inv_result" where
  "check_result rec ok_value err_value st =
     obind (case ok_value of Some q \<Rightarrow> rec q st | None \<Rightarrow> Ok st) (\<lambda>st.
       case err_value of Some q \<Rightarrow> rec q st | None \<Rightarrow> Ok st)"

definition check_by_def ::
    "nat \<Rightarrow> (peek \<Rightarrow> inv_state \<Rightarrow> inv_result) \<Rightarrow> view \<Rightarrow> shapes \<Rightarrow> peek \<Rightarrow> inv_state \<Rightarrow> inv_result" where
  "check_by_def m rec V S p st =
     (case peek_def S p of
        Def_List t \<Rightarrow> check_list_like m rec V S p st
      | Def_Array t n \<Rightarrow> check_list_like m rec V S p st
      | Def_Slice t \<Rightarrow> check_list_like m rec V S p st
      | Def_Map k v \<Rightarrow> check_map m rec V S (k, v) (map_iter V (k, v) p) st
      | Def_Set t \<Rightarrow> check_all m rec V S t (set_iter V t p) st
      | Def_Option t \<Rightarrow> check_inside m rec V S (option_value V t p) st
      | Def_Result t e \<Rightarrow> check_result rec (result_ok V t p) (result_err V e p) st
      | Def_Pointer t \<Rightarrow> check_inside m rec V S (borrow_inner V t p) st
      | _ \<Rightarrow> Ok st)"

definition check_parts ::
    "nat \<Rightarrow> (peek \<Rightarrow> inv_state \<Rightarrow> inv_result) \<Rightarrow> view \<Rightarrow> shapes \<Rightarrow> peek \<Rightarrow> inv_state \<Rightarrow> inv_result" where
  "check_parts m rec V S p st =
     (case peek_ty S p of
        Ty_User (User_Struct sty) \<Rightarrow> check_fields m rec V S (fields_of p (st_fields sty)) st
      | Ty_User (User_Enum et) \<Rightarrow> panics (enum_fields V S et p) (\<lambda>fs. check_fields m rec V S fs st)
      | _ \<Rightarrow> check_by_def m rec V S p st)"

text \<open>With fuel for the depth of values, and for that of types.\<close>

fun validate_invariants :: "nat \<Rightarrow> nat \<Rightarrow> view \<Rightarrow> shapes \<Rightarrow> peek \<Rightarrow> inv_state \<Rightarrow> inv_result" where
  "validate_invariants 0 m V S p st = Overrun"
| "validate_invariants (Suc n) m V S p st =
     obind (ask m V S (pk_shape p) st) (\<lambda>(b, st).
       if \<not> b then Ok st
       else if value_id S p \<in> set (iv_visited st) then Ok st
       else (let st = st\<lparr>iv_visited := value_id S p # iv_visited st\<rparr>
             in case vw_invariants V (pk_shape p) (pk_data p) of
                  Some message \<Rightarrow> Err (Some (pk_shape p, message))
                | None \<Rightarrow> check_parts m (validate_invariants n m V S) V S p st))"

definition fresh_caches :: "(type_id \<Rightarrow> bool option) \<Rightarrow> inv_state" where
  "fresh_caches thread = \<lparr>iv_caches = \<lparr>ic_thread = thread, ic_call = (\<lambda>id. None)\<rparr>, iv_visited = []\<rparr>"

section \<open>The values in a value\<close>

fun list_of :: "'a list option \<Rightarrow> 'a list" where
  "list_of None = []"
| "list_of (Some xs) = xs"

fun one_of :: "'a option \<Rightarrow> 'a list" where
  "one_of None = []"
| "one_of (Some x) = [x]"

definition list_like_parts :: "view \<Rightarrow> shapes \<Rightarrow> peek \<Rightarrow> peek list" where
  "list_like_parts V S p =
     (case into_list_like V S p of Inr l \<Rightarrow> list_of (list_like_iter V l) | Inl e \<Rightarrow> [])"

definition parts_by_def :: "view \<Rightarrow> shapes \<Rightarrow> peek \<Rightarrow> peek list" where
  "parts_by_def V S p =
     (case peek_def S p of
        Def_List t \<Rightarrow> list_like_parts V S p
      | Def_Array t n \<Rightarrow> list_like_parts V S p
      | Def_Slice t \<Rightarrow> list_like_parts V S p
      | Def_Map k v \<Rightarrow> concat (map (\<lambda>(a, b). [a, b]) (list_of (map_iter V (k, v) p)))
      | Def_Set t \<Rightarrow> list_of (set_iter V t p)
      | Def_Option t \<Rightarrow> one_of (option_value V t p)
      | Def_Result t e \<Rightarrow> one_of (result_ok V t p) @ one_of (result_err V e p)
      | Def_Pointer t \<Rightarrow> one_of (borrow_inner V t p)
      | _ \<Rightarrow> [])"

definition value_parts :: "view \<Rightarrow> shapes \<Rightarrow> peek \<Rightarrow> peek list" where
  "value_parts V S p =
     (case peek_ty S p of
        Ty_User (User_Struct sty) \<Rightarrow> map snd (fields_of p (st_fields sty))
      | Ty_User (User_Enum et) \<Rightarrow> map snd (list_of (enum_fields V S et p))
      | _ \<Rightarrow> parts_by_def V S p)"

inductive reaches :: "view \<Rightarrow> shapes \<Rightarrow> peek \<Rightarrow> peek \<Rightarrow> bool" for V S where
  reaches_self: "reaches V S p p"
| reaches_part: "q \<in> set (value_parts V S p) \<Longrightarrow> reaches V S q r \<Longrightarrow> reaches V S p r"

section \<open>What is reported is violated\<close>

definition violates :: "view \<Rightarrow> peek \<Rightarrow> sref \<times> string \<Rightarrow> bool" where
  "violates V q e \<longleftrightarrow> pk_shape q = fst e \<and> vw_invariants V (pk_shape q) (pk_data q) = Some (snd e)"

text \<open>A step of the loops that fails is a failed call on a part.\<close>

lemma ask_no_error: "ask m V S s st \<noteq> Err e"
proof -
  have "subtree_has_invariants m V S s c \<noteq> Err e" for s c
  proof (induction m arbitrary: s c)
    case (Suc m)
    have "any_of (subtree_has_invariants m V S) ss c \<noteq> Err e" for ss c
      by (induction ss arbitrary: c) (auto simp: obind_eq_Err Suc.IH split: if_splits)
    then show ?case by (auto simp: Let_def obind_eq_Err split: option.splits)
  qed simp
  then show ?thesis by (auto simp: ask_def obind_eq_Err)
qed

lemma rfold_Err: "rfold f xs st = Err e \<Longrightarrow> \<exists>x \<in> set xs. \<exists>st. f x st = Err e"
  by (induction xs arbitrary: st) (auto simp: obind_eq_Err)

lemma check_fields_Err:
  assumes "check_fields m rec V S fs st = Err e"
  shows "\<exists>q \<in> set (map snd fs). \<exists>st. rec q st = Err e"
proof -
  obtain f q st where "(f, q) \<in> set fs"
    and "obind (ask m V S (f_shape f) st) (\<lambda>(b, st). if b then rec q st else Ok st) = Err e"
    using rfold_Err [OF assms [unfolded check_fields_def]] by auto
  then show ?thesis by (force simp: obind_eq_Err ask_no_error split: if_splits)
qed

lemma check_all_Err:
  assumes "check_all m rec V S t items st = Err e"
  shows "(\<exists>q \<in> set (list_of items). \<exists>st. rec q st = Err e) \<or> e = None \<and> items = None"
  using assms unfolding check_all_def
  by (auto simp: obind_eq_Err ask_no_error panics_def split: if_splits option.splits dest!: rfold_Err)

lemma check_map_Err:
  assumes "check_map m rec V S kv entries st = Err e"
  shows "(\<exists>q \<in> set (concat (map (\<lambda>(a, b). [a, b]) (list_of entries))). \<exists>st. rec q st = Err e) \<or> e = None \<and> entries = None"
proof (cases entries)
  case None
  then show ?thesis using assms by (auto simp: check_map_def obind_eq_Err ask_no_error panics_def split: if_splits)
next
  case (Some es)
  obtain kb vb st where
    "rfold (\<lambda>(k, v) st. obind (if kb then rec k st else Ok st) (\<lambda>st. if vb then rec v st else Ok st)) es st = Err e"
    using assms Some by (auto simp: check_map_def obind_eq_Err ask_no_error panics_def split: if_splits)
  from rfold_Err [OF this] obtain k v st where kv: "(k, v) \<in> set es"
    and "obind (if kb then rec k st else Ok st) (\<lambda>st. if vb then rec v st else Ok st) = Err e"
    by auto
  then consider st where "rec k st = Err e" | st where "rec v st = Err e"
    by (auto simp: obind_eq_Err split: if_splits)
  then show ?thesis
  proof cases
    case 1
    then show ?thesis using kv Some by (intro disjI1 bexI [of _ k]) auto
  next
    case 2
    then show ?thesis using kv Some by (intro disjI1 bexI [of _ v]) auto
  qed
qed

lemma check_inside_Err:
  "check_inside m rec V S inner st = Err e \<Longrightarrow> \<exists>q \<in> set (one_of inner). \<exists>st. rec q st = Err e"
  by (auto simp: check_inside_def obind_eq_Err ask_no_error split: option.splits if_splits)

lemma check_result_Err:
  "check_result rec a b st = Err e \<Longrightarrow> \<exists>q \<in> set (one_of a @ one_of b). \<exists>st. rec q st = Err e"
  by (auto simp: check_result_def obind_eq_Err split: option.splits)

lemma check_list_like_Err:
  "check_list_like m rec V S p st = Err e \<Longrightarrow>
     (\<exists>q \<in> set (list_like_parts V S p). \<exists>st. rec q st = Err e)
     \<or> e = None \<and> (\<exists>l. into_list_like V S p = Inr l \<and> list_like_iter V l = None)"
  unfolding check_list_like_def list_like_parts_def by (auto split: sum.splits dest!: check_all_Err)

text \<open>A value that cannot be read: an enum without an active variant, a collection without an iterator.\<close>

definition unreadable :: "view \<Rightarrow> shapes \<Rightarrow> peek \<Rightarrow> bool" where
  "unreadable V S p \<longleftrightarrow>
     (\<exists>et. peek_ty S p = Ty_User (User_Enum et) \<and> active_variant V S et p = None)
     \<or> (\<exists>l. into_list_like V S p = Inr l \<and> list_like_iter V l = None)
     \<or> (\<exists>k v. peek_def S p = Def_Map k v \<and> map_iter V (k, v) p = None)
     \<or> (\<exists>t. peek_def S p = Def_Set t \<and> set_iter V t p = None)"

lemma check_by_def_Err:
  assumes "check_by_def m rec V S p st = Err e"
  shows "(\<exists>q \<in> set (parts_by_def V S p). \<exists>st. rec q st = Err e) \<or> e = None \<and> unreadable V S p"
proof (cases "peek_def S p")
  case (Def_Map k v)
  then show ?thesis using assms check_map_Err [of m rec V S "(k, v)"]
    unfolding check_by_def_def parts_by_def_def unreadable_def by (simp only: facet_def.case) blast
next
  case (Def_Set t)
  then show ?thesis using assms check_all_Err [of m rec V S t]
    unfolding check_by_def_def parts_by_def_def unreadable_def by (simp only: facet_def.case) blast
next
  case (Def_List t)
  then show ?thesis using assms check_list_like_Err [of m rec V S p]
    unfolding check_by_def_def parts_by_def_def unreadable_def by (simp only: facet_def.case) blast
next
  case (Def_Array t n)
  then show ?thesis using assms check_list_like_Err [of m rec V S p]
    unfolding check_by_def_def parts_by_def_def unreadable_def by (simp only: facet_def.case) blast
next
  case (Def_Slice t)
  then show ?thesis using assms check_list_like_Err [of m rec V S p]
    unfolding check_by_def_def parts_by_def_def unreadable_def by (simp only: facet_def.case) blast
next
  case (Def_Option t)
  then show ?thesis using assms by (simp only: check_by_def_def parts_by_def_def facet_def.case check_inside_Err simp_thms)
next
  case (Def_Result t e')
  then show ?thesis using assms by (simp only: check_by_def_def parts_by_def_def facet_def.case check_result_Err simp_thms)
next
  case (Def_Pointer t)
  then show ?thesis using assms by (simp only: check_by_def_def parts_by_def_def facet_def.case check_inside_Err simp_thms)
qed (use assms in \<open>simp_all add: check_by_def_def\<close>)

lemma check_parts_Err:
  assumes "check_parts m rec V S p st = Err e"
  shows "(\<exists>q \<in> set (value_parts V S p). \<exists>st. rec q st = Err e) \<or> e = None \<and> unreadable V S p"
proof -
  consider u where "peek_ty S p = Ty_User (User_Struct u)" | u where "peek_ty S p = Ty_User (User_Enum u)"
    | "check_parts m rec V S p = check_by_def m rec V S p" "value_parts V S p = parts_by_def V S p"
  proof (cases "peek_ty S p")
    case (Ty_User u)
    then show thesis using that by (cases u) (simp_all add: value_parts_def check_parts_def [abs_def])
  qed (use that in \<open>simp_all add: value_parts_def check_parts_def [abs_def]\<close>)
  then show ?thesis
  proof cases
    case (1 u)
    then have "check_fields m rec V S (fields_of p (st_fields u)) st = Err e" using assms by (simp add: check_parts_def)
    from check_fields_Err [OF this] show ?thesis using 1 by (simp only: value_parts_def facet_type.case user_type.case simp_thms)
  next
    case (2 u)
    show ?thesis
    proof (cases "enum_fields V S u p")
      case None
      then show ?thesis using assms 2 by (auto simp: check_parts_def panics_def unreadable_def enum_fields_def)
    next
      case (Some fs)
      then have "check_fields m rec V S fs st = Err e" using assms 2 by (simp add: check_parts_def panics_def)
      from check_fields_Err [OF this] show ?thesis
        using 2 Some by (simp only: value_parts_def facet_type.case user_type.case list_of.simps simp_thms)
    qed
  next
    case 3
    then show ?thesis using assms check_by_def_Err by simp
  qed
qed

lemma reported_is_violated:
  assumes "validate_invariants n m V S p st = Err e"
  shows "\<exists>q. reaches V S p q \<and> (case e of Some e \<Rightarrow> violates V q e | None \<Rightarrow> unreadable V S q)"
  using assms
proof (induction n arbitrary: p st)
  case (Suc n)
  then consider message where "e = Some (pk_shape p, message)" "vw_invariants V (pk_shape p) (pk_data p) = Some message"
    | st where "check_parts m (validate_invariants n m V S) V S p st = Err e"
    by (auto simp: obind_eq_Err ask_no_error Let_def split: if_splits option.splits)
  then show ?case
  proof cases
    case 1
    then show ?thesis by (intro exI [of _ p]) (simp add: violates_def reaches_self)
  next
    case 2
    from check_parts_Err [OF this] show ?thesis
    proof
      assume "\<exists>q \<in> set (value_parts V S p). \<exists>st. validate_invariants n m V S q st = Err e"
      then show ?thesis using Suc.IH reaches_part by blast
    qed (auto intro: reaches_self)
  qed
qed simp

section \<open>Types that may hold invariants\<close>

inductive may_hold :: "view \<Rightarrow> shapes \<Rightarrow> sref \<Rightarrow> bool" for V S where
  may_hold_self: "vw_has_invariants V s \<Longrightarrow> may_hold V S s"
| may_hold_part: "t \<in> set (part_shapes S s) \<Longrightarrow> may_hold V S t \<Longrightarrow> may_hold V S s"

text \<open>No type is a part of itself.\<close>

definition types_end :: "shapes \<Rightarrow> (type_id \<Rightarrow> nat) \<Rightarrow> bool" where
  "types_end S rank \<longleftrightarrow> (\<forall>s. \<forall>t \<in> set (part_shapes S s). rank (sh_id (S t)) < rank (sh_id (S s)))"

text \<open>Shapes of one type are alike, and so are the tables behind them.\<close>

definition one_meaning :: "view \<Rightarrow> shapes \<Rightarrow> bool" where
  "one_meaning V S \<longleftrightarrow>
     (\<forall>s t. sh_id (S s) = sh_id (S t) \<longrightarrow>
        S s = S t \<and> vw_has_invariants V s = vw_has_invariants V t
        \<and> (\<forall>d. vw_invariants V s d = vw_invariants V t d
             \<and> value_parts V S (peek_at s d) = value_parts V S (peek_at t d)))"

text \<open>What the caches know is right, and no type is being evaluated.\<close>

definition caches_right :: "view \<Rightarrow> shapes \<Rightarrow> inv_caches \<Rightarrow> bool" where
  "caches_right V S c \<longleftrightarrow>
     (\<forall>s b. ic_thread c (sh_id (S s)) = Some b \<longrightarrow> b = may_hold V S s)
     \<and> (\<forall>s b. ic_call c (sh_id (S s)) = Some (Some b) \<longrightarrow> b = may_hold V S s)"

definition pending :: "inv_caches \<Rightarrow> type_id set" where
  "pending c = {id. ic_call c id = Some None}"

lemma may_hold_same_id:
  assumes "one_meaning V S" and "sh_id (S s) = sh_id (S t)"
  shows "may_hold V S s = may_hold V S t"
proof -
  have "may_hold V S t" if "may_hold V S s" "sh_id (S s) = sh_id (S t)" for s t
    using that
  proof cases
    case may_hold_self
    then show ?thesis using assms(1) that(2) unfolding one_meaning_def by (blast intro: may_hold.may_hold_self)
  next
    case (may_hold_part u)
    have "S s = S t" using assms(1) that(2) unfolding one_meaning_def by blast
    then have "part_shapes S s = part_shapes S t" unfolding part_shapes_def by (simp only:)
    then show ?thesis using may_hold_part by (auto intro: may_hold.may_hold_part)
  qed
  then show ?thesis using assms(2) by metis
qed

lemma any_of_right:
  assumes "\<And>t c. t \<in> set ss \<Longrightarrow> caches_right V S c \<Longrightarrow> pending c = P \<Longrightarrow>
      \<exists>c'. f t c = Ok (may_hold V S t, c') \<and> caches_right V S c' \<and> pending c' = P"
    and "caches_right V S c" and "pending c = P"
  shows "\<exists>c'. any_of f ss c = Ok (\<exists>t \<in> set ss. may_hold V S t, c') \<and> caches_right V S c' \<and> pending c' = P"
  using assms
proof (induction ss arbitrary: c)
  case (Cons s ss)
  obtain d where d: "f s c = Ok (may_hold V S s, d)" "caches_right V S d" "pending d = P"
    using Cons.prems(1) [of s c] Cons.prems(2,3) by auto
  obtain e where "any_of f ss d = Ok (\<exists>t \<in> set ss. may_hold V S t, e)" "caches_right V S e" "pending e = P"
    using Cons.IH [OF _ d(2,3)] Cons.prems(1) by (metis list.set_intros(2))
  with d show ?case by simp
qed simp

lemma subtree_right:
  assumes one: "one_meaning V S" and ranks: "types_end S rank"
    and "caches_right V S c" and "\<forall>id \<in> pending c. rank (sh_id (S s)) < rank id" and "rank (sh_id (S s)) < n"
  shows "\<exists>c'. subtree_has_invariants n V S s c = (Ok (may_hold V S s, c') :: ('e, bool \<times> inv_caches) outcome)
    \<and> caches_right V S c' \<and> pending c' = pending c"
  using assms(3-5)
proof (induction n arbitrary: s c)
  case (Suc n)
  let ?id = "sh_id (S s)"
  have known: "ic_thread c ?id = Some b \<Longrightarrow> b = may_hold V S s" "ic_call c ?id = Some (Some b) \<Longrightarrow> b = may_hold V S s" for b
    using Suc.prems(1) unfolding caches_right_def by blast+
  have fresh: "?id \<notin> pending c" using Suc.prems(2) by blast
  show ?case
  proof (cases "ic_thread c ?id \<noteq> None \<or> ic_call c ?id \<noteq> None")
    case True
    then show ?thesis
      using Suc.prems(1) known fresh by (cases "ic_thread c ?id"; cases "ic_call c ?id") (auto simp: pending_def)
  next
    case False
    define d where "d = c\<lparr>ic_call := (ic_call c)(?id \<mapsto> None)\<rparr>"
    have d: "caches_right V S d" "pending d = insert ?id (pending c)"
      using Suc.prems(1) by (auto simp: d_def caches_right_def pending_def)
    have parts: "\<exists>e. subtree_has_invariants n V S t c' = (Ok (may_hold V S t, e) :: ('e, bool \<times> inv_caches) outcome)
        \<and> caches_right V S e \<and> pending e = pending d"
      if "t \<in> set (part_shapes S s)" "caches_right V S c'" "pending c' = pending d" for t c'
    proof -
      have less: "rank (sh_id (S t)) < rank ?id" using ranks that(1) unfolding types_end_def by blast
      then have "\<forall>id \<in> pending c'. rank (sh_id (S t)) < rank id" using that(3) d(2) Suc.prems(2) by fastforce
      moreover have "rank (sh_id (S t)) < n" using less Suc.prems(3) by simp
      ultimately show ?thesis using Suc.IH [OF that(2)] unfolding that(3) by blast
    qed
    have holds: "may_hold V S s \<longleftrightarrow> vw_has_invariants V s \<or> (\<exists>t \<in> set (part_shapes S s). may_hold V S t)"
      by (subst may_hold.simps) auto
    obtain e' where e': "any_of (subtree_has_invariants n V S) (part_shapes S s) d
        = (Ok (\<exists>t \<in> set (part_shapes S s). may_hold V S t, e') :: ('e, bool \<times> inv_caches) outcome)"
      "caches_right V S e'" "pending e' = pending d"
      using any_of_right [where P = "pending d" and ss = "part_shapes S s"
          and f = "subtree_has_invariants n V S :: _ \<Rightarrow> _ \<Rightarrow> ('e, bool \<times> inv_caches) outcome",
          OF parts d(1) refl] by blast
    obtain e where e: "(if vw_has_invariants V s then Ok (True, d)
        else any_of (subtree_has_invariants n V S) (part_shapes S s) d)
          = (Ok (may_hold V S s, e) :: ('e, bool \<times> inv_caches) outcome)"
      "caches_right V S e" "pending e = insert ?id (pending c)"
    proof (cases "vw_has_invariants V s")
      case True
      then show thesis using d holds by (intro that [of d]) simp_all
    next
      case False
      then show thesis using d e' holds by (intro that [of e']) simp_all
    qed
    let ?e = "e\<lparr>ic_thread := (ic_thread e)(?id \<mapsto> may_hold V S s), ic_call := (ic_call e)(?id \<mapsto> Some (may_hold V S s))\<rparr>"
    have same: "may_hold V S t = may_hold V S s" if "sh_id (S t) = ?id" for t
      using may_hold_same_id [OF one that] .
    have e2: "ic_thread e (sh_id (S t)) = Some b \<Longrightarrow> b = may_hold V S t"
        "ic_call e (sh_id (S t)) = Some (Some b) \<Longrightarrow> b = may_hold V S t" for t b
      using e(2) unfolding caches_right_def by blast+
    have "b = may_hold V S t" if "ic_thread ?e (sh_id (S t)) = Some b" for t b
      using that e2(1) [of t b] same [of t] by (cases "sh_id (S t) = ?id") simp_all
    moreover have "b = may_hold V S t" if "ic_call ?e (sh_id (S t)) = Some (Some b)" for t b
      using that e2(2) [of t b] same [of t] by (cases "sh_id (S t) = ?id") simp_all
    ultimately have "caches_right V S ?e" unfolding caches_right_def by blast
    moreover have "pending ?e = pending c" using e(3) fresh by (auto simp: pending_def)
    moreover have "subtree_has_invariants (Suc n) V S s c = (Ok (may_hold V S s, ?e) :: ('e, bool \<times> inv_caches) outcome)"
    proof -
      have new: "ic_thread c ?id = None" "ic_call c ?id = None" using False by simp_all
      show ?thesis
        by (simp only: subtree_has_invariants.simps Let_def new option.case d_def [symmetric] e(1) obind.simps prod.case)
    qed
    ultimately show ?thesis by blast
  qed
qed simp

section \<open>Nothing is missed\<close>

definition caches_fit :: "view \<Rightarrow> shapes \<Rightarrow> inv_state \<Rightarrow> bool" where
  "caches_fit V S st \<longleftrightarrow> caches_right V S (iv_caches st) \<and> pending (iv_caches st) = {}"

abbreviation seen :: "inv_state \<Rightarrow> (type_id \<times> ptr) set" where
  "seen st \<equiv> set (iv_visited st)"

abbreviation ids_of :: "view \<Rightarrow> shapes \<Rightarrow> peek list \<Rightarrow> (type_id \<times> ptr) set" where
  "ids_of V S ps \<equiv> value_id S ` {p \<in> set ps. may_hold V S (pk_shape p)}"

text \<open>From one state of the walk to another: the caches stay right, and what was seen in between
  violates nothing and has its parts seen; so have the given values been.\<close>

definition progress :: "view \<Rightarrow> shapes \<Rightarrow> peek list \<Rightarrow> inv_state \<Rightarrow> inv_state \<Rightarrow> bool" where
  "progress V S ps st st' \<longleftrightarrow>
     caches_fit V S st' \<and> seen st \<subseteq> seen st' \<and> ids_of V S ps \<subseteq> seen st'
     \<and> (\<forall>q. value_id S q \<in> seen st' \<longrightarrow> value_id S q \<notin> seen st \<longrightarrow>
          vw_invariants V (pk_shape q) (pk_data q) = None \<and> ids_of V S (value_parts V S q) \<subseteq> seen st')"

text \<open>A walk over the given values, from any state in which \<open>B\<close> was seen.\<close>

definition walks :: "view \<Rightarrow> shapes \<Rightarrow> (type_id \<times> ptr) set \<Rightarrow> peek list \<Rightarrow> (inv_state \<Rightarrow> inv_result) \<Rightarrow> bool" where
  "walks V S B ps f \<longleftrightarrow>
     (\<forall>st. caches_fit V S st \<longrightarrow> B \<subseteq> seen st \<longrightarrow>
        (case f st of Ok st' \<Rightarrow> progress V S ps st st' | Err e \<Rightarrow> True | Overrun \<Rightarrow> False))"

lemma progress_visited: "progress V S ps st st' \<Longrightarrow> seen st \<subseteq> seen st'"
  and progress_caches: "progress V S ps st st' \<Longrightarrow> caches_fit V S st'"
  by (simp_all add: progress_def)

lemma ids_of_append: "ids_of V S (ps @ qs) = ids_of V S ps \<union> ids_of V S qs"
  by auto

lemma progress_trans:
  assumes "progress V S ps st st'" and "progress V S qs st' st''"
  shows "progress V S (ps @ qs) st st''"
proof -
  have vis: "seen st \<subseteq> seen st'" "seen st' \<subseteq> seen st''" using assms by (blast dest: progress_visited)+
  have "ids_of V S (ps @ qs) \<subseteq> seen st''"
    using assms vis unfolding progress_def ids_of_append by blast
  moreover have "vw_invariants V (pk_shape q) (pk_data q) = None \<and> ids_of V S (value_parts V S q) \<subseteq> seen st''"
    if "value_id S q \<in> seen st''" "value_id S q \<notin> seen st" for q
  proof (cases "value_id S q \<in> seen st'")
    case True
    then show ?thesis using assms(1) that(2) vis(2) unfolding progress_def by blast
  next
    case False
    then show ?thesis using assms(2) that(1) unfolding progress_def by blast
  qed
  ultimately show ?thesis using vis progress_caches [OF assms(2)] unfolding progress_def by blast
qed

lemma progress_none:
  assumes "caches_fit V S st'" and "iv_visited st' = iv_visited st" and "\<forall>p \<in> set ps. \<not> may_hold V S (pk_shape p)"
  shows "progress V S ps st st'"
  using assms by (auto simp: progress_def)

lemma walks_none: "\<forall>p \<in> set ps. \<not> may_hold V S (pk_shape p) \<Longrightarrow> walks V S B ps Ok"
  by (simp add: walks_def progress_none)

lemma walks_Err [simp]: "walks V S B ps (\<lambda>st. Err e)"
  by (simp add: walks_def)

lemma walks_then:
  assumes "walks V S B ps f" and "walks V S B qs g"
  shows "walks V S B (ps @ qs) (\<lambda>st. obind (f st) g)"
  unfolding walks_def
proof (intro allI impI)
  fix st
  assume st: "caches_fit V S st" "B \<subseteq> seen st"
  show "case obind (f st) g of Ok st' \<Rightarrow> progress V S (ps @ qs) st st' | Err e \<Rightarrow> True | Overrun \<Rightarrow> False"
  proof (cases "f st")
    case (Ok st')
    then have p: "progress V S ps st st'" using assms(1) st unfolding walks_def by fastforce
    then have "caches_fit V S st'" "B \<subseteq> seen st'" using st(2) progress_visited progress_caches by blast+
    then have "case g st' of Ok st'' \<Rightarrow> progress V S qs st' st'' | Err e \<Rightarrow> True | Overrun \<Rightarrow> False"
      using assms(2) unfolding walks_def by blast
    then show ?thesis using Ok progress_trans [OF p] by (auto split: outcome.splits)
  next
    case Overrun
    then show ?thesis using assms(1) st unfolding walks_def by fastforce
  qed simp
qed

lemma walks_rfold:
  assumes "\<And>x. x \<in> set xs \<Longrightarrow> walks V S B (g x) (f x)"
  shows "walks V S B (concat (map g xs)) (rfold f xs)"
  using assms
proof (induction xs)
  case Nil
  then show ?case using walks_none [of "[]"] by (simp add: walks_def)
next
  case (Cons x xs)
  then have "walks V S B (g x @ concat (map g xs)) (\<lambda>st. obind (f x st) (rfold f xs))"
    by (intro walks_then) auto
  then show ?case by (simp add: walks_def)
qed

text \<open>Asking whether a type may hold invariants.\<close>

definition answers_for :: "nat \<Rightarrow> view \<Rightarrow> shapes \<Rightarrow> sref \<Rightarrow> bool" where
  "answers_for m V S s \<longleftrightarrow>
     (\<forall>st. caches_fit V S st \<longrightarrow>
        (\<exists>c. ask m V S s st = Ok (may_hold V S s, st\<lparr>iv_caches := c\<rparr>) \<and> caches_fit V S (st\<lparr>iv_caches := c\<rparr>)))"

lemma ask_right:
  assumes "one_meaning V S" and "types_end S rank" and "rank (sh_id (S s)) < m"
  shows "answers_for m V S s"
  unfolding answers_for_def
proof (intro allI impI)
  fix st
  assume "caches_fit V S st"
  then have c: "caches_right V S (iv_caches st)" "pending (iv_caches st) = {}" by (simp_all add: caches_fit_def)
  obtain c' where "subtree_has_invariants m V S s (iv_caches st) =
        (Ok (may_hold V S s, c') :: ((sref \<times> string) option, bool \<times> inv_caches) outcome)"
      "caches_right V S c'" "pending c' = {}"
    using subtree_right [OF assms(1,2) c(1) _ assms(3)] c(2) by auto
  then show "\<exists>c. ask m V S s st = Ok (may_hold V S s, st\<lparr>iv_caches := c\<rparr>) \<and> caches_fit V S (st\<lparr>iv_caches := c\<rparr>)"
    by (intro exI [of _ c']) (simp add: ask_def caches_fit_def)
qed

lemma walks_ask:
  assumes "answers_for m V S s" and "walks V S B ps (g (may_hold V S s))"
  shows "walks V S B ps (\<lambda>st. obind (ask m V S s st) (\<lambda>(b, st). g b st))"
  unfolding walks_def
proof (intro allI impI)
  fix st
  assume st: "caches_fit V S st" "B \<subseteq> seen st"
  obtain c where c: "ask m V S s st = Ok (may_hold V S s, st\<lparr>iv_caches := c\<rparr>)" "caches_fit V S (st\<lparr>iv_caches := c\<rparr>)"
    using assms(1) st(1) unfolding answers_for_def by blast
  then have "case g (may_hold V S s) (st\<lparr>iv_caches := c\<rparr>) of
      Ok st' \<Rightarrow> progress V S ps (st\<lparr>iv_caches := c\<rparr>) st' | Err e \<Rightarrow> True | Overrun \<Rightarrow> False"
    using assms(2) st(2) unfolding walks_def by simp
  then show "case obind (ask m V S s st) (\<lambda>(b, st). g b st) of
      Ok st' \<Rightarrow> progress V S ps st st' | Err e \<Rightarrow> True | Overrun \<Rightarrow> False"
    using c by (auto simp: progress_def split: outcome.splits)
qed

lemma walks_if_held:
  assumes "\<And>p. p \<in> set ps \<Longrightarrow> pk_shape p = s" and "walks V S B ps f"
  shows "walks V S B ps (if may_hold V S s then f else Ok)"
  using assms walks_none [of ps V S B] by auto

text \<open>The loops, and the parts of a value.\<close>

lemma walks_check_fields:
  assumes "\<And>f q. (f, q) \<in> set fs \<Longrightarrow> pk_shape q = f_shape f \<and> answers_for m V S (f_shape f) \<and> walks V S B [q] (rec q)"
  shows "walks V S B (map snd fs) (check_fields m rec V S fs)"
proof -
  have "walks V S B (concat (map (\<lambda>(f, q). [q]) fs)) (check_fields m rec V S fs)"
    unfolding check_fields_def
  proof (rule walks_rfold, clarify)
    fix f q
    assume "(f, q) \<in> set fs"
    note q = assms [OF this]
    have "walks V S B [q] (if may_hold V S (f_shape f) then rec q else Ok)"
      by (rule walks_if_held) (use q in simp_all)
    then have "walks V S B [q] (\<lambda>st. if may_hold V S (f_shape f) then rec q st else Ok st)" by (cases "may_hold V S (f_shape f)") simp_all
    then show "walks V S B [q] (\<lambda>st. obind (ask m V S (f_shape f) st) (\<lambda>(b, st). if b then rec q st else Ok st))"
      using q by (intro walks_ask) simp_all
  qed
  moreover have "concat (map (\<lambda>(f, q). [q]) fs) = map snd fs" by (induction fs) auto
  ultimately show ?thesis by simp
qed

lemma walks_check_all:
  assumes "answers_for m V S t" and "\<And>q. q \<in> set (list_of items) \<Longrightarrow> pk_shape q = t \<and> walks V S B [q] (rec q)"
  shows "walks V S B (list_of items) (check_all m rec V S t items)"
proof -
  have "walks V S B (list_of items) (\<lambda>st. panics items (\<lambda>xs. rfold rec xs st))"
  proof (cases items)
    case (Some xs)
    have "walks V S B (concat (map (\<lambda>q. [q]) xs)) (rfold rec xs)" using assms(2) Some by (intro walks_rfold) simp
    then show ?thesis using Some by (simp add: panics_def)
  qed (simp add: panics_def)
  then have "walks V S B (list_of items) (if may_hold V S t then \<lambda>st. panics items (\<lambda>xs. rfold rec xs st) else Ok)"
    using assms(2) by (intro walks_if_held) simp_all
  then have "walks V S B (list_of items) (\<lambda>st. if may_hold V S t then panics items (\<lambda>xs. rfold rec xs st) else Ok st)"
    by (cases "may_hold V S t") simp_all
  then show ?thesis unfolding check_all_def by (intro walks_ask assms(1))
qed

lemma walks_check_inside:
  assumes "\<And>q. q \<in> set (one_of inner) \<Longrightarrow> answers_for m V S (pk_shape q) \<and> walks V S B [q] (rec q)"
  shows "walks V S B (one_of inner) (check_inside m rec V S inner)"
proof (cases inner)
  case None
  then show ?thesis using walks_none [of "[]" V S B] by (simp add: check_inside_def [abs_def])
next
  case (Some q)
  have "walks V S B [q] (\<lambda>st. if may_hold V S (pk_shape q) then rec q st else Ok st)"
    using assms Some walks_none [of "[q]" V S B] by (cases "may_hold V S (pk_shape q)") simp_all
  then have "walks V S B [q] (\<lambda>st. obind (ask m V S (pk_shape q) st) (\<lambda>(b, st). if b then rec q st else Ok st))"
    using assms Some by (intro walks_ask) simp_all
  then show ?thesis using Some by (simp add: check_inside_def [abs_def])
qed

lemma walks_one_of:
  assumes "\<And>q. q \<in> set (one_of r) \<Longrightarrow> walks V S B [q] (rec q)"
  shows "walks V S B (one_of r) (\<lambda>st. case r of Some q \<Rightarrow> rec q st | None \<Rightarrow> Ok st)"
  using assms walks_none [of "[]" V S B] by (cases r) simp_all

lemma walks_check_map:
  assumes "answers_for m V S k" and "answers_for m V S v"
    and items: "\<And>a b. (a, b) \<in> set (list_of entries) \<Longrightarrow>
      pk_shape a = k \<and> pk_shape b = v \<and> walks V S B [a] (rec a) \<and> walks V S B [b] (rec b)"
  shows "walks V S B (concat (map (\<lambda>(a, b). [a, b]) (list_of entries))) (check_map m rec V S (k, v) entries)"
proof -
  let ?ps = "concat (map (\<lambda>(a, b). [a, b]) (list_of entries))"
  let ?one = "\<lambda>(a, b) st. obind (if may_hold V S k then rec a st else Ok st) (\<lambda>st. if may_hold V S v then rec b st else Ok st)"
  have loop: "walks V S B ?ps (\<lambda>st. panics entries (\<lambda>es. rfold ?one es st))"
  proof (cases entries)
    case (Some es)
    have "walks V S B (concat (map (\<lambda>(a, b). [a, b]) es)) (rfold ?one es)"
    proof (rule walks_rfold, clarify)
      fix a b
      assume "(a, b) \<in> set es"
      then have ab: "pk_shape a = k" "pk_shape b = v" "walks V S B [a] (rec a)" "walks V S B [b] (rec b)"
        using items [of a b] Some by simp_all
      have "walks V S B [a] (\<lambda>st. if may_hold V S k then rec a st else Ok st)"
        using ab walks_none [of "[a]" V S B] by (cases "may_hold V S k") simp_all
      moreover have "walks V S B [b] (\<lambda>st. if may_hold V S v then rec b st else Ok st)"
        using ab walks_none [of "[b]" V S B] by (cases "may_hold V S v") simp_all
      ultimately have "walks V S B ([a] @ [b]) (\<lambda>st. obind (if may_hold V S k then rec a st else Ok st)
          (\<lambda>st. if may_hold V S v then rec b st else Ok st))"
        by (rule walks_then)
      then show "walks V S B [a, b] (\<lambda>st. obind (if may_hold V S k then rec a st else Ok st)
          (\<lambda>st. if may_hold V S v then rec b st else Ok st))"
        by simp
    qed
    then show ?thesis using Some by (simp add: panics_def)
  qed (simp add: panics_def)
  have "walks V S B ?ps (\<lambda>st. if may_hold V S k \<or> may_hold V S v then panics entries (\<lambda>es. rfold ?one es st) else Ok st)"
  proof (cases "may_hold V S k \<or> may_hold V S v")
    case True
    then show ?thesis using loop by simp
  next
    case False
    then have "\<forall>p \<in> set ?ps. \<not> may_hold V S (pk_shape p)" using items by auto
    then show ?thesis using False by (simp add: walks_none)
  qed
  then show ?thesis unfolding check_map_def fst_conv snd_conv by (intro walks_ask assms(1,2))
qed

text \<open>The parts of a value have the shapes of the parts of its type.\<close>

lemma in_list_of: "q \<in> set (list_of r) \<longleftrightarrow> (\<exists>xs. r = Some xs \<and> q \<in> set xs)"
  and in_one_of: "p \<in> set (one_of o') \<longleftrightarrow> o' = Some p"
  by (cases r; auto) (cases o'; auto)

definition list_def :: "shapes \<Rightarrow> peek \<Rightarrow> sref \<Rightarrow> bool" where
  "list_def S p t \<longleftrightarrow>
     peek_def S p = Def_List t \<or> (\<exists>n. peek_def S p = Def_Array t n) \<or> peek_def S p = Def_Slice t"

lemma list_like_parts_shape:
  assumes "q \<in> set (list_like_parts V S p)"
    and "list_def S p t"
  shows "pk_shape q = t"
  using assms unfolding list_def_def
  by (elim disjE exE) (auto simp: list_like_parts_def into_list_like_def list_like_new_def list_like_iter_def list_iter_def
      strided_def in_list_of split: option.splits)

lemma by_def_part_shape:
  assumes "q \<in> set (parts_by_def V S p)" and "\<forall>u. peek_ty S p \<noteq> Ty_User (User_Struct u)" "\<forall>u. peek_ty S p \<noteq> Ty_User (User_Enum u)"
  shows "pk_shape q \<in> set (part_shapes S (pk_shape p))"
proof -
  have "part_shapes S (pk_shape p) = (case peek_def S p of
             Def_List t \<Rightarrow> [t] | Def_Array t n \<Rightarrow> [t] | Def_Slice t \<Rightarrow> [t] | Def_Map k v \<Rightarrow> [k, v]
           | Def_Set t \<Rightarrow> [t] | Def_Option t \<Rightarrow> [t] | Def_Result t e \<Rightarrow> [t, e]
           | Def_Pointer t \<Rightarrow> (case t of Some p \<Rightarrow> [p] | None \<Rightarrow> [])
           | _ \<Rightarrow> [])"
    using assms(2,3) by (auto simp: part_shapes_def split: facet_type.splits user_type.splits)
  then show ?thesis
    using assms(1) list_like_parts_shape [of q V S p]
    unfolding list_def_def
    by (cases "peek_def S p") (auto simp: parts_by_def_def map_iter_def set_iter_def option_value_def result_ok_def
        result_err_def borrow_inner_def bind_eq_Some_conv in_list_of in_one_of split: option.splits)
qed

lemma part_shape:
  assumes "q \<in> set (value_parts V S p)"
  shows "pk_shape q \<in> set (part_shapes S (pk_shape p))"
proof -
  consider u where "peek_ty S p = Ty_User (User_Struct u)" | u where "peek_ty S p = Ty_User (User_Enum u)"
    | "\<forall>u. peek_ty S p \<noteq> Ty_User (User_Struct u)" "\<forall>u. peek_ty S p \<noteq> Ty_User (User_Enum u)" by blast
  then show ?thesis
  proof cases
    case (1 u)
    then show ?thesis using assms by (auto simp: value_parts_def part_shapes_def fields_of_def field_peek_def)
  next
    case (2 u)
    then show ?thesis
      using assms
      by (fastforce simp: value_parts_def part_shapes_def enum_fields_def fields_of_def field_peek_def
          active_variant_index in_list_of dest!: nth_opt_in_set)
  next
    case 3
    then have "value_parts V S p = parts_by_def V S p"
      by (simp add: value_parts_def split: facet_type.splits user_type.splits)
    then show ?thesis using assms by_def_part_shape 3 by metis
  qed
qed

text \<open>What holds of the parts: the types answer, and the walk over each is right.\<close>

definition parts_walk :: "nat \<Rightarrow> view \<Rightarrow> shapes \<Rightarrow> (type_id \<times> ptr) set \<Rightarrow> (peek \<Rightarrow> inv_state \<Rightarrow> inv_result) \<Rightarrow> peek \<Rightarrow> bool" where
  "parts_walk m V S B rec p \<longleftrightarrow>
     (\<forall>t \<in> set (part_shapes S (pk_shape p)). answers_for m V S t)
     \<and> (\<forall>q \<in> set (value_parts V S p). walks V S B [q] (rec q))"

lemma walks_check_list_like:
  assumes "list_def S p t"
    and "answers_for m V S t" and "\<And>q. q \<in> set (list_like_parts V S p) \<Longrightarrow> walks V S B [q] (rec q)"
  shows "walks V S B (list_like_parts V S p) (check_list_like m rec V S p)"
proof -
  obtain l where l: "into_list_like V S p = Inr l" "list_like_t (ll_def l) = t"
    using assms(1) unfolding list_def_def
    by (elim disjE exE) (auto simp: into_list_like_def list_like_new_def)
  have "walks V S B (list_of (list_like_iter V l)) (check_all m rec V S t (list_like_iter V l))"
    by (rule walks_check_all [OF assms(2)])
      (use assms(3) list_like_parts_shape [OF _ assms(1), where V = V] l in \<open>simp add: list_like_parts_def\<close>)
  then show ?thesis using l by (simp add: list_like_parts_def check_list_like_def [abs_def])
qed

lemma walks_check_by_def:
  assumes ty: "\<forall>u. peek_ty S p \<noteq> Ty_User (User_Struct u)" "\<forall>u. peek_ty S p \<noteq> Ty_User (User_Enum u)"
    and parts: "parts_walk m V S B rec p"
  shows "walks V S B (parts_by_def V S p) (check_by_def m rec V S p)"
proof -
  have vp: "value_parts V S p = parts_by_def V S p"
    using ty by (simp add: value_parts_def split: facet_type.splits user_type.splits)
  have rec: "walks V S B [q] (rec q)" if "q \<in> set (parts_by_def V S p)" for q
    using parts that by (simp add: parts_walk_def vp)
  have shape: "pk_shape q \<in> set (part_shapes S (pk_shape p))" if "q \<in> set (parts_by_def V S p)" for q
    using by_def_part_shape [OF that ty] .
  have ask: "answers_for m V S t" if "t \<in> set (part_shapes S (pk_shape p))" for t
    using parts that by (simp add: parts_walk_def)
  have shapes: "part_shapes S (pk_shape p) = (case peek_def S p of
             Def_List t \<Rightarrow> [t] | Def_Array t n \<Rightarrow> [t] | Def_Slice t \<Rightarrow> [t] | Def_Map k v \<Rightarrow> [k, v]
           | Def_Set t \<Rightarrow> [t] | Def_Option t \<Rightarrow> [t] | Def_Result t e \<Rightarrow> [t, e]
           | Def_Pointer t \<Rightarrow> (case t of Some p \<Rightarrow> [p] | None \<Rightarrow> [])
           | _ \<Rightarrow> [])"
    using ty by (auto simp: part_shapes_def split: facet_type.splits user_type.splits)
  have list_like: "walks V S B (list_like_parts V S p) (check_list_like m rec V S p)"
    if t: "list_def S p t" for t
  proof (rule walks_check_list_like [OF t])
    show "answers_for m V S t" using t by (intro ask) (auto simp: shapes list_def_def)
    show "walks V S B [q] (rec q)" if "q \<in> set (list_like_parts V S p)" for q
      using t that by (intro rec) (auto simp: parts_by_def_def list_def_def)
  qed
  have inside: "walks V S B (one_of r) (check_inside m rec V S r)" if "parts_by_def V S p = one_of r" for r
    by (rule walks_check_inside) (use rec shape ask that in auto)
  have other: ?thesis if "parts_by_def V S p = []" "check_by_def m rec V S p = Ok"
    using walks_none [of "[]" V S B] that by simp
  show ?thesis
  proof (cases "peek_def S p")
    case (Def_Map k v)
    let ?es = "map_iter V (k, v) p"
    have "walks V S B (concat (map (\<lambda>(a, b). [a, b]) (list_of ?es))) (check_map m rec V S (k, v) ?es)"
    proof (rule walks_check_map)
      show "answers_for m V S k" "answers_for m V S v" by (intro ask; simp add: shapes Def_Map)+
      fix a b
      assume ab: "(a, b) \<in> set (list_of ?es)"
      then have "pk_shape a = k" "pk_shape b = v" by (auto simp: map_iter_def in_list_of)
      moreover have "a \<in> set (parts_by_def V S p)" "b \<in> set (parts_by_def V S p)"
        using ab by (force simp: parts_by_def_def Def_Map)+
      ultimately show "pk_shape a = k \<and> pk_shape b = v \<and> walks V S B [a] (rec a) \<and> walks V S B [b] (rec b)"
        using rec by blast
    qed
    then show ?thesis by (simp add: Def_Map parts_by_def_def check_by_def_def [abs_def])
  next
    case (Def_Set t)
    have "walks V S B (list_of (set_iter V t p)) (check_all m rec V S t (set_iter V t p))"
    proof (rule walks_check_all)
      show "answers_for m V S t" by (intro ask) (simp add: shapes Def_Set)
      fix q assume "q \<in> set (list_of (set_iter V t p))"
      then show "pk_shape q = t \<and> walks V S B [q] (rec q)"
        using rec [of q] by (auto simp: set_iter_def in_list_of parts_by_def_def Def_Set)
    qed
    then show ?thesis by (simp add: Def_Set parts_by_def_def check_by_def_def [abs_def])
  next
    case (Def_Result t e)
    have "walks V S B (one_of (result_ok V t p) @ one_of (result_err V e p))
        (check_result rec (result_ok V t p) (result_err V e p))"
      unfolding check_result_def [abs_def]
      by (intro walks_then walks_one_of rec) (simp_all add: parts_by_def_def Def_Result)
    then show ?thesis by (simp add: Def_Result parts_by_def_def check_by_def_def [abs_def])
  next
    case (Def_List t)
    then show ?thesis using list_like [of t] by (simp add: list_def_def parts_by_def_def check_by_def_def [abs_def])
  next
    case (Def_Array t n)
    then show ?thesis using list_like [of t] by (simp add: list_def_def parts_by_def_def check_by_def_def [abs_def])
  next
    case (Def_Slice t)
    then show ?thesis using list_like [of t] by (simp add: list_def_def parts_by_def_def check_by_def_def [abs_def])
  next
    case (Def_Option t)
    then show ?thesis using inside [of "option_value V t p"] by (simp add: parts_by_def_def check_by_def_def [abs_def])
  next
    case (Def_Pointer t)
    then show ?thesis using inside [of "borrow_inner V t p"] by (simp add: parts_by_def_def check_by_def_def [abs_def])
  qed (rule other; simp add: fun_eq_iff parts_by_def_def check_by_def_def)+
qed

lemma walks_check_parts:
  assumes parts: "parts_walk m V S B rec p"
  shows "walks V S B (value_parts V S p) (check_parts m rec V S p)"
proof -
  have ask: "answers_for m V S t" if "t \<in> set (part_shapes S (pk_shape p))" for t
    using parts that by (simp add: parts_walk_def)
  have rec: "walks V S B [q] (rec q)" if "q \<in> set (value_parts V S p)" for q
    using parts that by (simp add: parts_walk_def)
  have fields: "walks V S B (map snd fs) (check_fields m rec V S fs)"
    if "value_parts V S p = map snd fs" "\<And>f q. (f, q) \<in> set fs \<Longrightarrow> pk_shape q = f_shape f" for fs
  proof (rule walks_check_fields)
    fix f q assume "(f, q) \<in> set fs"
    then have "q \<in> set (value_parts V S p)" "pk_shape q = f_shape f" using that by force+
    then show "pk_shape q = f_shape f \<and> answers_for m V S (f_shape f) \<and> walks V S B [q] (rec q)"
      using rec ask part_shape by metis
  qed
  have shape: "pk_shape q = f_shape f" if "(f, q) \<in> set (fields_of p fs)" for f q fs
    using that by (auto simp: fields_of_def field_peek_def)
  consider u where "peek_ty S p = Ty_User (User_Struct u)" | u where "peek_ty S p = Ty_User (User_Enum u)"
    | "\<forall>u. peek_ty S p \<noteq> Ty_User (User_Struct u)" "\<forall>u. peek_ty S p \<noteq> Ty_User (User_Enum u)" by blast
  then show ?thesis
  proof cases
    case (1 u)
    then show ?thesis
      using fields [of "fields_of p (st_fields u)"] shape by (simp add: value_parts_def check_parts_def [abs_def])
  next
    case (2 u)
    show ?thesis
    proof (cases "enum_fields V S u p")
      case None
      then show ?thesis using 2 by (simp add: check_parts_def [abs_def] panics_def)
    next
      case (Some fs)
      then have "pk_shape q = f_shape f" if "(f, q) \<in> set fs" for f q
        using that shape by (auto simp: enum_fields_def)
      then show ?thesis using 2 Some fields [of fs] by (simp add: value_parts_def check_parts_def [abs_def] panics_def)
    qed
  next
    case 3
    have "value_parts V S p = parts_by_def V S p" "check_parts m rec V S p = check_by_def m rec V S p"
      using 3 by (auto simp: value_parts_def check_parts_def [abs_def] split: facet_type.splits user_type.splits)
    then show ?thesis using walks_check_by_def [OF 3 parts] by simp
  qed
qed

section \<open>The whole walk\<close>

lemma same_value:
  assumes "one_meaning V S" and "value_id S q = value_id S p"
  shows "vw_invariants V (pk_shape q) (pk_data q) = vw_invariants V (pk_shape p) (pk_data p)"
    and "value_parts V S q = value_parts V S p"
proof -
  have peek: "peek_at (pk_shape p) (pk_data p) = p" for p :: peek by (simp add: peek_at_def)
  have "sh_id (S (pk_shape q)) = sh_id (S (pk_shape p))" and d: "pk_data q = pk_data p"
    using assms(2) by (simp_all add: value_id_def)
  with assms(1) have "vw_invariants V (pk_shape q) (pk_data p) = vw_invariants V (pk_shape p) (pk_data p)
      \<and> value_parts V S (peek_at (pk_shape q) (pk_data p)) = value_parts V S (peek_at (pk_shape p) (pk_data p))"
    unfolding one_meaning_def by blast
  then show "vw_invariants V (pk_shape q) (pk_data q) = vw_invariants V (pk_shape p) (pk_data p)"
    "value_parts V S q = value_parts V S p"
    using peek [of p] peek [of q] unfolding d by simp_all
qed

lemma progress_self:
  assumes one: "one_meaning V S"
    and step: "progress V S (value_parts V S p) (st\<lparr>iv_visited := value_id S p # iv_visited st\<rparr>) st'"
    and clean: "vw_invariants V (pk_shape p) (pk_data p) = None"
  shows "progress V S [p] st st'"
proof -
  have vis: "insert (value_id S p) (seen st) \<subseteq> seen st'" using progress_visited [OF step] by simp
  have "vw_invariants V (pk_shape q) (pk_data q) = None \<and> ids_of V S (value_parts V S q) \<subseteq> seen st'"
    if q: "value_id S q \<in> seen st'" "value_id S q \<notin> seen st" for q
  proof (cases "value_id S q = value_id S p")
    case True
    note same = same_value [OF one True]
    show ?thesis unfolding same using clean step by (simp add: progress_def)
  next
    case False
    then have "value_id S q \<notin> seen (st\<lparr>iv_visited := value_id S p # iv_visited st\<rparr>)" using q(2) by simp
    then show ?thesis using step q(1) unfolding progress_def by blast
  qed
  moreover have "ids_of V S [p] \<subseteq> seen st'" using vis by auto
  ultimately show ?thesis using vis progress_caches [OF step] unfolding progress_def by blast
qed

lemma validate_walks:
  assumes one: "one_meaning V S" and ranks: "types_end S rank" and U: "finite U"
    and "\<And>q. reaches V S p q \<Longrightarrow> value_id S q \<in> U" and "rank (sh_id (S (pk_shape p))) < m" and "card (U - B) < n"
  shows "walks V S B [p] (validate_invariants n m V S p)"
  using assms(4-6)
proof (induction n arbitrary: p B)
  case (Suc n)
  have ask: "answers_for m V S (pk_shape p)" by (rule ask_right [OF one ranks Suc.prems(2)])
  show ?case
    unfolding validate_invariants.simps
  proof (rule walks_ask [OF ask], unfold walks_def, intro allI impI)
    fix st
    assume st: "caches_fit V S st" "B \<subseteq> seen st"
    let ?st = "st\<lparr>iv_visited := value_id S p # iv_visited st\<rparr>"
    let ?rec = "validate_invariants n m V S"
    show "case (if \<not> may_hold V S (pk_shape p) then Ok st
        else if value_id S p \<in> seen st then Ok st
        else let st = ?st
             in case vw_invariants V (pk_shape p) (pk_data p) of
                  Some message \<Rightarrow> Err (Some (pk_shape p, message))
                | None \<Rightarrow> check_parts m ?rec V S p st) of
        Ok st' \<Rightarrow> progress V S [p] st st' | Err e \<Rightarrow> True | Overrun \<Rightarrow> False"
    proof (cases "may_hold V S (pk_shape p) \<and> value_id S p \<notin> seen st \<and> vw_invariants V (pk_shape p) (pk_data p) = None")
      case False
      then show ?thesis using st by (auto simp: progress_def Let_def split: option.splits)
    next
      case True
      have in_U: "value_id S p \<in> U" using Suc.prems(1) reaches_self by blast
      have "U - insert (value_id S p) (seen st) \<subset> U - B" using st(2) True in_U by blast
      then have "card (U - insert (value_id S p) (seen st)) < card (U - B)" using U by (simp add: psubset_card_mono)
      then have card: "card (U - insert (value_id S p) (seen st)) < n" using Suc.prems(3) by simp
      have "parts_walk m V S (insert (value_id S p) (seen st)) ?rec p"
        unfolding parts_walk_def
      proof (intro conjI ballI)
        fix t assume "t \<in> set (part_shapes S (pk_shape p))"
        then have "rank (sh_id (S t)) < rank (sh_id (S (pk_shape p)))" using ranks unfolding types_end_def by blast
        then show "answers_for m V S t" using Suc.prems(2) by (intro ask_right [OF one ranks]) simp
      next
        fix q assume q: "q \<in> set (value_parts V S p)"
        then have "rank (sh_id (S (pk_shape q))) < rank (sh_id (S (pk_shape p)))"
          using ranks part_shape unfolding types_end_def by blast
        then have "rank (sh_id (S (pk_shape q))) < m" using Suc.prems(2) by simp
        moreover have "\<And>r. reaches V S q r \<Longrightarrow> value_id S r \<in> U" using Suc.prems(1) q reaches_part by blast
        ultimately show "walks V S (insert (value_id S p) (seen st)) [q] (?rec q)" using Suc.IH card by blast
      qed
      from walks_check_parts [OF this]
      have "case check_parts m ?rec V S p ?st of
          Ok st' \<Rightarrow> progress V S (value_parts V S p) ?st st' | Err e \<Rightarrow> True | Overrun \<Rightarrow> False"
        unfolding walks_def by (elim allE [where x = ?st] impE) (use st(1) in \<open>simp_all add: caches_fit_def\<close>)
      moreover have "progress V S [p] st st'" if "progress V S (value_parts V S p) ?st st'" for st'
        by (rule progress_self [OF one that]) (use True in simp_all)
      ultimately show ?thesis using True by (auto simp: Let_def split: outcome.splits)
    qed
  qed
qed simp

lemma reaches_may_hold: "reaches V S p r \<Longrightarrow> may_hold V S (pk_shape r) \<Longrightarrow> may_hold V S (pk_shape p)"
  by (induction rule: reaches.induct) (auto intro: may_hold_part part_shape)

lemma visited_clean:
  assumes step: "progress V S ps (fresh_caches thread) st"
    and declared: "\<forall>s d. vw_invariants V s d \<noteq> None \<longrightarrow> vw_has_invariants V s"
    and "reaches V S p r" and "value_id S p \<in> seen st"
  shows "vw_invariants V (pk_shape r) (pk_data r) = None"
  using assms(3,4)
proof (induction rule: reaches.induct)
  case (reaches_self p)
  then show ?case using step unfolding progress_def by (simp add: fresh_caches_def)
next
  case (reaches_part q p r)
  show ?case
  proof (cases "may_hold V S (pk_shape q)")
    case True
    have "ids_of V S (value_parts V S p) \<subseteq> seen st"
      using step reaches_part.prems unfolding progress_def by (simp add: fresh_caches_def)
    then have "value_id S q \<in> seen st" using True reaches_part.hyps(1) by blast
    then show ?thesis by (rule reaches_part.IH)
  next
    case False
    then have "\<not> vw_has_invariants V (pk_shape r)" using reaches_may_hold [OF reaches_part.hyps(2)] may_hold_self by blast
    then show ?thesis using declared by blast
  qed
qed

lemma validated:
  assumes one: "one_meaning V S" and ranks: "types_end S rank"
    and declared: "\<forall>s d. vw_invariants V s d \<noteq> None \<longrightarrow> vw_has_invariants V s"
    and thread: "\<forall>s b. thread (sh_id (S s)) = Some b \<longrightarrow> b = may_hold V S s"
    and U: "finite U" and inside: "\<forall>q. reaches V S p q \<longrightarrow> value_id S q \<in> U"
    and fuel: "card U < n" "rank (sh_id (S (pk_shape p))) < m"
  shows "case validate_invariants n m V S p (fresh_caches thread) of
      Ok st \<Rightarrow> (\<forall>q. reaches V S p q \<longrightarrow> vw_invariants V (pk_shape q) (pk_data q) = None)
        \<and> (\<forall>s b. ic_thread (iv_caches st) (sh_id (S s)) = Some b \<longrightarrow> b = may_hold V S s)
    | Err (Some e) \<Rightarrow> \<exists>q. reaches V S p q \<and> violates V q e
    | Err None \<Rightarrow> \<exists>q. reaches V S p q \<and> unreadable V S q
    | Overrun \<Rightarrow> False"
proof -
  have "walks V S {} [p] (validate_invariants n m V S p)"
    by (rule validate_walks [OF one ranks U _ fuel(2)]) (use inside fuel(1) in simp_all)
  moreover have "caches_fit V S (fresh_caches thread)"
    using thread by (auto simp: caches_fit_def fresh_caches_def caches_right_def pending_def)
  ultimately have walk: "case validate_invariants n m V S p (fresh_caches thread) of
      Ok st \<Rightarrow> progress V S [p] (fresh_caches thread) st | Err e \<Rightarrow> True | Overrun \<Rightarrow> False"
    unfolding walks_def by simp
  show ?thesis
  proof (cases "validate_invariants n m V S p (fresh_caches thread)")
    case (Ok st)
    then have step: "progress V S [p] (fresh_caches thread) st" using walk by simp
    have "vw_invariants V (pk_shape q) (pk_data q) = None" if q: "reaches V S p q" for q
    proof (cases "may_hold V S (pk_shape p)")
      case True
      then have "value_id S p \<in> seen st" using step unfolding progress_def by auto
      then show ?thesis by (rule visited_clean [OF step declared q])
    next
      case False
      then have "\<not> vw_has_invariants V (pk_shape q)" using reaches_may_hold [OF q] may_hold_self by blast
      then show ?thesis using declared by blast
    qed
    moreover have "b = may_hold V S s" if "ic_thread (iv_caches st) (sh_id (S s)) = Some b" for s b
      using progress_caches [OF step] that unfolding caches_fit_def caches_right_def by blast
    ultimately show ?thesis using Ok by simp
  next
    case (Err e)
    then show ?thesis using reported_is_violated [OF Err] by (cases e) simp_all
  next
    case Overrun
    then show ?thesis using walk by simp
  qed
qed

end
