(* ===== verification/Peek_Samples.thy ===== *)
theory Peek_Samples
  imports Samples Peek_Hash Peek_Fields Peek_Path Peek_Invariants
begin

text \<open>
  A struct with a string, a flattened struct, a flattened map and an option, three values of it in
  memory, and what the tables answer for them: the setting in which the properties of reading values
  are applied. Two types that point to each other show what the cache of invariants misses.
\<close>

section \<open>Tables that answer nothing\<close>

definition blank_view :: view where
  "blank_view = \<lparr>vw_size = (\<lambda>s. Some 24), vw_read = (\<lambda>n p. 0), vw_text = (\<lambda>t p. []), vw_f_bits = (\<lambda>n p. 0),
     vw_partial_eq = (\<lambda>s p q. None), vw_partial_cmp = (\<lambda>s p q. None), vw_hash = (\<lambda>s p. None),
     vw_display = (\<lambda>s p. None), vw_call = (\<lambda>f p. False), vw_has_invariants = (\<lambda>s. False),
     vw_invariants = (\<lambda>s p. None), vw_is_some = (\<lambda>s p. False), vw_option_value = (\<lambda>s p. None),
     vw_is_ok = (\<lambda>s p. True), vw_result_ok = (\<lambda>s p. Some p), vw_result_err = (\<lambda>s p. None),
     vw_borrow = (\<lambda>s. None), vw_borrow_inner = (\<lambda>s. None), vw_slice_ref = (\<lambda>p. p), vw_slice_len = (\<lambda>p. 0),
     vw_array_ptr = (\<lambda>s p. p), vw_list_len = (\<lambda>s p. 0), vw_list_get = (\<lambda>s p i. None), vw_list_ptr = (\<lambda>s. None),
     vw_list_items = (\<lambda>s. None), vw_set_len = (\<lambda>s p. 0), vw_set_contains = (\<lambda>s p q. False),
     vw_set_items = (\<lambda>s. None), vw_map_len = (\<lambda>s p. 0), vw_map_get = (\<lambda>s p q. None), vw_map_items = (\<lambda>s. None),
     vw_nd_count = (\<lambda>s p. 1), vw_nd_n_dim = (\<lambda>s p. 0), vw_nd_dim = (\<lambda>s p i. None), vw_nd_get = (\<lambda>s p i. Some p),
     vw_dyn_kind = (\<lambda>s p. Dk_Null), vw_dyn_bool = (\<lambda>s p. None), vw_dyn_i64 = (\<lambda>s p. None), vw_dyn_u64 = (\<lambda>s p. None),
     vw_dyn_f64_bits = (\<lambda>s p. None), vw_dyn_str = (\<lambda>s p. None), vw_dyn_bytes = (\<lambda>s p. None),
     vw_dyn_array_len = (\<lambda>s p. None), vw_dyn_array_get = (\<lambda>s p i. None), vw_dyn_object_len = (\<lambda>s p. None),
     vw_dyn_object_entry = (\<lambda>s p i. None)\<rparr>"

section \<open>A struct with flattened fields\<close>

definition unit_variant :: "string \<Rightarrow> variant" where
  "unit_variant name = \<lparr>v_name = name, v_rename = None, v_discriminant = None, v_attributes = [],
     v_data = (rust_struct [])\<lparr>st_kind := Kind_Unit\<rparr>\<rparr>"

definition newtype_variant :: "string \<Rightarrow> sref \<Rightarrow> variant" where
  "newtype_variant name t = \<lparr>v_name = name, v_rename = None, v_discriminant = None, v_attributes = [],
     v_data = (rust_struct [plain_field 20 ''0'' t])\<lparr>st_kind := Kind_TupleStruct\<rparr>\<rparr>"

definition peek_S :: shapes where
  "peek_S r =
     (if r = 0 then scalar_shape ST_String ''String''
      else if r = 1 then (enum_shape 61 ''Option'' [unit_variant ''None'', newtype_variant ''Some'' 0])
        \<lparr>sh_def := Def_Option 0\<rparr>
      else if r = 2 then struct_shape 62 ''Key'' [plain_field 1 ''id'' 0]
      else if r = 3 then opaque_shape\<lparr>sh_id := Tid_Other 63, sh_def := Def_Map 0 0\<rparr>
      else if r = 4 then struct_shape 64 ''Entry''
        [plain_field 2 ''name'' 0, (flat_field 3 ''key'' 2)\<lparr>f_offset := 24\<rparr>,
         (flat_field 4 ''extra'' 3)\<lparr>f_offset := 48\<rparr>, (plain_field 5 ''nick'' 1)\<lparr>f_offset := 96, f_skip_serializing_if := Some 7\<rparr>]
      else opaque_shape)"

text \<open>Entries lie in the blocks 0, 1 and 2; the last has another name and a bad key.\<close>

fun peek_text :: "ptr \<Rightarrow> string" where
  "peek_text (Ptr b off) =
     (if b = 2 \<and> off = 0 then ''Bob'' else if b < 3 \<and> off = 0 then ''Ann''
      else if b < 3 then ''7'' else if off = 0 then ''kind'' else ''x'')"
| "peek_text Dangling = []"

definition digest :: "string \<Rightarrow> nat" where
  "digest s = (if s = ''Ann'' then 0 else if s = ''Bob'' then 1 else 2 + length s)"

definition in_block :: "nat \<Rightarrow> ptr \<Rightarrow> bool" where
  "in_block b p \<longleftrightarrow> (case p of Ptr c off \<Rightarrow> c = b | Dangling \<Rightarrow> False)"

definition peek_V :: view where
  "peek_V = blank_view\<lparr>
     vw_text := (\<lambda>form p. peek_text p),
     vw_call := (\<lambda>f p. f = 7),
     vw_hash := (\<lambda>s p. if s = 0 then Some [digest (peek_text p)] else None),
     vw_is_some := (\<lambda>s p. s = 1),
     vw_option_value := (\<lambda>s p. if s = 1 then Some (Ptr 9 48) else None),
     vw_map_len := (\<lambda>s p. if s = 3 then 1 else 0),
     vw_map_items := (\<lambda>s. if s = 3 then Some (\<lambda>p. [(Ptr 9 0, Ptr 9 24)]) else None),
     vw_has_invariants := (\<lambda>s. s = 2),
     vw_invariants := (\<lambda>s p. if s = 2 \<and> in_block 2 p then Some ''bad key'' else None)\<rparr>"

definition entry_at :: "nat \<Rightarrow> peek" where
  "entry_at b = peek_at 4 (Ptr b 0)"

definition entry_fields :: "nat \<Rightarrow> (field \<times> peek) list" where
  "entry_fields b = (case into_struct peek_S (entry_at b) of
     Inr st \<Rightarrow> fields_of (entry_at b) (st_fields st) | Inl e \<Rightarrow> [])"

section \<open>What the properties ask of the setting\<close>

lemmas peek_shapes = peek_S_def scalar_shape_def struct_shape_def enum_shape_def rust_struct_def rust_enum_def
  opaque_shape_def plain_field_def flat_field_def unit_variant_def newtype_variant_def

lemma peek_id: "sh_id (peek_S s) =
    (if s = 0 then Tid_Scalar ST_String else if s < 5 then Tid_Other (60 + s) else Tid_Other 0)"
  by (auto simp: peek_shapes)

lemma peek_same_id: "sh_id (peek_S s) = sh_id (peek_S t) \<Longrightarrow> s = t \<or> 5 \<le> s \<and> 5 \<le> t"
  unfolding peek_id by (auto split: if_splits)

lemma peek_other: "5 \<le> s \<Longrightarrow> peek_S s = opaque_shape"
  by (simp add: peek_S_def)

lemma peek_ids: "ids_faithful peek_S"
  unfolding ids_faithful_def using peek_same_id peek_other by metis

lemma peek_tables: "same_tables peek_V peek_V peek_S"
  unfolding same_tables_def
proof (intro allI impI)
  fix s t
  assume "sh_id (peek_S s) = sh_id (peek_S t)"
  then have "(s = 0) = (t = 0)" using peek_same_id by fastforce
  then show "(\<forall>p q. (vw_hash peek_V s p = None) = (vw_hash peek_V t q = None))
      \<and> (vw_borrow peek_V s = None) = (vw_borrow peek_V t = None)
      \<and> (\<forall>p q a b xs ys. vw_hash peek_V s p = Some a \<longrightarrow> vw_hash peek_V t q = Some b \<longrightarrow> a @ xs = b @ ys \<longrightarrow> a = b)"
    by (auto simp: peek_V_def blank_view_def)
qed

lemma peek_answers: "view_answers {} peek_V"
  unfolding view_answers_def
  by (auto simp: peek_V_def blank_view_def dyn_answers_def split: if_splits)

lemma peek_apart: "variants_named_apart peek_S"
  unfolding variants_named_apart_def by (auto simp: peek_shapes split: if_splits)

text \<open>Values and their parts.\<close>

definition entry_values :: "nat \<Rightarrow> peek list" where
  "entry_values b = [entry_at b, peek_at 0 (Ptr b 0), peek_at 2 (Ptr b 24), peek_at 0 (Ptr b 24), peek_at 3 (Ptr b 48),
     peek_at 0 (Ptr 9 0), peek_at 0 (Ptr 9 24), peek_at 1 (Ptr b 96), peek_at 0 (Ptr b 96)]"

lemma reaches_closed:
  assumes "list_all (\<lambda>q. list_all (\<lambda>r. r \<in> set qs) (value_parts V S q)) qs"
    and "reaches V S p q" and "p \<in> set qs"
  shows "q \<in> set qs"
  using assms(2,3)
  by (induction rule: reaches.induct) (use assms(1) in \<open>auto simp: list_all_iff\<close>)

lemma entry_values_closed:
  "list_all (\<lambda>q. list_all (\<lambda>r. r \<in> set (entry_values 2)) (value_parts peek_V peek_S q)) (entry_values 2)"
  by code_simp

lemma peek_one_meaning: "one_meaning peek_V peek_S"
  unfolding one_meaning_def
proof (intro allI impI)
  fix s t
  assume same: "sh_id (peek_S s) = sh_id (peek_S t)"
  have none: "value_parts peek_V peek_S (peek_at s d) = []" if "5 \<le> s" for s d
    using that by (simp add: value_parts_def parts_by_def_def peek_other opaque_shape_def)
  show "peek_S s = peek_S t \<and> vw_has_invariants peek_V s = vw_has_invariants peek_V t
      \<and> (\<forall>d. vw_invariants peek_V s d = vw_invariants peek_V t d
           \<and> value_parts peek_V peek_S (peek_at s d) = value_parts peek_V peek_S (peek_at t d))"
    using peek_same_id [OF same] none by (auto simp: peek_other peek_V_def blank_view_def)
qed

definition peek_rank :: "type_id \<Rightarrow> nat" where
  "peek_rank i = (if i = Tid_Other 64 then 2 else if i \<in> {Tid_Other 61, Tid_Other 62, Tid_Other 63} then 1 else 0)"

lemma peek_types_end: "types_end peek_S peek_rank"
  unfolding types_end_def
proof (intro allI ballI)
  fix s t
  assume t: "t \<in> set (part_shapes peek_S s)"
  then consider "s \<in> {1, 2, 3}" "t = 0" | "s = 4" "t < 4"
    by (auto simp: part_shapes_def peek_shapes split: if_splits)
  then show "peek_rank (sh_id (peek_S t)) < peek_rank (sh_id (peek_S s))"
    by cases (auto simp: peek_id peek_rank_def)
qed

section \<open>Types that point to each other\<close>

text \<open>\<open>A\<close> holds a pointer to \<open>B\<close> and a \<open>C\<close>, \<open>B\<close> holds a pointer to \<open>A\<close>, and \<open>C\<close> has an invariant.\<close>

definition ring_S :: shapes where
  "ring_S r =
     (if r = 0 then struct_shape 70 ''A'' [plain_field 1 ''b'' 3, (plain_field 2 ''c'' 2)\<lparr>f_offset := 8\<rparr>]
      else if r = 1 then struct_shape 71 ''B'' [plain_field 3 ''a'' 4]
      else if r = 2 then opaque_shape\<lparr>sh_id := Tid_Other 72\<rparr>
      else if r = 3 then opaque_shape\<lparr>sh_id := Tid_Other 73, sh_def := Def_Pointer (Some 1)\<rparr>
      else if r = 4 then opaque_shape\<lparr>sh_id := Tid_Other 74, sh_def := Def_Pointer (Some 0)\<rparr>
      else opaque_shape)"

text \<open>An \<open>A\<close> in block 0 points to a \<open>B\<close> in block 1, and that to an \<open>A\<close> in block 2, whose \<open>C\<close> is bad;
  that \<open>A\<close> points back to the \<open>B\<close>.\<close>

definition ring_V :: view where
  "ring_V = blank_view\<lparr>
     vw_has_invariants := (\<lambda>s. s = 2),
     vw_invariants := (\<lambda>s p. if s = 2 \<and> in_block 2 p then Some ''bad'' else None),
     vw_borrow := (\<lambda>s. if s = 3 then Some (\<lambda>p. Ptr 1 0) else if s = 4 then Some (\<lambda>p. Ptr 2 0) else None)\<rparr>"

lemma ring_found_from_B:
  "case validate_invariants 9 9 ring_V ring_S (peek_at 1 (Ptr 1 0)) (fresh_caches (\<lambda>id. None)) of
     Err e \<Rightarrow> e = Some (2, ''bad'') | r \<Rightarrow> False"
  by code_simp

text \<open>Starting from the first \<open>A\<close>, the type \<open>B\<close> is asked while \<open>A\<close> is being evaluated, is taken to have
  no invariants, and is remembered so: what lies under it is not checked.\<close>

lemma ring_missed_from_A:
  "(case validate_invariants 9 9 ring_V ring_S (peek_at 0 (Ptr 0 0)) (fresh_caches (\<lambda>id. None)) of
      Ok st \<Rightarrow> True | r \<Rightarrow> False)
   \<and> reaches ring_V ring_S (peek_at 0 (Ptr 0 0)) (peek_at 2 (Ptr 2 8))
   \<and> violates ring_V (peek_at 2 (Ptr 2 8)) (2, ''bad'')"
proof (intro conjI)
  show "case validate_invariants 9 9 ring_V ring_S (peek_at 0 (Ptr 0 0)) (fresh_caches (\<lambda>id. None)) of
      Ok st \<Rightarrow> True | r \<Rightarrow> False"
    by code_simp
  have "(peek_at 3 (Ptr 0 0)) \<in> set (value_parts ring_V ring_S (peek_at 0 (Ptr 0 0)))"
    "(peek_at 1 (Ptr 1 0)) \<in> set (value_parts ring_V ring_S (peek_at 3 (Ptr 0 0)))"
    "(peek_at 4 (Ptr 1 0)) \<in> set (value_parts ring_V ring_S (peek_at 1 (Ptr 1 0)))"
    "(peek_at 0 (Ptr 2 0)) \<in> set (value_parts ring_V ring_S (peek_at 4 (Ptr 1 0)))"
    "(peek_at 2 (Ptr 2 8)) \<in> set (value_parts ring_V ring_S (peek_at 0 (Ptr 2 0)))"
    by code_simp+
  then show "reaches ring_V ring_S (peek_at 0 (Ptr 0 0)) (peek_at 2 (Ptr 2 8))"
    by (meson reaches_part reaches_self)
  show "violates ring_V (peek_at 2 (Ptr 2 8)) (2, ''bad'')"
    by code_simp
qed

end
