(* ===== verification/Poke.thy ===== *)
theory Poke
  imports Peek Variance Block_Memory
begin

text \<open>
  Changing values (facet-reflect, src/poke): a \<open>Poke\<close> is an address with the shape of the value that
  lies there, as a peek is, with the right to change it. What the values in memory answer is read from
  the same view; the entries of the function tables that only a poke uses are in \<open>mut_tables\<close>. A change
  is a list of effects in the log. A value is given to a poke where it lies: a local value of the
  caller, of a static type, or a heap value. When a poke fails, the value it was given is dropped, as it
  is when a function returns that owns it. What a value is (\<open>into_struct\<close> and so on) is decided as for
  peeks, but for sequences.
\<close>

section \<open>Pokes\<close>

type_synonym poke = peek

record mut_tables =
  mt_list_get_mut :: "sref \<Rightarrow> (ptr \<Rightarrow> nat \<Rightarrow> ptr option) option"
  mt_list_as_mut_ptr :: "sref \<Rightarrow> (ptr \<Rightarrow> ptr) option"
  mt_list_pop :: "sref \<Rightarrow> (ptr \<Rightarrow> bool) option"
  mt_list_swap :: "sref \<Rightarrow> (ptr \<Rightarrow> nat \<Rightarrow> nat \<Rightarrow> bool) option"
  mt_array_as_mut_ptr :: "sref \<Rightarrow> ptr \<Rightarrow> ptr"
  mt_slice_as_mut_ptr :: "sref \<Rightarrow> ptr \<Rightarrow> ptr"
  mt_set_insert :: "sref \<Rightarrow> ptr \<Rightarrow> ptr \<Rightarrow> bool"
  mt_nd_get_mut :: "sref \<Rightarrow> (ptr \<Rightarrow> nat \<Rightarrow> ptr option) option"
  mt_nd_as_mut_ptr :: "sref \<Rightarrow> (ptr \<Rightarrow> ptr) option"
  mt_nd_byte_stride :: "sref \<Rightarrow> (ptr \<Rightarrow> nat \<Rightarrow> int option) option"
  mt_dyn_set_f64 :: "sref \<Rightarrow> u64 \<Rightarrow> bool"
  mt_dyn_has_set_bytes :: "sref \<Rightarrow> bool"
  mt_dyn_has_end_array :: "sref \<Rightarrow> bool"
  mt_dyn_has_end_object :: "sref \<Rightarrow> bool"
  mt_dyn_object_get_mut :: "sref \<Rightarrow> (ptr \<Rightarrow> string \<Rightarrow> ptr option) option"

text \<open>The result of a change, an error or a value; \<open>None\<close> is a panic.\<close>

type_synonym 'a poked = "((error_kind + 'a) \<times> world) option"

definition try_reborrow :: "shapes \<Rightarrow> poke \<Rightarrow> poke option" where
  "try_reborrow S p = (if can_shrink (computed_variance S (pk_shape p)) then Some p else None)"

section \<open>Whole values\<close>

definition poke_get :: "shapes \<Rightarrow> sref \<Rightarrow> poke \<Rightarrow> error_kind + ptr" where
  "poke_get S t p =
     (if \<not> same_shape S (pk_shape p) t then Inl (Ek_Wrong_Shape (pk_shape p) t) else Inr (pk_data p))"

definition poke_get_mut :: "shapes \<Rightarrow> sref \<Rightarrow> poke \<Rightarrow> error_kind + ptr" where
  "poke_get_mut S t p =
     (if \<not> same_shape S (pk_shape p) t then Inl (Ek_Wrong_Shape (pk_shape p) t) else Inr (pk_data p))"

text \<open>The idiom of all setters: the old value is dropped in place, and the new one written over it.\<close>

definition write_over :: "host \<Rightarrow> sref \<Rightarrow> ptr \<Rightarrow> sref \<Rightarrow> ptr \<Rightarrow> world \<Rightarrow> world" where
  "write_over H s dst t src w = emit (Ef_Copy t src dst) (call_drop_in_place H s dst w)"

definition poke_set :: "host \<Rightarrow> shapes \<Rightarrow> sref \<Rightarrow> ptr \<Rightarrow> poke \<Rightarrow> world \<Rightarrow> unit poked" where
  "poke_set H S t src p w =
     (if \<not> same_shape S (pk_shape p) t
      then Some (Inl (Ek_Wrong_Shape (pk_shape p) t), call_drop_in_place H t src w)
      else Some (Inr (), write_over H (pk_shape p) (pk_data p) t src w))"

text \<open>A value that is given at a type, or in the heap, to a call \<open>f\<close> that moves it from its address. Of
  a heap value the guard is taken, so that only its block is freed afterwards.\<close>

definition give_local ::
    "host \<Rightarrow> shapes \<Rightarrow> sref \<Rightarrow> sref \<Rightarrow> ptr \<Rightarrow> (ptr \<Rightarrow> world \<Rightarrow> world) \<Rightarrow> world \<Rightarrow> unit poked" where
  "give_local H S expected t src f w =
     (if \<not> same_shape S expected t
      then Some (Inl (Ek_Wrong_Shape expected t), call_drop_in_place H t src w)
      else Some (Inr (), f src w))"

definition take_guard :: "heap_value \<Rightarrow> (ptr \<Rightarrow> world \<Rightarrow> world) \<Rightarrow> world \<Rightarrow> world option" where
  "take_guard hv f w = map_option (\<lambda>g. guard_drop g (f (gd_ptr g) w)) (hv_guard hv)"

definition give_heap ::
    "host \<Rightarrow> shapes \<Rightarrow> sref \<Rightarrow> heap_value \<Rightarrow> (ptr \<Rightarrow> world \<Rightarrow> world) \<Rightarrow> world \<Rightarrow> unit poked" where
  "give_heap H S expected hv f w =
     (if \<not> same_shape S expected (hv_shape hv)
      then Some (Inl (Ek_Wrong_Shape expected (hv_shape hv)), heap_value_drop H hv w)
      else map_option (\<lambda>w. (Inr (), w)) (take_guard hv f w))"

section \<open>Structs, tuples, enums\<close>

definition field_or_error :: "poke \<Rightarrow> field list \<Rightarrow> nat \<Rightarrow> error_kind + field" where
  "field_or_error p fs index =
     (case nth_opt fs index of
        Some f \<Rightarrow> Inr f | None \<Rightarrow> Inl (Ek_Field_Index (pk_shape p) index (length fs)))"

definition poke_struct_field :: "poke \<Rightarrow> struct_type \<Rightarrow> nat \<Rightarrow> error_kind + poke" where
  "poke_struct_field p st index =
     (case field_or_error p (st_fields st) index of Inl e \<Rightarrow> Inl e | Inr f \<Rightarrow> Inr (field_peek p f))"

definition poke_struct_field_by_name :: "poke \<Rightarrow> struct_type \<Rightarrow> string \<Rightarrow> error_kind + poke" where
  "poke_struct_field_by_name p st name =
     (case position (\<lambda>f. f_name f = name) (st_fields st) of
        Some i \<Rightarrow> poke_struct_field p st i
      | None \<Rightarrow> Inl (Ek_No_Such_Field (pk_shape p)))"

text \<open>A local value is written over a field that may be missing.\<close>

definition set_part ::
    "host \<Rightarrow> shapes \<Rightarrow> sref \<Rightarrow> ptr \<Rightarrow> poke \<Rightarrow> error_kind + field \<Rightarrow> world \<Rightarrow> unit poked" where
  "set_part H S t src p part w =
     (case part of
        Inl e \<Rightarrow> Some (Inl e, call_drop_in_place H t src w)
      | Inr f \<Rightarrow>
          if \<not> same_shape S (f_shape f) t
          then Some (Inl (Ek_Wrong_Shape (f_shape f) t), call_drop_in_place H t src w)
          else Some (Inr (), write_over H (f_shape f) (ptr_add (pk_data p) (f_offset f)) t src w))"

definition poke_struct_set_field ::
    "host \<Rightarrow> shapes \<Rightarrow> sref \<Rightarrow> ptr \<Rightarrow> poke \<Rightarrow> struct_type \<Rightarrow> nat \<Rightarrow> world \<Rightarrow> unit poked" where
  "poke_struct_set_field H S t src p st index w =
     (if \<not> is_pod (S (pk_shape p))
      then Some (Inl (Ek_Not_Pod (pk_shape p)), call_drop_in_place H t src w)
      else set_part H S t src p (field_or_error p (st_fields st) index) w)"

definition poke_struct_set_field_by_name ::
    "host \<Rightarrow> shapes \<Rightarrow> sref \<Rightarrow> ptr \<Rightarrow> poke \<Rightarrow> struct_type \<Rightarrow> string \<Rightarrow> world \<Rightarrow> unit poked" where
  "poke_struct_set_field_by_name H S t src p st name w =
     (case position (\<lambda>f. f_name f = name) (st_fields st) of
        Some i \<Rightarrow> poke_struct_set_field H S t src p st i w
      | None \<Rightarrow> Some (Inl (Ek_No_Such_Field (pk_shape p)), call_drop_in_place H t src w))"

definition poke_tuple_field_mut :: "poke \<Rightarrow> field list \<Rightarrow> nat \<Rightarrow> error_kind + poke" where
  "poke_tuple_field_mut p fs index =
     (case field_or_error p fs index of Inl e \<Rightarrow> Inl e | Inr f \<Rightarrow> Inr (field_peek p f))"

definition poke_tuple_set_field ::
    "host \<Rightarrow> shapes \<Rightarrow> sref \<Rightarrow> ptr \<Rightarrow> poke \<Rightarrow> field list \<Rightarrow> nat \<Rightarrow> world \<Rightarrow> unit poked" where
  "poke_tuple_set_field H S t src p fs index w =
     (if \<not> is_pod (S (pk_shape p))
      then Some (Inl (Ek_Not_Pod (pk_shape p)), call_drop_in_place H t src w)
      else set_part H S t src p (field_or_error p fs index) w)"

text \<open>The fields of an enum are those of the variant that is active, which panics if there is none.\<close>

definition poke_enum_field :: "view \<Rightarrow> shapes \<Rightarrow> enum_type \<Rightarrow> poke \<Rightarrow> nat \<Rightarrow> poke option option" where
  "poke_enum_field V S et p index =
     map_option (\<lambda>v. let fs = st_fields (v_data v)
       in if length fs \<le> index then None else map_option (field_peek p) (nth_opt fs index))
       (active_variant V S et p)"

definition poke_enum_set_field ::
    "host \<Rightarrow> view \<Rightarrow> shapes \<Rightarrow> sref \<Rightarrow> ptr \<Rightarrow> poke \<Rightarrow> enum_type \<Rightarrow> nat \<Rightarrow> world \<Rightarrow> unit poked" where
  "poke_enum_set_field H V S t src p et index w =
     (if \<not> is_pod (S (pk_shape p))
      then Some (Inl (Ek_Not_Pod (pk_shape p)), call_drop_in_place H t src w)
      else Option.bind (active_variant V S et p) (\<lambda>v.
        set_part H S t src p (field_or_error p (st_fields (v_data v)) index) w))"

definition poke_enum_set_field_by_name ::
    "host \<Rightarrow> view \<Rightarrow> shapes \<Rightarrow> sref \<Rightarrow> ptr \<Rightarrow> poke \<Rightarrow> enum_type \<Rightarrow> string \<Rightarrow> world \<Rightarrow> unit poked" where
  "poke_enum_set_field_by_name H V S t src p et name w =
     Option.bind (enum_field_index V S et p name) (\<lambda>index. case index of
         None \<Rightarrow> Some (Inl (Ek_No_Such_Field (pk_shape p)), call_drop_in_place H t src w)
       | Some i \<Rightarrow> poke_enum_set_field H V S t src p et i w)"

definition poke_enum_set_field_from_heap ::
    "host \<Rightarrow> view \<Rightarrow> shapes \<Rightarrow> heap_value \<Rightarrow> poke \<Rightarrow> enum_type \<Rightarrow> nat \<Rightarrow> world \<Rightarrow> unit poked" where
  "poke_enum_set_field_from_heap H V S hv p et index w =
     (let failed = (\<lambda>e. Some (Inl e, heap_value_drop H hv w))
      in if \<not> is_pod (S (pk_shape p)) then failed (Ek_Not_Pod (pk_shape p))
         else Option.bind (active_variant V S et p) (\<lambda>v.
           case field_or_error p (st_fields (v_data v)) index of
             Inl e \<Rightarrow> failed e
           | Inr f \<Rightarrow>
               if \<not> same_shape S (f_shape f) (hv_shape hv) then failed (Ek_Wrong_Shape (f_shape f) (hv_shape hv))
               else if vt_size (h_vt H (f_shape f)) = None then failed (Ek_Unsized (f_shape f) ''set_field_from_heap'')
               else map_option (\<lambda>w. (Inr (), w))
                 (take_guard hv (write_over H (f_shape f) (ptr_add (pk_data p) (f_offset f)) (hv_shape hv)) w)))"

definition poke_enum_set_field_by_name_from_heap ::
    "host \<Rightarrow> view \<Rightarrow> shapes \<Rightarrow> heap_value \<Rightarrow> poke \<Rightarrow> enum_type \<Rightarrow> string \<Rightarrow> world \<Rightarrow> unit poked" where
  "poke_enum_set_field_by_name_from_heap H V S hv p et name w =
     Option.bind (enum_field_index V S et p name) (\<lambda>index. case index of
         None \<Rightarrow> Some (Inl (Ek_No_Such_Field (pk_shape p)), heap_value_drop H hv w)
       | Some i \<Rightarrow> poke_enum_set_field_from_heap H V S hv p et i w)"

section \<open>Options and results\<close>

text \<open>How far a pointer lies behind another one in the same block.\<close>

fun offset_from :: "ptr \<Rightarrow> ptr \<Rightarrow> nat option" where
  "offset_from (Ptr b off) (Ptr c base) = (if b = c \<and> base \<le> off then Some (off - base) else None)"
| "offset_from Dangling Dangling = Some 0"
| "offset_from p q = None"

text \<open>The content at its offset in the value; no result stands for a content that lies elsewhere, for
  which the code computes an address outside the value.\<close>

definition content_mut :: "sref \<Rightarrow> ptr option \<Rightarrow> poke \<Rightarrow> poke option option" where
  "content_mut t inner_data p =
     (case inner_data of
        None \<Rightarrow> Some None
      | Some q \<Rightarrow> map_option (\<lambda>offset. Some (peek_at t (ptr_add (pk_data p) offset))) (offset_from q (pk_data p)))"

definition option_value_mut :: "view \<Rightarrow> sref \<Rightarrow> poke \<Rightarrow> poke option option" where
  "option_value_mut V t p = content_mut t (vw_option_value V (pk_shape p) (pk_data p)) p"

definition set_some :: "host \<Rightarrow> shapes \<Rightarrow> sref \<Rightarrow> ptr \<Rightarrow> sref \<Rightarrow> poke \<Rightarrow> world \<Rightarrow> unit poked" where
  "set_some H S t src inner p w =
     give_local H S inner t src (\<lambda>q. emit (Ef_Replace (pk_shape p) (pk_data p) (Some (t, q)))) w"

definition set_some_from_heap :: "host \<Rightarrow> shapes \<Rightarrow> heap_value \<Rightarrow> sref \<Rightarrow> poke \<Rightarrow> world \<Rightarrow> unit poked" where
  "set_some_from_heap H S hv inner p w =
     give_heap H S inner hv (\<lambda>q. emit (Ef_Replace (pk_shape p) (pk_data p) (Some (hv_shape hv, q)))) w"

definition set_none :: "poke \<Rightarrow> world \<Rightarrow> world" where
  "set_none p w = emit (Ef_Replace (pk_shape p) (pk_data p) None) w"

definition ok_mut :: "view \<Rightarrow> sref \<Rightarrow> poke \<Rightarrow> poke option option" where
  "ok_mut V t p = content_mut t (vw_result_ok V (pk_shape p) (pk_data p)) p"

definition err_mut :: "view \<Rightarrow> sref \<Rightarrow> poke \<Rightarrow> poke option option" where
  "err_mut V e p = content_mut e (vw_result_err V (pk_shape p) (pk_data p)) p"

text \<open>A result is dropped and initialised again.\<close>

definition init_again :: "host \<Rightarrow> built_kind \<Rightarrow> sref \<Rightarrow> poke \<Rightarrow> ptr \<Rightarrow> world \<Rightarrow> world" where
  "init_again H how t p q w =
     emit (Ef_Build how (pk_shape p) (pk_data p) t q) (call_drop_in_place H (pk_shape p) (pk_data p) w)"

definition set_ok :: "host \<Rightarrow> shapes \<Rightarrow> sref \<Rightarrow> ptr \<Rightarrow> sref \<times> sref \<Rightarrow> poke \<Rightarrow> world \<Rightarrow> unit poked" where
  "set_ok H S t src te p w = give_local H S (fst te) t src (init_again H B_Result_Ok t p) w"

definition set_err :: "host \<Rightarrow> shapes \<Rightarrow> sref \<Rightarrow> ptr \<Rightarrow> sref \<times> sref \<Rightarrow> poke \<Rightarrow> world \<Rightarrow> unit poked" where
  "set_err H S t src te p w = give_local H S (snd te) t src (init_again H B_Result_Err t p) w"

definition set_ok_from_heap ::
    "host \<Rightarrow> shapes \<Rightarrow> heap_value \<Rightarrow> sref \<times> sref \<Rightarrow> poke \<Rightarrow> world \<Rightarrow> unit poked" where
  "set_ok_from_heap H S hv te p w = give_heap H S (fst te) hv (init_again H B_Result_Ok (hv_shape hv) p) w"

definition set_err_from_heap ::
    "host \<Rightarrow> shapes \<Rightarrow> heap_value \<Rightarrow> sref \<times> sref \<Rightarrow> poke \<Rightarrow> world \<Rightarrow> unit poked" where
  "set_err_from_heap H S hv te p w = give_heap H S (snd te) hv (init_again H B_Result_Err (hv_shape hv) p) w"

section \<open>Plain data\<close>

text \<open>Setting a field asks whether the struct may be changed field by field; the poke of the same field
  can be set all the same.\<close>

lemma field_poke_sets_without_pod:
  assumes "\<not> is_pod (S (pk_shape p))" and "nth_opt (st_fields st) i = Some f" and "same_shape S (f_shape f) t"
  shows "poke_struct_set_field H S t src p st i w = Some (Inl (Ek_Not_Pod (pk_shape p)), call_drop_in_place H t src w)"
    and "\<exists>q. poke_struct_field p st i = Inr q
      \<and> poke_set H S t src q w = Some (Inr (), write_over H (f_shape f) (ptr_add (pk_data p) (f_offset f)) t src w)"
  using assms
  by (simp_all add: poke_struct_set_field_def poke_struct_field_def field_or_error_def poke_set_def field_peek_def)

end
