(* ===== verification/Poke_Collections.thy ===== *)
theory Poke_Collections
  imports Poke
begin

text \<open>
  Changing collections (facet-reflect, src/poke: list.rs, list_like.rs, map.rs, set.rs, ndarray.rs,
  dynamic_value.rs): elements are pushed, popped, swapped and inserted through the tables of the
  collection. A handle on a sequence (\<open>PokeListLike\<close>) keeps the length, and changes it with the sequence.
\<close>

section \<open>Lists\<close>

definition poke_list_get_mut :: "mut_tables \<Rightarrow> sref \<Rightarrow> poke \<Rightarrow> nat \<Rightarrow> poke option" where
  "poke_list_get_mut M t p index =
     Option.bind (mt_list_get_mut M (pk_shape p)) (\<lambda>get_mut_fn.
       map_option (peek_at t) (get_mut_fn (pk_data p) index))"

text \<open>The iterator over elements that lie one after the other.\<close>

record poke_list_iter =
  pi_base :: ptr
  pi_stride :: nat
  pi_index :: nat
  pi_len :: nat
  pi_elem_shape :: sref

definition iter_next :: "poke_list_iter \<Rightarrow> (poke \<times> poke_list_iter) option" where
  "iter_next it =
     (if pi_len it \<le> pi_index it then None
      else Some (peek_at (pi_elem_shape it) (ptr_add (pi_base it) (pi_stride it * pi_index it)),
                 it\<lparr>pi_index := Suc (pi_index it)\<rparr>))"

definition iter_size_hint :: "poke_list_iter \<Rightarrow> nat" where
  "iter_size_hint it = pi_len it - pi_index it"

definition poke_list_iter_mut :: "view \<Rightarrow> mut_tables \<Rightarrow> sref \<Rightarrow> poke \<Rightarrow> error_kind + poke_list_iter" where
  "poke_list_iter_mut V M t p =
     (case vw_size V t of
        None \<Rightarrow> Inl (Ek_Operation_Failed (pk_shape p) ''iter_mut requires sized element type'')
      | Some stride \<Rightarrow>
          (case mt_list_as_mut_ptr M (pk_shape p) of
             None \<Rightarrow> Inl (Ek_Operation_Failed (pk_shape p)
               ''iter_mut requires a contiguous `as_mut_ptr` vtable entry; use `get_mut` per index'')
           | Some as_mut_ptr_fn \<Rightarrow>
               Inr \<lparr>pi_base = as_mut_ptr_fn (pk_data p), pi_stride = stride, pi_index = 0,
                    pi_len = vw_list_len V (pk_shape p) (pk_data p), pi_elem_shape = t\<rparr>))"

definition push_fn_error :: "host \<Rightarrow> poke \<Rightarrow> error_kind option" where
  "push_fn_error H p =
     (if vt_list_push (h_vt H (pk_shape p)) then None
      else Some (Ek_Operation_Failed (pk_shape p) ''push: list type does not support push''))"

definition poke_list_push :: "host \<Rightarrow> shapes \<Rightarrow> sref \<Rightarrow> ptr \<Rightarrow> sref \<Rightarrow> poke \<Rightarrow> world \<Rightarrow> unit poked" where
  "poke_list_push H S t src elem p w =
     (if \<not> same_shape S elem t
      then Some (Inl (Ek_Wrong_Shape elem t), call_drop_in_place H t src w)
      else case push_fn_error H p of
             Some e \<Rightarrow> Some (Inl e, call_drop_in_place H t src w)
           | None \<Rightarrow> Some (Inr (), emit (Ef_Push P_List (pk_shape p) (pk_data p) t src) w))"

definition poke_list_push_from_heap ::
    "host \<Rightarrow> shapes \<Rightarrow> heap_value \<Rightarrow> sref \<Rightarrow> poke \<Rightarrow> world \<Rightarrow> unit poked" where
  "poke_list_push_from_heap H S hv elem p w =
     (if \<not> same_shape S elem (hv_shape hv)
      then Some (Inl (Ek_Wrong_Shape elem (hv_shape hv)), heap_value_drop H hv w)
      else case push_fn_error H p of
             Some e \<Rightarrow> Some (Inl e, heap_value_drop H hv w)
           | None \<Rightarrow>
               map_option (\<lambda>w. (Inr (), w))
                 (take_guard hv (\<lambda>q. emit (Ef_Push P_List (pk_shape p) (pk_data p) (hv_shape hv) q)) w))"

text \<open>The last element is moved into a fresh block, which is freed again if there is none.\<close>

definition pop_into_block ::
    "host \<Rightarrow> (ptr \<Rightarrow> bool) \<Rightarrow> sref \<Rightarrow> poke \<Rightarrow> world \<Rightarrow> (error_kind + heap_value option) \<times> world" where
  "pop_into_block H pop_fn t p w =
     (case vt_size (h_vt H t) of
        None \<Rightarrow> (Inl (Ek_Unsized t ''pop''), w)
      | Some n \<Rightarrow>
          (let (out, w) = alloc_for_layout n w
           in if \<not> pop_fn (pk_data p)
              then (Inr None, if n \<noteq> 0 then emit (Ef_Dealloc out n) w else w)
              else (Inr (Some \<lparr>hv_guard = Some \<lparr>gd_ptr = out, gd_size = n, gd_should_dealloc = (n \<noteq> 0)\<rparr>,
                               hv_shape = t\<rparr>),
                    emit (Ef_Pop (pk_shape p) (pk_data p) t out) w)))"

definition poke_list_pop :: "host \<Rightarrow> mut_tables \<Rightarrow> sref \<Rightarrow> poke \<Rightarrow> world \<Rightarrow> heap_value option poked" where
  "poke_list_pop H M t p w =
     (case mt_list_pop M (pk_shape p) of
        None \<Rightarrow> Some (Inl (Ek_Operation_Failed (pk_shape p) ''pop: list type does not support pop''), w)
      | Some pop_fn \<Rightarrow> Some (pop_into_block H pop_fn t p w))"

definition out_of_bounds :: "poke \<Rightarrow> nat \<Rightarrow> nat \<Rightarrow> nat \<Rightarrow> error_kind" where
  "out_of_bounds p a b len = Ek_Field_Index (pk_shape p) (if len \<le> a then a else b) len"

definition poke_list_swap :: "view \<Rightarrow> mut_tables \<Rightarrow> poke \<Rightarrow> nat \<Rightarrow> nat \<Rightarrow> world \<Rightarrow> unit poked" where
  "poke_list_swap V M p a b w =
     (case mt_list_swap M (pk_shape p) of
        None \<Rightarrow> Some (Inl (Ek_Operation_Failed (pk_shape p) ''swap: list type does not support swap''), w)
      | Some swap_fn \<Rightarrow>
          if \<not> swap_fn (pk_data p) a b
          then Some (Inl (out_of_bounds p a b (vw_list_len V (pk_shape p) (pk_data p))), w)
          else Some (Inr (), emit (Ef_Swap (pk_shape p) (pk_data p) a b) w))"

section \<open>Sequences\<close>

definition poke_into_list_like :: "view \<Rightarrow> shapes \<Rightarrow> poke \<Rightarrow> error_kind + list_like" where
  "poke_into_list_like V S p =
     (case peek_def S p of
        Def_List t \<Rightarrow> Inr (list_like_new V p (Ll_List t))
      | Def_Array t n \<Rightarrow> Inr (list_like_new V p (Ll_Array t n))
      | Def_Slice t \<Rightarrow> Inr (list_like_new V p (Ll_Slice t))
      | _ \<Rightarrow> Inl (was_not_a ''list, array or slice'' p))"

definition list_like_base_mut :: "mut_tables \<Rightarrow> list_like \<Rightarrow> ptr" where
  "list_like_base_mut M l =
     (let p = ll_value l
      in case ll_def l of
           Ll_Array t n \<Rightarrow> mt_array_as_mut_ptr M (pk_shape p) (pk_data p)
         | _ \<Rightarrow> mt_slice_as_mut_ptr M (pk_shape p) (pk_data p))"

definition list_like_get_mut :: "view \<Rightarrow> mut_tables \<Rightarrow> list_like \<Rightarrow> nat \<Rightarrow> poke option" where
  "list_like_get_mut V M l index =
     (if ll_len l \<le> index then None
      else case ll_def l of
             Ll_List t \<Rightarrow> poke_list_get_mut M t (ll_value l) index
           | d \<Rightarrow>
               map_option (\<lambda>n. peek_at (list_like_t d) (ptr_add (list_like_base_mut M l) (index * n)))
                 (vw_size V (list_like_t d)))"

definition list_like_iter_mut :: "view \<Rightarrow> mut_tables \<Rightarrow> list_like \<Rightarrow> error_kind + poke_list_iter" where
  "list_like_iter_mut V M l =
     (let t = list_like_t (ll_def l); p = ll_value l;
          iter = (\<lambda>stride data. Inr \<lparr>pi_base = data, pi_stride = stride, pi_index = 0, pi_len = ll_len l, pi_elem_shape = t\<rparr>)
      in case vw_size V t of
           None \<Rightarrow> Inl (Ek_Operation_Failed (pk_shape p) ''iter_mut requires sized element type'')
         | Some stride \<Rightarrow>
             (case ll_def l of
                Ll_List u \<Rightarrow>
                  (case mt_list_as_mut_ptr M (pk_shape p) of
                     Some as_mut_ptr_fn \<Rightarrow> iter stride (as_mut_ptr_fn (pk_data p))
                   | None \<Rightarrow> Inl (Ek_Operation_Failed (pk_shape p)
                       ''iter_mut requires a contiguous `as_mut_ptr` vtable entry; use `get_mut` per index''))
              | _ \<Rightarrow> iter stride (list_like_base_mut M l)))"

definition list_like_push_fn_error :: "host \<Rightarrow> list_like \<Rightarrow> error_kind option" where
  "list_like_push_fn_error H l =
     (case ll_def l of
        Ll_List t \<Rightarrow> push_fn_error H (ll_value l)
      | _ \<Rightarrow> Some (Ek_Operation_Failed (pk_shape (ll_value l)) ''push: only list-backed list-likes support push''))"

definition one_longer :: "list_like \<Rightarrow> list_like" where
  "one_longer l = l\<lparr>ll_len := Suc (ll_len l)\<rparr>"

definition list_like_push ::
    "host \<Rightarrow> shapes \<Rightarrow> sref \<Rightarrow> ptr \<Rightarrow> list_like \<Rightarrow> world \<Rightarrow> list_like poked" where
  "list_like_push H S t src l w =
     (let elem = list_like_t (ll_def l); p = ll_value l
      in if \<not> same_shape S elem t
         then Some (Inl (Ek_Wrong_Shape elem t), call_drop_in_place H t src w)
         else case list_like_push_fn_error H l of
                Some e \<Rightarrow> Some (Inl e, call_drop_in_place H t src w)
              | None \<Rightarrow> Some (Inr (one_longer l), emit (Ef_Push P_List (pk_shape p) (pk_data p) t src) w))"

definition list_like_push_from_heap ::
    "host \<Rightarrow> shapes \<Rightarrow> heap_value \<Rightarrow> list_like \<Rightarrow> world \<Rightarrow> list_like poked" where
  "list_like_push_from_heap H S hv l w =
     (let elem = list_like_t (ll_def l); p = ll_value l
      in if \<not> same_shape S elem (hv_shape hv)
         then Some (Inl (Ek_Wrong_Shape elem (hv_shape hv)), heap_value_drop H hv w)
         else case list_like_push_fn_error H l of
                Some e \<Rightarrow> Some (Inl e, heap_value_drop H hv w)
              | None \<Rightarrow>
                  map_option (\<lambda>w. (Inr (one_longer l), w))
                    (take_guard hv (\<lambda>q. emit (Ef_Push P_List (pk_shape p) (pk_data p) (hv_shape hv) q)) w))"

definition list_like_pop ::
    "host \<Rightarrow> mut_tables \<Rightarrow> list_like \<Rightarrow> world \<Rightarrow> (heap_value option \<times> list_like) poked" where
  "list_like_pop H M l w =
     (let p = ll_value l; refuse = (\<lambda>m. Some (Inl (Ek_Operation_Failed (pk_shape p) m), w))
      in case ll_def l of
           Ll_List t \<Rightarrow>
             (case mt_list_pop M (pk_shape p) of
                None \<Rightarrow> refuse ''pop: list type does not support pop''
              | Some pop_fn \<Rightarrow>
                  (case pop_into_block H pop_fn t p w of
                     (Inl e, w) \<Rightarrow> Some (Inl e, w)
                   | (Inr None, w) \<Rightarrow> Some (Inr (None, l), w)
                   | (Inr (Some hv), w) \<Rightarrow>
                       if ll_len l = 0 then None else Some (Inr (Some hv, l\<lparr>ll_len := ll_len l - 1\<rparr>), w)))
         | _ \<Rightarrow> refuse ''pop: only list-backed list-likes support pop'')"

definition swap_elements :: "host \<Rightarrow> mut_tables \<Rightarrow> list_like \<Rightarrow> nat \<Rightarrow> nat \<Rightarrow> world \<Rightarrow> unit poked" where
  "swap_elements H M l a b w =
     (let t = list_like_t (ll_def l); base = list_like_base_mut M l
      in case vt_size (h_vt H t) of
           None \<Rightarrow> Some (Inl (Ek_Unsized t ''swap''), w)
         | Some n \<Rightarrow> Some (Inr (), emit (Ef_Swap_Bytes t (ptr_add base (a * n)) (ptr_add base (b * n))) w))"

definition list_like_swap :: "host \<Rightarrow> mut_tables \<Rightarrow> list_like \<Rightarrow> nat \<Rightarrow> nat \<Rightarrow> world \<Rightarrow> unit poked" where
  "list_like_swap H M l a b w =
     (let p = ll_value l; len = ll_len l
      in if len \<le> a \<or> len \<le> b then Some (Inl (out_of_bounds p a b len), w)
         else if a = b then Some (Inr (), w)
         else case ll_def l of
                Ll_List t \<Rightarrow>
                  (case mt_list_swap M (pk_shape p) of
                     None \<Rightarrow> Some (Inl (Ek_Operation_Failed (pk_shape p) ''swap: list type does not support swap''), w)
                   | Some swap_fn \<Rightarrow>
                       if \<not> swap_fn (pk_data p) a b
                       then Some (Inl (Ek_Operation_Failed (pk_shape p) ''swap: vtable refused the operation''), w)
                       else Some (Inr (), emit (Ef_Swap (pk_shape p) (pk_data p) a b) w))
              | _ \<Rightarrow> swap_elements H M l a b w)"

section \<open>Maps and sets\<close>

text \<open>Parameters are dropped in the reverse order.\<close>

definition poke_map_insert ::
    "host \<Rightarrow> shapes \<Rightarrow> sref \<times> ptr \<Rightarrow> sref \<times> ptr \<Rightarrow> sref \<times> sref \<Rightarrow> poke \<Rightarrow> world \<Rightarrow> unit poked" where
  "poke_map_insert H S key value kv p w =
     (let failed = (\<lambda>e. Some (Inl e, call_drop_in_place H (fst key) (snd key)
             (call_drop_in_place H (fst value) (snd value) w)))
      in if \<not> same_shape S (fst kv) (fst key) then failed (Ek_Wrong_Shape (fst kv) (fst key))
         else if \<not> same_shape S (snd kv) (fst value) then failed (Ek_Wrong_Shape (snd kv) (fst value))
         else Some (Inr (), emit (Ef_Map_Insert (pk_shape p) (pk_data p) key value) w))"

definition poke_map_insert_from_heap ::
    "host \<Rightarrow> shapes \<Rightarrow> heap_value \<Rightarrow> heap_value \<Rightarrow> sref \<times> sref \<Rightarrow> poke \<Rightarrow> world \<Rightarrow> unit poked" where
  "poke_map_insert_from_heap H S key value kv p w =
     (let failed = (\<lambda>e. Some (Inl e, heap_value_drop H key (heap_value_drop H value w)))
      in if \<not> same_shape S (fst kv) (hv_shape key) then failed (Ek_Wrong_Shape (fst kv) (hv_shape key))
         else if \<not> same_shape S (snd kv) (hv_shape value) then failed (Ek_Wrong_Shape (snd kv) (hv_shape value))
         else case (hv_guard key, hv_guard value) of
                (Some kg, Some vg) \<Rightarrow>
                  Some (Inr (), guard_drop vg (guard_drop kg
                    (emit (Ef_Map_Insert (pk_shape p) (pk_data p) (hv_shape key, gd_ptr kg) (hv_shape value, gd_ptr vg)) w)))
              | _ \<Rightarrow> None)"

definition poke_set_insert ::
    "host \<Rightarrow> mut_tables \<Rightarrow> shapes \<Rightarrow> sref \<Rightarrow> ptr \<Rightarrow> sref \<Rightarrow> poke \<Rightarrow> world \<Rightarrow> bool poked" where
  "poke_set_insert H M S t src elem p w =
     (if \<not> same_shape S elem t
      then Some (Inl (Ek_Wrong_Shape elem t), call_drop_in_place H t src w)
      else Some (Inr (mt_set_insert M (pk_shape p) (pk_data p) src),
                 emit (Ef_Push P_Set (pk_shape p) (pk_data p) t src) w))"

definition poke_set_insert_from_heap ::
    "host \<Rightarrow> mut_tables \<Rightarrow> shapes \<Rightarrow> heap_value \<Rightarrow> sref \<Rightarrow> poke \<Rightarrow> world \<Rightarrow> bool poked" where
  "poke_set_insert_from_heap H M S hv elem p w =
     (if \<not> same_shape S elem (hv_shape hv)
      then Some (Inl (Ek_Wrong_Shape elem (hv_shape hv)), heap_value_drop H hv w)
      else map_option (\<lambda>g. (Inr (mt_set_insert M (pk_shape p) (pk_data p) (gd_ptr g)),
               guard_drop g (emit (Ef_Push P_Set (pk_shape p) (pk_data p) (hv_shape hv) (gd_ptr g)) w)))
             (hv_guard hv))"

section \<open>Arrays of several dimensions\<close>

datatype stride_error = Not_Strided

definition nd_get_mut :: "mut_tables \<Rightarrow> sref \<Rightarrow> poke \<Rightarrow> nat \<Rightarrow> poke option" where
  "nd_get_mut M t p index =
     Option.bind (mt_nd_get_mut M (pk_shape p)) (\<lambda>get_mut_fn.
       map_option (peek_at t) (get_mut_fn (pk_data p) index))"

definition nd_as_mut_ptr :: "mut_tables \<Rightarrow> poke \<Rightarrow> stride_error + ptr" where
  "nd_as_mut_ptr M p =
     (case mt_nd_as_mut_ptr M (pk_shape p) of None \<Rightarrow> Inl Not_Strided | Some f \<Rightarrow> Inr (f (pk_data p)))"

definition nd_byte_stride :: "mut_tables \<Rightarrow> poke \<Rightarrow> nat \<Rightarrow> stride_error + int option" where
  "nd_byte_stride M p i =
     (case mt_nd_byte_stride M (pk_shape p) of None \<Rightarrow> Inl Not_Strided | Some f \<Rightarrow> Inr (f (pk_data p) i))"

section \<open>Dynamic values\<close>

definition drop_and_as_uninit :: "host \<Rightarrow> poke \<Rightarrow> world \<Rightarrow> ptr \<times> world" where
  "drop_and_as_uninit H p w = (pk_data p, call_drop_in_place H (pk_shape p) (pk_data p) w)"

definition dyn_write :: "host \<Rightarrow> write_kind \<Rightarrow> poke \<Rightarrow> world \<Rightarrow> world" where
  "dyn_write H how p w = (case drop_and_as_uninit H p w of (dst, w) \<Rightarrow> emit (Ef_Write how (pk_shape p) dst) w)"

definition dyn_set_scalar :: "host \<Rightarrow> dyn_scalar \<Rightarrow> poke \<Rightarrow> world \<Rightarrow> world" where
  "dyn_set_scalar H v p w = dyn_write H (W_Dyn v) p w"

text \<open>A number that the table refuses leaves the storage as it is, after the old value was dropped.\<close>

definition dyn_set_f64 :: "host \<Rightarrow> mut_tables \<Rightarrow> u64 \<Rightarrow> poke \<Rightarrow> world \<Rightarrow> bool \<times> world" where
  "dyn_set_f64 H M bits p w =
     (if mt_dyn_set_f64 M (pk_shape p) bits then (True, dyn_write H (W_Dyn Dyn_F64) p w)
      else (False, snd (drop_and_as_uninit H p w)))"

definition dyn_set_str :: "host \<Rightarrow> poke \<Rightarrow> world \<Rightarrow> world" where
  "dyn_set_str H p w = dyn_write H (W_Dyn Dyn_Str) p w"

definition dyn_set_bytes :: "host \<Rightarrow> mut_tables \<Rightarrow> poke \<Rightarrow> world \<Rightarrow> bool \<times> world" where
  "dyn_set_bytes H M p w =
     (if \<not> mt_dyn_has_set_bytes M (pk_shape p) then (False, w) else (True, dyn_write H (W_Dyn Dyn_Bytes) p w))"

definition dyn_set_array :: "host \<Rightarrow> poke \<Rightarrow> world \<Rightarrow> world" where
  "dyn_set_array H p w = dyn_write H W_Dyn_Array p w"

definition dyn_set_object :: "host \<Rightarrow> poke \<Rightarrow> world \<Rightarrow> world" where
  "dyn_set_object H p w = dyn_write H W_Dyn_Object p w"

definition push_array_element :: "host \<Rightarrow> shapes \<Rightarrow> sref \<Rightarrow> ptr \<Rightarrow> poke \<Rightarrow> world \<Rightarrow> unit poked" where
  "push_array_element H S t src p w =
     give_local H S (pk_shape p) t src (\<lambda>q. emit (Ef_Push P_Dyn_Push (pk_shape p) (pk_data p) t q)) w"

definition push_array_element_from_heap :: "host \<Rightarrow> shapes \<Rightarrow> heap_value \<Rightarrow> poke \<Rightarrow> world \<Rightarrow> unit poked" where
  "push_array_element_from_heap H S hv p w =
     give_heap H S (pk_shape p) hv (\<lambda>q. emit (Ef_Push P_Dyn_Push (pk_shape p) (pk_data p) (hv_shape hv) q)) w"

definition poke_end_array :: "mut_tables \<Rightarrow> poke \<Rightarrow> world \<Rightarrow> world" where
  "poke_end_array M p w =
     (if mt_dyn_has_end_array M (pk_shape p) then emit (Ef_Dyn_End (pk_shape p) (pk_data p)) w else w)"

definition insert_object_entry ::
    "host \<Rightarrow> shapes \<Rightarrow> string \<Rightarrow> sref \<Rightarrow> ptr \<Rightarrow> poke \<Rightarrow> world \<Rightarrow> unit poked" where
  "insert_object_entry H S key t src p w =
     give_local H S (pk_shape p) t src (\<lambda>q. emit (Ef_Push (P_Dyn_Insert key) (pk_shape p) (pk_data p) t q)) w"

definition insert_object_entry_from_heap ::
    "host \<Rightarrow> shapes \<Rightarrow> string \<Rightarrow> heap_value \<Rightarrow> poke \<Rightarrow> world \<Rightarrow> unit poked" where
  "insert_object_entry_from_heap H S key hv p w =
     give_heap H S (pk_shape p) hv (\<lambda>q. emit (Ef_Push (P_Dyn_Insert key) (pk_shape p) (pk_data p) (hv_shape hv) q)) w"

definition poke_end_object :: "mut_tables \<Rightarrow> poke \<Rightarrow> world \<Rightarrow> world" where
  "poke_end_object M p w =
     (if mt_dyn_has_end_object M (pk_shape p) then emit (Ef_Dyn_End (pk_shape p) (pk_data p)) w else w)"

definition poke_object_get_mut :: "mut_tables \<Rightarrow> string \<Rightarrow> poke \<Rightarrow> poke option" where
  "poke_object_get_mut M key p =
     Option.bind (mt_dyn_object_get_mut M (pk_shape p)) (\<lambda>object_get_mut.
       map_option (peek_at (pk_shape p)) (object_get_mut (pk_data p) key))"

section \<open>Facts\<close>

text \<open>Iterating gives the elements at their strides.\<close>

fun iter_collect :: "nat \<Rightarrow> poke_list_iter \<Rightarrow> poke list" where
  "iter_collect 0 it = []"
| "iter_collect (Suc n) it = (case iter_next it of None \<Rightarrow> [] | Some (q, it') \<Rightarrow> q # iter_collect n it')"

lemma iter_collect_rest:
  assumes "iter_size_hint it \<le> n"
  shows "iter_collect n it =
     map (\<lambda>i. peek_at (pi_elem_shape it) (ptr_add (pi_base it) (pi_stride it * i))) [pi_index it..<pi_len it]"
  using assms
proof (induction n arbitrary: it)
  case (Suc n)
  show ?case
  proof (cases "pi_len it \<le> pi_index it")
    case False
    then have "[pi_index it..<pi_len it] = pi_index it # [Suc (pi_index it)..<pi_len it]" by (simp add: upt_conv_Cons)
    then show ?thesis using Suc False by (simp add: iter_next_def iter_size_hint_def)
  qed (simp add: iter_next_def)
qed (simp add: iter_size_hint_def)

text \<open>Reaching an element by its index and by iterating is the same.\<close>

lemma list_like_get_mut_iter:
  assumes "\<forall>t. ll_def l \<noteq> Ll_List t" and "list_like_iter_mut V M l = Inr it"
  shows "list_like_get_mut V M l i = nth_opt (iter_collect (iter_size_hint it) it) i"
  using assms
  by (auto simp: list_like_iter_mut_def list_like_get_mut_def iter_collect_rest nth_opt_def Let_def mult.commute
      split: list_like_def.splits option.splits)

end
