(* ===== verification/Poke_Path.thy ===== *)
theory Poke_Path
  imports Poke Peek_Path
begin

text \<open>
  Navigation to a part that is to be changed (facet-reflect, src/poke/value.rs, \<open>at_path_mut\<close>): a step
  to a field, a variant, an element or the content of an option leads where it leads for reading, and
  the other steps are refused.
\<close>

section \<open>The active variant from raw memory\<close>

datatype variant_error = Ve_Opaque_Internals | Ve_Unsized

definition variant_index_from_raw :: "view \<Rightarrow> shapes \<Rightarrow> enum_type \<Rightarrow> poke \<Rightarrow> (variant_error + nat) option" where
  "variant_index_from_raw V S et p =
     (case peek_def S p of
        Def_Option t \<Rightarrow>
          map_option Inr
            (position (\<lambda>v. (st_fields (v_data v) \<noteq> []) = vw_is_some V (pk_shape p) (pk_data p)) (et_variants et))
      | _ \<Rightarrow>
          if et_enum_repr et = ER_RustNPO
          then (case vw_size V (pk_shape p) of
                  None \<Rightarrow> Some (Inl Ve_Unsized)
                | Some n \<Rightarrow>
                    map_option Inr (position (\<lambda>v. (max_end V v = 0) = all_zero V n (pk_data p)) (et_variants et)))
          else (case discriminant V et p of
                  None \<Rightarrow> None
                | Some d \<Rightarrow> map_option Inr (position (\<lambda>v. v_discriminant v = Some (sint d)) (et_variants et))))"

section \<open>Steps\<close>

definition apply_step_mut :: "view \<Rightarrow> mut_tables \<Rightarrow> shapes \<Rightarrow> poke \<Rightarrow> path_step \<Rightarrow> nat \<Rightarrow> access" where
  "apply_step_mut V M S p step k =
     (let shape = pk_shape p; data = pk_data p;
          oob = (\<lambda>index bound. Some (Inl (Pae_Index_Out_Of_Bounds step k shape index bound)));
          active = (\<lambda>et f. case variant_index_from_raw V S et p of
              None \<Rightarrow> None | Some (Inl e) \<Rightarrow> wrong_kind step k p | Some (Inr i) \<Rightarrow> f i)
      in case step of
           Step_Field i \<Rightarrow>
             (let idx = unat i
              in case peek_ty S p of
                   Ty_User (User_Struct sd) \<Rightarrow>
                     if length (st_fields sd) \<le> idx then oob idx (length (st_fields sd))
                     else Some (Inr (field_peek p (st_fields sd ! idx)))
                 | Ty_User (User_Enum et) \<Rightarrow>
                     active et (\<lambda>variant_idx. Option.bind (nth_opt (et_variants et) variant_idx) (\<lambda>v.
                       if length (st_fields (v_data v)) \<le> idx then oob idx (length (st_fields (v_data v)))
                       else Some (Inr (field_peek p (st_fields (v_data v) ! idx)))))
                 | _ \<Rightarrow> wrong_kind step k p)
         | Step_Variant i \<Rightarrow>
             (let expected_idx = unat i
              in case peek_ty S p of
                   Ty_User (User_Enum et) \<Rightarrow>
                     if length (et_variants et) \<le> expected_idx then oob expected_idx (length (et_variants et))
                     else active et (\<lambda>actual_idx.
                       if actual_idx \<noteq> expected_idx
                       then Some (Inl (Pae_Variant_Mismatch k shape expected_idx actual_idx))
                       else Some (Inr p))
                 | _ \<Rightarrow> wrong_kind step k p)
         | Step_Index i \<Rightarrow>
             (let idx = unat i
              in case peek_def S p of
                   Def_List t \<Rightarrow>
                     (case mt_list_get_mut M shape of
                        None \<Rightarrow> wrong_kind step k p
                      | Some get_mut_fn \<Rightarrow>
                          (case get_mut_fn data idx of
                             Some q \<Rightarrow> Some (Inr (peek_at t q))
                           | None \<Rightarrow> oob idx (vw_list_len V shape data)))
                 | Def_Array t n \<Rightarrow>
                     (case vw_size V t of
                        None \<Rightarrow> wrong_kind step k p
                      | Some stride \<Rightarrow>
                          if n \<le> idx then oob idx n else Some (Inr (peek_at t (ptr_add data (stride * idx)))))
                 | _ \<Rightarrow> wrong_kind step k p)
         | Step_OptionSome \<Rightarrow>
             (case peek_def S p of
                Def_Option t \<Rightarrow>
                  if \<not> vw_is_some V shape data then Some (Inl (Pae_Option_Is_None k shape))
                  else Option.bind (vw_option_value V shape data) (\<lambda>inner.
                    map_option (\<lambda>offset. Inr (peek_at t (ptr_add data offset))) (offset_from inner data))
              | _ \<Rightarrow> wrong_kind step k p)
         | Step_MapKey i \<Rightarrow>
             (case peek_def S p of Def_Map key v \<Rightarrow> missing_target step k shape | _ \<Rightarrow> wrong_kind step k p)
         | Step_MapValue i \<Rightarrow>
             (case peek_def S p of Def_Map key v \<Rightarrow> missing_target step k shape | _ \<Rightarrow> wrong_kind step k p)
         | Step_Deref \<Rightarrow>
             (case peek_def S p of Def_Pointer t \<Rightarrow> missing_target step k shape | _ \<Rightarrow> wrong_kind step k p)
         | Step_Inner \<Rightarrow> missing_target step k shape
         | Step_Proxy \<Rightarrow> missing_target step k shape)"

fun apply_steps_mut :: "view \<Rightarrow> mut_tables \<Rightarrow> shapes \<Rightarrow> nat \<Rightarrow> path_step list \<Rightarrow> poke \<Rightarrow> access" where
  "apply_steps_mut V M S k [] p = Some (Inr p)"
| "apply_steps_mut V M S k (step # steps) p =
     (case apply_step_mut V M S p step k of
        Some (Inr q) \<Rightarrow> apply_steps_mut V M S (Suc k) steps q
      | r \<Rightarrow> r)"

definition at_path_mut :: "view \<Rightarrow> mut_tables \<Rightarrow> shapes \<Rightarrow> poke \<Rightarrow> path \<Rightarrow> access" where
  "at_path_mut V M S p path =
     (if \<not> same_shape S (pk_shape p) (p_shape path)
      then Some (Inl (Pae_Root_Shape_Mismatch (p_shape path) (pk_shape p)))
      else apply_steps_mut V M S 0 (p_steps path) p)"

section \<open>Agreement with reading\<close>

text \<open>What is relied on: lists give mutable access to the elements they show, the elements of an array
  lie in it and have a size, the content of an option lies in it, enums have a size.\<close>

definition mut_agrees :: "view \<Rightarrow> mut_tables \<Rightarrow> shapes \<Rightarrow> bool" where
  "mut_agrees V M S \<longleftrightarrow>
     (\<forall>s t. sh_def (S s) = Def_List t \<longrightarrow> mt_list_get_mut M s = Some (vw_list_get V s))
     \<and> (\<forall>s t n p. sh_def (S s) = Def_Array t n \<longrightarrow> vw_array_ptr V s p = p \<and> vw_size V t \<noteq> None)
     \<and> (\<forall>s t p. sh_def (S s) = Def_Option t \<longrightarrow>
          vw_is_some V s p = (vw_option_value V s p \<noteq> None)
          \<and> (\<forall>q. vw_option_value V s p = Some q \<longrightarrow> (\<exists>n. q = ptr_add p n)))
     \<and> (\<forall>s et. sh_ty (S s) = Ty_User (User_Enum et) \<longrightarrow> vw_size V s \<noteq> None)"

fun mutable_step :: "path_step \<Rightarrow> bool" where
  "mutable_step (Step_Field i) = True"
| "mutable_step (Step_Variant i) = True"
| "mutable_step (Step_Index i) = True"
| "mutable_step Step_OptionSome = True"
| "mutable_step step = False"

text \<open>The other steps have no target, or not even the right kind of value to start from.\<close>

definition refused :: "shapes \<Rightarrow> poke \<Rightarrow> path_step \<Rightarrow> nat \<Rightarrow> access" where
  "refused S p step k =
     (if (case step of
            Step_MapKey i \<Rightarrow> (case peek_def S p of Def_Map key v \<Rightarrow> True | _ \<Rightarrow> False)
          | Step_MapValue i \<Rightarrow> (case peek_def S p of Def_Map key v \<Rightarrow> True | _ \<Rightarrow> False)
          | Step_Deref \<Rightarrow> (case peek_def S p of Def_Pointer t \<Rightarrow> True | _ \<Rightarrow> False)
          | _ \<Rightarrow> True)
      then missing_target step k (pk_shape p) else wrong_kind step k p)"

lemma mut_agreesD:
  assumes "mut_agrees V M S"
  shows "sh_def (S s) = Def_List t \<Longrightarrow> mt_list_get_mut M s = Some (vw_list_get V s)"
    and "sh_def (S s) = Def_Array t n \<Longrightarrow> vw_array_ptr V s p = p"
    and "sh_def (S s) = Def_Array t n \<Longrightarrow> \<exists>k. vw_size V t = Some k"
    and "sh_def (S s) = Def_Option t \<Longrightarrow> vw_is_some V s p = (vw_option_value V s p \<noteq> None)"
    and "sh_def (S s) = Def_Option t \<Longrightarrow> vw_option_value V s p = Some q \<Longrightarrow> \<exists>n. q = ptr_add p n"
    and "sh_ty (S s) = Ty_User (User_Enum et) \<Longrightarrow> vw_size V s \<noteq> None"
  using assms unfolding mut_agrees_def by blast+

lemma offset_in_place: "\<exists>m. offset_from (ptr_add p n) p = Some m \<and> ptr_add p m = ptr_add p n"
  by (cases p) simp_all

lemma variant_index_raw:
  assumes "vw_size V (pk_shape p) \<noteq> None"
  shows "variant_index_from_raw V S et p = map_option Inr (variant_index V S et p)"
  using assms
  by (auto simp: variant_index_from_raw_def variant_index_def split: facet_def.splits option.splits)

lemma apply_step_mut_agrees:
  assumes agrees: "mut_agrees V M S" and "mutable_step step"
  shows "apply_step_mut V M S p step k = apply_step V S p step k"
proof (cases step)
  case (Step_Field i)
  have "variant_index_from_raw V S et p = map_option Inr (variant_index V S et p)"
    if "peek_ty S p = Ty_User (User_Enum et)" for et
    using mut_agreesD(6) [OF agrees that] by (rule variant_index_raw)
  then show ?thesis
    using Step_Field
    by (auto simp: apply_step_mut_def apply_step_def bounded_def Let_def active_variant_def nth_opt_def
        split: facet_type.splits user_type.splits option.splits Option.bind_splits)
next
  case (Step_Variant i)
  have "variant_index_from_raw V S et p = map_option Inr (variant_index V S et p)"
    if "peek_ty S p = Ty_User (User_Enum et)" for et
    using mut_agreesD(6) [OF agrees that] by (rule variant_index_raw)
  then show ?thesis
    using Step_Variant
    by (auto simp: apply_step_mut_def apply_step_def bounded_def Let_def into_enum_def
        split: facet_type.splits user_type.splits option.splits)
next
  case (Step_Index i)
  show ?thesis
  proof (cases "peek_def S p")
    case (Def_List t)
    then have "mt_list_get_mut M (pk_shape p) = Some (vw_list_get V (pk_shape p))" by (rule mut_agreesD(1) [OF agrees])
    then show ?thesis using Step_Index Def_List
      by (simp add: apply_step_mut_def apply_step_def bounded_def Let_def list_get_def split: option.splits)
  next
    case (Def_Array t n)
    then obtain k where "vw_size V t = Some k" "vw_array_ptr V (pk_shape p) (pk_data p) = pk_data p"
      using mut_agreesD(2,3) [OF agrees Def_Array] by blast
    then show ?thesis using Step_Index Def_Array
      by (simp add: apply_step_mut_def apply_step_def bounded_def Let_def list_like_get_def list_like_new_def
          list_like_base_def)
  qed (use Step_Index in \<open>simp_all add: apply_step_mut_def apply_step_def Let_def\<close>)
next
  case Step_OptionSome
  show ?thesis
  proof (cases "peek_def S p")
    case (Def_Option t)
    show ?thesis
    proof (cases "vw_option_value V (pk_shape p) (pk_data p)")
      case None
      then show ?thesis using Step_OptionSome Def_Option mut_agreesD(4) [OF agrees Def_Option]
        by (simp add: apply_step_mut_def apply_step_def option_value_def into_option_def)
    next
      case (Some q)
      then obtain m where "offset_from q (pk_data p) = Some m" "ptr_add (pk_data p) m = q"
        using mut_agreesD(5) [OF agrees Def_Option] offset_in_place by metis
      then show ?thesis using Step_OptionSome Def_Option Some mut_agreesD(4) [OF agrees Def_Option]
        by (simp add: apply_step_mut_def apply_step_def option_value_def into_option_def)
    qed
  qed (use Step_OptionSome in \<open>simp_all add: apply_step_mut_def apply_step_def into_option_def\<close>)
qed (use assms(2) in simp_all)

lemma apply_step_mut_refused:
  assumes "\<not> mutable_step step"
  shows "apply_step_mut V M S p step k = refused S p step k"
  using assms by (cases step) (simp_all add: apply_step_mut_def refused_def split: facet_def.splits)

lemma apply_steps_mut_agree:
  assumes agrees: "mut_agrees V M S"
  shows "apply_steps_mut V M S k steps p =
     (case apply_steps V S k (takeWhile mutable_step steps) p of
        Some (Inr q) \<Rightarrow>
          (case dropWhile mutable_step steps of
             [] \<Rightarrow> Some (Inr q)
           | step # rest \<Rightarrow> refused S q step (k + length (takeWhile mutable_step steps)))
      | r \<Rightarrow> r)"
proof (induction steps arbitrary: k p)
  case (Cons step steps)
  show ?case
  proof (cases "mutable_step step")
    case True
    then show ?thesis using Cons.IH apply_step_mut_agrees [OF agrees True]
      by (cases "dropWhile mutable_step steps")
        (auto simp del: dropWhile_eq_Nil_conv split: option.splits sum.splits)
  next
    case False
    then show ?thesis
      by (simp add: apply_step_mut_refused refused_def missing_target_def wrong_kind_def)
  qed
qed simp

section \<open>Parts in place\<close>

text \<open>A value that lies in another one: behind its start, in live memory when that is, and with nothing to
  drop that the other one does not have.\<close>

definition part_of :: "host \<Rightarrow> footprint \<Rightarrow> poke \<Rightarrow> poke \<Rightarrow> bool" where
  "part_of H fp q p \<longleftrightarrow>
     (\<exists>n. pk_data q = ptr_add (pk_data p) n)
     \<and> (\<forall>m. inside H (pk_shape p) (pk_data p) m \<longrightarrow> inside H (pk_shape q) (pk_data q) m)
     \<and> places fp (pk_shape q) (pk_data q) \<subseteq> places fp (pk_shape p) (pk_data p)"

lemma part_of_refl [simp]: "part_of H fp p p"
  by (auto simp: part_of_def intro: exI [of _ 0])

lemma part_of_trans: "part_of H fp r q \<Longrightarrow> part_of H fp q p \<Longrightarrow> part_of H fp r p"
  by (auto simp: part_of_def)

text \<open>What a poke relies on for layouts: structs and arrays hold their parts, enums the fields of the
  active variant, options their content.\<close>

definition poke_layout :: "host \<Rightarrow> view \<Rightarrow> shapes \<Rightarrow> footprint \<Rightarrow> bool" where
  "poke_layout H V S fp \<longleftrightarrow>
     layout_fits H S fp
     \<and> (\<forall>s t. sh_id (S s) = sh_id (S t) \<longrightarrow> fp s = fp t \<and> vt_size (h_vt H s) = vt_size (h_vt H t))
     \<and> (\<forall>s. vw_size V s = vt_size (h_vt H s))
     \<and> (\<forall>s t n. sh_def (S s) = Def_Array t n \<longrightarrow> sh_ty (S s) = Ty_Sequence (Seq_Array t n))
     \<and> (\<forall>p et v. peek_ty S p = Ty_User (User_Enum et) \<longrightarrow> active_variant V S et p = Some v \<longrightarrow>
          (\<forall>f \<in> set (st_fields (v_data v)). part_of H fp (field_peek p f) p))
     \<and> (\<forall>p t q. peek_def S p = Def_Option t \<longrightarrow> vw_option_value V (pk_shape p) (pk_data p) = Some q \<longrightarrow>
          part_of H fp (peek_at t q) p)"

lemma poke_layoutD:
  assumes "poke_layout H V S fp"
  shows "layout_fits H S fp"
    and "same_shape S s t \<Longrightarrow> fp s = fp t" and "same_shape S s t \<Longrightarrow> vt_size (h_vt H s) = vt_size (h_vt H t)"
    and "vw_size V s = vt_size (h_vt H s)"
    and "sh_def (S s) = Def_Array t n \<Longrightarrow> sh_ty (S s) = Ty_Sequence (Seq_Array t n)"
    and "peek_ty S p = Ty_User (User_Enum et) \<Longrightarrow> active_variant V S et p = Some v \<Longrightarrow>
           f \<in> set (st_fields (v_data v)) \<Longrightarrow> part_of H fp (field_peek p f) p"
    and "peek_def S p = Def_Option t \<Longrightarrow> vw_option_value V (pk_shape p) (pk_data p) = Some q \<Longrightarrow>
           part_of H fp (peek_at t q) p"
  using assms unfolding poke_layout_def same_shape_def by blast+

lemma part_of_nth:
  assumes "layout_fits H S fp" and "i < length (parts H S (pk_shape p))"
  shows "part_of H fp (peek_at (part_shape H S (pk_shape p) i) (part_ptr H S (pk_shape p) (pk_data p) i)) p"
  using part_inside [OF assms(1) _ assms(2)] part_in_whole [OF assms] by (auto simp: part_of_def part_ptr_def)

lemma struct_field_part_of:
  assumes lf: "layout_fits H S fp" and ty: "peek_ty S p = Ty_User (User_Struct st)" and i: "i < length (st_fields st)"
  shows "part_of H fp (field_peek p (st_fields st ! i)) p"
proof -
  have "part_shape H S (pk_shape p) i = f_shape (st_fields st ! i)"
    "part_ptr H S (pk_shape p) (pk_data p) i = ptr_add (pk_data p) (f_offset (st_fields st ! i))"
    using ty i by (simp_all add: parts_def part_shape_def part_ptr_def)
  with part_of_nth [OF lf, of i p] ty i show ?thesis by (simp add: parts_def field_peek_def)
qed

lemma array_element_part_of:
  assumes lf: "layout_fits H S fp" and ty: "peek_ty S p = Ty_Sequence (Seq_Array t n)" and i: "i < n"
    and k: "vt_size (h_vt H t) = Some k"
  shows "part_of H fp (peek_at t (ptr_add (pk_data p) (k * i))) p"
proof -
  have "part_shape H S (pk_shape p) i = t" "part_ptr H S (pk_shape p) (pk_data p) i = ptr_add (pk_data p) (k * i)"
    using ty i k by (simp_all add: parts_def part_shape_def part_ptr_def size_or_0_def)
  with part_of_nth [OF lf, of i p] ty i show ?thesis by (simp add: parts_def)
qed

text \<open>The steps that do not leave the value: an index leads into an array, not into a list.\<close>

fun stays_inside :: "view \<Rightarrow> mut_tables \<Rightarrow> shapes \<Rightarrow> nat \<Rightarrow> path_step list \<Rightarrow> poke \<Rightarrow> bool" where
  "stays_inside V M S k [] p = True"
| "stays_inside V M S k (step # steps) p \<longleftrightarrow>
     (case step of Step_Index i \<Rightarrow> (case peek_def S p of Def_List t \<Rightarrow> False | _ \<Rightarrow> True) | _ \<Rightarrow> True)
     \<and> (case apply_step_mut V M S p step k of
          Some (Inr q) \<Rightarrow> stays_inside V M S (Suc k) steps q | _ \<Rightarrow> True)"

lemma apply_step_mut_part_of:
  assumes lay: "poke_layout H V S fp" and agrees: "mut_agrees V M S"
    and step: "apply_step_mut V M S p step k = Some (Inr q)" and "stays_inside V M S k [step] p"
  shows "part_of H fp q p"
proof -
  have mut: "mutable_step step"
  proof (rule ccontr)
    assume "\<not> mutable_step step"
    with step show False by (simp add: apply_step_mut_refused refused_def missing_target_def wrong_kind_def split: if_splits)
  qed
  then have read: "apply_step V S p step k = Some (Inr q)" using apply_step_mut_agrees [OF agrees] step by simp
  note lf = poke_layoutD(1) [OF lay]
  show ?thesis
  proof (cases step)
    case (Step_Field i)
    show ?thesis
    proof (cases "peek_ty S p")
      case (Ty_User u)
      show ?thesis
      proof (cases u)
        case (User_Struct st)
        then show ?thesis using read Step_Field Ty_User struct_field_part_of [OF lf]
          by (auto simp: apply_step_def Let_def nth_opt_eq_Some)
      next
        case (User_Enum et)
        then obtain v f where "active_variant V S et p = Some v" "nth_opt (st_fields (v_data v)) (unat i) = Some f"
            "q = field_peek p f"
          using read Step_Field Ty_User by (auto simp: apply_step_def Let_def bind_eq_Some_conv)
        then show ?thesis using poke_layoutD(6) [OF lay] Ty_User User_Enum nth_opt_in_set by metis
      qed (use read Step_Field Ty_User in \<open>simp_all add: apply_step_def Let_def wrong_kind_def\<close>)
    qed (use read Step_Field in \<open>simp_all add: apply_step_def Let_def wrong_kind_def\<close>)
  next
    case (Step_Variant i)
    then show ?thesis
      using read by (auto simp: apply_step_def Let_def wrong_kind_def split: sum.splits if_splits)
  next
    case (Step_Index i)
    then obtain t n where def: "peek_def S p = Def_Array t n"
      using read assms(4) by (auto simp: apply_step_def Let_def wrong_kind_def split: facet_def.splits)
    then have ty: "peek_ty S p = Ty_Sequence (Seq_Array t n)" by (rule poke_layoutD(5) [OF lay])
    from step def Step_Index obtain k where "vw_size V t = Some k" "unat i < n" "q = peek_at t (ptr_add (pk_data p) (k * unat i))"
      by (auto simp: apply_step_mut_def Let_def wrong_kind_def split: option.splits if_splits)
    then show ?thesis using array_element_part_of [OF lf ty] poke_layoutD(4) [OF lay] by simp
  next
    case Step_OptionSome
    then obtain t r where "peek_def S p = Def_Option t" "vw_option_value V (pk_shape p) (pk_data p) = Some r" "q = peek_at t r"
      using read by (auto simp: apply_step_def wrong_kind_def option_value_def split: sum.splits option.splits)
    then show ?thesis using poke_layoutD(7) [OF lay] by simp
  qed (use mut in simp_all)
qed

lemma apply_steps_mut_part_of:
  assumes lay: "poke_layout H V S fp" and agrees: "mut_agrees V M S"
    and "apply_steps_mut V M S k steps p = Some (Inr q)" and "stays_inside V M S k steps p"
  shows "part_of H fp q p"
  using assms(3,4)
proof (induction steps arbitrary: k p)
  case (Cons step steps)
  then obtain p1 where p1: "apply_step_mut V M S p step k = Some (Inr p1)" "apply_steps_mut V M S (Suc k) steps p1 = Some (Inr q)"
    by (auto split: option.splits sum.splits)
  have "part_of H fp p1 p"
    by (rule apply_step_mut_part_of [OF lay agrees p1(1)]) (use Cons.prems(2) p1(1) in simp)
  moreover have "part_of H fp q p1" using Cons.IH [OF p1(2)] Cons.prems(2) p1(1) by simp
  ultimately show ?case by (rule part_of_trans [rotated])
qed simp

end
