(* ===== verification/Poke_Memory.thy ===== *)
theory Poke_Memory
  imports Poke_Collections Poke_Path
begin

text \<open>
  Changes keep values whole. Whatever is done to a part of a value with a value that is given for
  it, and whether it is done or refused, afterwards the value that is changed holds all that a value of
  its type holds, and the value that was given is gone from where it was, its block freed if it had one.
  The locale \<open>moves_in\<close> is the contract of the calls that move a value into another one.
\<close>

section \<open>Whole values\<close>

definition whole :: "host \<Rightarrow> footprint \<Rightarrow> sref \<Rightarrow> ptr \<Rightarrow> mem \<Rightarrow> bool" where
  "whole H fp s p m \<longleftrightarrow> inside H s p m \<and> places fp s p \<subseteq> m_held m"

definition apart :: "footprint \<Rightarrow> sref \<Rightarrow> ptr \<Rightarrow> sref \<Rightarrow> ptr \<Rightarrow> bool" where
  "apart fp s p t q \<longleftrightarrow> places fp s p \<inter> places fp t q = {}"

definition gone :: "footprint \<Rightarrow> sref \<Rightarrow> ptr \<Rightarrow> mem \<Rightarrow> mem" where
  "gone fp t q m = m\<lparr>m_held := m_held m - places fp t q\<rparr>"

lemma gone_simps [simp]:
  "m_held (gone fp t q m) = m_held m - places fp t q" "m_blocks (gone fp t q m) = m_blocks m"
  "inside H s p (gone fp t q m) = inside H s p m"
  by (simp_all add: gone_def)

lemma held_same [simp]: "m\<lparr>m_held := m_held m\<rparr> = m"
  by (cases m) simp

lemma whole_gone: "whole H fp s p m \<Longrightarrow> apart fp s p t q \<Longrightarrow> whole H fp s p (gone fp t q m)"
  by (auto simp: whole_def apart_def)

lemma whole_part: "part_of H fp q p \<Longrightarrow> whole H fp (pk_shape p) (pk_data p) m \<Longrightarrow> whole H fp (pk_shape q) (pk_data q) m"
  by (auto simp: part_of_def whole_def)

lemma apart_part: "part_of H fp q p \<Longrightarrow> apart fp (pk_shape p) (pk_data p) t r \<Longrightarrow> apart fp (pk_shape q) (pk_data q) t r"
  by (auto simp: part_of_def apart_def)

lemma runs_drop_gone:
  assumes "layout_fits H S fp" and "whole H fp t q m"
  shows "runs H fp w m (call_drop_in_place H t q w) (gone fp t q m)"
  using runs_drop [OF assms(1), of t q m "m_held m" w] assms(2) by (simp add: whole_def gone_def)

lemma mem_into_one:
  assumes "whole H fp s p m" and "whole H fp t q m" and "apart fp s p t q"
  shows "mem_into H fp s p [(t, q)] m = Some (gone fp t q m)"
proof -
  have "places fp t q \<subseteq> m_held m - places fp s p" using assms by (auto simp: whole_def apart_def)
  moreover have "m_held m - places fp s p - places fp t q \<union> places fp s p = m_held m - places fp t q"
    using assms by (auto simp: whole_def apart_def)
  ultimately show ?thesis
    using assms by (auto simp: mem_into_def mem_release_def mem_take_def whole_def gone_def)
qed

lemma mem_into_none: "whole H fp s p m \<Longrightarrow> mem_into H fp s p [] m = Some m"
  by (auto simp: mem_into_def mem_release_def mem_take_def whole_def Un_absorb2)

section \<open>The contract of a call that moves a value\<close>

locale moves_in =
  fixes H :: host and fp :: footprint and s :: sref and p :: ptr and t :: sref and f :: "ptr \<Rightarrow> world \<Rightarrow> world"
  assumes moves: "whole H fp s p m \<Longrightarrow> whole H fp t q m \<Longrightarrow> apart fp s p t q \<Longrightarrow> runs H fp w m (f q w) (gone fp t q m)"

text \<open>The calls of the tables that take the value, and the writes over a value that was dropped.\<close>

interpretation pushing: moves_in H fp s p t "\<lambda>q. emit (Ef_Push how s p t q)" for H fp s p t how
  by unfold_locales (simp add: runs_emit run_effect_def mem_into_one)

interpretation replacing: moves_in H fp s p t "\<lambda>q. emit (Ef_Replace s p (Some (t, q)))" for H fp s p t
  by unfold_locales (simp add: runs_emit run_effect_def mem_into_one)

lemma moved_over:
  assumes lf: "layout_fits H S fp" and "whole H fp s p m" and "whole H fp t q m" and "apart fp s p t q"
    and take: "\<And>X. X \<inter> places fp s p = {} \<Longrightarrow> places fp t q \<subseteq> X \<Longrightarrow>
      run_effect H fp e (m\<lparr>m_held := X\<rparr>) = Some (m\<lparr>m_held := X - places fp t q \<union> places fp s p\<rparr>)"
  shows "runs H fp w m (emit e (call_drop_in_place H s p w)) (gone fp t q m)"
proof -
  have "runs H fp w m (call_drop_in_place H s p w) (m\<lparr>m_held := m_held m - places fp s p\<rparr>)"
    using runs_drop_gone [OF lf assms(2)] by (simp add: gone_def)
  moreover have "run_effect H fp e (m\<lparr>m_held := m_held m - places fp s p\<rparr>) = Some (gone fp t q m)"
  proof -
    have "m_held m - places fp s p - places fp t q \<union> places fp s p = m_held m - places fp t q"
      "places fp t q \<subseteq> m_held m - places fp s p"
      using assms by (auto simp: whole_def apart_def)
    with take [of "m_held m - places fp s p"] show ?thesis by (simp add: gone_def Int_commute Diff_disjoint)
  qed
  ultimately show ?thesis using runs_trans runs_emit by blast
qed

lemma write_over_moves:
  assumes lf: "layout_fits H S fp" and "fp s = fp t" and "vt_size (h_vt H s) = vt_size (h_vt H t)"
  shows "moves_in H fp s p t (write_over H s p t)"
proof
  fix m q w
  assume m: "whole H fp s p m" "whole H fp t q m" "apart fp s p t q"
  have "places fp s p = places fp t p" "inside H s p m = inside H t p m"
    using assms(2,3) by (simp_all add: places_def inside_def split: ptr.splits)
  with m show "runs H fp w m (write_over H s p t q w) (gone fp t q m)"
    unfolding write_over_def
    by (intro moved_over [OF lf m])
      (auto simp: run_effect_def mem_release_def mem_take_def whole_def)
qed

lemma init_again_moves:
  assumes lf: "layout_fits H S fp"
  shows "moves_in H fp (pk_shape p) (pk_data p) t (init_again H how t p)"
proof
  fix m q w
  assume m: "whole H fp (pk_shape p) (pk_data p) m" "whole H fp t q m" "apart fp (pk_shape p) (pk_data p) t q"
  then show "runs H fp w m (init_again H how t p q w) (gone fp t q m)"
    unfolding init_again_def
    by (intro moved_over [OF lf m]) (auto simp: run_effect_def mem_release_def mem_take_def whole_def)
qed

section \<open>Values that are given\<close>

datatype given = Given_Local sref ptr | Given_Heap heap_value

text \<open>A heap value that still has its value and its block, in which nothing else lies.\<close>

definition frees :: "guard \<Rightarrow> bool" where
  "frees g \<longleftrightarrow> gd_should_dealloc g \<and> gd_size g \<noteq> 0"

definition heap_ok :: "host \<Rightarrow> footprint \<Rightarrow> heap_value \<Rightarrow> mem \<Rightarrow> bool" where
  "heap_ok H fp hv m \<longleftrightarrow>
     (case hv_guard hv of
        None \<Rightarrow> False
      | Some g \<Rightarrow> whole H fp (hv_shape hv) (gd_ptr g) m
          \<and> (frees g \<longrightarrow> (case gd_ptr g of
                 Ptr b off \<Rightarrow> off = 0 \<and> (b, gd_size g) \<in> m_blocks m
                   \<and> (\<forall>c \<in> m_held m. fst c = b \<longrightarrow> c \<in> places fp (hv_shape hv) (gd_ptr g))
               | Dangling \<Rightarrow> False)))"

definition freed :: "guard \<Rightarrow> mem \<Rightarrow> mem" where
  "freed g m =
     (case gd_ptr g of
        Ptr b off \<Rightarrow> if frees g then m\<lparr>m_blocks := m_blocks m - {(b, gd_size g)}\<rparr> else m
      | Dangling \<Rightarrow> m)"

definition heap_gone :: "footprint \<Rightarrow> heap_value \<Rightarrow> mem \<Rightarrow> mem" where
  "heap_gone fp hv m =
     (case hv_guard hv of None \<Rightarrow> m | Some g \<Rightarrow> freed g (gone fp (hv_shape hv) (gd_ptr g) m))"

definition elsewhere :: "footprint \<Rightarrow> sref \<Rightarrow> ptr \<Rightarrow> heap_value \<Rightarrow> bool" where
  "elsewhere fp s p hv \<longleftrightarrow>
     (case hv_guard hv of
        None \<Rightarrow> True
      | Some g \<Rightarrow> apart fp s p (hv_shape hv) (gd_ptr g)
          \<and> (frees g \<longrightarrow> (case (p, gd_ptr g) of (Ptr b i, Ptr c j) \<Rightarrow> b \<noteq> c | _ \<Rightarrow> True)))"

lemma runs_guard_drop:
  assumes "heap_ok H fp hv m" and "hv_guard hv = Some g"
  shows "runs H fp w (gone fp (hv_shape hv) (gd_ptr g) m) (guard_drop g w) (heap_gone fp hv m)"
proof (cases "frees g")
  case True
  then obtain b where b: "gd_ptr g = Ptr b 0" "(b, gd_size g) \<in> m_blocks m"
      "\<forall>c \<in> m_held m. fst c = b \<longrightarrow> c \<in> places fp (hv_shape hv) (gd_ptr g)"
    using assms by (auto simp: heap_ok_def split: ptr.splits)
  then have "b \<notin> fst ` (m_held m - places fp (hv_shape hv) (gd_ptr g))" by auto
  with True b assms(2) show ?thesis
    by (auto simp: guard_drop_def frees_def heap_gone_def freed_def run_effect_def mem_dealloc_def intro!: runs_emit)
next
  case False
  then have "guard_drop g w = w" by (simp add: guard_drop_def frees_def)
  with False assms(2) show ?thesis by (simp add: heap_gone_def freed_def split: ptr.splits)
qed

lemma runs_heap_drop:
  assumes "layout_fits H S fp" and ok: "heap_ok H fp hv m"
  shows "runs H fp w m (heap_value_drop H hv w) (heap_gone fp hv m)"
proof -
  obtain g where g: "hv_guard hv = Some g" "whole H fp (hv_shape hv) (gd_ptr g) m"
    using ok by (auto simp: heap_ok_def split: option.splits)
  from runs_trans [OF runs_drop_gone [OF assms(1) g(2)] runs_guard_drop [OF ok g(1)]]
  show ?thesis by (simp add: heap_value_drop_def g(1))
qed

lemma whole_heap_gone:
  assumes "whole H fp s p m" and "elsewhere fp s p hv"
  shows "whole H fp s p (heap_gone fp hv m)"
proof (cases "hv_guard hv")
  case (Some g)
  then have "whole H fp s p (gone fp (hv_shape hv) (gd_ptr g) m)"
    using assms by (intro whole_gone) (simp_all add: elsewhere_def)
  moreover have "inside H s p (freed g m') = inside H s p m'" for m'
    using assms(2) Some by (auto simp: elsewhere_def freed_def inside_def split: ptr.splits option.splits)
  ultimately show ?thesis
    using Some by (auto simp: heap_gone_def whole_def freed_def split: ptr.splits if_splits)
qed (use assms in \<open>simp add: heap_gone_def\<close>)

context moves_in
begin

lemma from_heap:
  assumes ok: "heap_ok H fp hv m" and t: "t = hv_shape hv" and s: "whole H fp s p m" and "elsewhere fp s p hv"
  shows "\<exists>w'. take_guard hv f w = Some w' \<and> runs H fp w m w' (heap_gone fp hv m)"
proof -
  obtain g where g: "hv_guard hv = Some g" "whole H fp t (gd_ptr g) m"
    using ok t by (auto simp: heap_ok_def split: option.splits)
  moreover have "apart fp s p t (gd_ptr g)" using assms(4) g(1) t by (simp add: elsewhere_def)
  ultimately have "runs H fp w m (f (gd_ptr g) w) (gone fp t (gd_ptr g) m)" using moves s by blast
  from runs_trans [OF this] runs_guard_drop [OF ok g(1)] t g(1) show ?thesis by (simp add: take_guard_def)
qed

end

section \<open>What a poke does with what it is given\<close>

text \<open>Both the value moved and the value dropped are gone.\<close>

definition spends :: "host \<Rightarrow> footprint \<Rightarrow> world \<Rightarrow> mem \<Rightarrow> mem \<Rightarrow> 'a poked \<Rightarrow> bool" where
  "spends H fp w m m' r \<longleftrightarrow> (\<exists>v w'. r = Some (v, w') \<and> runs H fp w m w' m')"

lemma spends_Some [simp]: "spends H fp w m m' (Some (v, w')) \<longleftrightarrow> runs H fp w m w' m'"
  by (simp add: spends_def)

text \<open>The world of an operation on the value at \<open>p\<close> that is given the value at \<open>src\<close>, or a heap value.\<close>

definition local_setting ::
    "host \<Rightarrow> view \<Rightarrow> shapes \<Rightarrow> footprint \<Rightarrow> poke \<Rightarrow> sref \<Rightarrow> ptr \<Rightarrow> mem \<Rightarrow> bool" where
  "local_setting H V S fp p t src m \<longleftrightarrow> poke_layout H V S fp
     \<and> whole H fp (pk_shape p) (pk_data p) m \<and> whole H fp t src m \<and> apart fp (pk_shape p) (pk_data p) t src"

definition heap_setting ::
    "host \<Rightarrow> view \<Rightarrow> shapes \<Rightarrow> footprint \<Rightarrow> poke \<Rightarrow> heap_value \<Rightarrow> mem \<Rightarrow> bool" where
  "heap_setting H V S fp p hv m \<longleftrightarrow> poke_layout H V S fp
     \<and> whole H fp (pk_shape p) (pk_data p) m \<and> heap_ok H fp hv m \<and> elsewhere fp (pk_shape p) (pk_data p) hv"

lemma drop_spends:
  assumes "local_setting H V S fp p t src m"
  shows "runs H fp w m (call_drop_in_place H t src w) (gone fp t src m)"
  using assms runs_drop_gone [OF poke_layoutD(1)] by (auto simp: local_setting_def)

lemma heap_drop_spends:
  assumes "heap_setting H V S fp p hv m"
  shows "runs H fp w m (heap_value_drop H hv w) (heap_gone fp hv m)"
  using assms runs_heap_drop [OF poke_layoutD(1)] by (auto simp: heap_setting_def)

lemma local_moves:
  assumes "local_setting H V S fp p t src m" and "moves_in H fp (pk_shape p) (pk_data p) t f"
  shows "runs H fp w m (f src w) (gone fp t src m)"
  using assms moves_in.moves by (auto simp: local_setting_def)

lemma heap_moves:
  assumes "heap_setting H V S fp p hv m" and "moves_in H fp (pk_shape p) (pk_data p) (hv_shape hv) f"
  shows "\<exists>w'. take_guard hv f w = Some w' \<and> runs H fp w m w' (heap_gone fp hv m)"
  using assms moves_in.from_heap [OF assms(2) _ refl] by (auto simp: heap_setting_def)

lemma part_local:
  assumes "local_setting H V S fp p t src m" and "part_of H fp q p"
  shows "local_setting H V S fp q t src m"
  using assms whole_part apart_part by (auto simp: local_setting_def)

lemma part_heap:
  assumes set: "heap_setting H V S fp p hv m" and part: "part_of H fp q p"
  shows "heap_setting H V S fp q hv m"
proof -
  obtain n where "pk_data q = ptr_add (pk_data p) n" using part by (auto simp: part_of_def)
  then have "elsewhere fp (pk_shape q) (pk_data q) hv"
    using set apart_part [OF part]
    by (cases "pk_data p") (auto simp: heap_setting_def elsewhere_def split: option.splits ptr.splits)
  with set whole_part [OF part] show ?thesis by (simp add: heap_setting_def)
qed

end
