(* ===== verification/Poke_Safety.thy ===== *)
theory Poke_Safety
  imports Poke_Memory
begin

text \<open>
  Every operation of a poke spends the value it is given, on every branch; and what a sequence of steps
  to a part, with an operation on the part, does to the whole.
\<close>

section \<open>Values that are given where they lie\<close>

lemma write_over_same:
  assumes "poke_layout H V S fp" and "same_shape S s t"
  shows "moves_in H fp s p t (write_over H s p t)"
  by (rule write_over_moves [OF poke_layoutD(1) [OF assms(1)] poke_layoutD(2,3) [OF assms]])

lemma poke_set_spends:
  assumes set: "local_setting H V S fp p t src m"
  shows "spends H fp w m (gone fp t src m) (poke_set H S t src p w)"
proof (cases "same_shape S (pk_shape p) t")
  case True
  have "poke_layout H V S fp" using set by (simp add: local_setting_def)
  from local_moves [OF set write_over_same [OF this True]] True show ?thesis by (simp add: poke_set_def)
qed (simp add: poke_set_def drop_spends [OF set])

lemma set_part_spends:
  assumes set: "local_setting H V S fp p t src m" and part: "\<And>f. part = Inr f \<Longrightarrow> part_of H fp (field_peek p f) p"
  shows "spends H fp w m (gone fp t src m) (set_part H S t src p part w)"
proof (cases part)
  case (Inr f)
  from poke_set_spends [OF part_local [OF set part [OF Inr]], of w] show ?thesis
    by (simp add: set_part_def Inr poke_set_def field_peek_def split: if_splits)
qed (simp add: set_part_def drop_spends [OF set])

lemma struct_part:
  assumes "poke_layout H V S fp" and "peek_ty S p = Ty_User (User_Struct st)" and "field_or_error p (st_fields st) i = Inr f"
  shows "part_of H fp (field_peek p f) p"
  using struct_field_part_of [OF poke_layoutD(1) [OF assms(1)] assms(2)] assms(3)
  by (auto simp: field_or_error_def nth_opt_eq_Some split: option.splits)

lemma enum_part:
  assumes "poke_layout H V S fp" and "peek_ty S p = Ty_User (User_Enum et)" and "active_variant V S et p = Some v"
    and "field_or_error p (st_fields (v_data v)) i = Inr f"
  shows "part_of H fp (field_peek p f) p"
  using poke_layoutD(6) [OF assms(1-3)] assms(4) nth_opt_in_set
  by (fastforce simp: field_or_error_def split: option.splits)

lemma struct_set_field_spends:
  assumes set: "local_setting H V S fp p t src m" and "peek_ty S p = Ty_User (User_Struct st)"
  shows "spends H fp w m (gone fp t src m) (poke_struct_set_field H S t src p st i w)"
    and "spends H fp w m (gone fp t src m) (poke_tuple_set_field H S t src p (st_fields st) i w)"
    and "spends H fp w m (gone fp t src m) (poke_struct_set_field_by_name H S t src p st name w)"
proof -
  have lay: "poke_layout H V S fp" using set by (simp add: local_setting_def)
  show one: "spends H fp w m (gone fp t src m) (poke_struct_set_field H S t src p st i w)" for i
    using set_part_spends [OF set struct_part [OF lay assms(2)]] drop_spends [OF set] by (simp add: poke_struct_set_field_def)
  then show "spends H fp w m (gone fp t src m) (poke_tuple_set_field H S t src p (st_fields st) i w)"
    by (simp add: poke_tuple_set_field_def poke_struct_set_field_def)
  show "spends H fp w m (gone fp t src m) (poke_struct_set_field_by_name H S t src p st name w)"
    using one drop_spends [OF set] by (simp add: poke_struct_set_field_by_name_def split: option.splits)
qed

lemma enum_set_field_spends:
  assumes set: "local_setting H V S fp p t src m" and ty: "peek_ty S p = Ty_User (User_Enum et)"
    and active: "active_variant V S et p \<noteq> None"
  shows "spends H fp w m (gone fp t src m) (poke_enum_set_field H V S t src p et i w)"
    and "spends H fp w m (gone fp t src m) (poke_enum_set_field_by_name H V S t src p et name w)"
proof -
  have lay: "poke_layout H V S fp" using set by (simp add: local_setting_def)
  obtain v where v: "active_variant V S et p = Some v" using active by auto
  show one: "spends H fp w m (gone fp t src m) (poke_enum_set_field H V S t src p et i w)" for i
    using set_part_spends [OF set enum_part [OF lay ty v]] drop_spends [OF set]
    by (simp add: poke_enum_set_field_def v)
  show "spends H fp w m (gone fp t src m) (poke_enum_set_field_by_name H V S t src p et name w)"
    using one drop_spends [OF set] by (simp add: poke_enum_set_field_by_name_def enum_field_index_def v split: option.splits)
qed

lemma give_local_spends:
  assumes set: "local_setting H V S fp p t src m" and "moves_in H fp (pk_shape p) (pk_data p) t f"
  shows "spends H fp w m (gone fp t src m) (give_local H S expected t src f w)"
  using local_moves [OF assms] drop_spends [OF set] by (simp add: give_local_def)

lemma init_again_in_layout:
  "poke_layout H V S fp \<Longrightarrow> moves_in H fp (pk_shape p) (pk_data p) t (init_again H how t p)"
  by (rule init_again_moves [OF poke_layoutD(1)])

lemma local_calls_spend:
  assumes set: "local_setting H V S fp p t src m"
  shows "spends H fp w m (gone fp t src m) (set_some H S t src elem p w)"
    and "spends H fp w m (gone fp t src m) (set_ok H S t src te p w)"
    and "spends H fp w m (gone fp t src m) (set_err H S t src te p w)"
    and "spends H fp w m (gone fp t src m) (push_array_element H S t src p w)"
    and "spends H fp w m (gone fp t src m) (insert_object_entry H S key t src p w)"
    and "spends H fp w m (gone fp t src m) (poke_list_push H S t src elem p w)"
    and "spends H fp w m (gone fp t src m) (poke_set_insert H M S t src elem p w)"
proof -
  have lay: "poke_layout H V S fp" using set by (simp add: local_setting_def)
  note moves = replacing.moves_in_axioms pushing.moves_in_axioms init_again_in_layout [OF lay]
  show "spends H fp w m (gone fp t src m) (set_some H S t src elem p w)"
    "spends H fp w m (gone fp t src m) (set_ok H S t src te p w)"
    "spends H fp w m (gone fp t src m) (set_err H S t src te p w)"
    "spends H fp w m (gone fp t src m) (push_array_element H S t src p w)"
    "spends H fp w m (gone fp t src m) (insert_object_entry H S key t src p w)"
    unfolding set_some_def set_ok_def set_err_def push_array_element_def insert_object_entry_def
    by (rule give_local_spends [OF set]; rule moves)+
  note push = local_moves [OF set pushing.moves_in_axioms]
  show "spends H fp w m (gone fp t src m) (poke_list_push H S t src elem p w)"
    using push drop_spends [OF set] by (simp add: poke_list_push_def split: option.split)
  show "spends H fp w m (gone fp t src m) (poke_set_insert H M S t src elem p w)"
    using push drop_spends [OF set] by (simp add: poke_set_insert_def)
qed

lemma list_like_push_spends:
  assumes set: "local_setting H V S fp (ll_value l) t src m"
  shows "spends H fp w m (gone fp t src m) (list_like_push H S t src l w)"
  using local_moves [OF set pushing.moves_in_axioms] drop_spends [OF set]
  by (simp add: list_like_push_def Let_def split: option.split)

section \<open>Heap values that are given\<close>

lemma spends_taken:
  "\<exists>w'. r = Some w' \<and> runs H fp w m w' m' \<Longrightarrow> spends H fp w m m' (map_option (\<lambda>w. (v, w)) r)"
  by (auto simp: spends_def)

lemma enum_set_field_from_heap_spends:
  assumes set: "heap_setting H V S fp p hv m" and ty: "peek_ty S p = Ty_User (User_Enum et)"
    and active: "active_variant V S et p \<noteq> None"
  shows "spends H fp w m (heap_gone fp hv m) (poke_enum_set_field_from_heap H V S hv p et i w)"
    and "spends H fp w m (heap_gone fp hv m) (poke_enum_set_field_by_name_from_heap H V S hv p et name w)"
proof -
  have lay: "poke_layout H V S fp" using set by (simp add: heap_setting_def)
  obtain v where v: "active_variant V S et p = Some v" using active by auto
  note drop = heap_drop_spends [OF set]
  show one: "spends H fp w m (heap_gone fp hv m) (poke_enum_set_field_from_heap H V S hv p et i w)" for i
  proof (cases "field_or_error p (st_fields (v_data v)) i")
    case Inl
    then show ?thesis using drop by (simp add: poke_enum_set_field_from_heap_def Let_def v)
  next
    case (Inr f)
    show ?thesis
    proof (cases "same_shape S (f_shape f) (hv_shape hv)")
      case True
      let ?q = "field_peek p f"
      have "moves_in H fp (pk_shape ?q) (pk_data ?q) (hv_shape hv) (write_over H (pk_shape ?q) (pk_data ?q) (hv_shape hv))"
        using True by (intro write_over_same [OF lay]) (simp add: field_peek_def)
      from heap_moves [OF part_heap [OF set enum_part [OF lay ty v Inr]] this, of w]
      have "\<exists>w'. take_guard hv (write_over H (f_shape f) (ptr_add (pk_data p) (f_offset f)) (hv_shape hv)) w = Some w'
          \<and> runs H fp w m w' (heap_gone fp hv m)" by (simp add: field_peek_def)
      from spends_taken [OF this, where v = "Inr ()"] show ?thesis
        using Inr drop True by (simp add: poke_enum_set_field_from_heap_def Let_def v)
    qed (use Inr drop in \<open>simp add: poke_enum_set_field_from_heap_def Let_def v\<close>)
  qed
  show "spends H fp w m (heap_gone fp hv m) (poke_enum_set_field_by_name_from_heap H V S hv p et name w)"
    using one drop by (simp add: poke_enum_set_field_by_name_from_heap_def enum_field_index_def v split: option.splits)
qed

lemma give_heap_spends:
  assumes set: "heap_setting H V S fp p hv m" and "moves_in H fp (pk_shape p) (pk_data p) (hv_shape hv) f"
  shows "spends H fp w m (heap_gone fp hv m) (give_heap H S expected hv f w)"
  using spends_taken [OF heap_moves [OF assms], where v = "Inr ()"] heap_drop_spends [OF set]
  by (simp add: give_heap_def)

lemma heap_calls_spend:
  assumes set: "heap_setting H V S fp p hv m"
  shows "spends H fp w m (heap_gone fp hv m) (set_some_from_heap H S hv elem p w)"
    and "spends H fp w m (heap_gone fp hv m) (set_ok_from_heap H S hv te p w)"
    and "spends H fp w m (heap_gone fp hv m) (set_err_from_heap H S hv te p w)"
    and "spends H fp w m (heap_gone fp hv m) (push_array_element_from_heap H S hv p w)"
    and "spends H fp w m (heap_gone fp hv m) (insert_object_entry_from_heap H S key hv p w)"
    and "spends H fp w m (heap_gone fp hv m) (poke_list_push_from_heap H S hv elem p w)"
    and "spends H fp w m (heap_gone fp hv m) (poke_set_insert_from_heap H M S hv elem p w)"
proof -
  have lay: "poke_layout H V S fp" using set by (simp add: heap_setting_def)
  note moves = replacing.moves_in_axioms pushing.moves_in_axioms init_again_in_layout [OF lay]
  show "spends H fp w m (heap_gone fp hv m) (set_some_from_heap H S hv elem p w)"
    "spends H fp w m (heap_gone fp hv m) (set_ok_from_heap H S hv te p w)"
    "spends H fp w m (heap_gone fp hv m) (set_err_from_heap H S hv te p w)"
    "spends H fp w m (heap_gone fp hv m) (push_array_element_from_heap H S hv p w)"
    "spends H fp w m (heap_gone fp hv m) (insert_object_entry_from_heap H S key hv p w)"
    unfolding set_some_from_heap_def set_ok_from_heap_def set_err_from_heap_def push_array_element_from_heap_def
      insert_object_entry_from_heap_def
    by (rule give_heap_spends [OF set]; rule moves)+
  note push = heap_moves [OF set pushing.moves_in_axioms] and drop = heap_drop_spends [OF set]
  show "spends H fp w m (heap_gone fp hv m) (poke_list_push_from_heap H S hv elem p w)"
    using spends_taken [OF push, where v = "Inr ()"] drop by (simp add: poke_list_push_from_heap_def split: option.split)
  show "spends H fp w m (heap_gone fp hv m) (poke_set_insert_from_heap H M S hv elem p w)"
    using push [of P_Set w] drop by (auto simp: poke_set_insert_from_heap_def take_guard_def spends_def)
qed

lemma list_like_push_from_heap_spends:
  assumes set: "heap_setting H V S fp (ll_value l) hv m"
  shows "spends H fp w m (heap_gone fp hv m) (list_like_push_from_heap H S hv l w)"
  using spends_taken [OF heap_moves [OF set pushing.moves_in_axioms], where v = "Inr (one_longer l)"]
    heap_drop_spends [OF set]
  by (simp add: list_like_push_from_heap_def Let_def split: option.split)

section \<open>Changes that are given nothing\<close>

text \<open>The length of a block that is fresh, and no place of it held.\<close>

definition fresh_from :: "world \<Rightarrow> mem \<Rightarrow> bool" where
  "fresh_from w m \<longleftrightarrow> w_next w \<notin> fst ` m_blocks m \<and> w_next w \<notin> fst ` m_held m"

lemma emit_keeps:
  assumes "whole H fp s p m" and "e \<in> {Ef_Replace s p None, Ef_Swap s p a b, Ef_Dyn_End s p}"
  shows "runs H fp w m (emit e w) m"
  using assms mem_into_none by (auto simp: run_effect_def intro!: runs_emit)

lemma set_none_keeps: "whole H fp (pk_shape p) (pk_data p) m \<Longrightarrow> runs H fp w m (set_none p w) m"
  by (simp add: set_none_def emit_keeps)

lemma list_swap_keeps:
  assumes "whole H fp (pk_shape p) (pk_data p) m"
  shows "spends H fp w m m (poke_list_swap V M p a b w)"
  using assms by (simp add: poke_list_swap_def emit_keeps split: option.split)

lemma swap_bytes_keeps:
  assumes "whole H fp t q m" and "whole H fp t r m"
  shows "runs H fp w m (emit (Ef_Swap_Bytes t q r) w) m"
  using assms by (simp add: run_effect_def mem_into_none runs_emit)

lemma array_swap_keeps:
  assumes lay: "poke_layout H V S fp" and m: "whole H fp (pk_shape p) (pk_data p) m"
    and def: "peek_def S p = Def_Array t n" and base: "mt_array_as_mut_ptr M (pk_shape p) (pk_data p) = pk_data p"
  shows "spends H fp w m m (list_like_swap H M (list_like_new V p (Ll_Array t n)) a b w)"
proof (cases "vt_size (h_vt H t)")
  case (Some k)
  have "part_of H fp (peek_at t (ptr_add (pk_data p) (k * i))) p" if "i < n" for i
    using array_element_part_of [OF poke_layoutD(1) [OF lay] poke_layoutD(5) [OF lay def] that Some] .
  from whole_part [OF this m] have "whole H fp t (ptr_add (pk_data p) (i * k)) m" if "i < n" for i
    using that by (simp add: mult.commute)
  then show ?thesis
    using base Some
    by (simp add: list_like_swap_def swap_elements_def list_like_base_mut_def list_like_new_def Let_def swap_bytes_keeps)
qed (simp add: list_like_swap_def swap_elements_def list_like_new_def Let_def)

lemma dyn_write_keeps:
  assumes lf: "layout_fits H S fp" and m: "whole H fp (pk_shape p) (pk_data p) m"
  shows "runs H fp w m (dyn_write H how p w) m"
proof -
  let ?P = "places fp (pk_shape p) (pk_data p)"
  have "runs H fp w m (call_drop_in_place H (pk_shape p) (pk_data p) w) (m\<lparr>m_held := m_held m - ?P\<rparr>)"
    using runs_drop_gone [OF lf m] by (simp add: gone_def)
  moreover have "runs H fp w' (m\<lparr>m_held := m_held m - ?P\<rparr>) (emit (Ef_Write how (pk_shape p) (pk_data p)) w') m" for w'
    using runs_write [of H "pk_shape p" "pk_data p" m fp "m_held m - ?P" w' how] m by (auto simp: whole_def Un_absorb2)
  ultimately show ?thesis unfolding dyn_write_def drop_and_as_uninit_def by (auto intro: runs_trans)
qed

text \<open>The one change that does not: a number that is refused leaves a value that has been dropped, where
  the caller of \<open>set_f64\<close> still has the right to drop it.\<close>

lemma refused_f64_drops:
  assumes "mt_dyn_set_f64 M (pk_shape p) bits = False"
    and lf: "layout_fits H S fp" and m: "whole H fp (pk_shape p) (pk_data p) m"
  shows "fst (dyn_set_f64 H M bits p w) = False"
    and "runs H fp w m (snd (dyn_set_f64 H M bits p w)) (gone fp (pk_shape p) (pk_data p) m)"
    and "fp (pk_shape p) \<noteq> {} \<Longrightarrow> pk_data p \<noteq> Dangling \<Longrightarrow>
      run_effect H fp (Ef_Drop (pk_shape p) (pk_data p)) (gone fp (pk_shape p) (pk_data p) m) = None"
proof -
  show "fst (dyn_set_f64 H M bits p w) = False"
    and "runs H fp w m (snd (dyn_set_f64 H M bits p w)) (gone fp (pk_shape p) (pk_data p) m)"
    using assms runs_drop_gone [OF lf m] by (simp_all add: dyn_set_f64_def drop_and_as_uninit_def)
  assume "fp (pk_shape p) \<noteq> {}" "pk_data p \<noteq> Dangling"
  then have "places fp (pk_shape p) (pk_data p) \<noteq> {}" by (auto simp: places_def split: ptr.splits)
  then show "run_effect H fp (Ef_Drop (pk_shape p) (pk_data p)) (gone fp (pk_shape p) (pk_data p) m) = None"
    by (auto simp: run_effect_def mem_release_def)
qed

text \<open>A popped element is handed over whole, in a block of its own.\<close>

lemma pop_spends:
  assumes m: "whole H fp (pk_shape p) (pk_data p) m" and fresh: "fresh_from w m" and lf: "layout_fits H S fp"
  shows "case pop_into_block H pop_fn t p w of (r, w') \<Rightarrow>
     \<exists>es m'. w_log w' = w_log w @ es \<and> run_log H fp es m = Some m'
       \<and> whole H fp (pk_shape p) (pk_data p) m'
       \<and> (case r of Inr (Some hv) \<Rightarrow> hv_shape hv = t \<and> heap_ok H fp hv m' | _ \<Rightarrow> m' = m)"
proof (cases "vt_size (h_vt H t)")
  case None
  then show ?thesis using m by (simp add: pop_into_block_def)
next
  case (Some n)
  have fp: "fp t \<subseteq> {..<n}" using lf Some by (simp add: layout_fits_def)
  show ?thesis
  proof (cases "n = 0")
    case True
    then have none: "places fp t q = {}" for q using fp by (simp add: places_def split: ptr.splits)
    have "run_effect H fp (Ef_Pop (pk_shape p) (pk_data p) t Dangling) m = Some m"
      using m Some True none by (auto simp: run_effect_def mem_into_none mem_take_def inside_def)
    then show ?thesis
      using m Some True none
      by (auto simp: pop_into_block_def alloc_for_layout_def heap_ok_def whole_def inside_def frees_def)
  next
    case False
    let ?b = "w_next w" and ?m = "m\<lparr>m_blocks := insert (w_next w, n) (m_blocks m)\<rparr>"
    have alloc: "run_effect H fp (Ef_Alloc (Ptr ?b 0) n) m = Some ?m"
      using fresh False by (auto simp: run_effect_def mem_alloc_def fresh_from_def)
    have more: "whole H fp (pk_shape p) (pk_data p) ?m"
      using m by (auto simp: whole_def inside_def split: option.splits ptr.splits)
    have places: "places fp t (Ptr ?b 0) \<inter> m_held m = {}" "fst ` places fp t (Ptr ?b 0) \<subseteq> {?b}"
      using fresh by (force simp: fresh_from_def places_def)+
    let ?m' = "?m\<lparr>m_held := m_held m \<union> places fp t (Ptr ?b 0)\<rparr>"
    show ?thesis
    proof (cases "pop_fn (pk_data p)")
      case False
      have "run_effect H fp (Ef_Dealloc (Ptr ?b 0) n) ?m = Some m"
        using fresh by (cases m) (force simp: run_effect_def mem_dealloc_def fresh_from_def)
      then show ?thesis
        using False \<open>n \<noteq> 0\<close> Some alloc m
        by (auto simp: pop_into_block_def alloc_for_layout_def Let_def intro!: exI [of _ "[Ef_Alloc (Ptr ?b 0) n, Ef_Dealloc (Ptr ?b 0) n]"])
    next
      case True
      have inside: "inside H t (Ptr ?b 0) ?m" using Some by (auto simp: inside_def)
      then have "run_effect H fp (Ef_Pop (pk_shape p) (pk_data p) t (Ptr ?b 0)) ?m = Some ?m'"
        using more places(1) by (simp add: run_effect_def mem_into_none mem_take_def)
      moreover have "whole H fp (pk_shape p) (pk_data p) ?m'" using more by (auto simp: whole_def)
      moreover have "heap_ok H fp \<lparr>hv_guard = Some \<lparr>gd_ptr = Ptr ?b 0, gd_size = n, gd_should_dealloc = True\<rparr>, hv_shape = t\<rparr> ?m'"
        using inside fresh by (force simp: heap_ok_def whole_def fresh_from_def)
      ultimately show ?thesis
        using True \<open>n \<noteq> 0\<close> Some alloc
        by (auto simp: pop_into_block_def alloc_for_layout_def Let_def
            intro!: exI [of _ "[Ef_Alloc (Ptr ?b 0) n, Ef_Pop (pk_shape p) (pk_data p) t (Ptr ?b 0)]"] exI [of _ ?m'])
    qed
  qed
qed

end
