(* ===== verification/Poke_Runs.thy ===== *)
theory Poke_Runs
  imports Poke_Safety
begin

text \<open>
  Runs of changes. A client holds a value and changes parts of it, each reached by a path, with values
  that it gives away. \<open>poke_with\<close> names the operations and how the handle for them is made; when that
  fails, the client gives up, and what it would have given is dropped. \<open>run_pokes\<close> is a sequence of
  changes, each with the view of the memory as it is then.
\<close>

section \<open>Values to give\<close>

fun given_shape :: "given \<Rightarrow> sref" where
  "given_shape (Given_Local t q) = t"
| "given_shape (Given_Heap hv) = hv_shape hv"

fun given_ptr :: "given \<Rightarrow> ptr" where
  "given_ptr (Given_Local t q) = q"
| "given_ptr (Given_Heap hv) = (case hv_guard hv of Some g \<Rightarrow> gd_ptr g | None \<Rightarrow> Dangling)"

fun given_drop :: "host \<Rightarrow> given \<Rightarrow> world \<Rightarrow> world" where
  "given_drop H (Given_Local t q) w = call_drop_in_place H t q w"
| "given_drop H (Given_Heap hv) w = heap_value_drop H hv w"

fun given_ok :: "host \<Rightarrow> footprint \<Rightarrow> given \<Rightarrow> mem \<Rightarrow> bool" where
  "given_ok H fp (Given_Local t q) m = whole H fp t q m"
| "given_ok H fp (Given_Heap hv) m = heap_ok H fp hv m"

fun given_gone :: "footprint \<Rightarrow> given \<Rightarrow> mem \<Rightarrow> mem" where
  "given_gone fp (Given_Local t q) m = gone fp t q m"
| "given_gone fp (Given_Heap hv) m = heap_gone fp hv m"

text \<open>A value lies apart from a value that is given away, and not in the block that is freed with it.\<close>

fun given_apart :: "footprint \<Rightarrow> sref \<Rightarrow> ptr \<Rightarrow> given \<Rightarrow> bool" where
  "given_apart fp s p (Given_Local t q) = apart fp s p t q"
| "given_apart fp s p (Given_Heap hv) = elsewhere fp s p hv"

lemma whole_given_gone: "whole H fp s p m \<Longrightarrow> given_apart fp s p g \<Longrightarrow> whole H fp s p (given_gone fp g m)"
  by (cases g) (simp_all add: whole_gone whole_heap_gone)

lemma given_drop_runs:
  assumes "layout_fits H S fp" and "given_ok H fp g m"
  shows "runs H fp w m (given_drop H g w) (given_gone fp g m)"
  using assms by (cases g) (simp_all add: runs_drop_gone runs_heap_drop)

lemma given_gone_held: "m_held (given_gone fp g m) \<subseteq> m_held m"
  by (cases g) (auto simp: heap_gone_def freed_def split: option.splits ptr.splits if_splits)

lemma blocks_given_gone:
  assumes "given_apart fp s (Ptr b off) g" and "(b, n) \<in> m_blocks m"
  shows "(b, n) \<in> m_blocks (given_gone fp g m)"
  using assms by (cases g) (auto simp: heap_gone_def freed_def elsewhere_def split: option.splits ptr.splits)

lemma given_ok_other:
  assumes ok: "given_ok H fp g' m" and apart: "given_apart fp (given_shape g') (given_ptr g') g"
  shows "given_ok H fp g' (given_gone fp g m)"
proof (cases g')
  case (Given_Local t q)
  then show ?thesis using assms whole_given_gone by auto
next
  case (Given_Heap hv)
  then obtain gd where gd: "hv_guard hv = Some gd" "whole H fp (hv_shape hv) (gd_ptr gd) m"
    using ok by (auto simp: heap_ok_def split: option.splits)
  have a: "given_apart fp (hv_shape hv) (gd_ptr gd) g" using apart Given_Heap gd(1) by simp
  have "whole H fp (hv_shape hv) (gd_ptr gd) (given_gone fp g m)" by (rule whole_given_gone [OF gd(2) a])
  moreover have "case gd_ptr gd of
      Ptr b off \<Rightarrow> off = 0 \<and> (b, gd_size gd) \<in> m_blocks (given_gone fp g m)
        \<and> (\<forall>c \<in> m_held (given_gone fp g m). fst c = b \<longrightarrow> c \<in> places fp (hv_shape hv) (gd_ptr gd))
    | Dangling \<Rightarrow> False" if "frees gd"
    using ok that a gd(1) Given_Heap given_gone_held [of fp g m] blocks_given_gone [of fp "hv_shape hv" _ _ g]
    by (auto simp: heap_ok_def split: ptr.splits)
  ultimately show ?thesis using Given_Heap gd(1) by (simp add: heap_ok_def)
qed

section \<open>Entries of a map\<close>

text \<open>Both the key and the value are spent, whether the entry is inserted or refused.\<close>

lemma mem_into_two:
  assumes m: "whole H fp s p m" and k: "whole H fp t q m" and v: "whole H fp u r m"
    and "apart fp s p t q" and "apart fp s p u r" and "apart fp u r t q"
  shows "mem_into H fp s p [(t, q), (u, r)] m = Some (gone fp u r (gone fp t q m))"
proof -
  have "m_held m - places fp s p - places fp t q - places fp u r \<union> places fp s p =
      m_held m - places fp t q - places fp u r"
    "places fp t q \<subseteq> m_held m - places fp s p" "places fp u r \<subseteq> m_held m - places fp s p - places fp t q"
    using assms by (auto simp: whole_def apart_def)
  then show ?thesis
    using assms by (auto simp: mem_into_def mem_release_def mem_take_def whole_def gone_def)
qed

lemma gone_commute: "gone fp t q (gone fp u r m) = gone fp u r (gone fp t q m)"
  by (simp add: gone_def Diff_eq Int_ac)

lemma map_insert_spends:
  assumes lay: "poke_layout H V S fp" and m: "whole H fp (pk_shape p) (pk_data p) m"
    and k: "local_setting H V S fp p (fst key) (snd key) m" and v: "local_setting H V S fp p (fst value) (snd value) m"
    and kv: "apart fp (fst value) (snd value) (fst key) (snd key)"
  shows "spends H fp w m (gone fp (fst value) (snd value) (gone fp (fst key) (snd key) m))
    (poke_map_insert H S key value ty p w)"
proof -
  note lf = poke_layoutD(1) [OF lay]
  have "whole H fp (fst key) (snd key) (gone fp (fst value) (snd value) m)"
    using k kv by (intro whole_gone) (auto simp: local_setting_def apart_def)
  from runs_trans [OF drop_spends [OF v] runs_drop_gone [OF lf this]]
  have "runs H fp w m (call_drop_in_place H (fst key) (snd key) (call_drop_in_place H (fst value) (snd value) w))
      (gone fp (fst value) (snd value) (gone fp (fst key) (snd key) m))" by (simp add: gone_commute)
  moreover have "run_effect H fp (Ef_Map_Insert (pk_shape p) (pk_data p) key value) m =
      Some (gone fp (fst value) (snd value) (gone fp (fst key) (snd key) m))"
    using m k v kv mem_into_two [of H fp "pk_shape p" "pk_data p" m "fst key" "snd key" "fst value" "snd value"]
    by (simp add: run_effect_def local_setting_def)
  ultimately show ?thesis by (simp add: poke_map_insert_def Let_def runs_emit)
qed

section \<open>Operations of a client\<close>

datatype poke_op =
  Po_Set | Po_Struct_Field nat | Po_Struct_Named string | Po_Tuple_Field nat | Po_Enum_Field nat | Po_Enum_Named string
| Po_Some | Po_Ok | Po_Err | Po_Push | Po_Push_Like | Po_Insert | Po_Element | Po_Entry string

text \<open>The operations that take a heap value too.\<close>

fun heap_op :: "poke_op \<Rightarrow> bool" where
  "heap_op Po_Set = False"
| "heap_op (Po_Struct_Field i) = False"
| "heap_op (Po_Struct_Named n) = False"
| "heap_op (Po_Tuple_Field i) = False"
| "heap_op op = True"

definition as_kind :: "world \<Rightarrow> error_kind + 'b \<Rightarrow> ('b \<Rightarrow> 'a poked) \<Rightarrow> (error_kind option \<times> world) option" where
  "as_kind dropped r k =
     (case r of
        Inl e \<Rightarrow> Some (Some e, dropped)
      | Inr x \<Rightarrow> map_option (\<lambda>(r, w). (case r of Inl e \<Rightarrow> Some e | Inr _ \<Rightarrow> None, w)) (k x))"

definition poke_local ::
    "host \<Rightarrow> view \<Rightarrow> mut_tables \<Rightarrow> shapes \<Rightarrow> poke_op \<Rightarrow> sref \<Rightarrow> ptr \<Rightarrow> poke \<Rightarrow> world
       \<Rightarrow> (error_kind option \<times> world) option" where
  "poke_local H V M S op t src p w =
     (let dropped = call_drop_in_place H t src w
      in case op of
           Po_Set \<Rightarrow> as_kind dropped (Inr ()) (\<lambda>_. poke_set H S t src p w)
         | Po_Struct_Field i \<Rightarrow> as_kind dropped (into_struct S p) (\<lambda>st. poke_struct_set_field H S t src p st i w)
         | Po_Struct_Named n \<Rightarrow> as_kind dropped (into_struct S p) (\<lambda>st. poke_struct_set_field_by_name H S t src p st n w)
         | Po_Tuple_Field i \<Rightarrow> as_kind dropped (into_tuple S p) (\<lambda>fs. poke_tuple_set_field H S t src p fs i w)
         | Po_Enum_Field i \<Rightarrow> as_kind dropped (into_enum S p) (\<lambda>et. poke_enum_set_field H V S t src p et i w)
         | Po_Enum_Named n \<Rightarrow> as_kind dropped (into_enum S p) (\<lambda>et. poke_enum_set_field_by_name H V S t src p et n w)
         | Po_Some \<Rightarrow> as_kind dropped (into_option S p) (\<lambda>u. set_some H S t src u p w)
         | Po_Ok \<Rightarrow> as_kind dropped (into_result S p) (\<lambda>te. set_ok H S t src te p w)
         | Po_Err \<Rightarrow> as_kind dropped (into_result S p) (\<lambda>te. set_err H S t src te p w)
         | Po_Push \<Rightarrow> as_kind dropped (into_list S p) (\<lambda>u. poke_list_push H S t src u p w)
         | Po_Push_Like \<Rightarrow> as_kind dropped (poke_into_list_like V S p) (\<lambda>l. list_like_push H S t src l w)
         | Po_Insert \<Rightarrow> as_kind dropped (into_set S p) (\<lambda>u. poke_set_insert H M S t src u p w)
         | Po_Element \<Rightarrow> as_kind dropped (into_dynamic_value S p) (\<lambda>_. push_array_element H S t src p w)
         | Po_Entry key \<Rightarrow> as_kind dropped (into_dynamic_value S p) (\<lambda>_. insert_object_entry H S key t src p w))"

definition poke_heap ::
    "host \<Rightarrow> view \<Rightarrow> mut_tables \<Rightarrow> shapes \<Rightarrow> poke_op \<Rightarrow> heap_value \<Rightarrow> poke \<Rightarrow> world
       \<Rightarrow> (error_kind option \<times> world) option" where
  "poke_heap H V M S op hv p w =
     (let dropped = heap_value_drop H hv w
      in case op of
           Po_Enum_Field i \<Rightarrow> as_kind dropped (into_enum S p) (\<lambda>et. poke_enum_set_field_from_heap H V S hv p et i w)
         | Po_Enum_Named n \<Rightarrow>
             as_kind dropped (into_enum S p) (\<lambda>et. poke_enum_set_field_by_name_from_heap H V S hv p et n w)
         | Po_Some \<Rightarrow> as_kind dropped (into_option S p) (\<lambda>u. set_some_from_heap H S hv u p w)
         | Po_Ok \<Rightarrow> as_kind dropped (into_result S p) (\<lambda>te. set_ok_from_heap H S hv te p w)
         | Po_Err \<Rightarrow> as_kind dropped (into_result S p) (\<lambda>te. set_err_from_heap H S hv te p w)
         | Po_Push \<Rightarrow> as_kind dropped (into_list S p) (\<lambda>u. poke_list_push_from_heap H S hv u p w)
         | Po_Push_Like \<Rightarrow> as_kind dropped (poke_into_list_like V S p) (\<lambda>l. list_like_push_from_heap H S hv l w)
         | Po_Insert \<Rightarrow> as_kind dropped (into_set S p) (\<lambda>u. poke_set_insert_from_heap H M S hv u p w)
         | Po_Element \<Rightarrow> as_kind dropped (into_dynamic_value S p) (\<lambda>_. push_array_element_from_heap H S hv p w)
         | Po_Entry key \<Rightarrow> as_kind dropped (into_dynamic_value S p) (\<lambda>_. insert_object_entry_from_heap H S key hv p w)
         | _ \<Rightarrow> None)"

fun poke_with ::
    "host \<Rightarrow> view \<Rightarrow> mut_tables \<Rightarrow> shapes \<Rightarrow> poke_op \<Rightarrow> given \<Rightarrow> poke \<Rightarrow> world
       \<Rightarrow> (error_kind option \<times> world) option" where
  "poke_with H V M S op (Given_Local t src) p w = poke_local H V M S op t src p w"
| "poke_with H V M S op (Given_Heap hv) p w = poke_heap H V M S op hv p w"

definition spent :: "host \<Rightarrow> footprint \<Rightarrow> world \<Rightarrow> mem \<Rightarrow> mem \<Rightarrow> (error_kind option \<times> world) option \<Rightarrow> bool" where
  "spent H fp w m m' r \<longleftrightarrow> (\<exists>e w'. r = Some (e, w') \<and> runs H fp w m w' m')"

lemma as_kind_spent:
  assumes "runs H fp w m dropped m'" and "\<And>x. r = Inr x \<Longrightarrow> spends H fp w m m' (k x)"
  shows "spent H fp w m m' (as_kind dropped r k)"
proof (cases r)
  case (Inr x)
  from assms(2) [OF this] show ?thesis by (auto simp: as_kind_def Inr spends_def spent_def)
qed (use assms(1) in \<open>simp add: as_kind_def spent_def\<close>)

definition variant_known :: "view \<Rightarrow> shapes \<Rightarrow> poke \<Rightarrow> bool" where
  "variant_known V S p \<longleftrightarrow> (\<forall>et. peek_ty S p = Ty_User (User_Enum et) \<longrightarrow> active_variant V S et p \<noteq> None)"

lemma list_like_of: "poke_into_list_like V S p = Inr l \<Longrightarrow> ll_value l = p"
  by (auto simp: poke_into_list_like_def list_like_new_def split: facet_def.splits)

lemma tuple_of: "into_tuple S p = Inr fs \<Longrightarrow> \<exists>st. peek_ty S p = Ty_User (User_Struct st) \<and> fs = st_fields st"
  by (auto simp: into_tuple_def split: facet_type.splits user_type.splits if_splits)

lemma poke_local_spent:
  assumes set: "local_setting H V S fp p t src m" and "variant_known V S p"
  shows "spent H fp w m (gone fp t src m) (poke_local H V M S op t src p w)"
proof -
  note kind = as_kind_spent [OF drop_spends [OF set]]
  have push: "poke_into_list_like V S p = Inr l \<Longrightarrow> spends H fp w m (gone fp t src m) (list_like_push H S t src l w)" for l
    using list_like_push_spends [of H V S fp l t src m w] set list_like_of [of V S p l] by simp
  have tuple: "into_tuple S p = Inr fs \<Longrightarrow> spends H fp w m (gone fp t src m) (poke_tuple_set_field H S t src p fs i w)" for fs i
    using struct_set_field_spends(2) [OF set] tuple_of [of S p fs] by auto
  have struct: "into_struct S p = Inr st \<Longrightarrow> spends H fp w m (gone fp t src m) (poke_struct_set_field H S t src p st i w)"
    "into_struct S p = Inr st \<Longrightarrow> spends H fp w m (gone fp t src m) (poke_struct_set_field_by_name H S t src p st n w)"
    for st i n using struct_set_field_spends [OF set] by simp_all
  have enum: "into_enum S p = Inr et \<Longrightarrow> spends H fp w m (gone fp t src m) (poke_enum_set_field H V S t src p et i w)"
    "into_enum S p = Inr et \<Longrightarrow> spends H fp w m (gone fp t src m) (poke_enum_set_field_by_name H V S t src p et n w)"
    for et i n using assms(2) enum_set_field_spends [OF set] by (simp_all add: variant_known_def)
  show ?thesis
    unfolding poke_local_def Let_def
    by (cases op)
      (simp_all add: kind poke_set_spends [OF set] struct enum local_calls_spend [OF set] push tuple del: into_cases)
qed

lemma poke_heap_spent:
  assumes set: "heap_setting H V S fp p hv m" and "variant_known V S p" and "heap_op op"
  shows "spent H fp w m (heap_gone fp hv m) (poke_heap H V M S op hv p w)"
proof -
  note kind = as_kind_spent [OF heap_drop_spends [OF set]]
  have push: "poke_into_list_like V S p = Inr l \<Longrightarrow> spends H fp w m (heap_gone fp hv m) (list_like_push_from_heap H S hv l w)" for l
    using list_like_push_from_heap_spends [of H V S fp l hv m w] set list_like_of [of V S p l] by simp
  have enum: "into_enum S p = Inr et \<Longrightarrow> spends H fp w m (heap_gone fp hv m) (poke_enum_set_field_from_heap H V S hv p et i w)"
    "into_enum S p = Inr et \<Longrightarrow>
       spends H fp w m (heap_gone fp hv m) (poke_enum_set_field_by_name_from_heap H V S hv p et n w)"
    for et i n using assms(2) enum_set_field_from_heap_spends [OF set] by (simp_all add: variant_known_def)
  show ?thesis
    unfolding poke_heap_def Let_def using assms(3)
    by (cases op)
      (simp_all add: kind enum heap_calls_spend [OF set] push del: into_cases)
qed

section \<open>Runs\<close>

type_synonym change = "view \<times> mut_tables \<times> path \<times> poke_op \<times> given"

fun run_pokes :: "host \<Rightarrow> shapes \<Rightarrow> poke \<Rightarrow> change list \<Rightarrow> world \<Rightarrow> world option" where
  "run_pokes H S p [] w = Some w"
| "run_pokes H S p ((V, M, path, op, g) # changes) w =
     (case at_path_mut V M S p path of
        None \<Rightarrow> None
      | Some (Inl e) \<Rightarrow> run_pokes H S p changes (given_drop H g w)
      | Some (Inr q) \<Rightarrow> Option.bind (poke_with H V M S op g q w) (\<lambda>(e, w). run_pokes H S p changes w))"

text \<open>What a change relies on: layouts that fit the view, the same elements for reading and changing, a
  path that stays in the value and reads only variants that are known.\<close>

fun change_fits :: "host \<Rightarrow> footprint \<Rightarrow> shapes \<Rightarrow> poke \<Rightarrow> change \<Rightarrow> bool" where
  "change_fits H fp S p (V, M, path, op, g) \<longleftrightarrow>
     poke_layout H V S fp \<and> mut_agrees V M S \<and> stays_inside V M S 0 (p_steps path) p
     \<and> (case at_path_mut V M S p path of None \<Rightarrow> False | Some (Inl e) \<Rightarrow> True | Some (Inr q) \<Rightarrow> variant_known V S q)
     \<and> (case g of Given_Heap hv \<Rightarrow> heap_op op | _ \<Rightarrow> True)"

definition change_given :: "change \<Rightarrow> given" where
  "change_given c = (case c of (V, M, path, op, g) \<Rightarrow> g)"

lemma change_given_eq [simp]: "change_given (V, M, path, op, g) = g"
  by (simp add: change_given_def)

text \<open>The values to give are whole, and apart from what is changed and from each other.\<close>

fun gives :: "host \<Rightarrow> footprint \<Rightarrow> poke \<Rightarrow> mem \<Rightarrow> given list \<Rightarrow> bool" where
  "gives H fp p m [] = True"
| "gives H fp p m (g # gs) \<longleftrightarrow>
     given_ok H fp g m \<and> given_apart fp (pk_shape p) (pk_data p) g
     \<and> (\<forall>g' \<in> set gs. given_apart fp (given_shape g') (given_ptr g') g) \<and> gives H fp p m gs"

lemma gives_later:
  assumes "gives H fp p m gs" and "\<forall>g' \<in> set gs. given_apart fp (given_shape g') (given_ptr g') g"
  shows "gives H fp p (given_gone fp g m) gs"
  using assms by (induction gs) (simp_all add: given_ok_other)

lemma poke_with_spent:
  assumes "poke_layout H V S fp" and "part_of H fp q p" and "whole H fp (pk_shape p) (pk_data p) m"
    and "given_ok H fp g m" and "given_apart fp (pk_shape p) (pk_data p) g" and "variant_known V S q"
    and "case g of Given_Heap hv \<Rightarrow> heap_op op | _ \<Rightarrow> True"
  shows "spent H fp w m (given_gone fp g m) (poke_with H V M S op g q w)"
proof (cases g)
  case (Given_Local t src)
  with assms have "local_setting H V S fp p t src m" by (simp add: local_setting_def)
  from poke_local_spent [OF part_local [OF this assms(2)] assms(6)] Given_Local show ?thesis by simp
next
  case (Given_Heap hv)
  with assms have "heap_setting H V S fp p hv m" by (simp add: heap_setting_def)
  from poke_heap_spent [OF part_heap [OF this assms(2)] assms(6)] Given_Heap assms(7) show ?thesis by simp
qed

lemma run_pokes_runs:
  assumes "\<forall>c \<in> set changes. change_fits H fp S p c" and "whole H fp (pk_shape p) (pk_data p) m"
    and "gives H fp p m (map change_given changes)"
  shows "\<exists>w'. run_pokes H S p changes w = Some w'
     \<and> runs H fp w m w' (fold (given_gone fp) (map change_given changes) m)
     \<and> whole H fp (pk_shape p) (pk_data p) (fold (given_gone fp) (map change_given changes) m)"
  using assms
proof (induction changes arbitrary: m w)
  case (Cons c changes)
  obtain V M path op g where c: "c = (V, M, path, op, g)" by (cases c)
  let ?m = "given_gone fp g m"
  have fits: "change_fits H fp S p (V, M, path, op, g)" using Cons.prems(1) c by simp
  have g: "given_ok H fp g m" "given_apart fp (pk_shape p) (pk_data p) g"
      "gives H fp p ?m (map change_given changes)"
    using Cons.prems(3) c gives_later by simp_all
  have m: "whole H fp (pk_shape p) (pk_data p) ?m" by (rule whole_given_gone [OF Cons.prems(2) g(2)])
  have step: "\<exists>w1. runs H fp w m w1 ?m \<and> run_pokes H S p (c # changes) w = run_pokes H S p changes w1"
  proof (cases "at_path_mut V M S p path")
    case None
    then show ?thesis using fits by simp
  next
    case (Some r)
    show ?thesis
    proof (cases r)
      case (Inl e)
      have "layout_fits H S fp" by (rule poke_layoutD(1) [of H V]) (use fits in simp)
      from given_drop_runs [OF this g(1)] show ?thesis using Some Inl c by auto
    next
      case (Inr q)
      have "part_of H fp q p"
        using apply_steps_mut_part_of [of H V S fp M 0 "p_steps path" p q] fits Some Inr
        by (simp add: at_path_mut_def split: if_splits)
      from poke_with_spent [OF _ this Cons.prems(2) g(1,2), of V S op w M] fits Some Inr
      obtain e w1 where "poke_with H V M S op g q w = Some (e, w1)" "runs H fp w m w1 ?m"
        by (auto simp: spent_def)
      then show ?thesis using Some Inr c by auto
    qed
  qed
  then obtain w1 where w1: "runs H fp w m w1 ?m" "run_pokes H S p (c # changes) w = run_pokes H S p changes w1" by blast
  from Cons.IH [OF _ m g(3), of w1] Cons.prems(1) obtain w' where
    "run_pokes H S p changes w1 = Some w'" "runs H fp w1 ?m w' (fold (given_gone fp) (map change_given changes) ?m)"
    "whole H fp (pk_shape p) (pk_data p) (fold (given_gone fp) (map change_given changes) ?m)" by auto
  with w1 show ?case using runs_trans c by fastforce
qed simp

end
