(* ===== verification/Poke_Samples.thy ===== *)
theory Poke_Samples
  imports Build_Samples Peek_Samples Poke_Runs
begin

text \<open>
  Changes of a struct that \<open>Build_Samples\<close> builds: a string in its array is replaced, the others are
  refused, since there is no option, no such element, and the struct is not plain data.
\<close>

definition poke_V :: view where
  "poke_V = blank_view\<lparr>vw_size := \<lambda>s. vt_size (h_vt build_H s)\<rparr>"

definition poke_M :: mut_tables where
  "poke_M = \<lparr>mt_list_get_mut = (\<lambda>s. None), mt_list_as_mut_ptr = (\<lambda>s. None), mt_list_pop = (\<lambda>s. None),
     mt_list_swap = (\<lambda>s. None), mt_array_as_mut_ptr = (\<lambda>s p. p), mt_slice_as_mut_ptr = (\<lambda>s p. p),
     mt_set_insert = (\<lambda>s p q. True), mt_nd_get_mut = (\<lambda>s. None), mt_nd_as_mut_ptr = (\<lambda>s. None),
     mt_nd_byte_stride = (\<lambda>s. None), mt_dyn_set_f64 = (\<lambda>s b. False), mt_dyn_has_set_bytes = (\<lambda>s. False),
     mt_dyn_has_end_array = (\<lambda>s. False), mt_dyn_has_end_object = (\<lambda>s. False), mt_dyn_object_get_mut = (\<lambda>s. None)\<rparr>"

text \<open>The struct lies in block 0; three strings to give lie in block 1, and one in a block of its own.\<close>

definition poke_root :: poke where
  "poke_root = peek_at 2 (Ptr 0 0)"

definition poke_mem :: mem where
  "poke_mem = \<lparr>m_blocks = {(0, 72), (1, 72), (2, 24)},
     m_held = {(0, 8), (0, 32), (0, 56), (1, 8), (1, 32), (1, 56), (2, 8)}\<rparr>"

definition poke_world :: world where
  "poke_world = \<lparr>w_next = 3, w_log = []\<rparr>"

definition string_in_heap :: heap_value where
  "string_in_heap = \<lparr>hv_guard = Some \<lparr>gd_ptr = Ptr 2 0, gd_size = 24, gd_should_dealloc = True\<rparr>, hv_shape = 0\<rparr>"

definition poke_path :: "path_step list \<Rightarrow> path" where
  "poke_path steps = \<lparr>p_shape = 2, p_steps = steps\<rparr>"

definition poke_changes :: "change list" where
  "poke_changes =
     [(poke_V, poke_M, poke_path [Step_Field 1, Step_Index 0], Po_Set, Given_Local 0 (Ptr 1 0)),
      (poke_V, poke_M, poke_path [Step_Field 0], Po_Some, Given_Heap string_in_heap),
      (poke_V, poke_M, poke_path [Step_Field 1, Step_Index 5], Po_Set, Given_Local 0 (Ptr 1 24)),
      (poke_V, poke_M, poke_path [], Po_Struct_Field 0, Given_Local 0 (Ptr 1 48))]"

lemma poke_parts: "build_S s \<noteq> build_S 2 \<Longrightarrow> sh_ty (build_S s) \<noteq> Ty_User u" "sh_def (build_S s) \<noteq> Def_Option t"
    "sh_ty (build_S s) \<noteq> Ty_User (User_Enum et)" "sh_def (build_S s) \<noteq> Def_List t"
  by (auto simp: build_shapes)

lemma poke_fits: "poke_layout build_H poke_V build_S build_fp"
  unfolding poke_layout_def
proof (intro conjI allI impI ballI build_layout)
  fix s t
  assume same: "sh_id (build_S s) = sh_id (build_S t)"
  have "s = t \<or> 2 < s \<and> 2 < t"
    using same by (simp add: build_shapes split: if_splits)
  then show "build_fp s = build_fp t" "vt_size (h_vt build_H s) = vt_size (h_vt build_H t)"
    by (auto simp: build_fp_def build_vt)
next
  fix s t n
  assume "sh_def (build_S s) = Def_Array t n"
  then show "sh_ty (build_S s) = Ty_Sequence (Seq_Array t n)" by (auto simp: build_shapes split: if_splits)
qed (simp_all add: poke_V_def poke_parts)

lemma poke_agrees: "mut_agrees poke_V poke_M build_S"
  unfolding mut_agrees_def
proof (intro conjI allI impI)
  fix s t n p
  assume "sh_def (build_S s) = Def_Array t n"
  then have "t = 0" by (simp add: build_shapes split: if_splits)
  then show "vw_array_ptr poke_V s p = p" "vw_size poke_V t \<noteq> None"
    by (simp_all add: poke_V_def blank_view_def build_vt)
qed (simp_all add: poke_parts)

lemma poke_changes_fit: "\<forall>c \<in> set poke_changes. change_fits build_H build_fp build_S poke_root c"
proof -
  have "list_all (\<lambda>(V, M, path, op, g). stays_inside poke_V poke_M build_S 0 (p_steps path) poke_root
      \<and> at_path_mut poke_V poke_M build_S poke_root path \<noteq> None
      \<and> (case g of Given_Heap hv \<Rightarrow> heap_op op | _ \<Rightarrow> True)) poke_changes"
    by code_simp
  moreover have "(case r of None \<Rightarrow> False | Some (Inl e) \<Rightarrow> True | Some (Inr q) \<Rightarrow> variant_known poke_V build_S q) \<longleftrightarrow> r \<noteq> None"
    for r :: access by (auto simp: variant_known_def poke_parts split: option.splits sum.splits)
  ultimately show ?thesis using poke_fits poke_agrees by (simp add: poke_changes_def)
qed

lemma poke_root_whole: "whole build_H build_fp (pk_shape poke_root) (pk_data poke_root) poke_mem"
  by (auto simp: whole_def poke_root_def poke_mem_def inside_def build_vt places_def build_fp_def)

lemma poke_gives: "gives build_H build_fp poke_root poke_mem (map change_given poke_changes)"
  by (simp add: poke_changes_def poke_root_def poke_mem_def string_in_heap_def whole_def inside_def build_vt places_def
      build_fp_def heap_ok_def frees_def apart_def elsewhere_def)

end
