(* ===== verification/Macro_Text.thy ===== *)
theory Macro_Text
  imports Rename
begin

text \<open>
  Text as the derive macros read it (facet-macro-parse, src/unescaping.rs), and the operations of
  the standard library on strings that they use. A string is the list of its characters, as code
  points; byte positions count the bytes of its UTF-8 form. \<open>unescape_inner\<close> is the loop over
  \<open>char_indices\<close>; \<open>reads\<close> is what the escape sequences mean, one character at a time, and
  the theorems say that the loop reads exactly that and where it stops when it cannot.
\<close>

section \<open>Strings of the standard library\<close>

definition utf8_len :: "rchar \<Rightarrow> nat" where
  "utf8_len c = (if c < 128 then 1 else if c < 2048 then 2 else if c < 65536 then 3 else 4)"

definition utf8_size :: "rname \<Rightarrow> nat" where
  "utf8_size s = sum_list (map utf8_len s)"

lemma utf8_size_simps [simp]:
  "utf8_size [] = 0" "utf8_size (c # s) = utf8_len c + utf8_size s" "utf8_size (s @ t) = utf8_size s + utf8_size t"
  by (simp_all add: utf8_size_def)

fun char_indices :: "nat \<Rightarrow> rname \<Rightarrow> (nat \<times> rchar) list" where
  "char_indices i [] = []"
| "char_indices i (c # s) = (i, c) # char_indices (i + utf8_len c) s"

lemma char_indices_inject [simp]: "char_indices i s = char_indices i t \<longleftrightarrow> s = t"
proof (induction s arbitrary: i t)
  case Nil
  then show ?case by (cases t) auto
next
  case (Cons c s)
  then show ?case by (cases t) auto
qed

lemma char_indices_length [simp]: "length (char_indices i s) = length s"
  by (induction s arbitrary: i) auto

lemma char_indices_append: "char_indices i (s @ t) = char_indices i s @ char_indices (i + utf8_size s) t"
  by (induction s arbitrary: i) (auto simp: add.assoc)

text \<open>\<open>s[n..]\<close> and \<open>s[a..b]\<close>: a panic when a bound is not between two characters.\<close>

fun drop_bytes :: "nat \<Rightarrow> rname \<Rightarrow> rname option" where
  "drop_bytes n s =
     (if n = 0 then Some s
      else case s of [] \<Rightarrow> None | c # cs \<Rightarrow> if utf8_len c \<le> n then drop_bytes (n - utf8_len c) cs else None)"

fun take_bytes :: "nat \<Rightarrow> rname \<Rightarrow> rname option" where
  "take_bytes n s =
     (if n = 0 then Some []
      else case s of [] \<Rightarrow> None
           | c # cs \<Rightarrow> if utf8_len c \<le> n then map_option ((#) c) (take_bytes (n - utf8_len c) cs) else None)"

declare drop_bytes.simps [simp del] take_bytes.simps [simp del]

definition byte_slice :: "nat \<Rightarrow> nat \<Rightarrow> rname \<Rightarrow> rname option" where
  "byte_slice a b s =
     (if a \<le> b then case drop_bytes a s of None \<Rightarrow> None | Some t \<Rightarrow> take_bytes (b - a) t else None)"

lemma drop_bytes_prefix [simp]: "drop_bytes (utf8_size s) (s @ t) = Some t"
proof (induction s)
  case Nil
  then show ?case by (subst drop_bytes.simps) simp
next
  case (Cons c s)
  have "0 < utf8_len c" by (simp add: utf8_len_def)
  with Cons show ?case by (subst drop_bytes.simps) simp
qed

lemma take_bytes_prefix [simp]: "take_bytes (utf8_size s) (s @ t) = Some s"
proof (induction s)
  case Nil
  then show ?case by (subst take_bytes.simps) simp
next
  case (Cons c s)
  have "0 < utf8_len c" by (simp add: utf8_len_def)
  with Cons show ?case by (subst take_bytes.simps) simp
qed

lemma byte_slice_middle: "byte_slice (utf8_size s) (utf8_size s + utf8_size t) (s @ t @ r) = Some t"
  by (simp add: byte_slice_def)

definition trim_start_char :: "rchar \<Rightarrow> rname \<Rightarrow> rname" where
  "trim_start_char c s = dropWhile (\<lambda>d. d = c) s"

definition trim_matches :: "rchar \<Rightarrow> rname \<Rightarrow> rname" where
  "trim_matches c s = rev (trim_start_char c (rev (trim_start_char c s)))"

definition trim :: "char_tables \<Rightarrow> rname \<Rightarrow> rname" where
  "trim T s = rev (dropWhile (ct_is_space T) (rev (dropWhile (ct_is_space T) s)))"

function trim_prefix :: "rname \<Rightarrow> rname \<Rightarrow> rname" where
  "trim_prefix p s =
     (if p \<noteq> [] \<and> length p \<le> length s \<and> take (length p) s = p then trim_prefix p (drop (length p) s) else s)"
  by pat_completeness auto
termination
  by (relation "measure (\<lambda>(p, s). length s)") (auto intro: diff_less order_less_le_trans)

declare trim_prefix.simps [simp del]

definition text_starts_with :: "rname \<Rightarrow> rname \<Rightarrow> bool" where
  "text_starts_with p s \<longleftrightarrow> take (length p) s = p"

section \<open>Escape sequences\<close>

datatype unescape_error =
  IllegalCharacterFollowingBackslash (ue_index: nat) (ue_found: rchar) (ue_string: rname)
| UnexpectedEofFollowingBackslash (ue_index: nat) (ue_string: rname)
| InvalidHexEscape (ue_index: nat) (ue_string: rname)
| InvalidUnicodeEscape (ue_index: nat) (ue_string: rname)

definition hex_digit :: "rchar \<Rightarrow> bool" where
  "hex_digit c \<longleftrightarrow> 48 \<le> c \<and> c \<le> 57 \<or> 65 \<le> c \<and> c \<le> 70 \<or> 97 \<le> c \<and> c \<le> 102"

definition digit_value :: "rchar \<Rightarrow> nat" where
  "digit_value c = (if c \<le> 57 then c - 48 else if c \<le> 70 then c - 55 else c - 87)"

text \<open>\<open>char::from_u32\<close>\<close>

definition from_u32 :: "u32 \<Rightarrow> rchar option" where
  "from_u32 v = (let n = unat v in if n < 55296 \<or> 57344 \<le> n \<and> n < 1114112 then Some n else None)"

fun hex_loop :: "nat \<Rightarrow> u8 \<Rightarrow> (nat \<times> rchar) list \<Rightarrow> (u8 \<times> (nat \<times> rchar) list) option" where
  "hex_loop 0 v chars = Some (v, chars)"
| "hex_loop (Suc k) v [] = None"
| "hex_loop (Suc k) v ((j, c) # chars) =
     (if hex_digit c then hex_loop k (v * 16 + of_nat (digit_value c)) chars else None)"

definition parse_hex_escape ::
  "(nat \<times> rchar) list \<Rightarrow> nat \<Rightarrow> rname \<Rightarrow> (unescape_error, rchar \<times> (nat \<times> rchar) list) outcome" where
  "parse_hex_escape chars escape_start s =
     (case hex_loop 2 0 chars of
        None \<Rightarrow> Err (InvalidHexEscape escape_start s)
      | Some (v, rest) \<Rightarrow> Ok (unat v, rest))"

fun unicode_loop :: "u32 \<Rightarrow> nat \<Rightarrow> (nat \<times> rchar) list \<Rightarrow> (u32 \<times> nat \<times> (nat \<times> rchar) list) option" where
  "unicode_loop v digit_count [] = None"
| "unicode_loop v digit_count ((j, c) # chars) =
     (if c = 125 then Some (v, digit_count, chars)
      else if hex_digit c
      then (if digit_count + 1 > 6 then None
            else unicode_loop (v * 16 + of_nat (digit_value c)) (digit_count + 1) chars)
      else None)"

definition parse_unicode_escape ::
  "(nat \<times> rchar) list \<Rightarrow> nat \<Rightarrow> rname \<Rightarrow> (unescape_error, rchar \<times> (nat \<times> rchar) list) outcome" where
  "parse_unicode_escape chars escape_start s =
     (let failed = Err (InvalidUnicodeEscape escape_start s) in
      case chars of
        [] \<Rightarrow> failed
      | (j, c) # chars' \<Rightarrow>
          if c \<noteq> 123 then failed
          else (case unicode_loop 0 0 chars' of
                  None \<Rightarrow> failed
                | Some (v, digit_count, rest) \<Rightarrow>
                    if digit_count = 0 then failed
                    else (case from_u32 v of None \<Rightarrow> failed | Some ch \<Rightarrow> Ok (ch, rest))))"

text \<open>What follows a backslash.\<close>

definition unescape_after ::
  "rname \<Rightarrow> nat \<Rightarrow> (nat \<times> rchar) list \<Rightarrow> (unescape_error, rchar \<times> (nat \<times> rchar) list) outcome" where
  "unescape_after s i chars =
     (case chars of
        [] \<Rightarrow> Err (UnexpectedEofFollowingBackslash i s)
      | (j, found) # rest \<Rightarrow>
          if found = 92 then Ok (92, rest)
          else if found = 34 then Ok (34, rest)
          else if found = 39 then Ok (39, rest)
          else if found = of_char (CHR ''n'') then Ok (10, rest)
          else if found = of_char (CHR ''r'') then Ok (13, rest)
          else if found = of_char (CHR ''t'') then Ok (9, rest)
          else if found = of_char (CHR ''0'') then Ok (0, rest)
          else if found = of_char (CHR ''x'') then parse_hex_escape rest i s
          else if found = of_char (CHR ''u'') then parse_unicode_escape rest i s
          else Err (IllegalCharacterFollowingBackslash i found s))"

definition unescape_char ::
  "rname \<Rightarrow> nat \<times> rchar \<Rightarrow> (nat \<times> rchar) list \<Rightarrow> (unescape_error, rchar \<times> (nat \<times> rchar) list) outcome" where
  "unescape_char s ic chars = (if snd ic = 92 then unescape_after s (fst ic) chars else Ok (snd ic, chars))"

lemma hex_loop_length: "hex_loop k v chars = Some (w, rest) \<Longrightarrow> length rest \<le> length chars"
  by (induction k v chars rule: hex_loop.induct) (auto split: if_splits)

lemma unicode_loop_length: "unicode_loop v n chars = Some (w, m, rest) \<Longrightarrow> length rest \<le> length chars"
  by (induction v n chars rule: unicode_loop.induct) (auto split: if_splits)

lemma unescape_char_length:
  assumes "unescape_char s ic chars = Ok (ch, rest)"
  shows "length rest \<le> length chars"
  using assms
  by (auto simp: unescape_char_def unescape_after_def parse_hex_escape_def parse_unicode_escape_def Let_def
    split: if_splits list.splits option.splits prod.splits dest!: hex_loop_length unicode_loop_length)

function unescape_loop :: "rname \<Rightarrow> (nat \<times> rchar) list \<Rightarrow> rname \<Rightarrow> (unescape_error, rname) outcome" where
  "unescape_loop s [] out = Ok out"
| "unescape_loop s (ic # chars) out =
     obind (unescape_char s ic chars) (\<lambda>r. unescape_loop s (snd r) (out @ [fst r]))"
  by pat_completeness auto
termination
  by (relation "measure (\<lambda>(s, chars, out). length chars)") (auto dest: unescape_char_length)

definition unescape_inner :: "rname \<Rightarrow> (unescape_error, rname) outcome" where
  "unescape_inner s = unescape_loop s (char_indices 0 s) []"

section \<open>What the escape sequences mean\<close>

definition escape_table :: "(rchar \<times> rchar) list" where
  "escape_table = [(92, 92), (34, 34), (39, 39), (110, 10), (114, 13), (116, 9), (48, 0)]"

definition digits_value :: "rname \<Rightarrow> nat" where
  "digits_value ds = foldl (\<lambda>v d. 16 * v + digit_value d) 0 ds"

inductive names_char :: "rname \<Rightarrow> rchar \<Rightarrow> bool" where
  itself: "c \<noteq> 92 \<Longrightarrow> names_char [c] c"
| short: "(f, c) \<in> set escape_table \<Longrightarrow> names_char [92, f] c"
| hexadecimal: "hex_digit a \<Longrightarrow> hex_digit b \<Longrightarrow> names_char [92, 120, a, b] (digits_value [a, b])"
| unicode: "ds \<noteq> [] \<Longrightarrow> length ds \<le> 6 \<Longrightarrow> \<forall>d \<in> set ds. hex_digit d
    \<Longrightarrow> digits_value ds < 55296 \<or> 57344 \<le> digits_value ds \<and> digits_value ds < 1114112
    \<Longrightarrow> names_char ([92, 117, 123] @ ds @ [125]) (digits_value ds)"

inductive reads :: "rname \<Rightarrow> rname \<Rightarrow> bool" where
  reads_nil: "reads [] []"
| reads_char: "names_char u c \<Longrightarrow> reads s out \<Longrightarrow> reads (u @ s) (c # out)"

definition fault_of :: "rname \<Rightarrow> nat \<Rightarrow> rname \<Rightarrow> unescape_error" where
  "fault_of t i s =
     (case t of
        [] \<Rightarrow> UnexpectedEofFollowingBackslash i s
      | f # _ \<Rightarrow> if f = 120 then InvalidHexEscape i s
                else if f = 117 then InvalidUnicodeEscape i s
                else IllegalCharacterFollowingBackslash i f s)"

lemma digit_value_less: "hex_digit d \<Longrightarrow> digit_value d < 16"
  by (auto simp: hex_digit_def digit_value_def)

lemma digits_value_snoc: "digits_value (ds @ [d]) = 16 * digits_value ds + digit_value d"
  by (simp add: digits_value_def)

lemma digits_value_less: "\<forall>d \<in> set ds. hex_digit d \<Longrightarrow> digits_value ds < 16 ^ length ds"
proof (induction ds rule: rev_induct)
  case Nil
  then show ?case by (simp add: digits_value_def)
next
  case (snoc d ds)
  then have "digits_value ds < 16 ^ length ds" "digit_value d < 16" by (auto simp: digit_value_less)
  then show ?case by (simp add: digits_value_snoc)
qed

text \<open>The words the loops compute do not wrap.\<close>

definition digits_word :: "'a::len word \<Rightarrow> rname \<Rightarrow> 'a word" where
  "digits_word v ds = foldl (\<lambda>v d. v * 16 + of_nat (digit_value d)) v ds"

lemma digits_word_of_nat: "digits_word 0 ds = of_nat (digits_value ds)"
proof (induction ds rule: rev_induct)
  case Nil
  then show ?case by (simp add: digits_word_def digits_value_def)
next
  case (snoc d ds)
  then show ?case by (simp add: digits_word_def digits_value_snoc mult.commute)
qed

lemma unat_digits_word8:
  assumes "hex_digit a" and "hex_digit b"
  shows "unat (digits_word 0 [a, b] :: u8) = digits_value [a, b]"
proof -
  have "digits_value [a, b] < 16 ^ length [a, b]" by (rule digits_value_less) (use assms in auto)
  then show ?thesis by (simp add: digits_word_of_nat unat_of_nat)
qed

lemma unat_digits_word32:
  assumes "\<forall>d \<in> set ds. hex_digit d" and "length ds \<le> 6"
  shows "unat (digits_word 0 ds :: u32) = digits_value ds"
proof -
  have "digits_value ds < 16 ^ length ds" by (rule digits_value_less [OF assms(1)])
  also have "\<dots> \<le> (16::nat) ^ 6" by (rule power_increasing) (use assms(2) in auto)
  finally show ?thesis by (simp add: digits_word_of_nat unat_of_nat)
qed

section \<open>One character\<close>

lemma hex_loop_sound:
  assumes "hex_loop 2 0 (char_indices i t) = Some (v, rest)"
  obtains a b t' where "t = a # b # t'" "hex_digit a" "hex_digit b" "v = digits_word 0 [a, b]"
    "rest = char_indices (i + utf8_len a + utf8_len b) t'"
proof -
  obtain a b t' where t: "t = a # b # t'"
    using assms by (cases t rule: remdups_adj.cases) (auto simp: numeral_2_eq_2 split: if_splits)
  with assms that show thesis by (auto simp: numeral_2_eq_2 digits_word_def split: if_splits)
qed

lemma hex_loop_complete:
  "hex_digit a \<Longrightarrow> hex_digit b \<Longrightarrow>
     hex_loop 2 0 ((j, a) # (k, b) # chars) = Some (digits_word 0 [a, b], chars)"
  by (simp add: numeral_2_eq_2 digits_word_def)

lemma unicode_loop_sound:
  assumes "unicode_loop v n (char_indices i t) = Some (w, m, rest)"
  shows "\<exists>ds t'. t = ds @ 125 # t' \<and> (\<forall>d \<in> set ds. hex_digit d) \<and> m = n + length ds \<and> (ds = [] \<or> m \<le> 6)
    \<and> w = digits_word v ds \<and> rest = char_indices (i + utf8_size ds + 1) t'"
  using assms
proof (induction t arbitrary: v n i)
  case Nil
  then show ?case by simp
next
  case (Cons c t)
  have one: "utf8_len 125 = 1" by (simp add: utf8_len_def)
  show ?case
  proof (cases "c = 125")
    case True
    with Cons.prems one show ?thesis by (intro exI [of _ "[]"] exI [of _ t]) (auto simp: digits_word_def)
  next
    case False
    with Cons.prems have c: "hex_digit c" "n + 1 \<le> 6"
        and more: "unicode_loop (v * 16 + of_nat (digit_value c)) (n + 1) (char_indices (i + utf8_len c) t) = Some (w, m, rest)"
      by (auto split: if_splits)
    from Cons.IH [OF more] obtain ds t' where "t = ds @ 125 # t'" "\<forall>d \<in> set ds. hex_digit d" "m = n + 1 + length ds"
        "ds = [] \<or> m \<le> 6" "w = digits_word (v * 16 + of_nat (digit_value c)) ds"
        "rest = char_indices (i + utf8_len c + utf8_size ds + 1) t'" by blast
    with c show ?thesis by (intro exI [of _ "c # ds"] exI [of _ t']) (auto simp: digits_word_def add.assoc)
  qed
qed

lemma unicode_loop_complete:
  assumes "\<forall>d \<in> set ds. hex_digit d" and "n + length ds \<le> 6"
  shows "unicode_loop v n (char_indices i (ds @ 125 # t))
    = Some (digits_word v ds, n + length ds, char_indices (i + utf8_size ds + 1) t)"
  using assms
proof (induction ds arbitrary: v n i)
  case Nil
  then show ?case by (simp add: digits_word_def utf8_len_def)
next
  case (Cons d ds)
  then have "d \<noteq> 125" by (auto simp: hex_digit_def)
  with Cons show ?case by (simp add: digits_word_def add.assoc)
qed

lemma from_u32_eq: "from_u32 v = Some c \<longleftrightarrow> c = unat v \<and> (c < 55296 \<or> 57344 \<le> c \<and> c < 1114112)"
  by (auto simp: from_u32_def Let_def)

lemma parse_unicode_sound:
  assumes "parse_unicode_escape (char_indices i t) j s = Ok (ch, rest)"
  obtains ds t' where "t = 123 # ds @ 125 # t'" "names_char ([92, 117, 123] @ ds @ [125]) ch"
    "rest = char_indices (i + utf8_size ds + 2) t'"
proof -
  have one: "utf8_len 123 = 1" by (simp add: utf8_len_def)
  obtain t1 v n where t: "t = 123 # t1" and loop: "unicode_loop 0 0 (char_indices (i + 1) t1) = Some (v, n, rest)"
      and v: "n \<noteq> 0" "from_u32 v = Some ch"
    using assms one by (cases t) (auto simp: parse_unicode_escape_def Let_def split: option.splits if_splits)
  from unicode_loop_sound [OF loop] obtain ds t' where ds: "t1 = ds @ 125 # t'" "\<forall>d \<in> set ds. hex_digit d"
      "n = length ds" "ds = [] \<or> n \<le> 6" "v = digits_word 0 ds" "rest = char_indices (i + 1 + utf8_size ds + 1) t'"
    by auto
  with v have ne: "ds \<noteq> []" "length ds \<le> 6" by auto
  with ds v have "ch = digits_value ds" "digits_value ds < 55296 \<or> 57344 \<le> digits_value ds \<and> digits_value ds < 1114112"
    using unat_digits_word32 [OF ds(2)] by (auto simp: from_u32_eq)
  with ne ds(2) have "names_char ([92, 117, 123] @ ds @ [125]) ch" by (auto intro: names_char.unicode [simplified])
  with t ds that show thesis by simp
qed

lemma parse_unicode_complete:
  assumes "ds \<noteq> []" "length ds \<le> 6" "\<forall>d \<in> set ds. hex_digit d"
    and "digits_value ds < 55296 \<or> 57344 \<le> digits_value ds \<and> digits_value ds < 1114112"
  shows "parse_unicode_escape (char_indices i (123 # ds @ 125 # t)) j s
    = Ok (digits_value ds, char_indices (i + utf8_size ds + 2) t)"
proof -
  have one: "utf8_len 123 = 1" by (simp add: utf8_len_def)
  have "from_u32 (digits_word 0 ds) = Some (digits_value ds)"
    using unat_digits_word32 [OF assms(3,2)] assms(4) by (simp add: from_u32_eq)
  then show ?thesis
    using assms(1,2) unicode_loop_complete [OF assms(3), of 0 0 "i + 1" t] one
    by (simp add: parse_unicode_escape_def Let_def)
qed

text \<open>One step of the loop reads the text of one character, and no other reading exists.\<close>

lemma letters: "of_char (CHR ''n'') = (110 :: nat)" "of_char (CHR ''r'') = (114 :: nat)"
  "of_char (CHR ''t'') = (116 :: nat)" "of_char (CHR ''0'') = (48 :: nat)"
  "of_char (CHR ''x'') = (120 :: nat)" "of_char (CHR ''u'') = (117 :: nat)"
  by simp_all

lemma unescape_after_sound:
  assumes "unescape_after s j (char_indices i t) = Ok (ch, rest)"
  shows "\<exists>u t'. t = u @ t' \<and> names_char (92 # u) ch \<and> rest = char_indices (i + utf8_size u) t'"
proof (cases t)
  case Nil
  with assms show ?thesis by (simp add: unescape_after_def)
next
  case (Cons f t1)
  have small: "utf8_len c = 1" if "c < 128" for c using that by (simp add: utf8_len_def)
  consider "(f, ch) \<in> set escape_table" "rest = char_indices (i + 1) t1"
    | "f = 120" "parse_hex_escape (char_indices (i + 1) t1) j s = Ok (ch, rest)"
    | "f = 117" "parse_unicode_escape (char_indices (i + 1) t1) j s = Ok (ch, rest)"
    using assms unfolding Cons unescape_after_def letters
    by (auto simp: escape_table_def small split: if_splits)
  then show ?thesis
  proof cases
    case 1
    then have "utf8_len f = 1" "names_char [92, f] ch" by (auto simp: escape_table_def utf8_len_def intro: names_char.short)
    with 1 Cons show ?thesis by (intro exI [of _ "[f]"] exI [of _ t1]) auto
  next
    case 2
    then obtain v where "hex_loop 2 0 (char_indices (i + 1) t1) = Some (v, rest)" "ch = unat v"
      by (auto simp: parse_hex_escape_def split: option.splits)
    moreover from this(1) obtain a b t' where "t1 = a # b # t'" "hex_digit a" "hex_digit b" "v = digits_word 0 [a, b]"
        "rest = char_indices (i + 1 + utf8_len a + utf8_len b) t'" by (rule hex_loop_sound)
    ultimately show ?thesis
      using 2(1) Cons names_char.hexadecimal [of a b] unat_digits_word8 [of a b]
      by (intro exI [of _ "[120, a, b]"] exI [of _ t']) (auto simp: small add.assoc)
  next
    case 3
    then obtain ds t' where "t1 = 123 # ds @ 125 # t'" "names_char ([92, 117, 123] @ ds @ [125]) ch"
        "rest = char_indices (i + 1 + utf8_size ds + 2) t'" by (blast elim: parse_unicode_sound)
    with 3(1) Cons show ?thesis
      by (intro exI [of _ "[117, 123] @ ds @ [125]"] exI [of _ t']) (auto simp: small)
  qed
qed

lemma unescape_char_sound:
  assumes "unescape_char s (i, f) (char_indices (i + utf8_len f) t) = Ok (ch, rest)"
  shows "\<exists>u t'. f # t = u @ t' \<and> names_char u ch \<and> rest = char_indices (i + utf8_size u) t'"
proof (cases "f = 92")
  case False
  with assms names_char.itself [OF False] show ?thesis
    by (intro exI [of _ "[f]"] exI [of _ t]) (auto simp: unescape_char_def)
next
  case True
  with assms have "unescape_after s i (char_indices (i + utf8_len f) t) = Ok (ch, rest)"
    by (simp add: unescape_char_def)
  from unescape_after_sound [OF this] obtain u t' where "t = u @ t'" "names_char (92 # u) ch"
      "rest = char_indices (i + utf8_len f + utf8_size u) t'" by blast
  with True show ?thesis by (intro exI [of _ "92 # u"] exI [of _ t']) (simp add: add.assoc)
qed

lemma unescape_char_complete:
  assumes "names_char w ch"
  shows "\<exists>f u. w = f # u \<and> unescape_char s (i, f) (char_indices (i + utf8_len f) (u @ t)) = Ok (ch, char_indices (i + utf8_size w) t)"
  using assms
proof cases
  case itself
  then show ?thesis by (simp add: unescape_char_def)
next
  case (short f)
  then show ?thesis
    by (auto simp: unescape_char_def unescape_after_def letters escape_table_def utf8_len_def)
next
  case (hexadecimal a b)
  then show ?thesis
    by (simp add: unescape_char_def unescape_after_def letters utf8_len_def parse_hex_escape_def
      hex_loop_complete unat_digits_word8)
next
  case (unicode ds)
  let ?k = "i + utf8_len 92 + utf8_len 117"
  have "parse_unicode_escape (char_indices ?k (123 # ds @ 125 # t)) i s
      = Ok (digits_value ds, char_indices (?k + utf8_size ds + 2) t)"
    by (rule parse_unicode_complete) (use unicode in auto)
  moreover have "?k + utf8_size ds + 2 = i + utf8_size w" using unicode(1) by (simp add: utf8_len_def)
  ultimately have read: "parse_unicode_escape (char_indices ?k (123 # ds @ 125 # t)) i s
      = Ok (digits_value ds, char_indices (i + utf8_size w) t)" by (simp only:)
  have "unescape_char s (i, 92) (char_indices (i + utf8_len 92) (([117, 123] @ ds @ [125]) @ t))
      = parse_unicode_escape (char_indices ?k (123 # ds @ 125 # t)) i s"
    by (simp add: unescape_char_def unescape_after_def letters)
  with read unicode(1,2) show ?thesis by (intro exI [of _ 92] exI [of _ "[117, 123] @ ds @ [125]"]) simp
qed

section \<open>Whole strings\<close>

lemma names_char_unique:
  assumes "names_char u c" "names_char u' c'" "u @ t = u' @ t'"
  shows "u = u' \<and> c = c' \<and> t = t'"
proof -
  from unescape_char_complete [OF assms(1), of "[]" 0 t] obtain f v where
    u: "u = f # v" "unescape_char [] (0, f) (char_indices (utf8_len f) (v @ t)) = Ok (c, char_indices (utf8_size u) t)"
    by auto
  from unescape_char_complete [OF assms(2), of "[]" 0 t'] obtain f' v' where
    u': "u' = f' # v'" "unescape_char [] (0, f') (char_indices (utf8_len f') (v' @ t')) = Ok (c', char_indices (utf8_size u') t')"
    by auto
  from u(1) u'(1) assms(3) have same: "f = f'" "v @ t = v' @ t'" by simp_all
  with u(2) u'(2) have "c = c'" "char_indices (utf8_size u) t = char_indices (utf8_size u') t'" by simp_all
  then have "length t = length t'" by (metis char_indices_length)
  with \<open>c = c'\<close> assms(3) show ?thesis by simp
qed

lemma unescape_loop_Ok:
  assumes "unescape_loop s (char_indices i t) out = Ok r"
  shows "\<exists>written. r = out @ written \<and> reads t written"
  using assms
proof (induction "length t" arbitrary: t i out rule: less_induct)
  case less
  show ?case
  proof (cases t)
    case Nil
    with less.prems show ?thesis by (auto intro: reads_nil)
  next
    case (Cons f t1)
    with less.prems obtain ch rest where step: "unescape_char s (i, f) (char_indices (i + utf8_len f) t1) = Ok (ch, rest)"
        and loop: "unescape_loop s rest (out @ [ch]) = Ok r"
      by (auto simp: obind_eq_Ok)
    from unescape_char_sound [OF step] obtain u t' where u: "f # t1 = u @ t'" "names_char u ch"
        "rest = char_indices (i + utf8_size u) t'" by blast
    moreover from u(1,2) Cons have "length t' < length t" by (cases u) (auto elim: names_char.cases)
    ultimately obtain written where "r = (out @ [ch]) @ written" "reads t' written" using less.hyps loop by blast
    with u Cons show ?thesis by (intro exI [of _ "ch # written"]) (auto intro: reads_char)
  qed
qed

lemma unescape_loop_reads:
  assumes "reads t written"
  shows "unescape_loop s (char_indices i (t @ t')) out = unescape_loop s (char_indices (i + utf8_size t) t') (out @ written)"
  using assms
proof (induction arbitrary: i out rule: reads.induct)
  case reads_nil
  then show ?case by simp
next
  case (reads_char u c t written)
  from unescape_char_complete [OF reads_char.hyps(1)] obtain f v where "u = f # v"
      "unescape_char s (i, f) (char_indices (i + utf8_len f) (v @ t @ t')) = Ok (c, char_indices (i + utf8_size u) (t @ t'))"
    by blast
  with reads_char.IH [of "i + utf8_size u" "out @ [c]"] show ?case by (simp add: add.assoc)
qed

lemma unescape_inner_reads: "reads s out \<Longrightarrow> unescape_inner s = Ok out"
  using unescape_loop_reads [of s out s 0 "[]" "[]"] by (simp add: unescape_inner_def)

lemma unescape_after_fault:
  assumes "unescape_after s j (char_indices i t) = Err e"
  shows "e = fault_of t j s"
  using assms
  by (auto simp: unescape_after_def fault_of_def letters parse_hex_escape_def parse_unicode_escape_def Let_def
    split: if_splits list.splits option.splits prod.splits)

lemma unescape_char_no_overrun: "unescape_char s ic chars \<noteq> Overrun"
  by (auto simp: unescape_char_def unescape_after_def parse_hex_escape_def parse_unicode_escape_def Let_def
    split: list.splits option.splits prod.splits)

lemma unescape_loop_no_overrun: "unescape_loop s chars out \<noteq> Overrun"
  by (induction s chars out rule: unescape_loop.induct) (auto simp: obind_eq_Overrun unescape_char_no_overrun)

lemma unescape_loop_Err:
  assumes "unescape_loop s (char_indices i t) out = Err e"
  shows "\<exists>pre rest written. t = pre @ 92 # rest \<and> reads pre written \<and> e = fault_of rest (i + utf8_size pre) s
    \<and> (\<forall>u c t'. 92 # rest = u @ t' \<longrightarrow> \<not> names_char u c)"
  using assms
proof (induction "length t" arbitrary: t i out rule: less_induct)
  case less
  show ?case
  proof (cases t)
    case Nil
    with less.prems show ?thesis by simp
  next
    case (Cons f t1)
    let ?step = "unescape_char s (i, f) (char_indices (i + utf8_len f) t1)"
    from less.prems Cons consider "?step = Err e"
      | ch rest where "?step = Ok (ch, rest)" "unescape_loop s rest (out @ [ch]) = Err e"
      by (auto simp: obind_eq_Err)
    then show ?thesis
    proof cases
      case 1
      then have f: "f = 92" and e: "e = fault_of t1 i s"
        using unescape_after_fault by (auto simp: unescape_char_def split: if_splits)
      have "\<not> names_char u c" if "92 # t1 = u @ t'" for u c t'
      proof
        assume "names_char u c"
        from unescape_char_complete [OF this] obtain g v where "u = g # v"
            "unescape_char s (i, g) (char_indices (i + utf8_len g) (v @ t')) = Ok (c, char_indices (i + utf8_size u) t')"
          by blast
        with that 1 f show False by simp
      qed
      with f e Cons show ?thesis by (intro exI [of _ "[]"] exI [of _ t1] exI [of _ "[]"]) (auto intro: reads_nil)
    next
      case 2
      from unescape_char_sound [OF 2(1)] obtain u t' where u: "f # t1 = u @ t'" "names_char u ch"
          "rest = char_indices (i + utf8_size u) t'" by blast
      moreover from u(1,2) Cons have "length t' < length t" by (cases u) (auto elim: names_char.cases)
      ultimately obtain pre r written where "t' = pre @ 92 # r" "reads pre written" "e = fault_of r (i + utf8_size u + utf8_size pre) s"
          "\<forall>u c t'. 92 # r = u @ t' \<longrightarrow> \<not> names_char u c"
        using less.hyps 2(2) by blast
      with u Cons show ?thesis
        by (intro exI [of _ "u @ pre"] exI [of _ r] exI [of _ "ch # written"]) (auto intro: reads_char simp: add.assoc)
    qed
  qed
qed

lemma unescape_inner_Ok: "unescape_inner s = Ok out \<longleftrightarrow> reads s out"
  using unescape_loop_Ok [of s 0 s "[]" out] unescape_inner_reads by (auto simp: unescape_inner_def)

lemma unescape_inner_Err:
  assumes "unescape_inner s = Err e"
  shows "\<exists>pre rest written. s = pre @ 92 # rest \<and> reads pre written \<and> e = fault_of rest (utf8_size pre) s
    \<and> (\<forall>u c t'. 92 # rest = u @ t' \<longrightarrow> \<not> names_char u c)"
  using unescape_loop_Err [of s 0 s "[]" e] assms by (simp add: unescape_inner_def)

lemma unescape_inner_no_overrun: "unescape_inner s \<noteq> Overrun"
  by (simp add: unescape_inner_def unescape_loop_no_overrun)

text \<open>Text without a backslash is itself.\<close>

lemma reads_plain: "92 \<notin> set s \<Longrightarrow> reads s s"
proof (induction s)
  case Nil
  show ?case by (rule reads_nil)
next
  case (Cons c s)
  then show ?case using reads_char [OF names_char.itself, of c s s] by auto
qed

end
