(* ===== verification/Macro_Attrs.thy ===== *)
theory Macro_Attrs
  imports Macro_Text "HOL-Library.Multiset"
begin

text \<open>
  The attributes of an item, as the derive macros keep them (facet-macro-parse, src/parsed.rs).
  The grammar of facet-macro-types is data here: token trees, the inside of an attribute, the
  arguments of a facet attribute. Its parser and the printer of token streams are code of other
  crates (unsynn, proc-macro2); the printer is the component \<open>mt_show\<close> of \<open>macro_text\<close>, beside the
  character tables of the standard library. Spans are left out, and the message of a compile error
  is the constructor of \<open>compile_error\<close> with the text it quotes. A panic is \<open>None\<close>.
\<close>

section \<open>Tokens and attributes\<close>

datatype delimiter = Dl_Parenthesis | Dl_Brace | Dl_Bracket | Dl_None

datatype token =
  Tk_Ident rname
| Tk_Punct rchar
| Tk_Literal rname
| Tk_Group delimiter "token list"

type_synonym tokens = "token list"

record macro_text =
  mt_tables :: char_tables
  mt_show :: "tokens \<Rightarrow> rname"

datatype attr_args = Args_Parens tokens | Args_Equals tokens

datatype facet_inner =
  Fi_Namespaced rname rname "attr_args option"
| Fi_Where tokens
| Fi_Simple rname "attr_args option"

datatype attribute =
  At_Facet "facet_inner list"
| At_Doc rname
| At_Repr "rname list"
| At_Any tokens

datatype compile_error =
  Unsupported_Repr rname
| Unknown_Rename_Rule rname
| Unknown_Trait rname
| Missing_Where_Bounds

datatype parse_error = Rustc_Will_Catch string | Facet_Error compile_error

fun to_compile_error :: "parse_error \<Rightarrow> compile_error option" where
  "to_compile_error (Rustc_Will_Catch reason) = None"
| "to_compile_error (Facet_Error message) = Some message"

section \<open>Facet attributes\<close>

datatype attr_key = Key_Ident rname | Key_Where

record p_facet_attr =
  fa_ns :: "rname option"
  fa_key :: attr_key
  fa_args :: tokens

fun args_tokens :: "attr_args option \<Rightarrow> tokens" where
  "args_tokens (Some (Args_Parens ts)) = ts"
| "args_tokens (Some (Args_Equals ts)) = ts"
| "args_tokens None = []"

fun facet_attr_of :: "facet_inner \<Rightarrow> p_facet_attr" where
  "facet_attr_of (Fi_Namespaced ns key args) = \<lparr>fa_ns = Some ns, fa_key = Key_Ident key, fa_args = args_tokens args\<rparr>"
| "facet_attr_of (Fi_Where bounds) = \<lparr>fa_ns = None, fa_key = Key_Where, fa_args = bounds\<rparr>"
| "facet_attr_of (Fi_Simple key args) = \<lparr>fa_ns = None, fa_key = Key_Ident key, fa_args = args_tokens args\<rparr>"

definition facet_attr_parse :: "facet_inner list \<Rightarrow> p_facet_attr list \<Rightarrow> p_facet_attr list" where
  "facet_attr_parse inner dest = dest @ map facet_attr_of inner"

definition is_builtin :: "p_facet_attr \<Rightarrow> bool" where
  "is_builtin a \<longleftrightarrow> fa_ns a = None"

definition key_str :: "p_facet_attr \<Rightarrow> rname" where
  "key_str a = (case fa_key a of Key_Ident ident \<Rightarrow> ident | Key_Where \<Rightarrow> codes ''where'')"

fun key_is :: "attr_key \<Rightarrow> rname \<Rightarrow> bool" where
  "key_is (Key_Ident ident) s \<longleftrightarrow> ident = s"
| "key_is Key_Where s \<longleftrightarrow> s = codes ''where''"

lemma key_is_key_str: "key_is (fa_key a) s \<longleftrightarrow> key_str a = s"
  by (cases "fa_key a") (auto simp: key_str_def)

section \<open>Representations\<close>

datatype primitive_repr =
  Pm_U8 | Pm_U16 | Pm_U32 | Pm_U64 | Pm_U128 | Pm_I8 | Pm_I16 | Pm_I32 | Pm_I64 | Pm_I128 | Pm_Isize | Pm_Usize

definition primitives :: "(string \<times> primitive_repr) list" where
  "primitives =
     [(''u8'', Pm_U8), (''u16'', Pm_U16), (''u32'', Pm_U32), (''u64'', Pm_U64), (''u128'', Pm_U128),
      (''i8'', Pm_I8), (''i16'', Pm_I16), (''i32'', Pm_I32), (''i64'', Pm_I64), (''i128'', Pm_I128),
      (''usize'', Pm_Usize), (''isize'', Pm_Isize)]"

definition primitive_of :: "rname \<Rightarrow> primitive_repr option" where
  "primitive_of s = map_option snd (find (\<lambda>(name, p). codes name = s) primitives)"

definition type_name :: "primitive_repr \<Rightarrow> tokens" where
  "type_name p =
     (case p of
        Pm_U8 \<Rightarrow> [Tk_Ident (codes ''u8'')] | Pm_U16 \<Rightarrow> [Tk_Ident (codes ''u16'')]
      | Pm_U32 \<Rightarrow> [Tk_Ident (codes ''u32'')] | Pm_U64 \<Rightarrow> [Tk_Ident (codes ''u64'')]
      | Pm_U128 \<Rightarrow> [Tk_Ident (codes ''u128'')] | Pm_I8 \<Rightarrow> [Tk_Ident (codes ''i8'')]
      | Pm_I16 \<Rightarrow> [Tk_Ident (codes ''i16'')] | Pm_I32 \<Rightarrow> [Tk_Ident (codes ''i32'')]
      | Pm_I64 \<Rightarrow> [Tk_Ident (codes ''i64'')] | Pm_I128 \<Rightarrow> [Tk_Ident (codes ''i128'')]
      | Pm_Isize \<Rightarrow> [Tk_Ident (codes ''isize'')] | Pm_Usize \<Rightarrow> [Tk_Ident (codes ''usize'')])"

datatype p_repr =
  Pr_Transparent
| Pr_Rust "primitive_repr option"
| Pr_C "primitive_repr option"
| Pr_RustcWillCatch

datatype repr_kind = Rk_Rust | Rk_C

record repr_state =
  rs_kind :: "repr_kind option"
  rs_primitive :: "primitive_repr option"
  rs_transparent :: bool

definition set_kind :: "repr_kind \<Rightarrow> string \<Rightarrow> repr_state \<Rightarrow> (parse_error, repr_state) outcome" where
  "set_kind k conflict st =
     (if rs_kind st \<noteq> None \<and> rs_kind st \<noteq> Some k then Err (Rustc_Will_Catch conflict)
      else if rs_transparent st then Err (Rustc_Will_Catch ''E0692: transparent cannot have other repr hints'')
      else Ok (st\<lparr>rs_kind := Some k\<rparr>))"

definition repr_item :: "rname \<Rightarrow> repr_state \<Rightarrow> (parse_error, repr_state) outcome" where
  "repr_item s st =
     (if s = codes ''C'' \<or> s = codes ''c'' then set_kind Rk_C ''E0566: conflicting representation hints (C vs Rust)'' st
      else if s = codes ''Rust'' \<or> s = codes ''rust'' then set_kind Rk_Rust ''E0566: conflicting representation hints (Rust vs C)'' st
      else if s = codes ''transparent''
      then (if rs_kind st \<noteq> None \<or> rs_primitive st \<noteq> None then Err (Rustc_Will_Catch ''E0692: transparent cannot have other repr hints'')
            else Ok (st\<lparr>rs_transparent := True\<rparr>))
      else case primitive_of s of
        Some p \<Rightarrow>
          if rs_transparent st then Err (Rustc_Will_Catch ''E0692: transparent cannot have other repr hints'')
          else if rs_primitive st \<noteq> None then Err (Rustc_Will_Catch ''E0566: conflicting representation hints (multiple primitives)'')
          else Ok (st\<lparr>rs_primitive := Some p\<rparr>)
      | None \<Rightarrow> Err (Facet_Error (Unsupported_Repr s)))"

definition no_repr :: repr_state where
  "no_repr = \<lparr>rs_kind = None, rs_primitive = None, rs_transparent = False\<rparr>"

definition final_repr :: "repr_state \<Rightarrow> p_repr" where
  "final_repr st =
     (if rs_transparent st then Pr_Transparent
      else case (case rs_kind st of Some k \<Rightarrow> k | None \<Rightarrow> Rk_Rust) of
        Rk_Rust \<Rightarrow> Pr_Rust (rs_primitive st)
      | Rk_C \<Rightarrow> Pr_C (rs_primitive st))"

definition repr_parse :: "rname list \<Rightarrow> (parse_error, p_repr option) outcome" where
  "repr_parse items = obind (rfold repr_item items no_repr) (\<lambda>st. Ok (Some (final_repr st)))"

section \<open>Declared traits\<close>

record declared_traits =
  dt_display :: bool
  dt_debug :: bool
  dt_clone :: bool
  dt_copy :: bool
  dt_partial_eq :: bool
  dt_eq :: bool
  dt_partial_ord :: bool
  dt_ord :: bool
  dt_hash :: bool
  dt_default :: bool
  dt_from_str :: bool
  dt_send :: bool
  dt_sync :: bool
  dt_unpin :: bool

definition no_traits :: declared_traits where
  "no_traits =
     \<lparr>dt_display = False, dt_debug = False, dt_clone = False, dt_copy = False, dt_partial_eq = False, dt_eq = False,
      dt_partial_ord = False, dt_ord = False, dt_hash = False, dt_default = False, dt_from_str = False,
      dt_send = False, dt_sync = False, dt_unpin = False\<rparr>"

definition has_any :: "declared_traits \<Rightarrow> bool" where
  "has_any d \<longleftrightarrow> dt_display d \<or> dt_debug d \<or> dt_clone d \<or> dt_copy d \<or> dt_partial_eq d \<or> dt_eq d \<or> dt_partial_ord d
     \<or> dt_ord d \<or> dt_hash d \<or> dt_default d \<or> dt_from_str d \<or> dt_send d \<or> dt_sync d \<or> dt_unpin d"

definition declare_trait :: "rname \<Rightarrow> declared_traits \<Rightarrow> declared_traits option" where
  "declare_trait name d =
     (if name = codes ''Display'' then Some (d\<lparr>dt_display := True\<rparr>)
      else if name = codes ''Debug'' then Some (d\<lparr>dt_debug := True\<rparr>)
      else if name = codes ''Clone'' then Some (d\<lparr>dt_clone := True\<rparr>)
      else if name = codes ''Copy'' then Some (d\<lparr>dt_copy := True\<rparr>)
      else if name = codes ''PartialEq'' then Some (d\<lparr>dt_partial_eq := True\<rparr>)
      else if name = codes ''Eq'' then Some (d\<lparr>dt_eq := True\<rparr>)
      else if name = codes ''PartialOrd'' then Some (d\<lparr>dt_partial_ord := True\<rparr>)
      else if name = codes ''Ord'' then Some (d\<lparr>dt_ord := True\<rparr>)
      else if name = codes ''Hash'' then Some (d\<lparr>dt_hash := True\<rparr>)
      else if name = codes ''Default'' then Some (d\<lparr>dt_default := True\<rparr>)
      else if name = codes ''FromStr'' then Some (d\<lparr>dt_from_str := True\<rparr>)
      else if name = codes ''Send'' then Some (d\<lparr>dt_send := True\<rparr>)
      else if name = codes ''Sync'' then Some (d\<lparr>dt_sync := True\<rparr>)
      else if name = codes ''Unpin'' then Some (d\<lparr>dt_unpin := True\<rparr>)
      else None)"

fun traits_token :: "token \<Rightarrow> declared_traits \<times> compile_error list \<Rightarrow> declared_traits \<times> compile_error list" where
  "traits_token (Tk_Ident name) (d, errors) =
     (case declare_trait name d of Some d' \<Rightarrow> (d', errors) | None \<Rightarrow> (d, errors @ [Unknown_Trait name]))"
| "traits_token token_tree de = de"

definition traits_parse :: "tokens \<Rightarrow> compile_error list \<Rightarrow> declared_traits \<times> compile_error list" where
  "traits_parse ts errors = fold traits_token ts (no_traits, errors)"

section \<open>Attributes of an item\<close>

record p_attrs =
  pa_doc :: "rname list"
  pa_facet :: "p_facet_attr list"
  pa_repr :: p_repr
  pa_rename_all :: "rename_rule option"
  pa_rename :: "rname option"
  pa_crate_path :: "tokens option"
  pa_errors :: "compile_error list"
  pa_declared_traits :: "declared_traits option"
  pa_custom_bounds :: "tokens list"

text \<open>The text of a literal in an attribute the grammar did not recognise: \<open>Some None\<close> is a literal
  that is skipped.\<close>

definition raw_doc_content :: "rname \<Rightarrow> rname option option" where
  "raw_doc_content lit_str =
     (if text_starts_with (codes ''r#'') lit_str
      then (let hash_count = length (takeWhile (\<lambda>c. c = 35) (drop 1 lit_str));
                start = 2 + hash_count + 1
            in map_option Some (byte_slice start (utf8_size lit_str - 1 - hash_count) lit_str))
      else if text_starts_with (codes ''r'') lit_str
      then map_option Some (byte_slice 2 (utf8_size lit_str - 1) lit_str)
      else (case unescape_inner (trim_matches 34 lit_str) of
              Ok s \<Rightarrow> Some (Some s)
            | _ \<Rightarrow> Some None))"

record attrs_state =
  as_doc :: "rname list"
  as_facet :: "p_facet_attr list"
  as_repr :: "p_repr option"
  as_errors :: "compile_error list"

fun attr_step :: "attribute \<Rightarrow> attrs_state \<Rightarrow> attrs_state option" where
  "attr_step (At_Doc doc_attr) st =
     (case unescape_inner doc_attr of Ok s \<Rightarrow> Some (st\<lparr>as_doc := as_doc st @ [s]\<rparr>) | _ \<Rightarrow> None)"
| "attr_step (At_Repr repr_attr) st =
     (if as_repr st \<noteq> None then Some (st\<lparr>as_repr := Some Pr_RustcWillCatch\<rparr>)
      else case repr_parse repr_attr of
        Ok (Some parsed) \<Rightarrow> Some (st\<lparr>as_repr := Some parsed\<rparr>)
      | Ok None \<Rightarrow> Some st
      | Err (Rustc_Will_Catch reason) \<Rightarrow> Some (st\<lparr>as_repr := Some Pr_RustcWillCatch\<rparr>)
      | Err (Facet_Error message) \<Rightarrow> Some (st\<lparr>as_errors := as_errors st @ [message]\<rparr>)
      | Overrun \<Rightarrow> None)"
| "attr_step (At_Facet facet_attr) st = Some (st\<lparr>as_facet := facet_attr_parse facet_attr (as_facet st)\<rparr>)"
| "attr_step (At_Any [Tk_Ident ident, second, Tk_Literal lit]) st =
     (if ident = codes ''doc''
      then (case raw_doc_content lit of
              None \<Rightarrow> None
            | Some None \<Rightarrow> Some st
            | Some (Some content) \<Rightarrow> Some (st\<lparr>as_doc := as_doc st @ [content]\<rparr>))
      else Some st)"
| "attr_step (At_Any other) st = Some st"

text \<open>The text of the arguments of an attribute, without the quotes.\<close>

definition args_text :: "macro_text \<Rightarrow> tokens \<Rightarrow> rname" where
  "args_text M ts = trim_matches 34 (trim (mt_tables M) (mt_show M ts))"

definition rule_parse_codes :: "rname \<Rightarrow> rename_rule option" where
  "rule_parse_codes s = (if \<forall>c \<in> set s. c < 128 then rule_parse (map char_of s) else None)"

definition facet_step :: "macro_text \<Rightarrow> p_facet_attr \<Rightarrow> p_attrs \<Rightarrow> p_attrs" where
  "facet_step M a p =
     (if \<not> is_builtin a then p
      else if key_str a = codes ''rename'' then p\<lparr>pa_rename := Some (args_text M (fa_args a))\<rparr>
      else if key_str a = codes ''rename_all''
      then (let rule_str = args_text M (fa_args a) in
            case rule_parse_codes rule_str of
              Some rule \<Rightarrow> p\<lparr>pa_rename_all := Some rule\<rparr>
            | None \<Rightarrow> p\<lparr>pa_errors := pa_errors p @ [Unknown_Rename_Rule rule_str]\<rparr>)
      else if key_str a = codes ''crate'' then p\<lparr>pa_crate_path := Some (fa_args a)\<rparr>
      else if key_str a = codes ''traits''
      then (let (d, errors) = traits_parse (fa_args a) (pa_errors p)
            in p\<lparr>pa_declared_traits := Some d, pa_errors := errors\<rparr>)
      else if key_str a = codes ''where''
      then (if fa_args a \<noteq> [] then p\<lparr>pa_custom_bounds := pa_custom_bounds p @ [fa_args a]\<rparr>
            else p\<lparr>pa_errors := pa_errors p @ [Missing_Where_Bounds]\<rparr>)
      else p)"

definition attrs_loop :: "attribute list \<Rightarrow> attrs_state option" where
  "attrs_loop attrs = ofold attr_step attrs \<lparr>as_doc = [], as_facet = [], as_repr = None, as_errors = []\<rparr>"

definition attrs_parse :: "macro_text \<Rightarrow> attribute list \<Rightarrow> p_attrs option" where
  "attrs_parse M attrs =
     (case attrs_loop attrs of
        None \<Rightarrow> None
      | Some st \<Rightarrow> Some (fold (facet_step M) (as_facet st)
          \<lparr>pa_doc = as_doc st, pa_facet = as_facet st,
           pa_repr = (case as_repr st of Some r \<Rightarrow> r | None \<Rightarrow> Pr_Rust None),
           pa_rename_all = None, pa_rename = None, pa_crate_path = None, pa_errors = as_errors st,
           pa_declared_traits = None, pa_custom_bounds = []\<rparr>))"

definition has_builtin :: "p_attrs \<Rightarrow> rname \<Rightarrow> bool" where
  "has_builtin p key \<longleftrightarrow> (\<exists>a \<in> set (pa_facet p). is_builtin a \<and> key_str a = key)"

definition is_repr_transparent :: "p_attrs \<Rightarrow> bool" where
  "is_repr_transparent p \<longleftrightarrow> pa_repr p = Pr_Transparent"

definition get_builtin_args :: "macro_text \<Rightarrow> p_attrs \<Rightarrow> rname \<Rightarrow> rname option" where
  "get_builtin_args M p key =
     map_option (\<lambda>a. args_text M (fa_args a)) (find (\<lambda>a. is_builtin a \<and> key_str a = key) (pa_facet p))"

definition facet_crate :: "p_attrs \<Rightarrow> tokens" where
  "facet_crate p =
     (case pa_crate_path p of Some path \<Rightarrow> path
      | None \<Rightarrow> [Tk_Punct 58, Tk_Punct 58, Tk_Ident (codes ''facet'')])"

definition has_any_namespaced :: "p_attrs \<Rightarrow> bool" where
  "has_any_namespaced p \<longleftrightarrow> (\<exists>a \<in> set (pa_facet p). fa_ns a \<noteq> None)"


section \<open>What a list of representation hints means\<close>

datatype hint = Hint_Kind repr_kind | Hint_Transparent | Hint_Primitive primitive_repr

definition hint_of :: "rname \<Rightarrow> hint option" where
  "hint_of s =
     (if s \<in> {codes ''C'', codes ''c''} then Some (Hint_Kind Rk_C)
      else if s \<in> {codes ''Rust'', codes ''rust''} then Some (Hint_Kind Rk_Rust)
      else if s = codes ''transparent'' then Some Hint_Transparent
      else map_option Hint_Primitive (primitive_of s))"

fun hint_primitives :: "hint list \<Rightarrow> primitive_repr list" where
  "hint_primitives [] = []"
| "hint_primitives (Hint_Primitive p # hs) = p # hint_primitives hs"
| "hint_primitives (h # hs) = hint_primitives hs"

definition hints_agree :: "hint list \<Rightarrow> bool" where
  "hints_agree hs \<longleftrightarrow>
     (Hint_Transparent \<in> set hs \<longrightarrow> set hs = {Hint_Transparent})
     \<and> \<not> (Hint_Kind Rk_C \<in> set hs \<and> Hint_Kind Rk_Rust \<in> set hs)
     \<and> length (hint_primitives hs) \<le> 1"

definition repr_meant :: "hint list \<Rightarrow> p_repr" where
  "repr_meant hs =
     (let p = (case hint_primitives hs of [] \<Rightarrow> None | p # _ \<Rightarrow> Some p)
      in if Hint_Transparent \<in> set hs then Pr_Transparent
         else if Hint_Kind Rk_C \<in> set hs then Pr_C p else Pr_Rust p)"

fun add_hint :: "hint \<Rightarrow> repr_state \<Rightarrow> repr_state option" where
  "add_hint (Hint_Kind k) st =
     (if rs_kind st \<in> {None, Some k} \<and> \<not> rs_transparent st then Some (st\<lparr>rs_kind := Some k\<rparr>) else None)"
| "add_hint Hint_Transparent st =
     (if rs_kind st = None \<and> rs_primitive st = None then Some (st\<lparr>rs_transparent := True\<rparr>) else None)"
| "add_hint (Hint_Primitive p) st =
     (if rs_primitive st = None \<and> \<not> rs_transparent st then Some (st\<lparr>rs_primitive := Some p\<rparr>) else None)"

lemma hint_primitives_in: "p \<in> set (hint_primitives hs) \<longleftrightarrow> Hint_Primitive p \<in> set hs"
  by (induction hs rule: hint_primitives.induct) auto

lemma hint_primitives_append [simp]: "hint_primitives (hs @ hs') = hint_primitives hs @ hint_primitives hs'"
  by (induction hs rule: hint_primitives.induct) auto

lemma repr_item_hint:
  "repr_item s st = Ok st' \<longleftrightarrow> (\<exists>h. hint_of s = Some h \<and> add_hint h st = Some st')"
  by (auto simp: repr_item_def set_kind_def hint_of_def split: option.splits if_splits)

lemma repr_item_unsupported:
  "repr_item s st = Err (Facet_Error m) \<longleftrightarrow> hint_of s = None \<and> m = Unsupported_Repr s"
  by (auto simp: repr_item_def set_kind_def hint_of_def split: option.splits if_splits)

lemma repr_item_no_overrun: "repr_item s st \<noteq> Overrun"
  by (auto simp: repr_item_def set_kind_def split: option.splits)

text \<open>The state of the loop is what the hints read so far say.\<close>

definition hints_state :: "hint list \<Rightarrow> repr_state" where
  "hints_state hs =
     \<lparr>rs_kind = (if Hint_Kind Rk_C \<in> set hs then Some Rk_C
                 else if Hint_Kind Rk_Rust \<in> set hs then Some Rk_Rust else None),
      rs_primitive = (case hint_primitives hs of [] \<Rightarrow> None | p # _ \<Rightarrow> Some p),
      rs_transparent = (Hint_Transparent \<in> set hs)\<rparr>"

lemma no_hints: "set hs \<subseteq> {Hint_Transparent} \<Longrightarrow> hint_primitives hs = []"
  by (metis (no_types) hint_primitives_in hint.distinct(5) last_in_set singletonD subsetD)

lemma transparent_only:
  "set hs \<subseteq> {Hint_Transparent} \<longleftrightarrow>
     Hint_Kind Rk_C \<notin> set hs \<and> Hint_Kind Rk_Rust \<notin> set hs \<and> hint_primitives hs = []" (is "?L \<longleftrightarrow> ?R")
proof
  assume ?L
  with no_hints show ?R by blast
next
  assume R: ?R
  show ?L
  proof
    fix h assume h: "h \<in> set hs"
    show "h \<in> {Hint_Transparent}"
    proof (cases h)
      case (Hint_Kind k)
      with R h show ?thesis by (cases k) auto
    next
      case (Hint_Primitive p)
      with h R show ?thesis using hint_primitives_in [of p hs] by simp
    qed simp
  qed
qed

lemma add_hint_state:
  assumes "hints_agree hs"
  shows "add_hint h (hints_state hs) = Some st \<longleftrightarrow> hints_agree (hs @ [h]) \<and> st = hints_state (hs @ [h])"
proof (cases h)
  case Hint_Transparent
  have "set hs \<subseteq> {Hint_Transparent} \<longleftrightarrow> rs_kind (hints_state hs) = None \<and> rs_primitive (hints_state hs) = None"
    unfolding transparent_only by (auto simp: hints_state_def split: list.splits)
  moreover have "hints_agree (hs @ [h]) \<longleftrightarrow> set hs \<subseteq> {Hint_Transparent}"
    using Hint_Transparent transparent_only [of "hs @ [h]"] transparent_only [of hs] by (auto simp: hints_agree_def)
  moreover have "(hints_state hs)\<lparr>rs_transparent := True\<rparr> = hints_state (hs @ [h])"
    using Hint_Transparent by (simp add: hints_state_def)
  ultimately show ?thesis using Hint_Transparent by auto
next
  case (Hint_Kind k)
  with assms show ?thesis
    by (cases k) (auto simp: hints_state_def hints_agree_def split: list.splits)
next
  case (Hint_Primitive p)
  with assms show ?thesis
    by (auto simp: hints_state_def hints_agree_def split: list.splits)
qed

lemma rfold_snoc: "rfold f (xs @ [x]) s = obind (rfold f xs s) (f x)"
proof (induction xs arbitrary: s)
  case Nil
  then show ?case by (cases "f x s") auto
next
  case (Cons y xs)
  then show ?case by (cases "f y s") auto
qed

lemma rfold_snoc_err: "rfold f (xs @ [x]) s = Err e \<longleftrightarrow> rfold f xs s = Err e \<or> (\<exists>t. rfold f xs s = Ok t \<and> f x t = Err e)"
  by (auto simp: rfold_snoc obind_eq_Err)

lemma repr_loop_state:
  "rfold repr_item items no_repr = Ok st \<longleftrightarrow>
     (\<exists>hs. map hint_of items = map Some hs \<and> hints_agree hs \<and> st = hints_state hs)"
proof (induction items arbitrary: st rule: rev_induct)
  case Nil
  then show ?case by (auto simp: no_repr_def hints_state_def hints_agree_def)
next
  case (snoc s items)
  have "rfold repr_item (items @ [s]) no_repr = Ok st \<longleftrightarrow>
      (\<exists>hs h. map hint_of items = map Some hs \<and> hints_agree hs \<and> hint_of s = Some h \<and> add_hint h (hints_state hs) = Some st)"
    unfolding rfold_snoc obind_eq_Ok snoc.IH repr_item_hint by blast
  also have "\<dots> \<longleftrightarrow> (\<exists>hs h. map hint_of items = map Some hs \<and> hint_of s = Some h \<and> hints_agree hs
      \<and> hints_agree (hs @ [h]) \<and> st = hints_state (hs @ [h]))"
    using add_hint_state by blast
  also have "\<dots> \<longleftrightarrow> (\<exists>hs. map hint_of (items @ [s]) = map Some hs \<and> hints_agree hs \<and> st = hints_state hs)" (is "?L \<longleftrightarrow> ?R")
  proof
    assume ?L
    then obtain hs h where "map hint_of items = map Some hs" "hint_of s = Some h" "hints_agree (hs @ [h])"
        "st = hints_state (hs @ [h])" by blast
    then show ?R by (intro exI [of _ "hs @ [h]"]) simp
  next
    assume ?R
    then obtain ks where ks: "map hint_of (items @ [s]) = map Some ks" "hints_agree ks" "st = hints_state ks" by blast
    then obtain hs h where h: "ks = hs @ [h]" by (cases ks rule: rev_cases) auto
    have "hints_agree hs" using ks(2) transparent_only [of "hs @ [h]"] transparent_only [of hs]
      unfolding h hints_agree_def by (auto simp: subset_singleton_iff)
    with ks h show ?L by auto
  qed
  finally show ?case .
qed


lemma final_repr_meant: "final_repr (hints_state hs) = repr_meant hs"
  by (simp add: final_repr_def hints_state_def repr_meant_def Let_def)

lemma repr_parse_Ok:
  "repr_parse items = Ok r \<longleftrightarrow>
     (\<exists>hs. map hint_of items = map Some hs \<and> hints_agree hs \<and> r = Some (repr_meant hs))"
  unfolding repr_parse_def obind_eq_Ok repr_loop_state by (auto simp: final_repr_meant)

lemma repr_parse_no_overrun: "repr_parse items \<noteq> Overrun"
  by (simp add: repr_parse_def obind_eq_Overrun rfold_no_overrun repr_item_no_overrun)

text \<open>An unsupported hint is reported when the hints before it agree; a conflict found first is left to
  rustc.\<close>

lemma repr_loop_unsupported:
  "rfold repr_item items no_repr = Err (Facet_Error m) \<longleftrightarrow>
     (\<exists>pre s post hs. items = pre @ s # post \<and> map hint_of pre = map Some hs \<and> hints_agree hs
        \<and> hint_of s = None \<and> m = Unsupported_Repr s)"
proof (induction items rule: rev_induct)
  case Nil
  then show ?case by (simp add: no_repr_def)
next
  case (snoc x items)
  have "rfold repr_item (items @ [x]) no_repr = Err (Facet_Error m) \<longleftrightarrow>
      (\<exists>pre s post hs. items = pre @ s # post \<and> map hint_of pre = map Some hs \<and> hints_agree hs
         \<and> hint_of s = None \<and> m = Unsupported_Repr s)
      \<or> (\<exists>hs. map hint_of items = map Some hs \<and> hints_agree hs \<and> hint_of x = None \<and> m = Unsupported_Repr x)"
    unfolding rfold_snoc_err snoc.IH repr_loop_state repr_item_unsupported by blast
  also have "\<dots> \<longleftrightarrow> (\<exists>pre s post hs. items @ [x] = pre @ s # post \<and> map hint_of pre = map Some hs \<and> hints_agree hs
      \<and> hint_of s = None \<and> m = Unsupported_Repr s)" (is "?L \<longleftrightarrow> ?R")
  proof
    assume ?L
    then show ?R
    proof (elim disjE exE conjE)
      fix pre s post hs
      assume "items = pre @ s # post" "map hint_of pre = map Some hs" "hints_agree hs" "hint_of s = None" "m = Unsupported_Repr s"
      then show ?R by (intro exI [of _ pre] exI [of _ s] exI [of _ "post @ [x]"] exI [of _ hs]) simp
    next
      fix hs
      assume "map hint_of items = map Some hs" "hints_agree hs" "hint_of x = None" "m = Unsupported_Repr x"
      then show ?R by (intro exI [of _ items] exI [of _ x] exI [of _ "[]"] exI [of _ hs]) simp
    qed
  next
    assume ?R
    then obtain pre s post hs where *: "items @ [x] = pre @ s # post" "map hint_of pre = map Some hs" "hints_agree hs"
        "hint_of s = None" "m = Unsupported_Repr s" by blast
    then show ?L by (cases post rule: rev_cases) auto
  qed
  finally show ?case .
qed

lemma repr_parse_unsupported:
  "repr_parse items = Err (Facet_Error m) \<longleftrightarrow>
     (\<exists>pre s post hs. items = pre @ s # post \<and> map hint_of pre = map Some hs \<and> hints_agree hs
        \<and> hint_of s = None \<and> m = Unsupported_Repr s)"
  unfolding repr_parse_def obind_eq_Err repr_loop_unsupported by simp

text \<open>The order of the hints does not matter.\<close>

lemma mset_eq_perm_hints:
  assumes "mset items = mset items'" and "map hint_of items = map Some hs"
  shows "\<exists>hs'. map hint_of items' = map Some hs' \<and> mset hs' = mset hs"
proof -
  have "None \<notin> set (map hint_of items)" using assms(2) by auto
  then have "None \<notin> set (map hint_of items')" using assms(1) by (metis mset_map set_mset_mset)
  then have "hint_of x = Some (the (hint_of x))" if "x \<in> set items'" for x
    using that by (metis image_eqI list.set_map option.collapse)
  then have "map hint_of items' = map Some (map (the \<circ> hint_of) items')" by simp
  moreover have "mset (map (the \<circ> hint_of) items') = mset (map (the \<circ> hint_of) items)" using assms(1) by simp
  moreover have "map (the \<circ> hint_of) items = hs"
    using arg_cong [OF assms(2), of "map the"] by (simp add: o_def)
  ultimately show ?thesis by metis
qed

lemma hint_primitives_mset: "mset hs = mset hs' \<Longrightarrow> mset (hint_primitives hs) = mset (hint_primitives hs')"
proof -
  have filtered: "mset (hint_primitives hs) = image_mset (\<lambda>h. case h of Hint_Primitive p \<Rightarrow> p)
      (filter_mset (\<lambda>h. \<exists>p. h = Hint_Primitive p) (mset hs))" for hs
    by (induction hs rule: hint_primitives.induct) auto
  show "mset hs = mset hs' \<Longrightarrow> mset (hint_primitives hs) = mset (hint_primitives hs')"
    unfolding filtered by simp
qed

lemma repr_meant_perm:
  assumes "mset hs = mset hs'" and "hints_agree hs"
  shows "hints_agree hs' \<and> repr_meant hs' = repr_meant hs"
proof -
  have same: "set hs = set hs'" using assms(1) by (metis set_mset_mset)
  have p: "mset (hint_primitives hs) = mset (hint_primitives hs')" by (rule hint_primitives_mset [OF assms(1)])
  then have len: "length (hint_primitives hs') = length (hint_primitives hs)" by (metis size_mset)
  moreover have "length (hint_primitives hs) \<le> 1" using assms(2) by (simp add: hints_agree_def)
  ultimately have "hint_primitives hs' = hint_primitives hs"
    using p by (cases "hint_primitives hs"; cases "hint_primitives hs'") auto
  with assms(2) show ?thesis unfolding hints_agree_def repr_meant_def same by simp
qed

lemma repr_parse_perm:
  assumes "mset items = mset items'" and "repr_parse items = Ok r"
  shows "repr_parse items' = Ok r"
  using assms(2) mset_eq_perm_hints [OF assms(1)] repr_meant_perm unfolding repr_parse_Ok by metis

section \<open>Two literals of a documentation attribute\<close>

text \<open>A raw literal without hashes is read as it is. One with hashes loses the character after its
  opening quote: the slice starts one byte too far. It aborts when that character is longer than a
  byte, or when there is none.\<close>

definition raw_literal :: "nat \<Rightarrow> rname \<Rightarrow> rname" where
  "raw_literal h body = codes ''r'' @ replicate h 35 @ [34] @ body @ [34] @ replicate h 35"

lemma utf8_size_replicate [simp]: "utf8_size (replicate h 35) = h"
  by (induction h) (simp_all add: utf8_len_def)

lemma codes_r: "codes ''r'' = [114]" "codes ''r#'' = [114, 35]"
  by (simp_all add: codes_def)

lemma small_len [simp]: "utf8_len 114 = 1" "utf8_len 35 = 1" "utf8_len 34 = 1"
  by (simp_all add: utf8_len_def)

lemma raw_doc_plain: "raw_doc_content (raw_literal 0 body) = Some (Some body)"
proof -
  have "byte_slice 2 (2 + utf8_size body) ([114, 34] @ body @ [34]) = Some body"
    using byte_slice_middle [of "[114, 34]" body "[34]"] by (simp add: numeral_2_eq_2)
  then show ?thesis by (simp add: raw_doc_content_def raw_literal_def codes_r text_starts_with_def numeral_2_eq_2)
qed

lemma raw_literal_hashes:
  assumes "0 < h"
  shows "raw_doc_content (raw_literal h body)
    = map_option Some (byte_slice (3 + h) (2 + h + utf8_size body) (raw_literal h body))"
proof -
  obtain k where h: "h = Suc k" using assms by (cases h) auto
  have "takeWhile (\<lambda>c. c = 35) (replicate h 35 @ 34 # rest) = replicate h 35" for rest :: rname
    by (induction h) auto
  then have hashes: "length (takeWhile (\<lambda>c. c = 35) (drop 1 (raw_literal h body))) = h"
    by (simp add: raw_literal_def codes_r)
  have "utf8_size (raw_literal h body) - 1 - h = 2 + h + utf8_size body"
    by (simp add: raw_literal_def codes_r)
  moreover have "text_starts_with (codes ''r#'') (raw_literal h body)"
    by (simp add: raw_literal_def codes_r text_starts_with_def h)
  ultimately show ?thesis using hashes by (simp add: raw_doc_content_def Let_def numeral_3_eq_3)
qed

lemma raw_doc_drops_first:
  assumes "0 < h"
  shows "utf8_len c = 1 \<Longrightarrow> raw_doc_content (raw_literal h (c # body)) = Some (Some body)"
    and "utf8_len c \<noteq> 1 \<Longrightarrow> raw_doc_content (raw_literal h (c # body)) = None"
    and "raw_doc_content (raw_literal h []) = None"
proof -
  let ?pre = "codes ''r'' @ replicate h 35 @ [34]"
  have size: "utf8_size ?pre = 2 + h" by (simp add: codes_r)
  have whole: "raw_literal h (c # body) = (?pre @ [c]) @ body @ [34] @ replicate h 35" for c body
    by (simp add: raw_literal_def)
  show "raw_doc_content (raw_literal h (c # body)) = Some (Some body)" if c: "utf8_len c = 1"
  proof -
    have "byte_slice (3 + h) (3 + h + utf8_size body) (raw_literal h (c # body)) = Some body"
      using byte_slice_middle [of "?pre @ [c]" body "[34] @ replicate h 35"] size c unfolding whole by (simp add: numeral_3_eq_3)
    with c show ?thesis by (simp add: raw_literal_hashes [OF assms] numeral_3_eq_3)
  qed
  show "raw_doc_content (raw_literal h (c # body)) = None" if c: "utf8_len c \<noteq> 1"
  proof -
    have split_char: "drop_bytes (utf8_size p + 1) (p @ c # t) = None" for p t
    proof (induction p)
      case Nil
      have "1 < utf8_len c" using c by (auto simp: utf8_len_def split: if_splits)
      then show ?case by (subst drop_bytes.simps) simp
    next
      case (Cons d p)
      have "0 < utf8_len d" by (simp add: utf8_len_def)
      with Cons show ?case by (subst drop_bytes.simps) simp
    qed
    have "drop_bytes (3 + h) (raw_literal h (c # body)) = None"
      using split_char [of ?pre "body @ [34] @ replicate h 35"] size by (simp add: raw_literal_def numeral_3_eq_3)
    then show ?thesis by (simp add: raw_literal_hashes [OF assms] byte_slice_def)
  qed
  show "raw_doc_content (raw_literal h []) = None"
    by (simp add: raw_literal_hashes [OF assms] byte_slice_def)
qed


section \<open>What the attributes of an item say\<close>

definition first_opt :: "'a list \<Rightarrow> 'a option" where
  "first_opt xs = (case xs of [] \<Rightarrow> None | x # _ \<Rightarrow> Some x)"

definition last_opt :: "'a list \<Rightarrow> 'a option" where
  "last_opt xs = (if xs = [] then None else Some (last xs))"

lemma opt_simps [simp]:
  "first_opt [] = None" "first_opt (x # xs) = Some x" "last_opt [] = None" "last_opt (xs @ [x]) = Some x"
  by (simp_all add: first_opt_def last_opt_def)

lemma last_opt_append: "last_opt (xs @ ys) = (if ys = [] then last_opt xs else last_opt ys)"
  by (simp add: last_opt_def)

fun inner_attrs :: "attribute \<Rightarrow> p_facet_attr list" where
  "inner_attrs (At_Facet inner) = map facet_attr_of inner"
| "inner_attrs other = []"

fun doc_line :: "attribute \<Rightarrow> rname list" where
  "doc_line (At_Doc text) = (case unescape_inner text of Ok s \<Rightarrow> [s] | _ \<Rightarrow> [])"
| "doc_line (At_Any [Tk_Ident ident, second, Tk_Literal lit]) =
     (if ident = codes ''doc'' then (case raw_doc_content lit of Some (Some s) \<Rightarrow> [s] | _ \<Rightarrow> []) else [])"
| "doc_line other = []"

text \<open>The arguments of the builtin attributes with a key.\<close>

definition builtin_args :: "rname \<Rightarrow> p_facet_attr list \<Rightarrow> tokens list" where
  "builtin_args key fs = map fa_args (filter (\<lambda>a. is_builtin a \<and> key_str a = key) fs)"

lemma builtin_args_simps [simp]:
  "builtin_args key [] = []" "builtin_args key (fs @ gs) = builtin_args key fs @ builtin_args key gs"
  by (simp_all add: builtin_args_def)

lemma builtin_args_Cons:
  "builtin_args key (a # fs) = (if is_builtin a \<and> key_str a = key then fa_args a # builtin_args key fs else builtin_args key fs)"
  by (simp add: builtin_args_def)

lemma get_builtin_args_first:
  "get_builtin_args M p key = map_option (args_text M) (first_opt (builtin_args key (pa_facet p)))"
proof -
  have "find P fs = first_opt (filter P fs)" for P and fs :: "p_facet_attr list"
    by (induction fs) auto
  then show ?thesis
    by (cases "filter (\<lambda>a. is_builtin a \<and> key_str a = key) (pa_facet p)")
      (simp_all add: get_builtin_args_def builtin_args_def)
qed

lemma has_builtin_args: "has_builtin p key \<longleftrightarrow> builtin_args key (pa_facet p) \<noteq> []"
  by (auto simp: has_builtin_def builtin_args_def filter_empty_conv)

lemma attr_step_keeps:
  assumes "attr_step a st = Some st'"
  shows "as_facet st' = as_facet st @ inner_attrs a \<and> as_doc st' = as_doc st @ doc_line a"
  using assms
  by (cases "(a, st)" rule: attr_step.cases)
    (auto simp: facet_attr_parse_def split: outcome.splits option.splits parse_error.splits if_splits)

lemma attrs_loop_keeps:
  assumes "ofold attr_step attrs st = Some st'"
  shows "as_facet st' = as_facet st @ concat (map inner_attrs attrs) \<and> as_doc st' = as_doc st @ concat (map doc_line attrs)"
  using assms
proof (induction attrs arbitrary: st)
  case Nil
  then show ?case by simp
next
  case (Cons a attrs)
  then obtain st1 where "attr_step a st = Some st1" "ofold attr_step attrs st1 = Some st'" by (auto split: option.splits)
  with Cons.IH [of st1] attr_step_keeps [of a st st1] show ?case by simp
qed

lemma codes_distinct [simp]: "codes s = codes t \<longleftrightarrow> s = t"
  by (simp add: codes_def inj_map_eq_map inj_of_char)

text \<open>One facet attribute after the other: the last one of a key decides.\<close>

definition rules_given :: "macro_text \<Rightarrow> p_facet_attr list \<Rightarrow> rename_rule list" where
  "rules_given M fs = List.map_filter (\<lambda>ts. rule_parse_codes (args_text M ts)) (builtin_args (codes ''rename_all'') fs)"

lemma rules_given_simps:
  "rules_given M [] = []"
  "rules_given M (fs @ [a]) = rules_given M fs
     @ (if is_builtin a \<and> key_str a = codes ''rename_all''
        then (case rule_parse_codes (args_text M (fa_args a)) of Some r \<Rightarrow> [r] | None \<Rightarrow> []) else [])"
  by (auto simp: rules_given_def builtin_args_Cons List.map_filter_def split: option.splits)

lemma facet_fold_keeps:
  "pa_doc (fold (facet_step M) fs p) = pa_doc p" "pa_facet (fold (facet_step M) fs p) = pa_facet p"
  "pa_repr (fold (facet_step M) fs p) = pa_repr p"
proof -
  have step: "pa_doc (facet_step M a p) = pa_doc p" "pa_facet (facet_step M a p) = pa_facet p"
      "pa_repr (facet_step M a p) = pa_repr p" for a p
    by (auto simp: facet_step_def Let_def split: option.splits prod.splits)
  show "pa_doc (fold (facet_step M) fs p) = pa_doc p" "pa_facet (fold (facet_step M) fs p) = pa_facet p"
    "pa_repr (fold (facet_step M) fs p) = pa_repr p"
    by (induction fs arbitrary: p) (simp_all add: step)
qed

lemma facet_fold_rename:
  "pa_rename (fold (facet_step M) fs p) =
     (case last_opt (builtin_args (codes ''rename'') fs) of Some ts \<Rightarrow> Some (args_text M ts) | None \<Rightarrow> pa_rename p)"
proof (induction fs rule: rev_induct)
  case Nil
  then show ?case by simp
next
  case (snoc a fs)
  have "pa_rename (facet_step M a q)
      = (if is_builtin a \<and> key_str a = codes ''rename'' then Some (args_text M (fa_args a)) else pa_rename q)" for q
    by (auto simp: facet_step_def Let_def split: option.splits prod.splits)
  with snoc show ?case by (simp add: builtin_args_Cons)
qed

lemma facet_fold_rename_all:
  "pa_rename_all (fold (facet_step M) fs p) =
     (case last_opt (rules_given M fs) of Some r \<Rightarrow> Some r | None \<Rightarrow> pa_rename_all p)"
proof (induction fs rule: rev_induct)
  case Nil
  then show ?case by (simp add: rules_given_simps)
next
  case (snoc a fs)
  have "pa_rename_all (facet_step M a q) =
      (if is_builtin a \<and> key_str a = codes ''rename_all''
       then (case rule_parse_codes (args_text M (fa_args a)) of Some r \<Rightarrow> Some r | None \<Rightarrow> pa_rename_all q)
       else pa_rename_all q)" for q
    by (auto simp: facet_step_def Let_def split: option.splits prod.splits)
  with snoc show ?case by (auto simp: rules_given_simps split: option.splits)
qed

lemma facet_fold_crate:
  "pa_crate_path (fold (facet_step M) fs p) =
     (case last_opt (builtin_args (codes ''crate'') fs) of Some ts \<Rightarrow> Some ts | None \<Rightarrow> pa_crate_path p)"
proof (induction fs rule: rev_induct)
  case Nil
  then show ?case by simp
next
  case (snoc a fs)
  have "pa_crate_path (facet_step M a q)
      = (if is_builtin a \<and> key_str a = codes ''crate'' then Some (fa_args a) else pa_crate_path q)" for q
    by (auto simp: facet_step_def Let_def split: option.splits prod.splits)
  with snoc show ?case by (simp add: builtin_args_Cons)
qed

lemma facet_fold_bounds:
  "pa_custom_bounds (fold (facet_step M) fs p) =
     pa_custom_bounds p @ filter (\<lambda>ts. ts \<noteq> []) (builtin_args (codes ''where'') fs)"
proof (induction fs rule: rev_induct)
  case Nil
  then show ?case by simp
next
  case (snoc a fs)
  have "pa_custom_bounds (facet_step M a q) = pa_custom_bounds q
      @ (if is_builtin a \<and> key_str a = codes ''where'' \<and> fa_args a \<noteq> [] then [fa_args a] else [])" for q
    by (auto simp: facet_step_def Let_def split: option.splits prod.splits)
  with snoc show ?case by (simp add: builtin_args_Cons)
qed

lemma attrs_parse_keeps:
  assumes "attrs_parse M attrs = Some p"
  shows "pa_facet p = concat (map inner_attrs attrs)" and "pa_doc p = concat (map doc_line attrs)"
    and "pa_rename p = map_option (args_text M) (last_opt (builtin_args (codes ''rename'') (pa_facet p)))"
    and "pa_rename_all p = last_opt (rules_given M (pa_facet p))"
    and "pa_crate_path p = last_opt (builtin_args (codes ''crate'') (pa_facet p))"
    and "pa_custom_bounds p = filter (\<lambda>ts. ts \<noteq> []) (builtin_args (codes ''where'') (pa_facet p))"
proof -
  obtain st where st: "attrs_loop attrs = Some st" and p: "p = fold (facet_step M) (as_facet st)
      \<lparr>pa_doc = as_doc st, pa_facet = as_facet st, pa_repr = (case as_repr st of Some r \<Rightarrow> r | None \<Rightarrow> Pr_Rust None),
       pa_rename_all = None, pa_rename = None, pa_crate_path = None, pa_errors = as_errors st,
       pa_declared_traits = None, pa_custom_bounds = []\<rparr>"
    using assms by (auto simp: attrs_parse_def split: option.splits)
  note fold = facet_fold_keeps facet_fold_rename facet_fold_rename_all facet_fold_crate facet_fold_bounds
  have loop: "as_facet st = concat (map inner_attrs attrs)" "as_doc st = concat (map doc_line attrs)"
    using attrs_loop_keeps [OF st [unfolded attrs_loop_def]] by simp_all
  have facet: "pa_facet p = as_facet st" by (simp add: p fold)
  show "pa_facet p = concat (map inner_attrs attrs)" "pa_doc p = concat (map doc_line attrs)"
    by (simp_all add: p fold loop)
  show "pa_rename p = map_option (args_text M) (last_opt (builtin_args (codes ''rename'') (pa_facet p)))"
    "pa_rename_all p = last_opt (rules_given M (pa_facet p))"
    "pa_crate_path p = last_opt (builtin_args (codes ''crate'') (pa_facet p))"
    "pa_custom_bounds p = filter (\<lambda>ts. ts \<noteq> []) (builtin_args (codes ''where'') (pa_facet p))"
    unfolding facet by (simp_all add: p fold split: option.splits)
qed


section \<open>Errors and representations of an item\<close>

text \<open>The errors of the facet attributes, one attribute after the other.\<close>

definition unknown_traits :: "tokens \<Rightarrow> compile_error list" where
  "unknown_traits ts = concat (map (\<lambda>t. case t of
     Tk_Ident name \<Rightarrow> if declare_trait name no_traits = None then [Unknown_Trait name] else [] | _ \<Rightarrow> []) ts)"

definition facet_faults :: "macro_text \<Rightarrow> p_facet_attr \<Rightarrow> compile_error list" where
  "facet_faults M a =
     (if \<not> is_builtin a then []
      else if key_str a = codes ''rename_all''
      then (case rule_parse_codes (args_text M (fa_args a)) of
              Some _ \<Rightarrow> [] | None \<Rightarrow> [Unknown_Rename_Rule (args_text M (fa_args a))])
      else if key_str a = codes ''traits'' then unknown_traits (fa_args a)
      else if key_str a = codes ''where'' \<and> fa_args a = [] then [Missing_Where_Bounds]
      else [])"

lemma declare_trait_None: "declare_trait name d = None \<longleftrightarrow> declare_trait name d' = None"
  by (simp add: declare_trait_def)

lemma traits_fold_errors: "snd (fold traits_token ts (d, errors)) = errors @ unknown_traits ts"
proof (induction ts arbitrary: d errors)
  case Nil
  then show ?case by (simp add: unknown_traits_def)
next
  case (Cons t ts)
  show ?case
  proof (cases t)
    case (Tk_Ident name)
    then show ?thesis
      using Cons.IH declare_trait_None [of name d no_traits]
      by (auto simp: unknown_traits_def split: option.splits)
  qed (use Cons.IH in \<open>simp_all add: unknown_traits_def\<close>)
qed

lemma traits_parse_errors: "snd (traits_parse ts errors) = errors @ unknown_traits ts"
  by (simp add: traits_parse_def traits_fold_errors)

lemma facet_step_errors: "pa_errors (facet_step M a p) = pa_errors p @ facet_faults M a"
  using traits_parse_errors [of "fa_args a" "pa_errors p"]
  by (auto simp: facet_step_def facet_faults_def Let_def split: option.splits prod.splits)

lemma facet_fold_errors: "pa_errors (fold (facet_step M) fs p) = pa_errors p @ concat (map (facet_faults M) fs)"
  by (induction fs arbitrary: p) (simp_all add: facet_step_errors)

text \<open>The representations: unsupported ones are errors until one is taken, and a second one after that
  leaves the sentinel.\<close>

fun repr_lists :: "attribute \<Rightarrow> rname list list" where
  "repr_lists (At_Repr items) = [items]"
| "repr_lists other = []"

definition repr_fault :: "rname list \<Rightarrow> compile_error option" where
  "repr_fault items = (case repr_parse items of Err (Facet_Error m) \<Rightarrow> Some m | _ \<Rightarrow> None)"

definition repr_taken :: "rname list \<Rightarrow> p_repr" where
  "repr_taken items = (case repr_parse items of Ok (Some r) \<Rightarrow> r | _ \<Rightarrow> Pr_RustcWillCatch)"

fun repr_result :: "rname list list \<Rightarrow> p_repr option" where
  "repr_result [] = None"
| "repr_result (r # rs) =
     (if repr_fault r \<noteq> None then repr_result rs
      else Some (if rs = [] then repr_taken r else Pr_RustcWillCatch))"

fun repr_faults :: "rname list list \<Rightarrow> compile_error list" where
  "repr_faults [] = []"
| "repr_faults (r # rs) = (case repr_fault r of Some m \<Rightarrow> m # repr_faults rs | None \<Rightarrow> [])"

lemma repr_result_snoc:
  "repr_result (rs @ [r]) =
     (if repr_result rs \<noteq> None then Some Pr_RustcWillCatch
      else if repr_fault r = None then Some (repr_taken r) else None)"
  by (induction rs) auto

lemma repr_faults_snoc:
  "repr_faults (rs @ [r]) = repr_faults rs @ (if repr_result rs = None \<and> repr_fault r \<noteq> None then [the (repr_fault r)] else [])"
  by (induction rs) (auto split: option.splits)

lemma repr_parse_some: "repr_parse items \<noteq> Ok None"
  by (simp add: repr_parse_def obind_eq_Ok)

lemma attr_step_repr:
  assumes "attr_step a st = Some st'" and "as_repr st = repr_result rs" and "as_errors st = repr_faults rs"
  shows "as_repr st' = repr_result (rs @ repr_lists a) \<and> as_errors st' = repr_faults (rs @ repr_lists a)"
proof (cases "\<exists>items. a = At_Repr items")
  case True
  then obtain items where a: "a = At_Repr items" by blast
  show ?thesis
  proof (cases "as_repr st")
    case None
    with assms a repr_parse_some [of items] show ?thesis
      by (auto simp: repr_result_snoc repr_faults_snoc repr_fault_def repr_taken_def
        split: outcome.splits option.splits parse_error.splits)
  next
    case (Some r)
    with assms a show ?thesis by (auto simp: repr_result_snoc repr_faults_snoc)
  qed
next
  case False
  with assms show ?thesis
    by (cases "(a, st)" rule: attr_step.cases) (auto split: outcome.splits option.splits if_splits)
qed

lemma attrs_loop_repr:
  assumes "ofold attr_step attrs st = Some st'" and "as_repr st = repr_result rs" and "as_errors st = repr_faults rs"
  shows "as_repr st' = repr_result (rs @ concat (map repr_lists attrs))
    \<and> as_errors st' = repr_faults (rs @ concat (map repr_lists attrs))"
  using assms
proof (induction attrs arbitrary: st rs)
  case Nil
  then show ?case by simp
next
  case (Cons a attrs)
  then obtain st1 where st1: "attr_step a st = Some st1" "ofold attr_step attrs st1 = Some st'" by (auto split: option.splits)
  from attr_step_repr [OF st1(1) Cons.prems(2,3)] Cons.IH [OF st1(2)] show ?case by simp
qed

lemma attrs_parse_errors:
  assumes "attrs_parse M attrs = Some p"
  shows "pa_errors p = repr_faults (concat (map repr_lists attrs)) @ concat (map (facet_faults M) (pa_facet p))"
    and "pa_repr p = (case repr_result (concat (map repr_lists attrs)) of Some r \<Rightarrow> r | None \<Rightarrow> Pr_Rust None)"
proof -
  obtain st where st: "attrs_loop attrs = Some st" and p: "p = fold (facet_step M) (as_facet st)
      \<lparr>pa_doc = as_doc st, pa_facet = as_facet st, pa_repr = (case as_repr st of Some r \<Rightarrow> r | None \<Rightarrow> Pr_Rust None),
       pa_rename_all = None, pa_rename = None, pa_crate_path = None, pa_errors = as_errors st,
       pa_declared_traits = None, pa_custom_bounds = []\<rparr>"
    using assms by (auto simp: attrs_parse_def split: option.splits)
  have "as_repr st = repr_result (concat (map repr_lists attrs))" "as_errors st = repr_faults (concat (map repr_lists attrs))"
    using attrs_loop_repr [OF st [unfolded attrs_loop_def], of "[]"]
    by simp_all
  then show "pa_errors p = repr_faults (concat (map repr_lists attrs)) @ concat (map (facet_faults M) (pa_facet p))"
    "pa_repr p = (case repr_result (concat (map repr_lists attrs)) of Some r \<Rightarrow> r | None \<Rightarrow> Pr_Rust None)"
    by (simp_all add: p facet_fold_errors facet_fold_keeps)
qed


section \<open>When the attributes abort the macro\<close>

text \<open>A documentation literal that is no text of escapes, or one the raw slice does not fit.\<close>

fun attr_aborts :: "attribute \<Rightarrow> bool" where
  "attr_aborts (At_Doc text) \<longleftrightarrow> \<not> (\<exists>out. reads text out)"
| "attr_aborts (At_Any [Tk_Ident ident, second, Tk_Literal lit]) \<longleftrightarrow> ident = codes ''doc'' \<and> raw_doc_content lit = None"
| "attr_aborts other \<longleftrightarrow> False"

lemma attr_step_aborts: "attr_step a st = None \<longleftrightarrow> attr_aborts a"
proof (cases "\<exists>lit. a = At_Doc lit")
  case True
  then obtain lit where a: "a = At_Doc lit" by blast
  then show ?thesis
    using unescape_inner_no_overrun [of lit] unescape_inner_Ok [of lit]
    by (cases "unescape_inner lit") auto
next
  case False
  then show ?thesis
    using repr_parse_no_overrun
    by (cases "(a, st)" rule: attr_step.cases)
      (auto split: outcome.splits option.splits parse_error.splits)
qed

lemma ofold_aborts:
  assumes "\<And>x s. f x s = None \<longleftrightarrow> P x"
  shows "ofold f xs s = None \<longleftrightarrow> (\<exists>x \<in> set xs. P x)"
proof (induction xs arbitrary: s)
  case Nil
  then show ?case by simp
next
  case (Cons x xs)
  then show ?case using assms [of x s] by (cases "f x s") auto
qed

lemma attrs_parse_aborts: "attrs_parse M attrs = None \<longleftrightarrow> (\<exists>a \<in> set attrs. attr_aborts a)"
proof -
  have "attrs_loop attrs = None \<longleftrightarrow> (\<exists>a \<in> set attrs. attr_aborts a)"
    unfolding attrs_loop_def by (rule ofold_aborts) (rule attr_step_aborts)
  moreover have "attrs_parse M attrs = None \<longleftrightarrow> attrs_loop attrs = None"
    by (simp add: attrs_parse_def split: option.split)
  ultimately show ?thesis by simp
qed

end
