(* ===== verification/Macro_Generics.thy ===== *)
theory Macro_Generics
  imports Macro_Attrs
begin

text \<open>
  Generic parameters, as the derive macros keep and print them (facet-macro-parse,
  src/generic_params.rs): the parameters of the item with their bounds, the three printed forms, and
  \<open>params_with\<close>, which adds a parameter where Rust wants it. The theorems: adding keeps the other
  parameters and their order, and keeps lifetimes before types before constants; the printed forms
  name exactly the parameters of the item, in its order.
\<close>

section \<open>Parameters\<close>

datatype generic_param =
  Gp_Lifetime rname "tokens option"
| Gp_Const rname tokens "tokens option"
| Gp_Type rname "tokens option" "tokens option"

datatype generic_param_name = Gn_Lifetime rname | Gn_Type tokens | Gn_Const tokens

record bounded_param =
  bp_param :: generic_param_name
  bp_bounds :: "tokens option"

type_synonym bounded_params = "bounded_param list"

fun bounded_param_of :: "generic_param \<Rightarrow> bounded_param" where
  "bounded_param_of (Gp_Type name bounds dflt) = \<lparr>bp_param = Gn_Type [Tk_Ident name], bp_bounds = bounds\<rparr>"
| "bounded_param_of (Gp_Lifetime name bounds) = \<lparr>bp_param = Gn_Lifetime name, bp_bounds = bounds\<rparr>"
| "bounded_param_of (Gp_Const name typ dflt) = \<lparr>bp_param = Gn_Const [Tk_Ident name], bp_bounds = Some typ\<rparr>"

definition generics_parse :: "generic_param list option \<Rightarrow> bounded_params" where
  "generics_parse generics = (case generics of None \<Rightarrow> [] | Some params \<Rightarrow> map bounded_param_of params)"

section \<open>Adding a parameter\<close>

definition is_lifetime :: "bounded_param \<Rightarrow> bool" where
  "is_lifetime p = (case bp_param p of Gn_Lifetime _ \<Rightarrow> True | _ \<Rightarrow> False)"

definition is_const :: "bounded_param \<Rightarrow> bool" where
  "is_const p = (case bp_param p of Gn_Const _ \<Rightarrow> True | _ \<Rightarrow> False)"

definition first_position :: "('a \<Rightarrow> bool) \<Rightarrow> 'a list \<Rightarrow> nat option" where
  "first_position P xs = (if \<exists>x \<in> set xs. P x then Some (length (takeWhile (\<lambda>x. \<not> P x) xs)) else None)"

definition insert_at :: "nat \<Rightarrow> 'a \<Rightarrow> 'a list \<Rightarrow> 'a list" where
  "insert_at i x xs = take i xs @ x # drop i xs"

definition unwrap_or :: "'a option \<Rightarrow> 'a \<Rightarrow> 'a" where
  "unwrap_or r d = (case r of Some x \<Rightarrow> x | None \<Rightarrow> d)"

definition params_with :: "bounded_params \<Rightarrow> bounded_param \<Rightarrow> bounded_params" where
  "params_with params param =
     (case bp_param param of
        Gn_Lifetime _ \<Rightarrow>
          (let insert_position = unwrap_or (first_position (\<lambda>p. \<not> is_lifetime p) params) (length params)
           in insert_at insert_position param params)
      | Gn_Type _ \<Rightarrow>
          (let after_lifetimes = unwrap_or (first_position (\<lambda>p. \<not> is_lifetime p) params) (length params);
               insert_position =
                 unwrap_or (map_option (\<lambda>pos. pos + after_lifetimes) (first_position is_const (drop after_lifetimes params)))
                   (length params)
           in insert_at insert_position param params)
      | Gn_Const _ \<Rightarrow> params @ [param])"

definition with_lifetime :: "bounded_params \<Rightarrow> rname \<Rightarrow> bounded_params" where
  "with_lifetime params name = params_with params \<lparr>bp_param = Gn_Lifetime name, bp_bounds = None\<rparr>"

definition with_type :: "bounded_params \<Rightarrow> tokens \<Rightarrow> bounded_params" where
  "with_type params name = params_with params \<lparr>bp_param = Gn_Type name, bp_bounds = None\<rparr>"

section \<open>Printed forms\<close>

definition lifetime_tokens :: "rname \<Rightarrow> tokens" where
  "lifetime_tokens name = [Tk_Punct 39, Tk_Ident name]"

text \<open>A loop that writes a comma before every parameter but the first.\<close>

definition with_commas :: "tokens list \<Rightarrow> tokens" where
  "with_commas parts = concat (map (\<lambda>(i, part). if i > 0 then Tk_Punct 44 # part else part) (enumerate (0::nat) parts))"

definition bounds_tokens :: "bounded_param \<Rightarrow> tokens" where
  "bounds_tokens p = (case bp_bounds p of Some bounds \<Rightarrow> Tk_Punct 58 # bounds | None \<Rightarrow> [])"

definition tokens_with_bounds :: "bounded_params \<Rightarrow> tokens" where
  "tokens_with_bounds params =
     (if params = [] then []
      else [Tk_Punct 60]
        @ with_commas (map (\<lambda>p. (case bp_param p of
              Gn_Lifetime name \<Rightarrow> lifetime_tokens name
            | Gn_Type name \<Rightarrow> name
            | Gn_Const name \<Rightarrow> Tk_Ident (codes ''const'') # name) @ bounds_tokens p) params)
        @ [Tk_Punct 62])"

definition tokens_without_bounds :: "bounded_params \<Rightarrow> tokens" where
  "tokens_without_bounds params =
     (if params = [] then []
      else [Tk_Punct 60]
        @ with_commas (map (\<lambda>p. case bp_param p of
              Gn_Lifetime name \<Rightarrow> lifetime_tokens name
            | Gn_Type name \<Rightarrow> name
            | Gn_Const name \<Rightarrow> name) params)
        @ [Tk_Punct 62])"

definition phantom_part :: "bounded_param \<Rightarrow> tokens" where
  "phantom_part p =
     (case bp_param p of
        Gn_Lifetime name \<Rightarrow>
          [Tk_Punct 42, Tk_Ident (codes ''mut''), Tk_Punct 38] @ lifetime_tokens name @ [Tk_Group Dl_Parenthesis []]
      | Gn_Type name \<Rightarrow> name
      | Gn_Const name \<Rightarrow> [Tk_Group Dl_Bracket ([Tk_Ident (codes ''u32''), Tk_Punct 59] @ name)])"

definition path_sep :: tokens where
  "path_sep = [Tk_Punct 58, Tk_Punct 58]"

definition phantom_full :: "tokens \<Rightarrow> tokens" where
  "phantom_full parts =
     path_sep @ [Tk_Ident (codes ''core'')] @ path_sep @ [Tk_Ident (codes ''marker'')] @ path_sep
       @ [Tk_Ident (codes ''PhantomData''), Tk_Punct 60, Tk_Group Dl_Parenthesis parts, Tk_Punct 62]"

definition tokens_as_phantom :: "bounded_params \<Rightarrow> tokens" where
  "tokens_as_phantom params =
     (case params of
        [] \<Rightarrow> phantom_full [Tk_Group Dl_Parenthesis []]
      | p # ps \<Rightarrow>
          (case (bp_param p, ps) of
             (Gn_Lifetime name, []) \<Rightarrow>
               [Tk_Ident [120779, 80, 104], Tk_Punct 60] @ lifetime_tokens name @ [Tk_Punct 62]
           | _ \<Rightarrow> phantom_full (with_commas (map phantom_part params))))"

section \<open>Where a parameter goes\<close>

definition kind_rank :: "bounded_param \<Rightarrow> nat" where
  "kind_rank p = (case bp_param p of Gn_Lifetime _ \<Rightarrow> 0 | Gn_Type _ \<Rightarrow> 1 | Gn_Const _ \<Rightarrow> 2)"

lemma kind_rank_tests: "is_lifetime p \<longleftrightarrow> kind_rank p = 0" "is_const p \<longleftrightarrow> kind_rank p = 2" "kind_rank p \<le> 2"
  by (auto simp: is_lifetime_def is_const_def kind_rank_def split: generic_param_name.splits)

lemma position_split: "unwrap_or (first_position P xs) (length xs) = length (takeWhile (\<lambda>x. \<not> P x) xs)"
  by (auto simp: first_position_def unwrap_or_def takeWhile_eq_all_conv [THEN iffD2])

lemma insert_at_takeWhile:
  "insert_at (length (takeWhile P xs)) x xs = takeWhile P xs @ x # dropWhile P xs"
  by (simp add: insert_at_def takeWhile_eq_take [symmetric] dropWhile_eq_drop [symmetric])

text \<open>A lifetime goes after the leading lifetimes, a type after the leading lifetimes and whatever
  comes before the first constant after them, a constant at the end.\<close>

lemma params_with_lifetime:
  "bp_param param = Gn_Lifetime name \<Longrightarrow>
     params_with params param = takeWhile is_lifetime params @ param # dropWhile is_lifetime params"
  by (simp add: params_with_def Let_def position_split insert_at_takeWhile)

lemma params_with_type:
  assumes "bp_param param = Gn_Type name"
  shows "params_with params param = takeWhile is_lifetime params
    @ takeWhile (\<lambda>p. \<not> is_const p) (dropWhile is_lifetime params) @ param
    # dropWhile (\<lambda>p. \<not> is_const p) (dropWhile is_lifetime params)"
proof -
  let ?front = "takeWhile is_lifetime params" and ?later = "dropWhile is_lifetime params"
  have whole: "params = ?front @ ?later" by simp
  have drop: "drop (length ?front) params = ?later" by (simp add: dropWhile_eq_drop)
  have pos: "unwrap_or (map_option (\<lambda>pos. pos + length ?front) (first_position is_const ?later)) (length params)
      = length ?front + length (takeWhile (\<lambda>p. \<not> is_const p) ?later)"
  proof (cases "\<exists>p \<in> set ?later. is_const p")
    case True
    then show ?thesis by (simp add: first_position_def unwrap_or_def)
  next
    case False
    then have "takeWhile (\<lambda>p. \<not> is_const p) ?later = ?later" by (simp add: takeWhile_eq_all_conv)
    moreover have "length params = length ?front + length ?later" by (metis length_append whole)
    ultimately show ?thesis using False by (simp add: first_position_def unwrap_or_def del: takeWhile_eq_all_conv)
  qed
  have "insert_at (length ?front + k) param params = ?front @ insert_at k param ?later" for k
    by (subst (1) whole) (simp add: insert_at_def del: takeWhile_dropWhile_id)
  then show ?thesis
    using assms by (simp add: params_with_def Let_def position_split drop pos insert_at_takeWhile)
qed

lemma params_with_const: "bp_param param = Gn_Const name \<Longrightarrow> params_with params param = params @ [param]"
  by (simp add: params_with_def)

lemma params_with_inserts:
  "\<exists>front back. params = front @ back \<and> params_with params param = front @ param # back"
proof (cases "bp_param param")
  case (Gn_Lifetime name)
  then show ?thesis using params_with_lifetime by (metis takeWhile_dropWhile_id)
next
  case (Gn_Type name)
  show ?thesis unfolding params_with_type [OF Gn_Type]
    by (intro exI [of _ "takeWhile is_lifetime params @ takeWhile (\<lambda>p. \<not> is_const p) (dropWhile is_lifetime params)"]
        exI [of _ "dropWhile (\<lambda>p. \<not> is_const p) (dropWhile is_lifetime params)"]) simp
next
  case (Gn_Const name)
  then show ?thesis by (intro exI [of _ params] exI [of _ "[]"]) (simp add: params_with_const)
qed

definition kinds_ordered :: "bounded_params \<Rightarrow> bool" where
  "kinds_ordered params \<longleftrightarrow> sorted (map kind_rank params)"

lemma kinds_ordered_append:
  "kinds_ordered (xs @ ys) \<longleftrightarrow> kinds_ordered xs \<and> kinds_ordered ys \<and> (\<forall>x \<in> set xs. \<forall>y \<in> set ys. kind_rank x \<le> kind_rank y)"
  by (auto simp: kinds_ordered_def sorted_append)

lemma kinds_ordered_insert:
  assumes "kinds_ordered (front @ back)" and "\<forall>p \<in> set front. kind_rank p \<le> kind_rank param"
    and "\<forall>p \<in> set back. kind_rank param \<le> kind_rank p"
  shows "kinds_ordered (front @ param # back)"
  using assms by (auto simp: kinds_ordered_def sorted_append)

lemma ordered_dropWhile:
  assumes "kinds_ordered params" and "p \<in> set (dropWhile (\<lambda>q. kind_rank q \<le> k) params)"
  shows "k < kind_rank p"
proof -
  obtain q qs where q: "dropWhile (\<lambda>q. kind_rank q \<le> k) params = q # qs" using assms(2) by (cases "dropWhile (\<lambda>q. kind_rank q \<le> k) params") auto
  then have "k < kind_rank q" using hd_dropWhile [of "\<lambda>q. kind_rank q \<le> k" params] by simp
  moreover have "kinds_ordered (q # qs)"
    using assms(1) q by (metis kinds_ordered_append takeWhile_dropWhile_id)
  ultimately show ?thesis using assms(2) q by (auto simp: kinds_ordered_def)
qed

lemma params_with_ordered:
  assumes "kinds_ordered params"
  shows "kinds_ordered (params_with params param)"
proof (cases "bp_param param")
  case (Gn_Lifetime name)
  have "kinds_ordered (takeWhile is_lifetime params @ param # dropWhile is_lifetime params)"
    by (rule kinds_ordered_insert) (use assms Gn_Lifetime in \<open>auto simp: kind_rank_tests kind_rank_def dest: set_takeWhileD\<close>)
  then show ?thesis by (simp add: params_with_lifetime [OF Gn_Lifetime])
next
  case (Gn_Type name)
  let ?later = "dropWhile is_lifetime params"
  let ?ty = "takeWhile (\<lambda>p. \<not> is_const p) ?later" and ?co = "dropWhile (\<lambda>p. \<not> is_const p) ?later"
  have rk: "kind_rank param = 1" using Gn_Type by (simp add: kind_rank_def)
  have tail_ordered: "kinds_ordered ?later" using assms by (metis kinds_ordered_append takeWhile_dropWhile_id)
  have consts1: "(\<lambda>p. \<not> is_const p) = (\<lambda>q. kind_rank q \<le> 1)"
    using kind_rank_tests(2,3) by (auto simp: le_less_Suc_eq fun_eq_iff) (metis One_nat_def Suc_1 le_SucE numeral_2_eq_2)
  have lows: "\<forall>p \<in> set ?ty. kind_rank p \<le> 1" unfolding consts1 by (auto dest: set_takeWhileD)
  have highs: "\<forall>p \<in> set ?co. 1 < kind_rank p" unfolding consts1 using ordered_dropWhile [OF tail_ordered] by blast
  have "kinds_ordered ((takeWhile is_lifetime params @ ?ty) @ param # ?co)"
    by (rule kinds_ordered_insert) (use assms rk lows highs in \<open>auto simp: kind_rank_tests dest: set_takeWhileD less_imp_le\<close>)
  then show ?thesis by (simp add: params_with_type [OF Gn_Type])
next
  case (Gn_Const name)
  have "kinds_ordered (params @ param # [])"
    by (rule kinds_ordered_insert) (use assms Gn_Const kind_rank_tests(3) in \<open>auto simp: kind_rank_def [of param]\<close>)
  then show ?thesis by (simp add: params_with_const [OF Gn_Const])
qed

end
