(* ===== verification/Macro_Items.thy ===== *)
theory Macro_Items
  imports Macro_Generics Path_Steps
begin

text \<open>
  Structs and enums, as the derive macros keep them (facet-macro-parse, src/parsed.rs and src/lib.rs):
  the items of the grammar (facet-macro-types, src/lib.rs), and the parsed items made of them, with
  the names of fields and variants settled. The grammar's parser is code of another crate: it is the
  argument of \<open>parse_type\<close>. Visibilities and punctuation of the grammar are left out, as nothing
  reads them. A panic of the attributes or of a rename rule is \<open>None\<close>.
\<close>

section \<open>Items of the grammar\<close>

record item_struct_field =
  sf_attributes :: "attribute list"
  sf_name :: rname
  sf_typ :: tokens

record item_tuple_field =
  tf_attributes :: "attribute list"
  tf_typ :: tokens

datatype item_struct_kind =
  Sk_Struct "tokens option" "item_struct_field list"
| Sk_Tuple "item_tuple_field list" "tokens option"
| Sk_Unit "tokens option"

record struct_item =
  si_attributes :: "attribute list"
  si_name :: rname
  si_generics :: "generic_param list option"
  si_kind :: item_struct_kind

datatype variant_data =
  Vd_Unit "attribute list" rname
| Vd_Tuple "attribute list" rname "item_tuple_field list"
| Vd_Struct "attribute list" rname "item_struct_field list"

record variant_like =
  vl_variant :: variant_data
  vl_discriminant :: "tokens option"

record enum_item =
  ei_attributes :: "attribute list"
  ei_name :: rname
  ei_generics :: "generic_param list option"
  ei_clauses :: "tokens option"
  ei_body :: "variant_like list"

datatype adt_decl = Adt_Struct struct_item | Adt_Enum enum_item

section \<open>Names\<close>

datatype ident_or_literal = Io_Ident rname | Io_Literal nat

fun name_tokens :: "ident_or_literal \<Rightarrow> tokens" where
  "name_tokens (Io_Ident ident) = [Tk_Ident ident]"
| "name_tokens (Io_Literal lit) = [Tk_Literal (codes (dec_digits lit))]"

record p_name =
  pn_raw :: ident_or_literal
  pn_original :: rname
  pn_rename :: "rname option"

fun original_name :: "ident_or_literal \<Rightarrow> rname" where
  "original_name (Io_Ident ident) = trim_prefix (codes ''r#'') ident"
| "original_name (Io_Literal l) = codes (dec_digits l)"

definition name_new ::
  "char_tables \<Rightarrow> ident_or_literal \<Rightarrow> rename_rule option \<Rightarrow> rname option \<Rightarrow> p_name option" where
  "name_new T raw container_rename_rule rename =
     (let original = original_name raw;
          name = (\<lambda>r. \<lparr>pn_raw = raw, pn_original = original, pn_rename = r\<rparr>)
      in case rename of
        Some r \<Rightarrow> Some (name (Some r))
      | None \<Rightarrow>
          (case container_rename_rule of
             None \<Rightarrow> Some (name None)
           | Some rule \<Rightarrow> map_option (\<lambda>s. name (Some s)) (apply_rule T rule original)))"

section \<open>Parsed items\<close>

record p_struct_field =
  pf_name :: p_name
  pf_ty :: tokens
  pf_offset :: tokens
  pf_attrs :: p_attrs

datatype p_struct_kind =
  Ps_Struct "p_struct_field list"
| Ps_TupleStruct "p_struct_field list"
| Ps_UnitStruct

record p_container =
  pc_name :: rname
  pc_rename :: "rname option"
  pc_attrs :: p_attrs
  pc_bgp :: bounded_params
  pc_where_clauses :: "tokens option"

record p_struct =
  ps_container :: p_container
  ps_kind :: p_struct_kind

datatype p_variant_kind =
  Pv_Unit
| Pv_Tuple "p_struct_field list"
| Pv_Struct "p_struct_field list"

record p_variant =
  pv_name :: p_name
  pv_attrs :: p_attrs
  pv_kind :: p_variant_kind
  pv_discriminant :: "tokens option"

record p_enum =
  pe_container :: p_container
  pe_variants :: "p_variant list"
  pe_repr :: p_repr

datatype p_type = Pt_Struct p_struct | Pt_Enum p_enum

fun p_type_name :: "p_type \<Rightarrow> rname" where
  "p_type_name (Pt_Struct s) = pc_name (ps_container s)"
| "p_type_name (Pt_Enum e) = pc_name (pe_container e)"

section \<open>Parsing\<close>

definition parse_field ::
  "macro_text \<Rightarrow> attribute list \<Rightarrow> ident_or_literal \<Rightarrow> tokens \<Rightarrow> rename_rule option \<Rightarrow> p_struct_field option" where
  "parse_field M attrs name ty rename_all_rule =
     (case attrs_parse M attrs of
        None \<Rightarrow> None
      | Some as \<Rightarrow>
          map_option (\<lambda>p. \<lparr>pf_name = p, pf_ty = ty, pf_offset = [], pf_attrs = as\<rparr>)
            (name_new (mt_tables M) name rename_all_rule (pa_rename as)))"

definition from_struct_field :: "macro_text \<Rightarrow> rename_rule option \<Rightarrow> item_struct_field \<Rightarrow> p_struct_field option" where
  "from_struct_field M rename_all_rule f =
     parse_field M (sf_attributes f) (Io_Ident (sf_name f)) (sf_typ f) rename_all_rule"

definition from_enum_field ::
  "macro_text \<Rightarrow> rename_rule option \<Rightarrow> nat \<times> item_tuple_field \<Rightarrow> p_struct_field option" where
  "from_enum_field M rename_all_rule f =
     parse_field M (tf_attributes (snd f)) (Io_Literal (fst f)) (tf_typ (snd f)) rename_all_rule"

definition struct_fields_parse :: "macro_text \<Rightarrow> rename_rule option \<Rightarrow> item_struct_field list \<Rightarrow> p_struct_field list option" where
  "struct_fields_parse M rule fs = those (map (from_struct_field M rule) fs)"

definition tuple_fields_parse :: "macro_text \<Rightarrow> rename_rule option \<Rightarrow> item_tuple_field list \<Rightarrow> p_struct_field list option" where
  "tuple_fields_parse M rule fs = those (map (from_enum_field M rule) (enumerate 0 fs))"

fun struct_kind_parse :: "macro_text \<Rightarrow> rename_rule option \<Rightarrow> item_struct_kind \<Rightarrow> p_struct_kind option" where
  "struct_kind_parse M rename_all_rule (Sk_Struct clauses fs) =
     map_option Ps_Struct (struct_fields_parse M rename_all_rule fs)"
| "struct_kind_parse M rename_all_rule (Sk_Tuple fs clauses) =
     map_option Ps_TupleStruct (tuple_fields_parse M rename_all_rule fs)"
| "struct_kind_parse M rename_all_rule (Sk_Unit clauses) = Some Ps_UnitStruct"

fun kind_clauses :: "item_struct_kind \<Rightarrow> tokens option" where
  "kind_clauses (Sk_Struct clauses fs) = clauses"
| "kind_clauses (Sk_Tuple fs clauses) = clauses"
| "kind_clauses (Sk_Unit clauses) = clauses"

definition struct_parse :: "macro_text \<Rightarrow> struct_item \<Rightarrow> p_struct option" where
  "struct_parse M s =
     (case attrs_parse M (si_attributes s) of
        None \<Rightarrow> None
      | Some attrs \<Rightarrow>
          map_option
            (\<lambda>kind. \<lparr>ps_container = \<lparr>pc_name = si_name s, pc_rename = pa_rename attrs, pc_attrs = attrs,
                       pc_bgp = generics_parse (si_generics s), pc_where_clauses = kind_clauses (si_kind s)\<rparr>,
                     ps_kind = kind\<rparr>)
            (struct_kind_parse M (pa_rename_all attrs) (si_kind s)))"

fun variant_name :: "variant_data \<Rightarrow> rname" where
  "variant_name (Vd_Unit attributes name) = name"
| "variant_name (Vd_Tuple attributes name fs) = name"
| "variant_name (Vd_Struct attributes name fs) = name"

fun variant_attributes :: "variant_data \<Rightarrow> attribute list" where
  "variant_attributes (Vd_Unit attributes name) = attributes"
| "variant_attributes (Vd_Tuple attributes name fs) = attributes"
| "variant_attributes (Vd_Struct attributes name fs) = attributes"

fun variant_kind_parse :: "macro_text \<Rightarrow> rename_rule option \<Rightarrow> variant_data \<Rightarrow> p_variant_kind option" where
  "variant_kind_parse M rule (Vd_Unit attributes name) = Some Pv_Unit"
| "variant_kind_parse M rule (Vd_Tuple attributes name fs) = map_option Pv_Tuple (tuple_fields_parse M rule fs)"
| "variant_kind_parse M rule (Vd_Struct attributes name fs) = map_option Pv_Struct (struct_fields_parse M rule fs)"

definition variant_parse :: "macro_text \<Rightarrow> rename_rule option \<Rightarrow> variant_like \<Rightarrow> p_variant option" where
  "variant_parse M container_rename_all_rule var_like =
     (case attrs_parse M (variant_attributes (vl_variant var_like)) of
        None \<Rightarrow> None
      | Some attrs \<Rightarrow>
          (case name_new (mt_tables M) (Io_Ident (variant_name (vl_variant var_like))) container_rename_all_rule (pa_rename attrs) of
             None \<Rightarrow> None
           | Some name \<Rightarrow>
               map_option
                 (\<lambda>kind. \<lparr>pv_name = name, pv_attrs = attrs, pv_kind = kind, pv_discriminant = vl_discriminant var_like\<rparr>)
                 (variant_kind_parse M (pa_rename_all attrs) (vl_variant var_like))))"

definition enum_parse :: "macro_text \<Rightarrow> enum_item \<Rightarrow> p_enum option" where
  "enum_parse M e =
     (case attrs_parse M (ei_attributes e) of
        None \<Rightarrow> None
      | Some attrs \<Rightarrow>
          map_option
            (\<lambda>variants. \<lparr>pe_container = \<lparr>pc_name = ei_name e, pc_rename = pa_rename attrs, pc_attrs = attrs,
                           pc_bgp = generics_parse (ei_generics e), pc_where_clauses = ei_clauses e\<rparr>,
                         pe_variants = variants, pe_repr = pa_repr attrs\<rparr>)
            (those (map (variant_parse M (pa_rename_all attrs)) (ei_body e))))"

text \<open>\<open>parse_type\<close>: a failure of the grammar is the left side of the sum.\<close>

definition parse_type :: "macro_text \<Rightarrow> (tokens \<Rightarrow> string + adt_decl) \<Rightarrow> tokens \<Rightarrow> (string + p_type) option" where
  "parse_type M grammar ts =
     (case grammar ts of
        Inr (Adt_Struct s) \<Rightarrow> map_option (\<lambda>p. Inr (Pt_Struct p)) (struct_parse M s)
      | Inr (Adt_Enum e) \<Rightarrow> map_option (\<lambda>p. Inr (Pt_Enum p)) (enum_parse M e)
      | Inl e \<Rightarrow> Some (Inl (''failed to parse type: '' @ e)))"

section \<open>Which name a field or a variant has\<close>

text \<open>The name written for it, else the rule of what it is in, else its own.\<close>

definition name_follows :: "macro_text \<Rightarrow> rename_rule option \<Rightarrow> p_attrs \<Rightarrow> ident_or_literal \<Rightarrow> p_name \<Rightarrow> bool" where
  "name_follows M rule attrs raw n \<longleftrightarrow>
     pn_raw n = raw \<and> pn_original n = original_name raw
     \<and> (case last_opt (builtin_args (codes ''rename'') (pa_facet attrs)) of
          Some ts \<Rightarrow> pn_rename n = Some (args_text M ts)
        | None \<Rightarrow> (case rule of
            None \<Rightarrow> pn_rename n = None
          | Some r \<Rightarrow> \<exists>s. apply_rule (mt_tables M) r (original_name raw) = Some s \<and> pn_rename n = Some s))"

definition field_follows ::
  "macro_text \<Rightarrow> rename_rule option \<Rightarrow> attribute list \<times> ident_or_literal \<times> tokens \<Rightarrow> p_struct_field \<Rightarrow> bool" where
  "field_follows M rule f p \<longleftrightarrow>
     attrs_parse M (fst f) = Some (pf_attrs p) \<and> pf_ty p = snd (snd f)
     \<and> name_follows M rule (pf_attrs p) (fst (snd f)) (pf_name p)"

definition struct_field_parts :: "item_struct_field list \<Rightarrow> (attribute list \<times> ident_or_literal \<times> tokens) list" where
  "struct_field_parts fs = map (\<lambda>f. (sf_attributes f, Io_Ident (sf_name f), sf_typ f)) fs"

definition tuple_field_parts :: "item_tuple_field list \<Rightarrow> (attribute list \<times> ident_or_literal \<times> tokens) list" where
  "tuple_field_parts fs = map (\<lambda>(i, f). (tf_attributes f, Io_Literal i, tf_typ f)) (enumerate 0 fs)"

fun struct_kind_follows :: "macro_text \<Rightarrow> rename_rule option \<Rightarrow> item_struct_kind \<Rightarrow> p_struct_kind \<Rightarrow> bool" where
  "struct_kind_follows M rule (Sk_Struct clauses fs) (Ps_Struct ps) \<longleftrightarrow>
     list_all2 (field_follows M rule) (struct_field_parts fs) ps"
| "struct_kind_follows M rule (Sk_Tuple fs clauses) (Ps_TupleStruct ps) \<longleftrightarrow>
     list_all2 (field_follows M rule) (tuple_field_parts fs) ps"
| "struct_kind_follows M rule (Sk_Unit clauses) Ps_UnitStruct \<longleftrightarrow> True"
| "struct_kind_follows M rule k p \<longleftrightarrow> False"

fun variant_kind_follows :: "macro_text \<Rightarrow> rename_rule option \<Rightarrow> variant_data \<Rightarrow> p_variant_kind \<Rightarrow> bool" where
  "variant_kind_follows M rule (Vd_Struct attributes name fs) (Pv_Struct ps) \<longleftrightarrow>
     list_all2 (field_follows M rule) (struct_field_parts fs) ps"
| "variant_kind_follows M rule (Vd_Tuple attributes name fs) (Pv_Tuple ps) \<longleftrightarrow>
     list_all2 (field_follows M rule) (tuple_field_parts fs) ps"
| "variant_kind_follows M rule (Vd_Unit attributes name) Pv_Unit \<longleftrightarrow> True"
| "variant_kind_follows M rule k p \<longleftrightarrow> False"

definition variant_follows :: "macro_text \<Rightarrow> rename_rule option \<Rightarrow> variant_like \<Rightarrow> p_variant \<Rightarrow> bool" where
  "variant_follows M rule v p \<longleftrightarrow>
     attrs_parse M (variant_attributes (vl_variant v)) = Some (pv_attrs p)
     \<and> name_follows M rule (pv_attrs p) (Io_Ident (variant_name (vl_variant v))) (pv_name p)
     \<and> variant_kind_follows M (pa_rename_all (pv_attrs p)) (vl_variant v) (pv_kind p)
     \<and> pv_discriminant p = vl_discriminant v"

lemma those_list_all2: "those (map f xs) = Some ys \<longleftrightarrow> list_all2 (\<lambda>x y. f x = Some y) xs ys"
proof (induction xs arbitrary: ys)
  case Nil
  then show ?case by auto
next
  case (Cons x xs)
  then show ?case by (cases ys) (auto split: option.splits)
qed

lemma name_new_follows:
  assumes "attrs_parse M attributes = Some attrs"
  shows "name_new (mt_tables M) raw rule (pa_rename attrs) = Some n \<longleftrightarrow> name_follows M rule attrs raw n"
  using attrs_parse_keeps(3) [OF assms]
  by (cases n) (auto simp: name_new_def name_follows_def Let_def split: option.splits)

lemma parse_field_follows:
  "parse_field M attributes raw ty rule = Some p \<longleftrightarrow> field_follows M rule (attributes, raw, ty) p \<and> pf_offset p = []"
  by (cases p) (auto simp: parse_field_def field_follows_def name_new_follows split: option.splits)

lemma struct_fields_follow:
  "struct_fields_parse M rule fs = Some ps \<Longrightarrow> list_all2 (field_follows M rule) (struct_field_parts fs) ps"
  unfolding struct_fields_parse_def those_list_all2 struct_field_parts_def
  by (simp add: list_all2_map1 from_struct_field_def parse_field_follows list.rel_mono_strong)

lemma tuple_fields_follow:
  "tuple_fields_parse M rule fs = Some ps \<Longrightarrow> list_all2 (field_follows M rule) (tuple_field_parts fs) ps"
  unfolding tuple_fields_parse_def those_list_all2 tuple_field_parts_def
  by (simp add: list_all2_map1 from_enum_field_def parse_field_follows case_prod_beta list.rel_mono_strong)

lemma struct_kind_parse_follows: "struct_kind_parse M rule k = Some p \<Longrightarrow> struct_kind_follows M rule k p"
  by (cases k) (auto simp: struct_fields_follow tuple_fields_follow)

lemma variant_kind_parse_follows: "variant_kind_parse M rule k = Some p \<Longrightarrow> variant_kind_follows M rule k p"
  by (cases k) (auto simp: struct_fields_follow tuple_fields_follow)

lemma variant_parse_follows:
  assumes "variant_parse M rule v = Some p"
  shows "variant_follows M rule v p"
  using assms
  by (auto simp: variant_parse_def variant_follows_def name_new_follows variant_kind_parse_follows split: option.splits)

lemma enum_parse_follows:
  assumes "enum_parse M e = Some p"
  shows "attrs_parse M (ei_attributes e) = Some (pc_attrs (pe_container p))"
    and "list_all2 (variant_follows M (pa_rename_all (pc_attrs (pe_container p)))) (ei_body e) (pe_variants p)"
proof -
  obtain attrs variants where attrs: "attrs_parse M (ei_attributes e) = Some attrs"
      and variants: "those (map (variant_parse M (pa_rename_all attrs)) (ei_body e)) = Some variants"
      and p: "pc_attrs (pe_container p) = attrs" "pe_variants p = variants"
    using assms by (auto simp: enum_parse_def split: option.splits)
  show "attrs_parse M (ei_attributes e) = Some (pc_attrs (pe_container p))" using attrs p by simp
  have "list_all2 (\<lambda>v q. variant_parse M (pa_rename_all attrs) v = Some q) (ei_body e) variants"
    using variants by (simp add: those_list_all2)
  then have "list_all2 (variant_follows M (pa_rename_all attrs)) (ei_body e) variants"
    by (rule list.rel_mono_strong) (rule variant_parse_follows)
  then show "list_all2 (variant_follows M (pa_rename_all (pc_attrs (pe_container p)))) (ei_body e) (pe_variants p)"
    using p by simp
qed

lemma struct_parse_follows:
  assumes "struct_parse M s = Some p"
  shows "attrs_parse M (si_attributes s) = Some (pc_attrs (ps_container p))"
    and "struct_kind_follows M (pa_rename_all (pc_attrs (ps_container p))) (si_kind s) (ps_kind p)"
  using assms by (auto simp: struct_parse_def struct_kind_parse_follows split: option.splits)


text \<open>The parsed item is the item of the grammar, with its names settled.\<close>

definition container_follows ::
  "macro_text \<Rightarrow> attribute list \<Rightarrow> rname \<Rightarrow> generic_param list option \<Rightarrow> tokens option \<Rightarrow> p_container \<Rightarrow> bool" where
  "container_follows M attributes name generics clauses c \<longleftrightarrow>
     attrs_parse M attributes = Some (pc_attrs c) \<and> pc_name c = name
     \<and> pc_rename c = map_option (args_text M) (last_opt (builtin_args (codes ''rename'') (pa_facet (pc_attrs c))))
     \<and> pc_bgp c = generics_parse generics \<and> pc_where_clauses c = clauses"

fun item_follows :: "macro_text \<Rightarrow> adt_decl \<Rightarrow> p_type \<Rightarrow> bool" where
  "item_follows M (Adt_Struct s) (Pt_Struct p) \<longleftrightarrow>
     container_follows M (si_attributes s) (si_name s) (si_generics s) (kind_clauses (si_kind s)) (ps_container p)
     \<and> struct_kind_follows M (last_opt (rules_given M (pa_facet (pc_attrs (ps_container p))))) (si_kind s) (ps_kind p)"
| "item_follows M (Adt_Enum e) (Pt_Enum p) \<longleftrightarrow>
     container_follows M (ei_attributes e) (ei_name e) (ei_generics e) (ei_clauses e) (pe_container p)
     \<and> list_all2 (variant_follows M (last_opt (rules_given M (pa_facet (pc_attrs (pe_container p))))))
         (ei_body e) (pe_variants p)
     \<and> pe_repr p = pa_repr (pc_attrs (pe_container p))"
| "item_follows M d p \<longleftrightarrow> False"

lemma struct_parse_item:
  assumes "struct_parse M s = Some p"
  shows "item_follows M (Adt_Struct s) (Pt_Struct p)"
proof -
  note follows = struct_parse_follows [OF assms]
  note keeps = attrs_parse_keeps [OF follows(1)]
  have "pc_name (ps_container p) = si_name s" "pc_rename (ps_container p) = pa_rename (pc_attrs (ps_container p))"
    "pc_bgp (ps_container p) = generics_parse (si_generics s)"
    "pc_where_clauses (ps_container p) = kind_clauses (si_kind s)"
    using assms by (auto simp: struct_parse_def split: option.splits)
  with follows keeps(3,4) show ?thesis by (simp add: container_follows_def)
qed

lemma enum_parse_item:
  assumes "enum_parse M e = Some p"
  shows "item_follows M (Adt_Enum e) (Pt_Enum p)"
proof -
  note follows = enum_parse_follows [OF assms]
  note keeps = attrs_parse_keeps [OF follows(1)]
  have "pc_name (pe_container p) = ei_name e" "pc_rename (pe_container p) = pa_rename (pc_attrs (pe_container p))"
    "pc_bgp (pe_container p) = generics_parse (ei_generics e)" "pc_where_clauses (pe_container p) = ei_clauses e"
    "pe_repr p = pa_repr (pc_attrs (pe_container p))"
    using assms by (auto simp: enum_parse_def split: option.splits)
  with follows keeps(3,4) show ?thesis by (simp add: container_follows_def)
qed

lemma parse_type_follows:
  assumes "parse_type M grammar ts = Some (Inr p)"
  shows "\<exists>d. grammar ts = Inr d \<and> item_follows M d p"
proof -
  from assms obtain d where d: "grammar ts = Inr d" by (auto simp: parse_type_def split: sum.splits)
  then have "item_follows M d p"
    using assms struct_parse_item enum_parse_item by (cases d) (auto simp: parse_type_def)
  with d show ?thesis by blast
qed

end
