(* ===== verification/Macro_Samples.thy ===== *)
theory Macro_Samples
  imports Macro_Items
begin

text \<open>
  Items for the derive macro: a printer of token streams, an enum with renamed variants, and the
  attributes that are read in a surprising way: a second representation, a name given twice, a name
  with an escape sequence, and a raw documentation literal.
\<close>

fun show_token :: "token \<Rightarrow> rname" where
  "show_token (Tk_Ident ident) = ident @ [32]"
| "show_token (Tk_Punct c) = [c]"
| "show_token (Tk_Literal lit) = lit"
| "show_token (Tk_Group d ts) = [40] @ concat (map show_token ts) @ [41]"

definition sample_text :: macro_text where
  "sample_text = \<lparr>mt_tables = ascii_tables, mt_show = (\<lambda>ts. concat (map show_token ts))\<rparr>"

definition quoted :: "string \<Rightarrow> tokens" where
  "quoted s = [Tk_Literal (34 # codes s @ [34])]"

definition facet_value :: "string \<Rightarrow> string \<Rightarrow> attribute" where
  "facet_value key value = At_Facet [Fi_Simple (codes key) (Some (Args_Equals (quoted value)))]"

text \<open>An enum whose variants are renamed by a rule, one variant by name, and one field by the rule of its variant.\<close>

definition renamed_enum :: enum_item where
  "renamed_enum =
     \<lparr>ei_attributes = [At_Repr [codes ''u8''], facet_value ''rename_all'' ''snake_case''], ei_name = codes ''Shape'',
      ei_generics = None, ei_clauses = None,
      ei_body =
        [\<lparr>vl_variant = Vd_Unit [] (codes ''NoShape''), vl_discriminant = None\<rparr>,
         \<lparr>vl_variant = Vd_Unit [facet_value ''rename'' ''dot''] (codes ''OnePoint''), vl_discriminant = None\<rparr>,
         \<lparr>vl_variant = Vd_Struct [facet_value ''rename_all'' ''camelCase''] (codes ''RoundBox'')
            [\<lparr>sf_attributes = [], sf_name = codes ''corner_radius'', sf_typ = [Tk_Ident (codes ''f64'')]\<rparr>],
          vl_discriminant = None\<rparr>]\<rparr>"

definition sample_grammar :: "tokens \<Rightarrow> string + adt_decl" where
  "sample_grammar ts = Inr (Adt_Enum renamed_enum)"

fun kind_renames :: "p_variant_kind \<Rightarrow> rname option list" where
  "kind_renames Pv_Unit = []"
| "kind_renames (Pv_Tuple fs) = map (\<lambda>f. pn_rename (pf_name f)) fs"
| "kind_renames (Pv_Struct fs) = map (\<lambda>f. pn_rename (pf_name f)) fs"

fun item_renames :: "p_type \<Rightarrow> (rname option \<times> rname option list) list" where
  "item_renames (Pt_Enum e) = map (\<lambda>v. (pn_rename (pv_name v), kind_renames (pv_kind v))) (pe_variants e)"
| "item_renames (Pt_Struct s) = []"

definition sample_renames :: "(rname option \<times> rname option list) list" where
  "sample_renames =
     [(Some (codes ''no_shape''), []), (Some (codes ''dot''), []),
      (Some (codes ''round_box''), [Some (codes ''cornerRadius'')])]"

lemma sample_parses:
  "case parse_type sample_text sample_grammar [] of
     Some (Inr p) \<Rightarrow> item_renames p = sample_renames | _ \<Rightarrow> False"
  by code_simp

text \<open>Two representations that Rust accepts together leave the sentinel of a conflict.\<close>

lemma two_reprs_conflict:
  "map_option pa_repr (attrs_parse sample_text [At_Repr [codes ''C''], At_Repr [codes ''u8'']]) = Some Pr_RustcWillCatch"
  "map_option pa_repr (attrs_parse sample_text [At_Repr [codes ''C'', codes ''u8'']]) = Some (Pr_C (Some Pm_U8))"
  by code_simp+

text \<open>A name given twice: the last one is the name, the first one the argument of the attribute.\<close>

lemma rename_twice:
  "map_option (\<lambda>p. (pa_rename p, get_builtin_args sample_text p (codes ''rename'')))
     (attrs_parse sample_text [facet_value ''rename'' ''a'', facet_value ''rename'' ''b''])
   = Some (Some (codes ''b''), Some (codes ''a''))"
  by code_simp

text \<open>The escape sequence for a quote (92, 34) stays in the name as it is written, and a quote at its
  end is lost.\<close>

lemma rename_keeps_escapes:
  "map_option pa_rename (attrs_parse sample_text
     [At_Facet [Fi_Simple (codes ''rename'') (Some (Args_Equals [Tk_Literal [34, 97, 92, 34, 98, 34]]))]])
   = Some (Some [97, 92, 34, 98])"
  "map_option pa_rename (attrs_parse sample_text
     [At_Facet [Fi_Simple (codes ''rename'') (Some (Args_Equals [Tk_Literal [34, 97, 92, 34, 34]]))]])
   = Some (Some [97, 92])"
  by code_simp+

end
