(* ===== verification/Spec2Isabelle.thy ===== *)
theory Spec2Isabelle
  imports Init_Set Variance Schema_Fuel Solver_Facts Variant_Format Walk Plan_Samples Rename Deferred_Samples Poke_Samples Macro_Samples
begin

text \<open>
  A verification development for the workspace of facet, reflection for Rust. Types describe
  themselves as static data, the shapes (facet-core). Six subsystems of the library do real work
  on that data, and are modelled here with what they need:

  \<^item> facet-solver decides which variants of flattened enums a self-describing input can mean.
    A schema builder (\<^theory_text>\<open>Schema_Builder\<close>) enumerates the resolutions of a shape
    (\<^theory_text>\<open>Resolution\<close>, facet-reflect/src/resolution.rs) and indexes them by key; the solver
    (\<^theory_text>\<open>Solver\<close>) then narrows a bit set of candidates (\<^theory_text>\<open>Resolution_Set\<close>) with each key, value and
    hint the deserializer reports. \<^theory_text>\<open>Variant_Format\<close> sorts the variants of an enum by the kind
    of value they are written as.
  \<^item> facet-reflect, typeplan.rs compiles a shape into a plan, a graph of nodes in arenas
    (\<^theory_text>\<open>Arena\<close>, \<^theory_text>\<open>Plan_Data\<close>, \<^theory_text>\<open>Field_Lookup\<close>, \<^theory_text>\<open>Validators\<close>, \<^theory_text>\<open>Type_Plan\<close>), that deserializers and the
    builder of values navigate (\<^theory_text>\<open>Plan_Nav\<close>).
  \<^item> facet-reflect, partial builds a value of a shape in uninitialised memory, step by step:
    a stack of frames, each with a tracker of what is initialised (\<^theory_text>\<open>Init_Set\<close>, \<^theory_text>\<open>Rope\<close>,
    \<^theory_text>\<open>Frame\<close>, \<^theory_text>\<open>Frame_Init\<close>, \<^theory_text>\<open>Partial\<close>), the operations that enter parts and set values
    (\<^theory_text>\<open>Partial_Fields\<close>, \<^theory_text>\<open>Partial_Nest\<close>, \<^theory_text>\<open>Partial_Coll\<close>), the end of a frame and of deferred mode
    (\<^theory_text>\<open>Partial_End\<close>, \<^theory_text>\<open>Partial_Pop\<close>), and the hand-over of the value (\<^theory_text>\<open>Partial_Build\<close>). \<^theory_text>\<open>Partial_Laws\<close>
    holds what is true of them in every state. The frames read
    the plan of their node; deferred frames are kept by their path (\<^theory_text>\<open>Path_Steps\<close>, \<^theory_text>\<open>Path_Order\<close>).
  \<^item> facet-reflect, peek reads a value through its shape: fields, variants, collections (\<^theory_text>\<open>Peek\<close>),
    the structural hash (\<^theory_text>\<open>Peek_Hash\<close>), the fields to be serialized (\<^theory_text>\<open>Peek_Fields\<close>), the value at
    a path (\<^theory_text>\<open>Peek_Path\<close>); \<open>build\<close> checks the invariants of all values in a value with it
    (\<^theory_text>\<open>Peek_Invariants\<close>).
  \<^item> facet-reflect, poke changes a value through its shape: whole values, fields, options, results
    (\<^theory_text>\<open>Poke\<close>), collections (\<^theory_text>\<open>Poke_Collections\<close>), the part at a path (\<^theory_text>\<open>Poke_Path\<close>).
  \<^item> facet-macro-parse turns the items of the grammar into what the derive macro generates code from:
    text and its escapes (\<^theory_text>\<open>Macro_Text\<close>), attributes (\<^theory_text>\<open>Macro_Attrs\<close>), generic parameters
    (\<^theory_text>\<open>Macro_Generics\<close>), and structs and enums with their names settled by the rename rules
    (\<^theory_text>\<open>Macro_Items\<close>, \<^theory_text>\<open>Rename\<close>).

  Around them: the shapes themselves and their queries (\<^theory_text>\<open>Shape\<close>), the variance of types
  (\<^theory_text>\<open>Variance\<close>, facet-core), and the walk over a type (\<^theory_text>\<open>Walk\<close>, facet-path).

  Theories and sources. \<^theory_text>\<open>Prelude\<close>, \<^theory_text>\<open>BTree_Model\<close> and \<^theory_text>\<open>Bit_Words\<close> hold outcomes, checked
  indexing, ordered maps and bit vectors. \<^theory_text>\<open>Shape\<close>, \<^theory_text>\<open>Variance\<close>: facet-core/src/types. \<^theory_text>\<open>Path_Steps\<close>,
  \<^theory_text>\<open>Path_Order\<close>, \<^theory_text>\<open>Walk\<close>: facet-path/src. \<^theory_text>\<open>Resolution\<close>: facet-reflect/src/resolution.rs.
  \<^theory_text>\<open>Resolution_Set\<close>, \<^theory_text>\<open>Schema_Builder\<close>, \<^theory_text>\<open>Solver\<close>, \<^theory_text>\<open>Variant_Format\<close>: facet-solver/src/lib.rs.
  \<^theory_text>\<open>Plan_Data\<close> to \<^theory_text>\<open>Plan_Nav\<close>: facet-reflect/src/partial/typeplan.rs and arena.rs. \<^theory_text>\<open>Init_Set\<close>:
  iset.rs, \<^theory_text>\<open>Rope\<close>: rope.rs, \<^theory_text>\<open>Frame\<close> and \<^theory_text>\<open>Frame_Init\<close>: mod.rs, the \<^theory_text>\<open>Partial\<close> theories: mod.rs,
  heap_value.rs and partial_api, the \<^theory_text>\<open>Peek\<close> theories: peek, partial_api/build.rs and
  facet-path/src/access.rs, \<^theory_text>\<open>Poke\<close>, \<^theory_text>\<open>Poke_Collections\<close> and \<^theory_text>\<open>Poke_Path\<close>: poke.
  \<^theory_text>\<open>Rename\<close>: facet-macro-types/src/renamerule.rs, \<^theory_text>\<open>Macro_Text\<close>: facet-macro-parse/src/unescaping.rs,
  \<^theory_text>\<open>Macro_Attrs\<close> and \<^theory_text>\<open>Macro_Items\<close>: parsed.rs, \<^theory_text>\<open>Macro_Generics\<close>: generic_params.rs. Definitions keep the name of the function they translate, or
  of the function and the part of it; a method \<open>f\<close> of a builder that the model splits into what
  it does and the handling of its failure is \<open>f_body\<close> and \<open>f\<close>.

  Conventions. A shared reference to a shape is an address, and the static memory is a
  function from addresses to shapes; all recursion through shapes is written out. Records hold
  the fields that modelled code reads. A panic is \<open>None\<close> (or the outcome \<open>Panic\<close>), and failed debug
  assertions are panics; an error is a value. A string is its bytes in UTF-8, in \<^theory_text>\<open>Rename\<close>
  and the \<^theory_text>\<open>Macro\<close> theories its code points. \<open>usize\<close> is a natural number where the code only counts; indices of arenas, bit
  sets, hashed and validated integers and path steps are machine words, and arithmetic on
  them wraps or truncates as in the code. A hash map is an association list, in an order that no
  result depends on. The memory that a builder works on is not stored: every allocation, drop,
  write, copy and call of a vtable is an effect in a log, with its addresses (\<^theory_text>\<open>Memory\<close>), and
  what vtable calls answer is read from a host that is a parameter. Reading changes nothing, so the
  \<^theory_text>\<open>Peek\<close> theories take one state of memory with the answers of all tables, a view, as a parameter;
  each change of a run has the view of its time, and is effects in the log again. A value given to a
  change is dropped by the caller's scope when the change fails, and that drop is in the log.
  In the builder, a host function stands for the check of invariants. A discriminant is written as
  a number. A failed conversion that consumed its source is logged as the drop of the source.

  Bounds. \<open>into_schema\<close>, \<open>variance\<close>, \<open>walk_shape\<close> and the plan builder recurse over shapes that may be
  cyclic, so they take fuel, which stands for the call stack. \<^theory_text>\<open>Schema_Fuel\<close> shows that the sum
  of three ranks is enough fuel for the schema builder on types of finite size, and that a type that
  flattens into itself needs unboundedly much; the walk returns with fuel above the number of
  types and never answers \<open>Overrun\<close> then; the plan builder returns with fuel
  \<open>card types * (L + 2) + L\<close> or so, \<open>L\<close> a bound on the nesting by value (\<^theory_text>\<open>Plan_Fuel\<close>). The variance
  computation is a machine with an explicit stack, and has a measure of its own. The structural hash and
  the check of invariants take fuel for the depth of the value; the check needs no more than the
  number of values that can be reached, since it visits none twice. The iterator for serialization
  and the search for the innermost value have no bound in the code and are partial functions.

  What is shown. For the solver (\<^theory_text>\<open>Schema_Facts\<close>, \<^theory_text>\<open>Solver_Facts\<close>): schemas are well formed and exactly
  indexed, every step is a refinement of set operations on the candidates and none panics, viable
  candidates are never lost, answers are as documented. For plans (\<^theory_text>\<open>Plan_Links\<close>, \<^theory_text>\<open>Plan_Facts\<close>,
  \<^theory_text>\<open>Plan_Results\<close>): every node is linked to the parts of its shape, back references resolve, names
  are looked up right on both kinds of table, building ends. For partial values: the initialised-field
  sets refine sets; the slots of a rope are apart, live and stay in place; the fast path of \<open>end\<close>
  agrees with the general one; in strict mode, building structs and arrays from values that are set,
  parsed or defaulted never panics, leaks or drops twice, at whatever point it fails or is dropped.
  That rests on a semantics of the effects (\<^theory_text>\<open>Block_Memory\<close>: live blocks and the places in them that
  hold something to drop) and an invariant that says that memory holds exactly what the
  trackers of the frames say (\<^theory_text>\<open>Frame_Memory\<close>, \<^theory_text>\<open>Frame_Complete\<close>, \<^theory_text>\<open>Stack_Memory\<close>), kept by every
  operation (\<^theory_text>\<open>Strict_Build\<close>, \<^theory_text>\<open>Strict_Runs\<close>). What is relied on is the predicate \<open>strict_setting\<close>:
  layouts that fit, types known by their identifiers, a linked plan with the parts of its composite
  types, validators that can read their fields, no dynamic values. \<^theory_text>\<open>Build_Samples\<close> has a concrete
  setting, \<^theory_text>\<open>Deferred_Samples\<close> runs in deferred mode, where the same does not hold. For reading:
  the structural hash is a prefix-free code of the tree of a value; the stack of the serialization
  iterator computes a recursive definition; a path leads to a value of the type it resolves to, and its
  errors name their step; on types that are not parts of themselves no violated invariant is missed,
  whatever the values point to, and \<^theory_text>\<open>Peek_Samples\<close> shows one that is missed on other types. For changing, on the same semantics of the
  effects: \<^theory_text>\<open>Poke_Memory\<close> has the contract of a call that moves a value into another one,
  \<^theory_text>\<open>Poke_Safety\<close> the operations on every branch, \<^theory_text>\<open>Poke_Runs\<close> runs of changes at paths that stay inside
  the value (the elements of a list are in another block, which the value does not show). Relied on is
  \<^theory_text>\<open>poke_layout\<close>, that fields, elements and contents lie in their value, and \<^theory_text>\<open>mut_agrees\<close>, that the
  tables show the same elements for reading and changing; \<^theory_text>\<open>Poke_Samples\<close> has an instance. Further: the variance
  lattice and the rules for combined types, the order and coverage of the walk and where its paths
  lead, and the rename rules, which snake case undoes. For the derive macro: unescaping reads exactly
  the documented escapes (\<^theory_text>\<open>Macro_Text\<close>), what is kept of attributes, which lists of representation
  hints agree and in which order errors come (\<^theory_text>\<open>Macro_Attrs\<close>), where a generic parameter is added
  (\<^theory_text>\<open>Macro_Generics\<close>), and the names of variants and fields (\<^theory_text>\<open>Macro_Items\<close>); \<^theory_text>\<open>Macro_Samples\<close> has instances. The theorems in this file are the properties, each after a sentence that says
  what it states; \<^theory_text>\<open>Samples\<close> and \<^theory_text>\<open>Plan_Samples\<close> hold the concrete shapes of their instances.

  Not modelled: the static vtables and shapes of
  library types (facet-core/src/impls), printing (facet-pretty, \<open>Display\<close> of errors), the code that the derive macros
  generate (facet-macros-impl) and their grammar (unsynn), the templates of facet-macro-template, which
  no crate uses, caching locks, the proxies of \<open>custom_serialization\<close>, \<open>set_from_peek\<close> and the typed wrappers
  of the builder, which add static types to the operations modelled here. The string metric of
  strsim, regular expressions, custom validators and the Unicode tables are parameters.
\<close>

section \<open>Building values\<close>

text \<open>C1: building a struct or an array in strict mode never leaks, never drops a value twice and
  never frees memory that holds one. Whatever operations are called on a fresh partial value, in
  whatever order, none panics; a call that fails has given everything back, every drop found a value and
  every block was freed with its size; and a partial value that is dropped after any number of
  operations gives everything back.\<close>

theorem strict_runs_release:
  assumes set: "strict_setting H S fp c" and root: "leads_to S c (pc_root c) s"
    and start: "alloc_with_plan H S c world_start = Some (Some (p, w))"
  shows "case run_ops H S ops p w of
      Panic \<Rightarrow> False
    | Failed e path w' \<Rightarrow> run_log H fp (w_log w') mem_empty = Some mem_empty
    | Done p' w' \<Rightarrow>
        (\<exists>w''. partial_drop H S p' w' = Some w'' \<and> run_log H fp (w_log w'') mem_empty = Some mem_empty)"
proof -
  have "attempt_ok H S fp c (run_ops H S ops p w)"
    by (rule run_ops_ok [OF set alloc_ok [OF set root start]])
  then show ?thesis
    using strict_drop [OF setting_layout [OF set]] by (cases "run_ops H S ops p w") simp_all
qed

theorem strict_runs_release_witness:
  "\<exists>w''. partial_drop build_H build_S (fst build_result) (snd build_result) = Some w''
     \<and> run_log build_H build_fp (w_log w'') mem_empty = Some mem_empty"
  using strict_runs_release [OF build_setting build_root build_alloc, of build_ops] by (simp add: build_run)



text \<open>C3: the slots of a rope stay where they are. Any number of slots can be taken from a new
  rope of elements that have a size: no push panics, every address that was handed out is still
  the address of its slot at the end and lies in a chunk of the rope, different slots do not overlap,
  and draining visits the initialised slots in their order and frees each chunk once.\<close>

theorem rope_slots:
  assumes "rope_new n = Some r" and "m \<le> k"
  shows "\<exists>ps r' w'. pushes k r w = Some (ps, r', w') \<and> length ps = k
    \<and> (\<forall>i < k. slot_ptr r' i = Some (ps ! i) \<and> slot_in r' (ps ! i))
    \<and> (\<forall>i < k. \<forall>j < k. i \<noteq> j \<longrightarrow> slots_disjoint n (ps ! i) (ps ! j))
    \<and> distinct (rp_chunks r')
    \<and> (\<exists>d. drain_into f (r'\<lparr>rp_initialized_count := m\<rparr>) w' = Some (d,
         emits (map f (take m ps) @ map (\<lambda>c. Ef_Dealloc c (chunk_size r')) (rp_chunks r')) w'))"
proof -
  have new: "rope_wf r w" "rp_len r = 0" "rp_element_size r = n"
    using rope_wf_new [OF assms(1)] assms(1) by (auto simp: rope_new_def split: if_splits)
  obtain ps r' w' where run: "pushes k r w = Some (ps, r', w')"
    and r': "rope_wf r' w'" "rp_len r' = k" "rp_element_size r' = n" "length ps = k"
    "\<forall>i < k. slot_ptr r' i = Some (ps ! i)"
    using pushes_spec [OF new(1), of k] new(2,3) by auto
  have inside: "slot_in r' (ps ! i)" if "i < k" for i using slot_inside [OF r'(1)] r'(2,5) that by fastforce
  have apart: "slots_disjoint n (ps ! i) (ps ! j)" if "i < k" "j < k" "i \<noteq> j" for i j
    using slots_apart [OF r'(1), of i j] r'(2,3,5) that by simp
  let ?r = "r'\<lparr>rp_initialized_count := m\<rparr>"
  have wf: "rope_wf ?r w'" and same: "slot_ptr ?r i = slot_ptr r' i" "chunk_size ?r = chunk_size r'" for i
    using r'(1,2) assms(2) by (simp_all add: rope_wf_def slot_ptr_def chunk_size_def)
  have "map (\<lambda>i. f (the (slot_ptr ?r i))) [0..<m] = map f (take m ps)"
    using r'(4,5) assms(2) by (intro nth_equalityI) (simp_all add: same)
  with drain_into_spec [OF wf, of f] have "\<exists>d. drain_into f ?r w' = Some (d,
      emits (map f (take m ps) @ map (\<lambda>c. Ef_Dealloc c (chunk_size r')) (rp_chunks r')) w')"
    by (auto simp: same)
  moreover have "distinct (rp_chunks r')" using r'(1) by (simp add: rope_wf_def)
  ultimately show ?thesis using run r'(4,5) inside apart by blast
qed

theorem rope_slots_witness:
  "\<exists>ps r w. pushes 40 (the (rope_new 8)) world_start = Some (ps, r, w) \<and> length ps = 40
     \<and> slots_disjoint 8 (ps ! 16) (ps ! 39)"
proof -
  have "rope_new 8 = Some (the (rope_new 8))" by (simp add: rope_new_def)
  from rope_slots [OF this, of 30 40 world_start "Ef_Drop 0"] obtain ps r w where
    "pushes 40 (the (rope_new 8)) world_start = Some (ps, r, w)" "length ps = 40"
    "\<forall>i < 40. \<forall>j < 40. i \<noteq> j \<longrightarrow> slots_disjoint 8 (ps ! i) (ps ! j)"
    by auto
  moreover from this(3) have "slots_disjoint 8 (ps ! 16) (ps ! 39)" by simp
  ultimately show ?thesis by blast
qed

text \<open>C4: the fast path of \<open>end\<close> changes nothing but the time it takes. Where it applies, to a complete
  scalar field of a struct, the general path does exactly the same, panics included.\<close>

theorem end_fast_path_agrees:
  assumes "fast_path p \<noteq> None" and "top_frame p = Some fr" and "frame_plans (pt_plan p) fr \<noteq> None"
  shows "end_slow H S p w = end_body H S p w"
proof -
  obtain bits idx where fast: "fast_path p = Some (bits, idx)" using assms(1) by auto
  show ?thesis using fast_is_slow [OF fast assms(2,3)] by (simp add: end_body_def fast)
qed

theorem end_fast_path_agrees_witness:
  "\<exists>p w. fast_path p \<noteq> None \<and> end_slow build_H build_S p w = end_body build_H build_S p w"
proof -
  define a where "a = run_ops build_H build_S name_entered (fst build_start) (snd build_start)"
  have "case a of Done p w \<Rightarrow> fast_path p \<noteq> None \<and> top_frame p \<noteq> None
      \<and> frame_plans (pt_plan p) (the (top_frame p)) \<noteq> None | _ \<Rightarrow> False"
    unfolding a_def by code_simp
  then obtain p where "fast_path p \<noteq> None" "top_frame p \<noteq> None"
      "frame_plans (pt_plan p) (the (top_frame p)) \<noteq> None"
    by (cases a) auto
  then show ?thesis using end_fast_path_agrees [of p "the (top_frame p)" build_H build_S world_start] by auto
qed

text \<open>C5: a field that was left in deferred mode can be entered again. Leaving a field of a struct
  or of an enum variant stores its frame under its path and marks it in the parent; entering the
  same field then finds that frame, takes it from the store and puts it back on the stack as it
  was, except that it has no current child. Neither touches memory.\<close>

theorem deferred_field_reentered:
  assumes mode: "pt_mode p = Deferred (bs @ [parent, popped]) d stored"
    and depth: "d < length bs + 2" and own: "fr_ownership popped = Own_Field idx" "\<not> fr_custom popped"
    and not_slice: "tracker_kind_of (fr_tracker popped) \<noteq> Tk_SmartPointerSlice"
    and parent: "field_tracker (fr_tracker parent) = Some (bits, Some idx, mk)"
    and bits: "iset_set bits idx = Some bits'"
  shows "\<exists>q. partial_end H S p w = Done q w
    \<and> btm_get (stored_frames q) (storage_path H p) = Some popped
    \<and> begin_nth_field H S idx q w =
        Done (p\<lparr>pt_mode := Deferred (bs @ [parent\<lparr>fr_tracker := mk bits' (Some idx)\<rparr>, restore_frame popped]) d
                (btm_remove (storage_path H p) stored)\<rparr>) w"
proof -
  define q where "q = p\<lparr>pt_mode := Deferred (bs @ [parent\<lparr>fr_tracker := mk bits' None\<rparr>]) d
      (btm_insert (storage_path H p) popped stored)\<rparr>"
  have left: "end_body H S p w = B_Ok q w"
    unfolding q_def by (rule field_stored [OF mode depth own not_slice parent bits])
  have q: "pt_mode q = Deferred (bs @ [parent\<lparr>fr_tracker := mk bits' None\<rparr>]) d
      (btm_insert (storage_path H p) popped stored)" by (simp add: q_def)
  have path: "field_check_path H q idx = storage_path H p"
    by (rule field_check_path_stored [OF mode q own(2) parent])
  have "field_tracker (mk bits' None) = Some (bits', None, mk)"
    using parent by (rule field_tracker_cases) (simp_all add: field_tracker_def)
  then have "begin_nth_field_body H S idx q w = B_Ok (q\<lparr>pt_mode :=
      Deferred (bs @ [parent\<lparr>fr_tracker := mk bits' (Some idx)\<rparr>, restore_frame popped]) d
        (btm_remove (storage_path H p) stored)\<rparr>) w"
    using field_reentered [OF q, of bits' mk H idx popped] by (simp add: path)
  moreover have "btm_get (stored_frames q) (storage_path H p) = Some popped" by (simp add: stored_frames_def q)
  ultimately show ?thesis
    using left by (intro exI [of _ q]) (simp add: partial_end_def begin_nth_field_def q_def)
qed

theorem deferred_field_reentered_witness:
  "case in_deferred name_entered of
     Done p w \<Rightarrow> \<exists>q. partial_end build_H build_S p w = Done q w
       \<and> btm_get (stored_frames q) (storage_path build_H p) \<noteq> None
   | _ \<Rightarrow> False"
proof -
  have "case in_deferred name_entered of
      Done p w \<Rightarrow>
        (case (pt_mode p, top_frame p, below_top p) of
           (Deferred fs d stored, Some popped, Some parent) \<Rightarrow>
             fs = [parent, popped] \<and> d < 2 \<and> fr_ownership popped = Own_Field 0 \<and> \<not> fr_custom popped
             \<and> fr_tracker popped = Tr_Scalar \<and> (case fr_tracker parent of
                  Tr_Struct s (Some j) \<Rightarrow> j = 0 \<and> iset_set s 0 \<noteq> None | _ \<Rightarrow> False)
         | _ \<Rightarrow> False)
    | _ \<Rightarrow> False"
    by code_simp
  then obtain p w where run: "in_deferred name_entered = Done p w"
    and at: "case (pt_mode p, top_frame p, below_top p) of
       (Deferred fs d stored, Some popped, Some parent) \<Rightarrow>
         fs = [parent, popped] \<and> d < 2 \<and> fr_ownership popped = Own_Field 0 \<and> \<not> fr_custom popped
         \<and> fr_tracker popped = Tr_Scalar \<and> (case fr_tracker parent of
              Tr_Struct s (Some j) \<Rightarrow> j = 0 \<and> iset_set s 0 \<noteq> None | _ \<Rightarrow> False)
     | _ \<Rightarrow> False"
    by (cases "in_deferred name_entered") auto
  obtain popped parent where tops: "top_frame p = Some popped" "below_top p = Some parent"
    using at by (auto split: frame_mode.splits option.splits)
  obtain d stored where p: "pt_mode p = Deferred ([] @ [parent, popped]) d stored" "d < length ([] :: frame list) + 2"
      "fr_ownership popped = Own_Field 0" "\<not> fr_custom popped" "fr_tracker popped = Tr_Scalar"
    using at by (cases "pt_mode p") (simp_all add: tops)
  obtain s s' where s: "fr_tracker parent = Tr_Struct s (Some 0)" "iset_set s 0 = Some s'"
    using at by (cases "fr_tracker parent") (auto simp: tops p(1) split: option.splits)
  have "field_tracker (fr_tracker parent) = Some (s, Some 0, Tr_Struct)" by (simp add: field_tracker_def s)
  moreover have "tracker_kind_of (fr_tracker popped) \<noteq> Tk_SmartPointerSlice" by (simp add: p(5))
  ultimately show ?thesis
    using deferred_field_reentered [OF p(1-4) _ _ s(2), of Tr_Struct build_H build_S w] by (auto simp: run)
qed

section \<open>Reading values\<close>



text \<open>C7: serialization sees the fields it should. The iterator over the fields of a value, which keeps a
  stack of what is left to visit, ends and yields exactly the items of the recursive definition, in
  depth-first order: fields that are not skipped, the fields of flattened structs in place of the
  struct, the active variant of a flattened enum, the entries of a flattened map by their keys; it
  panics where the definition has no items. This holds with predicates for skipping and, for binary
  formats, without.\<close>

theorem serialization_visits_fields:
  assumes "serial_fields n V S True fs \<noteq> Overrun" and "serial_fields n V S False fs \<noteq> Overrun"
  shows "fields_for_serialize V S fs =
      (case serial_fields n V S True fs of Ok items \<Rightarrow> Some (Some items) | _ \<Rightarrow> Some None)
    \<and> fields_for_binary_serialize V S fs =
      (case serial_fields n V S False fs of Ok items \<Rightarrow> Some (Some items) | _ \<Rightarrow> Some None)"
proof -
  have "ser_collect V S b [Ser_Fields fs] = (case serial_fields n V S b fs of Ok items \<Rightarrow> Some (Some items) | _ \<Rightarrow> Some None)"
    if "serial_fields n V S b fs \<noteq> Overrun" for b
    using collect_fields [OF that, of "[]"] that by (cases "serial_fields n V S b fs") (simp_all add: before.simps)
  then show ?thesis using assms by (simp add: fields_for_serialize_def fields_for_binary_serialize_def)
qed

theorem serialization_visits_fields_witness:
  "(\<exists>items. fields_for_serialize peek_V peek_S (entry_fields 0) = Some (Some items) \<and>
      map (\<lambda>(it, p). (it_name it, p)) items =
        [(''name'', peek_at 0 (Ptr 0 0)), (''id'', peek_at 0 (Ptr 0 24)), (''kind'', peek_at 0 (Ptr 9 24))])
   \<and> (\<exists>items. fields_for_binary_serialize peek_V peek_S (entry_fields 0) = Some (Some items) \<and>
      map (\<lambda>(it, p). (it_name it, p)) items =
        [(''name'', peek_at 0 (Ptr 0 0)), (''id'', peek_at 0 (Ptr 0 24)), (''kind'', peek_at 0 (Ptr 9 24)),
         (''nick'', peek_at 1 (Ptr 0 96))])"
proof -
  let ?named = "\<lambda>r l. case r of Ok items \<Rightarrow> map (\<lambda>(it, p). (it_name it, p)) items = l | _ \<Rightarrow> False"
  have "?named (serial_fields 3 peek_V peek_S True (entry_fields 0))
      [(''name'', peek_at 0 (Ptr 0 0)), (''id'', peek_at 0 (Ptr 0 24)), (''kind'', peek_at 0 (Ptr 9 24))]"
    by code_simp
  moreover have "?named (serial_fields 3 peek_V peek_S False (entry_fields 0))
      [(''name'', peek_at 0 (Ptr 0 0)), (''id'', peek_at 0 (Ptr 0 24)), (''kind'', peek_at 0 (Ptr 9 24)),
       (''nick'', peek_at 1 (Ptr 0 96))]"
    by code_simp
  ultimately show ?thesis
    using serialization_visits_fields [of 3 peek_V peek_S "entry_fields 0"]
    by (cases "serial_fields 3 peek_V peek_S True (entry_fields 0)";
        cases "serial_fields 3 peek_V peek_S False (entry_fields 0)") simp_all
qed

text \<open>C8: following a path through a value agrees with the type. When a path that names the variant
  before each field of an enum leads from a value to another, resolving it through the type gives
  the shape of that value; when it fails, the error names the first step that fails, and no step only
  for a path that starts at another type.\<close>

theorem value_paths_follow_types:
  assumes "at_path V S p path = Some r" and "p_shape path = pk_shape p"
    and "names_variants S (p_steps path) (pk_shape p, None)"
  shows "case r of
      Inr q \<Rightarrow> \<exists>v. resolve_steps S (p_steps path) (pk_shape p, None) = Some (pk_shape q, v)
    | Inl e \<Rightarrow> \<exists>i q. i < length (p_steps path) \<and> error_step e = Some i
        \<and> apply_steps V S 0 (take i (p_steps path)) p = Some (Inr q) \<and> apply_step V S q (p_steps path ! i) i = Some (Inl e)"
proof -
  have run: "apply_steps V S 0 (p_steps path) p = Some r"
    using assms(1,2) by (simp add: at_path_def same_shape_def)
  show ?thesis
  proof (cases r)
    case (Inr q)
    have "state_fits V S p (pk_shape p, None)" by (simp add: state_fits_def)
    from steps_follow_type [OF run [unfolded Inr] this assms(3)] show ?thesis
      by (auto simp: Inr state_fits_def)
  next
    case (Inl e)
    from apply_steps_error [OF run [unfolded Inl]] show ?thesis by (auto simp: Inl)
  qed
qed

theorem value_paths_follow_types_witness:
  "\<exists>v. resolve_steps peek_S [Step_Field 3, Step_OptionSome] (4, None) = Some (0, v)"
proof -
  let ?path = "\<lparr>p_shape = 4, p_steps = [Step_Field 3, Step_OptionSome]\<rparr>"
  have "at_path peek_V peek_S (entry_at 0) ?path = Some (Inr (peek_at 0 (Ptr 9 48)))" by code_simp
  moreover have "names_variants peek_S (p_steps ?path) (4, None)" by code_simp
  ultimately show ?thesis
    using value_paths_follow_types [of peek_V peek_S "entry_at 0" ?path] by (simp add: entry_at_def)
qed



section \<open>Changing values\<close>



text \<open>C11: a path leads to the same place for changing as for reading. As long as its steps are fields,
  variants, elements and contents of options, the part, the error or the panic is the same; the first
  other step that is reached is refused, as one without a target where the value is of the kind the
  step is for, and as a step of the wrong kind otherwise.\<close>

theorem mutable_paths_agree:
  assumes "mut_agrees V M S"
  shows "at_path_mut V M S p path =
     (case at_path V S p (path\<lparr>p_steps := takeWhile mutable_step (p_steps path)\<rparr>) of
        Some (Inr q) \<Rightarrow>
          (case dropWhile mutable_step (p_steps path) of
             [] \<Rightarrow> Some (Inr q)
           | step # rest \<Rightarrow> refused S q step (length (takeWhile mutable_step (p_steps path))))
      | r \<Rightarrow> r)"
  by (simp add: at_path_mut_def at_path_def apply_steps_mut_agree [OF assms, where k = 0, unfolded add_0])

theorem mutable_paths_agree_witness:
  "at_path_mut poke_V poke_M build_S poke_root (poke_path [Step_Field 1, Step_Index 1])
     = at_path poke_V build_S poke_root (poke_path [Step_Field 1, Step_Index 1])
   \<and> at_path_mut poke_V poke_M build_S poke_root (poke_path [Step_Field 0, Step_Deref])
     = Some (Inl (Pae_Wrong_Step_Kind Step_Deref 1 0))"
proof
  show "at_path_mut poke_V poke_M build_S poke_root (poke_path [Step_Field 1, Step_Index 1])
      = at_path poke_V build_S poke_root (poke_path [Step_Field 1, Step_Index 1])"
    using mutable_paths_agree [OF poke_agrees, of poke_root "poke_path [Step_Field 1, Step_Index 1]"]
    by (simp add: poke_path_def split: option.splits sum.splits)
  show "at_path_mut poke_V poke_M build_S poke_root (poke_path [Step_Field 0, Step_Deref])
      = Some (Inl (Pae_Wrong_Step_Kind Step_Deref 1 0))"
    by code_simp
qed

section \<open>The schema builder\<close>

text \<open>C12: every schema the builder returns is well formed. Building the indexes never panics,
  and each resolution has fields keyed by category and name, required names that are names of
  its fields and cover its required fields, key paths that are closed under prefixes and hold
  the name of every field, and categories that fit the format.\<close>

theorem schema_resolutions_wellformed:
  assumes "into_schema b S n = Ok out"
  shows "\<exists>sc. out = Some sc \<and> sc_format sc = sb_format b \<and> analyze b S n = Ok (sc_resolutions sc)
    \<and> (\<forall>r \<in> set (sc_resolutions sc).
         res_wf r \<and> paths_closed r \<and> categories_fit (sb_format b) r)"
  using into_schema_wf [OF assms] by (auto simp: schema_wf_def)

theorem schema_resolutions_wellformed_witness:
  "list_all (\<lambda>r. res_wf r \<and> paths_closed r \<and> categories_fit Format_Flat r)
     (sc_resolutions sample_schema) \<and> length (sc_resolutions sample_schema) = 2"
  using schema_resolutions_wellformed [of "builder_new 3 Repr_Flattened" sample_S 4 "Some sample_schema"]
    sample_build sample_len
  by (auto simp: schema_build_def schema_build_with_repr_def list_all_iff builder_new_def)

text \<open>C13: the inverted indexes are exact. The bit set stored under a name holds exactly the
  indices of the resolutions that have a field of that name, a name without an entry is in no
  resolution, and in a DOM schema the same holds of the index by category and name.\<close>

theorem schema_indexes_exact:
  assumes "into_schema b S n = Ok (Some sc)"
  shows "(case btm_get (sc_field_to_resolutions sc) name of None \<Rightarrow> {} | Some s \<Rightarrow> rs_elems s)
      = {i. i < length (sc_resolutions sc) \<and> (\<exists>f \<in> field_infos (sc_resolutions sc ! i). fi_name f = name)}
    \<and> (sb_format b = Format_Dom \<longrightarrow>
        (case btm_get (sc_dom_field_to_resolutions sc) (c, name) of None \<Rightarrow> {} | Some s \<Rightarrow> rs_elems s)
        = {i. i < length (sc_resolutions sc)
             \<and> (\<exists>f \<in> field_infos (sc_resolutions sc ! i). fi_category f = c \<and> fi_name f = name)})"
  using into_schema_wf [OF assms] index_inv_get [of _ _ "sc_field_to_resolutions sc" name]
    index_inv_get [of _ _ "sc_dom_field_to_resolutions sc" "(c, name)"]
  by (auto simp: schema_wf_def having_def)

theorem schema_indexes_exact_witness:
  "(case btm_get (sc_field_to_resolutions sample_schema) ''extra'' of
      None \<Rightarrow> {} | Some s \<Rightarrow> rs_elems s)
    = {i. i < length (sc_resolutions sample_schema)
         \<and> (\<exists>f \<in> field_infos (sc_resolutions sample_schema ! i). fi_name f = ''extra'')}"
  using schema_indexes_exact [of "builder_new 3 Repr_Flattened" sample_S 4 sample_schema "''extra''"]
    sample_build
  by (auto simp: schema_build_def schema_build_with_repr_def)



text \<open>C15: adding a field fails exactly when the resolution already has a field under the same
  key that is reached by another path, and the error names both paths; otherwise the field is
  stored under its key and no other entry changes.\<close>

theorem add_field_decides:
  assumes "res_wf r"
  shows "case add_field r i of
      Overrun \<Rightarrow> False
    | Err e \<Rightarrow> \<exists>j. btm_get (rn_fields r) (info_key i) = Some j \<and> fi_path j \<noteq> fi_path i
        \<and> e = \<lparr>de_field_name = fi_name i, de_first_path = fi_path j, de_second_path = fi_path i\<rparr>
    | Ok r' \<Rightarrow> res_wf r'
        \<and> (\<forall>k. btm_get (rn_fields r') k = (if k = info_key i then Some i else btm_get (rn_fields r) k))
        \<and> (case btm_get (rn_fields r) (info_key i) of None \<Rightarrow> True | Some j \<Rightarrow> fi_path j = fi_path i)"
proof (cases "add_field r i")
  case (Ok r')
  then have "path_conflict (info_key i) i r = None" "r' = insert_field (info_key i) i r"
    by (simp_all add: add_field_eq_Ok)
  with res_wf_add_field [OF assms Ok] show ?thesis
    by (auto simp: Ok path_conflict_eq_None split: option.splits)
qed (auto simp: add_field_def Let_def path_conflict_eq_Some split: option.splits)

theorem add_field_decides_witness:
  "case add_field resolution_new (selector_info (plain_field 0 ''a'' 0) 0 ''a'' [] False) of
      Ok r' \<Rightarrow> res_wf r' | _ \<Rightarrow> False"
  using add_field_decides [OF res_wf_new, of "selector_info (plain_field 0 ''a'' 0) 0 ''a'' [] False"]
  by (auto simp: resolution_new_def split: outcome.splits)

text \<open>Merging two resolutions succeeds exactly when no key has different paths in them; the
  result has the fields of both, those of the second where both have the key, and the key
  paths of both.\<close>

theorem merge_decides:
  assumes "res_wf a" and "res_wf b"
  shows "((\<exists>c. merge a b = Ok c) \<longleftrightarrow>
      \<not> (\<exists>k i j. btm_get (rn_fields a) k = Some i \<and> btm_get (rn_fields b) k = Some j
           \<and> fi_path i \<noteq> fi_path j))
    \<and> (\<forall>c. merge a b = Ok c \<longrightarrow> res_wf c
         \<and> (\<forall>k. btm_get (rn_fields c) k = (case btm_get (rn_fields b) k of
              Some i \<Rightarrow> Some i | None \<Rightarrow> btm_get (rn_fields a) k))
         \<and> set (rn_known_paths c) = set (rn_known_paths a) \<union> set (rn_known_paths b))
    \<and> merge a b \<noteq> Overrun"
  using merge_Ok_iff [OF assms(2), of a] res_wf_merge [OF assms] merge_get [OF _ assms(2), of a]
    known_paths_merge [of a b]
  by auto

theorem merge_decides_witness:
  "\<exists>c. merge (sc_resolutions sample_schema ! 0) (sc_resolutions sample_schema ! 0) = Ok c"
proof -
  have "res_wf (sc_resolutions sample_schema ! 0)"
    using sample_wf sample_len by (simp add: schema_wf_def)
  from merge_decides [OF this this] show ?thesis by auto
qed

section \<open>The solver\<close>

text \<open>C16: reporting a key never panics and keeps the solver's invariant. The candidates are
  narrowed to those that hold the key, or left alone if none does, and the answer tells which:
  unknown when no candidate holds it, solved when exactly one does, and otherwise the shapes
  that the candidates expect under the key, without repetition and with their scores.\<close>

theorem see_key_narrows:
  assumes "solver_wf sv"
  shows "\<exists>sv' res. see_key S sv k = Some (sv', res) \<and> solver_wf sv'
    \<and> sv_schema sv' = sv_schema sv \<and> set (sv_seen_keys sv') = insert k (set (sv_seen_keys sv))
    \<and> cand_set sv' = (if cand_set sv \<inter> key_holders (sv_schema sv) k = {} then cand_set sv
        else cand_set sv \<inter> key_holders (sv_schema sv) k)
    \<and> key_answer S sv (cand_set sv \<inter> key_holders (sv_schema sv) k) k res"
  using see_key_run [OF assms, of S k] by (fastforce simp: narrow_def)

theorem see_key_narrows_witness:
  "\<exists>sv'. see_key sample_S (solver_new sample_schema) (Key_Flat ''extra'')
     = Some (sv', Key_Solved \<lparr>h_index = 1, h_resolution = sc_resolutions sample_schema ! 1\<rparr>)"
proof -
  have "{..<2} \<inter> key_holders sample_schema (Key_Flat ''extra'') = {1}"
    unfolding sample_holders by (auto simp: sample_names_def split: if_splits)
  then show ?thesis
    using see_key_narrows [OF solver_wf_new [OF sample_wf], of sample_S "Key_Flat ''extra''"]
    by (auto simp: cand_set_new sample_len key_answer_def)
qed



text \<open>C18: \<open>finish\<close> never panics and decides by the viable candidates, those whose required
  fields were all seen: the handle of the only one, an ambiguity error listing all of them in
  order with the fields that tell them apart, or a mismatch that reports the keys no resolution
  knows and one failure per candidate.\<close>

theorem finish_decides:
  assumes "solver_wf sv"
  shows "\<exists>out. finish m S sv = Some out \<and>
    (case out of
       Ok h \<Rightarrow> viable_set sv = {h_index h} \<and> h_resolution h = config_at sv (h_index h)
     | Err (Ambiguous_Match cs ds) \<Rightarrow> 2 \<le> card (viable_set sv)
         \<and> cs = map (\<lambda>i. describe (config_at sv i)) (sorted_list_of_set (viable_set sv))
         \<and> set ds = {n. (\<exists>i \<in> viable_set sv. n \<in> fi_name ` field_infos (config_at sv i))
              \<and> (\<exists>i \<in> viable_set sv. n \<notin> fi_name ` field_infos (config_at sv i))}
     | Err (No_Match inp mr mrd unk cl fs sg) \<Rightarrow> viable_set sv = {}
         \<and> set unk = {key_name k | k. k \<in> set (sv_seen_keys sv)
              \<and> (\<forall>r \<in> set (sc_resolutions (sv_schema sv)). key_name k \<notin> fi_name ` field_infos r)}
         \<and> length fs = (if cand_set sv = {} then num_resolutions sv else card (cand_set sv))
     | Overrun \<Rightarrow> False)"
proof -
  obtain out where out: "finish m S sv = Some out" "finish_answer sv out"
    using finish_run [OF assms] by blast
  let ?V = "viable_set sv"
  have "finite ?V" by (simp add: viable_set_def cand_set_def)
  then have D: "set (find_disambiguating_fields (map (config_at sv) (sorted_list_of_set ?V)))
      = {n. (\<exists>i \<in> ?V. n \<in> fi_name ` field_infos (config_at sv i))
           \<and> (\<exists>i \<in> ?V. n \<notin> fi_name ` field_infos (config_at sv i))}"
    unfolding set_eq_iff disambiguating_iff by simp
  have K: "{key_name k | k. k \<in> set (sv_seen_keys sv)
        \<and> key_name k \<notin> set (all_known_fields (sv_schema sv))}
      = {key_name k | k. k \<in> set (sv_seen_keys sv)
          \<and> (\<forall>r \<in> set (sc_resolutions (sv_schema sv)). key_name k \<notin> fi_name ` field_infos r)}"
    unfolding set_all_known_fields by simp
  note answer = out(2) [unfolded finish_answer_def K]
  show ?thesis
  proof (intro exI [of _ out] conjI out(1), cases out)
    case (Err e)
    with answer show "case out of
       Ok h \<Rightarrow> ?V = {h_index h} \<and> h_resolution h = config_at sv (h_index h)
     | Err (Ambiguous_Match cs ds) \<Rightarrow> 2 \<le> card ?V
         \<and> cs = map (\<lambda>i. describe (config_at sv i)) (sorted_list_of_set ?V)
         \<and> set ds = {n. (\<exists>i \<in> ?V. n \<in> fi_name ` field_infos (config_at sv i))
              \<and> (\<exists>i \<in> ?V. n \<notin> fi_name ` field_infos (config_at sv i))}
     | Err (No_Match inp mr mrd unk cl fs sg) \<Rightarrow> ?V = {}
         \<and> set unk = {key_name k | k. k \<in> set (sv_seen_keys sv)
              \<and> (\<forall>r \<in> set (sc_resolutions (sv_schema sv)). key_name k \<notin> fi_name ` field_infos r)}
         \<and> length fs = (if cand_set sv = {} then num_resolutions sv else card (cand_set sv))
     | Overrun \<Rightarrow> False"
      by (cases e) (simp_all add: D del: image_iff)
  qed (use answer in simp_all)
qed

theorem finish_decides_witness:
  "\<exists>out. finish \<lparr>me_similarity = (\<lambda>a b. 0 :: nat), me_threshold = 1, me_zero = 0, me_percent = id\<rparr>
      sample_S (solver_new sample_schema) = Some out
    \<and> (case out of Err (No_Match inp mr mrd unk cl fs sg) \<Rightarrow> length fs = 2 | _ \<Rightarrow> False)"
proof -
  have "viable_set (solver_new sample_schema) = {}"
    by (auto simp: viable_set_def cand_set_new sample_len is_viable_iff sample_at(2) sample_names_def)
  moreover have "card (cand_set (solver_new sample_schema)) = 2"
    and "cand_set (solver_new sample_schema) \<noteq> {}"
    by (auto simp: cand_set_new sample_len lessThan_empty_iff)
  ultimately show ?thesis
    using finish_decides [OF solver_wf_new [OF sample_wf],
        of "\<lparr>me_similarity = (\<lambda>a b. 0 :: nat), me_threshold = 1, me_zero = 0, me_percent = id\<rparr>" sample_S]
    by (fastforce split: outcome.splits solver_error.splits)
qed

text \<open>C19: a whole run reaches the intended resolution. If some resolution holds all the reported
  keys, and among those that do exactly one has all its required fields reported, then feeding
  the keys in any order and finishing returns the handle of that one.\<close>

theorem run_reaches_resolution:
  assumes "schema_wf sc"
    and "\<exists>j < length (sc_resolutions sc). \<forall>k \<in> set ks. key_holders sc k \<noteq> {} \<longrightarrow> j \<in> key_holders sc k"
    and "{j. j < length (sc_resolutions sc)
          \<and> (\<forall>k \<in> set ks. key_holders sc k \<noteq> {} \<longrightarrow> j \<in> key_holders sc k)
          \<and> set (rn_required_field_names (sc_resolutions sc ! j)) \<subseteq> key_name ` set ks} = {i}"
  shows "\<exists>sv. see_keys S ks (solver_new sc) = Some sv
    \<and> finish m S sv = Some (Ok \<lparr>h_index = i, h_resolution = sc_resolutions sc ! i\<rparr>)"
proof (rule run_finishes [OF assms(1)])
  show "{..<length (sc_resolutions sc)} \<inter> all_holders sc (set ks) \<noteq> {}"
    using assms(2) by (auto simp: all_holders_def)
  show "{j \<in> {..<length (sc_resolutions sc)} \<inter> all_holders sc (set ks).
      set (rn_required_field_names (sc_resolutions sc ! j)) \<subseteq> key_name ` set ks} = {i}"
    using assms(3) by (auto simp: all_holders_def)
qed

theorem run_reaches_resolution_witness:
  "\<exists>sv. see_keys sample_S [Key_Flat ''size'', Key_Flat ''name''] (solver_new sample_schema) = Some sv
    \<and> finish \<lparr>me_similarity = (\<lambda>a b. 0 :: nat), me_threshold = 1, me_zero = 0, me_percent = id\<rparr>
        sample_S sv = Some (Ok \<lparr>h_index = 0, h_resolution = sc_resolutions sample_schema ! 0\<rparr>)"
proof (rule run_reaches_resolution [OF sample_wf])
  show "\<exists>j < length (sc_resolutions sample_schema). \<forall>k \<in> set [Key_Flat ''size'', Key_Flat ''name''].
      key_holders sample_schema k \<noteq> {} \<longrightarrow> j \<in> key_holders sample_schema k"
    by (force simp: sample_len sample_holders sample_names_def)
  show "{j. j < length (sc_resolutions sample_schema)
      \<and> (\<forall>k \<in> set [Key_Flat ''size'', Key_Flat ''name''].
           key_holders sample_schema k \<noteq> {} \<longrightarrow> j \<in> key_holders sample_schema k)
      \<and> set (rn_required_field_names (sc_resolutions sample_schema ! j))
          \<subseteq> key_name ` set [Key_Flat ''size'', Key_Flat ''name'']} = {0}"
  proof (rule set_eqI)
    fix j :: nat
    consider "j = 0" | "j = 1" | "2 \<le> j" by linarith
    then show "j \<in> {j. j < length (sc_resolutions sample_schema)
        \<and> (\<forall>k \<in> set [Key_Flat ''size'', Key_Flat ''name''].
             key_holders sample_schema k \<noteq> {} \<longrightarrow> j \<in> key_holders sample_schema k)
        \<and> set (rn_required_field_names (sc_resolutions sample_schema ! j))
            \<subseteq> key_name ` set [Key_Flat ''size'', Key_Flat ''name'']} \<longleftrightarrow> j \<in> {0}"
      by cases (simp_all add: sample_len sample_holders sample_at(2) sample_names_def)
  qed
qed

text \<open>C20: reporting the shapes a value satisfies keeps exactly the candidates with a field of
  one of those shapes (none for no shape), and answers by how many remain; reporting them at a
  nested path keeps exactly the candidates whose field at the path has one of the shapes.\<close>

theorem satisfy_keeps:
  assumes "solver_wf sv"
  shows "(\<exists>sv' res. satisfy sv fs = Some (sv', res) \<and> solver_wf sv'
      \<and> cand_set sv' = {i \<in> cand_set sv. \<exists>f \<in> field_infos (config_at sv i). \<exists>g \<in> set fs.
          fi_value_shape f = fi_value_shape g}
      \<and> satisfy_answer sv (cand_set sv') res)
    \<and> (\<exists>sv' res. satisfy_at_path S sv p ss = Some (sv', res) \<and> solver_wf sv'
      \<and> cand_set sv' = {i \<in> cand_set sv. \<exists>s \<in> set ss. get_shape_at_path S (config_at sv i) p = Some s}
      \<and> satisfy_answer sv (cand_set sv') res)"
proof -
  have shapes: "{i \<in> cand_set sv. \<exists>f \<in> field_infos (config_at sv i). fi_value_shape f \<in> set (map fi_value_shape fs)}
      = {i \<in> cand_set sv. \<exists>f \<in> field_infos (config_at sv i). \<exists>g \<in> set fs. fi_value_shape f = fi_value_shape g}"
    by auto
  obtain sv1 res1 where "satisfy_shapes sv (map fi_value_shape fs) = Some (sv1, res1)" "solver_wf sv1"
    "cand_set sv1 = {i \<in> cand_set sv. \<exists>f \<in> field_infos (config_at sv i). \<exists>g \<in> set fs.
        fi_value_shape f = fi_value_shape g}" "satisfy_answer sv (cand_set sv1) res1"
    using satisfy_shapes_run [OF assms, of "map fi_value_shape fs"] unfolding shapes by blast
  moreover obtain sv2 res2 where "satisfy_at_path S sv p ss = Some (sv2, res2)" "solver_wf sv2"
    "cand_set sv2 = {i \<in> cand_set sv. \<exists>s \<in> set ss. get_shape_at_path S (config_at sv i) p = Some s}"
    "satisfy_answer sv (cand_set sv2) res2"
    using satisfy_at_path_run [OF assms, of S p ss] by blast
  ultimately show ?thesis unfolding satisfy_def by blast
qed

theorem satisfy_keeps_witness:
  "\<exists>sv'. satisfy_at_path sample_S (solver_new sample_schema) [''size''] [] = Some (sv', Sat_NoMatch)"
  using satisfy_keeps [OF solver_wf_new [OF sample_wf], of "[]" sample_S "[''size'']" "[]"]
  by (auto simp: satisfy_answer_def)

text \<open>A variant hint keeps exactly the candidates that select the variant, and changes
  nothing when there is none; the guarded form also needs a candidate with a field of the given
  name whose enum is internally tagged by it. The answer tells whether the hint was applied.\<close>

theorem hints_keep:
  assumes "solver_wf sv"
  shows "\<exists>sv' b. hint_variant_for_tag S sv t v = Some (sv', b) \<and> solver_wf sv'
    \<and> sv_seen_keys sv' = sv_seen_keys sv
    \<and> (b \<longleftrightarrow> (\<exists>i \<in> cand_set sv. \<exists>f \<in> field_infos (config_at sv i). is_tag_field S t f)
           \<and> (\<exists>i \<in> cand_set sv. selects v (config_at sv i)))
    \<and> cand_set sv' = (if b then {i \<in> cand_set sv. selects v (config_at sv i)} else cand_set sv)
    \<and> cand_set sv' \<noteq> {} = (cand_set sv \<noteq> {})"
  using hint_for_tag_run [OF assms, of S t v] by fastforce

theorem hints_keep_witness:
  "\<exists>sv' b. hint_variant_for_tag tagged_S (solver_new tagged_schema) ''type'' ''A'' = Some (sv', b)
     \<and> solver_wf sv'"
  using hints_keep [OF solver_wf_new [OF tagged_wf], of tagged_S "''type''" "''A''"] by blast

text \<open>C21: the probing solver and the solver agree. After any sequence of probed keys the
  probing solver's candidates are, in order, the resolutions at the solver's candidate
  indices.\<close>

theorem probing_solver_refines:
  assumes "schema_wf sc"
  shows "ps_candidates (fold (\<lambda>(p, k) ps. fst (probing_probe_key ps p k)) pks (probing_new sc))
    = map ((!) (sc_resolutions sc))
        (sorted_list_of_set (cand_set
          (fold (\<lambda>(p, k) sv. fst (the (probe_key S sv p k))) pks (solver_new sc))))"
proof -
  have "(\<lambda>(p, k) ps. fst (probing_probe_key ps p k)) = probe_step"
    and "(\<lambda>(p, k) sv. fst (the (probe_key S sv p k))) = solver_probe_step S"
    by (simp_all add: fun_eq_iff probe_step_def solver_probe_step_def)
  then show ?thesis using probing_refines [OF assms, of pks S] by simp
qed

theorem probing_solver_refines_witness:
  "ps_candidates (fold (\<lambda>(p, k) ps. fst (probing_probe_key ps p k)) [([], ''extra'')]
      (probing_new sample_schema))
    = map ((!) (sc_resolutions sample_schema))
        (sorted_list_of_set (cand_set
          (fold (\<lambda>(p, k) sv. fst (the (probe_key sample_S sv p k))) [([], ''extra'')]
            (solver_new sample_schema))))"
  by (rule probing_solver_refines [OF sample_wf])

text \<open>The order in which keys are probed does not matter, a repeated probe changes
  nothing, and the answer at the end tells whether none, exactly one or several of the
  resolutions know all the probed paths.\<close>

theorem probing_answers:
  assumes "set pks = set qks"
  shows "probing_finish (fold (\<lambda>(p, k) ps. fst (probing_probe_key ps p k)) pks (probing_from_resolutions rs))
      = probing_finish (fold (\<lambda>(p, k) ps. fst (probing_probe_key ps p k)) qks (probing_from_resolutions rs))
    \<and> probing_finish (fold (\<lambda>(p, k) ps. fst (probing_probe_key ps p k)) pks (probing_from_resolutions rs))
      = (case filter (\<lambda>r. \<forall>(p, k) \<in> set pks. p @ [k] \<in> set (rn_known_paths r)) rs of
           [] \<Rightarrow> Probe_NoMatch | [r] \<Rightarrow> Probe_Solved r | _ \<Rightarrow> Probe_KeepGoing)"
proof -
  have step: "(\<lambda>(p, k) ps. fst (probing_probe_key ps p k)) = probe_step"
    by (simp add: fun_eq_iff probe_step_def)
  have "(\<lambda>r. \<forall>(p, k) \<in> set zs. p @ [k] \<in> set (rn_known_paths r)) = (\<lambda>r. \<forall>pk \<in> set zs. on_path pk r)" for zs
    by (auto simp: on_path_def fun_eq_iff)
  then show ?thesis
    unfolding step by (simp add: probing_finish_def probing_run probing_from_resolutions_def assms)
qed

theorem probing_answers_witness:
  "probing_finish (fold (\<lambda>(p, k) ps. fst (probing_probe_key ps p k)) [([], ''a''), ([], ''a'')]
      (probing_from_resolutions []))
    = probing_finish (fold (\<lambda>(p, k) ps. fst (probing_probe_key ps p k)) [([], ''a'')]
      (probing_from_resolutions []))"
  using probing_answers [of "[([], ''a''), ([], ''a'')]" "[([], ''a'')]" "[]"] by simp

text \<open>Probing a nested key keeps exactly the candidates that know the path, and answers by
  the shapes they have there: solved, unknown, unambiguous, or ambiguous.\<close>

theorem probe_key_answers:
  assumes "solver_wf sv"
  shows "\<exists>sv' res. probe_key S sv path key = Some (sv', res) \<and> solver_wf sv'
    \<and> cand_set sv' = {i \<in> cand_set sv. path @ [key] \<in> set (rn_known_paths (config_at sv i))}
    \<and> probe_answer S sv (cand_set sv') (path @ [key]) res"
  using probe_key_run [OF assms, of S path key] by (fastforce simp: on_path_def)

theorem probe_key_answers_witness:
  "\<exists>sv' res. probe_key sample_S (solver_new sample_schema) [] ''extra'' = Some (sv', res) \<and> solver_wf sv'"
  using probe_key_answers [OF solver_wf_new [OF sample_wf], of sample_S "[]" "''extra''"] by blast

text \<open>Suggestions are the closest known fields. An unknown field gets a suggestion exactly
  when some known field reaches the threshold, the suggestion is a known field with the
  similarity reported, and no known field is more similar.\<close>

theorem suggestions_closest:
  "(\<forall>sg \<in> set (compute_suggestions m unknown known).
      fs_unknown sg \<in> set unknown \<and> fs_suggestion sg \<in> set known
      \<and> fs_similarity sg = me_similarity m (fs_unknown sg) (fs_suggestion sg)
      \<and> me_threshold m \<le> fs_similarity sg
      \<and> (\<forall>k \<in> set known. me_similarity m (fs_unknown sg) k \<le> fs_similarity sg))
    \<and> (\<forall>u \<in> set unknown. (\<exists>sg \<in> set (compute_suggestions m unknown known). fs_unknown sg = u)
         \<longleftrightarrow> (\<exists>k \<in> set known. me_threshold m \<le> me_similarity m u k))"
proof (rule conjI; rule ballI)
  fix sg
  assume "sg \<in> set (compute_suggestions m unknown known)"
  then have u: "fs_unknown sg \<in> set unknown"
    and b: "best_match m (fs_unknown sg) known = Some (fs_suggestion sg, fs_similarity sg)"
    by (auto simp: suggestion_iff)
  note best = best_match_best [of m "fs_unknown sg" known, unfolded b best_of_def option.case prod.case]
  from u best show "fs_unknown sg \<in> set unknown \<and> fs_suggestion sg \<in> set known
      \<and> fs_similarity sg = me_similarity m (fs_unknown sg) (fs_suggestion sg)
      \<and> me_threshold m \<le> fs_similarity sg
      \<and> (\<forall>k \<in> set known. me_similarity m (fs_unknown sg) k \<le> fs_similarity sg)"
    by blast
next
  fix u
  assume u: "u \<in> set unknown"
  show "(\<exists>sg \<in> set (compute_suggestions m unknown known). fs_unknown sg = u)
      \<longleftrightarrow> (\<exists>k \<in> set known. me_threshold m \<le> me_similarity m u k)"
  proof (cases "best_match m u known")
    case None
    with best_match_best [of m u known] show ?thesis
      by (auto simp: suggestion_iff best_of_def)
  next
    case (Some ns)
    with u have "\<lparr>fs_unknown = u, fs_suggestion = fst ns, fs_similarity = snd ns\<rparr>
        \<in> set (compute_suggestions m unknown known)" by (simp add: suggestion_iff)
    moreover have "\<exists>k \<in> set known. me_threshold m \<le> me_similarity m u k"
      using best_match_best [of m u known] Some by (auto simp: best_of_def)
    ultimately show ?thesis by force
  qed
qed

theorem suggestions_closest_witness:
  "list_all (\<lambda>sg. fs_suggestion sg = ''host'')
     (compute_suggestions \<lparr>me_similarity = (\<lambda>a b. if a = b then 2 else 1 :: nat), me_threshold = 1,
        me_zero = 0, me_percent = id\<rparr> [''hots''] [''host''])"
  using suggestions_closest [of "\<lparr>me_similarity = (\<lambda>a b. if a = b then 2 else 1 :: nat),
      me_threshold = 1, me_zero = 0, me_percent = id\<rparr>" "[''hots'']" "[''host'']"]
  by (auto simp: list_all_iff)



text \<open>An unnamed text, tag or elements key stands for the alphabetically first field name
  of that category in the whole schema: the resolutions that hold it are exactly those with
  that field, and a resolution whose field of the category has a later name is not among
  them.\<close>

theorem unnamed_key_is_first_name:
  assumes "schema_wf sc" and "sc_format sc = Format_Dom" and "c = Cat_Text \<or> c = Cat_Tag \<or> c = Cat_Elements"
    and "\<exists>i < length (sc_resolutions sc). \<exists>f \<in> field_infos (sc_resolutions sc ! i).
      fi_category f = c \<and> fi_name f = n"
    and "\<forall>r \<in> set (sc_resolutions sc). \<forall>f \<in> field_infos r. fi_category f = c \<longrightarrow> n \<le> fi_name f"
  shows "key_holders sc (Key_Dom c [])
    = {i. i < length (sc_resolutions sc)
         \<and> (\<exists>f \<in> field_infos (sc_resolutions sc ! i). fi_category f = c \<and> fi_name f = n)}"
proof -
  have "key_holders sc (Key_Dom c []) = having (\<lambda>i. (fi_category i, fi_name i)) (sc_resolutions sc) (c, n)"
    by (rule unnamed_key_holders [OF assms(1,2)]) (use assms(3-5) in \<open>auto simp: having_def\<close>)
  then show ?thesis by (simp add: having_def)
qed

theorem unnamed_key_is_first_name_witness:
  "key_holders dom_schema key_text = {0}"
proof -
  have "key_holders dom_schema (Key_Dom Cat_Text [])
      = {i. i < length (sc_resolutions dom_schema)
           \<and> (\<exists>f \<in> field_infos (sc_resolutions dom_schema ! i). fi_category f = Cat_Text \<and> fi_name f = ''body'')}"
  proof (rule unnamed_key_is_first_name [OF dom_wf dom_format _ _ dom_least])
    show "\<exists>i < length (sc_resolutions dom_schema). \<exists>f \<in> field_infos (sc_resolutions dom_schema ! i).
        fi_category f = Cat_Text \<and> fi_name f = ''body''"
      by (rule exI [of _ 0]) (simp add: dom_len dom_infos)
  qed simp
  also have "\<dots> = {0}"
    by (rule set_eqI) (simp add: dom_len dom_infos less_2_cases_iff cong: conj_cong)
  finally show ?thesis by (simp add: key_text_def)
qed

section \<open>Bit sets\<close>

text \<open>C23: a resolution set is the set of its indices. Within the capacity, insertion does not
  panic and adds the index, \<open>intersect_with\<close> is intersection, \<open>intersects\<close> tells whether the
  sets meet, the cached count is the cardinality, iteration is in increasing order without
  repetition, and \<open>first\<close> is the least index.\<close>

theorem resolution_sets_are_sets:
  assumes "rs_inv n s" and "rs_inv n t" and "i < n"
  shows "(\<exists>s'. rs_insert s i = Some s' \<and> rs_inv n s' \<and> rs_elems s' = insert i (rs_elems s))
    \<and> rs_inv n (rs_intersect_with s t) \<and> rs_elems (rs_intersect_with s t) = rs_elems s \<inter> rs_elems t
    \<and> rs_intersects s t = (rs_elems s \<inter> rs_elems t \<noteq> {})
    \<and> rs_len s = card (rs_elems s) \<and> rs_is_empty s = (rs_elems s = {})
    \<and> rs_iter s = sorted_list_of_set (rs_elems s)
    \<and> rs_first s = (if rs_elems s = {} then None else Some (Min (rs_elems s)))"
  using rs_insert_elems [OF assms(1,3)] rs_intersect_elems [OF assms(1,2)]
    rs_intersects_iff [OF assms(1,2)] rs_inv_count [OF assms(1)] rs_is_empty_iff [OF assms(1)]
    rs_first_Min [of s] rs_first_None [of s]
  by (simp add: rs_iter_eq)

theorem resolution_sets_are_sets_witness:
  "rs_iter (rs_full 65) = [0..<65] \<and> rs_first (rs_full 65) = Some 0
    \<and> rs_len (rs_full 65) = 65"
proof -
  have "Min {..<65 :: nat} = 0" by (rule Min_eqI) auto
  moreover have "sorted_list_of_set {..<65 :: nat} = [0..<65]"
    unfolding lessThan_atLeast0 by (rule sorted_list_of_set_range)
  ultimately show ?thesis
    using resolution_sets_are_sets [OF rs_inv_full rs_inv_full, of 3 65]
    by (simp add: lessThan_empty_iff del: upt_rec_numeral)
qed

text \<open>C24: the bit set of initialised fields behaves as a set in both representations, the word
  for at most 64 fields and the vector above: no operation on a field index panics, and
  \<open>all_set\<close> tells whether all of the first \<open>c\<close> fields are set.\<close>

theorem init_sets_are_sets:
  assumes "iset_inv n s" and "i < n" and "c \<le> n"
  shows "(\<exists>s'. iset_set s i = Some s' \<and> iset_inv n s' \<and> iset_elems s' = insert i (iset_elems s))
    \<and> (\<exists>s'. iset_unset s i = Some s' \<and> iset_inv n s' \<and> iset_elems s' = iset_elems s - {i})
    \<and> iset_get s i = Some (i \<in> iset_elems s)
    \<and> iset_all_set s c = ({..<c} \<subseteq> iset_elems s)"
  using iset_set_spec [OF assms(1,2)] iset_unset_spec [OF assms(1,2)] iset_get_spec [OF assms(1,2)]
    iset_all_set_spec [OF assms(1,3)] by blast

theorem init_sets_are_sets_witness:
  "\<exists>s. iset_set (iset_new 70) 69 = Some s \<and> iset_elems s = {69} \<and> \<not> iset_all_set (iset_new 70) 1"
  using init_sets_are_sets [OF iset_new_inv, of 69 70 1] by auto

section \<open>Variance\<close>

text \<open>C25: the computed variance of a type is the greatest lower bound of what the types on its
  paths contribute: the base variance of a type reached without repeating a type, transformed
  by the positions on the way, and \<open>Invariant\<close> for a path at the depth limit. Cycles
  contribute nothing.\<close>

theorem variance_is_greatest_lower_bound:
  "(\<forall>v. contributes S [] r v \<longrightarrow> computed_variance S r \<le> v)
    \<and> (\<forall>w. (\<forall>v. contributes S [] r v \<longrightarrow> w \<le> v) \<longrightarrow> w \<le> computed_variance S r)"
  using variance_impl_lower [of S "[]" r] variance_impl_greatest [of S "[]" r]
  by (auto simp: computed_variance_def)

theorem variance_is_greatest_lower_bound_witness:
  "computed_variance list_S 0 \<le> vd_base (sh_variance (list_S 0))"
proof -
  have "contributes list_S [] 0 (vd_base (sh_variance (list_S 0)))"
    by (rule contributes.base) (simp_all add: MAX_VARIANCE_DEPTH_def)
  with variance_is_greatest_lower_bound [of list_S 0] show ?thesis by blast
qed

text \<open>For types that do not contain themselves and nest less deep than the limit, the stack
  of visited types has no effect: the variance of a type is computed from the variances of its
  dependencies or fields, each as a computation of its own.\<close>

theorem variance_unfolds:
  assumes "ranked S rank" and "rank (sh_id (S r)) < MAX_VARIANCE_DEPTH"
  shows "computed_variance S r = inner_variance (computed_variance S) (S r)"
  by (rule computed_variance_unfold [OF assms])

theorem variance_unfolds_witness:
  "computed_variance boxed_S 2 = inner_variance (computed_variance boxed_S) (boxed_S 2)"
  by (rule variance_unfolds [OF boxed_ranked]) (simp add: MAX_VARIANCE_DEPTH_def boxed_S_def enum_shape_def)

text \<open>Combining keeps exactly the permissions both have: lifetimes may shrink (grow) in the
  combination if and only if they may in both parts, and flipping swaps the permissions. So
  lifetimes of a type may shrink only where every contribution allows it.\<close>

theorem variance_permissions:
  "can_shrink (combine a b) = (can_shrink a \<and> can_shrink b)
    \<and> can_grow (combine a b) = (can_grow a \<and> can_grow b)
    \<and> can_shrink (flip a) = can_grow a \<and> can_grow (flip a) = can_shrink a
    \<and> can_shrink (computed_variance S r) = (\<forall>v \<in> Collect (contributes S [] r). can_shrink v)"
proof -
  have "Covariant \<le> computed_variance S r \<longleftrightarrow> (\<forall>v. contributes S [] r v \<longrightarrow> Covariant \<le> v)"
    using variance_impl_lower [of S "[]" r] variance_impl_greatest [of S "[]" r Covariant]
    unfolding computed_variance_def by (meson order.trans)
  moreover have "can_grow (flip a) = can_shrink a" "can_shrink (flip a) = can_grow a"
    by (cases a; simp add: can_shrink_def can_grow_def)+
  ultimately show ?thesis by (simp add: can_shrink_iff can_grow_iff combine_inf)
qed

theorem variance_permissions_witness:
  "can_shrink (combine Covariant Bivariant) \<and> \<not> can_grow (combine Covariant Bivariant)"
  using variance_permissions [of Covariant Bivariant] by (simp add: can_shrink_def can_grow_def)

section \<open>Variants by format\<close>

text \<open>An enum's variants are sorted into buckets by their format. Each bucket holds, in
  declaration order, the variants whose format is that of the bucket, every variant is in
  exactly one of the five, and the typed scalar buckets hold scalar variants only.\<close>

theorem variants_sorted_by_format:
  assumes "sh_ty (S r) = Ty_User (User_Enum e)"
    and "variants_from_shape S n r = (Ok (Some b) :: (unit, variants_by_format option) outcome)"
  shows "vb_unit_variants b = of_format S n vf_is_unit (et_variants e)
    \<and> map fst (vb_scalar_variants b) = of_format S n expects_scalar (et_variants e)
    \<and> map fst (vb_tuple_variants b) = of_format S n expects_sequence (et_variants e)
    \<and> vb_struct_variants b = of_format S n expects_mapping (et_variants e)
    \<and> vb_other_variants b = of_format S n other_format (et_variants e)
    \<and> mset (vb_unit_variants b @ map fst (vb_scalar_variants b) @ map fst (vb_tuple_variants b)
        @ vb_struct_variants b @ vb_other_variants b) = mset (et_variants e)
    \<and> set (vb_bool_variants b @ vb_int_variants b @ vb_float_variants b @ vb_string_variants b)
        \<subseteq> set (vb_scalar_variants b)"
  using variants_from_shape_exact [OF assms] variants_from_shape_buckets [OF assms]
  by (simp add: buckets_def bucket_names_def typed_scalars_def ac_simps)

theorem variants_sorted_by_format_witness:
  "\<exists>b. variants_from_shape boxed_S 3 2 = (Ok (Some b) :: (unit, variants_by_format option) outcome)
    \<and> length (vb_unit_variants b @ map fst (vb_scalar_variants b) @ map fst (vb_tuple_variants b)
        @ vb_struct_variants b @ vb_other_variants b) = 2"
proof -
  obtain e where e: "sh_ty (boxed_S 2) = Ty_User (User_Enum e)" "length (et_variants e) = 2"
    using boxed_enum by blast
  obtain b where b: "variants_from_shape boxed_S 3 2 = (Ok (Some b) :: (unit, variants_by_format option) outcome)"
    using boxed_variants by (auto split: outcome.splits option.splits)
  have "mset (vb_unit_variants b @ map fst (vb_scalar_variants b) @ map fst (vb_tuple_variants b)
      @ vb_struct_variants b @ vb_other_variants b) = mset (et_variants e)"
    using variants_sorted_by_format [OF e(1) b] by blast
  from mset_eq_length [OF this] b e(2) show ?thesis by auto
qed

text \<open>Sorting the variants of an enum ends and never fails. On types without cycles of
  pointers, any fuel above the pointer depth gives a result: the buckets of an enum, and none
  of any other type.\<close>

theorem variants_sorted:
  assumes "points S pr" and "\<And>r. pr r < n"
  shows "\<exists>b. variants_from_shape S n r = (Ok b :: (unit, variants_by_format option) outcome)
    \<and> (b \<noteq> None) = (\<exists>e. sh_ty (S r) = Ty_User (User_Enum e))"
proof -
  have total: "variants_from_shape S n r \<noteq> (Overrun :: (unit, variants_by_format option) outcome)"
    by (rule variants_from_shape_fuel [OF assms])
  show ?thesis
  proof (cases "variants_from_shape S n r :: (unit, variants_by_format option) outcome")
    case (Ok b)
    with variants_from_shape_Some [OF Ok] show ?thesis by blast
  qed (use total variants_from_shape_no_error [where 'a = unit] in simp_all)
qed

theorem variants_sorted_witness:
  "\<exists>b. variants_from_shape boxed_S 2 2 = (Ok (Some b) :: (unit, variants_by_format option) outcome)"
  using variants_sorted [OF boxed_points, of 2 2] boxed_enum by force

section \<open>Paths and the shape walker\<close>

text \<open>C26: walking a type ends however the type refers to itself: with fuel above the number of
  type ids that are reachable, every visitor is led to completion or stops the walk.\<close>

theorem walk_ends:
  assumes "reachable_ids S ids R" and "r \<in> R" and "card ids < n"
  shows "\<exists>v' status. walk_shape S vi n r v = (Ok (v', status) :: (unit, 'v \<times> walk_status) outcome)"
  by (rule walk_shape_fuel [OF assms])

theorem walk_ends_witness:
  "\<exists>es status. walk_shape list_S (recorder (\<lambda>p r. Visit_Recurse)) 4 0 []
     = (Ok (es, status) :: (unit, event list \<times> walk_status) outcome)"
  by (rule walk_ends [OF list_reachable]) simp_all

text \<open>C27: a walk that is not stopped enters exactly the places it should: those whose ancestors
  all asked to recurse and repeat no type. Its enters and leaves nest, each leave closing the
  innermost open enter with the same path and shape.\<close>

theorem walk_visits_exactly:
  assumes "walk_shape S (recorder decide) n r [] = Ok (es, Walk_Completed)"
  shows "{(p, t). Enter p t \<in> set es} = {(p, t). visits S decide [] r [] p t}
    \<and> replay es [] = Some []"
  using walk_shape_visits [OF assms] walk_shape_trace(1) [OF assms] by (simp add: entered_def)

theorem walk_visits_exactly_witness:
  "\<exists>es. walk_shape list_S (recorder (\<lambda>p r. Visit_Recurse)) 4 0 [] = Ok (es, Walk_Completed)
     \<and> replay es [] = Some []"
proof -
  obtain es where es: "walk_shape list_S (recorder (\<lambda>p r. Visit_Recurse)) 4 0 [] = Ok (es, Walk_Completed)"
    using list_walk by blast
  with walk_visits_exactly [OF es] show ?thesis by blast
qed

text \<open>The paths the visitor is given lead from the root to the shape it is given: on types
  without sets, multi-dimensional arrays and results, resolving the path of each callback
  reaches the callback's shape.\<close>

theorem walk_paths_lead:
  assumes "\<And>r. resolvable (S r)" and "walk_shape S (recorder decide) n r [] = Ok (es, status)"
  shows "\<forall>e \<in> set es. case e of
      Enter p t \<Rightarrow> resolve_steps S p (r, None) = Some (t, None)
    | Leave p t \<Rightarrow> resolve_steps S p (r, None) = Some (t, None)"
proof -
  have "list_all (event_leads S r) es"
    by (rule walk_shape_trace(2) [OF assms(2) followable_resolvable [OF assms(1)]])
  then show ?thesis by (auto simp: list_all_iff leads_def split: event.splits)
qed

theorem walk_paths_lead_witness:
  "\<exists>es. walk_shape list_S (recorder (\<lambda>p r. Visit_Recurse)) 4 0 [] = Ok (es, Walk_Completed)
     \<and> list_all (\<lambda>e. case e of Enter p t \<Rightarrow> resolve_steps list_S p (0, None) = Some (t, None)
         | Leave p t \<Rightarrow> resolve_steps list_S p (0, None) = Some (t, None)) es"
proof -
  obtain es where es: "walk_shape list_S (recorder (\<lambda>p r. Visit_Recurse)) 4 0 [] = Ok (es, Walk_Completed)"
    using list_walk by blast
  from walk_paths_lead [OF list_resolvable es] es show ?thesis by (auto simp: list_all_iff)
qed

text \<open>The elements of a set, of a multi-dimensional array, and the payloads of a result are
  visited under paths that do not resolve: the path interpreter has no element for the first
  two and no variants for the last.\<close>

theorem element_paths_unresolved:
  assumes "\<not> structural (S r)"
    and "sh_def (S r) = Def_Set t \<or> sh_def (S r) = Def_NdArray t \<or> sh_def (S r) = Def_Result t u"
    and "walk_shape S (recorder (\<lambda>p r. Visit_Recurse)) n r [] = Ok (es, Walk_Completed)"
  shows "\<exists>p. Enter p t \<in> set es \<and> resolve_steps S p (r, None) = None"
proof -
  obtain p where p: "(p, t) \<in> set (children (S r))" "resolve_steps S p (r, None) = None"
    using unresolved_child [of S r t u, OF assms(1,2)] by blast
  have "visits S (\<lambda>p r. Visit_Recurse) [] r [] p t"
    using visits.below [where S = S and p = "[]", OF _ _ p(1) visits.here] by simp
  with walk_shape_visits [OF assms(3)] p(2) show ?thesis by (auto simp: entered_def)
qed

theorem element_paths_unresolved_witness:
  "\<exists>p es. walk_shape set_S (recorder (\<lambda>p r. Visit_Recurse)) 4 0 [] = Ok (es, Walk_Completed)
     \<and> Enter p 1 \<in> set es \<and> resolve_steps set_S p (0, None) = None"
proof -
  obtain es where es: "walk_shape set_S (recorder (\<lambda>p r. Visit_Recurse)) 4 0 [] = Ok (es, Walk_Completed)"
    using set_walk by blast
  with element_paths_unresolved [of set_S 0 1 0, OF _ _ es] show ?thesis
    by (auto simp: set_S_def opaque_shape_def structural_def)
qed

text \<open>A path that resolves to a field leads to the field's shape, and its display ends in
  the field's name; pushing and popping a step changes nothing.\<close>

theorem field_paths_named:
  assumes "resolve_leaf_field S p r = Some f"
  shows "resolve_steps S (p_steps p) (r, None) = Some (f_shape f, None)
    \<and> (f_name f \<noteq> [] \<longrightarrow> (\<exists>prefix. format_with_shape S p r = prefix @ f_name f))
    \<and> path_pop (path_push p step) = (p, Some step)"
  using leaf_field_shape [OF assms] leaf_field_format [OF assms] by auto

theorem field_paths_named_witness:
  "\<exists>prefix. format_with_shape list_S (path_push (path_new 0) (Step_Field 0)) 0 = prefix @ ''next''"
proof -
  have "resolve_leaf_field list_S (path_push (path_new 0) (Step_Field 0)) 0 = Some (plain_field 1 ''next'' 1)"
    by (simp add: resolve_leaf_field_def path_push_def path_new_def resolve_steps_def
        get_field_with_variant_def list_S_def struct_shape_def rust_struct_def opaque_shape_def nth_opt_def)
  from field_paths_named [OF this] show ?thesis by (auto simp: plain_field_def)
qed

section \<open>Type plans\<close>

text \<open>C28: every type plan is well typed. In a plan built from a shape, every node's kind and
  strategy fit the node's shape, every node identifier it holds is in the arena and leads to a node
  of the right part's type, every range it holds is in its arena and holds the plans of the shape's
  fields or variants, every back reference resolves in one step to a proper node of the same type,
  and the root is a node of the shape.\<close>

theorem plan_is_linked:
  assumes "build_uncached S n s = Ok c" and "core_fits c"
  shows "plan_linked S c \<and> leads_to S c (pc_root c) s
    \<and> (\<forall>i nd. node_at c i = Some nd \<longrightarrow>
         (\<exists>m. resolve_backref c nd = Some m \<and> \<not> is_backref m \<and> node_linked S c m \<and> node_tid S m = node_tid S nd))"
proof (intro conjI allI impI)
  show linked: "plan_linked S c" and "leads_to S c (pc_root c) s" using build_uncached_Ok [OF assms] .
  fix i nd
  assume "node_at c i = Some nd"
  with linked show "\<exists>m. resolve_backref c nd = Some m \<and> \<not> is_backref m \<and> node_linked S c m \<and> node_tid S m = node_tid S nd"
    by (rule resolve_in_plan) blast
qed

theorem plan_is_linked_witness:
  "plan_linked list_S list_plan \<and> leads_to list_S list_plan (pc_root list_plan) 0 \<and> length (pc_nodes list_plan) = 4"
  using plan_is_linked [OF list_plan_build list_plan_fits] arg_cong [OF list_plan_nodes, of length] by simp

text \<open>Navigation by node identifiers never panics and never loops, through back references
  too, and leads from a node to the parts of its type: the items of a list, array or slice, the
  elements of a set, the keys and values of a map, the payloads of an option and a result, and
  the pointee of a pointer.\<close>

theorem plan_navigation:
  assumes "build_uncached S n s = Ok c" and "core_fits c" and "node_at c i = Some nd"
  shows "\<exists>m. resolve_backref c nd = Some m \<and> node_tid S m = node_tid S nd
    \<and> list_item_node_id c i = Some (pick_list_item (nd_strategy m))
    \<and> leads_part S c (list_item_node_id c i) (item_of (S (nd_shape m)))
    \<and> leads_part S c (set_item_node_id c i) (\<lambda>t. sh_def (S (nd_shape m)) = Def_Set t)
    \<and> leads_part S c (map_key_node_id c i) (\<lambda>t. \<exists>v. sh_def (S (nd_shape m)) = Def_Map t v)
    \<and> leads_part S c (map_value_node_id c i) (\<lambda>t. \<exists>k. sh_def (S (nd_shape m)) = Def_Map k t)
    \<and> leads_part S c (option_some_node_id c i) (\<lambda>t. sh_def (S (nd_shape m)) = Def_Option t)
    \<and> leads_part S c (pointer_inner_node_id c i) (\<lambda>t. sh_def (S (nd_shape m)) = Def_Pointer (Some t))
    \<and> leads_part S c (map_option (map_option fst) (result_nodes_id c i)) (\<lambda>t. \<exists>e. sh_def (S (nd_shape m)) = Def_Result t e)
    \<and> leads_part S c (map_option (map_option snd) (result_nodes_id c i)) (\<lambda>e. \<exists>t. sh_def (S (nd_shape m)) = Def_Result t e)"
  by (rule navigation_links [OF build_uncached_Ok(1) [OF assms(1,2)] assms(3)])

theorem plan_navigation_witness:
  "\<exists>m. leads_part list_S list_plan (option_some_node_id list_plan 2) (\<lambda>t. sh_def (list_S (nd_shape m)) = Def_Option t)
     \<and> node_tid list_S m = Tid_Other 11"
proof -
  obtain nd where nd: "node_at list_plan 2 = Some nd" "nd_shape nd = 1" using list_plan_option by blast
  have "node_tid list_S nd = Tid_Other 11" using nd(2) by (simp add: node_tid_def list_S_def opaque_shape_def)
  with plan_navigation [OF list_plan_build list_plan_fits nd(1)] show ?thesis by auto
qed

text \<open>C29: names lead to fields. From any node of a struct, the lookup of a name answers the first
  field, in the order of declaration, that has the name as its effective name or its alias,
  navigation by that index leads to a node of the field's type, and a name that no field has
  finds nothing.\<close>

theorem plan_finds_fields:
  assumes "build_uncached S n s = Ok c" and "core_fits c" and "node_at c i = Some nd"
    and "as_struct_plan c nd = Some (Some sp)"
  defines "fs \<equiv> st_fields (sp_struct_def sp)"
  shows "(\<exists>m. resolve_backref c nd = Some m \<and> sh_ty (S (nd_shape m)) = Ty_User (User_Struct (sp_struct_def sp))
      \<and> node_tid S m = node_tid S nd)
    \<and> (case field_find c (sp_field_lookup sp) name of
        None \<Rightarrow> False
      | Some None \<Rightarrow> \<forall>f \<in> set fs. effective_name f \<noteq> name \<and> f_alias f \<noteq> Some name
      | Some (Some k) \<Rightarrow> k < length fs \<and> (effective_name (fs ! k) = name \<or> f_alias (fs ! k) = Some name)
          \<and> (\<forall>j < k. effective_name (fs ! j) \<noteq> name \<and> f_alias (fs ! j) \<noteq> Some name)
          \<and> (\<exists>j. struct_field_node_id c i k = Some (Some j) \<and> leads_to S c j (f_shape (fs ! k))))"
proof -
  note nav = struct_navigation [OF build_uncached_Ok(1) [OF assms(1,2)] assms(3,4), folded fs_def]
  show ?thesis
  proof (cases "first_answer name fs")
    case None
    with nav(1,4) first_answer_None [OF None] show ?thesis by simp
  next
    case (Some k)
    with nav first_answer_Some [OF Some] show ?thesis by simp
  qed
qed

theorem plan_finds_fields_witness:
  "\<exists>sp :: struct_plan. (case field_find list_plan (sp_field_lookup sp) ''next'' of
        Some (Some k) \<Rightarrow> k = 0 \<and> (\<exists>j. struct_field_node_id list_plan 0 k = Some (Some j) \<and> leads_to list_S list_plan j 1)
      | _ \<Rightarrow> False)"
proof -
  obtain nd where nd: "node_at list_plan 0 = Some nd" "nd_shape nd = 0" using list_plan_at by blast
  have "case node_at list_plan 0 of Some nd \<Rightarrow>
      (case as_struct_plan list_plan nd of Some (Some sp) \<Rightarrow>
         map f_name (st_fields (sp_struct_def sp)) = [''next''] | _ \<Rightarrow> False) | _ \<Rightarrow> False"
    by code_simp
  then obtain sp where sp: "as_struct_plan list_plan nd = Some (Some sp)"
    using nd(1) by (auto split: option.splits)
  note found = plan_finds_fields [OF list_plan_build list_plan_fits nd(1) sp, of "''next''"]
  obtain m :: plan_node where "sh_ty (list_S (nd_shape m)) = Ty_User (User_Struct (sp_struct_def sp))"
    using conjunct1 [OF found] by blast
  then have "rust_struct [plain_field 1 ''next'' 1] = sp_struct_def sp"
    by (auto simp: list_S_def struct_shape_def opaque_shape_def split: if_splits)
  from arg_cong [OF this, of st_fields] have fs: "st_fields (sp_struct_def sp) = [plain_field 1 ''next'' 1]"
    by (simp add: rust_struct_def)
  show ?thesis
    using found by (intro exI [of _ sp]) (auto simp: fs plain_field_def effective_name_def split: option.splits)
qed

text \<open>C30: a plan holds one node for each type. Two nodes of the same type that are neither back
  references nor built for a proxy of a field are the same node, so a type that is reached along many
  paths is planned once.\<close>

theorem plan_shares_nodes:
  assumes "build_uncached S n s = Ok c" and "core_fits c"
    and "node_at c i = Some x" and "node_at c j = Some y" and "is_shared x" and "is_shared y"
    and "sh_id (S (nd_shape x)) = sh_id (S (nd_shape y))"
  shows "i = j"
  using shared_unique [OF build_uncached_Ok(1) [OF assms(1,2)] assms(3-6)] assms(7) by (simp add: node_tid_def)

theorem plan_shares_nodes_witness:
  "\<exists>x y. node_at list_plan 0 = Some x \<and> node_at list_plan 3 = Some y \<and> is_shared y
     \<and> sh_id (list_S (nd_shape x)) = sh_id (list_S (nd_shape y)) \<and> \<not> is_shared x"
proof -
  obtain x y where xy: "node_at list_plan 0 = Some x" "nd_shape x = 0" "node_at list_plan 3 = Some y"
    "is_shared y" "nd_shape y = 0"
    using list_plan_at list_plan_root by blast
  have "\<not> is_shared x"
    using plan_shares_nodes [OF list_plan_build list_plan_fits xy(1,3) _ xy(4)] xy(2,5) by auto
  with xy show ?thesis by auto
qed

text \<open>C31: building a plan ends, for recursive types too. Where the types that can be reached
  lay out in finite memory, with at most \<open>L\<close> levels of nesting by value, the recursion needs no more
  than \<open>L + 2\<close> levels for each of the reachable types.\<close>

theorem plan_build_ends:
  assumes "finite X" and "closed_under_refs S X" and "lays_out S lay" and "\<And>s. s \<in> X \<Longrightarrow> lay s \<le> L"
    and "s \<in> X" and "card ((\<lambda>s. sh_id (S s)) ` X) * (L + 2) < n"
  shows "build_uncached S n s \<noteq> Overrun"
  by (rule build_uncached_ends [OF assms])

theorem plan_build_ends_witness: "build_uncached list_S 10 0 \<noteq> Overrun"
proof -
  have "card ((\<lambda>s. sh_id (list_S s)) ` {0, 1, 2}) \<le> card {0, 1, 2 :: sref}" by (rule card_image_le) simp
  then have "card ((\<lambda>s. sh_id (list_S s)) ` {0, 1, 2}) * (1 + 2) < 10" by simp
  then show ?thesis by (intro plan_build_ends [OF _ list_closed list_lays_out, of 1]) auto
qed

text \<open>C32: the two lookup structures agree. The lookup that is built for a list of names, buckets by
  the first four or eight bytes of the name and a binary search when there are more than
  eight names, answers as the linear search in that list, and goes on doing so as the arenas grow.\<close>

theorem field_lookup_is_linear:
  assumes "build_field_lookup_from_entries es fes bks = (l, fes', bks')"
    and "length fes + length es < 2 ^ 32" and "length bks + length es < 2 ^ 32"
  shows "lookup_find l name (fes' @ x) (bks' @ y) = Some (find_entry name es)"
  using lookup_entries_correct [OF assms(1)] lookup_sizes [OF assms(1)] assms(2,3) by simp

theorem field_lookup_is_linear_witness:
  "case build_field_lookup_from_entries many_entries [] [] of (l, fes, bks) \<Rightarrow>
     lookup_find l ''name'' fes bks = Some (Some 1) \<and> lookup_find l ''nam'' fes bks = Some None \<and> 0 < length bks"
proof -
  obtain l fes bks where b: "build_field_lookup_from_entries many_entries [] [] = (l, fes, bks)"
    by (metis prod_cases3)
  have "find_entry ''name'' many_entries = Some 1" "find_entry ''nam'' many_entries = None" by code_simp+
  moreover have "0 < length (snd (snd (build_field_lookup_from_entries many_entries [] [])))" by code_simp
  ultimately show ?thesis
    using field_lookup_is_linear [OF b, of _ "[]" "[]"] by (simp add: b many_entries_len)
qed

text \<open>C33: the variant a name stands for. Where the variants that are not the fallback have distinct
  names, the lookup answers the variant of that name, else the first declared variant
  with that alias; the fallback variant is never found, by its name or by an alias.\<close>

theorem variant_lookup_decides:
  assumes "distinct (map (vm_name \<circ> snd) (known_variants vs))"
  shows "vlookup_find (build_variant_lookup vs) name =
      (case List.find (\<lambda>(i, v). vm_name v = name) (known_variants vs) of
         Some (i, v) \<Rightarrow> Some i
       | None \<Rightarrow> map_option fst
           (List.find (\<lambda>(i, v). name \<in> set (variant_aliases (vm_variant v))) (known_variants vs)))"
  by (simp only: variant_lookup_map_of [OF assms] variant_entries_map_of)

theorem variant_lookup_decides_witness:
  "map (vlookup_find (build_variant_lookup many_variants)) [''as'', ''first'', ''es'', ''x'']
     = [Some 3, Some 0, Some 4, None]"
proof -
  have "distinct (map (vm_name \<circ> snd) (known_variants many_variants))" by code_simp
  note find = variant_lookup_decides [OF this]
  show ?thesis by (simp add: find) code_simp
qed





section \<open>What the derive macro reads\<close>

text \<open>C36: What an item becomes when the derive macro parses it. Every variant and field is kept in
  order, under the name written for it (the last rename attribute, its text without quotes), else
  under the name its container's rule makes of it, else under its own; the fields of a variant follow
  the rule of the variant, not of the enum, and raw identifiers lose their prefix. The container keeps
  its name, its attributes, its generic parameters and its where clauses.\<close>

theorem parsed_items_follow_source:
  assumes "parse_type M grammar ts = Some (Inr p)"
  shows "\<exists>d. grammar ts = Inr d \<and> item_follows M d p"
  by (rule parse_type_follows [OF assms])

theorem parsed_items_follow_source_witness:
  "\<exists>p. item_follows sample_text (Adt_Enum renamed_enum) p \<and> item_renames p = sample_renames"
proof -
  obtain p where p: "parse_type sample_text sample_grammar [] = Some (Inr p)" "item_renames p = sample_renames"
    using sample_parses by (auto split: option.splits sum.splits)
  from parsed_items_follow_source [OF p(1)] p(2) show ?thesis by (auto simp: sample_grammar_def)
qed

text \<open>C37: What the derive macro keeps of the attributes of an item. It aborts exactly when a
  documentation literal cannot be read. Otherwise it keeps all facet attributes and documentation
  lines in order; the last rename, the last rename rule it knows and the last crate path decide, while
  a query for the arguments of an attribute answers the first; the errors it will emit are those of
  the representations before the first one that is taken, then those of the facet attributes, in
  order; and a second representation after one that was taken leaves the sentinel for which the macro
  generates nothing.\<close>

theorem attributes_decide:
  "case attrs_parse M attrs of
     None \<Rightarrow> (\<exists>a \<in> set attrs. attr_aborts a)
   | Some p \<Rightarrow>
       \<not> (\<exists>a \<in> set attrs. attr_aborts a)
       \<and> pa_facet p = concat (map inner_attrs attrs) \<and> pa_doc p = concat (map doc_line attrs)
       \<and> pa_rename p = map_option (args_text M) (last_opt (builtin_args (codes ''rename'') (pa_facet p)))
       \<and> pa_rename_all p = last_opt (rules_given M (pa_facet p))
       \<and> pa_crate_path p = last_opt (builtin_args (codes ''crate'') (pa_facet p))
       \<and> pa_custom_bounds p = filter (\<lambda>ts. ts \<noteq> []) (builtin_args (codes ''where'') (pa_facet p))
       \<and> get_builtin_args M p key = map_option (args_text M) (first_opt (builtin_args key (pa_facet p)))
       \<and> pa_errors p = repr_faults (concat (map repr_lists attrs)) @ concat (map (facet_faults M) (pa_facet p))
       \<and> pa_repr p = (case repr_result (concat (map repr_lists attrs)) of Some r \<Rightarrow> r | None \<Rightarrow> Pr_Rust None)"
proof (cases "attrs_parse M attrs")
  case None
  then show ?thesis using attrs_parse_aborts [of M attrs] by simp
next
  case (Some p)
  then have "\<not> (\<exists>a \<in> set attrs. attr_aborts a)" using attrs_parse_aborts [of M attrs] by simp
  with Some attrs_parse_keeps [OF Some] attrs_parse_errors [OF Some] get_builtin_args_first [of M p key]
  show ?thesis by simp
qed

text \<open>C38: A list of representation hints is accepted exactly when the hints are known and agree
  (transparent stands alone, one of C and Rust, one primitive), and then means what they say, in
  whatever order they are written. An unsupported hint is reported when the hints before it agree; a
  conflict found first is left to rustc.\<close>

theorem repr_hints_decide:
  "(repr_parse items = Ok r \<longleftrightarrow>
      (\<exists>hs. map hint_of items = map Some hs \<and> hints_agree hs \<and> r = Some (repr_meant hs)))
   \<and> (repr_parse items = Err (Facet_Error m) \<longleftrightarrow>
      (\<exists>pre s post hs. items = pre @ s # post \<and> map hint_of pre = map Some hs \<and> hints_agree hs
         \<and> hint_of s = None \<and> m = Unsupported_Repr s))
   \<and> (mset items = mset items' \<longrightarrow> (repr_parse items = Ok r \<longleftrightarrow> repr_parse items' = Ok r))"
  using repr_parse_Ok repr_parse_unsupported repr_parse_perm [of items items' r] repr_parse_perm [of items' items r]
  by metis

theorem repr_hints_decide_witness:
  "repr_parse [codes ''u8'', codes ''C''] = Ok (Some (Pr_C (Some Pm_U8)))"
proof -
  have "repr_parse [codes ''C'', codes ''u8''] = Ok (Some (Pr_C (Some Pm_U8)))" by code_simp
  moreover have "mset [codes ''C'', codes ''u8''] = mset [codes ''u8'', codes ''C'']" by simp
  ultimately show ?thesis
    using repr_hints_decide [of "[codes ''C'', codes ''u8'']" "Some (Pr_C (Some Pm_U8))" undefined "[codes ''u8'', codes ''C'']"]
    by blast
qed


section \<open>Rename rules\<close>

text \<open>C40: renaming is undone by snake case. A snake-case name is a list of words, each a lower-case
  letter and then lower-case letters and digits, at least two characters in all. Every rule but
  \<open>lowercase\<close> and \<open>UPPERCASE\<close>, which run the words together, returns a name from which the rule
  \<open>snake_case\<close> gives back the original; the two rules that capitalise the whole name need words
  without digits, since a digit before a capital starts a word.\<close>

theorem rename_roundtrip:
  assumes "usual_on_ascii T" and "\<forall>w \<in> set ws. snake_word w" and "r \<notin> {Lowercase, Uppercase}"
    and "r \<in> {ScreamingSnakeCase, ScreamingKebabCase} \<Longrightarrow> \<forall>w \<in> set ws. letter_word w"
  shows "\<exists>s. apply_rule T r (snake_name ws) = Some s \<and> apply_rule T SnakeCase s = Some (snake_name ws)"
  using words_after_rule [OF assms(1,2,4,3)] by (auto simp: to_snake_case_def snake_name_def)

theorem rename_roundtrip_witness:
  "\<exists>s. apply_rule ascii_tables PascalCase (snake_name [codes ''http2'', codes ''url'']) = Some s
    \<and> apply_rule ascii_tables SnakeCase s = Some (codes ''http2_url'')"
proof -
  have "\<forall>w \<in> set [codes ''http2'', codes ''url'']. snake_word w"
    by (simp add: snake_word_def codes_def lower_letter_def ascii_digit_def)
  moreover have "snake_name [codes ''http2'', codes ''url''] = codes ''http2_url''" by code_simp
  ultimately show ?thesis
    using rename_roundtrip [OF ascii_tables_usual, of "[codes ''http2'', codes ''url'']" PascalCase] by simp
qed

end
